(* ===== verification/Prelude.thy ===== *)
theory Prelude
  imports Main "HOL-Library.Word" "HOL-Library.AList" "HOL-Library.Multiset"
begin

text \<open>
  The notions every component of the development shares: the 64-bit integers of Go, points
  in time, Go maps as association lists with distinct keys, the buffered channels the program
  uses as counting semaphores, and the interface of a permit pool that those channels provide.
\<close>

named_theorems go_int \<open>bounds and wrap-around of the 64-bit integers\<close>
named_theorems go_map \<open>lookup, update and sums over Go maps\<close>

section \<open>Machine integers\<close>

text \<open>
  A Go \<open>int64\<close> is an \<open>int\<close> in the range below; an operation that can leave the
  range is written \<open>i64 (a + b)\<close>, the two's complement value of the exact result.
\<close>

definition max_i64 :: int where
  "max_i64 = 9223372036854775807"

definition min_i64 :: int where
  "min_i64 = - 9223372036854775808"

definition in_i64 :: "int \<Rightarrow> bool" where
  "in_i64 x \<longleftrightarrow> min_i64 \<le> x \<and> x \<le> max_i64"

definition i64 :: "int \<Rightarrow> int" where
  "i64 x = signed_take_bit 63 x"

lemma i64_word: "i64 x = sint (word_of_int x :: 64 word)"
  by (simp add: i64_def signed_word_eqI sint_sbintrunc')

lemma i64_id [simp, go_int]: "in_i64 x \<Longrightarrow> i64 x = x"
  by (simp add: i64_def in_i64_def min_i64_def max_i64_def signed_take_bit_int_eq_self)

lemma i64_0 [simp]: "i64 0 = 0"
  by (simp add: i64_def)

lemma in_i64_i64 [simp, go_int]: "in_i64 (i64 x)"
proof -
  have "- (2 ^ 63) \<le> signed_take_bit 63 x" "signed_take_bit 63 x < 2 ^ 63"
    by (rule signed_take_bit_int_greater_eq_minus_exp, rule signed_take_bit_int_less_exp)
  then show ?thesis
    by (simp add: i64_def in_i64_def min_i64_def max_i64_def)
qed

lemma in_i64_nonneg [go_int]: "0 \<le> x \<Longrightarrow> x \<le> max_i64 \<Longrightarrow> in_i64 x"
  by (simp add: in_i64_def min_i64_def)

lemma in_i64_between: "in_i64 a \<Longrightarrow> in_i64 b \<Longrightarrow> a \<le> x \<Longrightarrow> x \<le> b \<Longrightarrow> in_i64 x"
  by (simp add: in_i64_def)

text \<open>Addition that stops at the largest value, as the accounting code writes it out.\<close>

definition sat_add :: "int \<Rightarrow> int \<Rightarrow> int" where
  "sat_add a b = (if a > max_i64 - b then max_i64 else a + b)"

lemma sat_add_min [go_int]: "sat_add a b = min max_i64 (a + b)"
  by (auto simp: sat_add_def)

section \<open>Time\<close>

text \<open>
  A \<open>time.Time\<close> is the number of nanoseconds since Go's zero time, so that the zero value
  of the type is \<open>0\<close>; a \<open>time.Duration\<close> is a number of nanoseconds. \<open>t.Add d\<close>
  is exact; \<open>t.Sub u\<close> saturates at the range of \<open>int64\<close>.
\<close>

type_synonym time = int
type_synonym duration = int

definition second :: duration where
  "second = 1000000000"

definition minute :: duration where
  "minute = 60 * second"

definition time_sub :: "time \<Rightarrow> time \<Rightarrow> duration" where
  "time_sub t u = max min_i64 (min max_i64 (t - u))"

lemma second_pos [simp]: "0 < second"
  by (simp add: second_def)

lemma minute_pos [simp]: "0 < minute"
  by (simp add: minute_def)

lemma time_sub_less: "min_i64 < d \<Longrightarrow> d \<le> max_i64 \<Longrightarrow> (time_sub t u < d) = (t - u < d)"
  by (auto simp: time_sub_def min_i64_def max_i64_def)

section \<open>Go maps\<close>

text \<open>
  A Go map is an association list whose keys are distinct. The order of the list stands for
  the unspecified order in which \<open>range\<close> visits a map: a theorem about every list is a
  theorem about every iteration order.
\<close>

type_synonym ('k, 'v) gomap = "('k \<times> 'v) list"

abbreviation mget :: "('k, 'v) gomap \<Rightarrow> 'k \<Rightarrow> 'v option" where
  "mget m k \<equiv> map_of m k"

abbreviation mput :: "'k \<Rightarrow> 'v \<Rightarrow> ('k, 'v) gomap \<Rightarrow> ('k, 'v) gomap" where
  "mput \<equiv> AList.update"

abbreviation mdel :: "'k \<Rightarrow> ('k, 'v) gomap \<Rightarrow> ('k, 'v) gomap" where
  "mdel \<equiv> AList.delete"

definition mwf :: "('k, 'v) gomap \<Rightarrow> bool" where
  "mwf m \<longleftrightarrow> distinct (map fst m)"

text \<open>The value a Go map read yields: the zero value for a missing key.\<close>

definition mget_or :: "'v \<Rightarrow> ('k, 'v) gomap \<Rightarrow> 'k \<Rightarrow> 'v" where
  "mget_or z m k = (case mget m k of None \<Rightarrow> z | Some v \<Rightarrow> v)"

definition msum :: "('k \<Rightarrow> 'v \<Rightarrow> int) \<Rightarrow> ('k, 'v) gomap \<Rightarrow> int" where
  "msum f m = (\<Sum>(k, v)\<leftarrow>m. f k v)"

lemma mwf_Nil [simp]: "mwf []"
  by (simp add: mwf_def)

lemma mwf_mput [simp]: "mwf m \<Longrightarrow> mwf (mput k v m)"
  by (simp add: mwf_def distinct_update)

lemma mwf_mdel [simp]: "mwf m \<Longrightarrow> mwf (mdel k m)"
  by (simp add: mwf_def distinct_delete)

lemma mwf_filter [simp]: "mwf m \<Longrightarrow> mwf (filter P m)"
  by (simp add: mwf_def distinct_map_filter)

lemma mget_mput [simp]: "mget (mput k v m) k' = (if k' = k then Some v else mget m k')"
  by (simp add: update_conv')

lemma mget_mdel [simp]: "mget (mdel k m) k' = (if k' = k then None else mget m k')"
  by (simp add: delete_conv')

lemma mget_in_set: "mget m k = Some v \<Longrightarrow> (k, v) \<in> set m"
  by (rule map_of_SomeD)

lemma in_set_mget: "mwf m \<Longrightarrow> (k, v) \<in> set m \<Longrightarrow> mget m k = Some v"
  by (simp add: mwf_def)

lemma mget_None_iff: "mget m k = None \<longleftrightarrow> k \<notin> fst ` set m"
  by (simp add: map_of_eq_None_iff)

lemma mdel_id: "mget m k = None \<Longrightarrow> mdel k m = m"
  by (induction m) (auto split: if_splits)

lemma mwf_Cons [simp]: "mwf ((k, v) # m) \<longleftrightarrow> mget m k = None \<and> mwf m"
  by (auto simp: mwf_def mget_None_iff)

lemma mget_filter: "mwf m \<Longrightarrow>
    mget (filter (\<lambda>(k, v). P k v) m) k =
      (case mget m k of None \<Rightarrow> None | Some v \<Rightarrow> if P k v then Some v else None)"
proof (induction m)
  case (Cons a m)
  then show ?case
    by (cases a) (auto split: option.splits if_splits)
qed simp

lemma length_mdel_Some: "mwf m \<Longrightarrow> mget m k = Some v \<Longrightarrow> Suc (length (mdel k m)) = length m"
proof (induction m)
  case (Cons a m)
  then show ?case
    by (cases a) (auto simp: mdel_id split: if_splits)
qed simp

lemma length_mdel: "mwf m \<Longrightarrow>
    length (mdel k m) = length m - (case mget m k of None \<Rightarrow> 0 | Some _ \<Rightarrow> 1)"
  by (cases "mget m k") (auto simp: mdel_id dest: length_mdel_Some)

lemma length_mput: "length (mput k v m) = length m + (case mget m k of None \<Rightarrow> 1 | Some _ \<Rightarrow> 0)"
  by (induction m) (auto split: option.splits)

lemma length_mdel_le [simp]: "length (mdel k m) \<le> length m"
  by (simp add: AList.delete_eq)

lemma msum_Nil [simp]: "msum f [] = 0"
  by (simp add: msum_def)

lemma msum_Cons [simp]: "msum f ((k, v) # m) = f k v + msum f m"
  by (simp add: msum_def)

lemma msum_mput: "msum f (mput k v m) =
    msum f m + f k v - (case mget m k of None \<Rightarrow> 0 | Some u \<Rightarrow> f k u)"
  by (induction m) (auto split: option.splits)

lemma msum_mdel: "mwf m \<Longrightarrow>
    msum f (mdel k m) = msum f m - (case mget m k of None \<Rightarrow> 0 | Some u \<Rightarrow> f k u)"
proof (induction m)
  case (Cons a m)
  then show ?case
    by (cases a) (auto simp: mdel_id split: option.splits if_splits)
qed simp

lemma msum_nonneg: "(\<And>k v. (k, v) \<in> set m \<Longrightarrow> 0 \<le> f k v) \<Longrightarrow> 0 \<le> msum f m"
  unfolding msum_def by (rule sum_list_nonneg) auto

lemma msum_zero: "(\<And>k v. (k, v) \<in> set m \<Longrightarrow> f k v = 0) \<Longrightarrow> msum f m = 0"
  by (induction m) auto

lemma msum_filter_le:
  "(\<And>k v. (k, v) \<in> set m \<Longrightarrow> 0 \<le> f k v) \<Longrightarrow> msum f (filter P m) \<le> msum f m"
proof (induction m)
  case (Cons a m)
  obtain k v where a: "a = (k, v)" by (cases a)
  have "0 \<le> f k v" using Cons.prems [of k v] a by simp
  moreover have "msum f (filter P m) \<le> msum f m"
    using Cons.prems by (intro Cons.IH) simp
  ultimately show ?case using a by simp
qed simp

lemma msum_member_le:
  assumes "\<And>k v. (k, v) \<in> set m \<Longrightarrow> 0 \<le> f k v" and "(k, v) \<in> set m"
  shows "f k v \<le> msum f m"
  using assms
proof (induction m)
  case (Cons a m)
  obtain k' v' where a: "a = (k', v')" by (cases a)
  have "0 \<le> f k' v'" using Cons.prems(1) [of k' v'] a by simp
  moreover have "0 \<le> msum f m" using Cons.prems(1) by (intro msum_nonneg) simp
  moreover have "f k v \<le> msum f m" if "(k, v) \<in> set m"
    using Cons.prems(1) that by (intro Cons.IH) auto
  ultimately show ?case using Cons.prems(2) a by auto
qed simp

lemma append_split_notin: "us @ vs = xs @ x # ys \<Longrightarrow> x \<notin> set us \<Longrightarrow> set ys \<subseteq> set vs"
proof (induction us arbitrary: xs)
  case (Cons u us)
  then show ?case by (cases xs) auto
qed auto

lemmas [go_map] = mget_mput mget_mdel length_mput length_mdel msum_mput msum_mdel

lemma foldl_invariant: "P a \<Longrightarrow> (\<And>a i. P a \<Longrightarrow> i \<in> set is \<Longrightarrow> P (f a i)) \<Longrightarrow> P (foldl f a is)"
  by (induction "is" arbitrary: a) auto

section \<open>Buffered channels as counting semaphores\<close>

text \<open>
  A \<open>chan struct{}\<close> made with a capacity holds that many tokens. Sending adds one and
  blocks when the buffer is full, receiving removes one and blocks when it is empty; a
  \<open>select\<close> with a \<open>default\<close> branch takes the latter where the operation would block.
  Blocking is the value \<open>None\<close>.
\<close>

record chan =
  chan_cap :: nat
  chan_held :: nat

definition make_chan :: "nat \<Rightarrow> chan" where
  "make_chan n = \<lparr>chan_cap = n, chan_held = 0\<rparr>"

definition chan_send :: "chan \<Rightarrow> chan option" where
  "chan_send c = (if chan_held c < chan_cap c then Some (c\<lparr>chan_held := Suc (chan_held c)\<rparr>) else None)"

definition chan_recv :: "chan \<Rightarrow> chan option" where
  "chan_recv c = (if chan_held c = 0 then None else Some (c\<lparr>chan_held := chan_held c - 1\<rparr>))"

text \<open>The contract a client of a semaphore relies on.\<close>

locale permit_pool =
  fixes take :: "'p \<Rightarrow> 'p option"
    and give :: "'p \<Rightarrow> 'p option"
    and held :: "'p \<Rightarrow> nat"
    and limit :: "'p \<Rightarrow> nat"
  assumes take_Some: "take p = Some q \<Longrightarrow> held p < limit p \<and> held q = Suc (held p) \<and> limit q = limit p"
    and take_None: "take p = None \<Longrightarrow> limit p \<le> held p"
    and give_Some: "give p = Some q \<Longrightarrow> held p = Suc (held q) \<and> limit q = limit p"
    and give_None: "give p = None \<Longrightarrow> held p = 0"
begin

lemma take_within: "take p = Some q \<Longrightarrow> held q \<le> limit q"
  using take_Some by fastforce

lemma give_within: "held p \<le> limit p \<Longrightarrow> give p = Some q \<Longrightarrow> held q \<le> limit q"
  using give_Some by fastforce

lemma give_enabled: "0 < held p \<Longrightarrow> \<exists>q. give p = Some q"
  using give_None by (cases "give p") auto

lemma take_then_give: "take p = Some q \<Longrightarrow> \<exists>r. give q = Some r \<and> held r = held p \<and> limit r = limit p"
proof -
  assume t: "take p = Some q"
  then have h: "held q = Suc (held p)" "limit q = limit p"
    using take_Some by auto
  then obtain r where r: "give q = Some r"
    using give_enabled [of q] by auto
  then show ?thesis
    using give_Some [OF r] h by auto
qed

end

interpretation chan_pool: permit_pool chan_send chan_recv chan_held chan_cap
  by unfold_locales (auto simp: chan_send_def chan_recv_def split: if_splits)

end
