(* ===== verification/Limit_Listener.thy ===== *)
theory Limit_Listener
  imports Prelude
begin

text \<open>
  \<open>cmd/meridian/limit_listener.go\<close>: the listener that caps the connections accepted and
  not yet closed. An \<open>Accept\<close> call is two steps, because other goroutines run between
  the permit and the return of the wrapped listener; a connection is known by a number and
  carries the flag of its \<open>releaseOnce\<close>.
\<close>

record ll_state =
  permits :: chan
  done_closed :: bool
  pending :: nat
  conns :: "(nat, bool) gomap"

text \<open>\<open>None\<close> is the panic of a limit that is not positive.\<close>

definition limitListener :: "int \<Rightarrow> ll_state option" where
  "limitListener maxConnections =
     (if maxConnections \<le> 0 then None
      else Some \<lparr>permits = make_chan (nat maxConnections), done_closed = False, pending = 0, conns = []\<rparr>)"

text \<open>The two branches of the \<open>select\<close>; \<open>None\<close> is a branch that is not ready.\<close>

definition accept_permit :: "ll_state \<Rightarrow> ll_state option" where
  "accept_permit s =
     (case chan_send (permits s) of None \<Rightarrow> None
      | Some p \<Rightarrow> Some (s\<lparr>permits := p, pending := Suc (pending s)\<rparr>))"

definition accept_closed :: "ll_state \<Rightarrow> bool" where
  "accept_closed s \<longleftrightarrow> done_closed s"

text \<open>The wrapped \<open>Accept\<close> returned a connection, or an error that gives the permit back.\<close>

definition accept_conn :: "nat \<Rightarrow> ll_state \<Rightarrow> ll_state option" where
  "accept_conn c s =
     (if pending s = 0 \<or> mget (conns s) c \<noteq> None then None
      else Some (s\<lparr>pending := pending s - 1, conns := mput c False (conns s)\<rparr>))"

definition accept_error :: "ll_state \<Rightarrow> ll_state option" where
  "accept_error s =
     (if pending s = 0 then None
      else case chan_recv (permits s) of None \<Rightarrow> None
      | Some p \<Rightarrow> Some (s\<lparr>permits := p, pending := pending s - 1\<rparr>))"

definition listener_close :: "ll_state \<Rightarrow> ll_state" where
  "listener_close s = (if done_closed s then s else s\<lparr>done_closed := True\<rparr>)"

text \<open>Closing a connection runs \<open>release\<close> the first time only.\<close>

definition conn_close :: "nat \<Rightarrow> ll_state \<Rightarrow> ll_state option" where
  "conn_close c s =
     (case mget (conns s) c of
        None \<Rightarrow> None
      | Some True \<Rightarrow> Some s
      | Some False \<Rightarrow>
          (case chan_recv (permits s) of None \<Rightarrow> None
           | Some p \<Rightarrow> Some (s\<lparr>permits := p, conns := mput c True (conns s)\<rparr>)))"

inductive ll_step :: "ll_state \<Rightarrow> ll_state \<Rightarrow> bool" where
  Permit: "accept_permit s = Some t \<Longrightarrow> ll_step s t"
| Conn: "accept_conn c s = Some t \<Longrightarrow> ll_step s t"
| Error: "accept_error s = Some t \<Longrightarrow> ll_step s t"
| CloseListener: "ll_step s (listener_close s)"
| CloseConn: "conn_close c s = Some t \<Longrightarrow> ll_step s t"

inductive ll_reachable :: "int \<Rightarrow> ll_state \<Rightarrow> bool" for n where
  Start: "limitListener n = Some s \<Longrightarrow> ll_reachable n s"
| Step: "ll_reachable n s \<Longrightarrow> ll_step s t \<Longrightarrow> ll_reachable n t"

definition open_conns :: "ll_state \<Rightarrow> int" where
  "open_conns s = msum (\<lambda>_ r. if r then 0 else 1) (conns s)"

definition ll_inv :: "int \<Rightarrow> ll_state \<Rightarrow> bool" where
  "ll_inv n s \<longleftrightarrow> mwf (conns s) \<and> int (chan_cap (permits s)) = n \<and>
     int (chan_held (permits s)) = int (pending s) + open_conns s \<and>
     chan_held (permits s) \<le> chan_cap (permits s)"

lemma ll_inv_start: "limitListener n = Some s \<Longrightarrow> ll_inv n s"
  by (auto simp: limitListener_def ll_inv_def make_chan_def open_conns_def split: if_splits)

lemma open_conns_nonneg: "0 \<le> open_conns s"
  unfolding open_conns_def by (rule msum_nonneg) simp

lemma open_conn_pos: "mget (conns s) c = Some False \<Longrightarrow> 0 < open_conns s"
  unfolding open_conns_def
  by (rule less_le_trans [OF _ msum_member_le [where k = c and v = False]]) (auto dest: mget_in_set)

lemma accept_permit_inv: "ll_inv n s \<Longrightarrow> accept_permit s = Some t \<Longrightarrow> ll_inv n t"
  by (auto simp: accept_permit_def ll_inv_def open_conns_def split: option.splits
      dest!: chan_pool.take_Some)

lemma accept_conn_inv: "ll_inv n s \<Longrightarrow> accept_conn c s = Some t \<Longrightarrow> ll_inv n t"
  by (auto simp: accept_conn_def ll_inv_def open_conns_def msum_mput split: option.splits if_splits)

lemma accept_error_inv: "ll_inv n s \<Longrightarrow> accept_error s = Some t \<Longrightarrow> ll_inv n t"
  by (auto simp: accept_error_def ll_inv_def open_conns_def split: option.splits if_splits
      dest!: chan_pool.give_Some)

lemma listener_close_inv: "ll_inv n s \<Longrightarrow> ll_inv n (listener_close s)"
  by (simp add: listener_close_def ll_inv_def open_conns_def)

lemma conn_close_inv: "ll_inv n s \<Longrightarrow> conn_close c s = Some t \<Longrightarrow> ll_inv n t"
  by (auto simp: conn_close_def ll_inv_def open_conns_def msum_mput
      split: option.splits if_splits bool.splits dest!: chan_pool.give_Some)

lemma ll_step_inv: "ll_step s t \<Longrightarrow> ll_inv n s \<Longrightarrow> ll_inv n t"
  by (induction rule: ll_step.induct)
    (auto intro: accept_permit_inv accept_conn_inv accept_error_inv listener_close_inv conn_close_inv)

lemma ll_reachable_inv: "ll_reachable n s \<Longrightarrow> ll_inv n s"
  by (induction rule: ll_reachable.induct) (auto intro: ll_inv_start ll_step_inv)

lemma conn_close_enabled:
  assumes "ll_inv n s" and "mget (conns s) c = Some r"
  shows "\<exists>t. conn_close c s = Some t"
proof (cases r)
  case False
  with assms have "0 < chan_held (permits s)"
    using open_conn_pos [of s c] by (auto simp: ll_inv_def)
  then obtain p where "chan_recv (permits s) = Some p"
    using chan_pool.give_enabled by blast
  with assms False show ?thesis by (simp add: conn_close_def)
qed (use assms in \<open>simp add: conn_close_def\<close>)

lemma accept_error_enabled:
  assumes "ll_inv n s" and "0 < pending s"
  shows "\<exists>t. accept_error s = Some t"
proof -
  have "0 < chan_held (permits s)"
    using assms open_conns_nonneg [of s] by (auto simp: ll_inv_def)
  then obtain p where "chan_recv (permits s) = Some p"
    using chan_pool.give_enabled by blast
  with assms show ?thesis by (simp add: accept_error_def)
qed

text \<open>C5. In every state the listener can reach, the connections that are accepted and not yet
  closed, together with the accepts in progress, are at most the configured limit.\<close>

theorem limit_listener_never_exceeds_limit:
  assumes "ll_reachable n s"
  shows "int (pending s) + open_conns s \<le> n"
  using ll_reachable_inv [OF assms] by (simp add: ll_inv_def)

text \<open>The deferred releases never block: in every reachable state each connection can be
  closed and each accept in progress can fail and give its permit back, the first close of a
  connection frees exactly one permit and a repeated close frees none.\<close>

theorem limit_listener_release_never_blocks:
  assumes "ll_reachable n s"
  shows "(mget (conns s) c = Some r \<longrightarrow>
      (\<exists>t. conn_close c s = Some t \<and>
        chan_held (permits s) = chan_held (permits t) + (if r then 0 else 1) \<and>
        conn_close c t = Some t)) \<and>
    (0 < pending s \<longrightarrow> (\<exists>t. accept_error s = Some t \<and> open_conns t = open_conns s))"
proof -
  note inv = ll_reachable_inv [OF assms]
  have "\<exists>t. conn_close c s = Some t \<and>
      chan_held (permits s) = chan_held (permits t) + (if r then 0 else 1) \<and> conn_close c t = Some t"
    if "mget (conns s) c = Some r"
  proof -
    from conn_close_enabled [OF inv that] obtain t where "conn_close c s = Some t" by auto
    with that show ?thesis
      by (auto simp: conn_close_def split: bool.splits option.splits dest!: chan_pool.give_Some)
  qed
  moreover have "\<exists>t. accept_error s = Some t \<and> open_conns t = open_conns s" if "0 < pending s"
  proof -
    from accept_error_enabled [OF inv that] obtain t where "accept_error s = Some t" by auto
    then show ?thesis
      by (auto simp: accept_error_def open_conns_def split: option.splits if_splits)
  qed
  ultimately show ?thesis by blast
qed

text \<open>One connection accepted under a limit of two while a second accept waits.\<close>

definition demo_listener :: ll_state where
  "demo_listener = \<lparr>permits = \<lparr>chan_cap = 2, chan_held = 2\<rparr>, done_closed = False, pending = 1,
     conns = [(7, False)]\<rparr>"

lemma demo_listener_reachable: "ll_reachable 2 demo_listener"
proof -
  have "ll_reachable 2 \<lparr>permits = \<lparr>chan_cap = 2, chan_held = 0\<rparr>, done_closed = False, pending = 0, conns = []\<rparr>"
    by (rule Start) (simp add: limitListener_def make_chan_def)
  then have "ll_reachable 2 \<lparr>permits = \<lparr>chan_cap = 2, chan_held = 1\<rparr>, done_closed = False, pending = 1, conns = []\<rparr>"
    by (rule Step) (rule Permit, simp add: accept_permit_def chan_send_def)
  then have "ll_reachable 2 \<lparr>permits = \<lparr>chan_cap = 2, chan_held = 1\<rparr>, done_closed = False, pending = 0, conns = [(7, False)]\<rparr>"
    by (rule Step) (rule Conn [where c = 7], simp add: accept_conn_def)
  then show ?thesis
    by (rule Step) (rule Permit, simp add: accept_permit_def chan_send_def demo_listener_def)
qed

theorem limit_listener_never_exceeds_limit_witness:
  "int (pending demo_listener) + open_conns demo_listener \<le> 2 \<and> open_conns demo_listener = 1"
  using limit_listener_never_exceeds_limit [OF demo_listener_reachable]
  by (simp add: demo_listener_def open_conns_def)

theorem limit_listener_release_never_blocks_witness:
  "\<exists>t. conn_close 7 demo_listener = Some t \<and> chan_held (permits t) = 1 \<and> conn_close 7 t = Some t"
  using limit_listener_release_never_blocks [OF demo_listener_reachable, of 7 False]
  by (auto simp: demo_listener_def)

end
