(* ===== verification/Go_Strings.thy ===== *)
theory Go_Strings
  imports Prelude "HOL-Library.Char_ord" "HOL-Library.List_Lexorder"
begin

text \<open>
  The functions of Go's \<open>strings\<close>, \<open>strconv\<close> and \<open>net/http\<close> packages
  that the modelled code calls. A Go string is a list of bytes. \<open>TrimSpace\<close> knows every
  Unicode space in its UTF-8 encoding. \<open>ToLower\<close> and \<open>EqualFold\<close> act on ASCII
  letters and on the runes whose lower case or fold is an ASCII letter (U+0130, U+212A,
  U+017F); other letters outside ASCII are left as they are, which no comparison with an ASCII
  literal can observe.
\<close>

named_theorems go_str \<open>the string functions of the Go library\<close>

section \<open>Bytes\<close>

definition byte :: "char \<Rightarrow> nat" where
  "byte c = of_char c"

definition is_upper :: "char \<Rightarrow> bool" where
  "is_upper c \<longleftrightarrow> 65 \<le> byte c \<and> byte c \<le> 90"

definition is_lower :: "char \<Rightarrow> bool" where
  "is_lower c \<longleftrightarrow> 97 \<le> byte c \<and> byte c \<le> 122"

definition is_digit :: "char \<Rightarrow> bool" where
  "is_digit c \<longleftrightarrow> 48 \<le> byte c \<and> byte c \<le> 57"

definition lower_byte :: "char \<Rightarrow> char" where
  "lower_byte c = (if is_upper c then char_of (byte c + 32) else c)"

lemma byte_inj [simp]: "byte c = byte d \<longleftrightarrow> c = d"
  by (simp add: byte_def)

lemma byte_less [simp]: "byte c < 256"
  by (simp add: byte_def)

lemma byte_char_of [simp]: "n < 256 \<Longrightarrow> byte (char_of n) = n"
  by (simp add: byte_def)

lemma lower_byte_idem [simp]: "lower_byte (lower_byte c) = lower_byte c"
proof (cases "is_upper c")
  case True
  then have "byte (char_of (byte c + 32) :: char) = byte c + 32"
    by (intro byte_char_of) (simp add: is_upper_def)
  with True show ?thesis by (simp add: lower_byte_def is_upper_def)
qed (simp add: lower_byte_def)

section \<open>Case\<close>

fun to_lower :: "string \<Rightarrow> string" where
  "to_lower (x # y # z # r) =
     (if x = CHR 0xE2 \<and> y = CHR 0x84 \<and> z = CHR 0xAA then CHR ''k'' # to_lower r
      else if x = CHR 0xC4 \<and> y = CHR 0xB0 then CHR ''i'' # to_lower (z # r)
      else lower_byte x # to_lower (y # z # r))"
| "to_lower [x, y] =
     (if x = CHR 0xC4 \<and> y = CHR 0xB0 then ''i'' else [lower_byte x, lower_byte y])"
| "to_lower [x] = [lower_byte x]"
| "to_lower [] = []"

fun simple_fold :: "string \<Rightarrow> string" where
  "simple_fold (x # y # z # r) =
     (if x = CHR 0xE2 \<and> y = CHR 0x84 \<and> z = CHR 0xAA then CHR ''k'' # simple_fold r
      else if x = CHR 0xC5 \<and> y = CHR 0xBF then CHR ''s'' # simple_fold (z # r)
      else lower_byte x # simple_fold (y # z # r))"
| "simple_fold [x, y] =
     (if x = CHR 0xC5 \<and> y = CHR 0xBF then ''s'' else [lower_byte x, lower_byte y])"
| "simple_fold [x] = [lower_byte x]"
| "simple_fold [] = []"

definition equal_fold :: "string \<Rightarrow> string \<Rightarrow> bool" where
  "equal_fold a b \<longleftrightarrow> simple_fold a = simple_fold b"

lemma equal_fold_refl [simp]: "equal_fold a a"
  by (simp add: equal_fold_def)

lemma equal_fold_sym: "equal_fold a b \<Longrightarrow> equal_fold b a"
  by (simp add: equal_fold_def)

lemma equal_fold_trans: "equal_fold a b \<Longrightarrow> equal_fold b c \<Longrightarrow> equal_fold a c"
  by (simp add: equal_fold_def)

section \<open>Searching and cutting\<close>

definition has_prefix :: "string \<Rightarrow> string \<Rightarrow> bool" where
  "has_prefix s p \<longleftrightarrow> take (length p) s = p"

definition has_suffix :: "string \<Rightarrow> string \<Rightarrow> bool" where
  "has_suffix s p \<longleftrightarrow> length p \<le> length s \<and> drop (length s - length p) s = p"

definition trim_prefix :: "string \<Rightarrow> string \<Rightarrow> string" where
  "trim_prefix s p = (if has_prefix s p then drop (length p) s else s)"

definition trim_suffix :: "string \<Rightarrow> string \<Rightarrow> string" where
  "trim_suffix s p = (if has_suffix s p then take (length s - length p) s else s)"

lemma has_prefix_append [simp]: "has_prefix (p @ s) p"
  by (simp add: has_prefix_def)

lemma has_prefix_iff: "has_prefix s p \<longleftrightarrow> (\<exists>r. s = p @ r)"
  by (metis append_take_drop_id has_prefix_def has_prefix_append)

lemma has_suffix_append [simp]: "has_suffix (s @ p) p"
  by (simp add: has_suffix_def)

lemma has_suffix_iff: "has_suffix s p \<longleftrightarrow> (\<exists>r. s = r @ p)"
  by (metis append_take_drop_id has_suffix_def has_suffix_append)

text \<open>\<open>strings.Split\<close> with a separator of one byte: always at least one part.\<close>

fun split_on :: "char \<Rightarrow> string \<Rightarrow> string list" where
  "split_on c [] = [[]]"
| "split_on c (x # xs) =
     (if x = c then [] # split_on c xs
      else case split_on c xs of [] \<Rightarrow> [[x]] | p # ps \<Rightarrow> (x # p) # ps)"

fun join_with :: "char \<Rightarrow> string list \<Rightarrow> string" where
  "join_with c [] = []"
| "join_with c [p] = p"
| "join_with c (p # q # ps) = p @ c # join_with c (q # ps)"

lemma split_on_nonempty [simp]: "split_on c s \<noteq> []"
  by (induction s) (auto split: list.splits)

lemma join_split [simp]: "join_with c (split_on c s) = s"
proof (induction s)
  case (Cons x xs)
  then show ?case
    by (cases "split_on c xs"; cases "tl (split_on c xs)") auto
qed simp

lemma split_on_no_sep: "p \<in> set (split_on c s) \<Longrightarrow> c \<notin> set p"
  by (induction s arbitrary: p) (fastforce split: if_splits list.splits)+

lemma split_on_id [simp]: "c \<notin> set s \<Longrightarrow> split_on c s = [s]"
  by (induction s) auto

lemma split_on_append [simp]: "c \<notin> set s \<Longrightarrow> split_on c (s @ c # t) = s # split_on c t"
  by (induction s) auto

text \<open>\<open>strings.Cut\<close> at a separator of one byte.\<close>

fun cut :: "char \<Rightarrow> string \<Rightarrow> string \<times> string \<times> bool" where
  "cut c [] = ([], [], False)"
| "cut c (x # xs) =
     (if x = c then ([], xs, True) else case cut c xs of (a, b, f) \<Rightarrow> (x # a, b, f))"

text \<open>\<open>strings.Contains\<close>, \<open>ContainsAny\<close> and \<open>ReplaceAll\<close> of a pattern that is not empty.\<close>

fun contains_sub :: "string \<Rightarrow> string \<Rightarrow> bool" where
  "contains_sub [] p \<longleftrightarrow> p = []"
| "contains_sub (c # s) p \<longleftrightarrow> has_prefix (c # s) p \<or> contains_sub s p"

lemma contains_sub_single [simp]: "contains_sub s [c] \<longleftrightarrow> c \<in> set s"
  by (induction s) (auto simp: has_prefix_def)

definition contains_any :: "string \<Rightarrow> string \<Rightarrow> bool" where
  "contains_any s cs \<longleftrightarrow> list_ex (\<lambda>c. c \<in> set cs) s"

function replace_all :: "string \<Rightarrow> string \<Rightarrow> string \<Rightarrow> string" where
  "replace_all p r [] = []"
| "replace_all p r (c # s) =
     (if p \<noteq> [] \<and> has_prefix (c # s) p then r @ replace_all p r (drop (length p) (c # s))
      else c # replace_all p r s)"
  by pat_completeness auto
termination
  by (relation "measure (\<lambda>(p, r, s). length s)") (auto simp: neq_Nil_conv)

section \<open>TrimSpace\<close>

text \<open>The encodings of the runes for which \<open>unicode.IsSpace\<close> holds.\<close>

definition space_encodings :: "string list" where
  "space_encodings =
     map (\<lambda>b. [char_of b]) [9, 10, 11, 12, 13, 32::nat] @
     [[CHR 0xC2, CHR 0x85], [CHR 0xC2, CHR 0xA0], [CHR 0xE1, CHR 0x9A, CHR 0x80]] @
     map (\<lambda>b. [CHR 0xE2, CHR 0x80, char_of b]) [128, 129, 130, 131, 132, 133, 134, 135, 136, 137, 138, 168, 169, 175::nat] @
     [[CHR 0xE2, CHR 0x81, CHR 0x9F], [CHR 0xE3, CHR 0x80, CHR 0x80]]"

definition leading_space :: "string \<Rightarrow> string option" where
  "leading_space s = find (has_prefix s) space_encodings"

lemma space_encodings_nonempty: "p \<in> set space_encodings \<Longrightarrow> p \<noteq> []"
  by (auto simp: space_encodings_def)

lemma leading_space_Some: "leading_space s = Some p \<Longrightarrow> has_prefix s p \<and> p \<noteq> []"
  using space_encodings_nonempty
  by (auto simp: leading_space_def find_Some_iff)

function trim_left_space :: "string \<Rightarrow> string" where
  "trim_left_space s =
     (case leading_space s of None \<Rightarrow> s | Some p \<Rightarrow> trim_left_space (drop (length p) s))"
  by pat_completeness auto
termination
  by (relation "measure length") (auto dest!: leading_space_Some simp: has_prefix_iff)

declare trim_left_space.simps [simp del]

text \<open>The first byte of a rune is never a continuation byte, so a suffix of this form is the last rune.\<close>

definition trailing_space :: "string \<Rightarrow> string option" where
  "trailing_space s = find (has_suffix s) space_encodings"

lemma trailing_space_Some: "trailing_space s = Some p \<Longrightarrow> has_suffix s p \<and> p \<noteq> []"
  using space_encodings_nonempty
  by (auto simp: trailing_space_def find_Some_iff)

function trim_right_space :: "string \<Rightarrow> string" where
  "trim_right_space s =
     (case trailing_space s of None \<Rightarrow> s
      | Some p \<Rightarrow> trim_right_space (take (length s - length p) s))"
  by pat_completeness auto
termination
  by (relation "measure length") (auto dest!: trailing_space_Some simp: has_suffix_iff)

declare trim_right_space.simps [simp del]

definition trim_space :: "string \<Rightarrow> string" where
  "trim_space s = trim_right_space (trim_left_space s)"

lemma trim_left_space_length: "length (trim_left_space s) \<le> length s"
proof (induction s rule: trim_left_space.induct)
  case (1 s)
  then show ?case
    by (subst trim_left_space.simps) (auto split: option.split intro: order_trans)
qed

lemma trim_right_space_length: "length (trim_right_space s) \<le> length s"
proof (induction s rule: trim_right_space.induct)
  case (1 s)
  then show ?case
    by (subst trim_right_space.simps) (auto split: option.split intro: order_trans)
qed

lemma trim_space_length: "length (trim_space s) \<le> length s"
  unfolding trim_space_def
  using trim_left_space_length trim_right_space_length order_trans by blast

text \<open>
  The tests for a control character and for a space anywhere in the text. No encoding of the
  list starts with a continuation byte, so an occurrence is always a whole rune.
\<close>

definition control_encodings :: "string list" where
  "control_encodings = map (\<lambda>b. [char_of b]) ([0..<32] @ [127]) @ map (\<lambda>b. [CHR 0xC2, char_of b]) [128..<160::nat]"

definition has_control :: "string \<Rightarrow> bool" where
  "has_control s \<longleftrightarrow> list_ex (contains_sub s) control_encodings"

definition has_space :: "string \<Rightarrow> bool" where
  "has_space s \<longleftrightarrow> list_ex (contains_sub s) space_encodings"

text \<open>Texts of printable ASCII: nothing to trim, and nothing to lower without capitals.\<close>

definition plain :: "char \<Rightarrow> bool" where
  "plain c \<longleftrightarrow> 32 < byte c \<and> byte c < 127"

lemma char_of_eq: "n < 256 \<Longrightarrow> c = char_of n \<longleftrightarrow> byte c = n"
  by (metis byte_char_of byte_inj)

lemma space_encodings_ends: "p \<in> set space_encodings \<Longrightarrow> \<not> plain (hd p) \<and> \<not> plain (last p)"
  by (auto simp: space_encodings_def plain_def byte_def)

lemma trim_space_plain:
  assumes "s \<noteq> []" "plain (hd s)" "plain (last s)"
  shows "trim_space s = s"
proof -
  have "leading_space s = None"
  proof (rule ccontr)
    assume "leading_space s \<noteq> None"
    then obtain p where p: "p \<in> set space_encodings" "has_prefix s p"
      by (auto simp: leading_space_def find_None_iff)
    then obtain r where "s = p @ r" by (auto simp: has_prefix_iff)
    with space_encodings_ends [OF p(1)] space_encodings_nonempty [OF p(1)] assms(2) show False by simp
  qed
  then have "trim_left_space s = s" by (subst trim_left_space.simps) simp
  moreover have "trailing_space s = None"
  proof (rule ccontr)
    assume "trailing_space s \<noteq> None"
    then obtain p where p: "p \<in> set space_encodings" "has_suffix s p"
      by (auto simp: trailing_space_def find_None_iff)
    then obtain r where "s = r @ p" by (auto simp: has_suffix_iff)
    with space_encodings_ends [OF p(1)] space_encodings_nonempty [OF p(1)] assms(3) show False by simp
  qed
  then have "trim_right_space s = s" by (subst trim_right_space.simps) simp
  ultimately show ?thesis by (simp add: trim_space_def)
qed

lemma trim_space_code [code]:
  "trim_space s = (if s \<noteq> [] \<and> plain (hd s) \<and> plain (last s) then s else trim_right_space (trim_left_space s))"
  using trim_space_plain [of s] by (simp add: trim_space_def)

lemma contains_sub_split: "contains_sub s p \<Longrightarrow> \<exists>a b. s = a @ p @ b"
proof (induction s)
  case (Cons c s)
  show ?case
  proof (cases "has_prefix (c # s) p")
    case True
    then show ?thesis unfolding has_prefix_iff by (metis append_Nil)
  next
    case False
    with Cons obtain a b where "s = a @ p @ b" by auto
    then have "c # s = (c # a) @ p @ b" by simp
    then show ?thesis by blast
  qed
qed simp

lemma plain_no_encoding:
  assumes "list_all plain s" "p \<noteq> []" "\<not> plain (hd p)"
  shows "\<not> contains_sub s p"
proof
  assume "contains_sub s p"
  then obtain a b where "s = a @ p @ b" using contains_sub_split by blast
  with assms show False by (cases p) auto
qed

lemma has_space_code [code]:
  "has_space s = (if list_all plain s then False else list_ex (contains_sub s) space_encodings)"
  using plain_no_encoding [of s] space_encodings_ends space_encodings_nonempty
  by (auto simp: has_space_def list_ex_iff)

lemma has_control_code [code]:
  "has_control s = (if list_all plain s then False else list_ex (contains_sub s) control_encodings)"
proof -
  have "p \<noteq> [] \<and> \<not> plain (hd p)" if "p \<in> set control_encodings" for p
    using that by (auto simp: control_encodings_def plain_def byte_def)
  with plain_no_encoding [of s] show ?thesis by (auto simp: has_control_def list_ex_iff)
qed

lemma to_lower_plain: "list_all (\<lambda>c. plain c \<and> \<not> is_upper c) s \<Longrightarrow> to_lower s = s"
  by (induction s rule: to_lower.induct) (auto simp: lower_byte_def plain_def byte_def)

section \<open>Numbers\<close>

text \<open>\<open>strconv.Itoa\<close> of a number that is not negative, and the decimal digits it reads back.\<close>

fun itoa :: "nat \<Rightarrow> string" where
  "itoa n = (if n < 10 then [char_of (48 + n)] else itoa (n div 10) @ [char_of (48 + n mod 10)])"

declare itoa.simps [simp del]

definition atoi_step :: "nat \<Rightarrow> char \<Rightarrow> nat" where
  "atoi_step acc c = 10 * acc + (byte c - 48)"

definition digits_value :: "string \<Rightarrow> nat" where
  "digits_value s = foldl atoi_step 0 s"

lemma itoa_nonempty [simp]: "itoa n \<noteq> []"
  by (subst itoa.simps) simp

lemma itoa_digits: "c \<in> set (itoa n) \<Longrightarrow> is_digit c"
proof (induction n rule: itoa.induct)
  case (1 n)
  then show ?case
    by (subst (asm) itoa.simps) (auto simp: is_digit_def split: if_splits)
qed

lemma digits_value_itoa [simp]: "digits_value (itoa n) = n"
proof (induction n rule: itoa.induct)
  case (1 n)
  then show ?case
    by (subst itoa.simps) (auto simp: digits_value_def atoi_step_def)
qed

lemma itoa_inj: "itoa m = itoa n \<longleftrightarrow> m = n"
  by (metis digits_value_itoa)

section \<open>HTTP headers\<close>

text \<open>
  An \<open>http.Header\<close> is a Go map from names to value lists. \<open>Get\<close> and
  \<open>Values\<close> of a literal name look up its canonical form.
\<close>

type_synonym http_header = "(string, string list) gomap"

definition header_values :: "http_header \<Rightarrow> string \<Rightarrow> string list" where
  "header_values h name = mget_or [] h name"

definition header_get :: "http_header \<Rightarrow> string \<Rightarrow> string" where
  "header_get h name = (case header_values h name of [] \<Rightarrow> [] | v # _ \<Rightarrow> v)"

text \<open>\<open>cmd/meridian/proxy_io.go\<close>: the upgrade tests on a request's header.\<close>

definition headerHasToken :: "http_header \<Rightarrow> string \<Rightarrow> string \<Rightarrow> bool" where
  "headerHasToken h name token \<longleftrightarrow>
     list_ex (\<lambda>value. list_ex (\<lambda>part. equal_fold (trim_space part) token) (split_on CHR '','' value))
       (header_values h name)"

definition isWebSocketUpgrade :: "string \<Rightarrow> http_header \<Rightarrow> bool" where
  "isWebSocketUpgrade method h \<longleftrightarrow>
     method = ''GET'' \<and> equal_fold (header_get h ''Upgrade'') ''websocket'' \<and>
     headerHasToken h ''Connection'' ''upgrade'' \<and> header_get h ''Sec-Websocket-Key'' \<noteq> []"

definition hasUpgradeIntent :: "http_header \<Rightarrow> bool" where
  "hasUpgradeIntent h \<longleftrightarrow>
     trim_space (header_get h ''Upgrade'') \<noteq> [] \<or> headerHasToken h ''Connection'' ''upgrade''"

lemma upgrade_has_intent: "isWebSocketUpgrade m h \<Longrightarrow> hasUpgradeIntent h"
  by (simp add: isWebSocketUpgrade_def hasUpgradeIntent_def)

end
