(* ===== verification/Url.thy ===== *)
theory Url
  imports Go_Strings
begin

text \<open>
  URLs: the fields of Go's \<open>url.URL\<close> and the operations on them the program calls
  (percent encoding, \<open>EscapedPath\<close>, \<open>String\<close>, \<open>Hostname\<close>,
  \<open>Port\<close>), then the program's own operations of \<open>cmd/meridian/site_routing.go\<close>,
  \<open>diagnostics.go\<close> and \<open>upstream_failover.go\<close>: joining a request path to an
  upstream, the authority key that decides whether two URLs are the same origin, and the key
  that names a failover target.
\<close>

record url =
  scheme :: string
  opaque :: string
  user :: "string option"
  host :: string
  path :: string
  raw_path :: string
  omit_host :: bool
  force_query :: bool
  raw_query :: string
  fragment :: string
  raw_fragment :: string

definition empty_url :: url where
  "empty_url = \<lparr>scheme = [], opaque = [], user = None, host = [], path = [], raw_path = [],
     omit_host = False, force_query = False, raw_query = [], fragment = [], raw_fragment = []\<rparr>"

section \<open>Percent encoding\<close>

datatype encoding = EncodePath | EncodePathSegment | EncodeHost | EncodeQueryComponent | EncodeFragment

definition is_alnum :: "char \<Rightarrow> bool" where
  "is_alnum c \<longleftrightarrow> is_lower c \<or> is_upper c \<or> is_digit c"

definition should_escape :: "char \<Rightarrow> encoding \<Rightarrow> bool" where
  "should_escape c mode =
     (if is_alnum c then False
      else if mode = EncodeHost \<and> c \<in> set ''!$&'' \<union> {CHR 0x27} \<union> set ''()*+,;=:[]<>'' \<union> {CHR 0x22} then False
      else if c \<in> set ''-_.~'' then False
      else if c \<in> set ''$&+,/:;=?@'' \<and> mode \<noteq> EncodeHost then
        (case mode of
           EncodePath \<Rightarrow> c = CHR ''?''
         | EncodePathSegment \<Rightarrow> c \<in> set ''/;,?''
         | EncodeQueryComponent \<Rightarrow> True
         | EncodeFragment \<Rightarrow> False
         | EncodeHost \<Rightarrow> True)
      else if mode = EncodeFragment \<and> c \<in> set ''!()*'' then False
      else True)"

definition hex_digit :: "nat \<Rightarrow> char" where
  "hex_digit n = char_of (if n < 10 then 48 + n else 55 + n)"

definition unhex :: "char \<Rightarrow> nat option" where
  "unhex c =
     (if is_digit c then Some (byte c - 48)
      else if 65 \<le> byte c \<and> byte c \<le> 70 then Some (byte c - 55)
      else if 97 \<le> byte c \<and> byte c \<le> 102 then Some (byte c - 87)
      else None)"

definition escape_byte :: "encoding \<Rightarrow> char \<Rightarrow> string" where
  "escape_byte mode c =
     (if c = CHR '' '' \<and> mode = EncodeQueryComponent then ''+''
      else if should_escape c mode
      then [CHR ''%'', hex_digit (byte c div 16), hex_digit (byte c mod 16)]
      else [c])"

definition url_escape :: "encoding \<Rightarrow> string \<Rightarrow> string" where
  "url_escape mode s = concat (map (escape_byte mode) s)"

fun path_unescape :: "string \<Rightarrow> string option" where
  "path_unescape [] = Some []"
| "path_unescape (c # r) =
     (if c = CHR ''%'' then
        (case r of
           x # y # r' \<Rightarrow>
             (case (unhex x, unhex y) of
                (Some a, Some b) \<Rightarrow> map_option (Cons (char_of (16 * a + b))) (path_unescape r')
              | _ \<Rightarrow> None)
         | _ \<Rightarrow> None)
      else map_option (Cons c) (path_unescape r))"

lemma unhex_hex_digit [simp]: "n < 16 \<Longrightarrow> unhex (hex_digit n) = Some n"
  by (auto simp: unhex_def hex_digit_def is_digit_def)

lemma percent_escaped: "mode = EncodePath \<or> mode = EncodePathSegment \<or> mode = EncodeFragment \<Longrightarrow>
    should_escape CHR ''%'' mode"
  by (auto simp: should_escape_def is_alnum_def is_lower_def is_upper_def is_digit_def byte_def)

lemma path_unescape_escape_byte:
  assumes "mode = EncodePath \<or> mode = EncodePathSegment \<or> mode = EncodeFragment"
  shows "path_unescape (escape_byte mode c @ r) = map_option (Cons c) (path_unescape r)"
proof (cases "should_escape c mode")
  case True
  have "16 * (byte c div 16) + byte c mod 16 = byte c" by simp
  moreover have "byte c div 16 < 16" by (rule less_mult_imp_div_less) simp
  ultimately show ?thesis
    using True assms by (auto simp: escape_byte_def byte_def)
next
  case False
  with percent_escaped [OF assms] have "c \<noteq> CHR ''%''" by auto
  with False assms show ?thesis by (auto simp: escape_byte_def)
qed

lemma unescape_escape:
  assumes "mode = EncodePath \<or> mode = EncodePathSegment \<or> mode = EncodeFragment"
  shows "path_unescape (url_escape mode s) = Some s"
proof (induction s)
  case (Cons c s)
  then show ?case
    using path_unescape_escape_byte [OF assms, of c "url_escape mode s"]
    by (simp add: url_escape_def)
qed (simp add: url_escape_def)

lemma path_unescape_append:
  "path_unescape a = Some x \<Longrightarrow> path_unescape (a @ b) = map_option ((@) x) (path_unescape b)"
proof (induction a arbitrary: x rule: path_unescape.induct)
  case (2 c r)
  show ?case
  proof (cases "c = CHR ''%''")
    case True
    with 2 obtain p q r' a b' where "r = p # q # r'" "unhex p = Some a" "unhex q = Some b'"
      by (auto split: list.splits option.splits)
    with 2 True show ?thesis
      by (cases "path_unescape b") auto
  next
    case False
    with 2 show ?thesis by (cases "path_unescape b") auto
  qed
next
  case 1
  then show ?case by (cases "path_unescape b") auto
qed

section \<open>EscapedPath and String\<close>

definition valid_encoded_path :: "string \<Rightarrow> bool" where
  "valid_encoded_path s \<longleftrightarrow>
     list_all (\<lambda>c. c \<in> set ''!$&'' \<union> {CHR 0x27} \<union> set ''()*+,;=:@[]%'' \<or> \<not> should_escape c EncodePath) s"

definition url_escaped_path :: "url \<Rightarrow> string" where
  "url_escaped_path u =
     (if raw_path u \<noteq> [] \<and> valid_encoded_path (raw_path u) \<and> path_unescape (raw_path u) = Some (path u)
      then raw_path u
      else if path u = ''*'' then ''*''
      else url_escape EncodePath (path u))"

definition valid_encoded_fragment :: "string \<Rightarrow> bool" where
  "valid_encoded_fragment s \<longleftrightarrow>
     list_all (\<lambda>c. c \<in> set ''!$&'' \<union> {CHR 0x27} \<union> set ''()*+,;=:@[]%'' \<or> \<not> should_escape c EncodeFragment) s"

definition url_escaped_fragment :: "url \<Rightarrow> string" where
  "url_escaped_fragment u =
     (if raw_fragment u \<noteq> [] \<and> valid_encoded_fragment (raw_fragment u) \<and>
         path_unescape (raw_fragment u) = Some (fragment u)
      then raw_fragment u
      else url_escape EncodeFragment (fragment u))"

definition url_string :: "url \<Rightarrow> string" where
  "url_string u =
     (let front = (if scheme u = [] then [] else scheme u @ '':'');
          body =
            (if opaque u \<noteq> [] then front @ opaque u
             else
               let auth =
                     (if scheme u \<noteq> [] \<or> host u \<noteq> [] \<or> user u \<noteq> None then
                        if omit_host u \<and> host u = [] \<and> user u = None then front
                        else
                          (if host u \<noteq> [] \<or> path u \<noteq> [] \<or> user u \<noteq> None then front @ ''//'' else front) @
                          (case user u of None \<Rightarrow> [] | Some ui \<Rightarrow> ui @ ''@'') @
                          url_escape EncodeHost (host u)
                      else front);
                   p = url_escaped_path u;
                   sep = (if p \<noteq> [] \<and> hd p \<noteq> CHR ''/'' \<and> host u \<noteq> [] then auth @ ''/'' else auth);
                   dot = (if sep = [] \<and> CHR '':'' \<in> set (hd (split_on CHR ''/'' p)) then ''./'' else [])
               in sep @ dot @ p);
          query = (if force_query u \<or> raw_query u \<noteq> [] then ''?'' @ raw_query u else []);
          frag = (if fragment u = [] then [] else ''#'' @ url_escaped_fragment u)
      in body @ query @ frag)"

lemma unescape_escaped_path [simp]: "path_unescape (url_escaped_path u) = Some (path u)"
  by (auto simp: url_escaped_path_def unescape_escape)

section \<open>Host and port\<close>

definition valid_optional_port :: "string \<Rightarrow> bool" where
  "valid_optional_port s \<longleftrightarrow> (case s of [] \<Rightarrow> True | c # r \<Rightarrow> c = CHR '':'' \<and> list_all is_digit r)"

text \<open>The text before and after the last colon.\<close>

definition last_colon :: "string \<Rightarrow> (string \<times> string) option" where
  "last_colon s =
     (if CHR '':'' \<in> set s
      then let r = takeWhile (\<lambda>c. c \<noteq> CHR '':'') (rev s)
           in Some (take (length s - Suc (length r)) s, rev r)
      else None)"

definition split_host_port :: "string \<Rightarrow> string \<times> string" where
  "split_host_port hp =
     (let (h, p) = (case last_colon hp of
                      None \<Rightarrow> (hp, [])
                    | Some (a, b) \<Rightarrow> if list_all is_digit b then (a, b) else (hp, []))
      in (if has_prefix h ''['' \<and> has_suffix h '']'' then butlast (tl h) else h, p))"

definition url_hostname :: "url \<Rightarrow> string" where
  "url_hostname u = fst (split_host_port (host u))"

definition url_port :: "url \<Rightarrow> string" where
  "url_port u = snd (split_host_port (host u))"

definition join_host_port :: "string \<Rightarrow> string \<Rightarrow> string" where
  "join_host_port h p = (if CHR '':'' \<in> set h then ''['' @ h @ '']:'' @ p else h @ '':'' @ p)"

section \<open>The program's operations\<close>

text \<open>\<open>cmd/meridian/site_routing.go\<close>\<close>

definition redirectHostKey :: "url \<Rightarrow> string" where
  "redirectHostKey target =
     (let h = to_lower (trim_suffix (url_hostname target) ''.'')
      in if h = [] then []
         else let port = url_port target; sch = to_lower (scheme target)
              in if sch \<noteq> ''http'' \<and> sch \<noteq> ''https'' then []
                 else let authority = (if CHR '':'' \<in> set h then ''['' @ h @ '']'' else h);
                          authority' =
                            (if port \<noteq> [] \<and> \<not> (sch = ''http'' \<and> port = ''80'' \<or> sch = ''https'' \<and> port = ''443'')
                             then join_host_port h port else authority)
                      in sch @ ''://'' @ authority')"

definition sameRedirectAuthority :: "url \<Rightarrow> url \<Rightarrow> bool" where
  "sameRedirectAuthority a b \<longleftrightarrow> redirectHostKey a = redirectHostKey b"

definition singleJoiningSlash :: "string \<Rightarrow> string \<Rightarrow> string" where
  "singleJoiningSlash a b =
     (let aSlash = has_suffix a ''/''; bSlash = has_prefix b ''/''
      in if aSlash \<and> bSlash then a @ tl b
         else if \<not> aSlash \<and> \<not> bSlash then a @ ''/'' @ b
         else a @ b)"

definition joinURLPath :: "url \<Rightarrow> url \<Rightarrow> string \<times> string" where
  "joinURLPath base request =
     (if raw_path base = [] \<and> raw_path request = [] then (singleJoiningSlash (path base) (path request), [])
      else let basePath = url_escaped_path base; requestPath = url_escaped_path request;
               baseSlash = has_suffix basePath ''/''; requestSlash = has_prefix requestPath ''/''
           in if baseSlash \<and> requestSlash then (path base @ tl (path request), basePath @ tl requestPath)
              else if \<not> baseSlash \<and> \<not> requestSlash
              then (path base @ ''/'' @ path request, basePath @ ''/'' @ requestPath)
              else (path base @ path request, basePath @ requestPath))"

definition applyUpstreamURL :: "url \<Rightarrow> url \<Rightarrow> url" where
  "applyUpstreamURL requestURL upstream =
     (let r = requestURL\<lparr>scheme := scheme upstream, host := host upstream\<rparr>;
          (p, rp) = joinURLPath upstream r;
          r' = r\<lparr>path := p, raw_path := rp\<rparr>
      in if raw_query upstream = [] then r'
         else if raw_query r' = [] then r'\<lparr>raw_query := raw_query upstream\<rparr>
         else r'\<lparr>raw_query := raw_query upstream @ ''&'' @ raw_query r'\<rparr>)"

definition isPlaybackInfoRequest :: "string \<Rightarrow> bool" where
  "isPlaybackInfoRequest p =
     (case split_on CHR ''/'' (to_lower p) of
        [a, b, c, d] \<Rightarrow> a = [] \<and> b = ''items'' \<and> c \<noteq> [] \<and> d = ''playbackinfo''
      | [a, b, c, d, e] \<Rightarrow> a = [] \<and> b = ''emby'' \<and> c = ''items'' \<and> d \<noteq> [] \<and> e = ''playbackinfo''
      | _ \<Rightarrow> False)"

text \<open>
  \<open>cmd/meridian/diagnostics.go\<close>: \<open>canonicalTargetKey\<close>. \<open>path.Clean\<close> of
  a rooted path drops empty and dot segments and lets dot-dot remove the segment before it.
\<close>

fun clean_segments :: "string list \<Rightarrow> string list \<Rightarrow> string list" where
  "clean_segments stack [] = rev stack"
| "clean_segments stack (s # ss) =
     (if s = [] \<or> s = ''.'' then clean_segments stack ss
      else if s = ''..'' then clean_segments (tl stack) ss
      else clean_segments (s # stack) ss)"

definition path_clean_rooted :: "string \<Rightarrow> string" where
  "path_clean_rooted p = ''/'' @ join_with CHR ''/'' (clean_segments [] (split_on CHR ''/'' p))"

definition trim_slashes :: "string \<Rightarrow> string" where
  "trim_slashes s = rev (dropWhile (\<lambda>c. c = CHR ''/'') (rev (dropWhile (\<lambda>c. c = CHR ''/'') s)))"

definition canonicalTargetKey :: "url \<Rightarrow> string" where
  "canonicalTargetKey target =
     (let cleanPath = path_clean_rooted (''/'' @ trim_slashes (path target));
          normalized = target\<lparr>scheme := to_lower (scheme target), host := to_lower (host target),
            raw_query := [], fragment := [],
            path := (if cleanPath = ''.'' \<or> cleanPath = ''/'' then [] else cleanPath)\<rparr>
      in url_string normalized)"

text \<open>\<open>cmd/meridian/upstream_failover.go\<close>\<close>

definition upstreamTargetKey :: "url \<Rightarrow> string" where
  "upstreamTargetKey target = canonicalTargetKey target @ url_escaped_path target"

section \<open>Facts about joined URLs\<close>

lemma redirectHostKey_cong: "scheme a = scheme b \<Longrightarrow> host a = host b \<Longrightarrow> redirectHostKey a = redirectHostKey b"
  by (simp add: redirectHostKey_def url_hostname_def url_port_def Let_def)

lemma applyUpstreamURL_fields [simp]:
  "scheme (applyUpstreamURL r u) = scheme u"
  "host (applyUpstreamURL r u) = host u"
  "user (applyUpstreamURL r u) = user r"
  "fragment (applyUpstreamURL r u) = fragment r"
  by (auto simp: applyUpstreamURL_def Let_def split: prod.splits)

lemma url_escaped_path_cong: "path a = path b \<Longrightarrow> raw_path a = raw_path b \<Longrightarrow> url_escaped_path a = url_escaped_path b"
  by (simp add: url_escaped_path_def)

lemma joinURLPath_request: "joinURLPath b (r\<lparr>scheme := s, host := h\<rparr>) = joinURLPath b r"
  by (simp add: joinURLPath_def Let_def url_escaped_path_cong [of "r\<lparr>scheme := s, host := h\<rparr>" r])

lemma applyUpstreamURL_path [simp]:
  "path (applyUpstreamURL r u) = fst (joinURLPath u r)"
  "raw_path (applyUpstreamURL r u) = snd (joinURLPath u r)"
  by (auto simp: applyUpstreamURL_def Let_def joinURLPath_request split: prod.splits)

lemma unescape_slash_front:
  assumes "path_unescape (CHR ''/'' # r) = Some p"
  shows "\<exists>q. p = CHR ''/'' # q \<and> path_unescape r = Some q"
  using assms by auto

lemma joinURLPath_consistent:
  assumes "snd (joinURLPath b r) \<noteq> []"
  shows "path_unescape (snd (joinURLPath b r)) = Some (fst (joinURLPath b r))"
proof -
  let ?b = "url_escaped_path b" and ?r = "url_escaped_path r"
  have raw: "\<not> (raw_path b = [] \<and> raw_path r = [])"
    using assms by (auto simp: joinURLPath_def)
  show ?thesis
  proof (cases "has_suffix ?b ''/'' \<and> has_prefix ?r ''/''")
    case True
    then obtain q where q: "?r = CHR ''/'' # q" by (auto simp: has_prefix_iff)
    with unescape_escaped_path [of r] unescape_slash_front [of q "path r"]
    obtain z where "path r = CHR ''/'' # z" and "path_unescape q = Some z"
      by auto
    with True raw q show ?thesis
      by (auto simp: joinURLPath_def path_unescape_append)
  next
    case False
    with raw show ?thesis
      by (auto simp: joinURLPath_def Let_def path_unescape_append)
  qed
qed

end
