(* ===== verification/Failover_State.thy ===== *)
theory Failover_State
  imports Url
begin

text \<open>
  \<open>cmd/meridian/upstream_failover.go\<close>, the process-local memory of which upstream lines
  answered and which are cooling down: \<open>upstreamFailoverState\<close> with \<open>ordered\<close>,
  \<open>markFailure\<close>, \<open>markSuccess\<close> and \<open>preferredTarget\<close>. Each method
  holds the mutex throughout and is one function on the state. The interface
  \<open>failover_order\<close> is what the round tripper relies on.
\<close>

definition maxFailoverTargets :: nat where
  "maxFailoverTargets = 8"

definition failoverCooldown :: duration where
  "failoverCooldown = 30 * second"

definition failoverPreferredLifetime :: duration where
  "failoverPreferredLifetime = 5 * minute"

record failover_state =
  preferred :: string
  preferredUntil :: time
  failedUntil :: "(string, time) gomap"
  primaryProbeAt :: time

definition newUpstreamFailoverState :: failover_state where
  "newUpstreamFailoverState =
     \<lparr>preferred = [], preferredUntil = 0, failedUntil = [], primaryProbeAt = 0\<rparr>"

definition failed_at :: "failover_state \<Rightarrow> string \<Rightarrow> time \<Rightarrow> bool" where
  "failed_at s key now \<longleftrightarrow> now < mget_or 0 (failedUntil s) key"

text \<open>The loop of \<open>ordered\<close> over the targets, with its three result lists.\<close>

fun split_targets :: "failover_state \<Rightarrow> bool \<Rightarrow> string \<Rightarrow> time \<Rightarrow> url list \<Rightarrow>
    url list \<times> url list \<times> url list" where
  "split_targets s probePrimary primaryKey now [] = ([], [], [])"
| "split_targets s probePrimary primaryKey now (target # rest) =
     (let key = upstreamTargetKey target;
          (p, h, c) = split_targets s probePrimary primaryKey now rest
      in if probePrimary \<and> key = primaryKey then (target # p, h, c)
         else if key = preferred s \<and> \<not> failed_at s key now then (target # p, h, c)
         else if failed_at s key now then (p, h, target # c)
         else (p, target # h, c))"

definition expire_failed :: "failover_state \<Rightarrow> time \<Rightarrow> failover_state" where
  "expire_failed s now = s\<lparr>failedUntil := filter (\<lambda>(k, until). now < until) (failedUntil s)\<rparr>"

definition probe_primary :: "failover_state \<Rightarrow> string \<Rightarrow> time \<Rightarrow> bool" where
  "probe_primary s primaryKey now \<longleftrightarrow>
     preferred s \<noteq> [] \<and> preferred s \<noteq> primaryKey \<and> \<not> failed_at s primaryKey now \<and>
     \<not> now < primaryProbeAt s"

text \<open>What \<open>ordered\<close> does to the state before it looks at the targets.\<close>

definition refresh_failover :: "failover_state \<Rightarrow> time \<Rightarrow> failover_state" where
  "refresh_failover s now =
     (let s1 = expire_failed s now
      in if \<not> now < preferredUntil s1 then s1\<lparr>preferred := []\<rparr> else s1)"

definition reserve_probe :: "bool \<Rightarrow> time \<Rightarrow> failover_state \<Rightarrow> failover_state" where
  "reserve_probe probePrimary now s =
     (if probePrimary then s\<lparr>primaryProbeAt := now + failoverCooldown\<rparr> else s)"

definition ordered :: "failover_state \<Rightarrow> url list \<Rightarrow> time \<Rightarrow> failover_state \<times> url list" where
  "ordered s targets now =
     (if length targets < 2 then (s, targets)
      else
        let s2 = refresh_failover s now;
            primaryKey = upstreamTargetKey (hd targets);
            probePrimary = probe_primary s2 primaryKey now;
            s3 = reserve_probe probePrimary now s2;
            (p, h, c) = split_targets s3 probePrimary primaryKey now targets
        in (s3, p @ h @ c))"

definition markFailure :: "url \<Rightarrow> time \<Rightarrow> failover_state \<Rightarrow> failover_state" where
  "markFailure target now s =
     (let key = upstreamTargetKey target
      in if key = [] then s
         else let s1 = s\<lparr>failedUntil := mput key (now + failoverCooldown) (failedUntil s),
                         primaryProbeAt := now + failoverCooldown\<rparr>
              in if preferred s1 = key then s1\<lparr>preferred := [], preferredUntil := 0\<rparr> else s1)"

definition markSuccess :: "url \<Rightarrow> time \<Rightarrow> failover_state \<Rightarrow> failover_state" where
  "markSuccess target now s =
     (let key = upstreamTargetKey target
      in if key = [] then s
         else s\<lparr>failedUntil := mdel key (failedUntil s), preferred := key,
                preferredUntil := now + failoverPreferredLifetime, primaryProbeAt := 0\<rparr>)"

definition preferredTarget :: "failover_state \<Rightarrow> url list \<Rightarrow> time \<Rightarrow> failover_state \<times> url option" where
  "preferredTarget s targets now =
     (if length targets < 2 then (s, None)
      else if preferred s = [] \<or> \<not> now < preferredUntil s \<or> failed_at s (preferred s) now then
        (if \<not> now < preferredUntil s then s\<lparr>preferred := [], preferredUntil := 0\<rparr> else s, None)
      else (s, find (\<lambda>target. upstreamTargetKey target = preferred s) targets))"

section \<open>The contract of the target order\<close>

locale failover_order =
  fixes order :: "'s \<Rightarrow> 'u list \<Rightarrow> time \<Rightarrow> 'u list"
    and cooling :: "'s \<Rightarrow> 'u \<Rightarrow> time \<Rightarrow> bool"
    and invar :: "'s \<Rightarrow> bool"
  assumes order_mset: "mset (order s ts now) = mset ts"
    and cooling_last: "invar s \<Longrightarrow> 0 \<le> now \<Longrightarrow> order s ts now = xs @ x # ys \<Longrightarrow>
      cooling s x now \<Longrightarrow> y \<in> set ys \<Longrightarrow> cooling s y now"
begin

lemma order_set: "set (order s ts now) = set ts"
  by (rule mset_eq_setD [OF order_mset])

lemma order_length: "length (order s ts now) = length ts"
  by (rule mset_eq_length [OF order_mset])

lemma order_distinct: "distinct (order s ts now) = distinct ts"
  by (rule mset_eq_imp_distinct_iff [OF order_mset])

lemma healthy_before_cooling:
  assumes "invar s" "0 \<le> now" and "order s ts now = xs @ t # ys"
    and "\<not> cooling s t now" and "x \<in> set xs"
  shows "\<not> cooling s x now"
proof
  assume cx: "cooling s x now"
  from assms(5) obtain us vs where "xs = us @ x # vs" by (meson split_list)
  with assms(3) have "order s ts now = us @ x # (vs @ t # ys)" by simp
  from cooling_last [OF assms(1,2) this cx, of t] assms(4) show False by simp
qed

lemma first_healthy:
  assumes "invar s" "0 \<le> now" and "t \<in> set ts" and "\<not> cooling s t now"
  shows "\<not> cooling s (hd (order s ts now)) now"
proof -
  from assms(3) have "t \<in> set (order s ts now)" by (simp add: order_set)
  then obtain xs ys where o: "order s ts now = xs @ t # ys" by (meson split_list)
  show ?thesis
  proof (cases xs)
    case Nil
    with o assms(4) show ?thesis by simp
  next
    case (Cons x us)
    with healthy_before_cooling [OF assms(1,2) o assms(4), of x] o show ?thesis by simp
  qed
qed

end

section \<open>The state provides it\<close>

definition cooling_target :: "failover_state \<Rightarrow> url \<Rightarrow> time \<Rightarrow> bool" where
  "cooling_target s target now \<longleftrightarrow> failed_at s (upstreamTargetKey target) now"

lemma failed_at_expire [simp]:
  assumes "mwf (failedUntil s)" and "0 \<le> now"
  shows "failed_at (expire_failed s now) key now = failed_at s key now"
  using assms
  by (auto simp: failed_at_def expire_failed_def mget_or_def mget_filter split: option.splits)

lemma failed_at_update [simp]:
  "failed_at (s\<lparr>preferred := x\<rparr>) key now = failed_at s key now"
  "failed_at (s\<lparr>preferredUntil := y\<rparr>) key now = failed_at s key now"
  "failed_at (s\<lparr>primaryProbeAt := y\<rparr>) key now = failed_at s key now"
  by (simp_all add: failed_at_def)

lemma split_targets_mset:
  "split_targets s pp pk now ts = (p, h, c) \<Longrightarrow> mset (p @ h @ c) = mset ts"
  by (induction ts arbitrary: p h c) (auto simp: Let_def split: prod.splits if_splits)

lemma split_targets_cooling:
  assumes "pp \<Longrightarrow> \<not> failed_at s pk now"
  shows "split_targets s pp pk now ts = (p, h, c) \<Longrightarrow>
    (\<forall>t\<in>set (p @ h). \<not> cooling_target s t now) \<and> (\<forall>t\<in>set c. cooling_target s t now)"
  using assms
  by (induction ts arbitrary: p h c)
    (auto simp: Let_def cooling_target_def split: prod.splits if_splits)

definition failover_inv :: "failover_state \<Rightarrow> bool" where
  "failover_inv s \<longleftrightarrow> mwf (failedUntil s)"

definition order_of :: "failover_state \<Rightarrow> url list \<Rightarrow> time \<Rightarrow> url list" where
  "order_of s targets now = snd (ordered s targets now)"

lemma failed_at_refresh [simp]: "failover_inv s \<Longrightarrow> 0 \<le> now \<Longrightarrow>
    failed_at (refresh_failover s now) key now = failed_at s key now"
  by (simp add: refresh_failover_def Let_def failover_inv_def)

lemma failed_at_reserve [simp]: "failed_at (reserve_probe b t s) key now = failed_at s key now"
  by (simp add: reserve_probe_def)

lemma ordered_split:
  assumes "ordered s ts now = (s', us)" and "2 \<le> length ts" and "failover_inv s" and "0 \<le> now"
  obtains p h c pp where
    "us = p @ h @ c" "split_targets s' pp (upstreamTargetKey (hd ts)) now ts = (p, h, c)"
    "pp \<Longrightarrow> \<not> failed_at s' (upstreamTargetKey (hd ts)) now"
    "\<And>key. failed_at s' key now = failed_at s key now"
proof -
  let ?pk = "upstreamTargetKey (hd ts)"
  let ?s2 = "refresh_failover s now"
  define pp where "pp = probe_primary ?s2 ?pk now"
  obtain p h c where sp: "split_targets (reserve_probe pp now ?s2) pp ?pk now ts = (p, h, c)"
    by (cases "split_targets (reserve_probe pp now ?s2) pp ?pk now ts")
  have "s' = reserve_probe pp now ?s2" "us = p @ h @ c"
    using assms(1,2) sp by (simp_all add: ordered_def Let_def pp_def)
  with sp assms(3,4) show thesis
    by (intro that [of p h c pp]) (auto simp: pp_def probe_primary_def)
qed

lemma order_of_mset: "mset (order_of s ts now) = mset ts"
proof (cases "length ts < 2")
  case False
  then show ?thesis
    by (auto simp: order_of_def ordered_def Let_def split: prod.splits dest!: split_targets_mset)
qed (simp add: order_of_def ordered_def)

lemma order_of_cooling_last:
  assumes "failover_inv s" "0 \<le> now" "order_of s ts now = xs @ x # ys"
    and "cooling_target s x now" "y \<in> set ys"
  shows "cooling_target s y now"
proof (cases "length ts < 2")
  case True
  then have "length (xs @ x # ys) < 2"
    using assms(3) by (simp add: order_of_def ordered_def)
  with assms(5) show ?thesis by (cases ys) auto
next
  case False
  obtain s' us where o: "ordered s ts now = (s', us)" by (cases "ordered s ts now")
  from False have two: "2 \<le> length ts" by simp
  from ordered_split [OF o two assms(1,2)] obtain p h c pp where
    us: "us = p @ h @ c"
    and sp: "split_targets s' pp (upstreamTargetKey (hd ts)) now ts = (p, h, c)"
    and pp: "pp \<Longrightarrow> \<not> failed_at s' (upstreamTargetKey (hd ts)) now"
    and fa: "\<And>key. failed_at s' key now = failed_at s key now" by metis
  from split_targets_cooling [OF pp sp] fa
  have ph: "\<forall>t\<in>set (p @ h). \<not> cooling_target s t now" and c: "\<forall>t\<in>set c. cooling_target s t now"
    by (auto simp: cooling_target_def)
  have "(p @ h) @ c = xs @ x # ys" using assms(3) us o by (simp add: order_of_def)
  moreover have "x \<notin> set (p @ h)" using ph assms(4) by blast
  ultimately have "set ys \<subseteq> set c" by (rule append_split_notin)
  with c assms(5) show ?thesis by blast
qed

interpretation fo: failover_order order_of cooling_target failover_inv
  by unfold_locales (rule order_of_mset, rule order_of_cooling_last)

section \<open>The operations keep the map well formed\<close>

lemma failover_inv_new: "failover_inv newUpstreamFailoverState"
  by (simp add: failover_inv_def newUpstreamFailoverState_def)

lemma failover_inv_ordered: "failover_inv s \<Longrightarrow> failover_inv (fst (ordered s ts now))"
  by (auto simp: failover_inv_def ordered_def refresh_failover_def reserve_probe_def
      expire_failed_def Let_def split: prod.splits)

lemma failover_inv_markFailure: "failover_inv s \<Longrightarrow> failover_inv (markFailure t now s)"
  by (auto simp: failover_inv_def markFailure_def Let_def)

lemma failover_inv_markSuccess: "failover_inv s \<Longrightarrow> failover_inv (markSuccess t now s)"
  by (auto simp: failover_inv_def markSuccess_def Let_def)

lemma failover_inv_preferredTarget: "failover_inv s \<Longrightarrow> failover_inv (fst (preferredTarget s ts now))"
  by (auto simp: failover_inv_def preferredTarget_def)

lemmas failover_inv_ops = failover_inv_ordered failover_inv_markFailure
  failover_inv_markSuccess failover_inv_preferredTarget

text \<open>A target that failed is cooling for the whole cooldown, one that answered is not.\<close>

lemma markFailure_cools:
  assumes "upstreamTargetKey t \<noteq> []" and "now' < now + failoverCooldown"
  shows "cooling_target (markFailure t now s) t now'"
  using assms by (auto simp: markFailure_def cooling_target_def failed_at_def mget_or_def Let_def)

lemma markFailure_other:
  "upstreamTargetKey t \<noteq> upstreamTargetKey u \<Longrightarrow>
    cooling_target (markFailure t now s) u now' = cooling_target s u now'"
  by (auto simp: markFailure_def cooling_target_def failed_at_def mget_or_def Let_def)

lemma markSuccess_heals:
  assumes "upstreamTargetKey t \<noteq> []" and "0 \<le> now'"
  shows "\<not> cooling_target (markSuccess t now s) t now'"
  using assms by (auto simp: markSuccess_def cooling_target_def failed_at_def mget_or_def Let_def)

section \<open>The recovery probe\<close>

lemma split_targets_filter:
  "split_targets s pp pk now ts =
    (let first = (\<lambda>t. pp \<and> upstreamTargetKey t = pk \<or>
           upstreamTargetKey t = preferred s \<and> \<not> cooling_target s t now)
     in (filter first ts,
         filter (\<lambda>t. \<not> first t \<and> \<not> cooling_target s t now) ts,
         filter (\<lambda>t. \<not> first t \<and> cooling_target s t now) ts))"
  by (induction ts) (auto simp: Let_def cooling_target_def)

lemma hd_filter_first: "P x \<Longrightarrow> hd (filter P (x # xs) @ ys) = x"
  by simp

lemma hd_filter_mem: "x \<in> set xs \<Longrightarrow> P x \<Longrightarrow> P (hd (filter P xs @ ys))"
  by (induction xs) auto

lemma refresh_failover_fields [simp]:
  "primaryProbeAt (refresh_failover s now) = primaryProbeAt s"
  "preferredUntil (refresh_failover s now) = preferredUntil s"
  "now < preferredUntil s \<Longrightarrow> preferred (refresh_failover s now) = preferred s"
  by (simp_all add: refresh_failover_def expire_failed_def Let_def)

lemma reserve_probe_fields [simp]:
  "preferred (reserve_probe b now s) = preferred s"
  "preferredUntil (reserve_probe b now s) = preferredUntil s"
  "failedUntil (reserve_probe b now s) = failedUntil s"
  "primaryProbeAt (reserve_probe b now s) = (if b then now + failoverCooldown else primaryProbeAt s)"
  by (simp_all add: reserve_probe_def)

lemma failed_at_earlier: "failed_at s key now' \<Longrightarrow> now \<le> now' \<Longrightarrow> failed_at s key now"
  by (simp add: failed_at_def)

text \<open>\<open>ordered\<close> on at least two targets, with the loop as three filters.\<close>

definition goes_first :: "failover_state \<Rightarrow> bool \<Rightarrow> string \<Rightarrow> time \<Rightarrow> url \<Rightarrow> bool" where
  "goes_first s pp pk now t \<longleftrightarrow> pp \<and> upstreamTargetKey t = pk \<or>
     upstreamTargetKey t = preferred s \<and> \<not> cooling_target s t now"

lemma ordered_filter:
  assumes "rest \<noteq> []" and s2: "s2 = refresh_failover s now"
    and pk: "pk = upstreamTargetKey primary" and pp: "pp = probe_primary s2 pk now"
  shows "ordered s (primary # rest) now =
    (reserve_probe pp now s2,
     filter (goes_first (reserve_probe pp now s2) pp pk now) (primary # rest) @
     filter (\<lambda>t. \<not> goes_first (reserve_probe pp now s2) pp pk now t \<and>
       \<not> cooling_target (reserve_probe pp now s2) t now) (primary # rest) @
     filter (\<lambda>t. \<not> goes_first (reserve_probe pp now s2) pp pk now t \<and>
       cooling_target (reserve_probe pp now s2) t now) (primary # rest))"
proof -
  have "\<not> length (primary # rest) < 2" using assms(1) by (cases rest) auto
  then show ?thesis
    by (simp only: ordered_def if_False Let_def split_targets_filter goes_first_def [abs_def]
        list.sel prod.case s2 pk pp)
qed

lemma ordered_probe:
  assumes "failover_inv s" "0 \<le> now" "now < preferredUntil s" "preferred s \<noteq> []"
    and "preferred s \<noteq> upstreamTargetKey primary" "\<not> cooling_target s primary now"
    and "\<not> now < primaryProbeAt s" and "rest \<noteq> []"
    and "ordered s (primary # rest) now = (s1, us)"
  shows "hd us = primary \<and> s1 = reserve_probe True now (refresh_failover s now)"
proof -
  let ?s2 = "refresh_failover s now"
  have pp: "probe_primary ?s2 (upstreamTargetKey primary) now = True"
    using assms by (simp add: probe_primary_def cooling_target_def)
  have "hd (filter (goes_first s' True (upstreamTargetKey primary) now) (primary # rest) @ ys) = primary" for s' ys
    by (simp add: goes_first_def)
  with assms(9) [unfolded ordered_filter [OF assms(8) refl refl refl] pp Pair_inject] show ?thesis
    by blast
qed

lemma ordered_keeps_backup:
  assumes "failover_inv s" "0 \<le> now" "now < preferredUntil s" "preferred s \<noteq> []"
    and "now < primaryProbeAt s" and "backup \<in> set rest" and "upstreamTargetKey backup = preferred s"
    and "\<not> cooling_target s backup now"
  shows "upstreamTargetKey (hd (order_of s (primary # rest) now)) = preferred s"
proof -
  let ?s2 = "refresh_failover s now"
  have np: "probe_primary ?s2 (upstreamTargetKey primary) now = False"
    using assms by (simp add: probe_primary_def)
  have r: "rest \<noteq> []" using assms(6) by auto
  let ?P = "goes_first ?s2 False (upstreamTargetKey primary) now"
  have res: "reserve_probe False now ?s2 = ?s2" by (simp add: reserve_probe_def)
  have "goes_first ?s2 False (upstreamTargetKey primary) now backup"
    using assms by (simp add: goes_first_def cooling_target_def)
  with assms(6) have "?P (hd (filter ?P (primary # rest) @ ys))" for ys
    using hd_filter_mem [where P = ?P and x = backup and xs = "primary # rest" and ys = ys] by simp
  then have "?P (hd (order_of s (primary # rest) now))"
    unfolding order_of_def ordered_filter [OF r refl refl refl] np res snd_conv .
  then show ?thesis using assms(3) by (simp add: goes_first_def)
qed


text \<open>After a failure a line is not tried first again before its cooldown has passed, as long
  as any other configured line is not cooling down.\<close>

theorem failover_failed_line_not_first:
  assumes "failover_inv s" "0 \<le> now'" "now' < now + failoverCooldown"
    and "upstreamTargetKey t \<noteq> []" "u \<in> set targets" "upstreamTargetKey u \<noteq> upstreamTargetKey t"
    and "\<not> cooling_target s u now'"
  shows "upstreamTargetKey (hd (order_of (markFailure t now s) targets now')) \<noteq> upstreamTargetKey t"
proof -
  let ?s = "markFailure t now s"
  have "\<not> cooling_target ?s u now'"
    using assms markFailure_other [of t u] by auto
  from fo.first_healthy [OF failover_inv_markFailure [OF assms(1)] assms(2,5) this]
  have "\<not> cooling_target ?s (hd (order_of ?s targets now')) now'" .
  with markFailure_cools [OF assms(4,3), of s] show ?thesis
    by (auto simp: cooling_target_def)
qed

section \<open>Two lines to evaluate on\<close>

definition demo_line :: "string \<Rightarrow> url" where
  "demo_line h = empty_url\<lparr>scheme := ''http'', host := h\<rparr>"

lemma demo_keys [simp]:
  "upstreamTargetKey (demo_line ''a'') = ''http://a''"
  "upstreamTargetKey (demo_line ''b'') = ''http://b''"
  by code_simp+

definition demo_state :: failover_state where
  "demo_state = markSuccess (demo_line ''b'') 100 newUpstreamFailoverState"

lemma demo_state_inv: "failover_inv demo_state"
  unfolding demo_state_def by (intro failover_inv_ops failover_inv_new)


theorem failover_failed_line_not_first_witness:
  "upstreamTargetKey (hd (order_of (markFailure (demo_line ''a'') 100 newUpstreamFailoverState)
     [demo_line ''a'', demo_line ''b''] 200)) \<noteq> ''http://a''"
  using failover_failed_line_not_first [OF failover_inv_new, of 200 100 "demo_line ''a''" "demo_line ''b''"
      "[demo_line ''a'', demo_line ''b'']"]
  by (simp add: newUpstreamFailoverState_def cooling_target_def failed_at_def mget_or_def
      failoverCooldown_def second_def)

end
