(* ===== verification/Failover_Transport.thy ===== *)
theory Failover_Transport
  imports Failover_State
begin

text \<open>
  \<open>cmd/meridian/upstream_failover.go\<close>, the round tripper that tries the lines of a site in
  turn. The wrapped \<open>http.RoundTripper\<close>, the clock and the client's cancellation are the
  environment: functions of the number of the attempt. What the code does to the outside (the
  tracker it tells about the line, the requests it sends, the bodies it closes) is a list of
  effects.
\<close>

section \<open>Requests and plans\<close>

record body_stream =
  data :: string
  read_error :: bool
  close_error :: bool

record request =
  req_method :: string
  req_url :: url
  req_host :: string
  req_header :: http_header
  content_length :: int
  transfer_encoding :: "string list"
  has_trailer :: bool
  req_body :: "body_stream option"  \<comment> \<open>\<open>None\<close>: nil or \<open>http.NoBody\<close>\<close>
  get_body :: "(nat \<Rightarrow> body_stream option) option"  \<comment> \<open>its result at each attempt, \<open>None\<close> an error\<close>
  has_tracker :: bool

record failover_plan =
  original_url :: url
  plan_targets :: "url list"
  active :: url
  max_body_bytes :: int
  playback_info_post :: bool

text \<open>The plan is put on the request's context; \<open>None\<close> leaves the request as it is.\<close>

definition withFailoverRequestPlan :: "request \<Rightarrow> url \<Rightarrow> url list \<Rightarrow> url \<Rightarrow> int \<Rightarrow> failover_plan option" where
  "withFailoverRequestPlan req originalURL targets act maxBodyBytes =
     (if length targets < 2 then None
      else Some \<lparr>original_url = originalURL, plan_targets = targets, active = act,
        max_body_bytes = maxBodyBytes,
        playback_info_post = (req_method req = ''POST'' \<and> isPlaybackInfoRequest (path originalURL))\<rparr>)"

definition isRetryableUpstreamStatus :: "int \<Rightarrow> bool" where
  "isRetryableUpstreamStatus status \<longleftrightarrow> status = 500 \<or> status = 502 \<or> status = 503 \<or> status = 504"

definition isFailoverRequestEligible :: "request \<Rightarrow> failover_plan \<Rightarrow> bool" where
  "isFailoverRequestEligible req plan \<longleftrightarrow>
     (if hasUpgradeIntent (req_header req) then False
      else if req_method req = ''GET'' \<or> req_method req = ''HEAD'' then True
      else if req_method req \<noteq> ''POST'' \<or> \<not> playback_info_post plan then False
      else
        let hasBody = req_body req \<noteq> None \<or> content_length req \<noteq> 0 \<or>
              transfer_encoding req \<noteq> [] \<or> has_trailer req
        in if \<not> hasBody then True
           else get_body req \<noteq> None \<and> 0 < content_length req \<and> 0 < max_body_bytes plan \<and>
             content_length req \<le> max_body_bytes plan \<and> transfer_encoding req = [] \<and> \<not> has_trailer req)"

section \<open>Errors, environment, effects\<close>

datatype rt_error = ContextCanceled | OtherError string

datatype failover_error = BaseError rt_error | NotReplayable | ReplayFailed | AllAttemptsFailed

record environment =
  base :: "nat \<Rightarrow> request \<Rightarrow> rt_error + int"
  clock :: "nat \<Rightarrow> time"
  client_canceled :: "nat \<Rightarrow> bool"

datatype effect = SetBackend url | Sent request | CloseBody

definition isClientRequestCancellation :: "bool \<Rightarrow> rt_error \<Rightarrow> bool" where
  "isClientRequestCancellation originalCanceled e \<longleftrightarrow> e = ContextCanceled \<and> originalCanceled"

definition cloneFailoverInitialAttempt :: "request \<Rightarrow> failover_plan \<Rightarrow> url \<Rightarrow> request" where
  "cloneFailoverInitialAttempt req plan target =
     req\<lparr>req_url := applyUpstreamURL (original_url plan) target, req_host := host target\<rparr>"

definition cloneFailoverAttempt :: "nat \<Rightarrow> request \<Rightarrow> failover_plan \<Rightarrow> url \<Rightarrow> failover_error + request" where
  "cloneFailoverAttempt i req plan target =
     (let retarget = (\<lambda>r. r\<lparr>req_url := applyUpstreamURL (original_url plan) target, req_host := host target\<rparr>)
      in if req_body req = None then Inr (retarget req)
         else case get_body req of
                None \<Rightarrow> Inl NotReplayable
              | Some replay \<Rightarrow>
                  (case replay i of None \<Rightarrow> Inl ReplayFailed
                   | Some b \<Rightarrow> Inr (retarget (req\<lparr>req_body := Some b\<rparr>))))"

definition announce :: "request \<Rightarrow> url \<Rightarrow> effect list" where
  "announce attempt target = (if has_tracker attempt then [SetBackend target] else [])"

section \<open>The loop over the ordered targets\<close>

definition attempt_request :: "nat \<Rightarrow> request \<Rightarrow> failover_plan \<Rightarrow> url \<Rightarrow> failover_error + request" where
  "attempt_request i req plan target =
     (if 0 < i \<or> upstreamTargetKey target \<noteq> upstreamTargetKey (active plan)
      then cloneFailoverAttempt i req plan target else Inr req)"

fun try_targets :: "environment \<Rightarrow> request \<Rightarrow> failover_plan \<Rightarrow> nat \<Rightarrow> url list \<Rightarrow> rt_error option \<Rightarrow>
    failover_state \<Rightarrow> (failover_error + int) \<times> failover_state \<times> effect list" where
  "try_targets env req plan i [] lastErr s =
     (case lastErr of Some e \<Rightarrow> Inl (BaseError e) | None \<Rightarrow> Inl AllAttemptsFailed, s, [])"
| "try_targets env req plan i (target # rest) lastErr s =
     (case attempt_request i req plan target of
        Inl e \<Rightarrow> (Inl e, s, [])
      | Inr attempt \<Rightarrow>
          let eff = announce attempt target @ [Sent attempt]
          in (case base env i attempt of
               Inl e \<Rightarrow>
                 if isClientRequestCancellation (client_canceled env i) e then (Inl (BaseError e), s, eff)
                 else (case try_targets env req plan (Suc i) rest (Some e) (markFailure target (clock env i) s)
                       of (r, s', eff') \<Rightarrow> (r, s', eff @ eff'))
             | Inr status \<Rightarrow>
                 let s1 = (if isRetryableUpstreamStatus status then markFailure target (clock env i) s else s)
                 in if isRetryableUpstreamStatus status \<and> rest \<noteq> [] then
                      (case try_targets env req plan (Suc i) rest lastErr s1
                       of (r, s', eff') \<Rightarrow> (r, s', eff @ CloseBody # eff'))
                    else (Inr status,
                      (if 200 \<le> status \<and> status < 400 then markSuccess target (clock env i) s1 else s1), eff)))"

text \<open>The branch for a request that must not be repeated.\<close>

definition send_once :: "environment \<Rightarrow> request \<Rightarrow> failover_plan \<Rightarrow> time \<Rightarrow> failover_state \<Rightarrow>
    (failover_error + int) \<times> failover_state \<times> effect list" where
  "send_once env req plan now s =
     (let as_is = (\<lambda>s. (map_sum BaseError id (base env 0 req), s, [Sent req]))
      in case preferredTarget s (plan_targets plan) now of
           (s1, None) \<Rightarrow> as_is s1
         | (s1, Some pref) \<Rightarrow>
             if upstreamTargetKey pref = upstreamTargetKey (active plan) then as_is s1
             else let attempt = cloneFailoverInitialAttempt req plan pref;
                      eff = announce attempt pref @ [Sent attempt]
                  in (case base env 0 attempt of
                       Inl e \<Rightarrow>
                         (Inl (BaseError e),
                          (if isClientRequestCancellation (client_canceled env 0) e then s1
                           else markFailure pref (clock env 0) s1), eff)
                     | Inr status \<Rightarrow>
                         (Inr status,
                          (if isRetryableUpstreamStatus status then markFailure pref (clock env 0) s1
                           else if 200 \<le> status \<and> status < 400 then markSuccess pref (clock env 0) s1
                           else s1), eff)))"

definition RoundTrip :: "environment \<Rightarrow> request \<Rightarrow> failover_plan option \<Rightarrow> time \<Rightarrow> failover_state \<Rightarrow>
    (failover_error + int) \<times> failover_state \<times> effect list" where
  "RoundTrip env req plan now s =
     (case plan of
        None \<Rightarrow> (map_sum BaseError id (base env 0 req), s, [Sent req])
      | Some p \<Rightarrow>
          if length (plan_targets p) < 2 then (map_sum BaseError id (base env 0 req), s, [Sent req])
          else if \<not> isFailoverRequestEligible req p then send_once env req p now s
          else case ordered s (plan_targets p) now of
                 (s1, targets) \<Rightarrow> try_targets env req p 0 targets None s1)"

section \<open>Making a PlaybackInfo body replayable\<close>

datatype body_error = ReadBody | ValidateBody | CloseBodyError

definition prepareFailoverPlaybackInfoBody :: "request \<Rightarrow> int \<Rightarrow> body_error + request" where
  "prepareFailoverPlaybackInfoBody r maxBodyBytes =
     (case req_body r of
        None \<Rightarrow> Inr r
      | Some b \<Rightarrow>
          if req_method r \<noteq> ''POST'' \<or> \<not> isPlaybackInfoRequest (path (req_url r)) \<or>
             content_length r = 0 \<or> get_body r \<noteq> None then Inr r
          else if content_length r < 0 \<or> maxBodyBytes \<le> 0 \<or> content_length r > maxBodyBytes \<or>
             transfer_encoding r \<noteq> [] \<or> has_trailer r then Inr r
          else if int (length (data b)) < content_length r then Inl ReadBody
          else if int (length (data b)) > content_length r \<or> read_error b then Inl ValidateBody
          else if close_error b then Inl CloseBodyError
          else let copy = \<lparr>data = data b, read_error = False, close_error = False\<rparr>
               in Inr (r\<lparr>req_body := Some copy, get_body := Some (\<lambda>_. Some copy)\<rparr>))"

section \<open>Which requests were sent\<close>

definition sent_requests :: "effect list \<Rightarrow> request list" where
  "sent_requests effs = concat (map (\<lambda>e. case e of Sent r \<Rightarrow> [r] | _ \<Rightarrow> []) effs)"

lemma sent_requests_simps [simp]:
  "sent_requests [] = []"
  "sent_requests (Sent r # es) = r # sent_requests es"
  "sent_requests (SetBackend t # es) = sent_requests es"
  "sent_requests (CloseBody # es) = sent_requests es"
  "sent_requests (es @ fs) = sent_requests es @ sent_requests fs"
  by (simp_all add: sent_requests_def)

lemma sent_announce [simp]: "sent_requests (announce a t) = []"
  by (simp add: announce_def)

text \<open>The requests of the loop are the attempts for a prefix of the targets, in order.\<close>

lemma try_targets_prefix:
  "try_targets env req plan i ts le s = (r, s', eff) \<Longrightarrow>
    \<exists>n \<le> length ts.
      map Inr (sent_requests eff) = map (\<lambda>k. attempt_request (i + k) req plan (ts ! k)) [0..<n]"
proof (induction ts arbitrary: i le s r s' eff)
  case (Cons t ts)
  show ?case
  proof (cases "attempt_request i req plan t")
    case (Inl e)
    with Cons.prems show ?thesis by (intro exI [of _ 0]) auto
  next
    case (Inr a)
    have step: ?thesis
      if rec: "try_targets env req plan (Suc i) ts le2 s2 = (r, s', eff2)"
        and eff: "sent_requests eff = a # sent_requests eff2" for le2 s2 eff2
    proof -
      from Cons.IH [OF rec] obtain n where n: "n \<le> length ts"
        "map Inr (sent_requests eff2) = map (\<lambda>k. attempt_request (Suc i + k) req plan (ts ! k)) [0..<n]"
        by auto
      have "map (\<lambda>k. attempt_request (i + k) req plan ((t # ts) ! k)) [0..<Suc n] =
          attempt_request i req plan t #
            map (\<lambda>k. attempt_request (Suc i + k) req plan (ts ! k)) [0..<n]"
        by (subst upt_conv_Cons, simp) (simp add: map_Suc_upt [symmetric] comp_def del: upt_Suc)
      then show ?thesis
        using n Inr eff by (intro exI [of _ "Suc n"]) simp
    qed
    have one: ?thesis if "sent_requests eff = [a]"
      using that Inr by (intro exI [of _ 1]) simp
    show ?thesis
    proof (cases "base env i a")
      case (Inl e)
      then show ?thesis
        using Cons.prems Inr step one
        by (auto simp: Let_def split: if_splits prod.splits)
    next
      case b: (Inr status)
      then show ?thesis
        using Cons.prems Inr step one
        by (auto simp: Let_def split: if_splits prod.splits)
    qed
  qed
qed simp

lemma try_targets_length:
  assumes "try_targets env req plan i ts le s = (r, s', eff)"
  shows "length (sent_requests eff) \<le> length ts"
proof -
  from try_targets_prefix [OF assms] obtain n where "n \<le> length ts" and
    m: "map Inr (sent_requests eff) = map (\<lambda>k. attempt_request (i + k) req plan (ts ! k)) [0..<n]"
    by auto
  from arg_cong [OF m, of length] have "length (sent_requests eff) = n" by simp
  with \<open>n \<le> length ts\<close> show ?thesis by simp
qed

text \<open>Without a cancellation by the client, giving up means every target was tried.\<close>

lemma try_targets_exhausts:
  "try_targets env req plan i ts le s = (Inl (BaseError e), s', eff) \<Longrightarrow>
    \<forall>k. \<not> client_canceled env k \<Longrightarrow> length (sent_requests eff) = length ts"
proof (induction ts arbitrary: i le s s' eff)
  case (Cons t ts)
  then show ?case
    by (auto simp: Let_def isClientRequestCancellation_def attempt_request_def cloneFailoverAttempt_def
        split: if_splits prod.splits sum.splits option.splits)
qed simp

lemma try_targets_not_exhausted:
  "try_targets env req plan i ts le s = (r, s', eff) \<Longrightarrow> ts \<noteq> [] \<or> le \<noteq> None \<Longrightarrow>
    r \<noteq> Inl AllAttemptsFailed"
proof (induction ts arbitrary: i le s s' eff)
  case (Cons t ts)
  then show ?case
    by (auto simp: Let_def attempt_request_def cloneFailoverAttempt_def
        split: if_splits prod.splits sum.splits option.splits)
qed (auto split: option.splits)

lemma try_targets_replayable:
  "try_targets env req plan i ts le s = (r, s', eff) \<Longrightarrow> req_body req = None \<or> get_body req \<noteq> None \<Longrightarrow>
    r \<noteq> Inl NotReplayable"
proof (induction ts arbitrary: i le s s' eff)
  case (Cons t ts)
  then show ?case
    by (auto simp: Let_def attempt_request_def cloneFailoverAttempt_def
        split: if_splits prod.splits sum.splits option.splits)
qed (auto split: option.splits)

lemma base_error_not_replay: "map_sum BaseError id x \<noteq> Inl NotReplayable"
  by (cases x) auto

lemma send_once_replayable: "send_once env req plan now s = (r, s', eff) \<Longrightarrow> r \<noteq> Inl NotReplayable"
  by (auto simp: send_once_def Let_def base_error_not_replay
      split: prod.splits option.splits if_splits sum.splits)

lemma send_once_one: "send_once env req plan now s = (r, s', eff) \<Longrightarrow> length (sent_requests eff) = 1"
  by (auto simp: send_once_def Let_def split: prod.splits option.splits if_splits sum.splits)

lemma try_targets_inv:
  "try_targets env req plan i ts le s = (r, s', eff) \<Longrightarrow> failover_inv s \<Longrightarrow> failover_inv s'"
proof (induction ts arbitrary: i le s r s' eff)
  case (Cons t ts)
  then show ?case
    by (fastforce simp: Let_def failover_inv_ops split: if_splits prod.splits sum.splits)
qed simp

lemma preferredTarget_inv: "preferredTarget s ts now = (s', t) \<Longrightarrow> failover_inv s \<Longrightarrow> failover_inv s'"
  using failover_inv_preferredTarget [of s ts now] by simp

lemma ordered_inv: "ordered s ts now = (s', us) \<Longrightarrow> failover_inv s \<Longrightarrow> failover_inv s'"
  using failover_inv_ordered [of s ts now] by simp

lemma send_once_inv: "failover_inv s \<Longrightarrow> send_once env req plan now s = (r, s', eff) \<Longrightarrow> failover_inv s'"
  by (auto simp: send_once_def Let_def split: prod.splits option.splits if_splits sum.splits
      dest: preferredTarget_inv intro!: failover_inv_ops(2,3))

lemma RoundTrip_inv: "failover_inv s \<Longrightarrow> RoundTrip env req plan now s = (r, s', eff) \<Longrightarrow> failover_inv s'"
  by (auto simp: RoundTrip_def split: option.splits if_splits prod.splits
      intro: send_once_inv try_targets_inv dest: ordered_inv)

lemma RoundTrip_eligible:
  assumes "2 \<le> length (plan_targets p)" "isFailoverRequestEligible req p"
  shows "RoundTrip env req (Some p) now s =
    try_targets env req p 0 (order_of s (plan_targets p) now) None (fst (ordered s (plan_targets p) now))"
  using assms by (auto simp: RoundTrip_def order_of_def split: prod.splits)

section \<open>Properties\<close>

text \<open>C3. The order in which the lines are tried is a permutation of the configured targets, and
  as long as one target is not cooling down after a failure, the first line tried is not cooling
  down either.\<close>

theorem failover_order_is_permutation_healthy_first:
  assumes "failover_inv s" and "0 \<le> now"
  shows "mset (order_of s targets now) = mset targets \<and>
    ((\<exists>t\<in>set targets. \<not> cooling_target s t now) \<longrightarrow>
      \<not> cooling_target s (hd (order_of s targets now)) now)"
  using fo.order_mset fo.first_healthy [OF assms] by blast

text \<open>C1. A request that may be repeated is sent to each configured line at most once, in the
  order of the state; the loop never ends with the internal "all attempts failed" error, and if
  it gives up with an upstream error that is not the client's own cancellation, every line was
  tried.\<close>

theorem failover_round_trip_tries_all:
  assumes "2 \<le> length (plan_targets p)" and "isFailoverRequestEligible req p"
    and "RoundTrip env req (Some p) now s = (r, s', eff)"
  shows "r \<noteq> Inl AllAttemptsFailed \<and>
    length (sent_requests eff) \<le> length (plan_targets p) \<and>
    map Inr (sent_requests eff) =
      map (\<lambda>k. attempt_request k req p (order_of s (plan_targets p) now ! k)) [0..<length (sent_requests eff)] \<and>
    ((\<exists>e. r = Inl (BaseError e)) \<and> (\<forall>k. \<not> client_canceled env k) \<longrightarrow>
      length (sent_requests eff) = length (plan_targets p))"
proof -
  let ?ts = "order_of s (plan_targets p) now"
  have len: "length ?ts = length (plan_targets p)" by (rule fo.order_length)
  have run: "try_targets env req p 0 ?ts None (fst (ordered s (plan_targets p) now)) = (r, s', eff)"
    using assms by (simp add: RoundTrip_eligible)
  from try_targets_prefix [OF run] obtain n where n:
    "map Inr (sent_requests eff) = map (\<lambda>k. attempt_request (0 + k) req p (?ts ! k)) [0..<n]"
    by auto
  from arg_cong [OF n, of length] have "length (sent_requests eff) = n" by simp
  moreover have "?ts \<noteq> []" using len assms(1) by auto
  ultimately show ?thesis
    using n len try_targets_length [OF run] try_targets_not_exhausted [OF run] try_targets_exhausts run
    by auto
qed


section \<open>Witnesses\<close>

definition demo_request :: "string \<Rightarrow> request" where
  "demo_request m = \<lparr>req_method = m, req_url = demo_line ''a'', req_host = ''a'', req_header = [],
     content_length = 0, transfer_encoding = [], has_trailer = False, req_body = None,
     get_body = None, has_tracker = True\<rparr>"

definition demo_plan :: failover_plan where
  "demo_plan = \<lparr>original_url = empty_url\<lparr>path := ''/x''\<rparr>,
     plan_targets = [demo_line ''a'', demo_line ''b''], active = demo_line ''a'',
     max_body_bytes = 100, playback_info_post = False\<rparr>"

definition demo_env :: environment where
  "demo_env = \<lparr>base = (\<lambda>i r. Inl (OtherError ''refused'')), clock = (\<lambda>i. 300), client_canceled = (\<lambda>i. False)\<rparr>"

theorem failover_order_is_permutation_healthy_first_witness:
  "mset (order_of demo_state [demo_line ''a'', demo_line ''b''] 200) =
     mset [demo_line ''a'', demo_line ''b''] \<and>
   \<not> cooling_target demo_state (hd (order_of demo_state [demo_line ''a'', demo_line ''b''] 200)) 200"
  using failover_order_is_permutation_healthy_first [OF demo_state_inv, of 200 "[demo_line ''a'', demo_line ''b'']"]
  by (auto simp: demo_state_def markSuccess_def newUpstreamFailoverState_def cooling_target_def
      failed_at_def mget_or_def)

lemma demo_eligible: "isFailoverRequestEligible (demo_request ''GET'') demo_plan"
  by (simp add: isFailoverRequestEligible_def demo_request_def hasUpgradeIntent_def header_get_def
      header_values_def mget_or_def headerHasToken_def trim_space_def)
    code_simp

lemma demo_two: "2 \<le> length (plan_targets demo_plan)"
  by (simp add: demo_plan_def)

lemma demo_run: "fst (RoundTrip demo_env (demo_request ''GET'') (Some demo_plan) 200 demo_state) =
    Inl (BaseError (OtherError ''refused''))"
  by code_simp

theorem failover_round_trip_tries_all_witness:
  "length (sent_requests (snd (snd (RoundTrip demo_env (demo_request ''GET'') (Some demo_plan) 200 demo_state)))) = 2"
proof -
  obtain s' eff where run: "RoundTrip demo_env (demo_request ''GET'') (Some demo_plan) 200 demo_state =
      (Inl (BaseError (OtherError ''refused'')), s', eff)"
    using demo_run by (cases "RoundTrip demo_env (demo_request ''GET'') (Some demo_plan) 200 demo_state") auto
  with failover_round_trip_tries_all [OF demo_two demo_eligible run] show ?thesis
    by (simp add: demo_env_def demo_plan_def)
qed


end
