(* ===== verification/Traffic_Accounting.thy ===== *)
theory Traffic_Accounting
  imports Prelude
begin

text \<open>
  \<open>cmd/meridian/traffic_accounting.go\<close> and the minute arithmetic of
  \<open>traffic_timeline_compat.go\<close>: the projection of the two payload directions onto billable
  bytes, the billing cycle, and the minute buckets of the timeline. A local time is its wall
  clock, with the zone's offset taken as fixed over a cycle, so that \<open>Before\<close> is the
  lexicographic order of the fields.
\<close>

section \<open>Billable bytes\<close>

definition trafficBillingModeBidirectional :: string where
  "trafficBillingModeBidirectional = ''bidirectional''"

definition trafficBillingModeOutbound :: string where
  "trafficBillingModeOutbound = ''outbound''"

definition trafficBillableBytes :: "string \<Rightarrow> int \<Rightarrow> int \<Rightarrow> int" where
  "trafficBillableBytes mode bytesIn bytesOut =
     (let bi = (if bytesIn < 0 then 0 else bytesIn);
          bo = (if bytesOut < 0 then 0 else bytesOut)
      in if mode = trafficBillingModeOutbound then bo
         else if bi > max_i64 - bo then max_i64
         else bi + bo)"

definition trafficBillingModeLabel :: "string \<Rightarrow> string" where
  "trafficBillingModeLabel mode =
     (if mode = trafficBillingModeOutbound then ''outbound'' else trafficBillingModeBidirectional)"

lemma trafficBillableBytes_nonneg [simp]: "0 \<le> trafficBillableBytes m i out"
  by (simp add: trafficBillableBytes_def Let_def max_i64_def)

lemma trafficBillableBytes_le: "in_i64 out \<Longrightarrow> trafficBillableBytes m i out \<le> max_i64"
  by (auto simp: trafficBillableBytes_def Let_def in_i64_def max_i64_def)

lemma trafficBillableBytes_label [simp]:
  "trafficBillableBytes (trafficBillingModeLabel m) i out = trafficBillableBytes m i out"
  by (auto simp: trafficBillableBytes_def trafficBillingModeLabel_def
      trafficBillingModeOutbound_def trafficBillingModeBidirectional_def)

text \<open>Without overflow the projection of a sum is the sum of the projections.\<close>

lemma trafficBillableBytes_add:
  assumes "0 \<le> a" "0 \<le> b" "0 \<le> c" "0 \<le> d" "a + b + (c + d) \<le> max_i64"
  shows "trafficBillableBytes m (a + c) (b + d) = trafficBillableBytes m a b + trafficBillableBytes m c d"
  using assms by (auto simp: trafficBillableBytes_def Let_def)

section \<open>Directions of rows that were written before directions existed\<close>

definition legacyTrafficDirections :: "int \<Rightarrow> int \<times> int" where
  "legacyTrafficDirections amount =
     (if amount \<le> 0 then (0, 0) else let i = amount div 2 in (i, amount - i))"

definition siteTrafficDirections :: "int \<Rightarrow> int \<Rightarrow> int \<Rightarrow> int \<times> int" where
  "siteTrafficDirections trafficUsed usedIn usedOut =
     (if usedIn = 0 \<and> usedOut = 0 \<and> trafficUsed > 0 then legacyTrafficDirections trafficUsed
      else (usedIn, usedOut))"

lemma legacyTrafficDirections_nonneg:
  "0 \<le> fst (legacyTrafficDirections t)" "0 \<le> snd (legacyTrafficDirections t)"
  by (auto simp: legacyTrafficDirections_def Let_def)

lemma legacyTrafficDirections_sum: "0 \<le> t \<Longrightarrow> fst (legacyTrafficDirections t) + snd (legacyTrafficDirections t) = t"
  by (auto simp: legacyTrafficDirections_def Let_def)

section \<open>The billing cycle\<close>

text \<open>A wall clock time: year, month 1--12, day from 1, nanoseconds since midnight.\<close>

record civil =
  year :: int
  month :: int
  day :: int
  nanos :: int

definition leap_year :: "int \<Rightarrow> bool" where
  "leap_year y \<longleftrightarrow> y mod 4 = 0 \<and> (y mod 100 \<noteq> 0 \<or> y mod 400 = 0)"

definition days_in_month :: "int \<Rightarrow> int \<Rightarrow> int" where
  "days_in_month y m =
     (if m = 2 then (if leap_year y then 29 else 28)
      else if m = 4 \<or> m = 6 \<or> m = 9 \<or> m = 11 then 30 else 31)"

definition valid_civil :: "civil \<Rightarrow> bool" where
  "valid_civil t \<longleftrightarrow> 1 \<le> month t \<and> month t \<le> 12 \<and> 1 \<le> day t \<and>
     day t \<le> days_in_month (year t) (month t) \<and> 0 \<le> nanos t"

text \<open>\<open>AddDate(0, -1, 0)\<close> on the first of a month, and its inverse.\<close>

definition previous_month :: "int \<Rightarrow> int \<Rightarrow> int \<times> int" where
  "previous_month y m = (if m = 1 then (y - 1, 12) else (y, m - 1))"

definition following_month :: "int \<Rightarrow> int \<Rightarrow> int \<times> int" where
  "following_month y m = (if m = 12 then (y + 1, 1) else (y, m + 1))"

definition civil_before :: "civil \<Rightarrow> civil \<Rightarrow> bool" where
  "civil_before a b \<longleftrightarrow>
     year a < year b \<or> year a = year b \<and>
       (month a < month b \<or> month a = month b \<and>
         (day a < day b \<or> day a = day b \<and> nanos a < nanos b))"

definition midnight :: "int \<Rightarrow> int \<Rightarrow> int \<Rightarrow> civil" where
  "midnight y m d = \<lparr>year = y, month = m, day = d, nanos = 0\<rparr>"

definition clamp_day :: "int \<Rightarrow> int \<Rightarrow> int \<Rightarrow> int" where
  "clamp_day d y m = (if d > days_in_month y m then days_in_month y m else d)"

text \<open>\<open>None\<close> is the zero time: no reset day, one cycle for ever.\<close>

definition trafficCycleStart :: "civil \<Rightarrow> int \<Rightarrow> civil option" where
  "trafficCycleStart now resetDay =
     (if resetDay = 0 then None
      else
        let d = (if resetDay < 0 \<or> resetDay > 31 then 1 else resetDay);
            candidate = midnight (year now) (month now) (clamp_day d (year now) (month now))
        in if \<not> civil_before now candidate then Some candidate
           else let (py, pm) = previous_month (year now) (month now)
                in Some (midnight py pm (clamp_day d py pm)))"

text \<open>The start of the cycle after the one that starts at \<open>s\<close>.\<close>

definition next_cycle :: "int \<Rightarrow> civil \<Rightarrow> civil" where
  "next_cycle resetDay s =
     (let d = (if resetDay < 0 \<or> resetDay > 31 then 1 else resetDay);
          (y, m) = following_month (year s) (month s)
      in midnight y m (clamp_day d y m))"

lemma days_in_month_bounds: "28 \<le> days_in_month y m" "days_in_month y m \<le> 31"
  by (auto simp: days_in_month_def)

lemma civil_before_irrefl: "\<not> civil_before a a"
  by (simp add: civil_before_def)

lemma civil_before_trans: "civil_before a b \<Longrightarrow> civil_before b c \<Longrightarrow> civil_before a c"
  by (auto simp: civil_before_def)

section \<open>Minutes\<close>

text \<open>
  \<open>Truncate(time.Minute)\<close> counts from the zero time, and \<open>Unix\<close> subtracts the
  seconds of the epoch, a whole number of minutes.
\<close>

definition unix_epoch_seconds :: int where
  "unix_epoch_seconds = 62135596800"

definition trafficMinuteStart :: "time \<Rightarrow> int" where
  "trafficMinuteStart at = at div minute * 60 - unix_epoch_seconds"

definition trafficMinuteSeconds :: int where
  "trafficMinuteSeconds = 60"

definition trafficTimelineMaxMinutes :: int where
  "trafficTimelineMaxMinutes = 7 * 24 * 60"

definition validTrafficTimelineMinutes :: "int \<Rightarrow> bool" where
  "validTrafficTimelineMinutes minutes \<longleftrightarrow>
     minutes \<in> {60, 360, 1440, trafficTimelineMaxMinutes}"

lemma trafficMinuteStart_mult: "trafficMinuteStart at mod trafficMinuteSeconds = 0"
proof -
  have "trafficMinuteStart at = (at div minute - 1035593280) * 60"
    by (simp add: trafficMinuteStart_def unix_epoch_seconds_def algebra_simps)
  then show ?thesis by (simp add: trafficMinuteSeconds_def)
qed

lemma trafficMinuteStart_mono: "a \<le> b \<Longrightarrow> trafficMinuteStart a \<le> trafficMinuteStart b"
  by (simp add: trafficMinuteStart_def zdiv_mono1)

record minute_delta =
  delta_in :: int
  delta_out :: int
  delta_requests :: int

definition zero_delta :: minute_delta where
  "zero_delta = \<lparr>delta_in = 0, delta_out = 0, delta_requests = 0\<rparr>"

definition add_delta :: "minute_delta \<Rightarrow> minute_delta \<Rightarrow> minute_delta" where
  "add_delta a b = \<lparr>delta_in = i64 (delta_in a + delta_in b), delta_out = i64 (delta_out a + delta_out b),
     delta_requests = i64 (delta_requests a + delta_requests b)\<rparr>"

section \<open>Properties of the cycle\<close>

text \<open>With a reset day the active billing cycle starts at a midnight on the reset day of its
  month, or on the month's last day when the month is shorter, and it covers the present: the
  cycle has started, and the next one has not.\<close>

theorem traffic_cycle_covers_now:
  assumes "valid_civil now" and "1 \<le> resetDay" and "resetDay \<le> 31"
  shows "\<exists>s. trafficCycleStart now resetDay = Some s \<and> valid_civil s \<and> nanos s = 0 \<and>
    day s = min resetDay (days_in_month (year s) (month s)) \<and>
    \<not> civil_before now s \<and> civil_before now (next_cycle resetDay s)"
proof -
  let ?c = "midnight (year now) (month now) (clamp_day resetDay (year now) (month now))"
  have clamp: "clamp_day resetDay y m = min resetDay (days_in_month y m)" for y m
    by (simp add: clamp_day_def)
  have clamp1: "1 \<le> clamp_day resetDay y m" "clamp_day resetDay y m \<le> days_in_month y m" for y m
    using assms(2) days_in_month_bounds [of y m] by (auto simp: clamp_day_def)
  show ?thesis
  proof (cases "civil_before now ?c")
    case False
    moreover have "civil_before now (next_cycle resetDay ?c)"
      using assms clamp1
      by (auto simp: next_cycle_def following_month_def midnight_def civil_before_def valid_civil_def)
    moreover have "valid_civil ?c" using assms clamp1 by (auto simp: valid_civil_def midnight_def)
    ultimately show ?thesis
      using assms clamp by (auto simp: trafficCycleStart_def Let_def midnight_def)
  next
    case True
    obtain py pm where p: "previous_month (year now) (month now) = (py, pm)"
      by (cases "previous_month (year now) (month now)")
    let ?s = "midnight py pm (clamp_day resetDay py pm)"
    have m: "1 \<le> pm" "pm \<le> 12" "following_month py pm = (year now, month now)"
      using p assms(1) by (auto simp: previous_month_def following_month_def valid_civil_def split: if_splits)
    have "trafficCycleStart now resetDay = Some ?s"
      using True assms p by (simp add: trafficCycleStart_def)
    moreover have "next_cycle resetDay ?s = ?c"
      using m assms by (simp add: next_cycle_def midnight_def)
    moreover have "\<not> civil_before now ?s"
      using p assms by (auto simp: previous_month_def civil_before_def midnight_def valid_civil_def split: if_splits)
    moreover have "valid_civil ?s" using m clamp1 by (simp add: valid_civil_def midnight_def)
    ultimately show ?thesis using True clamp by (simp add: midnight_def)
  qed
qed

theorem traffic_cycle_covers_now_witness:
  "trafficCycleStart \<lparr>year = 2024, month = 3, day = 5, nanos = 7\<rparr> 31 = Some (midnight 2024 2 29) \<and>
   civil_before \<lparr>year = 2024, month = 3, day = 5, nanos = 7\<rparr> (next_cycle 31 (midnight 2024 2 29))"
  using traffic_cycle_covers_now [of "\<lparr>year = 2024, month = 3, day = 5, nanos = 7\<rparr>" 31]
  by (simp add: trafficCycleStart_def valid_civil_def civil_before_def midnight_def clamp_day_def
      days_in_month_def leap_year_def previous_month_def)

end
