(* ===== verification/Traffic_Quota.thy ===== *)
theory Traffic_Quota
  imports Traffic_Accounting
begin

text \<open>
  \<open>cmd/meridian/traffic_quota.go\<close>: reservations against a site's traffic quota. A writer
  reserves before it writes and settles with what it wrote; the state is reloaded when the billing
  cycle or the billing mode changes, which starts a new generation. The reservations in flight and
  their settlements interleave as the steps of a run. The interface \<open>quota_gate\<close> is what the
  metered writers rely on.
\<close>

datatype quota_error = QuotaExceeded | UsageUnavailable

record quota_state =
  quota_cycle_start :: "civil option"
  quota_cycle_mode :: string
  usage :: int
  generation :: int          \<comment> \<open>a \<open>uint64\<close>\<close>
  initialized :: bool

record reservation =
  res_state :: bool           \<comment> \<open>the reservation points to a quota state\<close>
  res_generation :: int
  reserved :: int
  outbound :: bool
  charged :: bool

definition no_reservation :: reservation where
  "no_reservation = \<lparr>res_state = False, res_generation = 0, reserved = 0, outbound = False, charged = False\<rparr>"

definition new_quota_state :: quota_state where
  "new_quota_state = \<lparr>quota_cycle_start = None, quota_cycle_mode = [], usage = 0, generation = 0, initialized = False\<rparr>"

text \<open>
  What \<open>reserve\<close> reads from elsewhere: the quota of the site, the settings, the local time
  zone, and the result of \<open>currentTrafficCycleUsage\<close> if it is called, \<open>None\<close> an error.
\<close>

record quota_env =
  has_database :: bool
  traffic_quota :: int
  quota_zone :: "time \<Rightarrow> civil"
  reset_day :: int
  billing_mode :: string
  current_usage :: "int option"

definition quota_stale :: "quota_env \<Rightarrow> time \<Rightarrow> quota_state \<Rightarrow> bool" where
  "quota_stale env now q \<longleftrightarrow> \<not> initialized q \<or>
     quota_cycle_start q \<noteq> trafficCycleStart (quota_zone env now) (reset_day env) \<or>
     quota_cycle_mode q \<noteq> trafficBillingModeLabel (billing_mode env)"

definition quota_reload :: "quota_env \<Rightarrow> time \<Rightarrow> int \<Rightarrow> quota_state \<Rightarrow> quota_state" where
  "quota_reload env now used q =
     \<lparr>quota_cycle_start = trafficCycleStart (quota_zone env now) (reset_day env),
      quota_cycle_mode = trafficBillingModeLabel (billing_mode env), usage = used,
      generation = (generation q + 1) mod 2 ^ 64, initialized = True\<rparr>"

text \<open>The part of \<open>reserve\<close> after the state is known to be fresh.\<close>

definition reserve_fresh :: "quota_env \<Rightarrow> bool \<Rightarrow> int \<Rightarrow> quota_state \<Rightarrow>
    quota_state \<times> int \<times> reservation \<times> quota_error option" where
  "reserve_fresh env out requested q =
     (if \<not> out \<and> trafficBillingModeLabel (billing_mode env) = trafficBillingModeOutbound then
        (q, requested, \<lparr>res_state = True, res_generation = generation q, reserved = requested,
           outbound = False, charged = False\<rparr>, None)
      else
        let remaining = i64 (traffic_quota env - usage q)
        in if remaining \<le> 0 then (q, 0, no_reservation, Some QuotaExceeded)
           else
             let allowed = (if requested > remaining then remaining else requested);
                 q' = q\<lparr>usage := i64 (usage q + allowed)\<rparr>;
                 r = \<lparr>res_state = True, res_generation = generation q, reserved = allowed,
                      outbound = out, charged = True\<rparr>
             in (q', allowed, r, if allowed < requested then Some QuotaExceeded else None))"

definition reserve :: "quota_env \<Rightarrow> bool \<Rightarrow> int \<Rightarrow> time \<Rightarrow> quota_state \<Rightarrow>
    quota_state \<times> int \<times> reservation \<times> quota_error option" where
  "reserve env out requested now q =
     (if \<not> has_database env \<or> traffic_quota env \<le> 0 \<or> requested \<le> 0 then (q, requested, no_reservation, None)
      else if quota_stale env now q then
        (case current_usage env of
           None \<Rightarrow> (q, 0, no_reservation, Some UsageUnavailable)
         | Some used \<Rightarrow> reserve_fresh env out requested (quota_reload env now used q))
      else reserve_fresh env out requested q)"

definition settle :: "reservation \<Rightarrow> int \<Rightarrow> quota_state \<Rightarrow> quota_state" where
  "settle r actual0 q =
     (if \<not> res_state r \<or> reserved r \<le> 0 then q
      else
        let actual1 = (if actual0 < 0 then 0 else actual0);
            actual = (if actual1 > reserved r then reserved r else actual1)
        in if generation q \<noteq> res_generation r then
             (if actual > 0 \<and> (outbound r \<or> quota_cycle_mode q \<noteq> trafficBillingModeOutbound) then
                (if usage q > max_i64 - actual then q\<lparr>usage := max_i64\<rparr> else q\<lparr>usage := usage q + actual\<rparr>)
              else q)
           else if \<not> charged r then q
           else let refund = reserved r - actual
                in if refund \<le> 0 then q
                   else if refund \<ge> usage q then q\<lparr>usage := 0\<rparr>
                   else q\<lparr>usage := usage q - refund\<rparr>)"

definition settled_bytes :: "reservation \<Rightarrow> int \<Rightarrow> int" where
  "settled_bytes r actual = max 0 (min (reserved r) actual)"

section \<open>The gate the writers use\<close>

text \<open>A request of \<open>n\<close> bytes is granted a number of bytes between zero and \<open>n\<close>, and all of
  them unless there is an error.\<close>

locale quota_gate =
  fixes grant :: "int \<Rightarrow> 'q \<Rightarrow> 'q \<times> int \<times> 'r \<times> 'e option"
  assumes grant_bounds: "0 \<le> n \<Longrightarrow> grant n q = (q', allowed, r, e) \<Longrightarrow> 0 \<le> allowed \<and> allowed \<le> n"
    and grant_all: "0 \<le> n \<Longrightarrow> grant n q = (q', allowed, r, None) \<Longrightarrow> allowed = n"
begin

lemma grant_none: "0 < n \<Longrightarrow> grant n q = (q', 0, r, e) \<Longrightarrow> e \<noteq> None"
  using grant_all [of n q q' 0 r] by auto

lemma grant_cut: "grant (int (length b)) q = (q', allowed, r, e) \<Longrightarrow> allowed < int (length b) \<Longrightarrow> e \<noteq> None"
  using grant_all [of "int (length b)" q q' allowed r] by auto

text \<open>The clipped payload is a prefix with exactly the granted length.\<close>

lemma clip:
  assumes "grant (int (length b)) q = (q', allowed, r, e)"
  shows "length (take (nat allowed) b) = nat allowed" "b = take (nat allowed) b @ drop (nat allowed) b"
  using grant_bounds [OF _ assms] by auto

end

definition quota_ok :: "quota_state \<Rightarrow> bool" where
  "quota_ok q \<longleftrightarrow> 0 \<le> usage q \<and> usage q \<le> max_i64"

definition env_ok :: "quota_env \<Rightarrow> bool" where
  "env_ok env \<longleftrightarrow> traffic_quota env \<le> max_i64 \<and>
     (case current_usage env of None \<Rightarrow> True | Some u \<Rightarrow> 0 \<le> u \<and> u \<le> max_i64)"

lemma reserve_fresh_bounds:
  assumes "0 \<le> n" "reserve_fresh env out n q = (q', allowed, r, e)"
  shows "0 \<le> allowed \<and> allowed \<le> n \<and> (e = None \<longrightarrow> allowed = n)"
  using assms by (auto simp: reserve_fresh_def Let_def split: if_splits)

lemma reserve_bounds:
  assumes "0 \<le> n" "reserve env out n now q = (q', allowed, r, e)"
  shows "0 \<le> allowed \<and> allowed \<le> n \<and> (e = None \<longrightarrow> allowed = n)"
  using assms reserve_fresh_bounds [OF assms(1)]
  by (auto simp: reserve_def split: if_splits option.splits)

interpretation gate: quota_gate "\<lambda>n q. reserve env out n now q" for env out now
  by unfold_locales (auto dest: reserve_bounds)

lemma remaining_i64: "quota_ok q \<Longrightarrow> 0 < traffic_quota env \<Longrightarrow> env_ok env \<Longrightarrow>
    i64 (traffic_quota env - usage q) = traffic_quota env - usage q"
  by (intro i64_id) (auto simp: quota_ok_def env_ok_def in_i64_def min_i64_def max_i64_def)

text \<open>What a fresh reservation does to the usage.\<close>

lemma reserve_fresh_usage:
  assumes "quota_ok q" "0 < traffic_quota env" "env_ok env" "0 < n" "reserve_fresh env out n q = (q', allowed, r, e)"
  shows "generation q' = generation q" "quota_ok q'" "quota_cycle_mode q' = quota_cycle_mode q"
    and "usage q' = usage q + (if res_state r \<and> charged r then reserved r else 0)"
    and "res_state r \<and> charged r \<Longrightarrow> usage q' \<le> traffic_quota env"
    and "res_state r \<Longrightarrow> res_generation r = generation q \<and> 0 < reserved r \<and> allowed = reserved r"
    and "\<not> res_state r \<Longrightarrow> allowed = 0"
proof -
  let ?rem = "traffic_quota env - usage q"
  have sum: "i64 (usage q + (if n > ?rem then ?rem else n)) = usage q + (if n > ?rem then ?rem else n)" if "0 < ?rem"
    using assms that by (intro i64_id in_i64_nonneg) (auto simp: quota_ok_def env_ok_def)
  show "generation q' = generation q" "quota_ok q'" "quota_cycle_mode q' = quota_cycle_mode q"
    "usage q' = usage q + (if res_state r \<and> charged r then reserved r else 0)"
    "res_state r \<and> charged r \<Longrightarrow> usage q' \<le> traffic_quota env"
    "res_state r \<Longrightarrow> res_generation r = generation q \<and> 0 < reserved r \<and> allowed = reserved r"
    "\<not> res_state r \<Longrightarrow> allowed = 0"
    using assms sum
    by (auto simp: reserve_fresh_def Let_def remaining_i64 no_reservation_def quota_ok_def env_ok_def split: if_splits)
qed

section \<open>Reservations in flight\<close>

text \<open>
  The reservations that are not settled yet, and as history the usage the current cycle was loaded
  with, the charged bytes settled in it, and the number of loads.
\<close>

record quota_run =
  quota :: quota_state
  in_flight :: "reservation list"
  base_usage :: int
  delivered :: int
  loads :: nat

definition remove_nth :: "nat \<Rightarrow> 'a list \<Rightarrow> 'a list" where
  "remove_nth i xs = take i xs @ drop (Suc i) xs"

definition is_current :: "quota_state \<Rightarrow> reservation \<Rightarrow> bool" where
  "is_current q r \<longleftrightarrow> res_state r \<and> charged r \<and> res_generation r = generation q"

inductive quota_step :: "int \<Rightarrow> quota_run \<Rightarrow> quota_run \<Rightarrow> bool" for limit where
  ReserveSame: "traffic_quota env = limit \<Longrightarrow> env_ok env \<Longrightarrow> \<not> quota_stale env now (quota s) \<Longrightarrow>
    reserve env out n now (quota s) = (q', allowed, r, e) \<Longrightarrow>
    quota_step limit s (s\<lparr>quota := q', in_flight := r # in_flight s\<rparr>)"
| ReserveLoad: "traffic_quota env = limit \<Longrightarrow> env_ok env \<Longrightarrow> quota_stale env now (quota s) \<Longrightarrow>
    has_database env \<Longrightarrow> 0 < limit \<Longrightarrow> 0 < n \<Longrightarrow> current_usage env = Some used \<Longrightarrow>
    reserve env out n now (quota s) = (q', allowed, r, e) \<Longrightarrow>
    quota_step limit s (s\<lparr>quota := q', in_flight := r # in_flight s, base_usage := used, delivered := 0,
      loads := Suc (loads s)\<rparr>)"
| ReserveSkipped: "traffic_quota env = limit \<Longrightarrow> quota_stale env now (quota s) \<Longrightarrow>
    \<not> has_database env \<or> limit \<le> 0 \<or> n \<le> 0 \<or> current_usage env = None \<Longrightarrow>
    reserve env out n now (quota s) = (q', allowed, r, e) \<Longrightarrow>
    quota_step limit s (s\<lparr>quota := q', in_flight := r # in_flight s\<rparr>)"
| Settle: "i < length (in_flight s) \<Longrightarrow> r = in_flight s ! i \<Longrightarrow>
    quota_step limit s (s\<lparr>quota := settle r n (quota s), in_flight := remove_nth i (in_flight s),
      delivered := delivered s + (if is_current (quota s) r then settled_bytes r n else 0)\<rparr>)"

definition start_quota_run :: quota_run where
  "start_quota_run = \<lparr>quota = new_quota_state, in_flight = [], base_usage = 0, delivered = 0, loads = 0\<rparr>"

inductive quota_reachable :: "int \<Rightarrow> quota_run \<Rightarrow> bool" for limit where
  Start: "quota_reachable limit start_quota_run"
| Next: "quota_reachable limit s \<Longrightarrow> quota_step limit s t \<Longrightarrow> quota_reachable limit t"

definition held :: "quota_state \<Rightarrow> reservation list \<Rightarrow> int" where
  "held q rs = (\<Sum>r\<leftarrow>rs. if is_current q r then reserved r else 0)"

lemma remove_nth_simps [simp]:
  "remove_nth 0 (x # xs) = xs" "remove_nth (Suc i) (x # xs) = x # remove_nth i xs"
  by (simp_all add: remove_nth_def)

lemma held_Nil [simp]: "held q [] = 0"
  by (simp add: held_def)

lemma held_Cons [simp]: "held q (r # rs) = (if is_current q r then reserved r else 0) + held q rs"
  by (simp add: held_def)

lemma held_remove: "i < length rs \<Longrightarrow>
    held q (remove_nth i rs) = held q rs - (if is_current q (rs ! i) then reserved (rs ! i) else 0)"
proof (induction rs arbitrary: i)
  case (Cons r rs)
  then show ?case by (cases i) simp_all
qed simp

lemma held_cong: "generation q' = generation q \<Longrightarrow> held q' rs = held q rs"
  by (simp add: held_def is_current_def)

lemma held_old: "(\<And>r. r \<in> set rs \<Longrightarrow> res_state r \<Longrightarrow> res_generation r < generation q) \<Longrightarrow> held q rs = 0"
  by (induction rs) (fastforce simp: is_current_def)+

text \<open>Settling never takes more than what is held, and keeps the books.\<close>

lemma settle_usage:
  assumes "quota_ok q" "0 \<le> reserved r" "is_current q r \<Longrightarrow> reserved r \<le> usage q"
  shows "quota_ok (settle r n q)" "generation (settle r n q) = generation q"
    and "is_current q r \<Longrightarrow> usage (settle r n q) = usage q - (reserved r - settled_bytes r n)"
    and "\<not> is_current q r \<Longrightarrow> usage q \<le> usage (settle r n q)"
    and "0 \<le> settled_bytes r n" "settled_bytes r n \<le> reserved r"
  using assms
  by (auto simp: settle_def Let_def is_current_def quota_ok_def settled_bytes_def split: if_splits)

definition quota_books :: "int \<Rightarrow> quota_run \<Rightarrow> bool" where
  "quota_books limit s \<longleftrightarrow>
     quota_ok (quota s) \<and> generation (quota s) = int (loads s) \<and> 0 \<le> base_usage s \<and> 0 \<le> delivered s \<and>
     (\<forall>r\<in>set (in_flight s). 0 \<le> reserved r \<and> (res_state r \<longrightarrow> res_generation r \<le> int (loads s))) \<and>
     base_usage s + delivered s + held (quota s) (in_flight s) \<le> usage (quota s) \<and>
     base_usage s + delivered s + held (quota s) (in_flight s) \<le> max limit (base_usage s)"

lemma held_member_le:
  assumes "\<forall>r\<in>set rs. 0 \<le> reserved r" "i < length rs" "is_current q (rs ! i)"
  shows "reserved (rs ! i) \<le> held q rs"
proof -
  have nn: "0 \<le> held q xs" if "set xs \<subseteq> set rs" for xs
    unfolding held_def using that assms(1) by (intro sum_list_nonneg) auto
  have "set (remove_nth i rs) \<subseteq> set rs"
    by (auto simp: remove_nth_def dest: in_set_takeD in_set_dropD)
  then have "0 \<le> held q (remove_nth i rs)" by (rule nn)
  with held_remove [OF assms(2), of q] assms(3) show ?thesis by simp
qed

lemma books_reserve_fresh:
  assumes b: "quota_books limit s" and q: "traffic_quota env = limit" "0 < limit" "env_ok env" "0 < n"
    and r: "reserve_fresh env out n (quota s) = (q', allowed, r, e)"
  shows "quota_books limit (s\<lparr>quota := q', in_flight := r # in_flight s\<rparr>)"
proof -
  have ok: "quota_ok (quota s)" using b by (simp add: quota_books_def)
  have pos: "0 < traffic_quota env" using q by simp
  note u = reserve_fresh_usage [OF ok pos q(3,4) r]
  have cur: "is_current q' r \<longleftrightarrow> res_state r \<and> charged r"
    using u(1,6) by (auto simp: is_current_def)
  have nonneg: "0 \<le> reserved r"
    using u(6) r by (cases "res_state r") (auto simp: reserve_fresh_def Let_def no_reservation_def split: if_splits)
  show ?thesis
    using b u cur nonneg q(1) held_cong [OF u(1)]
    by (auto simp: quota_books_def)
qed

lemma quota_step_books:
  assumes "quota_step limit s t" "quota_books limit s" "loads t < 2 ^ 64"
  shows "quota_books limit t"
  using assms
proof (induction rule: quota_step.induct)
  case (ReserveSame env now s out n q' allowed r e)
  show ?case
  proof (cases "\<not> has_database env \<or> traffic_quota env \<le> 0 \<or> n \<le> 0")
    case True
    then have "q' = quota s" "r = no_reservation" using ReserveSame.hyps by (auto simp: reserve_def)
    with ReserveSame.prems show ?thesis
      by (auto simp: quota_books_def no_reservation_def is_current_def)
  next
    case False
    with ReserveSame show ?thesis
      by (intro books_reserve_fresh [where env = env and n = n]) (auto simp: reserve_def)
  qed
next
  case (ReserveLoad env now s n used out q' allowed r e)
    let ?q = "quota_reload env now used (quota s)"
    let ?s = "s\<lparr>quota := ?q, base_usage := used, delivered := 0, loads := Suc (loads s)\<rparr>"
    have used: "0 \<le> used \<and> used \<le> max_i64" using ReserveLoad.hyps by (simp add: env_ok_def)
    have gen: "generation ?q = int (loads s) + 1"
      using ReserveLoad.prems by (simp add: quota_reload_def quota_books_def)
    have "held ?q (in_flight s) = 0"
      using ReserveLoad.prems gen by (intro held_old) (auto simp: quota_books_def)
    then have "quota_books limit ?s"
      using ReserveLoad.prems used gen
      by (auto simp: quota_books_def quota_ok_def quota_reload_def)
    moreover have "reserve_fresh env out n (quota ?s) = (q', allowed, r, e)"
      using ReserveLoad.hyps by (simp add: reserve_def)
    ultimately have "quota_books limit (?s\<lparr>quota := q', in_flight := r # in_flight ?s\<rparr>)"
      using ReserveLoad.hyps by (intro books_reserve_fresh) auto
    then show ?case by (cases s) simp
next
  case (ReserveSkipped env now s n out q' allowed r e)
  then have "q' = quota s" "r = no_reservation" by (auto simp: reserve_def split: if_splits option.splits)
  with ReserveSkipped.prems show ?case
    by (auto simp: quota_books_def no_reservation_def is_current_def)
next
  case (Settle i s r n)
  have rs: "\<forall>r\<in>set (in_flight s). 0 \<le> reserved r" and q: "quota_ok (quota s)"
    using Settle.prems by (auto simp: quota_books_def)
  have r: "0 \<le> reserved r" using rs Settle.hyps by simp
  have le: "reserved r \<le> usage (quota s)" if "is_current (quota s) r"
    using held_member_le [OF rs Settle.hyps(1), of "quota s"] that Settle.hyps(2) Settle.prems(1)
    by (auto simp: quota_books_def)
  note st = settle_usage [OF q r le, of n]
  have sub: "set (remove_nth i (in_flight s)) \<subseteq> set (in_flight s)"
    by (auto simp: remove_nth_def dest: in_set_takeD in_set_dropD)
  show ?case
    using Settle.prems(1) st sub held_remove [OF Settle.hyps(1), of "quota s"] Settle.hyps(2)
      held_cong [OF st(2), of "remove_nth i (in_flight s)"]
    by (auto simp: quota_books_def)
qed

lemma quota_step_loads: "quota_step limit s t \<Longrightarrow> loads s \<le> loads t"
  by (induction rule: quota_step.induct) auto

lemma quota_reachable_books: "quota_reachable limit s \<Longrightarrow> loads s < 2 ^ 64 \<Longrightarrow> quota_books limit s"
proof (induction rule: quota_reachable.induct)
  case Start
  then show ?case
    by (simp add: quota_books_def start_quota_run_def new_quota_state_def quota_ok_def max_i64_def)
next
  case (Next s t)
  with quota_step_loads [OF Next.hyps(2)] show ?case by (intro quota_step_books [OF Next.hyps(2)]) auto
qed


text \<open>What a reservation grants: everything while the quota has room for it, what is left
  together with the quota error when it has not, nothing and the error when nothing is left; inbound
  bytes are free when only outbound bytes are billed, and without a quota nothing is limited.\<close>

theorem reserve_grants:
  assumes "quota_ok q" "env_ok env" "0 < n" "n \<le> max_i64" "\<not> quota_stale env now q" "has_database env"
    and "reserve env out n now q = (q', allowed, r, e)"
  shows "if traffic_quota env \<le> 0 \<or> \<not> out \<and> trafficBillingModeLabel (billing_mode env) = trafficBillingModeOutbound
    then q' = q \<and> allowed = n \<and> e = None
    else allowed = max 0 (min n (traffic_quota env - usage q)) \<and> usage q' = usage q + allowed \<and>
      (e = (if allowed < n then Some QuotaExceeded else None)) \<and> settle r allowed q' = q' \<and>
      usage (settle r 0 q') = usage q"
proof (cases "traffic_quota env \<le> 0")
  case True
  with assms show ?thesis by (auto simp: reserve_def)
next
  case False
  with assms have f: "reserve_fresh env out n q = (q', allowed, r, e)" by (simp add: reserve_def)
  have pos: "0 < traffic_quota env" using False by simp
  let ?free = "\<not> out \<and> trafficBillingModeLabel (billing_mode env) = trafficBillingModeOutbound"
  let ?rem = "traffic_quota env - usage q"
  note rem = remaining_i64 [OF assms(1) pos assms(2)]
  have uq: "0 \<le> usage q" using assms(1) by (simp add: quota_ok_def)
  show ?thesis
  proof (cases ?free)
    case True
    with f False show ?thesis by (auto simp: reserve_fresh_def)
  next
    case charge: False
    show ?thesis
    proof (cases "?rem \<le> 0")
      case True
      with f False charge rem have "q' = q" "allowed = 0" "r = no_reservation" "e = Some QuotaExceeded"
        by (auto simp: reserve_fresh_def Let_def)
      with False charge True assms(3) show ?thesis by (auto simp: settle_def no_reservation_def)
    next
      case room: False
      have "i64 (usage q + (if n > ?rem then ?rem else n)) = usage q + (if n > ?rem then ?rem else n)"
        using assms(1-3) room by (intro i64_id in_i64_nonneg) (auto simp: quota_ok_def env_ok_def)
      with f charge rem room have out: "allowed = (if n > ?rem then ?rem else n)"
        "q' = q\<lparr>usage := usage q + allowed\<rparr>"
        "r = \<lparr>res_state = True, res_generation = generation q, reserved = allowed, outbound = out, charged = True\<rparr>"
        "e = (if allowed < n then Some QuotaExceeded else None)"
        by (auto simp: reserve_fresh_def Let_def)
      have a: "0 < allowed" "allowed = max 0 (min n ?rem)" using out(1) room assms(3) by auto
      have "settle r allowed q' = q'" "usage (settle r 0 q') = usage q"
        using a(1) uq by (auto simp: out(2,3) settle_def)
      moreover have "usage q' = usage q + allowed" by (simp add: out(2))
      moreover have nf: "\<not> (traffic_quota env \<le> 0 \<or> ?free)" using False charge by blast
      ultimately show ?thesis unfolding if_not_P [OF nf] using a(2) out(4) by blast
    qed
  qed
qed

text \<open>A quota of ten bytes: a first writer reserves six, a second one asks for six and gets four.\<close>

definition demo_env :: quota_env where
  "demo_env = \<lparr>has_database = True, traffic_quota = 10, quota_zone = (\<lambda>_. midnight 2024 1 5), reset_day = 1,
     billing_mode = ''outbound'', current_usage = Some 0\<rparr>"

definition demo_quota :: quota_state where
  "demo_quota = fst (reserve demo_env True 6 0 new_quota_state)"

definition demo_quota_run :: quota_run where
  "demo_quota_run = (let (q', allowed, r, e) = reserve demo_env True 6 0 (quota start_quota_run)
     in start_quota_run\<lparr>quota := q', in_flight := r # in_flight start_quota_run, base_usage := 0, delivered := 0,
          loads := Suc (loads start_quota_run)\<rparr>)"

lemma demo_quota_reachable: "quota_reachable 10 demo_quota_run"
proof -
  obtain q' allowed r e where p: "reserve demo_env True 6 0 (quota start_quota_run) = (q', allowed, r, e)"
    by (cases "reserve demo_env True 6 0 (quota start_quota_run)") auto
  have d: "demo_quota_run = start_quota_run\<lparr>quota := q', in_flight := r # in_flight start_quota_run, base_usage := 0,
      delivered := 0, loads := Suc (loads start_quota_run)\<rparr>"
    by (simp add: demo_quota_run_def p)
  have st: "quota_stale demo_env 0 (quota start_quota_run)"
    by (simp add: quota_stale_def start_quota_run_def new_quota_state_def)
  show ?thesis
    unfolding d
    by (rule quota_reachable.Next [OF quota_reachable.Start])
      (rule ReserveLoad [OF _ _ st _ _ _ _ p]; simp add: demo_env_def env_ok_def max_i64_def)
qed


theorem reserve_grants_witness:
  "fst (snd (reserve demo_env True 6 0 demo_quota)) = 4 \<and>
   snd (snd (snd (reserve demo_env True 6 0 demo_quota))) = Some QuotaExceeded"
proof -
  have st: "\<not> quota_stale demo_env 0 demo_quota" and u: "usage demo_quota = 6"
    by code_simp+
  obtain q' allowed r e where p: "reserve demo_env True 6 0 demo_quota = (q', allowed, r, e)"
    by (cases "reserve demo_env True 6 0 demo_quota") auto
  have pre: "quota_ok demo_quota" "env_ok demo_env" "has_database demo_env"
    by (simp_all add: quota_ok_def u env_ok_def demo_env_def max_i64_def)
  from reserve_grants [OF pre(1,2) _ _ st pre(3) p] show ?thesis
    unfolding p by (simp add: u demo_env_def max_i64_def)
qed

end
