(* ===== verification/Traffic_Store.thy ===== *)
theory Traffic_Store
  imports Traffic_Accounting "HOL-Library.Product_Lexorder"
begin

text \<open>
  The traffic tables of \<open>cmd/meridian/traffic_repository.go\<close> and
  \<open>traffic_timeline_compat.go\<close>, with the transactions that write and read them.
  A table is a map from its unique key to its row. A transaction that meets an SQL error is
  rolled back; whether SQLite reports an error is the argument \<open>sqlOk\<close>. The sums SQLite
  computes are exact as long as they fit in 64 bits.
\<close>

record site_row =
  row_used :: int
  row_used_in :: int
  row_used_out :: int

record traffic_db =
  traffic_logs :: "(int \<times> civil, minute_delta) gomap"   \<comment> \<open>key \<open>site_id, recorded_at\<close>\<close>
  minute_logs :: "(int \<times> int, minute_delta) gomap"      \<comment> \<open>key \<open>site_id, minute_start_unix\<close>\<close>
  site_rows :: "(int, site_row) gomap"

definition sql_add :: "minute_delta \<Rightarrow> minute_delta \<Rightarrow> minute_delta" where
  "sql_add a b = \<lparr>delta_in = delta_in a + delta_in b, delta_out = delta_out a + delta_out b,
     delta_requests = delta_requests a + delta_requests b\<rparr>"

text \<open>\<open>INSERT ... ON CONFLICT DO UPDATE\<close>\<close>

definition upsert :: "'k \<Rightarrow> minute_delta \<Rightarrow> ('k, minute_delta) gomap \<Rightarrow> ('k, minute_delta) gomap" where
  "upsert k d t = mput k (case mget t k of None \<Rightarrow> d | Some old \<Rightarrow> sql_add old d) t"

definition update_site :: "int \<Rightarrow> int \<Rightarrow> int \<Rightarrow> (int, site_row) gomap \<Rightarrow> (int, site_row) gomap" where
  "update_site siteID bytesIn bytesOut rows =
     (case mget rows siteID of None \<Rightarrow> rows
      | Some r \<Rightarrow> mput siteID \<lparr>row_used = row_used r + bytesIn + bytesOut,
          row_used_in = row_used_in r + bytesIn, row_used_out = row_used_out r + bytesOut\<rparr> rows)"

definition trafficMinuteBucket :: "civil \<Rightarrow> civil" where
  "trafficMinuteBucket nowLocal = nowLocal\<lparr>nanos := nanos nowLocal div minute * minute\<rparr>"

definition addTrafficWithRequestsAt :: "int \<Rightarrow> int \<Rightarrow> int \<Rightarrow> int \<Rightarrow> civil \<Rightarrow> bool \<Rightarrow> traffic_db \<Rightarrow>
    traffic_db option" where
  "addTrafficWithRequestsAt siteID bytesIn bytesOut requests nowLocal sqlOk db =
     (if \<not> sqlOk then None
      else
        let db1 = db\<lparr>traffic_logs := upsert (siteID, trafficMinuteBucket nowLocal)
              \<lparr>delta_in = bytesIn, delta_out = bytesOut, delta_requests = requests\<rparr> (traffic_logs db)\<rparr>
        in Some (if bytesIn \<noteq> 0 \<or> bytesOut \<noteq> 0
                 then db1\<lparr>site_rows := update_site siteID bytesIn bytesOut (site_rows db1)\<rparr> else db1))"

text \<open>The pruning \<open>DELETE\<close>: at most 256 of the oldest rows before the cutoff.\<close>

definition trafficMinuteRetention :: duration where
  "trafficMinuteRetention = 7 * 24 * 60 * minute"

definition trafficMinutePruneBatchSize :: nat where
  "trafficMinutePruneBatchSize = 256"

definition pruned_keys :: "int \<Rightarrow> (int \<times> int, minute_delta) gomap \<Rightarrow> (int \<times> int) list" where
  "pruned_keys cutoff t =
     take trafficMinutePruneBatchSize
       (map (\<lambda>(m, sid). (sid, m))
         (sort (map (\<lambda>((sid, m), d). (m, sid)) (filter (\<lambda>((sid, m), d). m < cutoff) t))))"

definition prune_minutes :: "int \<Rightarrow> (int \<times> int, minute_delta) gomap \<Rightarrow> (int \<times> int, minute_delta) gomap" where
  "prune_minutes cutoff t = (let ks = pruned_keys cutoff t in filter (\<lambda>(k, d). k \<notin> set ks) t)"

definition pruned_minutes :: "int \<Rightarrow> (int \<times> int, minute_delta) gomap \<Rightarrow> (int \<times> int, minute_delta) gomap" where
  "pruned_minutes cutoff t = (let ks = pruned_keys cutoff t in filter (\<lambda>(k, d). k \<in> set ks) t)"

definition bad_bucket :: "int \<times> minute_delta \<Rightarrow> bool" where
  "bad_bucket b = (case b of (m, d) \<Rightarrow>
     m mod trafficMinuteSeconds \<noteq> 0 \<or> delta_in d < 0 \<or> delta_out d < 0 \<or> delta_requests d < 0)"

text \<open>The rows of one site's minute buckets, one upsert each.\<close>

fun upsert_minutes :: "int \<Rightarrow> (int, minute_delta) gomap \<Rightarrow> (int \<times> int, minute_delta) gomap \<Rightarrow>
    (int \<times> int, minute_delta) gomap" where
  "upsert_minutes siteID [] t = t"
| "upsert_minutes siteID ((m, d) # bs) t = upsert_minutes siteID bs (upsert (siteID, m) d t)"

definition minute_cutoff :: "time \<Rightarrow> int" where
  "minute_cutoff now = trafficMinuteStart (now - trafficMinuteRetention)"

definition addTrafficMinuteBuckets :: "int \<Rightarrow> int \<Rightarrow> int \<Rightarrow> (int, minute_delta) gomap \<Rightarrow> time \<Rightarrow> civil \<Rightarrow>
    bool \<Rightarrow> traffic_db \<Rightarrow> traffic_db option" where
  "addTrafficMinuteBuckets siteID bytesIn bytesOut buckets now nowLocal sqlOk db =
     (let bucketRequests = i64 (msum (\<lambda>_ d. delta_requests d) buckets)
      in if \<not> sqlOk \<or> list_ex bad_bucket buckets then None
         else
           let logs = (if bytesIn \<noteq> 0 \<or> bytesOut \<noteq> 0 \<or> bucketRequests \<noteq> 0
                 then upsert (siteID, trafficMinuteBucket nowLocal)
                        \<lparr>delta_in = bytesIn, delta_out = bytesOut, delta_requests = bucketRequests\<rparr> (traffic_logs db)
                 else traffic_logs db);
               sites = (if bytesIn \<noteq> 0 \<or> bytesOut \<noteq> 0
                 then update_site siteID bytesIn bytesOut (site_rows db) else site_rows db)
           in Some \<lparr>traffic_logs = logs,
                minute_logs = prune_minutes (minute_cutoff now) (upsert_minutes siteID buckets (minute_logs db)),
                site_rows = sites\<rparr>)"

section \<open>Queries\<close>

definition logs_since :: "int \<Rightarrow> civil option \<Rightarrow> traffic_db \<Rightarrow> (int \<times> civil, minute_delta) gomap" where
  "logs_since siteID start db =
     filter (\<lambda>((sid, at), d). sid = siteID \<and>
       (case start of None \<Rightarrow> True | Some c \<Rightarrow> \<not> civil_before at c)) (traffic_logs db)"

definition SumTrafficSinceForSite :: "int \<Rightarrow> civil option \<Rightarrow> string \<Rightarrow> traffic_db \<Rightarrow> int" where
  "SumTrafficSinceForSite siteID start billingMode db =
     trafficBillableBytes billingMode
       (msum (\<lambda>_ d. delta_in d) (logs_since siteID start db))
       (msum (\<lambda>_ d. delta_out d) (logs_since siteID start db))"

text \<open>The timeline: one entry for each minute of the window, zero where there is no row.\<close>

fun fill_timeline :: "int \<Rightarrow> (int \<times> minute_delta) list \<Rightarrow> (int \<times> minute_delta) list \<Rightarrow> (int \<times> minute_delta) list" where
  "fill_timeline start [] result = result"
| "fill_timeline start ((m, d) # rows) result =
     (let offset = m - start
      in if offset < 0 \<or> offset mod trafficMinuteSeconds \<noteq> 0 then fill_timeline start rows result
         else let index = nat (offset div trafficMinuteSeconds)
              in fill_timeline start rows
                   (if index < length result then result[index := (m, d)] else result))"

definition timeline_rows :: "int \<Rightarrow> int \<Rightarrow> int \<Rightarrow> traffic_db \<Rightarrow> (int \<times> minute_delta) list" where
  "timeline_rows siteID start stop' db =
     sort_key fst (map (\<lambda>((sid, m), d). (m, d))
       (filter (\<lambda>((sid, m), d). sid = siteID \<and> start \<le> m \<and> m \<le> stop') (minute_logs db)))"

definition GetTrafficTimeline :: "int \<Rightarrow> int \<Rightarrow> time \<Rightarrow> bool \<Rightarrow> traffic_db \<Rightarrow> (int \<times> minute_delta) list option" where
  "GetTrafficTimeline siteID minutes now sqlOk db =
     (if \<not> validTrafficTimelineMinutes minutes \<or> \<not> sqlOk then None
      else
        let stop' = trafficMinuteStart now;
            start = stop' - (minutes - 1) * trafficMinuteSeconds;
            result = map (\<lambda>i. (start + int i * trafficMinuteSeconds, zero_delta)) [0..<nat minutes]
        in Some (fill_timeline start (timeline_rows siteID start stop' db) result))"

section \<open>Sums over the tables\<close>

definition site_log_sum :: "(minute_delta \<Rightarrow> int) \<Rightarrow> int \<Rightarrow> traffic_db \<Rightarrow> int" where
  "site_log_sum f siteID db = msum (\<lambda>(sid, at) d. if sid = siteID then f d else 0) (traffic_logs db)"

definition site_minute_sum :: "(minute_delta \<Rightarrow> int) \<Rightarrow> int \<Rightarrow> (int \<times> int, minute_delta) gomap \<Rightarrow> int" where
  "site_minute_sum f siteID t = msum (\<lambda>(sid, m) d. if sid = siteID then f d else 0) t"

text \<open>The columns a sum is taken over.\<close>

definition column :: "(minute_delta \<Rightarrow> int) \<Rightarrow> bool" where
  "column f \<longleftrightarrow> f \<in> {delta_in, delta_out, delta_requests}"

lemma column_add: "column f \<Longrightarrow> f (sql_add a b) = f a + f b"
  by (auto simp: column_def sql_add_def)

lemma column_simps [simp]: "column delta_in" "column delta_out" "column delta_requests"
  by (simp_all add: column_def)

lemma msum_upsert:
  assumes "column f"
  shows "msum (\<lambda>k d. if P k then f d else 0) (upsert k d t) =
    msum (\<lambda>k d. if P k then f d else 0) t + (if P k then f d else 0)"
  by (auto simp: upsert_def msum_mput column_add [OF assms] split: option.splits)

lemma case_prod_if: "(\<lambda>(a, b) d. if P a b then f d else 0) = (\<lambda>k d. if P (fst k) (snd k) then f d else 0)"
  by (auto simp: fun_eq_iff)

lemma site_minute_sum_upsert:
  assumes "column f"
  shows "site_minute_sum f s (upsert_minutes s bs t) = site_minute_sum f s t + msum (\<lambda>_. f) bs"
proof (induction bs arbitrary: t)
  case (Cons b bs)
  then show ?case
    by (cases b) (simp add: site_minute_sum_def case_prod_if msum_upsert [OF assms])
qed simp

lemma msum_partition: "msum f (filter (\<lambda>(k, v). Q k) t) + msum f (filter (\<lambda>(k, v). \<not> Q k) t) = msum f t"
  by (induction t) auto

lemma site_minute_sum_prune:
  "site_minute_sum f s (prune_minutes c t) + site_minute_sum f s (pruned_minutes c t) = site_minute_sum f s t"
  unfolding site_minute_sum_def prune_minutes_def pruned_minutes_def Let_def
  using msum_partition [of _ "\<lambda>k. k \<in> set (pruned_keys c t)" t] by (simp add: add.commute)

lemma pruned_minutes_old: "(k, d) \<in> set (pruned_minutes c t) \<Longrightarrow> snd k < c"
  by (auto simp: pruned_minutes_def pruned_keys_def Let_def dest!: in_set_takeD)

lemma addTrafficMinuteBuckets_sums:
  assumes "addTrafficMinuteBuckets s bi bo bs now loc ok db = Some db'"
  shows "site_log_sum delta_in s db' = site_log_sum delta_in s db + bi"
    and "site_log_sum delta_out s db' = site_log_sum delta_out s db + bo"
    and "site_log_sum delta_requests s db' = site_log_sum delta_requests s db + i64 (msum (\<lambda>_. delta_requests) bs)"
    and "column f \<Longrightarrow> site_minute_sum f s (minute_logs db') +
        site_minute_sum f s (pruned_minutes (minute_cutoff now) (upsert_minutes s bs (minute_logs db))) =
      site_minute_sum f s (minute_logs db) + msum (\<lambda>_. f) bs"
  using assms
  by (auto simp: addTrafficMinuteBuckets_def Let_def site_log_sum_def case_prod_if msum_upsert
      site_minute_sum_prune site_minute_sum_upsert split: if_splits)

section \<open>The timeline\<close>

lemma fill_timeline_length [simp]: "length (fill_timeline s rows result) = length result"
  by (induction s rows result rule: fill_timeline.induct) (auto simp: Let_def)

lemma fill_timeline_nth:
  assumes "i < length result" and "distinct (map fst rows)"
  shows "fill_timeline s rows result ! i =
    (case map_of rows (s + int i * trafficMinuteSeconds) of
       None \<Rightarrow> result ! i | Some d \<Rightarrow> (s + int i * trafficMinuteSeconds, d))"
  using assms
proof (induction s rows result rule: fill_timeline.induct)
  case (2 s m d rows result)
  let ?at = "s + int i * trafficMinuteSeconds"
  have none: "map_of rows m = None"
    using "2.prems" by (simp add: map_of_eq_None_iff)
  show ?case
  proof (cases "m - s < 0 \<or> (m - s) mod trafficMinuteSeconds \<noteq> 0")
    case True
    then have "m \<noteq> ?at" by (auto simp: trafficMinuteSeconds_def)
    with True "2.IH"(1) [OF refl True] "2.prems" show ?thesis by simp
  next
    case False
    let ?index = "nat ((m - s) div trafficMinuteSeconds)"
    let ?res = "if ?index < length result then result[?index := (m, d)] else result"
    have eq: "m = ?at \<longleftrightarrow> ?index = i"
      using False by (auto simp: trafficMinuteSeconds_def)
    have "fill_timeline s rows ?res ! i =
        (case map_of rows ?at of None \<Rightarrow> ?res ! i | Some d \<Rightarrow> (?at, d))"
      using "2.IH"(2) [OF refl False refl] "2.prems" by (auto simp: trafficMinuteSeconds_def split: if_splits)
    then show ?thesis
      using False eq none "2.prems"(1) by (auto simp: Let_def nth_list_update split: option.splits)
  qed
qed simp

lemma map_of_site_rows:
  "mwf t \<Longrightarrow> map_of (map (\<lambda>((sid, m), d). (m, d)) (filter (\<lambda>((sid, m), d). sid = s \<and> P m) t)) m =
    (if P m then mget t (s, m) else None)"
proof (induction t)
  case (Cons a t)
  then show ?case by (cases a; cases "fst a") auto
qed simp

lemma distinct_site_rows:
  "mwf t \<Longrightarrow> distinct (map fst (map (\<lambda>((sid, m), d). (m, d)) (filter (\<lambda>((sid, m), d). sid = s \<and> P m) t)))"
  by (induction t) (force simp: mget_None_iff split: if_splits)+

lemma distinct_sort_key: "distinct (map fst xs) \<Longrightarrow> distinct (map fst (sort_key fst xs))"
  by (metis mset_map mset_sort mset_eq_imp_distinct_iff)

lemma map_of_sort_key: "distinct (map fst xs) \<Longrightarrow> map_of (sort_key fst xs) = map_of xs"
  by (rule map_of_inject_set [THEN iffD2]) (simp_all add: distinct_sort_key)

text \<open>The traffic timeline of an allowed range has exactly one entry for every minute of the
  window that ends with the current minute, in order; each entry is the stored row of that minute,
  or zero when there is none.\<close>

theorem traffic_timeline_entries:
  assumes "mwf (minute_logs db)" and "GetTrafficTimeline siteID minutes now sqlOk db = Some result"
  shows "length result = nat minutes \<and>
    (\<forall>i < nat minutes.
      let m = trafficMinuteStart now - (minutes - 1 - int i) * trafficMinuteSeconds
      in result ! i = (m, (case mget (minute_logs db) (siteID, m) of None \<Rightarrow> zero_delta | Some d \<Rightarrow> d)))"
proof -
  let ?stop = "trafficMinuteStart now"
  let ?start = "?stop - (minutes - 1) * trafficMinuteSeconds"
  let ?rows = "map (\<lambda>((sid, m), d). (m, d))
       (filter (\<lambda>((sid, m), d). sid = siteID \<and> (?start \<le> m \<and> m \<le> ?stop)) (minute_logs db))"
  have r: "result = fill_timeline ?start (sort_key fst ?rows)
      (map (\<lambda>i. (?start + int i * trafficMinuteSeconds, zero_delta)) [0..<nat minutes])"
    using assms(2) by (simp add: GetTrafficTimeline_def timeline_rows_def Let_def split: if_splits)
  have d: "distinct (map fst ?rows)" by (rule distinct_site_rows [OF assms(1)])
  have "result ! i = (m, (case mget (minute_logs db) (siteID, m) of None \<Rightarrow> zero_delta | Some d \<Rightarrow> d))"
    if i: "i < nat minutes" and m: "m = ?stop - (minutes - 1 - int i) * trafficMinuteSeconds" for i m
  proof -
    have at: "?start + int i * trafficMinuteSeconds = m"
      using m by (simp add: algebra_simps)
    have w: "?start \<le> m \<and> m \<le> ?stop"
      using i m by (auto simp: trafficMinuteSeconds_def)
    have "map_of (sort_key fst ?rows) m = mget (minute_logs db) (siteID, m)"
      unfolding map_of_sort_key [OF d] map_of_site_rows [OF assms(1)] using w by simp
    with i at show ?thesis
      unfolding r by (subst fill_timeline_nth) (auto simp: distinct_sort_key [OF d] split: option.splits)
  qed
  then show ?thesis by (simp add: r Let_def)
qed

text \<open>Two stored minutes of site 1, the second one in the window of the last hour.\<close>

definition demo_db :: traffic_db where
  "demo_db = \<lparr>traffic_logs = [],
     minute_logs = [((1, 0), \<lparr>delta_in = 1, delta_out = 2, delta_requests = 3\<rparr>),
                    ((1, 7200), \<lparr>delta_in = 4, delta_out = 5, delta_requests = 6\<rparr>)],
     site_rows = []\<rparr>"

theorem traffic_timeline_entries_witness:
  "\<exists>result. GetTrafficTimeline 1 60 ((unix_epoch_seconds + 7230) * second) True demo_db = Some result \<and>
     length result = 60 \<and>
     result ! 59 = (7200, \<lparr>delta_in = 4, delta_out = 5, delta_requests = 6\<rparr>) \<and>
     result ! 0 = (3660, zero_delta)"
proof -
  let ?now = "(unix_epoch_seconds + 7230) * second"
  have ms: "trafficMinuteStart ?now = 7200"
    by (simp add: trafficMinuteStart_def unix_epoch_seconds_def minute_def second_def)
  obtain result where r: "GetTrafficTimeline 1 60 ?now True demo_db = Some result"
    by (simp add: GetTrafficTimeline_def validTrafficTimelineMinutes_def Let_def)
  have "mwf (minute_logs demo_db)" by (simp add: demo_db_def)
  from traffic_timeline_entries [OF this r]
  have "length result = 60" and e: "\<And>i. i < 60 \<Longrightarrow> result ! i = (let m = 7200 - (59 - int i) * 60 in
      (m, (case mget (minute_logs demo_db) (1, m) of None \<Rightarrow> zero_delta | Some d \<Rightarrow> d)))"
    by (auto simp: ms trafficMinuteSeconds_def Let_def)
  with r e [of 0] e [of 59] show ?thesis by (simp add: demo_db_def)
qed

end
