(* ===== verification/Traffic_Instance.thy ===== *)
theory Traffic_Instance
  imports Traffic_Store
begin

text \<open>
  The live traffic counters of a running site: \<open>cmd/meridian/request_traffic_meter.go\<close> (the
  meter of one request) and the flush, the billing-cycle cache and the overlay of
  \<open>proxy_lifecycle.go\<close>. The atomic counters and the fields under \<open>trafficMu\<close> are one
  record; every method is a function on the record, and the interleavings of meters and flushes are
  the runs of a step relation.
\<close>

record traffic_inst =
  site_id :: int
  bytesIn :: int
  bytesOut :: int
  cumulativeBytesIn :: int
  cumulativeBytesOut :: int
  persistedBytesIn :: int
  persistedBytesOut :: int
  persistedTraffic :: int
  reqCount :: int
  pendingRequests :: int
  activeTrafficMeters :: int
  flushBytesIn :: int
  flushBytesOut :: int
  pendingMinuteTraffic :: "(int, minute_delta) gomap"
  trafficCycleStart_cached :: "civil option"
  trafficCycleMode :: string
  trafficCycleUsage :: int
  siteTrafficUsed :: int
  siteTrafficUsedIn :: int
  siteTrafficUsedOut :: int

record meter =
  startedMinute :: int
  localIn :: int
  localOut :: int
  streaming :: bool
  finished :: bool

section \<open>The meter of a request\<close>

definition newRequestTrafficMeterAt :: "time \<Rightarrow> traffic_inst \<Rightarrow> traffic_inst \<times> meter" where
  "newRequestTrafficMeterAt at inst =
     (inst\<lparr>activeTrafficMeters := i64 (activeTrafficMeters inst + 1)\<rparr>,
      \<lparr>startedMinute = trafficMinuteStart at, localIn = 0, localOut = 0, streaming = False, finished = False\<rparr>)"

definition addMinuteTraffic :: "int \<Rightarrow> int \<Rightarrow> int \<Rightarrow> int \<Rightarrow> bool \<Rightarrow> traffic_inst \<Rightarrow> traffic_inst" where
  "addMinuteTraffic minuteStart bi bo requests addGlobal inst =
     (if bi = 0 \<and> bo = 0 \<and> requests = 0 then inst
      else
        let inst1 = (if addGlobal then inst\<lparr>bytesIn := i64 (bytesIn inst + bi), bytesOut := i64 (bytesOut inst + bo)\<rparr>
                     else inst);
            delta = mget_or zero_delta (pendingMinuteTraffic inst1) minuteStart;
            delta' = add_delta delta \<lparr>delta_in = bi, delta_out = bo, delta_requests = requests\<rparr>
        in inst1\<lparr>pendingMinuteTraffic := mput minuteStart delta' (pendingMinuteTraffic inst1),
                 flushBytesIn := i64 (flushBytesIn inst1 + bi),
                 flushBytesOut := i64 (flushBytesOut inst1 + bo)\<rparr>)"

definition promoteLocked :: "meter \<Rightarrow> traffic_inst \<Rightarrow> traffic_inst \<times> meter" where
  "promoteLocked m inst =
     (if streaming m then (inst, m)
      else if localIn m \<noteq> 0 \<or> localOut m \<noteq> 0
      then (addMinuteTraffic (startedMinute m) (localIn m) (localOut m) 0 False inst,
            m\<lparr>streaming := True, localIn := 0, localOut := 0\<rparr>)
      else (inst, m\<lparr>streaming := True\<rparr>))"

definition meter_add :: "int \<Rightarrow> int \<Rightarrow> time \<Rightarrow> meter \<Rightarrow> traffic_inst \<Rightarrow> traffic_inst \<times> meter" where
  "meter_add bi bo at m inst =
     (if bi = 0 \<and> bo = 0 then (inst, m)
      else
        let now = trafficMinuteStart at
        in if finished m then (inst, m)
           else if \<not> streaming m \<and> now = startedMinute m
           then (inst\<lparr>bytesIn := i64 (bytesIn inst + bi), bytesOut := i64 (bytesOut inst + bo)\<rparr>,
                 m\<lparr>localIn := i64 (localIn m + bi), localOut := i64 (localOut m + bo)\<rparr>)
           else
             let (inst1, m1) = (if \<not> streaming m then promoteLocked m inst else (inst, m))
             in (addMinuteTraffic now bi bo 0 True inst1, m1))"

text \<open>
  \<open>finish\<close> releases \<open>trafficMu\<close> before it counts the request, so it is two steps: a
  flush can run between them.
\<close>

definition finish_bucket :: "time \<Rightarrow> meter \<Rightarrow> traffic_inst \<Rightarrow> traffic_inst \<times> meter" where
  "finish_bucket at m inst =
     (if finished m then (inst, m)
      else
        let m1 = m\<lparr>finished := True\<rparr>; now = trafficMinuteStart at
        in if streaming m1 then (addMinuteTraffic now 0 0 1 False inst, m1)
           else (addMinuteTraffic now (localIn m1) (localOut m1) 1 False inst, m1\<lparr>localIn := 0, localOut := 0\<rparr>))"

definition finish_count :: "traffic_inst \<Rightarrow> traffic_inst" where
  "finish_count inst = inst\<lparr>reqCount := i64 (reqCount inst + 1), pendingRequests := i64 (pendingRequests inst + 1),
     activeTrafficMeters := i64 (activeTrafficMeters inst - 1)\<rparr>"

section \<open>Flushing to the database\<close>

text \<open>The buckets a flush writes: the pending ones, and the requests no bucket has counted.\<close>

definition flush_buckets :: "time \<Rightarrow> traffic_inst \<Rightarrow> (int, minute_delta) gomap" where
  "flush_buckets now inst =
     (let buckets = pendingMinuteTraffic inst;
          requests = pendingRequests inst;
          bucketRequests = i64 (msum (\<lambda>_ d. delta_requests d) buckets)
      in if requests > bucketRequests
         then let m = trafficMinuteStart now; d = mget_or zero_delta buckets m
              in mput m (d\<lparr>delta_requests := i64 (delta_requests d + (requests - bucketRequests))\<rparr>) buckets
         else buckets)"

text \<open>The restore loop adds each bucket to the map that the flush has emptied.\<close>

fun restore_buckets :: "(int, minute_delta) gomap \<Rightarrow> (int, minute_delta) gomap \<Rightarrow> (int, minute_delta) gomap" where
  "restore_buckets [] acc = acc"
| "restore_buckets ((m, d) # bs) acc =
     restore_buckets bs (mput m (add_delta (mget_or zero_delta acc m) d) acc)"

datatype flush_result = FlushOk | FlushFailed

text \<open>
  \<open>now1\<close>, \<open>now2\<close> and \<open>now3\<close> are the three clock readings of the method, \<open>zone\<close>
  the local time zone, and \<open>resetDay\<close> and \<open>mode\<close> the current system settings. A missing
  database is an SQL error.
\<close>

definition flushProxyTrafficLocked :: "(time \<Rightarrow> civil) \<Rightarrow> int \<Rightarrow> string \<Rightarrow> time \<Rightarrow> time \<Rightarrow> time \<Rightarrow> bool \<Rightarrow>
    traffic_inst \<Rightarrow> traffic_db \<Rightarrow> flush_result \<times> traffic_inst \<times> traffic_db" where
  "flushProxyTrafficLocked zone resetDay mode now1 now2 now3 sqlOk inst db =
     (let bi = bytesIn inst; bo = bytesOut inst; requests = pendingRequests inst;
          buckets = flush_buckets now1 inst;
          empty = inst\<lparr>bytesIn := 0, bytesOut := 0, pendingRequests := 0, pendingMinuteTraffic := [],
            flushBytesIn := 0, flushBytesOut := 0\<rparr>
      in if bi = 0 \<and> bo = 0 \<and> requests = 0 \<and> buckets = [] then (FlushOk, empty, db)
         else case addTrafficMinuteBuckets (site_id inst) bi bo buckets now2 (zone now2) sqlOk db of
           None \<Rightarrow>
             (FlushFailed,
              empty\<lparr>bytesIn := bi, bytesOut := bo, pendingRequests := requests,
                pendingMinuteTraffic := restore_buckets buckets [], flushBytesIn := bi, flushBytesOut := bo\<rparr>, db)
         | Some db' \<Rightarrow>
             let delta = i64 (bi + bo);
                 inst1 = empty\<lparr>persistedTraffic := i64 (persistedTraffic inst + delta),
                   persistedBytesIn := i64 (persistedBytesIn inst + bi),
                   persistedBytesOut := i64 (persistedBytesOut inst + bo),
                   siteTrafficUsed := i64 (siteTrafficUsed inst + delta),
                   siteTrafficUsedIn := i64 (siteTrafficUsedIn inst + bi),
                   siteTrafficUsedOut := i64 (siteTrafficUsedOut inst + bo)\<rparr>;
                 cycleStart = trafficCycleStart (zone now3) resetDay;
                 cycleMode = trafficBillingModeLabel mode
             in (FlushOk,
                 (if trafficCycleMode inst = cycleMode \<and> trafficCycleStart_cached inst = cycleStart
                  then inst1\<lparr>trafficCycleUsage := i64 (trafficCycleUsage inst + trafficBillableBytes cycleMode bi bo)\<rparr>
                  else inst1), db'))"

section \<open>The usage of the active cycle\<close>

definition currentTrafficCycleUsage :: "(time \<Rightarrow> civil) \<Rightarrow> int \<Rightarrow> string \<Rightarrow> time \<Rightarrow> bool \<Rightarrow> traffic_db \<Rightarrow>
    traffic_inst \<Rightarrow> traffic_inst \<times> int option" where
  "currentTrafficCycleUsage zone resetDay mode now sqlOk db inst =
     (let cycleStart = trafficCycleStart (zone now) resetDay;
          cycleMode = trafficBillingModeLabel mode;
          stale = (trafficCycleMode inst \<noteq> cycleMode \<or> trafficCycleStart_cached inst \<noteq> cycleStart)
      in if stale \<and> \<not> sqlOk then (inst, None)
         else
           let inst1 = (if stale then inst\<lparr>trafficCycleStart_cached := cycleStart, trafficCycleMode := cycleMode,
                 trafficCycleUsage := SumTrafficSinceForSite (site_id inst) cycleStart cycleMode db\<rparr> else inst)
           in (inst1, Some (i64 (trafficCycleUsage inst1 +
                 trafficBillableBytes cycleMode (bytesIn inst1) (bytesOut inst1)))))"

definition persistedDirections :: "traffic_inst \<Rightarrow> int \<times> int" where
  "persistedDirections inst =
     (let i = persistedBytesIn inst; out = persistedBytesOut inst
      in if i = 0 \<and> out = 0 \<and> persistedTraffic inst > 0 then legacyTrafficDirections (persistedTraffic inst)
         else (i, out))"

section \<open>The overlay of the traffic views\<close>

record site_traffic =
  st_running :: bool
  st_persisted :: int
  st_bytes_in :: int
  st_bytes_out :: int
  st_cumulative_in :: int
  st_cumulative_out :: int
  st_used :: int
  st_requests :: int

text \<open>\<open>inst\<close> is the entry of \<open>pm.proxies\<close>, with whether it is operational.\<close>

definition overlaySiteTrafficLocked :: "string \<Rightarrow> (traffic_inst \<times> bool) option \<Rightarrow> site_traffic \<Rightarrow> site_traffic" where
  "overlaySiteTrafficLocked billingMode entry st =
     (case entry of None \<Rightarrow> st
      | Some (inst, operational) \<Rightarrow>
          let (pin, pout) = persistedDirections inst;
              persisted = trafficBillableBytes billingMode pin pout
          in \<lparr>st_running = operational, st_persisted = persisted,
               st_bytes_in = bytesIn inst, st_bytes_out = bytesOut inst,
               st_cumulative_in = cumulativeBytesIn inst, st_cumulative_out = cumulativeBytesOut inst,
               st_used = i64 (persisted + trafficBillableBytes billingMode (bytesIn inst) (bytesOut inst)),
               st_requests = reqCount inst\<rparr>)"

section \<open>Interleavings of meters and flushes\<close>

text \<open>
  The fields from \<open>addedIn\<close> on are history: the bytes the meters accepted, the requests
  whose bucket was written and those counted, and the bytes of the rows pruning removed.
\<close>

record traffic_run =
  run_inst :: traffic_inst
  run_db :: traffic_db
  meters :: "(nat, meter) gomap"
  addedIn :: int
  addedOut :: int
  bucketed :: int
  counted :: int
  prunedIn :: int
  prunedOut :: int

text \<open>What a flush that commits prunes.\<close>

definition flush_pruned :: "time \<Rightarrow> time \<Rightarrow> traffic_inst \<Rightarrow> traffic_db \<Rightarrow> (int \<times> int, minute_delta) gomap" where
  "flush_pruned now1 now2 inst db =
     pruned_minutes (minute_cutoff now2) (upsert_minutes (site_id inst) (flush_buckets now1 inst) (minute_logs db))"

definition flush_idle :: "traffic_inst \<Rightarrow> bool" where
  "flush_idle inst \<longleftrightarrow> bytesIn inst = 0 \<and> bytesOut inst = 0 \<and> pendingRequests inst = 0 \<and> pendingMinuteTraffic inst = []"

inductive traffic_step :: "(time \<Rightarrow> civil) \<Rightarrow> traffic_run \<Rightarrow> traffic_run \<Rightarrow> bool" for zone where
  Begin: "mget (meters r) c = None \<Longrightarrow> newRequestTrafficMeterAt at (run_inst r) = (inst, m) \<Longrightarrow>
    traffic_step zone r (r\<lparr>run_inst := inst, meters := mput c m (meters r)\<rparr>)"
| Add: "mget (meters r) c = Some m \<Longrightarrow> 0 \<le> bi \<Longrightarrow> 0 \<le> bo \<Longrightarrow> \<not> finished m \<Longrightarrow>
    meter_add bi bo at m (run_inst r) = (inst, m') \<Longrightarrow>
    traffic_step zone r (r\<lparr>run_inst := inst, meters := mput c m' (meters r),
      addedIn := addedIn r + bi, addedOut := addedOut r + bo\<rparr>)"
| AddLate: "mget (meters r) c = Some m \<Longrightarrow> finished m \<Longrightarrow> meter_add bi bo at m (run_inst r) = (inst, m') \<Longrightarrow>
    traffic_step zone r (r\<lparr>run_inst := inst, meters := mput c m' (meters r)\<rparr>)"
| Promote: "mget (meters r) c = Some m \<Longrightarrow> promoteLocked m (run_inst r) = (inst, m') \<Longrightarrow>
    traffic_step zone r (r\<lparr>run_inst := inst, meters := mput c m' (meters r)\<rparr>)"
| FinishBucket: "mget (meters r) c = Some m \<Longrightarrow> finish_bucket at m (run_inst r) = (inst, m') \<Longrightarrow>
    traffic_step zone r (r\<lparr>run_inst := inst, meters := mput c m' (meters r),
      bucketed := bucketed r + (if finished m then 0 else 1)\<rparr>)"
| FinishCount: "counted r < bucketed r \<Longrightarrow>
    traffic_step zone r (r\<lparr>run_inst := finish_count (run_inst r), counted := counted r + 1\<rparr>)"
| Flush: "flushProxyTrafficLocked zone resetDay mode now1 now2 now3 ok (run_inst r) (run_db r) = (FlushOk, inst, db) \<Longrightarrow>
    pruned = (if flush_idle (run_inst r) then [] else flush_pruned now1 now2 (run_inst r) (run_db r)) \<Longrightarrow>
    traffic_step zone r (r\<lparr>run_inst := inst, run_db := db,
      prunedIn := prunedIn r + site_minute_sum delta_in (site_id (run_inst r)) pruned,
      prunedOut := prunedOut r + site_minute_sum delta_out (site_id (run_inst r)) pruned\<rparr>)"
| FlushError: "flushProxyTrafficLocked zone resetDay mode now1 now2 now3 ok (run_inst r) (run_db r) = (FlushFailed, inst, db) \<Longrightarrow>
    traffic_step zone r (r\<lparr>run_inst := inst, run_db := db\<rparr>)"

text \<open>A site that starts with clean counters over any database.\<close>

definition fresh_inst :: "int \<Rightarrow> traffic_inst" where
  "fresh_inst i = \<lparr>site_id = i, bytesIn = 0, bytesOut = 0, cumulativeBytesIn = 0, cumulativeBytesOut = 0,
     persistedBytesIn = 0, persistedBytesOut = 0, persistedTraffic = 0, reqCount = 0, pendingRequests = 0,
     activeTrafficMeters = 0, flushBytesIn = 0, flushBytesOut = 0, pendingMinuteTraffic = [],
     trafficCycleStart_cached = None, trafficCycleMode = [], trafficCycleUsage = 0,
     siteTrafficUsed = 0, siteTrafficUsedIn = 0, siteTrafficUsedOut = 0\<rparr>"

definition start_run :: "int \<Rightarrow> traffic_db \<Rightarrow> traffic_run" where
  "start_run i db = \<lparr>run_inst = fresh_inst i, run_db = db, meters = [], addedIn = 0, addedOut = 0,
     bucketed = 0, counted = 0, prunedIn = 0, prunedOut = 0\<rparr>"

inductive traffic_reachable :: "(time \<Rightarrow> civil) \<Rightarrow> int \<Rightarrow> traffic_db \<Rightarrow> traffic_run \<Rightarrow> bool"
  for zone i db where
  Start: "traffic_reachable zone i db (start_run i db)"
| Next: "traffic_reachable zone i db r \<Longrightarrow> traffic_step zone r s \<Longrightarrow> traffic_reachable zone i db s"

section \<open>The minute buckets\<close>

definition pend_sum :: "(minute_delta \<Rightarrow> int) \<Rightarrow> traffic_inst \<Rightarrow> int" where
  "pend_sum f inst = msum (\<lambda>_. f) (pendingMinuteTraffic inst)"

definition buckets_ok :: "(int, minute_delta) gomap \<Rightarrow> bool" where
  "buckets_ok bs \<longleftrightarrow> mwf bs \<and> (\<forall>(m, d)\<in>set bs. 0 \<le> delta_in d \<and> 0 \<le> delta_out d)"

definition byte_column :: "(minute_delta \<Rightarrow> int) \<Rightarrow> bool" where
  "byte_column f \<longleftrightarrow> f = delta_in \<or> f = delta_out"

lemma byte_column_simps [simp]: "byte_column delta_in" "byte_column delta_out"
  by (simp_all add: byte_column_def)

lemma byte_column_column [simp]: "byte_column f \<Longrightarrow> column f"
  by (auto simp: byte_column_def)

lemma buckets_ok_get: "buckets_ok bs \<Longrightarrow> mget bs m = Some d \<Longrightarrow> 0 \<le> delta_in d \<and> 0 \<le> delta_out d"
  by (auto simp: buckets_ok_def dest!: mget_in_set)

lemma buckets_ok_nonneg: "buckets_ok bs \<Longrightarrow> byte_column f \<Longrightarrow> (k, v) \<in> set bs \<Longrightarrow> 0 \<le> f v"
  by (auto simp: buckets_ok_def byte_column_def)

lemma buckets_ok_sum: "buckets_ok bs \<Longrightarrow> byte_column f \<Longrightarrow> 0 \<le> msum (\<lambda>_. f) bs"
  by (rule msum_nonneg) (rule buckets_ok_nonneg)

lemma bucket_le_sum:
  assumes "buckets_ok bs" "byte_column f"
  shows "f (mget_or zero_delta bs m) \<le> msum (\<lambda>_. f) bs" "0 \<le> f (mget_or zero_delta bs m)"
proof -
  have z: "f zero_delta = 0" using assms(2) by (auto simp: byte_column_def zero_delta_def)
  show "f (mget_or zero_delta bs m) \<le> msum (\<lambda>_. f) bs"
    using msum_member_le [of bs "\<lambda>_. f" m] buckets_ok_nonneg [OF assms] buckets_ok_sum [OF assms] z
    by (auto simp: mget_or_def split: option.splits dest: mget_in_set)
  show "0 \<le> f (mget_or zero_delta bs m)"
    using buckets_ok_nonneg [OF assms] z
    by (auto simp: mget_or_def split: option.splits dest: mget_in_set)
qed

lemma buckets_ok_mput: "buckets_ok bs \<Longrightarrow> 0 \<le> delta_in d \<Longrightarrow> 0 \<le> delta_out d \<Longrightarrow> buckets_ok (mput m d bs)"
proof -
  have "set (mput m d bs) \<subseteq> insert (m, d) (set bs)"
    by (induction bs) auto
  then show "buckets_ok bs \<Longrightarrow> 0 \<le> delta_in d \<Longrightarrow> 0 \<le> delta_out d \<Longrightarrow> buckets_ok (mput m d bs)"
    by (fastforce simp: buckets_ok_def)
qed

text \<open>Adding a bucket whose bytes fit keeps the sums exact.\<close>

lemma add_bucket:
  assumes "buckets_ok bs" and "0 \<le> delta_in d" "0 \<le> delta_out d"
    and "msum (\<lambda>_. delta_in) bs + delta_in d \<le> max_i64" "msum (\<lambda>_. delta_out) bs + delta_out d \<le> max_i64"
    and bs'_def: "bs' = mput m (add_delta (mget_or zero_delta bs m) d) bs"
  shows "buckets_ok bs'" and "msum (\<lambda>_. delta_in) bs' = msum (\<lambda>_. delta_in) bs + delta_in d"
    and "msum (\<lambda>_. delta_out) bs' = msum (\<lambda>_. delta_out) bs + delta_out d"
proof -
  let ?a = "mget_or zero_delta bs m"
  have "in_i64 (delta_in ?a + delta_in d)" "in_i64 (delta_out ?a + delta_out d)"
    using assms(2-5) bucket_le_sum [OF assms(1), of delta_in m] bucket_le_sum [OF assms(1), of delta_out m]
    by (auto intro!: in_i64_nonneg)
  then have e: "delta_in (add_delta ?a d) = delta_in ?a + delta_in d"
    "delta_out (add_delta ?a d) = delta_out ?a + delta_out d"
    by (simp_all add: add_delta_def)
  then show "buckets_ok bs'"
    using assms(1-3) bucket_le_sum(2) [OF assms(1), of delta_in m] bucket_le_sum(2) [OF assms(1), of delta_out m]
    unfolding bs'_def by (intro buckets_ok_mput) auto
  show "msum (\<lambda>_. delta_in) bs' = msum (\<lambda>_. delta_in) bs + delta_in d"
    "msum (\<lambda>_. delta_out) bs' = msum (\<lambda>_. delta_out) bs + delta_out d"
    using e unfolding bs'_def
    by (cases "mget bs m"; simp add: msum_mput mget_or_def zero_delta_def)+
qed

lemma restore_buckets_sum:
  assumes "buckets_ok bs" "buckets_ok acc"
    and "msum (\<lambda>_. delta_in) acc + msum (\<lambda>_. delta_in) bs \<le> max_i64"
    and "msum (\<lambda>_. delta_out) acc + msum (\<lambda>_. delta_out) bs \<le> max_i64"
  shows "buckets_ok (restore_buckets bs acc) \<and>
    msum (\<lambda>_. delta_in) (restore_buckets bs acc) = msum (\<lambda>_. delta_in) acc + msum (\<lambda>_. delta_in) bs \<and>
    msum (\<lambda>_. delta_out) (restore_buckets bs acc) = msum (\<lambda>_. delta_out) acc + msum (\<lambda>_. delta_out) bs"
  using assms
proof (induction bs acc rule: restore_buckets.induct)
  case (2 m d bs acc)
  have ok: "buckets_ok bs" and d: "0 \<le> delta_in d" "0 \<le> delta_out d"
    using 2(2) by (auto simp: buckets_ok_def)
  note nn = buckets_ok_sum [OF ok, of delta_in] buckets_ok_sum [OF ok, of delta_out]
  have "msum (\<lambda>_. delta_in) acc + delta_in d \<le> max_i64" "msum (\<lambda>_. delta_out) acc + delta_out d \<le> max_i64"
    using 2(4,5) nn by simp_all
  from add_bucket [OF 2(3) d this refl, of m] 2(1) [OF ok] 2(4,5) show ?case by simp
qed simp

lemma flush_buckets_bytes:
  assumes "buckets_ok (pendingMinuteTraffic inst)"
  shows "buckets_ok (flush_buckets now inst)"
    and "byte_column f \<Longrightarrow> msum (\<lambda>_. f) (flush_buckets now inst) = pend_sum f inst"
proof -
  let ?b = "pendingMinuteTraffic inst"
  have "0 \<le> delta_in (mget_or zero_delta ?b m)" "0 \<le> delta_out (mget_or zero_delta ?b m)" for m
    using bucket_le_sum(2) [OF assms, of delta_in m] bucket_le_sum(2) [OF assms, of delta_out m] by auto
  then show "buckets_ok (flush_buckets now inst)"
    using assms by (auto simp: flush_buckets_def Let_def intro!: buckets_ok_mput)
  show "byte_column f \<Longrightarrow> msum (\<lambda>_. f) (flush_buckets now inst) = pend_sum f inst"
    by (auto simp: flush_buckets_def Let_def pend_sum_def msum_mput byte_column_def mget_or_def zero_delta_def
        split: option.splits)
qed

section \<open>Conservation of bytes\<close>

text \<open>What an operation of a meter does to the instance: \<open>gi\<close>, \<open>go\<close> enter the byte
  counters and \<open>pi\<close>, \<open>po\<close> the minute buckets.\<close>

definition moves :: "traffic_inst \<Rightarrow> traffic_inst \<Rightarrow> int \<Rightarrow> int \<Rightarrow> int \<Rightarrow> int \<Rightarrow> bool" where
  "moves inst inst' gi go pi po \<longleftrightarrow>
     site_id inst' = site_id inst \<and> bytesIn inst' = bytesIn inst + gi \<and> bytesOut inst' = bytesOut inst + go \<and>
     buckets_ok (pendingMinuteTraffic inst') \<and>
     pend_sum delta_in inst' = pend_sum delta_in inst + pi \<and> pend_sum delta_out inst' = pend_sum delta_out inst + po"

definition room :: "traffic_inst \<Rightarrow> int \<Rightarrow> int \<Rightarrow> bool" where
  "room inst bi bo \<longleftrightarrow> buckets_ok (pendingMinuteTraffic inst) \<and> 0 \<le> bi \<and> 0 \<le> bo \<and>
     pend_sum delta_in inst + bi \<le> max_i64 \<and> pend_sum delta_out inst + bo \<le> max_i64"

definition counter_room :: "traffic_inst \<Rightarrow> int \<Rightarrow> int \<Rightarrow> bool" where
  "counter_room inst bi bo \<longleftrightarrow> 0 \<le> bytesIn inst \<and> bytesIn inst + bi \<le> max_i64 \<and>
     0 \<le> bytesOut inst \<and> bytesOut inst + bo \<le> max_i64"

lemma moves_refl: "buckets_ok (pendingMinuteTraffic inst) \<Longrightarrow> moves inst inst 0 0 0 0"
  by (simp add: moves_def)

lemma moves_trans: "moves a b gi go pi po \<Longrightarrow> moves b c gi' go' pi' po' \<Longrightarrow>
    moves a c (gi + gi') (go + go') (pi + pi') (po + po')"
  by (simp add: moves_def)

lemma counter_i64: "0 \<le> x \<Longrightarrow> 0 \<le> b \<Longrightarrow> x + b \<le> max_i64 \<Longrightarrow> i64 (x + b) = x + b"
  by (intro i64_id in_i64_nonneg) auto

lemma addMinuteTraffic_moves:
  assumes "room inst bi bo" and "g \<Longrightarrow> counter_room inst bi bo"
  shows "moves inst (addMinuteTraffic t bi bo req g inst) (if g then bi else 0) (if g then bo else 0) bi bo"
proof (cases "bi = 0 \<and> bo = 0 \<and> req = 0")
  case True
  with assms(1) show ?thesis by (simp add: addMinuteTraffic_def moves_def room_def)
next
  case False
  let ?d = "\<lparr>delta_in = bi, delta_out = bo, delta_requests = req\<rparr>"
  from assms(1) have "buckets_ok (pendingMinuteTraffic inst)" "0 \<le> delta_in ?d" "0 \<le> delta_out ?d"
    "msum (\<lambda>_. delta_in) (pendingMinuteTraffic inst) + delta_in ?d \<le> max_i64"
    "msum (\<lambda>_. delta_out) (pendingMinuteTraffic inst) + delta_out ?d \<le> max_i64"
    by (simp_all add: room_def pend_sum_def)
  note add_bucket [OF this refl, of t]
  moreover have "g \<Longrightarrow> i64 (bytesIn inst + bi) = bytesIn inst + bi \<and> i64 (bytesOut inst + bo) = bytesOut inst + bo"
    using assms by (auto simp: counter_room_def room_def intro!: counter_i64)
  ultimately show ?thesis
    using False by (auto simp: addMinuteTraffic_def moves_def pend_sum_def Let_def)
qed

definition meter_ok :: "meter \<Rightarrow> bool" where
  "meter_ok m \<longleftrightarrow> 0 \<le> localIn m \<and> 0 \<le> localOut m \<and> (streaming m \<longrightarrow> localIn m = 0 \<and> localOut m = 0)"

lemma promoteLocked_moves:
  assumes "meter_ok m" "room inst (localIn m) (localOut m)" "promoteLocked m inst = (inst', m')"
  shows "moves inst inst' 0 0 (localIn m) (localOut m) \<and> meter_ok m' \<and> localIn m' = 0 \<and> localOut m' = 0 \<and>
    finished m' = finished m \<and> bytesIn inst' = bytesIn inst \<and> bytesOut inst' = bytesOut inst"
  using assms addMinuteTraffic_moves [of inst "localIn m" "localOut m" False "startedMinute m" 0] moves_refl [of inst]
  by (auto simp: promoteLocked_def meter_ok_def room_def moves_def split: if_splits)

lemma meter_add_moves:
  assumes "meter_ok m" "\<not> finished m" "room inst (localIn m + bi) (localOut m + bo)"
    and "counter_room inst bi bo" "0 \<le> bi" "0 \<le> bo"
    and "localIn m + bi \<le> max_i64" "localOut m + bo \<le> max_i64"
    and "meter_add bi bo at m inst = (inst', m')"
  shows "\<exists>pi po. moves inst inst' bi bo pi po \<and> meter_ok m' \<and>
    localIn m' + pi = localIn m + bi \<and> localOut m' + po = localOut m + bo"
proof -
  have ok: "buckets_ok (pendingMinuteTraffic inst)" using assms(3) by (simp add: room_def)
  consider "bi = 0 \<and> bo = 0" | "\<not> (bi = 0 \<and> bo = 0)" "\<not> streaming m \<and> trafficMinuteStart at = startedMinute m"
    | "\<not> (bi = 0 \<and> bo = 0)" "\<not> (\<not> streaming m \<and> trafficMinuteStart at = startedMinute m)" by blast
  then show ?thesis
  proof cases
    case 1
    then show ?thesis
      using assms ok by (intro exI [of _ 0]) (auto simp: meter_add_def moves_def)
  next
    case 2
    have "i64 (bytesIn inst + bi) = bytesIn inst + bi" "i64 (bytesOut inst + bo) = bytesOut inst + bo"
      "i64 (localIn m + bi) = localIn m + bi" "i64 (localOut m + bo) = localOut m + bo"
      using assms by (auto simp: counter_room_def meter_ok_def intro!: counter_i64)
    with 2 assms ok show ?thesis
      by (intro exI [of _ 0]) (auto simp: meter_add_def moves_def meter_ok_def pend_sum_def)
  next
    case 3
    obtain inst1 m1 where p: "(if \<not> streaming m then promoteLocked m inst else (inst, m)) = (inst1, m1)"
      by (cases "if \<not> streaming m then promoteLocked m inst else (inst, m)")
    have out: "inst' = addMinuteTraffic (trafficMinuteStart at) bi bo 0 True inst1" "m' = m1"
      using 3 p assms(2,9) by (auto simp: meter_add_def Let_def split: if_splits)
    have "room inst (localIn m) (localOut m)" using assms(1,3,5,6) by (auto simp: room_def meter_ok_def)
    then have mv: "moves inst inst1 0 0 (localIn m) (localOut m)" "meter_ok m1" "localIn m1 = 0" "localOut m1 = 0"
      using p promoteLocked_moves [of m inst inst1 m1] assms(1) moves_refl [OF ok]
      by (auto simp: meter_ok_def split: if_splits)
    have "room inst1 bi bo" "counter_room inst1 bi bo"
      using mv(1) assms(3-6) by (auto simp: moves_def room_def counter_room_def)
    from addMinuteTraffic_moves [OF this(1), of True] this(2)
    have "moves inst1 inst' bi bo bi bo" by (simp add: out)
    from moves_trans [OF mv(1) this] mv out show ?thesis by auto
  qed
qed

lemma finish_bucket_moves:
  assumes "meter_ok m" "room inst (localIn m) (localOut m)" "finish_bucket at m inst = (inst', m')"
  shows "\<exists>pi po. moves inst inst' 0 0 pi po \<and> meter_ok m' \<and>
    localIn m' + pi = localIn m \<and> localOut m' + po = localOut m"
proof -
  have ok: "buckets_ok (pendingMinuteTraffic inst)" using assms(2) by (simp add: room_def)
  show ?thesis
  proof (cases "finished m")
    case True
    then show ?thesis using assms ok by (intro exI [of _ 0]) (auto simp: finish_bucket_def moves_refl)
  next
    case False
    show ?thesis
    proof (cases "streaming m")
      case True
      with False assms ok addMinuteTraffic_moves [of inst 0 0 False "trafficMinuteStart at" 1] show ?thesis
        by (intro exI [of _ 0]) (auto simp: finish_bucket_def meter_ok_def room_def)
    next
      case not_streaming: False
      with False assms addMinuteTraffic_moves [of inst "localIn m" "localOut m" False "trafficMinuteStart at" 1]
      show ?thesis
        by (intro exI [of _ "localIn m"] exI [of _ "localOut m"]) (auto simp: finish_bucket_def meter_ok_def Let_def)
    qed
  qed
qed

text \<open>The books of a run over the database \<open>db0\<close> it started from.\<close>

definition traffic_books :: "int \<Rightarrow> traffic_db \<Rightarrow> traffic_run \<Rightarrow> bool" where
  "traffic_books i db0 r \<longleftrightarrow>
     site_id (run_inst r) = i \<and> buckets_ok (pendingMinuteTraffic (run_inst r)) \<and>
     mwf (meters r) \<and> (\<forall>(c, m)\<in>set (meters r). meter_ok m) \<and>
     0 \<le> bytesIn (run_inst r) \<and> 0 \<le> bytesOut (run_inst r) \<and>
     site_log_sum delta_in i db0 \<le> site_log_sum delta_in i (run_db r) \<and>
     site_log_sum delta_out i db0 \<le> site_log_sum delta_out i (run_db r) \<and>
     site_minute_sum delta_in i (minute_logs db0) \<le> site_minute_sum delta_in i (minute_logs (run_db r)) + prunedIn r \<and>
     site_minute_sum delta_out i (minute_logs db0) \<le> site_minute_sum delta_out i (minute_logs (run_db r)) + prunedOut r \<and>
     site_log_sum delta_in i (run_db r) + bytesIn (run_inst r) = site_log_sum delta_in i db0 + addedIn r \<and>
     site_log_sum delta_out i (run_db r) + bytesOut (run_inst r) = site_log_sum delta_out i db0 + addedOut r \<and>
     site_minute_sum delta_in i (minute_logs (run_db r)) + prunedIn r + pend_sum delta_in (run_inst r) +
         msum (\<lambda>_. localIn) (meters r) = site_minute_sum delta_in i (minute_logs db0) + addedIn r \<and>
     site_minute_sum delta_out i (minute_logs (run_db r)) + prunedOut r + pend_sum delta_out (run_inst r) +
         msum (\<lambda>_. localOut) (meters r) = site_minute_sum delta_out i (minute_logs db0) + addedOut r"

lemma books_meters:
  assumes "traffic_books i db0 r"
  shows "0 \<le> msum (\<lambda>_. localIn) (meters r)" "0 \<le> msum (\<lambda>_. localOut) (meters r)"
    and "mget (meters r) c = Some m \<Longrightarrow> meter_ok m \<and>
      localIn m \<le> msum (\<lambda>_. localIn) (meters r) \<and> localOut m \<le> msum (\<lambda>_. localOut) (meters r)"
proof -
  have nn: "(k, v) \<in> set (meters r) \<Longrightarrow> 0 \<le> localIn v \<and> 0 \<le> localOut v" for k v
    using assms by (auto simp: traffic_books_def meter_ok_def)
  show "0 \<le> msum (\<lambda>_. localIn) (meters r)" "0 \<le> msum (\<lambda>_. localOut) (meters r)"
    using nn by (auto intro!: msum_nonneg)
  show "mget (meters r) c = Some m \<Longrightarrow> meter_ok m \<and>
      localIn m \<le> msum (\<lambda>_. localIn) (meters r) \<and> localOut m \<le> msum (\<lambda>_. localOut) (meters r)"
    using assms nn msum_member_le [of "meters r" "\<lambda>_. localIn" c m] msum_member_le [of "meters r" "\<lambda>_. localOut" c m]
    by (auto simp: traffic_books_def dest!: mget_in_set)
qed

lemma books_room:
  assumes "traffic_books i db0 r" "mget (meters r) c = Some m" "0 \<le> bi" "0 \<le> bo"
    and "addedIn r + bi \<le> max_i64" "addedOut r + bo \<le> max_i64"
  shows "meter_ok m" "room (run_inst r) (localIn m + bi) (localOut m + bo)" "counter_room (run_inst r) bi bo"
    and "localIn m + bi \<le> max_i64" "localOut m + bo \<le> max_i64"
proof -
  note b = books_meters [OF assms(1)]
  from b(3) [OF assms(2)] show ok: "meter_ok m" by simp
  have ps: "0 \<le> pend_sum delta_in (run_inst r)" "0 \<le> pend_sum delta_out (run_inst r)"
    using assms(1) by (auto simp: traffic_books_def pend_sum_def intro!: buckets_ok_sum)
  show "room (run_inst r) (localIn m + bi) (localOut m + bo)"
    using assms b(3) [OF assms(2)] by (auto simp: traffic_books_def room_def meter_ok_def)
  show "counter_room (run_inst r) bi bo" using assms by (auto simp: traffic_books_def counter_room_def)
  show "localIn m + bi \<le> max_i64" "localOut m + bo \<le> max_i64"
    using assms b(3) [OF assms(2)] ps by (auto simp: traffic_books_def)
qed

lemma mput_meters_ok:
  "(\<forall>(c, m)\<in>set ms. meter_ok m) \<Longrightarrow> meter_ok m' \<Longrightarrow> \<forall>(c, m)\<in>set (mput c' m' ms). meter_ok m"
  by (induction ms) auto

text \<open>An operation of one meter keeps the books when it balances.\<close>

lemma books_meter:
  assumes b: "traffic_books i db0 r" and g: "mget (meters r) c = Some m"
    and mv: "moves (run_inst r) inst' bi bo pi po" "0 \<le> bi" "0 \<le> bo"
    and m': "meter_ok m'" "localIn m' + pi = localIn m + bi" "localOut m' + po = localOut m + bo"
    and s: "run_inst s = inst'" "run_db s = run_db r" "meters s = mput c m' (meters r)"
      "addedIn s = addedIn r + bi" "addedOut s = addedOut r + bo" "prunedIn s = prunedIn r" "prunedOut s = prunedOut r"
  shows "traffic_books i db0 s"
  using b mv m' g mput_meters_ok [of "meters r" m' c]
  unfolding traffic_books_def s by (auto simp: moves_def msum_mput)

lemma flush_failed_books:
  assumes b: "traffic_books i db0 r" and "addedIn r \<le> max_i64" "addedOut r \<le> max_i64"
    and f: "flushProxyTrafficLocked zone resetDay mode now1 now2 now3 ok (run_inst r) (run_db r) = (FlushFailed, inst, db)"
  shows "traffic_books i db0 (r\<lparr>run_inst := inst, run_db := db\<rparr>)"
proof -
  let ?bs = "flush_buckets now1 (run_inst r)"
  have ok: "buckets_ok (pendingMinuteTraffic (run_inst r))" using b by (simp add: traffic_books_def)
  note fb = flush_buckets_bytes [OF ok]
  have "pend_sum delta_in (run_inst r) \<le> max_i64" "pend_sum delta_out (run_inst r) \<le> max_i64"
    using b assms(2,3) books_meters(1,2) [OF b] by (auto simp: traffic_books_def)
  then have "buckets_ok (restore_buckets ?bs []) \<and>
      msum (\<lambda>_. delta_in) (restore_buckets ?bs []) = pend_sum delta_in (run_inst r) \<and>
      msum (\<lambda>_. delta_out) (restore_buckets ?bs []) = pend_sum delta_out (run_inst r)"
    using restore_buckets_sum [OF fb(1), where acc = "[]"] fb(2) by (simp add: buckets_ok_def)
  moreover have "db = run_db r" "bytesIn inst = bytesIn (run_inst r)" "bytesOut inst = bytesOut (run_inst r)"
    "site_id inst = site_id (run_inst r)" "pendingMinuteTraffic inst = restore_buckets ?bs []"
    using f by (auto simp: flushProxyTrafficLocked_def Let_def split: if_splits option.splits)
  ultimately show ?thesis
    using b unfolding traffic_books_def pend_sum_def by simp
qed

lemma flush_ok_books:
  assumes b: "traffic_books i db0 r"
    and f: "flushProxyTrafficLocked zone resetDay mode now1 now2 now3 ok (run_inst r) (run_db r) = (FlushOk, inst, db)"
    and p: "pruned = (if flush_idle (run_inst r) then [] else flush_pruned now1 now2 (run_inst r) (run_db r))"
  shows "traffic_books i db0 (r\<lparr>run_inst := inst, run_db := db,
      prunedIn := prunedIn r + site_minute_sum delta_in (site_id (run_inst r)) pruned,
      prunedOut := prunedOut r + site_minute_sum delta_out (site_id (run_inst r)) pruned\<rparr>)"
proof (cases "flush_idle (run_inst r)")
  case True
  then have "flush_buckets now1 (run_inst r) = []"
    by (simp add: flush_idle_def flush_buckets_def Let_def)
  with True f have "db = run_db r" "inst = run_inst r\<lparr>bytesIn := 0, bytesOut := 0, pendingRequests := 0,
      pendingMinuteTraffic := [], flushBytesIn := 0, flushBytesOut := 0\<rparr>"
    by (auto simp: flushProxyTrafficLocked_def Let_def flush_idle_def)
  with True b p show ?thesis
    by (simp add: traffic_books_def flush_idle_def pend_sum_def site_minute_sum_def)
next
  case False
  let ?bs = "flush_buckets now1 (run_inst r)"
  have i: "site_id (run_inst r) = i" and ok: "buckets_ok (pendingMinuteTraffic (run_inst r))"
    using b by (auto simp: traffic_books_def)
  have busy: "\<not> (bytesIn (run_inst r) = 0 \<and> bytesOut (run_inst r) = 0 \<and> pendingRequests (run_inst r) = 0 \<and> ?bs = [])"
    using False by (auto simp: flush_idle_def flush_buckets_def Let_def split: if_splits)
  then have db: "addTrafficMinuteBuckets i (bytesIn (run_inst r)) (bytesOut (run_inst r)) ?bs now2 (zone now2) ok (run_db r) = Some db"
    and inst: "site_id inst = i" "bytesIn inst = 0" "bytesOut inst = 0" "pendingMinuteTraffic inst = []"
    using f i by (auto simp: flushProxyTrafficLocked_def Let_def split: if_splits option.splits)
  note sums = addTrafficMinuteBuckets_sums [OF db]
  have pr: "pruned = pruned_minutes (minute_cutoff now2) (upsert_minutes i ?bs (minute_logs (run_db r)))"
    using False p i by (simp add: flush_pruned_def)
  have ps: "0 \<le> pend_sum delta_in (run_inst r)" "0 \<le> pend_sum delta_out (run_inst r)"
    using ok by (auto simp: pend_sum_def intro!: buckets_ok_sum)
  from sums(4) [of delta_in] sums(4) [of delta_out] flush_buckets_bytes(2) [OF ok, of _ now1]
  have m: "site_minute_sum delta_in i (minute_logs db) + site_minute_sum delta_in i pruned =
      site_minute_sum delta_in i (minute_logs (run_db r)) + pend_sum delta_in (run_inst r)"
    "site_minute_sum delta_out i (minute_logs db) + site_minute_sum delta_out i pruned =
      site_minute_sum delta_out i (minute_logs (run_db r)) + pend_sum delta_out (run_inst r)"
    by (simp_all add: pr)
  have e: "pend_sum delta_in inst = 0" "pend_sum delta_out inst = 0" "buckets_ok (pendingMinuteTraffic inst)"
    using inst by (simp_all add: pend_sum_def buckets_ok_def)
  show ?thesis
    using b sums(1,2) m e inst i ps by (simp add: traffic_books_def)
qed

lemma traffic_step_added: "traffic_step zone r s \<Longrightarrow> addedIn r \<le> addedIn s \<and> addedOut r \<le> addedOut s"
  by (induction rule: traffic_step.induct) auto

lemma traffic_step_books:
  assumes "traffic_step zone r s" "traffic_books i db0 r" "addedIn s \<le> max_i64" "addedOut s \<le> max_i64"
  shows "traffic_books i db0 s"
  using assms
proof (induction rule: traffic_step.induct)
  case (Begin r c at inst m)
  then show ?case
    using mput_meters_ok [of "meters r" m c]
    by (auto simp: traffic_books_def newRequestTrafficMeterAt_def msum_mput pend_sum_def meter_ok_def)
next
  case (Add r c m bi bo at inst m')
  have "addedIn r + bi \<le> max_i64" "addedOut r + bo \<le> max_i64" using Add by simp_all
  note rm = books_room [OF Add.prems(1) Add.hyps(1-3) this]
  from meter_add_moves [OF rm(1) Add.hyps(4) rm(2,3) Add.hyps(2,3) rm(4,5) Add.hyps(5)]
  obtain pi po where "moves (run_inst r) inst bi bo pi po" "meter_ok m'"
    "localIn m' + pi = localIn m + bi" "localOut m' + po = localOut m + bo" by auto
  from books_meter [OF Add.prems(1) Add.hyps(1) this(1) Add.hyps(2,3) this(2-4)] show ?case by simp
next
  case (AddLate r c m bi bo at inst m')
  then have "inst = run_inst r" "m' = m" by (auto simp: meter_add_def Let_def split: if_splits)
  moreover have "buckets_ok (pendingMinuteTraffic (run_inst r))"
    using AddLate.prems by (simp add: traffic_books_def)
  moreover have "meter_ok m" using books_meters(3) [OF AddLate.prems(1) AddLate.hyps(1)] by simp
  ultimately show ?case
    using books_meter [OF AddLate.prems(1) AddLate.hyps(1) moves_refl] by simp
next
  case (Promote r c m inst m')
  have "addedIn r + 0 \<le> max_i64" "addedOut r + 0 \<le> max_i64" using Promote by simp_all
  note rm = books_room [OF Promote.prems(1) Promote.hyps(1) order_refl order_refl this]
  from promoteLocked_moves [OF rm(1) _ Promote.hyps(2)] rm(2)
  have "moves (run_inst r) inst 0 0 (localIn m) (localOut m)" "meter_ok m'" "localIn m' = 0" "localOut m' = 0" by auto
  from books_meter [OF Promote.prems(1) Promote.hyps(1) this(1) order_refl order_refl this(2)] this(3,4) show ?case by simp
next
  case (FinishBucket r c m at inst m')
  have "addedIn r + 0 \<le> max_i64" "addedOut r + 0 \<le> max_i64" using FinishBucket by simp_all
  note rm = books_room [OF FinishBucket.prems(1) FinishBucket.hyps(1) order_refl order_refl this]
  from finish_bucket_moves [OF rm(1) _ FinishBucket.hyps(2)] rm(2)
  obtain pi po where "moves (run_inst r) inst 0 0 pi po" "meter_ok m'"
    "localIn m' + pi = localIn m" "localOut m' + po = localOut m" by auto
  from books_meter [OF FinishBucket.prems(1) FinishBucket.hyps(1) this(1) order_refl order_refl this(2)] this(3,4)
  show ?case by simp
next
  case (FinishCount r)
  then show ?case by (simp add: traffic_books_def finish_count_def pend_sum_def)
next
  case (Flush resetDay mode now1 now2 now3 ok r inst db pruned)
  from flush_ok_books [OF Flush.prems(1) Flush.hyps] show ?case .
next
  case (FlushError resetDay mode now1 now2 now3 ok r inst db)
  then show ?case by (intro flush_failed_books) auto
qed

lemma traffic_reachable_books:
  "traffic_reachable zone i db0 r \<Longrightarrow> addedIn r \<le> max_i64 \<Longrightarrow> addedOut r \<le> max_i64 \<Longrightarrow> traffic_books i db0 r"
proof (induction rule: traffic_reachable.induct)
  case Start
  then show ?case
    by (simp add: traffic_books_def start_run_def fresh_inst_def buckets_ok_def pend_sum_def)
next
  case (Next r s)
  with traffic_step_added [OF Next.hyps(2)] show ?case by (intro traffic_step_books [OF Next.hyps(2)]) auto
qed


section \<open>The cached usage of the cycle\<close>

definition since_sum :: "(minute_delta \<Rightarrow> int) \<Rightarrow> int \<Rightarrow> civil option \<Rightarrow> traffic_db \<Rightarrow> int" where
  "since_sum f siteID start db = msum (\<lambda>_. f) (logs_since siteID start db)"

definition in_cycle :: "civil option \<Rightarrow> civil \<Rightarrow> bool" where
  "in_cycle start at \<longleftrightarrow> (case start of None \<Rightarrow> True | Some c \<Rightarrow> \<not> civil_before at c)"

lemma since_sum_msum: "since_sum f s start db =
    msum (\<lambda>k d. if fst k = s \<and> in_cycle start (snd k) then f d else 0) (traffic_logs db)"
proof -
  have "msum (\<lambda>_. f) (filter (\<lambda>((sid, at), d). sid = s \<and> in_cycle start at) t) =
      msum (\<lambda>k d. if fst k = s \<and> in_cycle start (snd k) then f d else 0) t" for t
    by (induction t) (auto split: if_splits)
  then show ?thesis by (simp add: since_sum_def logs_since_def in_cycle_def)
qed

lemma since_sum_flush:
  assumes "addTrafficMinuteBuckets s bi bo bs now loc ok db = Some db'" "in_cycle start (trafficMinuteBucket loc)"
  shows "since_sum delta_in s start db' = since_sum delta_in s start db + bi"
    and "since_sum delta_out s start db' = since_sum delta_out s start db + bo"
  using assms by (auto simp: addTrafficMinuteBuckets_def Let_def since_sum_msum msum_upsert split: if_splits)

text \<open>The cache agrees with the database.\<close>

definition cycle_cache_ok :: "traffic_db \<Rightarrow> traffic_inst \<Rightarrow> bool" where
  "cycle_cache_ok db inst \<longleftrightarrow>
     trafficCycleUsage inst =
       SumTrafficSinceForSite (site_id inst) (trafficCycleStart_cached inst) (trafficCycleMode inst) db"

lemma currentTrafficCycleUsage_cache:
  assumes "currentTrafficCycleUsage zone resetDay mode now sqlOk db inst = (inst', Some u)" "cycle_cache_ok db inst"
  shows "cycle_cache_ok db inst'"
  using assms by (auto simp: currentTrafficCycleUsage_def cycle_cache_ok_def Let_def split: if_splits)


section \<open>A run to evaluate on\<close>

definition demo_zone :: "time \<Rightarrow> civil" where
  "demo_zone t = midnight 2024 1 1"

definition demo_now :: time where
  "demo_now = (unix_epoch_seconds + 7230) * second"

text \<open>One request begins and receives five bytes.\<close>

definition demo_begun :: traffic_run where
  "demo_begun = (let r = start_run 1 demo_db; (inst, m) = newRequestTrafficMeterAt demo_now (run_inst r)
     in r\<lparr>run_inst := inst, meters := mput 0 m (meters r)\<rparr>)"

definition demo_added :: traffic_run where
  "demo_added = (let r = demo_begun; (inst, m) = meter_add 5 0 demo_now (the (mget (meters r) 0)) (run_inst r)
     in r\<lparr>run_inst := inst, meters := mput 0 m (meters r), addedIn := addedIn r + 5, addedOut := addedOut r + 0\<rparr>)"

text \<open>The request's bucket is written, then a flush runs, before the request is counted.\<close>

definition demo_bucketed :: traffic_run where
  "demo_bucketed = (let r = demo_begun; (inst, m) = finish_bucket demo_now (the (mget (meters r) 0)) (run_inst r)
     in r\<lparr>run_inst := inst, meters := mput 0 m (meters r), bucketed := bucketed r + 1\<rparr>)"

definition demo_flush :: "traffic_run \<Rightarrow> traffic_run" where
  "demo_flush r =
     (let (res, inst, db) = flushProxyTrafficLocked demo_zone 1 ''outbound'' demo_now demo_now demo_now True (run_inst r) (run_db r);
          pruned = (if flush_idle (run_inst r) then [] else flush_pruned demo_now demo_now (run_inst r) (run_db r))
      in r\<lparr>run_inst := inst, run_db := db,
        prunedIn := prunedIn r + site_minute_sum delta_in (site_id (run_inst r)) pruned,
        prunedOut := prunedOut r + site_minute_sum delta_out (site_id (run_inst r)) pruned\<rparr>)"

definition demo_count :: "traffic_run \<Rightarrow> traffic_run" where
  "demo_count r = r\<lparr>run_inst := finish_count (run_inst r), counted := counted r + 1\<rparr>"

lemma demo_begun_reachable: "traffic_reachable demo_zone 1 demo_db demo_begun"
proof -
  obtain inst m where p: "newRequestTrafficMeterAt demo_now (run_inst (start_run 1 demo_db)) = (inst, m)"
    by (cases "newRequestTrafficMeterAt demo_now (run_inst (start_run 1 demo_db))")
  have "demo_begun = start_run 1 demo_db\<lparr>run_inst := inst, meters := mput 0 m (meters (start_run 1 demo_db))\<rparr>"
    using p by (simp add: demo_begun_def Let_def)
  then show ?thesis
    using traffic_reachable.Next [OF traffic_reachable.Start Begin [where c = 0, OF _ p]] by (simp add: start_run_def)
qed

lemma demo_begun_meter: "\<exists>m. mget (meters demo_begun) 0 = Some m \<and> \<not> finished m"
proof -
  have "map_option finished (mget (meters demo_begun) 0) = Some False" by code_simp
  then show ?thesis by auto
qed

lemma demo_added_reachable: "traffic_reachable demo_zone 1 demo_db demo_added"
proof -
  obtain m where g: "mget (meters demo_begun) 0 = Some m" "\<not> finished m" using demo_begun_meter by auto
  obtain inst m' where p: "meter_add 5 0 demo_now m (run_inst demo_begun) = (inst, m')"
    by (cases "meter_add 5 0 demo_now m (run_inst demo_begun)")
  have e: "demo_added = demo_begun\<lparr>run_inst := inst, meters := mput 0 m' (meters demo_begun),
      addedIn := addedIn demo_begun + 5, addedOut := addedOut demo_begun + 0\<rparr>"
    using p g by (simp add: demo_added_def Let_def)
  show ?thesis
    unfolding e by (rule traffic_reachable.Next [OF demo_begun_reachable]) (rule Add [OF g(1) _ _ g(2) p]; simp)
qed

lemma demo_bucketed_reachable: "traffic_reachable demo_zone 1 demo_db demo_bucketed"
proof -
  obtain m where g: "mget (meters demo_begun) 0 = Some m" "\<not> finished m" using demo_begun_meter by auto
  obtain inst m' where p: "finish_bucket demo_now m (run_inst demo_begun) = (inst, m')"
    by (cases "finish_bucket demo_now m (run_inst demo_begun)")
  have e: "demo_bucketed = demo_begun\<lparr>run_inst := inst, meters := mput 0 m' (meters demo_begun),
      bucketed := bucketed demo_begun + (if finished m then 0 else 1)\<rparr>"
    using p g by (simp add: demo_bucketed_def Let_def)
  show ?thesis
    unfolding e by (rule traffic_reachable.Next [OF demo_begun_reachable]) (rule FinishBucket [OF g(1) p])
qed

lemma demo_flush_reachable:
  assumes "traffic_reachable demo_zone 1 demo_db r"
    and "fst (flushProxyTrafficLocked demo_zone 1 ''outbound'' demo_now demo_now demo_now True (run_inst r) (run_db r)) = FlushOk"
  shows "traffic_reachable demo_zone 1 demo_db (demo_flush r)"
proof -
  obtain inst db where f: "flushProxyTrafficLocked demo_zone 1 ''outbound'' demo_now demo_now demo_now True (run_inst r) (run_db r) = (FlushOk, inst, db)"
    using assms(2) by (metis prod.collapse)
  have e: "demo_flush r = r\<lparr>run_inst := inst, run_db := db,
      prunedIn := prunedIn r + site_minute_sum delta_in (site_id (run_inst r))
        (if flush_idle (run_inst r) then [] else flush_pruned demo_now demo_now (run_inst r) (run_db r)),
      prunedOut := prunedOut r + site_minute_sum delta_out (site_id (run_inst r))
        (if flush_idle (run_inst r) then [] else flush_pruned demo_now demo_now (run_inst r) (run_db r))\<rparr>"
    by (simp add: demo_flush_def f Let_def)
  show ?thesis unfolding e by (rule traffic_reachable.Next [OF assms(1)]) (rule Flush [OF f refl])
qed


text \<open>
  A flush between the two steps of \<open>finish\<close> makes one request count twice: the bucket it
  writes already holds the request, and the next flush finds a counted request in no bucket.
\<close>

theorem request_counted_twice_by_racing_flush:
  "\<exists>r. traffic_reachable demo_zone 1 demo_db r \<and> bucketed r = 1 \<and> counted r = 1 \<and>
     pendingRequests (run_inst r) = 0 \<and>
     site_log_sum delta_requests 1 (run_db r) = site_log_sum delta_requests 1 demo_db + 2"
proof -
  let ?r1 = "demo_flush demo_bucketed"
  let ?r2 = "demo_count ?r1"
  have "traffic_reachable demo_zone 1 demo_db ?r1"
    by (rule demo_flush_reachable [OF demo_bucketed_reachable]) code_simp
  then have "traffic_reachable demo_zone 1 demo_db ?r2"
    unfolding demo_count_def by (rule traffic_reachable.Next) (rule FinishCount, code_simp)
  then have "traffic_reachable demo_zone 1 demo_db (demo_flush ?r2)"
    by (rule demo_flush_reachable) code_simp
  moreover have "bucketed (demo_flush ?r2) = 1 \<and> counted (demo_flush ?r2) = 1 \<and>
      pendingRequests (run_inst (demo_flush ?r2)) = 0 \<and>
      site_log_sum delta_requests 1 (run_db (demo_flush ?r2)) = site_log_sum delta_requests 1 demo_db + 2"
    by code_simp
  ultimately show ?thesis by blast
qed

text \<open>An instance whose cache was loaded for the cycle, with ten pending bytes.\<close>

definition demo_pending :: traffic_inst where
  "demo_pending = (fresh_inst 1)\<lparr>bytesOut := 10, trafficCycleMode := ''outbound'',
     trafficCycleStart_cached := trafficCycleStart (demo_zone demo_now) 1\<rparr>"


end
