(* ===== verification/Metered_IO.thy ===== *)
theory Metered_IO
  imports Traffic_Quota Traffic_Instance
begin

text \<open>
  \<open>cmd/meridian/proxy_io.go\<close>: the writers and the reader that meter the payload of a request,
  charge the quota and pace the download. The wrapped stream, the clock, the cancellation of the
  request and the pacing budget \<open>int64(elapsed * bytesPerSec)\<close> (a float computation) are
  functions of the number of the loop's iteration. A loop that waits for its budget may never end:
  it runs on fuel, and \<open>None\<close> is a loop that is still running.
\<close>

datatype io_error = QuotaErr quota_error | StreamError string | NoProgress | RequestCanceled

record io_state =
  io_quota :: "quota_state option"
  primary :: "int option"
  cumulative :: "int option"
  io_meter :: "(meter \<times> traffic_inst) option"

definition atomic_add :: "int \<Rightarrow> int option \<Rightarrow> int option" where
  "atomic_add n c = map_option (\<lambda>v. i64 (v + n)) c"

definition addMeteredBytes :: "int \<Rightarrow> io_state \<Rightarrow> io_state" where
  "addMeteredBytes n st =
     (if n \<le> 0 then st
      else st\<lparr>primary := atomic_add n (primary st), cumulative := atomic_add n (cumulative st)\<rparr>)"

definition addMeteredBytesWithMeter :: "bool \<Rightarrow> int \<Rightarrow> time \<Rightarrow> io_state \<Rightarrow> io_state" where
  "addMeteredBytesWithMeter inbound n now st =
     (if n \<le> 0 then st
      else case io_meter st of
        Some (m, inst) \<Rightarrow>
          let (inst', m') = (if inbound then meter_add n 0 now m inst else meter_add 0 n now m inst)
          in st\<lparr>io_meter := Some (m', inst'), cumulative := atomic_add n (cumulative st)\<rparr>
      | None \<Rightarrow> addMeteredBytes n st)"

section \<open>One chunk: reserve, transfer, settle, count\<close>

text \<open>The wrapped stream is given a number of bytes and transfers at most that many.\<close>

type_synonym stream = "int \<Rightarrow> int \<times> io_error option"

definition stream_ok :: "stream \<Rightarrow> bool" where
  "stream_ok s \<longleftrightarrow> (\<forall>n \<ge> 0. 0 \<le> fst (s n) \<and> fst (s n) \<le> n)"

text \<open>\<open>Blocked\<close>: the quota granted nothing. The flag of \<open>Done\<close>: the quota cut the payload
  short and all it left was transferred.\<close>

datatype chunk_result = Blocked "quota_error option" | Done int "io_error option" bool

definition metered_chunk :: "quota_env \<Rightarrow> bool \<Rightarrow> int \<Rightarrow> stream \<Rightarrow> time \<Rightarrow> io_state \<Rightarrow> chunk_result \<times> io_state" where
  "metered_chunk env inbound len inner now st =
     (case io_quota st of
        None \<Rightarrow>
          let (n, err) = inner len
          in (Done n err False, addMeteredBytesWithMeter inbound n now st)
      | Some q \<Rightarrow>
          let (q1, allowed, r, quotaErr) = reserve env (\<not> inbound) len now q
          in if allowed = 0 then (Blocked quotaErr, st\<lparr>io_quota := Some q1\<rparr>)
             else
               let quotaTruncated = (allowed < len);
                   (n, err) = inner allowed;
                   st1 = st\<lparr>io_quota := Some (settle r n q1)\<rparr>
               in (Done n err (quotaTruncated \<and> n = allowed \<and> err = None),
                   addMeteredBytesWithMeter inbound n now st1))"

definition chunk_outcome :: "chunk_result \<Rightarrow> int \<times> io_error option" where
  "chunk_outcome c =
     (case c of Blocked e \<Rightarrow> (0, map_option QuotaErr e)
      | Done n err short \<Rightarrow> (n, if short then Some (QuotaErr QuotaExceeded) else err))"

definition meteredWriter_Write :: "quota_env \<Rightarrow> string \<Rightarrow> stream \<Rightarrow> time \<Rightarrow> io_state \<Rightarrow>
    (int \<times> io_error option) \<times> io_state" where
  "meteredWriter_Write env b inner now st =
     map_prod chunk_outcome id (metered_chunk env False (int (length b)) inner now st)"

definition meteredReader_Read :: "quota_env \<Rightarrow> int \<Rightarrow> stream \<Rightarrow> time \<Rightarrow> io_state \<Rightarrow>
    (int \<times> io_error option) \<times> io_state" where
  "meteredReader_Read env len inner now st =
     map_prod chunk_outcome id (metered_chunk env True len inner now st)"

section \<open>The paced loops\<close>

record pacing =
  budget :: "nat \<Rightarrow> int"
  pace_now :: "nat \<Rightarrow> time"
  pace_stream :: "nat \<Rightarrow> stream"
  canceled :: "nat \<Rightarrow> bool"

text \<open>\<open>i\<close> is the iteration, \<open>done\<close> the bytes the writer has sent before this call and in it,
  \<open>sofar\<close> those of this call.\<close>

fun paced_loop :: "nat \<Rightarrow> quota_env \<Rightarrow> bool \<Rightarrow> pacing \<Rightarrow> nat \<Rightarrow> int \<Rightarrow> int \<Rightarrow> string \<Rightarrow> io_state \<Rightarrow>
    ((int \<times> io_error option) \<times> int \<times> io_state) option" where
  "paced_loop 0 env inbound p i wr sofar b st = None"
| "paced_loop (Suc fuel) env inbound p i wr sofar b st =
     (if b = [] then Some ((sofar, None), wr, st)
      else
        let allowed = i64 (budget p i - wr)
        in if allowed \<le> 0 then
             (if canceled p i then Some ((sofar, Some RequestCanceled), wr, st)
              else paced_loop fuel env inbound p (Suc i) wr sofar b st)
           else
             let len = (if int (length b) > allowed then allowed else int (length b))
             in (case metered_chunk env inbound len (pace_stream p i) (pace_now p i) st of
                   (Blocked e, st') \<Rightarrow> Some ((sofar, map_option QuotaErr e), wr, st')
                 | (Done n err short, st') \<Rightarrow>
                     let wr' = i64 (wr + n); sofar' = sofar + n; b' = drop (nat n) b
                     in if short then Some ((sofar', Some (QuotaErr QuotaExceeded)), wr', st')
                        else if err \<noteq> None then Some ((sofar', err), wr', st')
                        else if n = 0 then Some ((sofar', Some NoProgress), wr', st')
                        else paced_loop fuel env inbound p (Suc i) wr' sofar' b' st'))"

definition rateLimitedWriter_Write :: "nat \<Rightarrow> quota_env \<Rightarrow> int \<Rightarrow> pacing \<Rightarrow> int \<Rightarrow> string \<Rightarrow> io_state \<Rightarrow>
    ((int \<times> io_error option) \<times> int \<times> io_state) option" where
  "rateLimitedWriter_Write fuel env bytesPerSec p wr b st =
     (if bytesPerSec \<le> 0 then
        (case metered_chunk env False (int (length b)) (pace_stream p 0) (pace_now p 0) st of
           (c, st') \<Rightarrow> Some (chunk_outcome c, wr, st'))
      else paced_loop fuel env False p 0 wr 0 b st)"

text \<open>The tunnel has no request context to wait on.\<close>

definition tunnelWriter_Write :: "nat \<Rightarrow> quota_env \<Rightarrow> bool \<Rightarrow> int \<Rightarrow> pacing \<Rightarrow> int \<Rightarrow> string \<Rightarrow> io_state \<Rightarrow>
    ((int \<times> io_error option) \<times> int \<times> io_state) option" where
  "tunnelWriter_Write fuel env inbound bytesPerSec p wr b st =
     (if bytesPerSec \<le> 0 then
        (case metered_chunk env inbound (int (length b)) (pace_stream p 0) (pace_now p 0) st of
           (c, st') \<Rightarrow> Some (chunk_outcome c, wr, st'))
      else paced_loop fuel env inbound (p\<lparr>canceled := (\<lambda>_. False)\<rparr>) 0 wr 0 b st)"

section \<open>What a chunk does\<close>

lemma addMetered_quota [simp]: "io_quota (addMeteredBytesWithMeter inbound n now st) = io_quota st"
  by (auto simp: addMeteredBytesWithMeter_def addMeteredBytes_def Let_def split: option.splits prod.splits)

lemma addMetered_cumulative: "0 \<le> n \<Longrightarrow> cumulative st = Some v \<Longrightarrow> in_i64 (v + n) \<Longrightarrow>
    cumulative (addMeteredBytesWithMeter inbound n now st) = Some (v + n)"
  by (auto simp: addMeteredBytesWithMeter_def addMeteredBytes_def atomic_add_def Let_def split: option.splits prod.splits)

lemma chunk_bounds:
  assumes "stream_ok inner" "0 \<le> len" "metered_chunk env inbound len inner now st = (Done n err short, st')"
  shows "0 \<le> n \<and> n \<le> len \<and> (short \<longrightarrow> err = None \<and> n < len)"
proof (cases "io_quota st")
  case None
  obtain k err' where i: "inner len = (k, err')" by (cases "inner len")
  then have "0 \<le> k \<and> k \<le> len" using assms(1,2) by (metis fst_conv stream_ok_def)
  with None i assms(3) show ?thesis by (auto simp: metered_chunk_def)
next
  case (Some q)
  obtain q1 allowed r e where r: "reserve env (\<not> inbound) len now q = (q1, allowed, r, e)"
    by (cases "reserve env (\<not> inbound) len now q")
  have a: "0 \<le> allowed \<and> allowed \<le> len" using gate.grant_bounds [OF assms(2) r] .
  obtain k err' where i: "inner allowed = (k, err')" by (cases "inner allowed")
  then have "0 \<le> k \<and> k \<le> allowed" using assms(1) a by (metis fst_conv stream_ok_def)
  with a Some r i assms(3) show ?thesis
    by (auto simp: metered_chunk_def split: if_splits)
qed

text \<open>A reservation that is settled charges exactly what was transferred.\<close>

definition free_direction :: "quota_env \<Rightarrow> bool \<Rightarrow> bool" where
  "free_direction env inbound \<longleftrightarrow> traffic_quota env \<le> 0 \<or>
     inbound \<and> trafficBillingModeLabel (billing_mode env) = trafficBillingModeOutbound"

lemma reserve_then_settle:
  assumes "quota_ok q" "env_ok env" "0 < len" "\<not> quota_stale env now q" "has_database env"
    and "reserve env (\<not> inbound) len now q = (q1, allowed, r, e)" "0 \<le> n" "n \<le> allowed"
  shows "usage (settle r n q1) = usage q + (if free_direction env inbound then 0 else n)"
proof (cases "free_direction env inbound")
  case True
  with assms have "q1 = q" "res_state r \<Longrightarrow> res_generation r = generation q \<and> \<not> charged r"
    by (auto simp: reserve_def reserve_fresh_def free_direction_def no_reservation_def split: if_splits)
  with True show ?thesis by (auto simp: settle_def Let_def)
next
  case False
  then have pos: "0 < traffic_quota env" by (auto simp: free_direction_def)
  with assms have f: "reserve_fresh env (\<not> inbound) len q = (q1, allowed, r, e)" by (simp add: reserve_def)
  note u = reserve_fresh_usage [OF assms(1) pos assms(2,3) f]
  have ch: "res_state r \<Longrightarrow> charged r"
    using f False by (auto simp: reserve_fresh_def Let_def free_direction_def no_reservation_def split: if_splits)
  have "0 \<le> usage q" using assms(1) by (simp add: quota_ok_def)
  with u ch assms(7,8) False show ?thesis
    by (cases "res_state r") (auto simp: settle_def Let_def)
qed

text \<open>The books of a chunk: what is transferred is what the quota is charged.\<close>

lemma chunk_charges:
  assumes "stream_ok inner" "0 < len" "io_quota st = Some q" "quota_ok q" "env_ok env"
    and "\<not> quota_stale env now q" "has_database env"
    and "metered_chunk env inbound len inner now st = (c, st')"
  shows "\<exists>q'. io_quota st' = Some q' \<and>
    usage q' = usage q + (if free_direction env inbound then 0 else fst (chunk_outcome c))"
proof -
  obtain q1 allowed r e where r: "reserve env (\<not> inbound) len now q = (q1, allowed, r, e)"
    by (cases "reserve env (\<not> inbound) len now q")
  note pay = reserve_then_settle [OF assms(4,5,2,6,7) r]
  have a: "0 \<le> allowed" using gate.grant_bounds [OF less_imp_le [OF assms(2)] r] by simp
  show ?thesis
  proof (cases "allowed = 0")
    case True
    have "usage q1 = usage q"
    proof (cases "traffic_quota env \<le> 0")
      case False
      with True r assms(2,6,7) show ?thesis
        by (auto simp: reserve_def reserve_fresh_def Let_def split: if_splits)
    qed (use r in \<open>simp add: reserve_def\<close>)
    with True assms(3,8) r show ?thesis by (auto simp: metered_chunk_def chunk_outcome_def)
  next
    case False
    obtain k err where i: "inner allowed = (k, err)" by (cases "inner allowed")
    then have k: "0 \<le> k" "k \<le> allowed" using assms(1) a by (metis fst_conv stream_ok_def)+
    with False assms(3,8) r i pay [OF k] show ?thesis
      by (auto simp: metered_chunk_def chunk_outcome_def)
  qed
qed

lemma chunk_counts:
  assumes "stream_ok inner" "0 \<le> len" "cumulative st = Some v"
    and "metered_chunk env inbound len inner now st = (c, st')" "in_i64 (v + fst (chunk_outcome c))"
  shows "cumulative st' = Some (v + fst (chunk_outcome c))"
proof (cases c)
  case (Blocked e)
  with assms show ?thesis
    by (auto simp: metered_chunk_def chunk_outcome_def split: option.splits prod.splits if_splits)
next
  case (Done n err short)
  have "0 \<le> n" using chunk_bounds [OF assms(1,2)] assms(4) Done by blast
  with Done assms(3-5) show ?thesis
    by (auto simp: metered_chunk_def chunk_outcome_def intro!: addMetered_cumulative
        split: option.splits prod.splits if_splits)
qed

section \<open>The paced loop\<close>

definition pacing_ok :: "pacing \<Rightarrow> bool" where
  "pacing_ok p \<longleftrightarrow> (\<forall>i. stream_ok (pace_stream p i) \<and> in_i64 (budget p i) \<and> 0 \<le> budget p i)"

lemma pacing_budget: "pacing_ok p \<Longrightarrow> 0 \<le> budget p k \<and> budget p k \<le> max_i64"
  by (simp add: pacing_ok_def in_i64_def)

text \<open>One transfer of the loop stays within the budget of its iteration.\<close>

lemma paced_chunk_within:
  assumes "pacing_ok p" "0 \<le> wr \<and> wr \<le> max_i64" "i64 (budget p i - wr) > 0" "b \<noteq> []"
    and "len = (if int (length b) > i64 (budget p i - wr) then i64 (budget p i - wr) else int (length b))"
    and "metered_chunk env inbound len (pace_stream p i) now st = (Done n err short, st')"
  shows "0 \<le> n" "n \<le> int (length b)" "wr + n \<le> budget p i" "i64 (wr + n) = wr + n"
    and "short \<longrightarrow> err = None \<and> n < int (length b)"
proof -
  have b: "0 \<le> budget p i" "in_i64 (budget p i)" and s: "stream_ok (pace_stream p i)"
    using assms(1) by (auto simp: pacing_ok_def)
  have "0 \<le> len" using assms(3,5) by auto
  from chunk_bounds [OF s this assms(6)] have n: "0 \<le> n" "n \<le> len" "short \<longrightarrow> err = None \<and> n < len" by auto
  have w: "i64 (budget p i - wr) = budget p i - wr"
    using b assms(2) by (intro i64_id) (auto simp: in_i64_def min_i64_def max_i64_def)
  show "0 \<le> n" by (rule n)
  show "n \<le> int (length b)" using n assms(5) by (auto split: if_splits)
  show le: "wr + n \<le> budget p i" using n assms(5) w by (auto split: if_splits)
  show "i64 (wr + n) = wr + n" using le b n(1) assms(2) by (intro i64_id) (auto simp: in_i64_def min_i64_def)
  show "short \<longrightarrow> err = None \<and> n < int (length b)" using n assms(5) by (auto split: if_splits)
qed

lemma chunk_blocked:
  assumes "0 < len" "metered_chunk env inbound len inner now st = (Blocked e, st')"
  shows "e \<noteq> None"
  using assms gate.grant_none [of len env "\<not> inbound" now]
  by (auto simp: metered_chunk_def split: option.splits prod.splits if_splits)

text \<open>The loop transfers a prefix of its payload and never gets ahead of the budget.\<close>

lemma paced_loop_result:
  assumes "pacing_ok p"
  shows "paced_loop fuel env inbound p i wr sofar b st = Some ((sent, err), wr', st') \<Longrightarrow>
    0 \<le> wr \<and> wr \<le> max_i64 \<Longrightarrow>
    sofar \<le> sent \<and> sent \<le> sofar + int (length b) \<and> wr' = wr + (sent - sofar) \<and> wr' \<le> max_i64 \<and>
    (err = None \<longrightarrow> sent = sofar + int (length b)) \<and>
    (sofar < sent \<longrightarrow> (\<exists>k\<ge>i. wr' \<le> budget p k))"
proof (induction fuel arbitrary: i wr sofar b st)
  case (Suc fuel)
  show ?case
  proof (cases "b = []")
    case True
    with Suc.prems show ?thesis by auto
  next
    case nonempty: False
    let ?allowed = "i64 (budget p i - wr)"
    let ?len = "if int (length b) > ?allowed then ?allowed else int (length b)"
    show ?thesis
    proof (cases "?allowed \<le> 0")
      case True
      show ?thesis
      proof (cases "canceled p i")
        case False
        with True nonempty Suc.prems have "paced_loop fuel env inbound p (Suc i) wr sofar b st = Some ((sent, err), wr', st')"
          by simp
        from Suc.IH [OF this Suc.prems(2)] show ?thesis
          by (meson Suc_leD)
      qed (use True nonempty Suc.prems in auto)
    next
      case False
      obtain c st1 where c: "metered_chunk env inbound ?len (pace_stream p i) (pace_now p i) st = (c, st1)"
        by (cases "metered_chunk env inbound ?len (pace_stream p i) (pace_now p i) st")
      show ?thesis
      proof (cases c)
        case (Blocked e)
        have "0 < ?len" using False nonempty by auto
        from chunk_blocked [OF this c [unfolded Blocked]] Blocked c False nonempty Suc.prems
        show ?thesis by (auto simp: Let_def)
      next
        case (Done n er short)
        have pos: "i64 (budget p i - wr) > 0" using False by simp
        note w = paced_chunk_within [OF assms Suc.prems(2) pos nonempty refl c [unfolded Done]]
        have wm: "0 \<le> wr + n \<and> wr + n \<le> max_i64"
          using w(1,3) Suc.prems(2) assms by (auto simp: pacing_ok_def in_i64_def intro: order_trans)
        show ?thesis
        proof (cases "short \<or> er \<noteq> None \<or> n = 0")
          case True
          with Done c False nonempty Suc.prems(1) have "sent = sofar + n" "wr' = i64 (wr + n)" "err \<noteq> None"
            by (auto simp: Let_def split: if_splits)
          with w wm show ?thesis by (auto intro: exI [of _ i])
        next
          case go: False
          have "paced_loop fuel env inbound p (Suc i) (wr + n) (sofar + n) (drop (nat n) b) st1 = Some ((sent, err), wr', st')"
            using go Done c False nonempty Suc.prems(1) w(4) by (simp add: Let_def)
          from Suc.IH [OF this wm] w(1-3) show ?thesis
            by (cases "sofar + n < sent") (auto intro: exI [of _ i] dest: Suc_leD)
        qed
      qed
    qed
  qed
qed simp

text \<open>An iteration with budget returns or goes on with less to send.\<close>

lemma paced_loop_transfers:
  assumes "pacing_ok p" "0 \<le> wr \<and> wr \<le> max_i64" "\<not> i64 (budget p i - wr) \<le> 0" "b \<noteq> []"
    and rec: "\<And>n st'. 0 < n \<Longrightarrow> n \<le> int (length b) \<Longrightarrow>
      \<exists>fuel res. paced_loop fuel env inbound p (Suc i) (wr + n) (sofar + n) (drop (nat n) b) st' = Some res"
  shows "\<exists>fuel res. paced_loop fuel env inbound p i wr sofar b st = Some res"
proof -
  let ?allowed = "i64 (budget p i - wr)"
  let ?len = "if int (length b) > ?allowed then ?allowed else int (length b)"
  obtain c st1 where c: "metered_chunk env inbound ?len (pace_stream p i) (pace_now p i) st = (c, st1)"
    by (cases "metered_chunk env inbound ?len (pace_stream p i) (pace_now p i) st")
  show ?thesis
  proof (cases c)
    case (Blocked e)
    with c assms(3,4) show ?thesis by (intro exI [of _ "Suc 0"]) (auto simp: Let_def)
  next
    case (Done n er short)
    have pos: "i64 (budget p i - wr) > 0" using assms(3) by simp
    note w = paced_chunk_within [OF assms(1,2) pos assms(4) refl c [unfolded Done]]
    show ?thesis
    proof (cases "short \<or> er \<noteq> None \<or> n = 0")
      case True
      with Done c assms(3,4) show ?thesis by (intro exI [of _ "Suc 0"]) (auto simp: Let_def)
    next
      case False
      then obtain fuel res where
        "paced_loop fuel env inbound p (Suc i) (wr + n) (sofar + n) (drop (nat n) b) st1 = Some res"
        using rec [of n st1] w(1,2) by auto
      with False Done c assms(3,4) w(4) have "paced_loop (Suc fuel) env inbound p i wr sofar b st = Some res"
        by (simp add: Let_def)
      then show ?thesis by blast
    qed
  qed
qed

text \<open>The loop returns when its budget keeps growing past what it has to send.\<close>

lemma paced_loop_returns:
  assumes "pacing_ok p" and grows: "\<And>i. \<exists>k\<ge>i. goal \<le> budget p k" and "goal \<le> max_i64"
  shows "0 \<le> wr \<Longrightarrow> wr + int (length b) \<le> goal \<Longrightarrow>
    \<exists>fuel res. paced_loop fuel env inbound p i wr sofar b st = Some res"
proof (induction "length b" arbitrary: b i wr sofar st rule: less_induct)
  case less
  show ?case
  proof (cases "b = []")
    case True
    then have "paced_loop (Suc 0) env inbound p i wr sofar b st = Some ((sofar, None), wr, st)" by simp
    then show ?thesis by blast
  next
    case nonempty: False
    have wr: "0 \<le> wr \<and> wr \<le> max_i64" using less.prems assms(3) by simp
    have rec: "\<exists>fuel res. paced_loop fuel env inbound p (Suc j) (wr + n) (sofar + n) (drop (nat n) b) st' = Some res"
      if "0 < n" "n \<le> int (length b)" for j n st'
      using that less.prems nonempty by (intro less.hyps) auto
    obtain k where k: "i \<le> k" "goal \<le> budget p k" using grows by blast
    from k(1) show ?thesis
    proof (induction "k - i" arbitrary: i)
      case at: 0
      have "in_i64 (budget p k - wr)"
        using pacing_budget [OF assms(1), of k] wr by (auto simp: in_i64_def min_i64_def max_i64_def)
      then have "\<not> i64 (budget p i - wr) \<le> 0"
        using at k(2) less.prems(2) nonempty by (cases b) auto
      then show ?case by (rule paced_loop_transfers [OF assms(1) wr _ nonempty rec])
    next
      case (Suc d)
      show ?case
      proof (cases "i64 (budget p i - wr) \<le> 0")
        case False
        then show ?thesis by (rule paced_loop_transfers [OF assms(1) wr _ nonempty rec])
      next
        case True
        from Suc.hyps have "d = k - Suc i" "Suc i \<le> k" by auto
        from Suc.hyps(1) [OF this] obtain fuel res where
          "paced_loop fuel env inbound p (Suc i) wr sofar b st = Some res" by blast
        with True nonempty have "\<exists>res. paced_loop (Suc fuel) env inbound p i wr sofar b st = Some res"
          by (cases "canceled p i"; cases res) auto
        then show ?thesis by blast
      qed
    qed
  qed
qed

section \<open>Properties\<close>


text \<open>A rate limited write reports exactly what it sent, a prefix of its payload and all of
  it when there is no error, and after any transfer all that the writer has sent so far is within
  the budget \<open>elapsed * bytesPerSec\<close> of some moment of the call.\<close>

theorem rate_limited_write_within_budget:
  assumes "pacing_ok p" "0 \<le> wr \<and> wr \<le> max_i64" "0 < bytesPerSec"
    and "rateLimitedWriter_Write fuel env bytesPerSec p wr b st = Some ((sent, err), wr', st')"
  shows "0 \<le> sent \<and> sent \<le> int (length b) \<and> wr' = wr + sent \<and> (err = None \<longrightarrow> sent = int (length b)) \<and>
    (0 < sent \<longrightarrow> (\<exists>k. wr' \<le> budget p k))"
proof -
  have "paced_loop fuel env False p 0 wr 0 b st = Some ((sent, err), wr', st')"
    using assms(3,4) by (simp add: rateLimitedWriter_Write_def)
  from paced_loop_result [OF assms(1) this assms(2)] show ?thesis by auto
qed

text \<open>C29. A rate limited write returns: as long as the budget keeps growing, as it does while the
  clock advances, the waiting loop ends after finitely many iterations, whatever the quota, the
  stream and the client do.\<close>

theorem rate_limited_write_returns:
  assumes "pacing_ok p" "\<And>i. \<exists>k\<ge>i. wr + int (length b) \<le> budget p k" "0 \<le> wr"
  shows "\<exists>fuel res. rateLimitedWriter_Write fuel env bytesPerSec p wr b st = Some res"
proof (cases "bytesPerSec \<le> 0")
  case True
  then show ?thesis by (auto simp: rateLimitedWriter_Write_def split: prod.splits)
next
  case False
  have "wr + int (length b) \<le> max_i64"
    using assms(2) [of 0] pacing_budget [OF assms(1)] by (auto intro: order_trans)
  from paced_loop_returns [OF assms(1,2) this assms(3) order_refl] False show ?thesis
    by (simp add: rateLimitedWriter_Write_def)
qed

section \<open>A writer to evaluate on\<close>

definition full_stream :: stream where
  "full_stream n = (n, None)"

definition demo_io :: io_state where
  "demo_io = \<lparr>io_quota = Some demo_quota, primary = Some 0, cumulative = Some 100, io_meter = None\<rparr>"

definition demo_pacing :: pacing where
  "demo_pacing = \<lparr>budget = (\<lambda>i. int (min i 5)), pace_now = (\<lambda>_. 0), pace_stream = (\<lambda>_. full_stream), canceled = (\<lambda>_. False)\<rparr>"

lemma full_stream_ok: "stream_ok full_stream"
  by (simp add: stream_ok_def full_stream_def)

lemma demo_pacing_ok: "pacing_ok demo_pacing"
  using full_stream_ok
  by (auto simp: pacing_ok_def demo_pacing_def in_i64_def min_i64_def max_i64_def min_def)


theorem rate_limited_write_within_budget_witness:
  "\<exists>st'. rateLimitedWriter_Write 9 demo_env 1 demo_pacing 0 ''abc'' (demo_io\<lparr>io_quota := None\<rparr>) = Some ((3, None), 3, st') \<and>
     (\<exists>k. 3 \<le> budget demo_pacing k)"
proof -
  have "map_option (\<lambda>(r, wr, st). (r, wr))
      (rateLimitedWriter_Write 9 demo_env 1 demo_pacing 0 ''abc'' (demo_io\<lparr>io_quota := None\<rparr>)) = Some ((3, None), 3)"
    by code_simp
  then obtain st' where w: "rateLimitedWriter_Write 9 demo_env 1 demo_pacing 0 ''abc'' (demo_io\<lparr>io_quota := None\<rparr>) =
      Some ((3, None), 3, st')" by auto
  from rate_limited_write_within_budget [OF demo_pacing_ok _ _ w] w show ?thesis by (simp add: max_i64_def)
qed

theorem rate_limited_write_returns_witness:
  "\<exists>fuel res. rateLimitedWriter_Write fuel demo_env 1 demo_pacing 2 ''abc'' demo_io = Some res"
proof (rule rate_limited_write_returns [OF demo_pacing_ok])
  show "\<exists>k\<ge>i. 2 + int (length ''abc'') \<le> budget demo_pacing k" for i
    by (rule exI [of _ "i + 5"]) (simp add: demo_pacing_def)
qed simp

end
