(* ===== verification/Dynamic_Authority.thy ===== *)
theory Dynamic_Authority
  imports Prelude
begin

text \<open>
  \<open>cmd/meridian/dynamic_authority.go\<close>: the authorities a site has discovered, counted per
  site and across sites. A reservation is a pointer to an entry and may be finished only once; the
  entries and reservations live in a heap, so that a stale reservation is one whose entry is no
  longer the registered one. Each method holds \<open>runtime.mu\<close> and \<open>state.mu\<close> throughout
  and is one function on the state.
\<close>

section \<open>The sliding window of new authorities\<close>

fun pruneDynamicRateWindow :: "time list \<Rightarrow> time \<Rightarrow> time list" where
  "pruneDynamicRateWindow [] now = []"
| "pruneDynamicRateWindow (v # vs) now =
     (if \<not> v > now - minute then pruneDynamicRateWindow vs now else v # vs)"

lemma prune_window_sorted:
  assumes "sorted vs"
  shows "pruneDynamicRateWindow vs now = filter (\<lambda>v. now - minute < v) vs"
  using assms
proof (induction vs)
  case (Cons v vs)
  show ?case
  proof (cases "now - minute < v")
    case True
    then have "\<forall>w\<in>set vs. now - minute < w" using Cons.prems by force
    with True show ?thesis by simp
  next
    case False
    with Cons show ?thesis by simp
  qed
qed simp

lemma prune_window_subset: "set (pruneDynamicRateWindow vs now) \<subseteq> set vs"
  by (induction vs) auto

lemma prune_window_length: "length (pruneDynamicRateWindow vs now) \<le> length vs"
  by (induction vs) auto

lemma prune_window_keeps_sorted: "sorted vs \<Longrightarrow> sorted (pruneDynamicRateWindow vs now)"
  by (simp add: prune_window_sorted sorted_wrt_filter)

section \<open>State\<close>

definition globalDynamicMaxAuthorities :: nat where
  "globalDynamicMaxAuthorities = 16384"

definition globalDynamicMaxNewAuthoritiesMinute :: nat where
  "globalDynamicMaxNewAuthoritiesMinute = 2400"

record authority_entry =
  inFlight :: int
  committed :: bool
  resolution :: "nat option"

record site_auth =
  maxAuthorities :: nat
  maxNewPerMinute :: nat
  site_authorities :: "(string, nat) gomap"   \<comment> \<open>pointers to entries\<close>
  site_new :: "time list"
  site_closed :: bool

record reservation =
  res_site :: nat
  res_authority :: string
  res_entry :: nat
  res_resolution :: nat
  res_done :: bool

record auth_state =
  rt_authorities :: "(string, int) gomap"
  rt_new :: "time list"
  auth_sites :: "(nat, site_auth) gomap"
  entries :: "(nat, authority_entry) gomap"
  reservations :: "(nat, reservation) gomap"
  next_ptr :: nat
  canceled_lookups :: "nat list"

definition newDynamicRuntime :: auth_state where
  "newDynamicRuntime = \<lparr>rt_authorities = [], rt_new = [], auth_sites = [], entries = [], reservations = [],
     next_ptr = 0, canceled_lookups = []\<rparr>"

definition newDynamicSiteState :: "nat \<Rightarrow> nat \<Rightarrow> nat \<Rightarrow> auth_state \<Rightarrow> auth_state" where
  "newDynamicSiteState sid maxA maxN st =
     st\<lparr>auth_sites := mput sid \<lparr>maxAuthorities = maxA, maxNewPerMinute = maxN, site_authorities = [],
        site_new = [], site_closed = False\<rparr> (auth_sites st)\<rparr>"

section \<open>Operations\<close>

datatype reason = RuntimeUnavailable | CapacityLimit | RateLimit

text \<open>\<open>NilMapWrite\<close>: the panic of writing to the maps that \<open>close\<close> has dropped.\<close>

datatype reserve_result = Reserved nat | Denied reason | NilMapWrite

definition reserve_existing :: "nat \<Rightarrow> string \<Rightarrow> nat \<Rightarrow> auth_state \<Rightarrow> auth_state \<times> reserve_result" where
  "reserve_existing sid a p st =
     (let e = the (mget (entries st) p);
          n = next_ptr st;
          (lookup, n') = (case resolution e of None \<Rightarrow> (n, Suc n) | Some l \<Rightarrow> (l, n));
          e' = e\<lparr>inFlight := inFlight e + 1, resolution := Some lookup\<rparr>;
          r = \<lparr>res_site = sid, res_authority = a, res_entry = p, res_resolution = lookup, res_done = False\<rparr>
      in (st\<lparr>entries := mput p e' (entries st), reservations := mput n' r (reservations st), next_ptr := Suc n'\<rparr>,
          Reserved n'))"

definition reserve_new :: "nat \<Rightarrow> site_auth \<Rightarrow> string \<Rightarrow> time \<Rightarrow> auth_state \<Rightarrow> auth_state \<times> reserve_result" where
  "reserve_new sid s a now st =
     (let s1 = s\<lparr>site_new := pruneDynamicRateWindow (site_new s) now\<rparr>;
          st1 = st\<lparr>rt_new := pruneDynamicRateWindow (rt_new st) now, auth_sites := mput sid s1 (auth_sites st)\<rparr>;
          fresh = (mget_or 0 (rt_authorities st1) a = 0)
      in if length (site_authorities s1) \<ge> maxAuthorities s1 \<or>
            fresh \<and> length (rt_authorities st1) \<ge> globalDynamicMaxAuthorities then (st1, Denied CapacityLimit)
         else if length (site_new s1) \<ge> maxNewPerMinute s1 \<or>
            fresh \<and> length (rt_new st1) \<ge> globalDynamicMaxNewAuthoritiesMinute then (st1, Denied RateLimit)
         else if site_closed s then (st1, NilMapWrite)
         else
           let p = next_ptr st1; lookup = Suc p; rid = Suc lookup;
               e = \<lparr>inFlight = 1, committed = False, resolution = Some lookup\<rparr>;
               s2 = s1\<lparr>site_authorities := mput a p (site_authorities s1), site_new := site_new s1 @ [now]\<rparr>;
               r = \<lparr>res_site = sid, res_authority = a, res_entry = p, res_resolution = lookup, res_done = False\<rparr>
           in (st1\<lparr>auth_sites := mput sid s2 (auth_sites st1), entries := mput p e (entries st1),
                   reservations := mput rid r (reservations st1), next_ptr := Suc rid,
                   rt_new := (if fresh then rt_new st1 @ [now] else rt_new st1),
                   rt_authorities := mput a (mget_or 0 (rt_authorities st1) a + 1) (rt_authorities st1)\<rparr>,
               Reserved rid))"

definition reserveAuthority :: "nat \<Rightarrow> string \<Rightarrow> time \<Rightarrow> auth_state \<Rightarrow> auth_state \<times> reserve_result" where
  "reserveAuthority sid a now st =
     (case mget (auth_sites st) sid of
        None \<Rightarrow> (st, Denied RuntimeUnavailable)
      | Some s \<Rightarrow>
          if a = [] then (st, Denied RuntimeUnavailable)
          else (case mget (site_authorities s) a of
                  Some p \<Rightarrow> reserve_existing sid a p st
                | None \<Rightarrow> reserve_new sid s a now st))"

definition drop_global :: "string \<Rightarrow> (string, int) gomap \<Rightarrow> (string, int) gomap" where
  "drop_global a m = (if mget_or 0 m a \<le> 1 then mdel a m else mput a (mget_or 0 m a - 1) m)"

text \<open>The body of \<open>once.Do\<close> for the entry the reservation points to.\<close>

definition settle_entry :: "bool \<Rightarrow> authority_entry \<Rightarrow> authority_entry \<times> nat list" where
  "settle_entry commit e =
     (let e1 = (if commit then e\<lparr>committed := True\<rparr> else e);
          e2 = (if inFlight e1 > 0 then e1\<lparr>inFlight := inFlight e1 - 1\<rparr> else e1)
      in if inFlight e2 = 0 \<and> resolution e2 \<noteq> None
         then (e2\<lparr>resolution := None\<rparr>, [the (resolution e2)]) else (e2, []))"

definition finishLocked :: "nat \<Rightarrow> bool \<Rightarrow> auth_state \<Rightarrow> auth_state" where
  "finishLocked rid commit st =
     (case mget (reservations st) rid of
        None \<Rightarrow> st
      | Some r \<Rightarrow>
          if res_done r then st
          else
            let st1 = st\<lparr>reservations := mput rid (r\<lparr>res_done := True\<rparr>) (reservations st)\<rparr>
            in (case mget (auth_sites st1) (res_site r) of
                  None \<Rightarrow> st1
                | Some s \<Rightarrow>
                    if mget (site_authorities s) (res_authority r) \<noteq> Some (res_entry r) then st1
                    else
                      let (e, gone) = settle_entry commit (the (mget (entries st1) (res_entry r)));
                          st2 = st1\<lparr>entries := mput (res_entry r) e (entries st1),
                                    canceled_lookups := gone @ canceled_lookups st1\<rparr>
                      in if committed e \<or> inFlight e > 0 then st2
                         else st2\<lparr>auth_sites := mput (res_site r)
                                    (s\<lparr>site_authorities := mdel (res_authority r) (site_authorities s)\<rparr>) (auth_sites st2),
                                  rt_authorities := drop_global (res_authority r) (rt_authorities st2)\<rparr>))"

definition commit :: "nat \<Rightarrow> auth_state \<Rightarrow> auth_state" where
  "commit rid st = finishLocked rid True st"

definition rollback :: "nat \<Rightarrow> auth_state \<Rightarrow> auth_state" where
  "rollback rid st = finishLocked rid False st"

text \<open>The part of \<open>close\<close> that concerns authorities.\<close>

definition close_authorities :: "nat \<Rightarrow> auth_state \<Rightarrow> auth_state" where
  "close_authorities sid st =
     (case mget (auth_sites st) sid of
        None \<Rightarrow> st
      | Some s \<Rightarrow>
          if site_closed s then st
          else st\<lparr>rt_authorities := foldl (\<lambda>m (a, p). drop_global a m) (rt_authorities st) (site_authorities s),
                  auth_sites := mput sid (s\<lparr>site_authorities := [], site_closed := True\<rparr>) (auth_sites st)\<rparr>)"

section \<open>Leases\<close>

record lease =
  retained :: bool
  lease_done :: bool
  lease_reservations :: "nat list"

definition lease_add :: "nat \<Rightarrow> lease \<Rightarrow> lease" where
  "lease_add rid l = l\<lparr>lease_reservations := lease_reservations l @ [rid]\<rparr>"

definition retainThroughRewrite :: "lease \<Rightarrow> lease" where
  "retainThroughRewrite l = l\<lparr>retained := True\<rparr>"

definition lease_finish :: "bool \<Rightarrow> lease \<Rightarrow> auth_state \<Rightarrow> lease \<times> auth_state" where
  "lease_finish c l st =
     (if lease_done l then (l, st)
      else (l\<lparr>lease_done := True\<rparr>, foldl (\<lambda>st rid. finishLocked rid c st) st (lease_reservations l)))"

definition rollbackOnBodyClose :: "lease \<Rightarrow> auth_state \<Rightarrow> lease \<times> auth_state" where
  "rollbackOnBodyClose l st = (if retained l then (l, st) else lease_finish False l st)"

section \<open>The books of the registry\<close>

definition registered :: "auth_state \<Rightarrow> nat \<Rightarrow> string \<Rightarrow> nat \<Rightarrow> bool" where
  "registered st sid a p \<longleftrightarrow>
     (\<exists>s. mget (auth_sites st) sid = Some s \<and> mget (site_authorities s) a = Some p)"

definition holders :: "string \<Rightarrow> auth_state \<Rightarrow> int" where
  "holders a st = msum (\<lambda>_ s. if mget (site_authorities s) a = None then 0 else 1) (auth_sites st)"

definition open_reservations :: "nat \<Rightarrow> auth_state \<Rightarrow> int" where
  "open_reservations p st = msum (\<lambda>_ r. if \<not> res_done r \<and> res_entry r = p then 1 else 0) (reservations st)"

definition entry_ok :: "auth_state \<Rightarrow> nat \<Rightarrow> bool" where
  "entry_ok st p \<longleftrightarrow> (\<exists>e. mget (entries st) p = Some e \<and> inFlight e = open_reservations p st \<and>
     (committed e \<or> 0 < inFlight e) \<and> (resolution e \<noteq> None \<longleftrightarrow> 0 < inFlight e))"

definition counts_ok :: "auth_state \<Rightarrow> bool" where
  "counts_ok st \<longleftrightarrow> mwf (rt_authorities st) \<and>
     (\<forall>a. mget (rt_authorities st) a = (if holders a st = 0 then None else Some (holders a st)))"

definition auth_inv :: "auth_state \<Rightarrow> bool" where
  "auth_inv st \<longleftrightarrow>
     mwf (auth_sites st) \<and> mwf (entries st) \<and> mwf (reservations st) \<and> counts_ok st \<and>
     (\<forall>sid s. mget (auth_sites st) sid = Some s \<longrightarrow> mwf (site_authorities s) \<and>
        (site_closed s \<longrightarrow> site_authorities s = [])) \<and>
     (\<forall>sid a p. registered st sid a p \<longrightarrow> p < next_ptr st \<and> entry_ok st p) \<and>
     (\<forall>sid a p sid' a'. registered st sid a p \<longrightarrow> registered st sid' a' p \<longrightarrow> sid' = sid \<and> a' = a) \<and>
     (\<forall>rid r. mget (reservations st) rid = Some r \<longrightarrow> rid < next_ptr st \<and> res_entry r < next_ptr st \<and>
        (\<forall>sid a. registered st sid a (res_entry r) \<longrightarrow> res_site r = sid \<and> res_authority r = a))"

subsection \<open>How the parts change\<close>

lemma registered_mput: "registered (st\<lparr>auth_sites := mput sid s (auth_sites st)\<rparr>) sid' a p \<longleftrightarrow>
    (if sid' = sid then mget (site_authorities s) a = Some p else registered st sid' a p)"
  by (auto simp: registered_def)

lemma registered_cong: "auth_sites st' = auth_sites st \<Longrightarrow> registered st' = registered st"
  by (auto simp: registered_def fun_eq_iff)

lemma holders_cong: "auth_sites st' = auth_sites st \<Longrightarrow> holders a st' = holders a st"
  by (simp add: holders_def)

lemma holders_mput: "holders a (st\<lparr>auth_sites := mput sid s (auth_sites st)\<rparr>) =
    holders a st + (if mget (site_authorities s) a = None then 0 else 1) -
    (case mget (auth_sites st) sid of None \<Rightarrow> 0 | Some s0 \<Rightarrow> if mget (site_authorities s0) a = None then 0 else 1)"
  by (simp add: holders_def msum_mput)

lemma holders_nonneg: "0 \<le> holders a st"
  unfolding holders_def by (rule msum_nonneg) simp

lemma holders_pos: "registered st sid a p \<Longrightarrow> 0 < holders a st"
proof -
  assume "registered st sid a p"
  then obtain s where s: "mget (auth_sites st) sid = Some s" "mget (site_authorities s) a = Some p"
    by (auto simp: registered_def)
  have "(if mget (site_authorities s) a = None then 0 else 1) \<le> holders a st"
    unfolding holders_def
    by (rule msum_member_le [where k = sid and f = "\<lambda>_ s. if mget (site_authorities s) a = None then 0 else 1"])
      (auto intro: mget_in_set [OF s(1)])
  with s(2) show ?thesis by simp
qed

lemma open_nonneg: "0 \<le> open_reservations p st"
  unfolding open_reservations_def by (rule msum_nonneg) simp

lemma open_cong: "reservations st' = reservations st \<Longrightarrow> open_reservations p st' = open_reservations p st"
  by (simp add: open_reservations_def)

lemma open_mput: "open_reservations p (st\<lparr>reservations := mput rid r (reservations st)\<rparr>) =
    open_reservations p st + (if \<not> res_done r \<and> res_entry r = p then 1 else 0) -
    (case mget (reservations st) rid of None \<Rightarrow> 0 | Some r0 \<Rightarrow> if \<not> res_done r0 \<and> res_entry r0 = p then 1 else 0)"
  by (simp add: open_reservations_def msum_mput)

lemma open_pos: "mget (reservations st) rid = Some r \<Longrightarrow> \<not> res_done r \<Longrightarrow> 0 < open_reservations (res_entry r) st"
proof -
  assume r: "mget (reservations st) rid = Some r" "\<not> res_done r"
  have "(if \<not> res_done r \<and> res_entry r = res_entry r then 1 else 0) \<le> open_reservations (res_entry r) st"
    unfolding open_reservations_def
    by (rule msum_member_le [where k = rid and f = "\<lambda>_ r'. if \<not> res_done r' \<and> res_entry r' = res_entry r then 1 else 0"])
      (auto intro: mget_in_set [OF r(1)])
  with r(2) show ?thesis by simp
qed

lemma open_zero: "mwf (reservations st) \<Longrightarrow> (\<And>rid r. mget (reservations st) rid = Some r \<Longrightarrow> res_entry r \<noteq> p) \<Longrightarrow>
    open_reservations p st = 0"
proof -
  assume w: "mwf (reservations st)" and n: "\<And>rid r. mget (reservations st) rid = Some r \<Longrightarrow> res_entry r \<noteq> p"
  then show ?thesis
    unfolding open_reservations_def by (intro msum_zero) (auto dest: in_set_mget [OF w])
qed

subsection \<open>Every operation keeps the books\<close>

lemma auth_invD:
  assumes "auth_inv st"
  shows "mwf (auth_sites st)" "mwf (entries st)" "mwf (reservations st)" "counts_ok st"
    and "mget (auth_sites st) sid = Some s \<Longrightarrow> mwf (site_authorities s) \<and> (site_closed s \<longrightarrow> site_authorities s = [])"
    and "registered st sid a p \<Longrightarrow> p < next_ptr st \<and> entry_ok st p"
    and "registered st sid a p \<Longrightarrow> registered st sid' a' p \<Longrightarrow> sid' = sid \<and> a' = a"
    and "mget (reservations st) rid = Some r \<Longrightarrow> rid < next_ptr st \<and> res_entry r < next_ptr st"
    and "mget (reservations st) rid = Some r \<Longrightarrow> registered st sid a (res_entry r) \<Longrightarrow> res_site r = sid \<and> res_authority r = a"
  using assms unfolding auth_inv_def by blast+

lemma auth_invI:
  assumes "mwf (auth_sites st)" "mwf (entries st)" "mwf (reservations st)" "counts_ok st"
    and "\<And>sid s. mget (auth_sites st) sid = Some s \<Longrightarrow> mwf (site_authorities s) \<and> (site_closed s \<longrightarrow> site_authorities s = [])"
    and "\<And>sid a p. registered st sid a p \<Longrightarrow> p < next_ptr st \<and> entry_ok st p"
    and "\<And>sid a p sid' a'. registered st sid a p \<Longrightarrow> registered st sid' a' p \<Longrightarrow> sid' = sid \<and> a' = a"
    and "\<And>rid r. mget (reservations st) rid = Some r \<Longrightarrow> rid < next_ptr st \<and> res_entry r < next_ptr st"
    and "\<And>rid r sid a. mget (reservations st) rid = Some r \<Longrightarrow> registered st sid a (res_entry r) \<Longrightarrow>
      res_site r = sid \<and> res_authority r = a"
  shows "auth_inv st"
  unfolding auth_inv_def using assms by blast

lemma counts_ok_cong: "counts_ok st \<Longrightarrow> rt_authorities st' = rt_authorities st \<Longrightarrow> auth_sites st' = auth_sites st \<Longrightarrow>
    counts_ok st'"
  using holders_cong [of st' st] by (simp add: counts_ok_def)

lemma auth_inv_new: "auth_inv newDynamicRuntime"
  by (simp add: auth_inv_def newDynamicRuntime_def counts_ok_def holders_def registered_def)

lemma auth_inv_newSite:
  assumes "auth_inv st" "mget (auth_sites st) sid = None"
  shows "auth_inv (newDynamicSiteState sid maxA maxN st)"
proof -
  let ?st = "newDynamicSiteState sid maxA maxN st"
  have reg: "registered ?st = registered st"
    using assms(2) by (auto simp: newDynamicSiteState_def registered_def fun_eq_iff)
  have h: "holders a ?st = holders a st" for a
    unfolding newDynamicSiteState_def holders_mput using assms(2) by simp
  have e: "entry_ok ?st = entry_ok st"
    by (simp add: entry_ok_def newDynamicSiteState_def open_reservations_def fun_eq_iff)
  note inv = auth_invD [OF assms(1)]
  show ?thesis
  proof (rule auth_invI, unfold reg e)
    show "counts_ok ?st"
      using inv(4) unfolding counts_ok_def h by (simp add: newDynamicSiteState_def)
    show "mwf (site_authorities s) \<and> (site_closed s \<longrightarrow> site_authorities s = [])"
      if "mget (auth_sites ?st) sid' = Some s" for sid' s
      using that inv(5) [of sid' s] by (auto simp: newDynamicSiteState_def split: if_splits)
    show "p < next_ptr ?st \<and> entry_ok st p" if "registered st sid' a p" for sid' a p
      using inv(6) [OF that] by (simp add: newDynamicSiteState_def)
    show "rid < next_ptr ?st \<and> res_entry r < next_ptr ?st" if "mget (reservations ?st) rid = Some r" for rid r
      using that inv(8) [of rid r] by (simp add: newDynamicSiteState_def)
    show "res_site r = sid' \<and> res_authority r = a"
      if "mget (reservations ?st) rid = Some r" "registered st sid' a (res_entry r)" for rid r sid' a
      using that inv(9) [of rid r sid' a] by (simp add: newDynamicSiteState_def)
  qed (use inv in \<open>simp_all add: newDynamicSiteState_def\<close>)
qed

lemma reserve_existing_inv:
  assumes "auth_inv st" "registered st sid a p" "reserve_existing sid a p st = (st', Reserved rid)"
  shows "auth_inv st'" "\<exists>r. mget (reservations st') rid = Some r \<and> \<not> res_done r \<and> res_entry r = p"
proof -
  note inv = auth_invD [OF assms(1)]
  obtain e where e: "mget (entries st) p = Some e" "inFlight e = open_reservations p st"
    using inv(6) [OF assms(2)] by (auto simp: entry_ok_def)
  obtain l n' where l: "(case resolution e of None \<Rightarrow> (next_ptr st, Suc (next_ptr st)) | Some l \<Rightarrow> (l, next_ptr st)) = (l, n')"
    by (cases "resolution e") auto
  have n': "next_ptr st \<le> n'" using l by (auto split: option.splits)
  let ?r = "\<lparr>res_site = sid, res_authority = a, res_entry = p, res_resolution = l, res_done = False\<rparr>"
  let ?e = "e\<lparr>inFlight := inFlight e + 1, resolution := Some l\<rparr>"
  have st': "st' = st\<lparr>entries := mput p ?e (entries st), reservations := mput n' ?r (reservations st), next_ptr := Suc n'\<rparr>"
    and rid: "rid = n'"
    using assms(3) e(1) l by (auto simp: reserve_existing_def Let_def)
  have fresh: "mget (reservations st) n' = None"
    using inv(8) n' by (cases "mget (reservations st) n'") force+
  have reg: "registered st' = registered st" by (rule registered_cong) (simp add: st')
  have h: "holders x st' = holders x st" for x by (rule holders_cong) (simp add: st')
  have op: "open_reservations q st' = open_reservations q st + (if p = q then 1 else 0)" for q
    using open_mput [of q n' ?r st] fresh by (simp add: st' open_reservations_def)
  have ent: "entry_ok st' q" if "registered st x b q" for x b q
  proof -
    have "entry_ok st q" using inv(6) [OF that] by simp
    then show ?thesis
      using e open_nonneg [of p st] by (auto simp: entry_ok_def op) (auto simp: st')
  qed
  show "auth_inv st'"
  proof (rule auth_invI, unfold reg)
    show "counts_ok st'" by (rule counts_ok_cong [OF inv(4)]) (simp_all add: st')
    show "p < next_ptr st' \<and> entry_ok st' p" if "registered st sid a p" for sid a p
      using inv(6) [OF that] ent [OF that] n' by (simp add: st')
    show "sid' = sid \<and> a' = a" if "registered st sid a p" "registered st sid' a' p" for sid a p sid' a'
      by (rule inv(7) [OF that])
    fix rid' r assume r: "mget (reservations st') rid' = Some r"
    show "rid' < next_ptr st' \<and> res_entry r < next_ptr st'"
      using r inv(8) [of rid' r] inv(6) [OF assms(2)] n' by (auto simp: st' split: if_splits)
    show "res_site r = sid' \<and> res_authority r = a'" if "registered st sid' a' (res_entry r)" for sid' a'
      using r that inv(9) [of rid' r sid' a'] inv(7) [OF assms(2), of sid' a'] by (auto simp: st' split: if_splits)
  qed (use inv in \<open>simp_all add: st'\<close>)
  show "\<exists>r. mget (reservations st') rid = Some r \<and> \<not> res_done r \<and> res_entry r = p"
    by (simp add: st' rid)
qed

lemma counts_get_or: "counts_ok st \<Longrightarrow> mget_or 0 (rt_authorities st) a = holders a st"
  by (simp add: counts_ok_def mget_or_def)

lemma mget_drop_global: "mget (drop_global a m) b =
    (if b = a then (if mget_or 0 m a \<le> 1 then None else Some (mget_or 0 m a - 1)) else mget m b)"
  by (simp add: drop_global_def)

lemma mwf_drop_global [simp]: "mwf m \<Longrightarrow> mwf (drop_global a m)"
  by (simp add: drop_global_def)

lemma drop_global_counts:
  assumes "counts_ok st" "mwf m" "m = rt_authorities st" "0 < holders a st"
    and "\<And>b. holders b st' = holders b st - (if b = a then 1 else 0)" "rt_authorities st' = drop_global a m"
  shows "counts_ok st'"
  using assms counts_get_or [OF assms(1), of a] by (auto simp: counts_ok_def mget_drop_global)

text \<open>A denied reservation, and the windows of a granted one, change no registration.\<close>

lemma auth_inv_windows:
  assumes "auth_inv st" "mget (auth_sites st) sid = Some s"
  shows "auth_inv (st\<lparr>rt_new := w, auth_sites := mput sid (s\<lparr>site_new := v\<rparr>) (auth_sites st)\<rparr>)"
proof -
  let ?st = "st\<lparr>rt_new := w, auth_sites := mput sid (s\<lparr>site_new := v\<rparr>) (auth_sites st)\<rparr>"
  note inv = auth_invD [OF assms(1)]
  have reg: "registered ?st = registered st"
    using assms(2) by (auto simp: registered_def fun_eq_iff)
  have h: "holders a ?st = holders a st" for a
    using holders_mput [of a sid "s\<lparr>site_new := v\<rparr>" st] assms(2) by (simp add: holders_def)
  have e: "entry_ok ?st = entry_ok st"
    by (simp add: entry_ok_def open_reservations_def fun_eq_iff)
  show ?thesis
  proof (rule auth_invI, unfold reg e)
    show "counts_ok ?st" using inv(4) unfolding counts_ok_def h by simp
    show "mwf (site_authorities s') \<and> (site_closed s' \<longrightarrow> site_authorities s' = [])"
      if "mget (auth_sites ?st) sid' = Some s'" for sid' s'
      using that inv(5) [of sid' s'] inv(5) [OF assms(2)] by (auto split: if_splits)
    show "p < next_ptr ?st \<and> entry_ok st p" if "registered st sid' a p" for sid' a p
      using inv(6) [OF that] by simp
    show "rid < next_ptr ?st \<and> res_entry r < next_ptr ?st" if "mget (reservations ?st) rid = Some r" for rid r
      using that inv(8) [of rid r] by simp
    show "res_site r = sid' \<and> res_authority r = a"
      if "mget (reservations ?st) rid = Some r" "registered st sid' a (res_entry r)" for rid r sid' a
      using that inv(9) [of rid r sid' a] by simp
  qed (use inv in simp_all)
qed

text \<open>Registering a fresh authority with its first reservation.\<close>

definition register_fresh :: "nat \<Rightarrow> site_auth \<Rightarrow> string \<Rightarrow> time list \<Rightarrow> time list \<Rightarrow> auth_state \<Rightarrow> auth_state" where
  "register_fresh sid s a sw rw st =
     (let p = next_ptr st; lookup = Suc p; rid = Suc lookup
      in st\<lparr>auth_sites := mput sid (s\<lparr>site_authorities := mput a p (site_authorities s), site_new := sw\<rparr>) (auth_sites st),
            entries := mput p \<lparr>inFlight = 1, committed = False, resolution = Some lookup\<rparr> (entries st),
            reservations := mput rid \<lparr>res_site = sid, res_authority = a, res_entry = p, res_resolution = lookup,
              res_done = False\<rparr> (reservations st),
            next_ptr := Suc rid, rt_new := rw,
            rt_authorities := mput a (mget_or 0 (rt_authorities st) a + 1) (rt_authorities st)\<rparr>)"

lemma register_fresh_inv:
  assumes "auth_inv st" "mget (auth_sites st) sid = Some s" "mget (site_authorities s) a = None" "\<not> site_closed s"
  shows "auth_inv (register_fresh sid s a sw rw st)"
proof -
  let ?st = "register_fresh sid s a sw rw st" and ?p = "next_ptr st"
  let ?s = "s\<lparr>site_authorities := mput a ?p (site_authorities s), site_new := sw\<rparr>"
  let ?r = "\<lparr>res_site = sid, res_authority = a, res_entry = ?p, res_resolution = Suc ?p, res_done = False\<rparr>"
  note inv = auth_invD [OF assms(1)]
  have reg: "registered ?st sid' b q \<longleftrightarrow> registered st sid' b q \<or> (sid' = sid \<and> b = a \<and> q = ?p)" for sid' b q
    using registered_mput [of sid ?s st sid' b q] assms(2,3)
    by (auto simp: register_fresh_def registered_def Let_def)
  have h: "holders b ?st = holders b st + (if b = a then 1 else 0)" for b
    using holders_mput [of b sid ?s st] assms(2,3) by (simp add: holders_def register_fresh_def Let_def)
  have fresh: "mget (reservations st) (Suc (Suc ?p)) = None"
    using inv(8) by (cases "mget (reservations st) (Suc (Suc ?p))") force+
  have op: "open_reservations q ?st = open_reservations q st + (if q = ?p then 1 else 0)" for q
    using open_mput [of q "Suc (Suc ?p)" ?r st] fresh by (simp add: register_fresh_def open_reservations_def Let_def)
  have op0: "open_reservations ?p st = 0" by (rule open_zero [OF inv(3)]) (use inv(8) in force)
  have notreg: "\<not> registered st x b ?p" for x b using inv(6) [of x b ?p] by auto
  show ?thesis
  proof (rule auth_invI, unfold reg)
    show "counts_ok ?st"
      using inv(4) counts_get_or [OF inv(4), of a] holders_nonneg [of a st]
      unfolding counts_ok_def h by (auto simp: register_fresh_def Let_def)
    show "mwf (site_authorities s') \<and> (site_closed s' \<longrightarrow> site_authorities s' = [])"
      if "mget (auth_sites ?st) sid' = Some s'" for sid' s'
      using that inv(5) [of sid' s'] inv(5) [OF assms(2)] assms(4)
      by (auto simp: register_fresh_def Let_def split: if_splits)
    show "q < next_ptr ?st \<and> entry_ok ?st q" if "registered st sid' b q \<or> (sid' = sid \<and> b = a \<and> q = ?p)" for sid' b q
    proof (cases "q = ?p")
      case True
      then show ?thesis using op0 by (simp add: entry_ok_def op) (simp add: register_fresh_def Let_def)
    next
      case False
      with that inv(6) [of sid' b q] show ?thesis
        by (auto simp: entry_ok_def op) (auto simp: register_fresh_def Let_def)
    qed
    show "sid'' = sid' \<and> b' = b" if "registered st sid' b q \<or> (sid' = sid \<and> b = a \<and> q = ?p)"
      "registered st sid'' b' q \<or> (sid'' = sid \<and> b' = a \<and> q = ?p)" for sid' b q sid'' b'
      using that notreg inv(7) [of sid' b q sid'' b'] by auto
    fix rid r assume r: "mget (reservations ?st) rid = Some r"
    show "rid < next_ptr ?st \<and> res_entry r < next_ptr ?st"
      using r inv(8) [of rid r] by (auto simp: register_fresh_def Let_def split: if_splits)
    show "res_site r = sid' \<and> res_authority r = b"
      if "registered st sid' b (res_entry r) \<or> (sid' = sid \<and> b = a \<and> res_entry r = ?p)" for sid' b
      using r that notreg inv(8) [of rid r] inv(9) [of rid r sid' b]
      by (auto simp: register_fresh_def Let_def split: if_splits)
  qed (use inv in \<open>simp_all add: register_fresh_def Let_def\<close>)
qed

lemma reserve_new_cases:
  assumes "reserve_new sid s a now st = (st', res)"
  obtains (Denied) w v x where "st' = st\<lparr>rt_new := w, auth_sites := mput sid (s\<lparr>site_new := v\<rparr>) (auth_sites st)\<rparr>"
      "res = Denied x \<or> res = NilMapWrite \<and> site_closed s"
  | (Fresh) sw rw where "st' = register_fresh sid s a sw rw
        (st\<lparr>rt_new := pruneDynamicRateWindow (rt_new st) now,
            auth_sites := mput sid (s\<lparr>site_new := pruneDynamicRateWindow (site_new s) now\<rparr>) (auth_sites st)\<rparr>)"
      "\<not> site_closed s" "res = Reserved (Suc (Suc (next_ptr st)))"
  using assms
  unfolding reserve_new_def Let_def
  by (auto simp: register_fresh_def Let_def split: if_splits)

lemma reserveAuthority_inv:
  assumes "auth_inv st" "reserveAuthority sid a now st = (st', res)"
  shows "auth_inv st'"
proof (cases "mget (auth_sites st) sid")
  case (Some s)
  show ?thesis
  proof (cases "a = [] \<or> mget (site_authorities s) a \<noteq> None")
    case True
    show ?thesis
    proof (cases "a = []")
      case False
      then obtain p where p: "mget (site_authorities s) a = Some p" using True by auto
      with Some False assms(2) have e: "reserve_existing sid a p st = (st', res)" by (simp add: reserveAuthority_def)
      then obtain rid where "res = Reserved rid" by (auto simp: reserve_existing_def Let_def split: prod.splits)
      moreover have "registered st sid a p" using p Some by (simp add: registered_def)
      ultimately show ?thesis using e reserve_existing_inv(1) [OF assms(1)] by blast
    qed (use Some assms in \<open>simp add: reserveAuthority_def\<close>)
  next
    case False
    then have none: "mget (site_authorities s) a = None" and "a \<noteq> []" by auto
    with Some assms(2) have "reserve_new sid s a now st = (st', res)" by (simp add: reserveAuthority_def)
    then show ?thesis
    proof (cases rule: reserve_new_cases)
      case (Denied w v)
      with auth_inv_windows [OF assms(1) Some] show ?thesis by simp
    next
      case (Fresh sw rw)
      let ?s1 = "s\<lparr>site_new := pruneDynamicRateWindow (site_new s) now\<rparr>"
      let ?st1 = "st\<lparr>rt_new := pruneDynamicRateWindow (rt_new st) now, auth_sites := mput sid ?s1 (auth_sites st)\<rparr>"
      have "register_fresh sid s a sw rw ?st1 = register_fresh sid ?s1 a sw rw ?st1"
        by (simp add: register_fresh_def Let_def)
      moreover have "auth_inv (register_fresh sid ?s1 a sw rw ?st1)"
        by (rule register_fresh_inv [OF auth_inv_windows [OF assms(1) Some]]) (use none Fresh in simp_all)
      ultimately show ?thesis using Fresh by simp
    qed
  qed
qed (use assms in \<open>simp add: reserveAuthority_def\<close>)

text \<open>Finishing a reservation whose entry is no longer registered only marks it.\<close>

lemma auth_inv_mark_stale:
  assumes "auth_inv st" "mget (reservations st) rid = Some r"
    and "\<And>sid a. \<not> registered st sid a (res_entry r)"
  shows "auth_inv (st\<lparr>reservations := mput rid (r\<lparr>res_done := True\<rparr>) (reservations st)\<rparr>)"
proof -
  let ?st = "st\<lparr>reservations := mput rid (r\<lparr>res_done := True\<rparr>) (reservations st)\<rparr>"
  note inv = auth_invD [OF assms(1)]
  have reg: "registered ?st = registered st" by (rule registered_cong) simp
  have op: "q \<noteq> res_entry r \<Longrightarrow> open_reservations q ?st = open_reservations q st" for q
    using open_mput [of q rid "r\<lparr>res_done := True\<rparr>" st] assms(2) by simp
  show ?thesis
  proof (rule auth_invI, unfold reg)
    show "counts_ok ?st" by (rule counts_ok_cong [OF inv(4)]) simp_all
    show "p < next_ptr ?st \<and> entry_ok ?st p" if "registered st sid' a p" for sid' a p
    proof -
      have "p \<noteq> res_entry r" using that assms(3) by metis
      with inv(6) [OF that] op [of p] show ?thesis by (auto simp: entry_ok_def)
    qed
    show "rid' < next_ptr ?st \<and> res_entry r' < next_ptr ?st" if "mget (reservations ?st) rid' = Some r'" for rid' r'
      using that inv(8) [OF assms(2)] inv(8) [of rid' r'] by (auto split: if_splits)
    show "res_site r' = sid' \<and> res_authority r' = a"
      if "mget (reservations ?st) rid' = Some r'" "registered st sid' a (res_entry r')" for rid' r' sid' a
      using that inv(9) [OF assms(2), of sid' a] inv(9) [of rid' r' sid' a] by (auto split: if_splits)
    show "sid'' = sid' \<and> a' = a" if "registered st sid' a p" "registered st sid'' a' p" for sid' a p sid'' a'
      by (rule inv(7) [OF that])
  qed (use inv(1-3,5) in simp_all)
qed

definition settle_registered :: "nat \<Rightarrow> reservation \<Rightarrow> authority_entry \<Rightarrow> nat list \<Rightarrow> auth_state \<Rightarrow> auth_state" where
  "settle_registered rid r e gone st =
     st\<lparr>reservations := mput rid (r\<lparr>res_done := True\<rparr>) (reservations st),
        entries := mput (res_entry r) e (entries st), canceled_lookups := gone @ canceled_lookups st\<rparr>"

lemma settle_entry_facts:
  assumes "settle_entry c e = (e', gone)" "0 < inFlight e" "resolution e \<noteq> None"
  shows "inFlight e' = inFlight e - 1" "committed e' = (committed e \<or> c)"
    and "resolution e' \<noteq> None \<longleftrightarrow> 0 < inFlight e'"
    and "gone = (if inFlight e' = 0 then [the (resolution e)] else [])"
  using assms by (auto simp: settle_entry_def Let_def split: if_splits)

lemma settle_registered_facts:
  assumes "auth_inv st" "mget (reservations st) rid = Some r" "\<not> res_done r"
    and "registered st (res_site r) (res_authority r) (res_entry r)"
    and "settle_entry c (the (mget (entries st) (res_entry r))) = (e, gone)"
  defines "st2 \<equiv> settle_registered rid r e gone st"
  shows "registered st2 = registered st" "rt_authorities st2 = rt_authorities st"
    and "\<And>q. q \<noteq> res_entry r \<Longrightarrow> entry_ok st q \<Longrightarrow> entry_ok st2 q"
    and "committed e \<or> 0 < inFlight e \<Longrightarrow> entry_ok st2 (res_entry r)"
    and "0 \<le> inFlight e" "open_reservations (res_entry r) st2 = inFlight e"
    and "holders a st2 = holders a st"
proof -
  note inv = auth_invD [OF assms(1)]
  obtain e0 where e0: "mget (entries st) (res_entry r) = Some e0" "inFlight e0 = open_reservations (res_entry r) st"
    "resolution e0 \<noteq> None \<longleftrightarrow> 0 < inFlight e0"
    using inv(6) [OF assms(4)] by (auto simp: entry_ok_def)
  have pos: "0 < inFlight e0" using open_pos [OF assms(2,3)] e0(2) by simp
  note se = settle_entry_facts [OF _ pos, of c e gone]
  have op: "open_reservations q st2 = open_reservations q st - (if q = res_entry r then 1 else 0)" for q
    using open_mput [of q rid "r\<lparr>res_done := True\<rparr>" st] assms(2,3)
    by (auto simp: st2_def settle_registered_def open_reservations_def)
  show "registered st2 = registered st" by (rule registered_cong) (simp add: st2_def settle_registered_def)
  show "rt_authorities st2 = rt_authorities st" by (simp add: st2_def settle_registered_def)
  show "holders a st2 = holders a st" by (rule holders_cong) (simp add: st2_def settle_registered_def)
  show "\<And>q. q \<noteq> res_entry r \<Longrightarrow> entry_ok st q \<Longrightarrow> entry_ok st2 q"
    by (auto simp: entry_ok_def op) (auto simp: st2_def settle_registered_def)
  show "0 \<le> inFlight e" using se(1) assms(5) e0 pos by simp
  show "open_reservations (res_entry r) st2 = inFlight e" using se(1) assms(5) e0 pos by (simp add: op)
  then show "committed e \<or> 0 < inFlight e \<Longrightarrow> entry_ok st2 (res_entry r)"
    using se assms(5) e0 pos by (simp add: entry_ok_def) (simp add: st2_def settle_registered_def)
qed

lemma finishLocked_inv:
  assumes "auth_inv st"
  shows "auth_inv (finishLocked rid c st)"
proof (cases "mget (reservations st) rid")
  case None
  with assms show ?thesis by (simp add: finishLocked_def)
next
  case (Some r)
  note inv = auth_invD [OF assms]
  show ?thesis
  proof (cases "res_done r")
    case True
    with Some assms show ?thesis by (simp add: finishLocked_def)
  next
    case open_r: False
    show ?thesis
    proof (cases "registered st (res_site r) (res_authority r) (res_entry r)")
      case False
      have "\<not> registered st sid a (res_entry r)" for sid a
        using inv(9) [OF Some, of sid a] False by auto
      from auth_inv_mark_stale [OF assms Some this] False Some open_r show ?thesis
        by (auto simp: finishLocked_def registered_def Let_def split: option.splits)
    next
      case True
      then obtain s where site: "mget (auth_sites st) (res_site r) = Some s"
        "mget (site_authorities s) (res_authority r) = Some (res_entry r)"
        by (auto simp: registered_def)
      obtain e gone where se: "settle_entry c (the (mget (entries st) (res_entry r))) = (e, gone)"
        by (cases "settle_entry c (the (mget (entries st) (res_entry r)))")
      let ?st2 = "settle_registered rid r e gone st"
      note f = settle_registered_facts [OF assms Some open_r True se]
      have next2: "next_ptr ?st2 = next_ptr st" "auth_sites ?st2 = auth_sites st"
        by (simp_all add: settle_registered_def)
      have res2: "rid' < next_ptr st \<and> res_entry r' < next_ptr st \<and>
          (\<forall>sid a. registered st sid a (res_entry r') \<longrightarrow> res_site r' = sid \<and> res_authority r' = a)"
        if "mget (reservations ?st2) rid' = Some r'" for rid' r'
        using that inv(8) [OF Some] inv(8) [of rid' r'] inv(9) [OF Some] inv(9) [of rid' r']
        by (auto simp: settle_registered_def split: if_splits)
      show ?thesis
      proof (cases "committed e \<or> 0 < inFlight e")
        case keep: True
        have "finishLocked rid c st = ?st2"
          using keep Some open_r site se by (auto simp: finishLocked_def settle_registered_def Let_def)
        moreover have "auth_inv ?st2"
        proof (rule auth_invI, unfold f(1) next2)
          show "counts_ok ?st2" by (rule counts_ok_cong [OF inv(4) f(2) next2(2)])
          show "p < next_ptr st \<and> entry_ok ?st2 p" if "registered st sid a p" for sid a p
            using inv(6) [OF that] f(3) [of p] f(4) [OF keep] by (cases "p = res_entry r") auto
          show "sid' = sid \<and> a' = a" if "registered st sid a p" "registered st sid' a' p" for sid a p sid' a'
            by (rule inv(7) [OF that])
          show "mwf (site_authorities s') \<and> (site_closed s' \<longrightarrow> site_authorities s' = [])"
            if "mget (auth_sites st) sid' = Some s'" for sid' s'
            by (rule inv(5) [OF that])
          show "rid' < next_ptr st \<and> res_entry r' < next_ptr st" if "mget (reservations ?st2) rid' = Some r'" for rid' r'
            using res2 [OF that] by simp
          show "res_site r' = sid \<and> res_authority r' = a"
            if "mget (reservations ?st2) rid' = Some r'" "registered st sid a (res_entry r')" for rid' r' sid a
            using res2 [OF that(1)] that(2) by simp
        qed (use inv(1-3) in \<open>simp_all add: settle_registered_def\<close>)
        ultimately show ?thesis by simp
      next
        case drop: False
        let ?s' = "s\<lparr>site_authorities := mdel (res_authority r) (site_authorities s)\<rparr>"
        let ?st3 = "?st2\<lparr>auth_sites := mput (res_site r) ?s' (auth_sites ?st2),
            rt_authorities := drop_global (res_authority r) (rt_authorities ?st2)\<rparr>"
        have fin: "finishLocked rid c st = ?st3"
          using drop Some open_r site se by (auto simp: finishLocked_def settle_registered_def Let_def)
        have reg: "registered ?st3 sid a p \<longleftrightarrow> registered st sid a p \<and> p \<noteq> res_entry r" for sid a p
        proof -
          have "registered ?st3 sid a p \<longleftrightarrow>
              (if sid = res_site r then mget (site_authorities ?s') a = Some p else registered st sid a p)"
            using registered_mput [of "res_site r" ?s' ?st2 sid a p] f(1) by (simp add: registered_def)
          also have "\<dots> \<longleftrightarrow> registered st sid a p \<and> p \<noteq> res_entry r"
            using site inv(7) [OF True] by (auto simp: registered_def)
          finally show ?thesis .
        qed
        have h: "holders a ?st3 = holders a st - (if a = res_authority r then 1 else 0)" for a
          using holders_mput [of a "res_site r" ?s' ?st2] f(7) [of a] site
          by (simp add: holders_def next2)
        have ent: "entry_ok ?st3 q = entry_ok ?st2 q" for q by (simp add: entry_ok_def open_reservations_def)
        have "auth_inv ?st3"
        proof (rule auth_invI, unfold reg ent)
          show "counts_ok ?st3"
            by (rule drop_global_counts [OF inv(4), of "rt_authorities st" "res_authority r"])
              (use inv(4) h f(2) holders_pos [OF True] in \<open>auto simp: counts_ok_def\<close>)
          show "mwf (site_authorities s') \<and> (site_closed s' \<longrightarrow> site_authorities s' = [])"
            if "mget (auth_sites ?st3) sid' = Some s'" for sid' s'
            using that inv(5) [of sid' s'] inv(5) [OF site(1)] by (auto simp: next2 split: if_splits)
          show "p < next_ptr ?st3 \<and> entry_ok ?st2 p" if "registered st sid a p \<and> p \<noteq> res_entry r" for sid a p
            using that inv(6) [of sid a p] f(3) [of p] by (auto simp: next2)
          show "sid' = sid \<and> a' = a" if "registered st sid a p \<and> p \<noteq> res_entry r"
            "registered st sid' a' p \<and> p \<noteq> res_entry r" for sid a p sid' a'
            using that inv(7) by blast
          show "rid' < next_ptr ?st3 \<and> res_entry r' < next_ptr ?st3" if "mget (reservations ?st3) rid' = Some r'" for rid' r'
            using that res2 [of rid' r'] by (simp add: next2)
          show "res_site r' = sid \<and> res_authority r' = a"
            if "mget (reservations ?st3) rid' = Some r'" "registered st sid a (res_entry r') \<and> res_entry r' \<noteq> res_entry r" for rid' r' sid a
          proof -
            have "mget (reservations ?st2) rid' = Some r'" using that(1) by simp
            from res2 [OF this] that(2) show ?thesis by blast
          qed
        qed (use inv(1-3) in \<open>simp_all add: settle_registered_def\<close>)
        with fin show ?thesis by simp
      qed
    qed
  qed
qed

lemma foldl_drop_global:
  "mwf sa \<Longrightarrow> mget (foldl (\<lambda>m (a, p). drop_global a m) m sa) b =
    (if mget sa b = None then mget m b
     else if mget_or 0 m b \<le> 1 then None else Some (mget_or 0 m b - 1))"
proof (induction sa arbitrary: m)
  case (Cons x sa)
  obtain a p where x: "x = (a, p)" by (cases x)
  have "mget_or 0 (drop_global a m) b = mget_or 0 m b" if "b \<noteq> a"
    using that by (simp add: mget_or_def mget_drop_global)
  with Cons x show ?case by (auto simp: mget_drop_global)
qed simp

lemma mwf_foldl_drop: "mwf m \<Longrightarrow> mwf (foldl (\<lambda>m (a, p). drop_global a m) m sa)"
  by (induction sa arbitrary: m) auto

lemma close_authorities_inv:
  assumes "auth_inv st"
  shows "auth_inv (close_authorities sid st)"
proof (cases "mget (auth_sites st) sid")
  case (Some s)
  note inv = auth_invD [OF assms]
  show ?thesis
  proof (cases "site_closed s")
    case False
    let ?s' = "s\<lparr>site_authorities := [], site_closed := True\<rparr>"
    let ?rt = "foldl (\<lambda>m (a, p). drop_global a m) (rt_authorities st) (site_authorities s)"
    let ?st = "st\<lparr>rt_authorities := ?rt, auth_sites := mput sid ?s' (auth_sites st)\<rparr>"
    have cl: "close_authorities sid st = ?st" using Some False by (simp add: close_authorities_def)
    have reg: "registered ?st sid' a p \<longleftrightarrow> registered st sid' a p \<and> sid' \<noteq> sid" for sid' a p
      using registered_mput [of sid ?s' st sid' a p] by (auto simp: registered_def)
    have h: "holders a ?st = holders a st - (if mget (site_authorities s) a = None then 0 else 1)" for a
      using holders_mput [of a sid ?s' st] Some by (simp add: holders_def)
    have pos: "0 < holders a st" if "mget (site_authorities s) a \<noteq> None" for a
      using that Some holders_pos [of st sid a] by (auto simp: registered_def)
    have e: "entry_ok ?st q = entry_ok st q" for q by (simp add: entry_ok_def open_reservations_def)
    have wf: "mwf (site_authorities s)" using inv(5) [OF Some] by simp
    have "auth_inv ?st"
    proof (rule auth_invI, unfold reg e)
      have "mget ?rt a = (if holders a ?st = 0 then None else Some (holders a ?st))" for a
        using inv(4) pos [of a] counts_get_or [OF inv(4), of a]
        unfolding foldl_drop_global [OF wf] h by (auto simp: counts_ok_def)
      then show "counts_ok ?st" using inv(4) by (simp add: counts_ok_def mwf_foldl_drop)
      show "mwf (site_authorities s') \<and> (site_closed s' \<longrightarrow> site_authorities s' = [])"
        if "mget (auth_sites ?st) sid' = Some s'" for sid' s'
        using that inv(5) [of sid' s'] by (auto split: if_splits)
      show "p < next_ptr ?st \<and> entry_ok st p" if "registered st sid' a p \<and> sid' \<noteq> sid" for sid' a p
        using that inv(6) [of sid' a p] by simp
      show "sid'' = sid' \<and> a' = a" if "registered st sid' a p \<and> sid' \<noteq> sid" "registered st sid'' a' p \<and> sid'' \<noteq> sid"
        for sid' a p sid'' a' using that inv(7) by blast
      show "rid < next_ptr ?st \<and> res_entry r < next_ptr ?st" if "mget (reservations ?st) rid = Some r" for rid r
        using that inv(8) [of rid r] by simp
      show "res_site r = sid' \<and> res_authority r = a"
        if "mget (reservations ?st) rid = Some r" "registered st sid' a (res_entry r) \<and> sid' \<noteq> sid" for rid r sid' a
        using that inv(9) [of rid r sid' a] by auto
    qed (use inv(1-3) in simp_all)
    with cl show ?thesis by simp
  qed (use Some assms in \<open>simp add: close_authorities_def\<close>)
qed (use assms in \<open>simp add: close_authorities_def\<close>)

section \<open>Runs\<close>

text \<open>A run with the history of the admissions: the site and the time of each new authority.\<close>

record auth_run =
  registry :: auth_state
  admissions :: "(nat \<times> time) list"
  latest :: time

definition admits :: "nat \<Rightarrow> string \<Rightarrow> auth_state \<Rightarrow> reserve_result \<Rightarrow> bool" where
  "admits sid a st res \<longleftrightarrow> (case res of Reserved rid \<Rightarrow> True | _ \<Rightarrow> False) \<and>
     (case mget (auth_sites st) sid of None \<Rightarrow> False | Some s \<Rightarrow> mget (site_authorities s) a = None)"

inductive auth_step :: "auth_run \<Rightarrow> auth_run \<Rightarrow> bool" where
  NewSite: "mget (auth_sites (registry x)) sid = None \<Longrightarrow>
    auth_step x (x\<lparr>registry := newDynamicSiteState sid maxA maxN (registry x)\<rparr>)"
| Reserve: "latest x \<le> now \<Longrightarrow> reserveAuthority sid a now (registry x) = (st, res) \<Longrightarrow>
    auth_step x (x\<lparr>registry := st, latest := now,
      admissions := admissions x @ (if admits sid a (registry x) res then [(sid, now)] else [])\<rparr>)"
| Finish: "auth_step x (x\<lparr>registry := finishLocked rid c (registry x)\<rparr>)"
| Close: "auth_step x (x\<lparr>registry := close_authorities sid (registry x)\<rparr>)"

definition start_auth_run :: auth_run where
  "start_auth_run = \<lparr>registry = newDynamicRuntime, admissions = [], latest = 0\<rparr>"

inductive auth_reachable :: "auth_run \<Rightarrow> bool" where
  Start: "auth_reachable start_auth_run"
| Next: "auth_reachable x \<Longrightarrow> auth_step x y \<Longrightarrow> auth_reachable y"

lemma auth_reachable_inv: "auth_reachable x \<Longrightarrow> auth_inv (registry x)"
proof (induction rule: auth_reachable.induct)
  case Start
  then show ?case by (simp add: start_auth_run_def auth_inv_new)
next
  case (Next x y)
  from Next.hyps(2) Next.IH show ?case
    by (cases rule: auth_step.cases)
      (auto intro: auth_inv_newSite reserveAuthority_inv finishLocked_inv close_authorities_inv)
qed

text \<open>The part of the log that concerns a site, and the admissions of a window.\<close>

definition site_log :: "nat \<Rightarrow> auth_run \<Rightarrow> time list" where
  "site_log sid x = map snd (filter (\<lambda>(s, t). s = sid) (admissions x))"

definition in_window :: "time \<Rightarrow> time list \<Rightarrow> nat" where
  "in_window t ts = length (filter (\<lambda>v. t - minute < v \<and> v \<le> t) ts)"

text \<open>The window list of a site is the tail of its log; what was pruned is too old to count.\<close>

definition window_ok :: "nat \<Rightarrow> time \<Rightarrow> time list \<Rightarrow> time list \<Rightarrow> bool" where
  "window_ok n until log w \<longleftrightarrow>
     (\<exists>old. log = old @ w \<and> (\<forall>v\<in>set old. v \<le> until - minute)) \<and> sorted log \<and> (\<forall>v\<in>set log. v \<le> until) \<and>
     (\<forall>t. in_window t log \<le> n)"

lemma window_ok_sorted: "window_ok n until log w \<Longrightarrow> sorted w"
  by (auto simp: window_ok_def sorted_append)

lemma window_ok_later:
  assumes "window_ok n until log w" "until \<le> now"
  shows "window_ok n now log w"
proof -
  from assms(1) obtain old where old: "log = old @ w" "\<forall>v\<in>set old. v \<le> until - minute" "sorted log"
    "\<forall>v\<in>set log. v \<le> until" "\<forall>t. in_window t log \<le> n"
    unfolding window_ok_def by blast
  have "\<forall>v\<in>set old. v \<le> now - minute" "\<forall>v\<in>set log. v \<le> now" using old(2,4) assms(2) by fastforce+
  with old show ?thesis unfolding window_ok_def by blast
qed

lemma window_ok_prune:
  assumes "window_ok n until log w" "until \<le> now"
  shows "window_ok n now log (pruneDynamicRateWindow w now)"
proof -
  from assms(1) obtain old where old: "log = old @ w" "\<forall>v\<in>set old. v \<le> until - minute" "sorted log"
    by (auto simp: window_ok_def)
  have sw: "sorted w" using old by (simp add: sorted_append)
  have "w = takeWhile (\<lambda>v. \<not> now - minute < v) w @ pruneDynamicRateWindow w now"
    by (induction w) auto
  then have "log = (old @ takeWhile (\<lambda>v. \<not> now - minute < v) w) @ pruneDynamicRateWindow w now"
    using old(1) by simp
  moreover have "\<forall>v\<in>set (old @ takeWhile (\<lambda>v. \<not> now - minute < v) w). v \<le> now - minute"
    using old(2) assms(2) by (auto dest!: set_takeWhileD)
  ultimately show ?thesis
    using assms by (auto simp: window_ok_def intro: order_trans)
qed

lemma window_ok_admit:
  assumes "window_ok n now log w" "length w < n" "\<forall>v\<in>set w. now - minute < v"
  shows "window_ok n now (log @ [now]) (w @ [now])"
proof -
  from assms(1) obtain old where old: "log = old @ w" "\<forall>v\<in>set old. v \<le> now - minute" "sorted log"
    "\<forall>v\<in>set log. v \<le> now" "\<And>t. in_window t log \<le> n"
    by (auto simp: window_ok_def)
  have "in_window t (log @ [now]) \<le> n" for t
  proof (cases "t - minute < now \<and> now \<le> t")
    case True
    have "filter (\<lambda>v. t - minute < v \<and> v \<le> t) old = []"
      using old(2) True by (auto simp: filter_empty_conv)
    then have "in_window t log \<le> length w"
      using old(1) by (simp add: in_window_def)
    with assms(2) show ?thesis by (simp add: in_window_def)
  next
    case False
    then show ?thesis using old(5) [of t] by (auto simp: in_window_def)
  qed
  with old show ?thesis by (auto simp: window_ok_def sorted_append)
qed

definition window_of :: "auth_state \<Rightarrow> nat \<Rightarrow> (nat \<times> time list) option" where
  "window_of st sid = map_option (\<lambda>s. (maxNewPerMinute s, site_new s)) (mget (auth_sites st) sid)"

definition rates_ok :: "auth_run \<Rightarrow> bool" where
  "rates_ok x \<longleftrightarrow> (\<forall>sid.
     (case window_of (registry x) sid of
        None \<Rightarrow> site_log sid x = []
      | Some (n, w) \<Rightarrow> window_ok n (latest x) (site_log sid x) w))"

lemma window_of_finish [simp]: "window_of (finishLocked rid c st) = window_of st"
  by (auto simp: finishLocked_def window_of_def fun_eq_iff Let_def split: option.splits prod.splits)

lemma window_of_close [simp]: "window_of (close_authorities sid st) = window_of st"
  by (auto simp: close_authorities_def window_of_def fun_eq_iff split: option.splits)

lemma window_of_newSite: "window_of (newDynamicSiteState sid maxA maxN st) =
    (window_of st)(sid \<mapsto> (maxN, []))"
  by (auto simp: newDynamicSiteState_def window_of_def fun_eq_iff)

lemma window_of_reserve:
  assumes "reserveAuthority sid a now st = (st', res)"
  shows "\<not> admits sid a st res \<and> (window_of st' = window_of st \<or>
      (\<exists>n w. window_of st sid = Some (n, w) \<and> window_of st' = (window_of st)(sid \<mapsto> (n, pruneDynamicRateWindow w now)))) \<or>
    admits sid a st res \<and> (\<exists>n w. window_of st sid = Some (n, w) \<and>
      length (pruneDynamicRateWindow w now) < n \<and>
      window_of st' = (window_of st)(sid \<mapsto> (n, pruneDynamicRateWindow w now @ [now])))"
proof (cases "mget (auth_sites st) sid")
  case None
  with assms show ?thesis by (auto simp: reserveAuthority_def admits_def)
next
  case (Some s)
  show ?thesis
  proof (cases "a = [] \<or> mget (site_authorities s) a \<noteq> None")
    case True
    have "window_of st' = window_of st \<and> \<not> admits sid a st res"
      using True Some assms
      by (auto simp: reserveAuthority_def reserve_existing_def Let_def admits_def window_of_def fun_eq_iff
          split: option.splits prod.splits if_splits reserve_result.splits)
    then show ?thesis by blast
  next
    case False
    with Some assms have r: "reserve_new sid s a now st = (st', res)" by (auto simp: reserveAuthority_def)
    show ?thesis
    proof (cases "\<exists>rid. res = Reserved rid")
      case True
      with r False Some show ?thesis
        by (auto simp: reserve_new_def Let_def admits_def window_of_def fun_eq_iff split: if_splits)
    next
      case denied: False
      with r False Some show ?thesis
        by (auto simp: reserve_new_def Let_def admits_def window_of_def fun_eq_iff split: if_splits)
    qed
  qed
qed

lemma site_log_append: "site_log sid (x\<lparr>registry := st, latest := now, admissions := admissions x @ ys\<rparr>) =
    site_log sid x @ map snd (filter (\<lambda>(s, t). s = sid) ys)"
  by (simp add: site_log_def)

lemma site_log_registry [simp]: "site_log sid (x\<lparr>registry := st\<rparr>) = site_log sid x"
  by (simp add: site_log_def)

lemma auth_step_rates:
  assumes "auth_step x y" "rates_ok x"
  shows "rates_ok y"
  using assms
proof (cases rule: auth_step.cases)
  case (NewSite sid maxA maxN)
  have "window_of (registry x) sid = None" using NewSite by (simp add: window_of_def)
  then have "site_log sid x = []" using assms(2) by (auto simp: rates_ok_def split: option.splits dest: spec [of _ sid])
  then have "window_ok maxN (latest x) (site_log sid x) []" by (simp add: window_ok_def in_window_def)
  with assms(2) show ?thesis
    unfolding NewSite(1) rates_ok_def by (simp add: window_of_newSite cong: option.case_cong)
next
  case (Reserve now sid a st res)
  have y: "latest y = now" "registry y = st" using Reserve(1) by simp_all
  have old: "case window_of (registry x) q of None \<Rightarrow> site_log q x = []
      | Some (n, w) \<Rightarrow> window_ok n now (site_log q x) w \<and> window_ok n now (site_log q x) (pruneDynamicRateWindow w now)" for q
    using assms(2) window_ok_later [OF _ Reserve(2)] window_ok_prune [OF _ Reserve(2)]
    by (auto simp: rates_ok_def split: option.splits dest!: spec [of _ q])
  have lg: "site_log q y = site_log q x @ (if admits sid a (registry x) res \<and> q = sid then [now] else [])" for q
    using Reserve(1) by (simp add: site_log_append)
  have "case window_of st q of None \<Rightarrow> site_log q y = [] | Some (n, w) \<Rightarrow> window_ok n now (site_log q y) w" for q
  proof (cases "q = sid \<and> admits sid a (registry x) res")
    case True
    with window_of_reserve [OF Reserve(3)] obtain n w where w: "window_of (registry x) sid = Some (n, w)"
      "length (pruneDynamicRateWindow w now) < n"
      "window_of st = (window_of (registry x))(sid \<mapsto> (n, pruneDynamicRateWindow w now @ [now]))" by blast
    have ok: "window_ok n now (site_log sid x) w" "window_ok n now (site_log sid x) (pruneDynamicRateWindow w now)"
      using old [of sid] w(1) by auto
    have "sorted w" by (rule window_ok_sorted [OF ok(1)])
    then have "\<forall>v\<in>set (pruneDynamicRateWindow w now). now - minute < v" by (simp add: prune_window_sorted)
    note admit = window_ok_admit [OF ok(2) w(2) this]
    have "site_log q y = site_log sid x @ [now]" "window_of st q = Some (n, pruneDynamicRateWindow w now @ [now])"
      using True w(3) lg [of q] by simp_all
    then show ?thesis by (simp only: option.case prod.case admit)
  next
    case False
    then have lq: "site_log q y = site_log q x" using lg [of q] by auto
    show ?thesis
      unfolding lq using False old [of q] old [of sid] window_of_reserve [OF Reserve(3)]
      by (cases "q = sid") (auto split: option.splits)
  qed
  then show ?thesis unfolding rates_ok_def y by blast
next
  case (Finish rid c)
  with assms(2) show ?thesis by (simp add: rates_ok_def cong: option.case_cong)
next
  case (Close sid)
  with assms(2) show ?thesis by (simp add: rates_ok_def cong: option.case_cong)
qed

lemma auth_reachable_rates: "auth_reachable x \<Longrightarrow> rates_ok x"
proof (induction rule: auth_reachable.induct)
  case Start
  then show ?case by (simp add: rates_ok_def start_auth_run_def newDynamicRuntime_def window_of_def site_log_def)
qed (rule auth_step_rates)

section \<open>Capacity\<close>

definition capacity_ok :: "auth_state \<Rightarrow> bool" where
  "capacity_ok st \<longleftrightarrow> length (rt_authorities st) \<le> globalDynamicMaxAuthorities \<and>
     (\<forall>sid s. mget (auth_sites st) sid = Some s \<longrightarrow> length (site_authorities s) \<le> maxAuthorities s)"

lemma length_drop_global: "length (drop_global a m) \<le> length m"
proof (cases "mget m a")
  case None
  then show ?thesis by (simp add: drop_global_def mget_or_def)
next
  case (Some n)
  then show ?thesis by (simp add: drop_global_def length_mput)
qed

lemma length_foldl_drop: "length (foldl (\<lambda>m (a, p). drop_global a m) m sa) \<le> length m"
proof (induction sa arbitrary: m)
  case (Cons x sa)
  show ?case
    using Cons.IH [of "drop_global (fst x) m"] length_drop_global [of "fst x" m] by (auto split: prod.splits)
qed simp

lemma capacity_reserve_new:
  assumes "capacity_ok st" "mget (auth_sites st) sid = Some s" "mget (site_authorities s) a = None"
    and "reserve_new sid s a now st = (st', res)"
  shows "capacity_ok st'"
proof -
  have s: "length (site_authorities s) \<le> maxAuthorities s" using assms(1,2) by (auto simp: capacity_ok_def)
  have "length (rt_authorities st') \<le> globalDynamicMaxAuthorities"
    using assms(1,4)
    by (auto simp: reserve_new_def Let_def capacity_ok_def length_mput mget_or_def split: if_splits option.splits)
  moreover have "length (site_authorities s') \<le> maxAuthorities s'" if "mget (auth_sites st') sid' = Some s'" for sid' s'
  proof (cases "sid' = sid")
    case True
    with that assms(3,4) s show ?thesis
      by (auto simp: reserve_new_def Let_def length_mput split: if_splits)
  next
    case False
    with that assms(4) have "mget (auth_sites st) sid' = Some s'"
      by (auto simp: reserve_new_def Let_def split: if_splits)
    with assms(1) show ?thesis by (auto simp: capacity_ok_def)
  qed
  ultimately show ?thesis by (simp add: capacity_ok_def)
qed

lemma capacity_reserve: "capacity_ok st \<Longrightarrow> reserveAuthority sid a now st = (st', res) \<Longrightarrow> capacity_ok st'"
  using capacity_reserve_new [of st sid _ a now st' res]
  by (auto simp: reserveAuthority_def split: option.splits if_splits)
    (auto simp: reserve_existing_def capacity_ok_def Let_def split: option.splits)

lemma capacity_finish: "capacity_ok st \<Longrightarrow> capacity_ok (finishLocked rid c st)"
  using length_drop_global order_trans
  by (fastforce simp: finishLocked_def capacity_ok_def Let_def
      split: option.splits prod.splits if_splits intro: le_trans [OF length_mdel_le])

lemma capacity_close: "capacity_ok st \<Longrightarrow> capacity_ok (close_authorities sid st)"
  by (auto simp: close_authorities_def capacity_ok_def split: option.splits
      intro: le_trans [OF length_foldl_drop])

lemma auth_reachable_capacity: "auth_reachable x \<Longrightarrow> capacity_ok (registry x)"
proof (induction rule: auth_reachable.induct)
  case Start
  then show ?case by (simp add: capacity_ok_def start_auth_run_def newDynamicRuntime_def)
next
  case (Next x y)
  from Next.hyps(2) Next.IH show ?case
    by (cases rule: auth_step.cases)
      (auto intro: capacity_reserve capacity_finish capacity_close, auto simp: newDynamicSiteState_def capacity_ok_def)
qed

lemma finish_idem: "finishLocked rid c' (finishLocked rid c st) = finishLocked rid c st"
proof -
  have "(\<exists>r. mget (reservations (finishLocked rid c st)) rid = Some r \<and> res_done r) \<or> finishLocked rid c st = st \<and> mget (reservations st) rid = None"
    by (auto simp: finishLocked_def Let_def split: option.splits prod.splits)
  then show ?thesis by (auto simp: finishLocked_def [of rid c' "finishLocked rid c st"] split: option.splits)
qed

section \<open>What the holders of reservations rely on\<close>

text \<open>A lease or a cached capability settles reservations in any number and order.\<close>

locale settlement =
  fixes finish :: "'r \<Rightarrow> bool \<Rightarrow> 's \<Rightarrow> 's"
    and sound :: "'s \<Rightarrow> bool"
  assumes finish_sound: "sound st \<Longrightarrow> sound (finish rid c st)"
    and finish_twice: "finish rid c' (finish rid c st) = finish rid c st"
begin

lemma finish_all_sound: "sound st \<Longrightarrow> sound (foldl (\<lambda>st rid. finish rid c st) st rids)"
  by (induction rids arbitrary: st) (auto intro: finish_sound)

lemma finish_opt_sound: "sound st \<Longrightarrow> sound (case r of None \<Rightarrow> st | Some rid \<Rightarrow> finish rid c st)"
  by (auto intro: finish_sound split: option.split)

end

interpretation registry: settlement finishLocked auth_inv
  by unfold_locales (simp_all add: finishLocked_inv finish_idem)

lemma lease_finish_inv: "auth_inv st \<Longrightarrow> auth_inv (snd (lease_finish c l st))"
  by (simp add: lease_finish_def registry.finish_all_sound)

lemma lease_finish_once: "lease_finish c' (fst (lease_finish c l st)) st' = (fst (lease_finish c l st), st')"
  by (simp add: lease_finish_def)

section \<open>Properties\<close>

text \<open>C32. However reservations, commits, rollbacks and closing sites interleave, the global count of
  an authority is the number of sites that hold it, an authority stays registered exactly as long as it
  is committed or a reservation of it is open, its in-flight count is the number of open reservations,
  its lookup is kept exactly while one is open, and neither the per-site nor the global capacity is
  exceeded.\<close>

theorem authority_registry_consistent:
  assumes "auth_reachable x"
  shows "mget (rt_authorities (registry x)) a =
      (if holders a (registry x) = 0 then None else Some (holders a (registry x))) \<and>
    (registered (registry x) sid a p \<longrightarrow>
      (\<exists>e. mget (entries (registry x)) p = Some e \<and> inFlight e = open_reservations p (registry x) \<and>
        (committed e \<or> 0 < inFlight e) \<and> (resolution e \<noteq> None \<longleftrightarrow> 0 < inFlight e))) \<and>
    length (rt_authorities (registry x)) \<le> globalDynamicMaxAuthorities \<and>
    (mget (auth_sites (registry x)) sid = Some s \<longrightarrow> length (site_authorities s) \<le> maxAuthorities s)"
  using auth_reachable_inv [OF assms] auth_reachable_capacity [OF assms]
  by (auto simp: auth_inv_def counts_ok_def entry_ok_def capacity_ok_def)

text \<open>Settling the open reservation of a registered authority keeps the authority exactly when
  the reservation is committed, the authority was committed before, or another reservation of it is
  open; settling a reservation a second time changes nothing.\<close>

theorem reservation_settles_once:
  assumes "auth_reachable x" "mget (reservations (registry x)) rid = Some r" "\<not> res_done r"
    and "registered (registry x) (res_site r) (res_authority r) (res_entry r)"
    and "mget (entries (registry x)) (res_entry r) = Some e"
  shows "(registered (finishLocked rid c (registry x)) (res_site r) (res_authority r) (res_entry r) \<longleftrightarrow>
      c \<or> committed e \<or> 1 < open_reservations (res_entry r) (registry x)) \<and>
    finishLocked rid c' (finishLocked rid c (registry x)) = finishLocked rid c (registry x)"
proof -
  let ?st = "registry x"
  note inv = auth_invD [OF auth_reachable_inv [OF assms(1)]]
  have e: "inFlight e = open_reservations (res_entry r) ?st" "resolution e \<noteq> None \<longleftrightarrow> 0 < inFlight e"
    using inv(6) [OF assms(4)] assms(5) by (auto simp: entry_ok_def)
  have pos: "0 < inFlight e" using open_pos [OF assms(2,3)] e(1) by simp
  obtain e' gone where se: "settle_entry c e = (e', gone)" by (cases "settle_entry c e")
  note sf = settle_entry_facts [OF se pos]
  obtain s where site: "mget (auth_sites ?st) (res_site r) = Some s"
    "mget (site_authorities s) (res_authority r) = Some (res_entry r)"
    using assms(4) by (auto simp: registered_def)
  have "registered (finishLocked rid c ?st) (res_site r) (res_authority r) (res_entry r) \<longleftrightarrow> committed e' \<or> 0 < inFlight e'"
    using assms(2,3,5) site se by (auto simp: finishLocked_def registered_def Let_def)
  with sf e pos finish_idem show ?thesis by auto
qed

text \<open>The rate limit holds: in no minute, wherever it ends, does a site discover more new
  authorities than its limit, across commits, rollbacks and denials.\<close>

theorem new_authorities_rate_limited:
  assumes "auth_reachable x" "mget (auth_sites (registry x)) sid = Some s"
  shows "in_window t (site_log sid x) \<le> maxNewPerMinute s"
proof -
  have "window_ok (maxNewPerMinute s) (latest x) (site_log sid x) (site_new s)"
    using auth_reachable_rates [OF assms(1)] assms(2)
    by (auto simp: rates_ok_def window_of_def split: option.splits dest!: spec [of _ sid])
  then show ?thesis by (simp add: window_ok_def)
qed

section \<open>A run to evaluate on\<close>

text \<open>One site that may discover one authority per minute reserves the authority \<open>a\<close>.\<close>

definition demo_site :: auth_run where
  "demo_site = start_auth_run\<lparr>registry := newDynamicSiteState 0 2 1 (registry start_auth_run)\<rparr>"

definition demo_auth :: auth_run where
  "demo_auth =
     (let (st, res) = reserveAuthority 0 ''a'' 100 (registry demo_site)
      in demo_site\<lparr>registry := st, latest := 100,
           admissions := admissions demo_site @ (if admits 0 ''a'' (registry demo_site) res then [(0, 100)] else [])\<rparr>)"

lemma demo_auth_reachable: "auth_reachable demo_auth"
proof -
  have site: "auth_reachable demo_site"
    unfolding demo_site_def
    by (rule auth_reachable.Next [OF auth_reachable.Start]) (rule NewSite, simp add: start_auth_run_def newDynamicRuntime_def)
  obtain st res where r: "reserveAuthority 0 ''a'' 100 (registry demo_site) = (st, res)"
    by (cases "reserveAuthority 0 ''a'' 100 (registry demo_site)")
  have "latest demo_site \<le> 100" by (simp add: demo_site_def start_auth_run_def)
  from auth_reachable.Next [OF site Reserve [OF this r]] show ?thesis
    by (simp add: demo_auth_def r)
qed

lemma demo_auth_values:
  "mget (reservations (registry demo_auth)) 2 =
     Some \<lparr>res_site = 0, res_authority = ''a'', res_entry = 0, res_resolution = 1, res_done = False\<rparr>"
  "mget (entries (registry demo_auth)) 0 = Some \<lparr>inFlight = 1, committed = False, resolution = Some 1\<rparr>"
  "map_option site_authorities (mget (auth_sites (registry demo_auth)) 0) = Some [(''a'', 0)]"
  "map_option maxNewPerMinute (mget (auth_sites (registry demo_auth)) 0) = Some 1"
  "site_log 0 demo_auth = [100]"
  by (simp_all add: demo_auth_def demo_site_def start_auth_run_def newDynamicRuntime_def newDynamicSiteState_def
      reserveAuthority_def reserve_new_def mget_or_def globalDynamicMaxAuthorities_def
      globalDynamicMaxNewAuthoritiesMinute_def admits_def site_log_def)

lemma demo_registered: "registered (registry demo_auth) 0 ''a'' 0"
  using demo_auth_values(3) by (auto simp: registered_def)

theorem authority_registry_consistent_witness:
  "mget (rt_authorities (registry demo_auth)) ''a'' = Some 1 \<and> open_reservations 0 (registry demo_auth) = 1"
proof -
  have "holders ''a'' (registry demo_auth) = 1" by code_simp
  with authority_registry_consistent [OF demo_auth_reachable, of "''a''" 0 0 "undefined"] demo_auth_values(2) demo_registered
  show ?thesis by auto
qed

theorem reservation_settles_once_witness:
  "\<not> registered (rollback 2 (registry demo_auth)) 0 ''a'' 0 \<and> registered (commit 2 (registry demo_auth)) 0 ''a'' 0"
proof -
  have one: "open_reservations 0 (registry demo_auth) = 1" by code_simp
  have reg: "registered (registry demo_auth) (res_site \<lparr>res_site = 0, res_authority = ''a'', res_entry = 0, res_resolution = 1, res_done = False\<rparr>)
     (res_authority \<lparr>res_site = 0, res_authority = ''a'', res_entry = 0, res_resolution = 1, res_done = False\<rparr>)
     (res_entry \<lparr>res_site = 0, res_authority = ''a'', res_entry = 0, res_resolution = 1, res_done = False\<rparr>)"
    using demo_registered by simp
  have entry: "mget (entries (registry demo_auth))
     (res_entry \<lparr>res_site = 0, res_authority = ''a'', res_entry = 0, res_resolution = 1, res_done = False\<rparr>) =
     Some \<lparr>inFlight = 1, committed = False, resolution = Some 1\<rparr>"
    using demo_auth_values(2) by simp
  note th = reservation_settles_once [OF demo_auth_reachable demo_auth_values(1) _ reg entry]
  from th [of False] th [of True] one show ?thesis
    by (simp add: rollback_def commit_def)
qed

theorem new_authorities_rate_limited_witness:
  "in_window 130 (site_log 0 demo_auth) \<le> 1 \<and> site_log 0 demo_auth = [100]"
proof -
  obtain s where s: "mget (auth_sites (registry demo_auth)) 0 = Some s" "maxNewPerMinute s = 1"
    using demo_auth_values(4) by auto
  from new_authorities_rate_limited [OF demo_auth_reachable s(1), of 130] s(2) demo_auth_values(5)
  show ?thesis by simp
qed

end
