(* ===== verification/Dynamic_Capability.thy ===== *)
theory Dynamic_Capability
  imports Dynamic_Authority
begin

text \<open>
  \<open>cmd/meridian/dynamic_runtime_state.go\<close>: the cache of issued capabilities of a site. An
  entry is pending while the document that mentions it is being rewritten, published when the
  document was delivered, and pruned when it expires or idles; it may hold the reservation of its
  authority. The cache charges the memory of every entry to the site and to the process.
  \<open>sha\<close> stands for SHA-256; nothing is assumed of it.
\<close>

definition globalDynamicMaxActiveCapabilities :: int where
  "globalDynamicMaxActiveCapabilities = 131072"

definition globalDynamicMaxCapabilityMemoryBytes :: int where
  "globalDynamicMaxCapabilityMemoryBytes = 256 * 2 ^ 20"

definition globalDynamicMaxSiteCapabilityMemoryBytes :: int where
  "globalDynamicMaxSiteCapabilityMemoryBytes = 64 * 2 ^ 20"

definition dynamicCapabilityPruneInterval :: duration where
  "dynamicCapabilityPruneInterval = 30 * second"

record cap_entry =
  expiresAt :: time
  lastUsed :: time
  token :: string
  cacheKey :: string
  pendingUses :: int
  published :: bool
  cap_reservation :: "nat option"

record site_caps =
  idleExpiry :: duration
  maxActiveCapabilities :: int
  capabilities :: "(string, cap_entry) gomap"
  capabilityByTarget :: "(string, string) gomap"
  siteMemory :: int
  caps_closed :: bool      \<comment> \<open>no longer in \<open>runtime.states\<close>\<close>

record cap_state =
  auth :: auth_state
  cap_sites :: "(nat, site_caps) gomap"
  activeCapabilities :: int
  capabilityMemory :: int
  lastCapabilityPrune :: time

definition dynamicCapabilityEntryMemory :: "string \<Rightarrow> string \<Rightarrow> int" where
  "dynamicCapabilityEntryMemory tok key = int (32 + length tok + length key + 128)"

definition dynamicCapabilityEntryValid :: "cap_entry \<Rightarrow> time \<Rightarrow> duration \<Rightarrow> bool" where
  "dynamicCapabilityEntryValid e now idle \<longleftrightarrow>
     token e \<noteq> [] \<and> now < expiresAt e \<and> idle > 0 \<and> now < lastUsed e + idle"

section \<open>Deleting and pruning\<close>

definition put_site :: "nat \<Rightarrow> site_caps \<Rightarrow> cap_state \<Rightarrow> cap_state" where
  "put_site sid s st = st\<lparr>cap_sites := mput sid s (cap_sites st)\<rparr>"

definition deleteCapabilityLocked :: "nat \<Rightarrow> string \<Rightarrow> cap_entry \<Rightarrow> cap_state \<Rightarrow> cap_state" where
  "deleteCapabilityLocked sid key e st =
     (case mget (cap_sites st) sid of
        None \<Rightarrow> st
      | Some s \<Rightarrow>
          let a = (case cap_reservation e of None \<Rightarrow> auth st | Some rid \<Rightarrow> finishLocked rid False (auth st));
              targets = (if cacheKey e \<noteq> [] \<and> mget_or [] (capabilityByTarget s) (cacheKey e) = token e
                         then mdel (cacheKey e) (capabilityByTarget s) else capabilityByTarget s);
              mem = dynamicCapabilityEntryMemory (token e) (cacheKey e);
              s' = s\<lparr>capabilities := mdel key (capabilities s), capabilityByTarget := targets,
                     siteMemory := max 0 (siteMemory s - mem)\<rparr>
          in (put_site sid s' st)\<lparr>auth := a, capabilityMemory := max 0 (capabilityMemory st - mem),
                activeCapabilities := (if activeCapabilities st > 0 then activeCapabilities st - 1
                                       else activeCapabilities st)\<rparr>)"

definition pruneSiteCapabilitiesLocked :: "nat \<Rightarrow> time \<Rightarrow> cap_state \<Rightarrow> cap_state" where
  "pruneSiteCapabilitiesLocked sid now st =
     (case mget (cap_sites st) sid of
        None \<Rightarrow> st
      | Some s \<Rightarrow>
          foldl (\<lambda>st (key, e).
              if pendingUses e = 0 \<and> \<not> dynamicCapabilityEntryValid e now (idleExpiry s)
              then deleteCapabilityLocked sid key e st else st)
            st (capabilities s))"

definition pruneCapabilitiesLocked :: "time \<Rightarrow> cap_state \<Rightarrow> cap_state" where
  "pruneCapabilitiesLocked now st =
     (if lastCapabilityPrune st \<noteq> 0 \<and> time_sub now (lastCapabilityPrune st) < dynamicCapabilityPruneInterval then st
      else foldl (\<lambda>st (sid, s). if caps_closed s then st else pruneSiteCapabilitiesLocked sid now st)
             (st\<lparr>lastCapabilityPrune := now\<rparr>) (cap_sites st))"

section \<open>Operations\<close>

definition reuseCapability :: "(string \<Rightarrow> string) \<Rightarrow> nat \<Rightarrow> string \<Rightarrow> time \<Rightarrow> cap_state \<Rightarrow> cap_state \<times> string option" where
  "reuseCapability sha sid ck now st0 =
     (if ck = [] \<or> mget (cap_sites st0) sid = None then (st0, None)
      else
        let st = pruneCapabilitiesLocked now st0;
            s = the (mget (cap_sites st) sid);
            tok = mget_or [] (capabilityByTarget s) ck;
            key = sha tok;
            drop_target = put_site sid (s\<lparr>capabilityByTarget := mdel ck (capabilityByTarget s)\<rparr>) st
        in case mget (capabilities s) key of
             None \<Rightarrow> (drop_target, None)
           | Some e \<Rightarrow>
               if token e \<noteq> tok \<or> cacheKey e \<noteq> ck \<or> \<not> dynamicCapabilityEntryValid e now (idleExpiry s) then
                 (if token e = tok \<and> pendingUses e = 0 then deleteCapabilityLocked sid key e drop_target
                  else drop_target, None)
               else (put_site sid (s\<lparr>capabilities := mput key (e\<lparr>pendingUses := pendingUses e + 1\<rparr>) (capabilities s)\<rparr>) st,
                     Some tok))"

text \<open>The tail of \<open>registerCapability\<close>, once no usable entry for the cache key exists.\<close>

definition register_new :: "(string \<Rightarrow> string) \<Rightarrow> nat \<Rightarrow> string \<Rightarrow> string \<Rightarrow> time \<Rightarrow> time \<Rightarrow> nat option \<Rightarrow> cap_state \<Rightarrow>
    cap_state \<times> string option" where
  "register_new sha sid tok ck expires now res st =
     (let s = the (mget (cap_sites st) sid);
          mem = dynamicCapabilityEntryMemory tok ck;
          key = sha tok
      in if int (length (capabilities s)) \<ge> maxActiveCapabilities s \<or>
            activeCapabilities st \<ge> globalDynamicMaxActiveCapabilities \<or>
            siteMemory s + mem > globalDynamicMaxSiteCapabilityMemoryBytes \<or>
            capabilityMemory st + mem > globalDynamicMaxCapabilityMemoryBytes then (st, None)
         else if mget (capabilities s) key \<noteq> None then (st, None)
         else
           let e = \<lparr>expiresAt = expires, lastUsed = now, token = tok, cacheKey = ck, pendingUses = 1,
                    published = False, cap_reservation = res\<rparr>;
               s' = s\<lparr>capabilities := mput key e (capabilities s), capabilityByTarget := mput ck tok (capabilityByTarget s),
                      siteMemory := siteMemory s + mem\<rparr>
           in ((put_site sid s' st)\<lparr>activeCapabilities := activeCapabilities st + 1,
                 capabilityMemory := capabilityMemory st + mem\<rparr>, Some tok))"

text \<open>\<open>None\<close> as the whole result is the panic of writing to the maps that \<open>close\<close> dropped.\<close>

definition registerCapability :: "(string \<Rightarrow> string) \<Rightarrow> nat \<Rightarrow> string \<Rightarrow> string \<Rightarrow> time \<Rightarrow> time \<Rightarrow> nat option \<Rightarrow>
    cap_state \<Rightarrow> (cap_state \<times> string option) option" where
  "registerCapability sha sid tok ck expires now res st0 =
     (if tok = [] \<or> ck = [] \<or> \<not> now < expires \<or> mget (cap_sites st0) sid = None then Some (st0, None)
      else
        let st = pruneCapabilitiesLocked now st0;
            s = the (mget (cap_sites st) sid);
            existing = mget_or [] (capabilityByTarget s) ck
        in case (if existing \<noteq> [] then mget (capabilities s) (sha existing) else None) of
             Some e \<Rightarrow>
               if token e = existing \<and> cacheKey e = ck then
                 Some (put_site sid (s\<lparr>capabilities := mput (sha existing) (e\<lparr>pendingUses := pendingUses e + 1\<rparr>)
                         (capabilities s)\<rparr>) st, Some existing)
               else
                 let r = register_new sha sid tok ck expires now res
                           (put_site sid (s\<lparr>capabilityByTarget := mdel ck (capabilityByTarget s)\<rparr>) st)
                 in if caps_closed s \<and> snd r \<noteq> None then None else Some r
           | None \<Rightarrow>
               let st1 = (if existing \<noteq> []
                          then put_site sid (s\<lparr>capabilityByTarget := mdel ck (capabilityByTarget s)\<rparr>) st else st);
                   r = register_new sha sid tok ck expires now res st1
               in if caps_closed s \<and> snd r \<noteq> None then None else Some r)"

text \<open>The first loop of \<open>settleCapabilities\<close>: the uses per key, and whether all may be settled.\<close>

fun settle_scan :: "(string \<Rightarrow> string) \<Rightarrow> (string, cap_entry) gomap \<Rightarrow> duration \<Rightarrow> bool \<Rightarrow> time \<Rightarrow> string list \<Rightarrow>
    (string, int) gomap \<Rightarrow> bool \<Rightarrow> (string, int) gomap \<times> bool" where
  "settle_scan sha caps idle publish now [] counts valid = (counts, valid)"
| "settle_scan sha caps idle publish now (tok # toks) counts valid =
     (let key = sha tok;
          n = mget_or 0 counts key + 1;
          bad = (case mget caps key of
                   None \<Rightarrow> True
                 | Some e \<Rightarrow> token e \<noteq> tok \<or> pendingUses e < n \<or>
                     publish \<and> \<not> dynamicCapabilityEntryValid e now idle)
      in settle_scan sha caps idle publish now toks (mput key n counts) (valid \<and> \<not> bad))"

definition settle_one :: "nat \<Rightarrow> bool \<Rightarrow> bool \<Rightarrow> string \<Rightarrow> int \<Rightarrow> cap_state \<Rightarrow> cap_state" where
  "settle_one sid publish valid key n st =
     (case mget (cap_sites st) sid of
        None \<Rightarrow> st
      | Some s \<Rightarrow>
          (case mget (capabilities s) key of
             None \<Rightarrow> st
           | Some e0 \<Rightarrow>
               if pendingUses e0 < n then st
               else
                 let e = e0\<lparr>pendingUses := pendingUses e0 - n\<rparr>
                 in if publish \<and> valid then
                      let a = (case cap_reservation e of None \<Rightarrow> auth st | Some rid \<Rightarrow> finishLocked rid True (auth st));
                          e' = e\<lparr>published := True, cap_reservation := None\<rparr>
                      in (put_site sid (s\<lparr>capabilities := mput key e' (capabilities s)\<rparr>) st)\<lparr>auth := a\<rparr>
                    else if pendingUses e = 0 \<and> \<not> published e then deleteCapabilityLocked sid key e st
                    else put_site sid (s\<lparr>capabilities := mput key e (capabilities s)\<rparr>) st))"

definition settleCapabilities :: "(string \<Rightarrow> string) \<Rightarrow> nat \<Rightarrow> string list \<Rightarrow> bool \<Rightarrow> time \<Rightarrow> cap_state \<Rightarrow> cap_state \<times> bool" where
  "settleCapabilities sha sid tokens publish now st =
     (if tokens = [] then (st, True)
      else case mget (cap_sites st) sid of
             None \<Rightarrow> (st, False)
           | Some s \<Rightarrow>
               let (counts, valid) = settle_scan sha (capabilities s) (idleExpiry s) publish now tokens [] True
               in (foldl (\<lambda>st (key, n). settle_one sid publish valid key n st) st counts, valid))"

definition hasCapability :: "(string \<Rightarrow> string) \<Rightarrow> nat \<Rightarrow> string \<Rightarrow> time \<Rightarrow> cap_state \<Rightarrow> cap_state \<times> bool" where
  "hasCapability sha sid tok now st0 =
     (if tok = [] \<or> mget (cap_sites st0) sid = None then (st0, False)
      else
        let st = pruneCapabilitiesLocked now st0;
            s = the (mget (cap_sites st) sid);
            key = sha tok
        in case mget (capabilities s) key of
             None \<Rightarrow> (st, False)
           | Some e \<Rightarrow>
               let valid = (token e = tok \<and> published e \<and> dynamicCapabilityEntryValid e now (idleExpiry s))
               in (if \<not> valid \<and> pendingUses e = 0 then deleteCapabilityLocked sid key e st else st, valid))"

definition useCapability :: "(string \<Rightarrow> string) \<Rightarrow> nat \<Rightarrow> string \<Rightarrow> time \<Rightarrow> cap_state \<Rightarrow> cap_state \<times> bool" where
  "useCapability sha sid tok now st0 =
     (if tok = [] \<or> mget (cap_sites st0) sid = None then (st0, False)
      else
        let st = pruneCapabilitiesLocked now st0;
            s = the (mget (cap_sites st) sid);
            key = sha tok
        in case mget (capabilities s) key of
             None \<Rightarrow> (st, False)
           | Some e \<Rightarrow>
               if token e \<noteq> tok \<or> \<not> published e \<or> \<not> dynamicCapabilityEntryValid e now (idleExpiry s) then
                 (if pendingUses e = 0 then deleteCapabilityLocked sid key e st else st, False)
               else (put_site sid (s\<lparr>capabilities := mput key (e\<lparr>lastUsed := now\<rparr>) (capabilities s)\<rparr>) st, True))"

definition removeCapability :: "(string \<Rightarrow> string) \<Rightarrow> nat \<Rightarrow> string \<Rightarrow> cap_state \<Rightarrow> cap_state" where
  "removeCapability sha sid tok st =
     (if tok = [] then st
      else case mget (cap_sites st) sid of
             None \<Rightarrow> st
           | Some s \<Rightarrow>
               (case mget (capabilities s) (sha tok) of
                  None \<Rightarrow> st
                | Some e \<Rightarrow> deleteCapabilityLocked sid (sha tok) e st))"

definition close_state :: "nat \<Rightarrow> cap_state \<Rightarrow> cap_state" where
  "close_state sid st =
     (case mget (cap_sites st) sid of
        None \<Rightarrow> st
      | Some s \<Rightarrow>
          if caps_closed s then st
          else (put_site sid (s\<lparr>capabilities := [], capabilityByTarget := [], siteMemory := 0, caps_closed := True\<rparr>) st)
                 \<lparr>auth := close_authorities sid (auth st),
                  activeCapabilities := (if length (capabilities s) > 0
                    then max 0 (activeCapabilities st - int (length (capabilities s))) else activeCapabilities st),
                  capabilityMemory := max 0 (capabilityMemory st - siteMemory s)\<rparr>)"

section \<open>The books of the cache\<close>

definition entry_memory :: "cap_entry \<Rightarrow> int" where
  "entry_memory e = dynamicCapabilityEntryMemory (token e) (cacheKey e)"

definition site_ok :: "(string \<Rightarrow> string) \<Rightarrow> site_caps \<Rightarrow> bool" where
  "site_ok sha s \<longleftrightarrow> mwf (capabilities s) \<and> siteMemory s = msum (\<lambda>_. entry_memory) (capabilities s) \<and>
     siteMemory s \<le> globalDynamicMaxSiteCapabilityMemoryBytes \<and>
     int (length (capabilities s)) \<le> maxActiveCapabilities s \<and>
     (\<forall>k e. mget (capabilities s) k = Some e \<longrightarrow>
        k = sha (token e) \<and> 0 \<le> pendingUses e \<and> (published e \<or> 0 < pendingUses e))"

definition cap_inv :: "(string \<Rightarrow> string) \<Rightarrow> cap_state \<Rightarrow> bool" where
  "cap_inv sha st \<longleftrightarrow> auth_inv (auth st) \<and> mwf (cap_sites st) \<and>
     (\<forall>sid s. mget (cap_sites st) sid = Some s \<longrightarrow> site_ok sha s) \<and>
     capabilityMemory st = msum (\<lambda>_. siteMemory) (cap_sites st) \<and>
     activeCapabilities st = msum (\<lambda>_ s. int (length (capabilities s))) (cap_sites st) \<and>
     capabilityMemory st \<le> globalDynamicMaxCapabilityMemoryBytes \<and>
     activeCapabilities st \<le> globalDynamicMaxActiveCapabilities"

lemma entry_memory_pos: "0 < entry_memory e"
  by (simp add: entry_memory_def dynamicCapabilityEntryMemory_def)

lemma cap_site_ok: "cap_inv sha st \<Longrightarrow> mget (cap_sites st) sid = Some s \<Longrightarrow> site_ok sha s"
  by (simp add: cap_inv_def)

lemma site_memory_nonneg: "site_ok sha s \<Longrightarrow> 0 \<le> siteMemory s"
proof -
  have "0 \<le> msum (\<lambda>_. entry_memory) (capabilities s)"
    by (rule msum_nonneg) (simp add: entry_memory_pos less_imp_le)
  then show "site_ok sha s \<Longrightarrow> 0 \<le> siteMemory s" by (simp add: site_ok_def)
qed

lemma entry_memory_le: "site_ok sha s \<Longrightarrow> mget (capabilities s) k = Some e \<Longrightarrow> entry_memory e \<le> siteMemory s"
  using msum_member_le [of "capabilities s" "\<lambda>_. entry_memory" k e] entry_memory_pos
  by (auto simp: site_ok_def dest!: mget_in_set intro: less_imp_le)

lemma cap_totals:
  assumes "cap_inv sha st" "mget (cap_sites st) sid = Some s"
  shows "siteMemory s \<le> capabilityMemory st" "int (length (capabilities s)) \<le> activeCapabilities st"
proof -
  have nn: "0 \<le> siteMemory v" if "(k, v) \<in> set (cap_sites st)" for k v
  proof -
    have "mget (cap_sites st) k = Some v"
      using assms(1) that by (intro in_set_mget) (auto simp: cap_inv_def)
    with cap_site_ok [OF assms(1)] site_memory_nonneg show ?thesis by blast
  qed
  show "siteMemory s \<le> capabilityMemory st"
    using msum_member_le [of "cap_sites st" "\<lambda>_. siteMemory" sid s] nn mget_in_set [OF assms(2)] assms(1)
    by (auto simp: cap_inv_def)
  show "int (length (capabilities s)) \<le> activeCapabilities st"
    using msum_member_le [of "cap_sites st" "\<lambda>_ s. int (length (capabilities s))" sid s]
      mget_in_set [OF assms(2)] assms(1) by (auto simp: cap_inv_def)
qed

lemma cap_bounds: "cap_inv sha st \<Longrightarrow> capabilityMemory st \<le> globalDynamicMaxCapabilityMemoryBytes \<and>
    activeCapabilities st \<le> globalDynamicMaxActiveCapabilities"
  by (simp add: cap_inv_def)

text \<open>Replacing one site and moving the totals with it.\<close>

lemma cap_inv_put:
  assumes "cap_inv sha st" "mget (cap_sites st) sid = Some s" "site_ok sha s'" "auth_inv a"
    and "m = capabilityMemory st + siteMemory s' - siteMemory s"
    and "n = activeCapabilities st + int (length (capabilities s')) - int (length (capabilities s))"
    and "m \<le> globalDynamicMaxCapabilityMemoryBytes" "n \<le> globalDynamicMaxActiveCapabilities"
  shows "cap_inv sha ((put_site sid s' st)\<lparr>auth := a, capabilityMemory := m, activeCapabilities := n\<rparr>)"
  using assms by (simp add: cap_inv_def put_site_def msum_mput)

lemma cap_inv_put_same:
  assumes "cap_inv sha st" "mget (cap_sites st) sid = Some s" "site_ok sha s'"
    and "siteMemory s' = siteMemory s" "length (capabilities s') = length (capabilities s)"
  shows "cap_inv sha (put_site sid s' st)"
  using assms by (simp add: cap_inv_def put_site_def msum_mput)

lemma cap_inv_auth: "cap_inv sha st \<Longrightarrow> auth_inv a \<Longrightarrow> cap_inv sha (st\<lparr>auth := a\<rparr>)"
  by (simp add: cap_inv_def)

lemma deleteCapability_site:
  assumes "mget (cap_sites st) sid = Some s"
  shows "\<exists>s'. mget (cap_sites (deleteCapabilityLocked sid k e st)) sid = Some s' \<and>
    capabilities s' = mdel k (capabilities s) \<and> idleExpiry s' = idleExpiry s \<and> caps_closed s' = caps_closed s"
    and "sid' \<noteq> sid \<Longrightarrow> mget (cap_sites (deleteCapabilityLocked sid k e st)) sid' = mget (cap_sites st) sid'"
  using assms by (auto simp: deleteCapabilityLocked_def put_site_def Let_def)

text \<open>Deleting an entry frees exactly its memory: the clamps at zero never act.\<close>

lemma deleteCapability_inv:
  assumes "cap_inv sha st" "mget (cap_sites st) sid = Some s" "mget (capabilities s) k = Some e0"
    and "token e = token e0" "cacheKey e = cacheKey e0"
  shows "cap_inv sha (deleteCapabilityLocked sid k e st)"
proof -
  have ok: "site_ok sha s" by (rule cap_site_ok [OF assms(1,2)])
  have mem: "dynamicCapabilityEntryMemory (token e) (cacheKey e) = entry_memory e0"
    using assms(4,5) by (simp add: entry_memory_def)
  have le: "entry_memory e0 \<le> siteMemory s" by (rule entry_memory_le [OF ok assms(3)])
  note tot = cap_totals [OF assms(1,2)]
  have len: "int (length (mdel k (capabilities s))) = int (length (capabilities s)) - 1" "0 < length (capabilities s)"
    using length_mdel_Some [OF _ assms(3)] ok by (auto simp: site_ok_def)
  let ?t = "if cacheKey e \<noteq> [] \<and> mget_or [] (capabilityByTarget s) (cacheKey e) = token e
      then mdel (cacheKey e) (capabilityByTarget s) else capabilityByTarget s"
  let ?s = "s\<lparr>capabilities := mdel k (capabilities s), capabilityByTarget := ?t, siteMemory := siteMemory s - entry_memory e0\<rparr>"
  let ?a = "case cap_reservation e of None \<Rightarrow> auth st | Some rid \<Rightarrow> finishLocked rid False (auth st)"
  have del: "deleteCapabilityLocked sid k e st = (put_site sid ?s st)\<lparr>auth := ?a,
      capabilityMemory := capabilityMemory st - entry_memory e0, activeCapabilities := activeCapabilities st - 1\<rparr>"
  proof -
    have "0 < activeCapabilities st" using tot(2) len(2) by linarith
    with assms(2) le tot(1) show ?thesis by (simp add: deleteCapabilityLocked_def mem Let_def)
  qed
  have ok': "site_ok sha ?s"
    using ok len entry_memory_pos [of e0] assms(3)
    by (auto simp: site_ok_def msum_mdel split: if_splits)
  have aok: "auth_inv ?a"
    using assms(1) by (intro registry.finish_opt_sound) (simp add: cap_inv_def)
  show ?thesis
    unfolding del using cap_bounds [OF assms(1)] entry_memory_pos [of e0] len(1)
    by (intro cap_inv_put [OF assms(1,2) ok' aok]) simp_all
qed

definition prune_entry :: "nat \<Rightarrow> time \<Rightarrow> duration \<Rightarrow> cap_state \<Rightarrow> string \<times> cap_entry \<Rightarrow> cap_state" where
  "prune_entry sid now idle st x =
     (case x of (key, e) \<Rightarrow>
        if pendingUses e = 0 \<and> \<not> dynamicCapabilityEntryValid e now idle
        then deleteCapabilityLocked sid key e st else st)"

lemma pruneSite_prune_entry: "pruneSiteCapabilitiesLocked sid now st =
    (case mget (cap_sites st) sid of None \<Rightarrow> st
     | Some s \<Rightarrow> foldl (prune_entry sid now (idleExpiry s)) st (capabilities s))"
  by (simp add: pruneSiteCapabilitiesLocked_def prune_entry_def [abs_def] split: option.split)

lemma prune_fold_inv:
  assumes "cap_inv sha st" "mget (cap_sites st) sid = Some s" "mwf l"
    and "\<And>k e. mget l k = Some e \<Longrightarrow> mget (capabilities s) k = Some e"
  shows "cap_inv sha (foldl (prune_entry sid now idle) st l)"
  using assms
proof (induction l arbitrary: st s)
  case (Cons x l)
  obtain k e where x: "x = (k, e)" by (cases x)
  have l: "mget l k = None" "mwf l" using Cons.prems(3) x by auto
  have e: "mget (capabilities s) k = Some e" using Cons.prems(4) [of k e] x by simp
  have rest: "mget l k' = Some e' \<Longrightarrow> mget (capabilities s) k' = Some e' \<and> k' \<noteq> k" for k' e'
    using Cons.prems(4) [of k' e'] x l(1) by (cases "k' = k") auto
  show ?case
  proof (cases "pendingUses e = 0 \<and> \<not> dynamicCapabilityEntryValid e now idle")
    case True
    then have p: "prune_entry sid now idle st x = deleteCapabilityLocked sid k e st" by (simp add: prune_entry_def x)
    obtain s' where s': "mget (cap_sites (deleteCapabilityLocked sid k e st)) sid = Some s'"
      "capabilities s' = mdel k (capabilities s)"
      using deleteCapability_site(1) [OF Cons.prems(2)] by metis
    have "cap_inv sha (deleteCapabilityLocked sid k e st)"
      by (rule deleteCapability_inv [OF Cons.prems(1,2) e refl refl])
    from Cons.IH [OF this s'(1) l(2)] rest show ?thesis by (simp add: p s'(2))
  next
    case False
    then have p: "prune_entry sid now idle st x = st" by (auto simp: prune_entry_def x)
    from Cons.IH [OF Cons.prems(1,2) l(2)] rest show ?thesis by (simp add: p)
  qed
qed simp

lemma pruneSite_inv: "cap_inv sha st \<Longrightarrow> cap_inv sha (pruneSiteCapabilitiesLocked sid now st)"
  unfolding pruneSite_prune_entry
  by (auto split: option.split intro!: prune_fold_inv dest: cap_site_ok simp: site_ok_def)

lemma prune_inv: "cap_inv sha st \<Longrightarrow> cap_inv sha (pruneCapabilitiesLocked now st)"
proof -
  have fold: "cap_inv sha st \<Longrightarrow>
      cap_inv sha (foldl (\<lambda>st (sid, s). if caps_closed s then st else pruneSiteCapabilitiesLocked sid now st) st xs)" for st xs
    by (induction xs arbitrary: st) (auto simp: pruneSite_inv)
  assume "cap_inv sha st"
  then have "cap_inv sha (st\<lparr>lastCapabilityPrune := now\<rparr>)" by (simp add: cap_inv_def)
  from fold [OF this, of "cap_sites st"] \<open>cap_inv sha st\<close> show ?thesis by (simp add: pruneCapabilitiesLocked_def)
qed

section \<open>Publications only come from settling\<close>

definition pub_from :: "cap_state \<Rightarrow> cap_state \<Rightarrow> bool" where
  "pub_from st st' \<longleftrightarrow>
     (\<forall>sid. mget (cap_sites st') sid = None \<longleftrightarrow> mget (cap_sites st) sid = None) \<and>
     (\<forall>sid s' k e'. mget (cap_sites st') sid = Some s' \<longrightarrow> mget (capabilities s') k = Some e' \<longrightarrow> published e' \<longrightarrow>
        (\<exists>s e. mget (cap_sites st) sid = Some s \<and> mget (capabilities s) k = Some e \<and> published e \<and> token e' = token e))"

lemma pub_from_refl [simp]: "pub_from st st"
  by (auto simp: pub_from_def)

lemma pub_from_trans: "pub_from a b \<Longrightarrow> pub_from b c \<Longrightarrow> pub_from a c"
  unfolding pub_from_def by (metis (no_types, lifting))

lemma pub_from_site:
  assumes "mget (cap_sites st) sid = Some s" "cap_sites st' = mput sid s' (cap_sites st)"
    and "\<And>k e'. mget (capabilities s') k = Some e' \<Longrightarrow> published e' \<Longrightarrow>
      \<exists>e. mget (capabilities s) k = Some e \<and> published e \<and> token e' = token e"
  shows "pub_from st st'"
  using assms(1,3) unfolding pub_from_def assms(2) by (auto split: if_splits)

lemma pub_from_delete: "pub_from st (deleteCapabilityLocked sid k e st)"
proof (cases "mget (cap_sites st) sid")
  case (Some s)
  then show ?thesis
    by (intro pub_from_site [OF Some])
      (auto simp: deleteCapabilityLocked_def put_site_def Let_def split: if_splits)
qed (simp add: deleteCapabilityLocked_def)

lemma pub_from_pruneSite: "pub_from st (pruneSiteCapabilitiesLocked sid now st)"
proof -
  have "pub_from st (foldl (prune_entry sid now idle) st l)" for st idle l
  proof (induction l arbitrary: st)
    case (Cons x l)
    have "pub_from st (prune_entry sid now idle st x)"
      by (cases x) (simp add: prune_entry_def pub_from_delete)
    from pub_from_trans [OF this Cons.IH] show ?case by simp
  qed simp
  then show ?thesis by (simp add: pruneSite_prune_entry split: option.split)
qed

lemma pub_from_prune: "pub_from st (pruneCapabilitiesLocked now st)"
proof -
  have fold: "pub_from st (foldl (\<lambda>st (sid, s). if caps_closed s then st else pruneSiteCapabilitiesLocked sid now st) st xs)"
    for st xs
  proof (induction xs arbitrary: st)
    case (Cons x xs)
    have "pub_from st (case x of (sid, s) \<Rightarrow> if caps_closed s then st else pruneSiteCapabilitiesLocked sid now st)"
      by (cases x) (simp add: pub_from_pruneSite)
    from pub_from_trans [OF this Cons.IH] show ?case by simp
  qed simp
  have "pub_from st (st\<lparr>lastCapabilityPrune := now\<rparr>)" by (simp add: pub_from_def)
  from pub_from_trans [OF this fold [of _ "cap_sites st"]] show ?thesis by (simp add: pruneCapabilitiesLocked_def)
qed

text \<open>What every operation but a successful publication does.\<close>

definition keeps :: "(string \<Rightarrow> string) \<Rightarrow> cap_state \<Rightarrow> cap_state \<Rightarrow> bool" where
  "keeps sha st st' \<longleftrightarrow> cap_inv sha st' \<and> pub_from st st'"

lemma keeps_trans: "keeps sha a b \<Longrightarrow> (cap_inv sha b \<Longrightarrow> keeps sha b c) \<Longrightarrow> keeps sha a c"
  using pub_from_trans by (auto simp: keeps_def)

lemma keeps_refl: "cap_inv sha st \<Longrightarrow> keeps sha st st"
  by (simp add: keeps_def)

lemma keeps_prune: "cap_inv sha st \<Longrightarrow> keeps sha st (pruneCapabilitiesLocked now st)"
  by (simp add: keeps_def prune_inv pub_from_prune)

lemma keeps_delete: "cap_inv sha st \<Longrightarrow> mget (cap_sites st) sid = Some s \<Longrightarrow> mget (capabilities s) k = Some e0 \<Longrightarrow>
    token e = token e0 \<Longrightarrow> cacheKey e = cacheKey e0 \<Longrightarrow> keeps sha st (deleteCapabilityLocked sid k e st)"
  by (simp add: keeps_def deleteCapability_inv pub_from_delete)

lemma keeps_target:
  assumes "cap_inv sha st" "mget (cap_sites st) sid = Some s"
  shows "keeps sha st (put_site sid (s\<lparr>capabilityByTarget := t\<rparr>) st)"
proof -
  have "site_ok sha (s\<lparr>capabilityByTarget := t\<rparr>)" using cap_site_ok [OF assms] by (simp add: site_ok_def)
  moreover have "pub_from st (put_site sid (s\<lparr>capabilityByTarget := t\<rparr>) st)"
    by (rule pub_from_site [OF assms(2)]) (auto simp: put_site_def)
  ultimately show ?thesis using cap_inv_put_same [OF assms] by (simp add: keeps_def)
qed

text \<open>Updating an entry in place.\<close>

lemma keeps_entry:
  assumes "cap_inv sha st" "mget (cap_sites st) sid = Some s" "mget (capabilities s) k = Some e"
    and "token e' = token e" "cacheKey e' = cacheKey e" "published e' = published e" "0 \<le> pendingUses e'"
    and "published e' \<or> 0 < pendingUses e'"
  shows "keeps sha st (put_site sid (s\<lparr>capabilities := mput k e' (capabilities s)\<rparr>) st)"
proof -
  let ?s = "s\<lparr>capabilities := mput k e' (capabilities s)\<rparr>"
  have ok: "site_ok sha s" by (rule cap_site_ok [OF assms(1,2)])
  have len: "length (capabilities ?s) = length (capabilities s)" using assms(3) by (simp add: length_mput)
  have "entry_memory e' = entry_memory e" using assms(4,5) by (simp add: entry_memory_def)
  then have "site_ok sha ?s"
    using ok assms(3-8) len by (auto simp: site_ok_def msum_mput)
  moreover have "pub_from st (put_site sid ?s st)"
    by (rule pub_from_site [OF assms(2)]) (use assms(3,4,6) in \<open>auto simp: put_site_def split: if_splits\<close>)
  ultimately show ?thesis
    using cap_inv_put_same [OF assms(1,2)] len by (simp add: keeps_def)
qed

lemma prune_site_exists:
  "mget (cap_sites st) sid \<noteq> None \<Longrightarrow> \<exists>s. mget (cap_sites (pruneCapabilitiesLocked now st)) sid = Some s"
proof -
  have "mget (cap_sites (pruneCapabilitiesLocked now st)) sid = None \<longleftrightarrow> mget (cap_sites st) sid = None"
    using pub_from_prune [of st now] unfolding pub_from_def by blast
  then show "mget (cap_sites st) sid \<noteq> None \<Longrightarrow> \<exists>s. mget (cap_sites (pruneCapabilitiesLocked now st)) sid = Some s"
    by auto
qed

lemma cap_entry_ok: "cap_inv sha st \<Longrightarrow> mget (cap_sites st) sid = Some s \<Longrightarrow> mget (capabilities s) k = Some e \<Longrightarrow>
    k = sha (token e) \<and> 0 \<le> pendingUses e \<and> (published e \<or> 0 < pendingUses e)"
  using cap_site_ok by (auto simp: site_ok_def)

lemma keeps_reuse:
  assumes "cap_inv sha st" "reuseCapability sha sid ck now st = (st', res)"
  shows "keeps sha st st'"
proof (cases "ck = [] \<or> mget (cap_sites st) sid = None")
  case True
  with assms show ?thesis by (simp add: reuseCapability_def keeps_refl)
next
  case False
  let ?p = "pruneCapabilitiesLocked now st"
  note pr = keeps_prune [OF assms(1), of now]
  have inv: "cap_inv sha ?p" using pr by (simp add: keeps_def)
  obtain s where s: "mget (cap_sites ?p) sid = Some s" using prune_site_exists False by blast
  have "keeps sha ?p st'"
  proof (cases "mget (capabilities s) (sha (mget_or [] (capabilityByTarget s) ck))")
    case None
    with False s assms(2) keeps_target [OF inv s] show ?thesis by (auto simp: reuseCapability_def Let_def)
  next
    case (Some e)
    let ?t = "put_site sid (s\<lparr>capabilityByTarget := mdel ck (capabilityByTarget s)\<rparr>) ?p"
    have kt: "keeps sha ?p ?t" by (rule keeps_target [OF inv s])
    have "keeps sha ?p (deleteCapabilityLocked sid (sha (mget_or [] (capabilityByTarget s) ck)) e ?t)"
      by (rule keeps_trans [OF kt], rule keeps_delete [where s = "s\<lparr>capabilityByTarget := mdel ck (capabilityByTarget s)\<rparr>"])
        (use Some in \<open>auto simp: put_site_def\<close>)
    moreover have "keeps sha ?p (put_site sid (s\<lparr>capabilities := mput (sha (mget_or [] (capabilityByTarget s) ck))
        (e\<lparr>pendingUses := pendingUses e + 1\<rparr>) (capabilities s)\<rparr>) ?p)"
      by (rule keeps_entry [OF inv s Some]) (use cap_entry_ok [OF inv s Some] in auto)
    ultimately show ?thesis
      using False s Some assms(2) kt by (auto simp: reuseCapability_def Let_def split: if_splits)
  qed
  with keeps_trans [OF pr] show ?thesis by blast
qed

lemma keeps_register_new:
  assumes "cap_inv sha st" "mget (cap_sites st) sid = Some s" "register_new sha sid tok ck ex now r st = (st', res)"
  shows "keeps sha st st'"
proof (cases "st' = st")
  case True
  with assms(1) show ?thesis by (simp add: keeps_refl)
next
  case False
  let ?e = "\<lparr>expiresAt = ex, lastUsed = now, token = tok, cacheKey = ck, pendingUses = 1, published = False, cap_reservation = r\<rparr>"
  let ?s = "s\<lparr>capabilities := mput (sha tok) ?e (capabilities s), capabilityByTarget := mput ck tok (capabilityByTarget s),
     siteMemory := siteMemory s + entry_memory ?e\<rparr>"
  have em: "dynamicCapabilityEntryMemory tok ck = entry_memory ?e" by (simp add: entry_memory_def)
  have c: "int (length (capabilities s)) < maxActiveCapabilities s"
    "activeCapabilities st < globalDynamicMaxActiveCapabilities"
    "siteMemory s + entry_memory ?e \<le> globalDynamicMaxSiteCapabilityMemoryBytes"
    "capabilityMemory st + entry_memory ?e \<le> globalDynamicMaxCapabilityMemoryBytes"
    "mget (capabilities s) (sha tok) = None"
    and st': "st' = (put_site sid ?s st)\<lparr>auth := auth st, capabilityMemory := capabilityMemory st + entry_memory ?e,
      activeCapabilities := activeCapabilities st + 1\<rparr>"
    using assms(2,3) False by (auto simp: register_new_def Let_def em put_site_def split: if_splits)
  have ok: "site_ok sha s" by (rule cap_site_ok [OF assms(1,2)])
  have len: "length (capabilities ?s) = Suc (length (capabilities s))" using c(5) by (simp add: length_mput)
  have ok': "site_ok sha ?s" using ok c len by (auto simp: site_ok_def msum_mput)
  have aok: "auth_inv (auth st)" using assms(1) by (simp add: cap_inv_def)
  have "cap_inv sha st'"
    unfolding st' by (rule cap_inv_put [OF assms(1,2) ok' aok]) (use c len in simp_all)
  moreover have "pub_from st st'"
    unfolding st' by (rule pub_from_site [OF assms(2)]) (use c(5) in \<open>auto simp: put_site_def split: if_splits\<close>)
  ultimately show ?thesis by (simp add: keeps_def)
qed

lemma keeps_register:
  assumes "cap_inv sha st" "registerCapability sha sid tok ck ex now r st = Some (st', res)"
  shows "keeps sha st st'"
proof (cases "tok = [] \<or> ck = [] \<or> \<not> now < ex \<or> mget (cap_sites st) sid = None")
  case True
  with assms show ?thesis by (simp add: registerCapability_def keeps_refl)
next
  case False
  let ?p = "pruneCapabilitiesLocked now st"
  note pr = keeps_prune [OF assms(1), of now]
  have inv: "cap_inv sha ?p" using pr by (simp add: keeps_def)
  obtain s where s: "mget (cap_sites ?p) sid = Some s" using prune_site_exists False by blast
  let ?ex = "mget_or [] (capabilityByTarget s) ck"
  let ?t = "put_site sid (s\<lparr>capabilityByTarget := mdel ck (capabilityByTarget s)\<rparr>) ?p"
  have kt: "keeps sha ?p ?t" by (rule keeps_target [OF inv s])
  have new: "keeps sha ?p st2" if "register_new sha sid tok ck ex now r ?t = (st2, res2)" for st2 res2
  proof -
    have "mget (cap_sites ?t) sid = Some (s\<lparr>capabilityByTarget := mdel ck (capabilityByTarget s)\<rparr>)"
      by (simp add: put_site_def)
    from keeps_trans [OF kt] keeps_register_new [OF _ this that] show ?thesis by blast
  qed
  have new0: "keeps sha ?p st2" if "register_new sha sid tok ck ex now r ?p = (st2, res2)" for st2 res2
    by (rule keeps_register_new [OF inv s that])
  have reuse: "keeps sha ?p (put_site sid (s\<lparr>capabilities := mput (sha ?ex) (e\<lparr>pendingUses := pendingUses e + 1\<rparr>)
        (capabilities s)\<rparr>) ?p)" if "mget (capabilities s) (sha ?ex) = Some e" for e
    by (rule keeps_entry [OF inv s that]) (use cap_entry_ok [OF inv s that] in auto)
  have "keeps sha ?p st'"
  proof (cases "if ?ex \<noteq> [] then mget (capabilities s) (sha ?ex) else None")
    case None
    with False s assms(2) new new0 show ?thesis
      by (auto simp: registerCapability_def Let_def split: if_splits)
  next
    case (Some e)
    then have "?ex \<noteq> []" "mget (capabilities s) (sha ?ex) = Some e" by (auto split: if_splits)
    with False s assms(2) new reuse show ?thesis
      by (auto simp: registerCapability_def Let_def split: if_splits)
  qed
  with keeps_trans [OF pr] show ?thesis by blast
qed

text \<open>What the two look-ups share: prune, find the entry, and keep it only while it is valid.\<close>

lemma keeps_lookup:
  assumes "cap_inv sha st" "mget (cap_sites (pruneCapabilitiesLocked now st)) sid = Some s"
    and "mget (capabilities s) k = Some e"
  shows "keeps sha st (deleteCapabilityLocked sid k e (pruneCapabilitiesLocked now st))"
    and "keeps sha st (put_site sid (s\<lparr>capabilities := mput k (e\<lparr>lastUsed := now\<rparr>) (capabilities s)\<rparr>)
           (pruneCapabilitiesLocked now st))"
proof -
  note pr = keeps_prune [OF assms(1), of now]
  have inv: "cap_inv sha (pruneCapabilitiesLocked now st)" using pr by (simp add: keeps_def)
  show "keeps sha st (deleteCapabilityLocked sid k e (pruneCapabilitiesLocked now st))"
    using keeps_trans [OF pr] keeps_delete [OF inv assms(2,3) refl refl] by blast
  have "keeps sha (pruneCapabilitiesLocked now st)
      (put_site sid (s\<lparr>capabilities := mput k (e\<lparr>lastUsed := now\<rparr>) (capabilities s)\<rparr>) (pruneCapabilitiesLocked now st))"
    by (rule keeps_entry [OF inv assms(2,3)]) (use cap_entry_ok [OF inv assms(2,3)] in auto)
  with keeps_trans [OF pr] show "keeps sha st
      (put_site sid (s\<lparr>capabilities := mput k (e\<lparr>lastUsed := now\<rparr>) (capabilities s)\<rparr>) (pruneCapabilitiesLocked now st))"
    by blast
qed

lemma keeps_has: "cap_inv sha st \<Longrightarrow> keeps sha st (fst (hasCapability sha sid tok now st))"
  using prune_site_exists [of st sid now] keeps_lookup(1) [of sha st now sid _ "sha tok"]
  by (auto simp: hasCapability_def Let_def keeps_refl keeps_prune split: option.split)

lemma keeps_use: "cap_inv sha st \<Longrightarrow> keeps sha st (fst (useCapability sha sid tok now st))"
  using prune_site_exists [of st sid now] keeps_lookup [of sha st now sid _ "sha tok"]
  by (auto simp: useCapability_def Let_def keeps_refl keeps_prune split: option.split)

lemma keeps_remove: "cap_inv sha st \<Longrightarrow> keeps sha st (removeCapability sha sid tok st)"
  by (auto simp: removeCapability_def keeps_refl intro!: keeps_delete split: option.split)

lemma keeps_close:
  assumes "cap_inv sha st"
  shows "keeps sha st (close_state sid st)"
proof (cases "mget (cap_sites st) sid")
  case None
  with assms show ?thesis by (simp add: close_state_def keeps_refl)
next
  case (Some s)
  show ?thesis
  proof (cases "caps_closed s")
    case True
    with assms Some show ?thesis by (simp add: close_state_def keeps_refl)
  next
    case False
    let ?s = "s\<lparr>capabilities := [], capabilityByTarget := [], siteMemory := 0, caps_closed := True\<rparr>"
    have ok: "site_ok sha s" by (rule cap_site_ok [OF assms Some])
    note tot = cap_totals [OF assms Some]
    have cl: "close_state sid st = (put_site sid ?s st)\<lparr>auth := close_authorities sid (auth st),
        capabilityMemory := capabilityMemory st - siteMemory s,
        activeCapabilities := activeCapabilities st - int (length (capabilities s))\<rparr>"
      using Some False tot by (simp add: close_state_def)
    have ok': "site_ok sha ?s"
      using ok by (auto simp: site_ok_def globalDynamicMaxSiteCapabilityMemoryBytes_def)
    have "cap_inv sha (close_state sid st)"
      unfolding cl using assms cap_bounds [OF assms] site_memory_nonneg [OF ok]
      by (intro cap_inv_put [OF assms Some ok']) (auto simp: close_authorities_inv cap_inv_def)
    moreover have "pub_from st (close_state sid st)"
      unfolding cl by (rule pub_from_site [OF Some, where s' = ?s]) (simp_all add: put_site_def)
    ultimately show ?thesis by (simp add: keeps_def)
  qed
qed

section \<open>Settling\<close>

lemma settle_scan_mwf: "mwf counts \<Longrightarrow> mwf (fst (settle_scan sha caps idle publish now toks counts v))"
  by (induction sha caps idle publish now toks counts v rule: settle_scan.induct) (auto simp: Let_def)

lemma settle_scan_valid: "snd (settle_scan sha caps idle publish now toks counts v) \<Longrightarrow> v"
  by (induction sha caps idle publish now toks counts v rule: settle_scan.induct) (auto simp: Let_def)

lemma settle_scan_keys:
  "mget counts k \<noteq> None \<or> k \<in> sha ` set toks \<Longrightarrow>
   mget (fst (settle_scan sha caps idle publish now toks counts v)) k \<noteq> None"
  by (induction sha caps idle publish now toks counts v rule: settle_scan.induct) (auto simp: Let_def)

text \<open>A token that a valid batch may settle.\<close>

definition settleable :: "(string \<Rightarrow> string) \<Rightarrow> (string, cap_entry) gomap \<Rightarrow> duration \<Rightarrow> bool \<Rightarrow> time \<Rightarrow> string \<Rightarrow> int \<Rightarrow> bool" where
  "settleable sha caps idle publish now tok n =
     (case mget caps (sha tok) of None \<Rightarrow> False
      | Some e \<Rightarrow> token e = tok \<and> n \<le> pendingUses e \<and> (publish \<longrightarrow> dynamicCapabilityEntryValid e now idle))"

lemma settle_scan_tokens:
  "snd (settle_scan sha caps idle publish now toks counts v) \<Longrightarrow> tok \<in> set toks \<Longrightarrow>
   \<exists>n. settleable sha caps idle publish now tok n"
proof (induction sha caps idle publish now toks counts v rule: settle_scan.induct)
  case (2 sha caps idle publish now t toks counts v)
  have head: "settleable sha caps idle publish now t (mget_or 0 counts (sha t) + 1)"
    using 2(2) settle_scan_valid by (fastforce simp: settleable_def Let_def split: option.splits)
  show ?case using 2 head by (auto simp: Let_def)
qed simp

lemma settle_scan_counts:
  "snd (settle_scan sha caps idle publish now toks counts v) \<Longrightarrow>
   mget (fst (settle_scan sha caps idle publish now toks counts v)) k = Some n \<Longrightarrow>
   mget counts k = Some n \<or> (\<exists>tok\<in>set toks. k = sha tok \<and> settleable sha caps idle publish now tok n)"
proof (induction sha caps idle publish now toks counts v rule: settle_scan.induct)
  case (2 sha caps idle publish now t toks counts v)
  have head: "settleable sha caps idle publish now t (mget_or 0 counts (sha t) + 1)"
    using 2(2) settle_scan_valid by (fastforce simp: settleable_def Let_def split: option.splits)
  show ?case using 2 head by (fastforce simp: Let_def split: if_splits)
qed simp

text \<open>Publishing one key rewrites its entry and nothing else.\<close>

definition publish_entry :: "int \<Rightarrow> cap_entry \<Rightarrow> cap_entry" where
  "publish_entry n e = e\<lparr>pendingUses := pendingUses e - n, published := True, cap_reservation := None\<rparr>"

lemma settle_one_publish:
  assumes "mget (cap_sites st) sid = Some s" "mget (capabilities s) k = Some e" "n \<le> pendingUses e"
  shows "settle_one sid True True k n st =
    (put_site sid (s\<lparr>capabilities := mput k (publish_entry n e) (capabilities s)\<rparr>) st)
      \<lparr>auth := (case cap_reservation e of None \<Rightarrow> auth st | Some rid \<Rightarrow> finishLocked rid True (auth st))\<rparr>"
  using assms by (simp add: settle_one_def publish_entry_def Let_def)

lemma settle_one_publish_inv:
  assumes "cap_inv sha st" "mget (cap_sites st) sid = Some s" "mget (capabilities s) k = Some e" "n \<le> pendingUses e"
  shows "cap_inv sha (settle_one sid True True k n st)"
proof -
  let ?e = "publish_entry n e"
  let ?s = "s\<lparr>capabilities := mput k ?e (capabilities s)\<rparr>"
  have ok: "site_ok sha s" by (rule cap_site_ok [OF assms(1,2)])
  have len: "length (capabilities ?s) = length (capabilities s)" using assms(3) by (simp add: length_mput)
  have "entry_memory ?e = entry_memory e" by (simp add: entry_memory_def publish_entry_def)
  then have "site_ok sha ?s"
    using ok assms(3,4) len by (auto simp: site_ok_def msum_mput publish_entry_def)
  then have "cap_inv sha (put_site sid ?s st)"
    by (intro cap_inv_put_same [OF assms(1,2)]) (use len in simp_all)
  moreover have "auth_inv (case cap_reservation e of None \<Rightarrow> auth st | Some rid \<Rightarrow> finishLocked rid True (auth st))"
    using assms(1) by (intro registry.finish_opt_sound) (simp add: cap_inv_def)
  ultimately show ?thesis by (simp add: settle_one_publish [OF assms(2-4)] cap_inv_auth)
qed

lemma settle_publish_fold:
  assumes "cap_inv sha st" "mget (cap_sites st) sid = Some s" "mwf l"
    and "\<And>k n. mget l k = Some n \<Longrightarrow> \<exists>e. mget (capabilities s) k = Some e \<and> n \<le> pendingUses e"
    and "st' = foldl (\<lambda>st (k, n). settle_one sid True True k n st) st l"
  shows "cap_inv sha st' \<and> (\<forall>x. x \<noteq> sid \<longrightarrow> mget (cap_sites st') x = mget (cap_sites st) x) \<and>
    (\<exists>s'. mget (cap_sites st') sid = Some s' \<and> idleExpiry s' = idleExpiry s \<and>
       (\<forall>k. mget (capabilities s') k =
          (case mget l k of None \<Rightarrow> mget (capabilities s) k
           | Some n \<Rightarrow> map_option (publish_entry n) (mget (capabilities s) k))))"
  using assms
proof (induction l arbitrary: st s)
  case (Cons x l)
  obtain k n where x: "x = (k, n)" by (cases x)
  have l: "mget l k = None" "mwf l" using Cons.prems(3) x by auto
  obtain e where e: "mget (capabilities s) k = Some e" "n \<le> pendingUses e" using Cons.prems(4) [of k n] x by auto
  let ?st = "settle_one sid True True k n st"
  let ?s = "s\<lparr>capabilities := mput k (publish_entry n e) (capabilities s)\<rparr>"
  note one = settle_one_publish [OF Cons.prems(2) e]
  have inv: "cap_inv sha ?st" by (rule settle_one_publish_inv [OF Cons.prems(1,2) e])
  have s: "mget (cap_sites ?st) sid = Some ?s" by (simp add: one put_site_def)
  have other: "y \<noteq> sid \<Longrightarrow> mget (cap_sites ?st) y = mget (cap_sites st) y" for y by (simp add: one put_site_def)
  have rest: "\<exists>e'. mget (capabilities ?s) k' = Some e' \<and> n' \<le> pendingUses e'" if "mget l k' = Some n'" for k' n'
    using Cons.prems(4) [of k' n'] that l(1) x by (cases "k' = k") auto
  have "st' = foldl (\<lambda>st (k, n). settle_one sid True True k n st) ?st l" using Cons.prems(5) by (simp add: x)
  from Cons.IH [OF inv s l(2) rest this] obtain s' where
    IH: "cap_inv sha st'" "\<And>y. y \<noteq> sid \<Longrightarrow> mget (cap_sites st') y = mget (cap_sites ?st) y"
      "mget (cap_sites st') sid = Some s'" "idleExpiry s' = idleExpiry s"
      "\<And>k'. mget (capabilities s') k' = (case mget l k' of None \<Rightarrow> mget (capabilities ?s) k'
           | Some n \<Rightarrow> map_option (publish_entry n) (mget (capabilities ?s) k'))" by auto
  have "mget (capabilities s') k' = (case mget (x # l) k' of None \<Rightarrow> mget (capabilities s) k'
      | Some n \<Rightarrow> map_option (publish_entry n) (mget (capabilities s) k'))" for k'
    using IH(5) [of k'] l(1) e(1) by (cases "k' = k") (simp_all add: x split: option.split)
  with IH(1-4) other show ?case by auto
qed simp

text \<open>Releasing one key never publishes.\<close>

lemma settle_one_release:
  assumes "cap_inv sha st" "\<not> (publish \<and> valid)"
  shows "keeps sha st (settle_one sid publish valid k n st)"
proof (cases "mget (cap_sites st) sid")
  case None
  with assms show ?thesis by (simp add: settle_one_def keeps_refl)
next
  case (Some s)
  show ?thesis
  proof (cases "mget (capabilities s) k")
    case None
    with Some assms show ?thesis by (simp add: settle_one_def keeps_refl)
  next
    case e: (Some e)
    have "keeps sha st (deleteCapabilityLocked sid k (e\<lparr>pendingUses := pendingUses e - n\<rparr>) st)"
      by (rule keeps_delete [OF assms(1) Some e]) simp_all
    moreover have "keeps sha st (put_site sid (s\<lparr>capabilities := mput k (e\<lparr>pendingUses := pendingUses e - n\<rparr>) (capabilities s)\<rparr>) st)"
      if "n \<le> pendingUses e" "pendingUses e \<noteq> n \<or> published e"
      by (rule keeps_entry [OF assms(1) Some e]) (use that in auto)
    ultimately show ?thesis using Some e assms by (auto simp: settle_one_def Let_def keeps_refl)
  qed
qed

lemma settle_release_fold:
  assumes "cap_inv sha st" "\<not> (publish \<and> valid)"
  shows "keeps sha st (foldl (\<lambda>st (k, n). settle_one sid publish valid k n st) st l)"
  using assms
proof (induction l arbitrary: st)
  case (Cons x l)
  obtain k n where x: "x = (k, n)" by (cases x)
  note one = settle_one_release [OF Cons.prems, of sid k n]
  from keeps_trans [OF one] Cons.IH [OF _ assms(2)] show ?case by (simp add: x)
qed (simp add: keeps_refl)

text \<open>What a whole batch does.\<close>

lemma settle_failed:
  assumes "cap_inv sha st" "settleCapabilities sha sid toks publish now st = (st', ok)" "\<not> (publish \<and> ok \<and> toks \<noteq> [])"
  shows "keeps sha st st'"
proof (cases "toks = [] \<or> mget (cap_sites st) sid = None")
  case True
  with assms show ?thesis by (auto simp: settleCapabilities_def keeps_refl split: if_splits)
next
  case False
  then obtain s where s: "mget (cap_sites st) sid = Some s" by auto
  obtain counts v where sc: "settle_scan sha (capabilities s) (idleExpiry s) publish now toks [] True = (counts, v)"
    by (cases "settle_scan sha (capabilities s) (idleExpiry s) publish now toks [] True")
  have "st' = foldl (\<lambda>st (key, n). settle_one sid publish v key n st) st counts" "ok = v"
    using assms(2) False s sc by (auto simp: settleCapabilities_def)
  moreover from this have "\<not> (publish \<and> v)" using assms(3) False by blast
  ultimately show ?thesis using settle_release_fold [OF assms(1)] by blast
qed

lemma settle_published:
  assumes "cap_inv sha st" "settleCapabilities sha sid toks True now st = (st', True)" "toks \<noteq> []"
  obtains s s' where "mget (cap_sites st) sid = Some s" "mget (cap_sites st') sid = Some s'" "cap_inv sha st'"
    "idleExpiry s' = idleExpiry s" "\<And>x. x \<noteq> sid \<Longrightarrow> mget (cap_sites st') x = mget (cap_sites st) x"
    "\<And>k. k \<notin> sha ` set toks \<Longrightarrow> mget (capabilities s') k = mget (capabilities s) k"
    "\<And>tok. tok \<in> set toks \<Longrightarrow> \<exists>e n. mget (capabilities s) (sha tok) = Some e \<and> token e = tok \<and>
       dynamicCapabilityEntryValid e now (idleExpiry s) \<and> mget (capabilities s') (sha tok) = Some (publish_entry n e)"
proof -
  obtain s where s: "mget (cap_sites st) sid = Some s"
    using assms by (auto simp: settleCapabilities_def split: option.splits)
  obtain counts v where sc: "settle_scan sha (capabilities s) (idleExpiry s) True now toks [] True = (counts, v)"
    by (cases "settle_scan sha (capabilities s) (idleExpiry s) True now toks [] True")
  have v: "v" and st': "st' = foldl (\<lambda>st (key, n). settle_one sid True True key n st) st counts"
    using assms(2,3) s sc by (auto simp: settleCapabilities_def)
  have mwf: "mwf counts" using settle_scan_mwf [of "[]" sha "capabilities s" "idleExpiry s" True now toks True] sc by simp
  have cnt: "\<exists>tok\<in>set toks. k = sha tok \<and> settleable sha (capabilities s) (idleExpiry s) True now tok n"
    if "mget counts k = Some n" for k n
    using settle_scan_counts [of sha "capabilities s" "idleExpiry s" True now toks "[]" True k n] sc v that by simp
  have keys: "mget counts (sha tok) \<noteq> None" if "tok \<in> set toks" for tok
    using settle_scan_keys [of "[]" "sha tok" sha toks "capabilities s" "idleExpiry s" True now True] sc that by simp
  have toks: "\<exists>n. settleable sha (capabilities s) (idleExpiry s) True now tok n" if "tok \<in> set toks" for tok
    using settle_scan_tokens [of sha "capabilities s" "idleExpiry s" True now toks "[]" True tok] sc v that by simp
  have pend: "\<exists>e. mget (capabilities s) k = Some e \<and> n \<le> pendingUses e" if "mget counts k = Some n" for k n
    using cnt [OF that] by (auto simp: settleable_def split: option.splits)
  from settle_publish_fold [OF assms(1) s mwf pend st'] obtain s' where
    f: "cap_inv sha st'" "\<And>x. x \<noteq> sid \<Longrightarrow> mget (cap_sites st') x = mget (cap_sites st) x"
      "mget (cap_sites st') sid = Some s'" "idleExpiry s' = idleExpiry s"
      "\<And>k. mget (capabilities s') k = (case mget counts k of None \<Rightarrow> mget (capabilities s) k
         | Some n \<Rightarrow> map_option (publish_entry n) (mget (capabilities s) k))" by blast
  show thesis
  proof (rule that [OF s f(3,1,4,2)])
    show "mget (capabilities s') k = mget (capabilities s) k" if "k \<notin> sha ` set toks" for k
      using f(5) [of k] cnt [of k] that by (cases "mget counts k") auto
    show "\<exists>e n. mget (capabilities s) (sha tok) = Some e \<and> token e = tok \<and>
       dynamicCapabilityEntryValid e now (idleExpiry s) \<and> mget (capabilities s') (sha tok) = Some (publish_entry n e)"
      if "tok \<in> set toks" for tok
      using f(5) [of "sha tok"] keys [OF that] toks [OF that] by (auto simp: settleable_def split: option.splits)
  qed
qed

section \<open>Runs\<close>

definition new_site_caps :: "nat \<Rightarrow> duration \<Rightarrow> int \<Rightarrow> nat \<Rightarrow> nat \<Rightarrow> cap_state \<Rightarrow> cap_state" where
  "new_site_caps sid idle maxC maxA maxN st =
     (put_site sid \<lparr>idleExpiry = idle, maxActiveCapabilities = maxC, capabilities = [], capabilityByTarget = [],
        siteMemory = 0, caps_closed = False\<rparr> st)\<lparr>auth := newDynamicSiteState sid maxA maxN (auth st)\<rparr>"

text \<open>A run with the history of the tokens that a delivered document published.\<close>

record cap_run =
  cache :: cap_state
  delivered :: "(nat \<times> string) list"

inductive cap_step :: "(string \<Rightarrow> string) \<Rightarrow> cap_run \<Rightarrow> cap_run \<Rightarrow> bool" for sha where
  NewSite: "mget (cap_sites (cache x)) sid = None \<Longrightarrow> mget (auth_sites (auth (cache x))) sid = None \<Longrightarrow> 0 \<le> maxC \<Longrightarrow>
    cap_step sha x (x\<lparr>cache := new_site_caps sid idle maxC maxA maxN (cache x)\<rparr>)"
| Reserve: "reserveAuthority sid a now (auth (cache x)) = (au, res) \<Longrightarrow>
    cap_step sha x (x\<lparr>cache := (cache x)\<lparr>auth := au\<rparr>\<rparr>)"
| Finish: "cap_step sha x (x\<lparr>cache := (cache x)\<lparr>auth := finishLocked rid c (auth (cache x))\<rparr>\<rparr>)"
| Reuse: "reuseCapability sha sid ck now (cache x) = (st, res) \<Longrightarrow> cap_step sha x (x\<lparr>cache := st\<rparr>)"
| Register: "registerCapability sha sid tok ck ex now r (cache x) = Some (st, res) \<Longrightarrow>
    cap_step sha x (x\<lparr>cache := st\<rparr>)"
| Settle: "settleCapabilities sha sid toks publish now (cache x) = (st, ok) \<Longrightarrow>
    cap_step sha x (x\<lparr>cache := st, delivered := delivered x @ (if publish \<and> ok then map (Pair sid) toks else [])\<rparr>)"
| Has: "cap_step sha x (x\<lparr>cache := fst (hasCapability sha sid tok now (cache x))\<rparr>)"
| Use: "cap_step sha x (x\<lparr>cache := fst (useCapability sha sid tok now (cache x))\<rparr>)"
| Remove: "cap_step sha x (x\<lparr>cache := removeCapability sha sid tok (cache x)\<rparr>)"
| Close: "cap_step sha x (x\<lparr>cache := close_state sid (cache x)\<rparr>)"

definition start_cap_run :: cap_run where
  "start_cap_run = \<lparr>cache = \<lparr>auth = newDynamicRuntime, cap_sites = [], activeCapabilities = 0, capabilityMemory = 0,
     lastCapabilityPrune = 0\<rparr>, delivered = []\<rparr>"

inductive cap_reachable :: "(string \<Rightarrow> string) \<Rightarrow> cap_run \<Rightarrow> bool" for sha where
  Start: "cap_reachable sha start_cap_run"
| Next: "cap_reachable sha x \<Longrightarrow> cap_step sha x y \<Longrightarrow> cap_reachable sha y"

definition published_in :: "(nat \<times> string) list \<Rightarrow> cap_state \<Rightarrow> bool" where
  "published_in h st \<longleftrightarrow> (\<forall>sid s k e. mget (cap_sites st) sid = Some s \<longrightarrow> mget (capabilities s) k = Some e \<longrightarrow>
     published e \<longrightarrow> (sid, token e) \<in> set h)"

lemma published_in_keeps: "published_in h st \<Longrightarrow> keeps sha st st' \<Longrightarrow> published_in h st'"
  unfolding published_in_def keeps_def pub_from_def by metis

lemma new_site_inv:
  assumes "cap_inv sha st" "mget (cap_sites st) sid = None" "mget (auth_sites (auth st)) sid = None" "0 \<le> maxC"
  shows "cap_inv sha (new_site_caps sid idle maxC maxA maxN st)"
proof -
  let ?s = "\<lparr>idleExpiry = idle, maxActiveCapabilities = maxC, capabilities = [], capabilityByTarget = [],
        siteMemory = 0, caps_closed = False\<rparr>"
  have "site_ok sha ?s"
    using assms(4) by (simp add: site_ok_def globalDynamicMaxSiteCapabilityMemoryBytes_def)
  with assms auth_inv_newSite show ?thesis
    by (simp add: cap_inv_def new_site_caps_def put_site_def msum_mput)
qed

lemma settle_step:
  assumes "cap_inv sha st" "published_in h st" "settleCapabilities sha sid toks publish now st = (st', ok)"
  shows "cap_inv sha st' \<and> published_in (h @ (if publish \<and> ok then map (Pair sid) toks else [])) st'"
proof (cases "publish \<and> ok \<and> toks \<noteq> []")
  case False
  with settle_failed [OF assms(1,3)] published_in_keeps [OF assms(2)] show ?thesis
    by (auto simp: keeps_def)
next
  case True
  with assms(3) have "settleCapabilities sha sid toks True now st = (st', True)" by simp
  from settle_published [OF assms(1) this] True obtain s s' where
    f: "mget (cap_sites st) sid = Some s" "mget (cap_sites st') sid = Some s'" "cap_inv sha st'"
    "\<And>x. x \<noteq> sid \<Longrightarrow> mget (cap_sites st') x = mget (cap_sites st) x"
    "\<And>k. k \<notin> sha ` set toks \<Longrightarrow> mget (capabilities s') k = mget (capabilities s) k"
    "\<And>tok. tok \<in> set toks \<Longrightarrow> \<exists>e n. mget (capabilities s) (sha tok) = Some e \<and> token e = tok \<and>
       dynamicCapabilityEntryValid e now (idleExpiry s) \<and> mget (capabilities s') (sha tok) = Some (publish_entry n e)"
    by metis
  have "(x, token e) \<in> set h \<or> x = sid \<and> token e \<in> set toks"
    if "mget (cap_sites st') x = Some s2" "mget (capabilities s2) k = Some e" "published e" for x s2 k e
  proof (cases "x = sid \<and> k \<in> sha ` set toks")
    case True
    with f(2,6) that show ?thesis by (fastforce simp: publish_entry_def)
  next
    case False
    have "\<exists>s0. mget (cap_sites st) x = Some s0 \<and> mget (capabilities s0) k = Some e"
      using False f(1,2,4,5) that by (cases "x = sid") auto
    with assms(2) that(3) show ?thesis by (auto simp: published_in_def)
  qed
  with f(3) True show ?thesis unfolding published_in_def by force
qed

lemma cap_step_inv:
  assumes "cap_step sha x y" "cap_inv sha (cache x)" "published_in (delivered x) (cache x)"
  shows "cap_inv sha (cache y) \<and> published_in (delivered y) (cache y)"
proof -
  have k: "keeps sha (cache x) (cache y) \<Longrightarrow> delivered y = delivered x \<Longrightarrow> ?thesis"
    using published_in_keeps [OF assms(3)] by (auto simp: keeps_def)
  show ?thesis using assms(1)
  proof (cases rule: cap_step.cases)
    case NewSite
    with assms new_site_inv show ?thesis
      by (auto simp: published_in_def new_site_caps_def put_site_def split: if_splits)
  next
    case Settle
    with settle_step [OF assms(2,3)] show ?thesis by fastforce
  next
    case (Reserve sid a now au res)
    with assms reserveAuthority_inv have "auth_inv au" by (auto simp: cap_inv_def)
    with assms(2,3) Reserve show ?thesis by (simp add: cap_inv_auth published_in_def)
  next
    case (Finish rid c)
    with assms finishLocked_inv have "auth_inv (finishLocked rid c (auth (cache x)))" by (auto simp: cap_inv_def)
    with assms(2,3) Finish show ?thesis by (simp add: cap_inv_auth published_in_def)
  qed (use k keeps_reuse [OF assms(2)] keeps_register [OF assms(2)] keeps_has [OF assms(2)] keeps_use [OF assms(2)]
      keeps_remove [OF assms(2)] keeps_close [OF assms(2)] in auto)
qed

lemma cap_reachable_inv: "cap_reachable sha x \<Longrightarrow> cap_inv sha (cache x) \<and> published_in (delivered x) (cache x)"
proof (induction rule: cap_reachable.induct)
  case Start
  then show ?case
    by (simp add: start_cap_run_def cap_inv_def published_in_def auth_inv_new
        globalDynamicMaxCapabilityMemoryBytes_def globalDynamicMaxActiveCapabilities_def)
next
  case (Next x y)
  then show ?case using cap_step_inv by blast
qed

text \<open>Pruning keeps the entries that are still valid.\<close>

definition holds_valid :: "nat \<Rightarrow> string \<Rightarrow> cap_entry \<Rightarrow> time \<Rightarrow> cap_state \<Rightarrow> bool" where
  "holds_valid sid k e now st \<longleftrightarrow> (case mget (cap_sites st) sid of None \<Rightarrow> False
     | Some s \<Rightarrow> mwf (capabilities s) \<and> mget (capabilities s) k = Some e \<and> dynamicCapabilityEntryValid e now (idleExpiry s))"

lemma holds_valid_delete:
  assumes "holds_valid sid k e now st" "sid' \<noteq> sid \<or> k' \<noteq> k"
  shows "holds_valid sid k e now (deleteCapabilityLocked sid' k' e' st)"
proof (cases "mget (cap_sites st) sid'")
  case None
  with assms(1) show ?thesis by (simp add: deleteCapabilityLocked_def)
next
  case (Some s')
  from deleteCapability_site(1) [OF Some, of k' e'] deleteCapability_site(2) [OF Some, of sid k' e'] assms
  show ?thesis using Some by (cases "sid = sid'") (auto simp: holds_valid_def mwf_mdel)
qed

lemma holds_valid_pruneSite:
  assumes "holds_valid sid k e now st"
  shows "holds_valid sid k e now (pruneSiteCapabilitiesLocked sid' now st)"
proof -
  have fold: "holds_valid sid k e now (foldl (prune_entry sid' now idle) st l)"
    if "holds_valid sid k e now st" "sid' = sid \<Longrightarrow> (\<forall>e'. (k, e') \<in> set l \<longrightarrow> e' = e) \<and> dynamicCapabilityEntryValid e now idle"
    for idle l st
    using that
  proof (induction l arbitrary: st)
    case (Cons x l)
    have "holds_valid sid k e now (prune_entry sid' now idle st x)"
    proof (cases x)
      case (Pair a b)
      have "holds_valid sid k e now (deleteCapabilityLocked sid' a b st)" if "\<not> dynamicCapabilityEntryValid b now idle"
        using Cons.prems(2) that Pair by (intro holds_valid_delete [OF Cons.prems(1)]) auto
      with Cons.prems(1) Pair show ?thesis by (simp add: prune_entry_def)
    qed
    from Cons.IH [OF this] Cons.prems(2) show ?case by auto
  qed simp
  show ?thesis
  proof (cases "mget (cap_sites st) sid'")
    case None
    with assms show ?thesis by (simp add: pruneSite_prune_entry)
  next
    case (Some s)
    have "(\<forall>e'. (k, e') \<in> set (capabilities s) \<longrightarrow> e' = e) \<and> dynamicCapabilityEntryValid e now (idleExpiry s)" if "sid' = sid"
      using assms Some that in_set_mget by (fastforce simp: holds_valid_def)
    from fold [OF assms this] Some show ?thesis by (simp add: pruneSite_prune_entry)
  qed
qed

lemma holds_valid_prune:
  assumes "holds_valid sid k e now st"
  shows "holds_valid sid k e now (pruneCapabilitiesLocked now st)"
proof -
  have fold: "holds_valid sid k e now st \<Longrightarrow> holds_valid sid k e now
      (foldl (\<lambda>st (sid, s). if caps_closed s then st else pruneSiteCapabilitiesLocked sid now st) st xs)" for st xs
    by (induction xs arbitrary: st) (auto simp: holds_valid_pruneSite)
  have "holds_valid sid k e now (st\<lparr>lastCapabilityPrune := now\<rparr>)" using assms by (simp add: holds_valid_def)
  from fold [OF this, of "cap_sites st"] assms show ?thesis by (simp add: pruneCapabilitiesLocked_def)
qed

lemma has_valid:
  assumes "holds_valid sid (sha tok) e now st" "token e = tok" "published e"
  shows "snd (hasCapability sha sid tok now st)"
proof -
  have "tok \<noteq> []" using assms by (auto simp: holds_valid_def dynamicCapabilityEntryValid_def split: option.splits)
  moreover have "mget (cap_sites st) sid \<noteq> None" using assms(1) by (auto simp: holds_valid_def split: option.splits)
  ultimately show ?thesis
    using holds_valid_prune [OF assms(1)] assms(2,3)
    by (auto simp: hasCapability_def Let_def holds_valid_def split: option.splits)
qed

section \<open>Properties\<close>

text \<open>Whatever sequence of registering, reusing, settling, checking, using, removing, pruning and
  closing happens, the memory charged to a site is the memory of its entries, the process totals are
  the sums over the sites, no limit is exceeded, and an entry that was never published always has a
  pending document, so an abandoned registration cannot stay behind.\<close>

theorem capability_cache_accounted:
  assumes "cap_reachable sha x" "mget (cap_sites (cache x)) sid = Some s"
  shows "siteMemory s = msum (\<lambda>_. entry_memory) (capabilities s) \<and>
    capabilityMemory (cache x) = msum (\<lambda>_. siteMemory) (cap_sites (cache x)) \<and>
    activeCapabilities (cache x) = msum (\<lambda>_ s. int (length (capabilities s))) (cap_sites (cache x)) \<and>
    siteMemory s \<le> globalDynamicMaxSiteCapabilityMemoryBytes \<and>
    capabilityMemory (cache x) \<le> globalDynamicMaxCapabilityMemoryBytes \<and>
    int (length (capabilities s)) \<le> maxActiveCapabilities s \<and>
    activeCapabilities (cache x) \<le> globalDynamicMaxActiveCapabilities \<and>
    (mget (capabilities s) k = Some e \<longrightarrow> k = sha (token e) \<and> (published e \<or> 0 < pendingUses e))"
proof -
  have inv: "cap_inv sha (cache x)" using cap_reachable_inv [OF assms(1)] by blast
  from cap_site_ok [OF this assms(2)] inv show ?thesis by (auto simp: cap_inv_def site_ok_def)
qed

text \<open>C30. A presented token is accepted, by the check or by the use that extends its life, only when
  a document that carried it was delivered for that site, and only before it expires; every other
  token, whatever its hash collides with, is refused.\<close>

theorem accepted_capability_was_delivered:
  assumes "cap_reachable sha x"
    and "snd (hasCapability sha sid tok now (cache x)) \<or> snd (useCapability sha sid tok now (cache x))"
  shows "(sid, tok) \<in> set (delivered x) \<and>
    (\<exists>s e. mget (cap_sites (pruneCapabilitiesLocked now (cache x))) sid = Some s \<and>
       mget (capabilities s) (sha tok) = Some e \<and> token e = tok \<and> now < expiresAt e \<and> now < lastUsed e + idleExpiry s)"
proof -
  note inv = cap_reachable_inv [OF assms(1)]
  let ?p = "pruneCapabilitiesLocked now (cache x)"
  have "published_in (delivered x) ?p" using published_in_keeps keeps_prune inv by blast
  moreover have "mget (cap_sites (cache x)) sid \<noteq> None"
    using assms(2) by (auto simp: hasCapability_def useCapability_def split: if_splits)
  then obtain s where s: "mget (cap_sites ?p) sid = Some s" using prune_site_exists by blast
  moreover obtain e where "mget (capabilities s) (sha tok) = Some e" "token e = tok" "published e"
    "dynamicCapabilityEntryValid e now (idleExpiry s)"
    using assms(2) s by (auto simp: hasCapability_def useCapability_def Let_def split: if_splits option.splits)
  ultimately show ?thesis by (auto simp: published_in_def dynamicCapabilityEntryValid_def)
qed

text \<open>C31. Publishing a document settles its capabilities together: when it succeeds every token of
  the document is accepted from then on, and when one of them was evicted, idled out or over-released
  in the meantime no token becomes accepted that was not accepted before.\<close>

theorem settle_publishes_all_or_none:
  assumes "cap_reachable sha x" "settleCapabilities sha sid toks True now (cache x) = (st, ok)"
  shows "(ok \<longrightarrow> tok \<in> set toks \<longrightarrow> snd (hasCapability sha sid tok now st)) \<and>
    (\<not> ok \<longrightarrow> pub_from (cache x) st)"
proof (intro conjI impI)
  note inv = conjunct1 [OF cap_reachable_inv [OF assms(1)]]
  show "snd (hasCapability sha sid tok now st)" if "ok" "tok \<in> set toks"
  proof -
    note tk = \<open>tok \<in> set toks\<close>
    have ok: "settleCapabilities sha sid toks True now (cache x) = (st, True)" "toks \<noteq> []" using assms(2) that by auto
    show ?thesis
    proof (rule settle_published [OF inv ok])
      fix s s'
      assume s': "mget (cap_sites st) sid = Some s'" "cap_inv sha st" "idleExpiry s' = idleExpiry s"
        and "\<And>tok. tok \<in> set toks \<Longrightarrow> \<exists>e n. mget (capabilities s) (sha tok) = Some e \<and> token e = tok \<and>
          dynamicCapabilityEntryValid e now (idleExpiry s) \<and> mget (capabilities s') (sha tok) = Some (publish_entry n e)"
      from this(4) [OF tk] obtain e n where e: "token e = tok" "dynamicCapabilityEntryValid e now (idleExpiry s)"
        "mget (capabilities s') (sha tok) = Some (publish_entry n e)" by blast
      have "holds_valid sid (sha tok) (publish_entry n e) now st"
        using s' e cap_site_ok [OF s'(2,1)]
        by (simp add: holds_valid_def site_ok_def publish_entry_def dynamicCapabilityEntryValid_def)
      from has_valid [of sid sha tok, OF this] e(1) show ?thesis by (simp add: publish_entry_def)
    qed
  qed
  show "pub_from (cache x) st" if "\<not> ok"
    using settle_failed [OF inv assms(2)] that by (simp add: keeps_def)
qed

section \<open>A run to evaluate on\<close>

text \<open>One site registers the token \<open>t\<close> for the target \<open>u\<close>; the document is then delivered. The
  parameter is instantiated with the identity.\<close>

definition demo_pending :: cap_run where
  "demo_pending = (let x = start_cap_run\<lparr>cache := new_site_caps 0 60 2 2 2 (cache start_cap_run)\<rparr>
     in case registerCapability id 0 ''t'' ''u'' 1000 100 None (cache x) of
          Some (st, _) \<Rightarrow> x\<lparr>cache := st\<rparr> | None \<Rightarrow> x)"

definition demo_delivered :: cap_run where
  "demo_delivered = (let (st, ok) = settleCapabilities id 0 [''t''] True 110 (cache demo_pending)
     in demo_pending\<lparr>cache := st, delivered := [(0, ''t'')]\<rparr>)"

lemma demo_pending_value: "demo_pending = \<lparr>cache =
    \<lparr>auth = newDynamicSiteState 0 2 2 newDynamicRuntime,
     cap_sites = [(0, \<lparr>idleExpiry = 60, maxActiveCapabilities = 2,
       capabilities = [(''t'', \<lparr>expiresAt = 1000, lastUsed = 100, token = ''t'', cacheKey = ''u'', pendingUses = 1,
          published = False, cap_reservation = None\<rparr>)],
       capabilityByTarget = [(''u'', ''t'')], siteMemory = 162, caps_closed = False\<rparr>)],
     activeCapabilities = 1, capabilityMemory = 162, lastCapabilityPrune = 100\<rparr>, delivered = []\<rparr>"
  by (simp add: Let_def demo_pending_def start_cap_run_def new_site_caps_def put_site_def registerCapability_def register_new_def
      pruneCapabilitiesLocked_def pruneSiteCapabilitiesLocked_def dynamicCapabilityEntryMemory_def mget_or_def
      globalDynamicMaxActiveCapabilities_def globalDynamicMaxSiteCapabilityMemoryBytes_def
      globalDynamicMaxCapabilityMemoryBytes_def)

lemma demo_delivered_value: "demo_delivered = \<lparr>cache =
    \<lparr>auth = newDynamicSiteState 0 2 2 newDynamicRuntime,
     cap_sites = [(0, \<lparr>idleExpiry = 60, maxActiveCapabilities = 2,
       capabilities = [(''t'', \<lparr>expiresAt = 1000, lastUsed = 100, token = ''t'', cacheKey = ''u'', pendingUses = 0,
          published = True, cap_reservation = None\<rparr>)],
       capabilityByTarget = [(''u'', ''t'')], siteMemory = 162, caps_closed = False\<rparr>)],
     activeCapabilities = 1, capabilityMemory = 162, lastCapabilityPrune = 100\<rparr>, delivered = [(0, ''t'')]\<rparr>"
  "snd (settleCapabilities id 0 [''t''] True 110 (cache demo_pending))"
  by (simp_all add: demo_delivered_def demo_pending_value settleCapabilities_def settle_one_def put_site_def mget_or_def
      dynamicCapabilityEntryValid_def)

lemma demo_pending_reachable: "cap_reachable id demo_pending"
proof -
  let ?x = "start_cap_run\<lparr>cache := new_site_caps 0 60 2 2 2 (cache start_cap_run)\<rparr>"
  have site: "cap_reachable id ?x"
    by (rule cap_reachable.Next [OF cap_reachable.Start], rule NewSite)
      (simp_all add: start_cap_run_def newDynamicRuntime_def)
  obtain st res where r: "registerCapability id 0 ''t'' ''u'' 1000 100 None (cache ?x) = Some (st, res)"
    by (simp add: registerCapability_def Let_def start_cap_run_def new_site_caps_def put_site_def mget_or_def
        pruneCapabilitiesLocked_def pruneSiteCapabilitiesLocked_def) (metis surj_pair)
  from cap_reachable.Next [OF site Register [OF r]] show ?thesis
    by (simp add: demo_pending_def r [simplified])
qed

lemma demo_delivered_reachable: "cap_reachable id demo_delivered"
proof -
  obtain st ok where r: "settleCapabilities id 0 [''t''] True 110 (cache demo_pending) = (st, ok)" by fastforce
  from cap_reachable.Next [OF demo_pending_reachable Settle [OF r]] demo_delivered_value(2) r
  show ?thesis by (simp add: demo_delivered_def demo_pending_value)
qed

theorem capability_cache_accounted_witness:
  "capabilityMemory (cache demo_pending) = 162 \<and> activeCapabilities (cache demo_pending) \<le> 131072 \<and>
   (\<exists>s e. mget (cap_sites (cache demo_pending)) 0 = Some s \<and> mget (capabilities s) ''t'' = Some e \<and>
      \<not> published e \<and> 0 < pendingUses e)"
proof -
  obtain s where s: "mget (cap_sites (cache demo_pending)) 0 = Some s" by (simp add: demo_pending_value)
  obtain e where e: "mget (capabilities s) ''t'' = Some e" "\<not> published e" using s by (auto simp: demo_pending_value)
  from capability_cache_accounted [OF demo_pending_reachable s, of "''t''" e] s e show ?thesis
    by (simp add: demo_pending_value globalDynamicMaxActiveCapabilities_def)
qed

theorem accepted_capability_was_delivered_witness:
  "(0, ''t'') \<in> set (delivered demo_delivered) \<and> \<not> snd (hasCapability id 0 ''t'' 110 (cache demo_pending))"
proof -
  have a: "snd (hasCapability id 0 ''t'' 110 (cache demo_delivered))"
    by (simp add: demo_delivered_value hasCapability_def pruneCapabilitiesLocked_def pruneSiteCapabilitiesLocked_def
        dynamicCapabilityEntryValid_def Let_def)
  have b: "(0, ''t'') \<notin> set (delivered demo_pending)" by (simp add: demo_pending_value)
  from accepted_capability_was_delivered [OF demo_delivered_reachable, of 0 "''t''" 110] a
    accepted_capability_was_delivered [OF demo_pending_reachable, of 0 "''t''" 110] b
  show ?thesis by blast
qed

theorem settle_publishes_all_or_none_witness:
  "snd (hasCapability id 0 ''t'' 110 (fst (settleCapabilities id 0 [''t''] True 110 (cache demo_pending)))) \<and>
   \<not> snd (settleCapabilities id 0 [''t'', ''x''] True 110 (cache demo_pending)) \<and>
   pub_from (cache demo_pending) (fst (settleCapabilities id 0 [''t'', ''x''] True 110 (cache demo_pending)))"
proof -
  obtain st ok where r: "settleCapabilities id 0 [''t''] True 110 (cache demo_pending) = (st, ok)" by fastforce
  obtain st' ok' where r': "settleCapabilities id 0 [''t'', ''x''] True 110 (cache demo_pending) = (st', ok')" by fastforce
  have "ok" using demo_delivered_value(2) r by simp
  moreover have "\<not> snd (settleCapabilities id 0 [''t'', ''x''] True 110 (cache demo_pending))"
    by (simp add: demo_pending_value settleCapabilities_def mget_or_def split: prod.split)
  with r' have "\<not> ok'" by simp
  ultimately show ?thesis
    using settle_publishes_all_or_none [OF demo_pending_reachable r, of "''t''"]
      settle_publishes_all_or_none [OF demo_pending_reachable r', of "''t''"] r r' by simp
qed

end
