(* ===== verification/Ip_Address.thy ===== *)
theory Ip_Address
  imports Go_Strings
begin

text \<open>
  IP addresses as Go's \<open>net\<close> and \<open>net/netip\<close> packages have them: the words they
  are, \<open>ParseIP\<close> and \<open>ParseCIDR\<close>, the canonical text, prefixes and the
  classification methods. A \<open>netip.Addr\<close> here has no zone, because every address the
  program keeps comes from \<open>AddrFromSlice\<close>.
\<close>

unbundle bit_operations_syntax

type_synonym word32 = "32 word"
type_synonym word128 = "128 word"

datatype addr = V4 word32 | V6 word128

text \<open>A \<open>net.IP\<close>: a slice of 4 or of 16 bytes, big endian, or of another length.\<close>

datatype net_ip = IP4 word32 | IP16 word128 | OtherSlice

definition addr_from_slice :: "net_ip \<Rightarrow> addr option" where
  "addr_from_slice ip = (case ip of IP4 a \<Rightarrow> Some (V4 a) | IP16 a \<Rightarrow> Some (V6 a) | OtherSlice \<Rightarrow> None)"

definition as_slice :: "addr \<Rightarrow> net_ip" where
  "as_slice a = (case a of V4 w \<Rightarrow> IP4 w | V6 w \<Rightarrow> IP16 w)"

definition mapped :: "word32 \<Rightarrow> word128" where
  "mapped a = 0xFFFF00000000 OR ucast a"

definition unmap :: "addr \<Rightarrow> addr" where
  "unmap a = (case a of V4 w \<Rightarrow> V4 w
     | V6 w \<Rightarrow> if drop_bit 32 w = 0xFFFF then V4 (ucast w) else V6 w)"

definition to4 :: "net_ip \<Rightarrow> word32 option" where
  "to4 ip = (case ip of IP4 a \<Rightarrow> Some a
     | IP16 w \<Rightarrow> if drop_bit 32 w = 0xFFFF then Some (ucast w) else None | OtherSlice \<Rightarrow> None)"

definition as16 :: "addr \<Rightarrow> word128" where
  "as16 a = (case a of V4 w \<Rightarrow> mapped w | V6 w \<Rightarrow> w)"

lemma ucast_mapped [simp]: "ucast (mapped a) = a"
proof -
  have zero: "(ucast (0xFFFF00000000 :: word128) :: word32) = 0" by simp
  have same: "(ucast (ucast a :: word128) :: word32) = a"
    by (rule bit_word_eqI) (auto simp: bit_simps)
  show ?thesis by (simp only: mapped_def unsigned_or_eq zero same or.left_neutral)
qed

lemma drop_mapped [simp]: "drop_bit 32 (mapped a) = 0xFFFF"
proof -
  have "drop_bit 32 (ucast a :: word128) = 0"
    by (rule bit_word_eqI) (auto simp: bit_simps dest: bit_imp_le_length)
  then show ?thesis by (simp add: mapped_def drop_bit_or)
qed

lemma unmap_unmap [simp]: "unmap (unmap a) = unmap a"
  by (auto simp: unmap_def split: addr.split)

lemma unmap_as16 [simp]: "unmap (V6 (as16 a)) = unmap a"
  by (auto simp: unmap_def as16_def split: addr.split)

lemma from_as_slice [simp]: "addr_from_slice (as_slice a) = Some a"
  by (cases a) (simp_all add: addr_from_slice_def as_slice_def)

section \<open>Parsing\<close>

definition digits_ok :: "string \<Rightarrow> bool" where
  "digits_ok s \<longleftrightarrow> s \<noteq> [] \<and> list_all is_digit s"

text \<open>A field of a dotted address: a decimal octet without a leading zero.\<close>

definition ipv4_field :: "string \<Rightarrow> word32 option" where
  "ipv4_field s =
     (if digits_ok s \<and> length s \<le> 3 \<and> (length s = 1 \<or> hd s \<noteq> CHR ''0'') \<and> digits_value s \<le> 255
      then Some (of_nat (digits_value s)) else None)"

definition parse_ipv4 :: "string \<Rightarrow> word32 option" where
  "parse_ipv4 s =
     (case map ipv4_field (split_on CHR ''.'' s) of
        [Some a, Some b, Some c, Some d] \<Rightarrow>
          Some (push_bit 24 a OR push_bit 16 b OR push_bit 8 c OR d)
      | _ \<Rightarrow> None)"

definition is_hex :: "char \<Rightarrow> bool" where
  "is_hex c \<longleftrightarrow> is_digit c \<or> 97 \<le> byte c \<and> byte c \<le> 102 \<or> 65 \<le> byte c \<and> byte c \<le> 70"

definition hex_value :: "char \<Rightarrow> nat" where
  "hex_value c = (if is_digit c then byte c - 48 else if 97 \<le> byte c then byte c - 87 else byte c - 55)"

definition hex_number :: "string \<Rightarrow> nat" where
  "hex_number s = foldl (\<lambda>acc c. 16 * acc + hex_value c) 0 s"

text \<open>
  The groups of an IPv6 address, most significant first, and where the \<open>::\<close> stands. The
  first argument counts the groups that still fit.
\<close>

fun ipv6_groups :: "nat \<Rightarrow> string \<Rightarrow> nat list \<Rightarrow> nat option \<Rightarrow> (nat list \<times> nat option) option" where
  "ipv6_groups 0 s acc ell = (if s = [] then Some (acc, ell) else None)"
| "ipv6_groups (Suc room) s acc ell =
     (let ds = takeWhile is_hex s; rest = dropWhile is_hex s
      in if ds = [] \<or> length ds > 4 then None
         else case rest of
           [] \<Rightarrow> Some (acc @ [hex_number ds], ell)
         | c # rest' \<Rightarrow>
             if c = CHR ''.'' then
               (if ell = None \<and> room \<noteq> 1 \<or> room = 0 then None
                else case parse_ipv4 s of
                  None \<Rightarrow> None
                | Some w \<Rightarrow> Some (acc @ [unat (drop_bit 16 w), unat (take_bit 16 w)], ell))
             else if c \<noteq> CHR '':'' \<or> rest' = [] then None
             else if hd rest' = CHR '':'' then
               (if ell \<noteq> None then None
                else if tl rest' = [] then Some (acc @ [hex_number ds], Some (length acc + 1))
                else ipv6_groups room (tl rest') (acc @ [hex_number ds]) (Some (length acc + 1)))
             else ipv6_groups room rest' (acc @ [hex_number ds]) ell)"

definition of_groups :: "nat list \<Rightarrow> word128" where
  "of_groups gs = foldl (\<lambda>w g. push_bit 16 w OR of_nat g) 0 gs"

definition parse_ipv6 :: "string \<Rightarrow> word128 option" where
  "parse_ipv6 s =
     (if s = ''::'' then Some 0
      else case (if has_prefix s ''::'' then ipv6_groups 8 (drop 2 s) [] (Some 0) else ipv6_groups 8 s [] None) of
        None \<Rightarrow> None
      | Some (gs, ell) \<Rightarrow>
          if length gs < 8 then
            (case ell of None \<Rightarrow> None
             | Some i \<Rightarrow> Some (of_groups (take i gs @ replicate (8 - length gs) 0 @ drop i gs)))
          else if ell \<noteq> None then None else Some (of_groups gs))"

text \<open>\<open>netip.ParseAddr\<close> of an address without a zone: its first separator decides the family.\<close>

definition parse_addr :: "string \<Rightarrow> addr option" where
  "parse_addr s =
     (case dropWhile (\<lambda>c. c \<noteq> CHR ''.'' \<and> c \<noteq> CHR '':'' \<and> c \<noteq> CHR ''%'') s of
        [] \<Rightarrow> None
      | c # _ \<Rightarrow> if c = CHR ''.'' then map_option V4 (parse_ipv4 s)
                 else if c = CHR '':'' \<and> CHR ''%'' \<notin> set s then map_option V6 (parse_ipv6 s)
                 else None)"

definition parse_ip :: "string \<Rightarrow> net_ip option" where
  "parse_ip s = map_option (\<lambda>a. IP16 (as16 a)) (parse_addr s)"

definition parse_cidr_ip :: "string \<Rightarrow> net_ip option" where
  "parse_cidr_ip s =
     (let (a, m, found) = cut CHR ''/'' s
      in if \<not> found then None
         else case parse_addr a of
           None \<Rightarrow> None
         | Some ad \<Rightarrow>
             if digits_ok m \<and> digits_value m \<le> (case ad of V4 _ \<Rightarrow> 32 | V6 _ \<Rightarrow> 128)
             then Some (IP16 (as16 ad)) else None)"

section \<open>The canonical text\<close>

fun hex_text :: "nat \<Rightarrow> string" where
  "hex_text n = (let d = char_of (if n mod 16 < 10 then 48 + n mod 16 else 87 + n mod 16)
     in if n < 16 then [d] else hex_text (n div 16) @ [d])"

declare hex_text.simps [simp del]

definition octet :: "nat \<Rightarrow> word32 \<Rightarrow> nat" where
  "octet i w = unat (take_bit 8 (drop_bit (8 * i) w))"

definition group :: "word128 \<Rightarrow> nat \<Rightarrow> nat" where
  "group w i = unat (take_bit 16 (drop_bit (16 * (7 - i)) w))"

text \<open>The longest run of at least two zero groups, the first of them if there are several.\<close>

definition zero_run :: "nat list \<Rightarrow> nat \<Rightarrow> nat" where
  "zero_run gs i = length (takeWhile (\<lambda>g. g = 0) (drop i gs))"

definition best_run :: "nat list \<Rightarrow> nat \<times> nat" where
  "best_run gs = foldl (\<lambda>(s, l) i. if 2 \<le> zero_run gs i \<and> l < zero_run gs i then (i, zero_run gs i) else (s, l))
     (length gs, 0) [0..<length gs]"

fun join_groups :: "string list \<Rightarrow> string" where
  "join_groups [] = []"
| "join_groups [g] = g"
| "join_groups (g # h # gs) = g @ '':'' @ join_groups (h # gs)"

definition addr_string :: "addr \<Rightarrow> string" where
  "addr_string a =
     (case a of
        V4 w \<Rightarrow> itoa (octet 3 w) @ ''.'' @ itoa (octet 2 w) @ ''.'' @ itoa (octet 1 w) @ ''.'' @ itoa (octet 0 w)
      | V6 w \<Rightarrow>
          let gs = map (group w) [0..<8]; (s, l) = best_run gs
          in if drop_bit 32 w = 0xFFFF then
               ''::ffff:'' @ itoa (octet 3 (ucast w)) @ ''.'' @ itoa (octet 2 (ucast w)) @ ''.'' @
                 itoa (octet 1 (ucast w)) @ ''.'' @ itoa (octet 0 (ucast w))
             else if l = 0 then join_groups (map hex_text gs)
             else join_groups (map hex_text (take s gs)) @ ''::'' @ join_groups (map hex_text (drop (s + l) gs)))"

section \<open>Prefixes and classes\<close>

definition prefix_contains :: "addr \<times> nat \<Rightarrow> addr \<Rightarrow> bool" where
  "prefix_contains p a =
     (case (fst p, a) of
        (V4 q, V4 w) \<Rightarrow> drop_bit (32 - snd p) w = drop_bit (32 - snd p) q
      | (V6 q, V6 w) \<Rightarrow> drop_bit (128 - snd p) w = drop_bit (128 - snd p) q
      | _ \<Rightarrow> False)"

text \<open>The methods of \<open>netip.Addr\<close>, for an address that is unmapped.\<close>

definition is_unspecified :: "addr \<Rightarrow> bool" where
  "is_unspecified a = (case a of V4 w \<Rightarrow> w = 0 | V6 w \<Rightarrow> w = 0)"

definition is_loopback :: "addr \<Rightarrow> bool" where
  "is_loopback a = (case a of V4 w \<Rightarrow> drop_bit 24 w = 127 | V6 w \<Rightarrow> w = 1)"

definition is_multicast :: "addr \<Rightarrow> bool" where
  "is_multicast a = (case a of V4 w \<Rightarrow> drop_bit 28 w = 0xE | V6 w \<Rightarrow> drop_bit 120 w = 0xFF)"

definition is_link_local_unicast :: "addr \<Rightarrow> bool" where
  "is_link_local_unicast a = (case a of V4 w \<Rightarrow> drop_bit 16 w = 0xA9FE | V6 w \<Rightarrow> drop_bit 118 w = 0x3FA)"

definition is_link_local_multicast :: "addr \<Rightarrow> bool" where
  "is_link_local_multicast a = (case a of V4 w \<Rightarrow> drop_bit 8 w = 0xE00000
     | V6 w \<Rightarrow> drop_bit 112 w AND 0xFF0F = 0xFF02)"

definition is_private :: "addr \<Rightarrow> bool" where
  "is_private a = (case a of V4 w \<Rightarrow> drop_bit 24 w = 10 \<or> drop_bit 20 w = 0xAC1 \<or> drop_bit 16 w = 0xC0A8
     | V6 w \<Rightarrow> drop_bit 121 w = 0x7E)"

definition is_global_unicast :: "addr \<Rightarrow> bool" where
  "is_global_unicast a \<longleftrightarrow>
     \<not> is_unspecified a \<and> a \<noteq> V4 0xFFFFFFFF \<and> \<not> is_loopback a \<and> \<not> is_multicast a \<and> \<not> is_link_local_unicast a"

section \<open>The canonical text reads back\<close>

lemma is_hex_hex_text: "c \<in> set (hex_text n) \<Longrightarrow> is_hex c"
proof (induction n rule: hex_text.induct)
  case (1 n)
  have d: "is_hex (char_of (if n mod 16 < 10 then 48 + n mod 16 else 87 + n mod 16))"
  proof -
    have "n mod 16 < 16" by simp
    then show ?thesis by (auto simp: is_hex_def is_digit_def)
  qed
  show ?case
    using 1(2) 1(1) d by (subst (asm) hex_text.simps) (auto simp: Let_def split: if_splits)
qed

lemma hex_text_nonempty [simp]: "hex_text n \<noteq> []"
  by (subst hex_text.simps) (simp add: Let_def)

lemma hex_number_append: "hex_number (s @ [c]) = 16 * hex_number s + hex_value c"
  by (simp add: hex_number_def)

lemma hex_number_text [simp]: "hex_number (hex_text n) = n"
proof (induction n rule: hex_text.induct)
  case (1 n)
  have lt: "n mod 16 < 16" by simp
  have v: "hex_value (char_of (if n mod 16 < 10 then 48 + n mod 16 else 87 + n mod 16)) = n mod 16"
    using lt by (auto simp: hex_value_def is_digit_def)
  show ?case
  proof (cases "n < 16")
    case True
    with v show ?thesis by (subst hex_text.simps) (simp add: Let_def hex_number_def)
  next
    case False
    with 1 have "hex_number (hex_text (n div 16)) = n div 16" by simp
    with False v show ?thesis by (subst hex_text.simps) (simp add: Let_def hex_number_append)
  qed
qed

lemma hex_text_length: "n < 16 ^ Suc k \<Longrightarrow> length (hex_text n) \<le> Suc k"
proof (induction k arbitrary: n)
  case 0
  then show ?case by (subst hex_text.simps) (simp add: Let_def)
next
  case (Suc k)
  then have "n div 16 < 16 ^ Suc k" by (simp add: less_mult_imp_div_less mult.commute)
  from Suc.IH [OF this] show ?case by (subst hex_text.simps) (simp add: Let_def)
qed

lemma not_hex_colon: "\<not> is_hex CHR '':''"
  by (simp add: is_hex_def is_digit_def byte_def)

lemma takeWhile_hex: "takeWhile is_hex (hex_text n @ CHR '':'' # r) = hex_text n"
  "dropWhile is_hex (hex_text n @ CHR '':'' # r) = CHR '':'' # r"
  "takeWhile is_hex (hex_text n) = hex_text n" "dropWhile is_hex (hex_text n) = []"
  using is_hex_hex_text not_hex_colon by (simp_all add: takeWhile_append2 dropWhile_append2 takeWhile_eq_all_conv)

lemma hex_text_hd: "hd (hex_text n @ r) \<noteq> CHR '':''"
  using is_hex_hex_text [of "hd (hex_text n)" n] not_hex_colon by (auto simp: hd_in_set hd_append)

lemma ipv6_last:
  "g < 65536 \<Longrightarrow> ipv6_groups (Suc room) (hex_text g) acc ell = Some (acc @ [g], ell)"
  using hex_text_length [of g 3] by (simp add: takeWhile_hex)

lemma ipv6_more:
  assumes "g < 65536" "r \<noteq> []" "hd r \<noteq> CHR '':''"
  shows "ipv6_groups (Suc room) (hex_text g @ CHR '':'' # r) acc ell = ipv6_groups room r (acc @ [g]) ell"
  using hex_text_length [of g 3] assms by (simp add: takeWhile_hex)

lemma ipv6_ellipsis:
  assumes "g < 65536"
  shows "ipv6_groups (Suc room) (hex_text g @ CHR '':'' # CHR '':'' # r) acc None =
    (if r = [] then Some (acc @ [g], Some (length acc + 1))
     else ipv6_groups room r (acc @ [g]) (Some (length acc + 1)))"
  using hex_text_length [of g 3] assms by (simp add: takeWhile_hex)

declare ipv6_groups.simps [simp del]

lemma join_groups_nonempty: "gs \<noteq> [] \<Longrightarrow> join_groups (map hex_text gs) \<noteq> [] \<and> hd (join_groups (map hex_text gs)) \<noteq> CHR '':''"
  using hex_text_hd by (cases gs rule: list.exhaust; cases "tl gs") (auto simp: neq_Nil_conv)

lemma join_groups_Cons: "gs \<noteq> [] \<Longrightarrow> join_groups (map hex_text (g # gs)) = hex_text g @ CHR '':'' # join_groups (map hex_text gs)"
  by (cases gs) auto

lemma ipv6_groups_join:
  "\<lbrakk>gs \<noteq> []; \<forall>g\<in>set gs. g < 65536; length gs \<le> room\<rbrakk> \<Longrightarrow>
   ipv6_groups room (join_groups (map hex_text gs)) acc ell = Some (acc @ gs, ell)"
proof (induction gs arbitrary: room acc)
  case (Cons g gs)
  then obtain room' where room: "room = Suc room'" by (cases room) auto
  show ?case
  proof (cases "gs = []")
    case True
    with Cons room show ?thesis by (simp add: ipv6_last)
  next
    case False
    with Cons.prems have "ipv6_groups room (join_groups (map hex_text (g # gs))) acc ell =
        ipv6_groups room' (join_groups (map hex_text gs)) (acc @ [g]) ell"
      unfolding room join_groups_Cons [OF False] using join_groups_nonempty [OF False] by (intro ipv6_more) auto
    with Cons.IH [OF False, of room' "acc @ [g]"] Cons.prems room show ?thesis by simp
  qed
qed simp

text \<open>The groups before the gap, the gap, and the groups after it.\<close>

lemma ipv6_groups_gap:
  "\<lbrakk>gs \<noteq> []; \<forall>g\<in>set (gs @ hs). g < 65536; length gs + length hs \<le> room\<rbrakk> \<Longrightarrow>
   ipv6_groups room (join_groups (map hex_text gs) @ ''::'' @ join_groups (map hex_text hs)) acc None =
     Some (acc @ gs @ hs, Some (length acc + length gs))"
proof (induction gs arbitrary: room acc)
  case (Cons g gs)
  then obtain room' where room: "room = Suc room'" by (cases room) auto
  show ?case
  proof (cases "gs = []")
    case True
    show ?thesis
    proof (cases "hs = []")
      case h: True
      with True Cons.prems room show ?thesis by (simp add: ipv6_ellipsis)
    next
      case False
      with Cons.prems True room join_groups_nonempty [OF False] show ?thesis
        by (simp add: ipv6_ellipsis ipv6_groups_join)
    qed
  next
    case False
    have "ipv6_groups room (join_groups (map hex_text (g # gs)) @ ''::'' @ join_groups (map hex_text hs)) acc None =
        ipv6_groups room' (join_groups (map hex_text gs) @ ''::'' @ join_groups (map hex_text hs)) (acc @ [g]) None"
      using ipv6_more [of g "join_groups (map hex_text gs) @ ''::'' @ join_groups (map hex_text hs)" room' acc None]
        join_groups_nonempty [OF False] Cons.prems(2)
      by (simp add: join_groups_Cons [OF False, simplified] room hd_append)
    with Cons.IH [OF False, of room' "acc @ [g]"] Cons.prems room show ?thesis by simp
  qed
qed simp


lemma group_less: "group w i < 65536"
  using take_bit_nat_less_exp [of 16 "unat (drop_bit (16 * (7 - i)) w)"]
  by (simp add: group_def unsigned_take_bit_eq)

lemma group_step: "push_bit 16 (drop_bit (16 * Suc k) w) OR of_nat (unat (take_bit 16 (drop_bit (16 * k) w))) = drop_bit (16 * k) (w :: word128)"
proof -
  have "push_bit 16 (drop_bit (16 * Suc k) w) OR take_bit 16 (drop_bit (16 * k) w) = drop_bit (16 * k) w"
    by (rule bit_word_eqI) (auto simp: bit_simps algebra_simps)
  then show ?thesis by simp
qed

lemma of_groups_take: "n \<le> 8 \<Longrightarrow> foldl (\<lambda>w g. push_bit 16 w OR of_nat g) 0 (map (group w) [0..<n]) = drop_bit (16 * (8 - n)) w"
proof (induction n)
  case 0
  have "drop_bit 128 w = 0" by (rule bit_word_eqI) (auto simp: bit_simps dest: bit_imp_le_length)
  then show ?case by simp
next
  case (Suc n)
  then have k: "8 - n = Suc (7 - n)" by simp
  from Suc have IH: "foldl (\<lambda>w g. push_bit 16 w OR of_nat g) 0 (map (group w) [0..<n]) = drop_bit (16 * Suc (7 - n)) w"
    by (simp add: k)
  have "8 - Suc n = 7 - n" by simp
  moreover have "of_nat (group w n) = (of_nat (unat (take_bit 16 (drop_bit (16 * (7 - n)) w))) :: word128)"
    by (simp add: group_def)
  ultimately show ?case using IH group_step [of "7 - n" w] by simp
qed

lemma of_groups_group: "of_groups (map (group w) [0..<8]) = w"
  using of_groups_take [of 8 w] by (simp add: of_groups_def)

lemma best_run_cases:
  assumes "best_run gs = (s, l)" "l \<noteq> 0"
  shows "2 \<le> l \<and> l = zero_run gs s \<and> s < length gs"
proof -
  define P where "P = (\<lambda>(s, l). l \<noteq> 0 \<longrightarrow> 2 \<le> l \<and> l = zero_run gs s \<and> s < length gs)"
  have "P (foldl (\<lambda>(s, l) i. if 2 \<le> zero_run gs i \<and> l < zero_run gs i then (i, zero_run gs i) else (s, l)) a is)"
    if "P a" "\<forall>i\<in>set is. i < length gs" for a :: "nat \<times> nat" and "is"
    using that(1) by (rule foldl_invariant) (use that(2) in \<open>auto simp: P_def split: prod.splits\<close>)
  from this [of "(length gs, 0)" "[0..<length gs]"] assms show ?thesis
    by (simp add: P_def best_run_def)
qed

lemma zero_run_gap:
  assumes "s < length gs" "l = zero_run gs s"
  shows "s + l \<le> length gs" "gs = take s gs @ replicate l 0 @ drop (s + l) gs"
proof -
  have le: "l \<le> length (drop s gs)"
    unfolding assms(2) zero_run_def by (rule length_takeWhile_le)
  with assms(1) show sl: "s + l \<le> length gs" by simp
  have "takeWhile (\<lambda>g. g = 0) (drop s gs) = replicate l 0"
    unfolding assms(2) zero_run_def by (rule replicate_eqI) (auto dest: set_takeWhileD)
  then have "take l (drop s gs) = replicate l 0"
    using assms(2) takeWhile_eq_take [of "\<lambda>g. g = 0" "drop s gs"] by (simp add: zero_run_def)
  then have "drop s gs = replicate l 0 @ drop (s + l) gs"
    by (metis add.commute append_take_drop_id drop_drop)
  then show "gs = take s gs @ replicate l 0 @ drop (s + l) gs"
    by (metis append_take_drop_id)
qed

lemma join_groups_prefix: "gs \<noteq> [] \<Longrightarrow> \<not> has_prefix (join_groups (map hex_text gs) @ r) ''::''"
proof -
  assume "gs \<noteq> []"
  then obtain c s where "join_groups (map hex_text gs) = c # s" "c \<noteq> CHR '':''"
    using join_groups_nonempty [of gs] by (cases "join_groups (map hex_text gs)") auto
  then show ?thesis by (simp add: has_prefix_def)
qed

lemma parse_ipv6_join:
  assumes "length gs = 8" "\<forall>g\<in>set gs. g < 65536"
  shows "parse_ipv6 (join_groups (map hex_text gs)) = Some (of_groups gs)"
proof -
  have ne: "gs \<noteq> []" using assms by auto
  have "join_groups (map hex_text gs) \<noteq> ''::''"
    using join_groups_prefix [OF ne, of "[]"] by (auto simp: has_prefix_def)
  with join_groups_prefix [OF ne, of "[]"] ipv6_groups_join [OF ne assms(2), of 8 "[]" None] assms(1)
  show ?thesis by (simp add: parse_ipv6_def)
qed

lemma parse_ipv6_gap:
  assumes "length gs + l + length hs = 8" "0 < l" "\<forall>g\<in>set (gs @ hs). g < 65536"
  shows "parse_ipv6 (join_groups (map hex_text gs) @ ''::'' @ join_groups (map hex_text hs)) =
    Some (of_groups (gs @ replicate l 0 @ hs))"
proof -
  have l: "8 - length (gs @ hs) = l" using assms(1) by simp
  show ?thesis
  proof (cases "gs = []")
    case gs: True
    show ?thesis
    proof (cases "hs = []")
      case True
      with gs assms(1) show ?thesis by (simp add: parse_ipv6_def of_groups_def eval_nat_numeral)
    next
      case False
      with gs assms l ipv6_groups_join [OF False, of 8 "[]" "Some 0"] join_groups_nonempty [OF False]
      show ?thesis by (simp add: parse_ipv6_def has_prefix_def)
    qed
  next
    case False
    have "join_groups (map hex_text gs) @ ''::'' @ join_groups (map hex_text hs) \<noteq> ''::''"
      using join_groups_nonempty [OF False] by (cases "join_groups (map hex_text gs)") auto
    with join_groups_prefix [OF False] ipv6_groups_gap [OF False assms(3), of 8 "[]"] assms(1,2) l
    show ?thesis by (simp add: parse_ipv6_def)
  qed
qed


text \<open>The separators by which \<open>ParseAddr\<close> tells the families apart.\<close>

definition addr_separator :: "char \<Rightarrow> bool" where
  "addr_separator c \<longleftrightarrow> c = CHR ''.'' \<or> c = CHR '':'' \<or> c = CHR ''%''"

lemma digit_not_sep: "is_digit c \<Longrightarrow> \<not> addr_separator c"
  by (auto simp: addr_separator_def is_digit_def byte_def)

lemma hex_not_sep: "is_hex c \<Longrightarrow> \<not> addr_separator c"
  by (auto simp: addr_separator_def is_hex_def is_digit_def byte_def)

lemma parse_addr_first:
  assumes "list_all (\<lambda>c. \<not> addr_separator c) p" "addr_separator c"
  shows "parse_addr (p @ c # r) =
    (if c = CHR ''.'' then map_option V4 (parse_ipv4 (p @ c # r))
     else if c = CHR '':'' \<and> CHR ''%'' \<notin> set (p @ c # r) then map_option V6 (parse_ipv6 (p @ c # r)) else None)"
proof -
  have "dropWhile (\<lambda>c. c \<noteq> CHR ''.'' \<and> c \<noteq> CHR '':'' \<and> c \<noteq> CHR ''%'') (p @ c # r) = c # r"
    using assms by (subst dropWhile_append2) (auto simp: addr_separator_def list_all_iff)
  then show ?thesis by (simp add: parse_addr_def)
qed

text \<open>Dotted quads.\<close>

lemma octet_less: "octet i w < 256"
  using take_bit_nat_less_exp [of 8 "unat (drop_bit (8 * i) w)"]
  by (simp add: octet_def unsigned_take_bit_eq)

lemma itoa_hd: "0 < n \<Longrightarrow> hd (itoa n) \<noteq> CHR ''0''"
proof (induction n rule: itoa.induct)
  case (1 n)
  show ?case
  proof (cases "n < 10")
    case True
    then have "byte (char_of (48 + n)) \<noteq> byte (CHR ''0'')" using 1(2) by (simp add: byte_def)
    then have "char_of (48 + n) \<noteq> CHR ''0''" by (auto simp only: byte_inj)
    with True show ?thesis by (subst itoa.simps) simp
  next
    case False
    with 1 show ?thesis by (subst itoa.simps) (simp add: hd_append)
  qed
qed

lemma itoa_octet_ok: "n < 256 \<Longrightarrow> ipv4_field (itoa n) = Some (of_nat n)"
proof -
  assume n: "n < 256"
  have dig: "list_all is_digit (itoa n)" using itoa_digits by (auto simp: list_all_iff)
  have len: "length (itoa n) \<le> 3"
    using n by (subst itoa.simps, subst itoa.simps, subst itoa.simps) auto
  have lead: "length (itoa n) = 1 \<or> hd (itoa n) \<noteq> CHR ''0''"
    using itoa_hd [of n] by (cases "n = 0") (simp_all add: itoa.simps)
  show ?thesis using dig len lead n by (simp add: ipv4_field_def digits_ok_def)
qed

lemma octets_word: "push_bit 24 (of_nat (octet 3 w)) OR push_bit 16 (of_nat (octet 2 w)) OR push_bit 8 (of_nat (octet 1 w)) OR of_nat (octet 0 w) = w"
proof -
  have "push_bit 24 (take_bit 8 (drop_bit 24 w)) OR push_bit 16 (take_bit 8 (drop_bit 16 w)) OR
      push_bit 8 (take_bit 8 (drop_bit 8 w)) OR take_bit 8 w = w"
  proof (rule bit_word_eqI)
    fix n assume n: "n < LENGTH(32)"
    consider "n < 8" | "8 \<le> n" "n < 16" | "16 \<le> n" "n < 24" | "24 \<le> n" by linarith
    then show "bit (push_bit 24 (take_bit 8 (drop_bit 24 w)) OR push_bit 16 (take_bit 8 (drop_bit 16 w)) OR
      push_bit 8 (take_bit 8 (drop_bit 8 w)) OR take_bit 8 w) n = bit w n"
      by (cases; use n in \<open>auto simp: bit_or_iff bit_push_bit_iff bit_take_bit_iff bit_drop_bit_eq less_diff_conv2\<close>)
  qed
  then show ?thesis by (simp add: octet_def)
qed

definition dotted :: "word32 \<Rightarrow> string" where
  "dotted w = itoa (octet 3 w) @ ''.'' @ itoa (octet 2 w) @ ''.'' @ itoa (octet 1 w) @ ''.'' @ itoa (octet 0 w)"

lemma dot_not_in_itoa: "CHR ''.'' \<notin> set (itoa n)"
  using itoa_digits digit_not_sep by (fastforce simp: addr_separator_def)

lemma parse_ipv4_dotted: "parse_ipv4 (dotted w) = Some w"
proof -
  have "split_on CHR ''.'' (dotted w) = map itoa [octet 3 w, octet 2 w, octet 1 w, octet 0 w]"
    by (simp add: dotted_def dot_not_in_itoa)
  then show ?thesis
    using octets_word [of w] by (simp add: parse_ipv4_def itoa_octet_ok octet_less or.assoc)
qed

lemma parse_addr_V4: "parse_addr (dotted w) = Some (V4 w)"
proof -
  have "list_all (\<lambda>c. \<not> addr_separator c) (itoa (octet 3 w))"
    using itoa_digits digit_not_sep by (auto simp: list_all_iff)
  from parse_addr_first [OF this, of "CHR ''.''"] parse_ipv4_dotted [of w] show ?thesis
    by (simp add: dotted_def addr_separator_def)
qed

lemma join_groups_set: "c \<in> set (join_groups (map hex_text gs)) \<Longrightarrow> is_hex c \<or> c = CHR '':''"
proof (induction gs)
  case (Cons g gs)
  then show ?case by (cases gs) (auto dest: is_hex_hex_text)
qed simp

lemma parse_addr_V6:
  assumes "parse_ipv6 t = Some w" "CHR '':'' \<in> set t" "\<forall>c\<in>set t. is_hex c \<or> c = CHR '':''"
  shows "parse_addr t = Some (V6 w)"
proof -
  obtain p r where t: "t = p @ CHR '':'' # r" "CHR '':'' \<notin> set p"
    using assms(2) by (meson split_list_first)
  have "list_all (\<lambda>c. \<not> addr_separator c) p"
    using assms(3) t hex_not_sep by (auto simp: list_all_iff)
  moreover have "CHR ''%'' \<notin> set t"
    using assms(3) by (auto simp: is_hex_def is_digit_def byte_def)
  ultimately show ?thesis
    using parse_addr_first [of p "CHR '':''" r] assms(1) t by (simp add: addr_separator_def)
qed

lemma parse_addr_string: "unmap a = a \<Longrightarrow> parse_addr (addr_string a) = Some a"
proof (cases a)
  case (V4 w)
  then show ?thesis using parse_addr_V4 [of w] by (simp add: addr_string_def dotted_def)
next
  case (V6 w)
  assume "unmap a = a"
  with V6 have nm: "drop_bit 32 w \<noteq> 0xFFFF" by (auto simp: unmap_def)
  define gs where "gs = map (group w) [0..<8]"
  have gs: "length gs = 8" "\<forall>g\<in>set gs. g < 65536" "of_groups gs = w"
    using group_less of_groups_group by (auto simp: gs_def)
  obtain s l where sl: "best_run gs = (s, l)" by (cases "best_run gs")
  show ?thesis
  proof (cases "l = 0")
    case True
    then have str: "addr_string a = join_groups (map hex_text gs)"
      using nm sl V6 by (simp add: addr_string_def gs_def [symmetric])
    have "CHR '':'' \<in> set (join_groups (map hex_text gs))"
      by (simp add: gs_def upt_rec)
    moreover have "parse_ipv6 (join_groups (map hex_text gs)) = Some w"
      using parse_ipv6_join [OF gs(1,2)] gs(3) by simp
    ultimately have "parse_addr (join_groups (map hex_text gs)) = Some (V6 w)"
      using join_groups_set by (intro parse_addr_V6) auto
    with str V6 show ?thesis by simp
  next
    case False
    from best_run_cases [OF sl False] have b: "2 \<le> l" "l = zero_run gs s" "s < length gs" by auto
    note z = zero_run_gap [OF b(3,2)]
    have str: "addr_string a = join_groups (map hex_text (take s gs)) @ ''::'' @ join_groups (map hex_text (drop (s + l) gs))"
      using nm sl V6 False by (simp add: addr_string_def gs_def [symmetric])
    have "parse_ipv6 (addr_string a) = Some w"
      unfolding str using parse_ipv6_gap [of "take s gs" l "drop (s + l) gs"] gs z b(1)
      by (auto dest: in_set_takeD in_set_dropD)
    moreover have "CHR '':'' \<in> set (addr_string a)" "\<forall>c\<in>set (addr_string a). is_hex c \<or> c = CHR '':''"
      unfolding str using join_groups_set by auto
    ultimately show ?thesis using V6 parse_addr_V6 by simp
  qed
qed

end
