(* ===== verification/Ingress.thy ===== *)
theory Ingress
  imports Url Ip_Address
begin

text \<open>
  \<open>cmd/meridian/site_routing.go\<close>: how a site is reached (its own port, a host name, a
  path of the panel), the rewriting of request paths, redirects and cookies for a site that is
  mounted below a path, and which requests are playback. A function that returns an error
  returns \<open>None\<close> here: no caller inspects the text. The parsers of \<open>net/url\<close> and
  of cookies are arguments.
\<close>

section \<open>Configured targets\<close>

type_synonym url_parser = "string \<Rightarrow> url option"

definition port_value_ok :: "string \<Rightarrow> bool" where
  "port_value_ok p \<longleftrightarrow> digits_ok p \<and> 1 \<le> int (digits_value p) \<and> int (digits_value p) \<le> 65535"

definition normalizeTargetURL :: "url_parser \<Rightarrow> string \<Rightarrow> url option" where
  "normalizeTargetURL parse addr0 =
     (let addr = replace_all [CHR 0xEF, CHR 0xBC, CHR 0x9A] '':'' (trim_space addr0)
      in if addr = [] \<or> int (length addr) > 2048 then None
         else
           let explicit = contains_sub addr ''://'';
               addr' = (if explicit then addr else ''http://'' @ addr)
           in case parse addr' of
                None \<Rightarrow> None
              | Some u0 \<Rightarrow>
                  let u1 = u0\<lparr>scheme := to_lower (scheme u0)\<rparr>;
                      u = (if \<not> explicit \<and> url_port u1 = ''443'' then u1\<lparr>scheme := ''https''\<rparr> else u1)
                  in if scheme u \<noteq> ''http'' \<and> scheme u \<noteq> ''https'' \<or> host u = [] \<or> url_hostname u = [] \<or> opaque u \<noteq> []
                     then None
                     else if user u \<noteq> None \<or> fragment u \<noteq> [] then None
                     else if url_port u \<noteq> [] \<and> \<not> port_value_ok (url_port u) then None
                     else Some u)"

definition redactUpstreamURL :: "url option \<Rightarrow> string" where
  "redactUpstreamURL target =
     (case target of
        None \<Rightarrow> ''configured upstream''
      | Some u \<Rightarrow> if scheme u = [] \<or> host u = [] then ''configured upstream''
                  else to_lower (scheme u) @ ''://'' @ host u)"

section \<open>Names\<close>

definition dns_char :: "char \<Rightarrow> bool" where
  "dns_char c \<longleftrightarrow> is_lower c \<or> is_digit c \<or> c = CHR ''-''"

definition dns_label_ok :: "string \<Rightarrow> bool" where
  "dns_label_ok l \<longleftrightarrow> l \<noteq> [] \<and> length l \<le> 63 \<and> hd l \<noteq> CHR ''-'' \<and> last l \<noteq> CHR ''-'' \<and> list_all dns_char l"

definition normalizePublicHost :: "string \<Rightarrow> string option" where
  "normalizePublicHost value0 =
     (let value1 = to_lower (trim_space value0)
      in if value1 = [] then Some []
         else
           let value = trim_suffix value1 ''.''
           in if value = [] \<or> length value > 253 \<or> \<not> contains_sub value ''.'' then None
              else if contains_any value ''/:*[]'' \<or> parse_ip value \<noteq> None then None
              else if list_all dns_label_ok (split_on CHR ''.'' value) then Some value
              else None)"

definition normalizeRoutePrefix :: "string \<Rightarrow> string option" where
  "normalizeRoutePrefix value0 =
     (let value = trim_suffix (to_lower (trim_space value0)) ''.''
      in if dns_label_ok value then Some value else None)"

definition reservedPathIngressPrefixes :: "string list" where
  "reservedPathIngressPrefixes = [''api'', ''css'', ''js'', ''index.html'', ''favicon.svg'', ''_meridian'']"

definition path_prefix_char :: "char \<Rightarrow> bool" where
  "path_prefix_char c \<longleftrightarrow> is_lower c \<or> is_digit c \<or> c = CHR ''-'' \<or> c = CHR ''_''"

definition normalizePathPrefix :: "string \<Rightarrow> string option" where
  "normalizePathPrefix value0 =
     (let value = to_lower (trim_slashes (trim_space value0))
      in if value = [] then Some []
         else if length value > 64 then None
         else if value \<in> set reservedPathIngressPrefixes then None
         else if list_all path_prefix_char value then Some (''/'' @ value)
         else None)"

definition normalizeRouteDomain :: "string \<Rightarrow> string option" where
  "normalizeRouteDomain value = normalizePublicHost value"

definition routeHostForPrefix :: "string \<Rightarrow> string \<Rightarrow> string option" where
  "routeHostForPrefix prefix0 domain0 =
     (case normalizeRoutePrefix prefix0 of
        None \<Rightarrow> None
      | Some prefix \<Rightarrow>
          (case normalizeRouteDomain domain0 of
             None \<Rightarrow> None
           | Some domain \<Rightarrow>
               if domain = [] then None
               else let h = prefix @ ''.'' @ domain in if length h > 253 then None else Some h))"

definition routePrefixFromHost :: "string \<Rightarrow> string \<Rightarrow> string" where
  "routePrefixFromHost host0 domain0 =
     (case normalizePublicHost host0 of
        None \<Rightarrow> []
      | Some h \<Rightarrow>
          (case normalizeRouteDomain domain0 of
             None \<Rightarrow> []
           | Some domain \<Rightarrow>
               if domain = [] \<or> \<not> has_suffix h (''.'' @ domain) then []
               else let prefix = trim_suffix h (''.'' @ domain)
                    in if contains_sub prefix ''.'' then []
                       else case normalizeRoutePrefix prefix of None \<Rightarrow> [] | Some p \<Rightarrow> p))"

section \<open>Ingress modes and ports\<close>

definition normalizeIngressMode :: "string \<Rightarrow> string \<Rightarrow> string option" where
  "normalizeIngressMode value publicHost =
     (let mode0 = to_lower (trim_space value);
          mode = (if mode0 = [] then (if publicHost \<noteq> [] then ''host'' else ''port'') else mode0)
      in if mode = ''unset'' then (if publicHost \<noteq> [] then None else Some mode)
         else if mode = ''port'' \<or> mode = ''path'' then (if publicHost \<noteq> [] then None else Some mode)
         else if mode = ''host'' \<or> mode = ''both'' then (if publicHost = [] then None else Some mode)
         else None)"

definition ingressUsesPort :: "string \<Rightarrow> bool" where
  "ingressUsesPort mode \<longleftrightarrow> mode = ''port'' \<or> mode = ''both''"

definition ingressUsesHost :: "string \<Rightarrow> bool" where
  "ingressUsesHost mode \<longleftrightarrow> mode = ''host'' \<or> mode = ''both''"

definition ingressUsesPath :: "string \<Rightarrow> bool" where
  "ingressUsesPath mode \<longleftrightarrow> mode = ''path''"

definition ingressUsesPanel :: "string \<Rightarrow> bool" where
  "ingressUsesPanel mode \<longleftrightarrow> ingressUsesHost mode \<or> ingressUsesPath mode"

definition internalHostOnlyPortStart :: int where
  "internalHostOnlyPortStart = 8001"

definition used_ports :: "int list \<Rightarrow> int \<Rightarrow> int list" where
  "used_ports listenPorts panelPort = filter (\<lambda>p. 1 \<le> p \<and> p \<le> 65535) (panelPort # listenPorts)"

function scan_ports :: "int list \<Rightarrow> int \<Rightarrow> int option" where
  "scan_ports used p =
     (if p > 65535 then None else if p \<notin> set used then Some p else scan_ports used (p + 1))"
  by pat_completeness auto
termination
  by (relation "measure (\<lambda>(used, p). nat (65536 - p))") auto

declare scan_ports.simps [simp del]

definition nextAvailableInternalSitePort :: "int list \<Rightarrow> int \<Rightarrow> int option" where
  "nextAvailableInternalSitePort listenPorts panelPort =
     scan_ports (used_ports listenPorts panelPort) internalHostOnlyPortStart"

section \<open>Sites below a path\<close>

definition app_bases :: "string list" where
  "app_bases = [''/emby'', ''/jellyfin'']"

definition ingressPathMatches :: "string \<Rightarrow> string \<Rightarrow> bool" where
  "ingressPathMatches requestPath prefix \<longleftrightarrow>
     prefix \<noteq> [] \<and> (requestPath = prefix \<or> has_prefix requestPath (prefix @ ''/''))"

text \<open>The path starts with \<open>embedded\<close>, whatever the case, and a segment ends there.\<close>

definition embedded_at :: "string \<Rightarrow> string \<Rightarrow> bool" where
  "embedded_at pathValue embedded \<longleftrightarrow>
     length embedded \<le> length pathValue \<and> equal_fold (take (length embedded) pathValue) embedded \<and>
     (length pathValue = length embedded \<or> pathValue ! length embedded = CHR ''/'')"

definition normalizeEmbeddedIngressRequestPath :: "url \<Rightarrow> string \<Rightarrow> url \<times> bool" where
  "normalizeEmbeddedIngressRequestPath u prefix =
     (if prefix = [] \<or> path u = [] then (u, False)
      else case find (\<lambda>appBase. embedded_at (path u) (appBase @ prefix)) app_bases of
             None \<Rightarrow> (u, False)
           | Some appBase \<Rightarrow>
               (u\<lparr>path := prefix @ appBase @ drop (length (appBase @ prefix)) (path u), raw_path := []\<rparr>, True))"

definition isKnownMediaApplicationRoute :: "string \<Rightarrow> bool" where
  "isKnownMediaApplicationRoute pathValue \<longleftrightarrow>
     (case pathValue of
        [] \<Rightarrow> False
      | c # r \<Rightarrow> c = CHR ''/'' \<and>
          (let segment = takeWhile (\<lambda>c. c \<noteq> CHR ''?'' \<and> c \<noteq> CHR ''#'') (takeWhile (\<lambda>c. c \<noteq> CHR ''/'') r)
           in to_lower segment \<in> {''videos'', ''items'', ''users'', ''sessions'', ''library'', ''playback'', ''socket'',
                ''system'', ''web'', ''api''}))"

definition normalizeEmbeddedIngressPathPrefix :: "string \<Rightarrow> string \<Rightarrow> string" where
  "normalizeEmbeddedIngressPathPrefix route prefix =
     (if route = [] \<or> prefix = [] \<or> hd route \<noteq> CHR ''/'' then route
      else
        let pathValue = takeWhile (\<lambda>c. c \<noteq> CHR ''?'' \<and> c \<noteq> CHR ''#'') route;
            suffix = drop (length pathValue) route
        in case find (\<lambda>appBase. embedded_at pathValue (appBase @ prefix) \<and> \<not> isKnownMediaApplicationRoute prefix) app_bases of
             None \<Rightarrow> route
           | Some appBase \<Rightarrow>
               take (length appBase) pathValue @ drop (length (appBase @ prefix)) pathValue @ suffix)"

definition normalizeStrippedIngressRequestPath :: "url \<Rightarrow> string \<Rightarrow> url \<times> bool" where
  "normalizeStrippedIngressRequestPath u prefix =
     (if prefix = [] \<or> path u = [] then (u, False)
      else let normalized = normalizeEmbeddedIngressPathPrefix (path u) prefix
           in if normalized = path u then (u, False) else (u\<lparr>path := normalized, raw_path := []\<rparr>, True))"

definition stripIngressPathPrefix :: "url \<Rightarrow> string \<Rightarrow> url" where
  "stripIngressPathPrefix u prefix =
     (if \<not> ingressPathMatches (path u) prefix then u
      else
        let p = trim_prefix (path u) prefix;
            p' = (if p = [] then ''/'' else p);
            rp = (if raw_path u = [] then []
                  else let r = trim_prefix (raw_path u) (url_escaped_path (empty_url\<lparr>path := prefix\<rparr>))
                       in if r = [] then ''/'' else r)
        in u\<lparr>path := p', raw_path := rp\<rparr>)"

definition addIngressPathPrefix :: "string \<Rightarrow> string \<Rightarrow> string" where
  "addIngressPathPrefix route0 prefix =
     (let route = normalizeEmbeddedIngressPathPrefix route0 prefix
      in if prefix = [] \<or> route = [] \<or> hd route \<noteq> CHR ''/'' \<or> ingressPathMatches route prefix then route
         else prefix @ route)"

definition stripUpstreamBasePath :: "string \<Rightarrow> string \<Rightarrow> string" where
  "stripUpstreamBasePath route basePath0 =
     (let basePath = trim_suffix basePath0 ''/''
      in if basePath = [] \<or> basePath = ''/'' then route
         else if route = basePath then ''/''
         else if has_prefix route (basePath @ ''/'') then trim_prefix route basePath
         else route)"

definition pathIngressCookiePath :: "string \<Rightarrow> string \<Rightarrow> string \<Rightarrow> string" where
  "pathIngressCookiePath cookiePath upstreamBasePath prefix =
     (if cookiePath = [] \<or> hd cookiePath \<noteq> CHR ''/'' \<or> prefix = [] then cookiePath
      else
        let m = addIngressPathPrefix (stripUpstreamBasePath cookiePath upstreamBasePath) prefix
        in if cookiePath = ''/'' \<or> has_suffix cookiePath ''/'' then trim_suffix m ''/'' @ ''/'' else m)"

definition safeIngressRedirectPath :: "string \<Rightarrow> bool" where
  "safeIngressRedirectPath p \<longleftrightarrow>
     p \<noteq> [] \<and> has_prefix p ''/'' \<and> \<not> has_prefix p ''//'' \<and> \<not> has_prefix p [CHR ''/'', CHR 0x5C] \<and>
     \<not> contains_sub p [CHR 0x5C]"

text \<open>A cookie is whatever \<open>http.ParseSetCookie\<close> makes of it; only its path is touched.\<close>

record 'c cookie_lib =
  parse_set_cookie :: "string \<Rightarrow> ('c \<times> string) option"    \<comment> \<open>the cookie and its path\<close>
  cookie_string :: "'c \<Rightarrow> string \<Rightarrow> string"

definition header_set :: "string \<Rightarrow> string \<Rightarrow> http_header \<Rightarrow> http_header" where
  "header_set name v h = mput name [v] h"

definition prefixPathIngressSetCookies :: "'c cookie_lib \<Rightarrow> http_header \<Rightarrow> string \<Rightarrow> string \<Rightarrow> http_header" where
  "prefixPathIngressSetCookies lib h prefix upstreamBasePath =
     (if prefix = [] \<or> header_values h ''Set-Cookie'' = [] then h
      else
        let values = concat (map (\<lambda>v. case parse_set_cookie lib v of
                 None \<Rightarrow> []
               | Some (c, p) \<Rightarrow> [cookie_string lib c (pathIngressCookiePath p upstreamBasePath prefix)])
               (header_values h ''Set-Cookie''))
        in if values = [] then mdel ''Set-Cookie'' h else mput ''Set-Cookie'' values h)"

text \<open>The request of the response is the one the upstream answered.\<close>

definition prefixPathIngressResponse :: "'c cookie_lib \<Rightarrow> url_parser \<Rightarrow> url option \<Rightarrow> http_header \<Rightarrow> string \<Rightarrow> string \<Rightarrow> http_header" where
  "prefixPathIngressResponse lib parse requestURL h0 prefix upstreamBasePath =
     (if prefix = [] then h0
      else
        let h = prefixPathIngressSetCookies lib h0 prefix upstreamBasePath;
            location = header_get h ''Location''
        in if location = [] then h
           else case parse location of
             None \<Rightarrow> h
           | Some parsed \<Rightarrow>
               if path parsed = [] then h
               else
                 let absolute = (scheme parsed \<noteq> [] \<or> host parsed \<noteq> []);
                     same = (case requestURL of None \<Rightarrow> False | Some ru \<Rightarrow> sameRedirectAuthority parsed ru)
                 in if absolute \<and> \<not> same then h
                    else
                      let u = (if absolute then parsed\<lparr>scheme := [], host := [], user := None\<rparr> else parsed)
                      in if \<not> safeIngressRedirectPath (path u) then h
                         else
                           let p = addIngressPathPrefix (stripUpstreamBasePath (path u) upstreamBasePath) prefix
                           in if \<not> safeIngressRedirectPath p then h
                              else header_set ''Location'' (url_string (u\<lparr>path := p, raw_path := []\<rparr>)) h)"

section \<open>Capability routes\<close>

definition dynamicRoutePrefix :: string where
  "dynamicRoutePrefix = ''/_meridian/d/''"

definition normalizeDynamicCapabilityPath :: "string \<Rightarrow> string" where
  "normalizeDynamicCapabilityPath requestPath =
     (if requestPath = trim_suffix dynamicRoutePrefix ''/'' \<or> has_prefix requestPath dynamicRoutePrefix then requestPath
      else
        let embyDynamicPrefix = ''/emby'' @ dynamicRoutePrefix
        in if requestPath = trim_suffix embyDynamicPrefix ''/'' then trim_suffix dynamicRoutePrefix ''/''
           else if has_prefix requestPath embyDynamicPrefix
           then dynamicRoutePrefix @ trim_prefix requestPath embyDynamicPrefix
           else [])"

definition isReservedDynamicRoute :: "string \<Rightarrow> bool" where
  "isReservedDynamicRoute requestPath \<longleftrightarrow> normalizeDynamicCapabilityPath requestPath \<noteq> []"

definition normalizeEmbeddedDynamicCapabilityRequestPath :: "url \<Rightarrow> url \<times> bool" where
  "normalizeEmbeddedDynamicCapabilityRequestPath u =
     (if path u = [] then (u, False)
      else case find (\<lambda>appBase.
               equal_fold (path u) (appBase @ trim_suffix dynamicRoutePrefix ''/'') \<or>
               length (appBase @ dynamicRoutePrefix) \<le> length (path u) \<and>
               equal_fold (take (length (appBase @ dynamicRoutePrefix)) (path u)) (appBase @ dynamicRoutePrefix)) app_bases of
             None \<Rightarrow> (u, False)
           | Some appBase \<Rightarrow> (u\<lparr>path := drop (length appBase) (path u), raw_path := []\<rparr>, True))"

text \<open>\<open>net.SplitHostPort\<close> of a text that does not start with a bracket.\<close>

definition split_plain_host_port :: "string \<Rightarrow> string option" where
  "split_plain_host_port hp =
     (case last_colon hp of
        None \<Rightarrow> None
      | Some (h, p) \<Rightarrow>
          if CHR '':'' \<in> set h \<or> CHR ''['' \<in> set h \<or> CHR '']'' \<in> set h \<or> CHR ''['' \<in> set p \<or> CHR '']'' \<in> set p
          then None else Some h)"

definition requestPublicHost :: "string \<Rightarrow> string" where
  "requestPublicHost hostport0 =
     (let hostport = trim_space hostport0
      in if hostport = [] \<or> has_prefix hostport ''['' then []
         else case split_plain_host_port hostport of
           Some h \<Rightarrow> (case normalizePublicHost h of None \<Rightarrow> [] | Some n \<Rightarrow> n)
         | None \<Rightarrow> if contains_sub hostport '':'' then []
                   else (case normalizePublicHost hostport of None \<Rightarrow> [] | Some n \<Rightarrow> n))"

section \<open>Kinds of requests\<close>

text \<open>
  \<open>url.ParseQuery\<close>: the pairs in the order of the text; a pair that does not decode is
  left out, and so is one with a semicolon.
\<close>

fun query_unescape :: "string \<Rightarrow> string option" where
  "query_unescape s = path_unescape (map (\<lambda>c. if c = CHR ''+'' then CHR '' '' else c) s)"

definition parse_query :: "string \<Rightarrow> (string \<times> string) list" where
  "parse_query q =
     concat (map (\<lambda>part.
         if part = [] \<or> CHR '';'' \<in> set part then []
         else let (k, v, _) = cut CHR ''='' part
              in case (query_unescape k, query_unescape v) of
                   (Some k', Some v') \<Rightarrow> [(k', v')] | _ \<Rightarrow> [])
       (split_on CHR ''&'' q))"

definition normalizeMainVideoStreamMode :: "string \<Rightarrow> string option" where
  "normalizeMainVideoStreamMode value0 =
     (let value = to_lower (trim_space value0)
      in if value = [] then Some ''proxy''
         else if value \<noteq> ''proxy'' \<and> value \<noteq> ''direct'' then None else Some value)"

definition not_video_suffixes :: "string list" where
  "not_video_suffixes =
     [''.m3u8'', ''.m3u'', ''.mpd'', ''.ts'', ''.m4s'', ''.srt'', ''.ass'', ''.vtt'', ''.sub'', ''.jpg'', ''.jpeg'', ''.gif'',
      ''.png'', ''.svg'', ''.ico'', ''.webp'', ''.js'', ''.css'', ''.woff'', ''.woff2'', ''.ttf'', ''.otf'', ''.map'',
      ''.webmanifest'']"

definition video_suffixes :: "string list" where
  "video_suffixes = [''.mp4'', ''.m4v'', ''.ogv'', ''.webm'', ''.mkv'', ''.mov'', ''.avi'', ''.wmv'', ''.flv'']"

definition main_video_parts :: "string list \<Rightarrow> bool" where
  "main_video_parts parts0 \<longleftrightarrow>
     (let parts = (case parts0 of p # ps \<Rightarrow> if p = ''emby'' then ps else parts0 | [] \<Rightarrow> parts0)
      in case parts of
           a # b # c # _ \<Rightarrow>
             a = ''videos'' \<and> b \<noteq> [] \<and>
               takeWhile (\<lambda>c. c \<noteq> CHR ''.'') c \<in> {''stream'', ''original'', ''download'', ''file''} \<or>
             a = ''items'' \<and> b \<noteq> [] \<and> c = ''download''
         | _ \<Rightarrow> False)"

definition isMainVideoStreamURL :: "url \<Rightarrow> bool" where
  "isMainVideoStreamURL target \<longleftrightarrow>
     (let pathValue = to_lower (path target)
      in if list_ex (has_suffix pathValue) not_video_suffixes then False
         else if list_ex (has_suffix pathValue) video_suffixes then True
         else main_video_parts (split_on CHR ''/'' (trim_slashes pathValue)) \<or>
              list_ex (\<lambda>(k, v). (equal_fold k ''Static'' \<or> equal_fold k ''Download'') \<and> equal_fold v ''true'')
                (parse_query (raw_query target)))"

definition get_or_head :: "string \<Rightarrow> bool" where
  "get_or_head m \<longleftrightarrow> m = ''GET'' \<or> m = ''HEAD''"

definition isMainVideoStreamRequest :: "string \<Rightarrow> http_header \<Rightarrow> url \<Rightarrow> bool" where
  "isMainVideoStreamRequest meth h u \<longleftrightarrow>
     get_or_head meth \<and> \<not> hasUpgradeIntent h \<and> \<not> isReservedDynamicRoute (path u) \<and>
     \<not> isPlaybackInfoRequest (path u) \<and> isMainVideoStreamURL u"

definition mainVideoDirectTarget :: "url \<Rightarrow> url \<Rightarrow> url" where
  "mainVideoDirectTarget u upstream =
     (applyUpstreamURL u (upstream\<lparr>raw_query := [], force_query := False\<rparr>))
       \<lparr>user := None, fragment := [], raw_fragment := []\<rparr>"

definition writeMainVideoDirectRedirect :: "http_header \<Rightarrow> url \<Rightarrow> http_header \<times> nat" where
  "writeMainVideoDirectRedirect h target =
     (header_set ''Content-Length'' ''0'' (header_set ''Referrer-Policy'' ''no-referrer''
        (header_set ''Cache-Control'' ''private, no-store'' (header_set ''Location'' (url_string target) h))), 307)"

definition isPlaybackRequest :: "string \<Rightarrow> bool" where
  "isPlaybackRequest p0 \<longleftrightarrow>
     (let p = to_lower p0
      in if list_ex (has_prefix p) [''/videos/'', ''/emby/videos/'', ''/audio/'', ''/emby/audio/'', ''/livetv/'', ''/emby/livetv/'']
         then True
         else if list_ex (has_prefix p) [''/items/'', ''/emby/items/'']
         then contains_sub p ''/download'' \<or> contains_sub p ''/file''
         else False)"

definition isPlaybackRedirectEndpoint :: "string \<Rightarrow> bool" where
  "isPlaybackRedirectEndpoint p \<longleftrightarrow> to_lower p = ''/emya/video'' \<or> to_lower p = ''/emby/emya/video''"

definition dynamicStructuredRequestSource :: "string \<Rightarrow> string" where
  "dynamicStructuredRequestSource p0 =
     (let p = to_lower p0
      in if isPlaybackInfoRequest p then ''playback_info''
         else if has_suffix p ''.m3u8'' \<or> has_suffix p ''.m3u'' then ''hls''
         else if has_suffix p ''.mpd'' then ''dash''
         else [])"

definition dynamicStructuredMethodAllowed :: "string \<Rightarrow> string \<Rightarrow> bool" where
  "dynamicStructuredMethodAllowed source meth \<longleftrightarrow>
     (if source = ''playback_info'' then meth = ''GET'' \<or> meth = ''POST'' \<or> meth = ''HEAD''
      else if source = ''hls'' \<or> source = ''dash'' then meth = ''GET'' \<or> meth = ''HEAD''
      else False)"

definition dynamicStructuredRequestIdentity :: "string \<Rightarrow> url \<Rightarrow> string" where
  "dynamicStructuredRequestIdentity meth u =
     (let source = dynamicStructuredRequestSource (path u)
      in if dynamicStructuredMethodAllowed source meth then source else [])"

definition isDynamicRedirectEligibleRequest :: "string \<Rightarrow> http_header \<Rightarrow> url \<Rightarrow> bool" where
  "isDynamicRedirectEligibleRequest meth h u \<longleftrightarrow>
     get_or_head meth \<and> \<not> hasUpgradeIntent h \<and>
     (isPlaybackRequest (path u) \<or> isPlaybackRedirectEndpoint (path u) \<or> isPlaybackInfoRequest (path u) \<or>
      dynamicStructuredRequestSource (path u) \<noteq> [])"

definition isExtremeDynamicRedirectEligibleRequest :: "string \<Rightarrow> http_header \<Rightarrow> url \<Rightarrow> bool" where
  "isExtremeDynamicRedirectEligibleRequest meth h u \<longleftrightarrow>
     meth \<noteq> ''CONNECT'' \<and> \<not> hasUpgradeIntent h \<and> \<not> isReservedDynamicRoute (path u)"

definition upstreamTargetForRequest :: "string \<Rightarrow> url \<Rightarrow> url option \<Rightarrow> url" where
  "upstreamTargetForRequest p apiTarget playbackTarget =
     (case playbackTarget of None \<Rightarrow> apiTarget | Some t \<Rightarrow> if isPlaybackRequest p then t else apiTarget)"

text \<open>The JSON of \<open>stream_hosts\<close> is decoded by \<open>encoding/json\<close>, an argument.\<close>

fun add_stream_hosts :: "url_parser \<Rightarrow> string list \<Rightarrow> url option \<Rightarrow> (string, bool) gomap \<Rightarrow>
    (url option \<times> (string, bool) gomap) option" where
  "add_stream_hosts parse [] t hosts = Some (t, hosts)"
| "add_stream_hosts parse (raw # rs) t hosts =
     (case normalizeTargetURL parse raw of
        None \<Rightarrow> None
      | Some u \<Rightarrow> add_stream_hosts parse rs (case t of None \<Rightarrow> Some u | Some v \<Rightarrow> Some v)
                    (mput (redirectHostKey u) True hosts))"

definition resolvePlaybackConfiguration :: "url_parser \<Rightarrow> (string \<Rightarrow> string list option) \<Rightarrow> string \<Rightarrow> string \<Rightarrow>
    (url option \<times> (string, bool) gomap) option" where
  "resolvePlaybackConfiguration parse json playbackTargetURL streamHostsRaw =
     (let pt = (if trim_space playbackTargetURL \<noteq> []
                then map_option Some (normalizeTargetURL parse playbackTargetURL) else Some None)
      in case pt of
           None \<Rightarrow> None
         | Some t \<Rightarrow>
             (case (if trim_space streamHostsRaw \<noteq> [] then json streamHostsRaw else Some []) of
                None \<Rightarrow> None
              | Some extra \<Rightarrow>
                  add_stream_hosts parse extra t
                    (case t of None \<Rightarrow> [] | Some u \<Rightarrow> [(redirectHostKey u, True)])))"

section \<open>Site settings\<close>

definition maxTargetURLLength :: int where
  "maxTargetURLLength = 2048"

definition maxPlaybackAddresses :: int where
  "maxPlaybackAddresses = 128"

definition maxSpeedLimitMbps :: int where
  "maxSpeedLimitMbps = 1000000"

text \<open>\<open>ua_ok\<close>: whether \<open>normalizeUAConfig\<close> accepts the identity fields.\<close>

definition validateSiteSettings :: "url_parser \<Rightarrow> bool \<Rightarrow> string \<Rightarrow> int \<Rightarrow> string \<Rightarrow> string \<Rightarrow> string \<Rightarrow> string list \<Rightarrow>
    int \<Rightarrow> int \<Rightarrow> bool" where
  "validateSiteSettings parse ua_ok name0 listenPort targetURL playbackTargetURL playbackMode streamHosts quota speedLimit \<longleftrightarrow>
     (let name = trim_space name0
      in \<not> (name = [] \<or> length name > 100 \<or> contains_any name [CHR 0x0D, CHR 0x0A]) \<and>
         1 \<le> listenPort \<and> listenPort \<le> 65535 \<and>
         int (length targetURL) \<le> maxTargetURLLength \<and> normalizeTargetURL parse targetURL \<noteq> None \<and>
         (trim_space playbackTargetURL \<noteq> [] \<longrightarrow>
            int (length playbackTargetURL) \<le> maxTargetURLLength \<and> normalizeTargetURL parse playbackTargetURL \<noteq> None) \<and>
         (playbackMode = ''direct'' \<or> playbackMode = ''redirect'') \<and> ua_ok \<and>
         0 \<le> quota \<and> 0 \<le> speedLimit \<and> speedLimit \<le> maxSpeedLimitMbps \<and>
         int (length streamHosts) + (if trim_space playbackTargetURL \<noteq> [] then 1 else 0) \<le> maxPlaybackAddresses \<and>
         list_all (\<lambda>h. int (length h) \<le> maxTargetURLLength \<and> normalizeTargetURL parse h \<noteq> None) streamHosts)"

section \<open>Canonical names\<close>

lemma dns_char_plain: "dns_char c \<Longrightarrow> plain c \<and> \<not> is_upper c \<and> c \<noteq> CHR ''.''"
  by (auto simp: dns_char_def plain_def is_lower_def is_digit_def is_upper_def byte_def)

lemma dns_label_facts:
  assumes "dns_label_ok l"
  shows "l \<noteq> []" "CHR ''.'' \<notin> set l" "list_all (\<lambda>c. plain c \<and> \<not> is_upper c) l" "plain (hd l)" "plain (last l)"
    "trim_suffix l ''.'' = l"
proof -
  show l: "l \<noteq> []" using assms by (simp add: dns_label_ok_def)
  have c: "dns_char c" if "c \<in> set l" for c using assms that by (auto simp: dns_label_ok_def list_all_iff)
  show dot: "CHR ''.'' \<notin> set l" "list_all (\<lambda>c. plain c \<and> \<not> is_upper c) l" "plain (hd l)" "plain (last l)"
    using c dns_char_plain l by (auto simp: list_all_iff)
  show "trim_suffix l ''.'' = l"
    using dot(1) by (auto simp: trim_suffix_def has_suffix_iff)
qed

text \<open>A host that is made of valid labels is left alone by the normalisation.\<close>

lemma host_plain:
  assumes "list_all dns_label_ok (split_on CHR ''.'' h)"
  shows "h \<noteq> []" "list_all (\<lambda>c. plain c \<and> \<not> is_upper c) h" "last h \<noteq> CHR ''.''"
proof -
  let ?ls = "split_on CHR ''.'' h"
  have join: "join_with CHR ''.'' ?ls = h" by simp
  have ok: "dns_label_ok l" if "l \<in> set ?ls" for l using assms that by (simp add: list_all_iff)
  have gen: "ls \<noteq> [] \<Longrightarrow> (\<And>l. l \<in> set ls \<Longrightarrow> dns_label_ok l) \<Longrightarrow>
      join_with CHR ''.'' ls \<noteq> [] \<and> list_all (\<lambda>c. plain c \<and> \<not> is_upper c) (join_with CHR ''.'' ls) \<and>
      last (join_with CHR ''.'' ls) \<noteq> CHR ''.''" for ls
  proof (induction "CHR ''.''" ls rule: join_with.induct)
    case (2 p)
    then have "dns_label_ok p" by simp
    note f = dns_label_facts [OF this]
    then have "last p \<noteq> CHR ''.''" using last_in_set [of p] by metis
    with f show ?case by simp
  next
    case (3 p q ps)
    then have p: "dns_label_ok p" by simp
    have "plain CHR ''.'' \<and> \<not> is_upper CHR ''.''" by (simp add: plain_def is_upper_def byte_def)
    with 3 dns_label_facts [OF p] show ?case by simp
  qed simp
  from gen [of ?ls] ok join show "h \<noteq> []" "list_all (\<lambda>c. plain c \<and> \<not> is_upper c) h" "last h \<noteq> CHR ''.''"
    by auto
qed

lemma host_trim:
  assumes "list_all dns_label_ok (split_on CHR ''.'' h)"
  shows "trim_suffix (to_lower (trim_space h)) ''.'' = h" "to_lower (trim_space h) = h"
proof -
  note p = host_plain [OF assms]
  have "plain (hd h)" "plain (last h)" using p(1,2) by (auto simp: list_all_iff)
  with p(1,2) show low: "to_lower (trim_space h) = h" by (simp add: trim_space_plain to_lower_plain)
  have "\<not> has_suffix h ''.''" using p(3) by (auto simp: has_suffix_iff)
  then show "trim_suffix (to_lower (trim_space h)) ''.'' = h" by (simp add: low trim_suffix_def)
qed

lemma normalizePublicHost_id:
  assumes "list_all dns_label_ok (split_on CHR ''.'' h)" "length h \<le> 253" "CHR ''.'' \<in> set h" "parse_ip h = None"
  shows "normalizePublicHost h = Some h"
proof -
  have chars: "\<not> contains_any h ''/:*[]''"
  proof -
    have "dns_char c \<or> c = CHR ''.''" if "c \<in> set h" for c
    proof -
      have "ls \<noteq> [] \<Longrightarrow> (\<And>l. l \<in> set ls \<Longrightarrow> dns_label_ok l) \<Longrightarrow>
          \<forall>c\<in>set (join_with CHR ''.'' ls). dns_char c \<or> c = CHR ''.''" for ls
        by (induction "CHR ''.''" ls rule: join_with.induct) (auto simp: dns_label_ok_def list_all_iff)
      from this [of "split_on CHR ''.'' h"] assms(1) that show ?thesis by (auto simp: list_all_iff)
    qed
    moreover have "\<not> (dns_char c \<or> c = CHR ''.'')" if "c \<in> set ''/:*[]''" for c
      using that by (auto simp: dns_char_def is_lower_def is_digit_def byte_def)
    ultimately have "c \<notin> set h" if "c \<in> set ''/:*[]''" for c using that by blast
    then show ?thesis unfolding contains_any_def list_ex_iff by blast
  qed
  from host_trim [OF assms(1)] host_plain(1) [OF assms(1)] assms chars show ?thesis
    by (simp add: normalizePublicHost_def Let_def)
qed

lemma normalizePublicHost_Some:
  assumes "normalizePublicHost v = Some h" "h \<noteq> []"
  shows "list_all dns_label_ok (split_on CHR ''.'' h)" "length h \<le> 253" "CHR ''.'' \<in> set h" "parse_ip h = None"
  using assms by (auto simp: normalizePublicHost_def Let_def split: if_splits)

section \<open>Properties\<close>

text \<open>A normalised host name is a fixed point: it is empty or a name of at least two labels that
  are valid DNS labels, it is not an IP address, and normalising it again changes nothing.\<close>

theorem public_host_canonical:
  assumes "normalizePublicHost v = Some h"
  shows "normalizePublicHost h = Some h \<and>
    (h = [] \<or> list_all dns_label_ok (split_on CHR ''.'' h) \<and> 2 \<le> length (split_on CHR ''.'' h) \<and>
       length h \<le> 253 \<and> parse_ip h = None)"
proof (cases "h = []")
  case True
  have "trim_space [] = []" using trim_space_length [of "[]"] by simp
  with True show ?thesis by (simp add: normalizePublicHost_def)
next
  case False
  note s = normalizePublicHost_Some [OF assms False]
  from split_list [OF s(3)] obtain a b where h: "h = a @ CHR ''.'' # b" by blast
  have "2 \<le> length (split_on CHR ''.'' h)"
  proof (rule ccontr)
    assume "\<not> ?thesis"
    then obtain l where "split_on CHR ''.'' h = [l]"
      by (cases "split_on CHR ''.'' h"; cases "tl (split_on CHR ''.'' h)") auto
    moreover from this have "h = l" using join_split [of "CHR ''.''" h] by simp
    ultimately show False using split_on_no_sep [of l "CHR ''.''" h] s(3) by simp
  qed
  with s normalizePublicHost_id [OF s] show ?thesis by simp
qed

text \<open>The host that domain-prefix ingress stores for a prefix gives the prefix back: a request for
  it is routed to the site it was made for, as long as the host does not read as an IP address.\<close>

theorem route_host_round_trip:
  assumes "routeHostForPrefix p d = Some h" "parse_ip h = None"
  shows "normalizeRoutePrefix p = Some (routePrefixFromHost h d) \<and> routePrefixFromHost h d \<noteq> [] \<and>
    normalizePublicHost h = Some h"
proof -
  from assms(1) obtain q dom where q: "normalizeRoutePrefix p = Some q" and dom: "normalizeRouteDomain d = Some dom" "dom \<noteq> []"
    and h: "h = q @ CHR ''.'' # dom" "length h \<le> 253"
    by (auto simp: routeHostForPrefix_def Let_def split: option.splits if_splits)
  have lq: "dns_label_ok q" using q by (auto simp: normalizeRoutePrefix_def Let_def split: if_splits)
  note fq = dns_label_facts [OF lq]
  have ds: "list_all dns_label_ok (split_on CHR ''.'' dom)"
    using dom normalizePublicHost_Some(1) by (simp add: normalizeRouteDomain_def)
  have n: "normalizePublicHost h = Some h"
    by (rule normalizePublicHost_id) (use h ds lq fq(2) assms(2) in auto)
  have "trim_suffix h (''.'' @ dom) = q" "has_suffix h (''.'' @ dom)"
    by (auto simp: trim_suffix_def has_suffix_iff h)
  moreover have "normalizeRoutePrefix q = Some q"
    using lq fq by (simp add: normalizeRoutePrefix_def Let_def trim_space_plain to_lower_plain)
  ultimately have "routePrefixFromHost h d = q"
    using n dom fq(2) by (simp add: routePrefixFromHost_def)
  with q n fq(1) show ?thesis by simp
qed

lemma scan_ports_spec:
  "case scan_ports used p of
     None \<Rightarrow> \<forall>q. p \<le> q \<and> q \<le> 65535 \<longrightarrow> q \<in> set used
   | Some r \<Rightarrow> p \<le> r \<and> r \<le> 65535 \<and> r \<notin> set used \<and> (\<forall>q. p \<le> q \<and> q < r \<longrightarrow> q \<in> set used)"
proof (induction used p rule: scan_ports.induct)
  case (1 used p)
  consider "p > 65535" | "p \<le> 65535" "p \<notin> set used" | "p \<le> 65535" "p \<in> set used" by linarith
  then show ?case
  proof cases
    case 1
    then have "scan_ports used p = None" by (subst scan_ports.simps) simp
    with 1 show ?thesis by auto
  next
    case 2
    then have "scan_ports used p = Some p" by (subst scan_ports.simps) simp
    with 2 show ?thesis by auto
  next
    case 3
    have step: "scan_ports used p = scan_ports used (p + 1)" using 3 by (subst scan_ports.simps) simp
    have IH: "case scan_ports used (p + 1) of
        None \<Rightarrow> \<forall>q. p + 1 \<le> q \<and> q \<le> 65535 \<longrightarrow> q \<in> set used
      | Some r \<Rightarrow> p + 1 \<le> r \<and> r \<le> 65535 \<and> r \<notin> set used \<and> (\<forall>q. p + 1 \<le> q \<and> q < r \<longrightarrow> q \<in> set used)"
      using 1 3 by simp
    show ?thesis
    proof (cases "scan_ports used (p + 1)")
      case None
      have "q \<in> set used" if "p \<le> q" "q \<le> 65535" for q
        using IH None that 3 by (cases "q = p") simp_all
      with None show ?thesis by (simp add: step)
    next
      case (Some r)
      have "q \<in> set used" if "p \<le> q" "q < r" for q
        using IH Some that 3 by (cases "q = p") simp_all
      with IH Some show ?thesis by (simp add: step)
    qed
  qed
qed

text \<open>The port given to a site without one of its own is the lowest free port from 8001 on, and
  none is given only when the panel and the sites hold them all.\<close>

theorem internal_port_is_lowest_free:
  "case nextAvailableInternalSitePort listenPorts panelPort of
     None \<Rightarrow> \<forall>q. 8001 \<le> q \<and> q \<le> 65535 \<longrightarrow> q = panelPort \<or> q \<in> set listenPorts
   | Some p \<Rightarrow> 8001 \<le> p \<and> p \<le> 65535 \<and> p \<noteq> panelPort \<and> p \<notin> set listenPorts \<and>
       (\<forall>q. 8001 \<le> q \<and> q < p \<longrightarrow> q = panelPort \<or> q \<in> set listenPorts)"
proof -
  let ?used = "used_ports listenPorts panelPort"
  have used: "q \<in> set ?used \<longleftrightarrow> 1 \<le> q \<and> q \<le> 65535 \<and> (q = panelPort \<or> q \<in> set listenPorts)" for q
    by (auto simp: used_ports_def)
  show ?thesis
  proof (cases "scan_ports ?used 8001")
    case None
    with scan_ports_spec [where used = ?used and p = 8001] used show ?thesis
      by (simp add: nextAvailableInternalSitePort_def internalHostOnlyPortStart_def)
  next
    case (Some p)
    with scan_ports_spec [where used = ?used and p = 8001]
    have "8001 \<le> p" "p \<le> 65535" "p \<notin> set ?used" "\<forall>q. 8001 \<le> q \<and> q < p \<longrightarrow> q \<in> set ?used" by simp_all
    with used Some show ?thesis
      by (simp add: nextAvailableInternalSitePort_def internalHostOnlyPortStart_def)
  qed
qed

section \<open>Redirects of a mounted site\<close>

lemma normalizeEmbedded_front:
  assumes "route \<noteq> []" "hd route = CHR ''/''"
  shows "\<exists>r. normalizeEmbeddedIngressPathPrefix route prefix = CHR ''/'' # r"
proof -
  obtain r where r: "route = CHR ''/'' # r" using assms by (cases route) auto
  let ?v = "takeWhile (\<lambda>c. c \<noteq> CHR ''?'' \<and> c \<noteq> CHR ''#'') route"
  have v: "?v = CHR ''/'' # takeWhile (\<lambda>c. c \<noteq> CHR ''?'' \<and> c \<noteq> CHR ''#'') r" by (simp add: r)
  show ?thesis
  proof (cases "find (\<lambda>appBase. embedded_at ?v (appBase @ prefix) \<and> \<not> isKnownMediaApplicationRoute prefix) app_bases")
    case None
    then show ?thesis by (simp add: normalizeEmbeddedIngressPathPrefix_def Let_def r)
  next
    case (Some a)
    then have "a \<in> set app_bases" by (metis (no_types, lifting) find_Some_iff nth_mem)
    then obtain y ys where "a = y # ys" by (auto simp: app_bases_def)
    with Some v r show ?thesis
      by (cases "prefix = []") (simp_all add: normalizeEmbeddedIngressPathPrefix_def Let_def)
  qed
qed

lemma addIngressPathPrefix_matches:
  assumes "prefix \<noteq> []" "route \<noteq> []" "hd route = CHR ''/''"
  shows "ingressPathMatches (addIngressPathPrefix route prefix) prefix"
proof -
  obtain r where r: "normalizeEmbeddedIngressPathPrefix route prefix = CHR ''/'' # r"
    using normalizeEmbedded_front [OF assms(2,3)] by blast
  have "has_prefix (prefix @ CHR ''/'' # r) (prefix @ ''/'')" by (simp add: has_prefix_def)
  with r assms(1) show ?thesis by (simp add: addIngressPathPrefix_def ingressPathMatches_def Let_def)
qed

text \<open>Every path that is mounted lies below the prefix of its site, and taking the prefix off again
  restores the path the site was asked for.\<close>

theorem ingress_mount_round_trip:
  assumes "prefix \<noteq> []" "route \<noteq> []" "hd route = CHR ''/''"
  shows "ingressPathMatches (addIngressPathPrefix route prefix) prefix \<and>
    path (stripIngressPathPrefix (u\<lparr>path := prefix @ route\<rparr>) prefix) = route"
proof -
  obtain r where r: "route = CHR ''/'' # r" using assms by (cases route) auto
  have "has_prefix (prefix @ route) (prefix @ ''/'')" by (simp add: has_prefix_def r)
  then have "path (stripIngressPathPrefix (u\<lparr>path := prefix @ route\<rparr>) prefix) = route"
    using assms(1) r by (simp add: stripIngressPathPrefix_def ingressPathMatches_def trim_prefix_def Let_def)
  with addIngressPathPrefix_matches [OF assms] show ?thesis by blast
qed

text \<open>A reference that is only a safe path is written as a path.\<close>

lemma escape_byte_front: "\<exists>x r. escape_byte mode c = x # r \<and> (x = c \<or> x = CHR ''%'' \<or> x = CHR ''+'')"
  by (simp add: escape_byte_def)

lemma url_string_safe_path:
  assumes "scheme u = []" "host u = []" "user u = None" "opaque u = []" "raw_path u = []" "safeIngressRedirectPath (path u)"
  shows "\<exists>r. url_string u = CHR ''/'' # r \<and> (r = [] \<or> hd r \<noteq> CHR ''/'' \<and> hd r \<noteq> CHR 0x5C)"
proof -
  obtain p where p: "path u = CHR ''/'' # p" using assms(6) by (auto simp: safeIngressRedirectPath_def has_prefix_iff)
  have slash: "escape_byte EncodePath CHR ''/'' = ''/''"
    by (simp add: escape_byte_def should_escape_def is_alnum_def is_lower_def is_upper_def is_digit_def byte_def)
  have esc: "url_escaped_path u = CHR ''/'' # url_escape EncodePath p"
    using assms(5) by (simp add: url_escaped_path_def p url_escape_def slash)
  have "url_string u = CHR ''/'' # url_escape EncodePath p @
      (if force_query u \<or> raw_query u \<noteq> [] then ''?'' @ raw_query u else []) @
      (if fragment u = [] then [] else ''#'' @ url_escaped_fragment u)"
    using assms(1-4) by (simp add: url_string_def Let_def esc)
  moreover have "hd (url_escape EncodePath p) \<noteq> CHR ''/'' \<and> hd (url_escape EncodePath p) \<noteq> CHR 0x5C" if "p = c # q" for c q
  proof -
    have "c \<noteq> CHR ''/'' \<and> c \<noteq> CHR 0x5C"
      using assms(6) p that by (auto simp: safeIngressRedirectPath_def has_prefix_def)
    with escape_byte_front [of EncodePath c] that show ?thesis by (auto simp: url_escape_def)
  qed
  moreover have "url_escape EncodePath p \<noteq> []" if "p = c # q" for c q
    using that escape_byte_front [of EncodePath c] by (auto simp: url_escape_def)
  ultimately show ?thesis by (cases p) (auto simp: url_escape_def hd_append)
qed

lemma stripUpstreamBasePath_front: "\<exists>q. stripUpstreamBasePath (CHR ''/'' # r) b = CHR ''/'' # q"
proof -
  let ?b = "trim_suffix b ''/''"
  have "\<exists>q. trim_prefix (CHR ''/'' # r) ?b = CHR ''/'' # q" if "has_prefix (CHR ''/'' # r) (?b @ ''/'')"
  proof -
    from that obtain t where "CHR ''/'' # r = (?b @ ''/'') @ t" unfolding has_prefix_iff by blast
    then have "CHR ''/'' # r = ?b @ CHR ''/'' # t" by simp
    then show ?thesis by (simp add: trim_prefix_def)
  qed
  then show ?thesis by (auto simp: stripUpstreamBasePath_def Let_def)
qed

lemma cookies_keep_location:
  "header_get (prefixPathIngressSetCookies lib h prefix b) ''Location'' = header_get h ''Location''"
  by (simp add: prefixPathIngressSetCookies_def header_get_def header_values_def mget_or_def Let_def)

lemma header_set_get [simp]: "header_get (header_set n v h) n' = (if n' = n then v else header_get h n')"
  by (simp add: header_set_def header_get_def header_values_def mget_or_def)


text \<open>A client that is sent directly to the origin of a video gets the query it sent itself: nothing
  of a query configured on the upstream, and no credentials.\<close>

theorem direct_redirect_hides_upstream_query:
  "raw_query (mainVideoDirectTarget u upstream) = raw_query u \<and> user (mainVideoDirectTarget u upstream) = None \<and>
   fragment (mainVideoDirectTarget u upstream) = [] \<and> host (mainVideoDirectTarget u upstream) = host upstream \<and>
   scheme (mainVideoDirectTarget u upstream) = scheme upstream \<and>
   path (mainVideoDirectTarget u upstream) = path (applyUpstreamURL u upstream)"
proof -
  have "joinURLPath (upstream\<lparr>raw_query := [], force_query := False\<rparr>) u = joinURLPath upstream u"
    by (simp add: joinURLPath_def Let_def url_escaped_path_cong [of "upstream\<lparr>raw_query := [], force_query := False\<rparr>" upstream])
  moreover have "raw_query (applyUpstreamURL u (upstream\<lparr>raw_query := [], force_query := False\<rparr>)) = raw_query u"
    by (simp add: applyUpstreamURL_def Let_def split: prod.split)
  ultimately show ?thesis by (simp add: mainVideoDirectTarget_def)
qed

section \<open>Concrete inputs\<close>

theorem public_host_canonical_witness:
  "normalizePublicHost ''Media.Example.com.'' = Some ''media.example.com'' \<and>
   normalizePublicHost ''media.example.com'' = Some ''media.example.com''"
proof -
  have "normalizePublicHost ''Media.Example.com.'' = Some ''media.example.com''" by code_simp
  with public_host_canonical [OF this] show ?thesis by blast
qed

theorem route_host_round_trip_witness:
  "routeHostForPrefix ''TV'' ''example.com'' = Some ''tv.example.com'' \<and>
   normalizeRoutePrefix ''TV'' = Some (routePrefixFromHost ''tv.example.com'' ''example.com'')"
proof -
  have h: "routeHostForPrefix ''TV'' ''example.com'' = Some ''tv.example.com''" by code_simp
  have ip: "parse_ip ''tv.example.com'' = None" by code_simp
  from route_host_round_trip [OF h ip] h show ?thesis by blast
qed

text \<open>Without that condition the prefix is lost: the host of this route is an IP address.\<close>

lemma route_host_may_be_an_ip:
  "routeHostForPrefix ''1'' ''2.3.4'' = Some ''1.2.3.4'' \<and> routePrefixFromHost ''1.2.3.4'' ''2.3.4'' = []"
  by (rule conjI) code_simp+

theorem internal_port_is_lowest_free_witness:
  "nextAvailableInternalSitePort [8001, 8003] 8002 = Some 8004 \<and> (8003::int) \<in> set [8001, 8003]"
proof -
  have "nextAvailableInternalSitePort [8001, 8003] 8002 = Some 8004"
    by (simp add: nextAvailableInternalSitePort_def internalHostOnlyPortStart_def used_ports_def scan_ports.simps)
  with internal_port_is_lowest_free [where listenPorts = "[8001, 8003]" and panelPort = 8002] show ?thesis by auto
qed

theorem ingress_mount_round_trip_witness:
  "addIngressPathPrefix ''/emby/tv/web'' ''/tv'' = ''/tv/emby/web'' \<and>
   ingressPathMatches (addIngressPathPrefix ''/emby/tv/web'' ''/tv'') ''/tv'' \<and>
   path (stripIngressPathPrefix (empty_url\<lparr>path := ''/tv/web''\<rparr>) ''/tv'') = ''/web''"
proof -
  have a: "addIngressPathPrefix ''/emby/tv/web'' ''/tv'' = ''/tv/emby/web''" by code_simp
  from ingress_mount_round_trip [of "''/tv''" "''/emby/tv/web''"]
  have "ingressPathMatches (addIngressPathPrefix ''/emby/tv/web'' ''/tv'') ''/tv''" by simp
  with a ingress_mount_round_trip [of "''/tv''" "''/web''" empty_url] show ?thesis by simp
qed

definition demo_cookies :: "unit cookie_lib" where
  "demo_cookies = \<lparr>parse_set_cookie = (\<lambda>_. None), cookie_string = (\<lambda>_ p. p)\<rparr>"

definition demo_parse :: url_parser where
  "demo_parse s = Some (empty_url\<lparr>scheme := ''http'', host := ''up.test'', path := ''/web''\<rparr>)"

definition demo_location :: http_header where
  "demo_location = [(''Location'', [''http://up.test/web''])]"

definition demo_up :: url where
  "demo_up = empty_url\<lparr>scheme := ''http'', host := ''up.test:80'', path := ''/''\<rparr>"


end
