(* ===== verification/Dynamic_Network.thy ===== *)
theory Dynamic_Network
  imports Ingress
begin

text \<open>
  \<open>cmd/meridian/dynamic_network.go\<close>: which hosts, URLs and addresses a discovered target
  may have, the policy that keeps Meridian from proxying to itself, the resolution of a target
  and the dialer that only connects to the addresses that were validated. The IDNA conversion and
  the public suffix list (\<open>golang.org/x/net\<close>), the parser of \<open>net/url\<close> and the
  enumeration of the local interfaces are arguments; nothing is assumed of them.
\<close>

datatype net_error = Invalid string | SelfTarget | DialFailed nat

text \<open>The functions of \<open>golang.org/x/net\<close> the program calls.\<close>

record name_lib =
  to_ascii :: "string \<Rightarrow> string option"                 \<comment> \<open>\<open>idna.Lookup.ToASCII\<close>\<close>
  public_suffix :: "string \<Rightarrow> string \<times> bool"
  effective_tld_plus_one :: "string \<Rightarrow> string option"

section \<open>Hosts\<close>

definition maxDynamicTargetURLBytes :: int where
  "maxDynamicTargetURLBytes = 4096"

definition maxDynamicResolvedIPCount :: int where
  "maxDynamicResolvedIPCount = 64"

definition containsDynamicUnsafeRune :: "string \<Rightarrow> bool" where
  "containsDynamicUnsafeRune s \<longleftrightarrow> has_control s \<or> has_space s"

text \<open>The DNS branch of \<open>normalizeDynamicHostSyntax\<close>.\<close>

definition ascii_host :: "name_lib \<Rightarrow> string \<Rightarrow> net_error + string" where
  "ascii_host lib value =
     (case to_ascii lib value of
        None \<Rightarrow> Inl (Invalid ''host is not valid IDNA'')
      | Some a \<Rightarrow>
          let ascii = to_lower (trim_suffix a ''.'')
          in if ascii = [] \<or> length ascii > 253 then Inl (Invalid ''host must be 1-253 ASCII bytes'')
             else if list_all dns_label_ok (split_on CHR ''.'' ascii) then Inr ascii
             else Inl (Invalid ''host contains an invalid DNS label''))"

definition normalizeDynamicHostSyntax :: "name_lib \<Rightarrow> string \<Rightarrow> net_error + (string \<times> bool)" where
  "normalizeDynamicHostSyntax lib value0 =
     (let value1 = trim_space value0
      in if value1 = [] \<or> containsDynamicUnsafeRune value1 then Inl (Invalid ''host is empty or unsafe'')
         else
           let open = has_prefix value1 ''[''; close = has_suffix value1 '']'';
               value2 = (if open \<or> close then trim_suffix (trim_prefix value1 ''['') '']'' else value1)
           in if (open \<or> close) \<and> \<not> (open \<and> close) then Inl (Invalid ''host contains mismatched brackets'')
              else if (open \<or> close) \<and> (parse_ip value2 = None \<or> \<not> contains_sub value2 '':'')
              then Inl (Invalid ''only IPv6 literals may use brackets'')
              else if contains_any value2 (''/@?#'' @ [CHR 0x5C]) \<or> contains_sub value2 ''%''
              then Inl (Invalid ''host contains URL syntax or an IPv6 zone'')
              else
                let value = trim_suffix value2 ''.''
                in if value = [] then Inl (Invalid ''host is empty'')
                   else case parse_ip value of
                     Some ip \<Rightarrow>
                       (case addr_from_slice ip of
                          None \<Rightarrow> Inl (Invalid ''host contains an invalid IP address'')
                        | Some a \<Rightarrow> Inr (addr_string (unmap a), True))
                   | None \<Rightarrow> (case ascii_host lib value of Inl e \<Rightarrow> Inl e | Inr h \<Rightarrow> Inr (h, False)))"

definition normalizeDynamicHost :: "name_lib \<Rightarrow> string \<Rightarrow> net_error + (string \<times> bool)" where
  "normalizeDynamicHost lib value =
     (case normalizeDynamicHostSyntax lib value of
        Inl e \<Rightarrow> Inl e
      | Inr (h, isIP) \<Rightarrow>
          if isIP then Inr (h, True)
          else
            let (suffix, icann) = public_suffix lib h
            in if suffix = [] \<or> \<not> icann \<and> \<not> contains_sub suffix ''.''
               then Inl (Invalid ''host must use a recognized public suffix'')
               else case effective_tld_plus_one lib h of
                 None \<Rightarrow> Inl (Invalid ''host must be below a public suffix'')
               | Some _ \<Rightarrow> Inr (h, False))"

section \<open>URLs\<close>

definition dynamicURLDecodedComponentIsSafe :: "string \<Rightarrow> bool \<Rightarrow> bool" where
  "dynamicURLDecodedComponentIsSafe value query \<longleftrightarrow>
     (if value = [] then True
      else case (if query then query_unescape value else path_unescape value) of
        None \<Rightarrow> False
      | Some decoded \<Rightarrow> \<not> has_control decoded \<and> \<not> contains_sub decoded [CHR 0x5C])"

definition dynamicURLPathHasDotSegments :: "string \<Rightarrow> bool" where
  "dynamicURLPathHasDotSegments value \<longleftrightarrow>
     (case path_unescape value of
        None \<Rightarrow> True
      | Some decoded \<Rightarrow> list_ex (\<lambda>seg. seg = ''.'' \<or> seg = ''..'') (split_on CHR ''/'' decoded))"

definition dynamicEffectivePort :: "url \<Rightarrow> string option" where
  "dynamicEffectivePort target =
     (let port = url_port target
      in if port = [] then
           (if to_lower (scheme target) = ''http'' then Some ''80''
            else if to_lower (scheme target) = ''https'' then Some ''443''
            else None)
         else if port_value_ok port then Some (itoa (digits_value port)) else None)"

definition dynamicURLHost :: "string \<Rightarrow> string \<Rightarrow> bool \<Rightarrow> string" where
  "dynamicURLHost h port explicitPort =
     (if explicitPort then join_host_port h port
      else if contains_sub h '':'' then ''['' @ h @ '']''
      else h)"

section \<open>Addresses\<close>

definition ip4 :: "nat \<Rightarrow> nat \<Rightarrow> nat \<Rightarrow> nat \<Rightarrow> addr" where
  "ip4 a b c d = V4 (push_bit 24 (of_nat a) OR push_bit 16 (of_nat b) OR push_bit 8 (of_nat c) OR of_nat d)"

definition ip6 :: "nat list \<Rightarrow> addr" where
  "ip6 gs = V6 (of_groups (gs @ replicate (8 - length gs) 0))"

definition dynamicForbiddenPrefixes :: "(addr \<times> nat) list" where
  "dynamicForbiddenPrefixes =
     [(ip4 0 0 0 0, 8), (ip4 10 0 0 0, 8), (ip4 100 64 0 0, 10), (ip4 127 0 0 0, 8), (ip4 169 254 0 0, 16),
      (ip4 172 16 0 0, 12), (ip4 192 0 0 0, 24), (ip4 192 0 2 0, 24), (ip4 192 31 196 0, 24), (ip4 192 52 193 0, 24),
      (ip4 192 88 99 0, 24), (ip4 192 168 0 0, 16), (ip4 192 175 48 0, 24), (ip4 198 18 0 0, 15), (ip4 198 51 100 0, 24),
      (ip4 203 0 113 0, 24), (ip4 224 0 0 0, 4), (ip4 240 0 0 0, 4),
      (ip6 [], 96), (ip6 [0x64, 0xff9b], 96), (ip6 [0x64, 0xff9b, 1], 48), (ip6 [0x100], 64), (ip6 [0x2001], 23),
      (ip6 [0x2001, 0xdb8], 32), (ip6 [0x2002], 16), (ip6 [0x3fff], 20), (ip6 [0x5f00], 16), (ip6 [0x2620, 0x4f, 0x8000], 48),
      (ip6 [0xfc00], 7), (ip6 [0xfe80], 10), (ip6 [0xfec0], 10), (ip6 [0xff00], 8)]"

definition dynamicIPIsPublic :: "addr \<Rightarrow> bool" where
  "dynamicIPIsPublic a0 \<longleftrightarrow>
     (let a = unmap a0
      in if \<not> is_global_unicast a \<or> is_private a \<or> is_loopback a \<or> is_link_local_unicast a \<or>
            is_link_local_multicast a \<or> is_multicast a \<or> is_unspecified a then False
         else \<not> list_ex (\<lambda>p. prefix_contains p a) dynamicForbiddenPrefixes)"

fun validate_ips :: "net_ip list \<Rightarrow> addr list \<Rightarrow> net_error + addr list" where
  "validate_ips [] seen = Inr (rev seen)"
| "validate_ips (ip # ips) seen =
     (case addr_from_slice ip of
        None \<Rightarrow> Inl (Invalid ''dynamic target returned an invalid IP address'')
      | Some a0 \<Rightarrow>
          let a = unmap a0
          in if \<not> dynamicIPIsPublic a then Inl (Invalid ''dynamic target returned a non-public or special IP address'')
             else if a \<in> set seen then validate_ips ips seen
             else validate_ips ips (a # seen))"

text \<open>The result is a list of slices that \<open>AsSlice\<close> makes; here it is the addresses.\<close>

definition validateDynamicResolvedIPs :: "net_ip list \<Rightarrow> net_error + addr list" where
  "validateDynamicResolvedIPs ips =
     (if ips = [] then Inl (Invalid ''dynamic target resolved to no IP addresses'') else validate_ips ips [])"

definition normalizeDynamicURL :: "name_lib \<Rightarrow> url_parser \<Rightarrow> string \<Rightarrow> net_error + url" where
  "normalizeDynamicURL lib parse value =
     (if value = [] then Inl (Invalid ''dynamic URL is required'')
      else if int (length value) > maxDynamicTargetURLBytes then Inl (Invalid ''dynamic URL is too long'')
      else if value \<noteq> trim_space value \<or> containsDynamicUnsafeRune value
      then Inl (Invalid ''dynamic URL contains whitespace or control characters'')
      else if contains_sub value [CHR 0x5C] then Inl (Invalid ''dynamic URL must not contain backslashes'')
      else if contains_sub value ''#'' then Inl (Invalid ''dynamic URL must not contain a fragment'')
      else case parse value of
        None \<Rightarrow> Inl (Invalid ''parse dynamic URL'')
      | Some p0 \<Rightarrow>
          let p = p0\<lparr>scheme := to_lower (scheme p0)\<rparr>
          in if scheme p \<noteq> ''http'' \<and> scheme p \<noteq> ''https'' then Inl (Invalid ''dynamic URL scheme must be http or https'')
             else if opaque p \<noteq> [] \<or> host p = [] \<or> url_hostname p = []
             then Inl (Invalid ''dynamic URL must be an absolute hierarchical URL'')
             else if user p \<noteq> None then Inl (Invalid ''dynamic URL must not contain userinfo'')
             else if fragment p \<noteq> [] \<or> raw_fragment p \<noteq> [] then Inl (Invalid ''dynamic URL must not contain a fragment'')
             else if contains_sub (host p) ''%'' then Inl (Invalid ''dynamic URL must not contain an IPv6 zone or escaped host'')
             else if has_prefix (host p) ''['' \<and>
                (case parse_ip (url_hostname p) of None \<Rightarrow> True | Some ip \<Rightarrow> to4 ip \<noteq> None)
             then Inl (Invalid ''dynamic URL brackets require an IPv6 literal'')
             else if \<not> dynamicURLDecodedComponentIsSafe (url_escaped_path p) False \<or>
                \<not> dynamicURLDecodedComponentIsSafe (raw_query p) True
             then Inl (Invalid ''dynamic URL contains an escaped whitespace or control character'')
             else if dynamicURLPathHasDotSegments (url_escaped_path p)
             then Inl (Invalid ''dynamic URL must not contain dot path segments'')
             else case normalizeDynamicHost lib (url_hostname p) of
               Inl e \<Rightarrow> Inl e
             | Inr (h, isIP) \<Rightarrow>
                 let bad = (if isIP then (case validateDynamicResolvedIPs (case parse_ip h of None \<Rightarrow> [OtherSlice] | Some ip \<Rightarrow> [ip]) of
                              Inl e \<Rightarrow> Some e | Inr _ \<Rightarrow> None) else None);
                     explicitPort = (url_port p \<noteq> [])
                 in case bad of
                      Some e \<Rightarrow> Inl e
                    | None \<Rightarrow>
                        if \<not> explicitPort \<and> has_suffix (host p) '':'' then Inl (Invalid ''dynamic URL contains an invalid port'')
                        else case dynamicEffectivePort p of
                          None \<Rightarrow> Inl (Invalid ''dynamic URL contains an invalid port'')
                        | Some port \<Rightarrow> Inr (p\<lparr>host := dynamicURLHost h port explicitPort\<rparr>))"

section \<open>Meridian's own addresses\<close>

text \<open>What \<open>net.InterfaceAddrs\<close> lists: the two concrete types, another one by its text, or nil.\<close>

datatype iface = IPNet net_ip | IPAddr net_ip | OtherIface string | NilIface

definition strip_zone :: "string \<Rightarrow> string" where
  "strip_zone raw =
     (if CHR ''%'' \<in> set raw
      then take (length raw - Suc (length (takeWhile (\<lambda>c. c \<noteq> CHR ''%'') (rev raw)))) raw else raw)"

definition dynamicInterfaceAddrIP :: "iface \<Rightarrow> net_error + addr" where
  "dynamicInterfaceAddrIP v =
     (let ip = (case v of
                  NilIface \<Rightarrow> None
                | IPNet i \<Rightarrow> Some i
                | IPAddr i \<Rightarrow> Some i
                | OtherIface raw \<Rightarrow>
                    (case parse_cidr_ip raw of Some i \<Rightarrow> Some i | None \<Rightarrow> parse_ip (strip_zone raw)))
      in case ip of
           None \<Rightarrow> Inl (Invalid ''local interface returned an invalid IP address'')
         | Some i \<Rightarrow> (case addr_from_slice i of
                        None \<Rightarrow> Inl (Invalid ''local interface returned an invalid IP address'')
                      | Some a \<Rightarrow> Inr (unmap a)))"

fun interface_ips :: "iface list \<Rightarrow> net_error + addr list" where
  "interface_ips [] = Inr []"
| "interface_ips (v # vs) =
     (case dynamicInterfaceAddrIP v of
        Inl e \<Rightarrow> Inl e
      | Inr a \<Rightarrow> (case interface_ips vs of Inl e \<Rightarrow> Inl e | Inr as \<Rightarrow> Inr (a # as)))"

text \<open>\<open>None\<close>: the enumeration failed.\<close>

definition snapshotDynamicInterfaceIPs :: "iface list option \<Rightarrow> net_error + addr list" where
  "snapshotDynamicInterfaceIPs addrs =
     (case addrs of None \<Rightarrow> Inl (Invalid ''snapshot local interface addresses'') | Some vs \<Rightarrow> interface_ips vs)"

record site_entry =
  site_public_host :: string
  site_ingress_mode :: string
  site_listen_port :: int

record self_policy =
  deniedHosts :: "string list"
  localIPs :: "addr list"

fun deny_sites :: "site_entry list \<Rightarrow> string list \<Rightarrow> net_error + string list" where
  "deny_sites [] denied = Inr denied"
| "deny_sites (s # ss) denied =
     (case normalizePublicHost (site_public_host s) of
        None \<Rightarrow> Inl (Invalid ''site has an invalid dynamic self-target authority'')
      | Some publicHost \<Rightarrow>
          (case normalizeIngressMode (site_ingress_mode s) publicHost of
             None \<Rightarrow> Inl (Invalid ''site has invalid ingress for dynamic self-target policy'')
           | Some mode \<Rightarrow>
               if ingressUsesPort mode \<and> \<not> (1 \<le> site_listen_port s \<and> site_listen_port s \<le> 65535)
               then Inl (Invalid ''site has an invalid listener port'')
               else deny_sites ss (if publicHost \<noteq> [] then publicHost # denied else denied)))"

definition newDynamicSelfTargetPolicy :: "string \<Rightarrow> int \<Rightarrow> site_entry list \<Rightarrow> iface list option \<Rightarrow> net_error + self_policy" where
  "newDynamicSelfTargetPolicy panelHost0 panelPort sites addrs =
     (if \<not> (1 \<le> panelPort \<and> panelPort \<le> 65535) then Inl (Invalid ''panel listener port must be between 1 and 65535'')
      else case normalizePublicHost panelHost0 of
        None \<Rightarrow> Inl (Invalid ''invalid panel authority for dynamic self-target policy'')
      | Some panelHost \<Rightarrow>
          (case snapshotDynamicInterfaceIPs addrs of
             Inl e \<Rightarrow> Inl e
           | Inr local \<Rightarrow>
               (case deny_sites sites (if panelHost \<noteq> [] then [panelHost] else []) of
                  Inl e \<Rightarrow> Inl e
                | Inr denied \<Rightarrow> Inr \<lparr>deniedHosts = denied, localIPs = local\<rparr>)))"

text \<open>\<open>None\<close> is the nil error.\<close>

definition validateIPAgainst :: "self_policy \<Rightarrow> net_ip \<Rightarrow> addr list \<Rightarrow> net_error option" where
  "validateIPAgainst p ip current =
     (case addr_from_slice ip of
        None \<Rightarrow> Some (Invalid ''dynamic target returned an invalid IP address'')
      | Some a0 \<Rightarrow>
          let a = unmap a0
          in if a \<in> set (localIPs p) then Some SelfTarget
             else if a \<in> set current then Some SelfTarget else None)"

definition validateIP :: "self_policy \<Rightarrow> net_ip \<Rightarrow> iface list option \<Rightarrow> net_error option" where
  "validateIP p ip addrs =
     (case snapshotDynamicInterfaceIPs addrs of Inl e \<Rightarrow> Some e | Inr current \<Rightarrow> validateIPAgainst p ip current)"

definition validateNormalizedTarget :: "name_lib \<Rightarrow> self_policy \<Rightarrow> url \<Rightarrow> iface list option \<Rightarrow> net_error option" where
  "validateNormalizedTarget lib p target addrs =
     (case normalizeDynamicHost lib (url_hostname target) of
        Inl e \<Rightarrow> Some e
      | Inr (h, isIP) \<Rightarrow>
          if h \<in> set (deniedHosts p) then Some SelfTarget
          else if dynamicEffectivePort target = None
          then Some (Invalid ''validate dynamic self-target authority: target has no effective port'')
          else if isIP then validateIP p (case parse_ip h of None \<Rightarrow> OtherSlice | Some ip \<Rightarrow> ip) addrs
          else None)"

definition first_error :: "net_error option list \<Rightarrow> net_error option" where
  "first_error es = (case filter (\<lambda>e. e \<noteq> None) es of [] \<Rightarrow> None | e # _ \<Rightarrow> e)"

definition validateDynamicResolvedIPsWithPolicy :: "net_ip list \<Rightarrow> self_policy option \<Rightarrow> iface list option \<Rightarrow> net_error + addr list" where
  "validateDynamicResolvedIPsWithPolicy ips policy addrs =
     (case policy of
        None \<Rightarrow> Inl (Invalid ''dynamic self-target policy snapshot is required'')
      | Some p \<Rightarrow>
          (case validateDynamicResolvedIPs ips of
             Inl e \<Rightarrow> Inl e
           | Inr validated \<Rightarrow>
               (case snapshotDynamicInterfaceIPs addrs of
                  Inl e \<Rightarrow> Inl e
                | Inr current \<Rightarrow>
                    (case first_error (map (\<lambda>a. validateIPAgainst p (as_slice a) current) validated) of
                       Some e \<Rightarrow> Inl e
                     | None \<Rightarrow> Inr validated))))"

text \<open>
  The resolver answers with addresses and their zones. The interfaces are enumerated twice, by
  the check of a literal host and by the check of the resolved addresses.
\<close>

definition resolveDynamicURLIPs :: "name_lib \<Rightarrow> url_parser \<Rightarrow> (string \<Rightarrow> (net_ip \<times> string) list option) \<Rightarrow> url option \<Rightarrow> int \<Rightarrow>
    self_policy option \<Rightarrow> iface list option \<Rightarrow> iface list option \<Rightarrow> net_error + addr list" where
  "resolveDynamicURLIPs lib parse lookup target maxIPs policy addrs1 addrs2 =
     (case policy of
        None \<Rightarrow> Inl (Invalid ''dynamic self-target policy snapshot is required'')
      | Some p \<Rightarrow>
          if maxIPs < 1 \<or> maxDynamicResolvedIPCount < maxIPs then Inl (Invalid ''dynamic IP limit is out of range'')
          else case target of
            None \<Rightarrow> Inl (Invalid ''dynamic target is required'')
          | Some t \<Rightarrow>
              (case normalizeDynamicURL lib parse (url_string t) of
                 Inl e \<Rightarrow> Inl e
               | Inr normalized \<Rightarrow>
                   (case validateNormalizedTarget lib p normalized addrs1 of
                      Some e \<Rightarrow> Inl e
                    | None \<Rightarrow>
                        (case parse_ip (url_hostname normalized) of
                           Some ip \<Rightarrow> validateDynamicResolvedIPsWithPolicy [ip] policy addrs2
                         | None \<Rightarrow>
                             (case lookup (url_hostname normalized) of
                                None \<Rightarrow> Inl (Invalid ''resolve dynamic target'')
                              | Some answers \<Rightarrow>
                                  if int (length answers) > maxIPs then Inl (Invalid ''dynamic target returned too many IP addresses'')
                                  else if list_ex (\<lambda>(ip, zone). zone \<noteq> []) answers
                                  then Inl (Invalid ''dynamic target returned an IPv6 zone'')
                                  else validateDynamicResolvedIPsWithPolicy (map fst answers) policy addrs2)))))"

section \<open>The pinned dialer\<close>

record pinned =
  pin_target :: url
  expectedHost :: string
  expectedPort :: string
  pins :: "addr list"

definition newDynamicTransportWithDialerTimeout :: "name_lib \<Rightarrow> url_parser \<Rightarrow> url option \<Rightarrow> net_ip list \<Rightarrow> bool \<Rightarrow>
    self_policy option \<Rightarrow> duration \<Rightarrow> iface list option \<Rightarrow> iface list option \<Rightarrow> net_error + pinned" where
  "newDynamicTransportWithDialerTimeout lib parse target pinnedIPs hasDialer policy totalDialTimeout addrs1 addrs2 =
     (case policy of
        None \<Rightarrow> Inl (Invalid ''dynamic self-target policy snapshot is required'')
      | Some p \<Rightarrow>
          if pinnedIPs = [] \<or> int (length pinnedIPs) > maxDynamicResolvedIPCount then Inl (Invalid ''dynamic transport pins are out of range'')
          else if target = None \<or> \<not> hasDialer then Inl (Invalid ''dynamic transport requires a target and dialer'')
          else if totalDialTimeout \<le> 0 then Inl (Invalid ''dynamic transport requires a positive total dial timeout'')
          else case normalizeDynamicURL lib parse (url_string (the target)) of
            Inl e \<Rightarrow> Inl e
          | Inr normalized \<Rightarrow>
              (case validateNormalizedTarget lib p normalized addrs1 of
                 Some e \<Rightarrow> Inl e
               | None \<Rightarrow>
                   (case validateDynamicResolvedIPsWithPolicy pinnedIPs policy addrs2 of
                      Inl e \<Rightarrow> Inl e
                    | Inr validated \<Rightarrow>
                        (case dynamicEffectivePort normalized of
                           None \<Rightarrow> Inl (Invalid ''dynamic transport target has no effective port'')
                         | Some port \<Rightarrow>
                             let h = url_hostname normalized;
                                 result = Inr \<lparr>pin_target = normalized, expectedHost = h, expectedPort = port, pins = validated\<rparr>
                             in case parse_ip h of
                                  None \<Rightarrow> result
                                | Some ip \<Rightarrow>
                                    if list_ex (\<lambda>a. Some a \<noteq> map_option unmap (addr_from_slice ip)) validated
                                    then Inl (Invalid ''dynamic transport pins do not match the literal target IP'')
                                    else result))))"

text \<open>\<open>net.SplitHostPort\<close>.\<close>

definition net_split_host_port :: "string \<Rightarrow> (string \<times> string) option" where
  "net_split_host_port hp =
     (case hp of
        [] \<Rightarrow> None
      | c # r \<Rightarrow>
          if c = CHR ''['' then
            (let (h, rest, found) = cut CHR '']'' r
             in case rest of
                  [] \<Rightarrow> None
                | d # p \<Rightarrow> if \<not> found \<or> d \<noteq> CHR '':'' \<or> CHR '':'' \<in> set p \<or> CHR ''['' \<in> set h \<or> CHR ''['' \<in> set p \<or> CHR '']'' \<in> set p
                           then None else Some (h, p))
          else
            (case last_colon hp of
               None \<Rightarrow> None
             | Some (h, p) \<Rightarrow>
                 if CHR '':'' \<in> set h \<or> CHR ''['' \<in> set hp \<or> CHR '']'' \<in> set hp then None else Some (h, p)))"

text \<open>
  What the dialer meets at its \<open>n\<close>-th look at a pin: whether the dial context has ended, the
  interfaces of that moment, and whether the connection to an address comes up.
\<close>

record dial_env =
  dial_done :: "nat \<Rightarrow> bool"
  dial_ifaces :: "nat \<Rightarrow> iface list option"
  connects :: "nat \<Rightarrow> string \<Rightarrow> bool"

definition network_fits :: "string \<Rightarrow> addr \<Rightarrow> bool" where
  "network_fits network a \<longleftrightarrow>
     \<not> (network = ''tcp4'' \<and> to4 (as_slice a) = None \<or> network = ''tcp6'' \<and> to4 (as_slice a) \<noteq> None)"

text \<open>The connection or the error, and the addresses a connection was tried to.\<close>

fun dial_pins :: "dial_env \<Rightarrow> self_policy \<Rightarrow> string \<Rightarrow> string \<Rightarrow> nat \<Rightarrow> addr list \<Rightarrow> net_error option \<Rightarrow>
    (net_error + addr) \<times> addr list" where
  "dial_pins env p network port n [] lastErr =
     (Inl (case lastErr of None \<Rightarrow> Invalid ''no pinned IP address supports network'' | Some e \<Rightarrow> e), [])"
| "dial_pins env p network port n (a # as) lastErr =
     (if dial_done env n then (Inl (Invalid ''dial context ended''), [])
      else if \<not> network_fits network a then dial_pins env p network port (Suc n) as lastErr
      else case validateIP p (as_slice a) (dial_ifaces env n) of
        Some e \<Rightarrow> (Inl e, [])
      | None \<Rightarrow>
          if connects env n (join_host_port (addr_string a) port) then (Inr a, [a])
          else let (r, tried) = dial_pins env p network port (Suc n) as (Some (DialFailed n)) in (r, a # tried))"

definition dial_context :: "name_lib \<Rightarrow> self_policy \<Rightarrow> pinned \<Rightarrow> dial_env \<Rightarrow> iface list option \<Rightarrow> string \<Rightarrow> string \<Rightarrow>
    (net_error + addr) \<times> addr list" where
  "dial_context lib p t env addrs network address =
     (case net_split_host_port address of
        None \<Rightarrow> (Inl (Invalid ''dynamic transport received an invalid dial authority''), [])
      | Some (h0, port) \<Rightarrow>
          (case normalizeDynamicHost lib h0 of
             Inl e \<Rightarrow> (Inl (Invalid ''dynamic transport refused unpinned authority''), [])
           | Inr (h, isIP) \<Rightarrow>
               if h \<noteq> expectedHost t \<or> port \<noteq> expectedPort t
               then (Inl (Invalid ''dynamic transport refused unpinned authority''), [])
               else case validateNormalizedTarget lib p (pin_target t) addrs of
                 Some e \<Rightarrow> (Inl e, [])
               | None \<Rightarrow> dial_pins env p network (expectedPort t) 0 (pins t) None))"

section \<open>Lemmas\<close>

lemma unmap_public [simp]: "dynamicIPIsPublic (unmap a) = dynamicIPIsPublic a"
  by (simp add: dynamicIPIsPublic_def)

text \<open>The validated addresses: every answer was public, and the distinct ones are kept in order.\<close>

lemma validate_ips_Inr:
  "validate_ips ips seen = Inr as \<Longrightarrow>
   (\<forall>ip\<in>set ips. \<exists>a. addr_from_slice ip = Some a \<and> dynamicIPIsPublic a) \<and>
   set as = set seen \<union> (unmap \<circ> the \<circ> addr_from_slice) ` set ips \<and> (distinct seen \<longrightarrow> distinct as) \<and>
   length as \<le> length seen + length ips"
proof (induction ips seen rule: validate_ips.induct)
  case (1 seen)
  then show ?case by auto
next
  case (2 ip ips seen)
  then obtain a0 where a0: "addr_from_slice ip = Some a0" by (auto split: option.splits)
  with 2(3) have pub: "dynamicIPIsPublic a0" by (auto simp: Let_def split: if_splits)
  show ?case
  proof (cases "unmap a0 \<in> set seen")
    case True
    with 2(3) a0 pub have "validate_ips ips seen = Inr as" by (simp add: Let_def)
    from 2(1) [OF a0 refl _ True this] pub a0 True show ?thesis by auto
  next
    case False
    with 2(3) a0 pub have "validate_ips ips (unmap a0 # seen) = Inr as" by (simp add: Let_def)
    from 2(2) [OF a0 refl _ False this] pub a0 False show ?thesis by auto
  qed
qed

lemma validate_ips_complete:
  "(\<forall>ip\<in>set ips. \<exists>a. addr_from_slice ip = Some a \<and> dynamicIPIsPublic a) \<Longrightarrow> \<exists>as. validate_ips ips seen = Inr as"
  by (induction ips seen rule: validate_ips.induct) (auto simp: Let_def)

definition answers_ok :: "net_ip list \<Rightarrow> bool" where
  "answers_ok ips \<longleftrightarrow> ips \<noteq> [] \<and> (\<forall>ip\<in>set ips. \<exists>a. addr_from_slice ip = Some a \<and> dynamicIPIsPublic a)"

lemma validated_facts:
  assumes "validateDynamicResolvedIPs ips = Inr as"
  shows "answers_ok ips" "set as = (unmap \<circ> the \<circ> addr_from_slice) ` set ips" "distinct as" "length as \<le> length ips"
    "as \<noteq> []" "a \<in> set as \<Longrightarrow> dynamicIPIsPublic a \<and> unmap a = a"
proof -
  have n: "ips \<noteq> []" and v: "validate_ips ips [] = Inr as"
    using assms by (auto simp: validateDynamicResolvedIPs_def split: if_splits)
  note f = validate_ips_Inr [OF v]
  show "answers_ok ips" "set as = (unmap \<circ> the \<circ> addr_from_slice) ` set ips" "distinct as" "length as \<le> length ips"
    using f n by (simp_all add: answers_ok_def)
  have "(unmap \<circ> the \<circ> addr_from_slice) (hd ips) \<in> set as" using f n by simp
  then show "as \<noteq> []" by auto
  show "dynamicIPIsPublic a \<and> unmap a = a" if "a \<in> set as"
  proof -
    from f that obtain ip where ip: "ip \<in> set ips" "a = unmap (the (addr_from_slice ip))" by auto
    with f obtain b where "addr_from_slice ip = Some b" "dynamicIPIsPublic b" by blast
    with ip show ?thesis by simp
  qed
qed

lemma first_error_None: "first_error es = None \<longleftrightarrow> (\<forall>e\<in>set es. e = None)"
  by (induction es) (auto simp: first_error_def)

lemma guard_Inr: "(if c then Inl e else x) = Inr y \<longleftrightarrow> \<not> c \<and> x = Inr y"
  by simp

text \<open>An address that is neither in the snapshot of the policy nor on an interface now.\<close>

definition not_local :: "self_policy \<Rightarrow> iface list option \<Rightarrow> addr \<Rightarrow> bool" where
  "not_local p addrs a \<longleftrightarrow> a \<notin> set (localIPs p) \<and>
     (case snapshotDynamicInterfaceIPs addrs of Inl _ \<Rightarrow> False | Inr current \<Rightarrow> a \<notin> set current)"

lemma validateIP_not_local: "validateIP p (as_slice a) addrs = None \<Longrightarrow> unmap a = a \<Longrightarrow> not_local p addrs a"
  by (auto simp: validateIP_def validateIPAgainst_def not_local_def Let_def split: sum.splits if_splits)

lemma policy_facts:
  assumes "validateDynamicResolvedIPsWithPolicy ips (Some p) addrs = Inr as"
  shows "validateDynamicResolvedIPs ips = Inr as" "a \<in> set as \<Longrightarrow> not_local p addrs a"
proof -
  obtain cur where c: "snapshotDynamicInterfaceIPs addrs = Inr cur" "validateDynamicResolvedIPs ips = Inr as"
    "first_error (map (\<lambda>a. validateIPAgainst p (as_slice a) cur) as) = None"
    using assms by (auto simp: validateDynamicResolvedIPsWithPolicy_def split: sum.splits option.splits)
  show "validateDynamicResolvedIPs ips = Inr as" by (rule c)
  show "not_local p addrs a" if "a \<in> set as"
  proof -
    have "unmap a = a" using validated_facts(6) [OF c(2) that] by blast
    moreover have "validateIPAgainst p (as_slice a) cur = None" using c(3) that by (simp add: first_error_None)
    ultimately show ?thesis
      using c(1) by (auto simp: validateIPAgainst_def not_local_def Let_def split: if_splits)
  qed
qed

definition target_ok :: "name_lib \<Rightarrow> self_policy \<Rightarrow> url \<Rightarrow> bool" where
  "target_ok lib p u \<longleftrightarrow>
     (\<exists>h isIP. normalizeDynamicHost lib (url_hostname u) = Inr (h, isIP) \<and> h \<notin> set (deniedHosts p))"

lemma validateNormalizedTarget_ok: "validateNormalizedTarget lib p u addrs = None \<Longrightarrow> target_ok lib p u"
  by (auto simp: validateNormalizedTarget_def target_ok_def split: sum.splits if_splits)

lemma normalizeDynamicURL_facts:
  assumes "normalizeDynamicURL lib parse v = Inr u"
  shows "scheme u = ''http'' \<or> scheme u = ''https''" "user u = None" "fragment u = []" "opaque u = []" "int (length v) \<le> maxDynamicTargetURLBytes"
    "\<not> containsDynamicUnsafeRune v" "\<not> dynamicURLPathHasDotSegments (url_escaped_path u)"
    "dynamicURLDecodedComponentIsSafe (url_escaped_path u) False" "dynamicURLDecodedComponentIsSafe (raw_query u) True"
    "\<exists>h isIP q port. host u = dynamicURLHost h port q \<and> normalizeDynamicHost lib (url_hostname (the (parse v))) = Inr (h, isIP) \<and>
       (isIP \<longrightarrow> (\<exists>ip a. parse_ip h = Some ip \<and> addr_from_slice ip = Some a \<and> dynamicIPIsPublic a))"
proof -
  obtain p0 where p0: "parse v = Some p0" using assms by (auto simp: normalizeDynamicURL_def split: if_splits option.splits)
  let ?p = "p0\<lparr>scheme := to_lower (scheme p0)\<rparr>"
  have esc: "url_escaped_path (?p\<lparr>host := x\<rparr>) = url_escaped_path ?p" for x by (simp add: url_escaped_path_def)
  have hn: "url_hostname ?p = url_hostname p0" by (simp add: url_hostname_def)
  obtain h isIP port where h: "normalizeDynamicHost lib (url_hostname ?p) = Inr (h, isIP)"
    and lit: "isIP \<longrightarrow> (\<exists>ips. validateDynamicResolvedIPs (case parse_ip h of None \<Rightarrow> [OtherSlice] | Some ip \<Rightarrow> [ip]) = Inr ips)"
    and u: "u = ?p\<lparr>host := dynamicURLHost h port (url_port ?p \<noteq> [])\<rparr>"
    and g: "scheme ?p = ''http'' \<or> scheme ?p = ''https''" "user ?p = None" "fragment ?p = []" "opaque ?p = []" "int (length v) \<le> maxDynamicTargetURLBytes"
      "\<not> containsDynamicUnsafeRune v" "\<not> dynamicURLPathHasDotSegments (url_escaped_path ?p)"
      "dynamicURLDecodedComponentIsSafe (url_escaped_path ?p) False" "dynamicURLDecodedComponentIsSafe (raw_query ?p) True"
  proof -
    let ?rest = "case normalizeDynamicHost lib (url_hostname ?p) of
         Inl e \<Rightarrow> Inl e
       | Inr (h, isIP) \<Rightarrow>
           (case (if isIP then (case validateDynamicResolvedIPs (case parse_ip h of None \<Rightarrow> [OtherSlice] | Some ip \<Rightarrow> [ip]) of
                Inl e \<Rightarrow> Some e | Inr _ \<Rightarrow> None) else None) of
              Some e \<Rightarrow> Inl e
            | None \<Rightarrow>
                if \<not> url_port ?p \<noteq> [] \<and> has_suffix (host ?p) '':'' then Inl (Invalid ''dynamic URL contains an invalid port'')
                else case dynamicEffectivePort ?p of
                  None \<Rightarrow> Inl (Invalid ''dynamic URL contains an invalid port'')
                | Some port \<Rightarrow> Inr (?p\<lparr>host := dynamicURLHost h port (url_port ?p \<noteq> [])\<rparr>))"
    note un = assms [unfolded normalizeDynamicURL_def Let_def p0 option.case guard_Inr]
    have g: "scheme ?p = ''http'' \<or> scheme ?p = ''https''" "user ?p = None" "fragment ?p = []" "opaque ?p = []"
      "int (length v) \<le> maxDynamicTargetURLBytes"
      "\<not> containsDynamicUnsafeRune v" "\<not> dynamicURLPathHasDotSegments (url_escaped_path ?p)"
      "dynamicURLDecodedComponentIsSafe (url_escaped_path ?p) False" "dynamicURLDecodedComponentIsSafe (raw_query ?p) True"
      using un by linarith+
    have r: "?rest = Inr u" using un by blast
    then obtain h isIP where h: "normalizeDynamicHost lib (url_hostname ?p) = Inr (h, isIP)"
      by (cases "normalizeDynamicHost lib (url_hostname ?p)") auto
    show thesis
    proof (cases "dynamicEffectivePort ?p")
      case None
      with r h show thesis by (simp split: option.splits if_splits)
    next
      case (Some port)
      with r h have "u = ?p\<lparr>host := dynamicURLHost h port (url_port ?p \<noteq> [])\<rparr>"
        "isIP \<longrightarrow> (\<exists>ips. validateDynamicResolvedIPs (case parse_ip h of None \<Rightarrow> [OtherSlice] | Some ip \<Rightarrow> [ip]) = Inr ips)"
        by (simp_all split: option.splits if_splits sum.splits)
      with that h g show thesis by blast
    qed
  qed
  show "scheme u = ''http'' \<or> scheme u = ''https''" "user u = None" "fragment u = []" "opaque u = []" "int (length v) \<le> maxDynamicTargetURLBytes"
    "\<not> containsDynamicUnsafeRune v" "\<not> dynamicURLPathHasDotSegments (url_escaped_path u)"
    "dynamicURLDecodedComponentIsSafe (url_escaped_path u) False" "dynamicURLDecodedComponentIsSafe (raw_query u) True"
    using g unfolding u esc by simp_all
  have "\<exists>ip a. parse_ip h = Some ip \<and> addr_from_slice ip = Some a \<and> dynamicIPIsPublic a" if "isIP"
  proof -
    from lit that obtain ips where v: "validateDynamicResolvedIPs (case parse_ip h of None \<Rightarrow> [OtherSlice] | Some ip \<Rightarrow> [ip]) = Inr ips" by blast
    from validated_facts(1) [OF v] show ?thesis
      by (auto simp: answers_ok_def addr_from_slice_def split: option.splits net_ip.splits)
  qed
  with u h hn p0 show "\<exists>h isIP q port. host u = dynamicURLHost h port q \<and> normalizeDynamicHost lib (url_hostname (the (parse v))) = Inr (h, isIP) \<and>
       (isIP \<longrightarrow> (\<exists>ip a. parse_ip h = Some ip \<and> addr_from_slice ip = Some a \<and> dynamicIPIsPublic a))" by auto
qed

lemma dial_pins_tried:
  "\<lbrakk>dial_pins env p network port n as lastErr = (res, tried); \<forall>a\<in>set as. unmap a = a\<rbrakk> \<Longrightarrow>
   (\<forall>a\<in>set tried. a \<in> set as \<and> network_fits network a \<and> (\<exists>i. not_local p (dial_ifaces env i) a)) \<and>
   (\<forall>a. res = Inr a \<longrightarrow> a \<in> set tried)"
proof (induction env p network port n as lastErr arbitrary: res tried rule: dial_pins.induct)
  case (2 env p network port n a as lastErr)
  show ?case
  proof (cases "dial_done env n \<or> \<not> network_fits network a")
    case True
    show ?thesis
    proof (cases "dial_done env n")
      case True
      with 2(3) have "tried = []" "res = Inl (Invalid ''dial context ended'')" by simp_all
      then show ?thesis by simp
    next
      case going: False
      with True 2(3) have "dial_pins env p network port (Suc n) as lastErr = (res, tried)" by simp
      with 2(1) [OF going _ this] True going 2(4) show ?thesis by auto
    qed
  next
    case False
    show ?thesis
    proof (cases "validateIP p (as_slice a) (dial_ifaces env n)")
      case (Some e)
      with False 2(3) show ?thesis by auto
    next
      case None
      then have local: "not_local p (dial_ifaces env n) a" using 2(4) validateIP_not_local by auto
      show ?thesis
      proof (cases "connects env n (join_host_port (addr_string a) port)")
        case True
        with None False 2(3) local show ?thesis by auto
      next
        case c: False
        obtain r t where rt: "dial_pins env p network port (Suc n) as (Some (DialFailed n)) = (r, t)" by fastforce
        with c None False 2(3) have "res = r" "tried = a # t" by (simp_all add: Let_def)
        with 2(2) [OF _ _ None c rt] False 2(4) local show ?thesis by auto
      qed
    qed
  qed
qed simp

lemma dial_context_cases:
  assumes "dial_context lib p t env addrs network address = (res, tried)"
  obtains (refused) e where "res = Inl e" "tried = []"
  | (dialled) h isIP where "net_split_host_port address = Some (h, expectedPort t)"
      "normalizeDynamicHost lib h = Inr (expectedHost t, isIP)" "validateNormalizedTarget lib p (pin_target t) addrs = None"
      "dial_pins env p network (expectedPort t) 0 (pins t) None = (res, tried)"
proof (cases "net_split_host_port address")
  case None
  with assms refused show thesis by (auto simp: dial_context_def)
next
  case (Some hp)
  obtain h port where hp: "hp = (h, port)" by (cases hp)
  show thesis
  proof (cases "normalizeDynamicHost lib h")
    case (Inl e)
    with assms refused Some hp show thesis by (auto simp: dial_context_def)
  next
    case (Inr r)
    obtain h' isIP where r: "r = (h', isIP)" by (cases r)
    show thesis
    proof (cases "h' \<noteq> expectedHost t \<or> port \<noteq> expectedPort t")
      case True
      with assms refused Some hp Inr r show thesis by (auto simp: dial_context_def)
    next
      case False
      show thesis
      proof (cases "validateNormalizedTarget lib p (pin_target t) addrs")
        case None
        with assms Some hp Inr r False dialled show thesis by (auto simp: dial_context_def)
      next
        case e: (Some e)
        with assms refused Some hp Inr r False show thesis by (auto simp: dial_context_def)
      qed
    qed
  qed
qed

section \<open>The prefixes decide\<close>

lemma forbidden_literals:
  "dynamicForbiddenPrefixes =
     [(V4 0, 8), (V4 0xa000000, 8), (V4 0x64400000, 10), (V4 0x7f000000, 8), (V4 0xa9fe0000, 16),
      (V4 0xac100000, 12), (V4 0xc0000000, 24), (V4 0xc0000200, 24), (V4 0xc01fc400, 24),
      (V4 0xc034c100, 24), (V4 0xc0586300, 24), (V4 0xc0a80000, 16), (V4 0xc0af3000, 24),
      (V4 0xc6120000, 15), (V4 0xc6336400, 24), (V4 0xcb007100, 24), (V4 0xe0000000, 4),
      (V4 0xf0000000, 4), (V6 0, 96), (V6 0x64ff9b000000000000000000000000, 96),
      (V6 0x64ff9b000100000000000000000000, 48), (V6 0x1000000000000000000000000000000, 64),
      (V6 0x20010000000000000000000000000000, 23), (V6 0x20010db8000000000000000000000000, 32),
      (V6 0x20020000000000000000000000000000, 16), (V6 0x3fff0000000000000000000000000000, 20),
      (V6 0x5f000000000000000000000000000000, 16), (V6 0x2620004f800000000000000000000000, 48),
      (V6 0xfc000000000000000000000000000000, 7), (V6 0xfe800000000000000000000000000000, 10),
      (V6 0xfec00000000000000000000000000000, 10), (V6 0xff000000000000000000000000000000, 8)]"
proof -
  have r: "replicate 5 (0::nat) = [0, 0, 0, 0, 0]" "replicate 6 (0::nat) = [0, 0, 0, 0, 0, 0]"
    "replicate 7 (0::nat) = [0, 0, 0, 0, 0, 0, 0]" "replicate 8 (0::nat) = [0, 0, 0, 0, 0, 0, 0, 0]"
    by (simp_all add: numeral_eq_Suc)
  show ?thesis by (simp add: dynamicForbiddenPrefixes_def ip4_def ip6_def of_groups_def r)
qed

lemma special_v4:
  assumes "\<not> is_global_unicast (V4 w) \<or> is_private (V4 w) \<or> is_loopback (V4 w) \<or> is_link_local_unicast (V4 w) \<or>
    is_link_local_multicast (V4 w) \<or> is_multicast (V4 w) \<or> is_unspecified (V4 w)"
  shows "list_ex (\<lambda>p. prefix_contains p (V4 w)) dynamicForbiddenPrefixes"
proof -
  have m: "drop_bit 28 w = 0xE" if "drop_bit 8 w = 0xE00000"
  proof -
    have "drop_bit 28 w = drop_bit 20 (drop_bit 8 w)" by (simp add: drop_bit_drop_bit)
    then show ?thesis by (simp add: that)
  qed
  from assms consider "w = 0" | "w = 0xFFFFFFFF" | "drop_bit 24 w = 127" | "drop_bit 28 w = 0xE" | "drop_bit 16 w = 0xA9FE"
    | "drop_bit 24 w = 10" | "drop_bit 20 w = 0xAC1" | "drop_bit 16 w = 0xC0A8"
    using m by (auto simp: is_global_unicast_def is_private_def is_loopback_def is_link_local_unicast_def
        is_link_local_multicast_def is_multicast_def is_unspecified_def)
  then show ?thesis by cases (simp_all add: forbidden_literals prefix_contains_def)
qed

lemma special_v6:
  assumes "\<not> is_global_unicast (V6 w) \<or> is_private (V6 w) \<or> is_loopback (V6 w) \<or> is_link_local_unicast (V6 w) \<or>
    is_link_local_multicast (V6 w) \<or> is_multicast (V6 w) \<or> is_unspecified (V6 w)"
  shows "list_ex (\<lambda>p. prefix_contains p (V6 w)) dynamicForbiddenPrefixes"
proof -
  have m: "drop_bit 120 w = 0xFF" if "drop_bit 112 w AND 0xFF0F = 0xFF02"
  proof -
    have "drop_bit 120 w = drop_bit 8 (drop_bit 112 w)" by (simp add: drop_bit_drop_bit)
    moreover have "drop_bit 8 (drop_bit 112 w AND 0xFF0F) = 0xFF" by (simp add: that)
    then have "drop_bit 8 (drop_bit 112 w) AND 0xFF = 0xFF" by (simp add: drop_bit_and)
    moreover have "drop_bit 120 w AND 0xFF = drop_bit 120 w"
    proof -
      have "drop_bit 120 w AND mask 8 = drop_bit 120 w"
        by (rule bit_word_eqI) (auto simp: bit_simps dest: bit_imp_le_length)
      then show ?thesis by (simp add: mask_eq_exp_minus_1)
    qed
    ultimately show ?thesis by simp
  qed
  from assms consider "w = 0" | "w = 1" | "drop_bit 120 w = 0xFF" | "drop_bit 118 w = 0x3FA" | "drop_bit 121 w = 0x7E"
    using m by (auto simp: is_global_unicast_def is_private_def is_loopback_def is_link_local_unicast_def
        is_link_local_multicast_def is_multicast_def is_unspecified_def)
  then show ?thesis by cases (simp_all add: forbidden_literals prefix_contains_def)
qed

section \<open>Properties\<close>

text \<open>C36. The classification of an address is exactly the list of forbidden prefixes: the tests for
  private, loopback, link-local, multicast and unspecified addresses add nothing to it, and an IPv4
  address wrapped in IPv6 is judged as the IPv4 address.\<close>

theorem public_iff_no_forbidden_prefix:
  "dynamicIPIsPublic a \<longleftrightarrow> \<not> list_ex (\<lambda>p. prefix_contains p (unmap a)) dynamicForbiddenPrefixes"
proof (cases "unmap a")
  case (V4 w)
  with special_v4 [of w] show ?thesis unfolding dynamicIPIsPublic_def Let_def by auto
next
  case (V6 w)
  with special_v6 [of w] show ?thesis unfolding dynamicIPIsPublic_def Let_def by auto
qed

text \<open>A DNS answer is taken as a whole: it is accepted exactly when it is not empty and every
  address in it is well formed and public, and the accepted addresses are those of the answer, each
  once. One private address among public ones makes the whole answer fail.\<close>

theorem resolved_ips_all_or_nothing:
  "(case validateDynamicResolvedIPs ips of
      Inl e \<Rightarrow> ips = [] \<or> (\<exists>ip\<in>set ips. case addr_from_slice ip of None \<Rightarrow> True | Some a \<Rightarrow> \<not> dynamicIPIsPublic a)
    | Inr as \<Rightarrow> ips \<noteq> [] \<and> (\<forall>ip\<in>set ips. case addr_from_slice ip of None \<Rightarrow> False | Some a \<Rightarrow> dynamicIPIsPublic a) \<and>
        distinct as \<and> set as = (unmap \<circ> the \<circ> addr_from_slice) ` set ips)"
proof (cases "validateDynamicResolvedIPs ips")
  case (Inl e)
  have "\<not> answers_ok ips"
  proof
    assume ok: "answers_ok ips"
    then obtain as where "validate_ips ips [] = Inr as" using validate_ips_complete [of ips "[]"] by (auto simp: answers_ok_def)
    with Inl ok show False by (simp add: validateDynamicResolvedIPs_def answers_ok_def)
  qed
  then show ?thesis using Inl by (auto simp: answers_ok_def split: option.splits)
next
  case (Inr as)
  from validated_facts(1-3) [OF Inr] Inr show ?thesis by (auto simp: answers_ok_def split: option.splits)
qed

text \<open>C34. Whatever the resolver, the URL parser and the IDNA library do, an address a target resolves to
  is public and neither in the snapshot of Meridian's addresses nor on a local interface at that moment, the
  addresses are distinct and at most as many as the site allows, and the host of the target is none
  that Meridian serves.\<close>

theorem resolution_only_public:
  assumes "resolveDynamicURLIPs lib parse lookup target maxIPs (Some p) addrs1 addrs2 = Inr as"
  shows "as \<noteq> [] \<and> distinct as \<and> int (length as) \<le> maxIPs \<and>
    (\<forall>a\<in>set as. dynamicIPIsPublic a \<and> unmap a = a \<and> not_local p addrs2 a) \<and>
    (\<exists>t u. target = Some t \<and> normalizeDynamicURL lib parse (url_string t) = Inr u \<and> target_ok lib p u)"
proof -
  obtain t u where t: "target = Some t" "normalizeDynamicURL lib parse (url_string t) = Inr u"
    "validateNormalizedTarget lib p u addrs1 = None" and lim: "1 \<le> maxIPs"
    using assms by (auto simp: resolveDynamicURLIPs_def split: if_splits option.splits sum.splits)
  obtain ips where v: "validateDynamicResolvedIPsWithPolicy ips (Some p) addrs2 = Inr as" and len: "int (length ips) \<le> maxIPs"
  proof (cases "parse_ip (url_hostname u)")
    case (Some ip)
    with assms t lim have "validateDynamicResolvedIPsWithPolicy [ip] (Some p) addrs2 = Inr as"
      by (auto simp: resolveDynamicURLIPs_def split: if_splits)
    with that lim show thesis by fastforce
  next
    case None
    with assms t obtain answers where "lookup (url_hostname u) = Some answers" "\<not> int (length answers) > maxIPs"
      "validateDynamicResolvedIPsWithPolicy (map fst answers) (Some p) addrs2 = Inr as"
      by (auto simp: resolveDynamicURLIPs_def split: if_splits option.splits)
    with that [of "map fst answers"] show thesis by simp
  qed
  note f = validated_facts [OF policy_facts(1) [OF v]]
  from f(3-6) len policy_facts(2) [OF v] t validateNormalizedTarget_ok [OF t(3)] show ?thesis by auto
qed

text \<open>C35. The dialer of a discovered target connects only to addresses that were pinned for it: they are
  public, belong to the family that was asked for, and each was checked again against the local
  interfaces right before its connection; the connection that is returned is one of them, and the
  authority that was dialled is the one of the target. This holds for the failed attempts too.\<close>

theorem dialer_only_reaches_pins:
  assumes "newDynamicTransportWithDialerTimeout lib parse target ips hasDialer (Some p) timeout addrs1 addrs2 = Inr t"
    and "dial_context lib p t env addrs3 network address = (res, tried)"
  shows "(\<forall>a\<in>set tried. dynamicIPIsPublic a \<and> a \<in> (unmap \<circ> the \<circ> addr_from_slice) ` set ips \<and> network_fits network a \<and>
      not_local p addrs2 a \<and> (\<exists>i. not_local p (dial_ifaces env i) a)) \<and>
    (\<forall>a. res = Inr a \<longrightarrow> a \<in> set tried) \<and>
    (tried \<noteq> [] \<longrightarrow> (\<exists>h isIP. net_split_host_port address = Some (h, expectedPort t) \<and>
       normalizeDynamicHost lib h = Inr (expectedHost t, isIP) \<and> target_ok lib p (pin_target t)))"
proof -
  have v: "validateDynamicResolvedIPsWithPolicy ips (Some p) addrs2 = Inr (pins t)"
    using assms(1) by (auto simp: newDynamicTransportWithDialerTimeout_def Let_def split: if_splits option.splits sum.splits)
  note f = validated_facts [OF policy_facts(1) [OF v]]
  from assms(2) show ?thesis
  proof (cases rule: dial_context_cases)
    case (refused e)
    then show ?thesis by simp
  next
    case (dialled h isIP)
    have u: "\<forall>a\<in>set (pins t). unmap a = a" using f(6) by blast
    note d = dial_pins_tried [OF dialled(4) u]
    have "\<forall>a\<in>set tried. a \<in> set (pins t)" using d by blast
    then have "\<forall>a\<in>set tried. dynamicIPIsPublic a \<and> a \<in> (unmap \<circ> the \<circ> addr_from_slice) ` set ips \<and> not_local p addrs2 a"
      using f(2,6) policy_facts(2) [OF v] by blast
    with d dialled(1,2) validateNormalizedTarget_ok [OF dialled(3)] show ?thesis by blast
  qed
qed

text \<open>A URL that passes the normalisation is an absolute http or https URL without user info or
  fragment, within the length limit, without control characters, white space, backslashes or dot segments
  even after percent decoding, and a literal address in it is public; no parser of URLs can make it
  otherwise.\<close>

theorem dynamic_url_is_strict:
  assumes "normalizeDynamicURL lib parse v = Inr u"
  shows "(scheme u = ''http'' \<or> scheme u = ''https'') \<and> user u = None \<and> fragment u = [] \<and> opaque u = [] \<and>
    int (length v) \<le> maxDynamicTargetURLBytes \<and> \<not> containsDynamicUnsafeRune v \<and>
    (\<forall>s\<in>set (split_on CHR ''/'' (path u)). s \<noteq> ''.'' \<and> s \<noteq> ''..'') \<and>
    (path u \<noteq> [] \<longrightarrow> \<not> has_control (path u) \<and> CHR 0x5C \<notin> set (path u)) \<and>
    (\<exists>h isIP q port. host u = dynamicURLHost h port q \<and> normalizeDynamicHost lib (url_hostname (the (parse v))) = Inr (h, isIP) \<and>
       (isIP \<longrightarrow> (\<exists>ip a. parse_ip h = Some ip \<and> addr_from_slice ip = Some a \<and> dynamicIPIsPublic a)))"
proof -
  note f = normalizeDynamicURL_facts [OF assms]
  have seg: "\<forall>s\<in>set (split_on CHR ''/'' (path u)). s \<noteq> ''.'' \<and> s \<noteq> ''..''"
    using f(7) by (auto simp: dynamicURLPathHasDotSegments_def list_ex_iff)
  have "\<not> has_control (path u) \<and> CHR 0x5C \<notin> set (path u)" if "path u \<noteq> []"
  proof -
    have "url_escaped_path u \<noteq> []" using that unescape_escaped_path [of u] by (metis option.inject path_unescape.simps(1))
    with f(8) show ?thesis by (auto simp: dynamicURLDecodedComponentIsSafe_def)
  qed
  with f seg show ?thesis by blast
qed

section \<open>Concrete inputs\<close>

definition demo_names :: name_lib where
  "demo_names = \<lparr>to_ascii = Some, public_suffix = (\<lambda>_. (''com'', True)), effective_tld_plus_one = Some\<rparr>"

definition demo_target :: url where
  "demo_target = empty_url\<lparr>scheme := ''https'', host := ''a.com'', path := ''/v''\<rparr>"

definition demo_ifaces :: "iface list option" where
  "demo_ifaces = Some [IPNet (IP4 0x0A000001)]"

definition demo_policy :: self_policy where
  "demo_policy = \<lparr>deniedHosts = [''m.com''], localIPs = [V4 0x0A000001]\<rparr>"

definition demo_transport :: pinned where
  "demo_transport = \<lparr>pin_target = demo_target, expectedHost = ''a.com'', expectedPort = ''443'', pins = [V4 0x08080808]\<rparr>"

definition demo_dial :: dial_env where
  "demo_dial = \<lparr>dial_done = (\<lambda>_. False), dial_ifaces = (\<lambda>_. demo_ifaces), connects = (\<lambda>_ _. True)\<rparr>"

lemma demo_values:
  "trim_space ''https://a.com/v'' = ''https://a.com/v''" "\<not> containsDynamicUnsafeRune ''https://a.com/v''"
  "to_lower ''https'' = ''https''" "url_string demo_target = ''https://a.com/v''" "url_hostname demo_target = ''a.com''"
  "url_port demo_target = []" "url_escaped_path demo_target = ''/v''" "parse_ip ''a.com'' = None"
  "dynamicURLDecodedComponentIsSafe ''/v'' False" "\<not> dynamicURLPathHasDotSegments ''/v''"
  "normalizeDynamicHost demo_names ''a.com'' = Inr (''a.com'', False)" "dynamicEffectivePort demo_target = Some ''443''"
  "snapshotDynamicInterfaceIPs demo_ifaces = Inr [V4 0x0A000001]"
  "net_split_host_port ''a.com:443'' = Some (''a.com'', ''443'')"
  by code_simp+

lemma demo_public:
  "dynamicIPIsPublic (V4 0x08080808)" "\<not> dynamicIPIsPublic (V4 0x7F000001)"
  by (simp_all add: dynamicIPIsPublic_def is_global_unicast_def is_private_def is_loopback_def is_link_local_unicast_def
      is_link_local_multicast_def is_multicast_def is_unspecified_def forbidden_literals prefix_contains_def unmap_def)

lemma demo_validated:
  "validateDynamicResolvedIPs [IP16 (mapped 0x08080808)] = Inr [V4 0x08080808]"
  "validateDynamicResolvedIPs [IP4 0x08080808] = Inr [V4 0x08080808]"
  "validateDynamicResolvedIPs [IP4 0x08080808, IP16 (mapped 0x08080808)] = Inr [V4 0x08080808]"
  "validateDynamicResolvedIPs [IP4 0x08080808, IP4 0x7F000001] =
     Inl (Invalid ''dynamic target returned a non-public or special IP address'')"
  using demo_public by (simp_all add: validateDynamicResolvedIPs_def addr_from_slice_def unmap_def)

lemma demo_target_fields:
  "scheme demo_target = ''https''" "host demo_target = ''a.com''" "user demo_target = None" "opaque demo_target = []"
  "fragment demo_target = []" "raw_fragment demo_target = []" "raw_query demo_target = []"
  "demo_target\<lparr>scheme := ''https''\<rparr> = demo_target" "demo_target\<lparr>host := ''a.com''\<rparr> = demo_target"
  by (simp_all add: demo_target_def empty_url_def)

lemma demo_url: "normalizeDynamicURL demo_names (\<lambda>_. Some demo_target) ''https://a.com/v'' = Inr demo_target"
  by (simp add: normalizeDynamicURL_def demo_values demo_target_fields maxDynamicTargetURLBytes_def has_prefix_def has_suffix_def
      dynamicURLDecodedComponentIsSafe_def [of "[]"] dynamicURLHost_def Let_def del: to_lower.simps)

lemma demo_normalized: "validateNormalizedTarget demo_names demo_policy demo_target demo_ifaces = None"
  by (simp add: validateNormalizedTarget_def demo_values demo_policy_def)

lemma demo_policy_ok:
  "validateDynamicResolvedIPsWithPolicy [IP16 (mapped 0x08080808)] (Some demo_policy) demo_ifaces = Inr [V4 0x08080808]"
  "validateDynamicResolvedIPsWithPolicy [IP4 0x08080808] (Some demo_policy) demo_ifaces = Inr [V4 0x08080808]"
  by (simp_all add: validateDynamicResolvedIPsWithPolicy_def demo_values demo_validated demo_policy_def validateIPAgainst_def first_error_def
      as_slice_def addr_from_slice_def unmap_def)

lemma demo_resolve: "resolveDynamicURLIPs demo_names (\<lambda>_. Some demo_target) (\<lambda>_. Some [(IP16 (mapped 0x08080808), [])])
    (Some demo_target) 4 (Some demo_policy) demo_ifaces demo_ifaces = Inr [V4 0x08080808]"
  by (simp add: resolveDynamicURLIPs_def maxDynamicResolvedIPCount_def demo_values demo_url demo_normalized demo_policy_ok)

lemma demo_new_transport: "newDynamicTransportWithDialerTimeout demo_names (\<lambda>_. Some demo_target) (Some demo_target)
    [IP4 0x08080808] True (Some demo_policy) second demo_ifaces demo_ifaces = Inr demo_transport"
  by (simp add: newDynamicTransportWithDialerTimeout_def maxDynamicResolvedIPCount_def demo_values demo_url demo_normalized
      demo_policy_ok demo_transport_def second_def)

lemma demo_dialled: "dial_context demo_names demo_policy demo_transport demo_dial demo_ifaces ''tcp'' ''a.com:443'' =
    (Inr (V4 0x08080808), [V4 0x08080808])"
proof -
  have "validateIP demo_policy (as_slice (V4 0x08080808)) demo_ifaces = None"
    by (simp add: validateIP_def demo_values demo_policy_def validateIPAgainst_def as_slice_def addr_from_slice_def unmap_def)
  then show ?thesis
    by (simp add: dial_context_def demo_values demo_transport_def demo_normalized demo_dial_def network_fits_def)
qed

theorem resolved_ips_all_or_nothing_witness:
  "validateDynamicResolvedIPs [IP4 0x08080808, IP16 (mapped 0x08080808)] = Inr [V4 0x08080808] \<and>
   dynamicIPIsPublic (V4 0x08080808) \<and>
   (\<exists>e. validateDynamicResolvedIPs [IP4 0x08080808, IP4 0x7F000001] = Inl e) \<and> \<not> dynamicIPIsPublic (V4 0x7F000001)"
proof -
  from resolved_ips_all_or_nothing [of "[IP4 0x08080808, IP16 (mapped 0x08080808)]"]
    resolved_ips_all_or_nothing [of "[IP4 0x08080808, IP4 0x7F000001]"] demo_public
  show ?thesis unfolding demo_validated by (simp add: addr_from_slice_def)
qed

theorem resolution_only_public_witness:
  "dynamicIPIsPublic (V4 0x08080808) \<and> not_local demo_policy demo_ifaces (V4 0x08080808) \<and>
   target_ok demo_names demo_policy demo_target"
  using resolution_only_public [OF demo_resolve] demo_url by (simp add: demo_values)

theorem dialer_only_reaches_pins_witness:
  "dynamicIPIsPublic (V4 0x08080808) \<and> not_local demo_policy demo_ifaces (V4 0x08080808) \<and>
   (\<exists>isIP. normalizeDynamicHost demo_names ''a.com'' = Inr (''a.com'', isIP))"
proof -
  note d = dialer_only_reaches_pins [OF demo_new_transport demo_dialled]
  have "expectedHost demo_transport = ''a.com''" by (simp add: demo_transport_def)
  with d demo_values(14) show ?thesis by auto
qed

theorem dynamic_url_is_strict_witness:
  "scheme demo_target = ''https'' \<and> user demo_target = None \<and> \<not> has_control (path demo_target)"
  using dynamic_url_is_strict [OF demo_url] by (simp add: demo_target_def)

end
