(* ===== verification/Emby_Authorization.thy ===== *)
theory Emby_Authorization
  imports Go_Strings
begin

text \<open>
  \<open>cmd/meridian/proxy_authorization.go\<close>: the parser of Emby authorization values, the
  rewriting of the client identity in them and the removal of the access token before a value
  leaves for another authority. The parser walks an offset through the value; here it is the
  suffix that is still to be read, with the offset at which it starts.
\<close>

section \<open>Reading a value\<close>

definition isEmbyAuthWhitespace :: "char \<Rightarrow> bool" where
  "isEmbyAuthWhitespace c \<longleftrightarrow> c = CHR '' '' \<or> c = CHR 0x09"

definition isEmbyAuthToken :: "char \<Rightarrow> bool" where
  "isEmbyAuthToken c \<longleftrightarrow> is_lower c \<or> is_upper c \<or> is_digit c \<or> c = CHR ''-'' \<or> c = CHR ''_''"

definition value_char_ok :: "char \<Rightarrow> bool" where
  "value_char_ok c \<longleftrightarrow> c \<noteq> CHR 0x5C \<and> 32 \<le> byte c \<and> byte c \<noteq> 127"

record embyAuthAttribute =
  attr_name :: string
  attrStart :: nat
  attrEnd :: nat
  valueStart :: nat
  valueEnd :: nat

function parseEmbyAuthorizationAttributes :: "nat \<Rightarrow> string \<Rightarrow> embyAuthAttribute list option" where
  "parseEmbyAuthorizationAttributes off s =
     (let pos = (\<lambda>rest. off + (length s - length rest));
          s1 = dropWhile isEmbyAuthWhitespace s;
          name = takeWhile isEmbyAuthToken s1;
          s3 = dropWhile isEmbyAuthWhitespace (dropWhile isEmbyAuthToken s1)
      in if name = [] then None
         else if s3 = [] \<or> hd s3 \<noteq> CHR ''='' then None
         else
           let s5 = dropWhile isEmbyAuthWhitespace (tl s3)
           in if s5 = [] \<or> hd s5 \<noteq> CHR 0x22 then None
              else
                let s6 = tl s5; s7 = dropWhile (\<lambda>c. c \<noteq> CHR 0x22) s6
                in if \<not> list_all value_char_ok (takeWhile (\<lambda>c. c \<noteq> CHR 0x22) s6) \<or> s7 = [] then None
                   else
                     let a = \<lparr>attr_name = name, attrStart = pos s1, attrEnd = pos (tl s7),
                              valueStart = pos s6, valueEnd = pos s7\<rparr>;
                         s8 = dropWhile isEmbyAuthWhitespace (tl s7)
                     in if s8 = [] then Some [a]
                        else if hd s8 \<noteq> CHR '','' then None
                        else if tl s8 = [] then None
                        else case parseEmbyAuthorizationAttributes (pos (tl s8)) (tl s8) of
                          None \<Rightarrow> None
                        | Some as \<Rightarrow> Some (a # as))"
  by pat_completeness auto
termination
proof (relation "measure (\<lambda>(off, s). length s)", goal_cases)
  case (2 off s pos s1 name s3 s5 s6 s7 a s8)
  have "length s8 \<le> length (tl s7)" unfolding 2(13) by (rule length_dropWhile_le)
  moreover have "length s7 \<le> length s6" unfolding 2(10) by (rule length_dropWhile_le)
  moreover have "length s6 \<le> length s5" unfolding 2(9) by simp
  moreover have "length s5 \<le> length (tl s3)" unfolding 2(7) by (rule length_dropWhile_le)
  moreover have "length s3 \<le> length s1" unfolding 2(4) using length_dropWhile_le le_trans by blast
  moreover have "length s1 \<le> length s" unfolding 2(2) by (rule length_dropWhile_le)
  moreover have "length (tl s3) < length s3" using 2(6) by (cases s3) auto
  moreover have "length (tl s7) \<le> length s7" "length (tl s8) \<le> length s8" by simp_all
  ultimately have "length (tl s8) < length s" by linarith
  then show ?case by simp
qed simp

declare parseEmbyAuthorizationAttributes.simps [simp del]

record UAProfile =
  ua_name :: string
  ua_user_agent :: string
  ua_client :: string
  ua_version :: string

text \<open>The scheme of a value: the white space before it, the scheme and what follows.\<close>

definition split_scheme :: "string \<Rightarrow> string \<times> string \<times> string" where
  "split_scheme v =
     (let s = dropWhile isEmbyAuthWhitespace v
      in (takeWhile isEmbyAuthWhitespace v, takeWhile isEmbyAuthToken s, dropWhile isEmbyAuthToken s))"

definition known_scheme :: "string \<Rightarrow> bool" where
  "known_scheme s \<longleftrightarrow> equal_fold s ''MediaBrowser'' \<or> equal_fold s ''Emby''"

text \<open>The index of the only attribute of a name: \<open>None\<close> when there are several.\<close>

fun find_attribute :: "string \<Rightarrow> embyAuthAttribute list \<Rightarrow> nat \<Rightarrow> nat option \<Rightarrow> nat option option" where
  "find_attribute name [] i found = Some found"
| "find_attribute name (a # as) i found =
     (if equal_fold (attr_name a) name then
        (if found \<noteq> None then None else find_attribute name as (Suc i) (Some i))
      else find_attribute name as (Suc i) found)"

definition splice :: "string \<Rightarrow> nat \<times> nat \<times> string \<Rightarrow> string" where
  "splice v r = (case r of (first, after, text) \<Rightarrow> take first v @ text @ drop after v)"

definition identity_suffix :: "string \<Rightarrow> string \<Rightarrow> string" where
  "identity_suffix name text = name @ ''='' @ [CHR 0x22] @ text @ [CHR 0x22]"

definition rewrite_attributes :: "string \<Rightarrow> UAProfile \<Rightarrow> embyAuthAttribute list \<Rightarrow> string" where
  "rewrite_attributes v p as =
     (case (find_attribute ''Client'' as 0 None, find_attribute ''Version'' as 0 None) of
        (Some ci, Some vi) \<Rightarrow>
          let rc = (case ci of None \<Rightarrow> [] | Some i \<Rightarrow> [(valueStart (as ! i), valueEnd (as ! i), ua_client p)]);
              rv = (case vi of None \<Rightarrow> [] | Some i \<Rightarrow> [(valueStart (as ! i), valueEnd (as ! i), ua_version p)]);
              rs = (case rc @ rv of [x, y] \<Rightarrow> if fst x < fst y then [y, x] else [x, y] | rs \<Rightarrow> rs);
              rewritten = foldl splice v rs
          in rewritten
             @ (if ci = None then '', '' @ identity_suffix ''Client'' (ua_client p) else [])
             @ (if vi = None then '', '' @ identity_suffix ''Version'' (ua_version p) else [])
      | _ \<Rightarrow> v)"

definition rewriteEmbyAuthorizationValue :: "string \<Rightarrow> UAProfile \<Rightarrow> string" where
  "rewriteEmbyAuthorizationValue v p =
     (let (lead, scheme, rest) = split_scheme v
      in if scheme = [] then v
         else if \<not> known_scheme scheme then v
         else if rest \<noteq> [] \<and> \<not> isEmbyAuthWhitespace (hd rest) then v
         else
           let s = dropWhile isEmbyAuthWhitespace rest
           in if s = [] then
                v @ (if rest = [] then '' '' else []) @ identity_suffix ''Client'' (ua_client p) @
                  '', '' @ identity_suffix ''Version'' (ua_version p)
              else case parseEmbyAuthorizationAttributes (length v - length s) s of
                None \<Rightarrow> v
              | Some as \<Rightarrow> rewrite_attributes v p as)"

definition strip_token :: "string \<Rightarrow> nat \<Rightarrow> embyAuthAttribute list \<Rightarrow> string \<times> bool" where
  "strip_token v schemeEnd as =
     (case find_attribute ''Token'' as 0 None of
        None \<Rightarrow> (v, False)
      | Some None \<Rightarrow> (v, True)
      | Some (Some i) \<Rightarrow>
          if i = 0 \<and> length as = 1 then (take schemeEnd v @ drop (attrEnd (as ! i)) v, True)
          else if i = 0 then (take (attrStart (as ! i)) v @ drop (attrStart (as ! 1)) v, True)
          else (take (attrEnd (as ! (i - 1))) v @ drop (attrEnd (as ! i)) v, True))"

definition stripEmbyAuthorizationToken :: "string \<Rightarrow> string \<times> bool" where
  "stripEmbyAuthorizationToken v =
     (let (lead, scheme, rest) = split_scheme v
      in if scheme = [] then (v, True)
         else if \<not> known_scheme scheme then (v, False)
         else if rest \<noteq> [] \<and> \<not> isEmbyAuthWhitespace (hd rest) then (v, False)
         else
           let s = dropWhile isEmbyAuthWhitespace rest
           in if s = [] then (v, True)
              else case parseEmbyAuthorizationAttributes (length v - length s) s of
                None \<Rightarrow> (v, False)
              | Some as \<Rightarrow> strip_token v (length v - length rest) as)"

section \<open>The grammar of a value\<close>

text \<open>
  An attribute with the white space around its parts; a list of attributes is their texts with
  commas between them. Reading a text yields the attributes it is made of.
\<close>

record chunk =
  c_lead :: string
  c_name :: string
  c_eq1 :: string
  c_eq2 :: string
  c_value :: string
  c_trail :: string

definition blank :: "string \<Rightarrow> bool" where
  "blank s \<longleftrightarrow> list_all isEmbyAuthWhitespace s"

definition chunk_ok :: "chunk \<Rightarrow> bool" where
  "chunk_ok c \<longleftrightarrow> blank (c_lead c) \<and> c_name c \<noteq> [] \<and> list_all isEmbyAuthToken (c_name c) \<and> blank (c_eq1 c) \<and>
     blank (c_eq2 c) \<and> list_all value_char_ok (c_value c) \<and> CHR 0x22 \<notin> set (c_value c) \<and> blank (c_trail c)"

definition chunk_head :: "chunk \<Rightarrow> string" where
  "chunk_head c = c_name c @ c_eq1 c @ ''='' @ c_eq2 c @ [CHR 0x22]"

definition chunk_text :: "chunk \<Rightarrow> string" where
  "chunk_text c = c_lead c @ chunk_head c @ c_value c @ CHR 0x22 # c_trail c"

fun render :: "chunk list \<Rightarrow> string" where
  "render [] = []"
| "render [c] = chunk_text c"
| "render (c # d # cs) = chunk_text c @ CHR '','' # render (d # cs)"

definition chunk_attr :: "nat \<Rightarrow> chunk \<Rightarrow> embyAuthAttribute" where
  "chunk_attr off c =
     (let n = off + length (c_lead c); v = n + length (chunk_head c); e = v + length (c_value c)
      in \<lparr>attr_name = c_name c, attrStart = n, attrEnd = Suc e, valueStart = v, valueEnd = e\<rparr>)"

fun chunk_attrs :: "nat \<Rightarrow> chunk list \<Rightarrow> embyAuthAttribute list" where
  "chunk_attrs off [] = []"
| "chunk_attrs off (c # cs) = chunk_attr off c # chunk_attrs (off + length (chunk_text c) + 1) cs"

lemma blank_not_token: "isEmbyAuthWhitespace c \<Longrightarrow> \<not> isEmbyAuthToken c"
  by (auto simp: isEmbyAuthWhitespace_def isEmbyAuthToken_def is_lower_def is_upper_def is_digit_def byte_def)

lemma special_chars:
  "\<not> isEmbyAuthWhitespace CHR ''=''" "\<not> isEmbyAuthToken CHR ''=''" "\<not> isEmbyAuthWhitespace CHR 0x22"
  "\<not> isEmbyAuthWhitespace CHR '',''" "\<not> isEmbyAuthToken CHR '',''"
  by (auto simp: isEmbyAuthWhitespace_def isEmbyAuthToken_def is_lower_def is_upper_def is_digit_def byte_def)

lemma span_blank: "blank xs \<Longrightarrow> ys = [] \<or> \<not> isEmbyAuthWhitespace (hd ys) \<Longrightarrow>
    dropWhile isEmbyAuthWhitespace (xs @ ys) = ys"
  by (induction xs) (auto simp: blank_def dropWhile_eq_self_iff)

lemma span_token: "list_all isEmbyAuthToken xs \<Longrightarrow> ys = [] \<or> \<not> isEmbyAuthToken (hd ys) \<Longrightarrow>
    takeWhile isEmbyAuthToken (xs @ ys) = xs \<and> dropWhile isEmbyAuthToken (xs @ ys) = ys"
  by (induction xs) (auto simp: dropWhile_eq_self_iff takeWhile_eq_Nil_iff)

lemma span_value: "CHR 0x22 \<notin> set xs \<Longrightarrow>
    takeWhile (\<lambda>c. c \<noteq> CHR 0x22) (xs @ CHR 0x22 # ys) = xs \<and>
    dropWhile (\<lambda>c. c \<noteq> CHR 0x22) (xs @ CHR 0x22 # ys) = CHR 0x22 # ys"
  by (induction xs) auto

text \<open>One step of the parser on the text of an attribute.\<close>

lemma parse_chunk:
  assumes ok: "chunk_ok c" and r: "r = [] \<or> hd r = CHR '',''"
  shows "parseEmbyAuthorizationAttributes off (chunk_text c @ r) =
    (if r = [] then Some [chunk_attr off c] else if tl r = [] then None
     else case parseEmbyAuthorizationAttributes (off + length (chunk_text c) + 1) (tl r) of
       None \<Rightarrow> None | Some as \<Rightarrow> Some (chunk_attr off c # as))"
proof -
  let ?s = "chunk_text c @ r"
  have tok: "isEmbyAuthToken (hd (c_name c))" "c_name c \<noteq> []"
    using ok by (auto simp: chunk_ok_def list_all_iff)
  define s1 where "s1 = chunk_head c @ c_value c @ CHR 0x22 # c_trail c @ r"
  have s1: "dropWhile isEmbyAuthWhitespace ?s = s1"
    unfolding chunk_text_def s1_def append_assoc append_Cons
    using ok tok blank_not_token by (intro span_blank) (auto simp: chunk_ok_def chunk_head_def)
  define s3 where "s3 = CHR ''='' # c_eq2 c @ CHR 0x22 # c_value c @ CHR 0x22 # c_trail c @ r"
  have sp: "takeWhile isEmbyAuthToken s1 = c_name c \<and> dropWhile isEmbyAuthToken s1 = c_eq1 c @ s3"
    unfolding s1_def chunk_head_def s3_def append_assoc append_Cons append_Nil
    using ok special_chars blank_not_token
    by (intro span_token) (cases "c_eq1 c"; auto simp: chunk_ok_def blank_def)+
  have s3: "dropWhile isEmbyAuthWhitespace (c_eq1 c @ s3) = s3"
    using ok special_chars by (intro span_blank) (auto simp: chunk_ok_def s3_def)
  define s6 where "s6 = c_value c @ CHR 0x22 # c_trail c @ r"
  have s5: "dropWhile isEmbyAuthWhitespace (c_eq2 c @ CHR 0x22 # s6) = CHR 0x22 # s6"
    using ok special_chars by (intro span_blank) (auto simp: chunk_ok_def)
  have s7: "takeWhile (\<lambda>c. c \<noteq> CHR 0x22) s6 = c_value c \<and> dropWhile (\<lambda>c. c \<noteq> CHR 0x22) s6 = CHR 0x22 # c_trail c @ r"
    unfolding s6_def using ok by (intro span_value) (simp add: chunk_ok_def)
  have s8: "dropWhile isEmbyAuthWhitespace (c_trail c @ r) = r"
    using ok r special_chars by (intro span_blank) (auto simp: chunk_ok_def)
  have s3': "s3 = CHR ''='' # c_eq2 c @ CHR 0x22 # s6" by (simp add: s3_def s6_def)
  have len: "length ?s = length (c_lead c) + length s1" "length s1 = length (chunk_head c) + length s6"
    "length s6 = length (c_value c) + length (CHR 0x22 # c_trail c @ r)"
    by (simp_all add: chunk_text_def s1_def s6_def)
  have a: "\<lparr>attr_name = c_name c, attrStart = off + (length ?s - length s1), attrEnd = off + (length ?s - length (c_trail c @ r)),
      valueStart = off + (length ?s - length s6), valueEnd = off + (length ?s - length (CHR 0x22 # c_trail c @ r))\<rparr> = chunk_attr off c"
    unfolding chunk_attr_def Let_def using len by simp
  have vok: "list_all value_char_ok (c_value c)" using ok by (simp add: chunk_ok_def)
  have p: "off + (length ?s - length (tl r)) = off + length (chunk_text c) + 1" if "r \<noteq> []"
    using that by (cases r) auto
  show ?thesis
    unfolding parseEmbyAuthorizationAttributes.simps [of off "chunk_text c @ r"] Let_def s1
      conjunct1 [OF sp] conjunct2 [OF sp] s3
    unfolding s3' list.sel s5
    unfolding list.sel conjunct1 [OF s7] conjunct2 [OF s7] s8 a
    using tok(2) vok r p by auto
qed

lemma render_Cons: "cs \<noteq> [] \<Longrightarrow> render (c # cs) = chunk_text c @ CHR '','' # render cs"
  by (cases cs) auto

lemma chunk_text_nonempty [simp]: "chunk_text c \<noteq> []"
  by (simp add: chunk_text_def chunk_head_def)

lemma render_nonempty [simp]: "render cs = [] \<longleftrightarrow> cs = []"
  by (cases cs rule: render.cases) auto

lemma parse_render:
  "cs \<noteq> [] \<Longrightarrow> list_all chunk_ok cs \<Longrightarrow> parseEmbyAuthorizationAttributes off (render cs) = Some (chunk_attrs off cs)"
proof (induction cs arbitrary: off rule: render.induct)
  case (2 c)
  then show ?case using parse_chunk [of c "[]" off] by simp
next
  case (3 c d cs)
  have ne: "render (d # cs) \<noteq> []" by (simp only: render_nonempty) simp
  show ?case
    unfolding render.simps(3) using 3 parse_chunk [of c "CHR '','' # render (d # cs)" off] ne by simp
qed simp

lemma guard_Some: "(if c then None else x) = Some y \<longleftrightarrow> \<not> c \<and> x = Some y"
  by simp

lemma parse_Some:
  "parseEmbyAuthorizationAttributes off s = Some as \<Longrightarrow>
   \<exists>cs. cs \<noteq> [] \<and> list_all chunk_ok cs \<and> s = render cs \<and> as = chunk_attrs off cs"
proof (induction off s arbitrary: as rule: parseEmbyAuthorizationAttributes.induct)
  case (1 off s)
  define s1 where "s1 = dropWhile isEmbyAuthWhitespace s"
  define name where "name = takeWhile isEmbyAuthToken s1"
  define s3 where "s3 = dropWhile isEmbyAuthWhitespace (dropWhile isEmbyAuthToken s1)"
  define s5 where "s5 = dropWhile isEmbyAuthWhitespace (tl s3)"
  define s6 where "s6 = tl s5"
  define s7 where "s7 = dropWhile (\<lambda>c. c \<noteq> CHR 0x22) s6"
  define s8 where "s8 = dropWhile isEmbyAuthWhitespace (tl s7)"
  note defs = s1_def name_def s3_def s5_def s6_def s7_def s8_def
  note some = 1(2) [unfolded parseEmbyAuthorizationAttributes.simps [of off s] Let_def, folded s1_def, folded name_def s3_def, folded s5_def, folded s6_def, folded s7_def, folded s8_def, unfolded guard_Some]
  note parts = some [THEN conjunct1] some [THEN conjunct2, THEN conjunct1] some [THEN conjunct2, THEN conjunct2, THEN conjunct1]
    some [THEN conjunct2, THEN conjunct2, THEN conjunct2, THEN conjunct1]
  note rest = some [THEN conjunct2, THEN conjunct2, THEN conjunct2, THEN conjunct2]
  have g: "name \<noteq> []" "s3 \<noteq> []" "hd s3 = CHR ''=''" "s5 \<noteq> []" "hd s5 = CHR 0x22"
    "list_all value_char_ok (takeWhile (\<lambda>c. c \<noteq> CHR 0x22) s6)" "s7 \<noteq> []"
    using parts by simp_all
  have g8: "s8 = [] \<or> hd s8 = CHR '','' \<and> tl s8 \<noteq> [] \<and>
       (\<exists>as'. parseEmbyAuthorizationAttributes (off + (length s - length (tl s8))) (tl s8) = Some as')"
  proof (cases "s8 = []")
    case False
    with rest show ?thesis by (cases "parseEmbyAuthorizationAttributes (off + (length s - length (tl s8))) (tl s8)") (auto split: if_splits)
  qed simp
  define c where "c = \<lparr>c_lead = takeWhile isEmbyAuthWhitespace s, c_name = name,
    c_eq1 = takeWhile isEmbyAuthWhitespace (dropWhile isEmbyAuthToken s1), c_eq2 = takeWhile isEmbyAuthWhitespace (tl s3),
    c_value = takeWhile (\<lambda>c. c \<noteq> CHR 0x22) s6, c_trail = takeWhile isEmbyAuthWhitespace (tl s7)\<rparr>"
  have "hd s7 = CHR 0x22" using g(7) hd_dropWhile unfolding s7_def by blast
  then obtain t7 where e7: "s7 = CHR 0x22 # t7" using g(7) by (cases s7) auto
  obtain t3 where e3: "s3 = CHR ''='' # t3" using g(2,3) by (cases s3) auto
  have e5: "s5 = CHR 0x22 # s6" using g(4,5) by (cases s5) (auto simp: s6_def)
  have "s6 = c_value c @ s7" unfolding c_def s7_def by simp
  moreover have "t7 = c_trail c @ s8" unfolding c_def s8_def e7 by simp
  moreover have "t3 = c_eq2 c @ s5" unfolding c_def s5_def e3 by simp
  moreover have "s1 = name @ c_eq1 c @ s3" unfolding c_def s3_def name_def by simp
  moreover have "s = c_lead c @ s1" unfolding c_def s1_def by simp
  moreover have "c_name c = name" by (simp add: c_def)
  ultimately have s: "s = chunk_text c @ s8"
    unfolding chunk_text_def chunk_head_def e7 e3 e5 by simp
  have ok: "chunk_ok c"
    using g(1,6) by (auto simp: chunk_ok_def c_def blank_def name_def list_all_iff dest: set_takeWhileD)
  show ?case
  proof (cases "s8 = []")
    case True
    with 1(2) parse_chunk [OF ok, of s8 off] s have "as = [chunk_attr off c]" by simp
    with s True ok show ?thesis by (intro exI [of _ "[c]"]) simp
  next
    case False
    with g8 obtain as' where r: "hd s8 = CHR '',''" "tl s8 \<noteq> []"
      "parseEmbyAuthorizationAttributes (off + (length s - length (tl s8))) (tl s8) = Some as'" by auto
    have pos: "off + (length s - length (tl s8)) = off + length (chunk_text c) + 1"
      using s False by (cases s8) auto
    have "\<exists>cs. cs \<noteq> [] \<and> list_all chunk_ok cs \<and> tl s8 = render cs \<and>
        as' = chunk_attrs (off + (length s - length (tl s8))) cs"
      using 1(1) [OF refl refl refl refl _ _ refl _ refl refl _ refl refl, folded s1_def, folded name_def s3_def, folded s5_def, folded s6_def, folded s7_def, folded s8_def] g r False by simp
    then obtain cs where cs: "cs \<noteq> []" "list_all chunk_ok cs" "tl s8 = render cs" "as' = chunk_attrs (off + length (chunk_text c) + 1) cs"
      unfolding pos by blast
    have "as = chunk_attr off c # as'"
      using 1(2) parse_chunk [OF ok, of s8 off] s r False unfolding pos by simp
    moreover have "s8 = CHR '','' # render cs" using r(1) cs(3) False by (metis list.collapse)
    ultimately show ?thesis
      using cs ok s by (intro exI [of _ "c # cs"]) (simp add: render_Cons)
  qed
qed

section \<open>What a value says\<close>

definition slice :: "string \<Rightarrow> nat \<Rightarrow> nat \<Rightarrow> string" where
  "slice v i j = take (j - i) (drop i v)"

text \<open>The scheme and the named values of a well formed Emby authorization value.\<close>

definition read_value :: "string \<Rightarrow> (string \<times> (string \<times> string) list) option" where
  "read_value v =
     (let (lead, scheme, rest) = split_scheme v; s = dropWhile isEmbyAuthWhitespace rest
      in if scheme = [] \<or> \<not> known_scheme scheme \<or> rest \<noteq> [] \<and> \<not> isEmbyAuthWhitespace (hd rest) then None
         else if s = [] then Some (scheme, [])
         else map_option (\<lambda>as. (scheme, map (\<lambda>a. (attr_name a, slice v (valueStart a) (valueEnd a))) as))
                (parseEmbyAuthorizationAttributes (length v - length s) s))"

abbreviation named :: "chunk \<Rightarrow> string \<times> string" where
  "named c \<equiv> (c_name c, c_value c)"

lemma chunk_slice: "slice (p @ chunk_text c @ r) (valueStart (chunk_attr (length p) c)) (valueEnd (chunk_attr (length p) c)) = c_value c"
  by (simp add: slice_def chunk_attr_def Let_def chunk_text_def)

lemma chunk_attrs_named:
  "map (\<lambda>a. (attr_name a, slice (p @ render cs) (valueStart a) (valueEnd a))) (chunk_attrs (length p) cs) = map named cs"
proof (induction cs arbitrary: p rule: render.induct)
  case (2 c)
  then show ?case using chunk_slice [of p c "[]"] by (simp add: chunk_attr_def Let_def)
next
  case (3 c d cs)
  from 3 [of "p @ chunk_text c @ '',''"] show ?case
    using chunk_slice [of p c "CHR '','' # render (d # cs)"] by (simp add: chunk_attr_def Let_def)
qed simp

text \<open>The values with attributes, as texts.\<close>

definition headed :: "string \<Rightarrow> string \<Rightarrow> string \<Rightarrow> bool" where
  "headed lead scheme gap \<longleftrightarrow> blank lead \<and> scheme \<noteq> [] \<and> list_all isEmbyAuthToken scheme \<and> known_scheme scheme \<and> blank gap"

lemma split_headed:
  assumes "headed lead scheme gap" "gap \<noteq> [] \<or> r = []"
  shows "split_scheme (lead @ scheme @ gap @ r) = (lead, scheme, gap @ r)"
proof -
  obtain c s where s: "scheme = c # s" "isEmbyAuthToken c" using assms(1) by (cases scheme) (auto simp: headed_def)
  have ns: "\<not> isEmbyAuthWhitespace c" using s(2) blank_not_token by blast
  have "dropWhile isEmbyAuthWhitespace (lead @ scheme @ gap @ r) = scheme @ gap @ r"
    using assms(1) s ns by (intro span_blank) (auto simp: headed_def)
  moreover have "takeWhile isEmbyAuthWhitespace (lead @ scheme @ gap @ r) = lead"
    using assms(1) ns s(1) by (auto simp: headed_def blank_def list_all_iff intro: takeWhile_append2 [THEN trans])
  moreover have "takeWhile isEmbyAuthToken (scheme @ gap @ r) = scheme \<and> dropWhile isEmbyAuthToken (scheme @ gap @ r) = gap @ r"
    using assms blank_not_token by (intro span_token) (cases gap; auto simp: headed_def blank_def)+
  ultimately show ?thesis by (simp add: split_scheme_def)
qed

lemma split_scheme_facts:
  assumes "split_scheme v = (lead, scheme, rest)"
  shows "v = lead @ scheme @ rest" "blank lead" "list_all isEmbyAuthToken scheme"
  using assms by (auto simp: split_scheme_def Let_def blank_def list_all_iff dest: set_takeWhileD)

text \<open>White space between the scheme and the first attribute may be counted on either side.\<close>

lemma render_lead: "cs \<noteq> [] \<Longrightarrow> render cs = c_lead (hd cs) @ render ((hd cs)\<lparr>c_lead := []\<rparr> # tl cs)"
  by (cases cs rule: render.cases) (simp_all add: chunk_text_def chunk_head_def)

lemma render_hd:
  assumes "cs \<noteq> []" "chunk_ok (hd cs)" "c_lead (hd cs) = []"
  shows "isEmbyAuthToken (hd (render cs))"
proof -
  have "isEmbyAuthToken (hd (c_name (hd cs)))" "c_name (hd cs) \<noteq> []"
    using assms(2) by (auto simp: chunk_ok_def list_all_iff)
  moreover have "hd (render cs) = hd (c_name (hd cs))"
    using assms(1,3) calculation(2) by (cases cs rule: render.cases) (auto simp: chunk_text_def chunk_head_def hd_append)
  ultimately show ?thesis by simp
qed

lemma read_headed:
  assumes h: "headed lead scheme gap" "gap \<noteq> []" and cs: "cs \<noteq> []" "list_all chunk_ok cs"
  shows "read_value (lead @ scheme @ gap @ render cs) = Some (scheme, map named cs)"
proof -
  let ?v = "lead @ scheme @ gap @ render cs"
  define ds where "ds = (hd cs)\<lparr>c_lead := []\<rparr> # tl cs"
  have ds: "ds \<noteq> []" "list_all chunk_ok ds" "map named ds = map named cs" "render cs = c_lead (hd cs) @ render ds"
    using cs render_lead [OF cs(1)] by (auto simp: ds_def chunk_ok_def blank_def list_all_iff neq_Nil_conv)
  have nb: "\<not> isEmbyAuthWhitespace (hd (render ds))"
    using render_hd [OF ds(1)] ds(1,2) blank_not_token by (auto simp: ds_def)
  have "blank (c_lead (hd cs))" using cs by (auto simp: chunk_ok_def neq_Nil_conv)
  then have "blank (gap @ c_lead (hd cs))" using h(1) by (simp add: headed_def blank_def)
  then have s: "dropWhile isEmbyAuthWhitespace (gap @ render cs) = render ds"
    unfolding ds(4) append_assoc [symmetric] using nb by (intro span_blank) auto
  define p where "p = lead @ scheme @ gap @ c_lead (hd cs)"
  have v: "?v = p @ render ds" by (simp add: p_def ds(4))
  have sp: "split_scheme ?v = (lead, scheme, gap @ render cs)" using h by (intro split_headed) auto
  have g: "isEmbyAuthWhitespace (hd (gap @ render cs))" "gap @ render cs \<noteq> []"
    using h by (cases gap; auto simp: headed_def blank_def)+
  have len: "length ?v - length (render ds) = length p" unfolding v by simp
  show ?thesis
    unfolding read_value_def sp Let_def prod.case s len parse_render [OF ds(1,2)] option.map(2)
    unfolding v chunk_attrs_named ds(3) using h(1) g ds(1) by (simp add: headed_def)
qed

lemma read_headed_bare:
  assumes "headed lead scheme gap"
  shows "read_value (lead @ scheme @ gap) = Some (scheme, [])"
proof -
  have "split_scheme (lead @ scheme @ gap) = (lead, scheme, gap)" using split_headed [OF assms, of "[]"] by simp
  moreover have "dropWhile isEmbyAuthWhitespace gap = []" using assms by (simp add: headed_def blank_def list_all_iff)
  moreover have "\<not> (gap \<noteq> [] \<and> \<not> isEmbyAuthWhitespace (hd gap))" using assms by (cases gap) (auto simp: headed_def blank_def)
  ultimately show ?thesis using assms unfolding read_value_def Let_def headed_def by simp
qed

text \<open>Conversely, a value that is read has this form.\<close>

lemma value_cases:
  assumes "split_scheme v = (lead, scheme, rest)" "scheme \<noteq> []" "known_scheme scheme"
    "rest = [] \<or> isEmbyAuthWhitespace (hd rest)"
  obtains (bare) "headed lead scheme rest" "v = lead @ scheme @ rest" "dropWhile isEmbyAuthWhitespace rest = []"
    | (malformed) "dropWhile isEmbyAuthWhitespace rest \<noteq> []"
        "parseEmbyAuthorizationAttributes (length v - length (dropWhile isEmbyAuthWhitespace rest)) (dropWhile isEmbyAuthWhitespace rest) = None"
    | (attrs) gap cs where "headed lead scheme gap" "gap \<noteq> []" "cs \<noteq> []" "list_all chunk_ok cs"
        "v = lead @ scheme @ gap @ render cs" "dropWhile isEmbyAuthWhitespace rest = render cs" "rest = gap @ render cs"
        "parseEmbyAuthorizationAttributes (length v - length (render cs)) (render cs) =
           Some (chunk_attrs (length (lead @ scheme @ gap)) cs)"
proof -
  note f = split_scheme_facts [OF assms(1)]
  define s where "s = dropWhile isEmbyAuthWhitespace rest"
  define gap where "gap = takeWhile isEmbyAuthWhitespace rest"
  have r: "rest = gap @ s" by (simp add: gap_def s_def)
  have bl: "blank gap" by (auto simp: gap_def blank_def list_all_iff dest: set_takeWhileD)
  then have h: "headed lead scheme gap" using f assms(2,3) by (simp add: headed_def)
  show thesis
  proof (cases "s = []")
    case True
    have "rest = gap" using r True by simp
    with h have "headed lead scheme rest" by simp
    from bare [OF this f(1)] True show thesis unfolding s_def by simp
  next
    case False
    then have "rest \<noteq> []" using r by auto
    with assms(4) have ne: "gap \<noteq> []" unfolding gap_def by (cases rest) auto
    show thesis
    proof (cases "parseEmbyAuthorizationAttributes (length v - length s) s")
      case None
      show thesis by (rule malformed) (use None False in \<open>unfold s_def\<close>)
    next
      case (Some as)
      from parse_Some [OF this] obtain cs where cs: "cs \<noteq> []" "list_all chunk_ok cs" "s = render cs"
        "as = chunk_attrs (length v - length s) cs" by blast
      have "length v - length s = length (lead @ scheme @ gap)" unfolding f(1) r by simp
      then have p: "parseEmbyAuthorizationAttributes (length v - length (render cs)) (render cs) =
          Some (chunk_attrs (length (lead @ scheme @ gap)) cs)"
        using cs(3,4) Some by simp
      have "v = lead @ scheme @ gap @ render cs" "rest = gap @ render cs" using f(1) r cs(3) by auto
      moreover have "dropWhile isEmbyAuthWhitespace rest = render cs" using cs(3) unfolding s_def .
      ultimately show thesis using attrs [OF h ne cs(1,2) _ _ _ p] by blast
    qed
  qed
qed

section \<open>Positions\<close>

definition render_before :: "chunk list \<Rightarrow> string" where
  "render_before cs = concat (map (\<lambda>c. chunk_text c @ '','') cs)"

definition render_after :: "chunk list \<Rightarrow> string" where
  "render_after cs = (if cs = [] then [] else CHR '','' # render cs)"

lemma render_split: "render (pre @ t # post) = render_before pre @ chunk_text t @ render_after post"
proof (induction pre)
  case Nil
  then show ?case by (cases post) (simp_all add: render_before_def render_after_def)
next
  case (Cons c pre)
  then show ?case by (simp add: render_Cons render_before_def)
qed

lemma chunk_attrs_append:
  "chunk_attrs off (pre @ post) = chunk_attrs off pre @ chunk_attrs (off + length (render_before pre)) post"
  by (induction pre arbitrary: off) (simp_all add: render_before_def add.assoc)

lemma length_chunk_attrs [simp]: "length (chunk_attrs off cs) = length cs"
  by (induction cs arbitrary: off) auto

lemma chunk_attrs_nth:
  "chunk_attrs off (pre @ t # post) ! length pre = chunk_attr (off + length (render_before pre)) t"
  by (simp add: chunk_attrs_append nth_append)

lemma chunk_attrs_name: "i < length cs \<Longrightarrow> attr_name (chunk_attrs off cs ! i) = c_name (cs ! i)"
proof (induction cs arbitrary: off i)
  case (Cons c cs)
  then show ?case by (cases i) (simp_all add: chunk_attr_def Let_def)
qed simp

lemma find_attribute_found:
  "find_attribute name as k (Some m) = (if list_ex (\<lambda>a. equal_fold (attr_name a) name) as then None else Some (Some m))"
  by (induction as arbitrary: k) auto

lemma find_attribute_none:
  "find_attribute name as k None = Some None \<longleftrightarrow> \<not> list_ex (\<lambda>a. equal_fold (attr_name a) name) as"
  by (induction as arbitrary: k) (auto simp: find_attribute_found)

lemma find_attribute_one:
  "find_attribute name as k None = Some (Some i) \<Longrightarrow>
     \<exists>pre a post. as = pre @ a # post \<and> i = k + length pre \<and> equal_fold (attr_name a) name \<and>
        \<not> list_ex (\<lambda>a. equal_fold (attr_name a) name) (pre @ post)"
proof (induction as arbitrary: k)
  case (Cons b as)
  show ?case
  proof (cases "equal_fold (attr_name b) name")
    case True
    with Cons.prems have "\<not> list_ex (\<lambda>a. equal_fold (attr_name a) name) as" "i = k"
      by (auto simp: find_attribute_found split: if_splits)
    with True show ?thesis by (intro exI [of _ "[]"] exI [of _ b] exI [of _ as]) simp
  next
    case False
    with Cons obtain pre a post where "as = pre @ a # post" "i = Suc k + length pre" "equal_fold (attr_name a) name"
      "\<not> list_ex (\<lambda>a. equal_fold (attr_name a) name) (pre @ post)" by fastforce
    with False show ?thesis by (intro exI [of _ "b # pre"] exI [of _ a] exI [of _ post]) simp
  qed
qed simp

abbreviation is_named :: "string \<Rightarrow> chunk \<Rightarrow> bool" where
  "is_named name c \<equiv> equal_fold (c_name c) name"

lemma chunk_attrs_ex: "list_ex (\<lambda>a. equal_fold (attr_name a) name) (chunk_attrs off cs) \<longleftrightarrow> list_ex (is_named name) cs"
  by (induction cs arbitrary: off) (simp_all add: chunk_attr_def Let_def)

lemma find_chunk:
  assumes "find_attribute name (chunk_attrs off cs) 0 None = Some (Some i)"
  obtains pre t post where "cs = pre @ t # post" "i = length pre" "is_named name t" "\<not> list_ex (is_named name) (pre @ post)"
proof -
  obtain pa a qa where a: "chunk_attrs off cs = pa @ a # qa" "i = length pa" "equal_fold (attr_name a) name"
    "\<not> list_ex (\<lambda>a. equal_fold (attr_name a) name) (pa @ qa)"
    using find_attribute_one [OF assms] by auto
  have "i < length cs" using a(1,2) length_chunk_attrs [of off cs] by simp
  then have cs: "cs = take i cs @ cs ! i # drop (Suc i) cs" by (rule id_take_nth_drop)
  define pre where "pre = take i cs"
  define t where "t = cs ! i"
  define post where "post = drop (Suc i) cs"
  have c: "cs = pre @ t # post" "length pre = i" using cs \<open>i < length cs\<close> by (simp_all add: pre_def t_def post_def)
  have e: "chunk_attrs off pre @ chunk_attr (off + length (render_before pre)) t #
      chunk_attrs (off + length (render_before pre) + length (chunk_text t) + 1) post = pa @ a # qa"
    using a(1) c(1) by (simp add: chunk_attrs_append)
  then have s: "chunk_attrs off pre = pa" "chunk_attr (off + length (render_before pre)) t = a"
    "chunk_attrs (off + length (render_before pre) + length (chunk_text t) + 1) post = qa"
    using a(2) c(2) by (auto simp: append_eq_append_conv)
  have "is_named name t" using a(3) s(2) by (auto simp: chunk_attr_def Let_def)
  moreover have "\<not> list_ex (is_named name) (pre @ post)"
    using a(4) s(1,3) chunk_attrs_ex by (metis list_ex_append)
  ultimately show thesis using that c by auto
qed

section \<open>Removing the token\<close>

definition chunk_body :: "chunk \<Rightarrow> string" where
  "chunk_body c = c_lead c @ chunk_head c @ c_value c @ [CHR 0x22]"

definition chunk_tail :: "chunk \<Rightarrow> string" where
  "chunk_tail c = chunk_head c @ c_value c @ CHR 0x22 # c_trail c"

lemma chunk_parts:
  "chunk_text c = chunk_body c @ c_trail c" "chunk_text c = c_lead c @ chunk_tail c"
  "attrEnd (chunk_attr off c) = off + length (chunk_body c)" "attrStart (chunk_attr off c) = off + length (c_lead c)"
  "chunk_body (c\<lparr>c_trail := x\<rparr>) = chunk_body c" "chunk_tail (c\<lparr>c_lead := x\<rparr>) = chunk_tail c"
  by (simp_all add: chunk_body_def chunk_tail_def chunk_text_def chunk_attr_def Let_def chunk_head_def)

lemma cut_first:
  "take (attrStart (chunk_attr (length p) t)) (p @ chunk_text t @ CHR '','' # chunk_text d @ r) @
   drop (attrStart (chunk_attr (length p + length (chunk_text t) + 1) d)) (p @ chunk_text t @ CHR '','' # chunk_text d @ r) =
   p @ chunk_text (d\<lparr>c_lead := c_lead t\<rparr>) @ r"
  by (simp add: chunk_parts(2,4,6))

lemma cut_later:
  "take (attrEnd (chunk_attr (length p) q)) (p @ chunk_text q @ CHR '','' # chunk_text t @ r) @
   drop (attrEnd (chunk_attr (length p + length (chunk_text q) + 1) t)) (p @ chunk_text q @ CHR '','' # chunk_text t @ r) =
   p @ chunk_text (q\<lparr>c_trail := c_trail t\<rparr>) @ r"
  by (simp add: chunk_parts(1,3,5))

lemma cut_only: "drop (attrEnd (chunk_attr (length p) t)) (p @ chunk_text t) = c_trail t"
  by (simp add: chunk_parts(1,3))

lemma strip_token_chunks:
  assumes ok: "list_all chunk_ok cs" "cs \<noteq> []" and h: "headed lead scheme gap" "gap \<noteq> []"
    and s: "strip_token (lead @ scheme @ gap @ render cs) (length (lead @ scheme))
      (chunk_attrs (length (lead @ scheme @ gap)) cs) = (w, True)"
  shows "read_value w = Some (scheme, filter (\<lambda>(n, _). \<not> equal_fold n ''Token'') (map named cs))"
proof -
  define p where "p = lead @ scheme @ gap"
  have v: "lead @ scheme @ gap @ render cs = p @ render cs" by (simp add: p_def)
  note s' = s [unfolded v, folded p_def]
  have keep: "filter (\<lambda>(n, _). \<not> equal_fold n ''Token'') (map named ds) = map named ds" if "\<not> list_ex (is_named ''Token'') ds" for ds
    using that by (induction ds) auto
  consider "find_attribute ''Token'' (chunk_attrs (length p) cs) 0 None = Some None"
    | i where "find_attribute ''Token'' (chunk_attrs (length p) cs) 0 None = Some (Some i)"
    using s' by (cases "find_attribute ''Token'' (chunk_attrs (length p) cs) 0 None") (auto simp: strip_token_def)
  then show ?thesis
  proof cases
    case 1
    then have "w = p @ render cs" using s' by (simp add: strip_token_def)
    moreover have "\<not> list_ex (is_named ''Token'') cs" using 1 by (simp add: find_attribute_none chunk_attrs_ex)
    ultimately show ?thesis using read_headed [OF h ok(2,1)] keep by (simp add: p_def)
  next
    case 2
    from find_chunk [OF this] obtain pre t post where c: "cs = pre @ t # post" "i = length pre" "is_named ''Token'' t"
      "\<not> list_ex (is_named ''Token'') (pre @ post)" .
    have kept: "filter (\<lambda>(n, _). \<not> equal_fold n ''Token'') (map named cs) = map named (pre @ post)"
      using c(3) keep [OF c(4)] unfolding c(1) by simp
    show ?thesis
    proof (cases pre rule: rev_cases)
      case Nil
      show ?thesis
      proof (cases post)
        case N: Nil
        have "w = lead @ scheme @ c_trail t"
          using s' 2 c(1,2) Nil N cut_only [of p t] by (simp add: strip_token_def p_def)
        moreover have "headed lead scheme (c_trail t)" using h(1) ok(1) c(1) by (simp add: headed_def chunk_ok_def)
        ultimately show ?thesis using read_headed_bare kept Nil N by simp
      next
        case (Cons d rest)
        have "w = p @ chunk_text (d\<lparr>c_lead := c_lead t\<rparr>) @ render_after rest"
          using s' 2 c(1,2) Nil Cons cut_first [of p t d "render_after rest"] render_split [of "[]" d rest]
          by (simp add: strip_token_def render_before_def)
        then have "w = lead @ scheme @ gap @ render (d\<lparr>c_lead := c_lead t\<rparr> # rest)"
          using render_split [of "[]" "d\<lparr>c_lead := c_lead t\<rparr>" rest] by (simp add: p_def render_before_def)
        moreover have "list_all chunk_ok (d\<lparr>c_lead := c_lead t\<rparr> # rest)"
          using ok(1) c(1) Cons by (simp add: chunk_ok_def)
        ultimately show ?thesis using read_headed [OF h, of "d\<lparr>c_lead := c_lead t\<rparr> # rest"] kept Nil Cons by simp
      qed
    next
      case (snoc pre' q)
      let ?off = "length p + length (render_before pre')"
      let ?as = "chunk_attrs (length p) cs"
      have as: "?as ! (i - 1) = chunk_attr ?off q" "?as ! i = chunk_attr (?off + length (chunk_text q) + 1) t"
        using chunk_attrs_nth [of "length p" pre' q "t # post"] chunk_attrs_nth [of "length p" "pre' @ [q]" t post]
        unfolding c(1,2) snoc by (simp_all add: render_before_def add.assoc)
      have v': "p @ render cs = (p @ render_before pre') @ chunk_text q @ CHR '','' # chunk_text t @ render_after post"
        unfolding c(1) snoc by (simp add: render_split render_after_def render_before_def render_Cons)
      have "i \<noteq> 0" using c(2) snoc by simp
      then have "w = take (attrEnd (?as ! (i - 1))) (p @ render cs) @ drop (attrEnd (?as ! i)) (p @ render cs)"
        using s' 2 by (simp add: strip_token_def)
      also have "\<dots> = (p @ render_before pre') @ chunk_text (q\<lparr>c_trail := c_trail t\<rparr>) @ render_after post"
        using cut_later [of "p @ render_before pre'" q t "render_after post"] unfolding v' as by simp
      finally have "w = lead @ scheme @ gap @ render (pre' @ q\<lparr>c_trail := c_trail t\<rparr> # post)"
        by (simp add: render_split p_def)
      moreover have "list_all chunk_ok (pre' @ q\<lparr>c_trail := c_trail t\<rparr> # post)"
        using ok(1) c(1) snoc by (simp add: chunk_ok_def)
      ultimately show ?thesis
        using read_headed [OF h, of "pre' @ q\<lparr>c_trail := c_trail t\<rparr> # post"] kept snoc by simp
    qed
  qed
qed


section \<open>Replacing the identity\<close>

lemma find_index:
  assumes "find_attribute name (chunk_attrs off cs) 0 None = Some (Some i)"
  shows "i < length cs" "is_named name (cs ! i)" "\<And>j. j < length cs \<Longrightarrow> j \<noteq> i \<Longrightarrow> \<not> is_named name (cs ! j)"
proof -
  from find_chunk [OF assms] obtain pre t post where c: "cs = pre @ t # post" "i = length pre" "is_named name t"
    "\<not> list_ex (is_named name) (pre @ post)" .
  show "i < length cs" "is_named name (cs ! i)" using c by (simp_all add: nth_append)
  fix j assume j: "j < length cs" "j \<noteq> i"
  then have "cs ! j \<in> set (pre @ post)" unfolding c(1,2) by (auto simp: nth_append nth_Cons split: nat.splits)
  with c(4) show "\<not> is_named name (cs ! j)" by (auto simp: list_ex_iff)
qed

definition chunk_before :: "chunk \<Rightarrow> string" where
  "chunk_before c = c_lead c @ chunk_head c"

lemma chunk_value_parts:
  "chunk_text c = chunk_before c @ c_value c @ CHR 0x22 # c_trail c"
  "valueStart (chunk_attr off c) = off + length (chunk_before c)"
  "valueEnd (chunk_attr off c) = off + length (chunk_before c) + length (c_value c)"
  "chunk_before (c\<lparr>c_value := x\<rparr>) = chunk_before c"
  by (simp_all add: chunk_before_def chunk_text_def chunk_attr_def Let_def chunk_head_def)

definition put_value :: "nat \<Rightarrow> string \<Rightarrow> chunk list \<Rightarrow> chunk list" where
  "put_value i x cs = cs[i := (cs ! i)\<lparr>c_value := x\<rparr>]"

lemma splice_value:
  assumes "i < length cs"
  shows "splice (p @ render cs) (valueStart (chunk_attrs (length p) cs ! i), valueEnd (chunk_attrs (length p) cs ! i), x) =
    p @ render (put_value i x cs)"
proof -
  define pre where "pre = take i cs"
  define t where "t = cs ! i"
  define post where "post = drop (Suc i) cs"
  have c: "cs = pre @ t # post" "i = length pre"
    using assms by (simp_all add: pre_def t_def post_def id_take_nth_drop)
  have put: "put_value i x cs = pre @ t\<lparr>c_value := x\<rparr> # post" unfolding put_value_def c by (simp add: nth_append)
  show ?thesis
    unfolding put unfolding c chunk_attrs_nth render_split chunk_value_parts splice_def by simp
qed

lemma attrs_put_later: "i < j \<Longrightarrow> j < length cs \<Longrightarrow> chunk_attrs off (put_value j x cs) ! i = chunk_attrs off cs ! i"
proof (induction cs arbitrary: off i j)
  case (Cons c cs)
  then show ?case
    by (cases j; cases i) (auto simp: put_value_def)
qed simp

lemma value_start_mono: "i < j \<Longrightarrow> j < length cs \<Longrightarrow>
    valueStart (chunk_attrs off cs ! i) < valueStart (chunk_attrs off cs ! j)"
proof (induction cs arbitrary: off i j)
  case (Cons c cs)
  have ge: "off + length (chunk_text c) < valueStart (chunk_attrs (off + length (chunk_text c) + 1) cs ! k)" if "k < length cs" for k
  proof -
    have "o' \<le> valueStart (chunk_attrs o' ds ! k)" if "k < length ds" for o' k ds
      using that
    proof (induction ds arbitrary: o' k)
      case (Cons d ds)
      show ?case
      proof (cases k)
        case 0
        then show ?thesis by (simp add: chunk_value_parts)
      next
        case (Suc k')
        with Cons.IH [of k' "o' + length (chunk_text d) + 1"] Cons.prems show ?thesis by simp
      qed
    qed simp
    from this [of k cs "off + length (chunk_text c) + 1"] that show ?thesis by simp
  qed
  show ?case
  proof (cases i)
    case 0
    obtain j' where j': "j = Suc j'" using Cons.prems by (cases j) auto
    have "valueStart (chunk_attr off c) \<le> off + length (chunk_text c)" by (simp add: chunk_value_parts)
    with ge [of j'] Cons.prems 0 j' show ?thesis by simp
  next
    case (Suc i')
    then obtain j' where j': "j = Suc j'" using Cons.prems by (cases j) auto
    with Suc Cons show ?thesis by simp
  qed
qed simp

text \<open>The named values with one of them set.\<close>

definition set_named :: "string \<Rightarrow> string \<Rightarrow> (string \<times> string) list \<Rightarrow> (string \<times> string) list" where
  "set_named name x nvs =
     (if list_ex (\<lambda>(n, _). equal_fold n name) nvs
      then map (\<lambda>(n, v). (n, if equal_fold n name then x else v)) nvs else nvs @ [(name, x)])"

lemma list_ex_named: "list_ex (\<lambda>(n, _). equal_fold n name) (map named cs) \<longleftrightarrow> list_ex (is_named name) cs"
  by (induction cs) auto

lemma set_named_put:
  assumes "find_attribute name (chunk_attrs off cs) 0 None = Some (Some i)"
  shows "set_named name x (map named cs) = map named (put_value i x cs)"
proof -
  note f = find_index [OF assms]
  have ex: "list_ex (is_named name) cs" using f(1,2) by (auto simp: list_ex_iff)
  have "map (\<lambda>(n, v). (n, if equal_fold n name then x else v)) (map named cs) = map named (put_value i x cs)"
  proof (rule nth_equalityI)
    fix j assume j: "j < length (map (\<lambda>(n, v). (n, if equal_fold n name then x else v)) (map named cs))"
    then show "map (\<lambda>(n, v). (n, if equal_fold n name then x else v)) (map named cs) ! j = map named (put_value i x cs) ! j"
      using f by (cases "j = i") (auto simp: put_value_def)
  qed (simp add: put_value_def)
  with ex show ?thesis by (simp add: set_named_def list_ex_named)
qed

lemma set_named_append:
  assumes "\<not> list_ex (is_named name) cs"
  shows "set_named name x (map named cs) = map named cs @ [(name, x)]"
  using assms by (simp add: set_named_def list_ex_named)

definition identity_chunk :: "string \<Rightarrow> string \<Rightarrow> chunk" where
  "identity_chunk name x = \<lparr>c_lead = '' '', c_name = name, c_eq1 = [], c_eq2 = [], c_value = x, c_trail = []\<rparr>"

definition identity_ok :: "string \<Rightarrow> bool" where
  "identity_ok x \<longleftrightarrow> list_all value_char_ok x \<and> CHR 0x22 \<notin> set x"

lemma identity_names:
  "list_all isEmbyAuthToken ''Client''" "list_all isEmbyAuthToken ''Version''" "\<not> equal_fold ''Client'' ''Version''"
  by code_simp+

lemma identity_chunk_ok: "identity_ok x \<Longrightarrow> list_all isEmbyAuthToken name \<Longrightarrow> name \<noteq> [] \<Longrightarrow> chunk_ok (identity_chunk name x)"
  by (simp add: identity_ok_def identity_chunk_def chunk_ok_def blank_def isEmbyAuthWhitespace_def)

lemma identity_chunk_text: "chunk_text (identity_chunk name x) = CHR '' '' # identity_suffix name x"
  by (simp add: identity_chunk_def chunk_text_def chunk_head_def identity_suffix_def)

lemma identity_chunk_named [simp]: "named (identity_chunk name x) = (name, x)"
  by (simp add: identity_chunk_def)

lemma render_snoc: "cs \<noteq> [] \<Longrightarrow> render (cs @ [c]) = render cs @ CHR '','' # chunk_text c"
  by (induction cs rule: render.induct) (auto simp: render_Cons)

lemma is_named_other: "is_named ''Client'' c \<Longrightarrow> \<not> is_named ''Version'' c"
  using identity_names(3) equal_fold_sym equal_fold_trans by blast

lemma find_attribute_cong: "map attr_name as = map attr_name bs \<Longrightarrow> find_attribute name as k f = find_attribute name bs k f"
proof (induction as arbitrary: bs k f)
  case (Cons a as)
  then show ?case by (cases bs) auto
qed simp

lemma chunk_attrs_names: "map attr_name (chunk_attrs off cs) = map c_name cs"
  by (induction cs arbitrary: off) (simp_all add: chunk_attr_def Let_def)

lemma put_value_names [simp]: "map c_name (put_value i x cs) = map c_name cs"
proof (cases "i < length cs")
  case True
  then have "(map c_name cs)[i := c_name (cs ! i)] = map c_name cs" by (simp add: list_update_same_conv)
  then show ?thesis by (simp add: put_value_def map_update)
next
  case False
  then show ?thesis by (simp add: put_value_def list_update_beyond)
qed

lemma length_put_value [simp]: "length (put_value i x cs) = length cs"
  by (simp add: put_value_def)

lemma put_value_ok: "list_all chunk_ok cs \<Longrightarrow> identity_ok x \<Longrightarrow> i < length cs \<Longrightarrow> list_all chunk_ok (put_value i x cs)"
  unfolding put_value_def list_all_iff
  by (auto dest!: set_update_subset_insert [THEN subsetD] simp: identity_ok_def chunk_ok_def)

lemma find_attribute_put: "find_attribute name (chunk_attrs off (put_value i x cs)) k f = find_attribute name (chunk_attrs off' cs) k f"
  by (rule find_attribute_cong) (simp only: chunk_attrs_names put_value_names)

lemma put_value_comm: "i \<noteq> j \<Longrightarrow> put_value i x (put_value j y cs) = put_value j y (put_value i x cs)"
  by (simp add: put_value_def list_update_swap)

lemma ex_named_put: "list_ex (is_named name) (put_value i x cs) \<longleftrightarrow> list_ex (is_named name) cs"
proof -
  have "list_ex (is_named name) ds \<longleftrightarrow> list_ex (\<lambda>n. equal_fold n name) (map c_name ds)" for ds
    by (induction ds) auto
  then show ?thesis by simp
qed

lemma set_named_snoc:
  assumes "list_ex (\<lambda>(n, _). equal_fold n name) nvs" "\<not> equal_fold m name"
  shows "set_named name x (nvs @ [(m, y)]) = set_named name x nvs @ [(m, y)]"
  using assms by (simp add: set_named_def)

lemma rewrite_chunks:
  assumes ok: "list_all chunk_ok cs" "cs \<noteq> []" and h: "headed lead scheme gap" "gap \<noteq> []"
    and pr: "identity_ok (ua_client prof)" "identity_ok (ua_version prof)"
    and ci: "find_attribute ''Client'' (chunk_attrs (length (lead @ scheme @ gap)) cs) 0 None = Some ci"
    and vi: "find_attribute ''Version'' (chunk_attrs (length (lead @ scheme @ gap)) cs) 0 None = Some vi"
  shows "read_value (rewrite_attributes (lead @ scheme @ gap @ render cs) prof (chunk_attrs (length (lead @ scheme @ gap)) cs)) =
    Some (scheme, set_named ''Version'' (ua_version prof) (set_named ''Client'' (ua_client prof) (map named cs)))"
proof -
  define p where "p = lead @ scheme @ gap"
  let ?as = "chunk_attrs (length p) cs" and ?cl = "ua_client prof" and ?ve = "ua_version prof"
  note cv = ci [folded p_def] vi [folded p_def]
  have ic: "chunk_ok (identity_chunk ''Client'' ?cl)" "chunk_ok (identity_chunk ''Version'' ?ve)"
    using pr identity_names(1,2) by (simp_all add: identity_chunk_ok)
  have "\<exists>ds. ds \<noteq> [] \<and> list_all chunk_ok ds \<and> rewrite_attributes (p @ render cs) prof ?as = p @ render ds \<and>
      map named ds = set_named ''Version'' ?ve (set_named ''Client'' ?cl (map named cs))"
  proof (cases ci)
    case c: None
    then have nc: "\<not> list_ex (is_named ''Client'') cs" using cv(1) by (simp add: find_attribute_none chunk_attrs_ex)
    show ?thesis
    proof (cases vi)
      case None
      then have nv: "\<not> list_ex (is_named ''Version'') (cs @ [identity_chunk ''Client'' ?cl])"
        using cv(2) identity_names(3) by (simp add: find_attribute_none chunk_attrs_ex identity_chunk_def)
      let ?ds = "(cs @ [identity_chunk ''Client'' ?cl]) @ [identity_chunk ''Version'' ?ve]"
      have "rewrite_attributes (p @ render cs) prof ?as = p @ render ?ds"
        using ok(2) cv c None by (simp add: rewrite_attributes_def render_snoc identity_chunk_text del: append_assoc)
      moreover have "map named ?ds = set_named ''Version'' ?ve (set_named ''Client'' ?cl (map named cs))"
        using set_named_append [OF nc, of ?cl] set_named_append [OF nv, of ?ve] by simp
      ultimately show ?thesis using ok ic by (intro exI [of _ ?ds]) simp
    next
      case (Some j)
      note fj = find_index [OF cv(2) [unfolded Some]]
      let ?ds = "put_value j ?ve cs @ [identity_chunk ''Client'' ?cl]"
      have "rewrite_attributes (p @ render cs) prof ?as = p @ render ?ds"
        using ok(2) cv c Some splice_value [OF fj(1), of p ?ve] length_put_value [of j ?ve cs]
        by (simp add: rewrite_attributes_def render_snoc identity_chunk_text del: length_put_value)
          (metis append_Nil append_Cons list.size(3) length_0_conv render_snoc identity_chunk_text)
      moreover have "list_ex (\<lambda>(n, _). equal_fold n ''Version'') (map named cs)"
        using fj(1,2) by (auto simp: list_ex_named list_ex_iff)
      then have "map named ?ds = set_named ''Version'' ?ve (set_named ''Client'' ?cl (map named cs))"
        using set_named_append [OF nc, of ?cl] set_named_snoc identity_names(3) set_named_put [OF cv(2) [unfolded Some], of ?ve] by simp
      ultimately show ?thesis using ok ic put_value_ok [OF ok(1) pr(2) fj(1)] by (intro exI [of _ ?ds]) simp
    qed
  next
    case c: (Some i)
    note fi = find_index [OF cv(1) [unfolded c]]
    note si = set_named_put [OF cv(1) [unfolded c], of ?cl]
    show ?thesis
    proof (cases vi)
      case None
      then have nv: "\<not> list_ex (is_named ''Version'') (put_value i ?cl cs)"
        using cv(2) by (simp add: find_attribute_none chunk_attrs_ex ex_named_put)
      let ?ds = "put_value i ?cl cs @ [identity_chunk ''Version'' ?ve]"
      have ne: "put_value i ?cl cs \<noteq> []" using ok(2) length_put_value [of i ?cl cs] by (metis length_0_conv)
      have "rewrite_attributes (p @ render cs) prof ?as = p @ render ?ds"
        using cv c None splice_value [OF fi(1), of p ?cl] ne by (simp add: rewrite_attributes_def render_snoc identity_chunk_text)
      moreover have "map named ?ds = set_named ''Version'' ?ve (set_named ''Client'' ?cl (map named cs))"
        using si set_named_append [OF nv, of ?ve] by simp
      ultimately show ?thesis using ok ic put_value_ok [OF ok(1) pr(1) fi(1)] by (intro exI [of _ ?ds]) simp
    next
      case (Some j)
      note fj = find_index [OF cv(2) [unfolded Some]]
      let ?ds = "put_value j ?ve (put_value i ?cl cs)"
      have ij: "i \<noteq> j" using fi(2) fj(2) is_named_other by blast
      have ne: "?ds \<noteq> []" using ok(2) length_put_value [of j ?ve "put_value i ?cl cs"] by (metis length_0_conv length_put_value)
      let ?r = "\<lambda>k x. (valueStart (?as ! k), valueEnd (?as ! k), x)"
      have "rewrite_attributes (p @ render cs) prof ?as = p @ render ?ds"
      proof (cases "i < j")
        case True
        have "rewrite_attributes (p @ render cs) prof ?as = splice (splice (p @ render cs) (?r j ?ve)) (?r i ?cl)"
          using cv c Some value_start_mono [OF True fj(1), of "length p"] by (simp add: rewrite_attributes_def)
        also have "\<dots> = splice (p @ render (put_value j ?ve cs)) (?r i ?cl)"
          using splice_value [OF fj(1), of p ?ve] by simp
        also have "\<dots> = p @ render (put_value i ?cl (put_value j ?ve cs))"
          using splice_value [of i "put_value j ?ve cs" p ?cl] attrs_put_later [OF True fj(1), of "length p" ?ve] fi(1) by simp
        finally show ?thesis by (simp add: put_value_comm [OF ij])
      next
        case False
        with ij have ji: "j < i" by simp
        have "rewrite_attributes (p @ render cs) prof ?as = splice (splice (p @ render cs) (?r i ?cl)) (?r j ?ve)"
          using cv c Some value_start_mono [OF ji fi(1), of "length p"] by (simp add: rewrite_attributes_def)
        also have "\<dots> = splice (p @ render (put_value i ?cl cs)) (?r j ?ve)"
          using splice_value [OF fi(1), of p ?cl] by simp
        also have "\<dots> = p @ render ?ds"
          using splice_value [of j "put_value i ?cl cs" p ?ve] attrs_put_later [OF ji fi(1), of "length p" ?cl] fj(1) by simp
        finally show ?thesis .
      qed
      moreover have "set_named ''Version'' ?ve (map named (put_value i ?cl cs)) = map named ?ds"
        using cv(2) [unfolded Some] by (intro set_named_put [of _ "length p"]) (simp add: find_attribute_put [of _ _ i ?cl cs _ _ "length p"])
      moreover have "list_all chunk_ok ?ds"
        using put_value_ok [OF put_value_ok [OF ok(1) pr(1) fi(1)] pr(2), of j] fj(1) by simp
      ultimately show ?thesis using si ne by (intro exI [of _ ?ds]) simp
    qed
  qed
  then obtain ds where "ds \<noteq> []" "list_all chunk_ok ds" "rewrite_attributes (p @ render cs) prof ?as = p @ render ds"
    "map named ds = set_named ''Version'' ?ve (set_named ''Client'' ?cl (map named cs))" by blast
  with read_headed [OF h, of ds] show ?thesis unfolding p_def by simp
qed


lemma named_count: "length (filter (\<lambda>(n, _). equal_fold n name) (map named cs)) = length (filter (is_named name) cs)"
  by (induction cs) auto

lemma find_attribute_several:
  "find_attribute name (chunk_attrs off cs) k None = None \<longleftrightarrow> 2 \<le> length (filter (is_named name) cs)"
proof (induction cs arbitrary: off k)
  case (Cons c cs)
  show ?case
  proof (cases "is_named name c")
    case True
    have "list_ex (is_named name) cs \<longleftrightarrow> filter (is_named name) cs \<noteq> []"
      by (induction cs) auto
    with True show ?thesis
      by (simp add: chunk_attr_def Let_def find_attribute_found chunk_attrs_ex Suc_le_eq)
  next
    case False
    with Cons show ?thesis by (simp add: chunk_attr_def Let_def)
  qed
qed simp

lemma several_named: "find_attribute name (chunk_attrs off cs) k None = None \<Longrightarrow>
    2 \<le> length (filter (\<lambda>(n, _). equal_fold n name) (map named cs))"
  unfolding named_count by (simp only: find_attribute_several)

lemma at_most_one_named: "find_attribute name (chunk_attrs off cs) k None = Some r \<Longrightarrow>
    length (filter (\<lambda>(n, _). equal_fold n name) (map named cs)) \<le> 1"
  using find_attribute_several [of name off cs k] unfolding named_count by auto

section \<open>Properties\<close>

text \<open>What \<open>stripEmbyAuthorizationToken\<close> lets pass carries no access token: a value with a scheme that
  is reported safe reads as before with exactly the \<open>Token\<close> attributes removed, every other attribute
  unchanged and in order; a value it cannot read, or one with several tokens, is reported unsafe.\<close>

theorem stripped_value_has_no_token:
  assumes "split_scheme v = (lead, scheme, rest)" "scheme \<noteq> []"
  shows "case stripEmbyAuthorizationToken v of (w, safe) \<Rightarrow>
    if safe then \<exists>nvs. read_value v = Some (scheme, nvs) \<and>
        read_value w = Some (scheme, filter (\<lambda>(n, _). \<not> equal_fold n ''Token'') nvs)
    else w = v \<and> (\<forall>nvs. read_value v = Some (scheme, nvs) \<longrightarrow> 2 \<le> length (filter (\<lambda>(n, _). equal_fold n ''Token'') nvs))"
proof (cases "known_scheme scheme \<and> (rest = [] \<or> isEmbyAuthWhitespace (hd rest))")
  case False
  then have "stripEmbyAuthorizationToken v = (v, False)" "read_value v = None"
    using assms by (auto simp: stripEmbyAuthorizationToken_def read_value_def Let_def)
  then show ?thesis by simp
next
  case True
  from assms(1,2) conjunct1 [OF True] conjunct2 [OF True] show ?thesis
  proof (cases rule: value_cases)
    case bare
    then have "stripEmbyAuthorizationToken v = (v, True)"
      using assms True by (simp add: stripEmbyAuthorizationToken_def Let_def)
    with read_headed_bare [OF bare(1)] bare(2) show ?thesis by simp
  next
    case malformed
    then have "stripEmbyAuthorizationToken v = (v, False)" "read_value v = None"
      using assms True unfolding stripEmbyAuthorizationToken_def read_value_def Let_def by auto
    then show ?thesis by simp
  next
    case (attrs gap cs)
    let ?as = "chunk_attrs (length (lead @ scheme @ gap)) cs"
    have rest: "length v - length rest = length (lead @ scheme)" unfolding attrs(5,7) by simp
    have st: "stripEmbyAuthorizationToken v = strip_token v (length (lead @ scheme)) ?as"
      using assms True attrs(3,6,8) rest unfolding stripEmbyAuthorizationToken_def Let_def by auto
    have rv: "read_value v = Some (scheme, map named cs)" unfolding attrs(5) by (rule read_headed [OF attrs(1-4)])
    obtain w safe where w: "stripEmbyAuthorizationToken v = (w, safe)" by fastforce
    show ?thesis
    proof (cases safe)
      case True
      with w st have "strip_token v (length (lead @ scheme)) ?as = (w, True)" by simp
      from strip_token_chunks [OF attrs(4,3,1,2) this [unfolded attrs(5)]] True w rv show ?thesis by simp
    next
      case False
      then have "find_attribute ''Token'' ?as 0 None = None" "w = v"
        using w st by (auto simp: strip_token_def split: option.splits if_splits)
      then show ?thesis using several_named [of "''Token''" "length (lead @ scheme @ gap)" cs 0] w rv False by simp
    qed
  qed
qed

text \<open>Rewriting the identity changes the client and the version of an Emby authorization value and nothing
  else: the attributes that name them get the configured values, missing ones are appended, all other
  attributes stay; a value that is not well formed, or that names the client or the version twice, is
  left byte for byte.\<close>

theorem rewritten_value_identity:
  assumes "identity_ok (ua_client prof)" "identity_ok (ua_version prof)"
  shows "case read_value v of
      None \<Rightarrow> rewriteEmbyAuthorizationValue v prof = v
    | Some (scheme, nvs) \<Rightarrow>
        if length (filter (\<lambda>(n, _). equal_fold n ''Client'') nvs) \<le> 1 \<and> length (filter (\<lambda>(n, _). equal_fold n ''Version'') nvs) \<le> 1
        then read_value (rewriteEmbyAuthorizationValue v prof) =
          Some (scheme, set_named ''Version'' (ua_version prof) (set_named ''Client'' (ua_client prof) nvs))
        else rewriteEmbyAuthorizationValue v prof = v"
proof -
  obtain lead scheme rest where sp: "split_scheme v = (lead, scheme, rest)" by (cases "split_scheme v") auto
  show ?thesis
  proof (cases "scheme \<noteq> [] \<and> known_scheme scheme \<and> (rest = [] \<or> isEmbyAuthWhitespace (hd rest))")
    case False
    then have "rewriteEmbyAuthorizationValue v prof = v" "read_value v = None"
      using sp by (auto simp: rewriteEmbyAuthorizationValue_def read_value_def Let_def)
    then show ?thesis by simp
  next
    case True
    then have ne: "scheme \<noteq> []" and ks: "known_scheme scheme" and ws: "rest = [] \<or> isEmbyAuthWhitespace (hd rest)" by auto
    from sp ne ks ws show ?thesis
    proof (cases rule: value_cases)
      case bare
      let ?cs = "[(identity_chunk ''Client'' (ua_client prof))\<lparr>c_lead := []\<rparr>, identity_chunk ''Version'' (ua_version prof)]"
      let ?gap = "rest @ (if rest = [] then '' '' else [])"
      have "rewriteEmbyAuthorizationValue v prof = lead @ scheme @ ?gap @ render ?cs"
        using sp ne ks ws bare(2,3) unfolding rewriteEmbyAuthorizationValue_def Let_def
        by (auto simp: identity_chunk_def chunk_text_def chunk_head_def identity_suffix_def)
      moreover have "headed lead scheme ?gap" using bare(1) by (auto simp: headed_def blank_def isEmbyAuthWhitespace_def)
      moreover have "list_all chunk_ok ?cs"
        using identity_chunk_ok [OF assms(1) identity_names(1)] identity_chunk_ok [OF assms(2) identity_names(2)]
        by (simp add: chunk_ok_def blank_def)
      ultimately have "read_value (rewriteEmbyAuthorizationValue v prof) = Some (scheme, map named ?cs)"
        using read_headed [of lead scheme ?gap ?cs] by simp
      moreover have "read_value v = Some (scheme, [])" using read_headed_bare [OF bare(1)] bare(2) by simp
      ultimately show ?thesis using identity_names(3) by (simp add: set_named_def identity_chunk_def)
    next
      case malformed
      then have "rewriteEmbyAuthorizationValue v prof = v" "read_value v = None"
        using sp ne ks ws unfolding rewriteEmbyAuthorizationValue_def read_value_def Let_def by auto
      then show ?thesis by simp
    next
      case (attrs gap cs)
      let ?off = "length (lead @ scheme @ gap)"
      let ?as = "chunk_attrs ?off cs"
      have rw: "rewriteEmbyAuthorizationValue v prof = rewrite_attributes v prof ?as"
        using sp ne ks ws attrs(3,6,8) unfolding rewriteEmbyAuthorizationValue_def Let_def by auto
      have rv: "read_value v = Some (scheme, map named cs)" unfolding attrs(5) by (rule read_headed [OF attrs(1-4)])
      show ?thesis
      proof (cases "find_attribute ''Client'' ?as 0 None = None \<or> find_attribute ''Version'' ?as 0 None = None")
        case True
        then have "rewrite_attributes v prof ?as = v" by (auto simp: rewrite_attributes_def split: option.split)
        moreover have "2 \<le> length (filter (\<lambda>(n, _). equal_fold n ''Client'') (map named cs)) \<or>
            2 \<le> length (filter (\<lambda>(n, _). equal_fold n ''Version'') (map named cs))"
          using True several_named by blast
        ultimately show ?thesis using rv rw by auto
      next
        case False
        then obtain ci vi where cv: "find_attribute ''Client'' ?as 0 None = Some ci" "find_attribute ''Version'' ?as 0 None = Some vi"
          by auto
        then have "length (filter (\<lambda>(n, _). equal_fold n ''Client'') (map named cs)) \<le> 1"
          "length (filter (\<lambda>(n, _). equal_fold n ''Version'') (map named cs)) \<le> 1"
          using at_most_one_named by blast+
        with rv rw rewrite_chunks [OF attrs(4,3,1,2) assms cv] show ?thesis by (simp add: attrs(5))
      qed
    qed
  qed
qed

section \<open>Concrete inputs\<close>

definition demo_value :: string where
  "demo_value = ''Emby UserId=\"u\", Token=\"secret\", Client=\"c\"''"

definition demo_profile :: UAProfile where
  "demo_profile = \<lparr>ua_name = ''Infuse'', ua_user_agent = ''Infuse/7.8.1'', ua_client = ''Infuse'', ua_version = ''7.8.1''\<rparr>"

lemma demo_value_reads:
  "split_scheme demo_value = ([], ''Emby'', '' UserId=\"u\", Token=\"secret\", Client=\"c\"'')"
  "read_value demo_value = Some (''Emby'', [(''UserId'', ''u''), (''Token'', ''secret''), (''Client'', ''c'')])"
  "stripEmbyAuthorizationToken demo_value = (''Emby UserId=\"u\", Client=\"c\"'', True)"
  "identity_ok (ua_client demo_profile)" "identity_ok (ua_version demo_profile)"
  by code_simp+

text \<open>A value whose first character is no token character counts as one without a scheme: it passes as it is.\<close>

lemma strip_passes_leading_comma:
  "stripEmbyAuthorizationToken '', Emby Token=\"secret\"'' = ('', Emby Token=\"secret\"'', True)"
  by code_simp

theorem stripped_value_has_no_token_witness:
  "read_value ''Emby UserId=\"u\", Client=\"c\"'' = Some (''Emby'', [(''UserId'', ''u''), (''Client'', ''c'')])"
proof -
  have "\<not> equal_fold ''UserId'' ''Token''" "equal_fold ''Token'' ''Token''" "\<not> equal_fold ''Client'' ''Token''" by code_simp+
  with stripped_value_has_no_token [OF demo_value_reads(1)] show ?thesis by (simp add: demo_value_reads)
qed

theorem rewritten_value_identity_witness:
  "read_value (rewriteEmbyAuthorizationValue demo_value demo_profile) =
    Some (''Emby'', [(''UserId'', ''u''), (''Token'', ''secret''), (''Client'', ''Infuse''), (''Version'', ''7.8.1'')])"
proof -
  have "\<not> equal_fold ''UserId'' ''Client''" "\<not> equal_fold ''Token'' ''Client''" "\<not> equal_fold ''UserId'' ''Version''"
    "\<not> equal_fold ''Token'' ''Version''" "\<not> equal_fold ''Client'' ''Version''" by code_simp+
  with rewritten_value_identity [OF demo_value_reads(4,5), of demo_value] show ?thesis
    by (simp add: demo_value_reads set_named_def demo_profile_def)
qed

end
