(* ===== verification/Site_Config.thy ===== *)
theory Site_Config
  imports Emby_Authorization
begin

text \<open>
  \<open>cmd/meridian/site_config.go\<close>: the limits of the asset cache of a site and the identity
  its requests are sent with. A function that returns an error returns \<open>None\<close>; its callers
  only pass the text on.
\<close>

section \<open>Asset cache settings\<close>

record asset_config =
  ac_rules :: string
  ac_ttl :: int
  ac_max_bytes :: int

definition default_asset_rules :: string where
  "default_asset_rules = ''*/file/*'' @ [CHR 0x0A] @ ''*/emby/Items/*/Images/*''"

definition normalizeAssetCacheConfig :: "asset_config \<Rightarrow> asset_config option" where
  "normalizeAssetCacheConfig site0 =
     (let site1 = (if ac_ttl site0 = 0 then site0\<lparr>ac_ttl := 86400\<rparr> else site0);
          site2 = (if ac_max_bytes site1 = 0 then site1\<lparr>ac_max_bytes := 512 * 1048576\<rparr> else site1);
          site = (if trim_space (ac_rules site2) = [] then site2\<lparr>ac_rules := default_asset_rules\<rparr> else site2)
      in if ac_ttl site < 60 \<or> ac_ttl site > 30 * 24 * 3600 then None
         else if ac_max_bytes site < 1048576 \<or> ac_max_bytes site > 20 * 1073741824 then None
         else if length (ac_rules site) > 4096 then None
         else Some site)"

section \<open>Identities\<close>

definition uaProfiles :: "(string \<times> UAProfile) list" where
  "uaProfiles =
     [(''infuse'', \<lparr>ua_name = ''Infuse'', ua_user_agent = ''Infuse/7.8.1'', ua_client = ''Infuse'', ua_version = ''7.8.1''\<rparr>),
      (''web'', \<lparr>ua_name = ''Web'',
         ua_user_agent = ''Mozilla/5.0 (Windows NT 10.0; Win64; x64) AppleWebKit/537.36 Emby Theater'',
         ua_client = ''Emby Web'', ua_version = ''4.9.0.42''\<rparr>),
      (''client'', \<lparr>ua_name = ''Client'', ua_user_agent = ''Emby-Theater/4.7.0'', ua_client = ''Emby Theater'',
         ua_version = ''4.7.0''\<rparr>)]"

record UAHeaderPolicy =
  Rewrite :: bool
  Profile :: UAProfile

definition empty_profile :: UAProfile where
  "empty_profile = \<lparr>ua_name = [], ua_user_agent = [], ua_client = [], ua_version = []\<rparr>"

definition getUAProfile :: "string \<Rightarrow> UAProfile" where
  "getUAProfile mode =
     (case map_of uaProfiles (to_lower mode) of Some p \<Rightarrow> p | None \<Rightarrow> the (map_of uaProfiles ''infuse''))"

definition validateCustomUAValue :: "string \<Rightarrow> nat \<Rightarrow> bool \<Rightarrow> bool" where
  "validateCustomUAValue value maxLen allowQuotes \<longleftrightarrow>
     value \<noteq> [] \<and> length value \<le> maxLen \<and>
     list_all (\<lambda>c. 32 \<le> byte c \<and> byte c \<le> 126 \<and> (allowQuotes \<or> c \<noteq> CHR 0x22 \<and> c \<noteq> CHR 0x5C)) value"

type_synonym ua_config = "string \<times> string \<times> string \<times> string"

definition normalizeUAConfig :: "string \<Rightarrow> string \<Rightarrow> string \<Rightarrow> string \<Rightarrow> ua_config option" where
  "normalizeUAConfig mode0 userAgent0 client0 version0 =
     (let mode = to_lower (trim_space mode0)
      in if mode = ''passthrough'' then Some (mode, [], [], [])
         else if mode \<noteq> ''custom'' then
           (if map_of uaProfiles mode = None then None else Some (mode, [], [], []))
         else
           let userAgent = trim_space userAgent0; client = trim_space client0; version = trim_space version0
           in if \<not> validateCustomUAValue userAgent 1024 True then None
              else if \<not> validateCustomUAValue client 128 False then None
              else if \<not> validateCustomUAValue version 64 False then None
              else Some (mode, userAgent, client, version))"

definition resolveUAHeaderPolicy :: "ua_config \<Rightarrow> UAHeaderPolicy option" where
  "resolveUAHeaderPolicy site =
     (case site of (m0, u0, c0, v0) \<Rightarrow>
        (case normalizeUAConfig m0 u0 c0 v0 of
           None \<Rightarrow> None
         | Some (mode, userAgent, client, version) \<Rightarrow>
             if mode = ''passthrough'' then Some \<lparr>Rewrite = False, Profile = empty_profile\<rparr>
             else if mode = ''custom'' then
               Some \<lparr>Rewrite = True, Profile = \<lparr>ua_name = ''Custom'', ua_user_agent = userAgent,
                       ua_client = client, ua_version = version\<rparr>\<rparr>
             else Some \<lparr>Rewrite = True,
                     Profile = (case map_of uaProfiles mode of Some p \<Rightarrow> p | None \<Rightarrow> empty_profile)\<rparr>))"

definition mergeSiteUAConfig :: "ua_config \<Rightarrow> string option \<Rightarrow> string option \<Rightarrow> string option \<Rightarrow> string option \<Rightarrow>
    ua_config option" where
  "mergeSiteUAConfig old requestedMode requestedUserAgent requestedClient requestedVersion =
     (case old of (oldMode, oldUserAgent, oldClient, oldVersion) \<Rightarrow>
        let hasCustomFields = (requestedUserAgent \<noteq> None \<or> requestedClient \<noteq> None \<or> requestedVersion \<noteq> None);
            mode = (case requestedMode of None \<Rightarrow> oldMode | Some m \<Rightarrow> m)
        in if hasCustomFields \<and> (requestedUserAgent = None \<or> requestedClient = None \<or> requestedVersion = None) then None
           else
             let userAgent = (if hasCustomFields then the requestedUserAgent else oldUserAgent);
                 client = (if hasCustomFields then the requestedClient else oldClient);
                 version = (if hasCustomFields then the requestedVersion else oldVersion)
             in if requestedMode = None \<and> \<not> hasCustomFields then normalizeUAConfig mode userAgent client version
                else
                  let normalizedMode = to_lower (trim_space mode)
                  in if normalizedMode \<noteq> ''custom'' then
                       (if hasCustomFields \<and> (trim_space userAgent \<noteq> [] \<or> trim_space client \<noteq> [] \<or> trim_space version \<noteq> [])
                        then None else normalizeUAConfig normalizedMode [] [] [])
                     else if \<not> hasCustomFields then None
                     else normalizeUAConfig normalizedMode userAgent client version)"

section \<open>Every identity can be written into a header\<close>

lemma custom_identity_ok: "validateCustomUAValue v n False \<Longrightarrow> identity_ok v"
proof -
  assume v: "validateCustomUAValue v n False"
  have c: "32 \<le> byte c \<and> byte c \<le> 126 \<and> c \<noteq> CHR 0x22 \<and> c \<noteq> CHR 0x5C" if "c \<in> set v" for c
    using v that by (simp add: validateCustomUAValue_def list_all_iff)
  then have "value_char_ok c" if "c \<in> set v" for c
    using that by (fastforce simp: value_char_ok_def)
  with c show "identity_ok v" unfolding identity_ok_def list_all_iff by blast
qed

lemma normalizeUAConfig_cases:
  assumes "normalizeUAConfig m u c v = Some (m', u', c', v')"
  shows "m' = ''passthrough'' \<and> u' = [] \<and> c' = [] \<and> v' = [] \<or>
    m' \<noteq> ''custom'' \<and> m' \<noteq> ''passthrough'' \<and> (\<exists>p. map_of uaProfiles m' = Some p) \<and> u' = [] \<and> c' = [] \<and> v' = [] \<or>
    m' = ''custom'' \<and> validateCustomUAValue u' 1024 True \<and> validateCustomUAValue c' 128 False \<and> validateCustomUAValue v' 64 False"
proof -
  define mode where "mode = to_lower (trim_space m)"
  note a = assms [unfolded normalizeUAConfig_def Let_def, folded mode_def]
  show ?thesis
  proof (cases "mode = ''passthrough''")
    case True
    with a show ?thesis by simp
  next
    case np: False
    show ?thesis
    proof (cases "mode = ''custom''")
      case True
      with a show ?thesis by (simp split: if_splits)
    next
      case False
      with a np show ?thesis by (cases "map_of uaProfiles mode") auto
    qed
  qed
qed

lemma builtin_identities: "map_of uaProfiles m = Some p \<Longrightarrow> identity_ok (ua_client p) \<and> identity_ok (ua_version p)"
proof -
  have "list_all (\<lambda>(k, p). identity_ok (ua_client p) \<and> identity_ok (ua_version p)) uaProfiles" by code_simp
  then show "map_of uaProfiles m = Some p \<Longrightarrow> identity_ok (ua_client p) \<and> identity_ok (ua_version p)"
    by (auto simp: list_all_iff dest!: map_of_SomeD)
qed

lemma resolved_identity_ok:
  assumes "resolveUAHeaderPolicy site = Some policy" "Rewrite policy"
  shows "identity_ok (ua_client (Profile policy)) \<and> identity_ok (ua_version (Profile policy))"
proof -
  obtain m0 u0 c0 v0 where site: "site = (m0, u0, c0, v0)" by (cases site)
  obtain m u c v where n: "normalizeUAConfig m0 u0 c0 v0 = Some (m, u, c, v)"
    using assms(1) by (auto simp: resolveUAHeaderPolicy_def site split: option.splits)
  with assms show ?thesis
    using normalizeUAConfig_cases [OF n] custom_identity_ok builtin_identities
    by (auto simp: resolveUAHeaderPolicy_def site)
qed

end
