(* ===== verification/Client_Headers.thy ===== *)
theory Client_Headers
  imports Dynamic_Network Site_Config
begin

text \<open>
  \<open>cmd/meridian/trusted_proxy.go\<close> and \<open>proxy_headers.go\<close>: which forwarding headers of a
  request are believed, what the upstream is told about the client, the removal of the panel's session
  cookie and the headers of a WebSocket upgrade; with the part of \<open>net/http\<close> and \<open>net\<close>
  they rest on (header keys, cookies, networks).
\<close>

section \<open>Header maps\<close>

definition isHTTPTokenByte :: "char \<Rightarrow> bool" where
  "isHTTPTokenByte c \<longleftrightarrow> is_lower c \<or> is_upper c \<or> is_digit c \<or> c \<in> set (''!#$%&'' @ [CHR 0x27] @ ''*+-.^_`|~'')"

definition upper_byte :: "char \<Rightarrow> char" where
  "upper_byte c = (if is_lower c then char_of (byte c - 32) else c)"

fun canon_key :: "bool \<Rightarrow> string \<Rightarrow> string" where
  "canon_key upper [] = []"
| "canon_key upper (c # s) = (if upper then upper_byte c else lower_byte c) # canon_key (c = CHR ''-'') s"

definition CanonicalHeaderKey :: "string \<Rightarrow> string" where
  "CanonicalHeaderKey s = (if list_all isHTTPTokenByte s then canon_key True s else s)"

definition hdr_values :: "http_header \<Rightarrow> string \<Rightarrow> string list" where
  "hdr_values h n = mget_or [] h (CanonicalHeaderKey n)"

definition hdr_get :: "http_header \<Rightarrow> string \<Rightarrow> string" where
  "hdr_get h n = (case hdr_values h n of [] \<Rightarrow> [] | v # _ \<Rightarrow> v)"

definition hdr_set :: "string \<Rightarrow> string \<Rightarrow> http_header \<Rightarrow> http_header" where
  "hdr_set n v h = mput (CanonicalHeaderKey n) [v] h"

definition hdr_add :: "string \<Rightarrow> string \<Rightarrow> http_header \<Rightarrow> http_header" where
  "hdr_add n v h = mput (CanonicalHeaderKey n) (hdr_values h n @ [v]) h"

definition hdr_del :: "string \<Rightarrow> http_header \<Rightarrow> http_header" where
  "hdr_del n h = mdel (CanonicalHeaderKey n) h"

section \<open>Networks\<close>

text \<open>A network that \<open>ParseCIDR\<close> returns: its masked address and the length of its prefix.\<close>

definition mask_addr :: "addr \<Rightarrow> nat \<Rightarrow> addr" where
  "mask_addr a n =
     (case a of V4 w \<Rightarrow> V4 (push_bit (32 - n) (drop_bit (32 - n) w))
      | V6 w \<Rightarrow> V6 (push_bit (128 - n) (drop_bit (128 - n) w)))"

definition parse_cidr_net :: "string \<Rightarrow> (addr \<times> nat) option" where
  "parse_cidr_net s =
     (let (a, m, found) = cut CHR ''/'' s
      in if \<not> found then None
         else case parse_addr a of
           None \<Rightarrow> None
         | Some ad \<Rightarrow>
             if digits_ok m \<and> digits_value m \<le> (case ad of V4 _ \<Rightarrow> 32 | V6 _ \<Rightarrow> 128)
             then Some (mask_addr ad (digits_value m), digits_value m) else None)"

text \<open>\<open>Contains\<close> compares in IPv4 when both are IPv4, mapped or not.\<close>

definition net_contains :: "addr \<times> nat \<Rightarrow> net_ip \<Rightarrow> bool" where
  "net_contains net ip =
     (case addr_from_slice ip of
        None \<Rightarrow> False
      | Some a \<Rightarrow>
          let n = (case net of (V4 w, l) \<Rightarrow> (V4 w, l)
                   | (V6 w, l) \<Rightarrow> if drop_bit 32 w = 0xFFFF then (V4 (ucast w), l - 96) else (V6 w, l))
          in prefix_contains n (unmap a))"

definition ip_string :: "net_ip \<Rightarrow> string" where
  "ip_string ip = (case addr_from_slice ip of None \<Rightarrow> ''<nil>'' | Some a \<Rightarrow> addr_string (unmap a))"

fun parse_networks :: "string list \<Rightarrow> (addr \<times> nat) list option" where
  "parse_networks [] = Some []"
| "parse_networks (raw0 # rest) =
     (let raw = trim_space raw0
      in if raw = [] then parse_networks rest
         else case parse_cidr_net raw of
           None \<Rightarrow> None
         | Some n \<Rightarrow> map_option ((#) n) (parse_networks rest))"

definition parseTrustedProxyCIDRs :: "string \<Rightarrow> (addr \<times> nat) list option" where
  "parseTrustedProxyCIDRs value = parse_networks (split_on CHR '','' value)"

section \<open>Who is asking\<close>

record inbound_request =
  in_remote :: string
  in_tls :: bool
  in_host :: string
  in_header :: http_header
  in_path_prefix :: "string option"    \<comment> \<open>the context value \<open>pathIngressContextKey\<close>\<close>
  in_shared_host :: bool               \<comment> \<open>the context value \<open>publicHostIngressContextKey\<close>\<close>

definition remoteAddressIP :: "string \<Rightarrow> net_ip option" where
  "remoteAddressIP remote =
     (case net_split_host_port remote of Some (h, _) \<Rightarrow> parse_ip h | None \<Rightarrow> parse_ip remote)"

definition isTrustedProxy :: "net_ip option \<Rightarrow> (addr \<times> nat) list \<Rightarrow> bool" where
  "isTrustedProxy ip networks = (case ip of None \<Rightarrow> False | Some a \<Rightarrow> list_ex (\<lambda>n. net_contains n a) networks)"

definition singleForwardedHeaderValue :: "http_header \<Rightarrow> string \<Rightarrow> string option" where
  "singleForwardedHeaderValue h name =
     (case hdr_values h name of
        [v] \<Rightarrow> let value = trim_space v in if value = [] \<or> contains_sub value '','' then None else Some value
      | _ \<Rightarrow> None)"

definition requestClientKey :: "inbound_request \<Rightarrow> (addr \<times> nat) list \<Rightarrow> string" where
  "requestClientKey r trusted =
     (let peerIP = remoteAddressIP (in_remote r);
          forwarded = (if isTrustedProxy peerIP trusted then
              (case singleForwardedHeaderValue (in_header r) ''X-Real-IP'' of None \<Rightarrow> None | Some v \<Rightarrow> parse_ip v) else None)
      in case forwarded of
           Some ip \<Rightarrow> ip_string ip
         | None \<Rightarrow>
             (case peerIP of
                Some ip \<Rightarrow> ip_string ip
              | None \<Rightarrow> if in_remote r \<noteq> [] then in_remote r else ''unknown''))"

definition isManagedForwardingHeaderName :: "string \<Rightarrow> bool" where
  "isManagedForwardingHeaderName name \<longleftrightarrow>
     (let lowerName = to_lower name
      in lowerName = ''forwarded'' \<or> lowerName = ''x-real-ip'' \<or> has_prefix lowerName ''x-forwarded-'' \<or>
         lowerName \<in> set [''cf-connecting-ip'', ''cf-connecting-ipv6'', ''fastly-client-ip'', ''fly-client-ip'',
           ''true-client-ip'', ''x-appengine-user-ip'', ''x-azure-clientip'', ''x-client-ip'',
           ''x-cluster-client-ip'', ''x-envoy-external-address'', ''x-original-forwarded-for''])"

definition removeClientForwardingHeaders :: "http_header \<Rightarrow> http_header" where
  "removeClientForwardingHeaders h = filter (\<lambda>(n, _). \<not> isManagedForwardingHeaderName n) h"

definition setTrustedForwardingHeaders :: "http_header \<Rightarrow> inbound_request option \<Rightarrow> (addr \<times> nat) list \<Rightarrow> http_header" where
  "setTrustedForwardingHeaders h0 inbound trusted =
     (let h = removeClientForwardingHeaders h0
      in case inbound of
           None \<Rightarrow> h
         | Some r \<Rightarrow>
             let peerIP = remoteAddressIP (in_remote r);
                 known = isTrustedProxy peerIP trusted;
                 clientIP = (case (if known then singleForwardedHeaderValue (in_header r) ''X-Real-IP'' else None) of
                     None \<Rightarrow> peerIP | Some v \<Rightarrow> (case parse_ip v of None \<Rightarrow> peerIP | Some ip \<Rightarrow> Some ip));
                 ownProto = (if in_tls r then ''https'' else ''http'');
                 proto = (case (if known then singleForwardedHeaderValue (in_header r) ''X-Forwarded-Proto'' else None) of
                     None \<Rightarrow> ownProto
                   | Some v \<Rightarrow> if equal_fold v ''http'' \<or> equal_fold v ''https'' then to_lower v else ownProto);
                 h' = (case clientIP of None \<Rightarrow> h
                   | Some ip \<Rightarrow> hdr_set ''X-Real-IP'' (ip_string ip) (hdr_set ''X-Forwarded-For'' (ip_string ip) h))
             in hdr_set ''X-Forwarded-Proto'' proto h')"

definition requestIsHTTPS :: "inbound_request \<Rightarrow> (addr \<times> nat) list \<Rightarrow> bool" where
  "requestIsHTTPS r trusted \<longleftrightarrow>
     (if in_tls r then True
      else if \<not> isTrustedProxy (remoteAddressIP (in_remote r)) trusted then False
      else case singleForwardedHeaderValue (in_header r) ''X-Forwarded-Proto'' of
        None \<Rightarrow> False | Some v \<Rightarrow> equal_fold v ''https'')"

section \<open>What the upstream is told\<close>

definition normalizeClientIPMode :: "string \<Rightarrow> string option" where
  "normalizeClientIPMode mode0 =
     (let mode = to_lower (trim_space mode0)
      in if mode = [] \<or> mode = ''both'' then Some ''both''
         else if mode = ''real_ip'' then Some ''real_ip''
         else if mode = ''none'' then Some ''none''
         else None)"

definition applyClientIPMode :: "http_header \<Rightarrow> string \<Rightarrow> http_header" where
  "applyClientIPMode h mode =
     (if mode = ''real_ip'' then hdr_del ''X-Forwarded-For'' h
      else if mode = ''none'' then hdr_del ''X-Forwarded-For'' (hdr_del ''X-Real-IP'' h)
      else h)"

definition rewriteEmbyAuthorizationHeaders :: "http_header \<Rightarrow> string \<Rightarrow> UAProfile \<Rightarrow> http_header" where
  "rewriteEmbyAuthorizationHeaders h headerName p =
     map (\<lambda>(n, vs). (n, if equal_fold n headerName then map (\<lambda>v. rewriteEmbyAuthorizationValue v p) vs else vs)) h"

definition applyUAProfileHeaders :: "http_header \<Rightarrow> UAProfile \<Rightarrow> http_header" where
  "applyUAProfileHeaders h p =
     rewriteEmbyAuthorizationHeaders
       (rewriteEmbyAuthorizationHeaders (hdr_set ''User-Agent'' (ua_user_agent p) h) ''X-Emby-Authorization'' p)
       ''Authorization'' p"

definition applyUAHeaderPolicy :: "http_header \<Rightarrow> UAHeaderPolicy \<Rightarrow> http_header" where
  "applyUAHeaderPolicy h policy = (if Rewrite policy then applyUAProfileHeaders h (Profile policy) else h)"

record site_ingress =
  si_mode :: string
  si_path_prefix :: string
  si_public_host :: string

definition applySiteForwardedHost :: "http_header \<Rightarrow> inbound_request option \<Rightarrow> site_ingress \<Rightarrow> http_header" where
  "applySiteForwardedHost h0 inbound site =
     (let h = hdr_del ''X-Forwarded-Prefix'' (hdr_del ''X-Forwarded-Host'' h0)
      in case inbound of
           None \<Rightarrow> h
         | Some r \<Rightarrow>
             if ingressUsesPath (si_mode site) then
               (let prefix = (case in_path_prefix r of None \<Rightarrow> [] | Some p \<Rightarrow> p)
                in if prefix = si_path_prefix site
                   then hdr_set ''X-Forwarded-Prefix'' prefix (hdr_set ''X-Forwarded-Host'' (in_host r) h) else h)
             else if \<not> ingressUsesHost (si_mode site) then h
             else if in_shared_host r \<and> requestPublicHost (in_host r) = si_public_host site
             then hdr_set ''X-Forwarded-Host'' (si_public_host site) h
             else h)"

section \<open>Cookies\<close>

text \<open>\<open>http.ParseCookie\<close>, the text of a cookie that has a name and a value only, and the name \<open>ParseSetCookie\<close> reads.\<close>

record cookie =
  ck_name :: string
  ck_value :: string
  ck_quoted :: bool

definition ascii_space :: "char \<Rightarrow> bool" where
  "ascii_space c \<longleftrightarrow> c \<in> set [CHR 0x20, CHR 0x09, CHR 0x0A, CHR 0x0D]"

definition trim_string :: "string \<Rightarrow> string" where
  "trim_string s = rev (dropWhile ascii_space (rev (dropWhile ascii_space s)))"

definition cookie_token :: "string \<Rightarrow> bool" where
  "cookie_token s \<longleftrightarrow> s \<noteq> [] \<and> list_all isHTTPTokenByte s"

definition cookie_value_byte :: "char \<Rightarrow> bool" where
  "cookie_value_byte c \<longleftrightarrow> 32 \<le> byte c \<and> byte c < 127 \<and> c \<noteq> CHR 0x22 \<and> c \<noteq> CHR '';'' \<and> c \<noteq> CHR 0x5C"

definition parse_cookie_value :: "string \<Rightarrow> (string \<times> bool) option" where
  "parse_cookie_value raw0 =
     (let quoted = (1 < length raw0 \<and> hd raw0 = CHR 0x22 \<and> last raw0 = CHR 0x22);
          raw = (if quoted then butlast (tl raw0) else raw0)
      in if list_all cookie_value_byte raw then Some (raw, quoted) else None)"

definition parse_cookie_part :: "string \<Rightarrow> cookie option" where
  "parse_cookie_part s0 =
     (let (name, value, found) = cut CHR ''='' (trim_string s0)
      in if \<not> found \<or> \<not> cookie_token name then None
         else case parse_cookie_value value of
           None \<Rightarrow> None
         | Some (v, q) \<Rightarrow> Some \<lparr>ck_name = name, ck_value = v, ck_quoted = q\<rparr>)"

fun collect_parts :: "string list \<Rightarrow> cookie list option" where
  "collect_parts [] = Some []"
| "collect_parts (s # ss) =
     (case parse_cookie_part s of
        None \<Rightarrow> None
      | Some c \<Rightarrow> map_option ((#) c) (collect_parts ss))"

definition ParseCookie :: "string \<Rightarrow> cookie list option" where
  "ParseCookie line =
     (let parts = split_on CHR '';'' (trim_string line)
      in if parts = [[]] then None else collect_parts parts)"

definition cookie_text :: "cookie \<Rightarrow> string" where
  "cookie_text c =
     (if \<not> cookie_token (ck_name c) then []
      else
        let v = filter cookie_value_byte (ck_value c)
        in ck_name c @ ''='' @
           (if v = [] then []
            else if ck_quoted c \<or> CHR '' '' \<in> set v \<or> CHR '','' \<in> set v then [CHR 0x22] @ v @ [CHR 0x22]
            else v))"

definition set_cookie_name :: "string \<Rightarrow> string option" where
  "set_cookie_name line =
     (case split_on CHR '';'' (trim_string line) of
        [[]] \<Rightarrow> None
      | part # _ \<Rightarrow>
          (let (name, value, found) = cut CHR ''='' (trim_string part)
           in if \<not> found \<or> \<not> cookie_token (trim_string name) then None
              else case parse_cookie_value value of None \<Rightarrow> None | Some _ \<Rightarrow> Some (trim_string name))
      | [] \<Rightarrow> None)"

fun join_cookies :: "string list \<Rightarrow> string" where
  "join_cookies [] = []"
| "join_cookies [s] = s"
| "join_cookies (s # t # r) = s @ ''; '' @ join_cookies (t # r)"

definition sessionCookieName :: string where
  "sessionCookieName = ''meridian_session''"

definition is_cookie_key :: "string \<Rightarrow> bool" where
  "is_cookie_key n \<longleftrightarrow> equal_fold n ''Cookie''"

text \<open>The values of the \<open>Cookie\<close> headers in one list of cookies: \<open>None\<close> when one is malformed.\<close>

fun parse_all :: "string list \<Rightarrow> cookie list option" where
  "parse_all [] = Some []"
| "parse_all (raw # raws) =
     (case ParseCookie raw of
        None \<Rightarrow> None
      | Some cs \<Rightarrow> map_option ((@) cs) (parse_all raws))"

definition stripCookieByName :: "http_header \<Rightarrow> string \<Rightarrow> http_header" where
  "stripCookieByName h name =
     (let raws = concat (map snd (filter (\<lambda>(n, _). is_cookie_key n) h));
          rest = filter (\<lambda>(n, _). \<not> is_cookie_key n) h
      in if raws = [] then rest
         else case parse_all raws of
           None \<Rightarrow> rest
         | Some cs \<Rightarrow>
             let kept = map cookie_text (filter (\<lambda>c. ck_name c \<noteq> name) cs)
             in if kept = [] then rest else hdr_set ''Cookie'' (join_cookies kept) rest)"

definition stripPanelSessionSetCookies :: "http_header \<Rightarrow> http_header" where
  "stripPanelSessionSetCookies h =
     foldl (\<lambda>h v. case set_cookie_name v of
               None \<Rightarrow> h
             | Some n \<Rightarrow> if n = sessionCookieName then h else hdr_add ''Set-Cookie'' v h)
       (hdr_del ''Set-Cookie'' h) (hdr_values h ''Set-Cookie'')"

section \<open>The headers of an upstream request\<close>

definition prepareUpstreamHeadersWithClientIPMode ::
    "http_header \<Rightarrow> inbound_request option \<Rightarrow> UAHeaderPolicy \<Rightarrow> string \<Rightarrow> (addr \<times> nat) list \<Rightarrow> http_header" where
  "prepareUpstreamHeadersWithClientIPMode h inbound policy mode trusted =
     applyUAHeaderPolicy
       (applyClientIPMode (setTrustedForwardingHeaders (stripCookieByName h sessionCookieName) inbound trusted) mode) policy"

definition prepareUpstreamHeaders ::
    "http_header \<Rightarrow> inbound_request option \<Rightarrow> UAHeaderPolicy \<Rightarrow> (addr \<times> nat) list \<Rightarrow> http_header" where
  "prepareUpstreamHeaders h inbound policy trusted =
     prepareUpstreamHeadersWithClientIPMode h inbound policy ''both'' trusted"

definition connection_tokens :: "http_header \<Rightarrow> string list" where
  "connection_tokens h =
     filter (\<lambda>t. t \<noteq> []) (map trim_space (concat (map (split_on CHR '','') (hdr_values h ''Connection''))))"

definition hop_by_hop_names :: "string list" where
  "hop_by_hop_names =
     [''Content-Length'', ''Keep-Alive'', ''Proxy-Authenticate'', ''Proxy-Authorization'', ''Proxy-Connection'',
      ''TE'', ''Trailer'', ''Transfer-Encoding'', ''Upgrade'']"

text \<open>The last step of the code, the policy of the site's own headers, is an argument that is applied to the result.\<close>

definition prepareWebSocketUpstreamHeadersWithClientIPMode ::
    "inbound_request \<Rightarrow> string \<Rightarrow> UAHeaderPolicy \<Rightarrow> (addr \<times> nat) list \<Rightarrow> string \<Rightarrow> (http_header \<Rightarrow> http_header) option \<Rightarrow>
     http_header" where
  "prepareWebSocketUpstreamHeadersWithClientIPMode r targetHost policy trusted mode upstreamPolicy =
     (let h1 = foldl (\<lambda>h t. hdr_del t h) (in_header r) (connection_tokens (in_header r));
          h2 = foldl (\<lambda>h t. hdr_del t h) h1 hop_by_hop_names;
          h3 = hdr_set ''Host'' targetHost (hdr_set ''Upgrade'' ''websocket'' (hdr_set ''Connection'' ''Upgrade'' h2));
          h4 = prepareUpstreamHeadersWithClientIPMode h3 (Some r) policy mode trusted
      in case upstreamPolicy of None \<Rightarrow> h4 | Some apply_policy \<Rightarrow> apply_policy h4)"

definition prepareWebSocketUpstreamHeadersWithTrustedProxies ::
    "inbound_request \<Rightarrow> string \<Rightarrow> UAHeaderPolicy \<Rightarrow> (addr \<times> nat) list \<Rightarrow> (http_header \<Rightarrow> http_header) option \<Rightarrow>
     http_header" where
  "prepareWebSocketUpstreamHeadersWithTrustedProxies r targetHost policy trusted upstreamPolicy =
     prepareWebSocketUpstreamHeadersWithClientIPMode r targetHost policy trusted ''both'' upstreamPolicy"

definition prepareWebSocketUpstreamHeaders ::
    "inbound_request \<Rightarrow> string \<Rightarrow> UAHeaderPolicy \<Rightarrow> (http_header \<Rightarrow> http_header) option \<Rightarrow> http_header" where
  "prepareWebSocketUpstreamHeaders r targetHost policy upstreamPolicy =
     prepareWebSocketUpstreamHeadersWithTrustedProxies r targetHost policy [] upstreamPolicy"

section \<open>Header maps, looked up\<close>

lemma mget_filter_key: "mget (filter (\<lambda>(n, _). P n) h) n = (if P n then mget h n else None)"
  by (induction h) auto

lemma mget_map_value: "mget (map (\<lambda>(n, v). (n, f n v)) h) n = map_option (f n) (mget h n)"
  by (induction h) auto

lemma hdr_set_get [simp]: "mget (hdr_set n v h) k = (if k = CanonicalHeaderKey n then Some [v] else mget h k)"
  by (simp add: hdr_set_def)

lemma hdr_del_get [simp]: "mget (hdr_del n h) k = (if k = CanonicalHeaderKey n then None else mget h k)"
  by (simp add: hdr_del_def)

lemma canonical_names [simp]:
  "CanonicalHeaderKey ''X-Real-IP'' = ''X-Real-Ip''"
  "CanonicalHeaderKey ''X-Forwarded-For'' = ''X-Forwarded-For''"
  "CanonicalHeaderKey ''X-Forwarded-Proto'' = ''X-Forwarded-Proto''"
  "CanonicalHeaderKey ''User-Agent'' = ''User-Agent''"
  "CanonicalHeaderKey ''Cookie'' = ''Cookie''"
  by code_simp+

lemma managed_names [simp]:
  "isManagedForwardingHeaderName ''X-Real-Ip''" "isManagedForwardingHeaderName ''X-Forwarded-For''"
  "isManagedForwardingHeaderName ''X-Forwarded-Proto''" "\<not> isManagedForwardingHeaderName ''User-Agent''"
  by code_simp+

text \<open>
  The runes that fold to an ASCII letter fold to \<open>k\<close> or \<open>s\<close>: a name equal under folding to a word
  without those letters is that word in some mix of capitals.
\<close>

lemma fold_is_lower:
  "simple_fold n = t \<Longrightarrow> list_all (\<lambda>c. plain c \<and> c \<noteq> CHR ''k'' \<and> c \<noteq> CHR ''s'') t \<Longrightarrow> to_lower n = t"
proof (induction n arbitrary: t rule: simple_fold.induct)
  case (1 x y z r)
  then show ?case
    by (auto simp: lower_byte_def plain_def byte_def split: if_splits)
next
  case (2 x y)
  then show ?case
    by (auto simp: lower_byte_def plain_def byte_def split: if_splits)
qed auto

lemma lower_names: "to_lower ''x-emby-authorization'' = ''x-emby-authorization''" "to_lower ''authorization'' = ''authorization''"
  by code_simp+

lemma identity_header_not_managed:
  assumes "equal_fold n ''X-Emby-Authorization'' \<or> equal_fold n ''Authorization''"
  shows "\<not> isManagedForwardingHeaderName n"
proof -
  have f: "simple_fold ''X-Emby-Authorization'' = ''x-emby-authorization''" "simple_fold ''Authorization'' = ''authorization''"
    by code_simp+
  have "list_all (\<lambda>c. plain c \<and> c \<noteq> CHR ''k'' \<and> c \<noteq> CHR ''s'') ''x-emby-authorization''"
    "list_all (\<lambda>c. plain c \<and> c \<noteq> CHR ''k'' \<and> c \<noteq> CHR ''s'') ''authorization''"
    by code_simp+
  from fold_is_lower [OF _ this(1)] fold_is_lower [OF _ this(2)] assms
  have l: "to_lower n = to_lower ''x-emby-authorization'' \<or> to_lower n = to_lower ''authorization''"
    unfolding equal_fold_def lower_names f by blast
  have "\<not> isManagedForwardingHeaderName ''x-emby-authorization''" "\<not> isManagedForwardingHeaderName ''authorization''"
    by code_simp+
  with l show ?thesis
    unfolding isManagedForwardingHeaderName_def by metis
qed

lemma applyUAHeaderPolicy_managed:
  assumes "isManagedForwardingHeaderName n"
  shows "mget (applyUAHeaderPolicy h policy) n = mget h n"
proof -
  have "\<not> equal_fold n ''X-Emby-Authorization''" "\<not> equal_fold n ''Authorization''" "n \<noteq> ''User-Agent''"
    using assms identity_header_not_managed managed_names(4) by blast+
  then show ?thesis
    by (simp add: applyUAHeaderPolicy_def applyUAProfileHeaders_def rewriteEmbyAuthorizationHeaders_def
        mget_map_value [where f = "\<lambda>n vs. if E n then map (g n) vs else vs" for E g] option.map_ident del: to_lower.simps map_map)
qed

section \<open>Which client the upstream is told\<close>

text \<open>What the panel believes of a request: the peer, unless the peer is a trusted proxy that names another.\<close>

definition believed_ip :: "inbound_request \<Rightarrow> (addr \<times> nat) list \<Rightarrow> net_ip option" where
  "believed_ip r trusted =
     (let peer = remoteAddressIP (in_remote r)
      in if isTrustedProxy peer trusted
         then (case singleForwardedHeaderValue (in_header r) ''X-Real-IP'' of
             None \<Rightarrow> peer | Some v \<Rightarrow> (case parse_ip v of None \<Rightarrow> peer | Some ip \<Rightarrow> Some ip))
         else peer)"

definition believed_proto :: "inbound_request \<Rightarrow> (addr \<times> nat) list \<Rightarrow> string" where
  "believed_proto r trusted =
     (let own = (if in_tls r then ''https'' else ''http'')
      in if isTrustedProxy (remoteAddressIP (in_remote r)) trusted
         then (case singleForwardedHeaderValue (in_header r) ''X-Forwarded-Proto'' of
             None \<Rightarrow> own
           | Some v \<Rightarrow> if equal_fold v ''http'' \<or> equal_fold v ''https'' then to_lower v else own)
         else own)"

lemma setTrusted_managed:
  assumes "isManagedForwardingHeaderName n"
  shows "mget (setTrustedForwardingHeaders h (Some r) trusted) n =
    (if n = ''X-Forwarded-Proto'' then Some [believed_proto r trusted]
     else case believed_ip r trusted of
       None \<Rightarrow> None
     | Some ip \<Rightarrow> if n = ''X-Real-Ip'' \<or> n = ''X-Forwarded-For'' then Some [ip_string ip] else None)"
proof -
  have p: "(case (if isTrustedProxy (remoteAddressIP (in_remote r)) trusted
        then singleForwardedHeaderValue (in_header r) ''X-Forwarded-Proto'' else None) of
      None \<Rightarrow> (if in_tls r then ''https'' else ''http'')
    | Some v \<Rightarrow> if equal_fold v ''http'' \<or> equal_fold v ''https'' then to_lower v
        else (if in_tls r then ''https'' else ''http'')) = believed_proto r trusted"
    by (simp add: believed_proto_def Let_def del: to_lower.simps)
  have i: "(case (if isTrustedProxy (remoteAddressIP (in_remote r)) trusted
        then singleForwardedHeaderValue (in_header r) ''X-Real-IP'' else None) of
      None \<Rightarrow> remoteAddressIP (in_remote r)
    | Some v \<Rightarrow> (case parse_ip v of None \<Rightarrow> remoteAddressIP (in_remote r) | Some ip \<Rightarrow> Some ip)) = believed_ip r trusted"
    by (simp add: believed_ip_def Let_def)
  show ?thesis
    unfolding setTrustedForwardingHeaders_def Let_def option.case p i removeClientForwardingHeaders_def
    using assms by (cases "believed_ip r trusted") (auto simp: mget_filter_key simp del: to_lower.simps)
qed

lemma prepared_managed:
  assumes "isManagedForwardingHeaderName n"
  shows "mget (prepareUpstreamHeadersWithClientIPMode h (Some r) policy mode trusted) n =
    (if n = ''X-Forwarded-Proto'' then Some [believed_proto r trusted]
     else case believed_ip r trusted of
       None \<Rightarrow> None
     | Some ip \<Rightarrow>
         if n = ''X-Real-Ip'' \<and> mode \<noteq> ''none'' \<or> n = ''X-Forwarded-For'' \<and> mode \<notin> {''real_ip'', ''none''}
         then Some [ip_string ip] else None)"
  unfolding prepareUpstreamHeadersWithClientIPMode_def applyUAHeaderPolicy_managed [OF assms]
  using assms by (cases "believed_ip r trusted"; cases "mode = ''none''"; cases "mode = ''real_ip''")
    (simp_all add: applyClientIPMode_def setTrusted_managed)


section \<open>The panel's cookie\<close>

definition cookie_ok :: "cookie \<Rightarrow> bool" where
  "cookie_ok c \<longleftrightarrow> cookie_token (ck_name c) \<and> list_all cookie_value_byte (ck_value c)"

definition cookie_pair :: "cookie \<Rightarrow> string \<times> string" where
  "cookie_pair c = (ck_name c, ck_value c)"

lemma parse_cookie_part_ok: "parse_cookie_part s = Some c \<Longrightarrow> cookie_ok c"
  by (auto simp: parse_cookie_part_def cookie_ok_def parse_cookie_value_def Let_def
      split: prod.splits if_splits option.splits)

lemma collect_parts_ok: "collect_parts ss = Some cs \<Longrightarrow> list_all cookie_ok cs"
  by (induction ss arbitrary: cs) (auto dest: parse_cookie_part_ok split: option.splits)

lemma ParseCookie_ok: "ParseCookie l = Some cs \<Longrightarrow> list_all cookie_ok cs"
  by (auto simp: ParseCookie_def Let_def split: if_splits dest: collect_parts_ok)

lemma parse_all_ok: "parse_all raws = Some cs \<Longrightarrow> list_all cookie_ok cs"
  by (induction raws arbitrary: cs) (auto dest: ParseCookie_ok split: option.splits)

lemma token_byte_facts: "isHTTPTokenByte c \<Longrightarrow> \<not> ascii_space c \<and> c \<noteq> CHR ''='' \<and> c \<noteq> CHR '';''"
  by (auto simp: isHTTPTokenByte_def ascii_space_def is_lower_def is_upper_def is_digit_def byte_def)

lemma value_byte_facts: "cookie_value_byte c \<Longrightarrow> ascii_space c \<longleftrightarrow> c = CHR '' ''"
  by (auto simp: cookie_value_byte_def ascii_space_def byte_def)

definition quoted_text :: "cookie \<Rightarrow> string" where
  "quoted_text c =
     (if ck_value c = [] then []
      else if ck_quoted c \<or> CHR '' '' \<in> set (ck_value c) \<or> CHR '','' \<in> set (ck_value c)
      then [CHR 0x22] @ ck_value c @ [CHR 0x22] else ck_value c)"

lemma cookie_text_ok: "cookie_ok c \<Longrightarrow> cookie_text c = ck_name c @ CHR ''='' # quoted_text c"
  by (simp add: cookie_text_def cookie_ok_def quoted_text_def filter_id_conv list_all_iff Let_def)

lemma quoted_text_parse: "cookie_ok c \<Longrightarrow> \<exists>q. parse_cookie_value (quoted_text c) = Some (ck_value c, q)"
proof -
  assume ok: "cookie_ok c"
  have n: "CHR 0x22 \<notin> set (ck_value c)"
    using ok by (auto simp: cookie_ok_def list_all_iff cookie_value_byte_def)
  show ?thesis
  proof (cases "ck_value c")
    case Nil
    then show ?thesis by (intro exI [of _ False]) (simp add: quoted_text_def parse_cookie_value_def)
  next
    case (Cons x xs)
    then have "hd (ck_value c) \<noteq> CHR 0x22" using n by auto
    with ok Cons show ?thesis
      by (auto simp: quoted_text_def parse_cookie_value_def cookie_ok_def butlast_append)
  qed
qed

lemma quoted_text_semicolon: "cookie_ok c \<Longrightarrow> CHR '';'' \<notin> set (quoted_text c)"
  by (auto simp: quoted_text_def cookie_ok_def list_all_iff cookie_value_byte_def)

lemma quoted_text_last: "cookie_ok c \<Longrightarrow> quoted_text c \<noteq> [] \<Longrightarrow> \<not> ascii_space (last (quoted_text c))"
proof -
  assume ok: "cookie_ok c" and q: "quoted_text c \<noteq> []"
  have "ascii_space (last (ck_value c)) \<Longrightarrow> ck_value c \<noteq> [] \<Longrightarrow> CHR '' '' \<in> set (ck_value c)"
    using ok value_byte_facts last_in_set by (metis cookie_ok_def list_all_iff)
  with q show ?thesis by (auto simp: quoted_text_def ascii_space_def split: if_splits)
qed

lemma trim_string_id: "s \<noteq> [] \<Longrightarrow> \<not> ascii_space (hd s) \<Longrightarrow> \<not> ascii_space (last s) \<Longrightarrow> trim_string s = s"
proof -
  assume a: "s \<noteq> []" "\<not> ascii_space (hd s)" "\<not> ascii_space (last s)"
  then have "dropWhile ascii_space s = s" by (simp add: dropWhile_eq_self_iff)
  moreover have "dropWhile ascii_space (rev s) = rev s" using a by (simp add: dropWhile_eq_self_iff hd_rev)
  ultimately show ?thesis by (simp add: trim_string_def)
qed

lemma trim_string_space: "trim_string (CHR '' '' # s) = trim_string s"
  by (simp add: trim_string_def ascii_space_def)

lemma cookie_text_ends:
  assumes "cookie_ok c"
  shows "cookie_text c \<noteq> []" "\<not> ascii_space (hd (cookie_text c))" "\<not> ascii_space (last (cookie_text c))"
    "CHR '';'' \<notin> set (cookie_text c)"
proof -
  have t: "cookie_token (ck_name c)" using assms by (simp add: cookie_ok_def)
  then have "isHTTPTokenByte (hd (ck_name c))" "ck_name c \<noteq> []"
    by (auto simp: cookie_token_def list_all_iff)
  then show "cookie_text c \<noteq> []" "\<not> ascii_space (hd (cookie_text c))"
    using token_byte_facts by (auto simp: cookie_text_ok [OF assms])
  show "\<not> ascii_space (last (cookie_text c))"
    using quoted_text_last [OF assms] by (auto simp: cookie_text_ok [OF assms] ascii_space_def)
  have "CHR '';'' \<notin> set (ck_name c)"
    using t token_byte_facts by (auto simp: cookie_token_def list_all_iff)
  then show "CHR '';'' \<notin> set (cookie_text c)"
    using quoted_text_semicolon [OF assms] by (simp add: cookie_text_ok [OF assms])
qed

lemma cut_at: "c \<notin> set a \<Longrightarrow> cut c (a @ c # b) = (a, b, True)"
  by (induction a) auto

lemma parse_part_text:
  assumes "cookie_ok c" "trim_string s = cookie_text c"
  shows "\<exists>d. parse_cookie_part s = Some d \<and> cookie_pair d = cookie_pair c"
proof -
  obtain q where q: "parse_cookie_value (quoted_text c) = Some (ck_value c, q)"
    using quoted_text_parse [OF assms(1)] by blast
  have t: "cookie_token (ck_name c)" using assms(1) by (simp add: cookie_ok_def)
  then have "CHR ''='' \<notin> set (ck_name c)"
    using token_byte_facts by (auto simp: cookie_token_def list_all_iff)
  then have "cut CHR ''='' (cookie_text c) = (ck_name c, quoted_text c, True)"
    by (simp add: cookie_text_ok [OF assms(1)] cut_at)
  then show ?thesis
    using q t by (simp add: parse_cookie_part_def assms(2) cookie_pair_def)
qed

lemma collect_joined:
  assumes "cs \<noteq> []" "list_all cookie_ok cs" "pad = [] \<or> pad = '' ''"
  shows "\<exists>ds. collect_parts (split_on CHR '';'' (pad @ join_cookies (map cookie_text cs))) = Some ds \<and>
      map cookie_pair ds = map cookie_pair cs"
  using assms
proof (induction cs arbitrary: pad)
  case (Cons c cs)
  have ok: "cookie_ok c" using Cons.prems by simp
  have "trim_string (pad @ cookie_text c) = cookie_text c"
    using trim_string_id [OF cookie_text_ends(1) [OF ok] cookie_text_ends(2) [OF ok] cookie_text_ends(3) [OF ok]] Cons.prems(3) by (auto simp: trim_string_space)
  from parse_part_text [OF ok this] obtain d where
    d: "parse_cookie_part (pad @ cookie_text c) = Some d" "cookie_pair d = cookie_pair c" by blast
  have s: "CHR '';'' \<notin> set (pad @ cookie_text c)"
    using cookie_text_ends(4) [OF ok] Cons.prems(3) by auto
  show ?case
  proof (cases cs)
    case Nil
    then show ?thesis using d s by simp
  next
    case (Cons e es)
    obtain ds where "collect_parts (split_on CHR '';'' ('' '' @ join_cookies (map cookie_text cs))) = Some ds"
      "map cookie_pair ds = map cookie_pair cs"
      using Cons.IH [of "'' ''"] Cons.prems Cons by auto
    moreover have "split_on CHR '';'' (pad @ join_cookies (map cookie_text (c # cs))) =
        (pad @ cookie_text c) # split_on CHR '';'' ('' '' @ join_cookies (map cookie_text cs))"
      using split_on_append [OF s] Cons by simp
    ultimately show ?thesis using d by simp
  qed
qed simp


lemma join_cookies_ends:
  assumes "cs \<noteq> []" "list_all cookie_ok cs"
  shows "join_cookies (map cookie_text cs) \<noteq> [] \<and> \<not> ascii_space (hd (join_cookies (map cookie_text cs))) \<and>
    \<not> ascii_space (last (join_cookies (map cookie_text cs)))"
  using assms
proof (induction cs)
  case (Cons c cs)
  then have ok: "cookie_ok c" by simp
  show ?case
  proof (cases cs)
    case Nil
    then show ?thesis using cookie_text_ends [OF ok] by simp
  next
    case (Cons e es)
    have "join_cookies (map cookie_text cs) \<noteq> [] \<and> \<not> ascii_space (last (join_cookies (map cookie_text cs)))"
      using Cons.IH Cons.prems Cons by simp
    moreover have "join_cookies (map cookie_text (c # cs)) = cookie_text c @ ''; '' @ join_cookies (map cookie_text cs)"
      using Cons by simp
    ultimately show ?thesis using cookie_text_ends [OF ok] by simp
  qed
qed simp

lemma ParseCookie_joined:
  assumes "cs \<noteq> []" "list_all cookie_ok cs"
  shows "\<exists>ds. ParseCookie (join_cookies (map cookie_text cs)) = Some ds \<and> map cookie_pair ds = map cookie_pair cs"
proof -
  let ?l = "join_cookies (map cookie_text cs)"
  have t: "trim_string ?l = ?l" using join_cookies_ends [OF assms] by (intro trim_string_id) auto
  have "join_with CHR '';'' (split_on CHR '';'' ?l) = ?l" by simp
  then have "split_on CHR '';'' ?l \<noteq> [[]]" using join_cookies_ends [OF assms] by (metis join_with.simps(2))
  then show ?thesis
    using collect_joined [OF assms, of "[]"] by (simp add: ParseCookie_def t)
qed

definition cookie_headers :: "http_header \<Rightarrow> string list" where
  "cookie_headers h = concat (map snd (filter (\<lambda>(n, _). is_cookie_key n) h))"

lemma in_mput: "(n, v) \<in> set (mput k u m) \<Longrightarrow> (n, v) = (k, u) \<or> (n, v) \<in> set m"
  by (induction m) (auto split: if_splits)

lemma in_hdr_set: "(n, vs) \<in> set (hdr_set k v h) \<Longrightarrow> (n, vs) = (CanonicalHeaderKey k, [v]) \<or> (n, vs) \<in> set h"
  unfolding hdr_set_def by (rule in_mput)

lemma in_hdr_del: "(n, vs) \<in> set (hdr_del k h) \<Longrightarrow> (n, vs) \<in> set h"
  by (auto simp: hdr_del_def AList.delete_eq)

lemma strip_cookie_cases:
  assumes "(n, vs) \<in> set (stripCookieByName h name)" "is_cookie_key n"
  shows "n = ''Cookie'' \<and> (\<exists>raw cs ds. vs = [raw] \<and> parse_all (cookie_headers h) = Some cs \<and> ParseCookie raw = Some ds \<and>
      map cookie_pair ds = filter (\<lambda>(k, _). k \<noteq> name) (map cookie_pair cs))"
proof -
  let ?rest = "filter (\<lambda>(n, _). \<not> is_cookie_key n) h"
  have r: "(n, vs) \<notin> set ?rest" using assms(2) by auto
  obtain cs where cs: "parse_all (cookie_headers h) = Some cs"
    using assms(1) r by (cases "parse_all (cookie_headers h)")
      (auto simp: stripCookieByName_def cookie_headers_def [symmetric] Let_def split: if_splits)
  let ?kept = "filter (\<lambda>c. ck_name c \<noteq> name) cs"
  have k: "?kept \<noteq> []" and i: "(n, vs) \<in> set (hdr_set ''Cookie'' (join_cookies (map cookie_text ?kept)) ?rest)"
    using assms(1) r cs by (auto simp: stripCookieByName_def cookie_headers_def [symmetric] Let_def split: if_splits)
  have "list_all cookie_ok ?kept" using parse_all_ok [OF cs] by (auto simp: list_all_iff)
  from ParseCookie_joined [OF k this] obtain ds where
    ds: "ParseCookie (join_cookies (map cookie_text ?kept)) = Some ds" "map cookie_pair ds = map cookie_pair ?kept" by blast
  have "map cookie_pair ?kept = filter (\<lambda>(k, _). k \<noteq> name) (map cookie_pair cs)"
    by (simp add: filter_map cookie_pair_def o_def)
  with ds cs in_hdr_set [OF i] r show ?thesis by auto
qed

lemma not_cookie_names:
  "is_cookie_key n \<Longrightarrow> \<not> equal_fold n ''X-Emby-Authorization'' \<and> \<not> equal_fold n ''Authorization''"
  "\<not> is_cookie_key ''X-Real-Ip''" "\<not> is_cookie_key ''X-Forwarded-For''" "\<not> is_cookie_key ''X-Forwarded-Proto''"
  "\<not> is_cookie_key ''User-Agent''"
proof -
  have "simple_fold ''Cookie'' \<noteq> simple_fold ''X-Emby-Authorization''" "simple_fold ''Cookie'' \<noteq> simple_fold ''Authorization''"
    by code_simp+
  then show "is_cookie_key n \<Longrightarrow> \<not> equal_fold n ''X-Emby-Authorization'' \<and> \<not> equal_fold n ''Authorization''"
    by (auto simp: is_cookie_key_def equal_fold_def)
qed code_simp+

lemma in_setTrusted:
  assumes "(n, vs) \<in> set (setTrustedForwardingHeaders h inbound trusted)" "is_cookie_key n"
  shows "(n, vs) \<in> set h"
proof -
  have r: "(n, vs) \<in> set (removeClientForwardingHeaders h) \<Longrightarrow> (n, vs) \<in> set h"
    by (auto simp: removeClientForwardingHeaders_def)
  have s: "(n, vs) \<in> set g" if "(n, vs) \<in> set (hdr_set k v g)"
    "k \<in> {''X-Real-IP'', ''X-Forwarded-For'', ''X-Forwarded-Proto''}" for k v g
    using that assms(2) not_cookie_names(2,3,4) by (auto dest!: in_hdr_set)
  note set_other = s [where k = "''X-Real-IP''"] s [where k = "''X-Forwarded-For''"] s [where k = "''X-Forwarded-Proto''"]
  show ?thesis
  proof (cases inbound)
    case None
    then show ?thesis using assms(1) r by (simp add: setTrustedForwardingHeaders_def)
  next
    case (Some q)
    show ?thesis
      using assms(1) unfolding setTrustedForwardingHeaders_def Let_def Some option.case
      by (auto dest!: set_other r split: option.splits)
  qed
qed

lemma in_applyUA:
  assumes "(n, vs) \<in> set (applyUAHeaderPolicy h policy)" "is_cookie_key n"
  shows "(n, vs) \<in> set h"
proof -
  have i: "(n, vs) \<in> set g" if "(n, vs) \<in> set (rewriteEmbyAuthorizationHeaders g name p)"
    "name = ''X-Emby-Authorization'' \<or> name = ''Authorization''" for name p g
    using that not_cookie_names(1) [OF assms(2)] by (auto simp: rewriteEmbyAuthorizationHeaders_def split: if_splits)
  have u: "(n, vs) \<in> set h" if "(n, vs) \<in> set (hdr_set ''User-Agent'' v h)" for v
    using in_hdr_set [OF that] assms(2) not_cookie_names(5) by auto
  show ?thesis
    using assms(1) by (auto simp: applyUAHeaderPolicy_def applyUAProfileHeaders_def dest!: i u split: if_splits)
qed

lemma in_applyClientIPMode: "(n, vs) \<in> set (applyClientIPMode h mode) \<Longrightarrow> (n, vs) \<in> set h"
  by (auto simp: applyClientIPMode_def dest!: in_hdr_del split: if_splits)

lemma prepared_cookie:
  assumes "(n, vs) \<in> set (prepareUpstreamHeadersWithClientIPMode h inbound policy mode trusted)" "is_cookie_key n"
  shows "n = ''Cookie'' \<and> (\<exists>raw cs ds. vs = [raw] \<and> parse_all (cookie_headers h) = Some cs \<and> ParseCookie raw = Some ds \<and>
      map cookie_pair ds = filter (\<lambda>(k, _). k \<noteq> sessionCookieName) (map cookie_pair cs))"
  using assms(1) unfolding prepareUpstreamHeadersWithClientIPMode_def
  by (rule strip_cookie_cases [OF in_setTrusted [OF in_applyClientIPMode [OF in_applyUA [OF _ assms(2)]] assms(2)] assms(2)])


section \<open>Properties\<close>

text \<open>A client cannot choose the address or the protocol the upstream is told: whatever forwarding
  headers a request carries, under whatever name a proxy product uses, every forwarding header of the request
  that is sent on is one the panel wrote itself. The address is the one of the TCP peer, and the protocol the one
  of the connection, unless the peer is a configured trusted proxy; the mode of the site can only take the
  address away. The upgrade of a WebSocket gets the same headers.\<close>

theorem forwarding_headers_are_the_panels:
  assumes "isManagedForwardingHeaderName n"
  shows "mget (prepareUpstreamHeadersWithClientIPMode h (Some r) policy mode trusted) n =
      (if n = ''X-Forwarded-Proto'' then Some [believed_proto r trusted]
       else case believed_ip r trusted of
         None \<Rightarrow> None
       | Some ip \<Rightarrow>
           if n = ''X-Real-Ip'' \<and> mode \<noteq> ''none'' \<or> n = ''X-Forwarded-For'' \<and> mode \<notin> {''real_ip'', ''none''}
           then Some [ip_string ip] else None) \<and>
    mget (prepareWebSocketUpstreamHeadersWithClientIPMode r target policy trusted mode None) n =
      mget (prepareUpstreamHeadersWithClientIPMode h (Some r) policy mode trusted) n \<and>
    (isTrustedProxy (remoteAddressIP (in_remote r)) trusted \<or>
     believed_ip r trusted = remoteAddressIP (in_remote r) \<and>
     believed_proto r trusted = (if in_tls r then ''https'' else ''http''))"
  using prepared_managed [OF assms]
  by (simp add: prepareWebSocketUpstreamHeadersWithClientIPMode_def Let_def believed_ip_def believed_proto_def)

text \<open>The session of the panel never reaches an upstream: a request that is sent on has a \<open>Cookie\<close> header
  only when all the cookies of the client parsed, then exactly one, and reading it gives the names and values
  of the client's cookies in their order without those called like the panel's session.\<close>

theorem session_cookie_stays:
  assumes "(n, vs) \<in> set (prepareUpstreamHeadersWithClientIPMode h inbound policy mode trusted)"
    and "is_cookie_key n"
  shows "n = ''Cookie'' \<and> (\<exists>raw cs ds. vs = [raw] \<and> parse_all (cookie_headers h) = Some cs \<and> ParseCookie raw = Some ds \<and>
      map cookie_pair ds = filter (\<lambda>(k, _). k \<noteq> sessionCookieName) (map cookie_pair cs))"
  using assms by (rule prepared_cookie)

section \<open>On concrete input\<close>

definition demo_inbound :: inbound_request where
  "demo_inbound = \<lparr>in_remote = ''203.0.113.9:5000'', in_tls = False, in_host = ''a.com'',
     in_header = [(''X-Real-Ip'', [''1.1.1.1'']), (''True-Client-Ip'', [''1.1.1.1'']),
       (''Cookie'', [''a=1; meridian_session=s'', ''b=\"x y\"''])],
     in_path_prefix = None, in_shared_host = False\<rparr>"

definition demo_headers :: http_header where
  "demo_headers = prepareUpstreamHeadersWithClientIPMode (in_header demo_inbound) (Some demo_inbound)
     \<lparr>Rewrite = False, Profile = empty_profile\<rparr> ''both'' []"

lemma demo_headers_value:
  "demo_headers = [(''Cookie'', [''a=1; b=\"x y\"'']), (''X-Forwarded-For'', [''203.0.113.9'']),
     (''X-Real-Ip'', [''203.0.113.9'']), (''X-Forwarded-Proto'', [''http''])]"
  by code_simp


lemma demo_value: "mget demo_headers ''X-Real-Ip'' = Some [''203.0.113.9'']"
  by (simp add: demo_headers_value)

theorem forwarding_headers_are_the_panels_witness:
  "isManagedForwardingHeaderName ''X-Real-Ip'' \<and> mget demo_headers ''X-Real-Ip'' = Some [''203.0.113.9''] \<and>
   mget (prepareWebSocketUpstreamHeadersWithClientIPMode demo_inbound ''b.com''
     \<lparr>Rewrite = False, Profile = empty_profile\<rparr> [] ''both'' None) ''X-Real-Ip'' = mget demo_headers ''X-Real-Ip''"
  using forwarding_headers_are_the_panels [where n = "''X-Real-Ip''" and h = "in_header demo_inbound" and r = demo_inbound
      and policy = "\<lparr>Rewrite = False, Profile = empty_profile\<rparr>" and mode = "''both''" and trusted = "[]" and target = "''b.com''"]
    demo_value
  unfolding demo_headers_def [symmetric] by simp

theorem session_cookie_stays_witness:
  "\<exists>cs. parse_all (cookie_headers (in_header demo_inbound)) = Some cs \<and>
     filter (\<lambda>(k, _). k \<noteq> sessionCookieName) (map cookie_pair cs) = [(''a'', ''1''), (''b'', ''x y'')]"
proof -
  have k: "is_cookie_key ''Cookie''" by (simp add: is_cookie_key_def)
  have "(''Cookie'', [''a=1; b=\"x y\"'']) \<in> set demo_headers" by (simp add: demo_headers_value)
  from session_cookie_stays [OF this [unfolded demo_headers_def] k]
  obtain cs ds where c: "parse_all (cookie_headers (in_header demo_inbound)) = Some cs" "ParseCookie ''a=1; b=\"x y\"'' = Some ds"
    "map cookie_pair ds = filter (\<lambda>(k, _). k \<noteq> sessionCookieName) (map cookie_pair cs)"
    by auto
  moreover have "map_option (map cookie_pair) (ParseCookie ''a=1; b=\"x y\"'') = Some [(''a'', ''1''), (''b'', ''x y'')]"
    by code_simp
  ultimately show ?thesis by simp
qed

end
