(* ===== verification/Upstream_Headers.thy ===== *)
theory Upstream_Headers
  imports Client_Headers
begin

text \<open>
  \<open>cmd/meridian/upstream_headers.go\<close>: the headers an administrator configures for the upstream
  of a site, how they are checked, kept encrypted and sent to the one authority they are for. AES-GCM
  with base64, SHA-256 and the JSON of the stored list are arguments: \<open>seal\<close> takes the key, the nonce, the
  additional data and the value, \<open>unseal\<close> the key, the additional data and the text after \<open>v2:\<close>. An error
  is \<open>None\<close>.
\<close>

section \<open>Names and values\<close>

definition maxUpstreamHeaders :: nat where
  "maxUpstreamHeaders = 16"

definition maxUpstreamHeaderName :: nat where
  "maxUpstreamHeaderName = 64"

definition maxUpstreamHeaderValue :: nat where
  "maxUpstreamHeaderValue = 1024"

definition reserved_upstream_names :: "string list" where
  "reserved_upstream_names =
     [''authorization'', ''connection'', ''content-length'', ''cookie'', ''host'',
      ''keep-alive'', ''proxy-authenticate'', ''proxy-authorization'', ''proxy-connection'',
      ''te'', ''trailer'', ''transfer-encoding'', ''upgrade'', ''user-agent'',
      ''x-emby-authorization'', ''x-emby-token'', ''x-mediabrowser-token'']"

definition normalizeUpstreamHeaderName :: "string \<Rightarrow> string option" where
  "normalizeUpstreamHeaderName value0 =
     (let value = trim_space value0
      in if value = [] \<or> length value > maxUpstreamHeaderName then None
         else if \<not> list_all isHTTPTokenByte value then None
         else
           let name = CanonicalHeaderKey value; lower = to_lower name
           in if isManagedForwardingHeaderName lower then None
              else if lower \<in> set reserved_upstream_names then None
              else if has_prefix lower ''sec-websocket-'' then None
              else Some name)"

definition printable_byte :: "char \<Rightarrow> bool" where
  "printable_byte c \<longleftrightarrow> 32 \<le> byte c \<and> byte c \<le> 126"

definition normalizeUpstreamHeaderValue :: "string \<Rightarrow> string option" where
  "normalizeUpstreamHeaderValue value0 =
     (let value = trim_space value0
      in if value = [] \<or> length value > maxUpstreamHeaderValue then None
         else if list_all printable_byte value then Some value else None)"

text \<open>\<open>Some None\<close>: no key is configured.\<close>

definition resolveUpstreamHeaderKey :: "(string \<Rightarrow> string) \<Rightarrow> string \<Rightarrow> string option option" where
  "resolveUpstreamHeaderKey sha256 value =
     (if value = [] then Some None
      else if contains_any value [CHR '' '', CHR 0x09, CHR 0x0D, CHR 0x0A, CHR 0x0B, CHR 0x0C] then None
      else if length value < 32 then None
      else Some (Some (sha256 value)))"

section \<open>The stored list\<close>

record header_lib =
  seal :: "string \<Rightarrow> string \<Rightarrow> string \<Rightarrow> string \<Rightarrow> string"     \<comment> \<open>key, nonce, additional data, value\<close>
  unseal :: "string \<Rightarrow> string \<Rightarrow> string \<Rightarrow> string option"          \<comment> \<open>key, additional data, sealed text\<close>
  read_headers :: "string \<Rightarrow> (string \<times> string) list option"   \<comment> \<open>names and ciphertexts\<close>
  write_headers :: "(string \<times> string) list \<Rightarrow> string"

definition header_aad :: "string \<Rightarrow> string \<Rightarrow> string" where
  "header_aad name authority = ''meridian-upstream-header:v2:'' @ to_lower name @ [CHR 0x00] @ authority"

definition encryptUpstreamHeaderValue ::
    "header_lib \<Rightarrow> string \<Rightarrow> string \<Rightarrow> string \<Rightarrow> string \<Rightarrow> string option \<Rightarrow> string option" where
  "encryptUpstreamHeaderValue lib nonce name value authority key =
     (case key of
        None \<Rightarrow> None
      | Some k \<Rightarrow> if authority = [] then None else Some (''v2:'' @ seal lib k nonce (header_aad name authority) value))"

definition decryptUpstreamHeaderValue ::
    "header_lib \<Rightarrow> string \<Rightarrow> string \<Rightarrow> string \<Rightarrow> string option \<Rightarrow> string option" where
  "decryptUpstreamHeaderValue lib name ciphertext authority key =
     (case key of
        None \<Rightarrow> None
      | Some k \<Rightarrow>
          if \<not> has_prefix ciphertext ''v2:'' then None
          else if authority = [] then None
          else unseal lib k (header_aad name authority) (trim_prefix ciphertext ''v2:''))"

fun check_stored :: "(string \<times> string) list \<Rightarrow> string list \<Rightarrow> (string \<times> string) list option" where
  "check_stored [] seen = Some []"
| "check_stored ((name0, c) # hs) seen =
     (case normalizeUpstreamHeaderName name0 of
        None \<Rightarrow> None
      | Some name \<Rightarrow>
          if to_lower name \<in> set seen then None
          else if \<not> has_prefix c ''v2:'' then None
          else map_option ((#) (name, c)) (check_stored hs (to_lower name # seen)))"

definition parseStoredUpstreamHeaders :: "header_lib \<Rightarrow> string \<Rightarrow> (string \<times> string) list option" where
  "parseStoredUpstreamHeaders lib raw =
     (if trim_space raw = [] then Some []
      else case read_headers lib raw of
        None \<Rightarrow> None
      | Some hs \<Rightarrow> if length hs > maxUpstreamHeaders then None else check_stored hs [])"

definition upstreamHeaderViews :: "header_lib \<Rightarrow> string \<Rightarrow> (string \<times> bool) list option" where
  "upstreamHeaderViews lib raw = map_option (map (\<lambda>(n, _). (n, True))) (parseStoredUpstreamHeaders lib raw)"

text \<open>The last entry of a lower case name, as filling the map \<open>existingByName\<close> leaves it.\<close>

definition stored_cipher :: "(string \<times> string) list \<Rightarrow> string \<Rightarrow> string option" where
  "stored_cipher existing key = map_of (rev (map (\<lambda>(n, c). (to_lower n, c)) existing)) key"

text \<open>The loop over the requested headers; each takes the next nonce.\<close>

fun merge_requested ::
    "header_lib \<Rightarrow> (string \<times> string) list \<Rightarrow> string \<Rightarrow> string option \<Rightarrow> (nat \<Rightarrow> string) \<Rightarrow> (string \<times> string option) list \<Rightarrow>
     string list \<Rightarrow> (string \<times> string) list option" where
  "merge_requested lib existing authority key nonce [] seen = Some []"
| "merge_requested lib existing authority key nonce ((name0, v) # rs) seen =
     (case normalizeUpstreamHeaderName name0 of
        None \<Rightarrow> None
      | Some name \<Rightarrow>
          if to_lower name \<in> set seen then None
          else
            let value0 = (case v of None \<Rightarrow> [] | Some x \<Rightarrow> trim_space x);
                cipher =
                  (if value0 = [] then stored_cipher existing (to_lower name)
                   else case normalizeUpstreamHeaderValue value0 of
                     None \<Rightarrow> None
                   | Some value \<Rightarrow> encryptUpstreamHeaderValue lib (nonce (length seen)) name value authority key)
            in case cipher of
                 None \<Rightarrow> None
               | Some c \<Rightarrow> map_option ((#) (name, c))
                   (merge_requested lib existing authority key nonce rs (to_lower name # seen)))"

definition mergeUpstreamHeaders ::
    "header_lib \<Rightarrow> url_parser \<Rightarrow> (nat \<Rightarrow> string) \<Rightarrow> string \<Rightarrow> (string \<times> string option) list \<Rightarrow> string option \<Rightarrow> string \<Rightarrow>
     string option" where
  "mergeUpstreamHeaders lib parse nonce existingRaw requested key targetURL =
     (if length requested > maxUpstreamHeaders then None
      else case parseStoredUpstreamHeaders lib existingRaw of
        None \<Rightarrow> None
      | Some existing \<Rightarrow>
          (case normalizeTargetURL parse targetURL of
             None \<Rightarrow> None
           | Some target \<Rightarrow>
               map_option (write_headers lib)
                 (merge_requested lib existing (redirectHostKey target) key nonce requested [])))"

section \<open>Sending them\<close>

record upstream_policy =
  up_authority :: string
  up_values :: http_header

fun decrypt_all :: "header_lib \<Rightarrow> string \<Rightarrow> string option \<Rightarrow> (string \<times> string) list \<Rightarrow> http_header \<Rightarrow> http_header option" where
  "decrypt_all lib authority key [] values = Some values"
| "decrypt_all lib authority key ((name, c) # hs) values =
     (case decryptUpstreamHeaderValue lib name c authority key of
        None \<Rightarrow> None
      | Some v0 \<Rightarrow>
          (case normalizeUpstreamHeaderValue v0 of
             None \<Rightarrow> None
           | Some v \<Rightarrow> decrypt_all lib authority key hs (hdr_set name v values)))"

definition resolveUpstreamHeaderPolicy ::
    "header_lib \<Rightarrow> string \<Rightarrow> string option \<Rightarrow> url \<Rightarrow> upstream_policy option" where
  "resolveUpstreamHeaderPolicy lib raw key target =
     (case parseStoredUpstreamHeaders lib raw of
        None \<Rightarrow> None
      | Some stored \<Rightarrow>
          map_option (\<lambda>vs. \<lparr>up_authority = redirectHostKey target, up_values = vs\<rparr>)
            (decrypt_all lib (redirectHostKey target) key stored []))"

definition upstreamHeaderPolicy_apply :: "upstream_policy \<Rightarrow> http_header \<Rightarrow> url option \<Rightarrow> http_header" where
  "upstreamHeaderPolicy_apply p h0 target =
     (let h = foldl (\<lambda>h n. hdr_del n h) h0 (map fst (up_values p))
      in case target of
           None \<Rightarrow> h
         | Some t \<Rightarrow>
             if redirectHostKey t \<noteq> up_authority p then h
             else foldl (\<lambda>h (n, vs). mput n vs h) h (up_values p))"

section \<open>Normal names and values\<close>

lemma upper_byte_cases: "upper_byte c = c \<and> \<not> is_lower c \<or> is_lower c \<and> is_upper (upper_byte c)"
proof (cases "is_lower c")
  case True
  then have "byte (upper_byte c) = byte c - 32"
    unfolding upper_byte_def by (simp add: byte_char_of less_imp_diff_less)
  with True show ?thesis by (auto simp: is_lower_def is_upper_def)
qed (simp add: upper_byte_def)

lemma lower_byte_cases: "lower_byte c = c \<and> \<not> is_upper c \<or> is_upper c \<and> is_lower (lower_byte c)"
proof (cases "is_upper c")
  case True
  then have "byte c + 32 < 256" by (simp add: is_upper_def)
  then have "byte (lower_byte c) = byte c + 32"
    using True unfolding lower_byte_def by (simp add: byte_char_of)
  with True show ?thesis by (simp add: is_lower_def is_upper_def)
qed (simp add: lower_byte_def)

lemma upper_not_lower: "is_upper c \<Longrightarrow> \<not> is_lower c"
  by (simp add: is_upper_def is_lower_def)

lemma dash_no_letter: "\<not> is_upper CHR ''-''" "\<not> is_lower CHR ''-''"
  by (simp_all add: is_upper_def is_lower_def byte_def)

lemma upper_byte_idem [simp]: "upper_byte (upper_byte c) = upper_byte c"
  using upper_byte_cases [of c] upper_not_lower [of "upper_byte c"] by (auto simp: upper_byte_def)

lemma canon_byte_facts:
  "isHTTPTokenByte c \<Longrightarrow> isHTTPTokenByte (upper_byte c)" "isHTTPTokenByte c \<Longrightarrow> isHTTPTokenByte (lower_byte c)"
  "upper_byte c = CHR ''-'' \<longleftrightarrow> c = CHR ''-''" "lower_byte c = CHR ''-'' \<longleftrightarrow> c = CHR ''-''"
  using upper_byte_cases [of c] lower_byte_cases [of c] dash_no_letter
  by (auto simp: isHTTPTokenByte_def upper_byte_def lower_byte_def)

lemma canon_key_idem [simp]: "canon_key u (canon_key u s) = canon_key u s"
  by (induction u s rule: canon_key.induct) (auto simp: canon_byte_facts)

lemma canon_key_token: "list_all isHTTPTokenByte s \<Longrightarrow> list_all isHTTPTokenByte (canon_key u s)"
  by (induction u s rule: canon_key.induct) (auto simp: canon_byte_facts)

lemma canon_key_length [simp]: "length (canon_key u s) = length s"
  by (induction u s rule: canon_key.induct) auto

lemma trim_space_idem [simp]: "trim_space (trim_space s) = trim_space s"
proof -
  have l: "leading_space (trim_left_space s) = None" for s
  proof (induction s rule: trim_left_space.induct)
    case (1 s)
    then show ?case by (subst trim_left_space.simps) (auto split: option.split)
  qed
  have r: "trailing_space (trim_right_space s) = None" for s
  proof (induction s rule: trim_right_space.induct)
    case (1 s)
    then show ?case by (subst trim_right_space.simps) (auto split: option.split)
  qed
  have p: "\<exists>k. trim_right_space s = take k s" for s
  proof (induction s rule: trim_right_space.induct)
    case (1 s)
    show ?case
    proof (cases "trailing_space s")
      case None
      then have "trim_right_space s = take (length s) s" by (subst trim_right_space.simps) simp
      then show ?thesis by blast
    next
      case (Some q)
      then have e: "trim_right_space s = trim_right_space (take (length s - length q) s)"
        by (subst trim_right_space.simps) simp
      from 1 [OF Some] show ?thesis unfolding e by (metis take_take)
    qed
  qed
  have "leading_space (take k s) = None" if "leading_space s = None" for k s
  proof -
    have "has_prefix (take k s) q \<Longrightarrow> has_prefix s q" for q
      unfolding has_prefix_iff by (metis append.assoc append_take_drop_id)
    then show ?thesis using that by (auto simp: leading_space_def find_None_iff)
  qed
  then have "leading_space (trim_space s) = None"
    unfolding trim_space_def using l p by metis
  then have "trim_left_space (trim_space s) = trim_space s" by (subst trim_left_space.simps) simp
  moreover have "trim_right_space (trim_space s) = trim_space s"
    using r [of "trim_left_space s"] unfolding trim_space_def by (subst trim_right_space.simps) simp
  ultimately show ?thesis by (simp add: trim_space_def)
qed

lemma token_byte_plain: "isHTTPTokenByte c \<Longrightarrow> plain c"
  by (auto simp: isHTTPTokenByte_def plain_def is_lower_def is_upper_def is_digit_def byte_def)

lemma trim_token: "s \<noteq> [] \<Longrightarrow> list_all isHTTPTokenByte s \<Longrightarrow> trim_space s = s"
  by (intro trim_space_plain) (auto simp: list_all_iff intro: token_byte_plain)

lemma normal_name_facts:
  assumes "normalizeUpstreamHeaderName n = Some m"
  shows "m = CanonicalHeaderKey (trim_space n)" "m \<noteq> []" "list_all isHTTPTokenByte m" "CanonicalHeaderKey m = m"
    "normalizeUpstreamHeaderName m = Some m"
proof -
  let ?v = "trim_space n"
  have v: "?v \<noteq> []" "\<not> length ?v > maxUpstreamHeaderName" "list_all isHTTPTokenByte ?v"
    "m = CanonicalHeaderKey ?v" "\<not> isManagedForwardingHeaderName (to_lower m)"
    "to_lower m \<notin> set reserved_upstream_names" "\<not> has_prefix (to_lower m) ''sec-websocket-''"
    using assms by (auto simp: normalizeUpstreamHeaderName_def Let_def simp del: to_lower.simps split: if_splits)
  then have c: "m = canon_key True ?v" by (simp add: CanonicalHeaderKey_def)
  show m: "m = CanonicalHeaderKey ?v" by (rule v(4))
  show t: "list_all isHTTPTokenByte m" unfolding c by (rule canon_key_token [OF v(3)])
  have len: "length m = length ?v" unfolding c by simp
  with v(1) show ne: "m \<noteq> []" by auto
  show i: "CanonicalHeaderKey m = m" using t c by (simp add: CanonicalHeaderKey_def)
  show "normalizeUpstreamHeaderName m = Some m"
    unfolding normalizeUpstreamHeaderName_def Let_def trim_token [OF ne t] i
    using v(2,5-7) ne t len by simp
qed

lemma normal_value_facts:
  assumes "normalizeUpstreamHeaderValue v = Some w"
  shows "w = trim_space v" "normalizeUpstreamHeaderValue w = Some w" "normalizeUpstreamHeaderValue (trim_space v) = Some w"
  using assms by (auto simp: normalizeUpstreamHeaderValue_def Let_def split: if_splits)


section \<open>A stored list, read back\<close>

text \<open>
  What is relied on: an authenticated text opens under its own key and additional data to the value that was
  sealed and under no other, and a list that was written as JSON is not blank and is read back.
\<close>

definition header_lib_ok :: "header_lib \<Rightarrow> bool" where
  "header_lib_ok lib \<longleftrightarrow>
     (\<forall>k n a b v. unseal lib k a (seal lib k n b v) = (if a = b then Some v else None)) \<and>
     (\<forall>hs. read_headers lib (write_headers lib hs) = Some hs \<and> trim_space (write_headers lib hs) \<noteq> [])"

definition requested_new :: "(string \<times> string option) list \<Rightarrow> bool" where
  "requested_new rs \<longleftrightarrow> list_all (\<lambda>(n, v). v \<noteq> None \<and> trim_space (the v) \<noteq> []) rs"

definition sent_header :: "string \<times> string option \<Rightarrow> string \<times> string list" where
  "sent_header r = (CanonicalHeaderKey (trim_space (fst r)), [trim_space (the (snd r))])"

text \<open>A stored entry that holds the value a request gave, sealed for an authority.\<close>

definition holds_for :: "header_lib \<Rightarrow> string \<Rightarrow> string option \<Rightarrow> string \<times> string option \<Rightarrow> string \<times> string \<Rightarrow> bool" where
  "holds_for lib authority key r s \<longleftrightarrow>
     fst s = fst (sent_header r) \<and> normalizeUpstreamHeaderName (fst s) = Some (fst s) \<and> has_prefix (snd s) ''v2:'' \<and>
     normalizeUpstreamHeaderValue (trim_space (the (snd r))) = Some (trim_space (the (snd r))) \<and>
     (\<forall>b. decryptUpstreamHeaderValue lib (fst s) (snd s) b key =
        (if b = authority then Some (trim_space (the (snd r))) else None))"

lemma encrypt_decrypt:
  assumes "header_lib_ok lib" "encryptUpstreamHeaderValue lib n name v a key = Some c"
  shows "has_prefix c ''v2:'' \<and> decryptUpstreamHeaderValue lib name c b key = (if b = a then Some v else None)"
proof -
  obtain k where k: "key = Some k" "a \<noteq> []" "c = ''v2:'' @ seal lib k n (header_aad name a) v"
    using assms(2) by (auto simp: encryptUpstreamHeaderValue_def split: option.splits if_splits)
  have p: "has_prefix c ''v2:''" unfolding k(3) by (rule has_prefix_append)
  then have t: "trim_prefix c ''v2:'' = seal lib k n (header_aad name a) v"
    unfolding trim_prefix_def k(3) by simp
  have "unseal lib k (header_aad name b) (seal lib k n (header_aad name a) v) = (if b = a then Some v else None)"
    using assms(1) by (auto simp: header_lib_ok_def header_aad_def)
  with p t k show ?thesis by (auto simp: decryptUpstreamHeaderValue_def simp del: has_prefix_append)
qed

lemma merged_entries:
  assumes "header_lib_ok lib" "requested_new rs" "merge_requested lib existing a key nonce rs seen = Some hs"
  shows "list_all2 (holds_for lib a key) rs hs \<and> distinct (map (\<lambda>h. to_lower (fst h)) hs) \<and>
    (\<forall>h\<in>set hs. to_lower (fst h) \<notin> set seen) \<and> (rs = [] \<or> a \<noteq> [])"
  using assms(2,3)
proof (induction rs arbitrary: seen hs)
  case (Cons r rs)
  obtain name0 v where r: "r = (name0, v)" by (cases r)
  obtain x where v: "v = Some x" "trim_space x \<noteq> []"
    using Cons.prems(1) r by (auto simp: requested_new_def)
  obtain name where name: "normalizeUpstreamHeaderName name0 = Some name" "to_lower name \<notin> set seen"
    using Cons.prems(2) r by (auto simp: Let_def split: option.splits if_splits)
  obtain w where w: "normalizeUpstreamHeaderValue (trim_space x) = Some w"
    using Cons.prems(2) r v name by (cases "normalizeUpstreamHeaderValue (trim_space x)") (auto simp: Let_def)
  obtain c where c: "encryptUpstreamHeaderValue lib (nonce (length seen)) name w a key = Some c"
    using Cons.prems(2) r v name w
    by (cases "encryptUpstreamHeaderValue lib (nonce (length seen)) name w a key") (auto simp: Let_def)
  obtain hs' where hs: "hs = (name, c) # hs'" "merge_requested lib existing a key nonce rs (to_lower name # seen) = Some hs'"
    using Cons.prems(2) r v name w c by (auto simp: Let_def)
  have "requested_new rs" using Cons.prems(1) by (simp add: requested_new_def)
  from Cons.IH [OF this hs(2)] have ih: "list_all2 (holds_for lib a key) rs hs'" "distinct (map (\<lambda>h. to_lower (fst h)) hs')"
    "\<forall>h\<in>set hs'. to_lower (fst h) \<notin> set (to_lower name # seen)"
    by auto
  have val: "w = trim_space x" using normal_value_facts(1) [OF w] by simp
  have "holds_for lib a key r (name, c)"
    using encrypt_decrypt [OF assms(1) c] normal_name_facts(1,5) [OF name(1)] w val r v
    by (simp add: holds_for_def sent_header_def)
  moreover have "a \<noteq> []"
    using c by (auto simp: encryptUpstreamHeaderValue_def split: option.splits if_splits)
  ultimately show ?case
    using ih hs(1) name(2) by auto
qed simp

lemma check_stored_holds:
  "list_all2 (holds_for lib a key) rs hs \<Longrightarrow> distinct (map (\<lambda>h. to_lower (fst h)) hs) \<Longrightarrow>
    \<forall>h\<in>set hs. to_lower (fst h) \<notin> set seen \<Longrightarrow> check_stored hs seen = Some hs"
proof (induction hs arbitrary: rs seen)
  case (Cons h hs)
  obtain name c where h: "h = (name, c)" by (cases h)
  obtain r rs' where rs: "rs = r # rs'" "holds_for lib a key r h" "list_all2 (holds_for lib a key) rs' hs"
    using Cons.prems(1) by (auto simp: list_all2_Cons2)
  have "check_stored hs (to_lower name # seen) = Some hs"
    by (intro Cons.IH [OF rs(3)]) (use Cons.prems(2,3) h in \<open>auto simp: image_iff\<close>)
  moreover have "to_lower name \<notin> set seen" using Cons.prems(3) h by simp
  moreover have "normalizeUpstreamHeaderName name = Some name" "has_prefix c ''v2:''"
    using rs(2) h by (auto simp: holds_for_def)
  ultimately show ?case by (simp add: h)
qed simp

lemma update_fresh: "k \<notin> fst ` set m \<Longrightarrow> mput k v m = m @ [(k, v)]"
  by (induction m) auto

lemma decrypt_own:
  assumes "list_all2 (holds_for lib a key) rs hs" "distinct (map (\<lambda>h. to_lower (fst h)) hs)"
    and "\<forall>h\<in>set hs. fst h \<notin> fst ` set vs"
  shows "decrypt_all lib a key hs vs = Some (vs @ map sent_header rs)"
  using assms
proof (induction hs arbitrary: rs vs rule: list.induct)
  case (Cons h hs)
  obtain name c where h: "h = (name, c)" by (cases h)
  obtain r rs' where rs: "rs = r # rs'" "holds_for lib a key r h" "list_all2 (holds_for lib a key) rs' hs"
    using Cons.prems(1) by (auto simp: list_all2_Cons2)
  have n: "CanonicalHeaderKey name = name" "sent_header r = (name, [trim_space (the (snd r))])"
    using rs(2) h normal_name_facts(4) [of name name] by (auto simp: holds_for_def sent_header_def)
  have s: "hdr_set name (trim_space (the (snd r))) vs = vs @ [sent_header r]"
    unfolding hdr_set_def n(1) using Cons.prems(3) h n(2) by (simp add: update_fresh)
  have "fst ` set (vs @ [sent_header r]) = insert name (fst ` set vs)" by (simp add: n(2))
  moreover have "\<forall>g\<in>set hs. fst g \<noteq> name"
  proof (rule ballI, rule notI)
    fix g assume g: "g \<in> set hs" and e: "fst g = name"
    have "to_lower name \<in> set (map (\<lambda>h. to_lower (fst h)) hs)" using imageI [OF g, of "\<lambda>h. to_lower (fst h)"] e by simp
    with Cons.prems(2) h show False by simp
  qed
  moreover have "\<forall>g\<in>set hs. fst g \<notin> fst ` set vs" using Cons.prems(3) h by simp
  ultimately have "\<forall>g\<in>set hs. fst g \<notin> fst ` set (vs @ [sent_header r])" by auto
  with Cons.IH [OF rs(3)] Cons.prems(2)
  have "decrypt_all lib a key hs (vs @ [sent_header r]) = Some ((vs @ [sent_header r]) @ map sent_header rs')" by simp
  moreover have "normalizeUpstreamHeaderValue (trim_space (the (snd r))) = Some (trim_space (the (snd r)))"
    "decryptUpstreamHeaderValue lib name c a key = Some (trim_space (the (snd r)))"
    using rs(2) h by (auto simp: holds_for_def)
  ultimately show ?case using rs(1) h s by simp
qed simp

lemma decrypt_other:
  "list_all2 (holds_for lib a key) rs hs \<Longrightarrow> rs \<noteq> [] \<Longrightarrow> b \<noteq> a \<Longrightarrow> decrypt_all lib b key hs vs = None"
  by (cases hs; cases rs) (auto simp: holds_for_def)

lemma resolve_merged:
  assumes "header_lib_ok lib" "requested_new rs" "normalizeTargetURL parse targetURL = Some target"
    and "mergeUpstreamHeaders lib parse nonce existingRaw rs key targetURL = Some raw" "rs \<noteq> []"
  shows "resolveUpstreamHeaderPolicy lib raw key t =
    (if redirectHostKey t = redirectHostKey target
     then Some \<lparr>up_authority = redirectHostKey target, up_values = map sent_header rs\<rparr> else None)"
proof -
  obtain existing hs where e: "merge_requested lib existing (redirectHostKey target) key nonce rs [] = Some hs"
      "raw = write_headers lib hs" "length rs \<le> maxUpstreamHeaders"
    using assms(3,4) by (auto simp: mergeUpstreamHeaders_def split: option.splits if_splits)
  note m = merged_entries [OF assms(1,2) e(1)]
  have l: "length hs \<le> maxUpstreamHeaders" using m e(3) list_all2_lengthD by metis
  have "parseStoredUpstreamHeaders lib raw = Some hs"
    using assms(1) l check_stored_holds [of lib "redirectHostKey target" key rs hs "[]"] m
    by (simp add: parseStoredUpstreamHeaders_def header_lib_ok_def e(2))
  then show ?thesis
    using decrypt_own [of lib "redirectHostKey target" key rs hs "[]"] m
      decrypt_other [of lib "redirectHostKey target" key rs hs "redirectHostKey t" "[]"] assms(5)
    by (simp add: resolveUpstreamHeaderPolicy_def)
qed

section \<open>Where the values go\<close>

lemma deleted_get: "mget (foldl (\<lambda>h n. hdr_del n h) h ns) k = (if k \<in> CanonicalHeaderKey ` set ns then None else mget h k)"
  by (induction ns arbitrary: h) auto

lemma put_all_get: "mget (foldl (\<lambda>h (n, vs). mput n vs h) h ps) k = (case mget (rev ps) k of None \<Rightarrow> mget h k | Some v \<Rightarrow> Some v)"
  by (induction ps arbitrary: h) (auto simp: map_add_def split: option.splits)

lemma apply_get:
  assumes "mwf (up_values p)" "\<forall>n\<in>fst ` set (up_values p). CanonicalHeaderKey n = n"
  shows "mget (upstreamHeaderPolicy_apply p h (Some u)) n =
    (if n \<in> fst ` set (up_values p)
     then if redirectHostKey u = up_authority p then mget (up_values p) n else None
     else mget h n)"
proof -
  have c: "CanonicalHeaderKey ` fst ` set (up_values p) = fst ` set (up_values p)" using assms(2) by force
  have r: "mget (rev (up_values p)) = mget (up_values p)"
    using assms(1) by (auto simp: mwf_def intro!: map_of_eqI simp: rev_map [symmetric])
  have d: "mget (foldl (\<lambda>h n. hdr_del n h) h (map fst (up_values p))) n = (if n \<in> fst ` set (up_values p) then None else mget h n)"
    unfolding deleted_get by (simp add: c)
  show ?thesis
  proof (cases "mget (up_values p) n")
    case None
    then have "n \<notin> fst ` set (up_values p)" by (simp add: mget_None_iff)
    with None show ?thesis by (simp add: upstreamHeaderPolicy_apply_def Let_def d put_all_get r)
  next
    case (Some v)
    then have "n \<in> fst ` set (up_values p)" by (force dest: mget_in_set)
    with Some show ?thesis by (simp add: upstreamHeaderPolicy_apply_def Let_def d put_all_get r)
  qed
qed


lemma sent_headers_normal:
  assumes "list_all2 (holds_for lib a key) rs hs" "distinct (map (\<lambda>h. to_lower (fst h)) hs)"
  shows "mwf (map sent_header rs) \<and> (\<forall>n\<in>fst ` set (map sent_header rs).
    CanonicalHeaderKey n = n \<and> normalizeUpstreamHeaderName n = Some n)"
proof -
  have e: "map fst (map sent_header rs) = map fst hs"
    using assms(1) by (induction rule: list_all2_induct) (auto simp: holds_for_def)
  have "distinct (map to_lower (map fst hs))" using assms(2) by (simp add: comp_def)
  then have "distinct (map fst hs)" by (simp only: distinct_map)
  moreover have "normalizeUpstreamHeaderName n = Some n" if "n \<in> set (map fst hs)" for n
    using assms(1) that by (induction rule: list_all2_induct) (auto simp: holds_for_def)
  moreover have "fst ` set (map sent_header rs) = set (map fst hs)" by (metis e list.set_map)
  ultimately show ?thesis
    using normal_name_facts(4) unfolding mwf_def e by blast
qed

section \<open>Property\<close>

text \<open>A configured header is bound to the authority it was configured for: the values stored with a target are
  read back exactly for a target of the same authority, and for no other target at all. They replace whatever the
  client sent under their names, go to their authority only, and a request that is redirected elsewhere loses
  them; every other header is left alone.\<close>

theorem configured_headers_bound:
  assumes "header_lib_ok lib" "requested_new rs" "rs \<noteq> []" "normalizeTargetURL parse targetURL = Some target"
    and "mergeUpstreamHeaders lib parse nonce existingRaw rs key targetURL = Some raw"
    and "p = \<lparr>up_authority = redirectHostKey target, up_values = map sent_header rs\<rparr>"
  shows "resolveUpstreamHeaderPolicy lib raw key t =
      (if redirectHostKey t = redirectHostKey target then Some p else None) \<and>
    mget (upstreamHeaderPolicy_apply p h (Some u)) n =
      (if n \<in> fst ` set (up_values p)
       then if redirectHostKey u = redirectHostKey target then mget (up_values p) n else None
       else mget h n)"
proof -
  obtain existing hs where "merge_requested lib existing (redirectHostKey target) key nonce rs [] = Some hs"
    using assms(4,5) by (auto simp: mergeUpstreamHeaders_def split: option.splits if_splits)
  from merged_entries [OF assms(1,2) this] have "mwf (up_values p)" "\<forall>n\<in>fst ` set (up_values p). CanonicalHeaderKey n = n"
    using sent_headers_normal [of lib "redirectHostKey target" key rs hs] assms(6) by auto
  from apply_get [OF this] resolve_merged [OF assms(1,2,4,5,3)] show ?thesis
    by (simp add: assms(6))
qed

section \<open>On concrete input\<close>

text \<open>A library without secrecy: the sealed text is the key, the additional data and the value, each ended.\<close>

definition mark :: "string \<Rightarrow> string" where
  "mark s = concat (map (\<lambda>c. [CHR ''.'', c]) s) @ ''!''"

fun unmark :: "string \<Rightarrow> (string \<times> string) option" where
  "unmark (c # s) =
     (if c = CHR ''!'' then Some ([], s)
      else case s of [] \<Rightarrow> None | d # r \<Rightarrow> map_option (\<lambda>(x, y). (d # x, y)) (unmark r))"
| "unmark [] = None"

fun unmark_pairs :: "nat \<Rightarrow> string \<Rightarrow> (string \<times> string) list option" where
  "unmark_pairs 0 s = (if s = [] then Some [] else None)"
| "unmark_pairs (Suc n) s =
     (case unmark s of None \<Rightarrow> None
      | Some (a, r) \<Rightarrow> (case unmark r of None \<Rightarrow> None
         | Some (b, q) \<Rightarrow> map_option ((#) (a, b)) (unmark_pairs n q)))"

definition demo_header_lib :: header_lib where
  "demo_header_lib = \<lparr>seal = (\<lambda>k n a v. mark k @ mark a @ v),
     unseal = (\<lambda>k a s. if take (length (mark k @ mark a)) s = mark k @ mark a then Some (drop (length (mark k @ mark a)) s) else None),
     read_headers = (\<lambda>s. unmark_pairs (length (takeWhile (\<lambda>c. c = CHR ''x'') s)) (butlast (tl (dropWhile (\<lambda>c. c = CHR ''x'') s)))),
     write_headers = (\<lambda>hs. replicate (length hs) CHR ''x'' @ ''y'' @ concat (map (\<lambda>(a, b). mark a @ mark b) hs) @ ''z'')\<rparr>"

lemma unmark_mark [simp]: "unmark (mark s @ r) = Some (s, r)"
  by (induction s) (auto simp: mark_def)

lemma unmark_pairs_marked: "unmark_pairs (length hs) (concat (map (\<lambda>(a, b). mark a @ mark b) hs)) = Some hs"
  by (induction hs) auto

lemma mark_eq: "mark a @ r = mark b @ s \<longleftrightarrow> a = b \<and> r = s"
  by (metis unmark_mark option.inject prod.inject)

lemma take_mark: "take (length (mark a)) (mark b @ s) = mark a \<longleftrightarrow> a = b"
proof
  assume "take (length (mark a)) (mark b @ s) = mark a"
  then have "mark b @ s = mark a @ drop (length (mark a)) (mark b @ s)" by (metis append_take_drop_id)
  then show "a = b" by (simp add: mark_eq)
qed simp

lemma drop_marks: "dropWhile (\<lambda>c. c = d) (replicate n d @ s) = dropWhile (\<lambda>c. c = d) s"
  by (induction n) auto

lemma demo_header_lib_ok: "header_lib_ok demo_header_lib"
proof -
  have "unseal demo_header_lib k a (seal demo_header_lib k n b v) = (if a = b then Some v else None)" for k n a b v
  proof (cases "a = b")
    case True
    then show ?thesis by (simp add: demo_header_lib_def)
  next
    case False
    then have "take (length (mark a)) (mark b @ v) \<noteq> mark a" by (simp only: take_mark not_False_eq_True)
    moreover have "take (length (mark k @ mark a)) (mark k @ mark b @ v) = mark k @ take (length (mark a)) (mark b @ v)" by simp
    ultimately show ?thesis using False by (simp add: demo_header_lib_def del: take_append append_assoc length_append)
  qed
  moreover have "read_headers demo_header_lib (write_headers demo_header_lib hs) = Some hs" for hs
    by (simp add: demo_header_lib_def unmark_pairs_marked takeWhile_append drop_marks butlast_append)
  moreover have "trim_space (write_headers demo_header_lib hs) \<noteq> []" for hs
  proof -
    have "plain (hd (write_headers demo_header_lib hs))" "plain (last (write_headers demo_header_lib hs))"
      by (cases hs; simp add: demo_header_lib_def plain_def byte_def)+
    moreover have "write_headers demo_header_lib hs \<noteq> []" by (simp add: demo_header_lib_def)
    ultimately show ?thesis by (simp add: trim_space_plain)
  qed
  ultimately show ?thesis by (simp add: header_lib_ok_def)
qed


definition demo_requested :: "(string \<times> string option) list" where
  "demo_requested = [(''x-key'', Some ''s'')]"

definition demo_upstream :: url where
  "demo_upstream = empty_url\<lparr>scheme := ''https'', host := ''a.com''\<rparr>"

definition demo_raw :: "string option" where
  "demo_raw = mergeUpstreamHeaders demo_header_lib (\<lambda>_. Some demo_upstream) (\<lambda>_. []) '''' demo_requested (Some ''k'') ''https://a.com''"

lemma demo_merge_values:
  "normalizeUpstreamHeaderName ''x-key'' = Some ''X-Key''" "normalizeUpstreamHeaderValue ''s'' = Some ''s''"
  "trim_space ''s'' = ''s''" "to_lower ''X-Key'' = ''x-key''" "redirectHostKey demo_upstream = ''https://a.com''"
  "trim_space [] = []" "CanonicalHeaderKey ''x-key'' = ''X-Key''" "trim_space ''x-key'' = ''x-key''"
  by code_simp+

lemma demo_target_url: "normalizeTargetURL (\<lambda>_. Some demo_upstream) ''https://a.com'' = Some demo_upstream"
  by code_simp

lemma demo_other_key: "redirectHostKey demo_upstream \<noteq> redirectHostKey (demo_upstream\<lparr>host := ''b.com''\<rparr>)"
  by code_simp

lemma demo_header_values:
  "requested_new demo_requested" "demo_raw \<noteq> None" "map sent_header demo_requested = [(''X-Key'', [''s''])]"
proof -
  show "requested_new demo_requested" "map sent_header demo_requested = [(''X-Key'', [''s''])]"
    by (simp_all add: requested_new_def demo_requested_def sent_header_def demo_merge_values)
  show "demo_raw \<noteq> None"
    unfolding demo_raw_def mergeUpstreamHeaders_def demo_target_url
    by (simp add: demo_requested_def parseStoredUpstreamHeaders_def demo_merge_values encryptUpstreamHeaderValue_def Let_def
        maxUpstreamHeaders_def del: to_lower.simps)
qed

theorem configured_headers_bound_witness:
  "\<exists>raw p. demo_raw = Some raw \<and> resolveUpstreamHeaderPolicy demo_header_lib raw (Some ''k'') demo_upstream = Some p \<and>
     resolveUpstreamHeaderPolicy demo_header_lib raw (Some ''k'') (demo_upstream\<lparr>host := ''b.com''\<rparr>) = None \<and>
     mget (upstreamHeaderPolicy_apply p [(''X-Key'', [''mine''])] (Some demo_upstream)) ''X-Key'' = Some [''s''] \<and>
     mget (upstreamHeaderPolicy_apply p [(''X-Key'', [''mine''])] (Some (demo_upstream\<lparr>host := ''b.com''\<rparr>))) ''X-Key'' = None"
proof -
  obtain raw where raw: "demo_raw = Some raw" using demo_header_values(2) by auto
  have ne: "demo_requested \<noteq> []" by (simp add: demo_requested_def)
  let ?p = "\<lparr>up_authority = redirectHostKey demo_upstream, up_values = map sent_header demo_requested\<rparr>"
  note b = configured_headers_bound [OF demo_header_lib_ok demo_header_values(1) ne demo_target_url
      raw [unfolded demo_raw_def] refl, where n = "''X-Key''" and h = "[(''X-Key'', [''mine''])]"]
  show ?thesis
    using raw b [of demo_upstream demo_upstream] b [of "demo_upstream\<lparr>host := ''b.com''\<rparr>" "demo_upstream\<lparr>host := ''b.com''\<rparr>"]
      demo_other_key
    by (intro exI [of _ raw] exI [of _ ?p]) (auto simp: demo_header_values(3))
qed

end
