(* ===== verification/Dynamic_Policy.thy ===== *)
theory Dynamic_Policy
  imports Dynamic_Network
begin

text \<open>
  \<open>cmd/meridian/dynamic_policy.go\<close>, \<open>dynamic_compatibility.go\<close> and
  \<open>compatibility_helpers.go\<close>: the discovery profiles with their limits, the domain rules
  and discovery sources of a site, and the policy of a site as it is normalised before it is stored
  and checked when it is read back. The reader and writer of JSON documents are an argument; what a
  theorem needs of them is a hypothesis on the values it is about. A Go slice that may be nil is an
  \<open>option\<close>.
\<close>

section \<open>Profiles\<close>

record profile_limits =
  AllowedSchemes :: "string list"
  AllowedPorts :: "int list"
  AllowAnyPort :: bool
  MaxRedirects :: int
  MaxAuthorities :: int
  MaxActiveCapabilities :: int
  MaxURLsPerResponse :: int
  MaxBodyBytes :: int
  MaxDNSIPs :: int
  MaxNewAuthoritiesPerMinute :: int
  MaxStreams :: int
  IdleExpirySeconds :: int
  AbsoluteLifetimeSeconds :: int

record feature_flags =
  RedirectDiscovery :: bool
  PlaybackInfo :: bool
  HLS :: bool
  DASH :: bool
  PrivateTargets :: bool
  CustomCA :: bool
  RawFallback :: bool

record profile =
  profile_id :: string
  profile_label :: string
  profile_recommended :: bool
  profile_sources :: "string list"
  profile_limits :: profile_limits
  profile_features :: feature_flags

definition allDynamicDiscoverySources :: "string list" where
  "allDynamicDiscoverySources = [''redirect'', ''playback_info'', ''hls'', ''dash'']"

definition defaultDynamicDiscoverySources :: "string list" where
  "defaultDynamicDiscoverySources = [''redirect'', ''playback_info'']"

definition dynamicProfilesCatalog :: "profile list" where
  "dynamicProfilesCatalog =
     [\<lparr>profile_id = ''safe'', profile_label = ''Safe'', profile_recommended = False,
       profile_sources = [''redirect'', ''playback_info''],
       profile_limits = \<lparr>AllowedSchemes = [''https''], AllowedPorts = [443], AllowAnyPort = False, MaxRedirects = 3,
         MaxAuthorities = 256, MaxActiveCapabilities = 4096, MaxURLsPerResponse = 256, MaxBodyBytes = 4 * 1048576,
         MaxDNSIPs = 16, MaxNewAuthoritiesPerMinute = 60, MaxStreams = 32,
         IdleExpirySeconds = 30 * 60, AbsoluteLifetimeSeconds = 8 * 3600\<rparr>,
       profile_features = \<lparr>RedirectDiscovery = True, PlaybackInfo = True, HLS = False, DASH = False,
         PrivateTargets = False, CustomCA = False, RawFallback = False\<rparr>\<rparr>,
      \<lparr>profile_id = ''compatible'', profile_label = ''Compatible'', profile_recommended = True,
       profile_sources = allDynamicDiscoverySources,
       profile_limits = \<lparr>AllowedSchemes = [''http'', ''https''], AllowedPorts = [], AllowAnyPort = True, MaxRedirects = 5,
         MaxAuthorities = 1024, MaxActiveCapabilities = 16384, MaxURLsPerResponse = 1024, MaxBodyBytes = 16 * 1048576,
         MaxDNSIPs = 32, MaxNewAuthoritiesPerMinute = 300, MaxStreams = 128,
         IdleExpirySeconds = 2 * 3600, AbsoluteLifetimeSeconds = 24 * 3600\<rparr>,
       profile_features = \<lparr>RedirectDiscovery = True, PlaybackInfo = True, HLS = True, DASH = True,
         PrivateTargets = False, CustomCA = False, RawFallback = False\<rparr>\<rparr>,
      \<lparr>profile_id = ''extreme'', profile_label = ''Extreme'', profile_recommended = False,
       profile_sources = allDynamicDiscoverySources,
       profile_limits = \<lparr>AllowedSchemes = [''http'', ''https''], AllowedPorts = [], AllowAnyPort = True, MaxRedirects = 10,
         MaxAuthorities = 4096, MaxActiveCapabilities = 65536, MaxURLsPerResponse = 4096, MaxBodyBytes = 64 * 1048576,
         MaxDNSIPs = 64, MaxNewAuthoritiesPerMinute = 1200, MaxStreams = 512,
         IdleExpirySeconds = 24 * 3600, AbsoluteLifetimeSeconds = 7 * 24 * 3600\<rparr>,
       profile_features = \<lparr>RedirectDiscovery = True, PlaybackInfo = True, HLS = True, DASH = True,
         PrivateTargets = False, CustomCA = False, RawFallback = False\<rparr>\<rparr>]"

definition dynamicLimitsForProfile :: "string \<Rightarrow> profile_limits option" where
  "dynamicLimitsForProfile p = map_option profile_limits (find (\<lambda>c. profile_id c = p) dynamicProfilesCatalog)"

record global_limits =
  gl_MaxAuthorities :: int
  gl_MaxActiveCapabilities :: int
  gl_MaxStreams :: int
  gl_MaxNewAuthoritiesPerMinute :: int
  gl_MaxDNSWorkers :: int
  gl_MaxConcurrentParses :: int
  gl_MaxSiteConcurrentParses :: int
  gl_MaxParseMemoryBytes :: int
  gl_MaxSiteParseMemoryBytes :: int
  gl_MaxCapabilityMemoryBytes :: int
  gl_MaxSiteCapabilityMemoryBytes :: int
  gl_MaxParseDepth :: int
  gl_MaxStringBytes :: int
  gl_MaxTargetURLBytes :: int

definition dynamicGlobalLimits :: global_limits where
  "dynamicGlobalLimits =
     \<lparr>gl_MaxAuthorities = 16384, gl_MaxActiveCapabilities = 131072, gl_MaxStreams = 1024,
      gl_MaxNewAuthoritiesPerMinute = 2400, gl_MaxDNSWorkers = 32, gl_MaxConcurrentParses = 8,
      gl_MaxSiteConcurrentParses = 2, gl_MaxParseMemoryBytes = 256 * 1048576,
      gl_MaxSiteParseMemoryBytes = 64 * 1048576, gl_MaxCapabilityMemoryBytes = 256 * 1048576,
      gl_MaxSiteCapabilityMemoryBytes = 64 * 1048576, gl_MaxParseDepth = 64, gl_MaxStringBytes = 1048576,
      gl_MaxTargetURLBytes = maxDynamicTargetURLBytes\<rparr>"

definition known_profile :: "string \<Rightarrow> bool" where
  "known_profile p \<longleftrightarrow> p = ''safe'' \<or> p = ''compatible'' \<or> p = ''extreme''"

definition normalizeDynamicProfile :: "string \<Rightarrow> net_error + string" where
  "normalizeDynamicProfile v =
     (let value = to_lower (trim_space v)
      in if value = [] then Inr ''compatible''
         else if known_profile value then Inr value
         else Inl (Invalid ''dynamic_profile must be safe, compatible, or extreme''))"

section \<open>The route key\<close>

text \<open>The hash is SHA-256; \<open>ConstantTimeCompare\<close> yields 1 exactly for equal contents.\<close>

definition resolveDynamicRouteKey :: "(string \<Rightarrow> string) \<Rightarrow> string \<Rightarrow> net_error + string" where
  "resolveDynamicRouteKey sha256 value =
     (if value = [] then Inr []
      else if has_space value then Inl (Invalid ''DYNAMIC_ROUTE_KEY must not contain whitespace'')
      else if length value < 32 then Inl (Invalid ''DYNAMIC_ROUTE_KEY must be at least 32 bytes'')
      else Inr (sha256 value))"

definition validateDynamicRouteKeySeparation ::
    "(string \<Rightarrow> string) \<Rightarrow> string \<Rightarrow> string \<Rightarrow> string \<Rightarrow> net_error option" where
  "validateDynamicRouteKeySeparation sha256 dynamicKey jwtSecret headerKey =
     (if dynamicKey = [] then None
      else if length dynamicKey \<noteq> 32 \<or> jwtSecret = []
      then Some (Invalid ''resolved DYNAMIC_ROUTE_KEY and JWT_SECRET are required for key separation'')
      else if dynamicKey = sha256 jwtSecret then Some (Invalid ''DYNAMIC_ROUTE_KEY must differ from JWT_SECRET'')
      else if headerKey \<noteq> [] \<and> length headerKey \<noteq> 32
      then Some (Invalid ''resolved UPSTREAM_HEADER_KEY has an invalid length'')
      else if headerKey \<noteq> [] \<and> dynamicKey = headerKey
      then Some (Invalid ''DYNAMIC_ROUTE_KEY must differ from UPSTREAM_HEADER_KEY'')
      else None)"

section \<open>Domain rules\<close>

datatype domain_rule = Rule (rule_type: string) (rule_value: string)

text \<open>The order of the rules is the comparison that \<open>sort.Slice\<close> is given.\<close>

instantiation domain_rule :: linorder
begin

definition less_eq_domain_rule :: "domain_rule \<Rightarrow> domain_rule \<Rightarrow> bool" where
  "r \<le> s \<longleftrightarrow> (if rule_type r \<noteq> rule_type s then rule_type r < rule_type s else rule_value r \<le> rule_value s)"

definition less_domain_rule :: "domain_rule \<Rightarrow> domain_rule \<Rightarrow> bool" where
  "r < s \<longleftrightarrow> (if rule_type r \<noteq> rule_type s then rule_type r < rule_type s else rule_value r < rule_value s)"

instance
proof
  fix r s t :: domain_rule
  show "r < s \<longleftrightarrow> r \<le> s \<and> \<not> s \<le> r"
    by (auto simp: less_eq_domain_rule_def less_domain_rule_def)
  show "r \<le> r" by (simp add: less_eq_domain_rule_def)
  show "r \<le> s \<Longrightarrow> s \<le> t \<Longrightarrow> r \<le> t"
    by (auto simp: less_eq_domain_rule_def split: if_splits)
  show "r \<le> s \<Longrightarrow> s \<le> r \<Longrightarrow> r = s"
    by (auto simp: less_eq_domain_rule_def intro: domain_rule.expand split: if_splits)
  show "r \<le> s \<or> s \<le> r"
    by (auto simp: less_eq_domain_rule_def)
qed

end

definition normalize_rule :: "name_lib \<Rightarrow> string \<Rightarrow> domain_rule \<Rightarrow> net_error + domain_rule" where
  "normalize_rule lib profile r =
     (let t = to_lower (trim_space (rule_type r)); v = rule_value r
      in if t \<noteq> ''exact'' \<and> t \<noteq> ''suffix'' then Inl (Invalid ''dynamic domain rule type must be exact or suffix'')
         else if has_prefix (trim_space v) ''.'' \<or> contains_sub v ''*''
         then Inl (Invalid ''dynamic domain rules must use structured host values without wildcards or leading dots'')
         else case normalizeDynamicHost lib v of
           Inl e \<Rightarrow> Inl e
         | Inr (h, isIP) \<Rightarrow>
             if isIP \<and> profile = ''safe'' then Inl (Invalid ''safe dynamic profile does not permit IP-literal domain rules'')
             else if isIP \<and> t \<noteq> ''exact'' then Inl (Invalid ''suffix dynamic domain rules require a DNS hostname'')
             else if isIP then
               (case validateDynamicResolvedIPs (case parse_ip h of None \<Rightarrow> [OtherSlice] | Some ip \<Rightarrow> [ip]) of
                  Inl e \<Rightarrow> Inl e
                | Inr _ \<Rightarrow> Inr (Rule t h))
             else Inr (Rule t h))"

definition rule_key :: "domain_rule \<Rightarrow> string" where
  "rule_key r = rule_type r @ [CHR 0x00] @ rule_value r"

fun collect_rules :: "name_lib \<Rightarrow> string \<Rightarrow> domain_rule list \<Rightarrow> string list \<Rightarrow> domain_rule list \<Rightarrow>
    net_error + domain_rule list" where
  "collect_rules lib profile [] seen normalized = Inr normalized"
| "collect_rules lib profile (r # rs) seen normalized =
     (case normalize_rule lib profile r of
        Inl e \<Rightarrow> Inl e
      | Inr r' \<Rightarrow>
          if rule_key r' \<in> set seen then Inl (Invalid ''duplicate dynamic domain rule'')
          else collect_rules lib profile rs (rule_key r' # seen) (normalized @ [r']))"

definition normalizeDynamicDomainRules :: "name_lib \<Rightarrow> string \<Rightarrow> domain_rule list \<Rightarrow> net_error + domain_rule list" where
  "normalizeDynamicDomainRules lib profile rules =
     (if \<not> known_profile profile then Inl (Invalid ''dynamic_profile must be normalized before dynamic domain rules'')
      else case collect_rules lib profile rules [] [] of Inl e \<Rightarrow> Inl e | Inr rs \<Rightarrow> Inr (sort rs))"

definition dynamicDomainRuleMatches :: "name_lib \<Rightarrow> string \<Rightarrow> domain_rule list \<Rightarrow> bool" where
  "dynamicDomainRuleMatches lib name rules \<longleftrightarrow>
     (case normalizeDynamicHost lib name of
        Inl _ \<Rightarrow> False
      | Inr (h, isIP) \<Rightarrow>
          list_ex (\<lambda>r. if rule_type r = ''exact'' then h = rule_value r
                       else if rule_type r = ''suffix'' then \<not> isIP \<and> (h = rule_value r \<or> has_suffix h (''.'' @ rule_value r))
                       else False) rules)"

definition dynamicSafeDomainAllowed :: "name_lib \<Rightarrow> string \<Rightarrow> domain_rule list \<Rightarrow> bool" where
  "dynamicSafeDomainAllowed lib name rules \<longleftrightarrow>
     (case normalizeDynamicHost lib name of
        Inl _ \<Rightarrow> False
      | Inr (h, isIP) \<Rightarrow> if isIP then False else if rules = [] then True else dynamicDomainRuleMatches lib h rules)"

section \<open>Discovery sources\<close>

definition dynamicDiscoverySourcesForProfile :: "string \<Rightarrow> string list option" where
  "dynamicDiscoverySourcesForProfile p =
     (if p = ''safe'' then Some [''redirect'', ''playback_info'']
      else if p = ''compatible'' \<or> p = ''extreme'' then Some allDynamicDiscoverySources
      else None)"

definition validateDynamicDiscoverySourcesForProfile :: "string \<Rightarrow> string list \<Rightarrow> net_error option" where
  "validateDynamicDiscoverySourcesForProfile p sources =
     (case dynamicDiscoverySourcesForProfile p of
        None \<Rightarrow> Some (Invalid ''unsupported dynamic discovery profile'')
      | Some allowed \<Rightarrow>
          if list_all (\<lambda>s. s \<in> set allowed) sources then None
          else Some (Invalid ''dynamic discovery source is unavailable for profile''))"

fun collect_sources :: "string list \<Rightarrow> string list \<Rightarrow> net_error + string list" where
  "collect_sources [] seen = Inr seen"
| "collect_sources (s # ss) seen =
     (let source = to_lower (trim_space s)
      in if source \<notin> set allDynamicDiscoverySources
         then Inl (Invalid ''dynamic_discovery_sources contains an unsupported source'')
         else if source \<in> set seen then Inl (Invalid ''dynamic_discovery_sources contains a duplicate source'')
         else collect_sources ss (source # seen))"

definition normalizeDynamicDiscoverySources :: "string list option \<Rightarrow> net_error + string list option" where
  "normalizeDynamicDiscoverySources sources =
     (case sources of
        None \<Rightarrow> Inr None
      | Some ss \<Rightarrow>
          (case collect_sources ss [] of
             Inl e \<Rightarrow> Inl e
           | Inr seen \<Rightarrow> Inr (Some (filter (\<lambda>s. s \<in> set seen) allDynamicDiscoverySources))))"

definition normalizeDynamicDiscoverySourcesForAPI :: "string \<Rightarrow> string list option \<Rightarrow> net_error + string list option" where
  "normalizeDynamicDiscoverySourcesForAPI p sources =
     (case normalizeDynamicDiscoverySources sources of
        Inl e \<Rightarrow> Inl e
      | Inr n \<Rightarrow>
          (case validateDynamicDiscoverySourcesForProfile p (case n of None \<Rightarrow> [] | Some ss \<Rightarrow> ss) of
             Some e \<Rightarrow> Inl e
           | None \<Rightarrow> Inr n))"

definition dynamicDiscoverySourceEnabled :: "string list \<Rightarrow> string \<Rightarrow> bool" where
  "dynamicDiscoverySourceEnabled sources source \<longleftrightarrow> list_ex (\<lambda>c. c = source) sources"

fun dynamicDiscoverySourcesEqual :: "string list \<Rightarrow> string list \<Rightarrow> bool" where
  "dynamicDiscoverySourcesEqual [] [] \<longleftrightarrow> True"
| "dynamicDiscoverySourcesEqual (a # as) (b # bs) \<longleftrightarrow> a = b \<and> dynamicDiscoverySourcesEqual as bs"
| "dynamicDiscoverySourcesEqual _ _ \<longleftrightarrow> False"

definition dynamicSelectableDiscoverySourceSetsForProfile :: "string \<Rightarrow> string list list option" where
  "dynamicSelectableDiscoverySourceSetsForProfile p =
     (case dynamicDiscoverySourcesForProfile p of
        None \<Rightarrow> None
      | Some full \<Rightarrow> Some [full, filter (\<lambda>s. s \<noteq> ''playback_info'') full])"

definition validateSelectableDynamicDiscoverySources :: "string \<Rightarrow> string list \<Rightarrow> net_error option" where
  "validateSelectableDynamicDiscoverySources p sources =
     (case dynamicSelectableDiscoverySourceSetsForProfile p of
        None \<Rightarrow> Some (Invalid ''unsupported dynamic discovery profile'')
      | Some sets \<Rightarrow>
          if list_ex (dynamicDiscoverySourcesEqual sources) sets then None
          else Some (Invalid ''dynamic_discovery_sources must equal a selectable source set for profile''))"

section \<open>JSON values\<close>

text \<open>
  What a decoder yields: the first value of the input, \<open>None\<close> for a JSON null (the slice stays
  nil), and what the second read meets after it.
\<close>

datatype tail = AtEof | AnotherValue | TailError

datatype 'a decoded = DecodeError | Decoded "'a option" tail

record json_lib =
  decode_sources :: "string \<Rightarrow> string list decoded"
  encode_sources :: "string list option \<Rightarrow> string"
  decode_rules :: "string \<Rightarrow> domain_rule list decoded"
  encode_rules :: "domain_rule list \<Rightarrow> string"

definition decodeDynamicDomainRules :: "json_lib \<Rightarrow> string \<Rightarrow> net_error + domain_rule list option" where
  "decodeDynamicDomainRules js raw =
     (case decode_rules js raw of
        DecodeError \<Rightarrow> Inl (Invalid ''invalid dynamic_domain_rules JSON'')
      | Decoded rules AtEof \<Rightarrow> Inr rules
      | Decoded _ AnotherValue \<Rightarrow> Inl (Invalid ''invalid dynamic_domain_rules JSON: multiple values'')
      | Decoded _ TailError \<Rightarrow> Inl (Invalid ''invalid dynamic_domain_rules JSON''))"

definition decodeDynamicDiscoverySources :: "json_lib \<Rightarrow> string \<Rightarrow> net_error + string list option" where
  "decodeDynamicDiscoverySources js raw =
     (case decode_sources js raw of
        DecodeError \<Rightarrow> Inl (Invalid ''invalid dynamic_discovery_sources JSON'')
      | Decoded sources AtEof \<Rightarrow> Inr sources
      | Decoded _ AnotherValue \<Rightarrow> Inl (Invalid ''invalid dynamic_discovery_sources JSON: multiple values'')
      | Decoded _ TailError \<Rightarrow> Inl (Invalid ''invalid dynamic_discovery_sources JSON''))"

text \<open>
  The decoders of the API report whether the field was present beside their result. A
  \<open>json.RawMessage\<close> is a JSON value, so unmarshalling it into a bool leaves its literal
  between JSON white space.
\<close>

definition json_space :: "char \<Rightarrow> bool" where
  "json_space c \<longleftrightarrow> c \<in> set [CHR 0x20, CHR 0x09, CHR 0x0A, CHR 0x0D]"

definition unmarshal_bool :: "string \<Rightarrow> bool \<Rightarrow> bool option" where
  "unmarshal_bool raw old =
     (let literal = rev (dropWhile json_space (rev (dropWhile json_space raw)))
      in if literal = ''true'' then Some True else if literal = ''false'' then Some False
         else if literal = ''null'' then Some old else None)"

definition decodeOptionalBoolAPI :: "string \<Rightarrow> bool \<times> bool \<times> net_error option" where
  "decodeOptionalBoolAPI raw =
     (if raw = [] then (False, False, None)
      else if equal_fold (trim_space raw) ''null'' then (False, True, Some (Invalid ''must be a JSON boolean, not null''))
      else case unmarshal_bool raw False of
        None \<Rightarrow> (False, True, Some (Invalid ''must be a JSON boolean''))
      | Some v \<Rightarrow> (v, True, None))"

definition decodeDynamicDomainRulesAPI :: "json_lib \<Rightarrow> string \<Rightarrow> domain_rule list option \<times> bool \<times> net_error option" where
  "decodeDynamicDomainRulesAPI js raw =
     (if raw = [] then (None, False, None)
      else if equal_fold (trim_space raw) ''null''
      then (None, True, Some (Invalid ''dynamic_domain_rules must be a JSON array, not null''))
      else case decodeDynamicDomainRules js raw of
        Inl e \<Rightarrow> (None, True, Some e)
      | Inr None \<Rightarrow> (None, True, Some (Invalid ''dynamic_domain_rules must be a JSON array, not null''))
      | Inr (Some rules) \<Rightarrow> (Some rules, True, None))"

definition decodeDynamicDiscoverySourcesAPI :: "json_lib \<Rightarrow> string \<Rightarrow> string list option \<times> bool \<times> net_error option" where
  "decodeDynamicDiscoverySourcesAPI js raw =
     (if raw = [] then (None, False, None)
      else case decodeDynamicDiscoverySources js raw of
        Inl e \<Rightarrow> (None, True, Some e)
      | Inr None \<Rightarrow> (None, True, Some (Invalid ''dynamic_discovery_sources must be a JSON array, not null''))
      | Inr (Some sources) \<Rightarrow> (Some sources, True, None))"

record optional_bool =
  ob_present :: bool
  ob_null :: bool
  ob_value :: bool

text \<open>\<open>None\<close> is the error; the receiver is updated in place even then.\<close>

definition optionalJSONBool_UnmarshalJSON :: "string \<Rightarrow> optional_bool \<Rightarrow> optional_bool \<times> bool" where
  "optionalJSONBool_UnmarshalJSON raw b =
     (let b = b\<lparr>ob_present := True\<rparr>
      in if raw = ''null'' then (b\<lparr>ob_null := True\<rparr>, True)
         else case unmarshal_bool raw (ob_value b) of
           None \<Rightarrow> (b, False)
         | Some v \<Rightarrow> (b\<lparr>ob_value := v\<rparr>, True))"

record optional_raw =
  or_present :: bool
  or_null :: bool
  or_raw :: string

definition optionalJSONRaw_UnmarshalJSON :: "string \<Rightarrow> optional_raw \<Rightarrow> optional_raw" where
  "optionalJSONRaw_UnmarshalJSON raw r = r\<lparr>or_present := True, or_null := (raw = ''null''), or_raw := raw\<rparr>"

section \<open>The policy of a site\<close>

text \<open>The fields of \<open>Site\<close> that the policy is made of.\<close>

record site_policy =
  sp_enabled :: bool
  sp_profile :: string
  sp_downgrade :: bool
  sp_sources :: "string list option"
  sp_stored_sources :: string
  sp_rules :: "domain_rule list option"
  sp_stored_rules :: string
  sp_revision :: int

definition storedDynamicBool :: "int \<Rightarrow> net_error + bool" where
  "storedDynamicBool v =
     (if v = 0 then Inr False else if v = 1 then Inr True
      else Inl (Invalid ''stored field must be the integer 0 or 1''))"

definition hydrate_sources :: "json_lib \<Rightarrow> site_policy \<Rightarrow> bool \<Rightarrow> net_error + string list option" where
  "hydrate_sources js site downgrade =
     (if trim_space (sp_stored_sources site) = []
      then Inl (Invalid ''stored dynamic_discovery_sources must be a non-blank JSON array'')
      else case decodeDynamicDiscoverySources js (sp_stored_sources site) of
        Inl e \<Rightarrow> Inl e
      | Inr None \<Rightarrow> Inl (Invalid ''stored dynamic_discovery_sources must be a JSON array, not null'')
      | Inr (Some decoded) \<Rightarrow>
          (case normalizeDynamicDiscoverySources (Some decoded) of
             Inl e \<Rightarrow> Inl e
           | Inr sources \<Rightarrow>
               (case validateDynamicDiscoverySourcesForProfile (sp_profile site) (case sources of None \<Rightarrow> [] | Some ss \<Rightarrow> ss) of
                  Some e \<Rightarrow> Inl e
                | None \<Rightarrow>
                    if sp_profile site = ''safe'' \<and> downgrade
                    then Inl (Invalid ''safe dynamic profile must not allow HTTPS downgrade'')
                    else if sp_stored_sources site \<noteq> encode_sources js sources
                    then Inl (Invalid ''stored dynamic_discovery_sources is not canonical'')
                    else Inr sources)))"

definition hydrate_rules :: "name_lib \<Rightarrow> json_lib \<Rightarrow> site_policy \<Rightarrow> net_error + domain_rule list" where
  "hydrate_rules lib js site =
     (if trim_space (sp_stored_rules site) = []
      then Inl (Invalid ''stored dynamic_domain_rules must be a non-blank JSON array'')
      else case decodeDynamicDomainRules js (sp_stored_rules site) of
        Inl e \<Rightarrow> Inl e
      | Inr None \<Rightarrow> Inl (Invalid ''stored dynamic_domain_rules must be a JSON array, not null'')
      | Inr (Some rules) \<Rightarrow>
          (case normalizeDynamicDomainRules lib (sp_profile site) rules of
             Inl e \<Rightarrow> Inl e
           | Inr normalized \<Rightarrow>
               if sp_stored_rules site \<noteq> encode_rules js normalized
               then Inl (Invalid ''stored dynamic_domain_rules is not canonical'')
               else Inr normalized))"

definition hydrateStoredDynamicSitePolicy ::
    "name_lib \<Rightarrow> json_lib \<Rightarrow> site_policy \<Rightarrow> int \<Rightarrow> int \<Rightarrow> net_error + site_policy" where
  "hydrateStoredDynamicSitePolicy lib js site dynamicEnabled dynamicDowngrade =
     (case storedDynamicBool dynamicEnabled of
        Inl e \<Rightarrow> Inl e
      | Inr enabled \<Rightarrow>
          (case storedDynamicBool dynamicDowngrade of
             Inl e \<Rightarrow> Inl e
           | Inr downgrade \<Rightarrow>
               if \<not> known_profile (sp_profile site)
               then Inl (Invalid ''stored dynamic_profile must be a canonical supported value'')
               else case hydrate_sources js site downgrade of
                 Inl e \<Rightarrow> Inl e
               | Inr sources \<Rightarrow>
                   (case hydrate_rules lib js site of
                      Inl e \<Rightarrow> Inl e
                    | Inr normalized \<Rightarrow>
                        if sp_revision site < 1
                        then Inl (Invalid ''stored dynamic_policy_revision must be at least 1'')
                        else Inr (site\<lparr>sp_enabled := enabled, sp_downgrade := downgrade,
                                      sp_rules := Some normalized, sp_sources := sources\<rparr>))))"

text \<open>
  \<open>normalizeDynamicSitePolicy\<close> updates the site in place; the callers drop it when an
  error comes back, so an error is its only result then.
\<close>

definition policy_sources :: "json_lib \<Rightarrow> site_policy \<Rightarrow> string \<Rightarrow> net_error + string list option" where
  "policy_sources js site profile =
     (case (if sp_sources site = None \<and> trim_space (sp_stored_sources site) \<noteq> []
            then decodeDynamicDiscoverySources js (sp_stored_sources site) else Inr (sp_sources site)) of
        Inl e \<Rightarrow> Inl e
      | Inr read \<Rightarrow>
          (case normalizeDynamicDiscoverySources
               (case read of None \<Rightarrow> dynamicDiscoverySourcesForProfile profile | Some ss \<Rightarrow> Some ss) of
             Inl e \<Rightarrow> Inl e
           | Inr sources \<Rightarrow>
               let ss = (case sources of None \<Rightarrow> [] | Some ss \<Rightarrow> ss)
               in case validateDynamicDiscoverySourcesForProfile profile ss of
                    Some e \<Rightarrow> Inl e
                  | None \<Rightarrow>
                      if sp_enabled site \<and> ss = []
                      then Inl (Invalid ''dynamic discovery requires at least one discovery source'')
                      else Inr sources))"

definition policy_rules :: "name_lib \<Rightarrow> json_lib \<Rightarrow> site_policy \<Rightarrow> string \<Rightarrow> net_error + domain_rule list" where
  "policy_rules lib js site profile =
     (case (if sp_rules site = None \<and> trim_space (sp_stored_rules site) \<noteq> []
            then decodeDynamicDomainRules js (sp_stored_rules site) else Inr (sp_rules site)) of
        Inl e \<Rightarrow> Inl e
      | Inr read \<Rightarrow> normalizeDynamicDomainRules lib profile (case read of None \<Rightarrow> [] | Some rs \<Rightarrow> rs))"

definition normalizeDynamicSitePolicy :: "name_lib \<Rightarrow> json_lib \<Rightarrow> site_policy \<Rightarrow> net_error + site_policy" where
  "normalizeDynamicSitePolicy lib js site =
     (case normalizeDynamicProfile (sp_profile site) of
        Inl e \<Rightarrow> Inl e
      | Inr profile \<Rightarrow>
          if profile = ''safe'' \<and> sp_downgrade site
          then Inl (Invalid ''safe dynamic profile must not allow HTTPS downgrade'')
          else case policy_sources js site profile of
            Inl e \<Rightarrow> Inl e
          | Inr sources \<Rightarrow>
              (case policy_rules lib js site profile of
                 Inl e \<Rightarrow> Inl e
               | Inr rules \<Rightarrow>
                   Inr (site\<lparr>sp_profile := profile,
                      sp_downgrade := (if profile = ''compatible'' then True else sp_downgrade site),
                      sp_sources := sources, sp_stored_sources := encode_sources js sources,
                      sp_rules := Some rules, sp_stored_rules := encode_rules js rules,
                      sp_revision := (if sp_revision site < 1 then 1 else sp_revision site)\<rparr>)))"

definition validateDynamicDiscoveryAPIEnablement :: "bool \<Rightarrow> bool \<Rightarrow> bool \<Rightarrow> net_error option" where
  "validateDynamicDiscoveryAPIEnablement enabled keyConfigured alreadyEnabled =
     (if enabled \<and> \<not> alreadyEnabled \<and> \<not> keyConfigured
      then Some (Invalid ''dynamic discovery requires a configured DYNAMIC_ROUTE_KEY'') else None)"

record default_policy =
  dp_enabled :: bool
  dp_profile :: string
  dp_sources :: "string list"
  dp_rules :: "domain_rule list"
  dp_downgrade :: bool

definition dynamicDefaultPolicy :: default_policy where
  "dynamicDefaultPolicy =
     \<lparr>dp_enabled = True, dp_profile = ''compatible'',
      dp_sources = (case dynamicDiscoverySourcesForProfile ''compatible'' of None \<Rightarrow> [] | Some ss \<Rightarrow> ss),
      dp_rules = [], dp_downgrade = True\<rparr>"

text \<open>
  The rows of the query \<open>DynamicRollbackReadiness\<close> makes: the profile, the stored sources and the
  stored rules of every enabled site. The counters are of enabled safe sites without rules and of
  sites whose sources are not those of their profile.
\<close>

fun rollback_rows :: "name_lib \<Rightarrow> json_lib \<Rightarrow> (string \<times> string \<times> string) list \<Rightarrow> int \<times> int \<Rightarrow> net_error + int \<times> int" where
  "rollback_rows lib js [] n = Inr n"
| "rollback_rows lib js ((profile, storedSources, storedRules) # rows) (emptyRules, subsets) =
     (case decodeDynamicDiscoverySources js storedSources of
        Inl _ \<Rightarrow> Inl (Invalid ''invalid stored dynamic discovery sources'')
      | Inr None \<Rightarrow> Inl (Invalid ''invalid stored dynamic discovery sources'')
      | Inr (Some decoded) \<Rightarrow>
          (case normalizeDynamicDiscoverySourcesForAPI profile (Some decoded) of
             Inl e \<Rightarrow> Inl e
           | Inr sources \<Rightarrow>
               (case dynamicDiscoverySourcesForProfile profile of
                  None \<Rightarrow> Inl (Invalid ''invalid stored dynamic discovery profile'')
                | Some canonical \<Rightarrow>
                    (case decodeDynamicDomainRules js storedRules of
                       Inl _ \<Rightarrow> Inl (Invalid ''invalid stored dynamic domain rules'')
                     | Inr None \<Rightarrow> Inl (Invalid ''invalid stored dynamic domain rules'')
                     | Inr (Some rules) \<Rightarrow>
                         (case normalizeDynamicDomainRules lib profile rules of
                            Inl e \<Rightarrow> Inl e
                          | Inr normalized \<Rightarrow>
                              rollback_rows lib js rows
                                (if profile = ''safe'' \<and> normalized = [] then emptyRules + 1 else emptyRules,
                                 if dynamicDiscoverySourcesEqual (case sources of None \<Rightarrow> [] | Some ss \<Rightarrow> ss) canonical
                                 then subsets else subsets + 1))))))"

definition DynamicRollbackReadiness ::
    "name_lib \<Rightarrow> json_lib \<Rightarrow> (string \<times> string \<times> string) list option \<Rightarrow> net_error + int \<times> int" where
  "DynamicRollbackReadiness lib js query =
     (case query of None \<Rightarrow> Inl (Invalid ''query failed'') | Some rows \<Rightarrow> rollback_rows lib js rows (0, 0))"

section \<open>Hosts are normalised once\<close>

text \<open>
  The behaviour of the libraries the second normalisation relies on: \<open>ToASCII\<close> leaves a name
  alone that it has made, and the public suffix of a dotted quad is not a managed one (its last label
  by the default rule of the list).
\<close>

definition names_ok :: "name_lib \<Rightarrow> bool" where
  "names_ok lib \<longleftrightarrow>
     (\<forall>v a. to_ascii lib v = Some a \<longrightarrow> list_all dns_label_ok (split_on CHR ''.'' (to_lower (trim_suffix a ''.''))) \<longrightarrow>
        to_ascii lib (to_lower (trim_suffix a ''.'')) = Some (to_lower (trim_suffix a ''.''))) \<and>
     (\<forall>h. parse_ipv4 h \<noteq> None \<longrightarrow> \<not> snd (public_suffix lib h) \<and> CHR ''.'' \<notin> set (fst (public_suffix lib h)))"

lemma host_chars:
  assumes "list_all dns_label_ok (split_on CHR ''.'' h)" "c \<in> set h"
  shows "dns_char c \<or> c = CHR ''.''"
proof -
  have "ls \<noteq> [] \<Longrightarrow> (\<And>l. l \<in> set ls \<Longrightarrow> dns_label_ok l) \<Longrightarrow>
      \<forall>c\<in>set (join_with CHR ''.'' ls). dns_char c \<or> c = CHR ''.''" for ls
    by (induction "CHR ''.''" ls rule: join_with.induct) (auto simp: dns_label_ok_def list_all_iff)
  from this [of "split_on CHR ''.'' h"] assms show ?thesis by (auto simp: list_all_iff)
qed

lemma addr_string_chars:
  assumes "unmap a = a"
  shows "addr_string a \<noteq> []" "c \<in> set (addr_string a) \<Longrightarrow> is_hex c \<or> c = CHR '':'' \<or> c = CHR ''.''"
    "last (addr_string a) \<noteq> CHR ''.''" "hd (addr_string a) \<noteq> CHR ''.''"
proof -
  have "addr_string a \<noteq> [] \<and> (\<forall>c\<in>set (addr_string a). is_hex c \<or> c = CHR '':'' \<or> c = CHR ''.'') \<and>
      last (addr_string a) \<noteq> CHR ''.'' \<and> hd (addr_string a) \<noteq> CHR ''.''"
  proof (cases a)
    case (V4 w)
    have "is_hex c" if "c \<in> set (itoa n)" for c n using itoa_digits [OF that] by (simp add: is_hex_def)
    moreover have "last (itoa n) \<noteq> CHR ''.''" for n
      using dot_not_in_itoa [of n] last_in_set [of "itoa n"] by (metis itoa_nonempty)
    moreover have "hd (itoa n) \<noteq> CHR ''.''" for n
      using dot_not_in_itoa [of n] hd_in_set [of "itoa n"] by (metis itoa_nonempty)
    ultimately show ?thesis using V4 by (auto simp: addr_string_def)
  next
    case (V6 w)
    with assms have nm: "drop_bit 32 w \<noteq> 0xFFFF" by (auto simp: unmap_def)
    have ne: "addr_string a \<noteq> []"
      using parse_addr_string [OF assms] by (auto simp: parse_addr_def)
    have "is_hex c \<or> c = CHR '':''" if "c \<in> set (addr_string a)" for c
      using that V6 nm join_groups_set by (auto simp: addr_string_def Let_def simp del: map_map split: prod.splits if_splits)
    moreover from this [of "last (addr_string a)"] this [of "hd (addr_string a)"] ne
    have "last (addr_string a) \<noteq> CHR ''.''" "hd (addr_string a) \<noteq> CHR ''.''"
      by (auto simp: is_hex_def is_digit_def byte_def)
    ultimately show ?thesis using ne by blast
  qed
  then show "addr_string a \<noteq> []" "c \<in> set (addr_string a) \<Longrightarrow> is_hex c \<or> c = CHR '':'' \<or> c = CHR ''.''"
    "last (addr_string a) \<noteq> CHR ''.''" "hd (addr_string a) \<noteq> CHR ''.''" by auto
qed

text \<open>A text of harmless characters passes the checks of the syntax.\<close>

definition host_char :: "char \<Rightarrow> bool" where
  "host_char c \<longleftrightarrow> plain c \<and> c \<notin> set (''/@?#[]%*'' @ [CHR 0x5C])"

lemma syntax_harmless:
  assumes "v \<noteq> []" "list_all host_char v" "last v \<noteq> CHR ''.''"
  shows "normalizeDynamicHostSyntax lib v =
    (case parse_ip v of
       Some ip \<Rightarrow> (case addr_from_slice ip of None \<Rightarrow> Inl (Invalid ''host contains an invalid IP address'')
         | Some a \<Rightarrow> Inr (addr_string (unmap a), True))
     | None \<Rightarrow> (case ascii_host lib v of Inl e \<Rightarrow> Inl e | Inr h \<Rightarrow> Inr (h, False)))" (is ?syn)
    "trim_space v = v"
proof -
  have pl: "list_all plain v" using assms(2) by (auto simp: list_all_iff host_char_def)
  show trim: "trim_space v = v"
    using assms(1) pl by (intro trim_space_plain) (auto simp: list_all_iff)
  have safe: "\<not> containsDynamicUnsafeRune v"
    using pl by (simp add: containsDynamicUnsafeRune_def has_control_code has_space_code)
  have no: "c \<notin> set v" if "c \<in> set (''/@?#[]%*'' @ [CHR 0x5C])" for c
    using assms(2) that unfolding list_all_iff host_char_def by blast
  have br: "\<not> has_prefix v ''[''" "\<not> has_suffix v '']''"
    using no [of "CHR ''[''"] no [of "CHR '']''"] by (auto simp: has_prefix_iff has_suffix_iff)
  have any: "\<not> contains_any v (''/@?#'' @ [CHR 0x5C])" "\<not> contains_sub v ''%''"
    using no by (auto simp: contains_any_def list_ex_iff)
  have dot: "trim_suffix v ''.'' = v"
    using assms(3) by (auto simp: trim_suffix_def has_suffix_iff)
  show ?syn
    unfolding normalizeDynamicHostSyntax_def Let_def trim using assms(1) safe br any dot by (simp split: option.split)
qed

lemma dns_harmless:
  assumes "list_all dns_label_ok (split_on CHR ''.'' h)"
  shows "list_all host_char h"
proof -
  have "host_char c" if "dns_char c \<or> c = CHR ''.''" for c
    using that by (auto simp: host_char_def plain_def dns_char_def is_lower_def is_digit_def byte_def)
  with host_chars [OF assms] show ?thesis by (auto simp: list_all_iff)
qed

lemma addr_harmless: "unmap a = a \<Longrightarrow> list_all host_char (addr_string a)"
proof -
  have "host_char c" if "is_hex c \<or> c = CHR '':'' \<or> c = CHR ''.''" for c
    using that by (auto simp: host_char_def plain_def is_hex_def is_digit_def byte_def)
  then show "unmap a = a \<Longrightarrow> list_all host_char (addr_string a)"
    using addr_string_chars(2) by (auto simp: list_all_iff)
qed

lemma parse_addr_no_colon:
  assumes "parse_addr h = Some a" "CHR '':'' \<notin> set h"
  shows "parse_ipv4 h \<noteq> None"
proof -
  obtain c r where d: "dropWhile (\<lambda>c. c \<noteq> CHR ''.'' \<and> c \<noteq> CHR '':'' \<and> c \<noteq> CHR ''%'') h = c # r"
    using assms(1) by (auto simp: parse_addr_def split: list.splits)
  then have "c \<in> set h" by (metis list.set_intros(1) set_dropWhileD)
  with assms d show ?thesis by (auto simp: parse_addr_def split: if_splits)
qed

lemma ascii_host_Inr:
  assumes "ascii_host lib v = Inr h"
  obtains a where "to_ascii lib v = Some a" "h = to_lower (trim_suffix a ''.'')" "h \<noteq> []" "length h \<le> 253"
    "list_all dns_label_ok (split_on CHR ''.'' h)"
  using assms by (auto simp: ascii_host_def Let_def split: option.splits if_splits)

lemma ascii_host_again:
  assumes "names_ok lib" "ascii_host lib v = Inr h"
  shows "ascii_host lib h = Inr h"
proof -
  obtain a where a: "to_ascii lib v = Some a" "h = to_lower (trim_suffix a ''.'')" "h \<noteq> []" "length h \<le> 253"
    "list_all dns_label_ok (split_on CHR ''.'' h)"
    using assms(2) by (rule ascii_host_Inr)
  have to: "to_ascii lib h = Some h" using assms(1) a unfolding names_ok_def by blast
  note p = host_plain [OF a(5)]
  have "trim_suffix h ''.'' = h" using p(3) by (auto simp: trim_suffix_def has_suffix_iff)
  with to p(2) a(3-5) show ?thesis by (simp add: ascii_host_def to_lower_plain)
qed

lemma normalizeDynamicHost_Inr:
  assumes "normalizeDynamicHost lib v = Inr (h, isIP)"
  shows "normalizeDynamicHostSyntax lib v = Inr (h, isIP)"
    "\<not> isIP \<Longrightarrow> normalizeDynamicHostSyntax lib h = Inr (h, False) \<Longrightarrow> normalizeDynamicHost lib h = Inr (h, False)"
    "\<not> isIP \<Longrightarrow> fst (public_suffix lib h) \<noteq> [] \<and> (snd (public_suffix lib h) \<or> CHR ''.'' \<in> set (fst (public_suffix lib h)))"
  using assms by (auto simp: normalizeDynamicHost_def split: sum.splits prod.splits if_splits option.splits)

lemma normalizeDynamicHostSyntax_Inr:
  assumes "normalizeDynamicHostSyntax lib v = Inr (h, isIP)"
  obtains (ip) a where "isIP" "h = addr_string (unmap a)"
    | (dns) x where "\<not> isIP" "ascii_host lib x = Inr h"
  using assms by (auto simp: normalizeDynamicHostSyntax_def Let_def split: if_splits option.splits sum.splits)

lemma normalizeDynamicHost_again:
  assumes "names_ok lib" "normalizeDynamicHost lib v = Inr (h, isIP)"
  shows "normalizeDynamicHost lib h = Inr (h, isIP)" "h \<noteq> []" "list_all host_char h" "hd h \<noteq> CHR ''.''"
proof -
  note n = normalizeDynamicHost_Inr [OF assms(2)]
  have "normalizeDynamicHost lib h = Inr (h, isIP) \<and> h \<noteq> [] \<and> list_all host_char h \<and> hd h \<noteq> CHR ''.''"
    using n(1)
  proof (cases rule: normalizeDynamicHostSyntax_Inr)
    case (ip b)
    define a where "a = unmap b"
    have u: "unmap a = a" "h = addr_string a" using ip(2) by (simp_all add: a_def)
    note c = addr_string_chars [OF u(1)]
    have "parse_ip (addr_string a) = Some (IP16 (as16 a))"
      using parse_addr_string [OF u(1)] by (simp add: parse_ip_def)
    then have "normalizeDynamicHostSyntax lib h = Inr (h, True)"
      using syntax_harmless(1) [OF c(1) addr_harmless [OF u(1)] c(3), of lib] u
      by (simp add: addr_from_slice_def)
    then show ?thesis using ip u c(1,4) addr_harmless [OF u(1)] by (simp add: normalizeDynamicHost_def)
  next
    case (dns x)
    obtain a where a: "h \<noteq> []" "list_all dns_label_ok (split_on CHR ''.'' h)"
      using dns(2) by (rule ascii_host_Inr)
    note p = host_plain [OF a(2)]
    have colon: "CHR '':'' \<notin> set h"
      using host_chars [OF a(2), of "CHR '':''"] by (auto simp: dns_char_def is_lower_def is_digit_def byte_def)
    have "parse_ip h = None"
    proof (rule ccontr)
      assume "parse_ip h \<noteq> None"
      then have "parse_ipv4 h \<noteq> None" using parse_addr_no_colon [OF _ colon] by (auto simp: parse_ip_def)
      with assms(1) n(3) [OF dns(1)] show False by (auto simp: names_ok_def)
    qed
    with syntax_harmless(1) [OF a(1) dns_harmless [OF a(2)] p(3), of lib] ascii_host_again [OF assms(1) dns(2)]
    have "normalizeDynamicHostSyntax lib h = Inr (h, False)" by simp
    moreover have "hd h \<noteq> CHR ''.''"
      using a by (cases h) (auto simp: dns_label_ok_def)
    ultimately show ?thesis using n(2) dns(1) a(1) dns_harmless [OF a(2)] by simp
  qed
  then show "normalizeDynamicHost lib h = Inr (h, isIP)" "h \<noteq> []" "list_all host_char h" "hd h \<noteq> CHR ''.''" by auto
qed


section \<open>Rules\<close>

lemma normalize_rule_Inr:
  assumes "normalize_rule lib profile r = Inr r'"
  obtains isIP where "rule_type r' = ''exact'' \<or> rule_type r' = ''suffix'' \<and> \<not> isIP"
    "normalizeDynamicHost lib (rule_value r) = Inr (rule_value r', isIP)"
    "isIP \<longrightarrow> profile \<noteq> ''safe'' \<and>
       (\<exists>as. validateDynamicResolvedIPs (case parse_ip (rule_value r') of None \<Rightarrow> [OtherSlice] | Some ip \<Rightarrow> [ip]) = Inr as)"
proof -
  define t where "t = to_lower (trim_space (rule_type r))"
  have t: "t = ''exact'' \<or> t = ''suffix''"
    using assms by (auto simp: normalize_rule_def Let_def t_def split: if_splits)
  obtain h isIP where h: "normalizeDynamicHost lib (rule_value r) = Inr (h, isIP)"
    using assms by (auto simp: normalize_rule_def Let_def split: if_splits sum.splits)
  have "r' = Rule t h \<and> (isIP \<longrightarrow> t = ''exact'' \<and> profile \<noteq> ''safe'' \<and>
      (\<exists>as. validateDynamicResolvedIPs (case parse_ip h of None \<Rightarrow> [OtherSlice] | Some ip \<Rightarrow> [ip]) = Inr as))"
    using assms h unfolding normalize_rule_def Let_def t_def [symmetric]
    by (auto split: if_splits sum.splits)
  with t h that show thesis by auto
qed

lemma lower_types: "to_lower (trim_space ''exact'') = ''exact''" "to_lower (trim_space ''suffix'') = ''suffix''"
  by code_simp+

lemma normalize_rule_again:
  assumes "names_ok lib" "normalize_rule lib profile r = Inr r'"
  shows "normalize_rule lib profile r' = Inr r'"
proof -
  obtain isIP where n: "rule_type r' = ''exact'' \<or> rule_type r' = ''suffix'' \<and> \<not> isIP"
    "normalizeDynamicHost lib (rule_value r) = Inr (rule_value r', isIP)"
    "isIP \<longrightarrow> profile \<noteq> ''safe'' \<and>
       (\<exists>as. validateDynamicResolvedIPs (case parse_ip (rule_value r') of None \<Rightarrow> [OtherSlice] | Some ip \<Rightarrow> [ip]) = Inr as)"
    using assms(2) by (rule normalize_rule_Inr)
  note h = normalizeDynamicHost_again [OF assms(1) n(2)]
  let ?v = "rule_value r'"
  have "plain (hd ?v)" "plain (last ?v)"
    using h(2,3) by (auto simp: list_all_iff host_char_def)
  with h(2) have tr: "trim_space ?v = ?v" by (simp add: trim_space_plain)
  have dot: "\<not> has_prefix ?v ''.''" using h(2,4) by (auto simp: has_prefix_iff)
  have star: "CHR ''*'' \<notin> set ?v" using h(3) by (auto simp: list_all_iff host_char_def)
  have t: "to_lower (trim_space (rule_type r')) = rule_type r'"
    using n(1) lower_types by (auto simp del: to_lower.simps)
  have r': "Rule (rule_type r') ?v = r'" by simp
  show ?thesis
    unfolding normalize_rule_def Let_def tr t h(1) r' using n(1,3) dot star
    by (auto simp del: to_lower.simps) (metis domain_rule.collapse)+
qed

lemma rule_key_inj:
  assumes "rule_type r \<in> {''exact'', ''suffix''}" "rule_type s \<in> {''exact'', ''suffix''}" "rule_key r = rule_key s"
  shows "r = s"
  using assms by (cases r; cases s) (auto simp: rule_key_def)

lemma normalize_rule_type: "normalize_rule lib profile r = Inr r' \<Longrightarrow> rule_type r' \<in> {''exact'', ''suffix''}"
  by (erule normalize_rule_Inr) auto

lemma ex_list_all2_Cons: "(\<exists>ys. list_all2 P (x # xs) ys \<and> Q ys) \<longleftrightarrow> (\<exists>y ys. P x y \<and> list_all2 P xs ys \<and> Q (y # ys))"
  by (auto simp: list_all2_Cons1)

text \<open>The loop yields the normalised rules in order, when no two of them are equal.\<close>

lemma collect_rules_Inr:
  "collect_rules lib profile rs seen acc = Inr out \<longleftrightarrow>
     (\<exists>rs'. list_all2 (\<lambda>r r'. normalize_rule lib profile r = Inr r') rs rs' \<and> out = acc @ rs' \<and>
        distinct (map rule_key rs') \<and> rule_key ` set rs' \<inter> set seen = {})"
proof (induction rs arbitrary: seen acc)
  case (Cons r rs)
  show ?case
  proof (cases "normalize_rule lib profile r")
    case (Inr r')
    then have "collect_rules lib profile (r # rs) seen acc = Inr out \<longleftrightarrow> rule_key r' \<notin> set seen \<and>
        (\<exists>rs'. list_all2 (\<lambda>r r'. normalize_rule lib profile r = Inr r') rs rs' \<and> out = acc @ r' # rs' \<and>
          distinct (map rule_key rs') \<and> rule_key ` set rs' \<inter> set (rule_key r' # seen) = {})"
      by (simp add: Cons.IH)
    also have "\<dots> \<longleftrightarrow> (\<exists>rs'. list_all2 (\<lambda>r r'. normalize_rule lib profile r = Inr r') rs rs' \<and> out = acc @ r' # rs' \<and>
          distinct (map rule_key (r' # rs')) \<and> rule_key ` set (r' # rs') \<inter> set seen = {})"
      by auto
    finally show ?thesis unfolding ex_list_all2_Cons Inr by simp
  qed (simp add: list_all2_Cons1)
qed auto

lemma normalized_distinct:
  assumes "list_all2 (\<lambda>r r'. normalize_rule lib profile r = Inr r') rs rs'"
  shows "distinct (map rule_key rs') \<longleftrightarrow> distinct rs'"
proof -
  have "rule_type r' \<in> {''exact'', ''suffix''}" if "r' \<in> set rs'" for r'
    using assms that normalize_rule_type by (fastforce simp: in_set_conv_nth list_all2_conv_all_nth)
  then have "inj_on rule_key (set rs')" by (intro inj_onI rule_key_inj) auto
  then show ?thesis by (simp add: distinct_map)
qed

lemma normalizeDynamicDomainRules_Inr:
  "normalizeDynamicDomainRules lib profile rules = Inr ns \<longleftrightarrow>
     known_profile profile \<and>
     (\<exists>rs'. list_all2 (\<lambda>r r'. normalize_rule lib profile r = Inr r') rules rs' \<and> distinct rs' \<and> ns = sort rs')"
proof -
  have "normalizeDynamicDomainRules lib profile rules = Inr ns \<longleftrightarrow>
      known_profile profile \<and> (\<exists>out. collect_rules lib profile rules [] [] = Inr out \<and> ns = sort out)"
    by (auto simp: normalizeDynamicDomainRules_def split: sum.splits)
  then show ?thesis using normalized_distinct by (auto simp: collect_rules_Inr)
qed

lemma normalized_rules_again:
  assumes "names_ok lib" "normalizeDynamicDomainRules lib profile rules = Inr ns"
  shows "normalizeDynamicDomainRules lib profile ns = Inr ns"
proof -
  obtain rs' where r: "known_profile profile" "list_all2 (\<lambda>r r'. normalize_rule lib profile r = Inr r') rules rs'"
    "distinct rs'" "ns = sort rs'"
    using assms(2) by (auto simp: normalizeDynamicDomainRules_Inr)
  have "normalize_rule lib profile r' = Inr r'" if "r' \<in> set ns" for r'
    using that r(2,4) normalize_rule_again [OF assms(1)] by (fastforce simp: in_set_conv_nth list_all2_conv_all_nth)
  then have "list_all2 (\<lambda>r r'. normalize_rule lib profile r = Inr r') ns ns"
    by (simp add: list_all2_same)
  with r show ?thesis unfolding normalizeDynamicDomainRules_Inr by (auto intro!: exI [of _ ns] simp: sorted_sort_id)
qed


section \<open>Sources\<close>

lemma source_lower: "s \<in> set allDynamicDiscoverySources \<Longrightarrow> to_lower (trim_space s) = s"
proof -
  have "to_lower (trim_space ''redirect'') = ''redirect''" "to_lower (trim_space ''playback_info'') = ''playback_info''"
    "to_lower (trim_space ''hls'') = ''hls''" "to_lower (trim_space ''dash'') = ''dash''" by code_simp+
  then show "s \<in> set allDynamicDiscoverySources \<Longrightarrow> to_lower (trim_space s) = s"
    by (auto simp: allDynamicDiscoverySources_def simp del: to_lower.simps)
qed

lemma collect_sources_canonical:
  "set ss \<subseteq> set allDynamicDiscoverySources \<Longrightarrow> distinct ss \<Longrightarrow> set ss \<inter> set seen = {} \<Longrightarrow>
   collect_sources ss seen = Inr (rev ss @ seen)"
  by (induction ss arbitrary: seen) (auto simp: Let_def source_lower simp del: to_lower.simps)

lemma normalizeDynamicDiscoverySources_again:
  assumes "normalizeDynamicDiscoverySources (Some ss) = Inr sources"
  obtains ns where "sources = Some ns" "normalizeDynamicDiscoverySources (Some ns) = Inr (Some ns)"
proof -
  let ?all = allDynamicDiscoverySources
  obtain P where ns: "sources = Some (filter P ?all)"
    using assms by (auto simp: normalizeDynamicDiscoverySources_def split: sum.splits)
  have d: "distinct ?all" by (simp add: allDynamicDiscoverySources_def)
  have "collect_sources (filter P ?all) [] = Inr (rev (filter P ?all))"
    using d collect_sources_canonical [of "filter P ?all" "[]"] by auto
  moreover have "filter (\<lambda>s. s \<in> set (rev (filter P ?all))) ?all = filter P ?all"
    by (rule filter_cong) auto
  ultimately show thesis using that [OF ns] by (simp add: normalizeDynamicDiscoverySources_def)
qed

lemma policy_sources_Inr:
  assumes "policy_sources js site profile = Inr sources" "known_profile profile"
  obtains ns where "sources = Some ns" "normalizeDynamicDiscoverySources (Some ns) = Inr (Some ns)"
    "validateDynamicDiscoverySourcesForProfile profile ns = None" "sp_enabled site \<longrightarrow> ns \<noteq> []"
proof -
  obtain ss where ss: "normalizeDynamicDiscoverySources (Some ss) = Inr sources"
    using assms by (auto simp: policy_sources_def Let_def known_profile_def dynamicDiscoverySourcesForProfile_def
        split: sum.splits option.splits if_splits)
  obtain ns where ns: "sources = Some ns" "normalizeDynamicDiscoverySources (Some ns) = Inr (Some ns)"
    using ss by (rule normalizeDynamicDiscoverySources_again)
  with assms that show thesis
    by (auto simp: policy_sources_def Let_def split: sum.splits option.splits if_splits)
qed

lemma normalizeDynamicProfile_known: "normalizeDynamicProfile v = Inr p \<Longrightarrow> known_profile p"
  by (auto simp: normalizeDynamicProfile_def Let_def known_profile_def split: if_splits)

lemma normalizeDynamicProfile_again: "known_profile p \<Longrightarrow> normalizeDynamicProfile p = Inr p"
proof -
  have "to_lower (trim_space ''safe'') = ''safe''" "to_lower (trim_space ''compatible'') = ''compatible''"
    "to_lower (trim_space ''extreme'') = ''extreme''" by code_simp+
  then show "known_profile p \<Longrightarrow> normalizeDynamicProfile p = Inr p"
    by (auto simp: normalizeDynamicProfile_def known_profile_def simp del: to_lower.simps)
qed

text \<open>What normalising a policy leaves.\<close>

lemma normalizeDynamicSitePolicy_Inr:
  assumes "normalizeDynamicSitePolicy lib js site = Inr site'"
  obtains ns rs rules where "known_profile (sp_profile site')" "sp_sources site' = Some ns"
    "normalizeDynamicDiscoverySources (Some ns) = Inr (Some ns)"
    "validateDynamicDiscoverySourcesForProfile (sp_profile site') ns = None" "sp_enabled site' \<longrightarrow> ns \<noteq> []"
    "sp_rules site' = Some rs" "normalizeDynamicDomainRules lib (sp_profile site') rules = Inr rs"
    "sp_profile site' = ''safe'' \<longrightarrow> \<not> sp_downgrade site'" "sp_profile site' = ''compatible'' \<longrightarrow> sp_downgrade site'"
    "sp_stored_sources site' = encode_sources js (Some ns)" "sp_stored_rules site' = encode_rules js rs" "1 \<le> sp_revision site'"
proof -
  obtain profile where p: "normalizeDynamicProfile (sp_profile site) = Inr profile"
    using assms by (auto simp: normalizeDynamicSitePolicy_def split: sum.splits)
  note known = normalizeDynamicProfile_known [OF p]
  have safe: "\<not> (profile = ''safe'' \<and> sp_downgrade site)"
    using assms p by (auto simp: normalizeDynamicSitePolicy_def)
  obtain sources where s: "policy_sources js site profile = Inr sources"
    using assms p safe by (auto simp: normalizeDynamicSitePolicy_def split: sum.splits if_splits)
  obtain rs where r: "policy_rules lib js site profile = Inr rs"
    using assms p safe s by (auto simp: normalizeDynamicSitePolicy_def split: sum.splits if_splits)
  obtain rules where rules: "normalizeDynamicDomainRules lib profile rules = Inr rs"
    using r by (auto simp: policy_rules_def split: sum.splits)
  obtain ns where ns: "sources = Some ns" "normalizeDynamicDiscoverySources (Some ns) = Inr (Some ns)"
    "validateDynamicDiscoverySourcesForProfile profile ns = None" "sp_enabled site \<longrightarrow> ns \<noteq> []"
    using s known by (rule policy_sources_Inr)
  have s': "site' = site\<lparr>sp_profile := profile,
      sp_downgrade := (if profile = ''compatible'' then True else sp_downgrade site),
      sp_sources := sources, sp_stored_sources := encode_sources js sources,
      sp_rules := Some rs, sp_stored_rules := encode_rules js rs,
      sp_revision := (if sp_revision site < 1 then 1 else sp_revision site)\<rparr>"
    using assms p safe s r by (auto simp: normalizeDynamicSitePolicy_def)
  show thesis
    by (rule that [of ns rs rules]) (use s' ns known safe rules in auto)
qed

lemma split_on_snoc: "split_on c (p @ c # v) = split_on c p @ split_on c v"
proof (induction p)
  case (Cons x p)
  then show ?case by (cases "split_on c p") (auto split: list.split)
qed simp

lemma join_with_append: "ls \<noteq> [] \<Longrightarrow> ms \<noteq> [] \<Longrightarrow> join_with c (ls @ ms) = join_with c ls @ c # join_with c ms"
  by (induction c ls rule: join_with.induct) (auto simp: neq_Nil_conv)

lemma suffix_labels: "h = v \<or> has_suffix h (''.'' @ v) \<longleftrightarrow> (\<exists>ls. split_on CHR ''.'' h = ls @ split_on CHR ''.'' v)"
proof
  assume "h = v \<or> has_suffix h (''.'' @ v)"
  then show "\<exists>ls. split_on CHR ''.'' h = ls @ split_on CHR ''.'' v"
    by (auto simp: has_suffix_iff split_on_snoc)
next
  assume "\<exists>ls. split_on CHR ''.'' h = ls @ split_on CHR ''.'' v"
  then obtain ls where ls: "split_on CHR ''.'' h = ls @ split_on CHR ''.'' v" by blast
  show "h = v \<or> has_suffix h (''.'' @ v)"
  proof (cases "ls = []")
    case True
    with ls join_split show ?thesis by (metis append_Nil)
  next
    case False
    from ls have "h = join_with CHR ''.'' (ls @ split_on CHR ''.'' v)" by (metis join_split)
    with False show ?thesis by (simp add: join_with_append has_suffix_iff)
  qed
qed

lemma list_all2_right: "list_all2 P xs ys \<Longrightarrow> y \<in> set ys \<Longrightarrow> \<exists>x\<in>set xs. P x y"
  by (induction rule: list_all2_induct) auto

section \<open>Properties\<close>

text \<open>A policy that was normalised survives being stored: when the JSON library reads back the two
  texts it wrote, hydrating the stored record succeeds and yields the very policy, and normalising it
  again changes nothing.\<close>

theorem normalized_policy_hydrates:
  assumes "names_ok lib" "normalizeDynamicSitePolicy lib js site = Inr site'"
    and "decode_sources js (sp_stored_sources site') = Decoded (sp_sources site') AtEof" "trim_space (sp_stored_sources site') \<noteq> []"
    and "decode_rules js (sp_stored_rules site') = Decoded (sp_rules site') AtEof" "trim_space (sp_stored_rules site') \<noteq> []"
  shows "hydrateStoredDynamicSitePolicy lib js site' (of_bool (sp_enabled site')) (of_bool (sp_downgrade site')) = Inr site' \<and>
    normalizeDynamicSitePolicy lib js site' = Inr site'"
proof -
  obtain ns rs rules where n: "known_profile (sp_profile site')" "sp_sources site' = Some ns"
    "normalizeDynamicDiscoverySources (Some ns) = Inr (Some ns)"
    "validateDynamicDiscoverySourcesForProfile (sp_profile site') ns = None" "sp_enabled site' \<longrightarrow> ns \<noteq> []"
    "sp_rules site' = Some rs" "normalizeDynamicDomainRules lib (sp_profile site') rules = Inr rs"
    "sp_profile site' = ''safe'' \<longrightarrow> \<not> sp_downgrade site'" "sp_profile site' = ''compatible'' \<longrightarrow> sp_downgrade site'"
    "sp_stored_sources site' = encode_sources js (Some ns)" "sp_stored_rules site' = encode_rules js rs" "1 \<le> sp_revision site'"
    using assms(2) by (rule normalizeDynamicSitePolicy_Inr)
  note again = normalized_rules_again [OF assms(1) n(7)]
  have src: "hydrate_sources js site' (sp_downgrade site') = Inr (Some ns)"
    using assms(3,4) n by (simp add: hydrate_sources_def decodeDynamicDiscoverySources_def)
  have rul: "hydrate_rules lib js site' = Inr rs"
    using assms(5,6) n again by (simp add: hydrate_rules_def decodeDynamicDomainRules_def)
  have "storedDynamicBool (of_bool b) = Inr b" for b by (simp add: storedDynamicBool_def)
  then have "hydrateStoredDynamicSitePolicy lib js site' (of_bool (sp_enabled site')) (of_bool (sp_downgrade site')) = Inr site'"
    using n src rul by (simp add: hydrateStoredDynamicSitePolicy_def)
  moreover have "policy_sources js site' (sp_profile site') = Inr (Some ns)"
    using n by (simp add: policy_sources_def)
  moreover have "policy_rules lib js site' (sp_profile site') = Inr rs"
    using n again by (simp add: policy_rules_def)
  ultimately show ?thesis
    using n normalizeDynamicProfile_again [OF n(1)] by (simp add: normalizeDynamicSitePolicy_def)
qed

text \<open>The normal form of a rule list does not depend on the order in which the rules were given: it is
  sorted, has no duplicates, one rule for each that was given, and every rule in it names a host that is
  normal, an address only in an exact rule of a profile that is not safe.\<close>

theorem domain_rules_canonical:
  assumes "normalizeDynamicDomainRules lib profile rules = Inr ns" "mset rules' = mset rules"
  shows "normalizeDynamicDomainRules lib profile rules' = Inr ns \<and> sorted ns \<and> distinct ns \<and> length ns = length rules \<and>
    (\<forall>r\<in>set ns. (rule_type r = ''exact'' \<or> rule_type r = ''suffix'') \<and>
       (\<exists>v isIP. normalizeDynamicHost lib v = Inr (rule_value r, isIP) \<and>
          (isIP \<longrightarrow> rule_type r = ''exact'' \<and> profile \<noteq> ''safe'')))"
proof -
  let ?P = "\<lambda>r r'. normalize_rule lib profile r = Inr r'"
  obtain rs where r: "known_profile profile" "list_all2 ?P rules rs" "distinct rs" "ns = sort rs"
    using assms(1) by (auto simp: normalizeDynamicDomainRules_Inr)
  obtain rs' where r': "list_all2 ?P rules' rs'" "mset rs' = mset rs"
    using list_all2_reorder_left_invariance [OF r(2), of rules'] assms(2) by metis
  have "distinct rs'" using r(3) r'(2) by (metis mset_eq_imp_distinct_iff)
  moreover have "sort rs' = sort rs" using r'(2) by (intro properties_for_sort) simp_all
  ultimately have perm: "normalizeDynamicDomainRules lib profile rules' = Inr ns"
    using r(1,4) r'(1) by (auto simp: normalizeDynamicDomainRules_Inr)
  have "(rule_type s = ''exact'' \<or> rule_type s = ''suffix'') \<and>
       (\<exists>v isIP. normalizeDynamicHost lib v = Inr (rule_value s, isIP) \<and>
          (isIP \<longrightarrow> rule_type s = ''exact'' \<and> profile \<noteq> ''safe''))" if "s \<in> set ns" for s
  proof -
    obtain q where "normalize_rule lib profile q = Inr s"
      using \<open>s \<in> set ns\<close> list_all2_right [OF r(2), of s] r(4) by auto
    then show ?thesis by (rule normalize_rule_Inr) blast
  qed
  with perm r list_all2_lengthD [OF r(2)] show ?thesis by simp
qed

text \<open>A rule matches whole labels: an exact rule matches its host only, a suffix rule matches a name
  whose last labels are the labels of the rule, and never an address; a raw suffix that starts inside a
  label does not match.\<close>

theorem domain_rule_matches_labels:
  "dynamicDomainRuleMatches lib name rules \<longleftrightarrow>
     (\<exists>h isIP r. normalizeDynamicHost lib name = Inr (h, isIP) \<and> r \<in> set rules \<and>
        (rule_type r = ''exact'' \<and> h = rule_value r \<or>
         rule_type r = ''suffix'' \<and> \<not> isIP \<and> (\<exists>ls. split_on CHR ''.'' h = ls @ split_on CHR ''.'' (rule_value r))))"
proof -
  have "h = v \<or> has_suffix h (''.'' @ v) \<longleftrightarrow> (\<exists>ls. split_on CHR ''.'' h = ls @ split_on CHR ''.'' v)" for h v
    by (rule suffix_labels)
  note labels = this
  show ?thesis
  proof (cases "normalizeDynamicHost lib name")
    case (Inr p)
    obtain h isIP where p: "p = (h, isIP)" by (cases p)
    show ?thesis
      unfolding dynamicDomainRuleMatches_def Inr p list_ex_iff Bex_def sum.case prod.case labels
      by (auto split: if_splits)
  qed (simp add: dynamicDomainRuleMatches_def)
qed

section \<open>Concrete inputs\<close>

definition rule_names :: name_lib where
  "rule_names = \<lparr>to_ascii = Some,
     public_suffix = (\<lambda>h. if parse_ipv4 h \<noteq> None then (''1'', False) else (''com'', True)),
     effective_tld_plus_one = Some\<rparr>"

definition demo_json :: json_lib where
  "demo_json = \<lparr>decode_sources = (\<lambda>_. Decoded (Some [''redirect'']) AtEof), encode_sources = (\<lambda>_. ''[\"redirect\"]''),
     decode_rules = (\<lambda>_. Decoded (Some [Rule ''suffix'' ''a.com'']) AtEof),
     encode_rules = (\<lambda>_. ''[{\"type\":\"suffix\",\"value\":\"a.com\"}]'')\<rparr>"

definition demo_site_policy :: site_policy where
  "demo_site_policy = \<lparr>sp_enabled = True, sp_profile = ''Safe'', sp_downgrade = False, sp_sources = Some [''redirect''],
     sp_stored_sources = [], sp_rules = Some [Rule ''Suffix'' ''A.com.''], sp_stored_rules = [], sp_revision = 0\<rparr>"

definition demo_stored_policy :: site_policy where
  "demo_stored_policy = \<lparr>sp_enabled = True, sp_profile = ''safe'', sp_downgrade = False, sp_sources = Some [''redirect''],
     sp_stored_sources = ''[\"redirect\"]'', sp_rules = Some [Rule ''suffix'' ''a.com''],
     sp_stored_rules = ''[{\"type\":\"suffix\",\"value\":\"a.com\"}]'', sp_revision = 1\<rparr>"

lemma rule_names_ok: "names_ok rule_names"
  by (simp add: names_ok_def rule_names_def)

lemma demo_policy_values:
  "normalizeDynamicProfile ''Safe'' = Inr ''safe''"
  "normalizeDynamicHost rule_names ''A.com.'' = Inr (''a.com'', False)"
  "normalizeDynamicHost rule_names ''a.com'' = Inr (''a.com'', False)"
  "normalizeDynamicHost rule_names ''b.com'' = Inr (''b.com'', False)"
  "normalizeDynamicHost rule_names ''x.A.com'' = Inr (''x.a.com'', False)"
  "normalizeDynamicHost rule_names ''xa.com'' = Inr (''xa.com'', False)"
  "normalizeDynamicDiscoverySources (Some [''redirect'']) = Inr (Some [''redirect''])"
  "to_lower (trim_space ''Suffix'') = ''suffix''"
  "\<not> has_prefix (trim_space ''A.com.'') ''.''" "\<not> has_prefix (trim_space ''a.com'') ''.''" "\<not> has_prefix (trim_space ''b.com'') ''.''"
  "trim_space ''[\"redirect\"]'' \<noteq> []" "trim_space ''[{\"type\":\"suffix\",\"value\":\"a.com\"}]'' \<noteq> []"
  by code_simp+

lemma demo_policy_rules: "normalize_rule rule_names ''safe'' (Rule ''Suffix'' ''A.com.'') = Inr (Rule ''suffix'' ''a.com'')"
  "normalize_rule rule_names ''safe'' (Rule ''suffix'' ''b.com'') = Inr (Rule ''suffix'' ''b.com'')"
  "normalize_rule rule_names ''safe'' (Rule ''exact'' ''a.com'') = Inr (Rule ''exact'' ''a.com'')"
  by (simp_all add: normalize_rule_def demo_policy_values lower_types del: to_lower.simps)

lemma demo_policy_normalized: "normalizeDynamicSitePolicy rule_names demo_json demo_site_policy = Inr demo_stored_policy"
proof -
  have "policy_sources demo_json demo_site_policy ''safe'' = Inr (Some [''redirect''])"
    by (simp add: policy_sources_def demo_site_policy_def demo_policy_values validateDynamicDiscoverySourcesForProfile_def
        dynamicDiscoverySourcesForProfile_def)
  moreover have "policy_rules rule_names demo_json demo_site_policy ''safe'' = Inr [Rule ''suffix'' ''a.com'']"
    by (simp add: policy_rules_def demo_site_policy_def normalizeDynamicDomainRules_def known_profile_def demo_policy_rules)
  ultimately show ?thesis
    by (simp add: normalizeDynamicSitePolicy_def demo_site_policy_def demo_policy_values demo_json_def demo_stored_policy_def)
qed

lemma demo_rules_normalized:
  "normalizeDynamicDomainRules rule_names ''safe'' [Rule ''suffix'' ''b.com'', Rule ''exact'' ''a.com''] =
     Inr [Rule ''exact'' ''a.com'', Rule ''suffix'' ''b.com'']"
proof -
  have "sort [Rule ''suffix'' ''b.com'', Rule ''exact'' ''a.com''] = [Rule ''exact'' ''a.com'', Rule ''suffix'' ''b.com'']"
    by (simp add: less_eq_domain_rule_def)
  then show ?thesis
    by (simp add: normalizeDynamicDomainRules_def known_profile_def demo_policy_rules rule_key_def)
qed

theorem normalized_policy_hydrates_witness:
  "hydrateStoredDynamicSitePolicy rule_names demo_json demo_stored_policy 1 0 = Inr demo_stored_policy"
  using normalized_policy_hydrates [OF rule_names_ok demo_policy_normalized] demo_policy_values(12,13)
  by (simp add: demo_stored_policy_def demo_json_def)

theorem domain_rules_canonical_witness:
  "normalizeDynamicDomainRules rule_names ''safe'' [Rule ''exact'' ''a.com'', Rule ''suffix'' ''b.com''] =
     Inr [Rule ''exact'' ''a.com'', Rule ''suffix'' ''b.com'']"
  using domain_rules_canonical [OF demo_rules_normalized, of "[Rule ''exact'' ''a.com'', Rule ''suffix'' ''b.com'']"] by simp

theorem domain_rule_matches_labels_witness:
  "dynamicDomainRuleMatches rule_names ''x.A.com'' [Rule ''suffix'' ''a.com''] \<and>
   \<not> dynamicDomainRuleMatches rule_names ''xa.com'' [Rule ''suffix'' ''a.com'']"
  using demo_policy_values(5,6) by (auto simp: domain_rule_matches_labels)

end
