(* ===== verification/Dynamic_Runtime.thy ===== *)
theory Dynamic_Runtime
  imports Upstream_Headers Dynamic_Policy Dynamic_Authority
begin

text \<open>
  \<open>cmd/meridian/dynamic_runtime_state.go\<close> but for its capability cache (\<open>Dynamic_Capability\<close>),
  with the resolution and the stream slots of \<open>dynamic_authority.go\<close>: the policy a discovered target must
  satisfy, the playback paths a site has learned, the budgets of streams and of parsing memory, the headers a
  capability may require and the sealed form of a capability. A reason code is its string; \<open>[]\<close> is the
  absence of one. AES-GCM with base64 and JSON are arguments.
\<close>

section \<open>The context of an outbound request\<close>

datatype context_key =
  PlaybackInfoBase | BackendAddress | RequestEligible | ResponseMark | ExpectedSource | DirectFallback | DirectResolved | OtherKey string

definition dynamicOutboundContext_Value :: "(context_key \<Rightarrow> 'v option) \<Rightarrow> context_key \<Rightarrow> 'v option" where
  "dynamicOutboundContext_Value ctx k =
     (if k = PlaybackInfoBase then ctx k else if k = BackendAddress then ctx k else None)"

definition isolateDynamicOutboundContext :: "(context_key \<Rightarrow> 'v option) option \<Rightarrow> context_key \<Rightarrow> 'v option" where
  "isolateDynamicOutboundContext ctx =
     (case ctx of None \<Rightarrow> (\<lambda>_. None) | Some c \<Rightarrow> dynamicOutboundContext_Value c)"

section \<open>The error a client sees\<close>

record proxy_error =
  pe_status :: nat
  pe_retry_after :: string
  pe_reason :: string

definition newDynamicProxyError :: "string \<Rightarrow> proxy_error" where
  "newDynamicProxyError reasonCode =
     (if reasonCode = ''capacity_limit'' then \<lparr>pe_status = 503, pe_retry_after = ''1'', pe_reason = reasonCode\<rparr>
      else if reasonCode = ''rate_limit'' then \<lparr>pe_status = 503, pe_retry_after = ''60'', pe_reason = reasonCode\<rparr>
      else \<lparr>pe_status = 502, pe_retry_after = [], pe_reason = reasonCode\<rparr>)"

definition writeResponse :: "proxy_error \<Rightarrow> http_header \<Rightarrow> nat \<times> http_header \<times> string" where
  "writeResponse e h0 =
     (let h1 = hdr_set ''X-Content-Type-Options'' ''nosniff'' (hdr_set ''Referrer-Policy'' ''no-referrer''
                 (hdr_set ''Cache-Control'' ''no-store'' (hdr_set ''Content-Type'' ''application/json'' (hdr_del ''Location'' h0))));
          h2 = (if pe_retry_after e \<noteq> [] then hdr_set ''Retry-After'' (pe_retry_after e) h1 else h1)
      in (pe_status e, h2,
          ''{'' @ [CHR 0x22] @ ''error'' @ [CHR 0x22] @ '':'' @ [CHR 0x22] @ ''dynamic discovery unavailable'' @ [CHR 0x22] @ ''}''))"

section \<open>What a discovered target must satisfy\<close>

record redirect_policy =
  rp_configured :: bool
  rp_available :: bool
  rp_profile :: string
  rp_limits :: profile_limits
  rp_sources :: "string list"
  rp_rules :: "domain_rule list"
  rp_downgrade :: bool

definition newDynamicRedirectPolicy :: "bool \<Rightarrow> redirect_policy option" where
  "newDynamicRedirectPolicy available =
     (case dynamicLimitsForProfile ''compatible'' of
        None \<Rightarrow> None
      | Some limits \<Rightarrow> Some \<lparr>rp_configured = True, rp_available = available, rp_profile = ''compatible'', rp_limits = limits,
          rp_sources = allDynamicDiscoverySources, rp_rules = [], rp_downgrade = True\<rparr>)"

definition sourceEnabled :: "redirect_policy \<Rightarrow> string \<Rightarrow> bool" where
  "sourceEnabled p source \<longleftrightarrow> rp_configured p \<and> dynamicDiscoverySourceEnabled (rp_sources p) source"

definition validateTarget ::
    "name_lib \<Rightarrow> redirect_policy \<Rightarrow> url option \<Rightarrow> url \<Rightarrow> self_policy option \<Rightarrow> iface list option \<Rightarrow> string" where
  "validateTarget lib p previous target selfTargets addrs =
     (if scheme target \<notin> set (AllowedSchemes (rp_limits p)) then ''scheme_denied''
      else case dynamicEffectivePort target of
        None \<Rightarrow> ''port_denied''
      | Some portText \<Rightarrow>
          if \<not> AllowAnyPort (rp_limits p) \<and> int (digits_value portText) \<notin> set (AllowedPorts (rp_limits p)) then ''port_denied''
          else if rp_profile p = ''safe'' \<and> \<not> dynamicSafeDomainAllowed lib (url_hostname target) (rp_rules p) then ''domain_denied''
          else if (case previous of None \<Rightarrow> False | Some q \<Rightarrow> equal_fold (scheme q) ''https'') \<and> scheme target = ''http'' \<and> \<not> rp_downgrade p
          then ''https_downgrade_denied''
          else case selfTargets of
            None \<Rightarrow> ''runtime_unavailable''
          | Some sp \<Rightarrow> if validateNormalizedTarget lib sp target addrs \<noteq> None then ''self_target'' else [])"

section \<open>Resolving a target\<close>

text \<open>
  What a lookup meets: a free worker, the resolver and the two enumerations of the local interfaces. The result
  is the error text, or the addresses.
\<close>

record resolve_env =
  worker_free :: bool
  dns_lookup :: "string \<Rightarrow> (net_ip \<times> string) list option"
  ifaces_target :: "iface list option"
  ifaces_answer :: "iface list option"

definition policy_error :: "net_error \<Rightarrow> string" where
  "policy_error e = (if e = SelfTarget then ''self_target'' else ''address_denied'')"

definition state_resolve :: "name_lib \<Rightarrow> int \<Rightarrow> resolve_env \<Rightarrow> url \<Rightarrow> self_policy option \<Rightarrow> string + addr list" where
  "state_resolve lib maxIPs env target selfTargets =
     (case selfTargets of
        None \<Rightarrow> Inl ''runtime_unavailable''
      | Some sp \<Rightarrow>
          if validateNormalizedTarget lib sp target (ifaces_target env) \<noteq> None then Inl ''self_target''
          else
            let check = (\<lambda>ips. case validateDynamicResolvedIPsWithPolicy ips selfTargets (ifaces_answer env) of
                           Inl e \<Rightarrow> Inl (policy_error e) | Inr validated \<Rightarrow> Inr validated)
            in case parse_ip (url_hostname target) of
                 Some ip \<Rightarrow> check [ip]
               | None \<Rightarrow>
                   if \<not> worker_free env then Inl ''capacity_limit''
                   else case dns_lookup env (url_hostname target) of
                     None \<Rightarrow> Inl ''dns_failure''
                   | Some answers \<Rightarrow>
                       if answers = [] then Inl ''dns_failure''
                       else if int (length answers) > maxIPs then Inl ''capacity_limit''
                       else if list_ex (\<lambda>(ip, zone). zone \<noteq> []) answers then Inl ''address_denied''
                       else check (map fst answers))"

text \<open>
  A reservation shares one lookup with the others of its authority; \<open>None\<close> is a request that ends before it.
  The answer is checked again against the policy of the request.
\<close>

definition reservation_resolve :: "(string + addr list) option \<Rightarrow> self_policy option \<Rightarrow> iface list option \<Rightarrow> string + addr list" where
  "reservation_resolve outcome selfTargets addrs =
     (if selfTargets = None then Inl ''runtime_unavailable''
      else case outcome of
        None \<Rightarrow> Inl ''dns_failure''
      | Some (Inl reasonCode) \<Rightarrow> Inl reasonCode
      | Some (Inr ips) \<Rightarrow>
          (case validateDynamicResolvedIPsWithPolicy (map as_slice ips) selfTargets addrs of
             Inl e \<Rightarrow> Inl (policy_error e)
           | Inr validated \<Rightarrow> Inr validated))"

section \<open>Playback paths that were learned\<close>

definition dynamicLearnedPlaybackPathTTL :: duration where
  "dynamicLearnedPlaybackPathTTL = 15 * minute"

definition dynamicLearnedPlaybackPathLimit :: nat where
  "dynamicLearnedPlaybackPathLimit = 128"

record learned_path =
  pathSeen :: time
  pathExpires :: time

definition canonicalDynamicPlaybackPath :: "string \<Rightarrow> string" where
  "canonicalDynamicPlaybackPath p =
     (if p = [] \<or> int (length p) > maxDynamicTargetURLBytes \<or> \<not> has_prefix p ''/'' \<or> has_prefix p ''//'' \<or>
         has_prefix p [CHR ''/'', CHR 0x5C] \<or> contains_any p [CHR ''?'', CHR ''#'', CHR 0x5C] \<or> containsDynamicUnsafeRune p
      then []
      else
        let canonical = url_escaped_path (empty_url\<lparr>path := p\<rparr>)
        in if canonical = [] \<or> \<not> has_prefix canonical ''/'' \<or> int (length canonical) > maxDynamicTargetURLBytes \<or>
              \<not> dynamicURLDecodedComponentIsSafe canonical False \<or> dynamicURLPathHasDotSegments canonical
           then [] else canonical)"

definition pruneLearnedPlaybackPaths :: "time \<Rightarrow> (string, learned_path) gomap \<Rightarrow> (string, learned_path) gomap" where
  "pruneLearnedPlaybackPaths now m = filter (\<lambda>(_, e). now < pathExpires e) m"

text \<open>The first path of the iteration order that no other one was seen before.\<close>

definition oldest_path :: "(string, learned_path) gomap \<Rightarrow> string" where
  "oldest_path m =
     fst (foldl (\<lambda>(p, t) (q, e). if p = [] \<or> pathSeen e < t then (q, pathSeen e) else (p, t)) ([], 0) m)"

text \<open>\<open>clock\<close> is what \<open>time.Now\<close> gives a caller without a time of its own.\<close>

definition learnPlaybackPath :: "time \<Rightarrow> string \<Rightarrow> time \<Rightarrow> (string, learned_path) gomap \<Rightarrow> (string, learned_path) gomap" where
  "learnPlaybackPath clock raw now0 m =
     (let now = (if now0 = 0 then clock else now0);
          p = canonicalDynamicPlaybackPath raw
      in if p = [] then m
         else
           let m1 = pruneLearnedPlaybackPaths now m;
               m2 = (if mget m1 p = None \<and> length m1 \<ge> dynamicLearnedPlaybackPathLimit
                     then let old = oldest_path m1 in if old \<noteq> [] then mdel old m1 else m1
                     else m1)
           in mput p \<lparr>pathSeen = now, pathExpires = now + dynamicLearnedPlaybackPathTTL\<rparr> m2)"

definition hasLearnedPlaybackPath ::
    "time \<Rightarrow> string \<Rightarrow> time \<Rightarrow> (string, learned_path) gomap \<Rightarrow> (string, learned_path) gomap \<times> bool" where
  "hasLearnedPlaybackPath clock raw now0 m =
     (let now = (if now0 = 0 then clock else now0);
          p = canonicalDynamicPlaybackPath raw
      in if p = [] then (m, False)
         else
           let m1 = pruneLearnedPlaybackPaths now m
           in (m1, case mget m1 p of None \<Rightarrow> False | Some e \<Rightarrow> now < pathExpires e))"

section \<open>Streams and parsing memory\<close>

definition globalDynamicMaxStreams :: nat where
  "globalDynamicMaxStreams = 1024"

definition globalDynamicMaxConcurrentParses :: nat where
  "globalDynamicMaxConcurrentParses = 8"

definition globalDynamicMaxSiteConcurrentParses :: nat where
  "globalDynamicMaxSiteConcurrentParses = 2"

definition globalDynamicMaxParseMemoryBytes :: int where
  "globalDynamicMaxParseMemoryBytes = 268435456"

definition globalDynamicMaxSiteParseMemoryBytes :: int where
  "globalDynamicMaxSiteParseMemoryBytes = 67108864"

record budget =
  bd_streams :: chan
  bd_parses :: chan
  bd_memory :: int

record budgets =
  bd_runtime :: budget
  bd_sites :: "(nat, budget) gomap"

definition new_runtime_budget :: budgets where
  "new_runtime_budget =
     \<lparr>bd_runtime = \<lparr>bd_streams = make_chan globalDynamicMaxStreams, bd_parses = make_chan globalDynamicMaxConcurrentParses, bd_memory = 0\<rparr>,
      bd_sites = []\<rparr>"

definition new_site_budget :: "nat \<Rightarrow> nat \<Rightarrow> budgets \<Rightarrow> budgets" where
  "new_site_budget sid maxStreams b =
     b\<lparr>bd_sites := mput sid \<lparr>bd_streams = make_chan maxStreams,
        bd_parses = make_chan globalDynamicMaxSiteConcurrentParses, bd_memory = 0\<rparr> (bd_sites b)\<rparr>"

text \<open>Two permits, the runtime's first; when the site has none the first one is given back.\<close>

definition take_both :: "chan \<Rightarrow> chan \<Rightarrow> (chan \<times> chan) option" where
  "take_both g s =
     (case chan_send g of
        None \<Rightarrow> None
      | Some g' \<Rightarrow> (case chan_send s of None \<Rightarrow> None | Some s' \<Rightarrow> Some (g', s')))"

definition give_both :: "chan \<Rightarrow> chan \<Rightarrow> (chan \<times> chan) option" where
  "give_both g s =
     (case chan_recv g of
        None \<Rightarrow> None
      | Some g' \<Rightarrow> (case chan_recv s of None \<Rightarrow> None | Some s' \<Rightarrow> Some (g', s')))"

definition acquireStream :: "nat \<Rightarrow> budgets \<Rightarrow> budgets option" where
  "acquireStream sid b =
     (case mget (bd_sites b) sid of
        None \<Rightarrow> None
      | Some s \<Rightarrow>
          (case take_both (bd_streams (bd_runtime b)) (bd_streams s) of
             None \<Rightarrow> None
           | Some (g, c) \<Rightarrow>
               Some (b\<lparr>bd_runtime := (bd_runtime b)\<lparr>bd_streams := g\<rparr>,
                        bd_sites := mput sid (s\<lparr>bd_streams := c\<rparr>) (bd_sites b)\<rparr>)))"

definition releaseStream :: "nat \<Rightarrow> budgets \<Rightarrow> budgets option" where
  "releaseStream sid b =
     (case mget (bd_sites b) sid of
        None \<Rightarrow> None
      | Some s \<Rightarrow>
          (case give_both (bd_streams (bd_runtime b)) (bd_streams s) of
             None \<Rightarrow> None
           | Some (g, c) \<Rightarrow>
               Some (b\<lparr>bd_runtime := (bd_runtime b)\<lparr>bd_streams := g\<rparr>,
                        bd_sites := mput sid (s\<lparr>bd_streams := c\<rparr>) (bd_sites b)\<rparr>)))"

definition acquireParse :: "nat \<Rightarrow> int \<Rightarrow> budgets \<Rightarrow> budgets option" where
  "acquireParse sid memory b =
     (if memory \<le> 0 \<or> memory > globalDynamicMaxSiteParseMemoryBytes then None
      else case mget (bd_sites b) sid of
        None \<Rightarrow> None
      | Some s \<Rightarrow>
          (case take_both (bd_parses (bd_runtime b)) (bd_parses s) of
             None \<Rightarrow> None
           | Some (g, c) \<Rightarrow>
               if bd_memory (bd_runtime b) + memory > globalDynamicMaxParseMemoryBytes \<or>
                  bd_memory s + memory > globalDynamicMaxSiteParseMemoryBytes then None
               else Some (b\<lparr>bd_runtime := (bd_runtime b)\<lparr>bd_parses := g, bd_memory := bd_memory (bd_runtime b) + memory\<rparr>,
                        bd_sites := mput sid (s\<lparr>bd_parses := c, bd_memory := bd_memory s + memory\<rparr>) (bd_sites b)\<rparr>)))"

definition releaseParse :: "nat \<Rightarrow> int \<Rightarrow> budgets \<Rightarrow> budgets option" where
  "releaseParse sid memory b =
     (case mget (bd_sites b) sid of
        None \<Rightarrow> None
      | Some s \<Rightarrow>
          (case give_both (bd_parses (bd_runtime b)) (bd_parses s) of
             None \<Rightarrow> None
           | Some (g, c) \<Rightarrow>
               Some (b\<lparr>bd_runtime := (bd_runtime b)\<lparr>bd_parses := g, bd_memory := bd_memory (bd_runtime b) - memory\<rparr>,
                        bd_sites := mput sid (s\<lparr>bd_parses := c, bd_memory := bd_memory s - memory\<rparr>) (bd_sites b)\<rparr>)))"

definition availableParseMemory :: "nat \<Rightarrow> budgets \<Rightarrow> int" where
  "availableParseMemory sid b =
     (case mget (bd_sites b) sid of
        None \<Rightarrow> 0
      | Some s \<Rightarrow>
          let siteAvailable = globalDynamicMaxSiteParseMemoryBytes - bd_memory s;
              globalAvailable = globalDynamicMaxParseMemoryBytes - bd_memory (bd_runtime b)
          in if siteAvailable \<le> 0 \<or> globalAvailable \<le> 0 then 0 else min siteAvailable globalAvailable)"

section \<open>Headers a capability requires\<close>

definition maxExtremeRequiredHeaderClaims :: nat where
  "maxExtremeRequiredHeaderClaims = 8"

definition maxExtremeRequiredHeaderClaimBytes :: nat where
  "maxExtremeRequiredHeaderClaimBytes = 4096"

definition required_names :: "string list" where
  "required_names = [''Accept'', ''Accept-Language'', ''Origin'', ''Referer'', ''User-Agent'']"

definition normalizeExtremeRequiredHeaderName :: "string \<Rightarrow> string option" where
  "normalizeExtremeRequiredHeaderName value0 =
     (let value = trim_space value0
      in if value = [] \<or> length value > maxUpstreamHeaderName then None
         else if \<not> list_all isHTTPTokenByte value then None
         else
           let name = CanonicalHeaderKey value
           in if name \<in> set required_names then Some name else None)"

definition normalizeExtremeRequiredHeaderValue :: "string \<Rightarrow> string option" where
  "normalizeExtremeRequiredHeaderValue value0 =
     (let value = trim_space value0
      in if value = [] then None
         else if list_all printable_byte value then Some value else None)"

type_synonym header_claim = "string \<times> string"

text \<open>The loop: the bytes so far and the name before; the empty name is the absence of one.\<close>

fun claims_ok :: "header_claim list \<Rightarrow> nat \<Rightarrow> string \<Rightarrow> bool" where
  "claims_ok [] used prev \<longleftrightarrow> True"
| "claims_ok ((n, v) # cs) used prev \<longleftrightarrow>
     normalizeExtremeRequiredHeaderName n = Some n \<and> \<not> (prev \<noteq> [] \<and> n \<le> prev) \<and>
     normalizeExtremeRequiredHeaderValue v = Some v \<and>
     used + length n + length v \<le> maxExtremeRequiredHeaderClaimBytes \<and>
     claims_ok cs (used + length n + length v) n"

text \<open>\<open>None\<close> is the nil slice.\<close>

definition validateDynamicCapabilityRequiredHeaderClaims :: "header_claim list option \<Rightarrow> bool" where
  "validateDynamicCapabilityRequiredHeaderClaims headers \<longleftrightarrow>
     (case headers of
        None \<Rightarrow> True
      | Some cs \<Rightarrow> \<not> (cs = [] \<or> length cs > maxExtremeRequiredHeaderClaims) \<and> claims_ok cs 0 [])"

definition dynamicRequiredHeadersConflictWithFixedPolicy :: "header_claim list option \<Rightarrow> upstream_policy \<Rightarrow> bool" where
  "dynamicRequiredHeadersConflictWithFixedPolicy headers p \<longleftrightarrow>
     (case headers of None \<Rightarrow> False
      | Some cs \<Rightarrow> list_ex (\<lambda>(n, v). list_ex (\<lambda>(f, vs). equal_fold n f) (up_values p)) cs)"

text \<open>The members of a JSON object in their iteration order; \<open>None\<close> is a value that is no string.\<close>

fun collect_claims :: "(string \<times> string option) list \<Rightarrow> string list \<Rightarrow> nat \<Rightarrow> header_claim list option" where
  "collect_claims [] seen used = Some []"
| "collect_claims ((n0, v0) # hs) seen used =
     (case normalizeExtremeRequiredHeaderName n0 of
        None \<Rightarrow> None
      | Some n \<Rightarrow>
          if to_lower n \<in> set seen then None
          else case v0 of
            None \<Rightarrow> None
          | Some raw \<Rightarrow>
              (case normalizeExtremeRequiredHeaderValue raw of
                 None \<Rightarrow> None
               | Some v \<Rightarrow>
                   if used + length n + length v > maxExtremeRequiredHeaderClaimBytes then None
                   else map_option ((#) (n, v)) (collect_claims hs (to_lower n # seen) (used + length n + length v))))"

text \<open>The outer \<open>None\<close> is an error.\<close>

definition normalizeExtremeRequiredHeaderClaims ::
    "(string \<times> string option) list \<Rightarrow> upstream_policy \<Rightarrow> header_claim list option option" where
  "normalizeExtremeRequiredHeaderClaims headers fixedPolicy =
     (if headers = [] then Some None
      else if length headers > maxExtremeRequiredHeaderClaims then None
      else case collect_claims headers [] 0 of
        None \<Rightarrow> None
      | Some cs \<Rightarrow>
          let normalized = sort_key fst cs
          in if dynamicRequiredHeadersConflictWithFixedPolicy (Some normalized) fixedPolicy then None
             else if validateDynamicCapabilityRequiredHeaderClaims (Some normalized) then Some (Some normalized) else None)"

section \<open>The sealed form of a capability\<close>

record cap_claims =
  cl_version :: int
  cl_site :: int
  cl_revision :: int
  cl_source :: string
  cl_target :: string
  cl_kind :: string
  cl_depth :: int
  cl_trusted :: bool
  cl_previous_scheme :: string
  cl_issued :: int
  cl_expires :: int
  cl_template :: "string list"
  cl_template_fixed :: "string list"
  cl_required :: "header_claim list option"

definition maxDynamicManifestDepth :: int where
  "maxDynamicManifestDepth = 3"

definition validDynamicCapabilityResource :: "string \<Rightarrow> string \<Rightarrow> int \<Rightarrow> bool" where
  "validDynamicCapabilityResource source kind depth \<longleftrightarrow>
     (if kind = ''resource'' then depth = 0
      else if kind = ''manifest'' then (source = ''hls'' \<or> source = ''dash'') \<and> 1 \<le> depth \<and> depth \<le> maxDynamicManifestDepth
      else False)"


text \<open>\<open>dynamic_rewrite_core.go\<close>: the form of a target on an authority the site already trusts.\<close>

definition validateSameAuthorityStructuredURL :: "url \<Rightarrow> bool" where
  "validateSameAuthorityStructuredURL t \<longleftrightarrow>
     (let s = to_lower (scheme t)
      in \<not> (int (length (url_string t)) > maxDynamicTargetURLBytes \<or> user t \<noteq> None \<or> fragment t \<noteq> [] \<or> raw_fragment t \<noteq> [] \<or>
            host t = []) \<and>
         \<not> (s \<noteq> ''http'' \<and> s \<noteq> ''https'' \<or> \<not> dynamicURLDecodedComponentIsSafe (url_escaped_path t) False \<or>
            \<not> dynamicURLDecodedComponentIsSafe (raw_query t) True) \<and>
         \<not> dynamicURLPathHasDotSegments (url_escaped_path t) \<and>
         (url_port t = [] \<or> port_value_ok (url_port t)))"

definition normalizeTrustedCapabilityURL :: "name_lib \<Rightarrow> url_parser \<Rightarrow> string \<Rightarrow> url option" where
  "normalizeTrustedCapabilityURL lib parse value =
     (if value = [] \<or> int (length value) > maxDynamicTargetURLBytes \<or> value \<noteq> trim_space value \<or>
         containsDynamicUnsafeRune value \<or> CHR 0x5C \<in> set value \<or> CHR ''#'' \<in> set value then None
      else case parse value of
        None \<Rightarrow> None
      | Some t0 \<Rightarrow>
          if scheme t0 = [] \<or> opaque t0 \<noteq> [] then None
          else
            let t = t0\<lparr>scheme := to_lower (scheme t0)\<rparr>
            in case normalizeDynamicHostSyntax lib (url_hostname t) of
                 Inl _ \<Rightarrow> None
               | Inr (h, _) \<Rightarrow>
                   let explicitPort = (url_port t \<noteq> [])
                   in if \<not> explicitPort \<and> has_suffix (host t) '':'' then None
                      else case dynamicEffectivePort t of
                        None \<Rightarrow> None
                      | Some port \<Rightarrow>
                          let u = t\<lparr>host := dynamicURLHost h port explicitPort\<rparr>
                          in if validateSameAuthorityStructuredURL u then Some u else None)"

definition validateDynamicCapabilityRequiredHeaderBinding :: "name_lib \<Rightarrow> url_parser \<Rightarrow> cap_claims \<Rightarrow> bool" where
  "validateDynamicCapabilityRequiredHeaderBinding lib parse c \<longleftrightarrow>
     validateDynamicCapabilityRequiredHeaderClaims (cl_required c) \<and>
     (cl_required c = None \<or>
      \<not> (cl_template c \<noteq> [] \<or> cl_template_fixed c \<noteq> [] \<or>
         \<not> validDynamicCapabilityResource (cl_source c) (cl_kind c) (cl_depth c)) \<and>
      cl_source c \<in> set [''playback_info'', ''hls'', ''dash''] \<and>
      (case (if cl_trusted c then normalizeTrustedCapabilityURL lib parse (cl_target c)
             else case normalizeDynamicURL lib parse (cl_target c) of Inl _ \<Rightarrow> None | Inr u \<Rightarrow> Some u) of
         None \<Rightarrow> False
       | Some u \<Rightarrow> url_string u = cl_target c))"

text \<open>JSON with one document and known members only, and AES-GCM under the data of the program with base64.\<close>

record cap_lib =
  write_claims :: "cap_claims \<Rightarrow> string option"
  read_claims :: "string \<Rightarrow> cap_claims option"
  cap_seal :: "string \<Rightarrow> string \<Rightarrow> string \<Rightarrow> string"         \<comment> \<open>key, nonce, payload\<close>
  cap_open :: "string \<Rightarrow> string \<Rightarrow> string option"           \<comment> \<open>key, token\<close>

definition maxDynamicCapabilityBytes :: nat where
  "maxDynamicCapabilityBytes = 16384"

definition sealDynamicCapability ::
    "name_lib \<Rightarrow> url_parser \<Rightarrow> cap_lib \<Rightarrow> string \<Rightarrow> string \<Rightarrow> cap_claims \<Rightarrow> string option" where
  "sealDynamicCapability lib parse clib nonce key claims =
     (if length key \<noteq> 32 then None
      else if \<not> validateDynamicCapabilityRequiredHeaderBinding lib parse claims then None
      else case write_claims clib claims of
        None \<Rightarrow> None
      | Some payload \<Rightarrow>
          let token = cap_seal clib key nonce payload
          in if length token > maxDynamicCapabilityBytes then None else Some token)"

definition openDynamicCapability :: "name_lib \<Rightarrow> url_parser \<Rightarrow> cap_lib \<Rightarrow> string \<Rightarrow> string \<Rightarrow> cap_claims option" where
  "openDynamicCapability lib parse clib key token =
     (if length key \<noteq> 32 \<or> token = [] \<or> length token > maxDynamicCapabilityBytes then None
      else case cap_open clib key token of
        None \<Rightarrow> None
      | Some payload \<Rightarrow>
          (case read_claims clib payload of
             None \<Rightarrow> None
           | Some claims \<Rightarrow>
               if validateDynamicCapabilityRequiredHeaderBinding lib parse claims then Some claims else None))"

section \<open>The budgets, over all interleavings\<close>

text \<open>The budgets with the streams and the parses that are under way: their sites and, of a parse, its memory.\<close>

record budget_run =
  run_budgets :: budgets
  run_streams :: "nat multiset"
  run_parses :: "(nat \<times> int) multiset"

inductive budget_step :: "budget_run \<Rightarrow> budget_run \<Rightarrow> bool" where
  NewSite: "mget (bd_sites (run_budgets x)) sid = None \<Longrightarrow>
    budget_step x (x\<lparr>run_budgets := new_site_budget sid n (run_budgets x)\<rparr>)"
| StreamBegins: "acquireStream sid (run_budgets x) = Some b \<Longrightarrow>
    budget_step x (x\<lparr>run_budgets := b, run_streams := add_mset sid (run_streams x)\<rparr>)"
| StreamEnds: "sid \<in># run_streams x \<Longrightarrow> releaseStream sid (run_budgets x) = Some b \<Longrightarrow>
    budget_step x (x\<lparr>run_budgets := b, run_streams := run_streams x - {#sid#}\<rparr>)"
| ParseBegins: "acquireParse sid n (run_budgets x) = Some b \<Longrightarrow>
    budget_step x (x\<lparr>run_budgets := b, run_parses := add_mset (sid, n) (run_parses x)\<rparr>)"
| ParseEnds: "(sid, n) \<in># run_parses x \<Longrightarrow> releaseParse sid n (run_budgets x) = Some b \<Longrightarrow>
    budget_step x (x\<lparr>run_budgets := b, run_parses := run_parses x - {#(sid, n)#}\<rparr>)"

inductive budget_reachable :: "budget_run \<Rightarrow> bool" where
  Start: "budget_reachable \<lparr>run_budgets = new_runtime_budget, run_streams = {#}, run_parses = {#}\<rparr>"
| Next: "budget_reachable x \<Longrightarrow> budget_step x y \<Longrightarrow> budget_reachable y"

definition memory_of :: "(nat \<times> int) multiset \<Rightarrow> int" where
  "memory_of ps = sum_mset (image_mset snd ps)"

definition parses_of :: "nat \<Rightarrow> (nat \<times> int) multiset \<Rightarrow> (nat \<times> int) multiset" where
  "parses_of sid ps = filter_mset (\<lambda>p. fst p = sid) ps"

lemma memory_of_simps [simp]:
  "memory_of {#} = 0" "memory_of (add_mset p ps) = snd p + memory_of ps"
  by (simp_all add: memory_of_def)

lemma memory_of_remove: "p \<in># ps \<Longrightarrow> memory_of (ps - {#p#}) = memory_of ps - snd p"
  by (simp add: memory_of_def sum_mset_diff image_mset_Diff)

lemma parses_of_simps [simp]:
  "parses_of sid {#} = {#}" "parses_of sid (add_mset p ps) = (if fst p = sid then add_mset p (parses_of sid ps) else parses_of sid ps)"
  by (simp_all add: parses_of_def)

lemma parses_of_remove: "parses_of sid (ps - {#p#}) = (if fst p = sid then parses_of sid ps - {#p#} else parses_of sid ps)"
  by (simp add: parses_of_def)

definition site_budget_ok :: "budget_run \<Rightarrow> nat \<Rightarrow> budget \<Rightarrow> bool" where
  "site_budget_ok x sid s \<longleftrightarrow>
     chan_held (bd_streams s) = count (run_streams x) sid \<and> chan_held (bd_streams s) \<le> chan_cap (bd_streams s) \<and>
     chan_held (bd_parses s) = size (parses_of sid (run_parses x)) \<and> chan_held (bd_parses s) \<le> globalDynamicMaxSiteConcurrentParses \<and>
     chan_cap (bd_parses s) = globalDynamicMaxSiteConcurrentParses \<and>
     bd_memory s = memory_of (parses_of sid (run_parses x)) \<and> bd_memory s \<le> globalDynamicMaxSiteParseMemoryBytes"

definition runtime_budget_ok :: "budget_run \<Rightarrow> bool" where
  "runtime_budget_ok x \<longleftrightarrow>
     (let g = bd_runtime (run_budgets x)
      in chan_held (bd_streams g) = size (run_streams x) \<and> chan_held (bd_streams g) \<le> globalDynamicMaxStreams \<and>
         chan_cap (bd_streams g) = globalDynamicMaxStreams \<and>
         chan_held (bd_parses g) = size (run_parses x) \<and> chan_held (bd_parses g) \<le> globalDynamicMaxConcurrentParses \<and>
         chan_cap (bd_parses g) = globalDynamicMaxConcurrentParses \<and>
         bd_memory g = memory_of (run_parses x) \<and> bd_memory g \<le> globalDynamicMaxParseMemoryBytes)"

definition budget_inv :: "budget_run \<Rightarrow> bool" where
  "budget_inv x \<longleftrightarrow> runtime_budget_ok x \<and>
     (\<forall>sid s. mget (bd_sites (run_budgets x)) sid = Some s \<longrightarrow> site_budget_ok x sid s) \<and>
     (\<forall>sid\<in>#run_streams x. mget (bd_sites (run_budgets x)) sid \<noteq> None) \<and>
     (\<forall>p\<in>#run_parses x. mget (bd_sites (run_budgets x)) (fst p) \<noteq> None \<and> 0 < snd p)"

lemma chan_send_facts: "chan_send c = Some d \<Longrightarrow> chan_held d = Suc (chan_held c) \<and> chan_cap d = chan_cap c \<and> chan_held d \<le> chan_cap d"
  by (auto simp: chan_send_def split: if_splits)

lemma chan_recv_facts: "chan_recv c = Some d \<Longrightarrow> chan_held c = Suc (chan_held d) \<and> chan_cap d = chan_cap c"
  by (auto simp: chan_recv_def split: if_splits)

lemma take_both_facts: "take_both g s = Some (g', s') \<Longrightarrow> chan_send g = Some g' \<and> chan_send s = Some s'"
  by (auto simp: take_both_def split: option.splits)

lemma give_both_facts: "give_both g s = Some (g', s') \<Longrightarrow> chan_recv g = Some g' \<and> chan_recv s = Some s'"
  by (auto simp: give_both_def split: option.splits)

lemma acquireStream_Some:
  assumes "acquireStream sid b = Some b'"
  obtains s g c where "mget (bd_sites b) sid = Some s" "chan_send (bd_streams (bd_runtime b)) = Some g" "chan_send (bd_streams s) = Some c"
    "b' = b\<lparr>bd_runtime := (bd_runtime b)\<lparr>bd_streams := g\<rparr>, bd_sites := mput sid (s\<lparr>bd_streams := c\<rparr>) (bd_sites b)\<rparr>"
  using assms by (auto simp: acquireStream_def split: option.splits dest!: take_both_facts)

lemma releaseStream_Some:
  assumes "releaseStream sid b = Some b'"
  obtains s g c where "mget (bd_sites b) sid = Some s" "chan_recv (bd_streams (bd_runtime b)) = Some g" "chan_recv (bd_streams s) = Some c"
    "b' = b\<lparr>bd_runtime := (bd_runtime b)\<lparr>bd_streams := g\<rparr>, bd_sites := mput sid (s\<lparr>bd_streams := c\<rparr>) (bd_sites b)\<rparr>"
  using assms by (auto simp: releaseStream_def split: option.splits dest!: give_both_facts)

lemma acquireParse_Some:
  assumes "acquireParse sid n b = Some b'"
  obtains s g c where "mget (bd_sites b) sid = Some s" "chan_send (bd_parses (bd_runtime b)) = Some g" "chan_send (bd_parses s) = Some c"
    "0 < n" "bd_memory (bd_runtime b) + n \<le> globalDynamicMaxParseMemoryBytes" "bd_memory s + n \<le> globalDynamicMaxSiteParseMemoryBytes"
    "b' = b\<lparr>bd_runtime := (bd_runtime b)\<lparr>bd_parses := g, bd_memory := bd_memory (bd_runtime b) + n\<rparr>,
       bd_sites := mput sid (s\<lparr>bd_parses := c, bd_memory := bd_memory s + n\<rparr>) (bd_sites b)\<rparr>"
  using assms by (auto simp: acquireParse_def not_less not_le split: option.splits if_splits dest!: take_both_facts)

lemma releaseParse_Some:
  assumes "releaseParse sid n b = Some b'"
  obtains s g c where "mget (bd_sites b) sid = Some s" "chan_recv (bd_parses (bd_runtime b)) = Some g" "chan_recv (bd_parses s) = Some c"
    "b' = b\<lparr>bd_runtime := (bd_runtime b)\<lparr>bd_parses := g, bd_memory := bd_memory (bd_runtime b) - n\<rparr>,
       bd_sites := mput sid (s\<lparr>bd_parses := c, bd_memory := bd_memory s - n\<rparr>) (bd_sites b)\<rparr>"
  using assms by (auto simp: releaseParse_def split: option.splits dest!: give_both_facts)

lemma in_parses_of: "p \<in># ps \<longleftrightarrow> p \<in># parses_of (fst p) ps"
  by (simp add: parses_of_def)

lemma budget_inv_update:
  assumes inv: "budget_inv x" and sites: "bd_sites (run_budgets y) = mput sid s (bd_sites (run_budgets x))"
    and rt: "runtime_budget_ok y" and own: "site_budget_ok y sid s" "\<forall>p\<in>#parses_of sid (run_parses y). 0 < snd p"
    and other: "\<And>i. i \<noteq> sid \<Longrightarrow> count (run_streams y) i = count (run_streams x) i \<and> parses_of i (run_parses y) = parses_of i (run_parses x)"
  shows "budget_inv y"
  unfolding budget_inv_def
proof (intro conjI allI impI ballI)
  show "runtime_budget_ok y" by (rule rt)
next
  fix i t
  assume "mget (bd_sites (run_budgets y)) i = Some t"
  then show "site_budget_ok y i t"
  proof (cases "i = sid")
    case False
    assume "mget (bd_sites (run_budgets y)) i = Some t"
    then have "site_budget_ok x i t" using inv False by (simp add: sites budget_inv_def)
    then show ?thesis using other [OF False] by (simp add: site_budget_ok_def)
  qed (use own in \<open>simp add: sites\<close>)
next
  fix i
  assume "i \<in># run_streams y"
  then show "mget (bd_sites (run_budgets y)) i \<noteq> None"
    using inv other [of i] by (cases "i = sid") (auto simp: sites budget_inv_def simp flip: count_greater_zero_iff)
next
  fix p
  assume "p \<in># run_parses y"
  then have p: "p \<in># parses_of (fst p) (run_parses y)" by (simp add: in_parses_of [symmetric])
  have "mget (bd_sites (run_budgets y)) (fst p) \<noteq> None \<and> 0 < snd p"
  proof (cases "fst p = sid")
    case True
    then show ?thesis using p own(2) by (simp add: sites)
  next
    case False
    then have "p \<in># run_parses x" using p other by (simp add: in_parses_of [symmetric])
    then show ?thesis using inv by (simp add: sites budget_inv_def)
  qed
  then show "mget (bd_sites (run_budgets y)) (fst p) \<noteq> None" "0 < snd p" by auto
qed

lemma budget_inv_facts:
  assumes "budget_inv x"
  shows "runtime_budget_ok x" "mget (bd_sites (run_budgets x)) sid = Some s \<Longrightarrow> site_budget_ok x sid s"
    "\<forall>p\<in>#parses_of sid (run_parses x). 0 < snd p"
  using assms by (auto simp: budget_inv_def parses_of_def)

lemmas budget_defs = runtime_budget_ok_def site_budget_ok_def Let_def

lemma budget_inv_step: "budget_step x y \<Longrightarrow> budget_inv x \<Longrightarrow> budget_inv y"
proof (induction rule: budget_step.induct)
  case (NewSite x sid n)
  note f = budget_inv_facts [OF NewSite(2)]
  have "sid \<notin># run_streams x" using NewSite by (auto simp: budget_inv_def)
  moreover have "parses_of sid (run_parses x) = {#}" 
  proof (rule ccontr)
    assume "parses_of sid (run_parses x) \<noteq> {#}"
    then obtain p where "p \<in># parses_of sid (run_parses x)" by (rule multiset_nonemptyE)
    with NewSite show False by (auto simp: budget_inv_def parses_of_def)
  qed
  ultimately show ?case
    using f(1) by (intro budget_inv_update [OF NewSite(2), where sid = sid])
      (auto simp: budget_defs new_site_budget_def make_chan_def not_in_iff globalDynamicMaxSiteParseMemoryBytes_def)
next
  case (StreamBegins sid x b)
  note f = budget_inv_facts [OF StreamBegins(2)]
  from StreamBegins(1) show ?case
  proof (cases rule: acquireStream_Some)
    case (1 s g c)
    then show ?thesis
      using f(1,3) f(2) [OF 1(1)] chan_send_facts [OF 1(2)] chan_send_facts [OF 1(3)]
      by (intro budget_inv_update [OF StreamBegins(2), where sid = sid]) (auto simp: budget_defs)
  qed
next
  case (StreamEnds sid x b)
  note f = budget_inv_facts [OF StreamEnds(3)]
  from StreamEnds(2) show ?case
  proof (cases rule: releaseStream_Some)
    case (1 s g c)
    then show ?thesis
      using f(1,3) f(2) [OF 1(1)] chan_recv_facts [OF 1(2)] chan_recv_facts [OF 1(3)] size_Diff_singleton [OF StreamEnds(1)]
      by (intro budget_inv_update [OF StreamEnds(3), where sid = sid]) (auto simp: budget_defs)
  qed
next
  case (ParseBegins sid n x b)
  note f = budget_inv_facts [OF ParseBegins(2)]
  from ParseBegins(1) show ?case
  proof (cases rule: acquireParse_Some)
    case (1 s g c)
    then show ?thesis
      using f(1) f(2) [OF 1(1)] f(3) [of sid] chan_send_facts [OF 1(2)] chan_send_facts [OF 1(3)]
      by (intro budget_inv_update [OF ParseBegins(2), where sid = sid]) (auto simp: budget_defs)
  qed
next
  case (ParseEnds sid n x b)
  note f = budget_inv_facts [OF ParseEnds(3)]
  have m: "(sid, n) \<in># parses_of sid (run_parses x)" using ParseEnds(1) by (simp add: parses_of_def)
  then have n: "0 < n" using f(3) [of sid] by auto
  from ParseEnds(2) show ?case
  proof (cases rule: releaseParse_Some)
    case (1 s g c)
    then show ?thesis
      using n f(1) f(2) [OF 1(1)] f(3) [of sid] chan_recv_facts [OF 1(2)] chan_recv_facts [OF 1(3)]
        memory_of_remove [OF m] memory_of_remove [OF ParseEnds(1)] size_Diff_singleton [OF m] size_Diff_singleton [OF ParseEnds(1)]
      by (intro budget_inv_update [OF ParseEnds(3), where sid = sid])
        (auto simp: budget_defs parses_of_remove dest: in_diffD)
  qed
qed

lemma budget_reachable_inv: "budget_reachable x \<Longrightarrow> budget_inv x"
proof (induction rule: budget_reachable.induct)
  case Start
  then show ?case
    by (simp add: budget_defs budget_inv_def new_runtime_budget_def make_chan_def globalDynamicMaxParseMemoryBytes_def)
next
  case (Next x y)
  then show ?case using budget_inv_step by blast
qed


lemma parse_release_enabled:
  assumes "budget_reachable x" "(sid, n) \<in># run_parses x"
  shows "releaseParse sid n (run_budgets x) \<noteq> None"
proof -
  note inv = budget_reachable_inv [OF assms(1)]
  obtain s where s: "mget (bd_sites (run_budgets x)) sid = Some s" using inv assms(2) by (force simp: budget_inv_def)
  have "(sid, n) \<in># parses_of sid (run_parses x)" using assms(2) by (simp add: parses_of_def)
  then have "0 < size (parses_of sid (run_parses x))" "0 < size (run_parses x)"
    using assms(2) by (auto simp: nonempty_has_size [symmetric])
  then have "0 < chan_held (bd_parses s)" "0 < chan_held (bd_parses (bd_runtime (run_budgets x)))"
    using budget_inv_facts(1,2) [OF inv] s by (auto simp: budget_defs)
  then show ?thesis using s by (simp add: releaseParse_def give_both_def chan_recv_def)
qed

lemma stream_release_enabled:
  assumes "budget_reachable x" "sid \<in># run_streams x"
  shows "releaseStream sid (run_budgets x) \<noteq> None"
proof -
  note inv = budget_reachable_inv [OF assms(1)]
  obtain s where s: "mget (bd_sites (run_budgets x)) sid = Some s" using inv assms(2) by (force simp: budget_inv_def)
  have "0 < count (run_streams x) sid" "0 < size (run_streams x)"
    using assms(2) by (auto simp: nonempty_has_size [symmetric])
  then have "0 < chan_held (bd_streams s)" "0 < chan_held (bd_streams (bd_runtime (run_budgets x)))"
    using budget_inv_facts(1,2) [OF inv] s by (auto simp: budget_defs)
  then show ?thesis using s by (simp add: releaseStream_def give_both_def chan_recv_def)
qed

section \<open>Paths that were learned\<close>

lemma oldest_path_in:
  assumes "m \<noteq> []" "[] \<notin> fst ` set m"
  shows "oldest_path m \<in> fst ` set m"
proof -
  let ?f = "\<lambda>(p, t) (q, e). if p = [] \<or> pathSeen e < t then (q, pathSeen e) else (p, t)"
  obtain q e r where m: "m = (q, e) # r" using assms(1) by (cases m) auto
  have "fst (foldl ?f (q, pathSeen e) r) \<in> fst ` set m"
    by (rule foldl_invariant [where P = "\<lambda>s. fst s \<in> fst ` set m"]) (force simp: m split: prod.splits)+
  then show ?thesis using assms(2) by (simp add: oldest_path_def m)
qed

definition learned_ok :: "(string, learned_path) gomap \<Rightarrow> bool" where
  "learned_ok m \<longleftrightarrow> mwf m \<and> [] \<notin> fst ` set m \<and> length m \<le> dynamicLearnedPlaybackPathLimit \<and>
     (\<forall>(p, e) \<in> set m. pathExpires e = pathSeen e + dynamicLearnedPlaybackPathTTL)"

lemma prune_learned_ok: "learned_ok m \<Longrightarrow> learned_ok (pruneLearnedPlaybackPaths now m)"
  by (auto simp: learned_ok_def pruneLearnedPlaybackPaths_def intro: le_trans [OF length_filter_le])

text \<open>A site never remembers more than 128 paths, and every one for fifteen minutes after it was last learned.\<close>

lemma learnPlaybackPath_ok:
  assumes "learned_ok m"
  shows "learned_ok (learnPlaybackPath clock raw now m)"
proof (cases "canonicalDynamicPlaybackPath raw = []")
  case False
  let ?p = "canonicalDynamicPlaybackPath raw" and ?now = "if now = 0 then clock else now"
  let ?m1 = "pruneLearnedPlaybackPaths ?now m"
  define m2 where "m2 = (if mget ?m1 ?p = None \<and> length ?m1 \<ge> dynamicLearnedPlaybackPathLimit
      then let old = oldest_path ?m1 in if old \<noteq> [] then mdel old ?m1 else ?m1 else ?m1)"
  have m1: "learned_ok ?m1" by (rule prune_learned_ok [OF assms])
  have m2: "mwf m2 \<and> [] \<notin> fst ` set m2 \<and> length m2 + (if mget m2 ?p = None then 1 else 0) \<le> dynamicLearnedPlaybackPathLimit \<and>
      (\<forall>(q, e) \<in> set m2. pathExpires e = pathSeen e + dynamicLearnedPlaybackPathTTL)"
  proof (cases "mget ?m1 ?p = None \<and> length ?m1 \<ge> dynamicLearnedPlaybackPathLimit")
    case True
    then have "?m1 \<noteq> []" by (auto simp: dynamicLearnedPlaybackPathLimit_def)
    then have o: "oldest_path ?m1 \<in> fst ` set ?m1" using m1 by (intro oldest_path_in) (auto simp: learned_ok_def)
    then have "oldest_path ?m1 \<noteq> []" using m1 unfolding learned_ok_def by metis
    then have e: "m2 = mdel (oldest_path ?m1) ?m1" using True by (simp add: m2_def)
    obtain v where "mget ?m1 (oldest_path ?m1) = Some v" using o by (cases "mget ?m1 (oldest_path ?m1)") (auto simp: mget_None_iff)
    then have "Suc (length m2) = length ?m1" unfolding e using m1 by (intro length_mdel_Some) (auto simp: learned_ok_def)
    moreover have "set m2 \<subseteq> set ?m1" unfolding e by (auto simp: AList.delete_eq)
    moreover have "mwf m2" unfolding e using m1 by (simp add: learned_ok_def)
    ultimately show ?thesis using m1 by (fastforce simp: learned_ok_def)
  next
    case False
    then have "m2 = ?m1" by (auto simp: m2_def)
    with False m1 show ?thesis by (auto simp: learned_ok_def)
  qed
  have e: "learnPlaybackPath clock raw now m = mput ?p \<lparr>pathSeen = ?now, pathExpires = ?now + dynamicLearnedPlaybackPathTTL\<rparr> m2"
    using False by (simp add: learnPlaybackPath_def m2_def Let_def)
  have "length (learnPlaybackPath clock raw now m) \<le> dynamicLearnedPlaybackPathLimit"
    unfolding e length_mput using m2 by (auto split: option.splits)
  moreover have "mwf (learnPlaybackPath clock raw now m)" unfolding e using m2 by simp
  moreover have "[] \<notin> fst ` set (learnPlaybackPath clock raw now m) \<and>
      (\<forall>(q, x) \<in> set (learnPlaybackPath clock raw now m). pathExpires x = pathSeen x + dynamicLearnedPlaybackPathTTL)"
  proof -
    have "q \<noteq> [] \<and> pathExpires x = pathSeen x + dynamicLearnedPlaybackPathTTL"
      if "(q, x) \<in> set (learnPlaybackPath clock raw now m)" for q x
      using in_mput [OF that [unfolded e]] m2 False by force
    then show ?thesis by force
  qed
  ultimately show ?thesis by (simp add: learned_ok_def)
qed (simp add: learnPlaybackPath_def assms)

lemma learned_then_known:
  assumes "learned_ok m" "canonicalDynamicPlaybackPath raw \<noteq> []" "now \<noteq> 0" "later \<noteq> 0" "now \<le> later"
  shows "snd (hasLearnedPlaybackPath clock raw later (learnPlaybackPath clock raw now m)) \<longleftrightarrow>
    later < now + dynamicLearnedPlaybackPathTTL"
proof -
  let ?m = "learnPlaybackPath clock raw now m" and ?p = "canonicalDynamicPlaybackPath raw"
  have "mwf ?m" using learnPlaybackPath_ok [OF assms(1)] by (simp add: learned_ok_def)
  moreover have "mget ?m ?p = Some \<lparr>pathSeen = now, pathExpires = now + dynamicLearnedPlaybackPathTTL\<rparr>"
    using assms(2,3) by (simp add: learnPlaybackPath_def Let_def)
  ultimately show ?thesis
    using assms by (auto simp: hasLearnedPlaybackPath_def pruneLearnedPlaybackPaths_def Let_def mget_filter [where P = "\<lambda>_ e. later < pathExpires e"])
qed

section \<open>Properties\<close>

text \<open>C37. However streams and parses of all sites begin and end, what is under way stays within the budgets: 1024
  streams and eight parses of 256 MiB in the process, the streams of its profile and two parses of 64 MiB for a
  site; the memory reported as available is what the parses under way have left, and ending one of them never
  blocks.\<close>

theorem dynamic_budgets_hold:
  assumes "budget_reachable x" "mget (bd_sites (run_budgets x)) sid = Some s"
  shows "size (run_streams x) \<le> globalDynamicMaxStreams \<and> count (run_streams x) sid \<le> chan_cap (bd_streams s) \<and>
    size (run_parses x) \<le> globalDynamicMaxConcurrentParses \<and>
    size (parses_of sid (run_parses x)) \<le> globalDynamicMaxSiteConcurrentParses \<and>
    availableParseMemory sid (run_budgets x) =
      min (globalDynamicMaxSiteParseMemoryBytes - memory_of (parses_of sid (run_parses x)))
        (globalDynamicMaxParseMemoryBytes - memory_of (run_parses x)) \<and>
    0 \<le> availableParseMemory sid (run_budgets x) \<and>
    ((sid, n) \<in># run_parses x \<longrightarrow> releaseParse sid n (run_budgets x) \<noteq> None) \<and>
    (sid \<in># run_streams x \<longrightarrow> releaseStream sid (run_budgets x) \<noteq> None)"
  using budget_inv_facts(1) [OF budget_reachable_inv [OF assms(1)]]
    budget_inv_facts(2) [OF budget_reachable_inv [OF assms(1)] assms(2)] assms
    parse_release_enabled [OF assms(1)] stream_release_enabled [OF assms(1)]
  by (auto simp: budget_defs availableParseMemory_def)

section \<open>On concrete input\<close>

definition demo_budgets :: budgets where
  "demo_budgets = the (acquireParse 0 5 (the (acquireStream 0 (new_site_budget 0 1 new_runtime_budget))))"

definition demo_budget_run :: budget_run where
  "demo_budget_run = \<lparr>run_budgets = demo_budgets, run_streams = {#0#}, run_parses = {#(0, 5)#}\<rparr>"

lemma demo_acquired:
  "acquireStream 0 (new_site_budget 0 1 new_runtime_budget) \<noteq> None"
  "acquireParse 0 5 (the (acquireStream 0 (new_site_budget 0 1 new_runtime_budget))) \<noteq> None"
  "mget (bd_sites demo_budgets) 0 \<noteq> None"
  by (simp_all add: demo_budgets_def acquireStream_def acquireParse_def new_site_budget_def new_runtime_budget_def take_both_def
      chan_send_def make_chan_def globalDynamicMaxStreams_def globalDynamicMaxConcurrentParses_def
      globalDynamicMaxSiteConcurrentParses_def globalDynamicMaxParseMemoryBytes_def globalDynamicMaxSiteParseMemoryBytes_def)

lemma demo_budget_reachable: "budget_reachable demo_budget_run"
proof -
  let ?x = "\<lparr>run_budgets = new_runtime_budget, run_streams = {#}, run_parses = {#}\<rparr>"
  let ?y = "?x\<lparr>run_budgets := new_site_budget 0 1 (run_budgets ?x)\<rparr>"
  have y: "budget_reachable ?y"
    by (rule budget_reachable.Next [OF budget_reachable.Start budget_step.NewSite]) (simp add: new_runtime_budget_def)
  obtain b where b: "acquireStream 0 (run_budgets ?y) = Some b" using demo_acquired(1) by auto
  let ?z = "?y\<lparr>run_budgets := b, run_streams := add_mset 0 (run_streams ?y)\<rparr>"
  have z: "budget_reachable ?z" by (rule budget_reachable.Next [OF y budget_step.StreamBegins [OF b]])
  obtain c where c: "acquireParse 0 5 (run_budgets ?z) = Some c" using demo_acquired(2) b by auto
  have "budget_reachable (?z\<lparr>run_budgets := c, run_parses := add_mset (0, 5) (run_parses ?z)\<rparr>)"
    by (rule budget_reachable.Next [OF z budget_step.ParseBegins [OF c]])
  moreover have "demo_budgets = c" using b c by (simp add: demo_budgets_def)
  ultimately show ?thesis by (simp add: demo_budget_run_def)
qed

theorem dynamic_budgets_hold_witness:
  "\<exists>s. mget (bd_sites demo_budgets) 0 = Some s \<and> 1 \<le> chan_cap (bd_streams s) \<and>
     availableParseMemory 0 demo_budgets = globalDynamicMaxSiteParseMemoryBytes - 5 \<and> releaseParse 0 5 demo_budgets \<noteq> None"
proof -
  obtain s where s: "mget (bd_sites (run_budgets demo_budget_run)) 0 = Some s"
    using demo_acquired(3) by (auto simp: demo_budget_run_def)
  from dynamic_budgets_hold [OF demo_budget_reachable s, of 5] s show ?thesis
    by (auto simp: demo_budget_run_def globalDynamicMaxParseMemoryBytes_def globalDynamicMaxSiteParseMemoryBytes_def)
qed

end
