(* ===== verification/Redirect_Headers.thy ===== *)
theory Redirect_Headers
  imports Client_Headers Dynamic_Runtime
begin

text \<open>
  Which responses count as redirects, what becomes of the method and the body, and which headers follow a redirect
  to another authority: the allow-lists of \<open>cmd/meridian/redirect_transport.go\<close> and
  \<open>dynamic_capability_service.go\<close>, and \<open>stripSensitiveRedirectHeaders\<close> of
  \<open>proxy_authorization.go\<close>.
\<close>

section \<open>Statuses\<close>

definition dynamicHandledRedirectStatus :: "nat \<Rightarrow> string \<Rightarrow> bool" where
  "dynamicHandledRedirectStatus status profile \<longleftrightarrow>
     status \<in> {301, 302, 307, 308} \<or> status = 303 \<and> profile = ''extreme''"

definition dynamicRejectedRedirectStatus :: "nat \<Rightarrow> string \<Rightarrow> bool" where
  "dynamicRejectedRedirectStatus status profile \<longleftrightarrow>
     300 \<le> status \<and> status < 400 \<and> status \<noteq> 304 \<and> \<not> dynamicHandledRedirectStatus status profile"

definition manualHandledRedirectStatus :: "nat \<Rightarrow> bool" where
  "manualHandledRedirectStatus status \<longleftrightarrow> status \<in> {301, 302, 303, 307, 308}"

definition singleDynamicLocation :: "http_header \<Rightarrow> string option" where
  "singleDynamicLocation h =
     (case hdr_values h ''Location'' of
        [v] \<Rightarrow> if v = [] \<or> v \<noteq> trim_space v then None else Some v
      | _ \<Rightarrow> None)"

text \<open>The method of the next request, and whether its body is sent again.\<close>

definition extremeDynamicRedirectBehavior :: "nat \<Rightarrow> string \<Rightarrow> string \<times> bool" where
  "extremeDynamicRedirectBehavior status meth =
     (if status = 303 then (if meth = ''HEAD'' then ''HEAD'' else ''GET'', False)
      else if status = 301 \<or> status = 302 then
        (if meth = ''POST'' then (''GET'', False)
         else if meth = ''GET'' \<or> meth = ''HEAD'' then (meth, False)
         else (meth, True))
      else if status = 307 \<or> status = 308 then (meth, True)
      else (meth, False))"

section \<open>Headers\<close>

definition del_all :: "string list \<Rightarrow> http_header \<Rightarrow> http_header" where
  "del_all names h = foldl (\<lambda>h n. hdr_del n h) h names"

definition extreme_body_headers :: "string list" where
  "extreme_body_headers =
     [''Content-Disposition'', ''Content-Encoding'', ''Content-Language'', ''Content-Length'', ''Content-Location'',
      ''Content-MD5'', ''Content-Range'', ''Content-Type'', ''Digest'', ''Expect'', ''Trailer'', ''Transfer-Encoding'']"

definition stripExtremeDynamicRedirectBodyHeaders :: "http_header \<Rightarrow> http_header" where
  "stripExtremeDynamicRedirectBodyHeaders h = del_all extreme_body_headers h"

text \<open>The copy loop the allow-lists share.\<close>

definition copy_headers :: "string list \<Rightarrow> http_header \<Rightarrow> http_header \<Rightarrow> http_header" where
  "copy_headers names source dest =
     foldl (\<lambda>h n. if hdr_values source n \<noteq> [] then mput (CanonicalHeaderKey n) (hdr_values source n) h else h) dest names"

text \<open>The values up to the first one that may still carry a token; the flag is that there is none.\<close>

fun strip_values :: "string list \<Rightarrow> string list \<times> bool" where
  "strip_values [] = ([], True)"
| "strip_values (v # vs) =
     (case stripEmbyAuthorizationToken v of
        (stripped, safe) \<Rightarrow>
          if safe then (case strip_values vs of (rest, ok) \<Rightarrow> (stripped # rest, ok)) else (v # vs, False))"

definition sensitive_headers :: "string list" where
  "sensitive_headers = [''Cookie'', ''Authorization'', ''Proxy-Authorization'', ''X-Emby-Token'', ''X-MediaBrowser-Token'']"

definition stripSensitiveRedirectHeaders :: "http_header \<Rightarrow> http_header" where
  "stripSensitiveRedirectHeaders h0 =
     (let h1 = del_all sensitive_headers h0
      in foldl (\<lambda>h (name, values).
            if mget h name = None \<or> \<not> equal_fold name ''X-Emby-Authorization'' then h
            else let (vs, safe) = strip_values values; h' = mput name vs h in if safe then h' else hdr_del name h')
          h1 h1)"

definition cross_authority_allowed :: "string list" where
  "cross_authority_allowed =
     [''Accept'', ''Accept-Encoding'', ''Cache-Control'', ''If-Modified-Since'', ''If-None-Match'', ''If-Range'', ''Pragma'',
      ''Range'', ''User-Agent'']"

definition crossAuthorityHeaders :: "http_header \<Rightarrow> string list \<Rightarrow> http_header" where
  "crossAuthorityHeaders source additionalAllowed =
     stripSensitiveRedirectHeaders (copy_headers (cross_authority_allowed @ additionalAllowed) source [])"

definition crossAuthorityRedirectHeaders :: "http_header \<Rightarrow> http_header" where
  "crossAuthorityRedirectHeaders source = crossAuthorityHeaders source []"

definition client_ip_headers :: "string \<Rightarrow> string list" where
  "client_ip_headers mode =
     (if mode = ''both'' then [''X-Real-IP'', ''X-Forwarded-For'']
      else if mode = ''real_ip'' then [''X-Real-IP''] else [])"

definition copyNormalizedClientIPHeaders :: "http_header \<Rightarrow> http_header \<Rightarrow> string \<Rightarrow> http_header" where
  "copyNormalizedClientIPHeaders dest source mode = copy_headers (client_ip_headers mode) source dest"

definition crossAuthorityRedirectHeadersWithClientIPMode :: "http_header \<Rightarrow> string \<Rightarrow> http_header" where
  "crossAuthorityRedirectHeadersWithClientIPMode source mode =
     copyNormalizedClientIPHeaders (crossAuthorityRedirectHeaders source) source mode"

definition dynamicReplayBodyHeaderNames :: "string list" where
  "dynamicReplayBodyHeaderNames = [''Content-Encoding'', ''Content-Language'', ''Content-MD5'', ''Content-Type'', ''Digest'']"

definition copyDynamicReplayBodyHeaders :: "http_header \<Rightarrow> http_header \<Rightarrow> http_header" where
  "copyDynamicReplayBodyHeaders dest source = copy_headers dynamicReplayBodyHeaderNames source dest"

definition crossAuthorityRedirectBodyHeaders :: "http_header \<Rightarrow> http_header" where
  "crossAuthorityRedirectBodyHeaders source = copyDynamicReplayBodyHeaders (crossAuthorityRedirectHeaders source) source"

definition crossAuthorityRedirectBodyHeadersWithClientIPMode :: "http_header \<Rightarrow> string \<Rightarrow> http_header" where
  "crossAuthorityRedirectBodyHeadersWithClientIPMode source mode =
     copyNormalizedClientIPHeaders (crossAuthorityRedirectBodyHeaders source) source mode"

definition dynamic_redirect_allowed :: "string list" where
  "dynamic_redirect_allowed = [''Accept'', ''Accept-Encoding'', ''Range'', ''If-Range'']"

definition dynamicRedirectHeaders :: "http_header \<Rightarrow> http_header" where
  "dynamicRedirectHeaders source =
     (let h = copy_headers dynamic_redirect_allowed source [];
          userAgent = trim_space (hdr_get source ''User-Agent'')
      in if userAgent \<noteq> [] then hdr_set ''User-Agent'' userAgent h
         else hdr_set ''User-Agent'' ''Meridian-Redirect/1.0'' h)"

definition dynamicRedirectBodyHeaders :: "http_header \<Rightarrow> http_header" where
  "dynamicRedirectBodyHeaders source = copyDynamicReplayBodyHeaders (dynamicRedirectHeaders source) source"

definition websocket_allowed :: "string list" where
  "websocket_allowed =
     [''Origin'', ''Sec-WebSocket-Extensions'', ''Sec-WebSocket-Key'', ''Sec-WebSocket-Protocol'', ''Sec-WebSocket-Version'']"

definition crossAuthorityWebSocketHeaders :: "http_header \<Rightarrow> http_header" where
  "crossAuthorityWebSocketHeaders source =
     hdr_set ''Upgrade'' ''websocket'' (hdr_set ''Connection'' ''Upgrade'' (crossAuthorityHeaders source websocket_allowed))"

definition crossAuthorityWebSocketHeadersWithClientIPMode :: "http_header \<Rightarrow> string \<Rightarrow> http_header" where
  "crossAuthorityWebSocketHeadersWithClientIPMode source mode =
     copyNormalizedClientIPHeaders (crossAuthorityWebSocketHeaders source) source mode"

section \<open>Their keys\<close>

definition keys_in :: "http_header \<Rightarrow> string list \<Rightarrow> bool" where
  "keys_in h names \<longleftrightarrow> (\<forall>k. mget h k \<noteq> None \<longrightarrow> k \<in> set (map CanonicalHeaderKey names))"

named_theorems header_keys

lemma keys_in_empty [header_keys]: "keys_in [] names"
  by (simp add: keys_in_def)

lemma keys_in_mono: "keys_in h a \<Longrightarrow> set a \<subseteq> set b \<Longrightarrow> keys_in h b"
  by (auto simp: keys_in_def)

lemma copy_headers_Cons: "copy_headers (n # ns) source dest =
    copy_headers ns source (if hdr_values source n \<noteq> [] then mput (CanonicalHeaderKey n) (hdr_values source n) dest else dest)"
  by (simp add: copy_headers_def)

lemma copy_headers_get:
  "mget (copy_headers names source dest) k =
     (if k \<in> set (map CanonicalHeaderKey names) \<and> mget_or [] source k \<noteq> [] then Some (mget_or [] source k) else mget dest k)"
proof (induction names arbitrary: dest)
  case Nil
  then show ?case by (simp add: copy_headers_def)
next
  case (Cons n ns)
  show ?case unfolding copy_headers_Cons Cons.IH by (auto simp: hdr_values_def)
qed

lemma copy_headers_keys [header_keys]: "keys_in dest names' \<Longrightarrow> keys_in (copy_headers names source dest) (names @ names')"
  by (auto simp: keys_in_def copy_headers_get split: if_splits)

lemma del_all_get: "mget (del_all names h) k = (if k \<in> set (map CanonicalHeaderKey names) then None else mget h k)"
  by (induction names arbitrary: h) (auto simp: del_all_def)

lemma del_all_keys [header_keys]: "keys_in h names \<Longrightarrow> keys_in (del_all ds h) names"
  by (auto simp: keys_in_def del_all_get)

lemma hdr_set_keys [header_keys]: "keys_in h names \<Longrightarrow> n \<in> set names \<Longrightarrow> keys_in (hdr_set n v h) names"
  by (auto simp: keys_in_def)

lemma hdr_del_keys [header_keys]: "keys_in h names \<Longrightarrow> keys_in (hdr_del n h) names"
  by (auto simp: keys_in_def)

lemma mput_same_keys: "keys_in h names \<Longrightarrow> mget h n \<noteq> None \<Longrightarrow> keys_in (mput n v h) names"
  by (auto simp: keys_in_def)

lemma stripSensitive_keys [header_keys]:
  assumes "keys_in h names" shows "keys_in (stripSensitiveRedirectHeaders h) names"
proof -
  have "keys_in (foldl (\<lambda>h (name, values).
            if mget h name = None \<or> \<not> equal_fold name ''X-Emby-Authorization'' then h
            else let (vs, safe) = strip_values values; h' = mput name vs h in if safe then h' else hdr_del name h') g xs) names"
    if "keys_in g names" for g xs
    using that
  proof (induction xs arbitrary: g)
    case (Cons x xs)
    obtain name vals where x: "x = (name, vals)" by fastforce
    obtain vs safe where s: "strip_values vals = (vs, safe)" by fastforce
    show ?case
      by (simp add: x s Let_def, intro conjI impI Cons.IH hdr_del_keys mput_same_keys) (use Cons.prems in auto)
  qed simp
  from this [OF del_all_keys [OF assms]] show ?thesis by (simp add: stripSensitiveRedirectHeaders_def Let_def)
qed

end
