(* ===== verification/Url_Reference.thy ===== *)
theory Url_Reference
  imports Url
begin

text \<open>
  \<open>ResolveReference\<close> of \<open>net/url\<close>: how the value of a \<open>Location\<close> header becomes an absolute URL.
\<close>

section \<open>Paths\<close>

text \<open>The loop over the segments. The text written so far has a slash before it that is not stored.\<close>

fun resolve_segments :: "string list \<Rightarrow> string \<Rightarrow> bool \<Rightarrow> string" where
  "resolve_segments [] dst first = dst"
| "resolve_segments (e # es) dst first =
     (if e = ''.'' then resolve_segments es (if es = [] then dst @ ''/'' else dst) False
      else if e = ''..'' then
        (let cut_dst = (if CHR ''/'' \<in> set dst then rev (tl (dropWhile (\<lambda>c. c \<noteq> CHR ''/'') (rev dst))) else []);
             first' = (if CHR ''/'' \<in> set dst then first else True)
         in resolve_segments es (if es = [] then cut_dst @ ''/'' else cut_dst) first')
      else resolve_segments es ((if first then dst else dst @ ''/'') @ e) False)"

definition resolve_path :: "string \<Rightarrow> string \<Rightarrow> string" where
  "resolve_path base ref =
     (let full = (if ref = [] then base
                  else if hd ref \<noteq> CHR ''/''
                  then (if CHR ''/'' \<in> set base then rev (dropWhile (\<lambda>c. c \<noteq> CHR ''/'') (rev base)) else []) @ ref
                  else ref)
      in if full = [] then []
         else let r = CHR ''/'' # resolve_segments (split_on CHR ''/'' full) [] True
              in if length r > 1 \<and> r ! 1 = CHR ''/'' then tl r else r)"

definition set_path :: "string \<Rightarrow> url \<Rightarrow> url" where
  "set_path p u =
     (case path_unescape p of
        None \<Rightarrow> u
      | Some q \<Rightarrow> u\<lparr>path := q, raw_path := (if p = url_escape EncodePath q then [] else p)\<rparr>)"

section \<open>References\<close>

definition resolve_reference :: "url \<Rightarrow> url \<Rightarrow> url" where
  "resolve_reference u ref =
     (let r = (if scheme ref = [] then ref\<lparr>scheme := scheme u\<rparr> else ref)
      in if scheme ref \<noteq> [] \<or> host ref \<noteq> [] \<or> user ref \<noteq> None
         then set_path (resolve_path (url_escaped_path ref) []) r
         else if opaque ref \<noteq> [] then r\<lparr>user := None, host := [], path := []\<rparr>
         else
           let r' = (if path ref = [] \<and> \<not> force_query ref \<and> raw_query ref = []
                     then (let q = r\<lparr>raw_query := raw_query u\<rparr>
                           in if fragment ref = [] then q\<lparr>fragment := fragment u, raw_fragment := raw_fragment u\<rparr> else q)
                     else r)
           in if path ref = [] \<and> opaque u \<noteq> [] then r'\<lparr>opaque := opaque u, user := None, host := [], path := []\<rparr>
              else set_path (resolve_path (url_escaped_path u) (url_escaped_path ref)) (r'\<lparr>host := host u, user := user u\<rparr>))"

section \<open>What a reference keeps\<close>

lemma set_path_fields [simp]:
  "scheme (set_path p u) = scheme u" "host (set_path p u) = host u" "user (set_path p u) = user u"
  "opaque (set_path p u) = opaque u" "raw_query (set_path p u) = raw_query u" "fragment (set_path p u) = fragment u"
  by (simp_all add: set_path_def split: option.split)

lemma url_authority_cong: "host a = host b \<Longrightarrow> scheme a = scheme b \<Longrightarrow> redirectHostKey a = redirectHostKey b"
  by (simp add: redirectHostKey_def url_hostname_def url_port_def Let_def)

text \<open>A reference without a scheme, a host and user information stays on the authority it is resolved against.\<close>

lemma relative_reference_same_authority:
  assumes "scheme ref = []" "host ref = []" "user ref = None" "opaque ref = []" "path ref \<noteq> [] \<or> opaque u = []"
  shows "sameRedirectAuthority u (resolve_reference u ref) \<and> user (resolve_reference u ref) = user u"
  using assms unfolding sameRedirectAuthority_def
  by (auto simp: resolve_reference_def Let_def intro!: url_authority_cong)

text \<open>The examples of RFC 3986: a reference cannot climb above the root.\<close>

lemma resolve_path_examples:
  "resolve_path ''/a/b/c'' ''../d'' = ''/a/d''" "resolve_path ''/a/b'' ''../../../x'' = ''/x''"
  "resolve_path ''/a/b/'' ''.'' = ''/a/b/''" "resolve_path ''/a'' ''//b'' = ''//b''" "resolve_path [] ''..'' = ''/''"
  by code_simp+

end
