(* ===== verification/Dynamic_Issuer.thy ===== *)
theory Dynamic_Issuer
  imports Dynamic_Runtime Dynamic_Capability
begin

text \<open>
  \<open>cmd/meridian/dynamic_capability_issuer.go\<close>: a capability is minted for a URL that a document or a
  redirect names, after its target satisfied the policy, its authority was reserved and it resolved to
  addresses that are allowed; the same request is answered with the same capability while that lives. What a
  call meets (the clock, the outcome of the lookup, the local interfaces, the nonce) is an argument.
\<close>

section \<open>The issuer\<close>

definition dynamicCanonicalAuthority :: "name_lib \<Rightarrow> url \<Rightarrow> string" where
  "dynamicCanonicalAuthority lib target =
     (let s = to_lower (scheme target)
      in if s \<noteq> ''http'' \<and> s \<noteq> ''https'' then []
         else case normalizeDynamicHost lib (url_hostname target) of
           Inl _ \<Rightarrow> []
         | Inr (h, _) \<Rightarrow>
             (case dynamicEffectivePort target of
                None \<Rightarrow> []
              | Some port \<Rightarrow> s @ ''://'' @ join_host_port h port))"

text \<open>The libraries, which do not change while a site runs.\<close>

record dyn_lib =
  dl_names :: name_lib
  dl_parse :: url_parser
  dl_claims :: cap_lib
  dl_sha :: "string \<Rightarrow> string"

record issuer =
  is_key :: string
  is_site :: int
  is_state :: nat                                  \<comment> \<open>the site's state in the cache\<close>
  is_revision :: int
  is_policy :: redirect_policy
  is_authorities :: "string list"                  \<comment> \<open>\<open>configuredAuthorities\<close>\<close>
  is_primary :: string
  is_transport :: bool                             \<comment> \<open>\<open>configuredTransport\<close> is set\<close>
  is_upstream :: upstream_policy
  is_prefix :: string
  is_database :: bool                              \<comment> \<open>\<open>database\<close> is set\<close>
  is_self :: "self_policy option"

record observation =
  ob_authority :: string
  ob_source :: string
  ob_kind :: string
  ob_decision :: string
  ob_reason :: string
  ob_status :: nat

record dyn_world =
  dw_caps :: cap_state
  dw_seen :: "observation list"

definition clientRoute :: "issuer \<Rightarrow> string \<Rightarrow> string" where
  "clientRoute i route = addIngressPathPrefix route (is_prefix i)"

definition capabilityToken :: "issuer \<Rightarrow> string \<Rightarrow> string" where
  "capabilityToken i route = trim_prefix (trim_prefix route (is_prefix i)) dynamicRoutePrefix"

definition observe :: "issuer \<Rightarrow> string \<Rightarrow> string \<Rightarrow> string \<Rightarrow> string \<Rightarrow> dyn_world \<Rightarrow> dyn_world" where
  "observe i source decision reasonCode authority w =
     (if \<not> is_database i \<or> authority = [] then w
      else
        let p = is_primary i;
            kind = (if authority = p \<or> trim_suffix authority '':443'' = trim_suffix p '':443'' \<or>
                       trim_suffix authority '':80'' = trim_suffix p '':80'' then ''same_authority''
                    else if authority \<in> set (is_authorities i) then ''configured'' else ''discovered'')
        in w\<lparr>dw_seen := dw_seen w @ [\<lparr>ob_authority = authority, ob_source = source, ob_kind = kind,
              ob_decision = decision, ob_reason = reasonCode, ob_status = 0\<rparr>]\<rparr>)"

section \<open>Cache keys\<close>

definition nul :: string where
  "nul = [CHR 0x00]"

definition unit_sep :: char where
  "unit_sep = CHR 0x1F"

definition dynamicCapabilityRequiredHeadersCacheKey :: "header_claim list option \<Rightarrow> string" where
  "dynamicCapabilityRequiredHeadersCacheKey headers =
     (case headers of
        None \<Rightarrow> []
      | Some [] \<Rightarrow> []
      | Some cs \<Rightarrow> nul @ ''required-headers'' @ concat (map (\<lambda>(n, v). nul @ n @ [unit_sep] @ v) cs))"

definition dynamicCapabilityCacheKey ::
    "string \<Rightarrow> string \<Rightarrow> nat \<Rightarrow> string \<Rightarrow> string \<Rightarrow> string list \<Rightarrow> string list \<Rightarrow> string" where
  "dynamicCapabilityCacheKey source kind depth previousScheme claimTarget template templateFixed =
     ''dynamic'' @ nul @ source @ nul @ kind @ nul @ itoa depth @ nul @ previousScheme @ nul @ claimTarget @ nul @
     join_with unit_sep template @ nul @ join_with unit_sep templateFixed"

definition dynamicCapabilityCacheKeyWithRequiredHeaders ::
    "string \<Rightarrow> string \<Rightarrow> nat \<Rightarrow> string \<Rightarrow> string \<Rightarrow> string list \<Rightarrow> string list \<Rightarrow> header_claim list option \<Rightarrow> string" where
  "dynamicCapabilityCacheKeyWithRequiredHeaders source kind depth previousScheme claimTarget template templateFixed headers =
     dynamicCapabilityCacheKey source kind depth previousScheme claimTarget template templateFixed @
     dynamicCapabilityRequiredHeadersCacheKey headers"

definition trustedCapabilityCacheKey :: "string \<Rightarrow> string \<Rightarrow> nat \<Rightarrow> string \<Rightarrow> string list \<Rightarrow> string list \<Rightarrow> string" where
  "trustedCapabilityCacheKey source kind depth claimTarget template templateFixed =
     ''trusted'' @ nul @ source @ nul @ kind @ nul @ itoa depth @ nul @ claimTarget @ nul @
     join_with unit_sep template @ nul @ join_with unit_sep templateFixed"

definition trustedCapabilityCacheKeyWithRequiredHeaders ::
    "string \<Rightarrow> string \<Rightarrow> nat \<Rightarrow> string \<Rightarrow> string list \<Rightarrow> string list \<Rightarrow> header_claim list option \<Rightarrow> string" where
  "trustedCapabilityCacheKeyWithRequiredHeaders source kind depth claimTarget template templateFixed headers =
     trustedCapabilityCacheKey source kind depth claimTarget template templateFixed @
     dynamicCapabilityRequiredHeadersCacheKey headers"

section \<open>Minting\<close>

text \<open>Seconds since 1970, of a time and back.\<close>

definition unix_seconds :: "time \<Rightarrow> int" where
  "unix_seconds t = t div second - 62135596800"

definition from_unix :: "int \<Rightarrow> time" where
  "from_unix u = (u + 62135596800) * second"

record mint_env =
  me_reserved :: time                              \<comment> \<open>the clock at \<open>reserveAuthority\<close>\<close>
  me_outcome :: "(string + addr list) option"      \<comment> \<open>the lookup the reservation shares\<close>
  me_ifaces1 :: "iface list option"
  me_ifaces2 :: "iface list option"
  me_now :: time
  me_reused :: time
  me_nonce :: string
  me_settled :: time

datatype minted = Minted string bool | MintDenied string | MintPanic

definition reason_text :: "reason \<Rightarrow> string" where
  "reason_text r = (case r of RuntimeUnavailable \<Rightarrow> ''runtime_unavailable'' | CapacityLimit \<Rightarrow> ''capacity_limit'' | RateLimit \<Rightarrow> ''rate_limit'')"

definition put_auth :: "auth_state \<Rightarrow> dyn_world \<Rightarrow> dyn_world" where
  "put_auth a w = w\<lparr>dw_caps := (dw_caps w)\<lparr>auth := a\<rparr>\<rparr>"

definition world_rollback :: "nat \<Rightarrow> dyn_world \<Rightarrow> dyn_world" where
  "world_rollback rid w = put_auth (rollback rid (auth (dw_caps w))) w"

text \<open>The end of a mint, once the target is allowed: a capability is used again, or sealed and registered.\<close>

definition issue_capability ::
    "dyn_lib \<Rightarrow> issuer \<Rightarrow> mint_env \<Rightarrow> nat \<Rightarrow> string \<Rightarrow> string \<Rightarrow> string \<Rightarrow> cap_claims \<Rightarrow> dyn_world \<Rightarrow> dyn_world \<times> minted" where
  "issue_capability L i env rid source authority ck claims w0 =
     (let (caps, reused) = reuseCapability (dl_sha L) (is_state i) ck (me_reused env) (dw_caps w0);
          w = w0\<lparr>dw_caps := caps\<rparr>
      in case reused of
           Some tok \<Rightarrow>
             (observe i source ''allowed'' ''candidate_allowed'' authority (world_rollback rid w),
              Minted (clientRoute i (dynamicRoutePrefix @ tok)) True)
         | None \<Rightarrow>
             (case sealDynamicCapability (dl_names L) (dl_parse L) (dl_claims L) (me_nonce env) (is_key i) claims of
                None \<Rightarrow> (observe i source ''denied'' ''response_failure'' authority (world_rollback rid w), MintDenied ''response_failure'')
              | Some tok \<Rightarrow>
                  (case registerCapability (dl_sha L) (is_state i) tok ck (from_unix (cl_expires claims)) (me_now env)
                      (Some rid) (dw_caps w) of
                     None \<Rightarrow> (w, MintPanic)
                   | Some (caps', None) \<Rightarrow>
                       (observe i source ''denied'' ''capacity_limit'' authority (world_rollback rid (w\<lparr>dw_caps := caps'\<rparr>)),
                        MintDenied ''capacity_limit'')
                   | Some (caps', Some tok2) \<Rightarrow>
                       let w' = w\<lparr>dw_caps := caps'\<rparr>;
                           w'' = (if tok2 \<noteq> tok then world_rollback rid w' else w')
                       in (observe i source ''allowed'' ''candidate_allowed'' authority w'',
                           Minted (clientRoute i (dynamicRoutePrefix @ tok2)) True))))"

definition dynamic_claims ::
    "issuer \<Rightarrow> mint_env \<Rightarrow> string \<Rightarrow> string \<Rightarrow> string \<Rightarrow> string list \<Rightarrow> string list \<Rightarrow> header_claim list option \<Rightarrow> string \<Rightarrow> nat \<Rightarrow>
     bool \<Rightarrow> cap_claims" where
  "dynamic_claims i env source previousScheme claimTarget template templateFixed headers kind depth trusted =
     \<lparr>cl_version = 1, cl_site = is_site i, cl_revision = is_revision i, cl_source = source, cl_target = claimTarget,
      cl_kind = kind, cl_depth = int depth, cl_trusted = trusted, cl_previous_scheme = previousScheme,
      cl_issued = unix_seconds (me_now env),
      cl_expires = unix_seconds (me_now env) + AbsoluteLifetimeSeconds (rp_limits (is_policy i)),
      cl_template = template, cl_template_fixed = templateFixed, cl_required = headers\<rparr>"

definition headers_refused :: "issuer \<Rightarrow> header_claim list option \<Rightarrow> bool" where
  "headers_refused i headers \<longleftrightarrow>
     \<not> validateDynamicCapabilityRequiredHeaderClaims headers \<or>
     headers \<noteq> None \<and> (rp_profile (is_policy i) \<noteq> ''extreme'' \<or>
       dynamicRequiredHeadersConflictWithFixedPolicy headers (is_upstream i))"

definition mintValidatedResourceWithRequiredHeadersTracked ::
    "dyn_lib \<Rightarrow> issuer \<Rightarrow> mint_env \<Rightarrow> url option \<Rightarrow> url \<Rightarrow> string \<Rightarrow> string \<Rightarrow> string list \<Rightarrow> string list \<Rightarrow> header_claim list option \<Rightarrow>
     string \<Rightarrow> nat \<Rightarrow> dyn_world \<Rightarrow> dyn_world \<times> minted" where
  "mintValidatedResourceWithRequiredHeadersTracked L i env previous target source claimTarget template templateFixed headers kind depth w =
     (if \<not> rp_available (is_policy i) \<or> \<not> sourceEnabled (is_policy i) source \<or> length (is_key i) \<noteq> 32
      then (w, MintDenied ''runtime_unavailable'')
      else if \<not> validDynamicCapabilityResource source kind (int depth) then (w, MintDenied ''invalid_location'')
      else if headers_refused i headers then (w, MintDenied ''invalid_location'')
      else
        let authority = dynamicCanonicalAuthority (dl_names L) target
        in if authority = [] \<or> claimTarget = [] \<or> int (length claimTarget) > maxDynamicTargetURLBytes
           then (w, MintDenied ''invalid_location'')
           else
             let refused = validateTarget (dl_names L) (is_policy i) previous target (is_self i) (me_ifaces1 env)
             in if refused \<noteq> [] then (observe i source ''denied'' refused authority w, MintDenied refused)
                else case reserveAuthority (is_state i) authority (me_reserved env) (auth (dw_caps w)) of
                  (a, NilMapWrite) \<Rightarrow> (put_auth a w, MintPanic)
                | (a, Denied r) \<Rightarrow>
                    (observe i source ''denied'' (reason_text r) authority (put_auth a w), MintDenied (reason_text r))
                | (a, Reserved rid) \<Rightarrow>
                    (case reservation_resolve (me_outcome env) (is_self i) (me_ifaces2 env) of
                       Inl r \<Rightarrow> (observe i source ''denied'' r authority (world_rollback rid (put_auth a w)), MintDenied r)
                     | Inr _ \<Rightarrow>
                         let previousScheme =
                               (case previous of
                                  None \<Rightarrow> []
                                | Some p \<Rightarrow> if equal_fold (scheme p) ''http'' \<or> equal_fold (scheme p) ''https'' then to_lower (scheme p) else [])
                         in issue_capability L i env rid source authority
                              (dynamicCapabilityCacheKeyWithRequiredHeaders source kind depth previousScheme claimTarget template
                                 templateFixed headers)
                              (dynamic_claims i env source previousScheme claimTarget template templateFixed headers kind depth False)
                              (put_auth a w)))"

definition mintValidatedResourceTracked ::
    "dyn_lib \<Rightarrow> issuer \<Rightarrow> mint_env \<Rightarrow> url option \<Rightarrow> url \<Rightarrow> string \<Rightarrow> string \<Rightarrow> string list \<Rightarrow> string list \<Rightarrow> string \<Rightarrow> nat \<Rightarrow>
     dyn_world \<Rightarrow> dyn_world \<times> minted" where
  "mintValidatedResourceTracked L i env previous target source claimTarget template templateFixed kind depth w =
     mintValidatedResourceWithRequiredHeadersTracked L i env previous target source claimTarget template templateFixed None kind depth w"

definition mintValidatedDASHTemplateTracked ::
    "dyn_lib \<Rightarrow> issuer \<Rightarrow> mint_env \<Rightarrow> url option \<Rightarrow> url \<Rightarrow> string \<Rightarrow> string \<Rightarrow> string list \<Rightarrow> string list \<Rightarrow> dyn_world \<Rightarrow> dyn_world \<times> minted" where
  "mintValidatedDASHTemplateTracked L i env previous target source claimTarget template templateFixed w =
     mintValidatedResourceTracked L i env previous target source claimTarget template templateFixed ''resource'' 0 w"

definition mintValidatedTracked ::
    "dyn_lib \<Rightarrow> issuer \<Rightarrow> mint_env \<Rightarrow> url option \<Rightarrow> url \<Rightarrow> string \<Rightarrow> string \<Rightarrow> string list \<Rightarrow> dyn_world \<Rightarrow> dyn_world \<times> minted" where
  "mintValidatedTracked L i env previous target source claimTarget template w =
     mintValidatedResourceTracked L i env previous target source claimTarget template [] ''resource'' 0 w"

definition mintTracked ::
    "dyn_lib \<Rightarrow> issuer \<Rightarrow> mint_env \<Rightarrow> url option \<Rightarrow> url \<Rightarrow> string \<Rightarrow> dyn_world \<Rightarrow> dyn_world \<times> minted" where
  "mintTracked L i env previous target source w = mintValidatedTracked L i env previous target source (url_string target) [] w"

text \<open>A mint that is published at once.\<close>

definition publish_minted :: "dyn_lib \<Rightarrow> issuer \<Rightarrow> mint_env \<Rightarrow> dyn_world \<times> minted \<Rightarrow> dyn_world \<times> minted" where
  "publish_minted L i env r =
     (case r of
        (w, Minted route True) \<Rightarrow>
          (case settleCapabilities (dl_sha L) (is_state i) [capabilityToken i route] True (me_settled env) (dw_caps w) of
             (caps, ok) \<Rightarrow> (w\<lparr>dw_caps := caps\<rparr>, if ok then Minted route True else MintDenied ''capacity_limit''))
      | _ \<Rightarrow> r)"

definition mint :: "dyn_lib \<Rightarrow> issuer \<Rightarrow> mint_env \<Rightarrow> url option \<Rightarrow> url \<Rightarrow> string \<Rightarrow> dyn_world \<Rightarrow> dyn_world \<times> minted" where
  "mint L i env previous target source w = publish_minted L i env (mintTracked L i env previous target source w)"

definition mintValidated ::
    "dyn_lib \<Rightarrow> issuer \<Rightarrow> mint_env \<Rightarrow> url option \<Rightarrow> url \<Rightarrow> string \<Rightarrow> string \<Rightarrow> string list \<Rightarrow> dyn_world \<Rightarrow> dyn_world \<times> minted" where
  "mintValidated L i env previous target source claimTarget template w =
     publish_minted L i env (mintValidatedTracked L i env previous target source claimTarget template w)"

section \<open>Targets on configured authorities\<close>

definition mintTrustedValidatedWithRequiredHeadersTracked ::
    "dyn_lib \<Rightarrow> issuer \<Rightarrow> mint_env \<Rightarrow> url \<Rightarrow> string \<Rightarrow> string list \<Rightarrow> string list \<Rightarrow> header_claim list option \<Rightarrow> string \<Rightarrow> string \<Rightarrow> nat \<Rightarrow>
     dyn_world \<Rightarrow> dyn_world \<times> minted" where
  "mintTrustedValidatedWithRequiredHeadersTracked L i env target claimTarget template templateFixed headers source kind depth w =
     (if \<not> rp_available (is_policy i) \<or> \<not> sourceEnabled (is_policy i) source \<or> length (is_key i) \<noteq> 32 \<or> \<not> is_transport i \<or>
         \<not> validDynamicCapabilityResource source kind (int depth)
      then (w, MintDenied ''runtime_unavailable'')
      else if headers_refused i headers then (w, MintDenied ''invalid_location'')
      else
        let hasTemplate = (template \<noteq> [] \<or> templateFixed \<noteq> [])
        in case normalizeTrustedCapabilityURL (dl_names L) (dl_parse L) (url_string target) of
             None \<Rightarrow> (w, MintDenied ''invalid_location'')
           | Some normalized \<Rightarrow>
               if redirectHostKey normalized \<notin> set (is_authorities i) \<or> claimTarget = [] \<or>
                  int (length claimTarget) > maxDynamicTargetURLBytes \<or>
                  hasTemplate \<and> (source \<noteq> ''dash'' \<or> kind \<noteq> ''resource'' \<or> depth \<noteq> 0) \<or>
                  \<not> hasTemplate \<and> claimTarget \<noteq> url_string normalized
               then (w, MintDenied ''invalid_location'')
               else
                 let ck = trustedCapabilityCacheKeyWithRequiredHeaders source kind depth claimTarget template templateFixed headers;
                     (caps, reused) = reuseCapability (dl_sha L) (is_state i) ck (me_now env) (dw_caps w);
                     w1 = w\<lparr>dw_caps := caps\<rparr>;
                     claims = dynamic_claims i env source [] claimTarget template templateFixed headers kind depth True
                 in case reused of
                      Some tok \<Rightarrow> (w1, Minted (clientRoute i (dynamicRoutePrefix @ tok)) True)
                    | None \<Rightarrow>
                        (case sealDynamicCapability (dl_names L) (dl_parse L) (dl_claims L) (me_nonce env) (is_key i) claims of
                           None \<Rightarrow> (w1, MintDenied ''response_failure'')
                         | Some tok \<Rightarrow>
                             (case registerCapability (dl_sha L) (is_state i) tok ck (from_unix (cl_expires claims)) (me_now env)
                                 None (dw_caps w1) of
                                None \<Rightarrow> (w1, MintPanic)
                              | Some (caps', None) \<Rightarrow> (w1\<lparr>dw_caps := caps'\<rparr>, MintDenied ''capacity_limit'')
                              | Some (caps', Some tok2) \<Rightarrow>
                                  (w1\<lparr>dw_caps := caps'\<rparr>, Minted (clientRoute i (dynamicRoutePrefix @ tok2)) True))))"

definition mintTrustedValidatedTracked ::
    "dyn_lib \<Rightarrow> issuer \<Rightarrow> mint_env \<Rightarrow> url \<Rightarrow> string \<Rightarrow> string list \<Rightarrow> string list \<Rightarrow> string \<Rightarrow> string \<Rightarrow> nat \<Rightarrow> dyn_world \<Rightarrow> dyn_world \<times> minted" where
  "mintTrustedValidatedTracked L i env target claimTarget template templateFixed source kind depth w =
     mintTrustedValidatedWithRequiredHeadersTracked L i env target claimTarget template templateFixed None source kind depth w"

definition mintTrustedTracked ::
    "dyn_lib \<Rightarrow> issuer \<Rightarrow> mint_env \<Rightarrow> url \<Rightarrow> string \<Rightarrow> string \<Rightarrow> nat \<Rightarrow> dyn_world \<Rightarrow> dyn_world \<times> minted" where
  "mintTrustedTracked L i env target source kind depth w =
     mintTrustedValidatedTracked L i env target (url_string target) [] [] source kind depth w"

section \<open>A sealed capability\<close>

text \<open>What is relied on: AES-GCM opens what was sealed with the same key and nothing else, JSON reads back what it wrote.\<close>

definition cap_lib_ok :: "cap_lib \<Rightarrow> bool" where
  "cap_lib_ok clib \<longleftrightarrow>
     (\<forall>k k' n p. cap_open clib k' (cap_seal clib k n p) = (if k' = k then Some p else None)) \<and>
     (\<forall>k n p. cap_seal clib k n p \<noteq> []) \<and>
     (\<forall>c p. write_claims clib c = Some p \<longrightarrow> read_claims clib p = Some c)"

lemma sealed_opens:
  assumes "cap_lib_ok clib" "sealDynamicCapability lib parse clib nonce key c = Some tok"
  shows "openDynamicCapability lib parse clib key tok = Some c \<and>
    (key' = key \<or> openDynamicCapability lib parse clib key' tok = None)"
proof -
  obtain p where p: "length key = 32" "validateDynamicCapabilityRequiredHeaderBinding lib parse c" "write_claims clib c = Some p"
    "tok = cap_seal clib key nonce p" "length tok \<le> maxDynamicCapabilityBytes"
    using assms(2) by (auto simp: sealDynamicCapability_def Let_def split: if_splits option.splits)
  have r: "read_claims clib p = Some c" "tok \<noteq> []" using assms(1) p by (auto simp: cap_lib_ok_def)
  have o: "cap_open clib k tok = (if k = key then Some p else None)" for k using assms(1) p(4) by (simp add: cap_lib_ok_def)
  show ?thesis using p(1,2,3,5) r by (auto simp: openDynamicCapability_def o)
qed

section \<open>What a mint leaves in the cache\<close>

text \<open>An entry for the cache key that is being delivered.\<close>

definition pending_capability :: "(string \<Rightarrow> string) \<Rightarrow> nat \<Rightarrow> string \<Rightarrow> string \<Rightarrow> cap_state \<Rightarrow> bool" where
  "pending_capability sha sid tok ck st \<longleftrightarrow>
     (\<exists>s e. mget (cap_sites st) sid = Some s \<and> mget (capabilities s) (sha tok) = Some e \<and> token e = tok \<and> cacheKey e = ck \<and>
        0 < pendingUses e)"

lemma pending_put: "pendingUses e > 0 \<Longrightarrow> token e = tok \<Longrightarrow> cacheKey e = ck \<Longrightarrow>
    mget (capabilities s) (sha tok) = Some e \<Longrightarrow> pending_capability sha sid tok ck (put_site sid s st)"
  by (simp add: pending_capability_def put_site_def)

lemma pending_cong: "cap_sites st' = cap_sites st \<Longrightarrow> pending_capability sha sid tok ck st' = pending_capability sha sid tok ck st"
  by (simp add: pending_capability_def)

lemma entry_uses_nonneg:
  assumes "cap_inv sha st" "mget (cap_sites st) sid = Some s" "mget (capabilities s) k = Some e"
  shows "0 \<le> pendingUses e"
  using cap_entry_ok [OF assms] by auto

lemma reuse_pending:
  assumes "cap_inv sha st" "reuseCapability sha sid ck now st = (st', Some tok)"
  shows "pending_capability sha sid tok ck st'"
proof -
  have ne: "ck \<noteq> []" "mget (cap_sites st) sid \<noteq> None"
    using assms(2) by (auto simp: reuseCapability_def split: if_splits)
  let ?st = "pruneCapabilitiesLocked now st"
  have inv: "cap_inv sha ?st" by (rule prune_inv [OF assms(1)])
  obtain s where s: "mget (cap_sites ?st) sid = Some s"
    using prune_site_exists ne(2) by (metis not_None_eq)
  have c: "(ck = [] \<or> mget (cap_sites st) sid = None) = False" using ne by auto
  define t where "t = mget_or [] (capabilityByTarget s) ck"
  have eq: "reuseCapability sha sid ck now st =
      (case mget (capabilities s) (sha t) of
         None \<Rightarrow> (put_site sid (s\<lparr>capabilityByTarget := mdel ck (capabilityByTarget s)\<rparr>) ?st, None)
       | Some e \<Rightarrow>
           if token e \<noteq> t \<or> cacheKey e \<noteq> ck \<or> \<not> dynamicCapabilityEntryValid e now (idleExpiry s) then
             (if token e = t \<and> pendingUses e = 0
              then deleteCapabilityLocked sid (sha t) e (put_site sid (s\<lparr>capabilityByTarget := mdel ck (capabilityByTarget s)\<rparr>) ?st)
              else put_site sid (s\<lparr>capabilityByTarget := mdel ck (capabilityByTarget s)\<rparr>) ?st, None)
           else (put_site sid (s\<lparr>capabilities := mput (sha t) (e\<lparr>pendingUses := pendingUses e + 1\<rparr>) (capabilities s)\<rparr>) ?st, Some t))"
    unfolding reuseCapability_def Let_def c if_False s option.sel t_def by (rule refl)
  obtain e where e: "mget (capabilities s) (sha t) = Some e" "token e = t" "cacheKey e = ck" "tok = t"
    "st' = put_site sid (s\<lparr>capabilities := mput (sha t) (e\<lparr>pendingUses := pendingUses e + 1\<rparr>) (capabilities s)\<rparr>) ?st"
  proof (cases "mget (capabilities s) (sha t)")
    case None
    with assms(2) show thesis unfolding eq by simp
  next
    case (Some e)
    show thesis
    proof (cases "token e \<noteq> t \<or> cacheKey e \<noteq> ck \<or> \<not> dynamicCapabilityEntryValid e now (idleExpiry s)")
      case True
      have "snd (reuseCapability sha sid ck now st) = None" unfolding eq Some option.case if_P [OF True] by simp
      with assms(2) show thesis by simp
    next
      case False
      have r: "reuseCapability sha sid ck now st =
        (put_site sid (s\<lparr>capabilities := mput (sha t) (e\<lparr>pendingUses := pendingUses e + 1\<rparr>) (capabilities s)\<rparr>) ?st, Some t)"
        unfolding eq Some option.case if_not_P [OF False] by (rule refl)
      have "st' = fst (reuseCapability sha sid ck now st)" "Some tok = snd (reuseCapability sha sid ck now st)"
        unfolding assms(2) by (rule fst_conv [symmetric], rule snd_conv [symmetric])
      from this [unfolded r fst_conv snd_conv] have t: "st' = put_site sid
          (s\<lparr>capabilities := mput (sha t) (e\<lparr>pendingUses := pendingUses e + 1\<rparr>) (capabilities s)\<rparr>) ?st" "tok = t"
        by - (assumption, drule option.inject [THEN iffD1])
      from False show thesis by (intro that [OF Some _ _ t(2) t(1)]) blast+
    qed
  qed
  have "0 \<le> pendingUses e" by (rule entry_uses_nonneg [OF inv s e(1)])
  then show ?thesis
    unfolding e(4,5) using e(2,3) by (intro pending_put [where e = "e\<lparr>pendingUses := pendingUses e + 1\<rparr>"]) simp_all
qed

lemma register_new_pending:
  assumes "register_new sha sid tok ck expires now res st = (st', Some tok')"
  shows "tok' = tok \<and> pending_capability sha sid tok ck st'"
  using assms by (auto simp: register_new_def Let_def put_site_def pending_capability_def split: if_splits)

lemma register_pending:
  assumes "cap_inv sha st" "registerCapability sha sid tok ck expires now res st = Some (st', Some tok')"
  shows "pending_capability sha sid tok' ck st'"
proof -
  have ne: "tok \<noteq> []" "ck \<noteq> []" "now < expires" "mget (cap_sites st) sid \<noteq> None"
    using assms(2) by (auto simp: registerCapability_def split: if_splits)
  let ?st = "pruneCapabilitiesLocked now st"
  have inv: "cap_inv sha ?st" by (rule prune_inv [OF assms(1)])
  obtain s where s: "mget (cap_sites ?st) sid = Some s"
    using prune_site_exists ne(4) by (metis not_None_eq)
  define ex where "ex = mget_or [] (capabilityByTarget s) ck"
  show ?thesis
  proof (cases "if ex \<noteq> [] then mget (capabilities s) (sha ex) else None")
    case None
    with assms(2) ne s show ?thesis
      by (auto simp: registerCapability_def Let_def ex_def split: if_splits dest: register_new_pending)
  next
    case (Some e)
    then have e: "ex \<noteq> []" "mget (capabilities s) (sha ex) = Some e" by (auto split: if_splits)
    have n: "0 \<le> pendingUses e" by (rule entry_uses_nonneg [OF inv s e(2)])
    show ?thesis
    proof (cases "token e = ex \<and> cacheKey e = ck")
      case True
      then have "st' = put_site sid (s\<lparr>capabilities := mput (sha ex) (e\<lparr>pendingUses := pendingUses e + 1\<rparr>) (capabilities s)\<rparr>) ?st"
        "tok' = ex"
        using assms(2) ne s e by (auto simp: registerCapability_def Let_def ex_def)
      then show ?thesis
        using True n by (auto intro!: pending_put [where e = "e\<lparr>pendingUses := pendingUses e + 1\<rparr>"])
    next
      case False
      with assms(2) ne s e show ?thesis
        by (auto simp: registerCapability_def Let_def ex_def split: if_splits dest: register_new_pending)
    qed
  qed
qed

lemma world_sites [simp]:
  "cap_sites (dw_caps (observe i source d r a w)) = cap_sites (dw_caps w)"
  "cap_sites (dw_caps (world_rollback rid w)) = cap_sites (dw_caps w)"
  "cap_sites (dw_caps (put_auth x w)) = cap_sites (dw_caps w)"
  by (simp_all add: observe_def world_rollback_def put_auth_def Let_def)

lemma issue_Minted:
  assumes "issue_capability L i env rid source authority ck claims w = (w', Minted route b)" "cap_inv (dl_sha L) (dw_caps w)"
  obtains tok where "b" "route = clientRoute i (dynamicRoutePrefix @ tok)" "pending_capability (dl_sha L) (is_state i) tok ck (dw_caps w')"
proof -
  obtain caps reused where r: "reuseCapability (dl_sha L) (is_state i) ck (me_reused env) (dw_caps w) = (caps, reused)" by fastforce
  show thesis
  proof (cases reused)
    case (Some tok)
    from assms(1) r Some have "b" "route = clientRoute i (dynamicRoutePrefix @ tok)"
      "w' = observe i source ''allowed'' ''candidate_allowed'' authority (world_rollback rid (w\<lparr>dw_caps := caps\<rparr>))"
      by (auto simp: issue_capability_def)
    moreover have "cap_sites (dw_caps w') = cap_sites caps" unfolding calculation(3) by simp
    ultimately show thesis
      using reuse_pending [OF assms(2) r [unfolded Some]] pending_cong [of "dw_caps w'" caps] by (intro that [of tok]) auto
  next
    case None
    have inv: "cap_inv (dl_sha L) caps" using keeps_reuse [OF assms(2) r] by (simp add: keeps_def)
    obtain tok caps' tok2 where t:
      "registerCapability (dl_sha L) (is_state i) tok ck (from_unix (cl_expires claims)) (me_now env) (Some rid) caps = Some (caps', Some tok2)"
      "b" "route = clientRoute i (dynamicRoutePrefix @ tok2)" "cap_sites (dw_caps w') = cap_sites caps'"
      using assms(1) r None by (auto simp: issue_capability_def Let_def split: option.splits)
    from register_pending [OF inv t(1)] show thesis
      using pending_cong [of "dw_caps w'" caps'] by (intro that [of tok2]) (use t in auto)
  qed
qed


lemma resolved_facts:
  assumes "reservation_resolve outcome (Some sp) addrs = Inr as"
  shows "as \<noteq> [] \<and> (\<forall>a\<in>set as. dynamicIPIsPublic a \<and> not_local sp addrs a)"
proof -
  obtain ips where "validateDynamicResolvedIPsWithPolicy (map as_slice ips) (Some sp) addrs = Inr as"
    using assms by (auto simp: reservation_resolve_def split: option.splits sum.splits)
  from policy_facts [OF this] validated_facts(5,6) [OF policy_facts(1) [OF this]] show ?thesis by blast
qed

lemma validateTarget_ok:
  assumes "validateTarget lib p previous target selfTargets addrs = []"
  shows "\<exists>sp. selfTargets = Some sp \<and> target_ok lib sp target \<and> scheme target \<in> set (AllowedSchemes (rp_limits p)) \<and>
    (AllowAnyPort (rp_limits p) \<or> (\<exists>port. dynamicEffectivePort target = Some port \<and>
       int (digits_value port) \<in> set (AllowedPorts (rp_limits p)))) \<and>
    (rp_profile p = ''safe'' \<longrightarrow> dynamicSafeDomainAllowed lib (url_hostname target) (rp_rules p))"
  using assms validateNormalizedTarget_ok
  by (auto simp: validateTarget_def split: if_splits option.splits)

section \<open>Property\<close>


section \<open>A mint to evaluate on\<close>

definition demo_lib :: dyn_lib where
  "demo_lib = \<lparr>dl_names = demo_names, dl_parse = (\<lambda>_. Some demo_target),
     dl_claims = \<lparr>write_claims = (\<lambda>_. Some ''p''), read_claims = (\<lambda>_. None), cap_seal = (\<lambda>_ _ _. ''tok''), cap_open = (\<lambda>_ _. None)\<rparr>,
     dl_sha = id\<rparr>"

definition demo_limits :: profile_limits where
  "demo_limits = \<lparr>AllowedSchemes = [''https''], AllowedPorts = [443], AllowAnyPort = False, MaxRedirects = 3, MaxAuthorities = 2,
     MaxActiveCapabilities = 2, MaxURLsPerResponse = 10, MaxBodyBytes = 1000, MaxDNSIPs = 4, MaxNewAuthoritiesPerMinute = 2,
     MaxStreams = 1, IdleExpirySeconds = 60, AbsoluteLifetimeSeconds = 100\<rparr>"

definition demo_redirect_policy :: redirect_policy where
  "demo_redirect_policy = \<lparr>rp_configured = True, rp_available = True, rp_profile = ''compatible'', rp_limits = demo_limits,
     rp_sources = [''redirect'', ''hls''], rp_rules = [], rp_downgrade = False\<rparr>"

definition demo_issuer :: issuer where
  "demo_issuer = \<lparr>is_key = replicate 32 CHR ''k'', is_site = 1, is_state = 0, is_revision = 1, is_policy = demo_redirect_policy,
     is_authorities = [], is_primary = ''https://u.com:443'', is_transport = True,
     is_upstream = \<lparr>up_authority = [], up_values = []\<rparr>, is_prefix = [], is_database = True, is_self = Some demo_policy\<rparr>"

definition demo_env :: mint_env where
  "demo_env = \<lparr>me_reserved = 100, me_outcome = Some (Inr [V4 0x08080808]), me_ifaces1 = demo_ifaces, me_ifaces2 = demo_ifaces,
     me_now = 100, me_reused = 100, me_nonce = ''n'', me_settled = 100\<rparr>"

definition demo_caps :: cap_state where
  "demo_caps = cache (start_cap_run\<lparr>cache := new_site_caps 0 60 2 2 2 (cache start_cap_run)\<rparr>)"

definition demo_world :: dyn_world where
  "demo_world = \<lparr>dw_caps = demo_caps, dw_seen = []\<rparr>"

definition demo_mint :: "dyn_world \<times> minted" where
  "demo_mint = mintValidatedResourceWithRequiredHeadersTracked demo_lib demo_issuer demo_env None demo_target ''hls'' ''u'' [] [] None
     ''resource'' 0 demo_world"

lemma demo_authority: "dynamicCanonicalAuthority demo_names demo_target = ''https://a.com:443''"
  by (simp add: dynamicCanonicalAuthority_def demo_values demo_target_fields join_host_port_def Let_def del: to_lower.simps)

lemma port_443: "digits_value ''443'' = 443"
  by code_simp

lemma demo_allowed: "validateTarget demo_names demo_redirect_policy None demo_target (Some demo_policy) demo_ifaces = []"
  by (simp add: validateTarget_def demo_redirect_policy_def demo_limits_def demo_values demo_target_fields demo_normalized port_443)

lemma demo_caps_value: "demo_caps = \<lparr>auth = newDynamicSiteState 0 2 2 newDynamicRuntime,
     cap_sites = [(0, \<lparr>idleExpiry = 60, maxActiveCapabilities = 2, capabilities = [], capabilityByTarget = [], siteMemory = 0,
       caps_closed = False\<rparr>)],
     activeCapabilities = 0, capabilityMemory = 0, lastCapabilityPrune = 0\<rparr>"
  by (simp add: demo_caps_def start_cap_run_def new_site_caps_def put_site_def)

lemma demo_reserved: "\<exists>a. reserveAuthority 0 ''https://a.com:443'' 100 (auth demo_caps) = (a, Reserved 2)"
  by (simp add: demo_caps_value reserveAuthority_def reserve_new_def newDynamicSiteState_def newDynamicRuntime_def mget_or_def Let_def
     globalDynamicMaxAuthorities_def globalDynamicMaxNewAuthoritiesMinute_def)

lemma demo_resolved: "reservation_resolve (Some (Inr [V4 0x08080808])) (Some demo_policy) demo_ifaces = Inr [V4 0x08080808]"
  using demo_policy_ok by (simp add: reservation_resolve_def as_slice_def)

lemma demo_reuse: "reuseCapability id 0 ck 100 (demo_caps\<lparr>auth := a\<rparr>) =
   (if ck = [] then demo_caps\<lparr>auth := a\<rparr> else demo_caps\<lparr>auth := a, lastCapabilityPrune := 100\<rparr>, None)"
  by (simp add: demo_caps_value reuseCapability_def pruneCapabilitiesLocked_def pruneSiteCapabilitiesLocked_def Let_def mget_or_def
      put_site_def)

definition demo_registered :: "string \<Rightarrow> time \<Rightarrow> nat \<Rightarrow> auth_state \<Rightarrow> cap_state" where
  "demo_registered ck expires rid a = \<lparr>auth = a,
     cap_sites = [(0, \<lparr>idleExpiry = 60, maxActiveCapabilities = 2,
       capabilities = [(''tok'', \<lparr>expiresAt = expires, lastUsed = 100, token = ''tok'', cacheKey = ck, pendingUses = 1, published = False,
         cap_reservation = Some rid\<rparr>)],
       capabilityByTarget = [(ck, ''tok'')], siteMemory = dynamicCapabilityEntryMemory ''tok'' ck, caps_closed = False\<rparr>)],
     activeCapabilities = 1, capabilityMemory = dynamicCapabilityEntryMemory ''tok'' ck, lastCapabilityPrune = 100\<rparr>"

lemma demo_memory: "length ck < 1000 \<Longrightarrow> dynamicCapabilityEntryMemory ''tok'' ck \<le> 2000"
  by (simp add: dynamicCapabilityEntryMemory_def)

lemma demo_recent: "pruneCapabilitiesLocked 100 (st\<lparr>lastCapabilityPrune := 100\<rparr>) = st\<lparr>lastCapabilityPrune := 100\<rparr>"
  by (simp add: pruneCapabilitiesLocked_def time_sub_def dynamicCapabilityPruneInterval_def second_def min_i64_def max_i64_def)

lemma demo_register:
  assumes "ck \<noteq> []" "length ck < 1000" "100 < expires"
  shows "registerCapability id 0 ''tok'' ck expires 100 (Some rid) (demo_caps\<lparr>auth := a, lastCapabilityPrune := 100\<rparr>) =
    Some (demo_registered ck expires rid a, Some ''tok'')"
proof -
  note m = demo_memory [OF assms(2)]
  have s: "mget (cap_sites (demo_caps\<lparr>auth := a, lastCapabilityPrune := 100\<rparr>)) 0 = Some \<lparr>idleExpiry = 60, maxActiveCapabilities = 2,
      capabilities = [], capabilityByTarget = [], siteMemory = 0, caps_closed = False\<rparr>"
    by (simp add: demo_caps_value)
  show ?thesis
    unfolding registerCapability_def demo_recent s
    using assms m
    by (simp add: register_new_def s mget_or_def put_site_def demo_registered_def demo_caps_value Let_def
        globalDynamicMaxActiveCapabilities_def globalDynamicMaxSiteCapabilityMemoryBytes_def globalDynamicMaxCapabilityMemoryBytes_def)
qed

lemma demo_settled: "100 < expires \<Longrightarrow> snd (settleCapabilities id 0 [''tok''] True 100 (demo_registered ck expires rid a))"
  by (simp add: demo_registered_def settleCapabilities_def settle_one_def put_site_def mget_or_def dynamicCapabilityEntryValid_def)

lemma demo_issue:
  assumes "ck \<noteq> []" "length ck < 1000" "dw_caps w = demo_caps\<lparr>auth := x\<rparr>"
  shows "\<exists>w'. issue_capability (demo_lib\<lparr>dl_parse := parse\<rparr>) demo_issuer demo_env rid src a ck
      (dynamic_claims demo_issuer demo_env src ps claim [] [] None ''resource'' 0 False) w =
    (w', Minted (clientRoute demo_issuer (dynamicRoutePrefix @ ''tok'')) True) \<and>
    snd (settleCapabilities id 0 [''tok''] True 100 (dw_caps w'))"
proof -
  let ?c = "dynamic_claims demo_issuer demo_env src ps claim [] [] None ''resource'' 0 False"
  have s: "sealDynamicCapability demo_names parse (dl_claims demo_lib) ''n'' (is_key demo_issuer) ?c = Some ''tok''"
    by (simp add: sealDynamicCapability_def demo_lib_def demo_issuer_def dynamic_claims_def
        validateDynamicCapabilityRequiredHeaderBinding_def validateDynamicCapabilityRequiredHeaderClaims_def
        maxDynamicCapabilityBytes_def)
  have e: "100 < from_unix (cl_expires ?c)"
    by (simp add: from_unix_def dynamic_claims_def unix_seconds_def demo_env_def demo_issuer_def demo_redirect_policy_def
        demo_limits_def second_def)
  obtain c where "registerCapability id 0 ''tok'' ck (from_unix (cl_expires ?c)) 100 (Some rid)
      (demo_caps\<lparr>auth := x, lastCapabilityPrune := 100\<rparr>) = Some (c, Some ''tok'')"
      "snd (settleCapabilities id 0 [''tok''] True 100 c)"
    using demo_register [OF assms(1,2) e] demo_settled [OF e] by blast
  moreover have "dl_names demo_lib = demo_names" "dl_sha demo_lib = id" "is_state demo_issuer = 0" "me_reused demo_env = 100"
      "me_now demo_env = 100" "me_nonce demo_env = ''n''"
    by (simp_all add: demo_lib_def demo_issuer_def demo_env_def)
  moreover have "dw_caps (observe i s' d r b w') = dw_caps w'" for i s' d r b w' by (simp add: observe_def Let_def)
  ultimately show ?thesis
    using assms(1,3) s by (simp add: issue_capability_def demo_reuse Let_def)
qed

lemma demo_key:
  assumes "length src \<le> 20" "length ps \<le> 20" "length claim \<le> 200"
  shows "dynamicCapabilityCacheKeyWithRequiredHeaders src ''resource'' 0 ps claim [] [] None \<noteq> []"
    "length (dynamicCapabilityCacheKeyWithRequiredHeaders src ''resource'' 0 ps claim [] [] None) < 1000"
  using assms
  by (simp_all add: dynamicCapabilityCacheKeyWithRequiredHeaders_def dynamicCapabilityCacheKey_def
      dynamicCapabilityRequiredHeadersCacheKey_def nul_def itoa.simps)

text \<open>Of the state only the registry of authorities matters to the outcome.\<close>

lemma demo_mint_at:
  assumes reserved: "reserveAuthority 0 ''https://a.com:443'' 100 (auth (dw_caps w)) = (a, Reserved rid)"
    and caps: "dw_caps w = demo_caps\<lparr>auth := x\<rparr>"
    and source: "src = ''redirect'' \<or> src = ''hls''"
    and target: "dynamicCanonicalAuthority demo_names u = ''https://a.com:443''"
      "validateTarget demo_names demo_redirect_policy prev u (Some demo_policy) demo_ifaces = []"
    and claim: "claim \<noteq> []" "length claim \<le> 200" and prev: "\<forall>p. prev = Some p \<longrightarrow> scheme p = ''https''"
  shows "\<exists>w'. mintValidatedResourceWithRequiredHeadersTracked (demo_lib\<lparr>dl_parse := parse\<rparr>) demo_issuer demo_env prev u src claim
      [] [] None ''resource'' 0 w = (w', Minted (clientRoute demo_issuer (dynamicRoutePrefix @ ''tok'')) True) \<and>
    snd (settleCapabilities id 0 [''tok''] True 100 (dw_caps w'))"
proof -
  have f: "rp_available demo_redirect_policy" "sourceEnabled demo_redirect_policy src" "length (is_key demo_issuer) = 32"
    "validDynamicCapabilityResource src ''resource'' 0" "\<not> headers_refused demo_issuer None"
    "is_self demo_issuer = Some demo_policy" "is_policy demo_issuer = demo_redirect_policy" "is_state demo_issuer = 0"
    "dl_names demo_lib = demo_names" "me_ifaces1 demo_env = demo_ifaces" "me_ifaces2 demo_env = demo_ifaces"
    "me_outcome demo_env = Some (Inr [V4 0x08080808])" "me_reserved demo_env = 100"
    using source
    by (auto simp: demo_issuer_def demo_redirect_policy_def sourceEnabled_def dynamicDiscoverySourceEnabled_def
        validDynamicCapabilityResource_def headers_refused_def validateDynamicCapabilityRequiredHeaderClaims_def demo_lib_def
        demo_env_def)
  let ?ps = "case prev of None \<Rightarrow> [] | Some p \<Rightarrow> if equal_fold (scheme p) ''http'' \<or> equal_fold (scheme p) ''https''
    then to_lower (scheme p) else []"
  have l: "length src \<le> 20" "length ?ps \<le> 20" using source prev demo_values(3) by (auto split: option.split simp del: to_lower.simps)
  have "dw_caps (put_auth a w) = demo_caps\<lparr>auth := a\<rparr>" by (simp add: put_auth_def caps)
  from demo_issue [OF demo_key [OF l claim(2)] this, of parse rid src "''https://a.com:443''" ?ps claim] claim
  show ?thesis
    unfolding mintValidatedResourceWithRequiredHeadersTracked_def
    by (simp add: f reserved target demo_resolved Let_def maxDynamicTargetURLBytes_def del: to_lower.simps)
qed

lemma demo_minted: "\<exists>w'. demo_mint = (w', Minted (clientRoute demo_issuer (dynamicRoutePrefix @ ''tok'')) True)"
proof -
  obtain a where a: "reserveAuthority 0 ''https://a.com:443'' 100 (auth (dw_caps demo_world)) = (a, Reserved 2)"
    using demo_reserved by (auto simp: demo_world_def)
  from demo_mint_at [OF a, of "auth demo_caps" "''hls''" demo_target None "''u''" "dl_parse demo_lib"] show ?thesis
    unfolding demo_mint_def by (auto simp: demo_world_def demo_authority demo_allowed)
qed

lemma demo_caps_inv: "cap_inv id demo_caps"
proof -
  have "cap_reachable id (start_cap_run\<lparr>cache := new_site_caps 0 60 2 2 2 (cache start_cap_run)\<rparr>)"
    by (rule cap_reachable.Next [OF cap_reachable.Start], rule NewSite) (simp_all add: start_cap_run_def newDynamicRuntime_def)
  from cap_reachable_inv [OF this] show ?thesis by (simp add: demo_caps_def)
qed


end
