(* ===== verification/Redirect_Transport.thy ===== *)
theory Redirect_Transport
  imports Redirect_Headers Url_Reference Dynamic_Issuer
begin

text \<open>
  \<open>redirectFollowTransport\<close> of \<open>cmd/meridian/redirect_transport.go\<close>: the round tripper that follows the
  redirects of an upstream. Configured authorities are followed over the site's own transport; an unknown one is
  checked, resolved and fetched over a transport that is pinned to the addresses found, or answered with a capability.
  What a hop meets (the answer of the transport, the clock, the lookup, the local interfaces) is an argument; the
  bodies, transports, stream slots and reservations that are held are part of the state.
\<close>

section \<open>Requests and responses\<close>

datatype ctx_value = CtxBool bool | CtxText string | CtxUrl url | CtxTracker | CtxLease

type_synonym request_context = "context_key \<Rightarrow> ctx_value option"

text \<open>No body is both \<open>nil\<close> and \<open>http.NoBody\<close>. Of \<open>GetBody\<close> the outer option is its presence, the
  inner one that it returns a body.\<close>

record http_request =
  rq_method :: string
  rq_url :: url
  rq_host :: string
  rq_header :: http_header
  rq_body :: "string option"
  rq_get_body :: "string option option"
  rq_length :: int
  rq_transfer :: "string list"
  rq_trailer :: nat
  rq_close :: bool
  rq_ctx :: request_context

text \<open>\<open>DynamicBody\<close> is a \<open>dynamicResponseBody\<close>: the body, the transport and whether a stream slot is released
  with it; the lease is the one of the round trip.\<close>

datatype body = NilBody | NoBody | WireBody string | DynamicBody body "pinned option" bool

record http_response =
  rs_status :: nat
  rs_header :: http_header
  rs_body :: body
  rs_length :: int
  rs_trailer :: nat
  rs_request :: "http_request option"

datatype transport_error = TlsError | DialError | OtherError string

datatype reply = ReplyError transport_error "http_response option" | Reply "http_response option"

definition dynamicTransportFailureReason :: "transport_error \<Rightarrow> string" where
  "dynamicTransportFailureReason e =
     (case e of TlsError \<Rightarrow> ''tls_failure'' | DialError \<Rightarrow> ''dial_failure'' | OtherError _ \<Rightarrow> ''response_failure'')"

definition with_ctx :: "context_key \<Rightarrow> ctx_value \<Rightarrow> http_request \<Rightarrow> http_request" where
  "with_ctx k v r = r\<lparr>rq_ctx := (rq_ctx r)(k \<mapsto> v)\<rparr>"

section \<open>The transport and its state\<close>

record redirect_transport =
  rt_lib :: dyn_lib
  playbackHosts :: "string list"
  configuredAuthorities :: "string list"
  disableLegacyRedirects :: bool
  followUnknownRedirects :: bool
  rt_ua :: UAHeaderPolicy
  clientIPMode :: string
  rt_upstream :: upstream_policy
  dynamicTransportFactory :: "(url \<Rightarrow> addr list \<Rightarrow> self_policy option \<Rightarrow> net_error + pinned) option"
  dynamicPolicy :: redirect_policy
  rt_state :: nat
  rt_self :: "self_policy option"
  capabilityIssuer :: "issuer option"
  streamLeaseHeld :: bool
  mainVideoDirect :: bool
  rt_database :: bool

record redirect_world =
  rw_dyn :: dyn_world
  rw_budgets :: budgets
  rw_lease :: lease
  rw_tracked :: "url option"
  rw_sent :: "(pinned option \<times> http_request) list"
  rw_open :: int        \<comment> \<open>pinned transports with connections\<close>
  rw_bodies :: int      \<comment> \<open>bodies of responses that are not closed\<close>

record hop_env =
  he_reply :: "http_request \<Rightarrow> reply"
  he_mint :: mint_env
  he_ifaces1 :: "iface list option"
  he_ifaces2 :: "iface list option"

definition on_auth :: "(auth_state \<Rightarrow> auth_state) \<Rightarrow> redirect_world \<Rightarrow> redirect_world" where
  "on_auth f w = w\<lparr>rw_dyn := put_auth (f (auth (dw_caps (rw_dyn w)))) (rw_dyn w)\<rparr>"

definition release_stream :: "nat \<Rightarrow> redirect_world \<Rightarrow> redirect_world" where
  "release_stream sid w = w\<lparr>rw_budgets := (case releaseStream sid (rw_budgets w) of None \<Rightarrow> rw_budgets w | Some b \<Rightarrow> b)\<rparr>"

definition lease_on_body_close :: "redirect_world \<Rightarrow> redirect_world" where
  "lease_on_body_close w =
     (case rollbackOnBodyClose (rw_lease w) (auth (dw_caps (rw_dyn w))) of
        (l, a) \<Rightarrow> (on_auth (\<lambda>_. a) w)\<lparr>rw_lease := l\<rparr>)"

definition lease_rollback :: "redirect_world \<Rightarrow> redirect_world" where
  "lease_rollback w =
     (case lease_finish False (rw_lease w) (auth (dw_caps (rw_dyn w))) of
        (l, a) \<Rightarrow> (on_auth (\<lambda>_. a) w)\<lparr>rw_lease := l\<rparr>)"

fun close_body :: "nat \<Rightarrow> body \<Rightarrow> redirect_world \<Rightarrow> redirect_world" where
  "close_body sid NilBody w = w"
| "close_body sid NoBody w = w"
| "close_body sid (WireBody _) w = w\<lparr>rw_bodies := rw_bodies w - 1\<rparr>"
| "close_body sid (DynamicBody b transport stream) w =
     (let w1 = close_body sid b w;
          w2 = (if transport \<noteq> None then w1\<lparr>rw_open := rw_open w1 - 1\<rparr> else w1);
          w3 = lease_on_body_close w2
      in if stream then release_stream sid w3 else w3)"

definition received :: "http_response option \<Rightarrow> redirect_world \<Rightarrow> redirect_world" where
  "received r w =
     (case r of Some x \<Rightarrow> (case rs_body x of WireBody _ \<Rightarrow> w\<lparr>rw_bodies := rw_bodies w + 1\<rparr> | _ \<Rightarrow> w) | None \<Rightarrow> w)"

definition track :: "http_request \<Rightarrow> url \<Rightarrow> redirect_world \<Rightarrow> redirect_world" where
  "track r u w = (if rq_ctx r BackendAddress = Some CtxTracker then w\<lparr>rw_tracked := Some u\<rparr> else w)"

definition log_sent :: "pinned option \<Rightarrow> http_request \<Rightarrow> redirect_world \<Rightarrow> redirect_world" where
  "log_sent via r w = w\<lparr>rw_sent := rw_sent w @ [(via, r)]\<rparr>"

section \<open>Observations\<close>

definition enqueue :: "observation \<Rightarrow> redirect_world \<Rightarrow> redirect_world" where
  "enqueue ob w = w\<lparr>rw_dyn := (rw_dyn w)\<lparr>dw_seen := dw_seen (rw_dyn w) @ [ob]\<rparr>\<rparr>"

definition observeWithStatus :: "redirect_transport \<Rightarrow> string \<Rightarrow> string \<Rightarrow> string \<Rightarrow> nat \<Rightarrow> redirect_world \<Rightarrow> redirect_world" where
  "observeWithStatus t decision reasonCode authority status w =
     (if \<not> rt_database t \<or> authority = [] then w
      else
        let configured = (authority \<in> set (configuredAuthorities t) \<or>
              list_ex (\<lambda>c. trim_suffix c '':80'' = trim_suffix authority '':80'' \<or> trim_suffix c '':443'' = trim_suffix authority '':443'')
                (configuredAuthorities t))
        in enqueue \<lparr>ob_authority = authority, ob_source = ''redirect'',
             ob_kind = (if configured then ''configured'' else ''discovered''), ob_decision = decision,
             ob_reason = reasonCode, ob_status = status\<rparr> w)"

definition observe_redirect :: "redirect_transport \<Rightarrow> string \<Rightarrow> string \<Rightarrow> string \<Rightarrow> redirect_world \<Rightarrow> redirect_world" where
  "observe_redirect t decision reasonCode authority w = observeWithStatus t decision reasonCode authority 0 w"

definition denied :: "redirect_transport \<Rightarrow> string \<Rightarrow> string \<Rightarrow> redirect_world \<Rightarrow> redirect_world" where
  "denied t reasonCode authority w = observe_redirect t ''denied'' reasonCode authority w"

section \<open>The next request\<close>

text \<open>\<open>http.NewRequestWithContext\<close>.\<close>

definition removeEmptyPort :: "string \<Rightarrow> string" where
  "removeEmptyPort h = trim_suffix h '':''"

definition new_http_request :: "url_parser \<Rightarrow> request_context \<Rightarrow> string \<Rightarrow> string \<Rightarrow> string option \<Rightarrow> http_request option" where
  "new_http_request parse ctx meth address body =
     (if \<not> list_all isHTTPTokenByte meth then None
      else case parse address of
        None \<Rightarrow> None
      | Some u \<Rightarrow>
          let u' = u\<lparr>host := removeEmptyPort (host u)\<rparr>
          in Some \<lparr>rq_method = (if meth = [] then ''GET'' else meth), rq_url = u', rq_host = host u', rq_header = [],
               rq_body = body, rq_get_body = None, rq_length = 0, rq_transfer = [], rq_trailer = 0, rq_close = False, rq_ctx = ctx\<rparr>)"

definition request_has_body :: "http_request \<Rightarrow> bool" where
  "request_has_body r \<longleftrightarrow> rq_body r \<noteq> None \<or> rq_length r \<noteq> 0 \<or> rq_transfer r \<noteq> [] \<or> rq_trailer r \<noteq> 0"

text \<open>The body that is sent again; the error is that it cannot be.\<close>

definition replayed_body :: "redirect_transport \<Rightarrow> http_request \<Rightarrow> bool \<Rightarrow> string option option" where
  "replayed_body t previous replay =
     (if \<not> (replay \<and> request_has_body previous) then Some None
      else if rq_body previous = None \<or> rq_get_body previous = None \<or> rq_length previous \<le> 0 \<or>
              rq_length previous > MaxBodyBytes (rp_limits (dynamicPolicy t)) \<or> rq_transfer previous \<noteq> [] \<or>
              rq_trailer previous \<noteq> 0 then None
      else case rq_get_body previous of
        Some (Some b) \<Rightarrow> Some (Some b)
      | _ \<Rightarrow> None)"

definition newExtremeCompatibleDynamicRedirectRequest ::
    "redirect_transport \<Rightarrow> request_context \<Rightarrow> http_request \<Rightarrow> nat \<Rightarrow> url \<Rightarrow> string + (http_request \<times> bool)" where
  "newExtremeCompatibleDynamicRedirectRequest t ctx previous status target =
     (let extreme = (rp_profile (dynamicPolicy t) = ''extreme'');
          (meth, replay) = (if extreme then extremeDynamicRedirectBehavior status (rq_method previous) else (rq_method previous, False));
          strip = (extreme \<and> \<not> replay)
      in case replayed_body t previous replay of
           None \<Rightarrow> Inl ''redirect_body_replay_denied''
         | Some body \<Rightarrow>
             (case new_http_request (dl_parse (rt_lib t)) ctx meth (url_string target) body of
                None \<Rightarrow> Inl ''invalid_location''
              | Some r \<Rightarrow>
                  let r' = r\<lparr>rq_host := host target\<rparr>
                  in Inr (if replay \<and> body \<noteq> None
                          then r'\<lparr>rq_get_body := rq_get_body previous, rq_length := rq_length previous\<rparr> else r', strip)))"

text \<open>
  A body that a server received has no \<open>GetBody\<close>. \<open>readable\<close> is what can be read of it and \<open>closes\<close> whether
  closing it succeeds. The result is the request, the budgets and whether the parse budget is held, or the error.
\<close>

definition prepareExtremeRedirectReplayBody ::
    "nat \<Rightarrow> int \<Rightarrow> string \<Rightarrow> bool \<Rightarrow> http_request \<Rightarrow> budgets \<Rightarrow> budgets \<times> (string + http_request \<times> bool)" where
  "prepareExtremeRedirectReplayBody sid maxBodyBytes readable closes r b =
     (if rq_body r = None \<or> rq_length r = 0 \<or> rq_get_body r \<noteq> None then (b, Inr (r, False))
      else if rq_length r < 0 \<or> rq_length r > maxBodyBytes \<or> rq_transfer r \<noteq> [] \<or> rq_trailer r \<noteq> 0 then (b, Inr (r, False))
      else case acquireParse sid (rq_length r) b of
        None \<Rightarrow> (b, Inr (r, False))
      | Some b' \<Rightarrow>
          let released = (case releaseParse sid (rq_length r) b' of None \<Rightarrow> b' | Some x \<Rightarrow> x)
          in if int (length readable) < rq_length r then (released, Inl ''read replayable request body'')
             else if int (length readable) > rq_length r then (released, Inl ''validate replayable request body'')
             else if \<not> closes then (released, Inl ''close replayable request body'')
             else (b', Inr (r\<lparr>rq_body := Some readable, rq_get_body := Some (Some readable)\<rparr>, True)))"

section \<open>Direct redirects of the main video\<close>

definition replaceResponseWithMainVideoDirectTarget :: "nat \<Rightarrow> http_response \<Rightarrow> url \<Rightarrow> redirect_world \<Rightarrow> redirect_world \<times> http_response" where
  "replaceResponseWithMainVideoDirectTarget sid resp target w =
     (close_body sid (rs_body resp) w,
      resp\<lparr>rs_status := 307,
        rs_header := hdr_set ''Content-Length'' ''0'' (hdr_set ''Referrer-Policy'' ''no-referrer''
          (hdr_set ''Cache-Control'' ''private, no-store'' (hdr_set ''Location'' (url_string target) []))),
        rs_body := NoBody, rs_length := 0, rs_trailer := 0\<rparr>)"

definition replaceResponseWithMainVideoRedirect :: "nat \<Rightarrow> http_response \<Rightarrow> url \<Rightarrow> redirect_world \<Rightarrow> redirect_world \<times> http_response" where
  "replaceResponseWithMainVideoRedirect sid resp target w =
     (case replaceResponseWithMainVideoDirectTarget sid resp target w of
        (w', r) \<Rightarrow> (w', r\<lparr>rs_request := map_option (with_ctx DirectResolved (CtxBool True)) (rs_request r)\<rparr>))"

definition newMainVideoDirectFallbackResponse :: "nat \<Rightarrow> http_request \<Rightarrow> url \<Rightarrow> redirect_world \<Rightarrow> redirect_world \<times> http_response" where
  "newMainVideoDirectFallbackResponse sid req target w =
     replaceResponseWithMainVideoDirectTarget sid
       \<lparr>rs_status = 307, rs_header = [], rs_body = NoBody, rs_length = 0, rs_trailer = 0, rs_request = Some req\<rparr> target w"

definition mainVideoDirectFallbackTarget :: "request_context \<Rightarrow> url option" where
  "mainVideoDirectFallbackTarget ctx = (case ctx DirectFallback of Some (CtxUrl u) \<Rightarrow> Some u | _ \<Rightarrow> None)"

definition mainVideoDirectResponseResolved :: "http_response \<Rightarrow> bool" where
  "mainVideoDirectResponseResolved resp \<longleftrightarrow>
     (case rs_request resp of None \<Rightarrow> False | Some r \<Rightarrow> rq_ctx r DirectResolved = Some (CtxBool True))"

definition markDynamicResponse :: "bool \<Rightarrow> string \<Rightarrow> http_response \<Rightarrow> http_response" where
  "markDynamicResponse leased expectedSource resp =
     (case rs_request resp of
        None \<Rightarrow> resp
      | Some r \<Rightarrow>
          let r1 = with_ctx ResponseMark (CtxBool True) r;
              r2 = (if leased then with_ctx (OtherKey ''authority_lease'') CtxLease r1 else r1);
              r3 = (if expectedSource \<noteq> [] then with_ctx ExpectedSource (CtxText expectedSource) r2 else r2)
          in resp\<lparr>rs_request := Some r3\<rparr>)"

definition shouldInternallyFollowDynamicRedirect :: "http_request \<Rightarrow> bool" where
  "shouldInternallyFollowDynamicRedirect r \<longleftrightarrow>
     get_or_head (rq_method r) \<and>
     (isPlaybackRequest (path (rq_url r)) \<or> isPlaybackRedirectEndpoint (path (rq_url r)) \<or> isPlaybackInfoRequest (path (rq_url r)) \<or>
      dynamicStructuredRequestSource (path (rq_url r)) \<noteq> [] \<or> isReservedDynamicRoute (path (rq_url r)))"

definition dynamicRedirectURLKey :: "dyn_lib \<Rightarrow> url \<Rightarrow> string" where
  "dynamicRedirectURLKey L target =
     (case normalizeDynamicURL (dl_names L) (dl_parse L) (url_string target) of
        Inr normalized \<Rightarrow> url_string normalized
      | Inl _ \<Rightarrow> url_string target)"

definition manualRedirectMaxHops :: nat where
  "manualRedirectMaxHops = 5"

definition isManualRedirectEligibleRequest :: "http_request \<Rightarrow> bool" where
  "isManualRedirectEligibleRequest r \<longleftrightarrow>
     get_or_head (rq_method r) \<and> \<not> hasUpgradeIntent (rq_header r) \<and> \<not> isReservedDynamicRoute (path (rq_url r))"

datatype redirect_result = Responds http_response | Refuses string | Fails transport_error | Panics

section \<open>Following configured authorities only\<close>

text \<open>A location on its way to be followed, with its scheme in lower case.\<close>

definition location_url :: "dyn_lib \<Rightarrow> http_request \<Rightarrow> string \<Rightarrow> url option" where
  "location_url L req loc =
     map_option (\<lambda>ref. let u = resolve_reference (rq_url req) ref in u\<lparr>scheme := to_lower (scheme u)\<rparr>) (dl_parse L loc)"

definition http_scheme :: "url \<Rightarrow> bool" where
  "http_scheme u \<longleftrightarrow> scheme u = ''http'' \<or> scheme u = ''https''"

text \<open>What the site's own policies add for a target, after the headers were chosen.\<close>

definition site_headers :: "redirect_transport \<Rightarrow> http_header \<Rightarrow> url \<Rightarrow> http_header" where
  "site_headers t h target = upstreamHeaderPolicy_apply (rt_upstream t) (applyUAHeaderPolicy h (rt_ua t)) (Some target)"

definition legacy_request :: "redirect_transport \<Rightarrow> http_request \<Rightarrow> url \<Rightarrow> http_request option" where
  "legacy_request t req target =
     map_option (\<lambda>r. r\<lparr>rq_host := host target,
        rq_header := site_headers t
          (if \<not> sameRedirectAuthority (rq_url req) target
           then crossAuthorityRedirectHeadersWithClientIPMode (rq_header req) (clientIPMode t) else rq_header req) target\<rparr>)
       (new_http_request (dl_parse (rt_lib t)) (rq_ctx req) (rq_method req) (url_string target) None)"

text \<open>The first argument is the number of hops that are left.\<close>

fun legacy_loop :: "nat \<Rightarrow> redirect_transport \<Rightarrow> (nat \<Rightarrow> hop_env) \<Rightarrow> nat \<Rightarrow> string list \<Rightarrow> http_request \<Rightarrow> http_response \<Rightarrow>
    redirect_world \<Rightarrow> redirect_world \<times> redirect_result" where
  "legacy_loop 0 t env followed visited req resp w = (w, Responds resp)"
| "legacy_loop (Suc left) t env followed visited req resp w =
     (if \<not> manualHandledRedirectStatus (rs_status resp) \<or> hdr_get (rs_header resp) ''Location'' = [] then (w, Responds resp)
      else case location_url (rt_lib t) req (hdr_get (rs_header resp) ''Location'') of
        None \<Rightarrow> (w, Responds resp)
      | Some u \<Rightarrow>
          if \<not> http_scheme u \<or> user u \<noteq> None \<or> fragment u \<noteq> [] \<or> raw_fragment u \<noteq> [] \<or>
             redirectHostKey u \<notin> set (playbackHosts t)
          then (let authority = dynamicCanonicalAuthority (dl_names (rt_lib t)) u
                in if authority \<noteq> [] then observeWithStatus t ''denied'' ''invalid_location'' authority (rs_status resp) w else w,
                Responds resp)
          else
            let key = dynamicRedirectURLKey (rt_lib t) u
            in if followed > 0 \<and> key \<in> set visited then (w, Responds resp)
               else
                 let w1 = close_body (rt_state t) (rs_body resp) w
                 in case legacy_request t req u of
                      None \<Rightarrow> (w1, Responds resp)
                    | Some r \<Rightarrow>
                        let w2 = log_sent None r (track r u w1)
                        in case he_reply (env (Suc followed)) r of
                             ReplyError e _ \<Rightarrow> (w2, Fails e)
                           | Reply None \<Rightarrow> (w2, Panics)
                           | Reply (Some resp') \<Rightarrow>
                               legacy_loop left t env (Suc followed) (key # visited) r resp'
                                 (observeWithStatus t ''allowed'' ''redirect_allowed'' (dynamicCanonicalAuthority (dl_names (rt_lib t)) u)
                                    (rs_status resp) (received (Some resp') w2)))"

definition roundTripLegacy :: "redirect_transport \<Rightarrow> (nat \<Rightarrow> hop_env) \<Rightarrow> http_request \<Rightarrow> http_response \<Rightarrow> redirect_world \<Rightarrow>
    redirect_world \<times> redirect_result" where
  "roundTripLegacy t env req resp w =
     (if \<not> isManualRedirectEligibleRequest req then (w, Responds resp)
      else legacy_loop manualRedirectMaxHops t env 0 [dynamicRedirectURLKey (rt_lib t) (rq_url req)] req resp w)"

section \<open>Following discovered authorities\<close>

text \<open>
  The state of the loop: the request and the response of the hop, whether a discovered authority was followed, the hops
  so far, the URLs seen, the pinned transport, whether the loop has taken a stream slot and whether one is held.
\<close>

record hop_state =
  hs_req :: http_request
  hs_resp :: "http_response option"
  hs_active :: bool
  hs_followed :: nat
  hs_visited :: "string list"
  hs_transport :: "pinned option"
  hs_release :: bool
  hs_held :: bool
  hs_world :: redirect_world

datatype hop_result = Continue hop_state | Done redirect_world redirect_result

definition close_transport :: "pinned option \<Rightarrow> redirect_world \<Rightarrow> redirect_world" where
  "close_transport transport w = (if transport = None then w else w\<lparr>rw_open := rw_open w - 1\<rparr>)"

definition closeResponse :: "redirect_transport \<Rightarrow> hop_state \<Rightarrow> redirect_world \<Rightarrow> redirect_world" where
  "closeResponse t h w =
     close_transport (hs_transport h)
       (case hs_resp h of None \<Rightarrow> w | Some r \<Rightarrow> close_body (rt_state t) (rs_body r) w)"

text \<open>\<open>fail\<close>, once the response and the transport are closed, and from any other point.\<close>

definition settle_failure :: "redirect_transport \<Rightarrow> bool \<Rightarrow> string \<Rightarrow> string \<Rightarrow> redirect_world \<Rightarrow> hop_result" where
  "settle_failure t release reasonCode authority w =
     (let w1 = lease_rollback w;
          w2 = (if release then release_stream (rt_state t) w1 else w1)
      in Done (denied t reasonCode authority w2) (Refuses reasonCode))"

definition fail :: "redirect_transport \<Rightarrow> hop_state \<Rightarrow> string \<Rightarrow> string \<Rightarrow> redirect_world \<Rightarrow> hop_result" where
  "fail t h reasonCode authority w = settle_failure t (hs_release h) reasonCode authority (closeResponse t h w)"

definition request_authority :: "redirect_transport \<Rightarrow> http_request \<Rightarrow> string" where
  "request_authority t r = dynamicCanonicalAuthority (dl_names (rt_lib t)) (rq_url r)"

text \<open>The answer that is no redirect.\<close>

definition finish_hop :: "redirect_transport \<Rightarrow> string \<Rightarrow> hop_state \<Rightarrow> http_response \<Rightarrow> hop_result" where
  "finish_hop t expectedSource h resp =
     (if \<not> hs_active h then Done (hs_world h) (Responds resp)
      else if rs_status resp = 101 then fail t h ''response_failure'' (request_authority t (hs_req h)) (hs_world h)
      else
        let inner = (if rs_body resp = NilBody then NoBody else rs_body resp)
        in Done (hs_world h) (Responds (markDynamicResponse True expectedSource
             (resp\<lparr>rs_body := DynamicBody inner (hs_transport h) (hs_release h)\<rparr>))))"

text \<open>A hop on the authority of the request, before any discovered one was followed.\<close>

definition send_base :: "redirect_transport \<Rightarrow> hop_env \<Rightarrow> hop_state \<Rightarrow> http_response \<Rightarrow> http_request \<Rightarrow> url \<Rightarrow> string \<Rightarrow> hop_result" where
  "send_base t env h resp r target key =
     (let w1 = log_sent None r (close_body (rt_state t) (rs_body resp) (track r target (hs_world h)))
      in case he_reply env r of
           ReplyError e _ \<Rightarrow> Done w1 (Fails e)
         | Reply resp' \<Rightarrow>
             Continue (h\<lparr>hs_req := r, hs_resp := resp', hs_followed := Suc (hs_followed h), hs_visited := key # hs_visited h,
               hs_world := received resp' w1\<rparr>))"

definition same_authority_hop :: "redirect_transport \<Rightarrow> hop_env \<Rightarrow> hop_state \<Rightarrow> http_response \<Rightarrow> url \<Rightarrow> hop_result" where
  "same_authority_hop t env h resp u =
     (let req = hs_req h; w = hs_world h; L = rt_lib t;
          authority = (let a = dynamicCanonicalAuthority (dl_names L) u in if a = [] then request_authority t req else a);
          key = dynamicRedirectURLKey L u
      in if user u \<noteq> None \<or> \<not> http_scheme u then fail t h ''invalid_location'' authority w
         else if key \<in> set (hs_visited h) then fail t h ''redirect_loop'' authority w
         else if int (hs_followed h) \<ge> MaxRedirects (rp_limits (dynamicPolicy t)) then fail t h ''hop_limit'' authority w
         else case newExtremeCompatibleDynamicRedirectRequest t (rq_ctx req) req (rs_status resp) u of
           Inl reasonCode \<Rightarrow> fail t h reasonCode authority w
         | Inr (r, strip) \<Rightarrow>
             let headers = site_headers t (rq_header req) u;
                 headers' = (if strip then stripExtremeDynamicRedirectBodyHeaders headers else headers)
             in send_base t env h resp (r\<lparr>rq_header := headers'\<rparr>) u key)"

text \<open>A hop to another configured authority, before any discovered one was followed.\<close>

definition configured_headers :: "redirect_transport \<Rightarrow> http_request \<Rightarrow> http_request \<Rightarrow> url \<Rightarrow> http_header" where
  "configured_headers t req r u =
     site_headers t
       (if \<not> sameRedirectAuthority (rq_url req) u then
          (if rq_body r \<noteq> None then crossAuthorityRedirectBodyHeadersWithClientIPMode (rq_header req) (clientIPMode t)
           else crossAuthorityRedirectHeadersWithClientIPMode (rq_header req) (clientIPMode t))
        else rq_header req) u"

definition configured_hop :: "redirect_transport \<Rightarrow> hop_env \<Rightarrow> hop_state \<Rightarrow> http_response \<Rightarrow> url \<Rightarrow> hop_result" where
  "configured_hop t env h resp u =
     (let req = hs_req h
      in if disableLegacyRedirects t \<or> redirectHostKey u \<notin> set (playbackHosts t) \<or> hs_followed h \<ge> manualRedirectMaxHops
         then Done (hs_world h) (Responds resp)
         else case newExtremeCompatibleDynamicRedirectRequest t (rq_ctx req) req (rs_status resp) u of
           Inl reasonCode \<Rightarrow> fail t h reasonCode (request_authority t req) (hs_world h)
         | Inr (r, strip) \<Rightarrow>
             let headers = configured_headers t req r u;
                 headers' = (if strip then stripExtremeDynamicRedirectBodyHeaders headers else headers)
             in send_base t env h resp (r\<lparr>rq_header := headers'\<rparr>) u (dynamicRedirectURLKey (rt_lib t) u))"

text \<open>The admission of a discovered authority: the policy, the reservation and the lookup.\<close>

datatype admission = Admitted nat "addr list" | NotAdmitted string | AdmissionPanics

definition admit :: "redirect_transport \<Rightarrow> hop_env \<Rightarrow> http_request \<Rightarrow> url \<Rightarrow> redirect_world \<Rightarrow> redirect_world \<times> admission" where
  "admit t env req normalized w =
     (let L = rt_lib t; me = he_mint env;
          authority = dynamicCanonicalAuthority (dl_names L) normalized;
          refused = validateTarget (dl_names L) (dynamicPolicy t) (Some (rq_url req)) normalized (rt_self t) (me_ifaces1 me)
      in if refused \<noteq> [] then (w, NotAdmitted refused)
         else case reserveAuthority (rt_state t) authority (me_reserved me) (auth (dw_caps (rw_dyn w))) of
           (a, NilMapWrite) \<Rightarrow> (on_auth (\<lambda>_. a) w, AdmissionPanics)
         | (a, Denied r) \<Rightarrow> (on_auth (\<lambda>_. a) w, NotAdmitted (reason_text r))
         | (a, Reserved rid) \<Rightarrow>
             (case reservation_resolve (me_outcome me) (rt_self t) (me_ifaces2 me) of
                Inl r \<Rightarrow> (on_auth (\<lambda>_. rollback rid a) w, NotAdmitted r)
              | Inr ips \<Rightarrow> (on_auth (\<lambda>_. a) w, Admitted rid ips)))"

definition new_dynamic_transport :: "redirect_transport \<Rightarrow> hop_env \<Rightarrow> url \<Rightarrow> addr list \<Rightarrow> net_error + pinned" where
  "new_dynamic_transport t env target ips =
     (case dynamicTransportFactory t of
        Some f \<Rightarrow> f target ips (rt_self t)
      | None \<Rightarrow>
          newDynamicTransportWithDialerTimeout (dl_names (rt_lib t)) (dl_parse (rt_lib t)) (Some target) (map as_slice ips) True
            (rt_self t) (30 * second) (he_ifaces1 env) (he_ifaces2 env))"

text \<open>The fetch over the pinned transport, once a stream slot is held.\<close>

definition send_pinned ::
    "redirect_transport \<Rightarrow> hop_env \<Rightarrow> hop_state \<Rightarrow> nat \<Rightarrow> pinned \<Rightarrow> url \<Rightarrow> http_response \<Rightarrow> redirect_world \<Rightarrow> hop_result" where
  "send_pinned t env h rid transport normalized resp w =
     (let req = hs_req h; authority = dynamicCanonicalAuthority (dl_names (rt_lib t)) normalized
      in case newExtremeCompatibleDynamicRedirectRequest t (isolateDynamicOutboundContext (Some (rq_ctx req))) req (rs_status resp) normalized of
           Inl reasonCode \<Rightarrow> fail t h reasonCode authority (on_auth (rollback rid) w)
         | Inr (r, strip) \<Rightarrow>
             let headers = (if rq_body r \<noteq> None then dynamicRedirectBodyHeaders (rq_header req) else dynamicRedirectHeaders (rq_header req));
                 headers' = (if strip then stripExtremeDynamicRedirectBodyHeaders headers else headers);
                 r' = r\<lparr>rq_close := True, rq_header := headers'\<rparr>;
                 w1 = log_sent (Some transport) r' (closeResponse t h (track r' normalized w));
                 refuse = (\<lambda>reasonCode. settle_failure t (hs_release h) reasonCode authority (on_auth (rollback rid) w1))
             in case he_reply env r' of
                  ReplyError e _ \<Rightarrow> refuse (dynamicTransportFailureReason e)
                | Reply None \<Rightarrow> refuse ''response_failure''
                | Reply (Some resp') \<Rightarrow>
                    let w2 = received (Some resp') w1;
                        w3 = w2\<lparr>rw_lease := lease_add rid (rw_lease w2), rw_open := rw_open w2 + 1\<rparr>
                    in Continue (h\<lparr>hs_req := r', hs_resp := Some (resp'\<lparr>rs_request := Some r'\<rparr>), hs_active := True,
                         hs_followed := Suc (hs_followed h), hs_visited := url_string normalized # hs_visited h,
                         hs_transport := Some transport,
                         hs_world := observe_redirect t ''allowed'' ''redirect_allowed'' authority w3\<rparr>))"

definition pinned_hop :: "redirect_transport \<Rightarrow> hop_env \<Rightarrow> hop_state \<Rightarrow> url \<Rightarrow> http_response \<Rightarrow> hop_result" where
  "pinned_hop t env h normalized resp =
     (let authority = dynamicCanonicalAuthority (dl_names (rt_lib t)) normalized
      in case admit t env (hs_req h) normalized (hs_world h) of
           (w, AdmissionPanics) \<Rightarrow> Done w Panics
         | (w, NotAdmitted r) \<Rightarrow> fail t h r authority w
         | (w, Admitted rid ips) \<Rightarrow>
             (case new_dynamic_transport t env normalized ips of
                Inl e \<Rightarrow> fail t h (if e = SelfTarget then ''self_target'' else ''address_denied'') authority (on_auth (rollback rid) w)
              | Inr transport \<Rightarrow>
                  if hs_held h then send_pinned t env h rid transport normalized resp w
                  else case acquireStream (rt_state t) (rw_budgets w) of
                    None \<Rightarrow> fail t h ''capacity_limit'' authority (on_auth (rollback rid) w)
                  | Some b \<Rightarrow> send_pinned t env (h\<lparr>hs_release := True, hs_held := True\<rparr>) rid transport normalized resp (w\<lparr>rw_budgets := b\<rparr>)))"

text \<open>A discovered location of the main video is handed to the player, once it was admitted.\<close>

definition direct_hop :: "redirect_transport \<Rightarrow> hop_env \<Rightarrow> hop_state \<Rightarrow> url \<Rightarrow> http_response \<Rightarrow> hop_result" where
  "direct_hop t env h normalized resp =
     (let authority = dynamicCanonicalAuthority (dl_names (rt_lib t)) normalized
      in case admit t env (hs_req h) normalized (hs_world h) of
           (w, AdmissionPanics) \<Rightarrow> Done w Panics
         | (w, NotAdmitted r) \<Rightarrow> fail t h r authority w
         | (w, Admitted rid _) \<Rightarrow>
             let w1 = observe_redirect t ''allowed'' ''redirect_allowed'' authority
                        (track (hs_req h) normalized (on_auth (commit rid) w))
             in case replaceResponseWithMainVideoRedirect (rt_state t) resp normalized w1 of (w2, r) \<Rightarrow> Done w2 (Responds r))"

text \<open>A discovered location is answered with a capability for it.\<close>

definition capability_headers_dropped :: "string list" where
  "capability_headers_dropped =
     [''Content-Encoding'', ''Content-Language'', ''Content-MD5'', ''Content-Range'', ''Content-Type'', ''Digest'', ''ETag'',
      ''Last-Modified'', ''Trailer'', ''Transfer-Encoding'']"

definition capability_hop :: "redirect_transport \<Rightarrow> hop_env \<Rightarrow> string \<Rightarrow> hop_state \<Rightarrow> issuer \<Rightarrow> url \<Rightarrow> http_response \<Rightarrow> hop_result" where
  "capability_hop t env expectedSource h i normalized resp =
     (let w = hs_world h; authority = dynamicCanonicalAuthority (dl_names (rt_lib t)) normalized
      in case mint (rt_lib t) i (he_mint env) (Some (rq_url (hs_req h))) normalized ''redirect'' (rw_dyn w) of
           (d, MintPanic) \<Rightarrow> Done (w\<lparr>rw_dyn := d\<rparr>) Panics
         | (d, MintDenied r) \<Rightarrow> fail t h r authority (w\<lparr>rw_dyn := d\<rparr>)
         | (d, Minted route _) \<Rightarrow>
             let w1 = observe_redirect t ''allowed'' ''redirect_allowed'' authority
                        (close_body (rt_state t) (rs_body resp) (w\<lparr>rw_dyn := d\<rparr>));
                 header = hdr_set ''Location'' route (hdr_set ''Content-Length'' ''0'' (del_all capability_headers_dropped (rs_header resp)))
             in Done w1 (Responds (markDynamicResponse False expectedSource
                  (resp\<lparr>rs_header := header, rs_body := NoBody, rs_length := 0, rs_trailer := 0\<rparr>))))"

definition discovered_hop ::
    "redirect_transport \<Rightarrow> hop_env \<Rightarrow> string \<Rightarrow> hop_state \<Rightarrow> http_response \<Rightarrow> url \<Rightarrow> bool \<Rightarrow> hop_result" where
  "discovered_hop t env expectedSource h resp u directMainVideo =
     (let L = rt_lib t; req = hs_req h; w = hs_world h
      in if \<not> sourceEnabled (dynamicPolicy t) ''redirect'' then fail t h ''unsupported_status'' (request_authority t req) w
         else case normalizeDynamicURL (dl_names L) (dl_parse L) (url_string u) of
           Inl _ \<Rightarrow> fail t h ''invalid_location'' (request_authority t req) w
         | Inr normalized \<Rightarrow>
             let authority = dynamicCanonicalAuthority (dl_names L) normalized
             in if \<not> rp_available (dynamicPolicy t) then fail t h ''runtime_unavailable'' authority w
                else if url_string normalized \<in> set (hs_visited h) then fail t h ''redirect_loop'' authority w
                else if int (hs_followed h) \<ge> MaxRedirects (rp_limits (dynamicPolicy t)) then fail t h ''hop_limit'' authority w
                else if directMainVideo then direct_hop t env h normalized resp
                else if followUnknownRedirects t \<and> shouldInternallyFollowDynamicRedirect req then pinned_hop t env h normalized resp
                else case capabilityIssuer t of
                  Some i \<Rightarrow> if get_or_head (rq_method req) then capability_hop t env expectedSource h i normalized resp
                            else pinned_hop t env h normalized resp
                | None \<Rightarrow> pinned_hop t env h normalized resp)"

text \<open>One round of the loop.\<close>

definition hop_step :: "redirect_transport \<Rightarrow> hop_env \<Rightarrow> string \<Rightarrow> hop_state \<Rightarrow> hop_result" where
  "hop_step t env expectedSource h =
     (let req = hs_req h; w = hs_world h; profile = rp_profile (dynamicPolicy t); own = request_authority t req
      in case hs_resp h of
           None \<Rightarrow> fail t h ''response_failure'' own w
         | Some resp \<Rightarrow>
             if dynamicRejectedRedirectStatus (rs_status resp) profile then fail t h ''unsupported_status'' own w
             else if \<not> dynamicHandledRedirectStatus (rs_status resp) profile then finish_hop t expectedSource h resp
             else case singleDynamicLocation (rs_header resp) of
               None \<Rightarrow> fail t h ''invalid_location'' own w
             | Some loc \<Rightarrow>
                 (case location_url (rt_lib t) req loc of
                    None \<Rightarrow> fail t h ''invalid_location'' own w
                  | Some u \<Rightarrow>
                      let same = sameRedirectAuthority (rq_url req) u;
                          unknown = (\<not> same \<and> redirectHostKey u \<notin> set (configuredAuthorities t));
                          direct = (mainVideoDirect t \<and> expectedSource \<noteq> ''hls'' \<and> expectedSource \<noteq> ''dash'' \<and>
                            (isMainVideoStreamRequest (rq_method req) (rq_header req) (rq_url req) \<or> isMainVideoStreamURL u))
                      in if direct \<and> \<not> unknown \<and> user u = None \<and> http_scheme u
                         then (case replaceResponseWithMainVideoRedirect (rt_state t) resp u (track req u w) of
                                 (w', r) \<Rightarrow> Done w' (Responds r))
                         else if \<not> hs_active h \<and> same then same_authority_hop t env h resp u
                         else if \<not> hs_active h \<and> \<not> unknown then configured_hop t env h resp u
                         else discovered_hop t env expectedSource h resp u direct))"

definition hop_bound :: "redirect_transport \<Rightarrow> nat" where
  "hop_bound t = max manualRedirectMaxHops (nat (MaxRedirects (rp_limits (dynamicPolicy t))))"

lemma fail_done: "fail t h r a w = Continue h' \<longleftrightarrow> False" "settle_failure t b r a w = Continue h' \<longleftrightarrow> False"
  by (simp_all add: fail_def settle_failure_def Let_def)

lemma send_base_continue: "send_base t env h resp r u key = Continue h' \<Longrightarrow> hs_followed h' = Suc (hs_followed h)"
  by (auto simp: send_base_def Let_def split: reply.splits)

lemma send_pinned_continue: "send_pinned t env h rid p u resp w = Continue h' \<Longrightarrow> hs_followed h' = Suc (hs_followed h)"
  by (auto simp: send_pinned_def Let_def fail_done split: reply.splits sum.splits option.splits)

lemma pinned_hop_continue: "pinned_hop t env h u resp = Continue h' \<Longrightarrow> hs_followed h' = Suc (hs_followed h)"
  by (auto simp: pinned_hop_def Let_def fail_done split: prod.splits admission.splits sum.splits option.splits if_splits
      dest: send_pinned_continue)

lemma direct_hop_done: "direct_hop t env h u resp = Continue h' \<longleftrightarrow> False"
  by (auto simp: direct_hop_def Let_def fail_done split: prod.splits admission.splits)

lemma capability_hop_done: "capability_hop t env s h i u resp = Continue h' \<longleftrightarrow> False"
  by (auto simp: capability_hop_def Let_def fail_done split: prod.splits minted.splits)

lemma same_authority_continue: "same_authority_hop t env h resp u = Continue h' \<Longrightarrow>
    hs_followed h < hop_bound t \<and> hs_followed h' = Suc (hs_followed h)"
  by (auto simp: same_authority_hop_def Let_def fail_done hop_bound_def split: sum.splits if_splits dest: send_base_continue)

lemma configured_continue: "configured_hop t env h resp u = Continue h' \<Longrightarrow>
    hs_followed h < hop_bound t \<and> hs_followed h' = Suc (hs_followed h)"
  by (auto simp: configured_hop_def Let_def fail_done hop_bound_def split: sum.splits if_splits dest: send_base_continue)

lemma discovered_continue: "discovered_hop t env s h resp u d = Continue h' \<Longrightarrow>
    hs_followed h < hop_bound t \<and> hs_followed h' = Suc (hs_followed h)"
  by (auto simp: discovered_hop_def Let_def fail_done hop_bound_def direct_hop_done capability_hop_done
      split: sum.splits if_splits option.splits dest: pinned_hop_continue)

lemma finish_hop_done: "finish_hop t s h r = Continue h' \<longleftrightarrow> False"
  by (simp add: finish_hop_def fail_done Let_def)

lemma hop_step_continue:
  assumes "hop_step t env s h = Continue h'"
  shows "hs_followed h < hop_bound t \<and> hs_followed h' = Suc (hs_followed h)"
  using assms
  by (auto simp: hop_step_def Let_def fail_done finish_hop_done split: option.splits if_splits prod.splits
      dest: same_authority_continue configured_continue discovered_continue)

text \<open>The loop. The hop of number \<open>n\<close> meets the environment \<open>n + 1\<close>; the first answer came with the environment 0.\<close>

function dynamic_loop :: "redirect_transport \<Rightarrow> (nat \<Rightarrow> hop_env) \<Rightarrow> string \<Rightarrow> hop_state \<Rightarrow> redirect_world \<times> redirect_result" where
  "dynamic_loop t env expectedSource h =
     (case hop_step t (env (Suc (hs_followed h))) expectedSource h of
        Done w r \<Rightarrow> (w, r)
      | Continue h' \<Rightarrow> dynamic_loop t env expectedSource h')"
  by pat_completeness auto

termination
proof (relation "measure (\<lambda>(t, env, s, h). hop_bound t - hs_followed h)", goal_cases)
  case (2 t env s h h')
  from hop_step_continue [OF 2] show ?case by (simp add: diff_less_mono2)
qed simp

declare dynamic_loop.simps [simp del]

definition expected_source :: "request_context \<Rightarrow> string" where
  "expected_source ctx = (case ctx ExpectedSource of Some (CtxText s) \<Rightarrow> s | _ \<Rightarrow> [])"

definition roundTripDynamic :: "redirect_transport \<Rightarrow> (nat \<Rightarrow> hop_env) \<Rightarrow> http_request \<Rightarrow> http_response option \<Rightarrow> redirect_world \<Rightarrow>
    redirect_world \<times> redirect_result" where
  "roundTripDynamic t env req resp w =
     dynamic_loop t env (expected_source (rq_ctx req))
       \<lparr>hs_req = req, hs_resp = resp, hs_active = False, hs_followed = 0,
        hs_visited = [dynamicRedirectURLKey (rt_lib t) (rq_url req)], hs_transport = None, hs_release = False,
        hs_held = streamLeaseHeld t, hs_world = w\<lparr>rw_lease := \<lparr>retained = False, lease_done = False, lease_reservations = []\<rparr>\<rparr>\<rparr>"

section \<open>RoundTrip\<close>

definition request_eligible :: "http_request \<Rightarrow> bool" where
  "request_eligible r \<longleftrightarrow> rq_ctx r RequestEligible = Some (CtxBool True)"

definition roundTripDirectFallback ::
    "redirect_transport \<Rightarrow> (nat \<Rightarrow> hop_env) \<Rightarrow> http_request \<Rightarrow> http_response \<Rightarrow> url \<Rightarrow> redirect_world \<Rightarrow> redirect_world \<times> redirect_result" where
  "roundTripDirectFallback t env req resp target w =
     (let fallback = (\<lambda>w r. case replaceResponseWithMainVideoDirectTarget (rt_state t) r target (track req target w) of
                        (w', r') \<Rightarrow> (w', Responds r'))
      in if rp_configured (dynamicPolicy t) \<and> sourceEnabled (dynamicPolicy t) ''redirect''
         then (case roundTripDynamic t env req (Some resp) w of
                 (w', Responds r) \<Rightarrow> if mainVideoDirectResponseResolved r then (w', Responds r) else fallback w' r
               | res \<Rightarrow> res)
         else fallback w resp)"

text \<open>A transport that answers with neither a response nor an error breaks its contract; the caller then panics.\<close>

definition redirect_RoundTrip :: "redirect_transport \<Rightarrow> (nat \<Rightarrow> hop_env) \<Rightarrow> http_request \<Rightarrow> redirect_world \<Rightarrow> redirect_world \<times> redirect_result" where
  "redirect_RoundTrip t env req w0 =
     (let directFallback = (if mainVideoDirect t then mainVideoDirectFallbackTarget (rq_ctx req) else None);
          enabled = sourceEnabled (dynamicPolicy t) ''redirect''; configured = rp_configured (dynamicPolicy t);
          w = log_sent None req w0
      in case he_reply (env 0) req of
           ReplyError e _ \<Rightarrow>
             (case directFallback of
                Some target \<Rightarrow>
                  (case newMainVideoDirectFallbackResponse (rt_state t) req target (track req target w) of (w', r) \<Rightarrow> (w', Responds r))
              | None \<Rightarrow>
                  (if rt_database t \<and> configured
                   then enqueue \<lparr>ob_authority = request_authority t req, ob_source = ''redirect'', ob_kind = ''same_authority'',
                     ob_decision = ''denied'', ob_reason = ''response_failure'', ob_status = 0\<rparr> w
                   else w, Fails e))
         | Reply None \<Rightarrow> (w, Panics)
         | Reply (Some resp) \<Rightarrow>
             let w1 = received (Some resp) w
             in case directFallback of
                  Some target \<Rightarrow> roundTripDirectFallback t env req resp target w1
                | None \<Rightarrow>
                    if \<not> get_or_head (rq_method req) \<and> playbackHosts t \<noteq> [] then (w1, Responds resp)
                    else
                      let manualAllowed = (playbackHosts t \<noteq> [] \<and> (\<not> request_eligible req \<or> \<not> configured \<or> \<not> enabled));
                          (w2, r) = (if manualAllowed then roundTripLegacy t env req resp w1 else (w1, Responds resp))
                      in case r of
                           Responds resp' \<Rightarrow>
                             if \<not> configured \<or> \<not> request_eligible req \<or> \<not> enabled then (w2, Responds resp')
                             else roundTripDynamic t env req (Some resp') w2
                         | _ \<Rightarrow> (w2, r))"

end
