(* ===== verification/Redirect_Safety.thy ===== *)
theory Redirect_Safety
  imports Redirect_Transport
begin

text \<open>
  What \<open>redirectFollowTransport\<close> guarantees: how often it asks, what it sends to another authority, which hosts it
  reaches, and that it gives back what it holds.
\<close>

section \<open>The loop\<close>

lemma dynamic_loop_rule:
  assumes "P h"
    and "\<And>h h'. P h \<Longrightarrow> hop_step t (env (Suc (hs_followed h))) s h = Continue h' \<Longrightarrow> P h'"
    and "\<And>h w r. P h \<Longrightarrow> hop_step t (env (Suc (hs_followed h))) s h = Done w r \<Longrightarrow> Q w r"
  shows "case dynamic_loop t env s h of (w, r) \<Rightarrow> Q w r"
  using assms
proof (induction t env s h rule: dynamic_loop.induct [case_names Loop])
  case (Loop t env s h)
  show ?case
  proof (cases "hop_step t (env (Suc (hs_followed h))) s h")
    case (Continue h')
    from Loop.IH [OF Continue Loop.prems(2) [OF Loop.prems(1) Continue] Loop.prems(2,3)] Continue show ?thesis
      by (simp add: dynamic_loop.simps [of t env s h])
  next
    case (Done w r)
    from Loop.prems(3) [OF Loop.prems(1) Done] Done show ?thesis by (simp add: dynamic_loop.simps [of t env s h])
  qed
qed

section \<open>Requests\<close>

named_theorems same_log

lemma log_on_auth [same_log]: "rw_sent (on_auth f w) = rw_sent w"
  by (simp add: on_auth_def)

lemma log_stream [same_log]: "rw_sent (release_stream sid w) = rw_sent w"
  by (simp add: release_stream_def)

lemma log_lease [same_log]: "rw_sent (lease_on_body_close w) = rw_sent w" "rw_sent (lease_rollback w) = rw_sent w"
  by (simp_all add: lease_on_body_close_def lease_rollback_def same_log split: prod.split)

lemma log_close_body [same_log]: "rw_sent (close_body sid b w) = rw_sent w"
  by (induction sid b w rule: close_body.induct) (simp_all add: Let_def same_log)

lemma log_received [same_log]: "rw_sent (received r w) = rw_sent w"
  by (simp add: received_def split: option.split body.split)

lemma log_track [same_log]: "rw_sent (track r u w) = rw_sent w"
  by (simp add: track_def)

lemma log_observe [same_log]: "rw_sent (observeWithStatus t d r a n w) = rw_sent w" "rw_sent (observe_redirect t d r a w) = rw_sent w"
    "rw_sent (denied t r a w) = rw_sent w" "rw_sent (enqueue ob w) = rw_sent w"
  by (simp_all add: observeWithStatus_def observe_redirect_def denied_def enqueue_def Let_def)

lemma log_close_response [same_log]: "rw_sent (closeResponse t h w) = rw_sent w"
  by (simp add: closeResponse_def close_transport_def same_log split: option.split)

lemma log_fail: "fail t h r a w = Done w' res \<Longrightarrow> rw_sent w' = rw_sent w \<and> res = Refuses r"
  "settle_failure t b r a w = Done w' res \<Longrightarrow> rw_sent w' = rw_sent w \<and> res = Refuses r"
  by (auto simp: fail_def settle_failure_def Let_def same_log)

lemma log_replace [same_log]:
  "rw_sent (fst (replaceResponseWithMainVideoDirectTarget sid resp u w)) = rw_sent w"
  "rw_sent (fst (replaceResponseWithMainVideoRedirect sid resp u w)) = rw_sent w"
  "rw_sent (fst (newMainVideoDirectFallbackResponse sid req u w)) = rw_sent w"
  by (simp_all add: replaceResponseWithMainVideoDirectTarget_def replaceResponseWithMainVideoRedirect_def
      newMainVideoDirectFallbackResponse_def same_log)

lemma log_admit [same_log]: "rw_sent (fst (admit t env req u w)) = rw_sent w"
  by (simp add: admit_def Let_def same_log split: prod.split reserve_result.split sum.split)

section \<open>What a hop may send\<close>

text \<open>Everything that may cross to another configured authority, and to a discovered one.\<close>

definition crossing_headers :: "redirect_transport \<Rightarrow> string list" where
  "crossing_headers t = cross_authority_allowed @ dynamicReplayBodyHeaderNames @ client_ip_headers (clientIPMode t)"

definition pinned_headers :: "string list" where
  "pinned_headers = dynamic_redirect_allowed @ [''User-Agent''] @ dynamicReplayBodyHeaderNames"

text \<open>A pinned transport reaches public addresses only, none of them of this host, for a host that is not denied.\<close>

definition pin_ok :: "redirect_transport \<Rightarrow> pinned \<Rightarrow> bool" where
  "pin_ok t p \<longleftrightarrow>
     (\<exists>sp ifaces. rt_self t = Some sp \<and> target_ok (dl_names (rt_lib t)) sp (pin_target p) \<and> pins p \<noteq> [] \<and>
        (\<forall>a\<in>set (pins p). dynamicIPIsPublic a \<and> not_local sp ifaces a))"

text \<open>A request for a URL: what it is addressed to, and the host it names.\<close>

definition asks_for :: "redirect_transport \<Rightarrow> http_request \<Rightarrow> url \<Rightarrow> bool" where
  "asks_for t r u \<longleftrightarrow>
     (\<exists>v. dl_parse (rt_lib t) (url_string u) = Some v \<and> rq_url r = v\<lparr>host := removeEmptyPort (host v)\<rparr>) \<and> rq_host r = host u"

definition hop_ok :: "redirect_transport \<Rightarrow> http_request \<Rightarrow> pinned option \<Rightarrow> http_request \<Rightarrow> bool" where
  "hop_ok t prev via r \<longleftrightarrow>
     (\<exists>u. asks_for t r u \<and>
       (case via of
          Some p \<Rightarrow> keys_in (rq_header r) pinned_headers \<and> rq_close r \<and> (dynamicTransportFactory t = None \<longrightarrow> pin_ok t p) \<and>
            (\<exists>ifaces. validateTarget (dl_names (rt_lib t)) (dynamicPolicy t) (Some (rq_url prev)) u (rt_self t) ifaces = [])
        | None \<Rightarrow>
            sameRedirectAuthority (rq_url prev) u \<or>
            redirectHostKey u \<in> set (playbackHosts t) \<and>
            (\<forall>k. mget (rq_header r) k \<noteq> None \<longrightarrow> k \<in> set (map CanonicalHeaderKey (crossing_headers t)) \<or>
               k \<in> fst ` set (up_values (rt_upstream t)) \<and> redirectHostKey u = up_authority (rt_upstream t))))"

fun hops_ok :: "redirect_transport \<Rightarrow> http_request \<Rightarrow> (pinned option \<times> http_request) list \<Rightarrow> bool" where
  "hops_ok t prev [] \<longleftrightarrow> True"
| "hops_ok t prev ((via, r) # hs) \<longleftrightarrow> hop_ok t prev via r \<and> hops_ok t r hs"

definition last_request :: "http_request \<Rightarrow> (pinned option \<times> http_request) list \<Rightarrow> http_request" where
  "last_request prev hs = (if hs = [] then prev else snd (last hs))"

lemma hops_ok_snoc: "hops_ok t prev (hs @ [(via, r)]) \<longleftrightarrow> hops_ok t prev hs \<and> hop_ok t (last_request prev hs) via r"
  by (induction t prev hs rule: hops_ok.induct) (auto simp: last_request_def)

lemma last_request_snoc [simp]: "last_request prev (hs @ [(via, r)]) = r" "last_request prev [] = prev"
  by (simp_all add: last_request_def)

lemma redirect_request_asks:
  assumes "newExtremeCompatibleDynamicRedirectRequest t ctx prev status u = Inr (r, strip)"
  shows "asks_for t r u"
  using assms
  by (auto simp: newExtremeCompatibleDynamicRedirectRequest_def new_http_request_def asks_for_def Let_def
      split: option.splits prod.splits if_splits)

lemma asks_for_update [simp]:
  "asks_for t (r\<lparr>rq_header := x\<rparr>) u = asks_for t r u" "asks_for t (r\<lparr>rq_close := c\<rparr>) u = asks_for t r u"
  by (simp_all add: asks_for_def)

lemma legacy_request_asks: "legacy_request t req u = Some r \<Longrightarrow> asks_for t r u"
  by (auto simp: legacy_request_def new_http_request_def asks_for_def Let_def split: option.splits if_splits)

section \<open>The headers of each kind of hop\<close>

definition crosses :: "redirect_transport \<Rightarrow> url \<Rightarrow> http_header \<Rightarrow> bool" where
  "crosses t u h \<longleftrightarrow>
     (\<forall>k. mget h k \<noteq> None \<longrightarrow> k \<in> set (map CanonicalHeaderKey (crossing_headers t)) \<or>
        k \<in> fst ` set (up_values (rt_upstream t)) \<and> redirectHostKey u = up_authority (rt_upstream t))"

lemma strip_body_headers_keys: "crosses t u h \<Longrightarrow> crosses t u (stripExtremeDynamicRedirectBodyHeaders h)"
  by (auto simp: crosses_def stripExtremeDynamicRedirectBodyHeaders_def del_all_get)

lemma rewrite_keys: "keys_in h names \<Longrightarrow> keys_in (rewriteEmbyAuthorizationHeaders h n p) names"
  unfolding keys_in_def rewriteEmbyAuthorizationHeaders_def by (auto simp: mget_map_value)

lemma ua_policy_keys:
  assumes "keys_in h names" "''User-Agent'' \<in> set names"
  shows "keys_in (applyUAHeaderPolicy h p) names"
  using assms by (auto simp: applyUAHeaderPolicy_def applyUAProfileHeaders_def intro!: rewrite_keys hdr_set_keys)

lemma foldl_del_get: "mget (foldl (\<lambda>h n. hdr_del n h) h ns) k \<noteq> None \<Longrightarrow> mget h k \<noteq> None"
  by (induction ns arbitrary: h) (force split: if_splits)+

lemma foldl_put_get: "mget (foldl (\<lambda>h (n, vs). mput n vs h) h xs) k \<noteq> None \<Longrightarrow> mget h k \<noteq> None \<or> k \<in> fst ` set xs"
  by (induction xs arbitrary: h) (force split: if_splits)+

lemma site_headers_cross:
  assumes "keys_in h (crossing_headers t)"
  shows "crosses t u (site_headers t h u)"
proof -
  have ua: "keys_in (applyUAHeaderPolicy h (rt_ua t)) (crossing_headers t)"
    by (rule ua_policy_keys [OF assms]) (simp add: crossing_headers_def cross_authority_allowed_def)
  let ?d = "foldl (\<lambda>h n. hdr_del n h) (applyUAHeaderPolicy h (rt_ua t)) (map fst (up_values (rt_upstream t)))"
  have d: "keys_in ?d (crossing_headers t)" using ua foldl_del_get unfolding keys_in_def by blast
  show ?thesis
  proof (cases "redirectHostKey u = up_authority (rt_upstream t)")
    case True
    have "k \<in> set (map CanonicalHeaderKey (crossing_headers t)) \<or> k \<in> fst ` set (up_values (rt_upstream t))"
      if "mget (foldl (\<lambda>h (n, vs). mput n vs h) ?d (up_values (rt_upstream t))) k \<noteq> None" for k
      using foldl_put_get [OF that] d unfolding keys_in_def by blast
    with True show ?thesis by (simp add: crosses_def site_headers_def upstreamHeaderPolicy_apply_def Let_def)
  next
    case False
    with d show ?thesis by (simp add: crosses_def keys_in_def site_headers_def upstreamHeaderPolicy_apply_def Let_def)
  qed
qed

lemma cross_keys:
  "keys_in (crossAuthorityRedirectHeaders h) cross_authority_allowed"
  "keys_in (crossAuthorityRedirectHeadersWithClientIPMode h (clientIPMode t)) (crossing_headers t)"
  "keys_in (crossAuthorityRedirectBodyHeadersWithClientIPMode h (clientIPMode t)) (crossing_headers t)"
proof -
  have a: "keys_in (copy_headers cross_authority_allowed h []) cross_authority_allowed"
    using copy_headers_keys [OF keys_in_empty, of cross_authority_allowed h "[]"] by simp
  then show k: "keys_in (crossAuthorityRedirectHeaders h) cross_authority_allowed"
    by (simp add: crossAuthorityRedirectHeaders_def crossAuthorityHeaders_def stripSensitive_keys)
  from copy_headers_keys [OF k] show "keys_in (crossAuthorityRedirectHeadersWithClientIPMode h (clientIPMode t)) (crossing_headers t)"
    unfolding crossAuthorityRedirectHeadersWithClientIPMode_def copyNormalizedClientIPHeaders_def
    by (rule keys_in_mono) (auto simp: crossing_headers_def)
  from copy_headers_keys [OF copy_headers_keys [OF k]]
  show "keys_in (crossAuthorityRedirectBodyHeadersWithClientIPMode h (clientIPMode t)) (crossing_headers t)"
    unfolding crossAuthorityRedirectBodyHeadersWithClientIPMode_def crossAuthorityRedirectBodyHeaders_def
      copyDynamicReplayBodyHeaders_def copyNormalizedClientIPHeaders_def
    by (rule keys_in_mono) (auto simp: crossing_headers_def)
qed

lemma pinned_keys: "keys_in (dynamicRedirectHeaders h) pinned_headers" "keys_in (dynamicRedirectBodyHeaders h) pinned_headers"
proof -
  have a: "keys_in (copy_headers dynamic_redirect_allowed h []) (dynamic_redirect_allowed @ [''User-Agent''])"
    using copy_headers_keys [OF keys_in_empty, of dynamic_redirect_allowed h "[''User-Agent'']"] by simp
  have d: "keys_in (dynamicRedirectHeaders h) (dynamic_redirect_allowed @ [''User-Agent''])"
    by (auto simp: dynamicRedirectHeaders_def Let_def intro!: hdr_set_keys a)
  then show "keys_in (dynamicRedirectHeaders h) pinned_headers" by (rule keys_in_mono) (auto simp: pinned_headers_def)
  from copy_headers_keys [OF d, of dynamicReplayBodyHeaderNames h] show "keys_in (dynamicRedirectBodyHeaders h) pinned_headers"
    unfolding dynamicRedirectBodyHeaders_def copyDynamicReplayBodyHeaders_def
    by (rule keys_in_mono) (auto simp: pinned_headers_def)
qed

lemma new_transport_pins:
  assumes "newDynamicTransportWithDialerTimeout lib parse target ips d policy timeout addrs1 addrs2 = Inr p"
  shows "\<exists>sp. policy = Some sp \<and> target_ok lib sp (pin_target p) \<and> pins p \<noteq> [] \<and>
    (\<forall>a\<in>set (pins p). dynamicIPIsPublic a \<and> not_local sp addrs2 a)"
proof -
  obtain sp where sp: "policy = Some sp" using assms by (auto simp: newDynamicTransportWithDialerTimeout_def split: option.splits)
  have v: "validateDynamicResolvedIPsWithPolicy ips (Some sp) addrs2 = Inr (pins p)"
    and n: "validateNormalizedTarget lib sp (pin_target p) addrs1 = None"
    using assms sp
    by (auto simp: newDynamicTransportWithDialerTimeout_def Let_def split: if_splits option.splits sum.splits)
  note f = validated_facts(5,6) [OF policy_facts(1) [OF v]] policy_facts(2) [OF v]
  with sp validateNormalizedTarget_ok [OF n] show ?thesis by blast
qed

lemma new_dynamic_transport_ok:
  assumes "new_dynamic_transport t env u ips = Inr p"
  shows "dynamicTransportFactory t = None \<longrightarrow> pin_ok t p"
  using assms new_transport_pins unfolding new_dynamic_transport_def pin_ok_def by fastforce

lemma admit_validated:
  assumes "admit t env req u w = (w', Admitted rid ips)"
  shows "validateTarget (dl_names (rt_lib t)) (dynamicPolicy t) (Some (rq_url req)) u (rt_self t) (me_ifaces1 (he_mint env)) = []"
  using assms by (auto simp: admit_def Let_def split: if_splits)


section \<open>What a step adds to the log\<close>

text \<open>The log after a step of number \<open>n\<close>: as before, or with one hop that may be sent.\<close>

definition logged :: "redirect_transport \<Rightarrow> http_request \<Rightarrow> nat \<Rightarrow> redirect_world \<Rightarrow> hop_result \<Rightarrow> bool" where
  "logged t req n w res \<longleftrightarrow>
     (case res of
        Done w' _ \<Rightarrow> rw_sent w' = rw_sent w \<or> (\<exists>via r. rw_sent w' = rw_sent w @ [(via, r)] \<and> hop_ok t req via r \<and> n < hop_bound t)
      | Continue h' \<Rightarrow> \<exists>via. rw_sent (hs_world h') = rw_sent w @ [(via, hs_req h')] \<and> hop_ok t req via (hs_req h'))"

lemma hop_bound_less: "\<not> MaxRedirects (rp_limits (dynamicPolicy t)) \<le> int n \<Longrightarrow> n < hop_bound t"
  "\<not> manualRedirectMaxHops \<le> n \<Longrightarrow> n < hop_bound t"
  by (auto simp: hop_bound_def)

lemma logged_fail [simp]: "rw_sent w = rw_sent w0 \<Longrightarrow> logged t req n w0 (fail t h r a w)"
  by (simp add: logged_def fail_def settle_failure_def Let_def same_log)

lemma logged_same [simp]: "rw_sent w = rw_sent w0 \<Longrightarrow> logged t req n w0 (Done w res)"
  by (simp add: logged_def)

lemma logged_send_base:
  assumes "asks_for t r u" "sameRedirectAuthority (rq_url req) u \<or> redirectHostKey u \<in> set (playbackHosts t) \<and> crosses t u (rq_header r)"
    "n < hop_bound t"
  shows "logged t req n (hs_world h) (send_base t env h resp r u key)"
proof -
  have ok: "hop_ok t req None r" using assms unfolding hop_ok_def crosses_def by auto
  show ?thesis using ok assms(3) by (simp add: logged_def send_base_def Let_def log_sent_def same_log split: reply.split)
qed

lemma logged_same_authority:
  assumes "sameRedirectAuthority (rq_url (hs_req h)) u"
  shows "logged t (hs_req h) (hs_followed h) (hs_world h) (same_authority_hop t env h resp u)"
  unfolding same_authority_hop_def Let_def
  by (auto split: sum.split intro!: logged_send_base simp: assms redirect_request_asks hop_bound_less)

lemma logged_configured: "logged t (hs_req h) (hs_followed h) (hs_world h) (configured_hop t env h resp u)"
proof -
  have c: "sameRedirectAuthority (rq_url (hs_req h)) u \<or> crosses t u (configured_headers t (hs_req h) r u)" for r
    by (auto simp: configured_headers_def intro: site_headers_cross cross_keys)
  show ?thesis
    unfolding configured_hop_def Let_def
    using c by (auto split: sum.split intro!: logged_send_base simp: redirect_request_asks strip_body_headers_keys hop_bound_less)
qed

lemma logged_send_pinned:
  assumes "rw_sent w = rw_sent w0" "dynamicTransportFactory t = None \<longrightarrow> pin_ok t p"
    "validateTarget (dl_names (rt_lib t)) (dynamicPolicy t) (Some (rq_url (hs_req h))) u (rt_self t) ifaces = []"
    "n < hop_bound t"
  shows "logged t (hs_req h) n w0 (send_pinned t env h rid p u resp w)"
proof (cases "newExtremeCompatibleDynamicRedirectRequest t (isolateDynamicOutboundContext (Some (rq_ctx (hs_req h)))) (hs_req h) (rs_status resp) u")
  case (Inl reason)
  then show ?thesis using assms(1) by (simp add: send_pinned_def Let_def same_log)
next
  case (Inr x)
  obtain r strip where x: "x = (r, strip)" by fastforce
  define hd where "hd = (let g = if rq_body r \<noteq> None then dynamicRedirectBodyHeaders (rq_header (hs_req h))
      else dynamicRedirectHeaders (rq_header (hs_req h)) in if strip then stripExtremeDynamicRedirectBodyHeaders g else g)"
  have "keys_in hd pinned_headers"
    by (auto simp: hd_def Let_def stripExtremeDynamicRedirectBodyHeaders_def intro!: pinned_keys del_all_keys)
  moreover have "asks_for t r u" using redirect_request_asks Inr x by blast
  ultimately have ok: "hop_ok t (hs_req h) (Some p) (r\<lparr>rq_close := True, rq_header := hd\<rparr>)"
    using assms(2,3) unfolding hop_ok_def by auto
  show ?thesis
    unfolding send_pinned_def Let_def Inr x sum.case prod.case hd_def [unfolded Let_def, symmetric]
    using ok assms(1,4) by (auto simp: logged_def log_sent_def same_log settle_failure_def Let_def split: reply.split option.split)
qed

lemma logged_pinned:
  assumes "n < hop_bound t"
  shows "logged t (hs_req h) n (hs_world h) (pinned_hop t env h u resp)"
proof -
  obtain w ad where a: "admit t env (hs_req h) u (hs_world h) = (w, ad)" by fastforce
  have s: "rw_sent w = rw_sent (hs_world h)" using log_admit [of t env "hs_req h" u "hs_world h"] a by simp
  show ?thesis
  proof (cases ad)
    case (Admitted rid ips)
    show ?thesis
    proof (cases "new_dynamic_transport t env u ips")
      case (Inl e)
      with a s Admitted show ?thesis by (simp add: pinned_hop_def Let_def same_log)
    next
      case (Inr p)
      note facts = new_dynamic_transport_ok [OF Inr] admit_validated [OF a [unfolded Admitted]]
      have "logged t (hs_req h') n (hs_world h) (send_pinned t env h' rid p u resp w')"
        if "hs_req h' = hs_req h" "rw_sent w' = rw_sent w" for h' w'
        by (rule logged_send_pinned [where ifaces = "me_ifaces1 (he_mint env)"]) (use facts s that assms in auto)
      from this [of h w] this [of "h\<lparr>hs_release := True, hs_held := True\<rparr>"] a s Admitted Inr show ?thesis
        by (auto simp: pinned_hop_def Let_def same_log split: option.split)
    qed
  qed (use a s in \<open>simp_all add: pinned_hop_def Let_def\<close>)
qed

lemma logged_direct: "logged t (hs_req h) (hs_followed h) (hs_world h) (direct_hop t env h u resp)"
proof -
  obtain w ad where a: "admit t env (hs_req h) u (hs_world h) = (w, ad)" by fastforce
  have s: "rw_sent w = rw_sent (hs_world h)" using log_admit [of t env "hs_req h" u "hs_world h"] a by simp
  show ?thesis
    using a s by (auto simp: direct_hop_def Let_def case_prod_beta same_log split: admission.split)
qed

lemma logged_capability: "logged t (hs_req h) (hs_followed h) (hs_world h) (capability_hop t env s h i u resp)"
  by (auto simp: capability_hop_def Let_def same_log split: prod.split minted.split)

lemma logged_discovered: "logged t (hs_req h) (hs_followed h) (hs_world h) (discovered_hop t env s h resp u d)"
  by (auto simp: discovered_hop_def Let_def logged_direct logged_pinned logged_capability hop_bound_less split: sum.split option.split)

lemma logged_step: "logged t (hs_req h) (hs_followed h) (hs_world h) (hop_step t env s h)"
  by (auto simp: hop_step_def Let_def finish_hop_def logged_same_authority logged_configured logged_discovered case_prod_beta same_log
      split: option.split)


text \<open>The requests of a run: they were sent one after the other, each was allowed, and they are at most \<open>hop_bound\<close>.\<close>

definition run_log :: "redirect_transport \<Rightarrow> http_request \<Rightarrow> redirect_world \<Rightarrow> redirect_world \<Rightarrow> bool" where
  "run_log t req w w' \<longleftrightarrow> (\<exists>hs. rw_sent w' = rw_sent w @ hs \<and> hops_ok t req hs \<and> length hs \<le> hop_bound t)"

lemma dynamic_loop_log:
  assumes "hs_followed h = 0"
  shows "case dynamic_loop t env s h of (w, r) \<Rightarrow> run_log t (hs_req h) (hs_world h) w"
proof -
  let ?P = "\<lambda>g. \<exists>hs. rw_sent (hs_world g) = rw_sent (hs_world h) @ hs \<and> hops_ok t (hs_req h) hs \<and>
    last_request (hs_req h) hs = hs_req g \<and> length hs = hs_followed g \<and> hs_followed g \<le> hop_bound t"
  show ?thesis
  proof (rule dynamic_loop_rule [where P = ?P and Q = "\<lambda>w r. run_log t (hs_req h) (hs_world h) w"])
    show "?P h" using assms by (intro exI [of _ "[]"]) simp
  next
    fix g g'
    assume P: "?P g" and c: "hop_step t (env (Suc (hs_followed g))) s g = Continue g'"
    then obtain hs where hs: "rw_sent (hs_world g) = rw_sent (hs_world h) @ hs" "hops_ok t (hs_req h) hs"
      "last_request (hs_req h) hs = hs_req g" "length hs = hs_followed g" by blast
    obtain via where v: "rw_sent (hs_world g') = rw_sent (hs_world g) @ [(via, hs_req g')]" "hop_ok t (hs_req g) via (hs_req g')"
      using logged_step [of t g "env (Suc (hs_followed g))" s] c by (auto simp: logged_def)
    show "?P g'"
      using hs v hop_step_continue [OF c] by (intro exI [of _ "hs @ [(via, hs_req g')]"]) (simp add: hops_ok_snoc)
  next
    fix g w r
    assume P: "?P g" and d: "hop_step t (env (Suc (hs_followed g))) s g = Done w r"
    then obtain hs where hs: "rw_sent (hs_world g) = rw_sent (hs_world h) @ hs" "hops_ok t (hs_req h) hs"
      "last_request (hs_req h) hs = hs_req g" "length hs = hs_followed g" "hs_followed g \<le> hop_bound t" by blast
    from logged_step [of t g "env (Suc (hs_followed g))" s] d
    consider "rw_sent w = rw_sent (hs_world g)" |
      via r' where "rw_sent w = rw_sent (hs_world g) @ [(via, r')]" "hop_ok t (hs_req g) via r'" "hs_followed g < hop_bound t"
      by (auto simp: logged_def)
    then show "run_log t (hs_req h) (hs_world h) w"
    proof cases
      case 1
      with hs show ?thesis unfolding run_log_def by (intro exI [of _ hs]) simp
    next
      case 2
      with hs show ?thesis
        unfolding run_log_def by (intro exI [of _ "hs @ [(via, r')]"]) (simp add: hops_ok_snoc)
    qed
  qed
qed

lemma legacy_headers:
  assumes "legacy_request t req u = Some r"
  shows "asks_for t r u" "sameRedirectAuthority (rq_url req) u \<or> crosses t u (rq_header r)"
  using assms legacy_request_asks [OF assms] site_headers_cross [OF cross_keys(2)]
  by (cases "sameRedirectAuthority (rq_url req) u"; auto simp: legacy_request_def)+

lemma legacy_loop_log:
  "legacy_loop n t env k visited req resp w = (w', res) \<Longrightarrow>
     \<exists>hs. rw_sent w' = rw_sent w @ hs \<and> hops_ok t req hs \<and> length hs \<le> n"
proof (induction n t env k visited req resp w arbitrary: w' res rule: legacy_loop.induct)
  case (2 n t env k visited req resp w)
  let ?done = "rw_sent w' = rw_sent w"
  let ?loc = "hdr_get (rs_header resp) ''Location''"
  let ?goal = "\<exists>hs. rw_sent w' = rw_sent w @ hs \<and> hops_ok t req hs \<and> length hs \<le> Suc n"
  have stop: ?goal if ?done using that by (intro exI [of _ "[]"]) simp
  show ?case
  proof (cases "\<not> manualHandledRedirectStatus (rs_status resp) \<or> ?loc = []")
    case True
    with "2.prems" stop show ?thesis by auto
  next
    case moved: False
    show ?thesis
    proof (cases "location_url (rt_lib t) req ?loc")
      case None
      with moved "2.prems" stop show ?thesis by auto
    next
      case (Some u)
      let ?bad = "\<not> http_scheme u \<or> user u \<noteq> None \<or> fragment u \<noteq> [] \<or> raw_fragment u \<noteq> [] \<or>
        redirectHostKey u \<notin> set (playbackHosts t)"
      let ?key = "dynamicRedirectURLKey (rt_lib t) u"
      let ?w1 = "close_body (rt_state t) (rs_body resp) w"
      show ?thesis
      proof (cases "?bad \<or> k > 0 \<and> ?key \<in> set visited")
        case True
        with moved Some "2.prems" have ?done by (auto simp: Let_def same_log split: if_splits)
        with stop show ?thesis by blast
      next
        case good: False
        show ?thesis
        proof (cases "legacy_request t req u")
          case None
          with moved Some good "2.prems" have ?done by (auto simp: Let_def same_log split: if_splits)
          with stop show ?thesis by blast
        next
          case r: (Some r)
          let ?w2 = "log_sent None r (track r u ?w1)"
          have ok: "hop_ok t req None r"
            using legacy_headers [OF r] good unfolding hop_ok_def crosses_def by auto
          have one: ?goal if "rw_sent w' = rw_sent w @ [(None, r)]"
            using that ok by (intro exI [of _ "[(None, r)]"]) simp
          have s2: "rw_sent ?w2 = rw_sent w @ [(None, r)]" by (simp add: log_sent_def same_log)
          show ?thesis
          proof (cases "he_reply (env (Suc k)) r")
            case (ReplyError e x)
            with moved Some good r "2.prems" have "w' = ?w2" by (auto simp: Let_def)
            with one s2 show ?thesis by blast
          next
            case (Reply x)
            show ?thesis
            proof (cases x)
              case None
              with moved Some good r Reply "2.prems" have "w' = ?w2" by (auto simp: Let_def)
              with one s2 show ?thesis by blast
            next
              case x: (Some resp')
              let ?w3 = "observeWithStatus t ''allowed'' ''redirect_allowed'' (dynamicCanonicalAuthority (dl_names (rt_lib t)) u)
                 (rs_status resp) (received (Some resp') ?w2)"
              have "legacy_loop n t env (Suc k) (?key # visited) r resp' ?w3 = (w', res)"
                using moved Some good r Reply x "2.prems" by (auto simp: Let_def)
              from "2.IH" [OF moved Some _ refl _ refl r refl Reply x this] good
              obtain hs where "rw_sent w' = rw_sent ?w3 @ hs" "hops_ok t r hs" "length hs \<le> n" by blast
              with s2 ok show ?thesis by (intro exI [of _ "(None, r) # hs"]) (simp add: same_log)
            qed
          qed
        qed
      qed
    qed
  qed
qed simp

lemma round_trip_dynamic_log:
  "roundTripDynamic t env req resp w = (w', res) \<Longrightarrow> run_log t req w w'"
  using dynamic_loop_log [of "\<lparr>hs_req = req, hs_resp = resp, hs_active = False, hs_followed = 0,
        hs_visited = [dynamicRedirectURLKey (rt_lib t) (rq_url req)], hs_transport = None, hs_release = False,
        hs_held = streamLeaseHeld t, hs_world = w\<lparr>rw_lease := \<lparr>retained = False, lease_done = False, lease_reservations = []\<rparr>\<rparr>\<rparr>"
      t env "expected_source (rq_ctx req)"]
  by (auto simp: roundTripDynamic_def run_log_def)

lemma run_log_same: "rw_sent w' = rw_sent w \<Longrightarrow> run_log t req w w'"
  unfolding run_log_def by (intro exI [of _ "[]"]) simp

lemma run_log_trans_same: "run_log t req w w1 \<Longrightarrow> rw_sent w' = rw_sent w1 \<Longrightarrow> run_log t req w w'"
  by (simp add: run_log_def)

lemma round_trip_legacy_log:
  assumes "roundTripLegacy t env req resp w = (w', res)"
  shows "run_log t req w w'"
proof (cases "isManualRedirectEligibleRequest req")
  case True
  with assms have "legacy_loop manualRedirectMaxHops t env 0 [dynamicRedirectURLKey (rt_lib t) (rq_url req)] req resp w = (w', res)"
    by (simp add: roundTripLegacy_def)
  from legacy_loop_log [OF this] show ?thesis by (force simp: run_log_def hop_bound_def)
qed (use assms in \<open>simp add: roundTripLegacy_def run_log_same\<close>)

lemma direct_fallback_log:
  assumes "roundTripDirectFallback t env req resp target w = (w', res)"
  shows "run_log t req w w'"
proof -
  have fb: "run_log t req w w2" if "run_log t req w w1"
      "replaceResponseWithMainVideoDirectTarget (rt_state t) r target (track req target w1) = (w2, r')" for w1 w2 r r'
    using that log_replace(1) [of "rt_state t" r target "track req target w1"] run_log_trans_same by (simp add: log_track)
  obtain w1 res1 where d: "roundTripDynamic t env req (Some resp) w = (w1, res1)" by fastforce
  note dyn = round_trip_dynamic_log [OF d]
  have same: "run_log t req w w" by (rule run_log_same) (rule refl)
  show ?thesis
  proof (cases "rp_configured (dynamicPolicy t) \<and> sourceEnabled (dynamicPolicy t) ''redirect''")
    case True
    with assms d dyn show ?thesis
      by (cases res1) (auto simp: roundTripDirectFallback_def Let_def split: prod.splits if_splits intro: fb)
  next
    case False
    with assms show ?thesis
      by (auto simp: roundTripDirectFallback_def Let_def split: prod.splits intro: fb [OF same])
  qed
qed

text \<open>None of the credentials is among what may cross.\<close>

definition credential_headers :: "string list" where
  "credential_headers = sensitive_headers @ [''X-Emby-Authorization'']"

lemma credentials_do_not_cross:
  "set (map CanonicalHeaderKey credential_headers) \<inter> set (map CanonicalHeaderKey (crossing_headers t @ pinned_headers)) = {}"
proof -
  let ?all = "cross_authority_allowed @ dynamicReplayBodyHeaderNames @ [''X-Real-IP'', ''X-Forwarded-For''] @ pinned_headers"
  have "set (map CanonicalHeaderKey credential_headers) \<inter> set (map CanonicalHeaderKey ?all) = {}" by code_simp
  moreover have "set (crossing_headers t @ pinned_headers) \<subseteq> set ?all" by (auto simp: crossing_headers_def client_ip_headers_def)
  then have "set (map CanonicalHeaderKey (crossing_headers t @ pinned_headers)) \<subseteq> set (map CanonicalHeaderKey ?all)"
    unfolding set_map by (rule image_mono)
  ultimately show ?thesis by blast
qed

section \<open>Properties\<close>

text \<open>C39. Every run of the transport asks for the request, then for at most five, or as many as the policy allows,
  redirect targets. A target on another configured authority gets only the headers for media negotiation, the
  resuming, the body and the client address, and the administrator's own headers for that authority: no cookie, no
  authorization and no token of Emby. A discovered target gets fewer, is within the policy as seen from the request
  before it, and is reached over a transport that is pinned to public addresses outside this host.\<close>

theorem redirects_are_bounded_and_isolated:
  "(\<exists>hs. rw_sent (fst (redirect_RoundTrip t env req w)) = rw_sent w @ (None, req) # hs \<and> length hs \<le> hop_bound t \<and> hops_ok t req hs) \<and>
   set (map CanonicalHeaderKey credential_headers) \<inter> set (map CanonicalHeaderKey (crossing_headers t @ pinned_headers)) = {}"
proof -
  let ?w = "log_sent None req w"
  have start: "rw_sent ?w = rw_sent w @ [(None, req)]" by (simp add: log_sent_def)
  have "run_log t req ?w (fst (redirect_RoundTrip t env req w))"
  proof (cases "he_reply (env 0) req")
    case (ReplyError e x)
    then show ?thesis
      by (auto simp: redirect_RoundTrip_def Let_def case_prod_beta same_log split: option.split intro!: run_log_same)
  next
    case (Reply x)
    show ?thesis
    proof (cases x)
      case None
      with Reply show ?thesis by (auto simp: redirect_RoundTrip_def Let_def intro: run_log_same)
    next
      case (Some resp)
      let ?w1 = "received (Some resp) ?w"
      have w1: "run_log t req ?w w2" if "run_log t req ?w1 w2" for w2 using that by (simp add: run_log_def same_log)
      have same: "run_log t req ?w ?w1" by (rule run_log_same) (simp add: same_log)
      note legacy = w1 [OF round_trip_legacy_log] and dyn = w1 [OF round_trip_dynamic_log] and direct = w1 [OF direct_fallback_log]
      let ?fallback = "if mainVideoDirect t then mainVideoDirectFallbackTarget (rq_ctx req) else None"
      let ?enabled = "sourceEnabled (dynamicPolicy t) ''redirect''" and ?configured = "rp_configured (dynamicPolicy t)"
      obtain w' res where e: "redirect_RoundTrip t env req w = (w', res)" by fastforce
      note un = e [unfolded redirect_RoundTrip_def Let_def Reply Some reply.case option.case]
      show ?thesis
      proof (cases ?fallback)
        case target: (Some target)
        from un [unfolded target option.case] direct show ?thesis unfolding e by simp
      next
        case None
        note un = un [unfolded None option.case]
        obtain w2 r where r: "(if playbackHosts t \<noteq> [] \<and> (\<not> request_eligible req \<or> \<not> ?configured \<or> \<not> ?enabled)
            then roundTripLegacy t env req resp ?w1 else (?w1, Responds resp)) = (w2, r)" by fastforce
        have w2: "run_log t req ?w w2" using r same legacy by (auto split: if_splits)
        show ?thesis
        proof (cases "\<not> get_or_head (rq_method req) \<and> playbackHosts t \<noteq> []")
          case True
          with un same show ?thesis unfolding e by simp
        next
          case False
          note un = un [unfolded if_not_P [OF False] r prod.case]
          show ?thesis
          proof (cases "\<not> ?configured \<or> \<not> request_eligible req \<or> \<not> ?enabled")
            case True
            with un w2 show ?thesis unfolding e by (auto split: redirect_result.splits)
          next
            case False
            then have "w2 = ?w1" using r by simp
            with un False w2 dyn show ?thesis unfolding e by (auto split: redirect_result.splits)
          qed
        qed
      qed
    qed
  qed
  then show ?thesis using start credentials_do_not_cross unfolding run_log_def by auto
qed

end
