(* ===== verification/Redirect_Resources.thy ===== *)
theory Redirect_Resources
  imports Redirect_Safety
begin

text \<open>
  What a run of \<open>redirectFollowTransport\<close> holds while it follows redirects (the bodies of responses, the pinned
  transport, a stream slot, the reservations of its lease), and that all of it is given back when the answer is closed.
\<close>

section \<open>What is held\<close>

definition plain_body :: "body \<Rightarrow> bool" where
  "plain_body b \<longleftrightarrow> (case b of DynamicBody _ _ _ \<Rightarrow> False | _ \<Rightarrow> True)"

definition body_count :: "body \<Rightarrow> int" where
  "body_count b = (case b of WireBody _ \<Rightarrow> 1 | _ \<Rightarrow> 0)"

named_theorems held_fields

lemma held_on_auth [held_fields]: "rw_bodies (on_auth f w) = rw_bodies w" "rw_open (on_auth f w) = rw_open w"
    "rw_budgets (on_auth f w) = rw_budgets w" "rw_lease (on_auth f w) = rw_lease w"
  by (simp_all add: on_auth_def)

lemma held_release [held_fields]: "rw_bodies (release_stream sid w) = rw_bodies w" "rw_open (release_stream sid w) = rw_open w"
    "rw_lease (release_stream sid w) = rw_lease w"
    "rw_budgets (release_stream sid w) = (case releaseStream sid (rw_budgets w) of None \<Rightarrow> rw_budgets w | Some b \<Rightarrow> b)"
  by (simp_all add: release_stream_def)

lemma held_rollback [held_fields]: "rw_bodies (lease_rollback w) = rw_bodies w" "rw_open (lease_rollback w) = rw_open w"
    "rw_budgets (lease_rollback w) = rw_budgets w" "rw_lease (lease_rollback w) = (rw_lease w)\<lparr>lease_done := True\<rparr>"
  by (simp_all add: lease_rollback_def lease_finish_def held_fields split: prod.split)

lemma held_body_close [held_fields]: "rw_bodies (lease_on_body_close w) = rw_bodies w" "rw_open (lease_on_body_close w) = rw_open w"
    "rw_budgets (lease_on_body_close w) = rw_budgets w"
    "\<not> retained (rw_lease w) \<Longrightarrow> rw_lease (lease_on_body_close w) = (rw_lease w)\<lparr>lease_done := True\<rparr>"
  by (simp_all add: lease_on_body_close_def rollbackOnBodyClose_def lease_finish_def held_fields split: prod.split)

lemma held_close_plain [held_fields]:
  assumes "plain_body b"
  shows "rw_bodies (close_body sid b w) = rw_bodies w - body_count b" "rw_open (close_body sid b w) = rw_open w"
    "rw_budgets (close_body sid b w) = rw_budgets w" "rw_lease (close_body sid b w) = rw_lease w"
  using assms by (cases b; simp add: plain_body_def body_count_def)+

lemma held_received [held_fields]: "rw_bodies (received (Some r) w) = rw_bodies w + body_count (rs_body r)"
    "rw_open (received r' w) = rw_open w" "rw_budgets (received r' w) = rw_budgets w" "rw_lease (received r' w) = rw_lease w"
    "rw_bodies (received None w) = rw_bodies w"
  by (simp_all add: received_def body_count_def split: option.split body.split)

lemma held_track [held_fields]: "rw_bodies (track r u w) = rw_bodies w" "rw_open (track r u w) = rw_open w"
    "rw_budgets (track r u w) = rw_budgets w" "rw_lease (track r u w) = rw_lease w"
  by (simp_all add: track_def)

lemma held_log [held_fields]: "rw_bodies (log_sent v r w) = rw_bodies w" "rw_open (log_sent v r w) = rw_open w"
    "rw_budgets (log_sent v r w) = rw_budgets w" "rw_lease (log_sent v r w) = rw_lease w"
  by (simp_all add: log_sent_def)

lemma held_observe_status [held_fields]: "rw_bodies (observeWithStatus t d r a n w) = rw_bodies w"
    "rw_open (observeWithStatus t d r a n w) = rw_open w" "rw_budgets (observeWithStatus t d r a n w) = rw_budgets w"
    "rw_lease (observeWithStatus t d r a n w) = rw_lease w"
  by (simp_all add: observeWithStatus_def enqueue_def Let_def)

lemma held_observe [held_fields]: "rw_bodies (observe_redirect t d r a w) = rw_bodies w"
    "rw_open (observe_redirect t d r a w) = rw_open w" "rw_budgets (observe_redirect t d r a w) = rw_budgets w"
    "rw_lease (observe_redirect t d r a w) = rw_lease w" "rw_bodies (denied t r a w) = rw_bodies w"
    "rw_open (denied t r a w) = rw_open w" "rw_budgets (denied t r a w) = rw_budgets w" "rw_lease (denied t r a w) = rw_lease w"
  by (simp_all add: observe_redirect_def denied_def held_fields)

text \<open>
  The books of a run: the bodies and transports it met, and the budgets it found, against what the loop holds now.
\<close>

record books =
  bk_bodies :: int
  bk_open :: int
  bk_budgets :: budgets

definition stream_ok :: "nat \<Rightarrow> bool \<Rightarrow> budgets \<Rightarrow> budgets \<Rightarrow> bool" where
  "stream_ok sid release b b0 \<longleftrightarrow> (if release then releaseStream sid b = Some b0 else b = b0)"

definition in_hand :: "redirect_transport \<Rightarrow> books \<Rightarrow> hop_state \<Rightarrow> redirect_world \<Rightarrow> bool" where
  "in_hand t bk h w \<longleftrightarrow>
     (\<forall>r. hs_resp h = Some r \<longrightarrow> plain_body (rs_body r)) \<and>
     rw_bodies w = bk_bodies bk + (case hs_resp h of None \<Rightarrow> 0 | Some r \<Rightarrow> body_count (rs_body r)) \<and>
     rw_open w = bk_open bk + (if hs_transport h = None then 0 else 1) \<and>
     stream_ok (rt_state t) (hs_release h) (rw_budgets w) (bk_budgets bk) \<and>
     \<not> lease_done (rw_lease w) \<and> \<not> retained (rw_lease w)"

definition holds :: "redirect_transport \<Rightarrow> books \<Rightarrow> hop_state \<Rightarrow> redirect_world \<Rightarrow> bool" where
  "holds t bk h w \<longleftrightarrow> in_hand t bk h w \<and> (hs_release h \<longrightarrow> hs_held h) \<and> (hs_active h \<longrightarrow> hs_transport h \<noteq> None) \<and>
     (\<not> hs_active h \<longrightarrow> hs_transport h = None \<and> \<not> hs_release h \<and> lease_reservations (rw_lease w) = [])"

text \<open>Nothing is held any more, and the reservations of the lease are settled.\<close>

definition settled :: "books \<Rightarrow> redirect_world \<Rightarrow> bool" where
  "settled bk w \<longleftrightarrow> rw_bodies w = bk_bodies bk \<and> rw_open w = bk_open bk \<and> rw_budgets w = bk_budgets bk \<and>
     (lease_done (rw_lease w) \<or> lease_reservations (rw_lease w) = [])"

text \<open>The caller closes the body of the response it gets.\<close>

definition close_answer :: "redirect_transport \<Rightarrow> redirect_result \<Rightarrow> redirect_world \<Rightarrow> redirect_world" where
  "close_answer t res w = (case res of Responds r \<Rightarrow> close_body (rt_state t) (rs_body r) w | _ \<Rightarrow> w)"

text \<open>
  The exception: an answer without a body that ends a run after a discovered authority was followed. Its transport
  stays open and its lease is not settled, and closing the answer changes nothing of that.
\<close>

definition leaked :: "books \<Rightarrow> redirect_world \<Rightarrow> redirect_result \<Rightarrow> bool" where
  "leaked bk w res \<longleftrightarrow>
     (\<exists>r. res = Responds r \<and> rs_body r = NoBody \<and> rw_open w = bk_open bk + 1 \<and> \<not> lease_done (rw_lease w))"

definition hop_settles :: "redirect_transport \<Rightarrow> books \<Rightarrow> hop_result \<Rightarrow> bool" where
  "hop_settles t bk res \<longleftrightarrow>
     (case res of
        Continue h \<Rightarrow> holds t bk h (hs_world h)
      | Done w r \<Rightarrow> r \<noteq> Panics \<longrightarrow> settled bk (close_answer t r w) \<or> leaked bk w r)"

lemma hop_panics [simp]: "hop_settles t bk (Done w Panics)"
  by (simp add: hop_settles_def)

lemma in_hand_cong: "in_hand t bk h w \<Longrightarrow> rw_bodies w' = rw_bodies w \<Longrightarrow> rw_open w' = rw_open w \<Longrightarrow>
    rw_budgets w' = rw_budgets w \<Longrightarrow> rw_lease w' = rw_lease w \<Longrightarrow> in_hand t bk h w'"
  by (simp add: in_hand_def)

lemma holds_cong: "holds t bk h w \<Longrightarrow> rw_bodies w' = rw_bodies w \<Longrightarrow> rw_open w' = rw_open w \<Longrightarrow> rw_budgets w' = rw_budgets w \<Longrightarrow>
    rw_lease w' = rw_lease w \<Longrightarrow> holds t bk h w'"
  by (simp add: holds_def in_hand_def)

lemma settle_failure_settles:
  assumes "rw_bodies w = bk_bodies bk" "rw_open w = bk_open bk" "stream_ok (rt_state t) rel (rw_budgets w) (bk_budgets bk)"
  shows "hop_settles t bk (settle_failure t rel r a w)"
  using assms by (auto simp: hop_settles_def settle_failure_def settled_def close_answer_def stream_ok_def Let_def held_fields)

lemma closeResponse_fields:
  assumes "in_hand t bk h w"
  shows "rw_bodies (closeResponse t h w) = bk_bodies bk" "rw_open (closeResponse t h w) = bk_open bk"
    "rw_budgets (closeResponse t h w) = rw_budgets w" "rw_lease (closeResponse t h w) = rw_lease w"
  using assms by (auto simp: in_hand_def closeResponse_def close_transport_def held_fields split: option.splits)

lemma fail_settles:
  assumes "in_hand t bk h w" shows "hop_settles t bk (fail t h r a w)"
  unfolding fail_def
  by (rule settle_failure_settles) (use assms closeResponse_fields [OF assms] in \<open>auto simp: in_hand_def\<close>)

section \<open>Every step keeps the books\<close>

lemma take_give_both: "take_both g s = Some (g', s') \<Longrightarrow> give_both g' s' = Some (g, s)"
  by (auto simp: take_both_def give_both_def chan_send_def chan_recv_def split: if_splits option.splits)

lemma mput_restore: "mget m k = Some v \<Longrightarrow> mput k v (mput k v' m) = m"
  by (induction m) (auto split: if_splits)

lemma acquire_release:
  assumes "acquireStream sid b = Some b'"
  shows "releaseStream sid b' = Some b"
proof -
  obtain s g c where s: "mget (bd_sites b) sid = Some s" "take_both (bd_streams (bd_runtime b)) (bd_streams s) = Some (g, c)"
    "b' = b\<lparr>bd_runtime := (bd_runtime b)\<lparr>bd_streams := g\<rparr>, bd_sites := mput sid (s\<lparr>bd_streams := c\<rparr>) (bd_sites b)\<rparr>"
    using assms by (auto simp: acquireStream_def split: option.splits)
  have "mput sid s (mput sid (s\<lparr>bd_streams := c\<rparr>) (bd_sites b)) = bd_sites b" by (rule mput_restore [OF s(1)])
  with s(3) take_give_both [OF s(2)] show ?thesis by (simp add: releaseStream_def)
qed

definition wire_env :: "hop_env \<Rightarrow> bool" where
  "wire_env e \<longleftrightarrow> (\<forall>r x. he_reply e r = Reply (Some x) \<longrightarrow> plain_body (rs_body x))"

lemma admit_fields:
  assumes "admit t e req u w = (w', ad)"
  shows "rw_bodies w' = rw_bodies w" "rw_open w' = rw_open w" "rw_budgets w' = rw_budgets w" "rw_lease w' = rw_lease w"
  using assms
  by (auto simp: admit_def Let_def held_fields split: prod.splits reserve_result.splits sum.splits if_splits)

lemma holds_admit: "holds t bk h w \<Longrightarrow> admit t e req u w = (w', ad) \<Longrightarrow> holds t bk h w'"
  by (rule holds_cong) (simp_all add: admit_fields)

lemma holds_in_hand: "holds t bk h w \<Longrightarrow> in_hand t bk h w"
  by (simp add: holds_def)

lemma in_hand_auth: "in_hand t bk h w \<Longrightarrow> in_hand t bk h (on_auth f w)"
  by (erule in_hand_cong) (simp_all add: held_fields)

lemmas hop_fails = fail_settles fail_settles [OF in_hand_auth] fail_settles [OF holds_in_hand]
  fail_settles [OF in_hand_auth [OF holds_in_hand]]

lemma send_base_settles:
  assumes "holds t bk h (hs_world h)" "hs_resp h = Some resp" "\<not> hs_active h" "wire_env e"
  shows "hop_settles t bk (send_base t e h resp r u key)"
proof -
  have p: "plain_body (rs_body resp)" using assms(1,2) by (simp add: holds_def in_hand_def)
  note fields = held_fields held_close_plain [OF p]
  show ?thesis
  proof (cases "he_reply e r")
    case (ReplyError err x)
    with assms(1-3) show ?thesis
      by (auto simp: hop_settles_def send_base_def Let_def settled_def close_answer_def holds_def in_hand_def stream_ok_def fields)
  next
    case (Reply x)
    show ?thesis
    proof (cases x)
      case None
      with Reply assms(1-3) show ?thesis by (auto simp: hop_settles_def send_base_def Let_def holds_def in_hand_def fields)
    next
      case (Some resp')
      with Reply assms(4) have "plain_body (rs_body resp')" by (auto simp: wire_env_def)
      with Reply Some assms(1-3) show ?thesis by (auto simp: hop_settles_def send_base_def Let_def holds_def in_hand_def fields)
    qed
  qed
qed

lemma send_pinned_settles:
  assumes "in_hand t bk h w" "hs_resp h = Some resp" "hs_held h" "wire_env e"
  shows "hop_settles t bk (send_pinned t e h rid p u resp w)"
proof (cases "newExtremeCompatibleDynamicRedirectRequest t (isolateDynamicOutboundContext (Some (rq_ctx (hs_req h)))) (hs_req h) (rs_status resp) u")
  case (Inl reason)
  then show ?thesis using assms(1) by (simp add: send_pinned_def Let_def hop_fails)
next
  case (Inr x)
  obtain r strip where x: "x = (r, strip)" by fastforce
  define hd where "hd = (let g = if rq_body r \<noteq> None then dynamicRedirectBodyHeaders (rq_header (hs_req h))
      else dynamicRedirectHeaders (rq_header (hs_req h)) in if strip then stripExtremeDynamicRedirectBodyHeaders g else g)"
  define r' where "r' = r\<lparr>rq_close := True, rq_header := hd\<rparr>"
  define w1 where "w1 = log_sent (Some p) r' (closeResponse t h (track r' u w))"
  have track: "in_hand t bk h (track r' u w)" by (rule in_hand_cong [OF assms(1)]) (simp_all add: held_fields)
  have w1: "rw_bodies w1 = bk_bodies bk" "rw_open w1 = bk_open bk" "rw_budgets w1 = rw_budgets w" "rw_lease w1 = rw_lease w"
    using closeResponse_fields [OF track] by (simp_all add: w1_def held_fields)
  have stream: "stream_ok (rt_state t) (hs_release h) (rw_budgets w1) (bk_budgets bk)" using assms(1) w1(3) by (simp add: in_hand_def)
  have refuse: "hop_settles t bk (settle_failure t (hs_release h) rc a (on_auth (rollback rid) w1))" for rc a
    by (rule settle_failure_settles) (use w1 stream in \<open>simp_all add: held_fields\<close>)
  have eq: "send_pinned t e h rid p u resp w =
      (case he_reply e r' of
         ReplyError err _ \<Rightarrow> settle_failure t (hs_release h) (dynamicTransportFailureReason err)
           (dynamicCanonicalAuthority (dl_names (rt_lib t)) u) (on_auth (rollback rid) w1)
       | Reply None \<Rightarrow> settle_failure t (hs_release h) ''response_failure''
           (dynamicCanonicalAuthority (dl_names (rt_lib t)) u) (on_auth (rollback rid) w1)
       | Reply (Some resp') \<Rightarrow>
           Continue (h\<lparr>hs_req := r', hs_resp := Some (resp'\<lparr>rs_request := Some r'\<rparr>), hs_active := True,
             hs_followed := Suc (hs_followed h), hs_visited := url_string u # hs_visited h, hs_transport := Some p,
             hs_world := observe_redirect t ''allowed'' ''redirect_allowed'' (dynamicCanonicalAuthority (dl_names (rt_lib t)) u)
               ((received (Some resp') w1)\<lparr>rw_lease := lease_add rid (rw_lease (received (Some resp') w1)),
                  rw_open := rw_open (received (Some resp') w1) + 1\<rparr>)\<rparr>))"
    unfolding send_pinned_def Let_def Inr x sum.case prod.case hd_def [unfolded Let_def, symmetric] r'_def [symmetric]
      w1_def [symmetric] by (rule refl)
  show ?thesis
  proof (cases "he_reply e r'")
    case (ReplyError err y)
    then show ?thesis unfolding eq by (simp add: refuse)
  next
    case (Reply y)
    show ?thesis
    proof (cases y)
      case None
      with Reply show ?thesis unfolding eq by (simp add: refuse)
    next
      case (Some resp')
      with Reply assms(4) have "plain_body (rs_body resp')" by (auto simp: wire_env_def)
      with Reply Some assms(1,3) w1 stream show ?thesis
        unfolding eq by (auto simp: hop_settles_def holds_def in_hand_def held_fields lease_add_def)
    qed
  qed
qed

lemma pinned_hop_settles:
  assumes "holds t bk h (hs_world h)" "hs_resp h = Some resp" "wire_env e"
  shows "hop_settles t bk (pinned_hop t e h u resp)"
proof -
  obtain w ad where a: "admit t e (hs_req h) u (hs_world h) = (w, ad)" by fastforce
  note H = holds_admit [OF assms(1) a]
  show ?thesis
  proof (cases ad)
    case (Admitted rid ips)
    show ?thesis
    proof (cases "new_dynamic_transport t e u ips")
      case (Inl err)
      with a Admitted H show ?thesis by (simp add: pinned_hop_def Let_def hop_fails)
    next
      case (Inr p)
      show ?thesis
      proof (cases "hs_held h")
        case True
        with a Admitted Inr send_pinned_settles [OF holds_in_hand [OF H] assms(2) True assms(3)] show ?thesis by (simp add: pinned_hop_def Let_def)
      next
        case held: False
        show ?thesis
        proof (cases "acquireStream (rt_state t) (rw_budgets w)")
          case None
          with a Admitted Inr held H show ?thesis by (simp add: pinned_hop_def Let_def hop_fails)
        next
          case (Some b)
          let ?h = "h\<lparr>hs_release := True, hs_held := True\<rparr>" and ?w = "w\<lparr>rw_budgets := b\<rparr>"
          have "in_hand t bk ?h ?w"
            using H held acquire_release [OF Some] by (auto simp: holds_def in_hand_def stream_ok_def)
          from send_pinned_settles [OF this _ _ assms(3), of resp rid p u] a Admitted Inr held Some assms(2) show ?thesis
            by (simp add: pinned_hop_def Let_def)
        qed
      qed
    qed
  qed (use a H in \<open>simp_all add: pinned_hop_def Let_def hop_fails\<close>)
qed


text \<open>An answer without a body: the response of the hop is closed and replaced.\<close>

lemma bodyless_settles:
  assumes "holds t bk h w" "hs_resp h = Some resp" "rs_body x = NoBody"
    and "rw_bodies w' = rw_bodies w - body_count (rs_body resp)" "rw_open w' = rw_open w" "rw_budgets w' = rw_budgets w"
      "rw_lease w' = rw_lease w"
  shows "hop_settles t bk (Done w' (Responds x))"
  using assms
  by (cases "hs_active h")
    (auto simp: hop_settles_def settled_def leaked_def close_answer_def holds_def in_hand_def stream_ok_def)

lemma held_replace:
  assumes "plain_body (rs_body resp)" "replaceResponseWithMainVideoRedirect sid resp u w = (w', x)"
  shows "rs_body x = NoBody \<and> rw_bodies w' = rw_bodies w - body_count (rs_body resp) \<and> rw_open w' = rw_open w \<and>
    rw_budgets w' = rw_budgets w \<and> rw_lease w' = rw_lease w"
  using assms
  by (auto simp: replaceResponseWithMainVideoRedirect_def replaceResponseWithMainVideoDirectTarget_def held_close_plain)

lemma holds_plain: "holds t bk h w \<Longrightarrow> hs_resp h = Some resp \<Longrightarrow> plain_body (rs_body resp)"
  by (simp add: holds_def in_hand_def)

lemma direct_hop_settles:
  assumes "holds t bk h (hs_world h)" "hs_resp h = Some resp"
  shows "hop_settles t bk (direct_hop t e h u resp)"
proof -
  obtain w ad where a: "admit t e (hs_req h) u (hs_world h) = (w, ad)" by fastforce
  note H = holds_admit [OF assms(1) a]
  show ?thesis
  proof (cases ad)
    case (Admitted rid ips)
    let ?w1 = "observe_redirect t ''allowed'' ''redirect_allowed'' (dynamicCanonicalAuthority (dl_names (rt_lib t)) u)
                 (track (hs_req h) u (on_auth (commit rid) w))"
    obtain w2 x where r: "replaceResponseWithMainVideoRedirect (rt_state t) resp u ?w1 = (w2, x)" by fastforce
    from held_replace [OF holds_plain [OF H assms(2)] r]
    have "hop_settles t bk (Done w2 (Responds x))" by (intro bodyless_settles [OF H assms(2)]) (simp_all add: held_fields)
    with a Admitted r show ?thesis by (simp add: direct_hop_def Let_def)
  qed (use a H in \<open>simp_all add: direct_hop_def Let_def hop_fails\<close>)
qed

lemma capability_hop_settles:
  assumes "holds t bk h (hs_world h)" "hs_resp h = Some resp"
  shows "hop_settles t bk (capability_hop t e s h i u resp)"
proof -
  note p = holds_plain [OF assms]
  obtain d m where m: "mint (rt_lib t) i (he_mint e) (Some (rq_url (hs_req h))) u ''redirect'' (rw_dyn (hs_world h)) = (d, m)" by fastforce
  have H: "holds t bk h ((hs_world h)\<lparr>rw_dyn := d\<rparr>)" by (rule holds_cong [OF assms(1)]) simp_all
  show ?thesis
  proof (cases m)
    case (Minted route acquired)
    have b: "rs_body (markDynamicResponse False s (resp\<lparr>rs_header := hd, rs_body := NoBody, rs_length := 0, rs_trailer := 0\<rparr>)) = NoBody" for hd
      by (simp add: markDynamicResponse_def Let_def split: option.split)
    from m Minted show ?thesis
      by (auto simp: capability_hop_def Let_def held_fields p b intro!: bodyless_settles [OF assms])
  qed (use m H in \<open>simp_all add: capability_hop_def Let_def hop_fails\<close>)
qed

lemma unanswered_settles:
  assumes "holds t bk h (hs_world h)" "hs_resp h = Some resp" "\<not> hs_active h"
  shows "hop_settles t bk (Done (hs_world h) (Responds resp))"
  using assms holds_plain [OF assms(1,2)]
  by (auto simp: hop_settles_def settled_def close_answer_def holds_def in_hand_def stream_ok_def held_close_plain)

lemma same_authority_settles:
  assumes "holds t bk h (hs_world h)" "hs_resp h = Some resp" "\<not> hs_active h" "wire_env e"
  shows "hop_settles t bk (same_authority_hop t e h resp u)"
  unfolding same_authority_hop_def Let_def
  by (auto simp: hop_fails assms split: sum.split intro: send_base_settles [OF assms])

lemma configured_settles:
  assumes "holds t bk h (hs_world h)" "hs_resp h = Some resp" "\<not> hs_active h" "wire_env e"
  shows "hop_settles t bk (configured_hop t e h resp u)"
  unfolding configured_hop_def Let_def
  by (auto simp: hop_fails assms split: sum.split intro: send_base_settles [OF assms] unanswered_settles [OF assms(1-3)])

lemma finish_settles:
  assumes "holds t bk h (hs_world h)" "hs_resp h = Some resp"
  shows "hop_settles t bk (finish_hop t s h resp)"
proof (cases "hs_active h")
  case False
  with unanswered_settles [OF assms] show ?thesis by (simp add: finish_hop_def)
next
  case True
  note p = holds_plain [OF assms]
  show ?thesis
  proof (cases "rs_status resp = 101")
    case True
    with assms \<open>hs_active h\<close> show ?thesis by (simp add: finish_hop_def hop_fails)
  next
    case False
    let ?inner = "if rs_body resp = NilBody then NoBody else rs_body resp"
    let ?x = "markDynamicResponse True s (resp\<lparr>rs_body := DynamicBody ?inner (hs_transport h) (hs_release h)\<rparr>)"
    have i: "plain_body ?inner" "body_count ?inner = body_count (rs_body resp)"
      using p by (simp_all add: plain_body_def body_count_def)
    have b: "rs_body ?x = DynamicBody ?inner (hs_transport h) (hs_release h)"
      by (simp add: markDynamicResponse_def Let_def split: option.split)
    have "settled bk (close_body (rt_state t) (DynamicBody ?inner (hs_transport h) (hs_release h)) (hs_world h))"
      using assms True i
      by (auto simp: settled_def holds_def in_hand_def stream_ok_def Let_def held_fields simp del: close_body.simps(1-3)
          split del: if_split split: if_splits)
    with True False b show ?thesis by (simp add: finish_hop_def Let_def hop_settles_def close_answer_def)
  qed
qed

lemma discovered_settles:
  assumes "holds t bk h (hs_world h)" "hs_resp h = Some resp" "wire_env e"
  shows "hop_settles t bk (discovered_hop t e s h resp u d)"
  unfolding discovered_hop_def Let_def
  by (auto simp: hop_fails assms split: sum.split option.split
      intro: direct_hop_settles [OF assms(1,2)] pinned_hop_settles [OF assms] capability_hop_settles [OF assms(1,2)])

lemma step_settles:
  assumes "holds t bk h (hs_world h)" "wire_env e"
  shows "hop_settles t bk (hop_step t e s h)"
proof (cases "hs_resp h")
  case None
  then show ?thesis by (simp add: hop_step_def Let_def hop_fails assms)
next
  case (Some resp)
  have direct: "hop_settles t bk (case replaceResponseWithMainVideoRedirect (rt_state t) resp u (track (hs_req h) u (hs_world h)) of
      (w', r) \<Rightarrow> Done w' (Responds r))" for u
  proof -
    obtain w' x where r: "replaceResponseWithMainVideoRedirect (rt_state t) resp u (track (hs_req h) u (hs_world h)) = (w', x)"
      by fastforce
    from held_replace [OF holds_plain [OF assms(1) Some] r]
    have "hop_settles t bk (Done w' (Responds x))" by (intro bodyless_settles [OF assms(1) Some]) (simp_all add: held_fields)
    with r show ?thesis by simp
  qed
  show ?thesis
    unfolding hop_step_def Let_def Some option.case
    by (auto simp: hop_fails assms split: option.split intro: direct finish_settles [OF assms(1) Some]
        same_authority_settles [OF assms(1) Some _ assms(2)] configured_settles [OF assms(1) Some _ assms(2)]
        discovered_settles [OF assms(1) Some assms(2)])
qed


section \<open>A run gives back what it took\<close>

lemma dynamic_loop_settles:
  assumes "holds t bk h (hs_world h)" "\<forall>n. wire_env (env n)"
  shows "case dynamic_loop t env s h of (w, r) \<Rightarrow> r \<noteq> Panics \<longrightarrow> settled bk (close_answer t r w) \<or> leaked bk w r"
proof (rule dynamic_loop_rule [where P = "\<lambda>h. holds t bk h (hs_world h)", OF assms(1)])
  fix h h' assume "holds t bk h (hs_world h)" "hop_step t (env (Suc (hs_followed h))) s h = Continue h'"
  with step_settles [of t bk h "env (Suc (hs_followed h))" s] assms(2) show "holds t bk h' (hs_world h')"
    by (simp add: hop_settles_def)
next
  fix h w r assume "holds t bk h (hs_world h)" "hop_step t (env (Suc (hs_followed h))) s h = Done w r"
  with step_settles [of t bk h "env (Suc (hs_followed h))" s] assms(2)
  show "r \<noteq> Panics \<longrightarrow> settled bk (close_answer t r w) \<or> leaked bk w r" by (simp add: hop_settles_def)
qed

text \<open>C40. A run that follows discovered authorities and ends in an error leaves no body open, no pinned transport
  connected and no stream slot taken, and the reservations it made are rolled back; one that ends with a response gives
  all of this back when the caller closes the body. The only exception are the answers without a body that
  the run makes up after it has followed a discovered authority: a capability for the next one, or a direct
  redirect of the main video. They end it with the transport open and the lease unsettled.\<close>

theorem redirects_give_back_what_they_take:
  assumes "roundTripDynamic t env req (Some resp) w = (w', res)" "res \<noteq> Panics"
    and "plain_body (rs_body resp)" "\<forall>n. wire_env (env n)"
  shows "settled \<lparr>bk_bodies = rw_bodies w - body_count (rs_body resp), bk_open = rw_open w, bk_budgets = rw_budgets w\<rparr>
      (close_answer t res w') \<or>
    leaked \<lparr>bk_bodies = rw_bodies w - body_count (rs_body resp), bk_open = rw_open w, bk_budgets = rw_budgets w\<rparr> w' res"
proof -
  let ?bk = "\<lparr>bk_bodies = rw_bodies w - body_count (rs_body resp), bk_open = rw_open w, bk_budgets = rw_budgets w\<rparr>"
  let ?h = "\<lparr>hs_req = req, hs_resp = Some resp, hs_active = False, hs_followed = 0,
        hs_visited = [dynamicRedirectURLKey (rt_lib t) (rq_url req)], hs_transport = None, hs_release = False,
        hs_held = streamLeaseHeld t, hs_world = w\<lparr>rw_lease := \<lparr>retained = False, lease_done = False, lease_reservations = []\<rparr>\<rparr>\<rparr>"
  have start: "holds t ?bk ?h (hs_world ?h)" using assms(3) by (simp add: holds_def in_hand_def stream_ok_def)
  have "case dynamic_loop t env (expected_source (rq_ctx req)) ?h of (w, r) \<Rightarrow> r \<noteq> Panics \<longrightarrow> settled ?bk (close_answer t r w) \<or> leaked ?bk w r"
    by (rule dynamic_loop_settles [OF start assms(4)])
  with assms(1,2) show ?thesis by (simp add: roundTripDynamic_def)
qed

section \<open>A run to evaluate on\<close>

text \<open>A site on \<open>u.com\<close> redirects a request for a video to \<open>a.com\<close>.\<close>

definition demo_other :: url where
  "demo_other = demo_target\<lparr>path := ''/w''\<rparr>"

definition demo_site_url :: url where
  "demo_site_url = empty_url\<lparr>scheme := ''https'', host := ''u.com'', path := ''/emya/video''\<rparr>"

definition demo_url_parser :: url_parser where
  "demo_url_parser s = (if s = ''https://a.com/v'' then Some demo_target else if s = ''https://a.com/w'' then Some demo_other else None)"

definition demo_redirector :: redirect_transport where
  "demo_redirector = \<lparr>rt_lib = demo_lib\<lparr>dl_parse := demo_url_parser\<rparr>, playbackHosts = [], configuredAuthorities = [''https://u.com''],
     disableLegacyRedirects = True, followUnknownRedirects = True, rt_ua = \<lparr>Rewrite = False, Profile = empty_profile\<rparr>,
     clientIPMode = ''none'', rt_upstream = \<lparr>up_authority = [], up_values = []\<rparr>, dynamicTransportFactory = None,
     dynamicPolicy = demo_redirect_policy, rt_state = 0, rt_self = Some demo_policy,
     capabilityIssuer = Some demo_issuer,
     streamLeaseHeld = False, mainVideoDirect = False, rt_database = False\<rparr>"

definition demo_request :: http_request where
  "demo_request = \<lparr>rq_method = ''GET'', rq_url = demo_site_url, rq_host = ''u.com'',
     rq_header = [(''Cookie'', [''s'']), (''Range'', [''bytes=0-''])],
     rq_body = None, rq_get_body = None, rq_length = 0, rq_transfer = [], rq_trailer = 0, rq_close = False, rq_ctx = (\<lambda>_. None)\<rparr>"

definition demo_moved :: "string \<Rightarrow> http_response" where
  "demo_moved loc = \<lparr>rs_status = 302, rs_header = [(''Location'', [loc])], rs_body = WireBody [], rs_length = 0, rs_trailer = 0, rs_request = None\<rparr>"

definition demo_ok :: http_response where
  "demo_ok = \<lparr>rs_status = 200, rs_header = [], rs_body = WireBody ''video'', rs_length = 5, rs_trailer = 0, rs_request = None\<rparr>"

definition demo_hop :: "http_response \<Rightarrow> hop_env" where
  "demo_hop resp = \<lparr>he_reply = (\<lambda>_. Reply (Some resp)), he_mint = demo_env, he_ifaces1 = demo_ifaces, he_ifaces2 = demo_ifaces\<rparr>"

definition demo_start :: redirect_world where
  "demo_start = \<lparr>rw_dyn = demo_world, rw_budgets = new_site_budget 0 1 new_runtime_budget,
     rw_lease = \<lparr>retained = False, lease_done = False, lease_reservations = []\<rparr>, rw_tracked = None, rw_sent = [], rw_open = 0, rw_bodies = 1\<rparr>"

definition demo_first :: hop_state where
  "demo_first = \<lparr>hs_req = demo_request, hs_resp = Some (demo_moved ''https://a.com/v''), hs_active = False, hs_followed = 0,
     hs_visited = [dynamicRedirectURLKey (rt_lib demo_redirector) demo_site_url], hs_transport = None, hs_release = False,
     hs_held = False, hs_world = demo_start\<rparr>"

lemma demo_redirect_values:
  "trim_space ''https://a.com/v'' = ''https://a.com/v''" "trim_space ''https://a.com/w'' = ''https://a.com/w''"
  "url_string demo_other = ''https://a.com/w''" "redirectHostKey demo_target = ''https://a.com''" "redirectHostKey demo_other = ''https://a.com''"
  "redirectHostKey demo_site_url = ''https://u.com''" "url_string demo_site_url = ''https://u.com/emya/video''"
  "isPlaybackRedirectEndpoint ''/emya/video''" 
  "resolve_reference demo_site_url demo_target = demo_target" "resolve_reference demo_target demo_other = demo_other"
  by code_simp+

lemma demo_unfollowed:
  "\<not> isPlaybackRequest ''/v''" "\<not> isPlaybackRedirectEndpoint ''/v''" "\<not> isPlaybackInfoRequest ''/v''" "dynamicStructuredRequestSource ''/v'' = []"
  "\<not> isReservedDynamicRoute ''/v''"
  by code_simp+

lemma demo_other_values:
  "\<not> containsDynamicUnsafeRune ''https://a.com/w''" "url_hostname demo_other = ''a.com''"
  "url_port demo_other = []" "url_escaped_path demo_other = ''/w''" 
  "dynamicURLDecodedComponentIsSafe ''/w'' False" "\<not> dynamicURLPathHasDotSegments ''/w''" "dynamicEffectivePort demo_other = Some ''443''"
  by code_simp+


lemma demo_normal:
  "normalizeDynamicURL demo_names demo_url_parser ''https://a.com/v'' = Inr demo_target"
  "normalizeDynamicURL demo_names demo_url_parser ''https://a.com/w'' = Inr demo_other"
  "\<exists>e. normalizeDynamicURL demo_names demo_url_parser ''https://u.com/emya/video'' = Inl e"
proof -
  have f: "scheme demo_other = ''https''" "host demo_other = ''a.com''" "user demo_other = None" "opaque demo_other = []"
    "fragment demo_other = []" "raw_fragment demo_other = []" "raw_query demo_other = []"
    "demo_other\<lparr>scheme := ''https''\<rparr> = demo_other" "demo_other\<lparr>host := ''a.com''\<rparr> = demo_other"
    by (simp_all add: demo_other_def demo_target_def empty_url_def)
  show "normalizeDynamicURL demo_names demo_url_parser ''https://a.com/v'' = Inr demo_target"
    by (simp add: normalizeDynamicURL_def demo_url_parser_def demo_values demo_target_fields maxDynamicTargetURLBytes_def has_prefix_def
        has_suffix_def dynamicURLDecodedComponentIsSafe_def [of "[]"] dynamicURLHost_def Let_def del: to_lower.simps)
  show "normalizeDynamicURL demo_names demo_url_parser ''https://a.com/w'' = Inr demo_other"
    by (simp add: normalizeDynamicURL_def demo_url_parser_def demo_values(3,11) demo_redirect_values(2) demo_other_values f
        maxDynamicTargetURLBytes_def has_prefix_def
        has_suffix_def dynamicURLDecodedComponentIsSafe_def [of "[]"] dynamicURLHost_def Let_def del: to_lower.simps)
  show "\<exists>e. normalizeDynamicURL demo_names demo_url_parser ''https://u.com/emya/video'' = Inl e"
    by (simp add: normalizeDynamicURL_def demo_url_parser_def)
qed

lemma demo_admitted:
  assumes "reserveAuthority 0 ''https://a.com:443'' 100 (auth (dw_caps (rw_dyn w))) = (a, Reserved rid)"
    "rq_url r = demo_site_url \<or> rq_url r = demo_target" "u = demo_target \<or> u = demo_other"
  shows "admit demo_redirector (demo_hop resp) r u w = (on_auth (\<lambda>_. a) w, Admitted rid [V4 0x08080808])"
proof -
  have sch: "scheme demo_other = ''https''" by (simp add: demo_other_def demo_target_fields)
  then have "dynamicCanonicalAuthority demo_names demo_other = ''https://a.com:443''"
    by (simp add: dynamicCanonicalAuthority_def demo_other_values demo_values join_host_port_def Let_def del: to_lower.simps)
  moreover have "validateNormalizedTarget demo_names demo_policy demo_other demo_ifaces = None"
    by (simp add: validateNormalizedTarget_def demo_values demo_other_values demo_policy_def)
  moreover note sch
  ultimately show ?thesis
    using assms
    by (auto simp: admit_def demo_redirector_def demo_lib_def demo_hop_def demo_env_def demo_authority demo_resolved validateTarget_def
        demo_redirect_policy_def demo_limits_def demo_values demo_other_values demo_target_fields demo_normalized port_443)
qed

lemma demo_transport_made: "new_dynamic_transport demo_redirector (demo_hop resp) demo_target [V4 0x08080808] = Inr demo_transport"
  by (simp add: new_dynamic_transport_def demo_redirector_def demo_lib_def demo_hop_def newDynamicTransportWithDialerTimeout_def
      maxDynamicResolvedIPCount_def demo_values demo_normal demo_normalized as_slice_def demo_policy_ok demo_transport_def second_def)

definition demo_next :: http_request where
  "demo_next = \<lparr>rq_method = ''GET'', rq_url = demo_target, rq_host = ''a.com'',
     rq_header = dynamicRedirectHeaders (rq_header demo_request),
     rq_body = None, rq_get_body = None, rq_length = 0, rq_transfer = [], rq_trailer = 0, rq_close = True, rq_ctx = (\<lambda>_. None)\<rparr>"

lemma demo_isolated: "isolateDynamicOutboundContext (Some (\<lambda>_. None)) = (\<lambda>_. None)"
  by (simp add: isolateDynamicOutboundContext_def dynamicOutboundContext_Value_def fun_eq_iff)

lemma demo_next_made:
  "newExtremeCompatibleDynamicRedirectRequest demo_redirector (\<lambda>_. None) demo_request 302 demo_target =
   Inr (demo_next\<lparr>rq_close := False, rq_header := []\<rparr>, False)"
  by (simp add: newExtremeCompatibleDynamicRedirectRequest_def demo_redirector_def demo_redirect_policy_def replayed_body_def
      new_http_request_def demo_request_def demo_lib_def demo_values demo_url_parser_def demo_next_def demo_target_fields removeEmptyPort_def
      trim_suffix_def has_suffix_def isHTTPTokenByte_def is_upper_def byte_def Let_def)

lemma demo_located: "location_url (rt_lib demo_redirector) demo_request ''https://a.com/v'' = Some demo_target"
  by (simp add: location_url_def demo_redirector_def demo_lib_def demo_url_parser_def demo_request_def demo_redirect_values
      demo_values demo_target_fields Let_def del: to_lower.simps)

lemma demo_discovered: "hop_step demo_redirector e [] demo_first = discovered_hop demo_redirector e [] demo_first (demo_moved ''https://a.com/v'') demo_target False"
proof -
  have l: "singleDynamicLocation (rs_header (demo_moved ''https://a.com/v'')) = Some ''https://a.com/v''"
    by (simp add: singleDynamicLocation_def demo_moved_def hdr_values_def mget_or_def demo_redirect_values CanonicalHeaderKey_def
        isHTTPTokenByte_def is_lower_def is_upper_def byte_def upper_byte_def lower_byte_def)
  have s: "\<not> dynamicRejectedRedirectStatus 302 p" "dynamicHandledRedirectStatus 302 p" "rs_status (demo_moved x) = 302" for p x
    by (simp_all add: dynamicRejectedRedirectStatus_def dynamicHandledRedirectStatus_def demo_moved_def)
  have h: "hs_resp demo_first = Some (demo_moved ''https://a.com/v'')" "hs_req demo_first = demo_request" "\<not> hs_active demo_first"
    by (simp_all add: demo_first_def)
  have u: "\<not> sameRedirectAuthority (rq_url demo_request) demo_target" "redirectHostKey demo_target \<notin> set (configuredAuthorities demo_redirector)"
    "\<not> mainVideoDirect demo_redirector"
    by (simp_all add: sameRedirectAuthority_def demo_request_def demo_redirect_values demo_redirector_def)
  show ?thesis by (simp add: hop_step_def h s l demo_located u Let_def)
qed

lemma demo_pinned: "discovered_hop demo_redirector e [] demo_first r demo_target False = pinned_hop demo_redirector e demo_first demo_target r"
proof -
  have v: "''https://a.com/v'' \<notin> set (hs_visited demo_first)"
    using demo_normal(3) by (auto simp: demo_first_def dynamicRedirectURLKey_def demo_redirector_def demo_lib_def demo_redirect_values
        split: sum.splits)
  have f: "shouldInternallyFollowDynamicRedirect (hs_req demo_first)"
    by (simp add: shouldInternallyFollowDynamicRedirect_def demo_first_def demo_request_def get_or_head_def demo_site_url_def
        demo_redirect_values)
  have d: "sourceEnabled (dynamicPolicy demo_redirector) ''redirect''" "rp_available (dynamicPolicy demo_redirector)"
    "MaxRedirects (rp_limits (dynamicPolicy demo_redirector)) = 3" "dl_names (rt_lib demo_redirector) = demo_names"
    "dl_parse (rt_lib demo_redirector) = demo_url_parser" "followUnknownRedirects demo_redirector" "hs_followed demo_first = 0"
    by (simp_all add: demo_redirector_def demo_redirect_policy_def demo_limits_def sourceEnabled_def dynamicDiscoverySourceEnabled_def
        demo_lib_def demo_first_def)
  show ?thesis by (simp add: discovered_hop_def d demo_values demo_normal v f Let_def)
qed

lemma demo_first_step: "\<exists>h. hop_step demo_redirector (demo_hop resp) [] demo_first = Continue h \<and> hs_active h \<and> hs_followed h = 1 \<and>
    hs_req h = demo_next \<and> hs_resp h = Some (resp\<lparr>rs_request := Some demo_next\<rparr>) \<and> hs_release h \<and> hs_held h \<and> 
    hs_transport h = Some demo_transport \<and> hs_visited h = ''https://a.com/v'' # hs_visited demo_first \<and>
    rw_budgets (hs_world h) = the (acquireStream 0 (rw_budgets demo_start)) \<and> rw_open (hs_world h) = 1 \<and>
    (\<exists>a. dw_caps (rw_dyn (hs_world h)) = demo_caps\<lparr>auth := a\<rparr> \<and> reserveAuthority 0 ''https://a.com:443'' 100 (auth demo_caps) = (a, Reserved 2))"
proof -
  obtain a where a: "reserveAuthority 0 ''https://a.com:443'' 100 (auth (dw_caps (rw_dyn demo_start))) = (a, Reserved 2)"
    using demo_reserved by (auto simp: demo_start_def demo_world_def)
  have w: "hs_world demo_first = demo_start" "hs_req demo_first = demo_request" "\<not> hs_held demo_first"
    by (simp_all add: demo_first_def)
  have ad: "admit demo_redirector (demo_hop resp) demo_request demo_target demo_start = (on_auth (\<lambda>_. a) demo_start, Admitted 2 [V4 0x08080808])"
    by (rule demo_admitted [OF a]) (simp_all add: demo_request_def)
  obtain b where b: "acquireStream 0 (rw_budgets demo_start) = Some b"
    by (simp add: demo_start_def acquireStream_def new_site_budget_def new_runtime_budget_def take_both_def chan_send_def make_chan_def
        globalDynamicMaxStreams_def)
  have n: "demo_next\<lparr>rq_close := True, rq_header := dynamicRedirectHeaders (rq_header demo_request)\<rparr> = demo_next" 
    "rq_body demo_next = None"
    by (simp_all add: demo_next_def)
  have c: "rq_ctx demo_request = (\<lambda>_. None)" "rt_state demo_redirector = 0" by (simp_all add: demo_request_def demo_redirector_def)
  have m: "rs_status (demo_moved x) = 302" "rs_body (demo_moved x) = WireBody []" for x by (simp_all add: demo_moved_def)
  have o: "observe_redirect demo_redirector d r a w = w" for d r a w
    by (simp add: observe_redirect_def observeWithStatus_def demo_redirector_def)
  have d: "rw_dyn (received x w) = rw_dyn w" "rw_dyn (log_sent v r w) = rw_dyn w" "rw_dyn (track r u w) = rw_dyn w" for x w v r u
    by (simp_all add: received_def log_sent_def track_def split: option.split body.split)
  have ra: "reserveAuthority 0 ''https://a.com:443'' 100 (auth demo_caps) = (a, Reserved 2)"
    using a by (simp add: demo_start_def demo_world_def)
  show ?thesis
    by (simp add: demo_discovered demo_pinned pinned_hop_def w ad demo_transport_made c b held_fields send_pinned_def demo_isolated m
        demo_next_made n Let_def) (simp add: demo_hop_def held_fields n closeResponse_def close_transport_def demo_first_def m demo_start_def
        demo_values o d on_auth_def put_auth_def demo_world_def, use ra in blast)
qed


section \<open>The second hop\<close>

text \<open>The discovered host redirects to another path of its own, which is no playback path.\<close>

lemma demo_other_fields: "scheme demo_other = ''https''" "dynamicCanonicalAuthority demo_names demo_other = ''https://a.com:443''"
proof -
  show s: "scheme demo_other = ''https''" by (simp add: demo_other_def demo_target_fields)
  then show "dynamicCanonicalAuthority demo_names demo_other = ''https://a.com:443''"
    by (simp add: dynamicCanonicalAuthority_def demo_other_values demo_values join_host_port_def Let_def del: to_lower.simps)
qed

lemma demo_second_located: "location_url (rt_lib demo_redirector) demo_next ''https://a.com/w'' = Some demo_other"
  by (simp add: location_url_def demo_redirector_def demo_lib_def demo_url_parser_def demo_next_def demo_redirect_values
      demo_values demo_other_fields Let_def demo_other_def [symmetric] del: to_lower.simps)

lemma demo_second_step:
  assumes "hs_req h = demo_next" "hs_resp h = Some ((demo_moved ''https://a.com/w'')\<lparr>rs_request := Some demo_next\<rparr>)" "hs_active h"
    "hs_followed h = 1" "hs_visited h = ''https://a.com/v'' # hs_visited demo_first"
  shows "hop_step demo_redirector e [] h =
    capability_hop demo_redirector e [] h demo_issuer demo_other ((demo_moved ''https://a.com/w'')\<lparr>rs_request := Some demo_next\<rparr>)"
proof -
  let ?r = "(demo_moved ''https://a.com/w'')\<lparr>rs_request := Some demo_next\<rparr>"
  have l: "singleDynamicLocation (rs_header (demo_moved ''https://a.com/w'')) = Some ''https://a.com/w''"
    by (simp add: singleDynamicLocation_def demo_moved_def hdr_values_def mget_or_def demo_redirect_values CanonicalHeaderKey_def
        isHTTPTokenByte_def is_lower_def is_upper_def byte_def upper_byte_def lower_byte_def)
  have s: "\<not> dynamicRejectedRedirectStatus 302 p" "dynamicHandledRedirectStatus 302 p" "rs_status (demo_moved ''https://a.com/w'') = 302" for p
    by (simp_all add: dynamicRejectedRedirectStatus_def dynamicHandledRedirectStatus_def demo_moved_def)
  have v: "''https://a.com/w'' \<notin> set (hs_visited h)"
    using demo_normal(3) by (auto simp: assms demo_first_def dynamicRedirectURLKey_def demo_redirector_def demo_lib_def demo_redirect_values
        split: sum.splits)
  have f: "\<not> shouldInternallyFollowDynamicRedirect demo_next"
    by (simp add: shouldInternallyFollowDynamicRedirect_def demo_next_def demo_unfollowed demo_target_def)
  have d: "sourceEnabled (dynamicPolicy demo_redirector) ''redirect''" "rp_available (dynamicPolicy demo_redirector)"
    "MaxRedirects (rp_limits (dynamicPolicy demo_redirector)) = 3" "dl_names (rt_lib demo_redirector) = demo_names"
    "dl_parse (rt_lib demo_redirector) = demo_url_parser" "capabilityIssuer demo_redirector = Some demo_issuer"
    "\<not> mainVideoDirect demo_redirector" "get_or_head (rq_method demo_next)"
    by (simp_all add: demo_redirector_def demo_redirect_policy_def demo_limits_def sourceEnabled_def dynamicDiscoverySourceEnabled_def
        demo_lib_def demo_next_def get_or_head_def)
  show ?thesis
    by (simp add: hop_step_def assms(1-3) l s demo_second_located d Let_def)
      (simp add: discovered_hop_def d demo_redirect_values demo_normal v f assms(1,4) Let_def)
qed

lemma demo_reserved_again: "reserveAuthority 0 ''https://a.com:443'' 100 (auth demo_caps) = (a, Reserved 2) \<Longrightarrow>
    \<exists>a' rid. reserveAuthority 0 ''https://a.com:443'' 100 a = (a', Reserved rid)"
  by (auto simp: demo_caps_value reserveAuthority_def reserve_new_def reserve_existing_def newDynamicSiteState_def newDynamicRuntime_def
      mget_or_def Let_def globalDynamicMaxAuthorities_def globalDynamicMaxNewAuthoritiesMinute_def)


lemma demo_capability:
  assumes "reserveAuthority 0 ''https://a.com:443'' 100 (auth demo_caps) = (a, Reserved 2)" "dw_caps d = demo_caps\<lparr>auth := a\<rparr>"
  shows "\<exists>d'. mint (rt_lib demo_redirector) demo_issuer (he_mint (demo_hop resp)) (Some demo_target) demo_other ''redirect'' d =
    (d', Minted (clientRoute demo_issuer (dynamicRoutePrefix @ ''tok'')) True)"
proof -
  obtain a' rid where a: "reserveAuthority 0 ''https://a.com:443'' 100 (auth (dw_caps d)) = (a', Reserved rid)"
    using demo_reserved_again [OF assms(1)] assms(2) by auto
  have "validateNormalizedTarget demo_names demo_policy demo_other demo_ifaces = None"
    by (simp add: validateNormalizedTarget_def demo_values demo_other_values demo_policy_def)
  then have v: "validateTarget demo_names demo_redirect_policy (Some demo_target) demo_other (Some demo_policy) demo_ifaces = []"
    by (simp add: validateTarget_def demo_redirect_policy_def demo_limits_def demo_other_values demo_other_fields port_443)
  have f: "rt_lib demo_redirector = demo_lib\<lparr>dl_parse := demo_url_parser\<rparr>" "he_mint (demo_hop resp) = demo_env" "is_state demo_issuer = 0"
      "me_settled demo_env = 100" "dl_sha demo_lib = id"
    by (simp_all add: demo_redirector_def demo_hop_def demo_issuer_def demo_env_def demo_lib_def)
  have t: "capabilityToken demo_issuer (clientRoute demo_issuer (dynamicRoutePrefix @ ''tok'')) = ''tok''"
    by code_simp
  from demo_mint_at [OF a assms(2) _ demo_other_fields(2) v, of "''redirect''" "''https://a.com/w''" demo_url_parser]
  obtain w' where "mintTracked (demo_lib\<lparr>dl_parse := demo_url_parser\<rparr>) demo_issuer demo_env (Some demo_target) demo_other ''redirect'' d =
      (w', Minted (clientRoute demo_issuer (dynamicRoutePrefix @ ''tok'')) True)" "snd (settleCapabilities id 0 [''tok''] True 100 (dw_caps w'))"
    by (auto simp: demo_target_fields mintTracked_def mintValidatedTracked_def mintValidatedResourceTracked_def demo_redirect_values)
  then show ?thesis
    by (simp add: mint_def publish_minted_def t case_prod_beta f)
qed

definition demo_chain :: "nat \<Rightarrow> hop_env" where
  "demo_chain n = demo_hop (if n = 1 then demo_moved ''https://a.com/w'' else demo_ok)"

text \<open>
  The second hop is answered with a capability, since \<open>/v\<close> is no playback path; the answer has no body, and
  the only stream slot of the site stays taken for good.
\<close>

theorem redirect_chain_leaks_stream_slot:
  "\<exists>w' r. roundTripDynamic demo_redirector demo_chain demo_request (Some (demo_moved ''https://a.com/v'')) demo_start = (w', Responds r) \<and>
     rs_body r = NoBody \<and> rw_open (close_answer demo_redirector (Responds r) w') = 1 \<and>
     acquireStream 0 (rw_budgets demo_start) \<noteq> None \<and>
     acquireStream 0 (rw_budgets (close_answer demo_redirector (Responds r) w')) = None"
proof -
  let ?w = "demo_start\<lparr>rw_lease := \<lparr>retained = False, lease_done = False, lease_reservations = []\<rparr>\<rparr>"
  have start: "roundTripDynamic demo_redirector demo_chain demo_request (Some (demo_moved ''https://a.com/v'')) demo_start =
      dynamic_loop demo_redirector demo_chain [] demo_first"
    by (simp add: roundTripDynamic_def demo_first_def demo_request_def expected_source_def demo_redirector_def demo_start_def)
  obtain h where h: "hop_step demo_redirector (demo_chain 1) [] demo_first = Continue h" "hs_active h" "hs_followed h = 1"
      "hs_req h = demo_next" "hs_resp h = Some ((demo_moved ''https://a.com/w'')\<lparr>rs_request := Some demo_next\<rparr>)"
      "hs_visited h = ''https://a.com/v'' # hs_visited demo_first"
      "rw_budgets (hs_world h) = the (acquireStream 0 (rw_budgets demo_start))" "rw_open (hs_world h) = 1"
    and a: "\<exists>a. dw_caps (rw_dyn (hs_world h)) = demo_caps\<lparr>auth := a\<rparr> \<and>
      reserveAuthority 0 ''https://a.com:443'' 100 (auth demo_caps) = (a, Reserved 2)"
    using demo_first_step [of "demo_moved ''https://a.com/w''"] by (auto simp: demo_chain_def)
  obtain d' where m: "mint (rt_lib demo_redirector) demo_issuer (he_mint (demo_chain 2)) (Some demo_target) demo_other ''redirect''
      (rw_dyn (hs_world h)) = (d', Minted (clientRoute demo_issuer (dynamicRoutePrefix @ ''tok'')) True)"
    using a demo_capability unfolding demo_chain_def by blast
  have body: "rs_body (markDynamicResponse False s (x\<lparr>rs_header := hd, rs_body := NoBody, rs_length := 0, rs_trailer := 0\<rparr>)) = NoBody" for hd s x
    by (simp add: markDynamicResponse_def Let_def split: option.split)
  have p: "plain_body (rs_body (demo_moved x))" for x by (simp add: plain_body_def demo_moved_def)
  have n: "rq_url demo_next = demo_target" by (simp add: demo_next_def)
  obtain w' r where s: "hop_step demo_redirector (demo_chain 2) [] h = Done w' (Responds r)" "rs_body r = NoBody"
      "rw_open w' = rw_open (hs_world h)" "rw_budgets w' = rw_budgets (hs_world h)"
    using demo_second_step [OF h(4,5,2,3,6), of "demo_chain 2"] m
    by (auto simp: capability_hop_def Let_def h n body held_fields p)
  have zero: "hs_followed demo_first = 0" by (simp add: demo_first_def)
  have "dynamic_loop demo_redirector demo_chain [] demo_first = (w', Responds r)"
    using h(1,3) s(1)
    by (simp add: dynamic_loop.simps [of _ _ _ demo_first] dynamic_loop.simps [of _ _ _ h] numeral_2_eq_2 zero)
  moreover have "acquireStream 0 (rw_budgets demo_start) \<noteq> None"
      "acquireStream 0 (the (acquireStream 0 (rw_budgets demo_start))) = None"
    by (simp_all add: demo_start_def acquireStream_def new_site_budget_def new_runtime_budget_def take_both_def chan_send_def
        make_chan_def globalDynamicMaxStreams_def)
  ultimately show ?thesis
    using s h(7,8) by (intro exI [of _ w'] exI [of _ r]) (simp add: start close_answer_def)
qed

theorem redirects_give_back_what_they_take_witness:
  "\<exists>w' r. roundTripDynamic demo_redirector (\<lambda>_. demo_hop demo_ok) demo_request (Some (demo_moved ''https://a.com/v'')) demo_start =
     (w', Responds r) \<and> rs_body r = DynamicBody (WireBody ''video'') (Some demo_transport) True \<and>
     rw_open w' = 1 \<and> rw_open (close_answer demo_redirector (Responds r) w') = 0 \<and>
     rw_bodies (close_answer demo_redirector (Responds r) w') = 0 \<and>
     rw_budgets (close_answer demo_redirector (Responds r) w') = rw_budgets demo_start"
proof -
  let ?env = "\<lambda>_ :: nat. demo_hop demo_ok"
  have start: "roundTripDynamic demo_redirector ?env demo_request (Some (demo_moved ''https://a.com/v'')) demo_start =
      dynamic_loop demo_redirector ?env [] demo_first"
    by (simp add: roundTripDynamic_def demo_first_def demo_request_def expected_source_def demo_redirector_def demo_start_def)
  obtain h where h: "hop_step demo_redirector (demo_hop demo_ok) [] demo_first = Continue h" "hs_active h" "hs_followed h = 1"
      "hs_resp h = Some (demo_ok\<lparr>rs_request := Some demo_next\<rparr>)" "hs_transport h = Some demo_transport" "hs_release h"
      "rw_open (hs_world h) = 1"
    using demo_first_step [of demo_ok] by auto
  obtain r where r: "hop_step demo_redirector (demo_hop demo_ok) [] h = Done (hs_world h) (Responds r)"
      "rs_body r = DynamicBody (WireBody ''video'') (Some demo_transport) True"
    by (simp add: hop_step_def h demo_ok_def dynamicRejectedRedirectStatus_def dynamicHandledRedirectStatus_def finish_hop_def Let_def
        markDynamicResponse_def)
  have run: "roundTripDynamic demo_redirector ?env demo_request (Some (demo_moved ''https://a.com/v'')) demo_start = (hs_world h, Responds r)"
    unfolding start using h(1) r(1) by (simp add: dynamic_loop.simps [of _ _ _ demo_first] dynamic_loop.simps [of _ _ _ h])
  have wire: "plain_body (rs_body (demo_moved ''https://a.com/v''))" "\<forall>n. wire_env (?env n)"
    by (simp_all add: plain_body_def demo_moved_def wire_env_def demo_hop_def demo_ok_def)
  from redirects_give_back_what_they_take [OF run _ wire] r(2) run h(7) show ?thesis
    by (simp add: leaked_def settled_def demo_start_def demo_moved_def body_count_def)
qed

end
