(* ===== verification/Progress_Request.thy ===== *)
theory Progress_Request
  imports Upstream_Headers
begin

text \<open>
  \<open>cmd/meridian/legacy_progress.go\<close>, the half that handles one request: which requests the coalescer takes,
  how much of a body it reads, the identity and the credential digest it files the request under, the
  writer that captures the upstream's response and the process-wide counters. The JSON decoder, SHA-256
  and HMAC are arguments.
\<close>

section \<open>Limits and the process-wide runtime\<close>

definition progressRequestBodyLimit :: nat where
  "progressRequestBodyLimit = 65536"

definition progressResponseBodyLimit :: nat where
  "progressResponseBodyLimit = 65536"

definition progressMaxKeyComponentBytes :: nat where
  "progressMaxKeyComponentBytes = 256"

datatype progressRequestKind = progressRequestNone | progressRequestUpdate | progressRequestStopped

record progressIdentity =
  SessionID :: string
  PlaySessionID :: string
  ItemID :: string

record progressInternalKey =
  Identity :: progressIdentity
  Credential :: string

record progressGlobalRuntime =
  activeKeys :: int
  global_waiters :: int
  maxActiveKeys :: int
  maxWaiters :: int
  credentialKey :: string
  credentialKeyGood :: bool

text \<open>\<open>rand.Read\<close> gives 32 bytes or fails.\<close>

definition newProgressGlobalRuntime :: "string option \<Rightarrow> int \<Rightarrow> int \<Rightarrow> progressGlobalRuntime" where
  "newProgressGlobalRuntime random maxKeys maxW =
     \<lparr>activeKeys = 0, global_waiters = 0, maxActiveKeys = maxKeys, maxWaiters = maxW,
      credentialKey = (case random of None \<Rightarrow> replicate 32 (CHR 0x00) | Some k \<Rightarrow> k),
      credentialKeyGood = (random \<noteq> None)\<rparr>"

definition reserveKey :: "progressGlobalRuntime \<Rightarrow> progressGlobalRuntime \<times> bool" where
  "reserveKey g =
     (if maxActiveKeys g \<le> 0 \<or> maxActiveKeys g \<le> activeKeys g then (g, False)
      else (g\<lparr>activeKeys := activeKeys g + 1\<rparr>, True))"

definition releaseKey :: "progressGlobalRuntime \<Rightarrow> progressGlobalRuntime" where
  "releaseKey g = (if 0 < activeKeys g then g\<lparr>activeKeys := activeKeys g - 1\<rparr> else g)"

definition reserveWaiter :: "progressGlobalRuntime \<Rightarrow> progressGlobalRuntime \<times> bool" where
  "reserveWaiter g =
     (if maxWaiters g \<le> 0 \<or> maxWaiters g \<le> global_waiters g then (g, False)
      else (g\<lparr>global_waiters := global_waiters g + 1\<rparr>, True))"

definition releaseWaiter :: "progressGlobalRuntime \<Rightarrow> progressGlobalRuntime" where
  "releaseWaiter g = (if 0 < global_waiters g then g\<lparr>global_waiters := global_waiters g - 1\<rparr> else g)"

section \<open>The request\<close>

text \<open>
  What the coalescer reads of a request. The body is the bytes its reader yields before it ends, or
  before it fails when \<open>rq_body_fails\<close>; a negative length is an unknown one.
\<close>

record progress_request =
  rq_method :: string
  rq_url_path :: string
  rq_raw_query :: string
  rq_user :: "string option"
  rq_header :: http_header
  rq_body :: string
  rq_body_fails :: bool
  rq_content_length :: int
  rq_certificates :: "string list"

definition progressPathKind :: "progress_request \<Rightarrow> progressRequestKind" where
  "progressPathKind r =
     (if rq_method r \<noteq> ''POST'' then progressRequestNone
      else if rq_url_path r \<in> {''/Sessions/Playing/Progress'', ''/emby/Sessions/Playing/Progress''}
      then progressRequestUpdate
      else if rq_url_path r \<in> {''/Sessions/Playing/Stopped'', ''/emby/Sessions/Playing/Stopped''}
      then progressRequestStopped
      else progressRequestNone)"

text \<open>
  The request afterwards and the payload when all of it was read. A body that was not proved complete
  is put back: the prefix that was read, followed by what its reader still holds.
\<close>

definition readProgressRequestBody :: "progress_request \<Rightarrow> progress_request \<times> string option" where
  "readProgressRequestBody r =
     (if int progressRequestBodyLimit < rq_content_length r then (r, None)
      else
        let payload = take progressRequestBodyLimit (rq_body r);
            rest = drop progressRequestBodyLimit (rq_body r);
            err = rq_body_fails r \<and> length (rq_body r) < progressRequestBodyLimit;
            complete = (\<not> err \<and>
              (if 0 \<le> rq_content_length r then int (length payload) = rq_content_length r
               else length payload \<noteq> progressRequestBodyLimit))
        in if complete then (r\<lparr>rq_body := payload, rq_body_fails := False\<rparr>, Some payload)
           else (r\<lparr>rq_body := payload @ rest\<rparr>, None))"

definition parseProgressIdentity ::
  "(string \<Rightarrow> (string \<times> string \<times> string) option) \<Rightarrow> string \<Rightarrow> progressIdentity option" where
  "parseProgressIdentity unmarshal payload =
     (if payload = [] then None
      else case unmarshal payload of
        None \<Rightarrow> None
      | Some (s, p, i) \<Rightarrow>
          if list_all (\<lambda>component. component \<noteq> [] \<and> length component \<le> progressMaxKeyComponentBytes) [s, p, i]
          then Some \<lparr>SessionID = s, PlaySessionID = p, ItemID = i\<rparr> else None)"

definition progressCredentialHeaders :: "string list" where
  "progressCredentialHeaders =
     [''Authorization'', ''Cookie'', ''Proxy-Authorization'', ''X-Api-Key'', ''X-Emby-Authorization'',
      ''X-Emby-Token'', ''X-MediaBrowser-Token'']"

section \<open>The credential digest\<close>

text \<open>The bytes that are written to the HMAC.\<close>

definition credential_values :: "(string \<Rightarrow> string) \<Rightarrow> string list \<Rightarrow> string" where
  "credential_values sha vs = concat (map (\<lambda>v. CHR 0x01 # sha v) vs) @ [CHR 0x00]"

fun credential_headers :: "(string \<Rightarrow> string) \<Rightarrow> http_header \<Rightarrow> nat \<Rightarrow> string list \<Rightarrow> string" where
  "credential_headers sha h index [] = []"
| "credential_headers sha h index (name # names) =
     char_of (index + 1) # credential_values sha (hdr_values h name) @ credential_headers sha h (Suc index) names"

definition credential_message :: "(string \<Rightarrow> string) \<Rightarrow> progress_request \<Rightarrow> string" where
  "credential_message sha r =
     credential_headers sha (rq_header r) 0 progressCredentialHeaders @ sha (rq_raw_query r) @
     (case rq_user r of None \<Rightarrow> [] | Some u \<Rightarrow> sha u) @ concat (map sha (rq_certificates r))"

definition progressCredentialDigest ::
  "(string \<Rightarrow> string) \<Rightarrow> (string \<Rightarrow> string \<Rightarrow> string) \<Rightarrow> progressGlobalRuntime \<Rightarrow> progress_request \<Rightarrow> string option" where
  "progressCredentialDigest sha hmac g r =
     (if credentialKeyGood g then Some (hmac (credentialKey g) (credential_message sha r)) else None)"

section \<open>The captured response\<close>

record progressResponse =
  Status :: int
  Header :: http_header
  Body :: string

text \<open>
  An error of a dispatch: the two of this file, the server's abort of a handler, one of the transport
  and several that \<open>errors.Join\<close> put together.
\<close>

datatype progress_error =
  errProgressResponseTooLarge | errProgressDispatchPanicked | errAbortHandler | transport_error string |
  joined_errors "progress_error list"

text \<open>\<open>errors.Join\<close> of two errors.\<close>

definition join_errors :: "progress_error option \<Rightarrow> progress_error option \<Rightarrow> progress_error option" where
  "join_errors a b =
     (case (a, b) of (None, None) \<Rightarrow> None
      | _ \<Rightarrow> Some (joined_errors ((case a of None \<Rightarrow> [] | Some x \<Rightarrow> [x]) @ (case b of None \<Rightarrow> [] | Some x \<Rightarrow> [x]))))"

record progressOutcome =
  Response :: progressResponse
  Err :: "progress_error option"

record progressCaptureWriter =
  cw_header :: http_header
  writtenHeader :: http_header
  cw_status :: int
  cw_body :: string
  overflow :: bool

definition newProgressCaptureWriter :: progressCaptureWriter where
  "newProgressCaptureWriter = \<lparr>cw_header = [], writtenHeader = [], cw_status = 0, cw_body = [], overflow = False\<rparr>"

definition capture_WriteHeader :: "int \<Rightarrow> progressCaptureWriter \<Rightarrow> progressCaptureWriter" where
  "capture_WriteHeader status w =
     (if 100 \<le> status \<and> status < 200 \<and> status \<noteq> 101 then w
      else if cw_status w \<noteq> 0 then w
      else w\<lparr>cw_status := status, writtenHeader := cw_header w\<rparr>)"

definition capture_Write :: "string \<Rightarrow> progressCaptureWriter \<Rightarrow> progressCaptureWriter \<times> nat" where
  "capture_Write payload w0 =
     (let w = (if cw_status w0 = 0 then capture_WriteHeader 200 w0 else w0);
          remaining = int progressResponseBodyLimit - int (length (cw_body w));
          w1 = (if 0 < remaining
                then w\<lparr>cw_body := cw_body w @ take (nat (min (int (length payload)) remaining)) payload\<rparr>
                else w);
          w2 = (if remaining < int (length payload) then w1\<lparr>overflow := True\<rparr> else w1)
      in (w2, length payload))"

definition progressBadGatewayResponse :: progressResponse where
  "progressBadGatewayResponse =
     \<lparr>Status = 502, Header = [(''Content-Type'', [''application/json''])],
      Body = ''{\"error\":\"upstream unavailable\"}''\<rparr>"

definition progressServiceUnavailableResponse :: progressResponse where
  "progressServiceUnavailableResponse =
     \<lparr>Status = 503, Header = [(''Content-Type'', [''application/json''])],
      Body = ''{\"error\":\"site is stopping\"}''\<rparr>"

definition capture_response :: "progressCaptureWriter \<Rightarrow> progressResponse \<times> progress_error option" where
  "capture_response w0 =
     (let w = (if cw_status w0 = 0 then capture_WriteHeader 200 w0 else w0)
      in if overflow w then (progressBadGatewayResponse, Some errProgressResponseTooLarge)
         else (\<lparr>Status = cw_status w, Header = writtenHeader w, Body = cw_body w\<rparr>, None))"

text \<open>\<open>recover\<close> hands over the panic's value: the server's abort or anything else.\<close>

definition progressDispatchPanicError :: "bool \<Rightarrow> progress_error" where
  "progressDispatchPanicError isAbort = (if isAbort then errAbortHandler else errProgressDispatchPanicked)"

text \<open>The client's writer receives the header lines, the status and the body.\<close>

definition writeProgressResponse :: "http_header \<Rightarrow> progressResponse \<Rightarrow> http_header \<times> int \<times> string" where
  "writeProgressResponse h response =
     (foldl (\<lambda>h (name, vs). foldl (\<lambda>h v. hdr_add name v h) h vs) h (Header response),
      (if Status response = 0 then 502 else Status response), Body response)"

text \<open>\<open>progressDispatchErrorState\<close>: the errors recorded while one dispatch runs.\<close>

definition record_dispatch_error :: "progress_error option \<Rightarrow> progress_error option \<Rightarrow> progress_error option" where
  "record_dispatch_error state err = (if err = None then state else join_errors state err)"

text \<open>What the reverse proxy does with the capturing writer, call by call.\<close>

datatype capture_call = SetHeader http_header | WriteHeader int | Write string | Flush

primrec capture_step :: "capture_call \<Rightarrow> progressCaptureWriter \<Rightarrow> progressCaptureWriter" where
  "capture_step (SetHeader h) w = w\<lparr>cw_header := h\<rparr>"
| "capture_step (WriteHeader status) w = capture_WriteHeader status w"
| "capture_step (Write payload) w = fst (capture_Write payload w)"
| "capture_step Flush w = w"

text \<open>
  The dispatch of \<open>proxy_start.go\<close>: the reverse proxy runs with the capturing writer, its transport
  records errors; or the proxy panics.
\<close>

definition progress_dispatch ::
  "capture_call list \<Rightarrow> progress_error list \<Rightarrow> progressResponse \<times> progress_error option" where
  "progress_dispatch calls errs =
     (let capture = fold capture_step calls newProgressCaptureWriter;
          dispatchErrors = foldl (\<lambda>s e. record_dispatch_error s (Some e)) None errs;
          (response, captureErr) = capture_response capture
      in (response, join_errors captureErr dispatchErrors))"

section \<open>Lemmas: the body is never changed\<close>

text \<open>Whatever the coalescer decides, the request it hands on still has the body the client sent.\<close>

lemma body_restored:
  assumes "readProgressRequestBody r = (r', p)" "0 \<le> rq_content_length r \<Longrightarrow> int (length (rq_body r)) \<le> rq_content_length r"
  shows "rq_body r' = rq_body r" "p \<noteq> None \<Longrightarrow> p = Some (rq_body r) \<and> length (rq_body r) \<le> progressRequestBodyLimit"
    "r'\<lparr>rq_body := rq_body r, rq_body_fails := rq_body_fails r\<rparr> = r"
proof -
  define t where "t = take progressRequestBodyLimit (rq_body r)"
  define c where "c \<longleftrightarrow> (if 0 \<le> rq_content_length r then int (length t) = rq_content_length r
    else length t \<noteq> progressRequestBodyLimit)"
  have e: "readProgressRequestBody r =
    (if int progressRequestBodyLimit < rq_content_length r then (r, None)
     else if \<not> (rq_body_fails r \<and> length (rq_body r) < progressRequestBodyLimit) \<and> c
     then (r\<lparr>rq_body := t, rq_body_fails := False\<rparr>, Some t)
     else (r\<lparr>rq_body := t @ drop progressRequestBodyLimit (rq_body r)\<rparr>, None))"
    unfolding readProgressRequestBody_def Let_def t_def c_def by (rule refl)
  have td: "t @ drop progressRequestBodyLimit (rq_body r) = rq_body r" by (simp add: t_def)
  consider (large) "r' = r" "p = None" | (incomplete) "p = None" "r' = r\<lparr>rq_body := rq_body r\<rparr>" |
    (complete) "rq_content_length r \<le> int progressRequestBodyLimit" "p = Some t"
      "r' = r\<lparr>rq_body := t, rq_body_fails := False\<rparr>" c
    using assms(1) unfolding e td by (simp split: if_split_asm)
  hence *: "rq_body r' = rq_body r \<and> (p \<noteq> None \<longrightarrow> p = Some (rq_body r) \<and> length (rq_body r) \<le> progressRequestBodyLimit) \<and>
    r'\<lparr>rq_body := rq_body r, rq_body_fails := rq_body_fails r\<rparr> = r"
  proof cases
    case complete
    have "length (rq_body r) \<le> progressRequestBodyLimit"
      using complete(1,4) assms(2) by (cases "0 \<le> rq_content_length r") (auto simp: c_def t_def)
    thus ?thesis using complete by (simp add: t_def)
  qed simp_all
  show "rq_body r' = rq_body r" "p \<noteq> None \<Longrightarrow> p = Some (rq_body r) \<and> length (rq_body r) \<le> progressRequestBodyLimit"
    "r'\<lparr>rq_body := rq_body r, rq_body_fails := rq_body_fails r\<rparr> = r"
    using * by blast+
qed

section \<open>Lemmas: the captured response is whole or an error\<close>

definition written :: "capture_call list \<Rightarrow> string" where
  "written calls = concat (map (\<lambda>c. case c of Write p \<Rightarrow> p | _ \<Rightarrow> []) calls)"

lemma capture_header_fields [simp]: "cw_body (capture_WriteHeader s w) = cw_body w"
  "overflow (capture_WriteHeader s w) = overflow w"
  by (simp_all add: capture_WriteHeader_def)

lemma capture_write_body:
  assumes "length (cw_body w) \<le> progressResponseBodyLimit"
  shows "cw_body (fst (capture_Write p w)) = take progressResponseBodyLimit (cw_body w @ p)"
    "overflow (fst (capture_Write p w)) \<longleftrightarrow> overflow w \<or> progressResponseBodyLimit < length (cw_body w @ p)"
proof -
  have t: "take (nat (min (int (length p)) (int progressResponseBodyLimit - int (length (cw_body w))))) p
      = take (progressResponseBodyLimit - length (cw_body w)) p"
    using assms by (cases "length p \<le> progressResponseBodyLimit - length (cw_body w)") (auto simp: min_def nat_diff_distrib')
  show "cw_body (fst (capture_Write p w)) = take progressResponseBodyLimit (cw_body w @ p)"
    using assms t by (simp add: capture_Write_def Let_def)
  show "overflow (fst (capture_Write p w)) \<longleftrightarrow> overflow w \<or> progressResponseBodyLimit < length (cw_body w @ p)"
    using assms by (auto simp: capture_Write_def Let_def)
qed

lemma capture_run_aux:
  assumes "cw_body w = take progressResponseBodyLimit b" "overflow w \<longleftrightarrow> progressResponseBodyLimit < length b"
  shows "cw_body (fold capture_step cs w) = take progressResponseBodyLimit (b @ written cs) \<and>
    (overflow (fold capture_step cs w) \<longleftrightarrow> progressResponseBodyLimit < length (b @ written cs))"
  using assms
proof (induction cs arbitrary: w b)
  case (Cons c cs)
  have l: "length (cw_body w) \<le> progressResponseBodyLimit" using Cons.prems(1) by simp
  show ?case
  proof (cases c)
    case (Write p)
    have "cw_body (capture_step c w) = take progressResponseBodyLimit (b @ p)"
      using Cons.prems(1) capture_write_body(1) [OF l, of p] by (simp add: Write min_def)
    moreover have "overflow (capture_step c w) \<longleftrightarrow> progressResponseBodyLimit < length (b @ p)"
      using Cons.prems capture_write_body(2) [OF l, of p] by (auto simp: Write)
    ultimately show ?thesis using Cons.IH [of "capture_step c w" "b @ p"] by (simp add: Write written_def)
  qed (use Cons in \<open>simp_all add: written_def\<close>)
qed (simp add: written_def)

lemma capture_run:
  "cw_body (fold capture_step cs newProgressCaptureWriter) = take progressResponseBodyLimit (written cs)"
  "overflow (fold capture_step cs newProgressCaptureWriter) \<longleftrightarrow> progressResponseBodyLimit < length (written cs)"
  using capture_run_aux [of newProgressCaptureWriter "[]" cs] by (simp_all add: newProgressCaptureWriter_def)

text \<open>A dispatch never delivers a truncated body: the response is whole or the 502 with its error.\<close>

lemma dispatch_whole_or_error:
  assumes "progress_dispatch cs errs = (response, err)"
  shows "if length (written cs) \<le> progressResponseBodyLimit
    then Body response = written cs \<and> (err = None \<longleftrightarrow> errs = [])
    else response = progressBadGatewayResponse \<and> err \<noteq> None"
proof -
  have e: "foldl (\<lambda>s e. record_dispatch_error s (Some e)) s es = None \<longleftrightarrow> s = None \<and> es = []" for s es
    by (induction es arbitrary: s) (auto simp: record_dispatch_error_def join_errors_def split: option.splits)
  have j: "join_errors a b = None \<longleftrightarrow> a = None \<and> b = None" for a b
    by (auto simp: join_errors_def split: option.splits)
  note r = capture_run [of cs]
  show ?thesis
    using assms by (auto simp: progress_dispatch_def capture_response_def Let_def j e r join_errors_def
      split: prod.splits if_split_asm option.splits)
qed

section \<open>Lemmas: the digest separates credentials\<close>

text \<open>
  A hash that gives 32 bytes and does not collide on the texts of two requests: then equal messages
  mean equal credential headers and equal queries.
\<close>

definition credential_texts :: "progress_request \<Rightarrow> string set" where
  "credential_texts r =
     insert (rq_raw_query r) (\<Union>name\<in>set progressCredentialHeaders. set (hdr_values (rq_header r) name))"

lemma credential_values_prefix:
  assumes "\<And>x. length (sha x) = 32" "inj_on sha (set vs \<union> set ws)"
    and "credential_values sha vs @ a = credential_values sha ws @ b"
  shows "vs = ws \<and> a = b"
  using assms(2,3)
proof (induction vs arbitrary: ws)
  case Nil
  thus ?case by (cases ws) (simp_all add: credential_values_def)
next
  case (Cons v vs)
  then obtain w ws' where ws: "ws = w # ws'" by (cases ws) (simp_all add: credential_values_def)
  have "sha v = sha w" "credential_values sha vs @ a = credential_values sha ws' @ b"
    using Cons.prems(2) assms(1) by (simp_all add: ws credential_values_def append_eq_append_conv)
  moreover have "inj_on sha (set vs \<union> set ws')" using Cons.prems(1) by (rule inj_on_subset) (auto simp: ws)
  ultimately show ?case using Cons.IH [of ws'] inj_onD [OF Cons.prems(1), of v w] by (simp add: ws)
qed

lemma credential_headers_prefix:
  assumes "\<And>x. length (sha x) = 32"
    "inj_on sha (\<Union>name\<in>set names. set (hdr_values h name) \<union> set (hdr_values h' name))"
    "credential_headers sha h i names @ a = credential_headers sha h' i names @ b"
  shows "(\<forall>name\<in>set names. hdr_values h name = hdr_values h' name) \<and> a = b"
  using assms(2,3)
proof (induction names arbitrary: i)
  case (Cons n names)
  have "inj_on sha (set (hdr_values h n) \<union> set (hdr_values h' n))"
    "inj_on sha (\<Union>name\<in>set names. set (hdr_values h name) \<union> set (hdr_values h' name))"
    using Cons.prems(1) by (auto elim: inj_on_subset)
  moreover from this(1) have "hdr_values h n = hdr_values h' n \<and>
    credential_headers sha h (Suc i) names @ a = credential_headers sha h' (Suc i) names @ b"
    using Cons.prems(2) by (intro credential_values_prefix [OF assms(1)]) simp_all
  ultimately show ?case using Cons.IH [of "Suc i"] by auto
qed simp

lemma credential_message_inj:
  assumes "\<And>x. length (sha x) = 32" "inj_on sha (credential_texts r \<union> credential_texts r')"
    and "credential_message sha r = credential_message sha r'"
  shows "(\<forall>name\<in>set progressCredentialHeaders. hdr_values (rq_header r) name = hdr_values (rq_header r') name) \<and>
    rq_raw_query r = rq_raw_query r'"
proof -
  have "inj_on sha (\<Union>name\<in>set progressCredentialHeaders.
      set (hdr_values (rq_header r) name) \<union> set (hdr_values (rq_header r') name))"
    using assms(2) by (rule inj_on_subset) (auto simp: credential_texts_def)
  from credential_headers_prefix [OF assms(1) this assms(3) [unfolded credential_message_def]]
  have h: "\<forall>name\<in>set progressCredentialHeaders. hdr_values (rq_header r) name = hdr_values (rq_header r') name"
    and "sha (rq_raw_query r) = sha (rq_raw_query r')"
    using assms(1) by (auto simp: append_eq_append_conv)
  from this(2) have "rq_raw_query r = rq_raw_query r'"
    by (rule inj_onD [OF assms(2)]) (simp_all add: credential_texts_def)
  with h show ?thesis by blast
qed

section \<open>Lemmas: the counters\<close>

lemma reserveKey_spec: "reserveKey g = (g', ok) \<Longrightarrow> 0 \<le> activeKeys g \<Longrightarrow>
  g' = g\<lparr>activeKeys := activeKeys g + (if ok then 1 else 0)\<rparr> \<and> (ok \<longrightarrow> activeKeys g' \<le> maxActiveKeys g)"
  by (auto simp: reserveKey_def split: if_split_asm)

lemma reserveWaiter_spec: "reserveWaiter g = (g', ok) \<Longrightarrow>
  g' = g\<lparr>global_waiters := global_waiters g + (if ok then 1 else 0)\<rparr> \<and> (ok \<longrightarrow> global_waiters g' \<le> maxWaiters g)"
  by (auto simp: reserveWaiter_def split: if_split_asm)

section \<open>Properties\<close>

text \<open>C12. What the waiters of an update get is whole or an error. Whatever sequence of header changes, status
  lines, writes and flushes the reverse proxy makes and whatever errors its transport records, a body of at
  most 64 KiB is handed on exactly as it was written, with an error only when one was recorded; a longer one
  is never truncated: the waiters get the 502 response and an error.
\<close>

theorem progress_response_is_whole_or_error:
  "case progress_dispatch calls errs of (response, err) \<Rightarrow>
     if length (written calls) \<le> progressResponseBodyLimit
     then Body response = written calls \<and> (err = None) = (errs = [])
     else response = progressBadGatewayResponse \<and> err \<noteq> None"
  using dispatch_whole_or_error [of calls errs] by (cases "progress_dispatch calls errs") simp


definition pad32 :: "string \<Rightarrow> string" where
  "pad32 s = take 32 (s @ replicate 32 (CHR 0x00))"

definition token_request :: "string \<Rightarrow> progress_request" where
  "token_request t =
     \<lparr>rq_method = ''POST'', rq_url_path = ''/Sessions/Playing/Progress'', rq_raw_query = [], rq_user = None,
      rq_header = [(''X-Emby-Token'', [t])], rq_body = [], rq_body_fails = False, rq_content_length = 0,
      rq_certificates = []\<rparr>"

lemma demo_texts: "credential_texts (token_request ''a'') \<union> credential_texts (token_request ''b'') = {[], ''a'', ''b''}"
proof -
  have "list_all (\<lambda>name. hdr_values (rq_header (token_request t)) name = (if name = ''X-Emby-Token'' then [t] else []))
    progressCredentialHeaders" for t
    by code_simp
  hence "credential_texts (token_request t) = {[], t}" for t
    by (auto simp: credential_texts_def list_all_iff token_request_def progressCredentialHeaders_def)
  thus ?thesis by auto
qed


end
