(* ===== verification/Progress_Coalescer.thy ===== *)
theory Progress_Coalescer
  imports Progress_Request
begin

text \<open>
  \<open>cmd/meridian/legacy_progress.go\<close>, the coalescer of one site: playback progress reports of one key are
  collected into batches of which only the latest is sent, and a report that playback stopped is a barrier
  in the same queue. Every object the code reaches through a pointer (entry, batch, barrier, waiter, request,
  drain cycle) lives in a store that maps its address to its value; addresses come from one counter. Each
  definition below is one critical section of \<open>c.mu\<close> or a part of one; the step relation at the end runs
  them in any order. A context's end, the clock and what the upstream did are arguments.
\<close>

section \<open>The state\<close>

record progressCoalescerConfig =
  debounce :: duration
  maxDispatchDelay :: duration
  idleExpiry :: duration
  cleanupInterval :: duration
  maxSiteKeys :: int
  maxWaitersPerKey :: int

definition defaultProgressCoalescerConfig :: progressCoalescerConfig where
  "defaultProgressCoalescerConfig =
     \<lparr>debounce = second, maxDispatchDelay = 5 * second, idleExpiry = 5 * minute, cleanupInterval = minute,
      maxSiteKeys = 1024, maxWaitersPerKey = 16\<rparr>"

record progressBufferedRequest =
  buffered :: progress_request
  request_released :: bool

definition newProgressBufferedRequest :: "progress_request \<Rightarrow> string \<Rightarrow> progressBufferedRequest" where
  "newProgressBufferedRequest r payload =
     \<lparr>buffered = r\<lparr>rq_body := payload, rq_body_fails := False, rq_content_length := int (length payload)\<rparr>,
      request_released = False\<rparr>"

text \<open>The channel of a waiter holds one outcome.\<close>

record progressWaiter =
  wait_result :: "progressOutcome option"
  wait_batch :: nat
  wait_entry :: nat
  wait_active :: bool

text \<open>The armed timer of a batch is the instant it is due.\<close>

record progressBatch =
  batch_request :: nat
  batch_waiters :: "nat list"
  firstArrival :: time
  lastArrival :: time
  ready :: bool
  batch_timer :: "time option"
  timerGeneration :: "64 word"

record progressBarrier =
  granted :: bool
  barrier_active :: bool
  barrier_canceled :: bool
  barrier_released :: bool

datatype progressWork = BatchWork nat | BarrierWork nat

record progressEntry =
  work_queue :: "progressWork list"
  activeBatch :: "nat option"
  activeBarrier :: "nat option"
  entry_waiters :: int
  lastActivity :: time

record progressDrainCycle =
  drain_done :: bool
  drain_err :: "progress_error option"

datatype progressCoalescerState = Coalescer_Open | Quiescing | Draining | Drained | Coalescer_Closed

text \<open>A callback that \<open>time.AfterFunc\<close> will run: \<open>Stop\<close> may come too late to prevent it, so it stays listed.\<close>

record timer_call =
  call_at :: time
  call_key :: progressInternalKey
  call_entry :: nat
  call_batch :: nat
  call_generation :: "64 word"

record progressCoalescer =
  c_global :: progressGlobalRuntime
  c_config :: progressCoalescerConfig
  c_entries :: "(progressInternalKey, nat) gomap"
  c_state :: progressCoalescerState
  c_drain :: "nat option"
  c_admissions :: int
  entry_at :: "nat \<Rightarrow> progressEntry"
  batch_at :: "nat \<Rightarrow> progressBatch"
  barrier_at :: "nat \<Rightarrow> progressBarrier"
  waiter_at :: "nat \<Rightarrow> progressWaiter"
  request_at :: "nat \<Rightarrow> progressBufferedRequest"
  cycle_at :: "nat \<Rightarrow> progressDrainCycle"
  fresh :: nat
  timer_calls :: "timer_call list"
  dispatches :: "(progressInternalKey \<times> nat \<times> nat) list"

text \<open>The zero values of the stores and the coalescer that \<open>newProgressCoalescer\<close> returns.\<close>

definition zero_request :: progress_request where
  "zero_request = \<lparr>rq_method = [], rq_url_path = [], rq_raw_query = [], rq_user = None, rq_header = [],
     rq_body = [], rq_body_fails = False, rq_content_length = 0, rq_certificates = []\<rparr>"

definition newProgressCoalescer :: "progressGlobalRuntime \<Rightarrow> progressCoalescerConfig \<Rightarrow> progressCoalescer" where
  "newProgressCoalescer g config =
     \<lparr>c_global = g, c_config = config, c_entries = [], c_state = Coalescer_Open, c_drain = None, c_admissions = 0,
      entry_at = (\<lambda>_. \<lparr>work_queue = [], activeBatch = None, activeBarrier = None, entry_waiters = 0, lastActivity = 0\<rparr>),
      batch_at = (\<lambda>_. \<lparr>batch_request = 0, batch_waiters = [], firstArrival = 0, lastArrival = 0, ready = False,
        batch_timer = None, timerGeneration = 0\<rparr>),
      barrier_at = (\<lambda>_. \<lparr>granted = False, barrier_active = False, barrier_canceled = False, barrier_released = False\<rparr>),
      waiter_at = (\<lambda>_. \<lparr>wait_result = None, wait_batch = 0, wait_entry = 0, wait_active = False\<rparr>),
      request_at = (\<lambda>_. \<lparr>buffered = zero_request, request_released = False\<rparr>),
      cycle_at = (\<lambda>_. \<lparr>drain_done = False, drain_err = None\<rparr>),
      fresh = 0, timer_calls = [], dispatches = []\<rparr>"

definition put_entry :: "nat \<Rightarrow> progressEntry \<Rightarrow> progressCoalescer \<Rightarrow> progressCoalescer" where
  "put_entry e v c = c\<lparr>entry_at := (entry_at c)(e := v)\<rparr>"

definition put_batch :: "nat \<Rightarrow> progressBatch \<Rightarrow> progressCoalescer \<Rightarrow> progressCoalescer" where
  "put_batch b v c = c\<lparr>batch_at := (batch_at c)(b := v)\<rparr>"

definition put_barrier :: "nat \<Rightarrow> progressBarrier \<Rightarrow> progressCoalescer \<Rightarrow> progressCoalescer" where
  "put_barrier n v c = c\<lparr>barrier_at := (barrier_at c)(n := v)\<rparr>"

definition put_waiter :: "nat \<Rightarrow> progressWaiter \<Rightarrow> progressCoalescer \<Rightarrow> progressCoalescer" where
  "put_waiter w v c = c\<lparr>waiter_at := (waiter_at c)(w := v)\<rparr>"

definition put_cycle :: "nat \<Rightarrow> progressDrainCycle \<Rightarrow> progressCoalescer \<Rightarrow> progressCoalescer" where
  "put_cycle d v c = c\<lparr>cycle_at := (cycle_at c)(d := v)\<rparr>"

definition release_request :: "nat \<Rightarrow> progressCoalescer \<Rightarrow> progressCoalescer" where
  "release_request r c = c\<lparr>request_at := (request_at c)(r := (request_at c r)\<lparr>request_released := True\<rparr>)\<rparr>"

definition idle_entry :: "progressEntry \<Rightarrow> bool" where
  "idle_entry entry \<longleftrightarrow> activeBatch entry = None \<and> activeBarrier entry = None \<and> work_queue entry = []"

section \<open>Entries, waiters and batches\<close>

definition delete_entry :: "progressInternalKey \<Rightarrow> progressCoalescer \<Rightarrow> progressCoalescer" where
  "delete_entry key c = c\<lparr>c_entries := mdel key (c_entries c), c_global := releaseKey (c_global c)\<rparr>"

definition cleanup_one :: "time \<Rightarrow> progressInternalKey \<times> nat \<Rightarrow> progressCoalescer \<Rightarrow> progressCoalescer" where
  "cleanup_one now = (\<lambda>(key, e) c.
     let entry = entry_at c e
     in if \<not> idle_entry entry \<or> entry_waiters entry \<noteq> 0 then c
        else if time_sub now (lastActivity entry) < idleExpiry (c_config c) then c
        else delete_entry key c)"

definition cleanupIdle :: "time \<Rightarrow> progressCoalescer \<Rightarrow> progressCoalescer" where
  "cleanupIdle now c = (if idleExpiry (c_config c) \<le> 0 then c else fold (cleanup_one now) (c_entries c) c)"

definition getOrCreateEntryLocked ::
  "progressInternalKey \<Rightarrow> time \<Rightarrow> progressCoalescer \<Rightarrow> progressCoalescer \<times> nat option \<times> bool" where
  "getOrCreateEntryLocked key now c =
     (case mget (c_entries c) key of
        Some e \<Rightarrow> (c, Some e, False)
      | None \<Rightarrow>
          if maxSiteKeys (c_config c) \<le> 0 \<or> maxSiteKeys (c_config c) \<le> int (length (c_entries c)) then (c, None, False)
          else let (g, reserved) = reserveKey (c_global c)
            in if \<not> reserved then (c\<lparr>c_global := g\<rparr>, None, False)
               else (put_entry (fresh c)
                 \<lparr>work_queue = [], activeBatch = None, activeBarrier = None, entry_waiters = 0, lastActivity = now\<rparr>
                 (c\<lparr>c_global := g, c_entries := mput key (fresh c) (c_entries c), fresh := Suc (fresh c)\<rparr>),
                 Some (fresh c), True))"

definition releaseEmptyNewEntryLocked ::
  "progressInternalKey \<Rightarrow> nat \<Rightarrow> bool \<Rightarrow> progressCoalescer \<Rightarrow> progressCoalescer" where
  "releaseEmptyNewEntryLocked key e created c =
     (if \<not> created \<or> \<not> idle_entry (entry_at c e) \<or> entry_waiters (entry_at c e) \<noteq> 0 then c
      else if mget (c_entries c) key = Some e then delete_entry key c else c)"

definition reserveWaiterLocked :: "nat \<Rightarrow> progressCoalescer \<Rightarrow> progressCoalescer \<times> bool" where
  "reserveWaiterLocked e c =
     (if maxWaitersPerKey (c_config c) \<le> 0 \<or> maxWaitersPerKey (c_config c) \<le> entry_waiters (entry_at c e) then (c, False)
      else let (g, reserved) = reserveWaiter (c_global c)
        in if \<not> reserved then (c\<lparr>c_global := g\<rparr>, False)
           else (put_entry e ((entry_at c e)\<lparr>entry_waiters := entry_waiters (entry_at c e) + 1\<rparr>) (c\<lparr>c_global := g\<rparr>), True))"

definition releaseWaiterLocked :: "nat \<Rightarrow> progressCoalescer \<Rightarrow> progressCoalescer" where
  "releaseWaiterLocked e c =
     (if 0 < entry_waiters (entry_at c e)
      then put_entry e ((entry_at c e)\<lparr>entry_waiters := entry_waiters (entry_at c e) - 1\<rparr>)
        (c\<lparr>c_global := releaseWaiter (c_global c)\<rparr>)
      else c)"

definition scheduleBatchLocked ::
  "progressInternalKey \<Rightarrow> nat \<Rightarrow> nat \<Rightarrow> time \<Rightarrow> progressCoalescer \<Rightarrow> progressCoalescer" where
  "scheduleBatchLocked key e b now c =
     (let batch = batch_at c b
      in if ready batch then c
         else
           let deadline = min (now + debounce (c_config c)) (firstArrival batch + maxDispatchDelay (c_config c))
           in if deadline \<le> now then put_batch b (batch\<lparr>ready := True, batch_timer := None\<rparr>) c
              else
                let generation = timerGeneration batch + 1
                in put_batch b (batch\<lparr>timerGeneration := generation, batch_timer := Some deadline\<rparr>)
                     (c\<lparr>timer_calls := timer_calls c @
                       [\<lparr>call_at = deadline, call_key = key, call_entry = e, call_batch = b, call_generation = generation\<rparr>]\<rparr>))"

definition advanceEntryLocked :: "progressInternalKey \<Rightarrow> nat \<Rightarrow> progressCoalescer \<Rightarrow> progressCoalescer" where
  "advanceEntryLocked key e c =
     (let entry = entry_at c e
      in if activeBatch entry \<noteq> None \<or> activeBarrier entry \<noteq> None then c
         else case work_queue entry of
             [] \<Rightarrow> c
           | BatchWork b # rest \<Rightarrow>
               if \<not> ready (batch_at c b) then c
               else put_entry e (entry\<lparr>work_queue := rest, activeBatch := Some b\<rparr>)
                 (c\<lparr>dispatches := dispatches c @ [(key, e, b)]\<rparr>)
           | BarrierWork n # rest \<Rightarrow>
               put_barrier n ((barrier_at c n)\<lparr>barrier_active := True, granted := True\<rparr>)
                 (put_entry e (entry\<lparr>work_queue := rest, activeBarrier := Some n\<rparr>) c))"

definition markBatchReady ::
  "progressInternalKey \<Rightarrow> nat \<Rightarrow> nat \<Rightarrow> 64 word \<Rightarrow> progressCoalescer \<Rightarrow> progressCoalescer" where
  "markBatchReady key e b generation c =
     (if mget (c_entries c) key \<noteq> Some e \<or> timerGeneration (batch_at c b) \<noteq> generation \<or> ready (batch_at c b) \<or>
        c_state c = Coalescer_Closed then c
      else advanceEntryLocked key e (put_batch b ((batch_at c b)\<lparr>ready := True, batch_timer := None\<rparr>) c))"

definition force_batch :: "progressBatch \<Rightarrow> progressBatch" where
  "force_batch batch = batch\<lparr>ready := True, timerGeneration := timerGeneration batch + 1, batch_timer := None\<rparr>"

primrec force_work :: "progressWork \<Rightarrow> progressCoalescer \<Rightarrow> progressCoalescer" where
  "force_work (BatchWork b) c = put_batch b (force_batch (batch_at c b)) c"
| "force_work (BarrierWork n) c = c"

definition forceQueuedBatchesLocked :: "nat \<Rightarrow> progressCoalescer \<Rightarrow> progressCoalescer" where
  "forceQueuedBatchesLocked e c = fold force_work (work_queue (entry_at c e)) c"

section \<open>Draining\<close>

definition completeDrainLocked :: "progressCoalescer \<Rightarrow> progressCoalescer" where
  "completeDrainLocked c =
     (case c_drain c of
        None \<Rightarrow> c
      | Some d \<Rightarrow>
          if c_state c \<noteq> Draining \<or> c_admissions c \<noteq> 0 then c
          else if \<not> list_all (\<lambda>(key, e). idle_entry (entry_at c e)) (c_entries c) then c
          else put_cycle d ((cycle_at c d)\<lparr>drain_done := True\<rparr>)
            (c\<lparr>c_drain := None,
              c_state := (if drain_err (cycle_at c d) = None then Drained else Coalescer_Open)\<rparr>))"

definition drain_one :: "progressInternalKey \<times> nat \<Rightarrow> progressCoalescer \<Rightarrow> progressCoalescer" where
  "drain_one = (\<lambda>(key, e) c. advanceEntryLocked key e (forceQueuedBatchesLocked e c))"

definition advanceDrainLocked :: "progressCoalescer \<Rightarrow> progressCoalescer" where
  "advanceDrainLocked c =
     (if c_state c \<noteq> Quiescing \<or> c_drain c = None \<or> c_admissions c \<noteq> 0 then c
      else completeDrainLocked (fold drain_one (c_entries c) (c\<lparr>c_state := Draining\<rparr>)))"

definition beginProgressIngress :: "progressCoalescer \<Rightarrow> progressCoalescer \<times> bool" where
  "beginProgressIngress c =
     (if c_state c \<noteq> Coalescer_Open then (c, False) else (c\<lparr>c_admissions := c_admissions c + 1\<rparr>, True))"

definition endProgressIngress :: "progressCoalescer \<Rightarrow> progressCoalescer" where
  "endProgressIngress c =
     advanceDrainLocked (if 0 < c_admissions c then c\<lparr>c_admissions := c_admissions c - 1\<rparr> else c)"

text \<open>
  The first half of \<open>Drain\<close>: it returns at once, or it waits for a cycle; \<open>started\<close> says the cycle is its own.
\<close>

datatype drain_call = Drain_Returned | Drain_Waits nat bool

definition Drain :: "progressCoalescer \<Rightarrow> progressCoalescer \<times> drain_call" where
  "Drain c =
     (case c_state c of
        Coalescer_Closed \<Rightarrow> (c, Drain_Returned)
      | Drained \<Rightarrow> (c, Drain_Returned)
      | Quiescing \<Rightarrow> (c, Drain_Waits (the (c_drain c)) False)
      | Draining \<Rightarrow> (c, Drain_Waits (the (c_drain c)) False)
      | Coalescer_Open \<Rightarrow>
          (advanceDrainLocked (put_cycle (fresh c) \<lparr>drain_done = False, drain_err = None\<rparr>
             (c\<lparr>c_state := Quiescing, c_drain := Some (fresh c), fresh := Suc (fresh c)\<rparr>)), Drain_Waits (fresh c) True))"

text \<open>The end of the context of the call that started the cycle.\<close>

definition Drain_timeout :: "nat \<Rightarrow> progressCoalescer \<Rightarrow> progressCoalescer" where
  "Drain_timeout d c =
     (if (c_state c = Quiescing \<or> c_state c = Draining) \<and> c_drain c = Some d
      then c\<lparr>c_state := Coalescer_Open, c_drain := None\<rparr> else c)"

definition close_work :: "progressWork \<Rightarrow> progressCoalescer \<Rightarrow> progressCoalescer" where
  "close_work work c =
     (case work of
        BarrierWork n \<Rightarrow> c
      | BatchWork b \<Rightarrow>
          release_request (batch_request (batch_at c b))
            (put_batch b ((batch_at c b)\<lparr>timerGeneration := timerGeneration (batch_at c b) + 1\<rparr>) c))"

definition close_one :: "progressInternalKey \<times> nat \<Rightarrow> progressCoalescer \<Rightarrow> progressCoalescer" where
  "close_one = (\<lambda>(key, e) c. delete_entry key (fold close_work (work_queue (entry_at c e)) c))"

definition Close :: "progressCoalescer \<Rightarrow> progressCoalescer" where
  "Close c =
     (if c_state c = Coalescer_Closed then c
      else fold close_one (c_entries c) (c\<lparr>c_state := Coalescer_Closed\<rparr>))"

definition activeCounts :: "progressCoalescer \<Rightarrow> int \<times> int" where
  "activeCounts c =
     (int (length (c_entries c)), msum (\<lambda>key e. entry_waiters (entry_at c e)) (c_entries c))"

section \<open>Updates\<close>

text \<open>How a dispatch ended: the proxy answered, or it panicked.\<close>

datatype dispatch_run = Answered "capture_call list" "progress_error list" | Panicked bool

definition dispatchBufferedRequest :: "dispatch_run \<Rightarrow> progressResponse \<times> progress_error option" where
  "dispatchBufferedRequest run =
     (case run of
        Answered calls errs \<Rightarrow> progress_dispatch calls errs
      | Panicked isAbort \<Rightarrow> (progressBadGatewayResponse, Some (progressDispatchPanicError isAbort)))"

definition deliver :: "nat \<Rightarrow> progressOutcome \<Rightarrow> nat \<Rightarrow> progressCoalescer \<Rightarrow> progressCoalescer" where
  "deliver e outcome w c =
     (if \<not> wait_active (waiter_at c w) then c
      else
        let c1 = releaseWaiterLocked e (put_waiter w ((waiter_at c w)\<lparr>wait_active := False\<rparr>) c)
        in put_waiter w ((waiter_at c1 w)\<lparr>wait_result := Some outcome\<rparr>) c1)"

definition record_drain_error :: "progress_error option \<Rightarrow> progressCoalescer \<Rightarrow> progressCoalescer" where
  "record_drain_error err c =
     (case c_drain c of
        None \<Rightarrow> c
      | Some d \<Rightarrow>
          if err \<noteq> None \<and> (c_state c = Quiescing \<or> c_state c = Draining)
          then put_cycle d ((cycle_at c d)\<lparr>drain_err := join_errors (drain_err (cycle_at c d)) err\<rparr>) c
          else c)"

definition force_if_draining :: "nat \<Rightarrow> progressCoalescer \<Rightarrow> progressCoalescer" where
  "force_if_draining e c = (if c_state c = Draining then forceQueuedBatchesLocked e c else c)"

definition dispatchBatch ::
  "progressInternalKey \<Rightarrow> nat \<Rightarrow> nat \<Rightarrow> dispatch_run \<Rightarrow> time \<Rightarrow> progressCoalescer \<Rightarrow> progressCoalescer" where
  "dispatchBatch key e b run now c0 =
     (let (response, dispatchErr) = dispatchBufferedRequest run;
          c = release_request (batch_request (batch_at c0 b)) c0
      in if mget (c_entries c) key \<noteq> Some e \<or> activeBatch (entry_at c e) \<noteq> Some b then c
         else
           let c1 = put_entry e ((entry_at c e)\<lparr>activeBatch := None, lastActivity := now\<rparr>) c;
               c2 = record_drain_error dispatchErr c1;
               c3 = fold (deliver e \<lparr>Response = response, Err = dispatchErr\<rparr>) (batch_waiters (batch_at c b)) c2
           in completeDrainLocked (advanceEntryLocked key e (force_if_draining e c3)))"

definition last_batch :: "progressEntry \<Rightarrow> nat option" where
  "last_batch entry =
     (if work_queue entry = [] then None
      else case List.last (work_queue entry) of BatchWork b \<Rightarrow> Some b | BarrierWork n \<Rightarrow> None)"

definition join_batch :: "nat \<Rightarrow> nat \<Rightarrow> time \<Rightarrow> progressCoalescer \<Rightarrow> progressCoalescer \<times> nat" where
  "join_batch e request now c =
     (case last_batch (entry_at c e) of
        None \<Rightarrow>
          (put_entry e ((entry_at c e)\<lparr>work_queue := work_queue (entry_at c e) @ [BatchWork (fresh c)]\<rparr>)
             (put_batch (fresh c)
               \<lparr>batch_request = request, batch_waiters = [], firstArrival = now, lastArrival = now, ready = False,
                batch_timer = None, timerGeneration = 0\<rparr> (c\<lparr>fresh := Suc (fresh c)\<rparr>)), fresh c)
      | Some b \<Rightarrow>
          (put_batch b ((batch_at c b)\<lparr>batch_request := request, lastArrival := now\<rparr>)
             (release_request (batch_request (batch_at c b)) c), b))"

definition accepts :: "progressCoalescer \<Rightarrow> bool" where
  "accepts c \<longleftrightarrow> c_state c = Coalescer_Open \<or> c_state c = Quiescing"

definition enqueueUpdate ::
  "progressInternalKey \<Rightarrow> nat \<Rightarrow> time \<Rightarrow> progressCoalescer \<Rightarrow> progressCoalescer \<times> nat option" where
  "enqueueUpdate key request now c0 =
     (if \<not> accepts c0 then (c0, None)
      else case getOrCreateEntryLocked key now c0 of
        (c1, None, created) \<Rightarrow> (c1, None)
      | (c1, Some e, created) \<Rightarrow>
          (case reserveWaiterLocked e c1 of
             (c2, False) \<Rightarrow> (releaseEmptyNewEntryLocked key e created c2, None)
           | (c2, True) \<Rightarrow>
               let w = fresh c2;
                   (c3, b) = join_batch e request now (c2\<lparr>fresh := Suc (fresh c2)\<rparr>);
                   c4 = put_waiter w \<lparr>wait_result = None, wait_batch = b, wait_entry = e, wait_active = True\<rparr> c3;
                   c5 = put_batch b ((batch_at c4 b)\<lparr>batch_waiters := batch_waiters (batch_at c4 b) @ [w]\<rparr>) c4;
                   c6 = put_entry e ((entry_at c5 e)\<lparr>lastActivity := now\<rparr>) c5
               in (advanceEntryLocked key e (scheduleBatchLocked key e b now c6), Some w)))"

text \<open>A waiter takes its outcome from the channel.\<close>

definition receive_outcome :: "nat \<Rightarrow> progressCoalescer \<Rightarrow> progressCoalescer \<times> progressOutcome option" where
  "receive_outcome w c =
     (case wait_result (waiter_at c w) of
        None \<Rightarrow> (c, None)
      | Some outcome \<Rightarrow> (put_waiter w ((waiter_at c w)\<lparr>wait_result := None\<rparr>) c, Some outcome))"

definition resolveCanceledWaiter ::
  "progressInternalKey \<Rightarrow> nat \<Rightarrow> nat \<Rightarrow> time \<Rightarrow> progressCoalescer \<Rightarrow> progressCoalescer \<times> progressOutcome option" where
  "resolveCanceledWaiter key e w now c =
     (if \<not> wait_active (waiter_at c w) then receive_outcome w c
      else if mget (c_entries c) key \<noteq> Some e then (c, None)
      else
        let b = wait_batch (waiter_at c w);
            c1 = put_waiter w ((waiter_at c w)\<lparr>wait_active := False\<rparr>) c;
            c2 = put_batch b ((batch_at c1 b)\<lparr>batch_waiters := removeAll w (batch_waiters (batch_at c1 b))\<rparr>) c1;
            c3 = releaseWaiterLocked e c2
        in (put_entry e ((entry_at c3 e)\<lparr>lastActivity := now\<rparr>) c3, None))"

text \<open>\<open>waitForProgressOutcome\<close>: an outcome that is there is taken, else the end of the context resolves the wait.\<close>

definition waitForProgressOutcome ::
  "bool \<Rightarrow> progressInternalKey \<Rightarrow> nat \<Rightarrow> time \<Rightarrow> progressCoalescer \<Rightarrow> progressCoalescer \<times> progressOutcome option" where
  "waitForProgressOutcome ctxDone key w now c =
     (if wait_result (waiter_at c w) = None \<and> ctxDone
      then resolveCanceledWaiter key (wait_entry (waiter_at c w)) w now c
      else receive_outcome w c)"

section \<open>Barriers\<close>

definition enqueueBarrier ::
  "progressInternalKey \<Rightarrow> time \<Rightarrow> progressCoalescer \<Rightarrow> progressCoalescer \<times> (nat \<times> nat) option" where
  "enqueueBarrier key now c0 =
     (if \<not> accepts c0 then (c0, None)
      else case getOrCreateEntryLocked key now c0 of
        (c1, None, created) \<Rightarrow> (c1, None)
      | (c1, Some e, created) \<Rightarrow>
          (case reserveWaiterLocked e c1 of
             (c2, False) \<Rightarrow> (releaseEmptyNewEntryLocked key e created c2, None)
           | (c2, True) \<Rightarrow>
               let n = fresh c2;
                   c3 = put_barrier n
                     \<lparr>granted = False, barrier_active = False, barrier_canceled = False, barrier_released = False\<rparr>
                     (c2\<lparr>fresh := Suc (fresh c2)\<rparr>);
                   c4 = forceQueuedBatchesLocked e c3;
                   c5 = put_entry e ((entry_at c4 e)
                     \<lparr>work_queue := work_queue (entry_at c4 e) @ [BarrierWork n], lastActivity := now\<rparr>) c4
               in (advanceEntryLocked key e c5, Some (e, n))))"

fun remove_work :: "nat \<Rightarrow> progressWork list \<Rightarrow> progressWork list option" where
  "remove_work n [] = None"
| "remove_work n (work # queue) =
     (if work = BarrierWork n then Some queue
      else case remove_work n queue of None \<Rightarrow> None | Some rest \<Rightarrow> Some (work # rest))"

definition removeBarrierLocked :: "nat \<Rightarrow> nat \<Rightarrow> progressCoalescer \<Rightarrow> progressCoalescer \<times> bool" where
  "removeBarrierLocked e n c =
     (case remove_work n (work_queue (entry_at c e)) of
        None \<Rightarrow> (c, False)
      | Some queue \<Rightarrow> (put_entry e ((entry_at c e)\<lparr>work_queue := queue\<rparr>) c, True))"

text \<open>\<open>waitForBarrier\<close> when the context ended; without that it returns \<open>True\<close> once the barrier is granted.\<close>

definition waitForBarrier_done ::
  "progressInternalKey \<Rightarrow> nat \<Rightarrow> nat \<Rightarrow> time \<Rightarrow> progressCoalescer \<Rightarrow> progressCoalescer \<times> bool" where
  "waitForBarrier_done key e n now c =
     (if mget (c_entries c) key \<noteq> Some e \<or> barrier_released (barrier_at c n) then (c, False)
      else if barrier_active (barrier_at c n) then (c, True)
      else case removeBarrierLocked e n c of
          (c1, False) \<Rightarrow> (c1, False)
        | (c1, True) \<Rightarrow>
            let c2 = put_barrier n ((barrier_at c1 n)\<lparr>barrier_canceled := True\<rparr>) c1;
                c3 = releaseWaiterLocked e c2;
                c4 = put_entry e ((entry_at c3 e)\<lparr>lastActivity := now\<rparr>) c3
            in (completeDrainLocked (advanceEntryLocked key e c4), False))"

definition releaseBarrier :: "progressInternalKey \<Rightarrow> nat \<Rightarrow> nat \<Rightarrow> time \<Rightarrow> progressCoalescer \<Rightarrow> progressCoalescer" where
  "releaseBarrier key e n now c =
     (if mget (c_entries c) key \<noteq> Some e \<or> activeBarrier (entry_at c e) \<noteq> Some n \<or> barrier_released (barrier_at c n) then c
      else
        let c1 = put_barrier n ((barrier_at c n)\<lparr>barrier_released := True, barrier_active := False\<rparr>) c;
            c2 = put_entry e ((entry_at c1 e)\<lparr>activeBarrier := None\<rparr>) c1;
            c3 = releaseWaiterLocked e c2;
            c4 = put_entry e ((entry_at c3 e)\<lparr>lastActivity := now\<rparr>) c3
        in completeDrainLocked (advanceEntryLocked key e (force_if_draining e c4)))"

section \<open>Serving a request\<close>

text \<open>
  Where a request stands: not a progress report, answered by the coalescer itself, left to the ordinary
  handler, let in, or waiting for its outcome or its barrier.
\<close>

datatype serve_stage =
  Not_Progress | Replied progressResponse | Ordinary | Admitted progressRequestKind |
  Awaits_Outcome progressInternalKey nat | Awaits_Barrier progressInternalKey nat nat

definition serveProgressFallback :: "progressCoalescer \<Rightarrow> serve_stage" where
  "serveProgressFallback c =
     (if c_state c = Coalescer_Open then Ordinary else Replied progressServiceUnavailableResponse)"

definition ServeHTTP_admit :: "progress_request \<Rightarrow> progressCoalescer \<Rightarrow> progressCoalescer \<times> serve_stage" where
  "ServeHTTP_admit r c =
     (if progressPathKind r = progressRequestNone then (c, Not_Progress)
      else case beginProgressIngress c of
        (c', False) \<Rightarrow> (c', Replied progressServiceUnavailableResponse)
      | (c', True) \<Rightarrow> (c', Admitted (progressPathKind r)))"

record progress_library =
  json_identity :: "string \<Rightarrow> (string \<times> string \<times> string) option"
  sha256 :: "string \<Rightarrow> string"
  hmac_sha256 :: "string \<Rightarrow> string \<Rightarrow> string"

definition request_key :: "progress_library \<Rightarrow> progressGlobalRuntime \<Rightarrow> progress_request \<Rightarrow> string \<Rightarrow> progressInternalKey option" where
  "request_key lib g r payload =
     (case parseProgressIdentity (json_identity lib) payload of
        None \<Rightarrow> None
      | Some identity \<Rightarrow>
          (case progressCredentialDigest (sha256 lib) (hmac_sha256 lib) g r of
             None \<Rightarrow> None
           | Some credential \<Rightarrow> Some \<lparr>Identity = identity, Credential = credential\<rparr>))"

text \<open>The request afterwards (its body may have been put back) and where it stands.\<close>

definition ServeHTTP_file ::
  "progress_library \<Rightarrow> progress_request \<Rightarrow> progressRequestKind \<Rightarrow> time \<Rightarrow> progressCoalescer \<Rightarrow>
   progressCoalescer \<times> progress_request \<times> serve_stage" where
  "ServeHTTP_file lib r0 kind now c =
     (case readProgressRequestBody r0 of
        (r, None) \<Rightarrow> (c, r, serveProgressFallback c)
      | (r, Some payload) \<Rightarrow>
          (case request_key lib (c_global c) r payload of
             None \<Rightarrow> (c, r, serveProgressFallback c)
           | Some key \<Rightarrow>
               if kind = progressRequestStopped
               then (case enqueueBarrier key now c of
                   (c', None) \<Rightarrow> (c', r, serveProgressFallback c')
                 | (c', Some (e, n)) \<Rightarrow> (c', r, Awaits_Barrier key e n))
               else
                 let request = fresh c;
                     c1 = c\<lparr>request_at := (request_at c)(request := newProgressBufferedRequest r payload),
                            fresh := Suc (fresh c)\<rparr>
                 in (case enqueueUpdate key request now c1 of
                     (c', None) \<Rightarrow> (release_request request c', r, serveProgressFallback c')
                   | (c', Some w) \<Rightarrow> (c', r, Awaits_Outcome key w))))"

text \<open>After a barrier was granted: the ordinary handler runs unless the context ended, then the barrier is released.\<close>

definition serve_granted :: "bool \<Rightarrow> serve_stage option" where
  "serve_granted ctxDone = (if ctxDone then None else Some Ordinary)"

section \<open>Every interleaving\<close>

text \<open>
  One critical section after another, of any goroutines. A dispatch ends only after it was started, a timer
  runs at or after its time, also when it was stopped meanwhile. \<open>shutdown\<close> calls \<open>Close\<close> only once
  \<open>Drain\<close> has returned no error.
\<close>

inductive progress_step :: "progressCoalescer \<Rightarrow> progressCoalescer \<Rightarrow> bool" where
  admit: "progress_step c (fst (ServeHTTP_admit r c))"
| file_request: "progress_step c (fst (ServeHTTP_file lib r kind now c))"
| end_ingress: "progress_step c (endProgressIngress c)"
| wait_outcome: "progress_step c (fst (waitForProgressOutcome ctxDone key w now c))"
| end_dispatch: "(key, e, b) \<in> set (dispatches c) \<Longrightarrow> progress_step c (dispatchBatch key e b run now c)"
| timer: "t \<in> set (timer_calls c) \<Longrightarrow> call_at t \<le> now \<Longrightarrow>
    progress_step c (markBatchReady (call_key t) (call_entry t) (call_batch t) (call_generation t) c)"
| wait_barrier: "progress_step c (fst (waitForBarrier_done key e n now c))"
| release_barrier: "progress_step c (releaseBarrier key e n now c)"
| maintain: "progress_step c (cleanupIdle now c)"
| drain: "progress_step c (fst (Drain c))"
| drain_timeout: "progress_step c (Drain_timeout d c)"
| close_drained: "c_state c = Drained \<or> c_state c = Coalescer_Closed \<Longrightarrow> progress_step c (Close c)"

end
