(* ===== verification/Progress_Queue.thy ===== *)
theory Progress_Queue
  imports Progress_Coalescer
begin

text \<open>
  What every operation of the coalescer keeps of one key's entry: works in the order of arrival, waiters and
  batches linked both ways, an exact count, timers that are due in time, and no lost wake-up. Each operation
  changes the objects of one entry only.
\<close>

section \<open>What holds of one entry\<close>

primrec work_id :: "progressWork \<Rightarrow> nat" where
  "work_id (BatchWork b) = b"
| "work_id (BarrierWork n) = n"

definition works_of :: "progressEntry \<Rightarrow> progressWork list" where
  "works_of v = (case activeBatch v of None \<Rightarrow> [] | Some b \<Rightarrow> [BatchWork b]) @
     (case activeBarrier v of None \<Rightarrow> [] | Some n \<Rightarrow> [BarrierWork n]) @ work_queue v"

abbreviation works :: "progressCoalescer \<Rightarrow> nat \<Rightarrow> progressWork list" where
  "works c e \<equiv> works_of (entry_at c e)"

abbreviation waiting :: "progressCoalescer \<Rightarrow> nat \<Rightarrow> nat list" where
  "waiting c b \<equiv> batch_waiters (batch_at c b)"

text \<open>
  The queue in the order of arrival: every work is younger than those before it, and no update waits in a
  batch on the wrong side of a barrier.
\<close>

definition queue_ok :: "progressWork list \<Rightarrow> (nat \<Rightarrow> nat list) \<Rightarrow> nat \<Rightarrow> bool" where
  "queue_ok ws bw f \<longleftrightarrow>
     sorted_wrt (<) (map work_id ws) \<and> (\<forall>x\<in>set ws. work_id x < f) \<and>
     (\<forall>b. BatchWork b \<in> set ws \<longrightarrow> distinct (bw b) \<and> (\<forall>w\<in>set (bw b). w < f)) \<and>
     (\<forall>b n w. BatchWork b \<in> set ws \<longrightarrow> BarrierWork n \<in> set ws \<longrightarrow> w \<in> set (bw b) \<longrightarrow>
       (b < n \<longrightarrow> w < n) \<and> (n < b \<longrightarrow> n < w))"

text \<open>The requests an entry holds: one for each update that waits and one for each barrier.\<close>

primrec work_weight :: "(nat \<Rightarrow> nat list) \<Rightarrow> progressWork \<Rightarrow> nat" where
  "work_weight bw (BatchWork b) = length (bw b)"
| "work_weight bw (BarrierWork n) = 1"

definition weight :: "progressWork list \<Rightarrow> (nat \<Rightarrow> nat list) \<Rightarrow> int" where
  "weight ws bw = int (sum_list (map (work_weight bw) ws))"

definition links :: "progressCoalescer \<Rightarrow> nat \<Rightarrow> bool" where
  "links c e \<longleftrightarrow> (\<forall>b w. BatchWork b \<in> set (works c e) \<and> w \<in> set (waiting c b) \<longleftrightarrow>
     wait_active (waiter_at c w) \<and> wait_entry (waiter_at c w) = e \<and> wait_batch (waiter_at c w) = b)"

definition due :: "progressCoalescer \<Rightarrow> progressInternalKey \<Rightarrow> nat \<Rightarrow> nat \<Rightarrow> bool" where
  "due c key e b \<longleftrightarrow> (\<exists>d. batch_timer (batch_at c b) = Some d \<and>
     d \<le> firstArrival (batch_at c b) + maxDispatchDelay (c_config c) \<and>
     d \<le> lastArrival (batch_at c b) + debounce (c_config c) \<and>
     \<lparr>call_at = d, call_key = key, call_entry = e, call_batch = b,
      call_generation = timerGeneration (batch_at c b)\<rparr> \<in> set (timer_calls c))"

definition granted_ok :: "progressCoalescer \<Rightarrow> progressEntry \<Rightarrow> bool" where
  "granted_ok c v \<longleftrightarrow>
     (\<forall>n. BarrierWork n \<in> set (work_queue v) \<longrightarrow>
       \<not> granted (barrier_at c n) \<and> \<not> barrier_active (barrier_at c n) \<and> \<not> barrier_released (barrier_at c n)) \<and>
     (\<forall>n. activeBarrier v = Some n \<longrightarrow>
       granted (barrier_at c n) \<and> barrier_active (barrier_at c n) \<and> \<not> barrier_released (barrier_at c n))"

definition batches_ok :: "progressCoalescer \<Rightarrow> progressInternalKey \<Rightarrow> nat \<Rightarrow> bool" where
  "batches_ok c key e \<longleftrightarrow>
     (\<forall>b. BatchWork b \<in> set (work_queue (entry_at c e)) \<longrightarrow> \<not> ready (batch_at c b) \<longrightarrow> due c key e b) \<and>
     (\<forall>b. activeBatch (entry_at c e) = Some b \<longrightarrow> ready (batch_at c b) \<and> (key, e, b) \<in> set (dispatches c))"

text \<open>A timer that may still run is for a batch in the queue, or has nothing to do.\<close>

definition timers_ok :: "progressCoalescer \<Rightarrow> progressInternalKey \<Rightarrow> nat \<Rightarrow> bool" where
  "timers_ok c key e \<longleftrightarrow> (\<forall>t\<in>set (timer_calls c). call_key t = key \<longrightarrow> call_entry t = e \<longrightarrow>
     call_batch t < fresh c \<and>
     (ready (batch_at c (call_batch t)) \<or> BatchWork (call_batch t) \<in> set (work_queue (entry_at c e))))"

definition entry_ok :: "progressCoalescer \<Rightarrow> progressInternalKey \<Rightarrow> nat \<Rightarrow> bool" where
  "entry_ok c key e \<longleftrightarrow>
     (activeBatch (entry_at c e) = None \<or> activeBarrier (entry_at c e) = None) \<and>
     queue_ok (works c e) (waiting c) (fresh c) \<and> links c e \<and>
     entry_waiters (entry_at c e) = weight (works c e) (waiting c) \<and>
     entry_waiters (entry_at c e) \<le> max 0 (maxWaitersPerKey (c_config c)) \<and>
     granted_ok c (entry_at c e) \<and> batches_ok c key e \<and> timers_ok c key e"

text \<open>No wake-up is lost: an entry that runs nothing has an empty queue or waits for the timer of its first batch.\<close>

definition advanced :: "progressCoalescer \<Rightarrow> nat \<Rightarrow> bool" where
  "advanced c e \<longleftrightarrow> activeBatch (entry_at c e) = None \<longrightarrow> activeBarrier (entry_at c e) = None \<longrightarrow>
     (case work_queue (entry_at c e) of [] \<Rightarrow> True | x # _ \<Rightarrow> (\<exists>b. x = BatchWork b \<and> \<not> ready (batch_at c b)))"

definition forced :: "progressCoalescer \<Rightarrow> nat \<Rightarrow> bool" where
  "forced c e \<longleftrightarrow> (\<forall>b. BatchWork b \<in> set (work_queue (entry_at c e)) \<longrightarrow> ready (batch_at c b))"

text \<open>A change to one entry only: what it may touch, and that the counters move together.\<close>

definition local_change :: "nat \<Rightarrow> progressCoalescer \<Rightarrow> progressCoalescer \<Rightarrow> bool" where
  "local_change e c c' \<longleftrightarrow>
     c_config c' = c_config c \<and> fresh c \<le> fresh c' \<and>
     (\<forall>x. x \<noteq> e \<longrightarrow> entry_at c' x = entry_at c x) \<and>
     (\<forall>b<fresh c. BatchWork b \<notin> set (works c e) \<longrightarrow> batch_at c' b = batch_at c b) \<and>
     (\<forall>n<fresh c. BarrierWork n \<notin> set (works c e) \<longrightarrow> barrier_at c' n = barrier_at c n) \<and>
     (\<forall>w. waiter_at c' w = waiter_at c w \<or>
       (wait_entry (waiter_at c' w) = e \<and> w < fresh c' \<and> (w < fresh c \<longrightarrow> wait_entry (waiter_at c w) = e))) \<and>
     set (timer_calls c) \<subseteq> set (timer_calls c') \<and> set (dispatches c) \<subseteq> set (dispatches c') \<and>
     (\<forall>x\<in>set (works c' e). x \<in> set (works c e) \<or> fresh c \<le> work_id x) \<and>
     (\<forall>b<fresh c. ready (batch_at c b) \<longrightarrow> ready (batch_at c' b)) \<and>
     (\<forall>t\<in>set (timer_calls c'). t \<in> set (timer_calls c) \<or> call_entry t = e)"

definition same_site :: "nat \<Rightarrow> progressCoalescer \<Rightarrow> progressCoalescer \<Rightarrow> bool" where
  "same_site e c c' \<longleftrightarrow>
     c_entries c' = c_entries c \<and> c_state c' = c_state c \<and> c_drain c' = c_drain c \<and> c_admissions c' = c_admissions c \<and>
     activeKeys (c_global c') = activeKeys (c_global c) \<and>
     maxActiveKeys (c_global c') = maxActiveKeys (c_global c) \<and> maxWaiters (c_global c') = maxWaiters (c_global c) \<and>
     global_waiters (c_global c') - entry_waiters (entry_at c' e) = global_waiters (c_global c) - entry_waiters (entry_at c e)"

definition op_ok :: "nat \<Rightarrow> progressCoalescer \<Rightarrow> progressCoalescer \<Rightarrow> bool" where
  "op_ok e c c' \<longleftrightarrow> local_change e c c' \<and> same_site e c c'"

lemma op_ok_refl [simp]: "op_ok e c c"
  by (simp add: op_ok_def local_change_def same_site_def)

lemma op_ok_trans [trans]: "op_ok e c c' \<Longrightarrow> op_ok e c' c'' \<Longrightarrow> op_ok e c c''"
proof -
  assume a: "op_ok e c c'" and b: "op_ok e c' c''"
  have l: "local_change e c c'" "local_change e c' c''" and s: "same_site e c c''"
    using a b by (simp_all add: op_ok_def same_site_def)
  have w: "waiter_at c'' w = waiter_at c w \<or>
      (wait_entry (waiter_at c'' w) = e \<and> w < fresh c'' \<and> (w < fresh c \<longrightarrow> wait_entry (waiter_at c w) = e))" for w
    using l unfolding local_change_def by (metis order_less_le_trans)
  have b: "batch_at c'' x = batch_at c x" if "x < fresh c" "BatchWork x \<notin> set (works c e)" for x
  proof -
    have "BatchWork x \<notin> set (works c' e)" using l(1) that unfolding local_change_def by fastforce
    thus ?thesis using l that unfolding local_change_def by (metis order_less_le_trans)
  qed
  have n: "barrier_at c'' x = barrier_at c x" if "x < fresh c" "BarrierWork x \<notin> set (works c e)" for x
  proof -
    have "BarrierWork x \<notin> set (works c' e)" using l(1) that unfolding local_change_def by fastforce
    thus ?thesis using l that unfolding local_change_def by (metis order_less_le_trans)
  qed
  have x: "x \<in> set (works c e) \<or> fresh c \<le> work_id x" if "x \<in> set (works c'' e)" for x
    using l that unfolding local_change_def by (meson order_trans)
  have "local_change e c c''"
    unfolding local_change_def
  proof (intro conjI)
    note l1 = l(1) [unfolded local_change_def] and l2 = l(2) [unfolded local_change_def]
    show "c_config c'' = c_config c" "fresh c \<le> fresh c''" using l1 l2 by simp_all
    show "\<forall>x. x \<noteq> e \<longrightarrow> entry_at c'' x = entry_at c x" using l1 l2 by simp
    show "\<forall>b<fresh c. ready (batch_at c b) \<longrightarrow> ready (batch_at c'' b)"
    proof (intro allI impI)
      fix b assume "b < fresh c" "ready (batch_at c b)"
      moreover from this have "b < fresh c'" using l1 by simp
      moreover from calculation have "ready (batch_at c' b)" using l1 by simp
      ultimately show "ready (batch_at c'' b)" using l2 by simp
    qed
    show "\<forall>t\<in>set (timer_calls c''). t \<in> set (timer_calls c) \<or> call_entry t = e" using l1 l2 by blast
    show "set (timer_calls c) \<subseteq> set (timer_calls c'')" "set (dispatches c) \<subseteq> set (dispatches c'')"
      using subset_trans [of "set (timer_calls c)" "set (timer_calls c')" "set (timer_calls c'')"]
        subset_trans [of "set (dispatches c)" "set (dispatches c')" "set (dispatches c'')"] l1 l2 by simp_all
  qed (use w b n x in blast)+
  thus "op_ok e c c''" using s by (simp add: op_ok_def)
qed

lemma queue_ok_cong:
  assumes "queue_ok ws bw f" "f \<le> f'" "\<And>b. BatchWork b \<in> set ws \<Longrightarrow> bw' b = bw b"
  shows "queue_ok ws bw' f'"
proof -
  have "\<forall>x\<in>set ws. work_id x < f'" using assms(1,2) by (auto simp: queue_ok_def)
  moreover have "distinct (bw' b) \<and> (\<forall>w\<in>set (bw' b). w < f')" if "BatchWork b \<in> set ws" for b
    using assms(1,2) that assms(3) [OF that] unfolding queue_ok_def by (metis order_less_le_trans)
  moreover have "(b < n \<longrightarrow> w < n) \<and> (n < b \<longrightarrow> n < w)"
    if "BatchWork b \<in> set ws" "BarrierWork n \<in> set ws" "w \<in> set (bw' b)" for b n w
    using assms(1) that(1,2) that(3) [unfolded assms(3) [OF that(1)]] unfolding queue_ok_def by blast
  ultimately show ?thesis using assms(1) unfolding queue_ok_def by blast
qed

lemma weight_cong: "(\<And>b. BatchWork b \<in> set ws \<Longrightarrow> length (bw' b) = length (bw b)) \<Longrightarrow> weight ws bw' = weight ws bw"
proof (induction ws)
  case (Cons x ws)
  thus ?case by (cases x) (simp_all add: weight_def)
qed (simp add: weight_def)

text \<open>Changes that leave the other entries' objects alone keep what holds of them.\<close>

lemma entry_ok_frame:
  assumes "op_ok e c c'" "entry_ok c key' e'" "advanced c e'" "e' \<noteq> e"
    and "\<And>x y. x \<in> set (works c e') \<Longrightarrow> y \<in> set (works c e) \<Longrightarrow> x \<noteq> y"
    and "\<And>w. fresh c \<le> w \<Longrightarrow> \<not> wait_active (waiter_at c w)"
  shows "entry_ok c' key' e'" "advanced c' e'" "works c' e' = works c e'" "forced c' e' = forced c e'"
proof -
  have l: "local_change e c c'" using assms(1) by (simp add: op_ok_def)
  have v: "entry_at c' e' = entry_at c e'" using l assms(4) by (simp add: local_change_def)
  have f: "\<forall>x\<in>set (works c e'). work_id x < fresh c" using assms(2) by (simp add: entry_ok_def queue_ok_def)
  have b: "batch_at c' b = batch_at c b" if "BatchWork b \<in> set (works c e')" for b
  proof -
    have "b < fresh c" using f that by fastforce
    moreover have "BatchWork b \<notin> set (works c e)" using assms(5) [OF that] by blast
    ultimately show ?thesis using l by (simp add: local_change_def)
  qed
  have n: "barrier_at c' n = barrier_at c n" if "BarrierWork n \<in> set (works c e')" for n
  proof -
    have "n < fresh c" using f that by fastforce
    moreover have "BarrierWork n \<notin> set (works c e)" using assms(5) [OF that] by blast
    ultimately show ?thesis using l by (simp add: local_change_def)
  qed
  have w: "(wait_active (waiter_at c' w) \<and> wait_entry (waiter_at c' w) = e' \<and> wait_batch (waiter_at c' w) = b) =
      (wait_active (waiter_at c w) \<and> wait_entry (waiter_at c w) = e' \<and> wait_batch (waiter_at c w) = b)" for w b
    using l assms(4,6) unfolding local_change_def by (metis leI)
  have q: "x \<in> set (work_queue (entry_at c e')) \<Longrightarrow> x \<in> set (works c e')" for x by (simp add: works_of_def)
  have a: "activeBatch (entry_at c e') = Some b \<Longrightarrow> BatchWork b \<in> set (works c e')"
    "activeBarrier (entry_at c e') = Some b \<Longrightarrow> BarrierWork b \<in> set (works c e')" for b by (auto simp: works_of_def)
  have ok: "queue_ok (works c e') (waiting c) (fresh c)" "links c e'" "granted_ok c (entry_at c e')" "batches_ok c key' e'"
    and fr: "fresh c \<le> fresh c'"
    using assms(2) l by (simp_all add: entry_ok_def local_change_def)
  have "queue_ok (works c e') (waiting c') (fresh c')"
    by (rule queue_ok_cong [OF ok(1) fr]) (simp add: b)
  moreover have "weight (works c e') (waiting c') = weight (works c e') (waiting c)"
    by (rule weight_cong) (simp add: b)
  moreover have "links c' e'"
    unfolding links_def v
  proof (intro allI)
    fix x w'
    show "(BatchWork x \<in> set (works c e') \<and> w' \<in> set (waiting c' x)) =
        (wait_active (waiter_at c' w') \<and> wait_entry (waiter_at c' w') = e' \<and> wait_batch (waiter_at c' w') = x)"
      unfolding w using ok(2) [unfolded links_def, rule_format, of x w'] by (simp add: b cong: conj_cong)
  qed
  moreover have "granted_ok c' (entry_at c e')"
    using ok(3) n [OF q] n [OF a(2)] by (simp add: granted_ok_def)
  moreover have "batches_ok c' key' e'"
  proof -
    have cfg: "c_config c' = c_config c" and t: "set (timer_calls c) \<subseteq> set (timer_calls c')"
      "set (dispatches c) \<subseteq> set (dispatches c')" using l by (simp_all add: local_change_def)
    have "due c' key' e' x" if "due c key' e' x" "BatchWork x \<in> set (works c e')" for x
      using that b t cfg unfolding due_def by auto
    thus ?thesis using ok(4) b [OF q] b [OF a(1)] q t unfolding batches_ok_def v by (metis subsetD)
  qed
  moreover have "timers_ok c' key' e'" unfolding timers_ok_def v
  proof (intro ballI impI)
    fix t assume t: "t \<in> set (timer_calls c')" "call_key t = key'" "call_entry t = e'"
    have "t \<in> set (timer_calls c)" using l t assms(4) by (auto simp: local_change_def)
    hence o: "call_batch t < fresh c" "ready (batch_at c (call_batch t)) \<or>
        BatchWork (call_batch t) \<in> set (work_queue (entry_at c e'))"
      using assms(2) t by (simp_all add: entry_ok_def timers_ok_def)
    have "ready (batch_at c (call_batch t)) \<Longrightarrow> ready (batch_at c' (call_batch t))"
      using l o(1) by (simp add: local_change_def)
    thus "call_batch t < fresh c' \<and>
        (ready (batch_at c' (call_batch t)) \<or> BatchWork (call_batch t) \<in> set (work_queue (entry_at c e')))"
      using o fr by auto
  qed
  moreover have "c_config c' = c_config c" using l by (simp add: local_change_def)
  ultimately show "entry_ok c' key' e'" using assms(2) by (simp add: entry_ok_def v)
  show "works c' e' = works c e'" by (simp add: v)
  show "forced c' e' = forced c e'" using b [OF q] by (simp add: forced_def v)
  show "advanced c' e'" using assms(3) b [OF q] unfolding advanced_def v by (fastforce split: list.splits)
qed

section \<open>Moving and forcing the queue\<close>

lemmas put_defs = put_entry_def put_batch_def put_barrier_def put_waiter_def put_cycle_def release_request_def

lemma entry_ok_D:
  assumes "entry_ok c key e"
  shows "activeBatch (entry_at c e) = None \<or> activeBarrier (entry_at c e) = None"
    "queue_ok (works c e) (waiting c) (fresh c)" "links c e"
    "entry_waiters (entry_at c e) = weight (works c e) (waiting c)"
    "entry_waiters (entry_at c e) \<le> max 0 (maxWaitersPerKey (c_config c))"
    "granted_ok c (entry_at c e)" "batches_ok c key e" "timers_ok c key e"
  using assms by (simp_all add: entry_ok_def)

text \<open>The same works and waiters: only what is active and what is ready may have changed.\<close>

lemma entry_ok_same:
  assumes "entry_ok c key e" "works c' e = works c e" "fresh c \<le> fresh c'"
    and "\<And>b. BatchWork b \<in> set (works c e) \<Longrightarrow> waiting c' b = waiting c b"
    and "waiter_at c' = waiter_at c" "entry_waiters (entry_at c' e) = entry_waiters (entry_at c e)"
    and "c_config c' = c_config c" "activeBatch (entry_at c' e) = None \<or> activeBarrier (entry_at c' e) = None"
    and "granted_ok c' (entry_at c' e)" "batches_ok c' key e" "timers_ok c' key e"
  shows "entry_ok c' key e"
proof -
  note d = entry_ok_D [OF assms(1)]
  have "queue_ok (works c e) (waiting c') (fresh c')" by (rule queue_ok_cong [OF d(2) assms(3) assms(4)])
  moreover have "weight (works c e) (waiting c') = weight (works c e) (waiting c)"
    by (rule weight_cong) (simp add: assms(4))
  moreover have "links c' e"
    unfolding links_def assms(2,5)
  proof (intro allI)
    fix b w
    show "(BatchWork b \<in> set (works c e) \<and> w \<in> set (waiting c' b)) =
        (wait_active (waiter_at c w) \<and> wait_entry (waiter_at c w) = e \<and> wait_batch (waiter_at c w) = b)"
      using d(3) [unfolded links_def, rule_format, of b w] by (simp add: assms(4) cong: conj_cong)
  qed
  ultimately show ?thesis using assms d(4,5) by (simp add: entry_ok_def)
qed

lemma works_ids_distinct: "queue_ok ws bw f \<Longrightarrow> distinct (map work_id ws)"
  unfolding queue_ok_def by (simp add: strict_sorted_iff)

lemma works_head_free:
  assumes "queue_ok (x # ws) bw f" "y \<in> set ws"
  shows "work_id x < work_id y" "x \<noteq> y"
  using assms by (auto simp: queue_ok_def)

lemma queue_in_works [simp]: "x \<in> set (work_queue v) \<Longrightarrow> x \<in> set (works_of v)"
  by (simp add: works_of_def)

lemma idle_works: "activeBatch v = None \<Longrightarrow> activeBarrier v = None \<Longrightarrow> works_of v = work_queue v"
  by (simp add: works_of_def)

lemma due_mono:
  assumes "due c key e b" "batch_at c' b = batch_at c b" "c_config c' = c_config c" "set (timer_calls c) \<subseteq> set (timer_calls c')"
  shows "due c' key e b"
  using assms unfolding due_def by auto

lemma advance_ok:
  assumes "entry_ok c key e"
  defines "c' \<equiv> advanceEntryLocked key e c"
  shows "op_ok e c c'" "entry_ok c' key e" "advanced c' e" "works c' e = works c e" "batch_at c' = batch_at c"
    "waiter_at c' = waiter_at c" "set (work_queue (entry_at c' e)) \<subseteq> set (work_queue (entry_at c e))"
proof -
  note d = entry_ok_D [OF assms(1)]
  let ?v = "entry_at c e"
  consider (busy) "activeBatch ?v \<noteq> None \<or> activeBarrier ?v \<noteq> None" "c' = c" |
    (empty) "activeBatch ?v = None" "activeBarrier ?v = None" "work_queue ?v = []" "c' = c" |
    (waits) b rest where "activeBatch ?v = None" "activeBarrier ?v = None" "work_queue ?v = BatchWork b # rest"
      "\<not> ready (batch_at c b)" "c' = c" |
    (batch) b rest where "activeBatch ?v = None" "activeBarrier ?v = None" "work_queue ?v = BatchWork b # rest"
      "ready (batch_at c b)" "c' = put_entry e (?v\<lparr>work_queue := rest, activeBatch := Some b\<rparr>)
        (c\<lparr>dispatches := dispatches c @ [(key, e, b)]\<rparr>)" |
    (barrier) n rest where "activeBatch ?v = None" "activeBarrier ?v = None" "work_queue ?v = BarrierWork n # rest"
      "c' = put_barrier n ((barrier_at c n)\<lparr>barrier_active := True, granted := True\<rparr>)
        (put_entry e (?v\<lparr>work_queue := rest, activeBarrier := Some n\<rparr>) c)"
    unfolding c'_def advanceEntryLocked_def Let_def
    by (cases "work_queue ?v"; cases "hd (work_queue ?v)") (auto split: if_split_asm)
  hence "op_ok e c c' \<and> entry_ok c' key e \<and> advanced c' e \<and> works c' e = works c e \<and> batch_at c' = batch_at c \<and>
    waiter_at c' = waiter_at c \<and> set (work_queue (entry_at c' e)) \<subseteq> set (work_queue ?v)"
  proof cases
    case batch
    have w: "works c' e = works c e" using batch by (simp add: works_of_def put_entry_def)
    have "op_ok e c c'" unfolding batch(5) by (auto simp: op_ok_def local_change_def same_site_def put_entry_def works_of_def batch)
    moreover have "entry_ok c' key e"
    proof (rule entry_ok_same [OF assms(1) w])
      show "granted_ok c' (entry_at c' e)" using d(6) batch by (simp add: granted_ok_def put_entry_def)
      show "batches_ok c' key e"
        using d(7) batch by (auto simp: batches_ok_def put_entry_def elim!: due_mono)
      show "timers_ok c' key e" using d(8) batch by (fastforce simp: timers_ok_def put_entry_def)
    qed (simp_all add: batch put_entry_def)
    ultimately show ?thesis using batch w by (auto simp: advanced_def put_entry_def)
  next
    case barrier
    have w: "works c' e = works c e" using barrier by (simp add: works_of_def put_defs)
    have q: "queue_ok (BarrierWork n # rest) (waiting c) (fresh c)" using d(2) barrier by (simp add: works_of_def)
    have "op_ok e c c'" unfolding barrier(4)
      by (auto simp: op_ok_def local_change_def same_site_def put_defs works_of_def barrier)
    moreover have "entry_ok c' key e"
    proof (rule entry_ok_same [OF assms(1) w])
      have "n' \<noteq> n" if "BarrierWork n' \<in> set rest" for n' using works_head_free(1) [OF q that] by simp
      thus "granted_ok c' (entry_at c' e)" using d(6) barrier by (auto simp: granted_ok_def put_defs)
      show "batches_ok c' key e"
        using d(7) barrier by (auto simp: batches_ok_def put_defs elim!: due_mono)
      show "timers_ok c' key e" using d(8) barrier by (auto simp: timers_ok_def put_defs)
    qed (simp_all add: barrier put_defs)
    ultimately show ?thesis using barrier w by (auto simp: advanced_def put_defs)
  qed (use assms(1) in \<open>auto simp: advanced_def\<close>)
  thus "op_ok e c c'" "entry_ok c' key e" "advanced c' e" "works c' e = works c e" "batch_at c' = batch_at c"
    "waiter_at c' = waiter_at c" "set (work_queue (entry_at c' e)) \<subseteq> set (work_queue (entry_at c e))" by blast+
qed

lemma force_fold:
  defines "c' \<equiv> \<lambda>ws c. fold force_work ws c"
  shows "c' ws c = c\<lparr>batch_at := batch_at (c' ws c)\<rparr>" (is ?same)
    and "BatchWork b \<in> set ws \<Longrightarrow> ready (batch_at (c' ws c) b)"
    and "BatchWork b \<notin> set ws \<Longrightarrow> batch_at (c' ws c) b = batch_at c b"
    and "batch_waiters (batch_at (c' ws c) b) = batch_waiters (batch_at c b)"
    and "batch_request (batch_at (c' ws c) b) = batch_request (batch_at c b)"
    and "ready (batch_at c b) \<Longrightarrow> ready (batch_at (c' ws c) b)"
proof -
  have step: "force_work x c = c\<lparr>batch_at := batch_at (force_work x c)\<rparr>" for x c
    by (cases x) (simp_all add: put_batch_def)
  show ?same unfolding c'_def
  proof (induction ws arbitrary: c)
    case (Cons x ws)
    have "fold force_work ws (force_work x c) =
        (force_work x c)\<lparr>batch_at := batch_at (fold force_work ws (force_work x c))\<rparr>" by (rule Cons.IH)
    also have "\<dots> = c\<lparr>batch_at := batch_at (fold force_work ws (force_work x c))\<rparr>" by (subst step) simp
    finally show ?case by simp
  qed simp
  have r: "ready (batch_at c b) \<Longrightarrow> ready (batch_at (fold force_work ws c) b)" for ws c
  proof (induction ws arbitrary: c)
    case (Cons x ws)
    have "ready (batch_at (force_work x c) b)" using Cons.prems by (cases x) (auto simp: put_batch_def force_batch_def)
    thus ?case using Cons.IH by simp
  qed simp
  show "ready (batch_at c b) \<Longrightarrow> ready (batch_at (c' ws c) b)" using r by (simp add: c'_def)
  show "BatchWork b \<in> set ws \<Longrightarrow> ready (batch_at (c' ws c) b)" unfolding c'_def
  proof (induction ws arbitrary: c)
    case (Cons x ws)
    show ?case
    proof (cases "x = BatchWork b")
      case True
      have "ready (batch_at (force_work x c) b)" by (simp add: True put_batch_def force_batch_def)
      thus ?thesis using r by simp
    qed (use Cons in simp)
  qed simp
  show "BatchWork b \<notin> set ws \<Longrightarrow> batch_at (c' ws c) b = batch_at c b" unfolding c'_def
  proof (induction ws arbitrary: c)
    case (Cons x ws)
    have "batch_at (force_work x c) b = batch_at c b" using Cons.prems by (cases x) (auto simp: put_batch_def)
    thus ?case using Cons by simp
  qed simp
  have "batch_waiters (batch_at (force_work x c) b) = batch_waiters (batch_at c b)"
    "batch_request (batch_at (force_work x c) b) = batch_request (batch_at c b)" for x c
    by (cases x; simp add: put_batch_def force_batch_def)+
  thus "batch_waiters (batch_at (c' ws c) b) = batch_waiters (batch_at c b)"
    "batch_request (batch_at (c' ws c) b) = batch_request (batch_at c b)"
    unfolding c'_def by (induction ws arbitrary: c) simp_all
qed

lemma force_ok:
  assumes "entry_ok c key e"
  defines "c' \<equiv> forceQueuedBatchesLocked e c"
  shows "op_ok e c c'" "entry_ok c' key e" "forced c' e" "entry_at c' = entry_at c" "waiter_at c' = waiter_at c"
    "waiting c' b = waiting c b" "\<exists>h. c' = c\<lparr>batch_at := h\<rparr>"
proof -
  note d = entry_ok_D [OF assms(1)]
  note f = force_fold [where ws = "work_queue (entry_at c e)" and c = c, folded forceQueuedBatchesLocked_def c'_def]
  obtain h where h: "c' = c\<lparr>batch_at := h\<rparr>" using f(1) by blast
  show e: "entry_at c' = entry_at c" and w: "waiter_at c' = waiter_at c" by (simp_all add: h)
  show "waiting c' b = waiting c b" by (rule f(4))
  show "\<exists>h. c' = c\<lparr>batch_at := h\<rparr>" using h by blast
  show fc: "forced c' e" unfolding forced_def e using f(2) by blast
  have o: "batch_at c' b = batch_at c b" if "BatchWork b \<notin> set (works c e)" for b
    by (rule f(3)) (use that in auto)
  have "local_change e c c'" unfolding local_change_def using o f(6) by (simp add: h)
  thus "op_ok e c c'" by (simp add: op_ok_def same_site_def h)
  show "entry_ok c' key e"
  proof (rule entry_ok_same [OF assms(1)])
    show "granted_ok c' (entry_at c' e)" using d(6) by (simp add: granted_ok_def h)
    show "batches_ok c' key e" using d(7) fc f(6) unfolding batches_ok_def forced_def e by (simp add: h)
    show "timers_ok c' key e" using d(8) f(6) unfolding timers_ok_def e by (auto simp: h)
  qed (use d(1) f(4) in \<open>simp_all add: h\<close>)
qed

lemma op_ok_local: "op_ok e c c' \<Longrightarrow> c_config c' = c_config c" "op_ok e c c' \<Longrightarrow> c_entries c' = c_entries c"
  "op_ok e c c' \<Longrightarrow> c_state c' = c_state c" "op_ok e c c' \<Longrightarrow> fresh c \<le> fresh c'"
  by (simp_all add: op_ok_def local_change_def same_site_def)

text \<open>The counters cover the entry when the process-wide one does.\<close>

definition covered :: "nat \<Rightarrow> progressCoalescer \<Rightarrow> bool" where
  "covered e c \<longleftrightarrow> entry_waiters (entry_at c e) \<le> global_waiters (c_global c)"

lemma op_ok_covered: "op_ok e c c' \<Longrightarrow> covered e c \<Longrightarrow> covered e c'"
  by (simp add: op_ok_def same_site_def covered_def)

lemma force_if_draining_ok:
  assumes "entry_ok c key e"
  defines "c' \<equiv> force_if_draining e c"
  shows "op_ok e c c'" "entry_ok c' key e" "c_state c = Draining \<Longrightarrow> forced c' e" "entry_at c' = entry_at c"
    "waiter_at c' = waiter_at c" "waiting c' b = waiting c b"
  using assms force_ok [OF assms(1)] by (simp_all add: force_if_draining_def c'_def)

text \<open>The end of an operation: force when a drain asks for it, then let the next work run.\<close>

lemma finish_ok:
  assumes "op_ok e c c1" "entry_ok c1 key e"
  defines "c' \<equiv> advanceEntryLocked key e (force_if_draining e c1)"
  shows "op_ok e c c'" "entry_ok c' key e" "advanced c' e" "c_state c = Draining \<Longrightarrow> forced c' e"
    "works c' e = works c1 e" "waiter_at c' = waiter_at c1" "waiting c' b = waiting c1 b"
proof -
  note f = force_if_draining_ok [OF assms(2)]
  note a = advance_ok [OF f(2), folded c'_def]
  show "op_ok e c c'" by (rule op_ok_trans [OF op_ok_trans [OF assms(1) f(1)] a(1)])
  show "entry_ok c' key e" "advanced c' e" by (fact a(2) a(3))+
  show "works c' e = works c1 e" using a(4) f(4) by simp
  show "waiter_at c' = waiter_at c1" using a(6) f(5) by simp
  show "waiting c' b = waiting c1 b" using a(5) f(6) by simp
  show "forced c' e" if "c_state c = Draining"
    using f(3) op_ok_local(3) [OF assms(1)] that a(5,7) unfolding forced_def by auto
qed

section \<open>Removing work\<close>

text \<open>The queue without its head, or without one barrier, is in order.\<close>

lemma queue_ok_sub:
  assumes "queue_ok ws bw f" "sorted_wrt (<) (map work_id ws')" "set ws' \<subseteq> set ws"
  shows "queue_ok ws' bw f"
  using assms(2,3) assms(1) [unfolded queue_ok_def] unfolding queue_ok_def by (meson subsetD)

lemma weight_Cons [simp]: "weight (x # ws) bw = int (work_weight bw x) + weight ws bw"
  "weight [] bw = 0" "weight (ws @ ws') bw = weight ws bw + weight ws' bw"
  by (simp_all add: weight_def)

lemma weight_nonneg [simp]: "0 \<le> weight ws bw"
  by (simp add: weight_def)

lemma remove_work_split: "remove_work n q = Some q' \<Longrightarrow> \<exists>xs ys. q = xs @ BarrierWork n # ys \<and> q' = xs @ ys"
proof (induction q arbitrary: q')
  case (Cons x q)
  show ?case
  proof (cases "x = BarrierWork n")
    case True
    thus ?thesis using Cons.prems by (intro exI [of _ "[]"] exI [of _ q]) simp
  next
    case False
    then obtain r where r: "remove_work n q = Some r" "q' = x # r"
      using Cons.prems by (auto split: option.splits)
    obtain xs ys where "q = xs @ BarrierWork n # ys" "r = xs @ ys" using Cons.IH [OF r(1)] by blast
    thus ?thesis using r(2) by (intro exI [of _ "x # xs"] exI [of _ ys]) simp
  qed
qed simp

lemma remove_work_None: "remove_work n q = None \<longleftrightarrow> BarrierWork n \<notin> set q"
  by (induction q) (auto split: option.splits)

text \<open>One waiter less in the entry's count and the process's.\<close>

lemma release_waiter_counts:
  assumes "0 < entry_waiters (entry_at c e)" "covered e c"
  shows "releaseWaiterLocked e c = put_entry e ((entry_at c e)\<lparr>entry_waiters := entry_waiters (entry_at c e) - 1\<rparr>)
    (c\<lparr>c_global := (c_global c)\<lparr>global_waiters := global_waiters (c_global c) - 1\<rparr>\<rparr>)"
  using assms by (simp add: releaseWaiterLocked_def releaseWaiter_def covered_def)

text \<open>An entry with fewer works or waiters, all of its parts spelled out.\<close>

lemma entry_okI:
  assumes "activeBatch (entry_at c e) = None \<or> activeBarrier (entry_at c e) = None"
    "queue_ok (works c e) (waiting c) (fresh c)" "links c e"
    "entry_waiters (entry_at c e) = weight (works c e) (waiting c)"
    "entry_waiters (entry_at c e) \<le> max 0 (maxWaitersPerKey (c_config c))"
    "granted_ok c (entry_at c e)" "batches_ok c key e" "timers_ok c key e"
  shows "entry_ok c key e"
  using assms by (simp add: entry_ok_def)

text \<open>A barrier leaves the queue, or the entry: its waiter is counted off.\<close>

lemma drop_barrier_ok:
  assumes "entry_ok c key e" "covered e c" "BarrierWork n \<in> set (works c e)"
    and "v' = (entry_at c e)\<lparr>work_queue := q', activeBarrier := a', entry_waiters := entry_waiters (entry_at c e) - 1,
      lastActivity := now\<rparr>"
    and "works c e = xs @ BarrierWork n # ys" "works_of v' = xs @ ys"
    and "a' = None \<or> a' = activeBarrier (entry_at c e)" "set q' \<subseteq> set (work_queue (entry_at c e))"
    and "c' = put_entry e v' (put_barrier n bv
      (c\<lparr>c_global := (c_global c)\<lparr>global_waiters := global_waiters (c_global c) - 1\<rparr>\<rparr>))"
    and "a' = Some n \<Longrightarrow> False" "\<And>b. BatchWork b \<in> set (work_queue (entry_at c e)) \<Longrightarrow> BatchWork b \<in> set q'"
  shows "op_ok e c c'" "entry_ok c' key e" "waiter_at c' = waiter_at c" "batch_at c' = batch_at c"
proof -
  note d = entry_ok_D [OF assms(1)]
  have s: "sorted_wrt (<) (map work_id (xs @ BarrierWork n # ys))" using d(2) assms(5) by (simp add: queue_ok_def)
  have sub: "set (xs @ ys) \<subseteq> set (works c e)" using assms(5) by auto
  have nn: "BarrierWork n \<notin> set (xs @ ys)" using s by (auto simp: sorted_wrt_append)
  have w: "works c' e = xs @ ys" by (simp add: assms(9) put_defs assms(6))
  show "waiter_at c' = waiter_at c" "batch_at c' = batch_at c" by (simp_all add: assms(9) put_defs)
  have "local_change e c c'" unfolding local_change_def
    using sub assms(3) by (auto simp: assms(9) put_defs assms(6))
  moreover have "same_site e c c'" by (simp add: same_site_def assms(9,4) put_defs)
  ultimately show "op_ok e c c'" by (simp add: op_ok_def)
  show "entry_ok c' key e"
  proof (rule entry_okI)
    show "activeBatch (entry_at c' e) = None \<or> activeBarrier (entry_at c' e) = None"
      using d(1) assms(7) by (auto simp: assms(9,4) put_defs)
    show "queue_ok (works c' e) (waiting c') (fresh c')" unfolding w
      using queue_ok_sub [OF d(2) _ sub] s by (simp add: assms(9) put_defs sorted_wrt_append)
    have b: "BatchWork b \<in> set (works c' e) \<longleftrightarrow> BatchWork b \<in> set (works c e)" for b
      unfolding w assms(5) by auto
    have "waiter_at c' = waiter_at c" "batch_at c' = batch_at c" by (simp_all add: assms(9) put_defs)
    thus "links c' e" using d(3) by (simp add: links_def b)
    show "entry_waiters (entry_at c' e) = weight (works c' e) (waiting c')" unfolding w
      using d(4) assms(5) by (simp add: assms(9,4) put_defs)
    show "entry_waiters (entry_at c' e) \<le> max 0 (maxWaitersPerKey (c_config c'))"
      using d(5) by (simp add: assms(9,4) put_defs)
    have "m \<noteq> n" if "BarrierWork m \<in> set q' \<or> a' = Some m" for m
    proof -
      have "BarrierWork m \<in> set (works_of v')" using that by (auto simp: works_of_def assms(4))
      thus ?thesis using nn assms(6) by auto
    qed
    thus "granted_ok c' (entry_at c' e)"
      using d(6) assms(7,8) by (auto simp: granted_ok_def assms(9,4) put_defs)
    show "batches_ok c' key e" using d(7) assms(8) unfolding batches_ok_def assms(9)
      by (auto simp: assms(4) put_defs elim!: due_mono)
    show "timers_ok c' key e" using d(8) assms(11) unfolding timers_ok_def assms(9) by (auto simp: assms(4) put_defs)
  qed
qed

text \<open>The waiters of a batch that was dispatched get the outcome and are counted off.\<close>

definition answered :: "nat list \<Rightarrow> progressOutcome \<Rightarrow> (nat \<Rightarrow> progressWaiter) \<Rightarrow> nat \<Rightarrow> progressWaiter" where
  "answered ws outcome h = (\<lambda>w. if w \<in> set ws then (h w)\<lparr>wait_active := False, wait_result := Some outcome\<rparr> else h w)"

lemma deliver_active:
  assumes "wait_active (waiter_at c w)" "0 < entry_waiters (entry_at c e)" "covered e c"
  shows "deliver e outcome w c = c\<lparr>waiter_at := answered [w] outcome (waiter_at c),
    entry_at := (entry_at c)(e := (entry_at c e)\<lparr>entry_waiters := entry_waiters (entry_at c e) - 1\<rparr>),
    c_global := (c_global c)\<lparr>global_waiters := global_waiters (c_global c) - 1\<rparr>\<rparr>"
proof -
  let ?c = "put_waiter w ((waiter_at c w)\<lparr>wait_active := False\<rparr>) c"
  have "0 < entry_waiters (entry_at ?c e)" "covered e ?c" using assms by (simp_all add: put_defs covered_def)
  from release_waiter_counts [OF this] show ?thesis
    using assms(1) by (auto simp: deliver_def Let_def put_defs answered_def fun_eq_iff)
qed

lemma deliver_all:
  assumes "distinct ws" "\<And>w. w \<in> set ws \<Longrightarrow> wait_active (waiter_at c w)"
    and "int (length ws) \<le> entry_waiters (entry_at c e)" "covered e c"
  shows "fold (deliver e outcome) ws c = c\<lparr>waiter_at := answered ws outcome (waiter_at c),
    entry_at := (entry_at c)(e := (entry_at c e)\<lparr>entry_waiters := entry_waiters (entry_at c e) - int (length ws)\<rparr>),
    c_global := (c_global c)\<lparr>global_waiters := global_waiters (c_global c) - int (length ws)\<rparr>\<rparr>"
  using assms
proof (induction ws arbitrary: c)
  case Nil
  thus ?case by (simp add: answered_def)
next
  case (Cons w ws)
  define c1 where "c1 = deliver e outcome w c"
  have c1: "c1 = c\<lparr>waiter_at := answered [w] outcome (waiter_at c),
    entry_at := (entry_at c)(e := (entry_at c e)\<lparr>entry_waiters := entry_waiters (entry_at c e) - 1\<rparr>),
    c_global := (c_global c)\<lparr>global_waiters := global_waiters (c_global c) - 1\<rparr>\<rparr>"
    unfolding c1_def using Cons.prems by (intro deliver_active) auto
  have "fold (deliver e outcome) ws c1 = c1\<lparr>waiter_at := answered ws outcome (waiter_at c1),
    entry_at := (entry_at c1)(e := (entry_at c1 e)\<lparr>entry_waiters := entry_waiters (entry_at c1 e) - int (length ws)\<rparr>),
    c_global := (c_global c1)\<lparr>global_waiters := global_waiters (c_global c1) - int (length ws)\<rparr>\<rparr>"
  proof (rule Cons.IH)
    show "wait_active (waiter_at c1 x)" if "x \<in> set ws" for x
      using Cons.prems(1,2) that by (auto simp: c1 answered_def)
  qed (use Cons.prems in \<open>auto simp: c1 covered_def\<close>)
  moreover have "answered ws outcome (waiter_at c1) = answered (w # ws) outcome (waiter_at c)"
    using Cons.prems(1) by (auto simp: c1 answered_def fun_eq_iff)
  ultimately show ?case by (simp add: c1_def [symmetric]) (simp add: c1 algebra_simps fun_upd_def cong: if_cong)
qed

text \<open>The batch that was dispatched leaves its entry.\<close>

lemma drop_batch_ok:
  assumes "entry_ok c key e" "covered e c" "activeBatch (entry_at c e) = Some b"
    and "c' = fold (deliver e outcome) (waiting c b) (put_entry e ((entry_at c e)\<lparr>activeBatch := None, lastActivity := now\<rparr>) c)"
  shows "op_ok e c c'" "entry_ok c' key e" "waiter_at c' = answered (waiting c b) outcome (waiter_at c)"
    "batch_at c' = batch_at c" "works c e = BatchWork b # works c' e" "cycle_at c' = cycle_at c"
proof -
  note d = entry_ok_D [OF assms(1)]
  have w: "works c e = BatchWork b # works_of ((entry_at c e)\<lparr>activeBatch := None\<rparr>)"
    using assms(3) d(1) by (simp add: works_of_def)
  let ?c = "put_entry e ((entry_at c e)\<lparr>activeBatch := None, lastActivity := now\<rparr>) c"
  have bin: "BatchWork b \<in> set (works c e)" using w by simp
  have act: "wait_active (waiter_at c w) \<and> wait_entry (waiter_at c w) = e \<and> wait_batch (waiter_at c w) = b \<and> w < fresh c"
    if "w \<in> set (waiting c b)" for w
    using d(3) [unfolded links_def, rule_format, of b w] d(2) bin that by (auto simp: queue_ok_def)
  have dist: "distinct (waiting c b)" using d(2) bin by (simp add: queue_ok_def)
  have c': "c' = ?c\<lparr>waiter_at := answered (waiting c b) outcome (waiter_at c),
    entry_at := (entry_at ?c)(e := (entry_at ?c e)\<lparr>entry_waiters := entry_waiters (entry_at c e) - int (length (waiting c b))\<rparr>),
    c_global := (c_global c)\<lparr>global_waiters := global_waiters (c_global c) - int (length (waiting c b))\<rparr>\<rparr>"
    unfolding assms(4)
  proof (subst deliver_all)
    show "int (length (waiting c b)) \<le> entry_waiters (entry_at ?c e)" using d(4) w by (simp add: put_entry_def)
    show "covered e ?c" using assms(2) by (simp add: covered_def put_entry_def)
  qed (use dist act in \<open>simp_all add: put_entry_def\<close>)
  show "waiter_at c' = answered (waiting c b) outcome (waiter_at c)" "batch_at c' = batch_at c" "cycle_at c' = cycle_at c"
    unfolding c' by (simp_all add: put_entry_def)
  show w': "works c e = BatchWork b # works c' e" using w unfolding c' by (simp add: put_entry_def works_of_def)
  have "local_change e c c'" unfolding local_change_def w' using act
    by (auto simp: c' put_entry_def answered_def)
  moreover have "same_site e c c'" by (simp add: same_site_def c' put_entry_def)
  ultimately show "op_ok e c c'" by (simp add: op_ok_def)
  show "entry_ok c' key e"
  proof (rule entry_okI)
    have f: "waiting c' x = waiting c x" "fresh c' = fresh c" for x by (simp_all add: c' put_entry_def)
    show "queue_ok (works c' e) (waiting c') (fresh c')" unfolding f
      using queue_ok_sub [OF d(2), of "works c' e"] d(2) w' by (auto simp: queue_ok_def)
    have nb: "BatchWork b \<notin> set (works c' e)" using works_head_free(2) [OF d(2) [unfolded w']] by blast
    show "links c' e" unfolding links_def
    proof (intro allI)
      fix x w
      have "(wait_active (waiter_at c' w) \<and> wait_entry (waiter_at c' w) = e \<and> wait_batch (waiter_at c' w) = x) \<longleftrightarrow>
        w \<notin> set (waiting c b) \<and> wait_active (waiter_at c w) \<and> wait_entry (waiter_at c w) = e \<and> wait_batch (waiter_at c w) = x"
        by (simp add: c' put_entry_def answered_def)
      also have "\<dots> \<longleftrightarrow> BatchWork x \<in> set (works c' e) \<and> w \<in> set (waiting c' x)"
        using d(3) [unfolded links_def, rule_format, of x w] d(3) [unfolded links_def, rule_format, of b w] nb
        unfolding w' f by auto
      finally show "(BatchWork x \<in> set (works c' e) \<and> w \<in> set (waiting c' x)) =
        (wait_active (waiter_at c' w) \<and> wait_entry (waiter_at c' w) = e \<and> wait_batch (waiter_at c' w) = x)" by blast
    qed
    show "entry_waiters (entry_at c' e) = weight (works c' e) (waiting c')"
      using d(4) [unfolded w'] unfolding f by (simp add: c' put_entry_def)
    show "entry_waiters (entry_at c' e) \<le> max 0 (maxWaitersPerKey (c_config c'))"
      using d(5) by (simp add: c' put_entry_def)
    show "granted_ok c' (entry_at c' e)" using d(6) by (simp add: granted_ok_def c' put_entry_def)
    show "batches_ok c' key e" using d(7) unfolding batches_ok_def c'
      by (auto simp: put_entry_def elim!: due_mono)
    show "timers_ok c' key e" using d(8) unfolding timers_ok_def c' by (simp add: put_entry_def)
  qed (simp add: c' put_entry_def)
qed

text \<open>A waiter whose client is gone leaves its batch; the batch stays where it is.\<close>

lemma cancel_waiter_ok:
  assumes "entry_ok c key e" "covered e c" "wait_active (waiter_at c w)" "wait_entry (waiter_at c w) = e"
    and "mget (c_entries c) key = Some e" "c' = fst (resolveCanceledWaiter key e w now c)"
  shows "op_ok e c c'" "entry_ok c' key e" "works c' e = works c e" "advanced c e \<Longrightarrow> advanced c' e"
    "forced c e \<Longrightarrow> forced c' e" "waiter_at c' = (waiter_at c)(w := (waiter_at c w)\<lparr>wait_active := False\<rparr>)"
proof -
  note d = entry_ok_D [OF assms(1)]
  define b where "b = wait_batch (waiter_at c w)"
  have b: "BatchWork b \<in> set (works c e)" "w \<in> set (waiting c b)"
    using d(3) assms(3,4) unfolding links_def b_def by blast+
  have wf: "w < fresh c" "distinct (waiting c b)" using d(2) b by (auto simp: queue_ok_def)
  have len: "int (length (removeAll w (waiting c b))) = int (length (waiting c b)) - 1"
    using b(2) wf(2) length_pos_if_in_set [OF b(2)]
    by (simp add: distinct_remove1_removeAll [symmetric] length_remove1 of_nat_diff Suc_le_eq)
  have pos: "0 < entry_waiters (entry_at c e)"
  proof -
    obtain xs ys where ws: "works c e = xs @ BatchWork b # ys" using b(1) by (meson split_list)
    have "0 < length (waiting c b)" using b(2) by (cases "waiting c b") simp_all
    thus ?thesis unfolding d(4) ws by (simp add: add_nonneg_pos add_pos_nonneg)
  qed
  let ?c2 = "put_batch b ((batch_at c b)\<lparr>batch_waiters := removeAll w (waiting c b)\<rparr>)
    (put_waiter w ((waiter_at c w)\<lparr>wait_active := False\<rparr>) c)"
  have "0 < entry_waiters (entry_at ?c2 e)" "covered e ?c2" using pos assms(2) by (simp_all add: put_defs covered_def)
  note r = release_waiter_counts [OF this]
  have c': "c' = c\<lparr>waiter_at := (waiter_at c)(w := (waiter_at c w)\<lparr>wait_active := False\<rparr>),
    batch_at := (batch_at c)(b := (batch_at c b)\<lparr>batch_waiters := removeAll w (waiting c b)\<rparr>),
    entry_at := (entry_at c)(e := (entry_at c e)\<lparr>entry_waiters := entry_waiters (entry_at c e) - 1, lastActivity := now\<rparr>),
    c_global := (c_global c)\<lparr>global_waiters := global_waiters (c_global c) - 1\<rparr>\<rparr>"
    using r assms(3,5) by (simp add: assms(6) resolveCanceledWaiter_def Let_def b_def [symmetric] put_defs)
  show "waiter_at c' = (waiter_at c)(w := (waiter_at c w)\<lparr>wait_active := False\<rparr>)" by (simp add: c')
  show w': "works c' e = works c e" by (simp add: c' works_of_def)
  have r: "ready (batch_at c' x) = ready (batch_at c x)" for x by (simp add: c')
  show "forced c e \<Longrightarrow> forced c' e" by (simp add: forced_def r) (simp add: c')
  have ef: "activeBatch (entry_at c' e) = activeBatch (entry_at c e)" "activeBarrier (entry_at c' e) = activeBarrier (entry_at c e)"
    "work_queue (entry_at c' e) = work_queue (entry_at c e)" by (simp_all add: c')
  show "advanced c e \<Longrightarrow> advanced c' e" by (cases "work_queue (entry_at c e)") (simp_all add: advanced_def r ef)
  have "local_change e c c'" unfolding local_change_def w' using b(1) wf(1) assms(4) by (auto simp: c')
  thus "op_ok e c c'" by (simp add: op_ok_def same_site_def c')
  show "entry_ok c' key e"
  proof (rule entry_okI)
    have f: "waiting c' x = (if x = b then removeAll w (waiting c b) else waiting c x)" "fresh c' = fresh c" for x
      by (simp_all add: c')
    show "queue_ok (works c' e) (waiting c') (fresh c')"
      using d(2) unfolding w' queue_ok_def f by (auto simp: distinct_removeAll)
    have only: "x = b" if "BatchWork x \<in> set (works c e)" "w \<in> set (waiting c x)" for x
      using d(3) [unfolded links_def, rule_format, of x w] that by (simp add: b_def)
    show "links c' e" unfolding links_def w'
    proof (intro allI)
      fix x v
      have "BatchWork x \<in> set (works c e) \<and> v \<in> set (waiting c' x) \<longleftrightarrow>
          BatchWork x \<in> set (works c e) \<and> v \<in> set (waiting c x) \<and> v \<noteq> w"
        unfolding f using only by auto
      also have "\<dots> \<longleftrightarrow> wait_active (waiter_at c' v) \<and> wait_entry (waiter_at c' v) = e \<and> wait_batch (waiter_at c' v) = x"
        using d(3) [unfolded links_def, rule_format, of x v] by (auto simp: c')
      finally show "(BatchWork x \<in> set (works c e) \<and> v \<in> set (waiting c' x)) =
        (wait_active (waiter_at c' v) \<and> wait_entry (waiter_at c' v) = e \<and> wait_batch (waiter_at c' v) = x)" .
    qed
    show "entry_waiters (entry_at c' e) = weight (works c' e) (waiting c')"
    proof -
      obtain xs ys where ws: "works c e = xs @ BatchWork b # ys" using b(1) by (meson split_list)
      have "distinct (map work_id (works c e))" by (rule works_ids_distinct [OF d(2)])
      hence "BatchWork b \<notin> set xs" "BatchWork b \<notin> set ys" unfolding ws by (auto simp: image_iff)
      hence "weight xs (waiting c') = weight xs (waiting c)" "weight ys (waiting c') = weight ys (waiting c)"
        by (auto intro!: weight_cong simp: f)
      moreover have "0 < length (waiting c b)" using b(2) by (cases "waiting c b") simp_all
      ultimately show ?thesis using d(4) unfolding w' ws by (simp add: f len) (simp add: c')
    qed
    show "granted_ok c' (entry_at c' e)" using d(6) by (simp add: granted_ok_def c')
    show "batches_ok c' key e" using d(7) unfolding batches_ok_def r by (simp add: c' due_def)
    show "timers_ok c' key e" using d(8) unfolding timers_ok_def r by (simp add: c')
  qed (use d(1,5) in \<open>simp_all add: c'\<close>)
qed

section \<open>Adding work\<close>

primrec force_heap_step :: "progressWork \<Rightarrow> (nat \<Rightarrow> progressBatch) \<Rightarrow> nat \<Rightarrow> progressBatch" where
  "force_heap_step (BatchWork b) h = h(b := force_batch (h b))"
| "force_heap_step (BarrierWork n) h = h"

lemma force_heap: "fold force_work ws c = c\<lparr>batch_at := fold force_heap_step ws (batch_at c)\<rparr>"
proof (induction ws arbitrary: c)
  case (Cons x ws)
  thus ?case by (cases x) (simp_all add: put_batch_def fun_upd_def)
qed simp

lemma sorted_append_fresh:
  assumes "queue_ok ws bw f" "f \<le> work_id x"
  shows "sorted_wrt (<) (map work_id (ws @ [x]))"
  using assms by (auto simp: queue_ok_def sorted_wrt_append)

text \<open>A barrier joins at the end of the queue.\<close>

lemma add_barrier_ok:
  assumes "entry_ok c key e" "n = fresh c" "entry_waiters (entry_at c e) + 1 \<le> maxWaitersPerKey (c_config c)"
    and "c' = c\<lparr>c_global := (c_global c)\<lparr>global_waiters := global_waiters (c_global c) + 1\<rparr>,
      barrier_at := (barrier_at c)(n := \<lparr>granted = False, barrier_active = False, barrier_canceled = False, barrier_released = False\<rparr>),
      entry_at := (entry_at c)(e := (entry_at c e)\<lparr>work_queue := work_queue (entry_at c e) @ [BarrierWork n],
        entry_waiters := entry_waiters (entry_at c e) + 1, lastActivity := now\<rparr>), fresh := Suc n\<rparr>"
  shows "op_ok e c c'" "entry_ok c' key e" "works c' e = works c e @ [BarrierWork n]"
proof -
  note d = entry_ok_D [OF assms(1)]
  show w: "works c' e = works c e @ [BarrierWork n]" by (simp add: assms(4) works_of_def)
  have f: "waiting c' x = waiting c x" "fresh c' = Suc (fresh c)" "waiter_at c' = waiter_at c" "batch_at c' = batch_at c"
    "timer_calls c' = timer_calls c" "dispatches c' = dispatches c" "c_config c' = c_config c" for x
    by (simp_all add: assms(2,4))
  have nin: "BarrierWork n \<notin> set (works c e)" using d(2) assms(2) by (auto simp: queue_ok_def)
  have "local_change e c c'" unfolding local_change_def w f using assms(2) by (auto simp: assms(4))
  thus "op_ok e c c'" by (simp add: op_ok_def same_site_def assms(4))
  show "entry_ok c' key e"
  proof (rule entry_okI)
    show "queue_ok (works c' e) (waiting c') (fresh c')"
      unfolding queue_ok_def w
    proof (intro conjI)
      show "sorted_wrt (<) (map work_id (works c e @ [BarrierWork n]))"
        by (rule sorted_append_fresh [OF d(2)]) (simp add: assms(2))
    qed (use d(2) assms(2) f in \<open>auto simp: queue_ok_def less_SucI\<close>)
    show "links c' e" using d(3) by (simp add: links_def w f)
    show "entry_waiters (entry_at c' e) = weight (works c' e) (waiting c')"
      using d(4) unfolding w by (simp add: f) (simp add: assms(4))
    show "granted_ok c' (entry_at c' e)" using d(6) nin by (auto simp: granted_ok_def assms(4) works_of_def)
    show "batches_ok c' key e" using d(7) by (auto simp: batches_ok_def assms(4) due_def)
    show "timers_ok c' key e" using d(8) assms(2) by (fastforce simp: timers_ok_def assms(4))
  qed (use d(1,5) assms(3) in \<open>simp_all add: assms(4)\<close>)
qed

text \<open>What scheduling does to the batch: its timer is due in time, unless it is ready.\<close>

lemma schedule_form:
  assumes "lastArrival (batch_at c b) = now"
  obtains v ts where
    "scheduleBatchLocked key e b now c = c\<lparr>batch_at := (batch_at c)(b := v), timer_calls := timer_calls c @ ts\<rparr>"
    "v = (batch_at c b)\<lparr>ready := ready v, batch_timer := batch_timer v, timerGeneration := timerGeneration v\<rparr>"
    "ready v \<or> due (scheduleBatchLocked key e b now c) key e b" "ready (batch_at c b) \<Longrightarrow> ready v"
    "\<And>t. t \<in> set ts \<Longrightarrow> call_key t = key \<and> call_entry t = e \<and> call_batch t = b"
proof -
  let ?b = "batch_at c b"
  define deadline where "deadline = min (now + debounce (c_config c)) (firstArrival ?b + maxDispatchDelay (c_config c))"
  define call where "call = \<lparr>call_at = deadline, call_key = key, call_entry = e, call_batch = b,
    call_generation = timerGeneration ?b + 1\<rparr>"
  have eq: "scheduleBatchLocked key e b now c =
      (if ready ?b then c else if deadline \<le> now then put_batch b (?b\<lparr>ready := True, batch_timer := None\<rparr>) c
       else put_batch b (?b\<lparr>timerGeneration := timerGeneration ?b + 1, batch_timer := Some deadline\<rparr>)
         (c\<lparr>timer_calls := timer_calls c @ [call]\<rparr>))"
    unfolding scheduleBatchLocked_def Let_def deadline_def call_def by (rule refl)
  show thesis
  proof (cases "ready ?b")
    case True
    show thesis by (rule that [where v = "?b" and ts = "[]"]) (simp_all add: eq True)
  next
    case no: False
    show thesis
    proof (cases "deadline \<le> now")
      case True
      show thesis
        by (rule that [where v = "?b\<lparr>ready := True, batch_timer := None\<rparr>" and ts = "[]"]) (simp_all add: eq no True put_batch_def)
    next
      case False
      have e2: "scheduleBatchLocked key e b now c =
          put_batch b (?b\<lparr>timerGeneration := timerGeneration ?b + 1, batch_timer := Some deadline\<rparr>)
            (c\<lparr>timer_calls := timer_calls c @ [call]\<rparr>)" by (simp add: eq no False)
      show thesis
      proof (rule that [where v = "?b\<lparr>timerGeneration := timerGeneration ?b + 1, batch_timer := Some deadline\<rparr>" and ts = "[call]"])
        show "scheduleBatchLocked key e b now c = c\<lparr>batch_at := (batch_at c)
            (b := ?b\<lparr>timerGeneration := timerGeneration ?b + 1, batch_timer := Some deadline\<rparr>), timer_calls := timer_calls c @ [call]\<rparr>"
          by (simp add: e2 put_batch_def)
        show "ready (?b\<lparr>timerGeneration := timerGeneration ?b + 1, batch_timer := Some deadline\<rparr>) \<or>
            due (scheduleBatchLocked key e b now c) key e b"
          unfolding e2 using assms by (auto simp: put_batch_def due_def call_def deadline_def)
      qed (simp_all add: no call_def)
    qed
  qed
qed

text \<open>An update joins the last batch, or a new batch at the end of the queue.\<close>

lemma add_update_ok:
  assumes "entry_ok c key e" "w = fresh c" "entry_waiters (entry_at c e) + 1 \<le> maxWaitersPerKey (c_config c)"
    and "b = Suc w \<and> q' = work_queue (entry_at c e) @ [BatchWork b] \<and> f' = Suc b \<and> batch_waiters v = [w] \<or>
      last_batch (entry_at c e) = Some b \<and> q' = work_queue (entry_at c e) \<and> f' = Suc w \<and>
      batch_waiters v = waiting c b @ [w] \<and> (ready (batch_at c b) \<longrightarrow> ready v)"
    and "c' = c\<lparr>c_global := (c_global c)\<lparr>global_waiters := global_waiters (c_global c) + 1\<rparr>,
      batch_at := (batch_at c)(b := v), waiter_at := (waiter_at c)(w := \<lparr>wait_result = None, wait_batch = b, wait_entry = e, wait_active = True\<rparr>),
      entry_at := (entry_at c)(e := (entry_at c e)\<lparr>work_queue := q', entry_waiters := entry_waiters (entry_at c e) + 1,
        lastActivity := now\<rparr>), fresh := f', timer_calls := timer_calls c @ ts, request_at := rq\<rparr>"
    and "ready v \<or> due c' key e b" "\<And>t. t \<in> set ts \<Longrightarrow> call_key t = key \<and> call_entry t = e \<and> call_batch t = b"
  shows "op_ok e c c'" "entry_ok c' key e"
proof -
  note d = entry_ok_D [OF assms(1)]
  have wf: "x < w" if "BatchWork y \<in> set (works c e)" "x \<in> set (waiting c y)" for x y
    using d(2) that assms(2) by (auto simp: queue_ok_def)
  have idf: "work_id x < w" if "x \<in> set (works c e)" for x using d(2) that assms(2) by (auto simp: queue_ok_def)
  have in_q: "BatchWork b \<in> set (work_queue (entry_at c e))" if "last_batch (entry_at c e) = Some b"
  proof -
    have "work_queue (entry_at c e) \<noteq> []" "List.last (work_queue (entry_at c e)) = BatchWork b"
      using that by (auto simp: last_batch_def split: if_split_asm progressWork.splits)
    thus ?thesis using last_in_set [of "work_queue (entry_at c e)"] by simp
  qed
  have alt: "(b = Suc w \<and> works c' e = works c e @ [BatchWork b] \<and> f' = Suc b \<and> waiting c' b = [w]) \<or>
      (BatchWork b \<in> set (works c e) \<and> b < w \<and> works c' e = works c e \<and> f' = Suc w \<and> waiting c' b = waiting c b @ [w] \<and>
        work_queue (entry_at c e) \<noteq> [] \<and> List.last (works c e) = BatchWork b)"
    using assms(4)
  proof (elim disjE conjE)
    assume "last_batch (entry_at c e) = Some b" "q' = work_queue (entry_at c e)" "f' = Suc w" "batch_waiters v = waiting c b @ [w]"
    moreover from this(1) have "work_queue (entry_at c e) \<noteq> []" "List.last (work_queue (entry_at c e)) = BatchWork b"
      by (auto simp: last_batch_def split: if_split_asm progressWork.splits)
    moreover have "b < w" using in_q [OF calculation(1)] idf [of "BatchWork b"] by simp
    ultimately show ?thesis using in_q by (auto simp: assms(5) works_of_def)
  qed (auto simp: assms(5) works_of_def)
  have sub: "set (works c' e) = insert (BatchWork b) (set (works c e))" using alt by auto
  have wb: "waiting c' b = (if BatchWork b \<in> set (works c e) then waiting c b @ [w] else [w])"
    using alt idf [of "BatchWork b"] by auto
  have ff: "w < f'" "b < f'" "fresh c \<le> f'" using alt assms(2) by auto
  have o: "waiting c' x = waiting c x" if "x \<noteq> b" for x using that by (simp add: assms(5))
  have wa: "waiter_at c' = (waiter_at c)(w := \<lparr>wait_result = None, wait_batch = b, wait_entry = e, wait_active = True\<rparr>)"
    by (simp add: assms(5))
  have "local_change e c c'" unfolding local_change_def
  proof (intro conjI)
    show "\<forall>x\<in>set (works c' e). x \<in> set (works c e) \<or> fresh c \<le> work_id x" using alt sub assms(2) by auto
    show "\<forall>x<fresh c. BatchWork x \<notin> set (works c e) \<longrightarrow> batch_at c' x = batch_at c x"
      using alt assms(2) by (auto simp: assms(5))
    show "\<forall>x<fresh c. ready (batch_at c x) \<longrightarrow> ready (batch_at c' x)"
      using assms(2,4) by (auto simp: assms(5))
    show "\<forall>t\<in>set (timer_calls c'). t \<in> set (timer_calls c) \<or> call_entry t = e"
      using assms(7) by (auto simp: assms(5))
  qed (use ff assms(2) in \<open>auto simp: assms(5)\<close>)
  thus "op_ok e c c'" by (simp add: op_ok_def same_site_def assms(5))
  have lnk: "links c' e" unfolding links_def
  proof (intro allI)
    fix x y
    show "(BatchWork x \<in> set (works c' e) \<and> y \<in> set (waiting c' x)) =
      (wait_active (waiter_at c' y) \<and> wait_entry (waiter_at c' y) = e \<and> wait_batch (waiter_at c' y) = x)"
      using d(3) [unfolded links_def, rule_format, of x y] wf [of x y] o [of x] unfolding sub wb wa
      by (cases "y = w"; cases "x = b") (auto simp: wb)
  qed
  show "entry_ok c' key e"
  proof (rule entry_okI)
    show "queue_ok (works c' e) (waiting c') (fresh c')" unfolding queue_ok_def
    proof (intro conjI allI impI)
      show "sorted_wrt (<) (map work_id (works c' e))"
        using alt sorted_append_fresh [OF d(2), of "BatchWork b"] d(2) assms(2) by (auto simp: queue_ok_def)
      show "\<forall>x\<in>set (works c' e). work_id x < fresh c'" unfolding sub using idf ff by (fastforce simp: assms(5))
      fix x assume x: "BatchWork x \<in> set (works c' e)"
      have old: "x \<noteq> b \<or> BatchWork x \<in> set (works c e) \<Longrightarrow> distinct (waiting c x) \<and> BatchWork x \<in> set (works c e)"
        using d(2) x unfolding sub by (auto simp: queue_ok_def)
      show "distinct (waiting c' x)" using old wf [of x] o [of x] wb by (cases "x = b") (auto split: if_split_asm)
      show "\<forall>y\<in>set (waiting c' x). y < fresh c'"
      proof
        fix y assume "y \<in> set (waiting c' x)"
        hence "y = w \<or> BatchWork x \<in> set (works c e) \<and> y \<in> set (waiting c x)"
          using o [of x] wb x sub by (cases "x = b") (auto split: if_split_asm)
        thus "y < fresh c'" using wf ff assms(2) by (fastforce simp: assms(5))
      qed
      fix n y assume n: "BarrierWork n \<in> set (works c' e)" and y: "y \<in> set (waiting c' x)"
      have no: "BarrierWork n \<in> set (works c e)" "n < w" using n idf [of "BarrierWork n"] unfolding sub by auto
      have c1: "y = w \<and> x = b \<or> BatchWork x \<in> set (works c e) \<and> y \<in> set (waiting c x)"
        using y o [of x] wb x sub by (cases "x = b") (auto split: if_split_asm)
      have last: "n < b" 
      proof (rule disjE [OF alt])
        assume a: "BatchWork b \<in> set (works c e) \<and> b < w \<and> works c' e = works c e \<and> f' = Suc w \<and> waiting c' b = waiting c b @ [w] \<and>
          work_queue (entry_at c e) \<noteq> [] \<and> List.last (works c e) = BatchWork b"
        then obtain xs where xs: "works c e = xs @ [BatchWork b]"
          by (metis append_butlast_last_id empty_iff empty_set)
        have "BarrierWork n \<in> set xs" using no(1) unfolding xs by simp
        thus "n < b" using d(2) unfolding xs by (auto simp: queue_ok_def sorted_wrt_append)
      qed (use no in simp)
      show "x < n \<Longrightarrow> y < n" using c1
      proof
        assume "y = w \<and> x = b" "x < n"
        thus "y < n" using last by simp
      qed (use d(2) no in \<open>auto simp: queue_ok_def\<close>)
      show "n < x \<Longrightarrow> n < y" using c1
      proof
        assume "y = w \<and> x = b" "n < x"
        thus "n < y" using no by simp
      qed (use d(2) no in \<open>auto simp: queue_ok_def\<close>)
    qed
    show "links c' e" by (rule lnk)
    show "entry_waiters (entry_at c' e) = weight (works c' e) (waiting c')"
      using alt
    proof (elim disjE conjE)
      assume a: "b = Suc w" "works c' e = works c e @ [BatchWork b]" "waiting c' b = [w]"
      have "weight (works c e) (waiting c') = weight (works c e) (waiting c)"
        by (rule weight_cong) (use idf a(1) in \<open>fastforce simp: assms(5)\<close>)
      thus ?thesis using d(4) a by (simp add: assms(5))
    next
      assume a: "works c' e = works c e" "waiting c' b = waiting c b @ [w]" "List.last (works c e) = BatchWork b"
        "BatchWork b \<in> set (works c e)"
      then obtain xs where xs: "works c e = xs @ [BatchWork b]" by (metis append_butlast_last_id empty_iff empty_set)
      have "BatchWork b \<notin> set xs" using works_ids_distinct [OF d(2)] unfolding xs by (auto simp: image_iff)
      hence "waiting c' y = waiting c y" if "BatchWork y \<in> set xs" for y using that by (intro o) auto
      hence "weight xs (waiting c') = weight xs (waiting c)" by (intro weight_cong) simp
      thus ?thesis using d(4) a(1,2) unfolding xs by (simp add: assms(5))
    qed
    show "granted_ok c' (entry_at c' e)" using d(6) assms(4) by (auto simp: granted_ok_def assms(5))
    show "batches_ok c' key e" unfolding batches_ok_def
    proof (intro conjI allI impI)
      fix x assume x: "BatchWork x \<in> set (work_queue (entry_at c' e))" "\<not> ready (batch_at c' x)"
      show "due c' key e x"
      proof (cases "x = b")
        case True
        thus ?thesis using x assms(6) by (simp add: assms(5))
      next
        case False
        hence "BatchWork x \<in> set (work_queue (entry_at c e))" "batch_at c' x = batch_at c x"
          using x(1) assms(4) by (auto simp: assms(5))
        thus ?thesis using d(7) x(2) False by (auto simp: batches_ok_def assms(5) elim!: due_mono)
      qed
    next
      fix x assume "activeBatch (entry_at c' e) = Some x"
      hence a: "activeBatch (entry_at c e) = Some x" by (simp add: assms(5))
      hence xw: "BatchWork x \<in> set (works c e)" by (simp add: works_of_def)
      have "x \<noteq> b \<or> ready v" using alt idf [OF xw] d(7) a assms(4) by (auto simp: batches_ok_def)
      moreover have "(key, e, x) \<in> set (dispatches c)" "ready (batch_at c x)" using d(7) a by (simp_all add: batches_ok_def)
      ultimately show "ready (batch_at c' x)" "(key, e, x) \<in> set (dispatches c')" by (simp_all add: assms(5))
    qed
    have bq: "BatchWork b \<in> set q'" using assms(4) in_q by auto
    have qq: "set (work_queue (entry_at c e)) \<subseteq> set q'" using assms(4) by auto
    show "timers_ok c' key e" unfolding timers_ok_def
    proof (intro ballI impI)
      fix t assume t: "t \<in> set (timer_calls c')" "call_key t = key" "call_entry t = e"
      have "t \<in> set ts \<and> call_batch t = b \<or> t \<in> set (timer_calls c)" using t assms(7) by (auto simp: assms(5))
      thus "call_batch t < fresh c' \<and> (ready (batch_at c' (call_batch t)) \<or>
          BatchWork (call_batch t) \<in> set (work_queue (entry_at c' e)))"
        using d(8) t(2,3) bq qq ff by (auto simp: timers_ok_def assms(5))
    qed
  qed (use d(1,5) assms(3) in \<open>simp_all add: assms(5)\<close>)
qed

end
