(* ===== verification/Progress_Safety.thy ===== *)
theory Progress_Safety
  imports Progress_Queue
begin

text \<open>
  What holds of the coalescer of one site, and of all sites that share the process-wide runtime, after any
  interleaving of requests, dispatches, timers, cancellations, maintenance and drains; and the properties
  of the component.
\<close>

section \<open>The invariant of a site\<close>

definition site_waiters :: "progressCoalescer \<Rightarrow> int" where
  "site_waiters c = msum (\<lambda>key e. entry_waiters (entry_at c e)) (c_entries c)"

definition table_ok :: "progressCoalescer \<Rightarrow> bool" where
  "table_ok c \<longleftrightarrow> mwf (c_entries c) \<and> distinct (map snd (c_entries c)) \<and> (\<forall>(key, e)\<in>set (c_entries c). e < fresh c) \<and>
     int (length (c_entries c)) \<le> max 0 (maxSiteKeys (c_config c)) \<and>
     (\<forall>w. wait_active (waiter_at c w) \<longrightarrow> w < fresh c \<and> wait_entry (waiter_at c w) < fresh c) \<and>
     (\<forall>t\<in>set (timer_calls c). call_entry t < fresh c)"

definition entries_ok :: "progressCoalescer \<Rightarrow> bool" where
  "entries_ok c \<longleftrightarrow> (\<forall>(key, e)\<in>set (c_entries c). entry_ok c key e \<and> advanced c e) \<and>
     (\<forall>(key, e)\<in>set (c_entries c). \<forall>(key', e')\<in>set (c_entries c). e \<noteq> e' \<longrightarrow>
       set (works c e) \<inter> set (works c e') = {})"

text \<open>What the phase of a drain says of the queues. \<open>busy\<close>: some entry still runs or queues work.\<close>

definition busy :: "progressCoalescer \<Rightarrow> bool" where
  "busy c \<longleftrightarrow> (\<exists>(key, e)\<in>set (c_entries c). \<not> idle_entry (entry_at c e))"

definition phase_ok :: "progressCoalescer \<Rightarrow> bool" where
  "phase_ok c \<longleftrightarrow> 0 \<le> c_admissions c \<and>
     (case c_state c of
        Coalescer_Open \<Rightarrow> c_drain c = None
      | Quiescing \<Rightarrow> c_drain c \<noteq> None \<and> 0 < c_admissions c
      | Draining \<Rightarrow> c_drain c \<noteq> None \<and> c_admissions c = 0 \<and> (\<forall>(key, e)\<in>set (c_entries c). forced c e)
      | Drained \<Rightarrow> c_drain c = None \<and> \<not> busy c
      | Coalescer_Closed \<Rightarrow> c_drain c = None \<and> c_entries c = [])"

text \<open>The share of the other sites in the process-wide counters.\<close>

definition books :: "int \<Rightarrow> int \<Rightarrow> progressCoalescer \<Rightarrow> bool" where
  "books otherKeys otherWaiters c \<longleftrightarrow> 0 \<le> otherKeys \<and> 0 \<le> otherWaiters \<and>
     activeKeys (c_global c) = otherKeys + int (length (c_entries c)) \<and>
     global_waiters (c_global c) = otherWaiters + site_waiters c \<and>
     activeKeys (c_global c) \<le> max 0 (maxActiveKeys (c_global c)) \<and>
     global_waiters (c_global c) \<le> max 0 (maxWaiters (c_global c))"

definition core :: "int \<Rightarrow> int \<Rightarrow> progressCoalescer \<Rightarrow> bool" where
  "core ok ow c \<longleftrightarrow> table_ok c \<and> entries_ok c \<and> books ok ow c"

definition sound :: "int \<Rightarrow> int \<Rightarrow> progressCoalescer \<Rightarrow> bool" where
  "sound ok ow c \<longleftrightarrow> core ok ow c \<and> phase_ok c \<and> (c_state c = Draining \<longrightarrow> busy c)"

text \<open>A drain may just have become complete.\<close>

definition unsettled :: "int \<Rightarrow> int \<Rightarrow> progressCoalescer \<Rightarrow> bool" where
  "unsettled ok ow c \<longleftrightarrow> core ok ow c \<and> phase_ok c"

lemma entry_waiters_nonneg: "entry_ok c key e \<Longrightarrow> 0 \<le> entry_waiters (entry_at c e)"
  by (simp add: entry_ok_def)

lemma entry_covered:
  assumes "entries_ok c" "books ok ow c" "(key, e) \<in> set (c_entries c)"
  shows "covered e c"
proof -
  have nn: "0 \<le> entry_waiters (entry_at c e')" if "(key', e') \<in> set (c_entries c)" for key' e'
    using assms(1) that entry_waiters_nonneg by (fastforce simp: entries_ok_def)
  have "entry_waiters (entry_at c e) \<le> site_waiters c" unfolding site_waiters_def
    using nn assms(3) by (rule msum_member_le)
  thus ?thesis using assms(2) by (simp add: covered_def books_def)
qed

lemma idle_weightless: "idle_entry (entry_at c e) \<Longrightarrow> entry_ok c key e \<Longrightarrow> entry_waiters (entry_at c e) = 0"
  by (simp add: idle_entry_def entry_ok_def works_of_def)

lemma entry_ok_agree:
  assumes "entry_at c' = entry_at c" "batch_at c' = batch_at c" "barrier_at c' = barrier_at c" 
    "\<And>w. wait_active (waiter_at c' w) = wait_active (waiter_at c w)" "\<And>w. wait_entry (waiter_at c' w) = wait_entry (waiter_at c w)"
    "\<And>w. wait_batch (waiter_at c' w) = wait_batch (waiter_at c w)" "fresh c' = fresh c" "timer_calls c' = timer_calls c" "dispatches c' = dispatches c" "c_config c' = c_config c"
  shows "entry_ok c' = entry_ok c" "advanced c' = advanced c" "forced c' = forced c"
proof -
  show "entry_ok c' = entry_ok c"
    by (intro ext, unfold entry_ok_def queue_ok_def links_def granted_ok_def batches_ok_def due_def timers_ok_def assms, rule refl)
  show "advanced c' = advanced c" by (rule ext, unfold advanced_def assms, rule refl)
  show "forced c' = forced c" by (rule ext, unfold forced_def assms, rule refl)
qed

lemma core_agree:
  assumes "entry_at c' = entry_at c" "batch_at c' = batch_at c" "barrier_at c' = barrier_at c"
    "\<And>w. wait_active (waiter_at c' w) = wait_active (waiter_at c w)" "\<And>w. wait_entry (waiter_at c' w) = wait_entry (waiter_at c w)"
    "\<And>w. wait_batch (waiter_at c' w) = wait_batch (waiter_at c w)" "fresh c' = fresh c"
    "timer_calls c' = timer_calls c" "dispatches c' = dispatches c" "c_config c' = c_config c"
    "c_entries c' = c_entries c" "c_global c' = c_global c"
  shows "core ok ow c' = core ok ow c" "busy c' = busy c"
proof -
  note a = entry_ok_agree [OF assms(1-10)]
  have "table_ok c' = table_ok c" unfolding table_ok_def assms by (rule refl)
  moreover have "entries_ok c' = entries_ok c" unfolding entries_ok_def a assms by (rule refl)
  moreover have "books ok ow c' = books ok ow c" unfolding books_def site_waiters_def assms by (rule refl)
  ultimately show "core ok ow c' = core ok ow c" by (simp add: core_def)
  show "busy c' = busy c" unfolding busy_def assms by (rule refl)
qed

lemma drain_complete:
  assumes "unsettled ok ow c"
  shows "sound ok ow (completeDrainLocked c)"
proof (cases "c_state c = Draining \<and> \<not> busy c")
  case True
  then obtain d where d: "c_drain c = Some d" "c_admissions c = 0"
    using assms by (auto simp: unsettled_def phase_ok_def)
  have all: "list_all (\<lambda>(key, e). idle_entry (entry_at c e)) (c_entries c)"
    using True by (auto simp: busy_def list_all_iff)
  define s where "s = (if drain_err (cycle_at c d) = None then Drained else Coalescer_Open)"
  have eq: "completeDrainLocked c = put_cycle d ((cycle_at c d)\<lparr>drain_done := True\<rparr>) (c\<lparr>c_drain := None, c_state := s\<rparr>)"
    using True d all by (simp add: completeDrainLocked_def s_def)
  have nb: "\<not> busy (completeDrainLocked c)" using True by (simp add: eq busy_def put_cycle_def)
  have "phase_ok (completeDrainLocked c)"
    using True d by (simp add: eq phase_ok_def busy_def put_cycle_def s_def)
  moreover have "core ok ow (completeDrainLocked c) = core ok ow c"
    by (rule core_agree) (simp_all add: eq put_cycle_def)
  ultimately show ?thesis using nb assms by (simp add: sound_def unsettled_def) (simp add: eq put_cycle_def s_def)
next
  case False
  have "completeDrainLocked c = c"
    using False by (auto simp: completeDrainLocked_def busy_def list_all_iff split: option.splits)
  thus ?thesis using assms False by (auto simp: sound_def unsettled_def)
qed

section \<open>Operations on one entry\<close>

lemma msum_one_changed:
  assumes "distinct (map snd m)" "(key, e) \<in> set m" "\<And>x. x \<noteq> e \<Longrightarrow> h' x = h x"
  shows "msum (\<lambda>key e. f (h' e)) m = msum (\<lambda>key e. f (h e)) m + (f (h' e) - f (h e))"
  using assms(1,2)
proof (induction m)
  case (Cons p m)
  obtain k x where p: "p = (k, x)" by (cases p)
  show ?case
  proof (cases "x = e")
    case True
    have "msum (\<lambda>key e. f (h' e)) m = msum (\<lambda>key e. f (h e)) m"
    proof -
      have "h' y = h y" if "(j, y) \<in> set m" for j y
        using Cons.prems(1) that by (intro assms(3)) (auto simp: p True image_iff)
      thus ?thesis by (auto simp: msum_def intro!: arg_cong [where f = sum_list] map_cong)
    qed
    thus ?thesis by (simp add: p True)
  next
    case False
    hence "(key, e) \<in> set m" using Cons.prems(2) by (auto simp: p)
    thus ?thesis using Cons False by (simp add: p assms(3))
  qed
qed simp

text \<open>A change of one entry keeps the site sound.\<close>

lemma site_core:
  assumes u: "core ok ow c" and k: "mget (c_entries c) key = Some e"
    and o: "op_ok e c c'" and ok: "entry_ok c' key e" and adv: "advanced c' e"
    and lim: "global_waiters (c_global c') \<le> max 0 (maxWaiters (c_global c))"
  shows "core ok ow c'" "\<And>key' x. (key', x) \<in> set (c_entries c) \<Longrightarrow> x \<noteq> e \<Longrightarrow> forced c' x = forced c x"
proof -
  have t: "table_ok c" and e: "entries_ok c" and b: "books ok ow c"
    using u by (simp_all add: core_def)
  have in_e: "(key, e) \<in> set (c_entries c)" by (rule mget_in_set [OF k])
  have l: "local_change e c c'" and s: "same_site e c c'" using o by (simp_all add: op_ok_def)
  note ents = op_ok_local(2) [OF o]
  have key: "key' = key" if "(key', e) \<in> set (c_entries c)" for key'
    using t that in_e unfolding table_ok_def by (metis eq_key_imp_eq_value distinct_map inj_onD snd_conv prod.inject)
  have fr: "entry_ok c' key' e' \<and> advanced c' e' \<and> works c' e' = works c e' \<and> forced c' e' = forced c e'"
    if m: "(key', e') \<in> set (c_entries c)" and ne: "e' \<noteq> e" for key' e'
  proof -
    have eo: "entry_ok c key' e'" "advanced c e'" using e m by (auto simp: entries_ok_def)
    have dj: "x \<noteq> y" if "x \<in> set (works c e')" "y \<in> set (works c e)" for x y
      using e m in_e ne that unfolding entries_ok_def by blast
    have wa: "\<not> wait_active (waiter_at c w)" if "fresh c \<le> w" for w using t that by (auto simp: table_ok_def)
    note fr = entry_ok_frame [OF o eo ne, OF dj wa]
    show ?thesis using fr by blast
  qed
  have f: "fresh c \<le> fresh c'" by (rule op_ok_local(4) [OF o])
  have "table_ok c'"
    unfolding table_ok_def ents op_ok_local(1) [OF o]
  proof (intro conjI)
    show "\<forall>(key, e)\<in>set (c_entries c). e < fresh c'" using t f by (auto simp: table_ok_def)
    have ef: "e < fresh c" using t in_e by (auto simp: table_ok_def)
    show "\<forall>w. wait_active (waiter_at c' w) \<longrightarrow> w < fresh c' \<and> wait_entry (waiter_at c' w) < fresh c'"
    proof (intro allI impI)
      fix w assume a: "wait_active (waiter_at c' w)"
      have "waiter_at c' w = waiter_at c w \<or> wait_entry (waiter_at c' w) = e \<and> w < fresh c'"
        using l by (auto simp: local_change_def)
      thus "w < fresh c' \<and> wait_entry (waiter_at c' w) < fresh c'"
        using a t f ef unfolding table_ok_def by (metis order_less_le_trans)
    qed
    show "\<forall>t\<in>set (timer_calls c'). call_entry t < fresh c'"
    proof
      fix x assume "x \<in> set (timer_calls c')"
      hence "x \<in> set (timer_calls c) \<or> call_entry x = e" using l by (simp add: local_change_def)
      moreover have "e < fresh c" using t in_e by (auto simp: table_ok_def)
      ultimately show "call_entry x < fresh c'" using t f by (auto simp: table_ok_def)
    qed
  qed (use t in \<open>simp_all add: table_ok_def\<close>)
  moreover have "entries_ok c'"
    unfolding entries_ok_def ents
  proof (intro conjI)
    show "\<forall>(key, e)\<in>set (c_entries c). entry_ok c' key e \<and> advanced c' e"
    proof (intro ballI, clarify)
      fix k x assume m: "(k, x) \<in> set (c_entries c)"
      show "entry_ok c' k x \<and> advanced c' x"
        using fr [OF m] ok adv key m by (cases "x = e") auto
    qed
    have ids: "work_id y < fresh c" if "(k, x) \<in> set (c_entries c)" "y \<in> set (works c x)" for k x y
      using e that by (fastforce simp: entries_ok_def entry_ok_def queue_ok_def)
    have new: "set (works c' e) \<inter> set (works c x) = {}" if "(k, x) \<in> set (c_entries c)" "x \<noteq> e" for k x
    proof -
      have "y \<in> set (works c e) \<or> fresh c \<le> work_id y" if "y \<in> set (works c' e)" for y
        using l that by (simp add: local_change_def)
      moreover have "set (works c e) \<inter> set (works c x) = {}" using e in_e that unfolding entries_ok_def by blast
      ultimately show ?thesis using ids [OF that(1)] by fastforce
    qed
    show "\<forall>(key, e)\<in>set (c_entries c). \<forall>(key', e')\<in>set (c_entries c). e \<noteq> e' \<longrightarrow>
        set (works c' e) \<inter> set (works c' e') = {}"
    proof (intro ballI, clarify)
      fix k x k' x' assume m: "(k, x) \<in> set (c_entries c)" "(k', x') \<in> set (c_entries c)" "x \<noteq> x'"
      have "set (works c x) \<inter> set (works c x') = {}" using e m unfolding entries_ok_def by blast
      thus "set (works c' x) \<inter> set (works c' x') = {}"
        using new [OF m(1)] new [OF m(2)] fr [OF m(1)] fr [OF m(2)] m(3) by (cases "x = e"; cases "x' = e") (auto simp: Int_commute)
    qed
  qed
  moreover have "books ok ow c'"
  proof -
    have "site_waiters c' = site_waiters c + (entry_waiters (entry_at c' e) - entry_waiters (entry_at c e))"
      unfolding site_waiters_def ents
      by (rule msum_one_changed [where key = key]) (use t in_e l in \<open>simp_all add: table_ok_def local_change_def\<close>)
    thus ?thesis using b s lim ents unfolding books_def same_site_def by simp
  qed
  ultimately show "core ok ow c'" by (simp add: core_def)
  show "forced c' x = forced c x" if "(key', x) \<in> set (c_entries c)" "x \<noteq> e" for key' x
    using fr [OF that] by blast
qed

lemma site_local:
  assumes u: "unsettled ok ow c" and k: "mget (c_entries c) key = Some e"
    and o: "op_ok e c c'" and ok: "entry_ok c' key e" and adv: "advanced c' e"
    and fc: "c_state c = Draining \<Longrightarrow> forced c' e" and st: "c_state c \<noteq> Drained"
    and lim: "global_waiters (c_global c') \<le> max 0 (maxWaiters (c_global c))"
  shows "unsettled ok ow c'"
proof -
  have p: "phase_ok c" and co: "core ok ow c" using u by (simp_all add: unsettled_def)
  note s = site_core [OF co k o ok adv lim]
  have "\<forall>(key, x)\<in>set (c_entries c). forced c' x" if "c_state c = Draining"
  proof (intro ballI, clarify)
    fix key x assume m: "(key, x) \<in> set (c_entries c)"
    have "forced c x" using p that m by (auto simp: phase_ok_def)
    thus "forced c' x" using s(2) [OF m] fc [OF that] by (cases "x = e") simp_all
  qed
  moreover have "c_state c' = c_state c" "c_drain c' = c_drain c" "c_admissions c' = c_admissions c" "c_entries c' = c_entries c"
    using o by (simp_all add: op_ok_def same_site_def)
  ultimately have "phase_ok c'" using p st unfolding phase_ok_def by (cases "c_state c") auto
  thus ?thesis using s(1) by (simp add: unsettled_def)
qed

section \<open>Every operation keeps a site sound\<close>

lemma sound_unsettled: "sound ok ow c \<Longrightarrow> unsettled ok ow c"
  by (simp add: sound_def unsettled_def)

lemma core_D:
  assumes "core ok ow c" "mget (c_entries c) key = Some e"
  shows "entry_ok c key e" "advanced c e" "covered e c" "e < fresh c" "(key, e) \<in> set (c_entries c)"
proof -
  show m: "(key, e) \<in> set (c_entries c)" by (rule mget_in_set [OF assms(2)])
  show "entry_ok c key e" "advanced c e" "e < fresh c"
    using assms(1) m by (auto simp: core_def entries_ok_def table_ok_def)
  show "covered e c" using assms(1) m by (auto simp: core_def intro: entry_covered)
qed

lemma core_waiters: "core ok ow c \<Longrightarrow> global_waiters (c_global c) \<le> max 0 (maxWaiters (c_global c))"
  by (simp add: core_def books_def)

lemma op_ok_waiters:
  assumes "op_ok e c c'" "entry_waiters (entry_at c' e) \<le> entry_waiters (entry_at c e)" "core ok ow c"
  shows "global_waiters (c_global c') \<le> max 0 (maxWaiters (c_global c))"
  using assms core_waiters [OF assms(3)] by (simp add: op_ok_def same_site_def)

text \<open>In a drained site nothing waits: every operation on an entry finds nothing to do.\<close>

lemma drained_idle:
  assumes "unsettled ok ow c" "c_state c = Drained" "mget (c_entries c) key = Some e"
  shows "idle_entry (entry_at c e)"
  using assms core_D(5) [of ok ow c key e] by (fastforce simp: unsettled_def phase_ok_def busy_def)

lemma idle_works_empty: "idle_entry v \<longleftrightarrow> works_of v = []"
  by (auto simp: idle_entry_def works_of_def split: option.splits)

text \<open>A progressing operation: a change of one entry, then the next work, then the end of a drain perhaps.\<close>

lemma finish_sound:
  assumes "unsettled ok ow c" "mget (c_entries c) key = Some e" "op_ok e c c1" "entry_ok c1 key e"
    and "entry_waiters (entry_at c1 e) \<le> entry_waiters (entry_at c e)" "c_state c \<noteq> Drained"
  shows "sound ok ow (completeDrainLocked (advanceEntryLocked key e (force_if_draining e c1)))"
proof (rule drain_complete)
  note f = finish_ok [OF assms(3,4)]
  have co: "core ok ow c" using assms(1) by (simp add: unsettled_def)
  have "weight (works c1 e) (waiting (advanceEntryLocked key e (force_if_draining e c1))) = weight (works c1 e) (waiting c1)"
    by (rule weight_cong) (simp add: f(7))
  hence w: "entry_waiters (entry_at (advanceEntryLocked key e (force_if_draining e c1)) e) \<le> entry_waiters (entry_at c e)"
    using entry_ok_D(4) [OF f(2)] entry_ok_D(4) [OF assms(4)] assms(5) unfolding f(5) by simp
  show "unsettled ok ow (advanceEntryLocked key e (force_if_draining e c1))"
    by (rule site_local [OF assms(1,2) f(1,2,3) f(4) assms(6) op_ok_waiters [OF f(1) w co]])
qed

text \<open>An idle entry may be deleted.\<close>

lemma delete_core:
  assumes "core ok ow c" "mget (c_entries c) key = Some e" "idle_entry (entry_at c e)"
  shows "core ok ow (delete_entry key c)" "c_entries (delete_entry key c) = mdel key (c_entries c)"
    "busy (delete_entry key c) = busy c"
proof -
  note d = core_D [OF assms(1,2)]
  have t: "table_ok c" and e: "entries_ok c" and b: "books ok ow c" using assms(1) by (simp_all add: core_def)
  have wf: "mwf (c_entries c)" using t by (simp add: table_ok_def)
  show ents: "c_entries (delete_entry key c) = mdel key (c_entries c)" by (simp add: delete_entry_def)
  have sub: "set (mdel key (c_entries c)) \<subseteq> set (c_entries c)" by (auto simp: AList.delete_eq)
  have w0: "entry_waiters (entry_at c e) = 0" by (rule idle_weightless [OF assms(3) d(1)])
  have len: "Suc (length (mdel key (c_entries c))) = length (c_entries c)"
    by (rule length_mdel_Some [OF wf assms(2)])
  have g: "releaseKey (c_global c) = (c_global c)\<lparr>activeKeys := activeKeys (c_global c) - 1\<rparr>"
    using b len by (auto simp: releaseKey_def books_def)
  have "table_ok (delete_entry key c)"
  proof -
    have "distinct (map snd (mdel key (c_entries c)))"
      using t by (simp add: table_ok_def AList.delete_eq distinct_map_filter)
    moreover have "mwf (mdel key (c_entries c))" using wf by (rule mwf_mdel)
    ultimately show ?thesis using t sub len by (auto simp: table_ok_def delete_entry_def)
  qed
  moreover have "entries_ok (delete_entry key c)"
  proof -
    have "entry_ok (delete_entry key c) = entry_ok c" "advanced (delete_entry key c) = advanced c"
      by (rule entry_ok_agree; simp add: delete_entry_def)+
    thus ?thesis using e sub unfolding entries_ok_def ents by (simp add: delete_entry_def) blast
  qed
  moreover have "books ok ow (delete_entry key c)"
  proof -
    have "site_waiters (delete_entry key c) = site_waiters c"
      using w0 wf assms(2) by (simp add: site_waiters_def delete_entry_def msum_mdel)
    thus ?thesis using b len by (simp add: books_def delete_entry_def g) 
  qed
  ultimately show "core ok ow (delete_entry key c)" by (simp add: core_def)
  show "busy (delete_entry key c) = busy c"
  proof -
    have "(k, x) \<in> set (mdel key (c_entries c))" if "(k, x) \<in> set (c_entries c)" "\<not> idle_entry (entry_at c x)" for k x
      using that assms(3) in_set_mget [OF wf that(1)] assms(2) by (auto simp: AList.delete_eq)
    thus ?thesis using sub by (auto simp: busy_def ents) (auto simp: delete_entry_def)
  qed
qed

lemma delete_phase:
  assumes "phase_ok c" "busy (delete_entry key c) = busy c"
  shows "phase_ok (delete_entry key c)"
proof -
  have f: "forced (delete_entry key c) = forced c" by (rule entry_ok_agree) (simp_all add: delete_entry_def)
  have sub: "set (mdel key (c_entries c)) \<subseteq> set (c_entries c)" by (auto simp: AList.delete_eq)
  show ?thesis
    using assms(1) sub unfolding phase_ok_def f assms(2) by (cases "c_state c") (auto simp: delete_entry_def AList.delete_eq)
qed

lemma mdel_other: "mget (mdel key m) k = (if k = key then None else mget m k)"
  by simp

lemma cleanup_sound:
  assumes "sound ok ow c"
  shows "sound ok ow (cleanupIdle now c)"
proof -
  have "sound ok ow (fold (cleanup_one now) m c)"
    if "sound ok ow c" "mwf m" "\<And>k x. (k, x) \<in> set m \<Longrightarrow> mget (c_entries c) k = Some x" for m
    using that
  proof (induction m arbitrary: c)
    case (Cons p m)
    obtain key e where p: "p = (key, e)" by (cases p)
    have k: "mget (c_entries c) key = Some e" using Cons.prems(3) by (simp add: p)
    have co: "core ok ow c" using Cons.prems(1) by (simp add: sound_def)
    consider (keep) "cleanup_one now p c = c" |
      (del) "idle_entry (entry_at c e)" "cleanup_one now p c = delete_entry key c"
    proof (cases "idle_entry (entry_at c e) \<and> entry_waiters (entry_at c e) = 0 \<and>
        \<not> time_sub now (lastActivity (entry_at c e)) < idleExpiry (c_config c)")
      case True
      thus thesis by (intro del) (simp_all add: cleanup_one_def p Let_def)
    next
      case False
      thus thesis by (intro keep) (auto simp: cleanup_one_def p Let_def)
    qed
    thus ?case
    proof cases
      case keep
      have "sound ok ow (fold (cleanup_one now) m c)"
        by (rule Cons.IH [OF Cons.prems(1)]) (use Cons.prems(2,3) in \<open>auto simp: p\<close>)
      thus ?thesis by (simp add: keep)
    next
      case del
      note dc = delete_core [OF co k del(1)]
      have "sound ok ow (delete_entry key c)"
        using Cons.prems(1) dc delete_phase [of c key] by (simp add: sound_def) (simp add: delete_entry_def)
      moreover have "mget (c_entries (delete_entry key c)) k = Some x" if "(k, x) \<in> set m" for k x
        using Cons.prems(2,3) that dc(2) in_set_mget [of m k x] by (auto simp: p)
      ultimately have "sound ok ow (fold (cleanup_one now) m (delete_entry key c))"
        by (intro Cons.IH) (use Cons.prems(2) in \<open>auto simp: p\<close>)
      thus ?thesis by (simp add: del)
    qed
  qed simp
  moreover have "mwf (c_entries c)" using assms by (simp add: sound_def core_def table_ok_def)
  ultimately have "sound ok ow (fold (cleanup_one now) (c_entries c) c)" using assms by (simp add: in_set_mget)
  thus ?thesis using assms by (simp add: cleanupIdle_def)
qed

lemma close_sound:
  assumes "sound ok ow c" "c_state c = Drained \<or> c_state c = Coalescer_Closed"
  shows "sound ok ow (Close c)"
proof (cases "c_state c = Coalescer_Closed")
  case False
  hence dr: "c_state c = Drained" and ph: "phase_ok c" and co: "core ok ow c" using assms by (auto simp: sound_def)
  define c1 where "c1 = c\<lparr>c_state := Coalescer_Closed\<rparr>"
  have c1: "core ok ow c1" "busy c1 = busy c" unfolding c1_def by (subst core_agree; use co in simp)+
  have nb: "\<not> busy c" using ph dr by (simp add: phase_ok_def)
  have "core ok ow (fold close_one m c) \<and> set (c_entries (fold close_one m c)) = set (c_entries c) - set m \<and>
      c_state (fold close_one m c) = c_state c \<and> c_drain (fold close_one m c) = c_drain c \<and>
      c_admissions (fold close_one m c) = c_admissions c"
    if "core ok ow c" "\<not> busy c" "mwf m" "\<And>k x. (k, x) \<in> set m \<Longrightarrow> mget (c_entries c) k = Some x" for m c
    using that
  proof (induction m arbitrary: c)
    case (Cons p m)
    obtain key e where p: "p = (key, e)" by (cases p)
    have k: "mget (c_entries c) key = Some e" using Cons.prems(4) by (simp add: p)
    have i: "idle_entry (entry_at c e)" using Cons.prems(2) mget_in_set [OF k] by (auto simp: busy_def)
    note dc = delete_core [OF Cons.prems(1) k i]
    have eq: "close_one p c = delete_entry key c" using i by (simp add: close_one_def p idle_entry_def)
    have wf: "mwf (c_entries c)" using Cons.prems(1) by (simp add: core_def table_ok_def)
    have "set (mdel key (c_entries c)) = set (c_entries c) - {p}"
      using in_set_mget [OF wf] k by (fastforce simp: AList.delete_eq p)
    moreover have "mget (c_entries (delete_entry key c)) k = Some x" if "(k, x) \<in> set m" for k x
      using Cons.prems(3,4) that dc(2) in_set_mget [of m k x] by (auto simp: p)
    moreover have "mwf m" using Cons.prems(3) by (simp add: p)
    ultimately show ?case
      using Cons.IH [OF dc(1), unfolded dc(3), OF Cons.prems(2)] dc(2) by (simp add: eq) (auto simp: delete_entry_def)
  qed simp
  moreover have "mwf (c_entries c1)" using c1(1) by (simp add: core_def table_ok_def)
  ultimately have "core ok ow (fold close_one (c_entries c1) c1) \<and>
      set (c_entries (fold close_one (c_entries c1) c1)) = set (c_entries c1) - set (c_entries c1) \<and>
      c_state (fold close_one (c_entries c1) c1) = c_state c1 \<and> c_drain (fold close_one (c_entries c1) c1) = c_drain c1 \<and>
      c_admissions (fold close_one (c_entries c1) c1) = c_admissions c1"
    using c1 nb by (simp add: in_set_mget)
  hence "core ok ow (Close c) \<and> set (c_entries (Close c)) = {} \<and> c_state (Close c) = Coalescer_Closed \<and>
      c_drain (Close c) = c_drain c \<and> c_admissions (Close c) = c_admissions c"
    using dr by (simp add: Close_def c1_def)
  thus ?thesis using ph dr by (simp add: sound_def phase_ok_def)
qed (use assms in \<open>simp add: Close_def\<close>)

text \<open>Admissions and drains.\<close>

lemma admit_sound: "sound ok ow c \<Longrightarrow> sound ok ow (fst (ServeHTTP_admit r c))"
proof -
  assume s: "sound ok ow c"
  show ?thesis
  proof (cases "progressPathKind r \<noteq> progressRequestNone \<and> c_state c = Coalescer_Open")
    case True
    have eq: "fst (ServeHTTP_admit r c) = c\<lparr>c_admissions := c_admissions c + 1\<rparr>"
      using True by (simp add: ServeHTTP_admit_def beginProgressIngress_def)
    have "core ok ow (c\<lparr>c_admissions := c_admissions c + 1\<rparr>) = core ok ow c" by (rule core_agree) simp_all
    thus ?thesis using s True unfolding eq by (simp add: sound_def phase_ok_def)
  next
    case False
    hence "fst (ServeHTTP_admit r c) = c" by (auto simp: ServeHTTP_admit_def beginProgressIngress_def)
    thus ?thesis using s by simp
  qed
qed

lemma drain_one_ok:
  assumes "core ok ow c" "mget (c_entries c) key = Some e"
  defines "c' \<equiv> drain_one (key, e) c"
  shows "core ok ow c'" "forced c' e" "\<And>k x. (k, x) \<in> set (c_entries c) \<Longrightarrow> forced c x \<Longrightarrow> forced c' x"
    "c_entries c' = c_entries c" "c_state c' = c_state c" "c_drain c' = c_drain c" "c_admissions c' = c_admissions c"
proof -
  note d = core_D [OF assms(1,2)]
  note f = force_ok [OF d(1)]
  note a = advance_ok [OF f(2)]
  have eq: "c' = advanceEntryLocked key e (forceQueuedBatchesLocked e c)" by (simp add: c'_def drain_one_def)
  have o: "op_ok e c c'" unfolding eq by (rule op_ok_trans [OF f(1) a(1)])
  have w: "entry_waiters (entry_at c' e) \<le> entry_waiters (entry_at c e)"
  proof -
    have "weight (works c e) (waiting c') = weight (works c e) (waiting c)" unfolding eq a(5) by (rule weight_cong) (simp add: f(6))
    moreover have "works c' e = works c e" unfolding eq a(4) f(4) by (rule refl)
    ultimately show ?thesis using entry_ok_D(4) [OF a(2), folded eq] entry_ok_D(4) [OF d(1)] by simp
  qed
  note s = site_core [OF assms(1,2) o a(2,3) [folded eq] op_ok_waiters [OF o w assms(1)]]
  show "core ok ow c'" by (rule s(1))
  show fo: "forced c' e" using f(3) a(5,7) unfolding eq forced_def by auto
  show "forced c' x" if "(k, x) \<in> set (c_entries c)" "forced c x" for k x
    using s(2) [OF that(1)] fo that(2) by (cases "x = e") simp_all
  show "c_entries c' = c_entries c" "c_state c' = c_state c" "c_drain c' = c_drain c" "c_admissions c' = c_admissions c"
    using o by (simp_all add: op_ok_def same_site_def)
qed

lemma drain_all_ok:
  assumes "core ok ow c" "\<And>k x. (k, x) \<in> set m \<Longrightarrow> mget (c_entries c) k = Some x"
  defines "c' \<equiv> fold drain_one m c"
  shows "core ok ow c' \<and> (\<forall>(k, x)\<in>set m. forced c' x) \<and> (\<forall>(k, x)\<in>set (c_entries c). forced c x \<longrightarrow> forced c' x) \<and>
    c_entries c' = c_entries c \<and> c_state c' = c_state c \<and> c_drain c' = c_drain c \<and> c_admissions c' = c_admissions c"
  using assms(1,2) unfolding c'_def
proof (induction m arbitrary: c)
  case (Cons p m)
  obtain key e where p: "p = (key, e)" by (cases p)
  have k: "mget (c_entries c) key = Some e" using Cons.prems(2) by (simp add: p)
  note d = drain_one_ok [OF Cons.prems(1) k]
  have in_e: "(key, e) \<in> set (c_entries c)" by (rule mget_in_set [OF k])
  note ih = Cons.IH [OF d(1), unfolded d(4)]
  have "mget (c_entries c) k = Some x" if "(k, x) \<in> set m" for k x using Cons.prems(2) that by simp
  from ih [OF this] show ?case using d(2,3,5,6,7) in_e unfolding p by (simp add: d(4)) blast
qed auto

lemma advance_drain_sound:
  assumes "core ok ow c" "c_state c = Quiescing" "c_drain c \<noteq> None" "0 \<le> c_admissions c"
  shows "sound ok ow (advanceDrainLocked c)"
proof (cases "c_admissions c = 0")
  case False
  thus ?thesis using assms by (simp add: advanceDrainLocked_def sound_def phase_ok_def)
next
  case True
  define c1 where "c1 = c\<lparr>c_state := Draining\<rparr>"
  have c1: "core ok ow c1" unfolding c1_def by (subst core_agree; use assms(1) in simp)
  have "mwf (c_entries c1)" using c1 by (simp add: core_def table_ok_def)
  hence "mget (c_entries c1) k = Some x" if "(k, x) \<in> set (c_entries c1)" for k x using that by (rule in_set_mget)
  note d = drain_all_ok [OF c1 this]
  have "unsettled ok ow (fold drain_one (c_entries c1) c1)"
    using d assms(3) True by (auto simp: unsettled_def phase_ok_def c1_def)
  from drain_complete [OF this] show ?thesis
    using assms(2,3) True by (auto simp: advanceDrainLocked_def c1_def)
qed

lemma end_ingress_sound:
  assumes "sound ok ow c"
  shows "sound ok ow (endProgressIngress c)"
proof -
  define c1 where "c1 = (if 0 < c_admissions c then c\<lparr>c_admissions := c_admissions c - 1\<rparr> else c)"
  have "core ok ow c1 = core ok ow c" and co2: "busy c1 = busy c" by (rule core_agree; simp add: c1_def)+
  hence co: "core ok ow c1" "busy c1 = busy c" using assms by (simp_all add: sound_def)
  have f: "c_state c1 = c_state c" "c_drain c1 = c_drain c" "c_entries c1 = c_entries c" by (simp_all add: c1_def)
  have fo: "forced c1 = forced c" by (rule entry_ok_agree) (simp_all add: c1_def)
  have a: "0 \<le> c_admissions c1" "c_admissions c = 0 \<Longrightarrow> c_admissions c1 = 0"
    using assms by (auto simp: c1_def sound_def phase_ok_def)
  have eq: "endProgressIngress c = advanceDrainLocked c1" by (simp add: endProgressIngress_def c1_def)
  show ?thesis
  proof (cases "c_state c = Quiescing")
    case True
    thus ?thesis unfolding eq using co a f assms by (intro advance_drain_sound) (auto simp: sound_def phase_ok_def)
  next
    case False
    hence "advanceDrainLocked c1 = c1" by (simp add: advanceDrainLocked_def f)
    moreover have "phase_ok c1" using assms a False unfolding sound_def phase_ok_def f fo co(2) by (cases "c_state c") auto
    ultimately show ?thesis unfolding eq using assms co f by (simp add: sound_def)
  qed
qed

text \<open>Allocating an address.\<close>

lemma core_fresh:
  assumes "core ok ow c"
  shows "core ok ow (c\<lparr>fresh := Suc (fresh c), request_at := rq\<rparr>)" (is "core ok ow ?c")
proof -
  have "entry_ok ?c key e" if "entry_ok c key e" for key e
  proof (rule entry_ok_same [OF that])
    show "granted_ok ?c (entry_at ?c e)" using entry_ok_D(6) [OF that] by (simp add: granted_ok_def)
    show "batches_ok ?c key e" using entry_ok_D(7) [OF that] by (simp add: batches_ok_def due_def)
    show "timers_ok ?c key e" using entry_ok_D(8) [OF that] by (auto simp: timers_ok_def)
  qed (use entry_ok_D(1) [OF that] in simp_all)
  moreover have "advanced ?c e = advanced c e" for e by (cases "work_queue (entry_at c e)") (simp_all add: advanced_def)
  ultimately have "entries_ok ?c" using assms unfolding core_def entries_ok_def by auto
  moreover have "table_ok ?c" using assms unfolding core_def table_ok_def by (auto simp: less_SucI)
  ultimately show ?thesis using assms by (simp add: core_def books_def site_waiters_def)
qed

lemma drain_sound:
  assumes "sound ok ow c"
  shows "sound ok ow (fst (Drain c))"
proof (cases "c_state c = Coalescer_Open")
  case True
  define c1 where "c1 = put_cycle (fresh c) \<lparr>drain_done = False, drain_err = None\<rparr>
    (c\<lparr>c_state := Quiescing, c_drain := Some (fresh c), fresh := Suc (fresh c)\<rparr>)"
  have "core ok ow (c\<lparr>fresh := Suc (fresh c), request_at := request_at c\<rparr>)"
    using assms by (intro core_fresh) (simp add: sound_def)
  moreover have "core ok ow c1 = core ok ow (c\<lparr>fresh := Suc (fresh c), request_at := request_at c\<rparr>)"
    by (rule core_agree) (simp_all add: c1_def put_cycle_def)
  ultimately have "sound ok ow (advanceDrainLocked c1)"
    using assms by (intro advance_drain_sound) (auto simp: c1_def put_cycle_def sound_def phase_ok_def)
  thus ?thesis using True by (simp add: Drain_def c1_def)
next
  case False
  thus ?thesis using assms by (cases "c_state c") (simp_all add: Drain_def)
qed

lemma drain_timeout_sound:
  assumes "sound ok ow c"
  shows "sound ok ow (Drain_timeout d c)"
proof (cases "(c_state c = Quiescing \<or> c_state c = Draining) \<and> c_drain c = Some d")
  case True
  have "core ok ow (c\<lparr>c_state := Coalescer_Open, c_drain := None\<rparr>) = core ok ow c" by (rule core_agree) simp_all
  thus ?thesis using assms True by (auto simp: Drain_timeout_def sound_def phase_ok_def)
qed (use assms in \<open>auto simp: Drain_timeout_def\<close>)

lemma phase_agree:
  assumes "c_state c' = c_state c" "c_drain c' = c_drain c" "c_admissions c' = c_admissions c" "c_entries c' = c_entries c"
    "forced c' = forced c" "busy c' = busy c"
  shows "phase_ok c' = phase_ok c"
  unfolding phase_ok_def assms by (rule refl)

text \<open>Waiting for an outcome.\<close>

lemma receive_sound:
  assumes "sound ok ow c"
  shows "sound ok ow (fst (receive_outcome w c))"
proof (cases "wait_result (waiter_at c w)")
  case (Some r)
  define c1 where "c1 = put_waiter w ((waiter_at c w)\<lparr>wait_result := None\<rparr>) c"
  have "core ok ow c1 = core ok ow c" "busy c1 = busy c" by (rule core_agree; simp add: c1_def put_waiter_def)+
  moreover have fo: "forced c1 = forced c" by (rule entry_ok_agree) (simp_all add: c1_def put_waiter_def)
  have "phase_ok c1 = phase_ok c" by (rule phase_agree [OF _ _ _ _ fo calculation(2)]) (simp_all add: c1_def put_waiter_def)
  ultimately show ?thesis using assms Some by (simp add: receive_outcome_def sound_def c1_def) (simp add: put_waiter_def)
qed (use assms in \<open>simp add: receive_outcome_def\<close>)

lemma not_drained_waiter:
  assumes "unsettled ok ow c" "mget (c_entries c) key = Some (wait_entry (waiter_at c w))" "wait_active (waiter_at c w)"
  shows "c_state c \<noteq> Drained"
proof
  assume d: "c_state c = Drained"
  have "works c (wait_entry (waiter_at c w)) = []"
    using drained_idle [OF assms(1) d assms(2)] by (simp add: idle_works_empty)
  moreover have "links c (wait_entry (waiter_at c w))"
    using core_D(1) [OF _ assms(2), of ok ow] assms(1) by (simp add: unsettled_def entry_ok_def)
  ultimately show False using assms(3) unfolding links_def by (metis empty_iff empty_set)
qed

lemma wait_sound:
  assumes "sound ok ow c"
  shows "sound ok ow (fst (waitForProgressOutcome ctxDone key w now c))"
proof -
  let ?e = "wait_entry (waiter_at c w)"
  consider (cancel) "wait_active (waiter_at c w)" "mget (c_entries c) key = Some ?e"
      "fst (waitForProgressOutcome ctxDone key w now c) = fst (resolveCanceledWaiter key ?e w now c)" |
    (stay) "fst (waitForProgressOutcome ctxDone key w now c) = c" |
    (receive) "fst (waitForProgressOutcome ctxDone key w now c) = fst (receive_outcome w c)"
  proof (cases "wait_result (waiter_at c w) = None \<and> ctxDone")
    case True
    have eq: "waitForProgressOutcome ctxDone key w now c = resolveCanceledWaiter key ?e w now c"
      using True by (simp add: waitForProgressOutcome_def)
    show thesis
    proof (cases "wait_active (waiter_at c w)")
      case True
      show thesis
      proof (cases "mget (c_entries c) key = Some ?e")
        case False
        thus thesis by (intro stay) (simp add: eq resolveCanceledWaiter_def True)
      qed (intro cancel, simp_all add: True eq)
    qed (intro receive, simp add: eq resolveCanceledWaiter_def)
  next
    case False
    thus thesis by (intro receive) (auto simp: waitForProgressOutcome_def)
  qed
  thus ?thesis
  proof cases
    case cancel
    have co: "core ok ow c" using assms by (simp add: sound_def)
    note d = core_D [OF co cancel(2)]
    define c' where "c' = fst (resolveCanceledWaiter key ?e w now c)"
    note k = cancel_waiter_ok [OF d(1,3) cancel(1) refl cancel(2) c'_def]
    have nd: "c_state c \<noteq> Drained" by (rule not_drained_waiter [OF sound_unsettled [OF assms] cancel(2,1)])
    have fo: "c_state c = Draining \<Longrightarrow> forced c ?e" using assms d(5) by (auto simp: sound_def phase_ok_def)
    have w: "entry_waiters (entry_at c' ?e) \<le> entry_waiters (entry_at c ?e)"
    proof -
      have "length (waiting c' b) \<le> length (waiting c b)" for b
        using cancel by (auto simp: c'_def resolveCanceledWaiter_def Let_def put_defs releaseWaiterLocked_def length_removeAll_less_eq)
      hence "weight ws (waiting c') \<le> weight ws (waiting c)" for ws
      proof (induction ws)
        case (Cons x ws)
        thus ?case by (cases x) (auto simp: add_mono)
      qed simp
      thus ?thesis using entry_ok_D(4) [OF k(2)] entry_ok_D(4) [OF d(1)] unfolding k(3) by simp
    qed
    have u: "unsettled ok ow c'"
      by (rule site_local [OF sound_unsettled [OF assms] cancel(2) k(1,2) k(4) [OF d(2)] k(5) [OF fo] nd op_ok_waiters [OF k(1) w co]])
    have "c_state c' = c_state c" using k(1) by (simp add: op_ok_def same_site_def)
    moreover have "busy c \<Longrightarrow> busy c'"
    proof -
      have "idle_entry (entry_at c' x) = idle_entry (entry_at c x)" for x
        using k(1,3) by (cases "x = ?e") (simp_all add: idle_works_empty op_ok_def local_change_def)
      thus "busy c \<Longrightarrow> busy c'" using op_ok_local(2) [OF k(1)] by (simp add: busy_def)
    qed
    ultimately show ?thesis using u assms cancel(3) by (simp add: sound_def unsettled_def c'_def)
  qed (use assms receive_sound in simp_all)
qed

text \<open>Timers.\<close>

lemma mark_ok:
  assumes "entry_ok c key e" "BatchWork b \<in> set (work_queue (entry_at c e))"
  defines "c1 \<equiv> put_batch b ((batch_at c b)\<lparr>ready := True, batch_timer := None\<rparr>) c"
  shows "op_ok e c c1" "entry_ok c1 key e"
proof -
  note d = entry_ok_D [OF assms(1)]
  have "local_change e c c1" unfolding local_change_def using assms(2) by (auto simp: c1_def put_batch_def)
  thus "op_ok e c c1" by (simp add: op_ok_def same_site_def c1_def put_batch_def)
  show "entry_ok c1 key e"
  proof (rule entry_ok_same [OF assms(1)])
    show "granted_ok c1 (entry_at c1 e)" using d(6) by (simp add: granted_ok_def c1_def put_batch_def)
    show "batches_ok c1 key e" using d(7) by (auto simp: batches_ok_def due_def c1_def put_batch_def)
    show "timers_ok c1 key e" using d(8) by (auto simp: timers_ok_def c1_def put_batch_def)
  qed (use d(1) in \<open>simp_all add: c1_def put_batch_def\<close>)
qed

lemma mark_sound:
  assumes "sound ok ow c" "t \<in> set (timer_calls c)"
  shows "sound ok ow (markBatchReady (call_key t) (call_entry t) (call_batch t) (call_generation t) c)"
proof (cases "mget (c_entries c) (call_key t) \<noteq> Some (call_entry t) \<or>
    timerGeneration (batch_at c (call_batch t)) \<noteq> call_generation t \<or> ready (batch_at c (call_batch t)) \<or>
    c_state c = Coalescer_Closed")
  case False
  let ?k = "call_key t" and ?e = "call_entry t" and ?b = "call_batch t"
  have k: "mget (c_entries c) ?k = Some ?e" and nr: "\<not> ready (batch_at c ?b)" using False by simp_all
  have co: "core ok ow c" using assms(1) by (simp add: sound_def)
  note d = core_D [OF co k]
  have q: "BatchWork ?b \<in> set (work_queue (entry_at c ?e))"
    using entry_ok_D(8) [OF d(1)] assms(2) nr by (auto simp: timers_ok_def)
  define c1 where "c1 = put_batch ?b ((batch_at c ?b)\<lparr>ready := True, batch_timer := None\<rparr>) c"
  note m = mark_ok [OF d(1) q, folded c1_def]
  note a = advance_ok [OF m(2)]
  note o = op_ok_trans [OF m(1) a(1)]
  have st: "c_state c \<noteq> Draining" "c_state c \<noteq> Drained"
  proof -
    show "c_state c \<noteq> Draining" using assms(1) d(5) q nr by (fastforce simp: sound_def phase_ok_def forced_def)
    show "c_state c \<noteq> Drained" using drained_idle [OF sound_unsettled [OF assms(1)] _ k] q by (auto simp: idle_entry_def)
  qed
  have w: "entry_waiters (entry_at (advanceEntryLocked ?k ?e c1) ?e) \<le> entry_waiters (entry_at c ?e)"
  proof -
    have "weight (works c ?e) (waiting (advanceEntryLocked ?k ?e c1)) = weight (works c ?e) (waiting c)"
      unfolding a(5) by (rule weight_cong) (simp add: c1_def put_batch_def)
    moreover have "works (advanceEntryLocked ?k ?e c1) ?e = works c ?e" unfolding a(4) by (simp add: c1_def put_batch_def)
    ultimately show ?thesis using entry_ok_D(4) [OF a(2)] entry_ok_D(4) [OF d(1)] by simp
  qed
  have "unsettled ok ow (advanceEntryLocked ?k ?e c1)"
    by (rule site_local [OF sound_unsettled [OF assms(1)] k o a(2,3) _ st(2) op_ok_waiters [OF o w co]]) (use st in simp)
  moreover have "c_state (advanceEntryLocked ?k ?e c1) = c_state c" using o by (simp add: op_ok_def same_site_def)
  ultimately show ?thesis using False st by (simp add: markBatchReady_def c1_def sound_def unsettled_def)
qed (use assms(1) in \<open>auto simp: markBatchReady_def\<close>)

text \<open>Barriers.\<close>

lemma cancel_barrier_eq:
  assumes "entry_ok c key e" "covered e c" "mget (c_entries c) key = Some e"
    and "\<not> barrier_released (barrier_at c n)" "\<not> barrier_active (barrier_at c n)"
    and "remove_work n (work_queue (entry_at c e)) = Some q'"
    and v': "v' = (entry_at c e)\<lparr>work_queue := q', activeBarrier := activeBarrier (entry_at c e),
    entry_waiters := entry_waiters (entry_at c e) - 1, lastActivity := now\<rparr>"
    and c1: "c1 = put_entry e v' (put_barrier n ((barrier_at c n)\<lparr>barrier_canceled := True\<rparr>)
      (c\<lparr>c_global := (c_global c)\<lparr>global_waiters := global_waiters (c_global c) - 1\<rparr>\<rparr>))"
  shows "fst (waitForBarrier_done key e n now c) = completeDrainLocked (advanceEntryLocked key e c1)"
    "op_ok e c c1" "entry_ok c1 key e" "waiter_at c1 = waiter_at c" "batch_at c1 = batch_at c" "set q' \<subseteq> set (work_queue (entry_at c e))"
proof -
  note d = entry_ok_D [OF assms(1)]
  obtain xs ys where q: "work_queue (entry_at c e) = xs @ BarrierWork n # ys" "q' = xs @ ys"
    using remove_work_split [OF assms(6)] by blast
  define as where "as = (case activeBatch (entry_at c e) of None \<Rightarrow> [] | Some b \<Rightarrow> [BatchWork b]) @
     (case activeBarrier (entry_at c e) of None \<Rightarrow> [] | Some n \<Rightarrow> [BarrierWork n])"
  have w: "works c e = (as @ xs) @ BarrierWork n # ys" "works_of v' = (as @ xs) @ ys"
    by (simp_all add: works_of_def as_def q v')
  have na: "activeBarrier (entry_at c e) \<noteq> Some n" using d(6) assms(5) by (auto simp: granted_ok_def)
  have pos: "0 < entry_waiters (entry_at c e)" unfolding d(4) w(1) by (simp add: add_nonneg_pos add_pos_nonneg)
  show "set q' \<subseteq> set (work_queue (entry_at c e))" by (auto simp: q)
  note r = drop_barrier_ok [OF assms(1,2) _ v' w _ _ c1]
  have *: "BarrierWork n \<in> set (works c e)" by (simp add: w)
  show "op_ok e c c1" "entry_ok c1 key e" "waiter_at c1 = waiter_at c" "batch_at c1 = batch_at c"
    by (rule r [OF *]; use na q in auto)+
  let ?c2 = "put_barrier n ((barrier_at c n)\<lparr>barrier_canceled := True\<rparr>) (put_entry e ((entry_at c e)\<lparr>work_queue := q'\<rparr>) c)"
  have "0 < entry_waiters (entry_at ?c2 e)" "covered e ?c2" using pos assms(2) by (simp_all add: put_defs covered_def)
  note rw = release_waiter_counts [OF this]
  have "put_entry e ((entry_at (releaseWaiterLocked e ?c2) e)\<lparr>lastActivity := now\<rparr>) (releaseWaiterLocked e ?c2) = c1"
    unfolding rw c1 v' by (simp add: put_defs)
  thus "fst (waitForBarrier_done key e n now c) = completeDrainLocked (advanceEntryLocked key e c1)"
    using assms(3,4,5,6) by (simp add: waitForBarrier_done_def removeBarrierLocked_def Let_def put_defs)
qed

lemma cancel_barrier_sound:
  assumes "sound ok ow c"
  shows "sound ok ow (fst (waitForBarrier_done key e n now c))"
proof (cases "mget (c_entries c) key = Some e \<and> \<not> barrier_released (barrier_at c n) \<and> \<not> barrier_active (barrier_at c n) \<and>
    remove_work n (work_queue (entry_at c e)) \<noteq> None")
  case True
  then obtain q' where q: "remove_work n (work_queue (entry_at c e)) = Some q'" and k: "mget (c_entries c) key = Some e"
    and nb: "\<not> barrier_released (barrier_at c n)" "\<not> barrier_active (barrier_at c n)" by blast
  have co: "core ok ow c" using assms by (simp add: sound_def)
  note d = core_D [OF co k]
  define c1 where "c1 = put_entry e ((entry_at c e)\<lparr>work_queue := q', activeBarrier := activeBarrier (entry_at c e),
    entry_waiters := entry_waiters (entry_at c e) - 1, lastActivity := now\<rparr>)
      (put_barrier n ((barrier_at c n)\<lparr>barrier_canceled := True\<rparr>)
      (c\<lparr>c_global := (c_global c)\<lparr>global_waiters := global_waiters (c_global c) - 1\<rparr>\<rparr>))"
  note x = cancel_barrier_eq [OF d(1,3) k nb q refl c1_def]
  have w: "entry_waiters (entry_at c1 e) \<le> entry_waiters (entry_at c e)" by (simp add: c1_def put_defs)
  have nd: "c_state c \<noteq> Drained"
  proof
    assume "c_state c = Drained"
    from drained_idle [OF sound_unsettled [OF assms] this k] have "work_queue (entry_at c e) = []" by (simp add: idle_entry_def)
    thus False using q by simp
  qed
  note a = advance_ok [OF x(3)]
  note o = op_ok_trans [OF x(2) a(1)]
  have fo: "forced (advanceEntryLocked key e c1) e" if "c_state c = Draining"
  proof -
    have "forced c e" using assms d(5) that by (auto simp: sound_def phase_ok_def)
    moreover have "set (work_queue (entry_at c1 e)) \<subseteq> set (work_queue (entry_at c e))"
      using x(6) by (simp add: c1_def put_defs)
    ultimately show ?thesis using a(5,7) x(5) unfolding forced_def by auto
  qed
  have w2: "entry_waiters (entry_at (advanceEntryLocked key e c1) e) \<le> entry_waiters (entry_at c e)"
    using entry_ok_D(4) [OF a(2)] entry_ok_D(4) [OF x(3)] w unfolding a(4) a(5) by simp
  have "unsettled ok ow (advanceEntryLocked key e c1)"
    by (rule site_local [OF sound_unsettled [OF assms] k o a(2,3) fo nd op_ok_waiters [OF o w2 co]])
  thus ?thesis unfolding x(1) by (rule drain_complete)
next
  case False
  hence "fst (waitForBarrier_done key e n now c) = c"
    by (auto simp: waitForBarrier_done_def removeBarrierLocked_def split: option.splits)
  thus ?thesis using assms by simp
qed

lemma release_barrier_eq:
  assumes "entry_ok c key e" "covered e c" "mget (c_entries c) key = Some e" "activeBarrier (entry_at c e) = Some n"
    and v': "v' = (entry_at c e)\<lparr>work_queue := work_queue (entry_at c e), activeBarrier := None,
      entry_waiters := entry_waiters (entry_at c e) - 1, lastActivity := now\<rparr>"
    and c1: "c1 = put_entry e v' (put_barrier n ((barrier_at c n)\<lparr>barrier_released := True, barrier_active := False\<rparr>)
      (c\<lparr>c_global := (c_global c)\<lparr>global_waiters := global_waiters (c_global c) - 1\<rparr>\<rparr>))"
  shows "releaseBarrier key e n now c = completeDrainLocked (advanceEntryLocked key e (force_if_draining e c1))"
    "op_ok e c c1" "entry_ok c1 key e" "works c e = BarrierWork n # works c1 e" "batch_at c1 = batch_at c"
proof -
  note d = entry_ok_D [OF assms(1)]
  have nb: "activeBatch (entry_at c e) = None" using d(1) assms(4) by simp
  have w: "works c e = [] @ BarrierWork n # work_queue (entry_at c e)" "works_of v' = [] @ work_queue (entry_at c e)"
    using assms(4) nb by (simp_all add: works_of_def v')
  have pos: "0 < entry_waiters (entry_at c e)" unfolding d(4) w(1) by (simp add: add_pos_nonneg)
  have nr: "\<not> barrier_released (barrier_at c n)" using d(6) assms(4) by (simp add: granted_ok_def)
  note r = drop_barrier_ok [OF assms(1,2) _ v' w _ _ c1]
  have *: "BarrierWork n \<in> set (works c e)" by (simp add: w)
  show "op_ok e c c1" "entry_ok c1 key e" "batch_at c1 = batch_at c" by (rule r [OF *]; simp)+
  show "works c e = BarrierWork n # works c1 e" using w by (simp add: c1 put_defs)
  let ?c2 = "put_entry e ((entry_at c e)\<lparr>activeBarrier := None\<rparr>)
    (put_barrier n ((barrier_at c n)\<lparr>barrier_released := True, barrier_active := False\<rparr>) c)"
  have "0 < entry_waiters (entry_at ?c2 e)" "covered e ?c2" using pos assms(2) by (simp_all add: put_defs covered_def)
  note rw = release_waiter_counts [OF this]
  have "put_entry e ((entry_at (releaseWaiterLocked e ?c2) e)\<lparr>lastActivity := now\<rparr>) (releaseWaiterLocked e ?c2) = c1"
    unfolding rw c1 v' by (simp add: put_defs)
  thus "releaseBarrier key e n now c = completeDrainLocked (advanceEntryLocked key e (force_if_draining e c1))"
    using assms(3,4) nr by (simp add: releaseBarrier_def Let_def put_defs)
qed

lemma release_barrier_sound:
  assumes "sound ok ow c"
  shows "sound ok ow (releaseBarrier key e n now c)"
proof (cases "mget (c_entries c) key = Some e \<and> activeBarrier (entry_at c e) = Some n")
  case True
  hence k: "mget (c_entries c) key = Some e" and a: "activeBarrier (entry_at c e) = Some n" by simp_all
  have co: "core ok ow c" using assms by (simp add: sound_def)
  note d = core_D [OF co k]
  define c1 where "c1 = put_entry e ((entry_at c e)\<lparr>work_queue := work_queue (entry_at c e), activeBarrier := None,
      entry_waiters := entry_waiters (entry_at c e) - 1, lastActivity := now\<rparr>)
    (put_barrier n ((barrier_at c n)\<lparr>barrier_released := True, barrier_active := False\<rparr>)
      (c\<lparr>c_global := (c_global c)\<lparr>global_waiters := global_waiters (c_global c) - 1\<rparr>\<rparr>))"
  note x = release_barrier_eq [OF d(1,3) k a refl c1_def]
  have nd: "c_state c \<noteq> Drained" using drained_idle [OF sound_unsettled [OF assms] _ k] a by (auto simp: idle_entry_def)
  show ?thesis unfolding x(1)
    by (rule finish_sound [OF sound_unsettled [OF assms] k x(2,3) _ nd]) (simp add: c1_def put_defs)
qed (use assms in \<open>auto simp: releaseBarrier_def\<close>)

text \<open>The end of a dispatch.\<close>

lemma dispatch_eq:
  assumes "entry_ok c key e" "covered e c" "mget (c_entries c) key = Some e" "activeBatch (entry_at c e) = Some b"
    and outcome: "outcome = \<lparr>Response = fst (dispatchBufferedRequest run), Err = snd (dispatchBufferedRequest run)\<rparr>"
    and c0: "c0 = record_drain_error (snd (dispatchBufferedRequest run)) (release_request (batch_request (batch_at c b)) c)"
    and c1: "c1 = fold (deliver e outcome) (waiting c b) (put_entry e ((entry_at c e)\<lparr>activeBatch := None, lastActivity := now\<rparr>) c0)"
  shows "dispatchBatch key e b run now c = completeDrainLocked (advanceEntryLocked key e (force_if_draining e c1))"
    "op_ok e c c1" "entry_ok c1 key e" "works c e = BatchWork b # works c1 e"
    "waiter_at c1 = answered (waiting c b) outcome (waiter_at c)" "batch_at c1 = batch_at c"
    "cycle_at c1 = cycle_at c0"
proof -
  have f: "entry_at c0 = entry_at c" "batch_at c0 = batch_at c" "barrier_at c0 = barrier_at c" "waiter_at c0 = waiter_at c"
    "fresh c0 = fresh c" "timer_calls c0 = timer_calls c" "dispatches c0 = dispatches c" "c_config c0 = c_config c"
    "c_entries c0 = c_entries c" "c_global c0 = c_global c" "c_state c0 = c_state c" "c_drain c0 = c_drain c"
    "c_admissions c0 = c_admissions c"
    by (simp_all add: c0 record_drain_error_def release_request_def put_cycle_def split: option.splits)
  have eo: "entry_ok c0 key e" using assms(1) by (subst entry_ok_agree; simp add: f)
  have cov: "covered e c0" using assms(2) by (simp add: covered_def f)
  note d = drop_batch_ok [OF eo cov _ c1 [folded f(1,2)], unfolded f, OF assms(4)]
  have o: "op_ok e c c0" by (simp add: op_ok_def local_change_def same_site_def f)
  show "op_ok e c c1" by (rule op_ok_trans [OF o]) (use d(1) in \<open>simp add: f\<close>)
  show "entry_ok c1 key e" "works c e = BatchWork b # works c1 e" "waiter_at c1 = answered (waiting c b) outcome (waiter_at c)"
    "batch_at c1 = batch_at c" "cycle_at c1 = cycle_at c0" using d by (simp_all add: f)
  have sw: "record_drain_error err (put_entry e v c') = put_entry e v (record_drain_error err c')" for err v c'
    by (simp add: record_drain_error_def put_defs split: option.splits)
  show "dispatchBatch key e b run now c = completeDrainLocked (advanceEntryLocked key e (force_if_draining e c1))"
    using assms(3,4) unfolding c1 c0 outcome
    by (simp add: dispatchBatch_def Let_def split_beta sw) (simp add: release_request_def)
qed

lemma dispatch_sound:
  assumes "sound ok ow c"
  shows "sound ok ow (dispatchBatch key e b run now c)"
proof (cases "mget (c_entries c) key = Some e \<and> activeBatch (entry_at c e) = Some b")
  case True
  hence k: "mget (c_entries c) key = Some e" and a: "activeBatch (entry_at c e) = Some b" by simp_all
  have co: "core ok ow c" using assms by (simp add: sound_def)
  note d = core_D [OF co k]
  define outcome where "outcome = \<lparr>Response = fst (dispatchBufferedRequest run), Err = snd (dispatchBufferedRequest run)\<rparr>"
  define c1 where "c1 = fold (deliver e outcome) (waiting c b) (put_entry e ((entry_at c e)\<lparr>activeBatch := None, lastActivity := now\<rparr>)
    (record_drain_error (snd (dispatchBufferedRequest run)) (release_request (batch_request (batch_at c b)) c)))"
  note x = dispatch_eq [OF d(1,3) k a outcome_def refl c1_def]
  have nd: "c_state c \<noteq> Drained" using drained_idle [OF sound_unsettled [OF assms] _ k] a by (auto simp: idle_entry_def)
  have w: "entry_waiters (entry_at c1 e) \<le> entry_waiters (entry_at c e)"
    using entry_ok_D(4) [OF x(3)] entry_ok_D(4) [OF d(1)] unfolding x(4) x(6) by simp
  show ?thesis unfolding x(1) by (rule finish_sound [OF sound_unsettled [OF assms] k x(2,3) w nd])
next
  case False
  define c1 where "c1 = release_request (batch_request (batch_at c b)) c"
  have f: "forced c1 = forced c" by (rule entry_ok_agree) (simp_all add: c1_def release_request_def)
  have bc: "core ok ow c1 = core ok ow c" "busy c1 = busy c" by (rule core_agree; simp add: c1_def release_request_def)+
  have "phase_ok c1 = phase_ok c" by (rule phase_agree [OF _ _ _ _ f bc(2)]) (simp_all add: c1_def release_request_def)
  moreover have "dispatchBatch key e b run now c = c1" 
    using False by (auto simp: dispatchBatch_def Let_def c1_def release_request_def split: prod.splits)
  ultimately show ?thesis using assms bc by (simp add: sound_def) (simp add: c1_def release_request_def)
qed

text \<open>A key gets its entry.\<close>

lemma fresh_entry_ok:
  assumes "core ok ow c" "c' = put_entry (fresh c)
      \<lparr>work_queue = [], activeBatch = None, activeBarrier = None, entry_waiters = 0, lastActivity = now\<rparr>
      (c\<lparr>c_global := g, c_entries := ents, fresh := Suc (fresh c)\<rparr>)"
  shows "entry_ok c' key (fresh c)" "advanced c' (fresh c)"
proof -
  have t: "table_ok c" using assms(1) by (simp add: core_def)
  have f: "waiter_at c' = waiter_at c" "timer_calls c' = timer_calls c" "dispatches c' = dispatches c"
    and v: "entry_at c' (fresh c) = \<lparr>work_queue = [], activeBatch = None, activeBarrier = None, entry_waiters = 0, lastActivity = now\<rparr>"
    by (simp_all add: assms(2) put_entry_def)
  have "links c' (fresh c)" using t unfolding links_def f v by (auto simp: works_of_def table_ok_def)
  moreover have "timers_ok c' key (fresh c)" using t unfolding timers_ok_def f by (auto simp: table_ok_def)
  ultimately show "entry_ok c' key (fresh c)"
    by (simp add: entry_ok_def v works_of_def queue_ok_def granted_ok_def batches_ok_def)
  show "advanced c' (fresh c)" by (simp add: advanced_def v)
qed

lemma getOrCreate_ok:
  assumes "core ok ow c" "getOrCreateEntryLocked key now c = (c', r, created)"
  shows "core ok ow c'" "c_state c' = c_state c" "c_drain c' = c_drain c" "c_admissions c' = c_admissions c"
    "c_config c' = c_config c" "r = None \<Longrightarrow> c' = c" "\<And>e. r = Some e \<Longrightarrow> mget (c_entries c') key = Some e"
    "\<And>e. r = Some e \<Longrightarrow> created \<Longrightarrow> idle_entry (entry_at c' e)" "\<And>w. waiter_at c' w = waiter_at c w"
    "c_entries c' = c_entries c \<or> created"
proof -
  have t: "table_ok c" and eo: "entries_ok c" and b: "books ok ow c" using assms(1) by (simp_all add: core_def)
  have "core ok ow c' \<and> c_state c' = c_state c \<and> c_drain c' = c_drain c \<and> c_admissions c' = c_admissions c \<and>
    c_config c' = c_config c \<and> (r = None \<longrightarrow> c' = c) \<and> (\<forall>e. r = Some e \<longrightarrow> mget (c_entries c') key = Some e) \<and>
    (\<forall>e. r = Some e \<longrightarrow> created \<longrightarrow> idle_entry (entry_at c' e)) \<and> (\<forall>w. waiter_at c' w = waiter_at c w) \<and>
    (c_entries c' = c_entries c \<or> created)"
  proof (cases "mget (c_entries c) key")
    case (Some e)
    hence "c' = c" "r = Some e" "\<not> created" using assms(2) by (auto simp: getOrCreateEntryLocked_def)
    thus ?thesis using assms(1) Some by simp
  next
    case None
    obtain g res where rk: "reserveKey (c_global c) = (g, res)" by (cases "reserveKey (c_global c)")
    have g: "g = (c_global c)\<lparr>activeKeys := activeKeys (c_global c) + (if res then 1 else 0)\<rparr> \<and>
        (res \<longrightarrow> activeKeys g \<le> maxActiveKeys (c_global c))"
      by (rule reserveKey_spec [OF rk]) (use b in \<open>simp add: books_def\<close>)
    show ?thesis
    proof (cases "maxSiteKeys (c_config c) \<le> 0 \<or> maxSiteKeys (c_config c) \<le> int (length (c_entries c)) \<or> \<not> res")
      case True
      hence "c' = c" "r = None" "\<not> created" using assms(2) None rk g
        by (auto simp: getOrCreateEntryLocked_def split: if_split_asm)
      thus ?thesis using assms(1) by simp
    next
      case False
      let ?v = "\<lparr>work_queue = [], activeBatch = None, activeBarrier = None, entry_waiters = 0, lastActivity = now\<rparr>"
      have c': "c' = put_entry (fresh c) ?v
          (c\<lparr>c_global := g, c_entries := mput key (fresh c) (c_entries c), fresh := Suc (fresh c)\<rparr>)"
        and r: "r = Some (fresh c)" "created"
        using assms(2) None rk False by (auto simp: getOrCreateEntryLocked_def)
      have m: "c_entries c' = c_entries c @ [(key, fresh c)]"
        using None by (simp add: c' put_entry_def mget_None_iff update_fresh)
      have eg: "activeKeys g = activeKeys (c_global c) + 1" "maxActiveKeys g = maxActiveKeys (c_global c)"
        "global_waiters g = global_waiters (c_global c)" "maxWaiters g = maxWaiters (c_global c)"
        "activeKeys g \<le> maxActiveKeys (c_global c)" using g False by auto
      have lt: "e < fresh c" if "(k, e) \<in> set (c_entries c)" for k e using t that by (auto simp: table_ok_def)
      have f: "waiter_at c' = waiter_at c" "timer_calls c' = timer_calls c" "dispatches c' = dispatches c"
        "batch_at c' = batch_at c" "barrier_at c' = barrier_at c" "c_config c' = c_config c" "fresh c' = Suc (fresh c)"
        "c_global c' = g" by (simp_all add: c' put_entry_def)
      have same: "entry_at c' e = entry_at c e" if "(k, e) \<in> set (c_entries c)" for k e
        using lt [OF that] by (simp add: c' put_entry_def)
      have old: "entry_ok c' k e \<and> advanced c' e" if "(k, e) \<in> set (c_entries c)" for k e
      proof -
        have ek: "entry_ok c k e" "advanced c e" using eo that by (auto simp: entries_ok_def)
        note d = entry_ok_D [OF ek(1)]
        have "entry_ok c' k e"
        proof (rule entry_ok_same [OF ek(1)])
          show "granted_ok c' (entry_at c' e)" using d(6) by (simp add: granted_ok_def f same [OF that])
          show "batches_ok c' k e" using d(7) by (simp add: batches_ok_def due_def f same [OF that])
          show "timers_ok c' k e" using d(8) by (auto simp: timers_ok_def f same [OF that])
        qed (use d(1) in \<open>simp_all add: f same [OF that]\<close>)
        moreover have "advanced c' e" using ek(2) unfolding advanced_def f same [OF that] .
        ultimately show ?thesis by simp
      qed
      note new = fresh_entry_ok(1) [OF assms(1) c', where key = key] fresh_entry_ok(2) [OF assms(1) c']
      have wn: "works c' (fresh c) = []" by (simp add: c' put_entry_def works_of_def)
      have "table_ok c'" unfolding table_ok_def m f
      proof (intro conjI)
        show "mwf (c_entries c @ [(key, fresh c)])" using t None by (simp add: table_ok_def mwf_def mget_None_iff image_iff)
        show "distinct (map snd (c_entries c @ [(key, fresh c)]))" using t lt by (fastforce simp: table_ok_def)
      qed (use t False in \<open>auto simp: table_ok_def less_SucI\<close>)
      moreover have "entries_ok c'" unfolding entries_ok_def m
      proof (intro conjI)
        show "\<forall>(k, e)\<in>set (c_entries c @ [(key, fresh c)]). entry_ok c' k e \<and> advanced c' e" using old new by auto
        show "\<forall>(k, e)\<in>set (c_entries c @ [(key, fresh c)]). \<forall>(k', e')\<in>set (c_entries c @ [(key, fresh c)]).
            e \<noteq> e' \<longrightarrow> set (works c' e) \<inter> set (works c' e') = {}"
        proof (intro ballI, clarify)
          fix k e k' e' assume x: "(k, e) \<in> set (c_entries c @ [(key, fresh c)])"
            "(k', e') \<in> set (c_entries c @ [(key, fresh c)])" "e \<noteq> e'"
          show "set (works c' e) \<inter> set (works c' e') = {}"
          proof (cases "e = fresh c \<or> e' = fresh c")
            case False
            hence "(k, e) \<in> set (c_entries c)" "(k', e') \<in> set (c_entries c)" using x by auto
            thus ?thesis using eo x(3) same unfolding entries_ok_def by fastforce
          qed (use wn in auto)
        qed
      qed
      moreover have "books ok ow c'"
      proof -
        have "msum (\<lambda>key e. entry_waiters (entry_at c' e)) (c_entries c) = site_waiters c"
          unfolding site_waiters_def msum_def
          by (rule arg_cong [where f = sum_list], rule map_cong [OF refl]) (use same in \<open>auto\<close>)
        hence "site_waiters c' = site_waiters c"
          unfolding site_waiters_def [of c'] m by (simp add: msum_def) (simp add: c' put_entry_def)
        thus ?thesis using b eg by (simp add: books_def f m)
      qed
      ultimately have "core ok ow c'" by (simp add: core_def)
      moreover have "mget (c_entries c') key = Some (fresh c)" using None by (simp add: c' put_entry_def)
      ultimately show ?thesis using r by (simp add: idle_entry_def) (simp add: c' put_entry_def)
    qed
  qed
  thus "core ok ow c'" "c_state c' = c_state c" "c_drain c' = c_drain c" "c_admissions c' = c_admissions c"
    "c_config c' = c_config c" "r = None \<Longrightarrow> c' = c" "\<And>e. r = Some e \<Longrightarrow> mget (c_entries c') key = Some e"
    "\<And>e. r = Some e \<Longrightarrow> created \<Longrightarrow> idle_entry (entry_at c' e)" "\<And>w. waiter_at c' w = waiter_at c w"
    "c_entries c' = c_entries c \<or> created" by blast+
qed

text \<open>A request was refused.\<close>

lemma refused_sound:
  assumes "core ok ow c" "phase_ok c" "c_state c \<noteq> Draining" "created \<Longrightarrow> idle_entry (entry_at c e)"
    and "mget (c_entries c) key = Some e"
  shows "sound ok ow (releaseEmptyNewEntryLocked key e created c)"
proof (cases "created \<and> entry_waiters (entry_at c e) = 0")
  case True
  note dc = delete_core [OF assms(1,5)]
  have i: "idle_entry (entry_at c e)" using True assms(4) by simp
  have "releaseEmptyNewEntryLocked key e created c = delete_entry key c"
    using True i assms(5) by (simp add: releaseEmptyNewEntryLocked_def)
  moreover have "c_state (delete_entry key c) = c_state c" by (simp add: delete_entry_def)
  ultimately show ?thesis using dc(1) [OF i] delete_phase [OF assms(2) dc(3) [OF i]] assms(3) by (simp add: sound_def)
next
  case False
  hence "releaseEmptyNewEntryLocked key e created c = c" by (auto simp: releaseEmptyNewEntryLocked_def)
  thus ?thesis using assms by (simp add: sound_def)
qed

lemma accepted_phase:
  assumes "phase_ok c" "accepts c" "c_state c' = c_state c" "c_drain c' = c_drain c" "c_admissions c' = c_admissions c"
  shows "phase_ok c'" "c_state c' \<noteq> Draining" "c_state c' \<noteq> Drained"
  using assms by (auto simp: phase_ok_def accepts_def)

lemma reserve_waiter_cases:
  assumes "reserveWaiterLocked e c = (c2, r)"
  shows "if r then c2 = put_entry e ((entry_at c e)\<lparr>entry_waiters := entry_waiters (entry_at c e) + 1\<rparr>)
      (c\<lparr>c_global := (c_global c)\<lparr>global_waiters := global_waiters (c_global c) + 1\<rparr>\<rparr>) \<and>
      entry_waiters (entry_at c e) + 1 \<le> maxWaitersPerKey (c_config c) \<and>
      global_waiters (c_global c) + 1 \<le> max 0 (maxWaiters (c_global c))
    else c2 = c"
  using assms by (auto simp: reserveWaiterLocked_def reserveWaiter_def split: if_split_asm)

lemma last_batch_waiters [simp]: "last_batch (v\<lparr>entry_waiters := n\<rparr>) = last_batch v"
  by (simp add: last_batch_def)

text \<open>An update that was accepted.\<close>

lemma enqueue_update_eq:
  assumes "entry_ok c key e" "reserveWaiterLocked e c = (c2, True)"
    and "(c3, b) = join_batch e request now (c2\<lparr>fresh := Suc (fresh c2)\<rparr>)"
    and "c4 = put_waiter (fresh c2) \<lparr>wait_result = None, wait_batch = b, wait_entry = e, wait_active = True\<rparr> c3"
    and "c5 = put_batch b ((batch_at c4 b)\<lparr>batch_waiters := batch_waiters (batch_at c4 b) @ [fresh c2]\<rparr>) c4"
    and "c6 = put_entry e ((entry_at c5 e)\<lparr>lastActivity := now\<rparr>) c5"
  shows "op_ok e c (scheduleBatchLocked key e b now c6)" "entry_ok (scheduleBatchLocked key e b now c6) key e"
    "entry_waiters (entry_at (scheduleBatchLocked key e b now c6) e) = entry_waiters (entry_at c e) + 1"
    "fresh c2 = fresh c" "waiter_at (scheduleBatchLocked key e b now c6) =
      (waiter_at c)(fresh c := \<lparr>wait_result = None, wait_batch = b, wait_entry = e, wait_active = True\<rparr>)"
    "global_waiters (c_global (scheduleBatchLocked key e b now c6)) = global_waiters (c_global c) + 1"
    "batch_request (batch_at (scheduleBatchLocked key e b now c6) b) = request"
    "waiting (scheduleBatchLocked key e b now c6) b =
      (case last_batch (entry_at c e) of None \<Rightarrow> [] | Some b \<Rightarrow> waiting c b) @ [fresh c]"
    "works (scheduleBatchLocked key e b now c6) e =
      works c e @ (case last_batch (entry_at c e) of None \<Rightarrow> [BatchWork b] | Some b \<Rightarrow> [])"
    "last_batch (entry_at c e) = None \<and> b = Suc (fresh c) \<or> last_batch (entry_at c e) = Some b"
proof -
  have c2: "c2 = put_entry e ((entry_at c e)\<lparr>entry_waiters := entry_waiters (entry_at c e) + 1\<rparr>)
      (c\<lparr>c_global := (c_global c)\<lparr>global_waiters := global_waiters (c_global c) + 1\<rparr>\<rparr>)"
    and lim: "entry_waiters (entry_at c e) + 1 \<le> maxWaitersPerKey (c_config c)"
    using reserve_waiter_cases [OF assms(2)] by simp_all
  show "fresh c2 = fresh c" by (simp add: c2 put_entry_def)
  define w where "w = fresh c"
  let ?v = "entry_at c e"
  have lb: "last_batch (entry_at (c2\<lparr>fresh := Suc (fresh c2)\<rparr>) e) = last_batch ?v"
    by (simp add: c2 put_entry_def last_batch_def)
  define v0 where "v0 = (case last_batch ?v of
      None \<Rightarrow> \<lparr>batch_request = request, batch_waiters = [w], firstArrival = now, lastArrival = now, ready = False,
        batch_timer = None, timerGeneration = 0\<rparr>
    | Some x \<Rightarrow> (batch_at c x)\<lparr>batch_request := request, lastArrival := now, batch_waiters := waiting c x @ [w]\<rparr>)"
  define q' where "q' = (case last_batch ?v of None \<Rightarrow> work_queue ?v @ [BatchWork (Suc w)] | Some x \<Rightarrow> work_queue ?v)"
  define f' where "f' = (case last_batch ?v of None \<Rightarrow> Suc (Suc w) | Some x \<Rightarrow> Suc w)"
  define rq where "rq = (case last_batch ?v of None \<Rightarrow> request_at c | Some x \<Rightarrow>
    (request_at c)(batch_request (batch_at c x) := (request_at c (batch_request (batch_at c x)))\<lparr>request_released := True\<rparr>))"
  have b: "b = (case last_batch ?v of None \<Rightarrow> Suc w | Some x \<Rightarrow> x)"
    using assms(3) lb by (auto simp: join_batch_def c2 put_entry_def w_def split: option.splits)
  let ?g = "(c_global c)\<lparr>global_waiters := global_waiters (c_global c) + 1\<rparr>"
  let ?w = "\<lparr>wait_result = None, wait_batch = b, wait_entry = e, wait_active = True\<rparr>"
  have c6: "c6 = c\<lparr>c_global := ?g, batch_at := (batch_at c)(b := v0), waiter_at := (waiter_at c)(w := ?w),
      entry_at := (entry_at c)(e := ?v\<lparr>work_queue := q', entry_waiters := entry_waiters ?v + 1, lastActivity := now\<rparr>),
      fresh := f', request_at := rq\<rparr>"
    using assms(3) unfolding assms(6,5,4) b
    by (cases "last_batch ?v")
      (auto intro!: progressCoalescer.equality progressEntry.equality
        simp: join_batch_def put_defs v0_def q'_def f'_def rq_def w_def c2 fun_eq_iff)
  have la: "lastArrival (batch_at c6 b) = now" by (simp add: c6 v0_def split: option.splits)
  obtain v ts where s: "scheduleBatchLocked key e b now c6 = c6\<lparr>batch_at := (batch_at c6)(b := v), timer_calls := timer_calls c6 @ ts\<rparr>"
    "v = (batch_at c6 b)\<lparr>ready := ready v, batch_timer := batch_timer v, timerGeneration := timerGeneration v\<rparr>"
    "ready v \<or> due (scheduleBatchLocked key e b now c6) key e b" "ready (batch_at c6 b) \<Longrightarrow> ready v"
    "\<And>t. t \<in> set ts \<Longrightarrow> call_key t = key \<and> call_entry t = e \<and> call_batch t = b"
    by (rule schedule_form [OF la, where key = key and e = e]) (rule that)
  have v: "batch_waiters v = batch_waiters v0" "batch_request v = batch_request v0" by (subst s(2), simp add: c6)+
  have eq: "scheduleBatchLocked key e b now c6 = c\<lparr>c_global := ?g, batch_at := (batch_at c)(b := v),
      waiter_at := (waiter_at c)(w := ?w),
      entry_at := (entry_at c)(e := ?v\<lparr>work_queue := q', entry_waiters := entry_waiters ?v + 1, lastActivity := now\<rparr>),
      fresh := f', timer_calls := timer_calls c @ ts, request_at := rq\<rparr>"
    unfolding s(1) by (simp add: c6)
  have alt: "b = Suc w \<and> q' = work_queue ?v @ [BatchWork b] \<and> f' = Suc b \<and> batch_waiters v = [w] \<or>
      last_batch ?v = Some b \<and> q' = work_queue ?v \<and> f' = Suc w \<and> batch_waiters v = waiting c b @ [w] \<and>
      (ready (batch_at c b) \<longrightarrow> ready v)"
    using s(4) unfolding v by (cases "last_batch ?v") (auto simp: b q'_def f'_def v0_def c6)
  note a = add_update_ok [OF assms(1) w_def lim alt eq s(3,5)]
  show "op_ok e c (scheduleBatchLocked key e b now c6)" by (rule a(1))
  show "entry_ok (scheduleBatchLocked key e b now c6) key e" by (rule a(2))
  show "entry_waiters (entry_at (scheduleBatchLocked key e b now c6) e) = entry_waiters (entry_at c e) + 1"
    "waiter_at (scheduleBatchLocked key e b now c6) = (waiter_at c)(fresh c := ?w)"
    "global_waiters (c_global (scheduleBatchLocked key e b now c6)) = global_waiters (c_global c) + 1"
    by (simp_all add: eq w_def)
  show "batch_request (batch_at (scheduleBatchLocked key e b now c6) b) = request"
    by (simp add: eq v v0_def split: option.splits)
  show "waiting (scheduleBatchLocked key e b now c6) b =
      (case last_batch (entry_at c e) of None \<Rightarrow> [] | Some b \<Rightarrow> waiting c b) @ [fresh c]"
    by (simp add: eq v v0_def w_def split: option.splits)
  show "works (scheduleBatchLocked key e b now c6) e =
      works c e @ (case last_batch (entry_at c e) of None \<Rightarrow> [BatchWork b] | Some b \<Rightarrow> [])"
  proof -
    have e: "entry_at (scheduleBatchLocked key e b now c6) e =
        ?v\<lparr>work_queue := q', entry_waiters := entry_waiters ?v + 1, lastActivity := now\<rparr>" by (simp add: eq)
    show ?thesis unfolding e by (cases "last_batch ?v") (simp_all add: works_of_def q'_def b)
  qed
  show "last_batch (entry_at c e) = None \<and> b = Suc (fresh c) \<or> last_batch (entry_at c e) = Some b"
    by (simp add: b w_def split: option.splits)
qed

text \<open>A request is filed.\<close>

lemma works_weight_less: "op_ok e c c' \<Longrightarrow> global_waiters (c_global c') - entry_waiters (entry_at c' e) =
    global_waiters (c_global c) - entry_waiters (entry_at c e)"
  by (simp add: op_ok_def same_site_def)

lemma advance_waiters:
  assumes "entry_ok c key e"
  shows "entry_waiters (entry_at (advanceEntryLocked key e c) e) = entry_waiters (entry_at c e)"
  using entry_ok_D(4) [OF assms] entry_ok_D(4) [OF advance_ok(2) [OF assms]] advance_ok(4,5) [OF assms] by simp

lemma added_sound:
  assumes "core ok ow c" "mget (c_entries c) key = Some e" "op_ok e c c1" "entry_ok c1 key e"
    and "entry_waiters (entry_at c1 e) = entry_waiters (entry_at c e) + 1"
    and "global_waiters (c_global c) + 1 \<le> max 0 (maxWaiters (c_global c))" "phase_ok c" "accepts c"
  shows "sound ok ow (advanceEntryLocked key e c1)"
proof -
  note a = advance_ok [OF assms(4)]
  note o = op_ok_trans [OF assms(3) a(1)]
  have "global_waiters (c_global (advanceEntryLocked key e c1)) = global_waiters (c_global c) + 1"
    using works_weight_less [OF o] advance_waiters [OF assms(4)] assms(5) by simp
  hence "core ok ow (advanceEntryLocked key e c1)"
    by (intro site_core(1) [OF assms(1,2) o a(2,3)]) (use assms(6) in simp)
  moreover have "c_state (advanceEntryLocked key e c1) = c_state c" "c_drain (advanceEntryLocked key e c1) = c_drain c"
    "c_admissions (advanceEntryLocked key e c1) = c_admissions c" using o by (simp_all add: op_ok_def same_site_def)
  note accepted_phase [OF assms(7,8) this]
  ultimately show ?thesis by (simp add: sound_def)
qed

lemma update_sound:
  assumes "core ok ow c0" "phase_ok c0" "c_state c0 = Draining \<longrightarrow> busy c0"
  shows "sound ok ow (fst (enqueueUpdate key request now c0))"
proof (cases "accepts c0")
  case True
  obtain c1 r created where g: "getOrCreateEntryLocked key now c0 = (c1, r, created)"
    by (cases "getOrCreateEntryLocked key now c0")
  note go = getOrCreate_ok [OF assms(1) g]
  note ph = accepted_phase [OF assms(2) True go(2,3,4)]
  show ?thesis
  proof (cases r)
    case None
    thus ?thesis using go(1) ph g True by (simp add: enqueueUpdate_def sound_def)
  next
    case (Some e)
    have k: "mget (c_entries c1) key = Some e" by (rule go(7) [OF Some])
    obtain c2 res where rw: "reserveWaiterLocked e c1 = (c2, res)" by (cases "reserveWaiterLocked e c1")
    note rc = reserve_waiter_cases [OF rw]
    show ?thesis
    proof (cases res)
      case False
      hence "c2 = c1" using rc by simp
      hence "fst (enqueueUpdate key request now c0) = releaseEmptyNewEntryLocked key e created c1"
        using True g Some rw False by (simp add: enqueueUpdate_def)
      thus ?thesis using refused_sound [OF go(1) ph(1,2) go(8) [OF Some] k] by simp
    next
      case ok: True
      obtain c3 b where j: "join_batch e request now (c2\<lparr>fresh := Suc (fresh c2)\<rparr>) = (c3, b)"
        by (cases "join_batch e request now (c2\<lparr>fresh := Suc (fresh c2)\<rparr>)")
      define c4 where "c4 = put_waiter (fresh c2) \<lparr>wait_result = None, wait_batch = b, wait_entry = e, wait_active = True\<rparr> c3"
      define c5 where "c5 = put_batch b ((batch_at c4 b)\<lparr>batch_waiters := batch_waiters (batch_at c4 b) @ [fresh c2]\<rparr>) c4"
      define c6 where "c6 = put_entry e ((entry_at c5 e)\<lparr>lastActivity := now\<rparr>) c5"
      have eq: "fst (enqueueUpdate key request now c0) = advanceEntryLocked key e (scheduleBatchLocked key e b now c6)"
        using True g Some rw ok j by (simp add: enqueueUpdate_def Let_def c4_def c5_def c6_def)
      note d = core_D [OF go(1) k]
      note u = enqueue_update_eq [OF d(1) rw [unfolded eqTrueI [OF ok]] j [symmetric] c4_def c5_def c6_def]
      have acc: "accepts c1" using True go(2) by (simp add: accepts_def)
      show ?thesis unfolding eq
        by (rule added_sound [OF go(1) k u(1,2,3) _ ph(1) acc]) (use rc ok in simp)
    qed
  qed
qed (use assms in \<open>simp add: enqueueUpdate_def sound_def\<close>)

lemma enqueue_barrier_eq:
  assumes "entry_ok c key e" "reserveWaiterLocked e c = (c2, True)"
    and "c3 = put_barrier (fresh c2)
      \<lparr>granted = False, barrier_active = False, barrier_canceled = False, barrier_released = False\<rparr> (c2\<lparr>fresh := Suc (fresh c2)\<rparr>)"
    and "c4 = forceQueuedBatchesLocked e c3"
    and "c5 = put_entry e ((entry_at c4 e)
      \<lparr>work_queue := work_queue (entry_at c4 e) @ [BarrierWork (fresh c2)], lastActivity := now\<rparr>) c4"
  shows "op_ok e c c5" "entry_ok c5 key e" "entry_waiters (entry_at c5 e) = entry_waiters (entry_at c e) + 1"
    "fresh c2 = fresh c" "works c5 e = works c e @ [BarrierWork (fresh c)]" "waiter_at c5 = waiter_at c" "forced c5 e"
proof -
  have c2: "c2 = put_entry e ((entry_at c e)\<lparr>entry_waiters := entry_waiters (entry_at c e) + 1\<rparr>)
      (c\<lparr>c_global := (c_global c)\<lparr>global_waiters := global_waiters (c_global c) + 1\<rparr>\<rparr>)"
    and lim: "entry_waiters (entry_at c e) + 1 \<le> maxWaitersPerKey (c_config c)"
    using reserve_waiter_cases [OF assms(2)] by simp_all
  show f2: "fresh c2 = fresh c" by (simp add: c2 put_entry_def)
  define f where "f = forceQueuedBatchesLocked e c"
  note fo = force_ok [OF assms(1), folded f_def]
  have f: "f = c\<lparr>batch_at := fold force_heap_step (work_queue (entry_at c e)) (batch_at c)\<rparr>"
    by (simp add: f_def forceQueuedBatchesLocked_def force_heap)
  have c5: "c5 = f\<lparr>c_global := (c_global f)\<lparr>global_waiters := global_waiters (c_global f) + 1\<rparr>,
      barrier_at := (barrier_at f)(fresh c := \<lparr>granted = False, barrier_active = False, barrier_canceled = False, barrier_released = False\<rparr>),
      entry_at := (entry_at f)(e := (entry_at f e)\<lparr>work_queue := work_queue (entry_at f e) @ [BarrierWork (fresh c)],
        entry_waiters := entry_waiters (entry_at f e) + 1, lastActivity := now\<rparr>), fresh := Suc (fresh c)\<rparr>"
    unfolding assms(5,4,3) f forceQueuedBatchesLocked_def force_heap
    by (auto intro!: progressCoalescer.equality progressEntry.equality simp: put_defs c2 fun_eq_iff)
  have lf: "fresh c = fresh f" "entry_waiters (entry_at f e) + 1 \<le> maxWaitersPerKey (c_config f)" using lim by (simp_all add: f)
  note a = add_barrier_ok [OF fo(2) lf c5]
  show "op_ok e c c5" by (rule op_ok_trans [OF fo(1) a(1)])
  show "entry_ok c5 key e" by (rule a(2))
  show "works c5 e = works c e @ [BarrierWork (fresh c)]" unfolding a(3) by (simp add: f)
  show "entry_waiters (entry_at c5 e) = entry_waiters (entry_at c e) + 1" "waiter_at c5 = waiter_at c" by (simp_all add: c5 f)
  show "forced c5 e" using fo(3) by (auto simp: forced_def c5)
qed

lemma barrier_sound:
  assumes "core ok ow c0" "phase_ok c0" "c_state c0 = Draining \<longrightarrow> busy c0"
  shows "sound ok ow (fst (enqueueBarrier key now c0))"
proof (cases "accepts c0")
  case True
  obtain c1 r created where g: "getOrCreateEntryLocked key now c0 = (c1, r, created)"
    by (cases "getOrCreateEntryLocked key now c0")
  note go = getOrCreate_ok [OF assms(1) g]
  note ph = accepted_phase [OF assms(2) True go(2,3,4)]
  show ?thesis
  proof (cases r)
    case None
    thus ?thesis using go(1) ph g True by (simp add: enqueueBarrier_def sound_def)
  next
    case (Some e)
    have k: "mget (c_entries c1) key = Some e" by (rule go(7) [OF Some])
    obtain c2 res where rw: "reserveWaiterLocked e c1 = (c2, res)" by (cases "reserveWaiterLocked e c1")
    note rc = reserve_waiter_cases [OF rw]
    show ?thesis
    proof (cases res)
      case False
      hence "c2 = c1" using rc by simp
      hence "fst (enqueueBarrier key now c0) = releaseEmptyNewEntryLocked key e created c1"
        using True g Some rw False by (simp add: enqueueBarrier_def)
      thus ?thesis using refused_sound [OF go(1) ph(1,2) go(8) [OF Some] k] by simp
    next
      case ok: True
      define c3 where "c3 = put_barrier (fresh c2)
        \<lparr>granted = False, barrier_active = False, barrier_canceled = False, barrier_released = False\<rparr> (c2\<lparr>fresh := Suc (fresh c2)\<rparr>)"
      define c4 where "c4 = forceQueuedBatchesLocked e c3"
      define c5 where "c5 = put_entry e ((entry_at c4 e)
        \<lparr>work_queue := work_queue (entry_at c4 e) @ [BarrierWork (fresh c2)], lastActivity := now\<rparr>) c4"
      have eq: "fst (enqueueBarrier key now c0) = advanceEntryLocked key e c5"
        using True g Some rw ok by (simp add: enqueueBarrier_def Let_def c3_def c4_def c5_def)
      note d = core_D [OF go(1) k]
      note u = enqueue_barrier_eq [OF d(1) rw [unfolded eqTrueI [OF ok]] c3_def c4_def c5_def]
      have acc: "accepts c1" using True go(2) by (simp add: accepts_def)
      show ?thesis unfolding eq
        by (rule added_sound [OF go(1) k u(1,2,3) _ ph(1) acc]) (use rc ok in simp)
    qed
  qed
qed (use assms in \<open>simp add: enqueueBarrier_def sound_def\<close>)

lemma release_request_sound: "sound ok ow c \<Longrightarrow> sound ok ow (release_request r c)"
proof -
  assume s: "sound ok ow c"
  have f: "forced (release_request r c) = forced c" by (rule entry_ok_agree) (simp_all add: release_request_def)
  have bc: "core ok ow (release_request r c) = core ok ow c" "busy (release_request r c) = busy c"
    by (rule core_agree; simp add: release_request_def)+
  have "phase_ok (release_request r c) = phase_ok c"
    by (rule phase_agree [OF _ _ _ _ f bc(2)]) (simp_all add: release_request_def)
  thus ?thesis using s bc by (simp add: sound_def) (simp add: release_request_def)
qed

lemma file_sound:
  assumes "sound ok ow c"
  shows "sound ok ow (fst (ServeHTTP_file lib r kind now c))"
proof -
  obtain r' p where rb: "readProgressRequestBody r = (r', p)" by (cases "readProgressRequestBody r")
  have s: "core ok ow c" "phase_ok c" "c_state c = Draining \<longrightarrow> busy c" using assms by (simp_all add: sound_def)
  show ?thesis
  proof (cases "p = None \<or> request_key lib (c_global c) r' (the p) = None")
    case True
    hence "fst (ServeHTTP_file lib r kind now c) = c" by (auto simp: ServeHTTP_file_def rb split: option.splits)
    thus ?thesis using assms by simp
  next
    case False
    then obtain payload key where pk: "p = Some payload" "request_key lib (c_global c) r' payload = Some key" by auto
    show ?thesis
    proof (cases "kind = progressRequestStopped")
      case True
      have "fst (ServeHTTP_file lib r kind now c) = fst (enqueueBarrier key now c)"
        by (simp add: ServeHTTP_file_def rb pk True split: prod.splits option.splits)
      thus ?thesis using barrier_sound [OF s] by simp
    next
      case False
      define c1 where "c1 = c\<lparr>fresh := Suc (fresh c),
        request_at := (request_at c)(fresh c := newProgressBufferedRequest r' payload)\<rparr>"
      have ex: "c\<lparr>request_at := (request_at c)(fresh c := newProgressBufferedRequest r' payload), fresh := Suc (fresh c)\<rparr> = c1"
        by (simp add: c1_def)
      have "core ok ow c1" unfolding c1_def by (rule core_fresh [OF s(1)])
      moreover have "forced c1 = forced c" unfolding forced_def by (simp add: c1_def)
      moreover have "busy c1 = busy c" by (simp add: busy_def c1_def)
      moreover have "phase_ok c1 = phase_ok c" by (rule phase_agree [OF _ _ _ _ calculation(2,3)]) (simp_all add: c1_def)
      moreover have "c_state c1 = c_state c" by (simp add: c1_def)
      ultimately have u: "sound ok ow (fst (enqueueUpdate key (fresh c) now c1))" using s by (intro update_sound) simp_all
      have "fst (ServeHTTP_file lib r kind now c) \<in>
          {fst (enqueueUpdate key (fresh c) now c1), release_request (fresh c) (fst (enqueueUpdate key (fresh c) now c1))}"
        unfolding ServeHTTP_file_def Let_def ex
        by (simp add: rb pk False ex split: prod.splits option.splits)
      thus ?thesis using u release_request_sound [OF u] by auto
    qed
  qed
qed

lemma progress_step_sound: "progress_step c c' \<Longrightarrow> sound ok ow c \<Longrightarrow> sound ok ow c'"
  by (induction rule: progress_step.induct)
    (simp_all add: admit_sound file_sound end_ingress_sound wait_sound dispatch_sound mark_sound cancel_barrier_sound
      release_barrier_sound cleanup_sound drain_sound drain_timeout_sound close_sound)

text \<open>A step of one site leaves the limits alone.\<close>

lemma new_sound:
  assumes "0 \<le> ok" "0 \<le> ow" "activeKeys g = ok" "global_waiters g = ow" "ok \<le> max 0 (maxActiveKeys g)" "ow \<le> max 0 (maxWaiters g)"
  shows "sound ok ow (newProgressCoalescer g config)"
  using assms by (simp add: newProgressCoalescer_def sound_def core_def table_ok_def entries_ok_def books_def phase_ok_def
      site_waiters_def)

end
