(* ===== verification/Progress_Sites.thy ===== *)
theory Progress_Sites
  imports Progress_Safety
begin

text \<open>
  Every site that coalesces progress reports shares one process-wide runtime. A step of the system is a
  step of one site on that runtime, or the start of another site. The properties of the component.
\<close>

section \<open>The system\<close>

record progress_system =
  runtime :: progressGlobalRuntime
  sites :: "progressCoalescer list"

abbreviation on_runtime :: "progressGlobalRuntime \<Rightarrow> progressCoalescer \<Rightarrow> progressCoalescer" where
  "on_runtime g c \<equiv> c\<lparr>c_global := g\<rparr>"

inductive progress_reachable :: "progressGlobalRuntime \<Rightarrow> progress_system \<Rightarrow> bool" for g where
  init: "progress_reachable g \<lparr>runtime = g, sites = []\<rparr>"
| start: "progress_reachable g s \<Longrightarrow>
    progress_reachable g (s\<lparr>sites := sites s @ [newProgressCoalescer (runtime s) config]\<rparr>)"
| step: "progress_reachable g s \<Longrightarrow> i < length (sites s) \<Longrightarrow> progress_step (on_runtime (runtime s) (sites s ! i)) c \<Longrightarrow>
    progress_reachable g (s\<lparr>runtime := c_global c, sites := (sites s)[i := c]\<rparr>)"

definition site_ok :: "progressCoalescer \<Rightarrow> bool" where
  "site_ok c \<longleftrightarrow> table_ok c \<and> entries_ok c \<and> phase_ok c \<and> (c_state c = Draining \<longrightarrow> busy c)"

lemma site_ok_runtime [simp]: "site_ok (on_runtime g c) = site_ok c"
proof -
  note a = entry_ok_agree [of "on_runtime g c" c, simplified]
  have "table_ok (on_runtime g c) = table_ok c" "busy (on_runtime g c) = busy c" by (simp_all add: table_ok_def busy_def)
  moreover have "entries_ok (on_runtime g c) = entries_ok c" unfolding entries_ok_def a by simp
  moreover have "phase_ok (on_runtime g c) = phase_ok c"
    by (rule phase_agree) (use a calculation(2) in simp_all)
  ultimately show ?thesis by (simp add: site_ok_def)
qed

lemma sound_parts: "sound ok ow c \<longleftrightarrow> site_ok c \<and> books ok ow c"
  by (auto simp: sound_def core_def site_ok_def)

lemma site_waiters_runtime [simp]: "site_waiters (on_runtime g c) = site_waiters c"
  by (simp add: site_waiters_def)

lemma site_waiters_nonneg: "site_ok c \<Longrightarrow> 0 \<le> site_waiters c"
  unfolding site_waiters_def site_ok_def entries_ok_def
  by (intro msum_nonneg) (use entry_waiters_nonneg in fastforce)

definition system_ok :: "progress_system \<Rightarrow> bool" where
  "system_ok s \<longleftrightarrow> (\<forall>c\<in>set (sites s). site_ok c) \<and>
     activeKeys (runtime s) = (\<Sum>c\<leftarrow>sites s. int (length (c_entries c))) \<and>
     global_waiters (runtime s) = (\<Sum>c\<leftarrow>sites s. site_waiters c) \<and>
     activeKeys (runtime s) \<le> max 0 (maxActiveKeys (runtime s)) \<and>
     global_waiters (runtime s) \<le> max 0 (maxWaiters (runtime s))"

lemma sum_at:
  assumes "i < length xs"
  shows "(\<Sum>x\<leftarrow>xs[i := y]. f x) = (\<Sum>x\<leftarrow>xs. f x) - f (xs ! i) + (f y :: int)"
  using assms
proof (induction xs arbitrary: i)
  case (Cons x xs)
  thus ?case by (cases i) simp_all
qed simp

lemma system_sound:
  assumes "system_ok s" "i < length (sites s)"
  defines "c \<equiv> sites s ! i"
  shows "sound (activeKeys (runtime s) - int (length (c_entries c))) (global_waiters (runtime s) - site_waiters c)
    (on_runtime (runtime s) c)"
proof -
  have c: "c \<in> set (sites s)" using assms(2) by (simp add: c_def)
  have "(\<Sum>x\<leftarrow>sites s. int (length (c_entries x))) \<ge> int (length (c_entries c))"
    using c by (intro member_le_sum_list) (auto intro: in_set_conv_nth [THEN iffD2] simp: image_iff)
  moreover have "(\<Sum>x\<leftarrow>sites s. site_waiters x) \<ge> site_waiters c"
  proof -
    have "0 \<le> (\<Sum>x\<leftarrow>(sites s)[i := newProgressCoalescer (runtime s) defaultProgressCoalescerConfig]. site_waiters x)"
      using assms(1) site_waiters_nonneg
      by (intro sum_list_nonneg)
        (auto simp: system_ok_def dest!: set_update_subset_insert [THEN subsetD] simp: site_waiters_def newProgressCoalescer_def)
    moreover have "site_waiters (newProgressCoalescer (runtime s) defaultProgressCoalescerConfig) = 0"
      by (simp add: site_waiters_def newProgressCoalescer_def)
    ultimately show ?thesis unfolding sum_at [OF assms(2)] by (simp add: c_def)
  qed
  ultimately show ?thesis using assms(1) c by (simp add: sound_parts books_def system_ok_def)
qed

lemma system_invariant:
  assumes "progress_reachable g s" "activeKeys g = 0" "global_waiters g = 0"
  shows "system_ok s"
  using assms
proof (induction rule: progress_reachable.induct)
  case init
  thus ?case by (simp add: system_ok_def)
next
  case (start s config)
  have "site_ok (newProgressCoalescer (runtime s) config)"
    by (simp add: newProgressCoalescer_def site_ok_def table_ok_def entries_ok_def phase_ok_def)
  moreover have "c_entries (newProgressCoalescer (runtime s) config) = []" by (simp add: newProgressCoalescer_def)
  ultimately show ?case using start by (simp add: system_ok_def site_waiters_def)
next
  case (step s i c)
  let ?c = "sites s ! i"
  have ok: "system_ok s" using step by blast
  note so = system_sound [OF ok step.hyps(2)]
  note c' = progress_step_sound [OF step.hyps(3) so]
  have "\<forall>x\<in>set ((sites s)[i := c]). site_ok x"
    using ok c' by (auto simp: system_ok_def sound_parts dest!: set_update_subset_insert [THEN subsetD])
  thus ?case using c' ok unfolding sound_parts
    by (simp add: system_ok_def books_def sum_at [OF step.hyps(2)])
qed

definition progress_runtime :: "progressGlobalRuntime \<Rightarrow> bool" where
  "progress_runtime g \<longleftrightarrow> activeKeys g = 0 \<and> global_waiters g = 0"

lemma reachable_site:
  assumes "progress_reachable g s" "progress_runtime g" "c \<in> set (sites s)"
  obtains ok ow where "sound ok ow (on_runtime (runtime s) c)" "site_ok c"
proof -
  have ok: "system_ok s" using system_invariant [OF assms(1)] assms(2) by (simp add: progress_runtime_def)
  obtain i where i: "i < length (sites s)" "sites s ! i = c" using assms(3) by (auto simp: in_set_conv_nth)
  show ?thesis using system_sound [OF ok i(1)] i(2) by (intro that) (auto simp: sound_parts)
qed

lemma site_entry:
  assumes "site_ok c" "mget (c_entries c) key = Some e"
  shows "entry_ok c key e" "advanced c e" "(key, e) \<in> set (c_entries c)"
proof -
  show m: "(key, e) \<in> set (c_entries c)" by (rule mget_in_set [OF assms(2)])
  show "entry_ok c key e" "advanced c e" using assms(1) m by (auto simp: site_ok_def entries_ok_def)
qed

section \<open>The limits of the runtime never change\<close>

definition limits :: "progressCoalescer \<Rightarrow> int \<times> int" where
  "limits c = (maxActiveKeys (c_global c), maxWaiters (c_global c))"

lemma limits_basic [simp]:
  "limits (put_entry e v c) = limits c" "limits (put_batch b x c) = limits c" "limits (put_barrier n y c) = limits c"
  "limits (put_waiter w z c) = limits c" "limits (put_cycle d u c) = limits c" "limits (release_request r c) = limits c"
  "limits (delete_entry key c) = limits c" "limits (releaseWaiterLocked e c) = limits c"
  "limits (scheduleBatchLocked key e b now c) = limits c" "limits (advanceEntryLocked key e c) = limits c"
  "limits (force_work x' c) = limits c"
  by (cases x'; simp add: limits_def put_defs delete_entry_def releaseWaiterLocked_def releaseKey_def releaseWaiter_def
      scheduleBatchLocked_def advanceEntryLocked_def Let_def split: list.splits progressWork.splits)+

lemma limits_fold: "(\<And>x c. limits (f x c) = limits c) \<Longrightarrow> limits (fold f xs c) = limits c"
  by (induction xs arbitrary: c) simp_all

lemma limits_parts [simp]:
  "limits (forceQueuedBatchesLocked e c) = limits c" "limits (force_if_draining e c) = limits c"
  "limits (completeDrainLocked c) = limits c" "limits (drain_one p c) = limits c" "limits (advanceDrainLocked c) = limits c"
  "limits (deliver e r w c) = limits c" "limits (record_drain_error err c) = limits c"
  "limits (cleanup_one now p c) = limits c" "limits (close_work work c) = limits c" "limits (close_one p c) = limits c"
proof -
  show f: "limits (forceQueuedBatchesLocked e c) = limits c" for e c by (simp add: forceQueuedBatchesLocked_def limits_fold)
  thus "limits (force_if_draining e c) = limits c" by (simp add: force_if_draining_def)
  show cd: "limits (completeDrainLocked c) = limits c" for c
    by (simp add: completeDrainLocked_def limits_def put_cycle_def split: option.splits)
  show d: "limits (drain_one p c) = limits c" for p c by (simp add: drain_one_def f split: prod.splits)
  show "limits (advanceDrainLocked c) = limits c"
    by (simp add: advanceDrainLocked_def cd limits_fold [OF d]) (simp add: limits_def)
  show "limits (deliver e r w c) = limits c" by (simp add: deliver_def Let_def)
  show "limits (record_drain_error err c) = limits c" by (simp add: record_drain_error_def split: option.splits)
  show "limits (cleanup_one now p c) = limits c" by (simp add: cleanup_one_def Let_def split: prod.splits)
  show w: "limits (close_work work c) = limits c" for work c by (simp add: close_work_def split: progressWork.splits)
  show "limits (close_one p c) = limits c" by (simp add: close_one_def limits_fold [OF w] split: prod.splits)
qed

lemma limits_fresh [simp]: "limits (c\<lparr>fresh := f\<rparr>) = limits c" "limits (c\<lparr>request_at := r\<rparr>) = limits c"
  "limits (c\<lparr>request_at := r, fresh := f\<rparr>) = limits c" "limits (c\<lparr>c_admissions := a\<rparr>) = limits c" "limits (c\<lparr>c_state := st\<rparr>) = limits c"
  "limits (c\<lparr>c_state := st, c_drain := d\<rparr>) = limits c" "limits (c\<lparr>c_state := st, c_drain := d, fresh := f\<rparr>) = limits c"
  by (simp_all add: limits_def)

lemma limits_enqueue:
  "limits (fst (enqueueUpdate key request now c)) = limits c" "limits (fst (enqueueBarrier key now c)) = limits c"
proof -
  have g: "limits (fst (getOrCreateEntryLocked key now c)) = limits c" for c
    by (simp add: getOrCreateEntryLocked_def Let_def reserveKey_def limits_def put_defs split: option.splits prod.splits)
  have r: "limits (fst (reserveWaiterLocked e c)) = limits c" for e c
    by (simp add: reserveWaiterLocked_def reserveWaiter_def limits_def put_defs)
  have j: "limits (fst (join_batch e request now c)) = limits c" for e c by (simp add: join_batch_def split: option.splits)
  have re: "limits (releaseEmptyNewEntryLocked key e b c) = limits c" for e b c by (simp add: releaseEmptyNewEntryLocked_def)
  note gg = g [of c] and rr = r [of "the (fst (snd (getOrCreateEntryLocked key now c)))" "fst (getOrCreateEntryLocked key now c)"]
  show "limits (fst (enqueueUpdate key request now c)) = limits c"
    using gg rr by (auto simp: enqueueUpdate_def Let_def re split_beta j split: prod.splits option.splits bool.splits)
  show "limits (fst (enqueueBarrier key now c)) = limits c"
    using gg rr by (auto simp: enqueueBarrier_def Let_def re split: prod.splits option.splits bool.splits)
qed

lemma file_cases: "\<exists>key q. fst (ServeHTTP_file lib r kind now c) \<in>
    {c, fst (enqueueBarrier key now c), fst (enqueueUpdate key (fresh c) now (c\<lparr>request_at := q, fresh := Suc (fresh c)\<rparr>)),
     release_request (fresh c) (fst (enqueueUpdate key (fresh c) now (c\<lparr>request_at := q, fresh := Suc (fresh c)\<rparr>)))}"
proof -
  obtain r' p where rb: "readProgressRequestBody r = (r', p)" by (cases "readProgressRequestBody r")
  show ?thesis
  proof (cases "p = None \<or> request_key lib (c_global c) r' (the p) = None")
    case True
    hence "fst (ServeHTTP_file lib r kind now c) = c" by (auto simp: ServeHTTP_file_def rb split: option.splits)
    thus ?thesis by simp
  next
    case False
    then obtain payload key where pk: "p = Some payload" "request_key lib (c_global c) r' payload = Some key" by auto
    show ?thesis
      by (rule exI [of _ key], rule exI [of _ "(request_at c)(fresh c := newProgressBufferedRequest r' payload)"])
        (simp add: ServeHTTP_file_def Let_def rb pk split: prod.splits option.splits)
  qed
qed

lemma limits_step: "progress_step c c' \<Longrightarrow> limits c' = limits c"
proof (induction rule: progress_step.induct)
  case (admit c r)
  show ?case by (simp add: ServeHTTP_admit_def beginProgressIngress_def)
next
  case (file_request c lib r kind now)
  from file_cases [of lib r kind now c] show ?case by (auto simp: limits_enqueue)
next
  case (end_ingress c)
  show ?case by (simp add: endProgressIngress_def)
next
  case (wait_outcome c ctxDone key w now)
  show ?case by (simp add: waitForProgressOutcome_def resolveCanceledWaiter_def receive_outcome_def Let_def split: option.splits)
next
  case (end_dispatch key e b c run now)
  show ?case by (simp add: dispatchBatch_def Let_def split_beta limits_fold)
next
  case (timer t c now)
  show ?case by (simp add: markBatchReady_def)
next
  case (wait_barrier c key e n now)
  show ?case by (simp add: waitForBarrier_done_def removeBarrierLocked_def Let_def split: option.splits)
next
  case (release_barrier c key e n now)
  show ?case by (simp add: releaseBarrier_def Let_def)
next
  case (maintain c now)
  show ?case by (simp add: cleanupIdle_def limits_fold)
next
  case (drain c)
  show ?case by (cases "c_state c") (simp_all add: Drain_def)
next
  case (drain_timeout c d)
  show ?case by (simp add: Drain_timeout_def limits_def)
next
  case (close_drained c)
  show ?case by (simp add: Close_def limits_fold)
qed

lemma runtime_limits:
  "progress_reachable g s \<Longrightarrow> maxActiveKeys (runtime s) = maxActiveKeys g \<and> maxWaiters (runtime s) = maxWaiters g"
proof (induction rule: progress_reachable.induct)
  case (step s i c)
  thus ?case using limits_step [OF step.hyps(3)] by (simp add: limits_def)
qed simp_all

section \<open>The promise of one key's queue\<close>

text \<open>
  What a key promises, without timers, batches in a store or wake-ups: one item may run, the others wait
  in a queue. An update joins the update at the end of the queue, which then carries the newer request and
  one more waiter, or it starts a new item; a report that playback stopped is an item of its own.
\<close>

datatype progress_item = Update_Item nat "nat list" | Stop_Item nat

type_synonym progress_promise = "progress_item option \<times> progress_item list"

definition promise_update :: "nat \<Rightarrow> nat \<Rightarrow> progress_promise \<Rightarrow> progress_promise" where
  "promise_update request u = (\<lambda>(run, queue).
     case rev queue of
       Update_Item r ws # rest \<Rightarrow> (run, rev rest @ [Update_Item request (ws @ [u])])
     | _ \<Rightarrow> (run, queue @ [Update_Item request [u]]))"

definition promise_stop :: "nat \<Rightarrow> progress_promise \<Rightarrow> progress_promise" where
  "promise_stop n = (\<lambda>(run, queue). (run, queue @ [Stop_Item n]))"

definition promise_done :: "progress_promise \<Rightarrow> progress_promise" where
  "promise_done = (\<lambda>(run, queue). (None, queue))"

text \<open>Nothing happened, or the head of the queue started because nothing ran.\<close>

definition may_start :: "progress_promise \<Rightarrow> progress_promise \<Rightarrow> bool" where
  "may_start p q \<longleftrightarrow> q = p \<or> (fst p = None \<and> (\<exists>x rest. snd p = x # rest \<and> q = (Some x, rest)))"

primrec item :: "progressCoalescer \<Rightarrow> progressWork \<Rightarrow> progress_item" where
  "item c (BatchWork b) = Update_Item (batch_request (batch_at c b)) (waiting c b)"
| "item c (BarrierWork n) = Stop_Item n"

definition promise_of :: "progressCoalescer \<Rightarrow> nat \<Rightarrow> progress_promise" where
  "promise_of c e =
     (map_option (item c) (case activeBatch (entry_at c e) of Some b \<Rightarrow> Some (BatchWork b)
        | None \<Rightarrow> map_option BarrierWork (activeBarrier (entry_at c e))),
      map (item c) (work_queue (entry_at c e)))"

definition promise :: "progressCoalescer \<Rightarrow> progressInternalKey \<Rightarrow> progress_promise" where
  "promise c key = (case mget (c_entries c) key of None \<Rightarrow> (None, []) | Some e \<Rightarrow> promise_of c e)"

lemma item_cong:
  assumes "\<And>b. x = BatchWork b \<Longrightarrow> batch_request (batch_at c' b) = batch_request (batch_at c b) \<and> waiting c' b = waiting c b"
  shows "item c' x = item c x"
  using assms by (cases x) simp_all

lemma promise_of_cong:
  assumes "\<And>b. BatchWork b \<in> set (works c e) \<Longrightarrow>
      batch_request (batch_at c' b) = batch_request (batch_at c b) \<and> waiting c' b = waiting c b"
    and "activeBatch (entry_at c' e) = activeBatch (entry_at c e)" "activeBarrier (entry_at c' e) = activeBarrier (entry_at c e)"
    "work_queue (entry_at c' e) = work_queue (entry_at c e)"
  shows "promise_of c' e = promise_of c e"
proof -
  have i: "item c' x = item c x" if "x \<in> set (works c e)" for x using assms(1) that by (intro item_cong) auto
  have "map (item c') (work_queue (entry_at c e)) = map (item c) (work_queue (entry_at c e))" using i by simp
  moreover have "item c' (BatchWork b) = item c (BatchWork b)" if "activeBatch (entry_at c e) = Some b" for b
    using that by (intro i) (simp add: works_of_def)
  ultimately show ?thesis
    unfolding promise_of_def assms(2-4)
    by (cases "activeBatch (entry_at c e)"; cases "activeBarrier (entry_at c e)") simp_all
qed

lemma advance_promise:
  assumes "entry_ok c key e"
  shows "may_start (promise_of c e) (promise_of (advanceEntryLocked key e c) e)"
proof -
  let ?c = "advanceEntryLocked key e c" and ?v = "entry_at c e"
  have i: "item ?c x = item c x" for x by (rule item_cong) (simp add: advance_ok(5) [OF assms])
  have q: "map (item ?c) xs = map (item c) xs" for xs using i by simp
  show ?thesis
  proof (cases "activeBatch ?v \<noteq> None \<or> activeBarrier ?v \<noteq> None \<or> work_queue ?v = [] \<or>
      (\<exists>b. hd (work_queue ?v) = BatchWork b \<and> \<not> ready (batch_at c b))")
    case True
    hence "?c = c" by (auto simp: advanceEntryLocked_def Let_def split: list.splits)
    thus ?thesis by (simp add: may_start_def)
  next
    case False
    then obtain x rest where x: "work_queue ?v = x # rest" by (cases "work_queue ?v") auto
    have "promise_of ?c e = (Some (item c x), map (item c) rest)"
    proof (cases x)
      case (BatchWork b)
      hence "entry_at ?c e = ?v\<lparr>work_queue := rest, activeBatch := Some b\<rparr>"
        using False x by (simp add: advanceEntryLocked_def Let_def put_entry_def)
      thus ?thesis using BatchWork by (simp add: promise_of_def q i advance_ok(5) [OF assms])
    next
      case (BarrierWork n)
      hence "entry_at ?c e = ?v\<lparr>work_queue := rest, activeBarrier := Some n\<rparr>"
        using False x by (simp add: advanceEntryLocked_def Let_def put_defs)
      thus ?thesis using BarrierWork False by (simp add: promise_of_def q i)
    qed
    moreover have "promise_of c e = (None, item c x # map (item c) rest)" using False x by (simp add: promise_of_def)
    ultimately show ?thesis by (auto simp: may_start_def)
  qed
qed

lemma force_promise:
  shows "promise_of (forceQueuedBatchesLocked e c) e' = promise_of c e'"
proof -
  note f = force_fold [where ws = "work_queue (entry_at c e)" and c = c, folded forceQueuedBatchesLocked_def]
  have "entry_at (forceQueuedBatchesLocked e c) = entry_at c" by (subst f(1)) simp
  thus ?thesis using f(4,5) by (intro promise_of_cong) simp_all
qed

lemma force_if_draining_promise: "promise_of (force_if_draining e c) e' = promise_of c e'"
  by (simp add: force_if_draining_def force_promise)

lemma complete_promise: "promise_of (completeDrainLocked c) e = promise_of c e"
  "c_entries (completeDrainLocked c) = c_entries c" "waiter_at (completeDrainLocked c) = waiter_at c"
proof -
  have f: "c_entries (completeDrainLocked c) = c_entries c \<and> waiter_at (completeDrainLocked c) = waiter_at c \<and>
      entry_at (completeDrainLocked c) = entry_at c \<and> batch_at (completeDrainLocked c) = batch_at c"
    by (simp add: completeDrainLocked_def put_cycle_def split: option.splits)
  show "promise_of (completeDrainLocked c) e = promise_of c e" by (rule promise_of_cong) (simp_all add: f)
  show "c_entries (completeDrainLocked c) = c_entries c" "waiter_at (completeDrainLocked c) = waiter_at c" using f by simp_all
qed

lemma drop_batch_promise:
  assumes "works c e = BatchWork b # works c1 e" "activeBatch (entry_at c e) = Some b" "op_ok e c c1"
    "entry_ok c key e" "entry_ok c1 key e" "batch_at c1 = batch_at c"
    and "activeBatch (entry_at c1 e) = None" "activeBarrier (entry_at c1 e) = None"
  shows "promise_of c1 e = promise_done (promise_of c e)"
proof -
  have "activeBarrier (entry_at c e) = None" using entry_ok_D(1) [OF assms(4)] assms(2) by simp
  hence q: "work_queue (entry_at c1 e) = work_queue (entry_at c e)"
    using assms(1,2,7,8) by (simp add: works_of_def)
  have i: "item c1 x = item c x" for x by (rule item_cong) (simp add: assms(6))
  hence m: "map (item c1) xs = map (item c) xs" for xs by simp
  show ?thesis by (simp add: promise_of_def promise_done_def assms(7,8) q m)
qed

lemma dispatch_refines:
  assumes "site_ok c" "books ok ow c" "mget (c_entries c) key = Some e" "activeBatch (entry_at c e) = Some b"
  shows "may_start (promise_done (promise c key)) (promise (dispatchBatch key e b run now c) key)"
proof -
  have co: "core ok ow c" using assms(1,2) by (simp add: site_ok_def core_def)
  note d = core_D [OF co assms(3)]
  define outcome where "outcome = \<lparr>Response = fst (dispatchBufferedRequest run), Err = snd (dispatchBufferedRequest run)\<rparr>"
  define c1 where "c1 = fold (deliver e outcome) (waiting c b) (put_entry e ((entry_at c e)\<lparr>activeBatch := None, lastActivity := now\<rparr>)
    (record_drain_error (snd (dispatchBufferedRequest run)) (release_request (batch_request (batch_at c b)) c)))"
  note x = dispatch_eq [OF d(1,3) assms(3,4) outcome_def refl c1_def]
  have nb: "activeBarrier (entry_at c e) = None" using entry_ok_D(1) [OF d(1)] assms(4) by simp
  have e1: "activeBatch (entry_at c1 e) = None \<and> activeBarrier (entry_at c1 e) = None"
  proof -
    have "activeBatch (entry_at (fold (deliver e outcome) ws c') e) = activeBatch (entry_at c' e) \<and>
        activeBarrier (entry_at (fold (deliver e outcome) ws c') e) = activeBarrier (entry_at c' e)" for ws c'
      by (induction ws arbitrary: c') (simp_all add: deliver_def Let_def releaseWaiterLocked_def put_defs)
    moreover have "entry_at (record_drain_error err c') = entry_at c'" for err c'
      by (simp add: record_drain_error_def put_cycle_def split: option.splits)
    ultimately show ?thesis using nb by (simp add: c1_def put_entry_def release_request_def)
  qed
  have p: "promise_of c1 e = promise_done (promise_of c e)"
    by (rule drop_batch_promise [OF x(4) assms(4) x(2) d(1) x(3) x(6)]) (use e1 in auto)
  note f = force_if_draining_ok [OF x(3)]
  have "may_start (promise_of c1 e) (promise_of (dispatchBatch key e b run now c) e)"
    using advance_promise [OF f(2)] unfolding x(1) complete_promise force_if_draining_promise .
  moreover have "c_entries (dispatchBatch key e b run now c) = c_entries c"
    using op_ok_local(2) [OF op_ok_trans [OF op_ok_trans [OF x(2) f(1)] advance_ok(1) [OF f(2)]]]
    unfolding x(1) complete_promise .
  ultimately show ?thesis using p assms(3) by (simp add: promise_def)
qed

lemma release_refines:
  assumes "site_ok c" "books ok ow c" "mget (c_entries c) key = Some e" "activeBarrier (entry_at c e) = Some n"
  shows "may_start (promise_done (promise c key)) (promise (releaseBarrier key e n now c) key)"
proof -
  have co: "core ok ow c" using assms(1,2) by (simp add: site_ok_def core_def)
  note d = core_D [OF co assms(3)]
  define c1 where "c1 = put_entry e ((entry_at c e)\<lparr>work_queue := work_queue (entry_at c e), activeBarrier := None,
      entry_waiters := entry_waiters (entry_at c e) - 1, lastActivity := now\<rparr>)
    (put_barrier n ((barrier_at c n)\<lparr>barrier_released := True, barrier_active := False\<rparr>)
      (c\<lparr>c_global := (c_global c)\<lparr>global_waiters := global_waiters (c_global c) - 1\<rparr>\<rparr>))"
  note x = release_barrier_eq [OF d(1,3) assms(3,4) refl c1_def]
  have nb: "activeBatch (entry_at c e) = None" using entry_ok_D(1) [OF d(1)] assms(4) by simp
  have i: "item c1 y = item c y" for y by (rule item_cong) (simp add: x(5))
  hence m: "map (item c1) ys = map (item c) ys" for ys by simp
  have p: "promise_of c1 e = promise_done (promise_of c e)"
    using nb by (simp add: promise_of_def promise_done_def m) (simp add: c1_def put_defs)
  note f = force_if_draining_ok [OF x(3)]
  have "may_start (promise_of c1 e) (promise_of (releaseBarrier key e n now c) e)"
    using advance_promise [OF f(2)] unfolding x(1) complete_promise force_if_draining_promise .
  moreover have "c_entries (releaseBarrier key e n now c) = c_entries c"
    using op_ok_local(2) [OF op_ok_trans [OF op_ok_trans [OF x(2) f(1)] advance_ok(1) [OF f(2)]]]
    unfolding x(1) complete_promise .
  ultimately show ?thesis using p assms(3) by (simp add: promise_def)
qed

text \<open>A new entry promises the empty queue.\<close>

lemma getOrCreate_promise:
  assumes "core ok ow c" "getOrCreateEntryLocked key now c = (c1, Some e, created)"
  shows "promise_of c1 e = promise c key" "fresh c \<le> fresh c1"
proof -
  have "promise_of c1 e = promise c key \<and> fresh c \<le> fresh c1"
  proof (cases "mget (c_entries c) key")
    case (Some e')
    hence "c1 = c" "e = e'" using assms(2) by (auto simp: getOrCreateEntryLocked_def)
    thus ?thesis using Some by (simp add: promise_def)
  next
    case None
    thus ?thesis using assms(2)
      by (auto simp: getOrCreateEntryLocked_def promise_def promise_of_def put_entry_def Let_def split: if_split_asm prod.splits)
  qed
  thus "promise_of c1 e = promise c key" "fresh c \<le> fresh c1" by blast+
qed

lemma update_refines:
  assumes "site_ok c0" "books ok ow c0" "enqueueUpdate key request now c0 = (c', Some u)"
  shows "may_start (promise_update request u (promise c0 key)) (promise c' key)"
    "\<exists>e b. mget (c_entries c') key = Some e \<and>
      waiter_at c' u = \<lparr>wait_result = None, wait_batch = b, wait_entry = e, wait_active = True\<rparr> \<and>
      batch_request (batch_at c' b) = request \<and> u \<in> set (waiting c' b) \<and> List.last (works c' e) = BatchWork b \<and>
      works c' e \<noteq> [] \<and> (\<forall>w. w \<noteq> u \<longrightarrow> waiter_at c' w = waiter_at c0 w) \<and> fresh c0 \<le> u"
proof -
  have co: "core ok ow c0" using assms(1,2) by (simp add: site_ok_def core_def)
  obtain c1 r created where g: "getOrCreateEntryLocked key now c0 = (c1, r, created)"
    by (cases "getOrCreateEntryLocked key now c0")
  have acc: "accepts c0" using assms(3) by (auto simp: enqueueUpdate_def split: if_split_asm)
  obtain e where r: "r = Some e" using assms(3) g acc by (cases r) (auto simp: enqueueUpdate_def)
  note go = getOrCreate_ok [OF co g] and gp = getOrCreate_promise [OF co g [unfolded r]]
  have k: "mget (c_entries c1) key = Some e" by (rule go(7) [OF r])
  obtain c2 res where rw: "reserveWaiterLocked e c1 = (c2, res)" by (cases "reserveWaiterLocked e c1")
  have ok: res using assms(3) g acc r rw by (cases res) (auto simp: enqueueUpdate_def)
  obtain c3 b where j: "join_batch e request now (c2\<lparr>fresh := Suc (fresh c2)\<rparr>) = (c3, b)"
    by (cases "join_batch e request now (c2\<lparr>fresh := Suc (fresh c2)\<rparr>)")
  define c4 where "c4 = put_waiter (fresh c2) \<lparr>wait_result = None, wait_batch = b, wait_entry = e, wait_active = True\<rparr> c3"
  define c5 where "c5 = put_batch b ((batch_at c4 b)\<lparr>batch_waiters := batch_waiters (batch_at c4 b) @ [fresh c2]\<rparr>) c4"
  define c6 where "c6 = put_entry e ((entry_at c5 e)\<lparr>lastActivity := now\<rparr>) c5"
  define s where "s = scheduleBatchLocked key e b now c6"
  note d = core_D [OF go(1) k]
  note x = enqueue_update_eq [OF d(1) rw [unfolded eqTrueI [OF ok]] j [symmetric] c4_def c5_def c6_def, folded s_def]
  have "enqueueUpdate key request now c0 = (advanceEntryLocked key e s, Some (fresh c2))"
    using acc g r rw ok j by (simp add: enqueueUpdate_def Let_def c4_def c5_def c6_def s_def)
  hence eq: "c' = advanceEntryLocked key e s" "u = fresh c1" using assms(3) x(4) by simp_all
  note a = advance_ok [OF x(2), folded eq(1)]
  have ents: "c_entries c' = c_entries c1" by (rule op_ok_local(2) [OF op_ok_trans [OF x(1) a(1)]])
  have o: "batch_at s y = batch_at c1 y" if "BatchWork y \<in> set (works c1 e)" "y \<noteq> b" for y
  proof -
    have "batch_at c6 y = batch_at c1 y"
      using j that(2) reserve_waiter_cases [OF rw] ok
      by (auto simp: c6_def c5_def c4_def put_defs join_batch_def split: option.splits)
    thus ?thesis using that(2) by (simp add: s_def scheduleBatchLocked_def Let_def put_batch_def)
  qed
  have bnew: "BatchWork b \<notin> set (works c1 e)" if "last_batch (entry_at c1 e) = None"
    using entry_ok_D(2) [OF d(1)] x(10) that by (fastforce simp: queue_ok_def)
  have sv: "activeBatch (entry_at s e) = activeBatch (entry_at c1 e)" "activeBarrier (entry_at s e) = activeBarrier (entry_at c1 e)"
    "work_queue (entry_at s e) = work_queue (entry_at c1 e) @ (case last_batch (entry_at c1 e) of None \<Rightarrow> [BatchWork b] | Some b \<Rightarrow> [])"
  proof -
    have "activeBatch (entry_at s e) = activeBatch (entry_at c1 e) \<and> activeBarrier (entry_at s e) = activeBarrier (entry_at c1 e)"
      using j reserve_waiter_cases [OF rw] ok
      by (auto simp: s_def c6_def c5_def c4_def put_defs join_batch_def scheduleBatchLocked_def Let_def split: option.splits)
    thus "activeBatch (entry_at s e) = activeBatch (entry_at c1 e)" "activeBarrier (entry_at s e) = activeBarrier (entry_at c1 e)"
      "work_queue (entry_at s e) = work_queue (entry_at c1 e) @ (case last_batch (entry_at c1 e) of None \<Rightarrow> [BatchWork b] | Some b \<Rightarrow> [])"
      using x(9) by (auto simp: works_of_def split: option.splits)
  qed
  have dist: "distinct (works c1 e)" using works_ids_distinct [OF entry_ok_D(2) [OF d(1)]] by (simp add: distinct_map)
  have "promise_of s e = promise_update request u (promise_of c1 e)"
  proof (cases "last_batch (entry_at c1 e)")
    case None
    have i: "item s y = item c1 y" if "y \<in> set (works c1 e)" for y
    proof (rule item_cong)
      fix x assume x: "y = BatchWork x"
      hence "BatchWork x \<in> set (works c1 e)" "x \<noteq> b" using that bnew [OF None] by auto
      thus "batch_request (batch_at s x) = batch_request (batch_at c1 x) \<and> waiting s x = waiting c1 x" using o by simp
    qed
    have act: "item s (BatchWork y) = item c1 (BatchWork y)" if "activeBatch (entry_at c1 e) = Some y" for y
      using that by (intro i) (simp add: works_of_def)
    have q: "map (item s) (work_queue (entry_at c1 e)) = map (item c1) (work_queue (entry_at c1 e))" using i by simp
    have last: "rev (map (item c1) (work_queue (entry_at c1 e))) = [] \<or>
        (\<exists>n rest. rev (map (item c1) (work_queue (entry_at c1 e))) = Stop_Item n # rest)"
    proof (cases "work_queue (entry_at c1 e)" rule: rev_cases)
      case (snoc ys y)
      thus ?thesis using None by (cases y) (auto simp: last_batch_def)
    qed simp
    have "promise_of s e = (fst (promise_of c1 e), snd (promise_of c1 e) @ [Update_Item request [u]])"
      using act q x(7,8) None unfolding promise_of_def sv
      by (cases "activeBatch (entry_at c1 e)"; cases "activeBarrier (entry_at c1 e)") (simp_all add: eq(2))
    moreover have "promise_update request u (promise_of c1 e) = (fst (promise_of c1 e), snd (promise_of c1 e) @ [Update_Item request [u]])"
      using last by (auto simp: promise_update_def promise_of_def)
    ultimately show ?thesis by simp
  next
    case (Some b')
    hence b': "b' = b" using x(10) by simp
    obtain ys where ys: "work_queue (entry_at c1 e) = ys @ [BatchWork b]"
      using Some b' by (cases "work_queue (entry_at c1 e)" rule: rev_cases)
        (auto simp: last_batch_def split: progressWork.splits)
    have i: "item s y = item c1 y" if "y \<in> set (works c1 e)" "y \<noteq> BatchWork b" for y
    proof (rule item_cong)
      fix x assume "y = BatchWork x"
      hence "BatchWork x \<in> set (works c1 e)" "x \<noteq> b" using that by auto
      thus "batch_request (batch_at s x) = batch_request (batch_at c1 x) \<and> waiting s x = waiting c1 x" using o by simp
    qed
    have nin: "BatchWork b \<notin> set ys" "activeBatch (entry_at c1 e) \<noteq> Some b"
      using dist unfolding works_of_def ys by (auto split: option.splits)
    have ys_in: "set ys \<subseteq> set (works c1 e)" by (auto simp: works_of_def ys)
    have q: "map (item s) ys = map (item c1) ys" using i ys_in nin(1) by (intro map_cong [OF refl]) auto
    have act: "item s (BatchWork y) = item c1 (BatchWork y)" if "activeBatch (entry_at c1 e) = Some y" for y
      using that nin(2) by (intro i) (auto simp: works_of_def)
    have "promise_of s e = (fst (promise_of c1 e), map (item c1) ys @ [Update_Item request (waiting c1 b @ [u])])"
      using act q x(7,8) Some b' ys unfolding promise_of_def sv
      by (cases "activeBatch (entry_at c1 e)"; cases "activeBarrier (entry_at c1 e)") (simp_all add: eq(2))
    thus ?thesis by (simp add: promise_update_def promise_of_def ys)
  qed
  thus "may_start (promise_update request u (promise c0 key)) (promise c' key)"
    using advance_promise [OF x(2), folded eq(1)] k ents gp(1) by (simp add: promise_def [of c'])
  have "List.last (works c' e) = BatchWork b \<and> works c' e \<noteq> []"
  proof (cases "last_batch (entry_at c1 e)")
    case None
    thus ?thesis using a(4) x(9) by simp
  next
    case (Some b')
    hence "work_queue (entry_at c1 e) \<noteq> []" "List.last (work_queue (entry_at c1 e)) = BatchWork b"
      using x(10) by (auto simp: last_batch_def split: if_split_asm progressWork.splits)
    thus ?thesis using a(4) x(9) Some by (simp add: works_of_def)
  qed
  moreover have "waiter_at c' u = \<lparr>wait_result = None, wait_batch = b, wait_entry = e, wait_active = True\<rparr>"
    "\<forall>w. w \<noteq> u \<longrightarrow> waiter_at c' w = waiter_at c0 w" using a(6) x(5) go(9) eq(2) by simp_all
  moreover have "batch_request (batch_at c' b) = request" "u \<in> set (waiting c' b)" using a(5) x(7,8) eq(2) by simp_all
  moreover have "mget (c_entries c') key = Some e" using k ents by simp
  ultimately show "\<exists>e b. mget (c_entries c') key = Some e \<and>
      waiter_at c' u = \<lparr>wait_result = None, wait_batch = b, wait_entry = e, wait_active = True\<rparr> \<and>
      batch_request (batch_at c' b) = request \<and> u \<in> set (waiting c' b) \<and> List.last (works c' e) = BatchWork b \<and>
      works c' e \<noteq> [] \<and> (\<forall>w. w \<noteq> u \<longrightarrow> waiter_at c' w = waiter_at c0 w) \<and> fresh c0 \<le> u"
    using gp(2) eq(2) by blast
qed

lemma barrier_refines:
  assumes "site_ok c0" "books ok ow c0" "enqueueBarrier key now c0 = (c', Some (e, n))"
  shows "may_start (promise_stop n (promise c0 key)) (promise c' key)" "mget (c_entries c') key = Some e" "fresh c0 \<le> n"
proof -
  have co: "core ok ow c0" using assms(1,2) by (simp add: site_ok_def core_def)
  obtain c1 r created where g: "getOrCreateEntryLocked key now c0 = (c1, r, created)"
    by (cases "getOrCreateEntryLocked key now c0")
  have acc: "accepts c0" using assms(3) by (auto simp: enqueueBarrier_def split: if_split_asm)
  obtain e' where r: "r = Some e'" using assms(3) g acc by (cases r) (auto simp: enqueueBarrier_def)
  obtain c2 res where rw: "reserveWaiterLocked e' c1 = (c2, res)" by (cases "reserveWaiterLocked e' c1")
  have ok: res using assms(3) g acc r rw by (cases res) (auto simp: enqueueBarrier_def)
  have e: "e' = e" "n = fresh c2" using assms(3) acc g r rw ok by (auto simp: enqueueBarrier_def Let_def)
  note go = getOrCreate_ok [OF co g] and gp = getOrCreate_promise [OF co g [unfolded r e]]
  have k: "mget (c_entries c1) key = Some e" using go(7) [OF r] e by simp
  note d = core_D [OF go(1) k]
  define c3 where "c3 = put_barrier (fresh c2)
    \<lparr>granted = False, barrier_active = False, barrier_canceled = False, barrier_released = False\<rparr> (c2\<lparr>fresh := Suc (fresh c2)\<rparr>)"
  define c4 where "c4 = forceQueuedBatchesLocked e c3"
  define c5 where "c5 = put_entry e ((entry_at c4 e)
    \<lparr>work_queue := work_queue (entry_at c4 e) @ [BarrierWork (fresh c2)], lastActivity := now\<rparr>) c4"
  note x = enqueue_barrier_eq [OF d(1) rw [unfolded e eqTrueI [OF ok]] c3_def c4_def c5_def]
  have eq: "c' = advanceEntryLocked key e c5"
    using assms(3) acc g r rw ok e by (simp add: enqueueBarrier_def Let_def c3_def c4_def c5_def)
  have ents: "c_entries c' = c_entries c1" unfolding eq by (rule op_ok_local(2) [OF op_ok_trans [OF x(1) advance_ok(1) [OF x(2)]]])
  have f: "entry_at c4 = entry_at c3" "\<And>y. batch_request (batch_at c4 y) = batch_request (batch_at c3 y) \<and> waiting c4 y = waiting c3 y"
    using force_fold [where ws = "work_queue (entry_at c3 e)" and c = c3, folded forceQueuedBatchesLocked_def c4_def]
    by (metis progressCoalescer.select_convs(7) progressCoalescer.surjective progressCoalescer.update_convs(8), blast)
  have b3: "batch_at c3 = batch_at c1" "activeBatch (entry_at c3 e) = activeBatch (entry_at c1 e)"
    "activeBarrier (entry_at c3 e) = activeBarrier (entry_at c1 e)" "work_queue (entry_at c3 e) = work_queue (entry_at c1 e)"
    using reserve_waiter_cases [OF rw] ok e by (simp_all add: c3_def put_defs)
  have i: "item c5 y = item c1 y" for y using f(2) b3(1) by (intro item_cong) (simp add: c5_def put_entry_def)
  hence m: "map (item c5) ys = map (item c1) ys" for ys by simp
  have "promise_of c5 e = promise_stop n (promise_of c1 e)"
    using b3 f(1) e(2) by (cases "activeBatch (entry_at c1 e)"; cases "activeBarrier (entry_at c1 e)")
      (simp_all add: promise_of_def promise_stop_def m i; simp add: c5_def put_entry_def)+
  thus "may_start (promise_stop n (promise c0 key)) (promise c' key)"
    using advance_promise [OF x(2)] k ents gp(1) by (simp add: promise_def [of "advanceEntryLocked key e c5"] eq)
  show "mget (c_entries c') key = Some e" using k ents by simp
  show "fresh c0 \<le> n" using gp(2) x(4) e by simp
qed

section \<open>Properties\<close>

text \<open>C9. The counters are exact. In every state the sites can reach together, the process-wide numbers of keys
  and of waiting requests are the sums over all sites of their keys and of the updates and barriers their
  queues hold, and they stay within the runtime's limits; each site stays within its limit of keys and each
  key within its limit of waiting requests.
\<close>

theorem progress_counters_are_exact:
  assumes "progress_reachable g s" "progress_runtime g"
  shows "activeKeys (runtime s) = (\<Sum>c\<leftarrow>sites s. int (length (c_entries c))) \<and>
    activeKeys (runtime s) \<le> max 0 (maxActiveKeys g) \<and>
    global_waiters (runtime s) = (\<Sum>c\<leftarrow>sites s. msum (\<lambda>key e. weight (works c e) (waiting c)) (c_entries c)) \<and>
    global_waiters (runtime s) \<le> max 0 (maxWaiters g) \<and>
    (\<forall>c\<in>set (sites s). int (length (c_entries c)) \<le> max 0 (maxSiteKeys (c_config c)) \<and>
      (\<forall>(key, e)\<in>set (c_entries c). weight (works c e) (waiting c) \<le> max 0 (maxWaitersPerKey (c_config c))))"
proof -
  have ok: "system_ok s" using system_invariant [OF assms(1)] assms(2) by (simp add: progress_runtime_def)
  note l = runtime_limits [OF assms(1)]
  have e: "entry_waiters (entry_at c e) = weight (works c e) (waiting c) \<and>
      weight (works c e) (waiting c) \<le> max 0 (maxWaitersPerKey (c_config c))"
    if "c \<in> set (sites s)" "(key, e) \<in> set (c_entries c)" for c key e
    using ok that entry_ok_D(4,5) [of c key e] by (fastforce simp: system_ok_def site_ok_def entries_ok_def)
  have w: "site_waiters c = msum (\<lambda>key e. weight (works c e) (waiting c)) (c_entries c)" if "c \<in> set (sites s)" for c
    unfolding site_waiters_def msum_def
    by (rule arg_cong [where f = sum_list], rule map_cong [OF refl]) (use e [OF that] in auto)
  have m: "(\<Sum>c\<leftarrow>sites s. site_waiters c) = (\<Sum>c\<leftarrow>sites s. msum (\<lambda>key e. weight (works c e) (waiting c)) (c_entries c))"
    by (rule arg_cong [where f = sum_list], rule map_cong [OF refl w])
  have "\<forall>c\<in>set (sites s). int (length (c_entries c)) \<le> max 0 (maxSiteKeys (c_config c)) \<and>
      (\<forall>(key, e)\<in>set (c_entries c). weight (works c e) (waiting c) \<le> max 0 (maxWaitersPerKey (c_config c)))"
    using ok e by (fastforce simp: system_ok_def site_ok_def table_ok_def)
  thus ?thesis using ok l unfolding system_ok_def m by simp
qed

text \<open>C6. A report that playback stopped is served alone and in order. While it is being served, no batch of
  its key is being sent, every update of the key that still waits arrived after it, and all other work of
  the key is younger: what was reported before it has been sent, or its client has gone.
\<close>

theorem progress_stopped_after_updates:
  assumes "progress_reachable g s" "progress_runtime g" "c \<in> set (sites s)"
    and "mget (c_entries c) key = Some e" "activeBarrier (entry_at c e) = Some n"
  shows "activeBatch (entry_at c e) = None \<and>
    (\<forall>u. wait_active (waiter_at c u) \<and> wait_entry (waiter_at c u) = e \<longrightarrow> n < u) \<and>
    (\<forall>x\<in>set (work_queue (entry_at c e)). n < work_id x)"
proof -
  obtain ok ow where "site_ok c" by (rule reachable_site [OF assms(1-3)])
  from site_entry(1) [OF this assms(4)] have eo: "entry_ok c key e" .
  note d = entry_ok_D [OF eo]
  have nb: "activeBatch (entry_at c e) = None" using d(1) assms(5) by simp
  hence w: "works c e = BarrierWork n # work_queue (entry_at c e)" using assms(5) by (simp add: works_of_def)
  have lt: "n < work_id x" if "x \<in> set (work_queue (entry_at c e))" for x
    using works_head_free(1) [OF d(2) [unfolded w] that] by simp
  have "n < u" if "wait_active (waiter_at c u)" "wait_entry (waiter_at c u) = e" for u
  proof -
    let ?b = "wait_batch (waiter_at c u)"
    have b: "BatchWork ?b \<in> set (works c e)" "u \<in> set (waiting c ?b)"
      using d(3) [unfolded links_def, rule_format, of ?b u] that by simp_all
    have "n < ?b" using b(1) lt [of "BatchWork ?b"] by (simp add: w)
    moreover have "BarrierWork n \<in> set (works c e)" by (simp add: w)
    ultimately show ?thesis using d(2) b unfolding queue_ok_def by blast
  qed
  thus ?thesis using nb lt by blast
qed

text \<open>C7. The end of a dispatch answers everyone who waits for it and nobody else. The waiters that get the
  outcome are exactly the updates of this key that joined the batch and whose client still waits; each gets
  the same outcome once, every other waiter of any key is untouched.
\<close>

theorem progress_dispatch_answers_its_waiters:
  assumes "progress_reachable g s" "progress_runtime g" "c \<in> set (sites s)"
    and "mget (c_entries c) key = Some e" "activeBatch (entry_at c e) = Some b"
  shows "waiter_at (dispatchBatch key e b run now (on_runtime (runtime s) c)) u =
    (if wait_active (waiter_at c u) \<and> wait_entry (waiter_at c u) = e \<and> wait_batch (waiter_at c u) = b
     then (waiter_at c u)\<lparr>wait_active := False,
       wait_result := Some \<lparr>Response = fst (dispatchBufferedRequest run), Err = snd (dispatchBufferedRequest run)\<rparr>\<rparr>
     else waiter_at c u)"
proof -
  let ?c = "on_runtime (runtime s) c"
  obtain ok ow where so: "sound ok ow ?c" by (rule reachable_site [OF assms(1-3)])
  have k: "mget (c_entries ?c) key = Some e" and a: "activeBatch (entry_at ?c e) = Some b" using assms(4,5) by simp_all
  have co: "core ok ow ?c" using so by (simp add: sound_def)
  note d = core_D [OF co k]
  define outcome where "outcome = \<lparr>Response = fst (dispatchBufferedRequest run), Err = snd (dispatchBufferedRequest run)\<rparr>"
  define c1 where "c1 = fold (deliver e outcome) (waiting ?c b) (put_entry e ((entry_at ?c e)\<lparr>activeBatch := None, lastActivity := now\<rparr>)
    (record_drain_error (snd (dispatchBufferedRequest run)) (release_request (batch_request (batch_at ?c b)) ?c)))"
  note x = dispatch_eq [OF d(1,3) k a outcome_def refl c1_def]
  note f = force_if_draining_ok [OF x(3)]
  have "waiter_at (dispatchBatch key e b run now ?c) = answered (waiting ?c b) outcome (waiter_at ?c)"
    unfolding x(1) complete_promise using advance_ok(6) [OF f(2)] f(5) x(5) by simp
  moreover have "u \<in> set (waiting c b) \<longleftrightarrow>
      wait_active (waiter_at c u) \<and> wait_entry (waiter_at c u) = e \<and> wait_batch (waiter_at c u) = b"
  proof -
    have "BatchWork b \<in> set (works ?c e)" using a by (simp add: works_of_def)
    thus ?thesis using entry_ok_D(3) [OF d(1), unfolded links_def, rule_format, of b u] by simp
  qed
  ultimately show ?thesis by (simp add: answered_def outcome_def)
qed

text \<open>C8. The queues of the code refine the promise of a key. Filing an update, filing a report that playback
  stopped, the end of a dispatch and the release of a barrier do to a key what the promise says, and then
  at most let the next item start: an update joins the update at the end of the queue, with its request in
  place of the older one, or queues a new item; a stop queues an item; an end frees the key.
\<close>

theorem progress_queue_refines_promise:
  assumes "progress_reachable g s" "progress_runtime g" "c \<in> set (sites s)"
  defines "c0 \<equiv> on_runtime (runtime s) c"
  shows "(\<forall>c' u. enqueueUpdate key request now c0 = (c', Some u) \<longrightarrow>
      may_start (promise_update request u (promise c key)) (promise c' key)) \<and>
    (\<forall>c' e n. enqueueBarrier key now c0 = (c', Some (e, n)) \<longrightarrow>
      may_start (promise_stop n (promise c key)) (promise c' key)) \<and>
    (\<forall>e b. mget (c_entries c) key = Some e \<longrightarrow> activeBatch (entry_at c e) = Some b \<longrightarrow>
      may_start (promise_done (promise c key)) (promise (dispatchBatch key e b run now c0) key)) \<and>
    (\<forall>e n. mget (c_entries c) key = Some e \<longrightarrow> activeBarrier (entry_at c e) = Some n \<longrightarrow>
      may_start (promise_done (promise c key)) (promise (releaseBarrier key e n now c0) key))"
proof -
  obtain ok ow where so: "sound ok ow c0" unfolding c0_def by (rule reachable_site [OF assms(1-3)])
  have p: "site_ok c0" "books ok ow c0" using so by (simp_all add: sound_parts)
  have "promise_of c0 e = promise_of c e" for e by (rule promise_of_cong) (simp_all add: c0_def)
  hence e: "promise c0 key = promise c key" by (simp add: promise_def c0_def split: option.splits)
  show ?thesis
  proof (intro conjI allI impI)
    show "may_start (promise_update request u (promise c key)) (promise c' key)"
      if "enqueueUpdate key request now c0 = (c', Some u)" for c' u
      using update_refines(1) [OF p that] e by simp
    show "may_start (promise_stop n (promise c key)) (promise c' key)"
      if "enqueueBarrier key now c0 = (c', Some (e, n))" for c' e n
      using barrier_refines(1) [OF p that] e by simp
    show "may_start (promise_done (promise c key)) (promise (dispatchBatch key e' b run now c0) key)"
      if "mget (c_entries c) key = Some e'" "activeBatch (entry_at c e') = Some b" for e' b
      using dispatch_refines [OF p, of key e' b run now] that e by (simp add: c0_def)
    show "may_start (promise_done (promise c key)) (promise (releaseBarrier key e' n now c0) key)"
      if "mget (c_entries c) key = Some e'" "activeBarrier (entry_at c e') = Some n" for e' n
      using release_refines [OF p, of key e' n now] that e by (simp add: c0_def)
  qed
qed

text \<open>C10. A drain never gets stuck and ends with nothing left. While a site drains, some key runs a batch whose
  dispatch has been started or serves a barrier that was granted, so a next end is to come; a site that is
  drained has no work in any queue and counts no waiting request, so closing it loses nothing.
\<close>

theorem progress_drain_never_stuck:
  assumes "progress_reachable g s" "progress_runtime g" "c \<in> set (sites s)"
  shows "if c_state c = Draining
    then c_admissions c = 0 \<and> (\<exists>(key, e)\<in>set (c_entries c).
      (\<exists>b. activeBatch (entry_at c e) = Some b \<and> (key, e, b) \<in> set (dispatches c)) \<or>
      (\<exists>n. activeBarrier (entry_at c e) = Some n \<and> granted (barrier_at c n)))
    else if c_state c = Drained then \<not> busy c \<and> site_waiters c = 0 else True"
proof -
  obtain ok ow where so: "site_ok c" by (rule reachable_site [OF assms(1-3)])
  have eo: "entry_ok c key e" "advanced c e" if "(key, e) \<in> set (c_entries c)" for key e
    using so that by (auto simp: site_ok_def entries_ok_def)
  consider (draining) "c_state c = Draining" | (drained) "c_state c = Drained" |
    (other) "c_state c \<noteq> Draining" "c_state c \<noteq> Drained" by blast
  thus ?thesis
  proof cases
    case draining
    obtain key e where m: "(key, e) \<in> set (c_entries c)" "\<not> idle_entry (entry_at c e)"
      using so draining by (auto simp: site_ok_def busy_def)
    have "forced c e" "c_admissions c = 0" using so draining m(1) by (auto simp: site_ok_def phase_ok_def)
    moreover have "activeBatch (entry_at c e) \<noteq> None \<or> activeBarrier (entry_at c e) \<noteq> None"
      using eo(2) [OF m(1)] m(2) calculation(1) unfolding advanced_def idle_entry_def forced_def
      by (cases "work_queue (entry_at c e)") auto
    ultimately show ?thesis
      using draining m(1) entry_ok_D(6,7) [OF eo(1) [OF m(1)]] by (fastforce simp: granted_ok_def batches_ok_def)
  next
    case drained
    have "\<not> busy c" using so drained by (simp add: site_ok_def phase_ok_def)
    moreover from this have "site_waiters c = 0" unfolding site_waiters_def
      using eo(1) idle_weightless by (intro msum_zero) (fastforce simp: busy_def)
    ultimately show ?thesis using drained by simp
  qed simp
qed

text \<open>An update is sent in time. A batch that waits in a queue and is not ready has a timer that is due at
  most \<open>maxDispatchDelay\<close> after its first update and at most \<open>debounce\<close> after its last, however often
  it was joined, and the timer's callback makes the batch ready.
\<close>

theorem progress_update_is_sent_in_time:
  assumes "progress_reachable g s" "progress_runtime g" "c \<in> set (sites s)"
    and "mget (c_entries c) key = Some e" "BatchWork b \<in> set (work_queue (entry_at c e))" "\<not> ready (batch_at c b)"
  shows "\<exists>t\<in>set (timer_calls c).
    call_at t \<le> firstArrival (batch_at c b) + maxDispatchDelay (c_config c) \<and>
    call_at t \<le> lastArrival (batch_at c b) + debounce (c_config c) \<and>
    ready (batch_at (markBatchReady (call_key t) (call_entry t) (call_batch t) (call_generation t) c) b)"
proof -
  obtain ok ow where so: "site_ok c" by (rule reachable_site [OF assms(1-3)])
  note eo = site_entry [OF so assms(4)]
  obtain d where d: "batch_timer (batch_at c b) = Some d" "d \<le> firstArrival (batch_at c b) + maxDispatchDelay (c_config c)"
    "d \<le> lastArrival (batch_at c b) + debounce (c_config c)"
    "\<lparr>call_at = d, call_key = key, call_entry = e, call_batch = b, call_generation = timerGeneration (batch_at c b)\<rparr> \<in> set (timer_calls c)"
    using entry_ok_D(7) [OF eo(1)] assms(5,6) unfolding batches_ok_def due_def by blast
  let ?c1 = "put_batch b ((batch_at c b)\<lparr>ready := True, batch_timer := None\<rparr>) c"
  have "c_state c \<noteq> Coalescer_Closed" using so eo(3) by (auto simp: site_ok_def phase_ok_def)
  hence "markBatchReady key e b (timerGeneration (batch_at c b)) c = advanceEntryLocked key e ?c1"
    using assms(4,6) by (simp add: markBatchReady_def)
  moreover have "batch_at (advanceEntryLocked key e ?c1) = batch_at ?c1"
    by (rule advance_ok(5) [OF mark_ok(2) [OF eo(1) assms(5)]])
  ultimately show ?thesis using d by (intro bexI [OF _ d(4)]) (simp add: put_batch_def)
qed

text \<open>An accepted update is the one that will be sent. Its waiter belongs to the key's entry and waits for
  the youngest work of the key, a batch whose request is now this update's; no other waiter changes.
\<close>

theorem progress_latest_update_wins:
  assumes "progress_reachable g s" "progress_runtime g" "c \<in> set (sites s)"
    and "enqueueUpdate key request now (on_runtime (runtime s) c) = (c', Some u)"
  shows "\<exists>e b. mget (c_entries c') key = Some e \<and>
    waiter_at c' u = \<lparr>wait_result = None, wait_batch = b, wait_entry = e, wait_active = True\<rparr> \<and>
    batch_request (batch_at c' b) = request \<and> u \<in> set (waiting c' b) \<and> List.last (works c' e) = BatchWork b \<and>
    works c' e \<noteq> [] \<and> (\<forall>w. w \<noteq> u \<longrightarrow> waiter_at c' w = waiter_at c w) \<and> fresh c \<le> u"
proof -
  obtain ok ow where so: "sound ok ow (on_runtime (runtime s) c)" by (rule reachable_site [OF assms(1-3)])
  hence "site_ok (on_runtime (runtime s) c)" "books ok ow (on_runtime (runtime s) c)" by (simp_all add: sound_parts)
  from update_refines(2) [OF this assms(4)] show ?thesis by simp
qed

section \<open>A run\<close>

text \<open>One site, one key: an update is filed, a stop is filed, the update's dispatch ends, the stop is served.\<close>

definition demo_runtime :: progressGlobalRuntime where
  "demo_runtime = newProgressGlobalRuntime (Some ''key'') 4 4"

definition demo_config :: progressCoalescerConfig where
  "demo_config = \<lparr>debounce = 2, maxDispatchDelay = 5, idleExpiry = 100, cleanupInterval = 50, maxSiteKeys = 4, maxWaitersPerKey = 4\<rparr>"

definition demo_key :: progressInternalKey where
  "demo_key = \<lparr>Identity = \<lparr>SessionID = ''s'', PlaySessionID = ''p'', ItemID = ''i''\<rparr>, Credential = ''c''\<rparr>"

definition demo_library :: progress_library where
  "demo_library = \<lparr>json_identity = (\<lambda>_. Some (''s'', ''p'', ''i'')), sha256 = (\<lambda>x. x), hmac_sha256 = (\<lambda>k m. ''c'')\<rparr>"

definition demo_request :: progress_request where
  "demo_request = \<lparr>rq_method = ''POST'', rq_url_path = ''/Sessions/Playing/Progress'', rq_raw_query = [], rq_user = None,
     rq_header = [], rq_body = ''j'', rq_body_fails = False, rq_content_length = 1, rq_certificates = []\<rparr>"

definition demo_start :: progressCoalescer where
  "demo_start = newProgressCoalescer demo_runtime demo_config"

definition demo_filed :: progressCoalescer where
  "demo_filed = fst (ServeHTTP_file demo_library demo_request progressRequestUpdate 0 demo_start)"

definition demo_stopping :: progressCoalescer where
  "demo_stopping = fst (ServeHTTP_file demo_library demo_request progressRequestStopped 1 demo_filed)"

definition demo_serving :: progressCoalescer where
  "demo_serving = dispatchBatch demo_key 1 3 (Panicked False) 2 demo_stopping"

definition demo_draining :: progressCoalescer where
  "demo_draining = fst (Drain demo_stopping)"

lemma demo_read: "readProgressRequestBody demo_request = (demo_request, Some ''j'')"
  by (simp add: readProgressRequestBody_def demo_request_def progressRequestBodyLimit_def Let_def)

lemma demo_request_key: "credentialKeyGood g \<Longrightarrow> request_key demo_library g demo_request ''j'' = Some demo_key"
  by (simp add: request_key_def parseProgressIdentity_def demo_library_def progressMaxKeyComponentBytes_def
      progressCredentialDigest_def demo_key_def)

definition demo_updated :: "progressCoalescer \<Rightarrow> progressCoalescer" where
  "demo_updated c = fst (enqueueUpdate demo_key (fresh c) 0 (c\<lparr>request_at := (request_at c)(fresh c :=
     newProgressBufferedRequest demo_request ''j''), fresh := Suc (fresh c)\<rparr>))"

lemma demo_file_update:
  assumes "credentialKeyGood (c_global c)"
    "snd (enqueueUpdate demo_key (fresh c) 0 (c\<lparr>request_at := (request_at c)(fresh c :=
       newProgressBufferedRequest demo_request ''j''), fresh := Suc (fresh c)\<rparr>)) \<noteq> None"
  shows "fst (ServeHTTP_file demo_library demo_request progressRequestUpdate 0 c) = demo_updated c"
  using assms by (auto simp: ServeHTTP_file_def demo_read demo_request_key Let_def demo_updated_def split: prod.splits option.splits)

lemma demo_file_stop:
  assumes "credentialKeyGood (c_global c)"
  shows "fst (ServeHTTP_file demo_library demo_request progressRequestStopped now c) = fst (enqueueBarrier demo_key now c)"
  using assms by (simp add: ServeHTTP_file_def demo_read demo_request_key split: prod.splits option.splits)

lemma demo_filed_eq [code]: "demo_filed = demo_updated demo_start"
  unfolding demo_filed_def
proof (rule demo_file_update)
  show "credentialKeyGood (c_global demo_start)" by code_simp
  show "snd (enqueueUpdate demo_key (fresh demo_start) 0 (demo_start\<lparr>request_at := (request_at demo_start)(fresh demo_start :=
       newProgressBufferedRequest demo_request ''j''), fresh := Suc (fresh demo_start)\<rparr>)) \<noteq> None" by code_simp
qed

lemma demo_stopping_eq [code]: "demo_stopping = fst (enqueueBarrier demo_key 1 demo_filed)"
  unfolding demo_stopping_def by (rule demo_file_stop) code_simp

lemma demo_filed_facts:
  "mget (c_entries demo_filed) demo_key = Some 1" "work_queue (entry_at demo_filed 1) = [BatchWork 3]"
  "ready (batch_at demo_filed 3) = False" 
  by code_simp+

lemma demo_stopping_facts:
  "mget (c_entries demo_stopping) demo_key = Some 1" "activeBatch (entry_at demo_stopping 1) = Some 3"
  "dispatches demo_stopping = [(demo_key, 1, 3)]"
  by code_simp+

lemma demo_serving_facts:
  "mget (c_entries demo_serving) demo_key = Some 1" "activeBarrier (entry_at demo_serving 1) = Some 4"
  by code_simp+

lemma demo_draining_facts: "c_state demo_draining = Draining"
  by code_simp

lemma demo_step:
  assumes "progress_reachable g \<lparr>runtime = c_global c, sites = [c]\<rparr>" "progress_step c c'"
  shows "progress_reachable g \<lparr>runtime = c_global c', sites = [c']\<rparr>"
  using progress_reachable.step [OF assms(1), of 0 c'] assms(2) by simp

lemma demo_reachable:
  "progress_reachable demo_runtime \<lparr>runtime = c_global demo_filed, sites = [demo_filed]\<rparr>"
  "progress_reachable demo_runtime \<lparr>runtime = c_global demo_stopping, sites = [demo_stopping]\<rparr>"
  "progress_reachable demo_runtime \<lparr>runtime = c_global demo_serving, sites = [demo_serving]\<rparr>"
  "progress_reachable demo_runtime \<lparr>runtime = c_global demo_draining, sites = [demo_draining]\<rparr>"
proof -
  have "progress_reachable demo_runtime \<lparr>runtime = c_global demo_start, sites = [demo_start]\<rparr>"
    using progress_reachable.start [OF progress_reachable.init, of demo_runtime demo_config]
    by (simp add: demo_start_def) (simp add: newProgressCoalescer_def)
  thus f: "progress_reachable demo_runtime \<lparr>runtime = c_global demo_filed, sites = [demo_filed]\<rparr>"
    by (rule demo_step) (simp add: demo_filed_def progress_step.file_request)
  show s: "progress_reachable demo_runtime \<lparr>runtime = c_global demo_stopping, sites = [demo_stopping]\<rparr>"
    by (rule demo_step [OF f]) (simp add: demo_stopping_def progress_step.file_request)
  show "progress_reachable demo_runtime \<lparr>runtime = c_global demo_serving, sites = [demo_serving]\<rparr>"
    by (rule demo_step [OF s]) (simp add: demo_serving_def progress_step.end_dispatch demo_stopping_facts)
  show "progress_reachable demo_runtime \<lparr>runtime = c_global demo_draining, sites = [demo_draining]\<rparr>"
    by (rule demo_step [OF s]) (simp add: demo_draining_def progress_step.drain)
qed

lemma demo_runtime_ok: "progress_runtime demo_runtime"
  by (simp add: progress_runtime_def demo_runtime_def newProgressGlobalRuntime_def)

theorem progress_counters_are_exact_witness: "global_waiters (c_global demo_stopping) \<le> max 0 (maxWaiters demo_runtime)"
  using progress_counters_are_exact [OF demo_reachable(2) demo_runtime_ok] by simp

theorem progress_stopped_after_updates_witness: "activeBatch (entry_at demo_serving 1) = None"
  using progress_stopped_after_updates [OF demo_reachable(3) demo_runtime_ok _ demo_serving_facts] by simp

theorem progress_dispatch_answers_its_waiters_witness:
  "waiter_at (dispatchBatch demo_key 1 3 (Panicked False) 2 demo_stopping) 0 =
    (if wait_active (waiter_at demo_stopping 0) \<and> wait_entry (waiter_at demo_stopping 0) = 1 \<and> wait_batch (waiter_at demo_stopping 0) = 3
     then (waiter_at demo_stopping 0)\<lparr>wait_active := False,
       wait_result := Some \<lparr>Response = fst (dispatchBufferedRequest (Panicked False)), Err = snd (dispatchBufferedRequest (Panicked False))\<rparr>\<rparr>
     else waiter_at demo_stopping 0)"
  using progress_dispatch_answers_its_waiters
    [OF demo_reachable(2) demo_runtime_ok _ demo_stopping_facts(1,2), where run = "Panicked False" and now = 2 and u = 0]
  by simp

theorem progress_queue_refines_promise_witness:
  "may_start (promise_done (promise demo_stopping demo_key))
    (promise (dispatchBatch demo_key 1 3 (Panicked False) 2 demo_stopping) demo_key)"
  using progress_queue_refines_promise [OF demo_reachable(2) demo_runtime_ok, of demo_stopping demo_key] demo_stopping_facts(1,2)
  by simp

theorem progress_drain_never_stuck_witness: "c_admissions demo_draining = 0"
  using progress_drain_never_stuck [OF demo_reachable(4) demo_runtime_ok, of demo_draining] demo_draining_facts by simp

theorem progress_update_is_sent_in_time_witness:
  "\<exists>t\<in>set (timer_calls demo_filed). call_at t \<le> firstArrival (batch_at demo_filed 3) + maxDispatchDelay (c_config demo_filed)"
  using progress_update_is_sent_in_time [OF demo_reachable(1) demo_runtime_ok _ demo_filed_facts(1), of 3] demo_filed_facts(2,3)
  by auto

theorem progress_latest_update_wins_witness:
  "\<exists>b. batch_request (batch_at (fst (enqueueUpdate demo_key 7 1 demo_filed)) b) = 7"
proof -
  have u: "snd (enqueueUpdate demo_key 7 1 demo_filed) = Some 4" by code_simp
  hence "enqueueUpdate demo_key 7 1 demo_filed = (fst (enqueueUpdate demo_key 7 1 demo_filed), Some 4)" by (simp add: prod_eq_iff)
  from progress_latest_update_wins [OF demo_reachable(1) demo_runtime_ok, of demo_filed, simplified, OF this]
  show ?thesis by blast
qed

end
