(* ===== verification/Image_Lists.thy ===== *)
theory Image_Lists
  imports Client_Headers
begin

text \<open>
  The objects of the image cache of \<open>cmd/meridian/legacy_image_cache.go\<close> and the two doubly linked
  lists that thread them: every entry is in the list of its site and in the list of the process, the most
  recently used one in front. A locale states what the four pointer operations do to the order of a list;
  it is interpreted on the pointers of the process and on those of each site.
\<close>

section \<open>The objects\<close>

text \<open>Pointers are numbers, \<open>None\<close> is \<open>nil\<close>.\<close>

type_synonym ref = nat

record imageCacheKey =
  key_siteID :: int
  primaryAuthority :: string
  canonicalPath :: string
  canonicalQuery :: string
  forceQuery :: bool
  credentialIdentity :: string
  representation :: string

definition imageCacheEntryOverhead :: int where
  "imageCacheEntryOverhead = 512"

definition imageCacheContentLengthReservationBytes :: int where
  "imageCacheContentLengthReservationBytes = int (length ''Content-Length'') + 20 + 16"

definition imageCacheMaxBodyBytes :: int where
  "imageCacheMaxBodyBytes = 8388608"

definition maxCacheReplayHeaderBytes :: int where
  "maxCacheReplayHeaderBytes = 65536"

definition imageCacheKeyBytes :: "imageCacheKey \<Rightarrow> int" where
  "imageCacheKeyBytes k =
     int (length (primaryAuthority k)) + int (length (canonicalPath k)) + int (length (canonicalQuery k))"

definition imageCacheMaximumFlightReservation :: "imageCacheKey \<Rightarrow> int" where
  "imageCacheMaximumFlightReservation k =
     imageCacheMaxBodyBytes + maxCacheReplayHeaderBytes + imageCacheEntryOverhead + imageCacheKeyBytes k"

record imageCacheEntry =
  entry_key :: imageCacheKey
  entry_owner :: "ref option"
  entry_header :: http_header
  entry_body :: string
  responseAt :: time
  initialAge :: duration
  expiresAt :: time
  entry_cost :: int
  globalPrev :: "ref option"
  globalNext :: "ref option"
  sitePrev :: "ref option"
  siteNext :: "ref option"

text \<open>\<open>closings\<close> counts how often \<open>close(done)\<close> ran: a second time panics.\<close>

record imageCacheFlight =
  closings :: nat
  flight_stored :: bool
  reservedBytes :: int
  captureStarted :: bool

record imageCacheSite =
  site_siteID :: int
  site_closed :: bool
  site_entries :: "(imageCacheKey, ref) gomap"
  site_flights :: "(imageCacheKey, ref) gomap"
  site_bytes :: int
  site_head :: "ref option"
  site_tail :: "ref option"

text \<open>The runtime with the objects its pointers reach: the entries, the flights and the sites.\<close>

record imageCacheRuntime =
  maxProcessBytes :: int
  maxSiteBytes :: int
  cache_ttl :: duration
  process_bytes :: int
  globalHead :: "ref option"
  globalTail :: "ref option"
  entry_at :: "ref \<Rightarrow> imageCacheEntry"
  flight_at :: "ref \<Rightarrow> imageCacheFlight"
  site_at :: "ref \<Rightarrow> imageCacheSite"

definition on_entry :: "ref \<Rightarrow> (imageCacheEntry \<Rightarrow> imageCacheEntry) \<Rightarrow> imageCacheRuntime \<Rightarrow> imageCacheRuntime" where
  "on_entry x f s = s\<lparr>entry_at := (entry_at s)(x := f (entry_at s x))\<rparr>"

definition on_flight :: "ref \<Rightarrow> (imageCacheFlight \<Rightarrow> imageCacheFlight) \<Rightarrow> imageCacheRuntime \<Rightarrow> imageCacheRuntime" where
  "on_flight x f s = s\<lparr>flight_at := (flight_at s)(x := f (flight_at s x))\<rparr>"

definition on_site :: "ref \<Rightarrow> (imageCacheSite \<Rightarrow> imageCacheSite) \<Rightarrow> imageCacheRuntime \<Rightarrow> imageCacheRuntime" where
  "on_site i f s = s\<lparr>site_at := (site_at s)(i := f (site_at s i))\<rparr>"

section \<open>Linking and unlinking\<close>

definition unlinkGlobal :: "ref \<Rightarrow> imageCacheRuntime \<Rightarrow> imageCacheRuntime" where
  "unlinkGlobal x s =
     (let s1 = (case globalPrev (entry_at s x) of
                  Some p \<Rightarrow> on_entry p (globalNext_update (\<lambda>_. globalNext (entry_at s x))) s
                | None \<Rightarrow> s\<lparr>globalHead := globalNext (entry_at s x)\<rparr>);
          s2 = (case globalNext (entry_at s1 x) of
                  Some n \<Rightarrow> on_entry n (globalPrev_update (\<lambda>_. globalPrev (entry_at s1 x))) s1
                | None \<Rightarrow> s1\<lparr>globalTail := globalPrev (entry_at s1 x)\<rparr>)
      in on_entry x (\<lambda>e. e\<lparr>globalPrev := None, globalNext := None\<rparr>) s2)"

definition linkGlobalFront :: "ref \<Rightarrow> imageCacheRuntime \<Rightarrow> imageCacheRuntime" where
  "linkGlobalFront x s =
     (let s1 = on_entry x (\<lambda>e. e\<lparr>globalNext := globalHead s, globalPrev := None\<rparr>) s;
          s2 = (case globalHead s1 of
                  Some h \<Rightarrow> on_entry h (globalPrev_update (\<lambda>_. Some x)) s1
                | None \<Rightarrow> s1\<lparr>globalTail := Some x\<rparr>)
      in s2\<lparr>globalHead := Some x\<rparr>)"

definition site_unlink :: "ref \<Rightarrow> ref \<Rightarrow> imageCacheRuntime \<Rightarrow> imageCacheRuntime" where
  "site_unlink i x s =
     (let s1 = (case sitePrev (entry_at s x) of
                  Some p \<Rightarrow> on_entry p (siteNext_update (\<lambda>_. siteNext (entry_at s x))) s
                | None \<Rightarrow> on_site i (site_head_update (\<lambda>_. siteNext (entry_at s x))) s);
          s2 = (case siteNext (entry_at s1 x) of
                  Some n \<Rightarrow> on_entry n (sitePrev_update (\<lambda>_. sitePrev (entry_at s1 x))) s1
                | None \<Rightarrow> on_site i (site_tail_update (\<lambda>_. sitePrev (entry_at s1 x))) s1)
      in on_entry x (\<lambda>e. e\<lparr>sitePrev := None, siteNext := None\<rparr>) s2)"

definition site_linkFront :: "ref \<Rightarrow> ref \<Rightarrow> imageCacheRuntime \<Rightarrow> imageCacheRuntime" where
  "site_linkFront i x s =
     (let s1 = on_entry x (\<lambda>e. e\<lparr>siteNext := site_head (site_at s i), sitePrev := None\<rparr>) s;
          s2 = (case site_head (site_at s1 i) of
                  Some h \<Rightarrow> on_entry h (sitePrev_update (\<lambda>_. Some x)) s1
                | None \<Rightarrow> on_site i (site_tail_update (\<lambda>_. Some x)) s1)
      in on_site i (site_head_update (\<lambda>_. Some x)) s2)"

section \<open>Doubly linked lists\<close>

text \<open>The two ends of a list and the links of its nodes.\<close>

record links =
  first_node :: "ref option"
  last_node :: "ref option"
  next_node :: "ref \<Rightarrow> ref option"
  prev_node :: "ref \<Rightarrow> ref option"

text \<open>
  The nodes \<open>xs\<close> are linked both ways, the node before the first one is \<open>p\<close> and the node
  after the last one is \<open>q\<close>.
\<close>

definition first_of :: "ref option \<Rightarrow> ref list \<Rightarrow> ref option" where
  "first_of q xs = (case xs of [] \<Rightarrow> q | x # _ \<Rightarrow> Some x)"

definition last_of :: "ref option \<Rightarrow> ref list \<Rightarrow> ref option" where
  "last_of p xs = (if xs = [] then p else Some (last xs))"

fun linked :: "(ref \<Rightarrow> ref option) \<Rightarrow> (ref \<Rightarrow> ref option) \<Rightarrow> ref option \<Rightarrow> ref list \<Rightarrow> ref option \<Rightarrow> bool" where
  "linked nx pv p [] q \<longleftrightarrow> True"
| "linked nx pv p (x # xs) q \<longleftrightarrow> pv x = p \<and> nx x = first_of q xs \<and> linked nx pv (Some x) xs q"

definition holds_nodes :: "links \<Rightarrow> ref list \<Rightarrow> bool" where
  "holds_nodes d xs \<longleftrightarrow> distinct xs \<and> first_node d = first_of None xs \<and> last_node d = last_of None xs \<and>
     linked (next_node d) (prev_node d) None xs None"

definition cut_node :: "ref \<Rightarrow> links \<Rightarrow> links" where
  "cut_node x d =
     (let d1 = (case prev_node d x of
                  Some p \<Rightarrow> d\<lparr>next_node := (next_node d)(p := next_node d x)\<rparr>
                | None \<Rightarrow> d\<lparr>first_node := next_node d x\<rparr>);
          d2 = (case next_node d1 x of
                  Some n \<Rightarrow> d1\<lparr>prev_node := (prev_node d1)(n := prev_node d1 x)\<rparr>
                | None \<Rightarrow> d1\<lparr>last_node := prev_node d1 x\<rparr>)
      in d2\<lparr>prev_node := (prev_node d2)(x := None), next_node := (next_node d2)(x := None)\<rparr>)"

definition push_node :: "ref \<Rightarrow> links \<Rightarrow> links" where
  "push_node x d =
     (let d1 = d\<lparr>next_node := (next_node d)(x := first_node d), prev_node := (prev_node d)(x := None)\<rparr>;
          d2 = (case first_node d1 of
                  Some h \<Rightarrow> d1\<lparr>prev_node := (prev_node d1)(h := Some x)\<rparr>
                | None \<Rightarrow> d1\<lparr>last_node := Some x\<rparr>)
      in d2\<lparr>first_node := Some x\<rparr>)"

lemma first_of_simps [simp]: "first_of q [] = q" "first_of q (x # xs) = Some x"
  by (simp_all add: first_of_def)

lemma last_of_simps [simp]: "last_of p [] = p" "last_of p (x # xs) = last_of (Some x) xs"
  "last_of p (xs @ [y]) = Some y"
  by (simp_all add: last_of_def)

lemma first_of_append: "first_of q (as @ bs) = first_of (first_of q bs) as"
  by (cases as) simp_all

lemma last_of_append: "last_of p (as @ bs) = last_of (last_of p as) bs"
  by (simp add: last_of_def)

lemma linked_append: "linked nx pv p (as @ bs) q \<longleftrightarrow>
    linked nx pv p as (first_of q bs) \<and> linked nx pv (last_of p as) bs q"
  by (induction as arbitrary: p) (auto simp: first_of_append)

lemma linked_cong: "(\<And>x. x \<in> set xs \<Longrightarrow> nx x = nx' x \<and> pv x = pv' x) \<Longrightarrow>
    linked nx pv p xs q = linked nx' pv' p xs q"
  by (induction xs arbitrary: p) auto

lemma holds_nodes_cong:
  assumes "holds_nodes d xs" "first_node d' = first_node d" "last_node d' = last_node d"
    and "\<And>x. x \<in> set xs \<Longrightarrow> next_node d' x = next_node d x \<and> prev_node d' x = prev_node d x"
  shows "holds_nodes d' xs"
proof -
  have "linked (next_node d') (prev_node d') None xs None = linked (next_node d) (prev_node d) None xs None"
    by (rule linked_cong) (rule assms(4))
  then show ?thesis
    using assms(1-3) by (simp add: holds_nodes_def)
qed

lemma linked_new_next: "linked nx pv p as q \<Longrightarrow> distinct as \<Longrightarrow> as \<noteq> [] \<Longrightarrow>
    linked (nx(last as := r)) pv p as r"
proof (induction as arbitrary: p)
  case (Cons a as)
  show ?case
  proof (cases as)
    case (Cons b bs)
    then show ?thesis
      using Cons.IH[of "Some a"] Cons.prems by auto
  qed (use Cons.prems in simp)
qed simp

lemma linked_new_prev: "linked nx pv p (b # bs) q \<Longrightarrow> b \<notin> set bs \<Longrightarrow> linked nx (pv(b := r)) r (b # bs) q"
proof -
  assume l: "linked nx pv p (b # bs) q" and b: "b \<notin> set bs"
  have "linked nx (pv(b := r)) (Some b) bs q = linked nx pv (Some b) bs q"
    by (rule linked_cong) (use b in auto)
  then show ?thesis
    using l by simp
qed

lemma cut_node_holds:
  assumes "holds_nodes d (as @ x # bs)"
  shows "holds_nodes (cut_node x d) (as @ bs)"
proof -
  have dist: "distinct as" "distinct bs" "x \<notin> set as" "x \<notin> set bs" "set as \<inter> set bs = {}"
    and pvx: "prev_node d x = last_of None as" and nxx: "next_node d x = first_of None bs"
    and la: "linked (next_node d) (prev_node d) None as (Some x)"
    and lb: "linked (next_node d) (prev_node d) (Some x) bs None"
    and fd: "first_node d = first_of (Some x) as" and ld: "last_node d = last_of (Some x) bs"
    using assms by (auto simp: holds_nodes_def linked_append first_of_append last_of_append)
  define nx' where "nx' = (case last_of None as of Some p \<Rightarrow> (next_node d)(p := first_of None bs) | None \<Rightarrow> next_node d)"
  define pv' where "pv' = (case first_of None bs of Some n \<Rightarrow> (prev_node d)(n := last_of None as) | None \<Rightarrow> prev_node d)"
  have out: "last as \<notin> set bs" if "as \<noteq> []"
    using last_in_set[OF that] dist(5) by blast
  have cut: "cut_node x d = \<lparr>first_node = (if as = [] then first_of None bs else first_node d),
      last_node = (if bs = [] then last_of None as else last_node d),
      next_node = nx'(x := None), prev_node = pv'(x := None)\<rparr>"
    using dist by (cases bs; cases as rule: rev_cases)
      (auto simp: cut_node_def pvx nxx nx'_def pv'_def first_of_append last_of_append)
  have l1: "linked nx' (prev_node d) None as (first_of None bs)"
    using linked_new_next[OF la dist(1)] la by (cases "as = []") (auto simp: nx'_def last_of_def)
  have l2: "linked (next_node d) pv' (last_of None as) bs None"
    using linked_new_prev[of "next_node d" "prev_node d" "Some x" "hd bs" "tl bs" None] lb dist
    by (cases bs) (auto simp: pv'_def)
  have "linked (nx'(x := None)) (pv'(x := None)) None as (first_of None bs)"
    using l1 dist by (subst linked_cong[where nx' = nx' and pv' = "prev_node d"])
      (auto simp: pv'_def first_of_def split: list.splits)
  moreover have "linked (nx'(x := None)) (pv'(x := None)) (last_of None as) bs None"
    using l2 dist by (subst linked_cong[where nx' = "next_node d" and pv' = pv'])
      (auto simp: nx'_def last_of_def dest: out)
  ultimately show ?thesis
    using dist fd ld by (auto simp: holds_nodes_def cut linked_append first_of_append last_of_append last_of_def
        first_of_def neq_Nil_conv split: list.splits)
qed

lemma push_node_holds:
  assumes "holds_nodes d xs" "x \<notin> set xs"
  shows "holds_nodes (push_node x d) (x # xs)"
proof (cases xs)
  case Nil
  then show ?thesis
    using assms by (simp add: holds_nodes_def push_node_def)
next
  case (Cons h ys)
  have l: "linked (next_node d) (prev_node d) None (h # ys) None" and h: "h \<notin> set ys" "x \<noteq> h" "x \<notin> set ys"
    using assms Cons by (auto simp: holds_nodes_def)
  have "linked ((next_node d)(x := Some h)) ((prev_node d)(x := None, h := Some x)) (Some x) (h # ys) None"
    using linked_new_prev[OF l h(1), of "Some x"] h
    by (subst linked_cong[where nx' = "next_node d" and pv' = "(prev_node d)(h := Some x)"]) auto
  then show ?thesis
    using assms Cons by (auto simp: holds_nodes_def push_node_def)
qed

lemma holds_nodes_remove: "holds_nodes d xs \<Longrightarrow> x \<in> set xs \<Longrightarrow> holds_nodes (cut_node x d) (remove1 x xs)"
proof -
  assume h: "holds_nodes d xs" and "x \<in> set xs"
  then obtain as bs where xs: "xs = as @ x # bs" and "x \<notin> set as"
    by (meson split_list_first)
  then show ?thesis
    using cut_node_holds[of d as x bs] h by (simp add: remove1_append)
qed

text \<open>Nodes that are not in the list keep their links.\<close>

lemma cut_node_other:
  assumes "holds_nodes d xs" "x \<in> set xs" "y \<notin> set xs"
  shows "next_node (cut_node x d) y = next_node d y" "prev_node (cut_node x d) y = prev_node d y"
proof -
  obtain as bs where xs: "xs = as @ x # bs" and dist: "distinct xs"
    using assms by (meson split_list holds_nodes_def)
  have pvx: "prev_node d x = last_of None as" and nxx: "next_node d x = first_of None bs"
    using assms(1) xs by (auto simp: holds_nodes_def linked_append)
  show "next_node (cut_node x d) y = next_node d y" "prev_node (cut_node x d) y = prev_node d y"
    using assms(3) dist xs by (cases as rule: rev_cases; cases bs; force simp: cut_node_def pvx nxx)+
qed

lemma push_node_other:
  assumes "holds_nodes d xs" "y \<notin> set (x # xs)"
  shows "next_node (push_node x d) y = next_node d y" "prev_node (push_node x d) y = prev_node d y"
  using assms by (cases xs; simp add: holds_nodes_def push_node_def)+

section \<open>The interface of a list\<close>

text \<open>
  A list somewhere in a state: \<open>nodes\<close> reads its links, \<open>cut\<close> and \<open>push\<close> are the
  operations of the program.
\<close>

locale recency_list =
  fixes nodes :: "'s \<Rightarrow> links" and cut :: "ref \<Rightarrow> 's \<Rightarrow> 's" and push :: "ref \<Rightarrow> 's \<Rightarrow> 's"
  assumes nodes_cut: "nodes (cut x s) = cut_node x (nodes s)"
    and nodes_push: "nodes (push x s) = push_node x (nodes s)"
begin

lemma cut_order: "holds_nodes (nodes s) xs \<Longrightarrow> x \<in> set xs \<Longrightarrow> holds_nodes (nodes (cut x s)) (remove1 x xs)"
  by (simp add: nodes_cut holds_nodes_remove)

lemma push_order: "holds_nodes (nodes s) xs \<Longrightarrow> x \<notin> set xs \<Longrightarrow> holds_nodes (nodes (push x s)) (x # xs)"
  by (simp add: nodes_push push_node_holds)

lemma touch_order:
  assumes "holds_nodes (nodes s) xs" "x \<in> set xs"
  shows "holds_nodes (nodes (push x (cut x s))) (x # remove1 x xs)"
  by (rule push_order[OF cut_order[OF assms]]) (use assms(1) in \<open>simp add: holds_nodes_def\<close>)

lemma oldest: "holds_nodes (nodes s) xs \<Longrightarrow> last_node (nodes s) = (if xs = [] then None else Some (last xs))"
  by (simp add: holds_nodes_def last_of_def)

end

definition process_nodes :: "imageCacheRuntime \<Rightarrow> links" where
  "process_nodes s = \<lparr>first_node = globalHead s, last_node = globalTail s,
     next_node = (\<lambda>x. globalNext (entry_at s x)), prev_node = (\<lambda>x. globalPrev (entry_at s x))\<rparr>"

definition site_nodes :: "ref \<Rightarrow> imageCacheRuntime \<Rightarrow> links" where
  "site_nodes i s = \<lparr>first_node = site_head (site_at s i), last_node = site_tail (site_at s i),
     next_node = (\<lambda>x. siteNext (entry_at s x)), prev_node = (\<lambda>x. sitePrev (entry_at s x))\<rparr>"

lemmas object_simps = on_entry_def on_flight_def on_site_def

interpretation process_list: recency_list process_nodes unlinkGlobal linkGlobalFront
  by unfold_locales
    (auto simp: process_nodes_def unlinkGlobal_def linkGlobalFront_def cut_node_def push_node_def object_simps
      Let_def fun_eq_iff split: option.splits)

interpretation site_list: recency_list "site_nodes i" "site_unlink i" "site_linkFront i" for i
  by unfold_locales
    (auto simp: site_nodes_def site_unlink_def site_linkFront_def cut_node_def push_node_def object_simps
      Let_def fun_eq_iff split: option.splits)

end
