(* ===== verification/Image_Cache.thy ===== *)
theory Image_Cache
  imports Image_Lists
begin

text \<open>
  The store of the image cache of \<open>cmd/meridian/legacy_image_cache.go\<close>: lookup, insertion with
  eviction, the reservation a leading request takes before it asks the upstream, and the end of a flight.
  Every operation holds the mutex of the runtime, so each is one step. A loop that evicts is a partial
  function, \<open>None\<close> when it would never end. The byte counters are exact integers: all of them stay
  below limits that fit \<open>int64\<close>.
\<close>

section \<open>Operations\<close>

definition newImageCacheRuntimeWithLimits :: "int \<Rightarrow> int \<Rightarrow> duration \<Rightarrow> (ref \<Rightarrow> imageCacheSite) \<Rightarrow>
    (ref \<Rightarrow> imageCacheEntry) \<Rightarrow> (ref \<Rightarrow> imageCacheFlight) \<Rightarrow> imageCacheRuntime" where
  "newImageCacheRuntimeWithLimits processBytes siteBytes ttl st en fl =
     \<lparr>maxProcessBytes = processBytes, maxSiteBytes = siteBytes, cache_ttl = ttl, process_bytes = 0,
      globalHead = None, globalTail = None, entry_at = en, flight_at = fl, site_at = st\<rparr>"

definition image_newSite :: "int \<Rightarrow> imageCacheSite" where
  "image_newSite sid = \<lparr>site_siteID = sid, site_closed = False, site_entries = [], site_flights = [],
     site_bytes = 0, site_head = None, site_tail = None\<rparr>"

definition image_remove :: "ref \<Rightarrow> imageCacheRuntime \<Rightarrow> imageCacheRuntime" where
  "image_remove x s =
     (case entry_owner (entry_at s x) of None \<Rightarrow> s
      | Some i \<Rightarrow>
          if mget (site_entries (site_at s i)) (entry_key (entry_at s x)) \<noteq> Some x then s
          else
            let k = entry_key (entry_at s x); c = entry_cost (entry_at s x);
                s1 = on_site i (\<lambda>st. st\<lparr>site_entries := mdel k (site_entries st)\<rparr>) s;
                s2 = site_unlink i x (unlinkGlobal x s1)
            in on_site i (\<lambda>st. st\<lparr>site_bytes := max 0 (site_bytes st - c)\<rparr>)
                 (s2\<lparr>process_bytes := max 0 (process_bytes s2 - c)\<rparr>))"

definition image_getLocked :: "ref \<Rightarrow> imageCacheKey \<Rightarrow> time \<Rightarrow> imageCacheRuntime \<Rightarrow> imageCacheRuntime \<times> ref option" where
  "image_getLocked i key now s =
     (case mget (site_entries (site_at s i)) key of None \<Rightarrow> (s, None)
      | Some x \<Rightarrow>
          if \<not> now < expiresAt (entry_at s x) then (image_remove x s, None)
          else (site_linkFront i x (site_unlink i x (linkGlobalFront x (unlinkGlobal x s))), Some x))"

partial_function (option) evict_site :: "ref \<Rightarrow> imageCacheRuntime \<Rightarrow> imageCacheRuntime option" where
  "evict_site i s =
     (case site_tail (site_at s i) of None \<Rightarrow> Some s
      | Some x \<Rightarrow> if maxSiteBytes s < site_bytes (site_at s i) then evict_site i (image_remove x s) else Some s)"

partial_function (option) evict_process :: "imageCacheRuntime \<Rightarrow> imageCacheRuntime option" where
  "evict_process s =
     (case globalTail s of None \<Rightarrow> Some s
      | Some x \<Rightarrow> if maxProcessBytes s < process_bytes s then evict_process (image_remove x s) else Some s)"

definition image_insert :: "ref \<Rightarrow> imageCacheKey \<Rightarrow> ref \<Rightarrow> imageCacheRuntime \<Rightarrow> imageCacheRuntime" where
  "image_insert i key x s =
     (let s1 = on_site i (\<lambda>st. st\<lparr>site_entries := mput key x (site_entries st)\<rparr>) s;
          s2 = linkGlobalFront x (site_linkFront i x s1);
          s3 = on_site i (\<lambda>st. st\<lparr>site_bytes := site_bytes st + entry_cost (entry_at s2 x)\<rparr>) s2
      in s3\<lparr>process_bytes := process_bytes s3 + entry_cost (entry_at s3 x)\<rparr>)"

definition image_storeLocked ::
  "ref \<Rightarrow> imageCacheKey \<Rightarrow> ref \<Rightarrow> time \<Rightarrow> imageCacheRuntime \<Rightarrow> (imageCacheRuntime \<times> bool) option" where
  "image_storeLocked i key x now s =
     (if site_closed (site_at s i) \<or> \<not> now < expiresAt (entry_at s x) \<or> maxProcessBytes s \<le> 0 \<or> maxSiteBytes s \<le> 0
      then Some (s, False)
      else
        let s1 = on_entry x (\<lambda>e. e\<lparr>entry_key := key, entry_owner := Some i,
                   entry_cost := entry_cost e + imageCacheKeyBytes key\<rparr>) s
        in if maxSiteBytes s1 < entry_cost (entry_at s1 x) \<or> maxProcessBytes s1 < entry_cost (entry_at s1 x)
           then Some (s1, False)
           else
             let s2 = (case mget (site_entries (site_at s1 i)) key of None \<Rightarrow> s1 | Some old \<Rightarrow> image_remove old s1)
             in Option.bind (evict_site i (image_insert i key x s2)) (\<lambda>s3.
                Option.bind (evict_process s3) (\<lambda>s4.
                Some (s4, mget (site_entries (site_at s4 i)) key = Some x))))"

definition flight_minimum :: "imageCacheKey \<Rightarrow> int" where
  "flight_minimum key = imageCacheEntryOverhead + imageCacheKeyBytes key + imageCacheContentLengthReservationBytes"

definition flight_target :: "imageCacheKey \<Rightarrow> imageCacheRuntime \<Rightarrow> int" where
  "flight_target key s = min (min (imageCacheMaximumFlightReservation key) (maxSiteBytes s)) (maxProcessBytes s)"

partial_function (option) reserve_loop ::
  "ref \<Rightarrow> int \<Rightarrow> int \<Rightarrow> imageCacheRuntime \<Rightarrow> (imageCacheRuntime \<times> int) option" where
  "reserve_loop i minimum target s =
     (let siteAvailable = maxSiteBytes s - site_bytes (site_at s i);
          processAvailable = maxProcessBytes s - process_bytes s;
          available = min siteAvailable processAvailable
      in if minimum < available
         then let reservation = min target available in
           Some ((on_site i (\<lambda>st. st\<lparr>site_bytes := site_bytes st + reservation\<rparr>) s)
                   \<lparr>process_bytes := process_bytes s + reservation\<rparr>, reservation)
         else if siteAvailable \<le> minimum
         then (case site_tail (site_at s i) of None \<Rightarrow> Some (s, 0)
               | Some x \<Rightarrow> reserve_loop i minimum target (image_remove x s))
         else if processAvailable \<le> minimum
         then (case globalTail s of None \<Rightarrow> Some (s, 0)
               | Some x \<Rightarrow> reserve_loop i minimum target (image_remove x s))
         else Some (s, 0))"

definition reserveFlightLocked ::
  "ref \<Rightarrow> imageCacheKey \<Rightarrow> imageCacheRuntime \<Rightarrow> (imageCacheRuntime \<times> int) option" where
  "reserveFlightLocked i key s =
     (if maxProcessBytes s \<le> 0 \<or> maxSiteBytes s \<le> 0 then Some (s, 0)
      else if flight_target key s \<le> flight_minimum key then Some (s, 0)
      else reserve_loop i (flight_minimum key) (flight_target key s) s)"

definition releaseFlightReservationLocked :: "ref \<Rightarrow> ref \<Rightarrow> imageCacheRuntime \<Rightarrow> imageCacheRuntime" where
  "releaseFlightReservationLocked i f s =
     (let reservation = reservedBytes (flight_at s f) in
      if reservation \<le> 0 then s
      else
        let s1 = on_flight f (reservedBytes_update (\<lambda>_. 0)) s
        in on_site i (\<lambda>st. st\<lparr>site_bytes := max 0 (site_bytes st - reservation)\<rparr>)
             (s1\<lparr>process_bytes := max 0 (process_bytes s1 - reservation)\<rparr>))"

text \<open>The entry, the flight and whether the site is open.\<close>

definition image_lookup ::
  "ref \<Rightarrow> imageCacheKey \<Rightarrow> time \<Rightarrow> imageCacheRuntime \<Rightarrow> imageCacheRuntime \<times> ref option \<times> ref option \<times> bool" where
  "image_lookup i key now s =
     (if site_closed (site_at s i) then (s, None, None, False)
      else let (s1, e) = image_getLocked i key now s in (s1, e, mget (site_flights (site_at s1 i)) key, True))"

text \<open>
  The answers of \<open>lookupOrBegin\<close>: the cache cannot be used, an entry, a flight of another request to
  wait for, or a flight of this request. The new flight is the object \<open>f\<close>.
\<close>

datatype begin_answer = Unavailable | Hit ref | Follow ref | Lead ref

definition lookupOrBegin ::
  "ref \<Rightarrow> imageCacheKey \<Rightarrow> time \<Rightarrow> ref \<Rightarrow> imageCacheRuntime \<Rightarrow> (imageCacheRuntime \<times> begin_answer) option" where
  "lookupOrBegin i key now f s =
     (if site_closed (site_at s i) then Some (s, Unavailable)
      else case image_getLocked i key now s of
        (s1, Some x) \<Rightarrow> Some (s1, Hit x)
      | (s1, None) \<Rightarrow>
          (case mget (site_flights (site_at s1 i)) key of
             Some g \<Rightarrow> Some (s1, Follow g)
           | None \<Rightarrow> Option.bind (reserveFlightLocked i key s1) (\<lambda>(s2, reservation).
               if reservation \<le> 0 then Some (s2, Unavailable)
               else Some (on_site i (\<lambda>st. st\<lparr>site_flights := mput key f (site_flights st)\<rparr>)
                      (on_flight f (\<lambda>_. \<lparr>closings = 0, flight_stored = False, reservedBytes = reservation,
                                         captureStarted = False\<rparr>) s2), Lead f))))"

definition beginFlightCapture ::
  "ref \<Rightarrow> imageCacheKey \<Rightarrow> ref \<Rightarrow> imageCacheRuntime \<Rightarrow> imageCacheRuntime \<times> int option" where
  "beginFlightCapture i key f s =
     (if site_closed (site_at s i) \<or> mget (site_flights (site_at s i)) key \<noteq> Some f \<or>
         reservedBytes (flight_at s f) \<le> 0 then (s, None)
      else (on_flight f (captureStarted_update (\<lambda>_. True)) s, Some (reservedBytes (flight_at s f))))"

definition close_done :: "ref \<Rightarrow> imageCacheRuntime \<Rightarrow> imageCacheRuntime" where
  "close_done f = on_flight f (\<lambda>fl. fl\<lparr>closings := closings fl + 1\<rparr>)"

definition entry_fits :: "imageCacheKey \<Rightarrow> ref \<Rightarrow> ref option \<Rightarrow> imageCacheRuntime \<Rightarrow> bool" where
  "entry_fits key f e s =
     (case e of None \<Rightarrow> False
      | Some x \<Rightarrow> entry_cost (entry_at s x) \<le> reservedBytes (flight_at s f) \<and>
          imageCacheKeyBytes key \<le> reservedBytes (flight_at s f) - entry_cost (entry_at s x))"

definition finishFlight ::
  "ref \<Rightarrow> imageCacheKey \<Rightarrow> ref \<Rightarrow> ref option \<Rightarrow> time \<Rightarrow> imageCacheRuntime \<Rightarrow> imageCacheRuntime option" where
  "finishFlight i key f e now s =
     (if mget (site_flights (site_at s i)) key \<noteq> Some f then Some (releaseFlightReservationLocked i f s)
      else
        let s1 = releaseFlightReservationLocked i f s;
            s2 = (if entry_fits key f e s
                  then map_option (\<lambda>(t, kept). on_flight f (flight_stored_update (\<lambda>_. kept)) t)
                         (image_storeLocked i key (the e) now s1)
                  else Some s1)
        in map_option (\<lambda>t. close_done f (on_site i (\<lambda>st. st\<lparr>site_flights := mdel key (site_flights st)\<rparr>) t)) s2)"

partial_function (option) clear_site :: "ref \<Rightarrow> imageCacheRuntime \<Rightarrow> imageCacheRuntime option" where
  "clear_site i s =
     (case site_tail (site_at s i) of None \<Rightarrow> Some s | Some x \<Rightarrow> clear_site i (image_remove x s))"

fun close_flights :: "ref \<Rightarrow> (imageCacheKey \<times> ref) list \<Rightarrow> imageCacheRuntime \<Rightarrow> imageCacheRuntime" where
  "close_flights i [] s = s"
| "close_flights i ((key, f) # rest) s =
     (let s1 = (if captureStarted (flight_at s f) then s else releaseFlightReservationLocked i f s);
          s2 = on_site i (\<lambda>st. st\<lparr>site_flights := mdel key (site_flights st)\<rparr>) s1
      in close_flights i rest (close_done f s2))"

definition image_site_close :: "ref \<Rightarrow> imageCacheRuntime \<Rightarrow> imageCacheRuntime option" where
  "image_site_close i s =
     (if site_closed (site_at s i) then Some s
      else map_option (\<lambda>t. close_flights i (site_flights (site_at t i)) t)
             (clear_site i (on_site i (site_closed_update (\<lambda>_. True)) s)))"

declare evict_site.simps [code] evict_process.simps [code] reserve_loop.simps [code] clear_site.simps [code]

end
