(* ===== verification/Image_Order.thy ===== *)
theory Image_Order
  imports Image_Cache
begin

text \<open>
  The invariant of the store of the image cache: one recency order \<open>gs\<close> of all entries, of which the
  list of a site is the part the site owns, the index of every site, and the byte counters, which are the
  costs of the entries and the bytes \<open>h i\<close> that flights of site \<open>i\<close> (\<open>H\<close> in all) hold in reserve.
  Removal, lookup, eviction, insertion and reservation keep it and return.
\<close>

section \<open>What the pointer operations leave alone\<close>

definition bare :: "imageCacheEntry \<Rightarrow> imageCacheEntry" where
  "bare e = e\<lparr>globalPrev := None, globalNext := None, sitePrev := None, siteNext := None\<rparr>"

definition same_objects :: "imageCacheRuntime \<Rightarrow> imageCacheRuntime \<Rightarrow> bool" where
  "same_objects s t \<longleftrightarrow> (\<forall>x. bare (entry_at t x) = bare (entry_at s x)) \<and> flight_at t = flight_at s \<and>
     (\<forall>i. site_flights (site_at t i) = site_flights (site_at s i) \<and> site_closed (site_at t i) = site_closed (site_at s i) \<and>
          site_siteID (site_at t i) = site_siteID (site_at s i)) \<and>
     maxProcessBytes t = maxProcessBytes s \<and> maxSiteBytes t = maxSiteBytes s \<and> cache_ttl t = cache_ttl s"

lemma bare_links [simp]: "bare (globalPrev_update f e) = bare e" "bare (globalNext_update f e) = bare e"
  "bare (sitePrev_update f e) = bare e" "bare (siteNext_update f e) = bare e"
  by (simp_all add: bare_def)

lemma bare_fields: "bare e' = bare e \<Longrightarrow> entry_key e' = entry_key e \<and> entry_owner e' = entry_owner e \<and>
    entry_header e' = entry_header e \<and> entry_body e' = entry_body e \<and> responseAt e' = responseAt e \<and>
    initialAge e' = initialAge e \<and> expiresAt e' = expiresAt e \<and> entry_cost e' = entry_cost e"
  by (cases e; cases e') (simp add: bare_def)

lemma same_objects_fields:
  assumes "same_objects s t"
  shows "entry_key (entry_at t x) = entry_key (entry_at s x)" "entry_owner (entry_at t x) = entry_owner (entry_at s x)"
    "entry_header (entry_at t x) = entry_header (entry_at s x)" "entry_body (entry_at t x) = entry_body (entry_at s x)"
    "expiresAt (entry_at t x) = expiresAt (entry_at s x)" "entry_cost (entry_at t x) = entry_cost (entry_at s x)"
    "flight_at t = flight_at s" "site_flights (site_at t i) = site_flights (site_at s i)"
    "site_closed (site_at t i) = site_closed (site_at s i)" "maxProcessBytes t = maxProcessBytes s"
    "maxSiteBytes t = maxSiteBytes s"
proof -
  have "bare (entry_at t x) = bare (entry_at s x)"
    using assms by (simp add: same_objects_def)
  note b = bare_fields[OF this]
  show "entry_key (entry_at t x) = entry_key (entry_at s x)" "entry_owner (entry_at t x) = entry_owner (entry_at s x)"
    "entry_header (entry_at t x) = entry_header (entry_at s x)" "entry_body (entry_at t x) = entry_body (entry_at s x)"
    "expiresAt (entry_at t x) = expiresAt (entry_at s x)" "entry_cost (entry_at t x) = entry_cost (entry_at s x)"
    using b by simp_all
qed (use assms in \<open>simp_all add: same_objects_def\<close>)

lemma same_objects_refl [simp]: "same_objects s s"
  by (simp add: same_objects_def)

lemma same_objects_trans: "same_objects s t \<Longrightarrow> same_objects t u \<Longrightarrow> same_objects s u"
  by (simp add: same_objects_def)

lemma same_on_entry: "same_objects s t \<Longrightarrow> (\<And>e. bare (f e) = bare e) \<Longrightarrow> same_objects s (on_entry x f t)"
  by (simp add: same_objects_def on_entry_def)

lemma same_on_site: "same_objects s t \<Longrightarrow>
    (\<And>e. site_flights (f e) = site_flights e \<and> site_closed (f e) = site_closed e \<and> site_siteID (f e) = site_siteID e) \<Longrightarrow>
    same_objects s (on_site i f t)"
  by (simp add: same_objects_def on_site_def)

lemma same_ends: "same_objects s t \<Longrightarrow> same_objects s (t\<lparr>globalHead := h\<rparr>)"
  "same_objects s t \<Longrightarrow> same_objects s (t\<lparr>globalTail := h\<rparr>)"
  "same_objects s t \<Longrightarrow> same_objects s (t\<lparr>process_bytes := n\<rparr>)"
  by (simp_all add: same_objects_def)

lemmas same_intros = same_on_entry same_on_site same_ends same_objects_refl

lemma site_nodes_on_entry: "(\<And>e. siteNext (f e) = siteNext e \<and> sitePrev (f e) = sitePrev e) \<Longrightarrow>
    site_nodes i (on_entry x f s) = site_nodes i s"
  by (auto simp: site_nodes_def on_entry_def)

lemma process_nodes_on_entry: "(\<And>e. globalNext (f e) = globalNext e \<and> globalPrev (f e) = globalPrev e) \<Longrightarrow>
    process_nodes (on_entry x f s) = process_nodes s"
  by (auto simp: process_nodes_def on_entry_def)

lemma nodes_elsewhere [simp]: "site_nodes i (s\<lparr>globalHead := h\<rparr>) = site_nodes i s"
  "site_nodes i (s\<lparr>globalTail := h\<rparr>) = site_nodes i s" "site_nodes i (s\<lparr>process_bytes := n\<rparr>) = site_nodes i s"
  "process_nodes (on_site i f s) = process_nodes s" "process_nodes (s\<lparr>process_bytes := n\<rparr>) = process_nodes s"
  "site_at (on_entry x g s) = site_at s" "process_bytes (on_entry x g s) = process_bytes s"
  "process_bytes (on_site i f s) = process_bytes s" "entry_at (on_site i f s) = entry_at s"
  "flight_at (on_site i f s) = flight_at s" "flight_at (on_entry x g s) = flight_at s"
  by (simp_all add: site_nodes_def process_nodes_def object_simps)

lemma site_at_on_site: "site_at (on_site i f s) j = (if j = i then f (site_at s i) else site_at s j)"
  by (simp add: on_site_def)

lemma site_nodes_on_site: "(\<And>e. site_head (f e) = site_head e \<and> site_tail (f e) = site_tail e) \<Longrightarrow>
    site_nodes j (on_site i f s) = site_nodes j s"
  by (simp add: site_nodes_def on_site_def)

lemma unlinkGlobal_same:
  "same_objects s (unlinkGlobal x s)" "site_at (unlinkGlobal x s) = site_at s"
  "process_bytes (unlinkGlobal x s) = process_bytes s" "site_nodes i (unlinkGlobal x s) = site_nodes i s"
  by (auto simp: unlinkGlobal_def Let_def site_nodes_on_entry intro!: same_intros split: option.splits)

lemma linkGlobalFront_same:
  "same_objects s (linkGlobalFront x s)" "site_at (linkGlobalFront x s) = site_at s"
  "process_bytes (linkGlobalFront x s) = process_bytes s" "site_nodes i (linkGlobalFront x s) = site_nodes i s"
  by (auto simp: linkGlobalFront_def Let_def site_nodes_on_entry intro!: same_intros split: option.splits)

lemma site_unlink_same:
  "same_objects s (site_unlink i x s)" "process_bytes (site_unlink i x s) = process_bytes s"
  "process_nodes (site_unlink i x s) = process_nodes s"
  "site_entries (site_at (site_unlink i x s) j) = site_entries (site_at s j)"
  "site_bytes (site_at (site_unlink i x s) j) = site_bytes (site_at s j)"
  "j \<noteq> i \<Longrightarrow> site_at (site_unlink i x s) j = site_at s j"
  by (auto simp: site_unlink_def Let_def process_nodes_on_entry site_at_on_site intro!: same_intros split: option.splits)

lemma site_linkFront_same:
  "same_objects s (site_linkFront i x s)" "process_bytes (site_linkFront i x s) = process_bytes s"
  "process_nodes (site_linkFront i x s) = process_nodes s"
  "site_entries (site_at (site_linkFront i x s) j) = site_entries (site_at s j)"
  "site_bytes (site_at (site_linkFront i x s) j) = site_bytes (site_at s j)"
  "j \<noteq> i \<Longrightarrow> site_at (site_linkFront i x s) j = site_at s j"
  by (auto simp: site_linkFront_def Let_def process_nodes_on_entry site_at_on_site intro!: same_intros split: option.splits)

lemma site_links_shared: "next_node (site_nodes j s) = next_node (site_nodes i s)" "prev_node (site_nodes j s) = prev_node (site_nodes i s)"
  by (simp_all add: site_nodes_def)

text \<open>Cutting or pushing a node of one site leaves the lists of the other sites as they are.\<close>

lemma site_unlink_keeps:
  assumes "holds_nodes (site_nodes i s) xs" "x \<in> set xs" "holds_nodes (site_nodes j s) ys" "j \<noteq> i" "set xs \<inter> set ys = {}"
  shows "holds_nodes (site_nodes j (site_unlink i x s)) ys"
proof (rule holds_nodes_cong[OF assms(3)])
  fix y assume "y \<in> set ys"
  then have "y \<notin> set xs"
    using assms(5) by blast
  then show "next_node (site_nodes j (site_unlink i x s)) y = next_node (site_nodes j s) y \<and>
      prev_node (site_nodes j (site_unlink i x s)) y = prev_node (site_nodes j s) y"
    using cut_node_other[OF assms(1,2)] site_list.nodes_cut[of i x s]
    by (simp add: site_links_shared[of j _ i])
qed (use assms(4) in \<open>simp_all add: site_nodes_def site_unlink_same\<close>)

lemma site_linkFront_keeps:
  assumes "holds_nodes (site_nodes i s) xs" "holds_nodes (site_nodes j s) ys" "j \<noteq> i"
    and "set (x # xs) \<inter> set ys = {}"
  shows "holds_nodes (site_nodes j (site_linkFront i x s)) ys"
proof (rule holds_nodes_cong[OF assms(2)])
  fix y assume "y \<in> set ys"
  then have "y \<notin> set (x # xs)"
    using assms(4) by blast
  then show "next_node (site_nodes j (site_linkFront i x s)) y = next_node (site_nodes j s) y \<and>
      prev_node (site_nodes j (site_linkFront i x s)) y = prev_node (site_nodes j s) y"
    using push_node_other[OF assms(1)] site_list.nodes_push[of i x s]
    by (simp add: site_links_shared[of j _ i])
qed (use assms(3) in \<open>simp_all add: site_nodes_def site_linkFront_same\<close>)

section \<open>The invariant of the store\<close>

definition owned :: "imageCacheRuntime \<Rightarrow> ref \<Rightarrow> ref \<Rightarrow> bool" where
  "owned s i x \<longleftrightarrow> entry_owner (entry_at s x) = Some i"

definition cost_of :: "imageCacheRuntime \<Rightarrow> ref list \<Rightarrow> int" where
  "cost_of s xs = (\<Sum>x\<leftarrow>xs. entry_cost (entry_at s x))"

definition store_inv :: "imageCacheRuntime \<Rightarrow> ref list \<Rightarrow> (ref \<Rightarrow> int) \<Rightarrow> int \<Rightarrow> bool" where
  "store_inv s gs h H \<longleftrightarrow>
     holds_nodes (process_nodes s) gs \<and>
     (\<forall>i. holds_nodes (site_nodes i s) (filter (owned s i) gs)) \<and>
     (\<forall>i k x. mget (site_entries (site_at s i)) k = Some x \<longleftrightarrow>
        x \<in> set gs \<and> owned s i x \<and> entry_key (entry_at s x) = k) \<and>
     (\<forall>x\<in>set gs. (\<exists>i. owned s i x) \<and> 0 \<le> entry_cost (entry_at s x)) \<and>
     (\<forall>i. site_bytes (site_at s i) = cost_of s (filter (owned s i) gs) + h i \<and> 0 \<le> h i) \<and>
     process_bytes s = cost_of s gs + H \<and> 0 \<le> H"

lemma store_invI:
  assumes "holds_nodes (process_nodes s) gs" "\<And>i. holds_nodes (site_nodes i s) (filter (owned s i) gs)"
    "\<And>i k x. mget (site_entries (site_at s i)) k = Some x \<longleftrightarrow> x \<in> set gs \<and> owned s i x \<and> entry_key (entry_at s x) = k"
    "\<And>x. x \<in> set gs \<Longrightarrow> (\<exists>i. owned s i x) \<and> 0 \<le> entry_cost (entry_at s x)"
    "\<And>i. site_bytes (site_at s i) = cost_of s (filter (owned s i) gs) + h i \<and> 0 \<le> h i"
    "process_bytes s = cost_of s gs + H" "0 \<le> H"
  shows "store_inv s gs h H"
  using assms by (simp add: store_inv_def)

lemma store_invD:
  assumes "store_inv s gs h H"
  shows "holds_nodes (process_nodes s) gs" "holds_nodes (site_nodes i s) (filter (owned s i) gs)"
    "mget (site_entries (site_at s i)) k = Some x \<longleftrightarrow> x \<in> set gs \<and> owned s i x \<and> entry_key (entry_at s x) = k"
    "x \<in> set gs \<Longrightarrow> \<exists>i. owned s i x" "x \<in> set gs \<Longrightarrow> 0 \<le> entry_cost (entry_at s x)"
    "site_bytes (site_at s i) = cost_of s (filter (owned s i) gs) + h i" "0 \<le> h i"
    "process_bytes s = cost_of s gs + H" "0 \<le> H" "distinct gs"
  using assms by (simp_all add: store_inv_def holds_nodes_def)

lemma owned_unique: "owned s i x \<Longrightarrow> owned s j x \<longleftrightarrow> j = i"
  by (auto simp: owned_def)

lemma same_owned: "same_objects s t \<Longrightarrow> owned t = owned s"
  by (simp add: owned_def same_objects_fields fun_eq_iff)

lemma same_cost: "same_objects s t \<Longrightarrow> cost_of t = cost_of s"
  by (simp add: cost_of_def same_objects_fields fun_eq_iff)

lemma cost_of_simps [simp]: "cost_of s [] = 0" "cost_of s (x # xs) = entry_cost (entry_at s x) + cost_of s xs"
  "cost_of s (xs @ ys) = cost_of s xs + cost_of s ys"
  by (simp_all add: cost_of_def)

lemma cost_of_remove1: "x \<in> set xs \<Longrightarrow> cost_of s (remove1 x xs) = cost_of s xs - entry_cost (entry_at s x)"
  by (induction xs) auto

lemma cost_of_nonneg: "(\<And>x. x \<in> set xs \<Longrightarrow> 0 \<le> entry_cost (entry_at s x)) \<Longrightarrow> 0 \<le> cost_of s xs"
  by (induction xs) (auto simp: add_nonneg_nonneg)

text \<open>What a state with the counters \<open>h\<close> and \<open>H\<close> has in use.\<close>

lemma removed_bytes:
  assumes "store_inv s gs h H" "x \<in> set gs" "owned s i x"
  shows "max 0 (process_bytes s - entry_cost (entry_at s x)) = cost_of s (remove1 x gs) + H"
    and "max 0 (site_bytes (site_at s i) - entry_cost (entry_at s x)) = cost_of s (filter (owned s i) (remove1 x gs)) + h i"
proof -
  note inv = store_invD[OF assms(1)]
  have nn: "0 \<le> cost_of s (remove1 x gs)" "0 \<le> cost_of s (filter (owned s i) (remove1 x gs))"
    by (rule cost_of_nonneg; use inv(5) set_remove1_subset[of x gs] in auto)+
  show "max 0 (process_bytes s - entry_cost (entry_at s x)) = cost_of s (remove1 x gs) + H"
    using nn(1) inv(8,9) assms(2) by (simp add: cost_of_remove1)
  show "max 0 (site_bytes (site_at s i) - entry_cost (entry_at s x)) = cost_of s (filter (owned s i) (remove1 x gs)) + h i"
    using nn(2) inv(6)[of i] inv(7)[of i] assms(2,3) by (simp add: filter_remove1 cost_of_remove1)
qed

section \<open>Removal\<close>

lemma image_remove_open:
  assumes "store_inv s gs h H" "x \<in> set gs" "owned s i x" "k = entry_key (entry_at s x)"
  shows "image_remove x s =
    on_site i (\<lambda>st. st\<lparr>site_bytes := max 0 (site_bytes st - entry_cost (entry_at s x))\<rparr>)
      ((site_unlink i x (unlinkGlobal x (on_site i (\<lambda>st. st\<lparr>site_entries := mdel k (site_entries st)\<rparr>) s)))
        \<lparr>process_bytes := max 0 (process_bytes s - entry_cost (entry_at s x))\<rparr>)"
  using assms store_invD(3)[OF assms(1), of i k x]
  by (simp add: image_remove_def owned_def Let_def site_unlink_same unlinkGlobal_same)

lemma image_remove_same: "same_objects s (image_remove x s)"
proof -
  have "same_objects s (site_unlink i x (unlinkGlobal x (on_site i (\<lambda>st. st\<lparr>site_entries := g st\<rparr>) s)))" for i g
    by (rule same_objects_trans[OF same_objects_trans[OF same_on_site[OF same_objects_refl] unlinkGlobal_same(1)]
          site_unlink_same(1)]) simp
  then show ?thesis
    by (auto simp: image_remove_def Let_def intro!: same_intros split: option.splits)
qed

lemma image_remove_inv:
  assumes inv: "store_inv s gs h H" and x: "x \<in> set gs"
  shows "store_inv (image_remove x s) (remove1 x gs) h H"
proof -
  note I = store_invD[OF inv]
  obtain i where i: "owned s i x"
    using I(4)[OF x] by blast
  define k where "k = entry_key (entry_at s x)"
  note open_remove = image_remove_open[OF inv x i k_def]
  let ?s1 = "on_site i (\<lambda>st. st\<lparr>site_entries := mdel k (site_entries st)\<rparr>) s"
  let ?t = "image_remove x s"
  note same = image_remove_same[of s x]
  note eqs = same_owned[OF same] same_cost[OF same] same_objects_fields[OF same]
  have s1: "site_nodes j ?s1 = site_nodes j s" for j
    by (rule site_nodes_on_site) simp
  have t: "site_nodes j ?t = site_nodes j (site_unlink i x (unlinkGlobal x ?s1))" for j
    unfolding open_remove by (subst site_nodes_on_site) simp_all
  have pt: "process_nodes ?t = process_nodes (unlinkGlobal x ?s1)"
    unfolding open_remove by (simp add: site_unlink_same)
  have xi: "x \<in> set (filter (owned s i) gs)"
    using x i by simp
  have same1: "site_nodes j (unlinkGlobal x ?s1) = site_nodes j s" for j
    by (simp add: unlinkGlobal_same s1)
  show ?thesis
  proof (rule store_invI)
    show "holds_nodes (process_nodes ?t) (remove1 x gs)"
      unfolding pt using process_list.cut_order[of ?s1 gs x] I(1) x by simp
    fix j
    show "holds_nodes (site_nodes j ?t) (filter (owned ?t j) (remove1 x gs))"
    proof (cases "j = i")
      case True
      then show ?thesis
        using site_list.cut_order[of i "unlinkGlobal x ?s1", OF _ xi] I(2)[of i]
        by (simp add: t same1 eqs filter_remove1)
    next
      case False
      then have "\<not> owned s j x"
        using i by (simp add: owned_def)
      moreover have "holds_nodes (site_nodes j (site_unlink i x (unlinkGlobal x ?s1))) (filter (owned s j) gs)"
        by (rule site_unlink_keeps[of _ _ "filter (owned s i) gs"]) (use I(2) xi False in \<open>auto simp: same1 owned_def\<close>)
      ultimately show ?thesis
        by (simp add: t eqs filter_remove1 remove1_filter_not)
    qed
    show "site_bytes (site_at ?t j) = cost_of ?t (filter (owned ?t j) (remove1 x gs)) + h j \<and> 0 \<le> h j"
    proof (cases "j = i")
      case True
      then show ?thesis
        using removed_bytes(2)[OF inv x i] I(7)[of j] unfolding eqs
        by (simp add: open_remove site_at_on_site site_unlink_same unlinkGlobal_same)
    next
      case False
      then have "\<not> owned s j x"
        using i by (simp add: owned_def)
      then show ?thesis
        using I(6)[of j] I(7)[of j] False unfolding eqs
        by (simp add: open_remove site_at_on_site site_unlink_same unlinkGlobal_same filter_remove1 remove1_filter_not)
    qed
    show "mget (site_entries (site_at ?t j)) k' = Some y \<longleftrightarrow>
        y \<in> set (remove1 x gs) \<and> owned ?t j y \<and> entry_key (entry_at ?t y) = k'" for k' y
      using I(3)[of j k' y] I(3)[of i k x] I(3)[of i k y] I(10) x i unfolding eqs
      by (auto simp: open_remove site_at_on_site site_unlink_same unlinkGlobal_same k_def set_remove1_eq owned_def)
  next
    fix y assume "y \<in> set (remove1 x gs)"
    then have "y \<in> set gs"
      using set_remove1_subset[of x gs] by blast
    then show "(\<exists>j. owned ?t j y) \<and> 0 \<le> entry_cost (entry_at ?t y)"
      using I(4,5) by (simp add: eqs)
  next
    show "process_bytes ?t = cost_of ?t (remove1 x gs) + H"
      using removed_bytes(1)[OF inv x i] unfolding eqs by (simp add: open_remove)
  qed (rule I(9))
qed

lemma image_remove_bytes:
  assumes "store_inv s gs h H" "x \<in> set gs"
  shows "site_bytes (site_at (image_remove x s) j) \<le> site_bytes (site_at s j)"
    and "process_bytes (image_remove x s) \<le> process_bytes s"
proof -
  obtain i where i: "owned s i x"
    using store_invD(4)[OF assms] by blast
  have "0 \<le> site_bytes (site_at s j)" "0 \<le> process_bytes s" for j
    using store_invD(5-9)[OF assms(1)] by (auto intro!: add_nonneg_nonneg cost_of_nonneg)
  then show "site_bytes (site_at (image_remove x s) j) \<le> site_bytes (site_at s j)"
    "process_bytes (image_remove x s) \<le> process_bytes s"
    using store_invD(5)[OF assms]
    by (simp_all add: image_remove_open[OF assms i refl] site_at_on_site site_unlink_same unlinkGlobal_same)
qed

section \<open>Moving an entry to the front and inserting one\<close>

lemma image_touch_inv:
  assumes inv: "store_inv s gs h H" and x: "x \<in> set gs" "owned s i x"
    and t: "t = site_linkFront i x (site_unlink i x (linkGlobalFront x (unlinkGlobal x s)))"
  shows "store_inv t (x # remove1 x gs) h H" "same_objects s t"
    "site_entries (site_at t j) = site_entries (site_at s j)" "site_bytes (site_at t j) = site_bytes (site_at s j)"
    "process_bytes t = process_bytes s"
proof -
  note I = store_invD[OF inv]
  define u where "u = linkGlobalFront x (unlinkGlobal x s)"
  have su: "same_objects s u"
    unfolding u_def by (rule same_objects_trans[OF unlinkGlobal_same(1) linkGlobalFront_same(1)])
  show st: "same_objects s t"
    unfolding t u_def[symmetric] by (rule same_objects_trans[OF same_objects_trans[OF su site_unlink_same(1)] site_linkFront_same(1)])
  note eqs = same_owned[OF st] same_cost[OF st] same_objects_fields[OF st]
  show entries: "site_entries (site_at t j) = site_entries (site_at s j)"
    and bytes: "site_bytes (site_at t j) = site_bytes (site_at s j)"
    and process: "process_bytes t = process_bytes s" for j
    by (simp_all add: t site_linkFront_same site_unlink_same linkGlobalFront_same unlinkGlobal_same)
  have nu: "site_nodes j u = site_nodes j s" for j
    by (simp add: u_def linkGlobalFront_same unlinkGlobal_same)
  have xi: "x \<in> set (filter (owned s i) gs)"
    using x by simp
  have dist: "distinct (filter (owned s i) gs)"
    using I(10) by simp
  show "store_inv t (x # remove1 x gs) h H"
  proof (rule store_invI)
    show "holds_nodes (process_nodes t) (x # remove1 x gs)"
      using process_list.touch_order[OF I(1) x(1)] by (simp add: t site_linkFront_same site_unlink_same)
    fix j
    show "holds_nodes (site_nodes j t) (filter (owned t j) (x # remove1 x gs))"
    proof (cases "j = i")
      case True
      then show ?thesis
        using site_list.touch_order[of i u, OF _ xi] I(2)[of i] x
        by (simp add: t u_def[symmetric] nu filter_remove1 eqs[unfolded t u_def[symmetric]])
    next
      case False
      have "holds_nodes (site_nodes j (site_unlink i x u)) (filter (owned s j) gs)"
        by (rule site_unlink_keeps[of _ _ "filter (owned s i) gs"]) (use I(2) xi False in \<open>auto simp: nu owned_def\<close>)
      moreover have "holds_nodes (site_nodes i (site_unlink i x u)) (remove1 x (filter (owned s i) gs))"
        by (rule site_list.cut_order) (use I(2) xi in \<open>auto simp: nu\<close>)
      moreover have "\<not> owned s j x"
        using x(2) False by (simp add: owned_def)
      ultimately have "holds_nodes (site_nodes j (site_linkFront i x (site_unlink i x u))) (filter (owned s j) gs)"
        using False set_remove1_subset[of x "filter (owned s i) gs"]
        by (intro site_linkFront_keeps[of _ _ "remove1 x (filter (owned s i) gs)"])
           (auto simp: owned_def dest!: subsetD)
      then show ?thesis
        using \<open>\<not> owned s j x\<close>
        by (simp add: t u_def[symmetric] eqs[unfolded t u_def[symmetric]] filter_remove1 remove1_filter_not)
    qed
    show "mget (site_entries (site_at t j)) k = Some y \<longleftrightarrow>
        y \<in> set (x # remove1 x gs) \<and> owned t j y \<and> entry_key (entry_at t y) = k" for k y
      using I(3)[of j k y] I(10) x by (auto simp: entries eqs set_remove1_eq)
    show "site_bytes (site_at t j) = cost_of t (filter (owned t j) (x # remove1 x gs)) + h j \<and> 0 \<le> h j"
      using I(6)[of j] I(7)[of j] x by (auto simp: bytes eqs filter_remove1 cost_of_remove1 remove1_filter_not)
  next
    fix y assume "y \<in> set (x # remove1 x gs)"
    then have "y \<in> set gs"
      using x(1) set_remove1_subset[of x gs] by auto
    then show "(\<exists>j. owned t j y) \<and> 0 \<le> entry_cost (entry_at t y)"
      using I(4,5) by (simp add: eqs)
  next
    show "process_bytes t = cost_of t (x # remove1 x gs) + H"
      using I(8) x(1) by (simp add: process eqs cost_of_remove1)
  qed (rule I(9))
qed

lemma image_insert_inv:
  assumes inv: "store_inv s gs h H" and x: "x \<notin> set gs" "owned s i x" "entry_key (entry_at s x) = key"
    "0 \<le> entry_cost (entry_at s x)" and free: "mget (site_entries (site_at s i)) key = None"
  shows "store_inv (image_insert i key x s) (x # gs) h H" "same_objects s (image_insert i key x s)"
    "site_bytes (site_at (image_insert i key x s) j) =
      site_bytes (site_at s j) + (if j = i then entry_cost (entry_at s x) else 0)"
    "process_bytes (image_insert i key x s) = process_bytes s + entry_cost (entry_at s x)"
proof -
  note I = store_invD[OF inv]
  define s1 where "s1 = on_site i (\<lambda>st. st\<lparr>site_entries := mput key x (site_entries st)\<rparr>) s"
  define u where "u = linkGlobalFront x (site_linkFront i x s1)"
  let ?t = "image_insert i key x s"
  have "same_objects s s1"
    unfolding s1_def by (rule same_on_site[OF same_objects_refl]) simp
  then have su: "same_objects s u"
    unfolding u_def by (rule same_objects_trans[OF same_objects_trans[OF _ site_linkFront_same(1)] linkGlobalFront_same(1)])
  have t: "?t = on_site i (\<lambda>st. st\<lparr>site_bytes := site_bytes st + entry_cost (entry_at s x)\<rparr>) u
      \<lparr>process_bytes := process_bytes u + entry_cost (entry_at s x)\<rparr>"
    by (simp add: image_insert_def Let_def s1_def[symmetric] u_def[symmetric] same_objects_fields[OF su])
  show st: "same_objects s ?t"
    unfolding t by (intro same_intros su) simp
  note eqs = same_owned[OF st] same_cost[OF st] same_objects_fields[OF st]
  show bytes: "site_bytes (site_at ?t j) = site_bytes (site_at s j) + (if j = i then entry_cost (entry_at s x) else 0)"
    and process: "process_bytes ?t = process_bytes s + entry_cost (entry_at s x)" for j
    by (simp_all add: t site_at_on_site u_def linkGlobalFront_same site_linkFront_same s1_def)
  have entries: "site_entries (site_at ?t j) = (if j = i then mput key x (site_entries (site_at s i)) else site_entries (site_at s j))" for j
    by (simp add: t site_at_on_site u_def linkGlobalFront_same site_linkFront_same s1_def)
  have n1: "site_nodes j s1 = site_nodes j s" for j
    unfolding s1_def by (rule site_nodes_on_site) simp
  have nt: "site_nodes j ?t = site_nodes j (site_linkFront i x s1)" for j
  proof -
    have "site_nodes j ?t = site_nodes j u"
      unfolding t by (simp add: site_nodes_on_site)
    then show ?thesis
      by (simp add: u_def linkGlobalFront_same)
  qed
  show "store_inv ?t (x # gs) h H"
  proof (rule store_invI)
    show "holds_nodes (process_nodes ?t) (x # gs)"
      unfolding t using process_list.push_order[of "site_linkFront i x s1" gs x] I(1) x(1)
      by (simp add: u_def site_linkFront_same s1_def)
    fix j
    show "holds_nodes (site_nodes j ?t) (filter (owned ?t j) (x # gs))"
    proof (cases "j = i")
      case True
      then show ?thesis
        using site_list.push_order[of i s1 "filter (owned s i) gs" x] I(2)[of i] x(1,2)
        by (simp add: nt n1 eqs)
    next
      case False
      moreover have "\<not> owned s j x"
        using x(2) False by (simp add: owned_def)
      moreover have "holds_nodes (site_nodes j (site_linkFront i x s1)) (filter (owned s j) gs)"
        by (rule site_linkFront_keeps[of _ _ "filter (owned s i) gs"])
          (use I(2) x False in \<open>auto simp: n1 owned_def\<close>)
      ultimately show ?thesis
        by (simp add: nt eqs)
    qed
    show "mget (site_entries (site_at ?t j)) k = Some y \<longleftrightarrow>
        y \<in> set (x # gs) \<and> owned ?t j y \<and> entry_key (entry_at ?t y) = k" for k y
      using I(3)[of j k y] free x by (auto simp: entries eqs owned_def)
    show "site_bytes (site_at ?t j) = cost_of ?t (filter (owned ?t j) (x # gs)) + h j \<and> 0 \<le> h j"
      using I(6)[of j] I(7)[of j] x(2) unfolding bytes eqs by (auto simp: owned_def)
    show "(\<exists>j. owned ?t j y) \<and> 0 \<le> entry_cost (entry_at ?t y)" if "y \<in> set (x # gs)" for y
      using that I(4,5) x(2,4) by (auto simp: eqs)
  next
    show "process_bytes ?t = cost_of ?t (x # gs) + H"
      using I(8) unfolding process eqs by simp
  qed (rule I(9))
qed

end
