(* ===== verification/Image_Eviction.thy ===== *)
theory Image_Eviction
  imports Image_Order
begin

text \<open>
  The loop of the image cache that makes room for a flight, against a reference on plain lists: drop the
  oldest entries of the site until the site has room, then the oldest of all until the process has. The loop
  returns, and closing a site empties its list.
\<close>

section \<open>The reference\<close>

text \<open>
  \<open>make_room c P short xs\<close> drops from the front of \<open>xs\<close>, the oldest first, elements with
  \<open>P\<close> until their costs cover \<open>short\<close>, and tells whether they do.
\<close>

fun make_room :: "('a \<Rightarrow> int) \<Rightarrow> ('a \<Rightarrow> bool) \<Rightarrow> int \<Rightarrow> 'a list \<Rightarrow> 'a list \<times> bool" where
  "make_room c P short [] = ([], short \<le> 0)"
| "make_room c P short (x # xs) =
     (if short \<le> 0 then (x # xs, True)
      else if P x then make_room c P (short - c x) xs
      else let (ys, ok) = make_room c P short xs in (x # ys, ok))"

definition total_cost :: "('a \<Rightarrow> int) \<Rightarrow> 'a list \<Rightarrow> int" where
  "total_cost c xs = (\<Sum>x\<leftarrow>xs. c x)"

text \<open>
  The entries that remain and the bytes granted, \<open>0\<close> when there is no room: \<open>held\<close> and \<open>H\<close> are the bytes
  in reserve in the site and in all, \<open>own\<close> tells the entries of the site.
\<close>

definition reserve_room ::
  "('a \<Rightarrow> int) \<Rightarrow> ('a \<Rightarrow> bool) \<Rightarrow> int \<Rightarrow> int \<Rightarrow> int \<Rightarrow> int \<Rightarrow> int \<Rightarrow> int \<Rightarrow> 'a list \<Rightarrow> 'a list \<times> int" where
  "reserve_room c own minimum target max_site max_process held H xs =
     (let (ys, site_ok) = make_room c own (minimum + 1 - (max_site - (total_cost c (filter own xs) + held))) xs in
      if \<not> site_ok then (ys, 0)
      else
        let (zs, ok) = make_room c (\<lambda>_. True) (minimum + 1 - (max_process - (total_cost c ys + H))) ys in
        if \<not> ok then (zs, 0)
        else (zs, min target (min (max_site - (total_cost c (filter own zs) + held)) (max_process - (total_cost c zs + H)))))"

lemma make_room_enough [simp]: "short \<le> 0 \<Longrightarrow> make_room c P short xs = (xs, True)"
  by (cases xs) simp_all

lemma make_room_step: "filter P xs \<noteq> [] \<Longrightarrow> distinct xs \<Longrightarrow> 0 < short \<Longrightarrow> x = hd (filter P xs) \<Longrightarrow>
    make_room c P short xs = make_room c P (short - c x) (remove1 x xs)"
proof (induction xs)
  case (Cons a xs)
  show ?case
  proof (cases "P a")
    case False
    have "x \<in> set (filter P xs)"
      using Cons.prems(1,4) False hd_in_set[of "filter P xs"] by auto
    then have "x \<noteq> a"
      using False by auto
    then show ?thesis
      using Cons False by (auto simp: Let_def case_prod_unfold)
  qed (use Cons.prems in auto)
qed simp

lemma make_room_none: "filter P xs = [] \<Longrightarrow> 0 < short \<Longrightarrow> make_room c P short xs = (xs, False)"
  by (induction xs) (auto split: if_splits)

lemma make_room_map: "make_room c P short (map f xs) = (let (ys, ok) = make_room (\<lambda>x. c (f x)) (\<lambda>x. P (f x)) short xs in (map f ys, ok))"
  by (induction xs arbitrary: short) (auto simp: Let_def case_prod_unfold)

lemma total_cost_map [simp]: "total_cost c (map f xs) = total_cost (\<lambda>x. c (f x)) xs"
  by (simp add: total_cost_def comp_def)

lemma total_cost_rev [simp]: "total_cost c (rev xs) = total_cost c xs"
  by (simp add: total_cost_def rev_map[symmetric] sum_list_rev)

lemma cost_of_rev [simp]: "cost_of s (rev xs) = cost_of s xs"
  by (simp add: cost_of_def rev_map[symmetric] sum_list_rev)

lemma total_cost_cost_of [simp]: "total_cost (\<lambda>x. entry_cost (entry_at s x)) xs = cost_of s xs"
  by (simp add: total_cost_def cost_of_def)

lemma reserve_room_map: "reserve_room c own m tg ms mp hs H (map f xs) =
    (let (ys, r) = reserve_room (\<lambda>x. c (f x)) (\<lambda>x. own (f x)) m tg ms mp hs H xs in (map f ys, r))"
  by (simp add: reserve_room_def make_room_map filter_map comp_def Let_def case_prod_unfold)

section \<open>The loop\<close>

definition reserve_order ::
  "imageCacheRuntime \<Rightarrow> ref \<Rightarrow> int \<Rightarrow> int \<Rightarrow> (ref \<Rightarrow> int) \<Rightarrow> int \<Rightarrow> ref list \<Rightarrow> ref list \<times> int" where
  "reserve_order s i minimum target h H gs =
     (let (ys, r) = reserve_room (\<lambda>x. entry_cost (entry_at s x)) (owned s i) minimum target
                      (maxSiteBytes s) (maxProcessBytes s) (h i) H (rev gs) in (rev ys, r))"

lemma reserve_order_same: "same_objects s t \<Longrightarrow> reserve_order t = reserve_order s"
  by (simp add: reserve_order_def same_objects_fields same_owned fun_eq_iff)

lemma site_tail_order: "store_inv s gs h H \<Longrightarrow>
    site_tail (site_at s i) = (if filter (owned s i) gs = [] then None else Some (last (filter (owned s i) gs)))"
  using site_list.oldest[of i s "filter (owned s i) gs"] store_invD(2)[of s gs h H i] by (simp add: site_nodes_def)

lemma global_tail_order: "store_inv s gs h H \<Longrightarrow> globalTail s = (if gs = [] then None else Some (last gs))"
  using process_list.oldest[of s gs] store_invD(1)[of s gs h H] by (simp add: process_nodes_def)

lemma last_owned: "filter (owned s i) gs \<noteq> [] \<Longrightarrow> last (filter (owned s i) gs) \<in> set gs \<and> owned s i (last (filter (owned s i) gs))"
  using last_in_set[of "filter (owned s i) gs"] by auto

lemma rev_remove1: "distinct xs \<Longrightarrow> rev (remove1 x xs) = remove1 x (rev xs)"
  by (simp add: distinct_remove1_removeAll rev_filter removeAll_filter_not_eq)

text \<open>One turn of the loop on the reference.\<close>

lemma reserve_order_site:
  assumes inv: "store_inv s gs h H" and full: "maxSiteBytes s - site_bytes (site_at s i) \<le> m"
    and x: "site_tail (site_at s i) = Some x"
  shows "reserve_order s i m tg h H gs = reserve_order s i m tg h H (remove1 x gs)"
proof -
  let ?c = "\<lambda>x. entry_cost (entry_at s x)" and ?own = "owned s i"
  note I = store_invD[OF inv]
  have ne: "filter ?own gs \<noteq> []" and xl: "x = last (filter ?own gs)"
    using site_tail_order[OF inv, of i] x by (auto split: if_splits)
  have xs: "x \<in> set gs" "?own x"
    using last_owned[OF ne] xl by simp_all
  have hd: "x = hd (filter ?own (rev gs))"
    using ne xl by (simp add: rev_filter[symmetric] hd_rev)
  have step: "make_room ?c ?own (m + 1 - (maxSiteBytes s - (cost_of s (filter ?own gs) + h i))) (rev gs) =
      make_room ?c ?own (m + 1 - (maxSiteBytes s - (cost_of s (filter ?own (remove1 x gs)) + h i))) (rev (remove1 x gs))"
    using make_room_step[of ?own "rev gs" "m + 1 - (maxSiteBytes s - (cost_of s (filter ?own gs) + h i))" x ?c]
      ne hd full I(6)[of i] I(10) xs
    by (simp add: rev_filter[symmetric] rev_remove1 filter_remove1 cost_of_remove1 algebra_simps)
  show ?thesis
    by (simp add: reserve_order_def reserve_room_def rev_filter[symmetric] step)
qed

lemma reserve_order_process:
  assumes inv: "store_inv s gs h H" and room: "m < maxSiteBytes s - site_bytes (site_at s i)"
    and full: "maxProcessBytes s - process_bytes s \<le> m" and x: "globalTail s = Some x"
  shows "reserve_order s i m tg h H gs = reserve_order s i m tg h H (remove1 x gs)"
proof -
  let ?c = "\<lambda>x. entry_cost (entry_at s x)" and ?own = "owned s i"
  note I = store_invD[OF inv]
  have xl: "gs \<noteq> []" "x = last gs"
    using global_tail_order[OF inv] x by (auto split: if_splits)
  then have xs: "x \<in> set gs" "x = hd (rev gs)"
    by (simp_all add: hd_rev)
  have room': "m + 1 - (maxSiteBytes s - (cost_of s (filter ?own (remove1 x gs)) + h i)) \<le> 0"
    using room I(5,6)[of i] I(5)[OF xs(1)] xs(1)
    by (cases "?own x") (simp_all add: filter_remove1 cost_of_remove1 remove1_filter_not)
  have step: "make_room ?c (\<lambda>_. True) (m + 1 - (maxProcessBytes s - (cost_of s gs + H))) (rev gs) =
      make_room ?c (\<lambda>_. True) (m + 1 - (maxProcessBytes s - (cost_of s (remove1 x gs) + H))) (rev (remove1 x gs))"
    using make_room_step[of "\<lambda>_. True" "rev gs" "m + 1 - (maxProcessBytes s - (cost_of s gs + H))" x ?c]
      xl xs full I(8) I(10)
    by (simp add: rev_remove1 cost_of_remove1 algebra_simps)
  show ?thesis
    using room room' I(6)[of i] by (simp add: reserve_order_def reserve_room_def rev_filter[symmetric] step)
qed


lemma reserve_loop_returns:
  assumes "store_inv s gs h H" "0 \<le> m" "m < tg"
  shows "\<exists>t r gs'. reserve_loop i m tg s = Some (t, r) \<and> store_inv t gs' (h(i := h i + r)) (H + r) \<and> same_objects s t \<and>
    reserve_order s i m tg h H gs = (gs', r) \<and> set gs' \<subseteq> set gs \<and> 0 \<le> r \<and> r \<le> tg \<and>
    (\<forall>j. j \<noteq> i \<longrightarrow> site_bytes (site_at t j) \<le> site_bytes (site_at s j)) \<and>
    (if r = 0 then site_bytes (site_at t i) \<le> site_bytes (site_at s i) \<and> process_bytes t \<le> process_bytes s
     else site_bytes (site_at t i) \<le> maxSiteBytes s \<and> process_bytes t \<le> maxProcessBytes s)"
  using assms
proof (induction "length gs" arbitrary: gs s rule: less_induct)
  case less
  note inv = less.prems(1) and bounds = less.prems(2,3)
  note I = store_invD[OF inv]
  let ?site = "maxSiteBytes s - site_bytes (site_at s i)" and ?process = "maxProcessBytes s - process_bytes s"
  have again: ?case if x: "x \<in> set gs" and loop: "reserve_loop i m tg s = reserve_loop i m tg (image_remove x s)"
    and ord: "reserve_order s i m tg h H gs = reserve_order s i m tg h H (remove1 x gs)" for x
  proof -
    note same = image_remove_same[of s x]
    note less_bytes = image_remove_bytes[OF inv x]
    have "length (remove1 x gs) < length gs"
      using x length_pos_if_in_set[of x gs] by (simp add: length_remove1)
    from less.hyps[OF this image_remove_inv[OF inv x] bounds]
    obtain t r gs' where t: "reserve_loop i m tg (image_remove x s) = Some (t, r)"
        "store_inv t gs' (h(i := h i + r)) (H + r)" "same_objects (image_remove x s) t"
        "reserve_order (image_remove x s) i m tg h H (remove1 x gs) = (gs', r)" "set gs' \<subseteq> set (remove1 x gs)" "0 \<le> r" "r \<le> tg"
        "\<And>j. j \<noteq> i \<Longrightarrow> site_bytes (site_at t j) \<le> site_bytes (site_at (image_remove x s) j)"
        "if r = 0 then site_bytes (site_at t i) \<le> site_bytes (site_at (image_remove x s) i) \<and> process_bytes t \<le> process_bytes (image_remove x s)
         else site_bytes (site_at t i) \<le> maxSiteBytes (image_remove x s) \<and> process_bytes t \<le> maxProcessBytes (image_remove x s)"
      by auto
    have "same_objects s t"
      by (rule same_objects_trans[OF same t(3)])
    moreover have "set gs' \<subseteq> set gs"
      using t(5) set_remove1_subset[of x gs] by (rule subset_trans)
    moreover have "site_bytes (site_at t j) \<le> site_bytes (site_at s j)" if "j \<noteq> i" for j
      using t(8)[OF that] less_bytes(1)[of j] by (rule order_trans)
    moreover have "if r = 0 then site_bytes (site_at t i) \<le> site_bytes (site_at s i) \<and> process_bytes t \<le> process_bytes s
         else site_bytes (site_at t i) \<le> maxSiteBytes s \<and> process_bytes t \<le> maxProcessBytes s"
      using t(9) less_bytes(1)[of i] less_bytes(2) by (auto simp: same_objects_fields[OF same] split: if_splits)
    ultimately show ?thesis
      using t(1,2,4,6,7) loop ord by (auto simp: reserve_order_same[OF same])
  qed
  have stop: ?case if loop: "reserve_loop i m tg s = Some (s, 0)" and ord: "reserve_order s i m tg h H gs = (gs, 0)"
    using loop ord inv bounds by auto
  consider (free) "m < min ?site ?process" | (site) "?site \<le> m" | (process) "m < ?site" "?process \<le> m"
    by fastforce
  then show ?case
  proof cases
    case free
    define r where r_def: "r = min tg (min ?site ?process)"
    let ?t = "(on_site i (\<lambda>st. st\<lparr>site_bytes := site_bytes st + r\<rparr>) s)\<lparr>process_bytes := process_bytes s + r\<rparr>"
    have same: "same_objects s ?t"
      by (intro same_intros) simp
    note eqs = same_owned[OF same] same_cost[OF same] same_objects_fields[OF same]
    have r: "0 < r"
      using free bounds by (simp add: r_def)
    have "r \<le> tg"
      by (simp add: r_def)
    have loop: "reserve_loop i m tg s = Some (?t, r)"
      using free by (subst reserve_loop.simps) (simp add: Let_def r_def)
    have nodes: "site_nodes j ?t = site_nodes j s" for j
      by (simp add: site_nodes_on_site)
    have "store_inv ?t gs (h(i := h i + r)) (H + r)"
    proof (rule store_invI)
      show "holds_nodes (process_nodes ?t) gs" "\<And>j. holds_nodes (site_nodes j ?t) (filter (owned ?t j) gs)"
        using I(1,2) by (simp_all only: nodes eqs) simp
      show "mget (site_entries (site_at ?t j)) k = Some x \<longleftrightarrow> x \<in> set gs \<and> owned ?t j x \<and> entry_key (entry_at ?t x) = k" for j k x
        unfolding eqs using I(3)[of j k x] by (auto simp: site_at_on_site)
      show "(\<exists>j. owned ?t j x) \<and> 0 \<le> entry_cost (entry_at ?t x)" if "x \<in> set gs" for x
        unfolding eqs using I(4,5) that by blast
      show "site_bytes (site_at ?t j) = cost_of ?t (filter (owned ?t j) gs) + (h(i := h i + r)) j \<and> 0 \<le> (h(i := h i + r)) j" for j
        unfolding eqs using I(6,7)[of j] r by (auto simp: site_at_on_site intro!: add_nonneg_nonneg)
      show "process_bytes ?t = cost_of ?t gs + (H + r)" "0 \<le> H + r"
        unfolding eqs using I(8,9) r by simp_all
    qed
    moreover have "reserve_order s i m tg h H gs = (gs, r)"
      using free I(6)[of i] I(8) by (simp add: reserve_order_def reserve_room_def rev_filter[symmetric] r_def)
    moreover have "site_bytes (site_at ?t i) \<le> maxSiteBytes s" "process_bytes ?t \<le> maxProcessBytes s"
      "\<And>j. j \<noteq> i \<Longrightarrow> site_bytes (site_at ?t j) \<le> site_bytes (site_at s j)"
      by (simp_all add: site_at_on_site r_def min_def)
    ultimately show ?thesis
      using loop r \<open>r \<le> tg\<close> same by (intro exI[of _ ?t] exI[of _ r] exI[of _ gs]) simp
  next
    case site
    show ?thesis
    proof (cases "site_tail (site_at s i)")
      case None
      then have "filter (owned s i) gs = []"
        using site_tail_order[OF inv, of i] by (auto split: if_splits)
      then have "reserve_order s i m tg h H gs = (gs, 0)"
        using make_room_none[of "owned s i" "rev gs" "m + 1 - (maxSiteBytes s - h i)" "\<lambda>x. entry_cost (entry_at s x)"] site I(6)[of i]
        by (simp add: reserve_order_def reserve_room_def rev_filter[symmetric])
      then show ?thesis
        using site None by (intro stop, subst reserve_loop.simps) (simp_all add: Let_def)
    next
      case (Some x)
      then have "x \<in> set gs"
        using site_tail_order[OF inv, of i] last_owned[of s i gs] by (auto split: if_splits)
      moreover have "reserve_loop i m tg s = reserve_loop i m tg (image_remove x s)"
        using site Some by (subst reserve_loop.simps) (simp add: Let_def)
      ultimately show ?thesis
        by (rule again) (rule reserve_order_site[OF inv site Some])
    qed
  next
    case process
    show ?thesis
    proof (cases "globalTail s")
      case None
      then have "gs = []"
        using global_tail_order[OF inv] by (auto split: if_splits)
      then have "reserve_order s i m tg h H gs = (gs, 0)"
        using process I(6)[of i] I(8) by (simp add: reserve_order_def reserve_room_def)
      then show ?thesis
        using process None by (intro stop, subst reserve_loop.simps) (simp_all add: Let_def)
    next
      case (Some x)
      then have "x \<in> set gs"
        using global_tail_order[OF inv] by (auto split: if_splits)
      moreover have "reserve_loop i m tg s = reserve_loop i m tg (image_remove x s)"
        using process Some by (subst reserve_loop.simps) (simp add: Let_def)
      ultimately show ?thesis
        by (rule again) (rule reserve_order_process[OF inv process Some])
    qed
  qed
qed

text \<open>Closing a site removes exactly its entries.\<close>

lemma clear_site_returns:
  assumes "store_inv s gs h H"
  shows "\<exists>t. clear_site i s = Some t \<and> store_inv t (filter (\<lambda>x. \<not> owned s i x) gs) h H \<and> same_objects s t \<and>
    (\<forall>j. site_bytes (site_at t j) \<le> site_bytes (site_at s j)) \<and> process_bytes t \<le> process_bytes s"
  using assms
proof (induction "length gs" arbitrary: gs s rule: less_induct)
  case less
  note inv = less.prems
  show ?case
  proof (cases "site_tail (site_at s i)")
    case None
    then have "filter (\<lambda>x. \<not> owned s i x) gs = gs"
      using site_tail_order[OF inv, of i] by (auto simp: filter_empty_conv split: if_splits)
    then show ?thesis
      using None inv by (subst clear_site.simps) simp
  next
    case (Some x)
    then have x: "x \<in> set gs" "owned s i x"
      using site_tail_order[OF inv, of i] last_owned[of s i gs] by (auto split: if_splits)
    note same = image_remove_same[of s x]
    note less_bytes = image_remove_bytes[OF inv x(1)]
    have "length (remove1 x gs) < length gs"
      using x length_pos_if_in_set[of x gs] by (simp add: length_remove1)
    from less.hyps[OF this image_remove_inv[OF inv x(1)]]
    obtain t where t: "clear_site i (image_remove x s) = Some t"
        "store_inv t (filter (\<lambda>x. \<not> owned s i x) (remove1 x gs)) h H" "same_objects (image_remove x s) t"
        "\<And>j. site_bytes (site_at t j) \<le> site_bytes (site_at (image_remove x s) j)"
        "process_bytes t \<le> process_bytes (image_remove x s)"
      by (auto simp: same_owned[OF same])
    have "same_objects s t"
      by (rule same_objects_trans[OF same t(3)])
    moreover have "filter (\<lambda>x. \<not> owned s i x) (remove1 x gs) = filter (\<lambda>x. \<not> owned s i x) gs"
      using x(2) by (simp add: filter_remove1 remove1_filter_not)
    moreover have "site_bytes (site_at t j) \<le> site_bytes (site_at s j)" for j
      using t(4)[of j] less_bytes(1)[of j] by (rule order_trans)
    moreover have "process_bytes t \<le> process_bytes s"
      using t(5) less_bytes(2) by (rule order_trans)
    moreover have "clear_site i s = Some t"
      using Some t(1) by (subst clear_site.simps) simp
    ultimately show ?thesis
      using t(2) by auto
  qed
qed

end
