(* ===== verification/Image_Flights.thy ===== *)
theory Image_Flights
  imports Image_Eviction
begin

text \<open>
  The image cache as its users see it: a list of cached responses, the most recently used first, and the
  bytes the running flights hold. The lookup, the reservation, the publication and the release of the
  pointer structure act on that list as the functions below say.
\<close>

section \<open>The list of cached responses\<close>

record cached_item =
  item_site :: ref
  item_key :: imageCacheKey
  item_cost :: int
  item_expires :: time
  item_header :: http_header
  item_body :: string

definition is_item :: "ref \<Rightarrow> imageCacheKey \<Rightarrow> cached_item \<Rightarrow> bool" where
  "is_item i k it \<longleftrightarrow> item_site it = i \<and> item_key it = k"

definition lru_remove :: "ref \<Rightarrow> imageCacheKey \<Rightarrow> cached_item list \<Rightarrow> cached_item list" where
  "lru_remove i k its = filter (\<lambda>it. \<not> is_item i k it) its"

definition lru_get :: "ref \<Rightarrow> imageCacheKey \<Rightarrow> time \<Rightarrow> cached_item list \<Rightarrow> cached_item list \<times> cached_item option" where
  "lru_get i k now its =
     (case filter (is_item i k) its of [] \<Rightarrow> (its, None)
      | it # _ \<Rightarrow> if now < item_expires it then (it # lru_remove i k its, Some it) else (lru_remove i k its, None))"

definition item_of :: "imageCacheRuntime \<Rightarrow> ref \<Rightarrow> cached_item" where
  "item_of s x = (let e = entry_at s x in
     \<lparr>item_site = the (entry_owner e), item_key = entry_key e, item_cost = entry_cost e,
      item_expires = expiresAt e, item_header = entry_header e, item_body = entry_body e\<rparr>)"

lemma item_of_simps [simp]: "item_site (item_of s x) = the (entry_owner (entry_at s x))"
  "item_key (item_of s x) = entry_key (entry_at s x)" "item_cost (item_of s x) = entry_cost (entry_at s x)"
  "item_expires (item_of s x) = expiresAt (entry_at s x)" "item_header (item_of s x) = entry_header (entry_at s x)"
  "item_body (item_of s x) = entry_body (entry_at s x)"
  by (simp_all add: item_of_def Let_def)

lemma same_item: "same_objects s t \<Longrightarrow> item_of t = item_of s"
  by (simp add: item_of_def Let_def same_objects_fields fun_eq_iff)

lemma is_item_ref: "store_inv s gs h H \<Longrightarrow> x \<in> set gs \<Longrightarrow>
    is_item i k (item_of s x) \<longleftrightarrow> mget (site_entries (site_at s i)) k = Some x"
  using store_invD(3)[of s gs h H i k x] store_invD(4)[of s gs h H x] by (auto simp: is_item_def owned_def)

lemma filter_one: "distinct xs \<Longrightarrow> x \<in> set xs \<Longrightarrow> filter (\<lambda>y. y = x) xs = [x]"
  by (induction xs) (auto simp: filter_empty_conv)

lemma item_site_is: "store_inv s gs h H \<Longrightarrow> x \<in> set gs \<Longrightarrow> item_site (item_of s x) = i \<longleftrightarrow> owned s i x"
  using store_invD(4)[of s gs h H x] by (auto simp: owned_def)

text \<open>The index of a site finds exactly the response of the list.\<close>

lemma lru_index:
  assumes inv: "store_inv s gs h H"
  shows "mget (site_entries (site_at s i)) k = None \<Longrightarrow> filter (is_item i k) (map (item_of s) gs) = []"
    and "mget (site_entries (site_at s i)) k = None \<Longrightarrow> lru_remove i k (map (item_of s) gs) = map (item_of s) gs"
    and "mget (site_entries (site_at s i)) k = Some x \<Longrightarrow> filter (is_item i k) (map (item_of s) gs) = [item_of s x]"
    and "mget (site_entries (site_at s i)) k = Some x \<Longrightarrow> lru_remove i k (map (item_of s) gs) = map (item_of s) (remove1 x gs)"
proof -
  note ref = is_item_ref[OF inv, of _ i k]
  show "mget (site_entries (site_at s i)) k = None \<Longrightarrow> filter (is_item i k) (map (item_of s) gs) = []"
    by (auto simp: filter_empty_conv ref)
  show "mget (site_entries (site_at s i)) k = None \<Longrightarrow> lru_remove i k (map (item_of s) gs) = map (item_of s) gs"
    by (auto simp: lru_remove_def ref intro!: filter_True)
  assume x: "mget (site_entries (site_at s i)) k = Some x"
  then have xs: "x \<in> set gs"
    using store_invD(3)[OF inv] by blast
  have "filter (\<lambda>y. is_item i k (item_of s y)) gs = filter (\<lambda>y. y = x) gs"
    by (rule filter_cong) (auto simp: ref x)
  then show "filter (is_item i k) (map (item_of s) gs) = [item_of s x]"
    using filter_one[OF store_invD(10)[OF inv] xs] by (simp add: filter_map comp_def)
  have "filter (\<lambda>y. \<not> is_item i k (item_of s y)) gs = filter (\<lambda>y. y \<noteq> x) gs"
    by (rule filter_cong) (auto simp: ref x)
  then show "lru_remove i k (map (item_of s) gs) = map (item_of s) (remove1 x gs)"
    using store_invD(10)[OF inv]
    by (simp add: lru_remove_def filter_map comp_def distinct_remove1_removeAll removeAll_filter_not_eq eq_commute)
qed

section \<open>Lookup\<close>

text \<open>No counter of \<open>t\<close> is above the one of \<open>s\<close>.\<close>

definition not_more_bytes :: "imageCacheRuntime \<Rightarrow> imageCacheRuntime \<Rightarrow> bool" where
  "not_more_bytes s t \<longleftrightarrow> (\<forall>j. site_bytes (site_at t j) \<le> site_bytes (site_at s j)) \<and> process_bytes t \<le> process_bytes s"

lemma image_getLocked_lru:
  assumes inv: "store_inv s gs h H" and get: "image_getLocked i k now s = (t, e)"
  obtains gs' where "store_inv t gs' h H" "same_objects s t" "set gs' \<subseteq> set gs" "not_more_bytes s t"
    "lru_get i k now (map (item_of s) gs) = (map (item_of s) gs', map_option (item_of s) e)"
    "\<And>x. e = Some x \<Longrightarrow> mget (site_entries (site_at t i)) k = Some x \<and> now < expiresAt (entry_at t x)"
proof (cases "mget (site_entries (site_at s i)) k")
  case None
  then have "t = s" "e = None"
    using get by (simp_all add: image_getLocked_def)
  then show ?thesis
    using that[of gs] inv None by (simp add: lru_get_def lru_index[OF inv] not_more_bytes_def)
next
  case (Some x)
  then have x: "x \<in> set gs" "owned s i x"
    using store_invD(3)[OF inv] by blast+
  show ?thesis
  proof (cases "now < expiresAt (entry_at s x)")
    case False
    then have t: "t = image_remove x s" "e = None"
      using get Some by (simp_all add: image_getLocked_def)
    show ?thesis
      by (rule that[of "remove1 x gs"])
        (use t False Some image_remove_inv[OF inv x(1)] image_remove_same[of s x] image_remove_bytes[OF inv x(1)] set_remove1_subset[of x gs]
         in \<open>simp_all add: lru_get_def lru_index[OF inv] not_more_bytes_def\<close>)
  next
    case True
    then have t: "t = site_linkFront i x (site_unlink i x (linkGlobalFront x (unlinkGlobal x s)))" "e = Some x"
      using get Some by (simp_all add: image_getLocked_def)
    note touch = image_touch_inv[OF inv x t(1)]
    show ?thesis
      by (rule that[of "x # remove1 x gs"])
        (use t(2) True Some touch x set_remove1_subset[of x gs]
         in \<open>auto simp: lru_get_def lru_index[OF inv] not_more_bytes_def same_objects_fields[OF touch(2)]\<close>)
  qed
qed

section \<open>Reservation\<close>

definition lru_reserve ::
  "ref \<Rightarrow> imageCacheKey \<Rightarrow> int \<Rightarrow> int \<Rightarrow> int \<Rightarrow> int \<Rightarrow> cached_item list \<Rightarrow> cached_item list \<times> int" where
  "lru_reserve i k max_site max_process held H its =
     (let target = min (min (imageCacheMaximumFlightReservation k) max_site) max_process in
      if max_process \<le> 0 \<or> max_site \<le> 0 \<or> target \<le> flight_minimum k then (its, 0)
      else let (old, r) = reserve_room item_cost (\<lambda>it. item_site it = i) (flight_minimum k) target
                            max_site max_process held H (rev its) in (rev old, r))"

lemma flight_minimum_pos: "0 < flight_minimum k"
  by (simp add: flight_minimum_def imageCacheEntryOverhead_def imageCacheKeyBytes_def imageCacheContentLengthReservationBytes_def)

lemma make_room_cong: "(\<And>x. x \<in> set xs \<Longrightarrow> P x = Q x) \<Longrightarrow> make_room c P short xs = make_room c Q short xs"
  by (induction xs arbitrary: short) auto

lemma make_room_subset: "set (fst (make_room c P short xs)) \<subseteq> set xs"
  by (induction xs arbitrary: short) (auto simp: Let_def case_prod_unfold subset_iff)

lemma reserve_room_cong:
  assumes "\<And>x. x \<in> set xs \<Longrightarrow> P x = Q x"
  shows "reserve_room c P m tg ms mp hs H xs = reserve_room c Q m tg ms mp hs H xs"
proof -
  have f: "filter P ys = filter Q ys" if "set ys \<subseteq> set xs" for ys
    using that assms by (auto intro: filter_cong)
  have *: "make_room c P short xs = make_room c Q short xs" for short
    by (rule make_room_cong) (rule assms)
  have "filter P (fst (make_room c (\<lambda>_. True) a (fst (make_room c Q b xs)))) =
      filter Q (fst (make_room c (\<lambda>_. True) a (fst (make_room c Q b xs))))" for a b
    by (rule f, rule subset_trans[OF make_room_subset make_room_subset])
  then show ?thesis
    by (simp add: reserve_room_def Let_def case_prod_unfold f *)
qed

lemma lru_reserve_order:
  assumes "store_inv s gs h H"
  shows "reserve_room item_cost (\<lambda>it. item_site it = i) m tg (maxSiteBytes s) (maxProcessBytes s) (h i) H (rev (map (item_of s) gs)) =
    (let (ys, r) = reserve_order s i m tg h H gs in (rev (map (item_of s) ys), r))"
proof -
  have "reserve_room (\<lambda>x. entry_cost (entry_at s x)) (\<lambda>x. the (entry_owner (entry_at s x)) = i) m tg ms mp (h i) H (rev gs) =
      reserve_room (\<lambda>x. entry_cost (entry_at s x)) (owned s i) m tg ms mp (h i) H (rev gs)" for ms mp
    by (rule reserve_room_cong) (use item_site_is[OF assms] in simp)
  then show ?thesis
    by (simp add: reserve_room_map rev_map reserve_order_def Let_def case_prod_unfold)
qed

text \<open>A reservation the loop grants keeps both limits; one it refuses takes nothing.\<close>

lemma reserveFlightLocked_lru:
  assumes inv: "store_inv s gs h H"
  obtains t r gs' where "reserveFlightLocked i k s = Some (t, r)" "store_inv t gs' (h(i := h i + r)) (H + r)"
    "same_objects s t" "set gs' \<subseteq> set gs" "0 \<le> r"
    "lru_reserve i k (maxSiteBytes s) (maxProcessBytes s) (h i) H (map (item_of s) gs) = (map (item_of s) gs', r)"
    "\<And>j. j \<noteq> i \<or> r = 0 \<Longrightarrow> site_bytes (site_at t j) \<le> site_bytes (site_at s j)" "r = 0 \<Longrightarrow> process_bytes t \<le> process_bytes s"
    "0 < r \<Longrightarrow> site_bytes (site_at t i) \<le> maxSiteBytes s \<and> process_bytes t \<le> maxProcessBytes s \<and> 0 < maxSiteBytes s \<and> 0 < maxProcessBytes s"
proof (cases "maxProcessBytes s \<le> 0 \<or> maxSiteBytes s \<le> 0 \<or> flight_target k s \<le> flight_minimum k")
  case True
  then have "reserveFlightLocked i k s = Some (s, 0)"
    by (auto simp: reserveFlightLocked_def)
  then show ?thesis
    using True inv by (intro that[of s 0 gs]) (auto simp: lru_reserve_def flight_target_def)
next
  case False
  then have "flight_minimum k < flight_target k s"
    by simp
  from reserve_loop_returns[OF inv less_imp_le[OF flight_minimum_pos] this, where i = i]
  obtain t r gs' where t: "reserve_loop i (flight_minimum k) (flight_target k s) s = Some (t, r)"
      "store_inv t gs' (h(i := h i + r)) (H + r)" "same_objects s t"
      "reserve_order s i (flight_minimum k) (flight_target k s) h H gs = (gs', r)" "set gs' \<subseteq> set gs" "0 \<le> r"
      "\<And>j. j \<noteq> i \<Longrightarrow> site_bytes (site_at t j) \<le> site_bytes (site_at s j)"
      "if r = 0 then site_bytes (site_at t i) \<le> site_bytes (site_at s i) \<and> process_bytes t \<le> process_bytes s
       else site_bytes (site_at t i) \<le> maxSiteBytes s \<and> process_bytes t \<le> maxProcessBytes s"
    by auto
  have "lru_reserve i k (maxSiteBytes s) (maxProcessBytes s) (h i) H (map (item_of s) gs) = (map (item_of s) gs', r)"
    using False t(4) lru_reserve_order[OF inv, of i "flight_minimum k" "flight_target k s"]
    by (simp add: lru_reserve_def flight_target_def)
  moreover have "site_bytes (site_at t j) \<le> site_bytes (site_at s j)" if "j \<noteq> i \<or> r = 0" for j
    using t(7)[of j] t(8) that by (cases "j = i") auto
  ultimately show ?thesis
    using t(1-3,5,6,8) False by (intro that[of t r gs']) (auto simp: reserveFlightLocked_def split: if_splits)
qed


section \<open>Release and publication\<close>

lemma release_simps:
  "entry_at (releaseFlightReservationLocked i f s) = entry_at s"
  "process_nodes (releaseFlightReservationLocked i f s) = process_nodes s"
  "site_nodes j (releaseFlightReservationLocked i f s) = site_nodes j s"
  "site_entries (site_at (releaseFlightReservationLocked i f s) j) = site_entries (site_at s j)"
  "site_flights (site_at (releaseFlightReservationLocked i f s) j) = site_flights (site_at s j)"
  "site_closed (site_at (releaseFlightReservationLocked i f s) j) = site_closed (site_at s j)"
  "maxSiteBytes (releaseFlightReservationLocked i f s) = maxSiteBytes s"
  "maxProcessBytes (releaseFlightReservationLocked i f s) = maxProcessBytes s"
  by (auto simp: releaseFlightReservationLocked_def Let_def object_simps site_nodes_def process_nodes_def)

lemma release_flights:
  "0 \<le> reservedBytes (flight_at s f) \<Longrightarrow> flight_at (releaseFlightReservationLocked i f s) =
    (flight_at s)(f := (flight_at s f)\<lparr>reservedBytes := 0\<rparr>)"
  by (auto simp: releaseFlightReservationLocked_def Let_def object_simps fun_eq_iff)

lemma release_inv:
  assumes inv: "store_inv s gs h H" and r: "r = reservedBytes (flight_at s f)" "0 \<le> r" "r \<le> h i" "r \<le> H"
  shows "store_inv (releaseFlightReservationLocked i f s) gs (h(i := h i - r)) (H - r)"
    "site_bytes (site_at (releaseFlightReservationLocked i f s) j) = site_bytes (site_at s j) - (if j = i then r else 0)"
    "process_bytes (releaseFlightReservationLocked i f s) = process_bytes s - r"
proof -
  note I = store_invD[OF inv]
  let ?t = "releaseFlightReservationLocked i f s"
  have nn: "0 \<le> cost_of s gs" "0 \<le> cost_of s (filter (owned s j) gs)" for j
    by (rule cost_of_nonneg; use I(5) in auto)+
  have eqs: "owned ?t = owned s" "cost_of ?t = cost_of s"
    by (simp_all add: owned_def cost_of_def release_simps fun_eq_iff)
  show bytes: "site_bytes (site_at ?t j) = site_bytes (site_at s j) - (if j = i then r else 0)" for j
    using r I(6)[of i] nn(2)[of i] by (auto simp: releaseFlightReservationLocked_def Let_def object_simps)
  show process: "process_bytes ?t = process_bytes s - r"
    using r I(8) nn(1) by (auto simp: releaseFlightReservationLocked_def Let_def object_simps)
  show "store_inv ?t gs (h(i := h i - r)) (H - r)"
  proof (rule store_invI)
    show "site_bytes (site_at ?t j) = cost_of ?t (filter (owned ?t j) gs) + (h(i := h i - r)) j \<and> 0 \<le> (h(i := h i - r)) j" for j
      using I(6,7)[of j] r unfolding bytes eqs by auto
  qed (use I(1-5,8,9) r in \<open>simp_all add: eqs process release_simps\<close>)
qed

lemma on_entry_fresh:
  assumes inv: "store_inv s gs h H" and x: "x \<notin> set gs"
  shows "store_inv (on_entry x g s) gs h H" "y \<in> set gs \<Longrightarrow> item_of (on_entry x g s) y = item_of s y"
proof -
  note I = store_invD[OF inv]
  let ?t = "on_entry x g s"
  have at: "entry_at ?t y = entry_at s y" if "y \<in> set gs" for y
    using x that by (auto simp: on_entry_def)
  then have own: "filter (owned ?t j) gs = filter (owned s j) gs" for j
    by (intro filter_cong) (auto simp: owned_def)
  have cost: "cost_of ?t ys = cost_of s ys" if "set ys \<subseteq> set gs" for ys
    using that by (induction ys) (auto simp: at)
  show "store_inv ?t gs h H"
  proof (rule store_invI)
    show "holds_nodes (process_nodes ?t) gs"
      by (rule holds_nodes_cong[OF I(1)]) (auto simp: process_nodes_def on_entry_def x)
    fix j
    show "holds_nodes (site_nodes j ?t) (filter (owned ?t j) gs)"
      unfolding own by (rule holds_nodes_cong[OF I(2)]) (auto simp: site_nodes_def on_entry_def x)
    show "mget (site_entries (site_at ?t j)) k = Some y \<longleftrightarrow> y \<in> set gs \<and> owned ?t j y \<and> entry_key (entry_at ?t y) = k" for k y
      using I(3)[of j k y] at[of y] by (auto simp: owned_def)
    show "site_bytes (site_at ?t j) = cost_of ?t (filter (owned ?t j) gs) + h j \<and> 0 \<le> h j"
      using I(6,7)[of j] by (simp add: own cost)
    show "(\<exists>j. owned ?t j y) \<and> 0 \<le> entry_cost (entry_at ?t y)" if "y \<in> set gs" for y
      using I(4,5)[OF that] at[OF that] by (simp add: owned_def)
  qed (use I(8,9) in \<open>simp_all add: cost\<close>)
  show "y \<in> set gs \<Longrightarrow> item_of ?t y = item_of s y"
    using at by (simp add: item_of_def)
qed

text \<open>
  Publishing an entry whose place was reserved: it becomes the most recent response, an older one of its
  key goes, no other is evicted.
\<close>

lemma image_storeLocked_lru:
  assumes inv: "store_inv s gs h H" and x: "x \<notin> set gs" "0 \<le> entry_cost (entry_at s x)"
    and c: "c = entry_cost (entry_at s x) + imageCacheKeyBytes k"
    and room: "site_bytes (site_at s i) + c \<le> maxSiteBytes s" "process_bytes s + c \<le> maxProcessBytes s"
  obtains t kept gs' where "image_storeLocked i k x now s = Some (t, kept)" "store_inv t gs' h H"
    "set gs' \<subseteq> insert x (set gs)" "kept \<Longrightarrow> gs' \<noteq> [] \<and> hd gs' = x"
    "flight_at t = flight_at s" "maxSiteBytes t = maxSiteBytes s" "maxProcessBytes t = maxProcessBytes s"
    "\<And>j. site_flights (site_at t j) = site_flights (site_at s j) \<and> site_closed (site_at t j) = site_closed (site_at s j)"
    "\<And>j. site_bytes (site_at t j) \<le> site_bytes (site_at s j) + (if j = i then c else 0)"
    "process_bytes t \<le> process_bytes s + c"
    "kept \<longleftrightarrow> \<not> site_closed (site_at s i) \<and> now < expiresAt (entry_at s x) \<and> 0 < maxProcessBytes s \<and> 0 < maxSiteBytes s"
    "map (item_of t) gs' = (if kept
       then \<lparr>item_site = i, item_key = k, item_cost = c, item_expires = expiresAt (entry_at s x),
             item_header = entry_header (entry_at s x), item_body = entry_body (entry_at s x)\<rparr> #
            lru_remove i k (map (item_of s) gs)
       else map (item_of s) gs)"
proof (cases "\<not> site_closed (site_at s i) \<and> now < expiresAt (entry_at s x) \<and> 0 < maxProcessBytes s \<and> 0 < maxSiteBytes s")
  case False
  then have "image_storeLocked i k x now s = Some (s, False)"
    by (auto simp: image_storeLocked_def)
  moreover have "0 \<le> c"
    using x(2) by (simp add: c imageCacheKeyBytes_def)
  ultimately show ?thesis
    using inv False by (intro that[of s False gs]) auto
next
  case True
  note I = store_invD[OF inv]
  define s1 where "s1 = on_entry x (\<lambda>e. e\<lparr>entry_key := k, entry_owner := Some i, entry_cost := entry_cost e + imageCacheKeyBytes k\<rparr>) s"
  note fresh = on_entry_fresh[OF inv x(1), where g = "\<lambda>e. e\<lparr>entry_key := k, entry_owner := Some i, entry_cost := entry_cost e + imageCacheKeyBytes k\<rparr>",
      folded s1_def]
  have s1x: "entry_key (entry_at s1 x) = k" "owned s1 i x" "entry_cost (entry_at s1 x) = c"
      "expiresAt (entry_at s1 x) = expiresAt (entry_at s x)" "entry_header (entry_at s1 x) = entry_header (entry_at s x)"
      "entry_body (entry_at s1 x) = entry_body (entry_at s x)"
    by (simp_all add: s1_def on_entry_def owned_def c)
  have s1: "site_at s1 = site_at s" "flight_at s1 = flight_at s" "process_bytes s1 = process_bytes s"
      "maxSiteBytes s1 = maxSiteBytes s" "maxProcessBytes s1 = maxProcessBytes s"
    by (simp_all add: s1_def on_entry_def)
  have nn: "0 \<le> c" "0 \<le> site_bytes (site_at s i)" "0 \<le> process_bytes s"
    using x(2) I(5) I(6)[of i] I(7)[of i] I(8,9) by (auto simp: c imageCacheKeyBytes_def intro!: add_nonneg_nonneg cost_of_nonneg)
  define s2 where "s2 = (case mget (site_entries (site_at s1 i)) k of None \<Rightarrow> s1 | Some old \<Rightarrow> image_remove old s1)"
  have "\<exists>gs2. store_inv s2 gs2 h H \<and> same_objects s1 s2 \<and> set gs2 \<subseteq> set gs \<and> not_more_bytes s1 s2 \<and>
      mget (site_entries (site_at s2 i)) k = None \<and> map (item_of s1) gs2 = lru_remove i k (map (item_of s1) gs)"
  proof (cases "mget (site_entries (site_at s1 i)) k")
    case None
    then show ?thesis
      using fresh(1) by (intro exI[of _ gs]) (simp add: s2_def lru_index[OF fresh(1)] not_more_bytes_def)
  next
    case (Some old)
    then have o: "old \<in> set gs"
      using store_invD(3)[OF fresh(1)] by blast
    note same = image_remove_same[of s1 old]
    have "mget (site_entries (site_at (image_remove old s1) i)) k = None"
    proof (rule ccontr)
      assume "mget (site_entries (site_at (image_remove old s1) i)) k \<noteq> None"
      then obtain y where "mget (site_entries (site_at (image_remove old s1) i)) k = Some y"
        by blast
      then have "y \<in> set (remove1 old gs)" "owned s1 i y" "entry_key (entry_at s1 y) = k"
        using store_invD(3)[OF image_remove_inv[OF fresh(1) o], of i k y]
        by (simp_all add: same_owned[OF same] same_objects_fields[OF same])
      then have "y \<noteq> old" "mget (site_entries (site_at s1 i)) k = Some y"
        using store_invD(3)[OF fresh(1), of i k y] I(10) by (auto simp: set_remove1_eq)
      then show False
        using Some by simp
    qed
    then show ?thesis
      using Some image_remove_inv[OF fresh(1) o] same image_remove_bytes[OF fresh(1) o] set_remove1_subset[of old gs]
      by (intro exI[of _ "remove1 old gs"]) (simp add: s2_def lru_index[OF fresh(1)] not_more_bytes_def)
  qed
  then obtain gs2 where s2: "store_inv s2 gs2 h H" "same_objects s1 s2" "set gs2 \<subseteq> set gs" "not_more_bytes s1 s2"
      "mget (site_entries (site_at s2 i)) k = None" "map (item_of s1) gs2 = lru_remove i k (map (item_of s1) gs)"
    by blast
  note eqs2 = same_owned[OF s2(2)] same_objects_fields[OF s2(2)]
  define t where "t = image_insert i k x s2"
  have x2: "x \<notin> set gs2" "owned s2 i x" "entry_key (entry_at s2 x) = k" "0 \<le> entry_cost (entry_at s2 x)"
    using x(1) s2(3) s1x nn(1) by (auto simp: eqs2)
  note ins = image_insert_inv[OF s2(1) x2 s2(5), folded t_def]
  have st: "same_objects s1 t"
    by (rule same_objects_trans[OF s2(2) ins(2)])
  note eqs = same_owned[OF st] same_objects_fields[OF st] same_item[OF st]
  have bytes: "site_bytes (site_at t j) \<le> site_bytes (site_at s j) + (if j = i then c else 0)"
      "process_bytes t \<le> process_bytes s + c" for j
    using s2(4) s1x(3) by (auto simp: ins(3,4) eqs2 not_more_bytes_def s1)
  have "evict_site i t = Some t"
    using bytes(1)[of i] room(1) by (subst evict_site.simps) (auto simp: eqs s1 split: option.split)
  moreover have "evict_process t = Some t"
    using bytes(2) room(2) by (subst evict_process.simps) (auto simp: eqs s1 split: option.split)
  moreover have "mget (site_entries (site_at t i)) k = Some x"
    using store_invD(3)[OF ins(1), of i k x] s1x by (simp add: eqs)
  moreover have "image_insert i k x (case mget (site_entries (site_at s i)) k of None \<Rightarrow> s1 | Some old \<Rightarrow> image_remove old s1) = t"
    by (simp add: t_def s2_def s1)
  ultimately have store: "image_storeLocked i k x now s = Some (t, True)"
    using True room nn s1x(3) by (simp add: image_storeLocked_def s1_def[symmetric] Let_def s1)
  have "map (item_of s1) gs = map (item_of s) gs"
    using fresh(2) by simp
  then have rest: "map (item_of s1) gs2 = lru_remove i k (map (item_of s) gs)"
    using s2(6) by metis
  have items: "map (item_of t) (x # gs2) = \<lparr>item_site = i, item_key = k, item_cost = c, item_expires = expiresAt (entry_at s x),
      item_header = entry_header (entry_at s x), item_body = entry_body (entry_at s x)\<rparr> # lru_remove i k (map (item_of s) gs)"
    using s1x by (simp add: eqs rest) (simp add: item_of_def owned_def)
  show ?thesis
    by (rule that[of t True "x # gs2"])
      (use store ins(1) s2(3) bytes True items in \<open>auto simp: eqs s1\<close>)
qed

end
