(* ===== verification/Image_Safety.thy ===== *)
theory Image_Safety
  imports Image_Flights
begin

text \<open>
  The image cache in use: the atomic sections of its requests in every order, as a step relation over the
  cache and the requests that lead a flight, and the invariant of all of it. Every run is a run of a plain
  list of responses; the byte limits, the return of every operation and the single wake-up of every flight
  follow.
\<close>

section \<open>Steps\<close>

text \<open>
  \<open>leaders\<close> are the requests between \<open>lookupOrBegin\<close> and the deferred \<open>finishFlight\<close>, with
  their site, key and flight; flights and entries below the two counters exist.
\<close>

record image_world =
  image_cache :: imageCacheRuntime
  leaders :: "(ref \<times> imageCacheKey \<times> ref) list"
  next_flight :: ref
  next_entry :: ref

text \<open>
  What a step did: a consultation with the response it found, one that found nothing and the bytes it
  reserved, the start of a capture, the end of a flight with the bytes it gave back and the response it
  published, the end of a site with the bytes given back, and a request of a closed site.
\<close>

datatype image_event =
    Served ref imageCacheKey time "(http_header \<times> string) option"
  | Reserved ref imageCacheKey time int
  | Captured ref imageCacheKey
  | Finished ref imageCacheKey int "cached_item option"
  | Closed ref int
  | Refused ref

definition content_at :: "imageCacheRuntime \<Rightarrow> ref \<Rightarrow> http_header \<times> string" where
  "content_at s x = (entry_header (entry_at s x), entry_body (entry_at s x))"

definition begin_event :: "ref \<Rightarrow> imageCacheKey \<Rightarrow> time \<Rightarrow> imageCacheRuntime \<Rightarrow> begin_answer \<Rightarrow> image_event" where
  "begin_event i k now s a =
     (case a of
        Unavailable \<Rightarrow> if site_closed (site_at s i) then Refused i else Reserved i k now 0
      | Hit x \<Rightarrow> Served i k now (Some (content_at s x))
      | Follow f \<Rightarrow> Served i k now None
      | Lead f \<Rightarrow> Reserved i k now (reservedBytes (flight_at s f)))"

definition flight_bytes :: "(ref \<Rightarrow> imageCacheFlight) \<Rightarrow> (ref \<times> imageCacheKey \<times> ref) list \<Rightarrow> int" where
  "flight_bytes fl L = (\<Sum>x\<leftarrow>L. reservedBytes (fl (snd (snd x))))"

definition site_flight_bytes :: "(ref \<Rightarrow> imageCacheFlight) \<Rightarrow> (ref \<times> imageCacheKey \<times> ref) list \<Rightarrow> ref \<Rightarrow> int" where
  "site_flight_bytes fl L i = flight_bytes fl (filter (\<lambda>x. fst x = i) L)"

inductive image_step :: "image_world \<Rightarrow> image_event \<Rightarrow> image_world \<Rightarrow> bool" where
  step_lookup: "image_lookup i k now (image_cache w) = (s, e, f, available) \<Longrightarrow>
    image_step w (if available then Served i k now (map_option (content_at s) e) else Refused i) (w\<lparr>image_cache := s\<rparr>)"
| step_begin: "lookupOrBegin i k now (next_flight w) (image_cache w) = Some (s, a) \<Longrightarrow>
    image_step w (begin_event i k now s a)
      (w\<lparr>image_cache := s,
         leaders := (case a of Lead f \<Rightarrow> (i, k, f) # leaders w | _ \<Rightarrow> leaders w),
         next_flight := (case a of Lead f \<Rightarrow> Suc f | _ \<Rightarrow> next_flight w)\<rparr>)"
| step_capture: "(i, k, f) \<in> set (leaders w) \<Longrightarrow> beginFlightCapture i k f (image_cache w) = (s, r) \<Longrightarrow>
    image_step w (Captured i k) (w\<lparr>image_cache := s\<rparr>)"
| step_discard: "(i, k, f) \<in> set (leaders w) \<Longrightarrow> finishFlight i k f None now (image_cache w) = Some s \<Longrightarrow>
    image_step w (Finished i k (reservedBytes (flight_at (image_cache w) f)) None)
      (w\<lparr>image_cache := s, leaders := remove1 (i, k, f) (leaders w)\<rparr>)"
| step_publish: "(i, k, f) \<in> set (leaders w) \<Longrightarrow> 0 \<le> entry_cost e \<Longrightarrow> x = next_entry w \<Longrightarrow>
    finishFlight i k f (Some x) now (on_entry x (\<lambda>_. e) (image_cache w)) = Some s \<Longrightarrow>
    image_step w (Finished i k (reservedBytes (flight_at (image_cache w) f))
                   (if flight_stored (flight_at s f) then Some (item_of s x) else None))
      (w\<lparr>image_cache := s, leaders := remove1 (i, k, f) (leaders w), next_entry := Suc x\<rparr>)"
| step_close: "image_site_close i (image_cache w) = Some s \<Longrightarrow>
    image_step w (Closed i (flight_bytes (flight_at (image_cache w)) (leaders w) - flight_bytes (flight_at s) (leaders w)))
      (w\<lparr>image_cache := s\<rparr>)"

definition image_world_init :: "int \<Rightarrow> int \<Rightarrow> duration \<Rightarrow> (ref \<Rightarrow> int) \<Rightarrow>
    (ref \<Rightarrow> imageCacheEntry) \<Rightarrow> (ref \<Rightarrow> imageCacheFlight) \<Rightarrow> image_world" where
  "image_world_init mp ms ttl ids en fl =
     \<lparr>image_cache = newImageCacheRuntimeWithLimits mp ms ttl (\<lambda>i. image_newSite (ids i)) en fl,
      leaders = [], next_flight = 0, next_entry = 0\<rparr>"

inductive image_run :: "image_world \<Rightarrow> image_event list \<Rightarrow> image_world \<Rightarrow> bool" where
  run_start: "image_run w [] w"
| run_step: "image_run w0 evs w \<Longrightarrow> image_step w ev w' \<Longrightarrow> image_run w0 (evs @ [ev]) w'"

section \<open>The invariant\<close>

definition flights_inv :: "imageCacheRuntime \<Rightarrow> (ref \<times> imageCacheKey \<times> ref) list \<Rightarrow> ref \<Rightarrow> bool" where
  "flights_inv s L nf \<longleftrightarrow>
     distinct (map (\<lambda>x. snd (snd x)) L) \<and>
     (\<forall>i k f. (i, k, f) \<in> set L \<longrightarrow> f < nf \<and> 0 \<le> reservedBytes (flight_at s f) \<and> \<not> flight_stored (flight_at s f)) \<and>
     (\<forall>i k f. mget (site_flights (site_at s i)) k = Some f \<longrightarrow> (i, k, f) \<in> set L \<and> 0 < reservedBytes (flight_at s f)) \<and>
     (\<forall>f < nf. closings (flight_at s f) = (if \<exists>i k. mget (site_flights (site_at s i)) k = Some f then 0 else 1)) \<and>
     (\<forall>i. mwf (site_flights (site_at s i)))"

definition image_budget :: "imageCacheRuntime \<Rightarrow> bool" where
  "image_budget s \<longleftrightarrow> (\<forall>i. site_bytes (site_at s i) \<le> max 0 (maxSiteBytes s)) \<and> process_bytes s \<le> max 0 (maxProcessBytes s)"

definition image_inv :: "image_world \<Rightarrow> ref list \<Rightarrow> bool" where
  "image_inv w gs \<longleftrightarrow>
     (let s = image_cache w; L = leaders w in
      store_inv s gs (site_flight_bytes (flight_at s) L) (flight_bytes (flight_at s) L) \<and>
      flights_inv s L (next_flight w) \<and> (\<forall>x\<in>set gs. x < next_entry w) \<and> image_budget s \<and>
      (\<forall>i. site_closed (site_at s i) \<longrightarrow> site_flights (site_at s i) = [] \<and> (\<forall>x\<in>set gs. \<not> owned s i x)))"

lemma flights_invD:
  assumes "flights_inv s L nf"
  shows "distinct (map (\<lambda>x. snd (snd x)) L)"
    "(i, k, f) \<in> set L \<Longrightarrow> f < nf" "(i, k, f) \<in> set L \<Longrightarrow> 0 \<le> reservedBytes (flight_at s f)"
    "(i, k, f) \<in> set L \<Longrightarrow> \<not> flight_stored (flight_at s f)"
    "mget (site_flights (site_at s i)) k = Some f \<Longrightarrow> (i, k, f) \<in> set L"
    "mget (site_flights (site_at s i)) k = Some f \<Longrightarrow> 0 < reservedBytes (flight_at s f)"
    "f < nf \<Longrightarrow> closings (flight_at s f) = (if \<exists>i k. mget (site_flights (site_at s i)) k = Some f then 0 else 1)"
    "mwf (site_flights (site_at s i))"
  using assms unfolding flights_inv_def by blast+

lemma flight_bytes_simps [simp]: "flight_bytes fl [] = 0" "flight_bytes fl (x # L) = reservedBytes (fl (snd (snd x))) + flight_bytes fl L"
  by (simp_all add: flight_bytes_def)

lemma site_flight_bytes_simps [simp]: "site_flight_bytes fl [] i = 0"
  "site_flight_bytes fl (x # L) i = (if fst x = i then reservedBytes (fl (snd (snd x))) else 0) + site_flight_bytes fl L i"
  by (simp_all add: site_flight_bytes_def)

lemma flight_bytes_cong: "\<forall>x\<in>set L. reservedBytes (fl' (snd (snd x))) = reservedBytes (fl (snd (snd x))) \<Longrightarrow>
    flight_bytes fl' L = flight_bytes fl L \<and> site_flight_bytes fl' L = site_flight_bytes fl L"
  by (induction L) (auto simp: fun_eq_iff)

lemma flight_bytes_nonneg: "\<forall>x\<in>set L. 0 \<le> reservedBytes (fl (snd (snd x))) \<Longrightarrow>
    0 \<le> flight_bytes fl L \<and> 0 \<le> site_flight_bytes fl L i"
  by (induction L) (auto intro!: add_nonneg_nonneg)

lemma flight_bytes_remove1: "(i, k, f) \<in> set L \<Longrightarrow>
    flight_bytes fl (remove1 (i, k, f) L) = flight_bytes fl L - reservedBytes (fl f) \<and>
    site_flight_bytes fl (remove1 (i, k, f) L) = (site_flight_bytes fl L)(i := site_flight_bytes fl L i - reservedBytes (fl f))"
  by (induction L) (auto simp: fun_eq_iff)

lemma flight_bytes_zero:
  "(i, k, f) \<in> set L \<Longrightarrow> distinct (map (\<lambda>x. snd (snd x)) L) \<Longrightarrow> reservedBytes (fl' f) = 0 \<Longrightarrow>
   \<forall>g. g \<noteq> f \<longrightarrow> reservedBytes (fl' g) = reservedBytes (fl g) \<Longrightarrow>
    flight_bytes fl' L = flight_bytes fl L - reservedBytes (fl f) \<and>
    site_flight_bytes fl' L = (site_flight_bytes fl L)(i := site_flight_bytes fl L i - reservedBytes (fl f))"
proof (induction L)
  case (Cons x L)
  have others: "snd (snd y) \<noteq> snd (snd x)" if "y \<in> set L" for y
    using Cons.prems(2) that by (auto simp: image_iff)
  show ?case
  proof (cases "x = (i, k, f)")
    case True
    then have "\<forall>y\<in>set L. reservedBytes (fl' (snd (snd y))) = reservedBytes (fl (snd (snd y)))"
      using Cons.prems(4) others by auto
    then have "flight_bytes fl' L = flight_bytes fl L \<and> site_flight_bytes fl' L = site_flight_bytes fl L"
      by (rule flight_bytes_cong)
    then show ?thesis
      using True Cons.prems(3) by (auto simp: fun_eq_iff)
  next
    case False
    then have "(i, k, f) \<in> set L"
      using Cons.prems(1) by auto
    moreover from this have "snd (snd x) \<noteq> f"
      using others[of "(i, k, f)"] by auto
    ultimately show ?thesis
      using Cons by (auto simp: fun_eq_iff)
  qed
qed simp

lemma flight_bytes_member:
  assumes "(i, k, f) \<in> set L" "\<forall>x\<in>set L. 0 \<le> reservedBytes (fl (snd (snd x)))"
  shows "reservedBytes (fl f) \<le> flight_bytes fl L \<and> reservedBytes (fl f) \<le> site_flight_bytes fl L i"
proof -
  have "\<forall>x\<in>set (remove1 (i, k, f) L). 0 \<le> reservedBytes (fl (snd (snd x)))"
    using assms(2) set_remove1_subset[of "(i, k, f)" L] by blast
  then have "0 \<le> flight_bytes fl (remove1 (i, k, f) L) \<and> 0 \<le> site_flight_bytes fl (remove1 (i, k, f) L) i"
    by (rule flight_bytes_nonneg)
  then show ?thesis
    using flight_bytes_remove1[OF assms(1), of fl] by simp
qed


section \<open>The plain list of responses\<close>

text \<open>
  The specification: the responses, the most recently used first, and the bytes the flights of every site
  and all flights hold.
\<close>

record lru_cache =
  lru_items :: "cached_item list"
  lru_held :: "ref \<Rightarrow> int"
  lru_total :: int
  lru_max_site :: int
  lru_max_process :: int

inductive lru_step :: "lru_cache \<Rightarrow> image_event \<Rightarrow> lru_cache \<Rightarrow> bool" where
  lru_serve: "lru_get i k now (lru_items a) = (its, r) \<Longrightarrow>
    lru_step a (Served i k now (map_option (\<lambda>it. (item_header it, item_body it)) r)) (a\<lparr>lru_items := its\<rparr>)"
| lru_reserve: "lru_get i k now (lru_items a) = (its, None) \<Longrightarrow>
    lru_reserve i k (lru_max_site a) (lru_max_process a) (lru_held a i) (lru_total a) its = (its', r) \<Longrightarrow>
    lru_step a (Reserved i k now r)
      (a\<lparr>lru_items := its', lru_held := (lru_held a)(i := lru_held a i + r), lru_total := lru_total a + r\<rparr>)"
| lru_capture: "lru_step a (Captured i k) a"
| lru_refuse: "lru_step a (Refused i) a"
| lru_discard: "0 \<le> r \<Longrightarrow> r \<le> lru_held a i \<Longrightarrow> r \<le> lru_total a \<Longrightarrow>
    lru_step a (Finished i k r None)
      (a\<lparr>lru_held := (lru_held a)(i := lru_held a i - r), lru_total := lru_total a - r\<rparr>)"
| lru_publish: "0 \<le> item_cost it \<Longrightarrow> item_cost it \<le> r \<Longrightarrow> r \<le> lru_held a i \<Longrightarrow> r \<le> lru_total a \<Longrightarrow>
    item_site it = i \<Longrightarrow> item_key it = k \<Longrightarrow>
    lru_step a (Finished i k r (Some it))
      (a\<lparr>lru_items := it # lru_remove i k (lru_items a),
         lru_held := (lru_held a)(i := lru_held a i - r), lru_total := lru_total a - r\<rparr>)"
| lru_close: "0 \<le> r \<Longrightarrow> r \<le> lru_held a i \<Longrightarrow> r \<le> lru_total a \<Longrightarrow>
    lru_step a (Closed i r)
      (a\<lparr>lru_items := filter (\<lambda>it. item_site it \<noteq> i) (lru_items a),
         lru_held := (lru_held a)(i := lru_held a i - r), lru_total := lru_total a - r\<rparr>)"

definition lru_of :: "image_world \<Rightarrow> ref list \<Rightarrow> lru_cache" where
  "lru_of w gs =
     \<lparr>lru_items = map (item_of (image_cache w)) gs,
      lru_held = site_flight_bytes (flight_at (image_cache w)) (leaders w),
      lru_total = flight_bytes (flight_at (image_cache w)) (leaders w),
      lru_max_site = maxSiteBytes (image_cache w), lru_max_process = maxProcessBytes (image_cache w)\<rparr>"

text \<open>\<open>simulated w ev w' gs\<close>: the step keeps the invariant and is a step of the list.\<close>

definition simulated :: "image_world \<Rightarrow> ref list \<Rightarrow> image_event \<Rightarrow> image_world \<Rightarrow> bool" where
  "simulated w gs ev w' \<longleftrightarrow> (\<exists>gs'. image_inv w' gs' \<and> lru_step (lru_of w gs) ev (lru_of w' gs'))"

lemma image_invD:
  assumes "image_inv w gs"
  shows "store_inv (image_cache w) gs (site_flight_bytes (flight_at (image_cache w)) (leaders w)) (flight_bytes (flight_at (image_cache w)) (leaders w))"
    "flights_inv (image_cache w) (leaders w) (next_flight w)" "x \<in> set gs \<Longrightarrow> x < next_entry w" "image_budget (image_cache w)"
    "site_closed (site_at (image_cache w) i) \<Longrightarrow> site_flights (site_at (image_cache w) i) = []"
    "site_closed (site_at (image_cache w) i) \<Longrightarrow> x \<in> set gs \<Longrightarrow> \<not> owned (image_cache w) i x"
  using assms unfolding image_inv_def Let_def by blast+

lemma flights_inv_same: "same_objects s t \<Longrightarrow> flights_inv t = flights_inv s"
  by (simp add: flights_inv_def same_objects_fields fun_eq_iff)

lemma budget_not_more: "image_budget s \<Longrightarrow> same_objects s t \<Longrightarrow> not_more_bytes s t \<Longrightarrow> image_budget t"
  by (auto simp: image_budget_def not_more_bytes_def same_objects_fields intro: order_trans)

lemma not_more_bytes_trans: "not_more_bytes s t \<Longrightarrow> not_more_bytes t u \<Longrightarrow> not_more_bytes s u"
  by (auto simp: not_more_bytes_def intro: order_trans)

text \<open>A step that only reorders or drops entries.\<close>

lemma quiet_inv:
  assumes inv: "image_inv w gs" and s: "s = image_cache w" and same: "same_objects s t"
    and store: "store_inv t gs' (site_flight_bytes (flight_at s) (leaders w)) (flight_bytes (flight_at s) (leaders w))"
    and sub: "set gs' \<subseteq> set gs" and less: "not_more_bytes s t"
  shows "image_inv (w\<lparr>image_cache := t\<rparr>) gs'"
proof -
  note I = image_invD[OF inv, folded s]
  have "flights_inv t (leaders w) (next_flight w)"
    using I(2) by (simp add: flights_inv_same[OF same])
  moreover have "\<forall>x\<in>set gs'. x < next_entry w"
    using I(3) sub by blast
  moreover have "image_budget t"
    by (rule budget_not_more[OF I(4) same less])
  moreover have "site_flights (site_at t i) = [] \<and> (\<forall>x\<in>set gs'. \<not> owned t i x)" if "site_closed (site_at t i)" for i
    using that I(5,6)[of i] sub by (auto simp: same_owned[OF same] same_objects_fields[OF same])
  ultimately show ?thesis
    using store by (simp add: image_inv_def Let_def same_objects_fields(7)[OF same])
qed

lemma lru_of_same: "same_objects (image_cache w) t \<Longrightarrow>
    lru_of (w\<lparr>image_cache := t\<rparr>) gs' = (lru_of w gs)\<lparr>lru_items := map (item_of (image_cache w)) gs'\<rparr>"
  by (simp add: lru_of_def same_objects_fields same_item)

lemma content_item: "(item_header (item_of s x), item_body (item_of s x)) = content_at s x"
  by (simp add: content_at_def)

lemma content_same: "same_objects s t \<Longrightarrow> content_at t = content_at s"
  by (simp add: content_at_def same_objects_fields fun_eq_iff)

text \<open>Consulting the index, as both lookups do.\<close>

lemma get_simulated:
  assumes inv: "image_inv w gs" and get: "image_getLocked i k now (image_cache w) = (t, e)"
  obtains gs' where "image_inv (w\<lparr>image_cache := t\<rparr>) gs'" "same_objects (image_cache w) t"
    "lru_get i k now (lru_items (lru_of w gs)) = (lru_items (lru_of (w\<lparr>image_cache := t\<rparr>) gs'), map_option (item_of t) e)"
    "lru_step (lru_of w gs) (Served i k now (map_option (content_at t) e)) (lru_of (w\<lparr>image_cache := t\<rparr>) gs')"
proof -
  let ?s = "image_cache w"
  obtain gs' where g: "store_inv t gs' (site_flight_bytes (flight_at ?s) (leaders w)) (flight_bytes (flight_at ?s) (leaders w))"
      "same_objects ?s t" "set gs' \<subseteq> set gs" "not_more_bytes ?s t"
      "lru_get i k now (map (item_of ?s) gs) = (map (item_of ?s) gs', map_option (item_of ?s) e)"
    using image_getLocked_lru[OF image_invD(1)[OF inv] get] by metis
  have inv': "image_inv (w\<lparr>image_cache := t\<rparr>) gs'"
    by (rule quiet_inv[OF inv refl g(2,1,3,4)])
  have lookup: "lru_get i k now (lru_items (lru_of w gs)) = (lru_items (lru_of (w\<lparr>image_cache := t\<rparr>) gs'), map_option (item_of t) e)"
    using g(5) by (simp add: lru_of_def same_item[OF g(2)])
  have "map_option (\<lambda>it. (item_header it, item_body it)) (map_option (item_of t) e) = map_option (content_at t) e"
    by (cases e) (simp_all add: content_at_def)
  moreover have "(lru_of w gs)\<lparr>lru_items := lru_items (lru_of (w\<lparr>image_cache := t\<rparr>) gs')\<rparr> = lru_of (w\<lparr>image_cache := t\<rparr>) gs'"
    by (simp add: lru_of_same[OF g(2), of gs' gs])
  ultimately have "lru_step (lru_of w gs) (Served i k now (map_option (content_at t) e)) (lru_of (w\<lparr>image_cache := t\<rparr>) gs')"
    using lru_serve[OF lookup] by simp
  with inv' g(2) lookup show thesis
    by (rule that)
qed

lemma lookup_simulated:
  assumes "image_inv w gs" "image_lookup i k now (image_cache w) = (s, e, f, available)"
  shows "simulated w gs (if available then Served i k now (map_option (content_at s) e) else Refused i) (w\<lparr>image_cache := s\<rparr>)"
proof (cases "site_closed (site_at (image_cache w) i)")
  case True
  then have "w\<lparr>image_cache := s\<rparr> = w" "\<not> available"
    using assms(2) by (simp_all add: image_lookup_def)
  then show ?thesis
    using assms(1) lru_refuse by (auto simp: simulated_def)
next
  case False
  then have "image_getLocked i k now (image_cache w) = (s, e)" "available"
    using assms(2) by (auto simp: image_lookup_def split: prod.splits)
  then show ?thesis
    using get_simulated[OF assms(1), of i k now s e] by (auto simp: simulated_def)
qed


lemma store_inv_view: "entry_at t = entry_at s \<Longrightarrow> process_nodes t = process_nodes s \<Longrightarrow>
    (\<And>i. site_nodes i t = site_nodes i s \<and> site_entries (site_at t i) = site_entries (site_at s i) \<and>
      site_bytes (site_at t i) = site_bytes (site_at s i)) \<Longrightarrow> process_bytes t = process_bytes s \<Longrightarrow>
    store_inv t = store_inv s"
proof -
  assume v: "entry_at t = entry_at s" "process_nodes t = process_nodes s" "process_bytes t = process_bytes s"
    "\<And>i. site_nodes i t = site_nodes i s \<and> site_entries (site_at t i) = site_entries (site_at s i) \<and>
      site_bytes (site_at t i) = site_bytes (site_at s i)"
  have "owned t = owned s" "cost_of t = cost_of s"
    by (intro ext, simp add: owned_def cost_of_def v(1))+
  then show ?thesis
    by (intro ext) (simp add: store_inv_def v)
qed

lemma on_flight_simps [simp]: "entry_at (on_flight f g s) = entry_at s" "site_at (on_flight f g s) = site_at s"
  "process_bytes (on_flight f g s) = process_bytes s" "process_nodes (on_flight f g s) = process_nodes s"
  "site_nodes i (on_flight f g s) = site_nodes i s" "maxSiteBytes (on_flight f g s) = maxSiteBytes s"
  "maxProcessBytes (on_flight f g s) = maxProcessBytes s"
  "flight_at (on_flight f g s) = (flight_at s)(f := g (flight_at s f))"
  by (simp_all add: on_flight_def process_nodes_def site_nodes_def)

lemma store_inv_on_flight [simp]: "store_inv (on_flight f g s) = store_inv s"
  by (rule store_inv_view) simp_all

lemma store_inv_on_site: "(\<And>st. site_head (g st) = site_head st \<and> site_tail (g st) = site_tail st \<and>
    site_entries (g st) = site_entries st \<and> site_bytes (g st) = site_bytes st) \<Longrightarrow> store_inv (on_site i g s) = store_inv s"
  by (rule store_inv_view) (auto simp: site_nodes_on_site site_at_on_site)

lemma limits_on_site [simp]: "maxSiteBytes (on_site i g s) = maxSiteBytes s" "maxProcessBytes (on_site i g s) = maxProcessBytes s"
  by (simp_all add: on_site_def)

lemma item_of_view: "entry_at t = entry_at s \<Longrightarrow> item_of t = item_of s"
  by (simp add: item_of_def fun_eq_iff)

lemma begin_simulated:
  assumes inv: "image_inv w gs" and b: "lookupOrBegin i k now (next_flight w) (image_cache w) = Some (s, a)"
  shows "simulated w gs (begin_event i k now s a)
      (w\<lparr>image_cache := s, leaders := (case a of Lead f \<Rightarrow> (i, k, f) # leaders w | _ \<Rightarrow> leaders w),
         next_flight := (case a of Lead f \<Rightarrow> Suc f | _ \<Rightarrow> next_flight w)\<rparr>)"
proof (cases "site_closed (site_at (image_cache w) i)")
  case True
  then have "s = image_cache w" "a = Unavailable"
    using b by (simp_all add: lookupOrBegin_def)
  then show ?thesis
    using inv lru_refuse True by (auto simp: simulated_def begin_event_def)
next
  case False
  obtain s1 e where get: "image_getLocked i k now (image_cache w) = (s1, e)"
    by fastforce
  let ?w1 = "w\<lparr>image_cache := s1\<rparr>"
  obtain gs1 where g: "image_inv ?w1 gs1" "same_objects (image_cache w) s1"
      "lru_get i k now (lru_items (lru_of w gs)) = (lru_items (lru_of ?w1 gs1), map_option (item_of s1) e)"
      "lru_step (lru_of w gs) (Served i k now (map_option (content_at s1) e)) (lru_of ?w1 gs1)"
    using get_simulated[OF inv get] by metis
  have open1: "\<not> site_closed (site_at s1 i)"
    using False by (simp add: same_objects_fields[OF g(2)])
  consider (hit) x where "e = Some x" | (follow) f where "e = None" "mget (site_flights (site_at s1 i)) k = Some f"
    | (reserve) "e = None" "mget (site_flights (site_at s1 i)) k = None"
    by (cases e; cases "mget (site_flights (site_at s1 i)) k") auto
  then show ?thesis
  proof cases
    case hit
    then have "s = s1" "a = Hit x"
      using b False get by (simp_all add: lookupOrBegin_def)
    then show ?thesis
      using g(1,4) hit by (auto simp: simulated_def begin_event_def)
  next
    case follow
    then have "s = s1" "a = Follow f"
      using b False get by (simp_all add: lookupOrBegin_def)
    then show ?thesis
      using g(1,4) follow by (auto simp: simulated_def begin_event_def)
  next
    case reserve
    note J = image_invD[OF g(1), simplified]
    let ?h = "site_flight_bytes (flight_at s1) (leaders w)" and ?H = "flight_bytes (flight_at s1) (leaders w)"
    obtain t r gs' where t: "reserveFlightLocked i k s1 = Some (t, r)" "store_inv t gs' (?h(i := ?h i + r)) (?H + r)"
        "same_objects s1 t" "set gs' \<subseteq> set gs1" "0 \<le> r"
        "lru_reserve i k (maxSiteBytes s1) (maxProcessBytes s1) (?h i) ?H (map (item_of s1) gs1) = (map (item_of s1) gs', r)"
        "\<And>j. j \<noteq> i \<or> r = 0 \<Longrightarrow> site_bytes (site_at t j) \<le> site_bytes (site_at s1 j)" "r = 0 \<Longrightarrow> process_bytes t \<le> process_bytes s1"
        "0 < r \<Longrightarrow> site_bytes (site_at t i) \<le> maxSiteBytes s1 \<and> process_bytes t \<le> maxProcessBytes s1 \<and> 0 < maxSiteBytes s1 \<and> 0 < maxProcessBytes s1"
      using reserveFlightLocked_lru[OF J(1), of i k] by metis
    have get_none: "lru_get i k now (lru_items (lru_of w gs)) = (map (item_of s1) gs1, None)"
      using g(3) reserve by (simp add: lru_of_def)
    have limits: "lru_max_site (lru_of w gs) = maxSiteBytes s1" "lru_max_process (lru_of w gs) = maxProcessBytes s1"
        "lru_held (lru_of w gs) = ?h" "lru_total (lru_of w gs) = ?H"
      by (simp_all add: lru_of_def same_objects_fields[OF g(2)])
    note step = lru_step.lru_reserve[OF get_none, unfolded limits, OF t(6)]
    show ?thesis
    proof (cases "r = 0")
      case True
      then have a: "s = t" "a = Unavailable"
        using b False get reserve t(1) by (simp_all add: lookupOrBegin_def)
      have "image_inv (?w1\<lparr>image_cache := t\<rparr>) gs'"
        by (rule quiet_inv[OF g(1) refl]) (use t True in \<open>auto simp: not_more_bytes_def\<close>)
      moreover have "lru_of (w\<lparr>image_cache := t\<rparr>) gs' =
          (lru_of w gs)\<lparr>lru_items := map (item_of s1) gs', lru_held := ?h(i := ?h i + r), lru_total := ?H + r\<rparr>"
        using True by (simp add: lru_of_def same_objects_fields[OF t(3)] same_item[OF t(3)] same_objects_fields[OF g(2)])
      ultimately show ?thesis
        using step True a open1 unfolding simulated_def
        by (intro exI[of _ gs']) (simp add: begin_event_def same_objects_fields[OF t(3)])
    next
      case False
      then have r: "0 < r"
        using t(5) by simp
      define f where "f = next_flight w"
      let ?new = "\<lambda>_. \<lparr>closings = 0, flight_stored = False, reservedBytes = r, captureStarted = False\<rparr>"
      have a: "s = on_site i (\<lambda>st. st\<lparr>site_flights := mput k f (site_flights st)\<rparr>) (on_flight f ?new t)" "a = Lead f"
        using b \<open>\<not> site_closed (site_at (image_cache w) i)\<close> get reserve t(1) r by (simp_all add: lookupOrBegin_def f_def)
      note F = flights_invD[OF J(2)]
      have old: "\<forall>x\<in>set (leaders w). reservedBytes (flight_at s (snd (snd x))) = reservedBytes (flight_at s1 (snd (snd x)))"
        using F(2) by (force simp: a same_objects_fields[OF t(3)] f_def)
      have new: "reservedBytes (flight_at s f) = r"
        by (simp add: a)
      have sums: "site_flight_bytes (flight_at s) ((i, k, f) # leaders w) = ?h(i := ?h i + r)"
          "flight_bytes (flight_at s) ((i, k, f) # leaders w) = ?H + r"
        using flight_bytes_cong[OF old] new by (auto simp: fun_eq_iff)
      have "store_inv s gs' (?h(i := ?h i + r)) (?H + r)"
        using t(2) by (simp add: a store_inv_on_site)
      moreover have "flights_inv s ((i, k, f) # leaders w) (Suc f)"
        unfolding flights_inv_def
      proof (intro conjI allI impI)
        have "f \<noteq> g" if "(j, l, g) \<in> set (leaders w)" for j l g
          using F(2)[OF that] by (simp add: f_def)
        then show "distinct (map (\<lambda>x. snd (snd x)) ((i, k, f) # leaders w))"
          using F(1) by force
        fix j l g
        show "g < Suc f" "0 \<le> reservedBytes (flight_at s g)" "\<not> flight_stored (flight_at s g)"
          if "(j, l, g) \<in> set ((i, k, f) # leaders w)"
          using that F(2-4)[of j l g] r by (auto simp: a f_def same_objects_fields[OF t(3)])
        show "(j, l, g) \<in> set ((i, k, f) # leaders w)" "0 < reservedBytes (flight_at s g)"
          if "mget (site_flights (site_at s j)) l = Some g"
          using that F(5,6)[of j l g] r by (auto simp: a site_at_on_site same_objects_fields[OF t(3)] split: if_splits)
      next
        fix g assume g: "g < Suc f"
        show "closings (flight_at s g) = (if \<exists>j l. mget (site_flights (site_at s j)) l = Some g then 0 else 1)"
        proof (cases "g = f")
          case True
          have "mget (site_flights (site_at s i)) k = Some f"
            by (simp add: a site_at_on_site)
          then show ?thesis
            using True by (auto simp: a)
        next
          case False
          then have "(\<exists>j l. mget (site_flights (site_at s j)) l = Some g) \<longleftrightarrow> (\<exists>j l. mget (site_flights (site_at s1 j)) l = Some g)"
            using reserve(2) by (auto simp: a site_at_on_site same_objects_fields[OF t(3)]) (metis option.distinct(1))+
          then show ?thesis
            using F(7)[of g] False g by (simp add: a f_def same_objects_fields[OF t(3)])
        qed
      next
        show "mwf (site_flights (site_at s j))" for j
          using F(8)[of j] F(8)[of i] by (simp add: a site_at_on_site same_objects_fields[OF t(3)])
      qed
      moreover have "image_budget s"
        unfolding image_budget_def
      proof (intro conjI allI)
        show "site_bytes (site_at s j) \<le> max 0 (maxSiteBytes s)" for j
          using t(7)[of j] t(9)[OF r] J(4)
          by (cases "j = i") (auto simp: image_budget_def a site_at_on_site same_objects_fields[OF t(3)] intro: order_trans)
        show "process_bytes s \<le> max 0 (maxProcessBytes s)"
          using t(9)[OF r] by (simp add: a same_objects_fields[OF t(3)])
      qed
      moreover have "\<forall>j. site_closed (site_at s j) \<longrightarrow> site_flights (site_at s j) = [] \<and> (\<forall>x\<in>set gs'. \<not> owned s j x)"
        using J(5,6) open1 t(4) by (auto simp: a site_at_on_site same_objects_fields[OF t(3)] owned_def subset_iff)
      moreover have "\<forall>x\<in>set gs'. x < next_entry w"
        using J(3) t(4) by blast
      ultimately have inv': "image_inv (w\<lparr>image_cache := s, leaders := (i, k, f) # leaders w, next_flight := Suc f\<rparr>) gs'"
        by (simp add: image_inv_def Let_def sums del: flight_bytes_simps site_flight_bytes_simps)
      have "item_of s = item_of t"
        by (rule item_of_view) (simp add: a)
      then have items: "item_of s = item_of s1"
        by (simp add: same_item[OF t(3)])
      have max: "maxSiteBytes s = maxSiteBytes (image_cache w)" "maxProcessBytes s = maxProcessBytes (image_cache w)"
        by (simp_all add: a same_objects_fields(10,11)[OF t(3)] same_objects_fields(10,11)[OF g(2)])
      have "lru_of (w\<lparr>image_cache := s, leaders := (i, k, f) # leaders w, next_flight := Suc f\<rparr>) gs' =
          (lru_of w gs)\<lparr>lru_items := map (item_of s1) gs', lru_held := ?h(i := ?h i + r), lru_total := ?H + r\<rparr>"
        by (simp add: lru_of_def sums items max del: flight_bytes_simps site_flight_bytes_simps)
      then show ?thesis
        using inv' step unfolding simulated_def a(2)
        by (intro exI[of _ gs']) (simp add: begin_event_def a(1))
    qed
  qed
qed

end
