(* ===== verification/Image_Runs.thy ===== *)
theory Image_Runs
  imports Image_Safety
begin

text \<open>
  The end of a flight and of a site in the image cache, and the properties of its runs: every run is one of
  the plain list of responses, the byte limits hold, every operation returns, every flight wakes its waiters
  once, and a request is served only what the last successful request of its key stored.
\<close>

section \<open>The end of a flight\<close>

lemma flights_inv_view: "(\<And>f. reservedBytes (flight_at t f) = reservedBytes (flight_at s f) \<and>
    flight_stored (flight_at t f) = flight_stored (flight_at s f) \<and> closings (flight_at t f) = closings (flight_at s f)) \<Longrightarrow>
    (\<And>i. site_flights (site_at t i) = site_flights (site_at s i)) \<Longrightarrow> flights_inv t = flights_inv s"
  by (simp add: flights_inv_def fun_eq_iff)

lemma flight_sums_view: "(\<And>f. reservedBytes (fl' f) = reservedBytes (fl f)) \<Longrightarrow>
    flight_bytes fl' L = flight_bytes fl L \<and> site_flight_bytes fl' L = site_flight_bytes fl L"
  by (rule flight_bytes_cong) simp

lemma capture_simulated:
  assumes inv: "image_inv w gs" and b: "beginFlightCapture i k f (image_cache w) = (s, r)"
  shows "simulated w gs (Captured i k) (w\<lparr>image_cache := s\<rparr>)"
proof -
  note I = image_invD[OF inv]
  have s: "entry_at s = entry_at (image_cache w)" "site_at s = site_at (image_cache w)" "process_bytes s = process_bytes (image_cache w)"
    "store_inv s = store_inv (image_cache w)" "maxSiteBytes s = maxSiteBytes (image_cache w)"
    "maxProcessBytes s = maxProcessBytes (image_cache w)"
    and fl: "reservedBytes (flight_at s g) = reservedBytes (flight_at (image_cache w) g) \<and>
      flight_stored (flight_at s g) = flight_stored (flight_at (image_cache w) g) \<and>
      closings (flight_at s g) = closings (flight_at (image_cache w) g)" for g
    using b by (auto simp: beginFlightCapture_def split: if_splits)
  note sums = flight_sums_view[of "flight_at s" "flight_at (image_cache w)" "leaders w", OF conjunct1[OF fl]]
  have "flights_inv s = flights_inv (image_cache w)"
    by (rule flights_inv_view) (simp_all add: fl s)
  moreover have "image_budget s" "owned s = owned (image_cache w)"
    using I(4) by (simp_all add: image_budget_def s owned_def fun_eq_iff)
  ultimately have "image_inv (w\<lparr>image_cache := s\<rparr>) gs"
    using inv by (simp add: image_inv_def Let_def s sums)
  moreover have "lru_of (w\<lparr>image_cache := s\<rparr>) gs = lru_of w gs"
    by (simp add: lru_of_def s sums item_of_view[OF s(1)])
  ultimately show ?thesis
    using lru_capture unfolding simulated_def by (metis (no_types))
qed

text \<open>The reservation of a flight is part of the totals; giving it back takes it out of them.\<close>

lemma flight_given_back:
  assumes fi: "flights_inv s L nf" and f: "(i, k, f) \<in> set L"
    and zero: "reservedBytes (fl' f) = 0" "\<forall>g. g \<noteq> f \<longrightarrow> reservedBytes (fl' g) = reservedBytes (flight_at s g)"
  shows "flight_bytes fl' (remove1 (i, k, f) L) = flight_bytes (flight_at s) L - reservedBytes (flight_at s f)"
    "site_flight_bytes fl' (remove1 (i, k, f) L) =
      (site_flight_bytes (flight_at s) L)(i := site_flight_bytes (flight_at s) L i - reservedBytes (flight_at s f))"
    "flight_bytes fl' L = flight_bytes (flight_at s) L - reservedBytes (flight_at s f)"
    "site_flight_bytes fl' L =
      (site_flight_bytes (flight_at s) L)(i := site_flight_bytes (flight_at s) L i - reservedBytes (flight_at s f))"
    "reservedBytes (flight_at s f) \<le> flight_bytes (flight_at s) L"
    "reservedBytes (flight_at s f) \<le> site_flight_bytes (flight_at s) L i"
proof -
  note F = flights_invD[OF fi]
  have "\<forall>x\<in>set L. 0 \<le> reservedBytes (flight_at s (snd (snd x)))"
    using F(3) by (metis prod.collapse)
  then show "reservedBytes (flight_at s f) \<le> flight_bytes (flight_at s) L"
    "reservedBytes (flight_at s f) \<le> site_flight_bytes (flight_at s) L i"
    using flight_bytes_member[OF f] by blast+
  note z = flight_bytes_zero[OF f F(1) zero]
  then show "flight_bytes fl' L = flight_bytes (flight_at s) L - reservedBytes (flight_at s f)"
    "site_flight_bytes fl' L =
      (site_flight_bytes (flight_at s) L)(i := site_flight_bytes (flight_at s) L i - reservedBytes (flight_at s f))"
    by simp_all
  show "flight_bytes fl' (remove1 (i, k, f) L) = flight_bytes (flight_at s) L - reservedBytes (flight_at s f)"
    "site_flight_bytes fl' (remove1 (i, k, f) L) =
      (site_flight_bytes (flight_at s) L)(i := site_flight_bytes (flight_at s) L i - reservedBytes (flight_at s f))"
    using flight_bytes_remove1[OF f, of fl'] z zero(1) by simp_all
qed

lemma leader_unique: "flights_inv s L nf \<Longrightarrow> (i, k, f) \<in> set L \<Longrightarrow> (j, l, f) \<in> set L \<Longrightarrow> (j, l) = (i, k)"
  using flights_invD(1)[of s L nf] inj_onD[of "\<lambda>x. snd (snd x)" "set L" "(i, k, f)" "(j, l, f)"]
  by (simp add: distinct_map)

text \<open>The flights once \<open>f\<close> is no leader any more and, if it was joinable, has left the map with its channel closed.\<close>

lemma flights_inv_finished:
  assumes fi: "flights_inv s L nf" and f: "(i, k, f) \<in> set L"
    and others: "\<forall>g. g \<noteq> f \<longrightarrow> flight_at t g = flight_at s g"
    and map: "if mget (site_flights (site_at s i)) k = Some f
      then (\<forall>j. site_flights (site_at t j) = (if j = i then mdel k (site_flights (site_at s i)) else site_flights (site_at s j))) \<and>
           closings (flight_at t f) = closings (flight_at s f) + 1
      else (\<forall>j. site_flights (site_at t j) = site_flights (site_at s j)) \<and> closings (flight_at t f) = closings (flight_at s f)"
  shows "flights_inv t (remove1 (i, k, f) L) nf"
proof -
  note F = flights_invD[OF fi]
  have joinable: "mget (site_flights (site_at t j)) l = Some g \<longleftrightarrow> g \<noteq> f \<and> mget (site_flights (site_at s j)) l = Some g" for j l g
  proof (cases "mget (site_flights (site_at s i)) k = Some f")
    case True
    then have "mget (site_flights (site_at t j)) l = (if (j, l) = (i, k) then None else mget (site_flights (site_at s j)) l)"
      using map by simp
    moreover have "g \<noteq> f" if "mget (site_flights (site_at s j)) l = Some g" "(j, l) \<noteq> (i, k)"
      using leader_unique[OF fi f, of j l] F(5)[OF that(1)] that(2) by blast
    ultimately show ?thesis
      using True by (cases "(j, l) = (i, k)") auto
  next
    case False
    then have "site_flights (site_at t j) = site_flights (site_at s j)"
      using map by simp
    moreover have "g \<noteq> f" if "mget (site_flights (site_at s j)) l = Some g"
      using leader_unique[OF fi f, of j l] F(5)[OF that] that False by blast
    ultimately show ?thesis
      by auto
  qed
  have other_leader: "g \<noteq> f \<and> (j, l, g) \<in> set L" if "(j, l, g) \<in> set (remove1 (i, k, f) L)" for j l g
  proof -
    have "(j, l, g) \<in> set L" "(j, l, g) \<noteq> (i, k, f)"
      using that F(1) by (auto simp: distinct_map set_remove1_eq)
    then show ?thesis
      using leader_unique[OF fi f, of j l] by blast
  qed
  have closed_before: "closings (flight_at s f) = (if mget (site_flights (site_at s i)) k = Some f then 0 else 1)"
  proof -
    have "(\<exists>j l. mget (site_flights (site_at s j)) l = Some f) \<longleftrightarrow> mget (site_flights (site_at s i)) k = Some f"
      using F(5) leader_unique[OF fi f] by blast
    then show ?thesis
      using F(7)[OF F(2)[OF f]] by simp
  qed
  then have closed_now: "closings (flight_at t f) = 1"
    using map by (cases "mget (site_flights (site_at s i)) k = Some f") simp_all
  show ?thesis
    unfolding flights_inv_def
  proof (intro conjI allI impI)
    have "distinct L" "inj_on (\<lambda>x. snd (snd x)) (set L)"
      using F(1) by (simp_all add: distinct_map)
    then show "distinct (map (\<lambda>x. snd (snd x)) (remove1 (i, k, f) L))"
      by (auto simp: distinct_map intro: inj_on_subset)
    fix j l g
    show "g < nf" "0 \<le> reservedBytes (flight_at t g)" "\<not> flight_stored (flight_at t g)"
      if "(j, l, g) \<in> set (remove1 (i, k, f) L)"
      using other_leader[OF that] F(2-4) others by auto
    show "(j, l, g) \<in> set (remove1 (i, k, f) L)" "0 < reservedBytes (flight_at t g)"
      if "mget (site_flights (site_at t j)) l = Some g"
      using that F(5,6)[of j l g] others by (auto simp: joinable in_set_remove1)
  next
    fix g assume "g < nf"
    then show "closings (flight_at t g) = (if \<exists>j l. mget (site_flights (site_at t j)) l = Some g then 0 else 1)"
      using F(7)[of g] others closed_now by (cases "g = f") (simp_all add: joinable)
  next
    show "mwf (site_flights (site_at t j))" for j
      using map F(8)[of j] F(8)[of i] by (auto split: if_splits)
  qed
qed


lemma site_bytes_at_least:
  assumes "store_inv s gs h H"
  shows "h i \<le> site_bytes (site_at s i)" "H \<le> process_bytes s"
  using store_invD(5,6,8)[OF assms] by (auto intro!: cost_of_nonneg)

lemma budget_room: "image_budget s \<Longrightarrow> 0 < site_bytes (site_at s i) \<Longrightarrow> 0 < process_bytes s \<Longrightarrow>
    site_bytes (site_at s i) \<le> maxSiteBytes s \<and> process_bytes s \<le> maxProcessBytes s"
  by (auto simp: image_budget_def max_def split: if_splits dest!: spec[of _ i])

lemma budget_less: "image_budget s \<Longrightarrow> (\<And>j. site_bytes (site_at t j) \<le> site_bytes (site_at s j)) \<Longrightarrow>
    process_bytes t \<le> process_bytes s \<Longrightarrow> maxSiteBytes t = maxSiteBytes s \<Longrightarrow> maxProcessBytes t = maxProcessBytes s \<Longrightarrow>
    image_budget t"
  unfolding image_budget_def by (metis order_trans)

text \<open>
  What \<open>finishFlight\<close> does to a flight that requests can join: its bytes go back, the entry is published
  if it fits, the flight leaves the map and its channel is closed.
\<close>

lemma finishFlight_joinable:
  assumes inv: "image_inv w gs" and f: "(i, k, f) \<in> set (leaders w)" and s: "s = image_cache w"
    and joinable: "mget (site_flights (site_at s i)) k = Some f"
    and e: "\<And>x. e = Some x \<Longrightarrow> x \<notin> set gs \<and> x < next_entry w \<and> 0 \<le> entry_cost (entry_at s x)"
    and r: "r = reservedBytes (flight_at s f)" and h: "h = site_flight_bytes (flight_at s) (leaders w)"
    and H: "H = flight_bytes (flight_at s) (leaders w)"
  obtains u kept gs' where
    "finishFlight i k f e now s = Some (close_done f (on_site i (\<lambda>st. st\<lparr>site_flights := mdel k (site_flights st)\<rparr>)
       (on_flight f (flight_stored_update (\<lambda>_. kept)) u)))"
    "store_inv u gs' (h(i := h i - r)) (H - r)" "\<forall>x\<in>set gs'. x < next_entry w"
    "flight_at u = (flight_at s)(f := (flight_at s f)\<lparr>reservedBytes := 0\<rparr>)"
    "\<And>j. site_flights (site_at u j) = site_flights (site_at s j) \<and> site_closed (site_at u j) = site_closed (site_at s j)"
    "maxSiteBytes u = maxSiteBytes s" "maxProcessBytes u = maxProcessBytes s"
    "image_budget u"
    "if kept then \<exists>x. e = Some x \<and> map (item_of u) gs' = item_of u x # lru_remove i k (map (item_of s) gs) \<and>
         item_site (item_of u x) = i \<and> item_key (item_of u x) = k \<and> item_cost (item_of u x) \<le> r \<and> 0 \<le> item_cost (item_of u x)
     else map (item_of u) gs' = map (item_of s) gs"
proof -
  note I = image_invD[OF inv, folded s, folded h H]
  note F = flights_invD[OF I(2)]
  define s1 where "s1 = releaseFlightReservationLocked i f s"
  have rpos: "0 < r"
    using F(6)[OF joinable] by (simp add: r)
  have fl1: "flight_at s1 = (flight_at s)(f := (flight_at s f)\<lparr>reservedBytes := 0\<rparr>)"
    unfolding s1_def by (rule release_flights) (use rpos r in simp)
  note given = flight_given_back[OF I(2) f, of "flight_at s1", folded h H r, unfolded fl1, simplified]
  note rel = release_inv[OF I(1) r less_imp_le[OF rpos] given(6,5), folded s1_def]
  have ent: "item_of s1 = item_of s"
    by (rule item_of_view) (simp add: s1_def release_simps)
  have same1: "site_flights (site_at s1 j) = site_flights (site_at s j) \<and> site_closed (site_at s1 j) = site_closed (site_at s j)"
      "maxSiteBytes s1 = maxSiteBytes s" "maxProcessBytes s1 = maxProcessBytes s" "entry_at s1 = entry_at s" for j
    by (simp_all add: s1_def release_simps)
  have "r \<le> site_bytes (site_at s i)" "r \<le> process_bytes s"
    using site_bytes_at_least(1)[OF I(1), of i] site_bytes_at_least(2)[OF I(1)] given(5,6) by simp_all
  then have room: "site_bytes (site_at s i) \<le> maxSiteBytes s" "process_bytes s \<le> maxProcessBytes s"
    using budget_room[OF I(4), of i] rpos by simp_all
  show thesis
  proof (cases "entry_fits k f e s")
    case False
    have "on_flight f (flight_stored_update (\<lambda>_. False)) s1 = s1"
    proof -
      have "flight_stored_update (\<lambda>_. False) (flight_at s1 f) = flight_at s1 f"
        using F(4)[OF f] fl1 by (cases "flight_at s f") simp
      then show ?thesis
        by (simp add: on_flight_def)
    qed
    then have "finishFlight i k f e now s = Some (close_done f (on_site i (\<lambda>st. st\<lparr>site_flights := mdel k (site_flights st)\<rparr>)
       (on_flight f (flight_stored_update (\<lambda>_. False)) s1)))"
      using joinable False by (simp add: finishFlight_def s1_def[symmetric] Let_def)
    moreover have "image_budget s1"
      by (rule budget_less[OF I(4)]) (use rpos in \<open>simp_all add: rel(2,3) same1\<close>)
    ultimately show ?thesis
      using that[of False s1 gs] rel(1) I(3) same1 fl1 ent by simp
  next
    case True
    then obtain x where x: "e = Some x" "entry_cost (entry_at s x) + imageCacheKeyBytes k \<le> r"
      by (auto simp: entry_fits_def r split: option.splits)
    define c where "c = entry_cost (entry_at s x) + imageCacheKeyBytes k"
    have pre: "x \<notin> set gs" "0 \<le> entry_cost (entry_at s1 x)" "c = entry_cost (entry_at s1 x) + imageCacheKeyBytes k"
        "site_bytes (site_at s1 i) + c \<le> maxSiteBytes s1" "process_bytes s1 + c \<le> maxProcessBytes s1"
      using e[OF x(1)] room x(2) rel(2)[of i] rel(3) by (simp_all add: c_def same1)
    obtain u kept gs' where u0: "image_storeLocked i k x now s1 = Some (u, kept)" "store_inv u gs' (h(i := h i - r)) (H - r)"
        "set gs' \<subseteq> insert x (set gs)" "flight_at u = flight_at s1" "maxSiteBytes u = maxSiteBytes s1" "maxProcessBytes u = maxProcessBytes s1"
        "\<And>j. site_flights (site_at u j) = site_flights (site_at s1 j) \<and> site_closed (site_at u j) = site_closed (site_at s1 j)"
        "\<And>j. site_bytes (site_at u j) \<le> site_bytes (site_at s1 j) + (if j = i then c else 0)"
        "process_bytes u \<le> process_bytes s1 + c"
        "map (item_of u) gs' = (if kept
           then \<lparr>item_site = i, item_key = k, item_cost = c, item_expires = expiresAt (entry_at s1 x),
                 item_header = entry_header (entry_at s1 x), item_body = entry_body (entry_at s1 x)\<rparr> #
                lru_remove i k (map (item_of s1) gs)
           else map (item_of s1) gs)" "kept \<Longrightarrow> gs' \<noteq> [] \<and> hd gs' = x"
      by (rule image_storeLocked_lru[OF rel(1) pre, where now = now]) (rule that; assumption)
    note u = u0[unfolded same1(2-4) ent]
    have fin: "finishFlight i k f e now s = Some (close_done f (on_site i (\<lambda>st. st\<lparr>site_flights := mdel k (site_flights st)\<rparr>)
       (on_flight f (flight_stored_update (\<lambda>_. kept)) u)))"
      using joinable True u(1) x(1) by (simp add: finishFlight_def s1_def[symmetric] Let_def)
    have budget: "image_budget u"
    proof (rule budget_less[OF I(4)])
      show "site_bytes (site_at u j) \<le> site_bytes (site_at s j)" for j
        using u(8)[of j] rel(2)[of j] x(2) by (cases "j = i") (simp_all add: c_def)
      show "process_bytes u \<le> process_bytes s"
        using u(9) rel(3) x(2) by (simp add: c_def)
    qed (simp_all add: u same1)
    have kept: "\<exists>y. e = Some y \<and> map (item_of u) gs' = item_of u y # lru_remove i k (map (item_of s) gs) \<and>
         item_site (item_of u y) = i \<and> item_key (item_of u y) = k \<and> item_cost (item_of u y) \<le> r \<and> 0 \<le> item_cost (item_of u y)" if pub: "kept"
    proof -
      obtain ys where y: "gs' = x # ys"
        using u(11)[OF pub] by (cases gs') auto
      have "item_of u x = \<lparr>item_site = i, item_key = k, item_cost = c, item_expires = expiresAt (entry_at s x),
                 item_header = entry_header (entry_at s x), item_body = entry_body (entry_at s x)\<rparr>"
        using u(10) pub y by simp
      then show ?thesis
        using u(10) pub y x e[OF x(1)] by (simp add: c_def imageCacheKeyBytes_def del: item_of_simps)
    qed
    have "\<forall>y\<in>set gs'. y < next_entry w"
      using u(3) I(3) e[OF x(1)] by auto
    moreover have "if kept then \<exists>x. e = Some x \<and> map (item_of u) gs' = item_of u x # lru_remove i k (map (item_of s) gs) \<and>
         item_site (item_of u x) = i \<and> item_key (item_of u x) = k \<and> item_cost (item_of u x) \<le> r \<and> 0 \<le> item_cost (item_of u x)
     else map (item_of u) gs' = map (item_of s) gs"
      using kept u(10) by simp
    ultimately show ?thesis
      using that[OF fin u(2)] fl1 u(4-7) budget same1 by simp
  qed
qed


text \<open>No response of a closed site appears when the list only gains one of an open site.\<close>

lemma closed_site_stays_empty:
  assumes inv: "store_inv s gs h H" and inv': "store_inv u gs' h' H'" and j: "\<forall>x\<in>set gs. \<not> owned s j x"
    and items: "set (map (item_of u) gs') \<subseteq> insert it (set (map (item_of s) gs))" "item_site it \<noteq> j"
  shows "\<forall>x\<in>set gs'. \<not> owned u j x"
proof (intro ballI notI)
  fix x assume x: "x \<in> set gs'" "owned u j x"
  then have "item_site (item_of u x) = j"
    using item_site_is[OF inv'] by blast
  moreover have "item_of u x \<in> insert it (set (map (item_of s) gs))"
    using subsetD[OF items(1), of "item_of u x"] x(1) by simp
  ultimately obtain y where "y \<in> set gs" "item_of u x = item_of s y"
    using items(2) by auto
  then show False
    using item_site_is[OF inv, of y j] \<open>item_site (item_of u x) = j\<close> j by auto
qed

lemma lru_remove_subset: "set (lru_remove i k its) \<subseteq> set its"
  by (auto simp: lru_remove_def)

lemma finish_world:
  assumes inv: "image_inv w gs" and f: "(i, k, f) \<in> set (leaders w)" and s: "s = image_cache w"
    and e: "\<And>x. e = Some x \<Longrightarrow> x \<notin> set gs \<and> x < next_entry w \<and> 0 \<le> entry_cost (entry_at s x)"
  obtains t gs' where "finishFlight i k f e now s = Some t"
    "image_inv (w\<lparr>image_cache := t, leaders := remove1 (i, k, f) (leaders w)\<rparr>) gs'"
    "lru_step (lru_of w gs) (Finished i k (reservedBytes (flight_at s f))
        (if flight_stored (flight_at t f) then map_option (item_of t) e else None))
      (lru_of (w\<lparr>image_cache := t, leaders := remove1 (i, k, f) (leaders w)\<rparr>) gs')"
    "e = None \<Longrightarrow> \<not> flight_stored (flight_at t f)"
proof -
  note I = image_invD[OF inv, folded s]
  note F = flights_invD[OF I(2)]
  define r where "r = reservedBytes (flight_at s f)"
  define h where "h = site_flight_bytes (flight_at s) (leaders w)"
  define H where "H = flight_bytes (flight_at s) (leaders w)"
  let ?w = "\<lambda>t. w\<lparr>image_cache := t, leaders := remove1 (i, k, f) (leaders w)\<rparr>"
  have r0: "0 \<le> r"
    using F(3)[OF f] by (simp add: r_def)
  have lw: "lru_held (lru_of w gs) = h" "lru_total (lru_of w gs) = H" "lru_items (lru_of w gs) = map (item_of s) gs"
    by (simp_all add: lru_of_def h_def H_def s)
  have rel: "r \<le> h i" "r \<le> H"
    using flight_given_back(5,6)[OF I(2) f, of "(flight_at s)(f := (flight_at s f)\<lparr>reservedBytes := 0\<rparr>)"]
    by (simp_all add: r_def h_def H_def)
  show thesis
  proof (cases "mget (site_flights (site_at s i)) k = Some f")
    case False
    define t where "t = releaseFlightReservationLocked i f s"
    have fin: "finishFlight i k f e now s = Some t"
      using False by (simp add: finishFlight_def t_def)
    have fl: "flight_at t = (flight_at s)(f := (flight_at s f)\<lparr>reservedBytes := 0\<rparr>)"
      unfolding t_def by (rule release_flights) (use r0 r_def in simp)
    have "reservedBytes (flight_at t f) = 0" "\<forall>g. g \<noteq> f \<longrightarrow> reservedBytes (flight_at t g) = reservedBytes (flight_at s g)"
      by (simp_all add: fl)
    note given = flight_given_back[where fl' = "flight_at t", OF I(2) f this, folded r_def h_def H_def]
    have same: "site_flights (site_at t j) = site_flights (site_at s j)" "site_closed (site_at t j) = site_closed (site_at s j)"
        "maxSiteBytes t = maxSiteBytes s" "maxProcessBytes t = maxProcessBytes s" "entry_at t = entry_at s" for j
      by (simp_all add: t_def release_simps)
    note back_inv = release_inv[OF I(1)[folded h_def H_def] r_def r0 rel, folded t_def]
    have items: "item_of t = item_of s" "owned t = owned s"
      by (rule item_of_view) (simp_all add: same owned_def fun_eq_iff)
    have "flights_inv t (remove1 (i, k, f) (leaders w)) (next_flight w)"
      by (rule flights_inv_finished[OF I(2) f]) (simp_all add: fl same False)
    moreover have "image_budget t"
      by (rule budget_less[OF I(4)]) (use r0 in \<open>simp_all add: back_inv(2,3) same\<close>)
    ultimately have inv': "image_inv (?w t) gs"
      using I(3,5,6) back_inv(1) by (simp add: image_inv_def Let_def given same items)
    have "lru_of (?w t) gs = (lru_of w gs)\<lparr>lru_held := h(i := h i - r), lru_total := H - r\<rparr>"
      by (simp add: lru_of_def given same items s[symmetric])
    then have "lru_step (lru_of w gs) (Finished i k r None) (lru_of (?w t) gs)"
      using lru_discard[of r "lru_of w gs" i k] r0 rel by (simp add: lw)
    moreover have "\<not> flight_stored (flight_at t f)"
      using F(4)[OF f] by (simp add: fl)
    ultimately show ?thesis
      using that[OF fin inv'] by (simp add: r_def)
  next
    case True
    obtain u kept gs' where u:
      "finishFlight i k f e now s = Some (close_done f (on_site i (\<lambda>st. st\<lparr>site_flights := mdel k (site_flights st)\<rparr>)
         (on_flight f (flight_stored_update (\<lambda>_. kept)) u)))"
      "store_inv u gs' (h(i := h i - r)) (H - r)" "\<forall>x\<in>set gs'. x < next_entry w"
      "flight_at u = (flight_at s)(f := (flight_at s f)\<lparr>reservedBytes := 0\<rparr>)"
      "\<And>j. site_flights (site_at u j) = site_flights (site_at s j) \<and> site_closed (site_at u j) = site_closed (site_at s j)"
      "maxSiteBytes u = maxSiteBytes s" "maxProcessBytes u = maxProcessBytes s"
      "image_budget u"
      "if kept then \<exists>x. e = Some x \<and> map (item_of u) gs' = item_of u x # lru_remove i k (map (item_of s) gs) \<and>
           item_site (item_of u x) = i \<and> item_key (item_of u x) = k \<and> item_cost (item_of u x) \<le> r \<and> 0 \<le> item_cost (item_of u x)
       else map (item_of u) gs' = map (item_of s) gs"
      by (rule finishFlight_joinable[where e = e and now = now, OF inv f s True e r_def h_def H_def]) (assumption, (rule that; assumption))
    define t where "t = close_done f (on_site i (\<lambda>st. st\<lparr>site_flights := mdel k (site_flights st)\<rparr>)
         (on_flight f (flight_stored_update (\<lambda>_. kept)) u))"
    have fl: "flight_at t = (flight_at s)(f := (flight_at s f)\<lparr>reservedBytes := 0, flight_stored := kept, closings := closings (flight_at s f) + 1\<rparr>)"
      by (simp add: t_def close_done_def u(4) fun_eq_iff)
    have "reservedBytes (flight_at t f) = 0" "\<forall>g. g \<noteq> f \<longrightarrow> reservedBytes (flight_at t g) = reservedBytes (flight_at s g)"
      by (simp_all add: fl)
    note given = flight_given_back[where fl' = "flight_at t", OF I(2) f this, folded r_def h_def H_def]
    have same: "site_flights (site_at t j) = (if j = i then mdel k (site_flights (site_at s i)) else site_flights (site_at s j))"
        "site_closed (site_at t j) = site_closed (site_at s j)" "site_bytes (site_at t j) = site_bytes (site_at u j)"
        "maxSiteBytes t = maxSiteBytes s" "maxProcessBytes t = maxProcessBytes s" "entry_at t = entry_at u"
        "process_bytes t = process_bytes u" for j
      using u(5) by (simp_all add: t_def close_done_def site_at_on_site u(6,7))
    have items: "item_of t = item_of u"
      by (rule item_of_view) (simp add: same)
    have own: "owned t = owned u"
      by (simp add: owned_def same fun_eq_iff)
    have store: "store_inv t = store_inv u"
      by (simp add: t_def close_done_def store_inv_on_site)
    have "flights_inv t (remove1 (i, k, f) (leaders w)) (next_flight w)"
      by (rule flights_inv_finished[OF I(2) f]) (simp_all add: fl same(1) True)
    moreover have "image_budget t"
      by (rule budget_less[OF u(8)]) (simp_all add: same u(6,7))
    moreover have "\<forall>j. site_closed (site_at t j) \<longrightarrow> site_flights (site_at t j) = [] \<and> (\<forall>x\<in>set gs'. \<not> owned t j x)"
    proof (intro allI impI)
      fix j assume "site_closed (site_at t j)"
      then have j: "site_closed (site_at s j)"
        by (simp add: same)
      then have "j \<noteq> i"
        using I(5)[of j] True by auto
      moreover have "\<forall>x\<in>set gs'. \<not> owned u j x"
      proof (rule closed_site_stays_empty[OF I(1) u(2)])
        show "\<forall>x\<in>set gs. \<not> owned s j x"
          using I(6)[OF j] by blast
        show "set (map (item_of u) gs') \<subseteq> insert (if kept then item_of u (the e) else (item_of u 0)\<lparr>item_site := i\<rparr>) (set (map (item_of s) gs))"
        proof (cases kept)
          case True
          then obtain x where x: "e = Some x" "map (item_of u) gs' = item_of u x # lru_remove i k (map (item_of s) gs)"
            using u(9) by auto
          show ?thesis
            using lru_remove_subset[of i k "map (item_of s) gs"] True
            by (simp only: x list.set option.sel if_True) blast
        qed (use u(9) in auto)
        show "item_site (if kept then item_of u (the e) else (item_of u 0)\<lparr>item_site := i\<rparr>) \<noteq> j"
          using u(9) \<open>j \<noteq> i\<close> by (cases kept) (auto simp del: item_of_simps)
      qed
      ultimately show "site_flights (site_at t j) = [] \<and> (\<forall>x\<in>set gs'. \<not> owned t j x)"
        using I(5)[OF j] by (simp add: same own)
    qed
    ultimately have inv': "image_inv (?w t) gs'"
      using u(2,3) by (simp add: image_inv_def Let_def given store)
    have lt: "lru_of (?w t) gs' = (lru_of w gs)\<lparr>lru_items := map (item_of u) gs', lru_held := h(i := h i - r), lru_total := H - r\<rparr>"
      by (simp add: lru_of_def given same items s[symmetric])
    have "lru_step (lru_of w gs) (Finished i k r (if kept then map_option (item_of t) e else None)) (lru_of (?w t) gs')"
    proof (cases kept)
      case True
      obtain x where x: "e = Some x" "map (item_of u) gs' = item_of u x # lru_remove i k (map (item_of s) gs)"
          "item_site (item_of u x) = i" "item_key (item_of u x) = k" "item_cost (item_of u x) \<le> r" "0 \<le> item_cost (item_of u x)"
        using u(9)[unfolded if_P[OF True]] by (elim exE conjE) (rule that)
      show ?thesis
        using lru_publish[OF x(6,5) rel[folded lw] x(3,4)] True unfolding lt items x(1,2) lw by (simp only: option.map if_True)
    next
      case False
      then show ?thesis
        using lru_discard[of r "lru_of w gs" i k] r0 rel u(9) by (simp add: lt lw) (simp add: lru_of_def s[symmetric])
    qed
    moreover have "flight_stored (flight_at t f) = kept"
      by (simp add: fl)
    moreover have "e = None \<Longrightarrow> \<not> kept"
      using u(9) by auto
    ultimately show ?thesis
      using that[OF u(1)[folded t_def] inv'] by (simp add: r_def)
  qed
qed

end
