(* ===== verification/Image_Sites.thy ===== *)
theory Image_Sites
  imports Image_Runs
begin

text \<open>
  Closing a site of the image cache and the properties of its runs: every run is one of the plain list of
  responses, the byte limits hold, every operation returns, every flight wakes its waiters once, and a
  request is served only what the last successful request of its key stored.
\<close>

section \<open>The end of a site\<close>

lemma flights_inv_readd:
  assumes "flights_inv t (remove1 (i, k, f) L) nf" "(i, k, f) \<in> set L" "distinct (map (\<lambda>x. snd (snd x)) L)"
    "f < nf" "0 \<le> reservedBytes (flight_at t f)" "\<not> flight_stored (flight_at t f)"
  shows "flights_inv t L nf"
proof -
  note F = flights_invD[OF assms(1)]
  have member: "(j, l, g) \<in> set (remove1 (i, k, f) L) \<or> g = f" if "(j, l, g) \<in> set L" for j l g
    using that by (cases "(j, l, g) = (i, k, f)") (auto simp: in_set_remove1)
  have sub: "set (remove1 (i, k, f) L) \<subseteq> set L"
    by (rule set_remove1_subset)
  show ?thesis
    unfolding flights_inv_def
  proof (intro conjI allI impI)
    show "distinct (map (\<lambda>x. snd (snd x)) L)"
      by (rule assms(3))
    fix j l g
    show "g < nf" "0 \<le> reservedBytes (flight_at t g)" "\<not> flight_stored (flight_at t g)" if "(j, l, g) \<in> set L"
      using member[OF that] F(2-4) assms(4-6) by blast+
    show "(j, l, g) \<in> set L" "0 < reservedBytes (flight_at t g)" if "mget (site_flights (site_at t j)) l = Some g"
      using F(5,6)[OF that] sub by blast+
  next
    show "closings (flight_at t g) = (if \<exists>j l. mget (site_flights (site_at t j)) l = Some g then 0 else 1)" if "g < nf" for g
      by (rule F(7)[OF that])
    show "mwf (site_flights (site_at t j))" for j
      by (rule F(8))
  qed
qed

lemma close_flights_inv:
  assumes "store_inv s gs (site_flight_bytes (flight_at s) L) (flight_bytes (flight_at s) L)" "flights_inv s L nf"
    "image_budget s" "site_flights (site_at s i) = rest"
  shows "\<exists>t r. close_flights i rest s = t \<and>
    store_inv t gs (site_flight_bytes (flight_at t) L) (flight_bytes (flight_at t) L) \<and> flights_inv t L nf \<and> image_budget t \<and>
    site_flights (site_at t i) = [] \<and> (\<forall>j. j \<noteq> i \<longrightarrow> site_flights (site_at t j) = site_flights (site_at s j)) \<and>
    (\<forall>j. site_closed (site_at t j) = site_closed (site_at s j)) \<and> entry_at t = entry_at s \<and>
    maxSiteBytes t = maxSiteBytes s \<and> maxProcessBytes t = maxProcessBytes s \<and> 0 \<le> r \<and>
    flight_bytes (flight_at t) L = flight_bytes (flight_at s) L - r \<and>
    site_flight_bytes (flight_at t) L = (site_flight_bytes (flight_at s) L)(i := site_flight_bytes (flight_at s) L i - r)"
  using assms
proof (induction rest arbitrary: s)
  case Nil
  then show ?case
    by (intro exI[of _ s] exI[of _ 0]) simp
next
  case (Cons kf rest)
  obtain key f where kf: "kf = (key, f)"
    by fastforce
  note F = flights_invD[OF Cons.prems(2)]
  have joinable: "mget (site_flights (site_at s i)) key = Some f" and rest: "mdel key (site_flights (site_at s i)) = rest"
    using Cons.prems(4) F(8)[of i] by (simp_all add: kf mdel_id)
  note f = F(5)[OF joinable]
  define r where "r = reservedBytes (flight_at s f)"
  define q where "q = (if captureStarted (flight_at s f) then 0 else r)"
  define s1 where "s1 = (if captureStarted (flight_at s f) then s else releaseFlightReservationLocked i f s)"
  define s3 where "s3 = close_done f (on_site i (\<lambda>st. st\<lparr>site_flights := mdel key (site_flights st)\<rparr>) s1)"
  have r0: "0 \<le> r"
    using F(3)[OF f] by (simp add: r_def)
  have fl1: "flight_at s1 = (flight_at s)(f := (flight_at s f)\<lparr>reservedBytes := r - q\<rparr>)"
    using r0 release_flights[of s f i] by (simp add: s1_def q_def r_def fun_upd_idem_iff)
  then have fl: "flight_at s3 = (flight_at s)(f := (flight_at s f)\<lparr>reservedBytes := r - q, closings := closings (flight_at s f) + 1\<rparr>)"
    by (simp add: s3_def close_done_def)
  have same1: "site_flights (site_at s1 j) = site_flights (site_at s j)" "site_closed (site_at s1 j) = site_closed (site_at s j)"
      "maxSiteBytes s1 = maxSiteBytes s" "maxProcessBytes s1 = maxProcessBytes s" "entry_at s1 = entry_at s" for j
    by (simp_all add: s1_def release_simps)
  have same: "site_flights (site_at s3 j) = (if j = i then mdel key (site_flights (site_at s i)) else site_flights (site_at s j))"
      "site_closed (site_at s3 j) = site_closed (site_at s j)" "site_bytes (site_at s3 j) = site_bytes (site_at s1 j)"
      "maxSiteBytes s3 = maxSiteBytes s" "maxProcessBytes s3 = maxProcessBytes s" "entry_at s3 = entry_at s"
      "process_bytes s3 = process_bytes s1" for j
    by (simp_all add: s3_def close_done_def site_at_on_site same1)
  have store3: "store_inv s3 = store_inv s1"
    by (simp add: s3_def close_done_def store_inv_on_site)
  have zero: "reservedBytes (((flight_at s)(f := (flight_at s f)\<lparr>reservedBytes := 0\<rparr>)) f) = 0"
      "\<forall>g. g \<noteq> f \<longrightarrow> reservedBytes (((flight_at s)(f := (flight_at s f)\<lparr>reservedBytes := 0\<rparr>)) g) = reservedBytes (flight_at s g)"
    by simp_all
  note given = flight_given_back[OF Cons.prems(2) f zero, folded r_def]
  have sums: "flight_bytes (flight_at s3) L = flight_bytes (flight_at s) L - q \<and>
      site_flight_bytes (flight_at s3) L = (site_flight_bytes (flight_at s) L)(i := site_flight_bytes (flight_at s) L i - q)"
  proof (cases "captureStarted (flight_at s f)")
    case True
    then show ?thesis
      using flight_sums_view[of "flight_at s3" "flight_at s" L] by (simp add: fl q_def r_def)
  next
    case False
    then show ?thesis
      using flight_sums_view[of "flight_at s3" "(flight_at s)(f := (flight_at s f)\<lparr>reservedBytes := 0\<rparr>)" L] given(3,4)
      by (simp add: fl q_def)
  qed
  note back_inv = release_inv[OF Cons.prems(1) r_def r0 given(6,5)]
  have store: "store_inv s3 gs (site_flight_bytes (flight_at s3) L) (flight_bytes (flight_at s3) L)"
    using Cons.prems(1) back_inv(1) sums by (auto simp: store3 s1_def q_def)
  have flights: "flights_inv s3 L nf"
  proof (rule flights_inv_readd[OF _ f F(1) F(2)[OF f]])
    show "flights_inv s3 (remove1 (i, key, f) L) nf"
      by (rule flights_inv_finished[OF Cons.prems(2) f]) (simp_all add: fl same(1) joinable)
    show "0 \<le> reservedBytes (flight_at s3 f)" "\<not> flight_stored (flight_at s3 f)"
      using F(4)[OF f] r0 by (simp_all add: fl q_def)
  qed
  have budget: "image_budget s3"
    by (rule budget_less[OF Cons.prems(3)]) (use r0 back_inv(2,3) in \<open>auto simp: same s1_def\<close>)
  have "site_flights (site_at s3 i) = rest"
    by (simp add: same(1) rest)
  from Cons.IH[OF store flights budget this]
  obtain t p where t: "close_flights i rest s3 = t" 
      "store_inv t gs (site_flight_bytes (flight_at t) L) (flight_bytes (flight_at t) L)" "flights_inv t L nf" "image_budget t"
      "site_flights (site_at t i) = []" "\<forall>j. j \<noteq> i \<longrightarrow> site_flights (site_at t j) = site_flights (site_at s3 j)"
      "\<forall>j. site_closed (site_at t j) = site_closed (site_at s3 j)" "entry_at t = entry_at s3"
      "maxSiteBytes t = maxSiteBytes s3" "maxProcessBytes t = maxProcessBytes s3" "0 \<le> p"
      "flight_bytes (flight_at t) L = flight_bytes (flight_at s3) L - p"
      "site_flight_bytes (flight_at t) L = (site_flight_bytes (flight_at s3) L)(i := site_flight_bytes (flight_at s3) L i - p)"
    by blast
  have "close_flights i (kf # rest) s = t"
    using t(1) by (simp add: kf Let_def s1_def[symmetric] s3_def[symmetric])
  moreover have "0 \<le> p + q"
    using t(11) r0 by (simp add: q_def)
  moreover have "flight_bytes (flight_at t) L = flight_bytes (flight_at s) L - (p + q)"
    using t(12) sums by simp
  moreover have "site_flight_bytes (flight_at t) L = (site_flight_bytes (flight_at s) L)(i := site_flight_bytes (flight_at s) L i - (p + q))"
    using t(13) sums by (simp add: fun_eq_iff)
  moreover have "\<forall>j. j \<noteq> i \<longrightarrow> site_flights (site_at t j) = site_flights (site_at s j)"
      "\<forall>j. site_closed (site_at t j) = site_closed (site_at s j)" "entry_at t = entry_at s"
      "maxSiteBytes t = maxSiteBytes s" "maxProcessBytes t = maxProcessBytes s"
    using t(6-10) by (simp_all add: same)
  ultimately show ?case
    using t(2-5) by (intro exI[of _ t] exI[of _ "p + q"] conjI)
qed

lemma close_world:
  assumes inv: "image_inv w gs" and s: "s = image_cache w"
  obtains t gs' where "image_site_close i s = Some t" "image_inv (w\<lparr>image_cache := t\<rparr>) gs'"
    "lru_step (lru_of w gs) (Closed i (flight_bytes (flight_at s) (leaders w) - flight_bytes (flight_at t) (leaders w)))
       (lru_of (w\<lparr>image_cache := t\<rparr>) gs')"
    "site_closed (site_at t i)"
proof -
  note I = image_invD[OF inv, folded s]
  let ?h = "site_flight_bytes (flight_at s) (leaders w)" and ?H = "flight_bytes (flight_at s) (leaders w)"
  have lw: "lru_held (lru_of w gs) = ?h" "lru_total (lru_of w gs) = ?H" "lru_items (lru_of w gs) = map (item_of s) gs"
    by (simp_all add: lru_of_def s)
  have owner: "filter (\<lambda>it. item_site it \<noteq> i) (map (item_of s) gs) = map (item_of s) (filter (\<lambda>x. \<not> owned s i x) gs)"
    using item_site_is[OF I(1), where i = i] by (auto simp: filter_map intro!: arg_cong[where f = "map (item_of s)"] filter_cong)
  show thesis
  proof (cases "site_closed (site_at s i)")
    case True
    then have "filter (\<lambda>x. \<not> owned s i x) gs = gs"
      using I(6)[OF True] by simp
    moreover have "w\<lparr>image_cache := s\<rparr> = w"
      by (simp add: s)
    moreover have "0 \<le> ?h i" "0 \<le> ?H"
      using store_invD(7,9)[OF I(1)] by blast+
    ultimately have "lru_step (lru_of w gs) (Closed i 0) (lru_of (w\<lparr>image_cache := s\<rparr>) gs)"
      using lru_close[of 0 "lru_of w gs" i] by (simp add: lw owner) (simp add: lru_of_def s)
    then show ?thesis
      using that[of s gs] True inv by (simp add: image_site_close_def s)
  next
    case False
    define s0 where "s0 = on_site i (site_closed_update (\<lambda>_. True)) s"
    have "store_inv s0 gs ?h ?H"
      using I(1) by (simp add: s0_def store_inv_on_site)
    from clear_site_returns[OF this, of i]
    obtain t0 where t0: "clear_site i s0 = Some t0" "store_inv t0 (filter (\<lambda>x. \<not> owned s0 i x) gs) ?h ?H" "same_objects s0 t0"
        "not_more_bytes s0 t0"
      by (auto simp: not_more_bytes_def)
    let ?gs = "filter (\<lambda>x. \<not> owned s i x) gs"
    have e0: "entry_at s0 = entry_at s" "flight_at s0 = flight_at s" "maxSiteBytes s0 = maxSiteBytes s" "maxProcessBytes s0 = maxProcessBytes s"
        "site_flights (site_at s0 j) = site_flights (site_at s j)" "site_bytes (site_at s0 j) = site_bytes (site_at s j)"
        "site_closed (site_at s0 j) = (j = i \<or> site_closed (site_at s j))" "process_bytes s0 = process_bytes s" for j
      by (auto simp: s0_def site_at_on_site)
    have own: "owned t0 = owned s"
      using same_owned[OF t0(3)] by (simp add: owned_def e0 fun_eq_iff)
    have items: "item_of t0 = item_of s"
      using same_item[OF t0(3)] item_of_view[OF e0(1)] by simp
    note f0 = same_objects_fields[OF t0(3)]
    have store: "store_inv t0 ?gs (site_flight_bytes (flight_at t0) (leaders w)) (flight_bytes (flight_at t0) (leaders w))"
      using t0(2) own by (simp add: f0(7) e0 owned_def)
    have flights: "flights_inv t0 (leaders w) (next_flight w)"
      using I(2) flights_inv_view[of s0 s] by (simp add: flights_inv_same[OF t0(3)] e0)
    have budget: "image_budget t0"
      by (rule budget_less[OF I(4)]) (use t0(4) in \<open>auto simp: not_more_bytes_def e0 f0\<close>)
    from close_flights_inv[OF store flights budget refl, of i]
    obtain t r where t: "close_flights i (site_flights (site_at t0 i)) t0 = t"
      "store_inv t ?gs (site_flight_bytes (flight_at t) (leaders w)) (flight_bytes (flight_at t) (leaders w))"
      "flights_inv t (leaders w) (next_flight w)" "image_budget t" "site_flights (site_at t i) = []"
      "\<forall>j. j \<noteq> i \<longrightarrow> site_flights (site_at t j) = site_flights (site_at t0 j)"
      "\<forall>j. site_closed (site_at t j) = site_closed (site_at t0 j)" "entry_at t = entry_at t0"
      "maxSiteBytes t = maxSiteBytes t0" "maxProcessBytes t = maxProcessBytes t0" "0 \<le> r"
      "flight_bytes (flight_at t) (leaders w) = ?H - r"
      "site_flight_bytes (flight_at t) (leaders w) = ?h(i := ?h i - r)"
      by (auto simp: f0(7) e0)
    have closing: "image_site_close i s = Some t"
      using False t0(1) t(1) by (simp add: image_site_close_def s0_def[symmetric])
    have items_t: "item_of t = item_of s"
      using item_of_view[OF t(8)] items by simp
    have own_t: "owned t = owned s"
      using own by (simp add: owned_def t(8) fun_eq_iff)
    have none: "site_flights (site_at t j) = [] \<and> (\<forall>x\<in>set ?gs. \<not> owned t j x)" if "site_closed (site_at t j)" for j
      using that t(5,6,7) I(5,6)[of j] by (cases "j = i") (auto simp: own_t f0 e0)
    have inv': "image_inv (w\<lparr>image_cache := t\<rparr>) ?gs"
      using t(2-4) I(3) none by (simp add: image_inv_def Let_def)
    have "r \<le> ?h i" "r \<le> ?H"
      using store_invD(7,9)[OF t(2)] t(12,13) by (simp_all add: fun_eq_iff) (metis diff_ge_0_iff_ge)+
    moreover have "lru_of (w\<lparr>image_cache := t\<rparr>) ?gs = (lru_of w gs)\<lparr>lru_items := map (item_of s) ?gs, lru_held := ?h(i := ?h i - r), lru_total := ?H - r\<rparr>"
      by (simp add: lru_of_def t(9,10,12,13) items_t f0(10,11) e0 s[symmetric])
    ultimately have "lru_step (lru_of w gs) (Closed i r) (lru_of (w\<lparr>image_cache := t\<rparr>) ?gs)"
      using lru_close[of r "lru_of w gs" i] t(11) by (simp add: lw owner)
    then show ?thesis
      using that[OF closing inv'] t(7,12) by (simp add: f0 e0)
  qed
qed


section \<open>Runs\<close>

lemma alloc_inv:
  assumes inv: "image_inv w gs" and x: "x = next_entry w"
  shows "image_inv (w\<lparr>image_cache := on_entry x (\<lambda>_. e) (image_cache w), next_entry := Suc x\<rparr>) gs"
    "lru_of (w\<lparr>image_cache := on_entry x (\<lambda>_. e) (image_cache w), next_entry := Suc x\<rparr>) gs = lru_of w gs"
    "x \<notin> set gs"
proof -
  note I = image_invD[OF inv]
  let ?s = "image_cache w" and ?t = "on_entry x (\<lambda>_. e) (image_cache w)"
  show fresh: "x \<notin> set gs"
    using I(3) x by blast
  have t: "site_at ?t = site_at ?s" "flight_at ?t = flight_at ?s" "process_bytes ?t = process_bytes ?s"
      "maxSiteBytes ?t = maxSiteBytes ?s" "maxProcessBytes ?t = maxProcessBytes ?s"
    by (simp_all add: on_entry_def)
  have "flights_inv ?t = flights_inv ?s"
    by (rule flights_inv_view) (simp_all add: t)
  moreover have "owned ?t j y = owned ?s j y" if "y \<in> set gs" for j y
    using that fresh by (auto simp: owned_def on_entry_def)
  moreover have "image_budget ?t"
    using I(4) by (simp add: image_budget_def t)
  ultimately show "image_inv (w\<lparr>image_cache := ?t, next_entry := Suc x\<rparr>) gs"
    using I on_entry_fresh(1)[OF I(1) fresh] by (auto simp: image_inv_def Let_def t x less_SucI)
  show "lru_of (w\<lparr>image_cache := ?t, next_entry := Suc x\<rparr>) gs = lru_of w gs"
    using on_entry_fresh(2)[OF I(1) fresh, where g = "\<lambda>_. e"] by (simp add: lru_of_def t)
qed

lemma step_simulated:
  assumes inv: "image_inv w gs" and step: "image_step w ev w'"
  shows "simulated w gs ev w'"
  using step
proof cases
  case (step_lookup i k now s e f available)
  then show ?thesis
    using lookup_simulated[OF inv step_lookup(3)] by simp
next
  case (step_begin i k now s a)
  then show ?thesis
    using begin_simulated[OF inv step_begin(3)] by simp
next
  case (step_capture i k f s r)
  then show ?thesis
    using capture_simulated[OF inv step_capture(4)] by simp
next
  case (step_discard i k f now s)
  obtain t gs' where "finishFlight i k f None now (image_cache w) = Some t"
      "image_inv (w\<lparr>image_cache := t, leaders := remove1 (i, k, f) (leaders w)\<rparr>) gs'"
      "lru_step (lru_of w gs) (Finished i k (reservedBytes (flight_at (image_cache w) f))
        (if flight_stored (flight_at t f) then map_option (item_of t) None else None))
        (lru_of (w\<lparr>image_cache := t, leaders := remove1 (i, k, f) (leaders w)\<rparr>) gs')"
    by (rule finish_world[where e = None and now = now, OF inv step_discard(3) refl]) auto
  then show ?thesis
    using step_discard by (auto simp: simulated_def split: if_splits)
next
  case (step_publish i k f e x now s)
  let ?w = "w\<lparr>image_cache := on_entry x (\<lambda>_. e) (image_cache w), next_entry := Suc x\<rparr>"
  note alloc = alloc_inv(1,2)[OF inv step_publish(5), of e] alloc_inv(3)[OF inv step_publish(5)]
  have f: "(i, k, f) \<in> set (leaders ?w)"
    using step_publish(3) by simp
  have e: "y \<notin> set gs \<and> y < next_entry ?w \<and> 0 \<le> entry_cost (entry_at (image_cache ?w) y)" if "Some x = Some y" for y
    using that alloc(3) step_publish(4) by (auto simp: on_entry_def)
  obtain t gs' where fin: "finishFlight i k f (Some x) now (image_cache ?w) = Some t"
      "image_inv (?w\<lparr>image_cache := t, leaders := remove1 (i, k, f) (leaders ?w)\<rparr>) gs'"
      "lru_step (lru_of ?w gs) (Finished i k (reservedBytes (flight_at (image_cache ?w) f))
        (if flight_stored (flight_at t f) then map_option (item_of t) (Some x) else None))
        (lru_of (?w\<lparr>image_cache := t, leaders := remove1 (i, k, f) (leaders ?w)\<rparr>) gs')"
    by (rule finish_world[where e = "Some x" and now = now, OF alloc(1) f refl e]) auto
  have t: "t = s"
    using fin(1) step_publish(6) by simp
  have w': "?w\<lparr>image_cache := s, leaders := remove1 (i, k, f) (leaders ?w)\<rparr> = w'"
    unfolding step_publish(2) by (rule image_world.equality) simp_all
  show ?thesis
    using fin(2,3) unfolding simulated_def alloc(2) t w' step_publish(1) by auto
next
  case (step_close i s)
  obtain t gs' where "image_site_close i (image_cache w) = Some t" "image_inv (w\<lparr>image_cache := t\<rparr>) gs'"
    "lru_step (lru_of w gs) (Closed i (flight_bytes (flight_at (image_cache w)) (leaders w) - flight_bytes (flight_at t) (leaders w)))
       (lru_of (w\<lparr>image_cache := t\<rparr>) gs')"
    by (rule close_world[OF inv refl]) auto
  then show ?thesis
    using step_close by (auto simp: simulated_def)
qed

definition lru_init :: "int \<Rightarrow> int \<Rightarrow> lru_cache" where
  "lru_init ms mp = \<lparr>lru_items = [], lru_held = (\<lambda>_. 0), lru_total = 0, lru_max_site = ms, lru_max_process = mp\<rparr>"

inductive lru_run :: "lru_cache \<Rightarrow> image_event list \<Rightarrow> lru_cache \<Rightarrow> bool" where
  lru_start: "lru_run a [] a"
| lru_more: "lru_run a0 evs a \<Longrightarrow> lru_step a ev a' \<Longrightarrow> lru_run a0 (evs @ [ev]) a'"

lemma image_init_inv: "image_inv (image_world_init mp ms ttl ids en fl) []"
  by (simp add: image_inv_def Let_def image_world_init_def newImageCacheRuntimeWithLimits_def image_newSite_def
      store_inv_def holds_nodes_def process_nodes_def site_nodes_def flights_inv_def image_budget_def)

lemma image_init_lru: "lru_of (image_world_init mp ms ttl ids en fl) [] = lru_init ms mp"
  by (simp add: lru_of_def image_world_init_def newImageCacheRuntimeWithLimits_def lru_init_def fun_eq_iff)

lemma image_run_sound:
  assumes "image_run w0 evs w" "w0 = image_world_init mp ms ttl ids en fl"
  shows "\<exists>gs. image_inv w gs \<and> lru_run (lru_init ms mp) evs (lru_of w gs) \<and>
    maxSiteBytes (image_cache w) = ms \<and> maxProcessBytes (image_cache w) = mp"
  using assms
proof induction
  case (run_start w)
  then show ?case
    using image_init_inv image_init_lru lru_start
    by (intro exI[of _ "[]"]) (simp, simp add: image_world_init_def newImageCacheRuntimeWithLimits_def)
next
  case (run_step w0 evs w ev w')
  then obtain gs where gs: "image_inv w gs" "lru_run (lru_init ms mp) evs (lru_of w gs)" 
      "maxSiteBytes (image_cache w) = ms" "maxProcessBytes (image_cache w) = mp"
    by blast
  obtain gs' where gs': "image_inv w' gs'" "lru_step (lru_of w gs) ev (lru_of w' gs')"
    using step_simulated[OF gs(1) run_step.hyps(2)] unfolding simulated_def by blast
  have "lru_max_site (lru_of w' gs') = lru_max_site (lru_of w gs) \<and> lru_max_process (lru_of w' gs') = lru_max_process (lru_of w gs)"
    using gs'(2) by cases simp_all
  then have "maxSiteBytes (image_cache w') = ms" "maxProcessBytes (image_cache w') = mp"
    using gs(3,4) by (simp_all add: lru_of_def)
  then show ?case
    using gs' lru_more[OF gs(2) gs'(2)] by blast
qed

section \<open>Where a response comes from\<close>

definition published_by :: "image_event list \<Rightarrow> cached_item \<Rightarrow> bool" where
  "published_by evs it \<longleftrightarrow> (\<exists>before r after.
     evs = before @ Finished (item_site it) (item_key it) r (Some it) # after \<and>
     (\<forall>r' it'. Finished (item_site it) (item_key it) r' (Some it') \<notin> set after) \<and>
     (\<forall>r'. Closed (item_site it) r' \<notin> set after))"

lemma published_by_more:
  assumes "published_by evs it" "\<forall>r it'. ev \<noteq> Finished (item_site it) (item_key it) r (Some it')" "\<forall>r. ev \<noteq> Closed (item_site it) r"
  shows "published_by (evs @ [ev]) it"
proof -
  obtain before r after where "evs = before @ Finished (item_site it) (item_key it) r (Some it) # after"
     "\<forall>r' it'. Finished (item_site it) (item_key it) r' (Some it') \<notin> set after" "\<forall>r'. Closed (item_site it) r' \<notin> set after"
    using assms(1) by (auto simp: published_by_def)
  then show ?thesis
    using assms(2,3) unfolding published_by_def
    by - (rule exI[of _ before], rule exI[of _ r], rule exI[of _ "after @ [ev]"], auto)
qed

lemma published_by_last: "item_site it = i \<Longrightarrow> item_key it = k \<Longrightarrow> published_by (evs @ [Finished i k r (Some it)]) it"
  unfolding published_by_def by (rule exI[of _ evs], rule exI[of _ r], rule exI[of _ "[]"]) simp

lemma lru_get_subset: "lru_get i k now its = (its', r) \<Longrightarrow> set its' \<subseteq> set its"
  "lru_get i k now its = (its', Some it) \<Longrightarrow> it \<in> set its \<and> is_item i k it \<and> now < item_expires it"
proof -
  have f: "filter (is_item i k) its = x # xs \<Longrightarrow> x \<in> set its \<and> is_item i k x" for x xs
    using filter_set[of "is_item i k" its] by (metis list.set_intros(1) mem_Collect_eq set_filter)
  show "lru_get i k now its = (its', r) \<Longrightarrow> set its' \<subseteq> set its"
    using lru_remove_subset[of i k its] by (auto simp: lru_get_def dest!: f split: list.splits if_splits)
  show "lru_get i k now its = (its', Some it) \<Longrightarrow> it \<in> set its \<and> is_item i k it \<and> now < item_expires it"
    by (auto simp: lru_get_def dest!: f split: list.splits if_splits)
qed

lemma reserve_room_subset: "set (fst (reserve_room c own m tg ms mp hs H xs)) \<subseteq> set xs"
  by (auto simp: reserve_room_def Let_def case_prod_unfold dest!: subsetD[OF make_room_subset])

lemma lru_reserve_subset: "lru_reserve i k ms mp hs H its = (its', r) \<Longrightarrow> set its' \<subseteq> set its"
  by (auto simp: lru_reserve_def Let_def case_prod_unfold split: if_splits dest!: subsetD[OF reserve_room_subset])

lemma lru_run_published: "lru_run a0 evs a \<Longrightarrow> lru_items a0 = [] \<Longrightarrow> it \<in> set (lru_items a) \<Longrightarrow> published_by evs it"
proof (induction arbitrary: it rule: lru_run.induct)
  case (lru_more a0 evs a ev a')
  have keep: "published_by (evs @ [ev]) it" if "it \<in> set (lru_items a)"
      "\<forall>r it'. ev \<noteq> Finished (item_site it) (item_key it) r (Some it')" "\<forall>r. ev \<noteq> Closed (item_site it) r"
    by (rule published_by_more[OF lru_more.IH[OF lru_more.prems(1) that(1)] that(2,3)])
  from lru_more.hyps(2) show ?case
  proof cases
    case (lru_serve i k now its r)
    then show ?thesis
      using lru_more.prems lru_get_subset(1)[OF lru_serve(3)] by (intro keep) auto
  next
    case (lru_reserve i k now its its' r)
    then show ?thesis
      using lru_more.prems lru_get_subset(1)[OF lru_reserve(3)] lru_reserve_subset[OF lru_reserve(4)] by (intro keep) auto
  next
    case (lru_publish new r i k)
    then show ?thesis
    proof (cases "it = new")
      case False
      then have "it \<in> set (lru_items a)" "\<not> is_item i k it"
        using lru_more.prems lru_publish by (auto simp: lru_remove_def)
      then show ?thesis
        using lru_publish by (intro keep) (auto simp: is_item_def)
    qed (use lru_publish published_by_last in auto)
  next
    case (lru_close r i)
    then show ?thesis
      using lru_more.prems by (intro keep) auto
  qed (intro keep; use lru_more.prems in auto)+
qed simp

end
