(* ===== verification/Image_Properties.thy ===== *)
theory Image_Properties
  imports Image_Sites
begin

text \<open>
  The properties of the image cache over its runs, with a concrete run of one site as their witness.
\<close>

lemma lookupOrBegin_returns:
  assumes "image_inv w gs"
  shows "\<exists>s a. lookupOrBegin i k now f (image_cache w) = Some (s, a)"
proof (cases "site_closed (site_at (image_cache w) i)")
  case False
  obtain s1 e where get: "image_getLocked i k now (image_cache w) = (s1, e)"
    by fastforce
  obtain gs1 where g: "image_inv (w\<lparr>image_cache := s1\<rparr>) gs1"
    using get_simulated[OF assms get] by metis
  obtain t r where "reserveFlightLocked i k s1 = Some (t, r)"
    using reserveFlightLocked_lru[OF image_invD(1)[OF g, simplified], of i k] by metis
  then show ?thesis
    using False get by (cases e; cases "mget (site_flights (site_at s1 i)) k") (auto simp: lookupOrBegin_def)
qed (simp add: lookupOrBegin_def)

lemma lru_run_snoc: "lru_run a0 (evs @ [ev]) a \<Longrightarrow> \<exists>a1. lru_run a0 evs a1 \<and> lru_step a1 ev a"
  by (erule lru_run.cases) auto

inductive_cases lru_served: "lru_step a (Served i k now r) a'"

section \<open>A run\<close>

definition demo_image_key :: imageCacheKey where
  "demo_image_key = \<lparr>key_siteID = 7, primaryAuthority = ''h'', canonicalPath = ''/p'', canonicalQuery = [],
     forceQuery = False, credentialIdentity = [], representation = []\<rparr>"

definition demo_image_entry :: "int \<Rightarrow> imageCacheEntry" where
  "demo_image_entry c = \<lparr>entry_key = demo_image_key, entry_owner = None, entry_header = [(''Content-Type'', [''image/png''])],
     entry_body = ''img'', responseAt = 6, initialAge = 0, expiresAt = 60, entry_cost = c,
     globalPrev = None, globalNext = None, sitePrev = None, siteNext = None\<rparr>"

definition demo_image_world :: image_world where
  "demo_image_world = image_world_init 2000 1000 second (\<lambda>_. 7) (\<lambda>_. demo_image_entry 0)
     (\<lambda>_. \<lparr>closings = 0, flight_stored = False, reservedBytes = 0, captureStarted = False\<rparr>)"

definition demo_image1 :: imageCacheRuntime where
  "demo_image1 = fst (the (lookupOrBegin 0 demo_image_key 5 0 (image_cache demo_image_world)))"

definition demo_image2 :: imageCacheRuntime where
  "demo_image2 = fst (beginFlightCapture 0 demo_image_key 0 demo_image1)"

definition demo_image3 :: imageCacheRuntime where
  "demo_image3 = the (finishFlight 0 demo_image_key 0 (Some 0) 6 (on_entry 0 (\<lambda>_. demo_image_entry 600) demo_image2))"

definition demo_image4 :: imageCacheRuntime where
  "demo_image4 = fst (image_lookup 0 demo_image_key 7 demo_image3)"

definition demo_image_item :: cached_item where
  "demo_image_item = \<lparr>item_site = 0, item_key = demo_image_key, item_cost = 603, item_expires = 60,
     item_header = [(''Content-Type'', [''image/png''])], item_body = ''img''\<rparr>"

definition demo_image_events :: "image_event list" where
  "demo_image_events = [Reserved 0 demo_image_key 5 1000, Captured 0 demo_image_key,
     Finished 0 demo_image_key 1000 (Some demo_image_item)]"

lemma demo_begin: "map_option snd (lookupOrBegin 0 demo_image_key 5 0 (image_cache demo_image_world)) = Some (Lead 0)"
  by code_simp

lemma demo_image_reserved: "reservedBytes (flight_at demo_image1 0) = 1000 \<and> reservedBytes (flight_at demo_image2 0) = 1000"
  by code_simp


lemma demo_capture_kept: "entry_fits demo_image_key 0 (Some 0) (on_entry 0 (\<lambda>_. demo_image_entry 600) demo_image2) \<and>
    finishFlight 0 demo_image_key 0 (Some 0) 6 (on_entry 0 (\<lambda>_. demo_image_entry 600) demo_image2) \<noteq> None"
  by code_simp

lemma demo_stored: "flight_stored (flight_at demo_image3 0) \<and> item_of demo_image3 0 = demo_image_item"
  by code_simp

lemma demo_hit: "snd (image_lookup 0 demo_image_key 7 demo_image3) = (Some 0, None, True) \<and>
    content_at demo_image4 0 = ([(''Content-Type'', [''image/png''])], ''img'')"
  by code_simp


lemma demo_image_run: "\<exists>w. image_run demo_image_world demo_image_events w \<and> image_cache w = demo_image3 \<and> leaders w = [] \<and>
    next_flight w = 1"
proof -
  let ?k = demo_image_key
  define w1 where "w1 = demo_image_world\<lparr>image_cache := demo_image1, leaders := [(0, ?k, 0)], next_flight := 1\<rparr>"
  define w2 where "w2 = w1\<lparr>image_cache := demo_image2\<rparr>"
  define w3 where "w3 = w2\<lparr>image_cache := demo_image3, leaders := [], next_entry := 1\<rparr>"
  have w0: "next_flight demo_image_world = 0" "leaders demo_image_world = []" "next_entry demo_image_world = 0"
    by (simp_all add: demo_image_world_def image_world_init_def)
  have "lookupOrBegin 0 ?k 5 0 (image_cache demo_image_world) = Some (demo_image1, Lead 0)"
    using demo_begin by (auto simp: demo_image1_def)
  then have "image_step demo_image_world (begin_event 0 ?k 5 demo_image1 (Lead 0)) w1"
    using step_begin[of 0 ?k 5 demo_image_world demo_image1 "Lead 0"] by (simp add: w0 w1_def)
  then have 1: "image_step demo_image_world (Reserved 0 ?k 5 1000) w1"
    using demo_image_reserved by (simp add: begin_event_def)
  have 2: "image_step w1 (Captured 0 ?k) w2"
    unfolding w2_def
    by (rule step_capture[where f = 0 and r = "snd (beginFlightCapture 0 ?k 0 demo_image1)"]) (simp_all add: w1_def demo_image2_def)
  have "finishFlight 0 ?k 0 (Some 0) 6 (on_entry 0 (\<lambda>_. demo_image_entry 600) (image_cache w2)) = Some demo_image3"
    using demo_capture_kept by (auto simp: demo_image3_def w2_def)
  then have "image_step w2 (Finished 0 ?k (reservedBytes (flight_at (image_cache w2) 0))
      (if flight_stored (flight_at demo_image3 0) then Some (item_of demo_image3 0) else None))
      (w2\<lparr>image_cache := demo_image3, leaders := remove1 (0, ?k, 0) (leaders w2), next_entry := Suc 0\<rparr>)"
    by (intro step_publish) (simp_all add: w2_def w1_def w0 demo_image_entry_def)
  then have 3: "image_step w2 (Finished 0 ?k 1000 (Some demo_image_item)) w3"
    using demo_stored demo_image_reserved by (simp add: w3_def w2_def w1_def)
  have "image_run demo_image_world ([] @ [Reserved 0 ?k 5 1000] @ [Captured 0 ?k] @ [Finished 0 ?k 1000 (Some demo_image_item)]) w3"
    using run_step[OF run_step[OF run_step[OF run_start 1] 2] 3] by simp
  then show ?thesis
    by (intro exI[of _ w3]) (simp add: demo_image_events_def w3_def w2_def w1_def)
qed

lemma demo_image_served: "\<exists>w. image_run demo_image_world
    (demo_image_events @ [Served 0 demo_image_key 7 (Some ([(''Content-Type'', [''image/png''])], ''img''))]) w"
proof -
  obtain w where w: "image_run demo_image_world demo_image_events w" "image_cache w = demo_image3"
    using demo_image_run by blast
  have "image_lookup 0 demo_image_key 7 (image_cache w) = (demo_image4, Some 0, None, True)"
    using demo_hit w(2) by (simp add: demo_image4_def prod_eq_iff)
  from step_lookup[OF this] run_step[OF w(1)] show ?thesis
    using demo_hit by fastforce
qed

section \<open>Properties\<close>

text \<open>C13. The pointer structure of the image cache is a plain list of responses. After every sequence of its
  atomic sections, in any interleaving of requests and sites, there is one recency order of the entries that
  the list of the process holds and of which the list of every site is the part that site owns; and the run
  is a run of the specification, in which a lookup finds the response of exactly that site and key unless it
  is expired, and moves it to the front, a reservation drops the oldest responses of the site and then of all
  only as long as room is missing, a publication replaces the response of its key, and a closed site loses
  all of its own.\<close>

theorem image_cache_refines_lru:
  assumes "image_run (image_world_init mp ms ttl ids en fl) evs w"
  shows "\<exists>gs. lru_run (lru_init ms mp) evs (lru_of w gs) \<and> holds_nodes (process_nodes (image_cache w)) gs \<and>
    (\<forall>i. holds_nodes (site_nodes i (image_cache w)) (filter (owned (image_cache w) i) gs)) \<and>
    (\<forall>i k x. mget (site_entries (site_at (image_cache w) i)) k = Some x \<longleftrightarrow>
       x \<in> set gs \<and> owned (image_cache w) i x \<and> entry_key (entry_at (image_cache w) x) = k)"
proof -
  obtain gs where gs: "image_inv w gs" "lru_run (lru_init ms mp) evs (lru_of w gs)"
    using image_run_sound[OF assms refl] by blast
  note I = store_invD(1-3)[OF image_invD(1)[OF gs(1)]]
  show ?thesis
    using I(1) I(2) I(3) gs(2) by blast
qed

theorem image_cache_refines_lru_witness:
  "\<exists>w gs. lru_run (lru_init 1000 2000) demo_image_events (lru_of w gs) \<and> holds_nodes (process_nodes (image_cache w)) gs"
proof -
  obtain w where "image_run demo_image_world demo_image_events w"
    using demo_image_run by blast
  from image_cache_refines_lru[OF this[unfolded demo_image_world_def]] show ?thesis
    by blast
qed

text \<open>C14. Memory stays within the limits at every moment: the counter of a site never exceeds its limit and
  that of the process never exceeds the limit of all, each is exactly the cost of the responses it caches
  plus the bytes its running flights hold, and none is ever negative, so that the code's clamping to zero
  never acts.\<close>

theorem image_cache_within_budget:
  assumes "image_run (image_world_init mp ms ttl ids en fl) evs w" "s = image_cache w"
  shows "\<exists>gs. holds_nodes (process_nodes s) gs \<and>
    process_bytes s = cost_of s gs + flight_bytes (flight_at s) (leaders w) \<and> 0 \<le> process_bytes s \<and> process_bytes s \<le> max 0 mp \<and>
    (\<forall>i. site_bytes (site_at s i) = cost_of s (filter (owned s i) gs) + site_flight_bytes (flight_at s) (leaders w) i \<and>
       0 \<le> site_bytes (site_at s i) \<and> site_bytes (site_at s i) \<le> max 0 ms)"
proof -
  obtain gs where gs: "image_inv w gs" "maxSiteBytes s = ms" "maxProcessBytes s = mp"
    using image_run_sound[OF assms(1) refl] assms(2) by blast
  note I = image_invD(1,4)[OF gs(1), folded assms(2)]
  note S = store_invD[OF I(1)]
  have "process_bytes s \<le> max 0 mp" "\<And>i. site_bytes (site_at s i) \<le> max 0 ms"
    using I(2) gs(2,3) by (auto simp: image_budget_def)
  moreover have "0 \<le> process_bytes s" "\<And>i. 0 \<le> site_bytes (site_at s i)"
    using site_bytes_at_least[OF I(1)] S(7,9) by (blast intro: order_trans)+
  ultimately show ?thesis
    using S(1,6,8) by blast
qed

theorem image_cache_within_budget_witness:
  "process_bytes demo_image3 \<le> 2000 \<and> site_bytes (site_at demo_image3 0) \<le> 1000"
proof -
  obtain w where w: "image_run demo_image_world demo_image_events w" "image_cache w = demo_image3"
    using demo_image_run by blast
  from image_cache_within_budget[OF w(1)[unfolded demo_image_world_def] w(2)[symmetric]] show ?thesis
    by auto
qed

text \<open>C15. No operation of the image cache runs forever: after every sequence of atomic sections a lookup
  that may evict to reserve memory returns, so does the end of a flight, with or without an entry to publish,
  and the end of a site; each eviction loop removes an entry on every turn.\<close>

theorem image_cache_operations_return:
  assumes "image_run (image_world_init mp ms ttl ids en fl) evs w"
  shows "(\<exists>s a. lookupOrBegin i k now f (image_cache w) = Some (s, a)) \<and> (\<exists>s. image_site_close i (image_cache w) = Some s) \<and>
    ((i, k, f) \<in> set (leaders w) \<and> 0 \<le> entry_cost e \<longrightarrow>
      (\<exists>s. finishFlight i k f None now (image_cache w) = Some s) \<and>
      (\<exists>s. finishFlight i k f (Some (next_entry w)) now (on_entry (next_entry w) (\<lambda>_. e) (image_cache w)) = Some s))"
proof (intro conjI impI)
  obtain gs where inv: "image_inv w gs"
    using image_run_sound[OF assms refl] by blast
  show "\<exists>s a. lookupOrBegin i k now f (image_cache w) = Some (s, a)"
    by (rule lookupOrBegin_returns[OF inv])
  show "\<exists>s. image_site_close i (image_cache w) = Some s"
    by (rule close_world[OF inv refl, where i = i]) blast
  assume f: "(i, k, f) \<in> set (leaders w) \<and> 0 \<le> entry_cost e"
  show "\<exists>s. finishFlight i k f None now (image_cache w) = Some s"
    by (rule finish_world[where e = None and now = now, OF inv conjunct1[OF f] refl]) auto
  let ?x = "next_entry w"
  let ?w = "w\<lparr>image_cache := on_entry ?x (\<lambda>_. e) (image_cache w), next_entry := Suc ?x\<rparr>"
  note alloc = alloc_inv(1)[OF inv refl, of e] alloc_inv(3)[OF inv refl]
  have fw: "(i, k, f) \<in> set (leaders ?w)"
    using f by simp
  have e: "y \<notin> set gs \<and> y < next_entry ?w \<and> 0 \<le> entry_cost (entry_at (image_cache ?w) y)" if "Some ?x = Some y" for y
    using that alloc(2) f by (auto simp: on_entry_def)
  show "\<exists>s. finishFlight i k f (Some ?x) now (on_entry ?x (\<lambda>_. e) (image_cache w)) = Some s"
    by (rule finish_world[where e = "Some ?x" and now = now, OF alloc(1) fw refl e]) auto
qed

theorem image_cache_operations_return_witness: "image_site_close 0 demo_image3 \<noteq> None"
proof -
  obtain w where w: "image_run demo_image_world demo_image_events w" "image_cache w = demo_image3"
    using demo_image_run by blast
  from image_cache_operations_return[OF w(1)[unfolded demo_image_world_def], of 0] show ?thesis
    using w(2) by auto
qed

text \<open>C16. Every flight wakes its waiters exactly once: its channel is closed at most once, so the close never
  panics; while requests can still find the flight it is open and its leader is running, for one leader per
  site and key; and once the leader has ended, or the site has closed, the channel is closed, so that no
  waiter is left behind.\<close>

theorem image_flights_wake_once:
  assumes "image_run (image_world_init mp ms ttl ids en fl) evs w" "s = image_cache w" "f < next_flight w"
  shows "closings (flight_at s f) \<le> 1 \<and>
    (closings (flight_at s f) = 0 \<longleftrightarrow> (\<exists>i k. mget (site_flights (site_at s i)) k = Some f)) \<and>
    (\<forall>i k. mget (site_flights (site_at s i)) k = Some f \<longrightarrow> (i, k, f) \<in> set (leaders w) \<and> \<not> site_closed (site_at s i)) \<and>
    ((\<forall>i k. (i, k, f) \<notin> set (leaders w)) \<longrightarrow> closings (flight_at s f) = 1)"
proof -
  obtain gs where gs: "image_inv w gs"
    using image_run_sound[OF assms(1) refl] by blast
  note I = image_invD[OF gs, folded assms(2)]
  note F = flights_invD[OF I(2)]
  have "\<not> site_closed (site_at s i)" if "mget (site_flights (site_at s i)) k = Some f" for i k
    using I(5)[of i] that by auto
  then show ?thesis
    using F(7)[OF assms(3)] by (cases "\<exists>i k. mget (site_flights (site_at s i)) k = Some f") (simp, blast dest: F(5), simp)
qed

theorem image_flights_wake_once_witness: "closings (flight_at demo_image3 0) = 1"
proof -
  obtain w where w: "image_run demo_image_world demo_image_events w" "image_cache w = demo_image3" "leaders w = []" "next_flight w = 1"
    using demo_image_run by blast
  have "0 < next_flight w"
    using w(4) by simp
  from image_flights_wake_once[OF w(1)[unfolded demo_image_world_def] w(2)[symmetric] this] show ?thesis
    using w(3) by simp
qed

text \<open>C17. What a request is served is what was stored for it: a response found by a lookup was published by a
  successful flight of exactly that site and key, it has not expired, it is the last one published for them,
  and the site has not been closed since.\<close>

theorem image_served_was_published:
  assumes "image_run (image_world_init mp ms ttl ids en fl) (evs @ [Served i k now (Some (h, b))]) w"
  shows "\<exists>it. item_site it = i \<and> item_key it = k \<and> item_header it = h \<and> item_body it = b \<and> now < item_expires it \<and>
    published_by evs it"
proof -
  obtain gs where "lru_run (lru_init ms mp) (evs @ [Served i k now (Some (h, b))]) (lru_of w gs)"
    using image_run_sound[OF assms refl] by blast
  then obtain a where a: "lru_run (lru_init ms mp) evs a" "lru_step a (Served i k now (Some (h, b))) (lru_of w gs)"
    using lru_run_snoc by blast
  from a(2) obtain its r where r: "lru_get i k now (lru_items a) = (its, r)"
      "Some (h, b) = map_option (\<lambda>it. (item_header it, item_body it)) r"
    by (rule lru_served)
  then obtain it where it: "lru_get i k now (lru_items a) = (its, Some it)" "item_header it = h" "item_body it = b"
    by (cases r) auto
  have "published_by evs it"
    using lru_run_published[OF a(1), of it] lru_get_subset(2)[OF it(1)] by (simp add: lru_init_def)
  then show ?thesis
    using it lru_get_subset(2)[OF it(1)] by (auto simp: is_item_def)
qed

theorem image_served_was_published_witness: "\<exists>it. item_body it = ''img'' \<and> published_by demo_image_events it"
proof -
  obtain w where "image_run demo_image_world
      (demo_image_events @ [Served 0 demo_image_key 7 (Some ([(''Content-Type'', [''image/png''])], ''img''))]) w"
    using demo_image_served by blast
  from image_served_was_published[OF this[unfolded demo_image_world_def]] show ?thesis
    by blast
qed

end
