(* ===== verification/Image_Response.thy ===== *)
theory Image_Response
  imports Image_Cache
begin

text \<open>
  The responses of the image cache of \<open>cmd/meridian/legacy_image_cache.go\<close>: the cache headers, how long a
  response stays fresh, which responses may be stored, the writer that captures one while it is sent, how a
  stored one is replayed and what \<open>serve\<close> decides. \<open>http.ParseTime\<close> and \<open>mime.ParseMediaType\<close> are
  arguments.
\<close>

section \<open>Cache headers\<close>

text \<open>The values of a header whose name is spelled one way only; \<open>None\<close> when two spellings are present.\<close>

definition cacheHeaderValues :: "http_header \<Rightarrow> string \<Rightarrow> string list option" where
  "cacheHeaderValues h name =
     (case filter (\<lambda>(key, _). equal_fold key name) h of [] \<Rightarrow> Some [] | [(_, vs)] \<Rightarrow> Some vs | _ \<Rightarrow> None)"

definition cacheHeaderPresent :: "http_header \<Rightarrow> string \<Rightarrow> bool" where
  "cacheHeaderPresent h name \<longleftrightarrow> list_ex (\<lambda>(key, _). equal_fold key name) h"

fun directive_parts :: "string list \<Rightarrow> (string, string list) gomap \<Rightarrow> (string, string list) gomap option" where
  "directive_parts [] ds = Some ds"
| "directive_parts (raw # rest) ds =
     (let part = trim_space raw in
      if part = [] then None
      else
        let (key0, value0, hasValue) = cut CHR ''='' part; key = trim_space key0 in
        if key = [] \<or> \<not> list_all isHTTPTokenByte key then None
        else
          let v = (if hasValue then trim_space value0 else value0); k = to_lower key
          in directive_parts rest (mput k (mget_or [] ds k @ [v]) ds))"

definition parseCacheControlDirectives :: "http_header \<Rightarrow> string \<Rightarrow> (string, string list) gomap option" where
  "parseCacheControlDirectives h name =
     (case cacheHeaderValues h name of None \<Rightarrow> None
      | Some vs \<Rightarrow> directive_parts (concat (map (split_on CHR '','') vs)) [])"

definition cacheDirectivePresent :: "(string, string list) gomap \<Rightarrow> string \<Rightarrow> bool" where
  "cacheDirectivePresent ds name \<longleftrightarrow> mget ds (to_lower name) \<noteq> None"

text \<open>The value, whether the directive is present and whether it is unambiguous.\<close>

definition cacheDirectiveValue :: "(string, string list) gomap \<Rightarrow> string \<Rightarrow> string \<times> bool \<times> bool" where
  "cacheDirectiveValue ds name =
     (case mget ds (to_lower name) of None \<Rightarrow> ([], False, True)
      | Some [] \<Rightarrow> ([], True, False)
      | Some (v # vs) \<Rightarrow> if list_all (\<lambda>x. x = v) vs then (v, True, True) else ([], True, False))"

definition cachePragmaNoCache :: "http_header \<Rightarrow> bool" where
  "cachePragmaNoCache h =
     (case cacheHeaderValues h ''Pragma'' of None \<Rightarrow> False
      | Some vs \<Rightarrow> list_ex (\<lambda>v. list_ex (\<lambda>part. equal_fold (trim_space part) ''no-cache'') (split_on CHR '','' v)) vs)"

fun replay_values :: "string \<Rightarrow> string list \<Rightarrow> int \<Rightarrow> http_header \<times> int \<Rightarrow> (http_header \<times> int) option" where
  "replay_values name [] maxBytes (replay, retained) = Some (replay, retained)"
| "replay_values name (v # vs) maxBytes (replay, retained) =
     (let r = retained + int (length name + length v + 16) in
      if maxBytes < r then None else replay_values name vs maxBytes (hdr_add name v replay, r))"

fun replay_headers :: "http_header \<Rightarrow> string list \<Rightarrow> int \<Rightarrow> http_header \<times> int \<Rightarrow> (http_header \<times> int) option" where
  "replay_headers h [] maxBytes acc = Some acc"
| "replay_headers h (name # names) maxBytes acc =
     (case cacheHeaderValues h name of None \<Rightarrow> None
      | Some vs \<Rightarrow> Option.bind (replay_values name vs maxBytes acc) (replay_headers h names maxBytes))"

definition safeCachedResponseHeadersWithin :: "http_header \<Rightarrow> string list \<Rightarrow> int \<Rightarrow> (http_header \<times> int) option" where
  "safeCachedResponseHeadersWithin h allowed maxBytes =
     (if maxBytes < 0 \<or> maxCacheReplayHeaderBytes < maxBytes then None else replay_headers h allowed maxBytes ([], 0))"

definition imageCacheReplayHeaderNames :: "string list" where
  "imageCacheReplayHeaderNames =
     [''Accept-Ranges'', ''Access-Control-Allow-Credentials'', ''Access-Control-Allow-Headers'',
      ''Access-Control-Allow-Methods'', ''Access-Control-Allow-Origin'', ''Access-Control-Expose-Headers'',
      ''Cache-Control'', ''Content-Disposition'', ''Content-Encoding'', ''Content-Language'', ''Content-Type'', ''Date'',
      ''Cross-Origin-Resource-Policy'', ''ETag'', ''Expires'', ''Last-Modified'', ''Timing-Allow-Origin'', ''Vary'',
      ''X-Content-Type-Options'']"

definition imageCacheSafeVary :: "http_header \<Rightarrow> bool" where
  "imageCacheSafeVary h =
     (case cacheHeaderValues h ''Vary'' of None \<Rightarrow> False
      | Some vs \<Rightarrow> list_all (\<lambda>v. list_all (\<lambda>part.
          let name = trim_space part in
          name \<noteq> [] \<and> list_all isHTTPTokenByte name \<and> (equal_fold name ''Accept'' \<or> equal_fold name ''Accept-Encoding''))
          (split_on CHR '','' v)) vs)"

section \<open>Freshness\<close>

definition max_delta_seconds :: int where
  "max_delta_seconds = max_i64 div second"

fun delta_digits :: "string \<Rightarrow> int \<Rightarrow> int option" where
  "delta_digits [] seconds = Some seconds"
| "delta_digits (c # rest) seconds =
     (if \<not> is_digit c then None
      else
        let digit = int (byte c) - 48 in
        if (max_delta_seconds - digit) div 10 < seconds then None else delta_digits rest (seconds * 10 + digit))"

definition parseCacheDeltaSeconds :: "string \<Rightarrow> duration option" where
  "parseCacheDeltaSeconds value0 =
     (let v = trim_space value0 in
      if v = [] then None else map_option (\<lambda>seconds. seconds * second) (delta_digits v 0))"

text \<open>The age the response has when it arrives, and its date when it has one.\<close>

definition response_age :: "(string \<Rightarrow> time option) \<Rightarrow> http_header \<Rightarrow> time \<Rightarrow> (duration \<times> time option) option" where
  "response_age parse_time h now =
     (case cacheHeaderValues h ''Age'' of
        Some ages \<Rightarrow>
          if 1 < length ages then None
          else
            (case (case ages of [] \<Rightarrow> Some 0 | a # _ \<Rightarrow> parseCacheDeltaSeconds a) of None \<Rightarrow> None
             | Some age \<Rightarrow>
                 (case cacheHeaderValues h ''Date'' of
                    Some [] \<Rightarrow> Some (age, None)
                  | Some [d] \<Rightarrow>
                      (case parse_time (trim_space d) of None \<Rightarrow> None
                       | Some date \<Rightarrow>
                           if date = 0 then None
                           else Some (if age < time_sub now date then time_sub now date else age, Some date))
                  | _ \<Rightarrow> None))
      | None \<Rightarrow> None)"

text \<open>How long the origin lets it live after it arrived: \<open>Some None\<close> when it does not say.\<close>

definition origin_remaining ::
  "(string \<Rightarrow> time option) \<Rightarrow> http_header \<Rightarrow> (string, string list) gomap \<Rightarrow> time \<Rightarrow> duration \<Rightarrow> time option \<Rightarrow> duration option option" where
  "origin_remaining parse_time h ds now age date =
     (let (v1, exists1, valid1) = cacheDirectiveValue ds ''s-maxage'';
          (maxAge, exists, valid) = (if exists1 then (v1, exists1, valid1) else cacheDirectiveValue ds ''max-age'')
      in if \<not> valid then None
         else if exists then
           (case parseCacheDeltaSeconds maxAge of None \<Rightarrow> None
            | Some lifetime \<Rightarrow> if lifetime \<le> age then None else Some (Some (lifetime - age)))
         else
           (case cacheHeaderValues h ''Expires'' of
              Some [] \<Rightarrow> Some None
            | Some [e] \<Rightarrow>
                (case parse_time (trim_space e) of None \<Rightarrow> None
                 | Some expires \<Rightarrow>
                     let lifetime = time_sub expires (case date of None \<Rightarrow> now | Some d \<Rightarrow> d) in
                     if lifetime \<le> age then None else Some (Some (lifetime - age)))
            | _ \<Rightarrow> None))"

definition forbidden_directives :: "string list" where
  "forbidden_directives = [''private'', ''no-store'', ''no-cache'']"

definition cacheResponseFreshness ::
  "(string \<Rightarrow> time option) \<Rightarrow> http_header \<Rightarrow> time \<Rightarrow> duration \<Rightarrow> (time \<times> duration) option" where
  "cacheResponseFreshness parse_time h now ttl =
     (if ttl \<le> 0 then None
      else
        case parseCacheControlDirectives h ''Cache-Control'' of None \<Rightarrow> None
        | Some ds \<Rightarrow>
            if list_ex (cacheDirectivePresent ds) forbidden_directives then None
            else
              (case response_age parse_time h now of None \<Rightarrow> None
               | Some (age0, date) \<Rightarrow>
                   let age = (if age0 < 0 then 0 else age0) in
                   if age = max_i64 then None
                   else
                     (case origin_remaining parse_time h ds now age date of None \<Rightarrow> None
                      | Some origin \<Rightarrow>
                          let remaining = (case origin of None \<Rightarrow> ttl | Some o' \<Rightarrow> if o' < ttl then o' else ttl)
                          in if remaining \<le> 0 then None else Some (now + remaining, age))))"

definition cacheResponseAgeValue :: "duration \<Rightarrow> time \<Rightarrow> time \<Rightarrow> string" where
  "cacheResponseAgeValue age0 received now =
     (let age1 = (if age0 < 0 then 0 else age0);
          resident0 = time_sub now received;
          resident = (if resident0 < 0 then 0 else resident0);
          age = (if max_i64 - resident < age1 then max_i64 else age1 + resident)
      in itoa (nat (age div second + (if age mod second \<noteq> 0 then 1 else 0))))"

section \<open>What may be stored\<close>

text \<open>\<open>strconv.ParseInt(s, 10, 64)\<close>.\<close>

definition parse_int64 :: "string \<Rightarrow> int option" where
  "parse_int64 s =
     (let (negative, digits) = (case s of [] \<Rightarrow> (False, []) | c # r \<Rightarrow>
            if c = CHR ''-'' then (True, r) else if c = CHR ''+'' then (False, r) else (False, s));
          v = int (digits_value digits); n = (if negative then - v else v)
      in if digits = [] \<or> \<not> list_all is_digit digits \<or> \<not> in_i64 n then None else Some n)"

record imageCacheMetadata =
  meta_header :: http_header
  meta_length :: "int option"
  meta_expiresAt :: time
  meta_initialAge :: duration
  meta_headerBytes :: int

definition image_media_type :: "(string \<Rightarrow> string option) \<Rightarrow> http_header \<Rightarrow> bool" where
  "image_media_type parse_media h =
     (case cacheHeaderValues h ''Content-Type'' of
        Some [v] \<Rightarrow>
          (case parse_media v of None \<Rightarrow> False
           | Some m \<Rightarrow> let mediaType = to_lower m in
               has_prefix mediaType ''image/'' \<and> length ''image/'' < length mediaType \<and> trim_prefix mediaType ''image/'' \<noteq> ''*'')
      | _ \<Rightarrow> False)"

text \<open>\<open>Some None\<close>: no length is declared; \<open>None\<close>: the declared one does not do.\<close>

definition declared_length :: "http_header \<Rightarrow> int option option" where
  "declared_length h =
     (case cacheHeaderValues h ''Content-Length'' of
        Some [] \<Rightarrow> Some None
      | Some [v] \<Rightarrow>
          (case parse_int64 (trim_space v) of None \<Rightarrow> None
           | Some n \<Rightarrow> if n < 0 \<or> imageCacheMaxBodyBytes < n then None else Some (Some n))
      | _ \<Rightarrow> None)"

definition shared_directives_ok :: "http_header \<Rightarrow> string \<Rightarrow> bool" where
  "shared_directives_ok h name =
     (case parseCacheControlDirectives h name of None \<Rightarrow> False
      | Some ds \<Rightarrow> \<not> list_ex (cacheDirectivePresent ds) forbidden_directives)"

definition imageCacheResponseMetadata ::
  "(string \<Rightarrow> time option) \<Rightarrow> (string \<Rightarrow> string option) \<Rightarrow> http_header \<Rightarrow> int \<Rightarrow> time \<Rightarrow> duration \<Rightarrow> int \<Rightarrow> imageCacheMetadata option" where
  "imageCacheResponseMetadata parse_time parse_media h status now ttl maxHeaderBytes =
     (if status \<noteq> 200 \<or> list_ex (cacheHeaderPresent h) [''Set-Cookie'', ''Content-Range'', ''Trailer'', ''Warning''] \<or>
         cachePragmaNoCache h \<or> \<not> imageCacheSafeVary h then None
      else if \<not> image_media_type parse_media h then None
      else if \<not> list_all (shared_directives_ok h) [''Surrogate-Control'', ''CDN-Cache-Control''] then None
      else
        case declared_length h of None \<Rightarrow> None
        | Some len \<Rightarrow>
            (case cacheResponseFreshness parse_time h now ttl of None \<Rightarrow> None
             | Some (expires, age) \<Rightarrow>
                 (case safeCachedResponseHeadersWithin h imageCacheReplayHeaderNames maxHeaderBytes of None \<Rightarrow> None
                  | Some (replay, bytes) \<Rightarrow>
                      Some \<lparr>meta_header = replay, meta_length = len, meta_expiresAt = expires, meta_initialAge = age,
                            meta_headerBytes = bytes\<rparr>)))"


section \<open>The capturing writer\<close>

record imageCacheCaptureWriter =
  capture_reserved :: int
  capture_keyBytes :: int
  captureLimit :: int
  wroteFinal :: bool
  sawInformational :: bool
  capture_cacheable :: bool
  capture_complete :: bool
  capture_length :: "int option"
  capture_responseAt :: time
  capture_initialAge :: duration
  capture_expiresAt :: time
  replayHeader :: "http_header option"
  replayHeaderBytes :: int
  capture_body :: string
  capture_capacity :: int

definition newImageCacheCaptureWriter :: "int \<Rightarrow> int \<Rightarrow> imageCacheCaptureWriter" where
  "newImageCacheCaptureWriter reserved keyBytes =
     \<lparr>capture_reserved = reserved, capture_keyBytes = keyBytes, captureLimit = 0, wroteFinal = False,
      sawInformational = False, capture_cacheable = False, capture_complete = True, capture_length = None,
      capture_responseAt = 0, capture_initialAge = 0, capture_expiresAt = 0, replayHeader = None,
      replayHeaderBytes = 0, capture_body = [], capture_capacity = 0\<rparr>"

definition image_discard :: "imageCacheCaptureWriter \<Rightarrow> imageCacheCaptureWriter" where
  "image_discard w = w\<lparr>capture_cacheable := False, capture_complete := False, captureLimit := 0,
     capture_body := [], replayHeader := None, capture_capacity := 0\<rparr>"

text \<open>The room for a replayed header and the room for the body after it.\<close>

definition capture_header_room :: "imageCacheCaptureWriter \<Rightarrow> int" where
  "capture_header_room w =
     min (capture_reserved w - capture_keyBytes w - imageCacheEntryOverhead - imageCacheContentLengthReservationBytes)
       maxCacheReplayHeaderBytes"

definition capture_body_room :: "imageCacheCaptureWriter \<Rightarrow> int \<Rightarrow> int" where
  "capture_body_room w headerBytes =
     min (capture_reserved w - capture_keyBytes w - imageCacheEntryOverhead - headerBytes - imageCacheContentLengthReservationBytes)
       imageCacheMaxBodyBytes"

text \<open>A handler's call together with the response header and the clock at that moment.\<close>

definition image_WriteHeader ::
  "(string \<Rightarrow> time option) \<Rightarrow> (string \<Rightarrow> string option) \<Rightarrow> duration \<Rightarrow> http_header \<Rightarrow> time \<Rightarrow> int \<Rightarrow>
   imageCacheCaptureWriter \<Rightarrow> imageCacheCaptureWriter" where
  "image_WriteHeader parse_time parse_media ttl h now status w =
     (if 100 \<le> status \<and> status < 200 then w\<lparr>sawInformational := True\<rparr>
      else if wroteFinal w then w
      else
        let w1 = w\<lparr>wroteFinal := True, capture_responseAt := now\<rparr> in
        case imageCacheResponseMetadata parse_time parse_media h status now ttl (capture_header_room w) of
          None \<Rightarrow> w1\<lparr>capture_cacheable := False\<rparr>
        | Some m \<Rightarrow>
            if sawInformational w then w1\<lparr>capture_cacheable := False\<rparr>
            else
              let limit = capture_body_room w (meta_headerBytes m);
                  w2 = w1\<lparr>capture_cacheable := True, capture_length := meta_length m, capture_expiresAt := meta_expiresAt m,
                         capture_initialAge := meta_initialAge m, replayHeader := Some (meta_header m),
                         replayHeaderBytes := meta_headerBytes m, captureLimit := limit\<rparr>;
                  capacity = (case meta_length m of None \<Rightarrow> limit | Some n \<Rightarrow> n)
              in if limit < 0 \<or> (case meta_length m of None \<Rightarrow> False | Some n \<Rightarrow> limit < n) then image_discard w2
                 else if capacity < 0 \<or> imageCacheMaxBodyBytes < capacity then image_discard w2
                 else w2\<lparr>capture_body := [], capture_capacity := capacity\<rparr>)"

definition image_Write ::
  "(string \<Rightarrow> time option) \<Rightarrow> (string \<Rightarrow> string option) \<Rightarrow> duration \<Rightarrow> http_header \<Rightarrow> time \<Rightarrow> string \<Rightarrow> nat \<Rightarrow> bool \<Rightarrow>
   imageCacheCaptureWriter \<Rightarrow> imageCacheCaptureWriter" where
  "image_Write parse_time parse_media ttl h now payload n failed w0 =
     (let w = (if wroteFinal w0 then w0 else image_WriteHeader parse_time parse_media ttl h now 200 w0) in
      if \<not> capture_cacheable w then w
      else
        let captured = int (length (capture_body w)) + int n in
        if failed \<or> n \<noteq> length payload \<or> captureLimit w < captured \<or>
           (case capture_length w of None \<Rightarrow> False | Some len \<Rightarrow> len < captured)
        then image_discard w
        else w\<lparr>capture_body := capture_body w @ take n payload\<rparr>)"

definition image_Flush ::
  "(string \<Rightarrow> time option) \<Rightarrow> (string \<Rightarrow> string option) \<Rightarrow> duration \<Rightarrow> http_header \<Rightarrow> time \<Rightarrow>
   imageCacheCaptureWriter \<Rightarrow> imageCacheCaptureWriter" where
  "image_Flush parse_time parse_media ttl h now w =
     (if wroteFinal w then w else image_WriteHeader parse_time parse_media ttl h now 200 w)"

definition zero_image_key :: imageCacheKey where
  "zero_image_key = \<lparr>key_siteID = 0, primaryAuthority = [], canonicalPath = [], canonicalQuery = [], forceQuery = False,
     credentialIdentity = [], representation = []\<rparr>"

definition image_entry :: "imageCacheCaptureWriter \<Rightarrow> imageCacheEntry option" where
  "image_entry w =
     (if \<not> wroteFinal w \<or> \<not> capture_cacheable w \<or> \<not> capture_complete w \<or>
         captureLimit w < int (length (capture_body w)) \<or>
         (case capture_length w of None \<Rightarrow> False | Some len \<Rightarrow> int (length (capture_body w)) \<noteq> len) then None
      else
        case replayHeader w of None \<Rightarrow> None
        | Some replay \<Rightarrow>
            let len = itoa (length (capture_body w));
                headerBytes = replayHeaderBytes w + int (length ''Content-Length'' + length len + 16);
                cost = capture_capacity w + headerBytes + imageCacheEntryOverhead
            in if maxCacheReplayHeaderBytes < headerBytes then None
               else if capture_reserved w < cost \<or> capture_reserved w - cost < capture_keyBytes w then None
               else Some \<lparr>entry_key = zero_image_key, entry_owner = None,
                      entry_header = hdr_set ''Content-Length'' len replay, entry_body = capture_body w,
                      responseAt = capture_responseAt w, initialAge = capture_initialAge w,
                      expiresAt = capture_expiresAt w, entry_cost = cost,
                      globalPrev = None, globalNext = None, sitePrev = None, siteNext = None\<rparr>)"

text \<open>The calls of a handler: the number of bytes the client's writer took and whether it failed.\<close>

datatype image_call = SendHeader int | SendBody string nat bool | SendFlush

definition image_call_step ::
  "(string \<Rightarrow> time option) \<Rightarrow> (string \<Rightarrow> string option) \<Rightarrow> duration \<Rightarrow> http_header \<times> time \<times> image_call \<Rightarrow>
   imageCacheCaptureWriter \<Rightarrow> imageCacheCaptureWriter" where
  "image_call_step parse_time parse_media ttl call w =
     (case call of (h, now, SendHeader status) \<Rightarrow> image_WriteHeader parse_time parse_media ttl h now status w
      | (h, now, SendBody payload n failed) \<Rightarrow> image_Write parse_time parse_media ttl h now payload n failed w
      | (h, now, SendFlush) \<Rightarrow> image_Flush parse_time parse_media ttl h now w)"

definition image_capture ::
  "(string \<Rightarrow> time option) \<Rightarrow> (string \<Rightarrow> string option) \<Rightarrow> duration \<Rightarrow> (http_header \<times> time \<times> image_call) list \<Rightarrow>
   int \<Rightarrow> int \<Rightarrow> imageCacheCaptureWriter" where
  "image_capture parse_time parse_media ttl calls reserved keyBytes =
     fold (image_call_step parse_time parse_media ttl) calls (newImageCacheCaptureWriter reserved keyBytes)"

section \<open>Replaying and serving\<close>

definition replayed_header :: "http_header \<Rightarrow> http_header" where
  "replayed_header h = fold (\<lambda>(name, vs) out. fold (hdr_add name) vs out) h []"

definition serveImageCacheEntry :: "string \<Rightarrow> imageCacheEntry \<Rightarrow> time \<Rightarrow> http_header \<times> int \<times> string" where
  "serveImageCacheEntry rq_method e now =
     (hdr_set ''Age'' (cacheResponseAgeValue (initialAge e) (responseAt e) now) (replayed_header (entry_header e)),
      200, if rq_method = ''GET'' then entry_body e else [])"

text \<open>
  What \<open>serve\<close> does next with an eligible request: hand it to the upstream, replay an entry, wait for a
  flight or ask the upstream as the leader of a flight.
\<close>

datatype serve_action = AskUpstream | Replay ref | WaitFor ref | LeadFlight ref

definition serve_begin ::
  "string \<Rightarrow> ref \<Rightarrow> imageCacheKey \<Rightarrow> time \<Rightarrow> ref \<Rightarrow> imageCacheRuntime \<Rightarrow> (imageCacheRuntime \<times> serve_action) option" where
  "serve_begin rq_method i key now f s =
     (if rq_method = ''HEAD'' then
        (case image_lookup i key now s of
           (t, e, flight, available) \<Rightarrow>
             Some (t, if \<not> available then AskUpstream
                      else case e of Some x \<Rightarrow> Replay x
                           | None \<Rightarrow> (case flight of Some g \<Rightarrow> WaitFor g | None \<Rightarrow> AskUpstream)))
      else
        map_option (\<lambda>(t, a). (t, case a of Unavailable \<Rightarrow> AskUpstream | Hit x \<Rightarrow> Replay x | Follow g \<Rightarrow> WaitFor g
                                | Lead g \<Rightarrow> LeadFlight g)) (lookupOrBegin i key now f s))"

text \<open>After the wait: the flight ended, or the client went away.\<close>

definition serve_resume ::
  "bool \<Rightarrow> ref \<Rightarrow> imageCacheKey \<Rightarrow> time \<Rightarrow> imageCacheRuntime \<Rightarrow> imageCacheRuntime \<times> serve_action" where
  "serve_resume flight_done i key now s =
     (if \<not> flight_done then (s, AskUpstream)
      else case image_lookup i key now s of
        (t, e, _, available) \<Rightarrow>
          (t, case e of Some x \<Rightarrow> if available then Replay x else AskUpstream | None \<Rightarrow> AskUpstream))"

text \<open>The leader captures what the upstream answers, if its reservation still stands.\<close>

definition serve_lead ::
  "ref \<Rightarrow> imageCacheKey \<Rightarrow> ref \<Rightarrow> imageCacheRuntime \<Rightarrow> imageCacheRuntime \<times> imageCacheCaptureWriter option" where
  "serve_lead i key f s =
     (case beginFlightCapture i key f s of
        (t, None) \<Rightarrow> (t, None)
      | (t, Some reserved) \<Rightarrow> (t, Some (newImageCacheCaptureWriter reserved (imageCacheKeyBytes key))))"

text \<open>
  The deferred end of a leader: \<open>capture\<close> is its writer after the upstream's handler, and the handler
  \<open>returned\<close> or panicked. A new entry is the object \<open>x\<close>.
\<close>

definition serve_end ::
  "bool \<Rightarrow> imageCacheCaptureWriter option \<Rightarrow> ref \<Rightarrow> imageCacheKey \<Rightarrow> ref \<Rightarrow> ref \<Rightarrow> time \<Rightarrow> imageCacheRuntime \<Rightarrow>
   imageCacheRuntime option" where
  "serve_end returned capture i key f x now s =
     (case (if returned then Option.bind capture image_entry else None) of
        None \<Rightarrow> finishFlight i key f None now s
      | Some e \<Rightarrow> finishFlight i key f (Some x) now (on_entry x (\<lambda>_. e) s))"


section \<open>Directives\<close>

definition directive_name :: "string \<Rightarrow> string" where
  "directive_name raw = to_lower (trim_space (fst (cut CHR ''='' (trim_space raw))))"

lemma directive_parts_present:
  "directive_parts parts ds0 = Some ds \<Longrightarrow>
    (\<forall>part\<in>set parts. mget ds (directive_name part) \<noteq> None) \<and> (\<forall>k. mget ds0 k \<noteq> None \<longrightarrow> mget ds k \<noteq> None)"
proof (induction parts arbitrary: ds0)
  case (Cons raw rest)
  obtain v where "directive_parts rest (mput (directive_name raw) v ds0) = Some ds"
    using Cons.prems by (auto simp: Let_def directive_name_def split: if_splits prod.splits)
  from Cons.IH[OF this] show ?case
    by (metis mget_mput option.distinct(1) set_ConsD)
qed simp

text \<open>Every directive a header states, in any of its values, is one the parser found.\<close>

lemma stated_directive_present:
  assumes "parseCacheControlDirectives h name = Some ds" "(key, vs) \<in> set h" "equal_fold key name"
    and "v \<in> set vs" "part \<in> set (split_on CHR '','' v)"
  shows "mget ds (directive_name part) \<noteq> None"
proof -
  obtain ws where ws: "cacheHeaderValues h name = Some ws" "directive_parts (concat (map (split_on CHR '','') ws)) [] = Some ds"
    using assms(1) by (auto simp: parseCacheControlDirectives_def split: option.splits)
  define spelled where "spelled = filter (\<lambda>(key, _). equal_fold key name) h"
  have "(key, vs) \<in> set spelled"
    using assms(2,3) by (simp add: spelled_def)
  then have "ws = vs"
    using ws(1) by (auto simp: cacheHeaderValues_def spelled_def[symmetric] split: list.splits)
  then have "part \<in> set (concat (map (split_on CHR '','') ws))"
    using assms(4,5) by auto
  then show ?thesis
    using directive_parts_present[OF ws(2)] by blast
qed

lemma forbidden_lower: "d \<in> set forbidden_directives \<Longrightarrow> to_lower d = d"
  by (auto simp: forbidden_directives_def) code_simp+

lemma no_forbidden_directive:
  assumes "parseCacheControlDirectives h name = Some ds" "\<not> list_ex (cacheDirectivePresent ds) forbidden_directives"
    and "(key, vs) \<in> set h" "equal_fold key name" "v \<in> set vs" "part \<in> set (split_on CHR '','' v)"
  shows "directive_name part \<notin> set forbidden_directives"
  using stated_directive_present[OF assms(1,3-6)] assms(2)
  by (auto simp: cacheDirectivePresent_def list_ex_iff forbidden_lower)

section \<open>Freshness\<close>

lemma max_delta_seconds_eq: "max_delta_seconds = 9223372036"
  by (simp add: max_delta_seconds_def max_i64_def second_def)

lemma delta_digits_bound: "delta_digits s n = Some m \<Longrightarrow> 0 \<le> n \<Longrightarrow> n \<le> max_delta_seconds \<Longrightarrow> 0 \<le> m \<and> m \<le> max_delta_seconds"
proof (induction s arbitrary: n)
  case (Cons c s)
  define digit where "digit = int (byte c) - 48"
  have d: "0 \<le> digit" "delta_digits s (n * 10 + digit) = Some m" "n \<le> (max_delta_seconds - digit) div 10"
    using Cons.prems(1) by (auto simp: is_digit_def digit_def Let_def split: if_splits)
  then have "n * 10 + digit \<le> max_delta_seconds"
    by (simp add: max_delta_seconds_eq)
  then show ?case
    using Cons.IH[OF d(2)] d(1) Cons.prems(2) by simp
qed simp

text \<open>A parsed number of seconds is a duration: the multiplication does not leave \<open>int64\<close>.\<close>

lemma parseCacheDeltaSeconds_bound: "parseCacheDeltaSeconds v = Some d \<Longrightarrow> 0 \<le> d \<and> d \<le> max_i64"
  using delta_digits_bound[of "trim_space v" 0]
  by (auto simp: parseCacheDeltaSeconds_def Let_def max_delta_seconds_eq second_def max_i64_def split: if_splits)

lemma response_age_bound: "response_age parse_time h now = Some (age, date) \<Longrightarrow> 0 \<le> age"
  by (auto simp: response_age_def dest!: parseCacheDeltaSeconds_bound split: option.splits list.splits if_splits)

lemma cacheResponseFreshness_facts:
  assumes "cacheResponseFreshness parse_time h now ttl = Some (expires, age)"
  obtains ds date origin where "parseCacheControlDirectives h ''Cache-Control'' = Some ds"
    "\<not> list_ex (cacheDirectivePresent ds) forbidden_directives"
    "response_age parse_time h now = Some (age, date)" "origin_remaining parse_time h ds now age date = Some origin"
    "now < expires" "expires \<le> now + ttl" "0 \<le> age" "case origin of None \<Rightarrow> True | Some d \<Rightarrow> expires \<le> now + d"
proof -
  obtain ds age0 date where f: "parseCacheControlDirectives h ''Cache-Control'' = Some ds"
      "\<not> list_ex (cacheDirectivePresent ds) forbidden_directives" "response_age parse_time h now = Some (age0, date)"
    using assms by (auto simp: cacheResponseFreshness_def split: if_splits option.splits prod.splits)
  have age0: "0 \<le> age0"
    by (rule response_age_bound[OF f(3)])
  obtain origin where o: "origin_remaining parse_time h ds now age0 date = Some origin"
    using assms f age0 by (auto simp: cacheResponseFreshness_def Let_def split: if_splits option.splits)
  define remaining where "remaining = (case origin of None \<Rightarrow> ttl | Some d \<Rightarrow> if d < ttl then d else ttl)"
  have r: "0 < remaining" "expires = now + remaining" "age = age0"
    using assms f o age0 by (auto simp: cacheResponseFreshness_def Let_def remaining_def[symmetric] split: if_splits)
  show thesis
    by (rule that[OF f(1,2), of date origin]) (use r f(3) age0 o in \<open>auto simp: remaining_def split: option.splits if_splits\<close>)
qed

section \<open>Capturing\<close>

definition sent_bytes :: "(http_header \<times> time \<times> image_call) list \<Rightarrow> string" where
  "sent_bytes calls = concat (map (\<lambda>(_, _, c). case c of SendBody payload n _ \<Rightarrow> payload | _ \<Rightarrow> []) calls)"

text \<open>The client's writer took every payload whole.\<close>

definition all_sent :: "(http_header \<times> time \<times> image_call) list \<Rightarrow> bool" where
  "all_sent calls \<longleftrightarrow> list_all (\<lambda>(_, _, c). case c of SendBody payload n failed \<Rightarrow> \<not> failed \<and> n = length payload | _ \<Rightarrow> True) calls"

text \<open>The response was accepted when its header went out.\<close>

definition accepted_header ::
  "(string \<Rightarrow> time option) \<Rightarrow> (string \<Rightarrow> string option) \<Rightarrow> duration \<Rightarrow> (http_header \<times> time \<times> image_call) list \<Rightarrow>
   imageCacheCaptureWriter \<Rightarrow> bool" where
  "accepted_header parse_time parse_media ttl calls w \<longleftrightarrow> (\<exists>h now c m.
     (h, now, c) \<in> set calls \<and>
     imageCacheResponseMetadata parse_time parse_media h 200 now ttl (capture_header_room w) = Some m \<and>
     capture_responseAt w = now \<and> capture_expiresAt w = meta_expiresAt m \<and> capture_initialAge w = meta_initialAge m \<and>
     replayHeader w = Some (meta_header m) \<and> replayHeaderBytes w = meta_headerBytes m \<and> capture_length w = meta_length m)"

definition capture_inv ::
  "(string \<Rightarrow> time option) \<Rightarrow> (string \<Rightarrow> string option) \<Rightarrow> duration \<Rightarrow> int \<Rightarrow> int \<Rightarrow>
   (http_header \<times> time \<times> image_call) list \<Rightarrow> imageCacheCaptureWriter \<Rightarrow> bool" where
  "capture_inv parse_time parse_media ttl reserved keyBytes calls w \<longleftrightarrow>
     capture_reserved w = reserved \<and> capture_keyBytes w = keyBytes \<and>
     (\<not> wroteFinal w \<longrightarrow> \<not> capture_cacheable w \<and> sent_bytes calls = [] \<and> all_sent calls) \<and>
     (capture_cacheable w \<longrightarrow> wroteFinal w \<and> all_sent calls \<and> capture_body w = sent_bytes calls \<and>
        0 \<le> capture_capacity w \<and> accepted_header parse_time parse_media ttl calls w)"

lemma metadata_status: "imageCacheResponseMetadata parse_time parse_media h status now ttl room = Some m \<Longrightarrow> status = 200"
  by (simp add: imageCacheResponseMetadata_def split: if_splits)

lemma write_header_inv:
  assumes inv: "capture_inv pt pm ttl reserved keyBytes calls w" and quiet: "sent_bytes [(h, now, c)] = []" "all_sent [(h, now, c)]"
  shows "capture_inv pt pm ttl reserved keyBytes (calls @ [(h, now, c)]) (image_WriteHeader pt pm ttl h now status w)"
proof -
  have grow: "sent_bytes (calls @ [(h, now, c)]) = sent_bytes calls" "all_sent (calls @ [(h, now, c)]) = all_sent calls"
    using quiet by (simp_all add: sent_bytes_def all_sent_def)
  have keep: "accepted_header pt pm ttl (calls @ [(h, now, c)]) w'" if "accepted_header pt pm ttl calls w'" for w'
    using that unfolding accepted_header_def by fastforce
  show ?thesis
  proof (cases "100 \<le> status \<and> status < 200 \<or> wroteFinal w")
    case True
    then have "image_WriteHeader pt pm ttl h now status w = w \<or> image_WriteHeader pt pm ttl h now status w = w\<lparr>sawInformational := True\<rparr>"
      by (auto simp: image_WriteHeader_def)
    moreover have "accepted_header pt pm ttl calls (w\<lparr>sawInformational := True\<rparr>) = accepted_header pt pm ttl calls w" for calls
      by (simp add: accepted_header_def capture_header_room_def)
    ultimately show ?thesis
      using inv keep by (auto simp: capture_inv_def grow)
  next
    case False
    show ?thesis
    proof (cases "imageCacheResponseMetadata pt pm h status now ttl (capture_header_room w)")
      case None
      then show ?thesis
        using inv False by (auto simp: image_WriteHeader_def capture_inv_def Let_def)
    next
      case (Some m)
      then have m: "imageCacheResponseMetadata pt pm h 200 now ttl (capture_header_room w) = Some m"
        using metadata_status[OF Some] by simp
      have accepted: "accepted_header pt pm ttl (calls @ [(h, now, c)]) w'"
        if "capture_header_room w' = capture_header_room w" "capture_responseAt w' = now" "capture_expiresAt w' = meta_expiresAt m"
          "capture_initialAge w' = meta_initialAge m" "replayHeader w' = Some (meta_header m)"
          "replayHeaderBytes w' = meta_headerBytes m" "capture_length w' = meta_length m" for w'
        unfolding accepted_header_def using that m
        by (intro exI[of _ h] exI[of _ now] exI[of _ c] exI[of _ m]) simp
      show ?thesis
        using inv False Some
        by (auto simp: image_WriteHeader_def capture_inv_def Let_def grow image_discard_def
            split: option.splits intro!: accepted, auto simp: capture_header_room_def)
    qed
  qed
qed


lemma discard_inv: "capture_inv pt pm ttl reserved keyBytes calls w \<Longrightarrow> wroteFinal w \<Longrightarrow>
    capture_inv pt pm ttl reserved keyBytes calls' (image_discard w)"
  by (simp add: capture_inv_def image_discard_def)

lemma capture_step_inv:
  assumes inv: "capture_inv pt pm ttl reserved keyBytes calls w"
  shows "capture_inv pt pm ttl reserved keyBytes (calls @ [call]) (image_call_step pt pm ttl call w)"
proof -
  obtain h now c where call: "call = (h, now, c)"
    by (cases call) auto
  show ?thesis
  proof (cases c)
    case (SendHeader status)
    then show ?thesis
      using write_header_inv[OF inv, of h now c status] by (simp add: call image_call_step_def sent_bytes_def all_sent_def)
  next
    case SendFlush
    then show ?thesis
      using write_header_inv[OF inv, of h now c 200] inv
      by (auto simp: call image_call_step_def image_Flush_def sent_bytes_def all_sent_def capture_inv_def accepted_header_def)
  next
    case (SendBody payload n failed)
    define w1 where "w1 = (if wroteFinal w then w else image_WriteHeader pt pm ttl h now 200 w)"
    have w1: "wroteFinal w1"
      by (auto simp: w1_def image_WriteHeader_def Let_def image_discard_def split: option.splits)
    text \<open>The implied header counts as a flush before the write.\<close>
    define before where "before = (if wroteFinal w then calls else calls @ [(h, now, SendFlush)])"
    have "capture_inv pt pm ttl reserved keyBytes before w1"
      using inv write_header_inv[OF inv, of h now SendFlush 200]
      by (simp add: before_def w1_def sent_bytes_def all_sent_def)
    then have I: "capture_reserved w1 = reserved" "capture_keyBytes w1 = keyBytes"
        "capture_cacheable w1 \<Longrightarrow> all_sent calls \<and> capture_body w1 = sent_bytes calls \<and> 0 \<le> capture_capacity w1 \<and>
           accepted_header pt pm ttl before w1"
      using w1 by (auto simp: capture_inv_def before_def sent_bytes_def all_sent_def split: if_splits)
    have accepted: "accepted_header pt pm ttl (calls @ [call]) w'" if "accepted_header pt pm ttl before w1"
        "w' = w1\<lparr>capture_body := b\<rparr>" for w' b
      using that unfolding accepted_header_def before_def call
      by (auto simp: capture_header_room_def split: if_splits)
    define bad where "bad \<longleftrightarrow> failed \<or> n \<noteq> length payload \<or> captureLimit w1 < int (length (capture_body w1)) + int n \<or>
        (case capture_length w1 of None \<Rightarrow> False | Some len \<Rightarrow> len < int (length (capture_body w1)) + int n)"
    have "image_call_step pt pm ttl call w = image_Write pt pm ttl h now payload n failed w"
      by (simp add: call image_call_step_def SendBody)
    then have step: "image_call_step pt pm ttl call w =
        (if \<not> capture_cacheable w1 then w1 else if bad then image_discard w1
         else w1\<lparr>capture_body := capture_body w1 @ take n payload\<rparr>)"
      by (simp only: image_Write_def w1_def[symmetric] bad_def Let_def)
    consider (skip) "\<not> capture_cacheable w1" "image_call_step pt pm ttl call w = w1"
      | (drop) "image_call_step pt pm ttl call w = image_discard w1"
      | (take) "capture_cacheable w1" "\<not> failed" "n = length payload"
          "image_call_step pt pm ttl call w = w1\<lparr>capture_body := capture_body w1 @ payload\<rparr>"
      using step by (cases "capture_cacheable w1"; cases bad) (auto simp: bad_def)
    then show ?thesis
    proof cases
      case skip
      then show ?thesis
        using I(1,2) w1 by (simp add: capture_inv_def)
    next
      case drop
      then show ?thesis
        using I(1,2) w1 by (simp add: capture_inv_def image_discard_def)
    next
      case take
      have "sent_bytes (calls @ [call]) = sent_bytes calls @ payload" "all_sent (calls @ [call]) = all_sent calls"
        using take(2,3) by (simp_all add: sent_bytes_def all_sent_def call SendBody)
      then show ?thesis
        using take(4) I(1,2) I(3)[OF take(1)] w1 accepted by (simp add: capture_inv_def)
    qed
  qed
qed

lemma capture_run_inv: "capture_inv pt pm ttl reserved keyBytes calls (image_capture pt pm ttl calls reserved keyBytes)"
proof (induction calls rule: rev_induct)
  case Nil
  then show ?case
    by (simp add: image_capture_def capture_inv_def newImageCacheCaptureWriter_def sent_bytes_def all_sent_def)
next
  case (snoc call calls)
  then show ?case
    using capture_step_inv by (simp add: image_capture_def)
qed

lemma replay_values_bytes: "replay_values name vs room (replay, n) = Some (replay', n') \<Longrightarrow> n \<le> n'"
  by (induction vs arbitrary: replay n) (force simp: Let_def split: if_splits)+

lemma replay_headers_bytes: "replay_headers h names room acc = Some (replay', n') \<Longrightarrow> snd acc \<le> n'"
proof (induction names arbitrary: acc)
  case (Cons name names)
  obtain vs acc' where "replay_values name vs room acc = Some acc'" "replay_headers h names room acc' = Some (replay', n')"
    using Cons.prems by (auto split: option.splits bind_splits)
  then show ?case
    using Cons.IH[of acc'] replay_values_bytes[of name vs room "fst acc" "snd acc" "fst acc'" "snd acc'"] by simp
qed simp

lemma metadata_bytes: "imageCacheResponseMetadata parse_time parse_media h status now ttl room = Some m \<Longrightarrow> 0 \<le> meta_headerBytes m"
  by (auto simp: imageCacheResponseMetadata_def safeCachedResponseHeadersWithin_def dest!: replay_headers_bytes
      split: if_splits option.splits prod.splits)

lemma image_entry_cases:
  assumes "image_entry w = Some e"
  obtains replay where "capture_cacheable w" "replayHeader w = Some replay" "entry_body e = capture_body w"
    "entry_header e = hdr_set ''Content-Length'' (itoa (length (capture_body w))) replay"
    "expiresAt e = capture_expiresAt w" "responseAt e = capture_responseAt w" "initialAge e = capture_initialAge w"
    "case capture_length w of None \<Rightarrow> True | Some len \<Rightarrow> int (length (capture_body w)) = len"
    "entry_cost e + capture_keyBytes w \<le> capture_reserved w" "capture_capacity w + replayHeaderBytes w \<le> entry_cost e"
  using assms by (auto simp: image_entry_def Let_def imageCacheEntryOverhead_def split: if_splits option.splits)

section \<open>Properties\<close>

definition demo_image_headers :: http_header where
  "demo_image_headers = [(''Content-Type'', [''image/png'']), (''Cache-Control'', [''public,max-age=60'']), (''Age'', [''10''])]"

lemma folded_names:
    "simple_fold ''Accept-Ranges'' = ''accept-ranges''"
    "simple_fold ''Access-Control-Allow-Credentials'' = ''access-control-allow-credentials''"
    "simple_fold ''Access-Control-Allow-Headers'' = ''access-control-allow-headers''"
    "simple_fold ''Access-Control-Allow-Methods'' = ''access-control-allow-methods''"
    "simple_fold ''Access-Control-Allow-Origin'' = ''access-control-allow-origin''"
    "simple_fold ''Access-Control-Expose-Headers'' = ''access-control-expose-headers''"
    "simple_fold ''Cache-Control'' = ''cache-control''"
    "simple_fold ''Content-Disposition'' = ''content-disposition''"
    "simple_fold ''Content-Encoding'' = ''content-encoding''"
    "simple_fold ''Content-Language'' = ''content-language''"
    "simple_fold ''Content-Type'' = ''content-type''"
    "simple_fold ''Date'' = ''date''"
    "simple_fold ''Cross-Origin-Resource-Policy'' = ''cross-origin-resource-policy''"
    "simple_fold ''ETag'' = ''etag''"
    "simple_fold ''Expires'' = ''expires''"
    "simple_fold ''Last-Modified'' = ''last-modified''"
    "simple_fold ''Timing-Allow-Origin'' = ''timing-allow-origin''"
    "simple_fold ''Vary'' = ''vary''"
    "simple_fold ''X-Content-Type-Options'' = ''x-content-type-options''"
    "simple_fold ''Set-Cookie'' = ''set-cookie''"
    "simple_fold ''Content-Range'' = ''content-range''"
    "simple_fold ''Trailer'' = ''trailer''"
    "simple_fold ''Warning'' = ''warning''"
    "simple_fold ''Pragma'' = ''pragma''"
    "simple_fold ''Surrogate-Control'' = ''surrogate-control''"
    "simple_fold ''CDN-Cache-Control'' = ''cdn-cache-control''"
    "simple_fold ''Content-Length'' = ''content-length''"
    "simple_fold ''Age'' = ''age''"
  by (simp_all add: lower_byte_def is_upper_def byte_def char_of_eq_iff take_bit_eq_mod)

lemma demo_image_canonical: "CanonicalHeaderKey ''Cache-Control'' = ''Cache-Control''"
  "CanonicalHeaderKey ''Content-Type'' = ''Content-Type''"
  by code_simp+

lemma demo_image_directives:
  "directive_parts (concat (map (split_on CHR '','') [''public,max-age=60''])) [] = Some [(''public'', [[]]), (''max-age'', [''60''])]"
  "cacheDirectiveValue [(''public'', [[]]), (''max-age'', [''60''])] ''max-age'' = (''60'', True, True)"
  "cacheDirectiveValue [(''public'', [[]]), (''max-age'', [''60''])] ''s-maxage'' = ([], False, True)"
  "list_ex (cacheDirectivePresent [(''public'', [[]]), (''max-age'', [''60''])]) forbidden_directives = False"
  "\<not> cacheDirectivePresent [(''public'', [[]]), (''max-age'', [''60''])] ''s-maxage''"
  "parseCacheDeltaSeconds ''60'' = Some (60 * second)" "parseCacheDeltaSeconds ''10'' = Some (10 * second)"
  by code_simp+

lemma demo_image_values: "cacheHeaderValues demo_image_headers name =
    (if simple_fold name = ''content-type'' then Some [''image/png'']
     else if simple_fold name = ''cache-control'' then Some [''public,max-age=60'']
     else if simple_fold name = ''age'' then Some [''10''] else Some [])"
  by (simp add: cacheHeaderValues_def demo_image_headers_def equal_fold_def folded_names del: simple_fold.simps)

lemma demo_image_metadata:
  assumes "83 \<le> room" "room \<le> 65536"
  shows "imageCacheResponseMetadata (\<lambda>_. None) Some demo_image_headers 200 5 (3600 * second) room =
    Some \<lparr>meta_header = [(''Cache-Control'', [''public,max-age=60'']), (''Content-Type'', [''image/png''])], meta_length = None,
      meta_expiresAt = 5 + 50 * second, meta_initialAge = 10 * second, meta_headerBytes = 83\<rparr>"
proof -
  have present: "\<not> list_ex (cacheHeaderPresent demo_image_headers) [''Set-Cookie'', ''Content-Range'', ''Trailer'', ''Warning'']"
    by (simp add: cacheHeaderPresent_def demo_image_headers_def equal_fold_def folded_names del: simple_fold.simps)
  have media: "image_media_type Some demo_image_headers"
    by (simp add: image_media_type_def demo_image_values folded_names del: simple_fold.simps) code_simp
  have none: "directive_parts [] [] = Some []" "\<not> list_ex (cacheDirectivePresent []) forbidden_directives"
    by code_simp+
  have ds: "parseCacheControlDirectives demo_image_headers ''Cache-Control'' = Some [(''public'', [[]]), (''max-age'', [''60''])]"
    using demo_image_directives(1)
    by (simp add: parseCacheControlDirectives_def demo_image_values folded_names del: simple_fold.simps directive_parts.simps concat.simps list.map)
  have shared: "list_all (shared_directives_ok demo_image_headers) [''Surrogate-Control'', ''CDN-Cache-Control'']"
    using none by (simp add: shared_directives_ok_def parseCacheControlDirectives_def demo_image_values folded_names del: simple_fold.simps)
  have fresh: "cacheResponseFreshness (\<lambda>_. None) demo_image_headers 5 (3600 * second) = Some (5 + 50 * second, 10 * second)"
    using ds demo_image_directives
    by (simp add: cacheResponseFreshness_def response_age_def origin_remaining_def demo_image_values folded_names second_def max_i64_def del: simple_fold.simps)
  have replay: "safeCachedResponseHeadersWithin demo_image_headers imageCacheReplayHeaderNames room =
      Some ([(''Cache-Control'', [''public,max-age=60'']), (''Content-Type'', [''image/png''])], 83)"
    using assms by (simp add: safeCachedResponseHeadersWithin_def imageCacheReplayHeaderNames_def demo_image_values folded_names
        hdr_add_def hdr_values_def demo_image_canonical mget_or_def maxCacheReplayHeaderBytes_def del: simple_fold.simps)
  show ?thesis
    using present media shared fresh replay
    by (simp add: imageCacheResponseMetadata_def cachePragmaNoCache_def imageCacheSafeVary_def declared_length_def
        demo_image_values folded_names del: simple_fold.simps)
qed



text \<open>C19. What is stored is the response the client was sent: an entry is made only if the client's writer took
  every payload whole and without an error, its body is exactly those bytes and as long as the declared
  length, its header and times are those of a response that was accepted when its header went out, with the
  length set; and with its key it costs no more than the memory its flight reserved.\<close>

theorem image_capture_is_whole:
  assumes "image_entry (image_capture parse_time parse_media ttl calls reserved keyBytes) = Some e"
  shows "all_sent calls \<and> entry_body e = sent_bytes calls \<and> 0 \<le> entry_cost e \<and> entry_cost e + keyBytes \<le> reserved \<and>
    (\<exists>h now c m room. (h, now, c) \<in> set calls \<and>
      imageCacheResponseMetadata parse_time parse_media h 200 now ttl room = Some m \<and>
      entry_header e = hdr_set ''Content-Length'' (itoa (length (sent_bytes calls))) (meta_header m) \<and>
      responseAt e = now \<and> expiresAt e = meta_expiresAt m \<and> initialAge e = meta_initialAge m \<and>
      (case meta_length m of None \<Rightarrow> True | Some len \<Rightarrow> int (length (entry_body e)) = len))"
proof -
  let ?w = "image_capture parse_time parse_media ttl calls reserved keyBytes"
  have inv: "capture_inv parse_time parse_media ttl reserved keyBytes calls ?w"
    by (rule capture_run_inv)
  obtain replay where e: "capture_cacheable ?w" "replayHeader ?w = Some replay" "entry_body e = capture_body ?w"
    "entry_header e = hdr_set ''Content-Length'' (itoa (length (capture_body ?w))) replay"
    "expiresAt e = capture_expiresAt ?w" "responseAt e = capture_responseAt ?w" "initialAge e = capture_initialAge ?w"
    "case capture_length ?w of None \<Rightarrow> True | Some len \<Rightarrow> int (length (capture_body ?w)) = len"
    "entry_cost e + capture_keyBytes ?w \<le> capture_reserved ?w" "capture_capacity ?w + replayHeaderBytes ?w \<le> entry_cost e"
    using image_entry_cases[OF assms(1)] by metis
  have I: "all_sent calls" "capture_body ?w = sent_bytes calls" "accepted_header parse_time parse_media ttl calls ?w"
      "capture_reserved ?w = reserved" "capture_keyBytes ?w = keyBytes" "0 \<le> capture_capacity ?w"
    using inv e(1) by (simp_all add: capture_inv_def)
  from I(3) obtain h now c m where m: "(h, now, c) \<in> set calls"
     "imageCacheResponseMetadata parse_time parse_media h 200 now ttl (capture_header_room ?w) = Some m"
     "capture_responseAt ?w = now" "capture_expiresAt ?w = meta_expiresAt m" "capture_initialAge ?w = meta_initialAge m"
     "replayHeader ?w = Some (meta_header m)" "capture_length ?w = meta_length m" "replayHeaderBytes ?w = meta_headerBytes m"
    unfolding accepted_header_def by blast
  have "0 \<le> entry_cost e"
    using e(10) I(6) metadata_bytes[OF m(2)] m(8) by simp
  moreover have "entry_header e = hdr_set ''Content-Length'' (itoa (length (sent_bytes calls))) (meta_header m) \<and>
      responseAt e = now \<and> expiresAt e = meta_expiresAt m \<and> initialAge e = meta_initialAge m \<and>
      (case meta_length m of None \<Rightarrow> True | Some len \<Rightarrow> int (length (entry_body e)) = len)"
    using e(2-8) I(2) m(3-7) by (auto split: option.splits)
  ultimately show ?thesis
    using e(3,9) I(1,2,4,5) m(1,2) by metis
qed

definition demo_image_calls :: "(http_header \<times> time \<times> image_call) list" where
  "demo_image_calls = [(demo_image_headers, 5, SendHeader 200), (demo_image_headers, 6, SendBody ''im'' 2 False),
     (demo_image_headers, 7, SendBody ''g'' 1 False)]"

theorem image_capture_is_whole_witness:
  "map_option entry_body (image_entry (image_capture (\<lambda>_. None) Some (3600 * second) demo_image_calls 2000 3)) = Some ''img'' \<and>
   map_option entry_body (image_entry (image_capture (\<lambda>_. None) Some (3600 * second)
     (demo_image_calls @ [(demo_image_headers, 8, SendBody ''x'' 0 True)]) 2000 3)) = None"
proof -
  have limits: "itoa (Suc (Suc (Suc 0))) = ''3''" "capture_header_room (newImageCacheCaptureWriter 2000 3) = 1435"
    by (code_simp, simp add: capture_header_room_def newImageCacheCaptureWriter_def imageCacheEntryOverhead_def
        imageCacheContentLengthReservationBytes_def maxCacheReplayHeaderBytes_def)
  have made: "image_entry (image_capture (\<lambda>_. None) Some (3600 * second) demo_image_calls 2000 3) \<noteq> None"
    using limits demo_image_metadata[of 1435]
    by (simp add: image_capture_def demo_image_calls_def image_call_step_def image_WriteHeader_def image_Write_def
        newImageCacheCaptureWriter_def capture_body_room_def imageCacheEntryOverhead_def imageCacheMaxBodyBytes_def
        imageCacheContentLengthReservationBytes_def image_entry_def maxCacheReplayHeaderBytes_def)
  then obtain e where e: "image_entry (image_capture (\<lambda>_. None) Some (3600 * second) demo_image_calls 2000 3) = Some e"
    by blast
  have "entry_body e = ''img''"
    using image_capture_is_whole[OF e] by (simp add: sent_bytes_def demo_image_calls_def)
  moreover have "\<not> all_sent (demo_image_calls @ [(demo_image_headers, 8, SendBody ''x'' 0 True)])"
    by code_simp
  then have "image_entry (image_capture (\<lambda>_. None) Some (3600 * second)
     (demo_image_calls @ [(demo_image_headers, 8, SendBody ''x'' 0 True)]) 2000 3) = None"
    using image_capture_is_whole[of "\<lambda>_. None" Some "3600 * second" "demo_image_calls @ [(demo_image_headers, 8, SendBody ''x'' 0 True)]" 2000 3]
    by (meson not_None_eq)
  ultimately show ?thesis
    using e by simp
qed

end
