(* ===== verification/Image_Request.thy ===== *)
theory Image_Request
  imports Image_Response Ingress "HOL-Library.List_Lexorder"
begin

text \<open>
  The requests the image cache of \<open>cmd/meridian/legacy_image_cache.go\<close> answers and the key it files them
  under: which requests force the upstream to be asked, the split of the query into what names the picture
  and what names the caller, the digests of the caller's credentials and of the accepted encodings, and the
  canonical path. SHA-256 and HMAC are arguments.
\<close>

section \<open>Requests\<close>

definition cacheRequestForcesRevalidation :: "http_header \<Rightarrow> bool" where
  "cacheRequestForcesRevalidation h =
     (if list_ex (cacheHeaderPresent h) [''If-Match'', ''If-Modified-Since'', ''If-None-Match'', ''If-Unmodified-Since''] then True
      else case parseCacheControlDirectives h ''Cache-Control'' of None \<Rightarrow> True
           | Some ds \<Rightarrow>
               list_ex (cacheDirectivePresent ds)
                 [''no-cache'', ''no-store'', ''max-age'', ''min-fresh'', ''max-stale'', ''only-if-cached''] \<or>
               cachePragmaNoCache h)"

definition cacheCredentialQueryName :: "string \<Rightarrow> bool" where
  "cacheCredentialQueryName name =
     (let lower = to_lower (trim_space name) in
      lower \<in> {''api_key'', ''apikey'', ''access_token'', ''auth'', ''authorization'', ''key'', ''sig'', ''signature'', ''token'',
        ''x-emby-token'', ''x-mediabrowser-token'', ''x_emby_token'', ''x_mediabrowser_token'',
        ''x-amz-credential'', ''x-amz-security-token'', ''x-amz-signature'', ''x-goog-credential'', ''x-goog-signature''} \<or>
      has_suffix lower ''_token'' \<or> has_suffix lower ''-token'')"

text \<open>\<open>url.ParseQuery\<close> with its error, and \<open>Values.Encode\<close>, which sorts the names by their bytes.\<close>

definition query_pair :: "string \<Rightarrow> (string \<times> string) list option" where
  "query_pair part =
     (if part = [] then Some []
      else if CHR '';'' \<in> set part then None
      else let (k, v, _) = cut CHR ''='' part in
           case (query_unescape k, query_unescape v) of (Some k', Some v') \<Rightarrow> Some [(k', v')] | _ \<Rightarrow> None)"

fun query_pairs :: "string list \<Rightarrow> (string \<times> string) list option" where
  "query_pairs [] = Some []"
| "query_pairs (part # rest) =
     (case query_pair part of None \<Rightarrow> None | Some p \<Rightarrow> map_option ((@) p) (query_pairs rest))"

definition parse_query_values :: "string \<Rightarrow> (string, string list) gomap option" where
  "parse_query_values q =
     map_option (\<lambda>pairs. foldl (\<lambda>m (k, v). mput k (mget_or [] m k @ [v]) m) [] pairs) (query_pairs (split_on CHR ''&'' q))"

definition encode_values :: "(string, string list) gomap \<Rightarrow> string" where
  "encode_values m =
     join_with CHR ''&''
       (concat (map (\<lambda>k. map (\<lambda>v. url_escape EncodeQueryComponent k @ ''='' @ url_escape EncodeQueryComponent v) (mget_or [] m k))
          (sort_key (map byte) (map fst m))))"

definition maxCanonicalCacheQueryBytes :: nat where
  "maxCanonicalCacheQueryBytes = 65536"

definition splitCanonicalCacheQuery :: "string \<Rightarrow> (string \<times> string) option" where
  "splitCanonicalCacheQuery rawQuery =
     (if maxCanonicalCacheQueryBytes < length rawQuery then None
      else map_option (\<lambda>m. (encode_values (filter (\<lambda>(k, _). \<not> cacheCredentialQueryName k) m),
                            encode_values (filter (\<lambda>(k, _). cacheCredentialQueryName k) m)))
             (parse_query_values rawQuery))"

section \<open>Digests\<close>

text \<open>A field: its length, a colon and its text.\<close>

definition identity_field :: "string \<Rightarrow> string" where
  "identity_field v = itoa (length v) @ '':'' @ v"

fun identity_headers :: "http_header \<Rightarrow> string list \<Rightarrow> string option" where
  "identity_headers h [] = Some []"
| "identity_headers h (name # names) =
     (case cacheHeaderValues h name of None \<Rightarrow> None
      | Some vs \<Rightarrow>
          map_option (\<lambda>rest. identity_field (to_lower name) @ identity_field (itoa (length vs)) @
              concat (map identity_field vs) @ rest) (identity_headers h names))"

definition deriveCacheCredentialKey :: "(string \<Rightarrow> string \<Rightarrow> string) \<Rightarrow> string \<Rightarrow> string \<Rightarrow> string" where
  "deriveCacheCredentialKey hmac master purpose =
     hmac master (identity_field ''meridian-memory-cache-v1'' @ identity_field purpose)"

definition cacheCredentialNames :: "string list" where
  "cacheCredentialNames =
     [''Authorization'', ''Cookie'', ''Proxy-Authorization'', ''X-Api-Key'', ''X-Emby-Authorization'', ''X-Emby-Token'',
      ''X-MediaBrowser-Token'']"

definition credential_fields :: "string \<Rightarrow> http_header \<Rightarrow> string option" where
  "credential_fields credentialQuery h =
     map_option (\<lambda>fields. identity_field credentialQuery @ fields)
       (identity_headers (stripCookieByName h sessionCookieName) cacheCredentialNames)"

definition cacheCredentialDigest ::
  "(string \<Rightarrow> string \<Rightarrow> string) \<Rightarrow> string \<Rightarrow> string \<Rightarrow> http_header \<Rightarrow> string option" where
  "cacheCredentialDigest hmac key credentialQuery h = map_option (hmac key) (credential_fields credentialQuery h)"

definition cacheHeaderDigest :: "(string \<Rightarrow> string) \<Rightarrow> http_header \<Rightarrow> string list \<Rightarrow> string option" where
  "cacheHeaderDigest sha h names = map_option sha (identity_headers h names)"

section \<open>The canonical path\<close>

text \<open>\<open>utf8.ValidString\<close>.\<close>

definition continuation :: "char \<Rightarrow> bool" where
  "continuation c \<longleftrightarrow> 128 \<le> byte c \<and> byte c \<le> 191"

fun valid_utf8 :: "string \<Rightarrow> bool" where
  "valid_utf8 [] = True"
| "valid_utf8 (a # r) =
     (if byte a < 128 then valid_utf8 r
      else case r of [] \<Rightarrow> False
        | b # r1 \<Rightarrow>
            if 194 \<le> byte a \<and> byte a \<le> 223 then continuation b \<and> valid_utf8 r1
            else case r1 of [] \<Rightarrow> False
              | c # r2 \<Rightarrow>
                  if 224 \<le> byte a \<and> byte a \<le> 239
                  then continuation b \<and> continuation c \<and> (byte a = 224 \<longrightarrow> 160 \<le> byte b) \<and> (byte a = 237 \<longrightarrow> byte b \<le> 159) \<and>
                       valid_utf8 r2
                  else case r2 of [] \<Rightarrow> False
                    | d # r3 \<Rightarrow>
                        240 \<le> byte a \<and> byte a \<le> 244 \<and> continuation b \<and> continuation c \<and> continuation d \<and>
                        (byte a = 240 \<longrightarrow> 144 \<le> byte b) \<and> (byte a = 244 \<longrightarrow> byte b \<le> 143) \<and> valid_utf8 r3)"

definition image_segment :: "string \<Rightarrow> string option" where
  "image_segment raw =
     (case path_unescape raw of None \<Rightarrow> None
      | Some d \<Rightarrow>
          if d = [] \<or> d = ''.'' \<or> d = ''..'' \<or> \<not> valid_utf8 d \<or> contains_any d [CHR ''/'', CHR 0x5C] \<or> has_control d
          then None else Some d)"

definition normalizeEmbyImageCachePath :: "url \<Rightarrow> string option" where
  "normalizeEmbyImageCachePath u =
     (if opaque u \<noteq> [] \<or> fragment u \<noteq> [] \<or> raw_fragment u \<noteq> [] then None
      else if raw_path u \<noteq> [] \<and> path_unescape (raw_path u) \<noteq> Some (path u) then None
      else
        let escaped = url_escaped_path u in
        if \<not> has_prefix escaped ''/'' then None
        else
          let raws = split_on CHR ''/'' (trim_prefix escaped ''/''); decoded = map image_segment raws in
          if length raws < 4 \<or> \<not> list_all (\<lambda>d. d \<noteq> None) decoded then None
          else
            let segments0 = map the decoded; emby = equal_fold (segments0 ! 0) ''emby'' in
            if emby \<and> length segments0 < 5 then None
            else
              let segments = (if emby then segments0[0 := ''emby''] else segments0);
                  base = (if emby then 1 else 0)
              in if \<not> equal_fold (segments ! base) ''Items'' \<or> \<not> equal_fold (segments ! (base + 2)) ''Images'' \<or>
                    length segments \<le> base + 3 then None
                 else
                   let named = segments[base := ''Items'', base + 2 := ''Images'']
                   in Some (''/'' @ join_with CHR ''/'' (map (url_escape EncodePathSegment) named)))"

section \<open>The key\<close>

record image_request =
  ireq_method :: string
  ireq_url :: url
  ireq_header :: http_header
  ireq_content_length :: int
  ireq_transfer_encoding :: "string list"

text \<open>The URL the upstream is asked for: the canonical path and the request's query joined to the target.\<close>

definition image_upstream_url :: "url \<Rightarrow> url \<Rightarrow> string \<Rightarrow> string \<Rightarrow> url" where
  "image_upstream_url primary u canonical decoded =
     applyUpstreamURL (empty_url\<lparr>path := decoded, raw_path := canonical, raw_query := raw_query u, force_query := force_query u\<rparr>)
       primary"

definition image_request_eligible :: "image_request \<Rightarrow> bool" where
  "image_request_eligible r \<longleftrightarrow>
     (ireq_method r = ''GET'' \<or> ireq_method r = ''HEAD'') \<and> ireq_content_length r = 0 \<and> ireq_transfer_encoding r = [] \<and>
     \<not> hasUpgradeIntent (ireq_header r) \<and> \<not> isReservedDynamicRoute (path (ireq_url r)) \<and>
     \<not> cacheRequestForcesRevalidation (ireq_header r) \<and>
     \<not> cacheHeaderPresent (ireq_header r) ''Range'' \<and> \<not> cacheHeaderPresent (ireq_header r) ''If-Range''"

definition imageCacheRequestKeyFor ::
  "(string \<Rightarrow> string) \<Rightarrow> (string \<Rightarrow> string \<Rightarrow> string) \<Rightarrow> string \<Rightarrow> int \<Rightarrow> url \<Rightarrow> image_request \<Rightarrow> imageCacheKey option" where
  "imageCacheRequestKeyFor sha hmac credential_key sid primary r =
     (if \<not> image_request_eligible r then None
      else
        case normalizeEmbyImageCachePath (ireq_url r) of None \<Rightarrow> None
        | Some canonical \<Rightarrow>
            (case path_unescape canonical of None \<Rightarrow> None
             | Some decoded \<Rightarrow>
                 let u = image_upstream_url primary (ireq_url r) canonical decoded in
                 case splitCanonicalCacheQuery (raw_query u) of None \<Rightarrow> None
                 | Some (repQuery, credQuery) \<Rightarrow>
                     (case (cacheCredentialDigest hmac credential_key credQuery (ireq_header r),
                            cacheHeaderDigest sha (ireq_header r) [''Accept'', ''Accept-Encoding'']) of
                        (Some credentials, Some rep) \<Rightarrow>
                          if redirectHostKey primary = [] then None
                          else Some \<lparr>key_siteID = sid, primaryAuthority = redirectHostKey primary,
                                 canonicalPath = url_escaped_path u, canonicalQuery = repQuery, forceQuery = force_query u,
                                 credentialIdentity = credentials, representation = rep\<rparr>
                      | _ \<Rightarrow> None)))"

section \<open>Fields read back\<close>

lemma identity_field_inj: "identity_field v @ x = identity_field w @ y \<Longrightarrow> v = w \<and> x = y"
proof -
  assume eq: "identity_field v @ x = identity_field w @ y"
  have colon: "takeWhile (\<lambda>c. c \<noteq> CHR '':'') (identity_field u @ z) = itoa (length u)" for u z
    unfolding identity_field_def append_assoc
    by (subst takeWhile_append2) (auto dest!: itoa_digits simp: is_digit_def byte_def)
  have "itoa (length v) = itoa (length w)"
    using colon[of v x] colon[of w y] eq by simp
  then have "length v = length w"
    by (simp add: itoa_inj)
  then show ?thesis
    using eq by (simp add: identity_field_def)
qed

lemma identity_fields_inj: "length vs = length ws \<Longrightarrow>
    concat (map identity_field vs) @ x = concat (map identity_field ws) @ y \<Longrightarrow> vs = ws \<and> x = y"
proof (induction vs ws rule: list_induct2)
  case (Cons v vs w ws)
  then show ?case
    using identity_field_inj[of v "concat (map identity_field vs) @ x" w "concat (map identity_field ws) @ y"] by auto
qed simp

lemma identity_headers_inj:
  "identity_headers h names = Some m \<Longrightarrow> identity_headers h' names = Some m \<Longrightarrow>
    \<forall>name\<in>set names. cacheHeaderValues h name = cacheHeaderValues h' name"
proof (induction names arbitrary: m)
  case (Cons name names)
  obtain vs rest where h: "cacheHeaderValues h name = Some vs" "identity_headers h names = Some rest"
      "m = identity_field (to_lower name) @ identity_field (itoa (length vs)) @ concat (map identity_field vs) @ rest"
    using Cons.prems(1) by (auto split: option.splits)
  obtain ws rest' where h': "cacheHeaderValues h' name = Some ws" "identity_headers h' names = Some rest'"
      "m = identity_field (to_lower name) @ identity_field (itoa (length ws)) @ concat (map identity_field ws) @ rest'"
    using Cons.prems(2) by (auto split: option.splits)
  have "identity_field (itoa (length vs)) @ concat (map identity_field vs) @ rest =
      identity_field (itoa (length ws)) @ concat (map identity_field ws) @ rest'"
    using h(3) h'(3) by simp
  from identity_field_inj[OF this] have "length vs = length ws" and
    "concat (map identity_field vs) @ rest = concat (map identity_field ws) @ rest'"
    by (simp_all add: itoa_inj)
  from identity_fields_inj[OF this] have "vs = ws" "rest = rest'"
    by simp_all
  then show ?case
    using Cons.IH[OF h(2)] h(1) h'(1,2) by simp
qed simp

end
