(* ===== verification/Image_Key.thy ===== *)
theory Image_Key
  imports Image_Request
begin

text \<open>
  What the key of \<open>Image_Request\<close> tells apart: the path it holds is canonical, and two requests with one key
  come from one caller and ask for one representation of one picture.
\<close>

section \<open>Canonical paths\<close>

lemma segment_chars:
  assumes "c \<in> set (url_escape EncodePathSegment v)"
  shows "c \<noteq> CHR ''/''" "c \<in> set ''!$&'' \<union> {CHR 0x27} \<union> set ''()*+,;=:@[]%'' \<or> \<not> should_escape c EncodePath"
proof -
  obtain d where d: "c \<in> set (escape_byte EncodePathSegment d)"
    using assms by (auto simp: url_escape_def)
  have hex: "is_alnum (hex_digit n)" if "n < 16" for n
    using that by (auto simp: hex_digit_def is_alnum_def is_digit_def is_upper_def)
  have slash: "should_escape CHR ''/'' EncodePathSegment" "\<not> is_alnum CHR ''/''"
    by (simp_all add: should_escape_def is_alnum_def is_lower_def is_upper_def is_digit_def byte_def)
  have hi: "byte d div 16 < 16" "byte d mod 16 < 16"
    using byte_less[of d] by (simp_all add: less_mult_imp_div_less)
  show "c \<noteq> CHR ''/''"
    using d hex[OF hi(1)] hex[OF hi(2)] slash by (auto simp: escape_byte_def split: if_splits)
  show "c \<in> set ''!$&'' \<union> {CHR 0x27} \<union> set ''()*+,;=:@[]%'' \<or> \<not> should_escape c EncodePath"
  proof (cases "should_escape d EncodePathSegment")
    case True
    then have "c \<in> {CHR ''%'', hex_digit (byte d div 16), hex_digit (byte d mod 16)}"
      using d unfolding escape_byte_def by simp
    moreover have "\<not> should_escape x EncodePath" if "is_alnum x" for x
      using that by (simp add: should_escape_def)
    ultimately show ?thesis
      using hex[OF hi(1)] hex[OF hi(2)] by auto
  next
    case False
    then have "c = d"
      using d by (simp add: escape_byte_def)
    then show ?thesis
      using False by (auto simp: should_escape_def split: if_splits)
  qed
qed

lemma split_join: "ps \<noteq> [] \<Longrightarrow> \<forall>p\<in>set ps. c \<notin> set p \<Longrightarrow> split_on c (join_with c ps) = ps"
proof (induction c ps rule: join_with.induct)
  case (3 c p q ps)
  then show ?case
    by simp
qed simp_all

lemma unescape_join: "path_unescape (join_with CHR ''/'' (map (url_escape EncodePathSegment) segs)) = Some (join_with CHR ''/'' segs)"
proof (induction "CHR ''/''" segs rule: join_with.induct)
  case (3 p q ps)
  then show ?case
    using path_unescape_append[OF unescape_escape[of EncodePathSegment p]] by simp
qed (simp_all add: unescape_escape)

text \<open>What a segment of a picture's path is.\<close>

definition segment_ok :: "string \<Rightarrow> bool" where
  "segment_ok d \<longleftrightarrow> d \<noteq> [] \<and> d \<noteq> ''.'' \<and> d \<noteq> ''..'' \<and> valid_utf8 d \<and> \<not> contains_any d [CHR ''/'', CHR 0x5C] \<and> \<not> has_control d"

definition image_segments :: "string list \<Rightarrow> bool" where
  "image_segments segs \<longleftrightarrow> list_all segment_ok segs \<and>
     (length segs \<ge> 4 \<and> segs ! 0 = ''Items'' \<and> segs ! 2 = ''Images'' \<or>
      length segs \<ge> 5 \<and> segs ! 0 = ''emby'' \<and> segs ! 1 = ''Items'' \<and> segs ! 3 = ''Images'')"

definition image_path :: "string list \<Rightarrow> string" where
  "image_path segs = ''/'' @ join_with CHR ''/'' (map (url_escape EncodePathSegment) segs)"

lemma image_segment_escape: "image_segment (url_escape EncodePathSegment d) = (if segment_ok d then Some d else None)"
  by (auto simp: image_segment_def segment_ok_def unescape_escape)

lemma image_segment_ok: "image_segment raw = Some d \<Longrightarrow> segment_ok d"
  by (auto simp: image_segment_def segment_ok_def split: option.splits if_splits)

lemma literal_segments: "segment_ok ''emby''" "segment_ok ''Items''" "segment_ok ''Images''"
  by code_simp+

lemma normalized_path_form:
  assumes "normalizeEmbyImageCachePath u = Some p"
  shows "\<exists>segs. p = image_path segs \<and> image_segments segs"
proof -
  define raws where "raws = split_on CHR ''/'' (trim_prefix (url_escaped_path u) ''/'')"
  define segs0 where "segs0 = map the (map image_segment raws)"
  define emby where "emby = equal_fold (segs0 ! 0) ''emby''"
  define base :: nat where "base = (if emby then 1 else 0)"
  define segs where "segs = (if emby then segs0[0 := ''emby''] else segs0)"
  have n: "4 \<le> length segs" "emby \<Longrightarrow> 5 \<le> length segs" "list_all (\<lambda>d. d \<noteq> None) (map image_segment raws)"
      "p = image_path (segs[base := ''Items'', base + 2 := ''Images''])" "base + 3 < length segs" "length segs = length raws"
    using assms unfolding normalizeEmbyImageCachePath_def Let_def raws_def[symmetric] segs0_def[symmetric] emby_def[symmetric]
      segs_def[symmetric] base_def[symmetric] image_path_def
    by (auto simp: segs_def segs0_def split: if_splits)
  have "list_all segment_ok segs0"
    using n(3) image_segment_ok by (auto simp: segs0_def list_all_iff)
  then have "list_all segment_ok (segs[base := ''Items'', base + 2 := ''Images''])"
    using literal_segments by (auto simp: segs_def list_all_iff dest!: subsetD[OF set_update_subset_insert])
  moreover have pos: "0 < length segs0"
    using n(1) by (cases segs0) (simp_all add: segs_def split: if_splits)
  ultimately have "image_segments (segs[base := ''Items'', base + 2 := ''Images''])"
    using n(1,2) pos by (cases emby) (simp_all add: image_segments_def base_def segs_def nth_list_update)
  then show ?thesis
    using n(4) by blast
qed

lemma normalize_image_path:
  assumes "image_segments segs"
  shows "normalizeEmbyImageCachePath (empty_url\<lparr>path := ''/'' @ join_with CHR ''/'' segs, raw_path := image_path segs\<rparr>) = Some (image_path segs)"
proof -
  let ?u = "empty_url\<lparr>path := ''/'' @ join_with CHR ''/'' segs, raw_path := image_path segs\<rparr>"
  have ne: "segs \<noteq> []" "map (url_escape EncodePathSegment) segs \<noteq> []"
    using assms by (auto simp: image_segments_def)
  have un: "path_unescape (image_path segs) = Some (''/'' @ join_with CHR ''/'' segs)"
    by (simp add: image_path_def unescape_join)
  have join_chars: "c \<in> set (join_with d ps) \<Longrightarrow> c = d \<or> (\<exists>p\<in>set ps. c \<in> set p)" for c d ps
    by (induction d ps rule: join_with.induct) auto
  have "valid_encoded_path (image_path segs)"
    unfolding valid_encoded_path_def list_all_iff
  proof
    fix c assume "c \<in> set (image_path segs)"
    then have "c = CHR ''/'' \<or> (\<exists>p\<in>set segs. c \<in> set (url_escape EncodePathSegment p))"
      using join_chars[of c "CHR ''/''" "map (url_escape EncodePathSegment) segs"] by (auto simp: image_path_def)
    moreover have "\<not> should_escape CHR ''/'' EncodePath"
      by (simp add: should_escape_def is_alnum_def)
    ultimately show "c \<in> set ''!$&'' \<union> {CHR 0x27} \<union> set ''()*+,;=:@[]%'' \<or> \<not> should_escape c EncodePath"
      using segment_chars(2) by (elim disjE bexE) (rule disjI2, simp only: simp_thms, assumption)
  qed
  then have escaped: "url_escaped_path ?u = image_path segs"
    using un by (simp add: url_escaped_path_def image_path_def)
  have prefix: "has_prefix (image_path segs) ''/''"
    by (simp add: image_path_def has_prefix_def)
  have raws: "split_on CHR ''/'' (trim_prefix (image_path segs) ''/'') = map (url_escape EncodePathSegment) segs"
    using split_join[OF ne(2), of "CHR ''/''"] segment_chars(1) prefix by (auto simp: image_path_def trim_prefix_def)
  have decoded: "map image_segment (map (url_escape EncodePathSegment) segs) = map Some segs"
    using assms by (auto simp: image_segments_def list_all_iff image_segment_escape)
  have folds: "equal_fold ''emby'' ''emby''" "\<not> equal_fold ''Items'' ''emby''" "equal_fold ''Items'' ''Items''" "equal_fold ''Images'' ''Images''"
    by code_simp+
  have the: "map the (map Some segs) = segs" "list_all (\<lambda>d. d \<noteq> None) (map Some segs)"
    by (simp_all add: comp_def list_all_iff)
  have idle: "opaque ?u = []" "fragment ?u = []" "raw_fragment ?u = []" "raw_path ?u = image_path segs" "path ?u = ''/'' @ join_with CHR ''/'' segs"
    by (simp_all add: empty_url_def)
  have norm: "normalizeEmbyImageCachePath ?u =
      (if length segs < 4 then None
       else let emby = equal_fold (segs ! 0) ''emby'' in
         if emby \<and> length segs < 5 then None
         else let segments = (if emby then segs[0 := ''emby''] else segs); base = (if emby then 1 else 0)
           in if \<not> equal_fold (segments ! base) ''Items'' \<or> \<not> equal_fold (segments ! (base + 2)) ''Images'' \<or>
                length segments \<le> base + 3 then None
              else Some (image_path (segments[base := ''Items'', base + 2 := ''Images''])))"
    unfolding normalizeEmbyImageCachePath_def idle escaped raws decoded the Let_def image_path_def[symmetric]
    using prefix un by (simp add: list_all_iff)
  consider (plain) "4 \<le> length segs" "segs ! 0 = ''Items''" "segs ! 2 = ''Images''"
    | (emby) "5 \<le> length segs" "segs ! 0 = ''emby''" "segs ! 1 = ''Items''" "segs ! 3 = ''Images''"
    using assms by (auto simp: image_segments_def)
  then show ?thesis
  proof cases
    case plain
    have "segs[0 := ''Items'', 2 := ''Images''] = segs"
      by (metis plain(2,3) list_update_id)
    moreover from plain(1) have "\<not> length segs < 4" "\<not> length segs \<le> 0 + 3"
      by simp_all
    ultimately show ?thesis
      unfolding norm Let_def using folds plain(2,3) by (simp only: if_False if_True simp_thms add_0 cong: if_cong)
  next
    case emby
    have "segs[0 := ''emby''] = segs" "segs[1 := ''Items'', 1 + 2 := ''Images''] = segs"
      using emby(2-4) by (metis list_update_id, metis list_update_id one_plus_numeral semiring_norm(3))
    moreover from emby(1) have "\<not> length segs < 4" "\<not> length segs < 5" "\<not> length segs \<le> 1 + 3"
      by simp_all
    moreover have "segs ! (1 + 2) = ''Images''"
      using emby(4) by (simp add: numeral_3_eq_3)
    ultimately show ?thesis
      unfolding norm Let_def using folds emby(2,3) by (simp only: if_False if_True simp_thms cong: if_cong)
  qed
qed

lemma image_path_unescape: "path_unescape (image_path segs) = Some (''/'' @ join_with CHR ''/'' segs)"
  by (simp add: image_path_def unescape_join)

text \<open>C21. The path of a key is canonical: it is a list of escaped segments, each of them a non-empty valid text
  that is neither a dot segment nor holds a slash or a control character, under Items/id/Images, and the path
  normalises to itself. The request asked of the upstream, the key and every spelling of the picture therefore
  agree on one path.\<close>

theorem image_path_is_canonical:
  assumes "normalizeEmbyImageCachePath u = Some p"
  shows "\<exists>segs. p = image_path segs \<and> image_segments segs \<and> path_unescape p = Some (''/'' @ join_with CHR ''/'' segs) \<and>
    normalizeEmbyImageCachePath (empty_url\<lparr>path := ''/'' @ join_with CHR ''/'' segs, raw_path := p\<rparr>) = Some p"
proof -
  obtain segs where "p = image_path segs" "image_segments segs"
    using normalized_path_form[OF assms] by blast
  then show ?thesis
    using normalize_image_path image_path_unescape by metis
qed

text \<open>A picture in another spelling.\<close>

definition demo_image_url :: url where
  "demo_image_url = empty_url\<lparr>path := ''/EMBY/items/7/IMAGES/a b''\<rparr>"

lemma demo_image_path: "normalizeEmbyImageCachePath demo_image_url = Some ''/emby/Items/7/Images/a%20b''"
  by code_simp

theorem image_path_is_canonical_witness:
  "\<exists>segs. ''/emby/Items/7/Images/a%20b'' = image_path segs \<and> image_segments segs \<and>
    normalizeEmbyImageCachePath (empty_url\<lparr>path := ''/'' @ join_with CHR ''/'' segs, raw_path := ''/emby/Items/7/Images/a%20b''\<rparr>) =
      Some ''/emby/Items/7/Images/a%20b''"
  using image_path_is_canonical[OF demo_image_path] by blast

section \<open>Whose answers a key holds\<close>

text \<open>The two halves of the upstream's query and the message that names the caller.\<close>

definition image_cache_query :: "url \<Rightarrow> image_request \<Rightarrow> (string \<times> string) option" where
  "image_cache_query primary r =
     Option.bind (normalizeEmbyImageCachePath (ireq_url r)) (\<lambda>canonical.
       Option.bind (path_unescape canonical) (\<lambda>decoded.
         splitCanonicalCacheQuery (raw_query (image_upstream_url primary (ireq_url r) canonical decoded))))"

definition image_credential_message :: "url \<Rightarrow> image_request \<Rightarrow> string option" where
  "image_credential_message primary r =
     Option.bind (image_cache_query primary r) (\<lambda>(_, credentials). credential_fields credentials (ireq_header r))"

abbreviation image_representation :: "image_request \<Rightarrow> string option" where
  "image_representation r \<equiv> identity_headers (ireq_header r) [''Accept'', ''Accept-Encoding'']"

lemma image_key_parts:
  assumes "imageCacheRequestKeyFor sha hmac ck sid primary r = Some k"
  obtains rq cq m n where "image_cache_query primary r = Some (rq, cq)" "credential_fields cq (ireq_header r) = Some m"
    "image_representation r = Some n" "key_siteID k = sid" "primaryAuthority k = redirectHostKey primary"
    "canonicalQuery k = rq" "credentialIdentity k = hmac ck m" "representation k = sha n"
proof -
  obtain canonical decoded rq cq where c: "normalizeEmbyImageCachePath (ireq_url r) = Some canonical" "path_unescape canonical = Some decoded"
      "splitCanonicalCacheQuery (raw_query (image_upstream_url primary (ireq_url r) canonical decoded)) = Some (rq, cq)"
    using assms unfolding imageCacheRequestKeyFor_def Let_def
    by (simp split: if_splits option.splits prod.splits)
  then have q: "image_cache_query primary r = Some (rq, cq)"
    by (simp add: image_cache_query_def)
  obtain m n where mn: "credential_fields cq (ireq_header r) = Some m" "image_representation r = Some n"
    using assms c unfolding imageCacheRequestKeyFor_def Let_def cacheCredentialDigest_def cacheHeaderDigest_def
    by (simp split: if_splits option.splits prod.splits)
  have "key_siteID k = sid" "primaryAuthority k = redirectHostKey primary" "canonicalQuery k = rq"
    "credentialIdentity k = hmac ck m" "representation k = sha n"
    using assms c mn unfolding imageCacheRequestKeyFor_def Let_def cacheCredentialDigest_def cacheHeaderDigest_def
    by (auto split: if_splits)
  then show ?thesis
    using that q mn by blast
qed

text \<open>C20. A cached picture is served to one caller only: when two requests have the same key, and the two digests
  do not collide on what they hash for these requests, the requests are for the same site and upstream, with the same
  values of every header that carries credentials once the panel's own cookie is taken out, the same Accept and
  Accept-Encoding, and the same query, its credentials included.\<close>

theorem image_key_separates_callers:
  assumes "imageCacheRequestKeyFor sha hmac ck sid primary r = Some k"
    and "imageCacheRequestKeyFor sha hmac ck sid' primary' r' = Some k"
    and "inj_on (hmac ck) {m. image_credential_message primary r = Some m \<or> image_credential_message primary' r' = Some m}"
    and "inj_on sha {m. image_representation r = Some m \<or> image_representation r' = Some m}"
  shows "sid = sid' \<and> redirectHostKey primary = redirectHostKey primary' \<and>
    (\<forall>name\<in>set cacheCredentialNames.
       cacheHeaderValues (stripCookieByName (ireq_header r) sessionCookieName) name =
       cacheHeaderValues (stripCookieByName (ireq_header r') sessionCookieName) name) \<and>
    (\<forall>name\<in>{''Accept'', ''Accept-Encoding''}. cacheHeaderValues (ireq_header r) name = cacheHeaderValues (ireq_header r') name) \<and>
    image_cache_query primary r = image_cache_query primary' r'"
proof -
  obtain rq cq m n where p: "image_cache_query primary r = Some (rq, cq)" "credential_fields cq (ireq_header r) = Some m"
    "image_representation r = Some n" "key_siteID k = sid" "primaryAuthority k = redirectHostKey primary"
    "canonicalQuery k = rq" "credentialIdentity k = hmac ck m" "representation k = sha n"
    by (rule image_key_parts[OF assms(1)])
  obtain rq' cq' m' n' where p': "image_cache_query primary' r' = Some (rq', cq')" "credential_fields cq' (ireq_header r') = Some m'"
    "image_representation r' = Some n'" "key_siteID k = sid'" "primaryAuthority k = redirectHostKey primary'"
    "canonicalQuery k = rq'" "credentialIdentity k = hmac ck m'" "representation k = sha n'"
    by (rule image_key_parts[OF assms(2)])
  have "m = m'"
    using inj_onD[OF assms(3), of m m'] p p' by (simp add: image_credential_message_def)
  moreover have "n = n'"
    using inj_onD[OF assms(4), of n n'] p(3,8) p'(3,8) by simp
  moreover obtain fields fields' where f: "identity_headers (stripCookieByName (ireq_header r) sessionCookieName) cacheCredentialNames = Some fields"
      "m = identity_field cq @ fields"
      "identity_headers (stripCookieByName (ireq_header r') sessionCookieName) cacheCredentialNames = Some fields'"
      "m' = identity_field cq' @ fields'"
    using p(2) p'(2) unfolding credential_fields_def map_option_eq_Some by blast
  ultimately have "cq = cq'" "fields = fields'" "image_representation r' = Some n"
    using identity_field_inj[of cq fields cq' fields'] p'(3) by simp_all
  then show ?thesis
    using identity_headers_inj[OF f(1), of "stripCookieByName (ireq_header r') sessionCookieName"] f(3)
      identity_headers_inj[OF p(3), of "ireq_header r'"] p(1,4-6) p'(1,4-6) by simp
qed

text \<open>Two spellings of one picture asked for by one caller.\<close>

definition demo_image_request :: "string \<Rightarrow> image_request" where
  "demo_image_request p =
     \<lparr>ireq_method = ''GET'', ireq_url = empty_url\<lparr>path := p, raw_query := ''w=1&key=k''\<rparr>,
      ireq_header = [(''X-Emby-Token'', [''t''])], ireq_content_length = 0, ireq_transfer_encoding = []\<rparr>"

definition demo_image_primary :: url where
  "demo_image_primary = empty_url\<lparr>scheme := ''http'', host := ''u:1''\<rparr>"

definition demo_credential_fields :: string where
  "demo_credential_fields = the (credential_fields ''key=k'' [(''X-Emby-Token'', [''t''])])"

definition spelled_image_key :: imageCacheKey where
  "spelled_image_key = \<lparr>key_siteID = 1, primaryAuthority = ''http://u:1'', canonicalPath = ''/Items/7/Images/a'', canonicalQuery = ''w=1'',
     forceQuery = False, credentialIdentity = demo_credential_fields, representation = ''6:accept1:015:accept-encoding1:0''\<rparr>"

lemma demo_image_header:
  "hasUpgradeIntent [(''X-Emby-Token'', [''t''])] = False"
  "cacheRequestForcesRevalidation [(''X-Emby-Token'', [''t''])] = False"
  "cacheHeaderPresent [(''X-Emby-Token'', [''t''])] ''Range'' = False"
  "cacheHeaderPresent [(''X-Emby-Token'', [''t''])] ''If-Range'' = False"
  "credential_fields ''key=k'' [(''X-Emby-Token'', [''t''])] = Some demo_credential_fields"
  "identity_headers [(''X-Emby-Token'', [''t''])] [''Accept'', ''Accept-Encoding''] = Some ''6:accept1:015:accept-encoding1:0''"
  by code_simp+

lemma demo_image_address:
  "image_upstream_url demo_image_primary (empty_url\<lparr>path := p, raw_query := ''w=1&key=k''\<rparr>) ''/Items/7/Images/a'' ''/Items/7/Images/a'' =
     empty_url\<lparr>scheme := ''http'', host := ''u:1'', path := ''/Items/7/Images/a'', raw_path := ''/Items/7/Images/a'', raw_query := ''w=1&key=k''\<rparr>"
  "url_escaped_path (empty_url\<lparr>scheme := ''http'', host := ''u:1'', path := ''/Items/7/Images/a'', raw_path := ''/Items/7/Images/a'', raw_query := ''w=1&key=k''\<rparr>) = ''/Items/7/Images/a''"
  "splitCanonicalCacheQuery ''w=1&key=k'' = Some (''w=1'', ''key=k'')"
  "redirectHostKey demo_image_primary = ''http://u:1''"
  "path_unescape ''/Items/7/Images/a'' = Some ''/Items/7/Images/a''"
  subgoal unfolding image_upstream_url_def by code_simp
  by code_simp+

lemma demo_image_paths:
  "normalizeEmbyImageCachePath (empty_url\<lparr>path := ''/Items/7/Images/a'', raw_query := ''w=1&key=k''\<rparr>) = Some ''/Items/7/Images/a''"
  "normalizeEmbyImageCachePath (empty_url\<lparr>path := ''/items/7/IMAGES/a'', raw_query := ''w=1&key=k''\<rparr>) = Some ''/Items/7/Images/a''"
  by code_simp+

lemma demo_image_routes: "\<not> isReservedDynamicRoute ''/Items/7/Images/a''" "\<not> isReservedDynamicRoute ''/items/7/IMAGES/a''"
  by (simp_all add: isReservedDynamicRoute_def normalizeDynamicCapabilityPath_def has_prefix_def trim_suffix_def has_suffix_def dynamicRoutePrefix_def)

lemma spelled_image_keys:
  assumes "p = ''/Items/7/Images/a'' \<or> p = ''/items/7/IMAGES/a''"
  shows "imageCacheRequestKeyFor id (\<lambda>k m. m) [] 1 demo_image_primary (demo_image_request p) = Some spelled_image_key"
proof -
  have route: "\<not> isReservedDynamicRoute p"
    using assms demo_image_routes by blast
  have canonical: "normalizeEmbyImageCachePath (empty_url\<lparr>path := p, raw_query := ''w=1&key=k''\<rparr>) = Some ''/Items/7/Images/a''"
    using assms demo_image_paths by blast
  have fields: "ireq_method (demo_image_request p) = ''GET''" "ireq_url (demo_image_request p) = empty_url\<lparr>path := p, raw_query := ''w=1&key=k''\<rparr>"
    "ireq_header (demo_image_request p) = [(''X-Emby-Token'', [''t''])]" "ireq_content_length (demo_image_request p) = 0"
    "ireq_transfer_encoding (demo_image_request p) = []"
    by (simp_all add: demo_image_request_def)
  have "image_request_eligible (demo_image_request p)"
    unfolding image_request_eligible_def fields demo_image_header using route by simp
  moreover have "force_query (empty_url\<lparr>scheme := s, host := h, path := q, raw_path := q, raw_query := w\<rparr>) = False"
      "raw_query (empty_url\<lparr>scheme := s, host := h, path := q, raw_path := q, raw_query := w\<rparr>) = w" for s h q w
    by (simp_all add: empty_url_def)
  ultimately show ?thesis
    unfolding imageCacheRequestKeyFor_def fields canonical spelled_image_key_def
    by (simp add: demo_image_address demo_image_header cacheCredentialDigest_def cacheHeaderDigest_def
        del: identity_headers.simps path_unescape.simps)
qed

theorem image_key_separates_callers_witness:
  "imageCacheRequestKeyFor id (\<lambda>k m. m) [] 1 demo_image_primary (demo_image_request ''/items/7/IMAGES/a'') = Some spelled_image_key \<and>
   image_cache_query demo_image_primary (demo_image_request ''/Items/7/Images/a'') =
    image_cache_query demo_image_primary (demo_image_request ''/items/7/IMAGES/a'')"
proof -
  have keys: "imageCacheRequestKeyFor id (\<lambda>k m. m) [] 1 demo_image_primary (demo_image_request p) = Some spelled_image_key"
    if "p = ''/Items/7/Images/a'' \<or> p = ''/items/7/IMAGES/a''" for p
    using spelled_image_keys[OF that] .
  show ?thesis
    using image_key_separates_callers[OF keys[of "''/Items/7/Images/a''"] keys[of "''/items/7/IMAGES/a''"]]
      keys[of "''/items/7/IMAGES/a''"] by (simp add: inj_on_def)
qed

end
