(* ===== verification/Ping_Cache.thy ===== *)
theory Ping_Cache
  imports Image_Request "HOL-Library.Word"
begin

text \<open>
  The cache of the answers to \<open>/System/Ping\<close> of one site, \<open>cmd/meridian/legacy_ping_cache.go\<close>: the
  key of a request, the entries with their order of use, the flight that asks the upstream for all who wait, the
  generation that an invalidation starts, and what a response's body becomes. SHA-256, HMAC, the random key and the
  clock are arguments. Elements, entries and flights are numbers into stores.
\<close>

section \<open>Requests\<close>

datatype pingCacheRoute = pingCacheRouteSystem | pingCacheRouteEmbySystem

definition get_or_head_request :: "image_request \<Rightarrow> bool" where
  "get_or_head_request r \<longleftrightarrow> ireq_method r = ''GET'' \<or> ireq_method r = ''HEAD''"

definition ping_request_plain :: "image_request \<Rightarrow> bool" where
  "ping_request_plain r \<longleftrightarrow>
     ireq_content_length r = 0 \<and> ireq_transfer_encoding r = [] \<and> \<not> cacheRequestForcesRevalidation (ireq_header r) \<and>
     \<not> cacheHeaderPresent (ireq_header r) ''Range'' \<and> \<not> cacheHeaderPresent (ireq_header r) ''If-Range''"

definition pingCacheRouteForRequest :: "image_request \<Rightarrow> pingCacheRoute option" where
  "pingCacheRouteForRequest r =
     (if \<not> get_or_head_request r \<or> hasUpgradeIntent (ireq_header r) then None
      else if \<not> ping_request_plain r then None
      else if url_escaped_path (ireq_url r) \<noteq> path (ireq_url r) then None
      else if path (ireq_url r) = ''/System/Ping'' then Some pingCacheRouteSystem
      else if path (ireq_url r) = ''/emby/System/Ping'' then Some pingCacheRouteEmbySystem
      else None)"

record pingCacheKey =
  pkey_siteID :: int
  pkey_authority :: string
  pkey_route :: pingCacheRoute
  pkey_method :: string
  pkey_forceQuery :: bool
  representationQueryDigest :: string
  representationHeadersDigest :: string
  credentialIdentityDigest :: string

record pingCacheEntry =
  ping_key :: pingCacheKey
  ping_header :: http_header
  ping_body :: string
  ping_length :: int
  ping_responseAt :: time
  ping_initialAge :: duration
  ping_expiresAt :: time

record pingCacheFlight =
  ping_closings :: nat
  flight_generation :: "64 word"
  ping_waiters :: int

record pingCache =
  ping_siteID :: int
  ping_authority :: string
  ping_credentialKey :: string
  ping_generation :: "64 word"
  ping_entries :: "(pingCacheKey, ref) gomap"
  ping_lru :: "ref list"
  ping_inflight :: "(pingCacheKey, ref) gomap"
  ping_at :: "ref \<Rightarrow> pingCacheEntry"
  ping_flight_at :: "ref \<Rightarrow> pingCacheFlight"

text \<open>\<open>random\<close> is the key that was drawn, or nothing when the source of randomness failed.\<close>

definition newPingCache ::
  "(ref \<Rightarrow> pingCacheEntry) \<Rightarrow> (ref \<Rightarrow> pingCacheFlight) \<Rightarrow> string option \<Rightarrow> int \<Rightarrow> url \<Rightarrow> pingCache option" where
  "newPingCache en fl random sid primary =
     (let authority = redirectHostKey primary in
      if sid \<le> 0 \<or> authority = [] then None
      else map_option (\<lambda>key. \<lparr>ping_siteID = sid, ping_authority = authority, ping_credentialKey = key, ping_generation = 0,
             ping_entries = [], ping_lru = [], ping_inflight = [], ping_at = en, ping_flight_at = fl\<rparr>) random)"

definition ping_representation_headers :: "string list" where
  "ping_representation_headers =
     [''Accept'', ''Accept-Charset'', ''Accept-Encoding'', ''Accept-Language'', ''Origin'', ''User-Agent'',
      ''X-Emby-Client'', ''X-Emby-Client-Version'', ''X-Emby-Device-Id'', ''X-Emby-Device-Name'']"

text \<open>\<open>route\<close> is the route the request's context carries, \<open>cancelled\<close> whether that context has ended.\<close>

definition ping_requestKey ::
  "(string \<Rightarrow> string) \<Rightarrow> (string \<Rightarrow> string \<Rightarrow> string) \<Rightarrow> pingCacheRoute option \<Rightarrow> bool \<Rightarrow> image_request \<Rightarrow> pingCache \<Rightarrow>
   pingCacheKey option" where
  "ping_requestKey sha hmac route cancelled r c =
     (if cancelled then None
      else case route of None \<Rightarrow> None
      | Some rt \<Rightarrow>
          if \<not> get_or_head_request r \<or> redirectHostKey (ireq_url r) \<noteq> ping_authority c \<or> \<not> ping_request_plain r then None
          else
            (case splitCanonicalCacheQuery (raw_query (ireq_url r)) of None \<Rightarrow> None
             | Some (repQuery, credQuery) \<Rightarrow>
                 (case cacheHeaderDigest sha (ireq_header r) ping_representation_headers of None \<Rightarrow> None
                  | Some headers \<Rightarrow>
                      map_option (\<lambda>credentials.
                        \<lparr>pkey_siteID = ping_siteID c, pkey_authority = ping_authority c, pkey_route = rt,
                         pkey_method = ireq_method r, pkey_forceQuery = force_query (ireq_url r),
                         representationQueryDigest = sha repQuery, representationHeadersDigest = headers,
                         credentialIdentityDigest = credentials\<rparr>)
                        (cacheCredentialDigest hmac (ping_credentialKey c) credQuery (ireq_header r)))))"

section \<open>Entries\<close>

definition ping_removeEntryLocked :: "ref \<Rightarrow> pingCache \<Rightarrow> pingCache" where
  "ping_removeEntryLocked x c =
     c\<lparr>ping_entries := mdel (ping_key (ping_at c x)) (ping_entries c), ping_lru := remove1 x (ping_lru c)\<rparr>"

definition ping_lookupLocked :: "pingCacheKey \<Rightarrow> time \<Rightarrow> pingCache \<Rightarrow> pingCache \<times> ref option" where
  "ping_lookupLocked key now c =
     (case mget (ping_entries c) key of None \<Rightarrow> (c, None)
      | Some x \<Rightarrow>
          if \<not> now < ping_expiresAt (ping_at c x) then (ping_removeEntryLocked x c, None)
          else (c\<lparr>ping_lru := x # remove1 x (ping_lru c)\<rparr>, Some x))"

section \<open>Responses\<close>

text \<open>
  The body of a response: nothing, bytes in memory, the stream of the upstream (its bytes, the error of a read
  of their own that ends them, or none at their end, and whether closing it fails), the consumed prefix with the
  error that followed it, or a prefix in front of the rest of the stream.
\<close>

record ping_stream =
  stream_bytes :: string
  stream_error :: "string option"
  stream_close_fails :: bool

datatype ping_response_body = NoBody | BytesBody string | StreamBody ping_stream
  | FailedBody string "string option" | JoinedBody string ping_stream

record ping_response =
  pr_status :: int
  pr_header :: http_header
  pr_trailer :: http_header
  pr_length :: int
  pr_body :: ping_response_body

definition pingCacheResponseFromEntry :: "string \<Rightarrow> pingCacheEntry \<Rightarrow> time \<Rightarrow> ping_response" where
  "pingCacheResponseFromEntry rq_method e now =
     \<lparr>pr_status = 200,
      pr_header = hdr_set ''Age'' (cacheResponseAgeValue (ping_initialAge e) (ping_responseAt e) now) (ping_header e),
      pr_trailer = [], pr_length = ping_length e,
      pr_body = (if rq_method = ''GET'' then BytesBody (ping_body e) else NoBody)\<rparr>"

definition cachedResponse :: "pingCacheKey \<Rightarrow> string \<Rightarrow> time \<Rightarrow> pingCache \<Rightarrow> pingCache \<times> ping_response option" where
  "cachedResponse key rq_method now c =
     (case ping_lookupLocked key now c of
        (t, None) \<Rightarrow> (t, None)
      | (t, Some x) \<Rightarrow> (t, Some (pingCacheResponseFromEntry rq_method (ping_at t x) now)))"

definition pingCacheVarySafe :: "http_header \<Rightarrow> bool" where
  "pingCacheVarySafe h =
     (case cacheHeaderValues h ''Vary'' of None \<Rightarrow> False
      | Some vs \<Rightarrow> list_all (\<lambda>v. trim_space v = [] \<or>
          list_all (\<lambda>raw. to_lower (trim_space raw) \<in>
            {''accept'', ''accept-charset'', ''accept-encoding'', ''accept-language'', ''origin'', ''user-agent'',
             ''x-emby-client'', ''x-emby-client-version'', ''x-emby-device-id'', ''x-emby-device-name''})
            (split_on CHR '','' v)) vs)"

definition pingCacheMaxBodyBytes :: nat where
  "pingCacheMaxBodyBytes = 65536"

definition pingCacheResponseHeadersSafe :: "ping_response \<Rightarrow> string \<Rightarrow> bool" where
  "pingCacheResponseHeadersSafe resp rq_method =
     (if pr_status resp \<noteq> 200 \<or> list_ex (cacheHeaderPresent (pr_header resp)) [''Set-Cookie'', ''Content-Range'', ''Trailer''] \<or>
         pr_trailer resp \<noteq> [] \<or> \<not> pingCacheVarySafe (pr_header resp) then False
      else case parseCacheControlDirectives (pr_header resp) ''Cache-Control'' of None \<Rightarrow> False
        | Some ds \<Rightarrow>
            if list_ex (cacheDirectivePresent ds) [''private'', ''no-store'', ''no-cache''] \<or> cachePragmaNoCache (pr_header resp)
            then False
            else rq_method = ''HEAD'' \<or> pr_length resp \<le> int pingCacheMaxBodyBytes)"

text \<open>\<open>strconv.FormatInt\<close> of a length that is not negative is \<open>itoa\<close>.\<close>

definition pingCacheReplayHeaders :: "http_header \<Rightarrow> int \<Rightarrow> http_header option" where
  "pingCacheReplayHeaders h len =
     map_option (\<lambda>(replay, _). if 0 \<le> len then hdr_set ''Content-Length'' (itoa (nat len)) replay else replay)
       (safeCachedResponseHeadersWithin h
          [''Access-Control-Allow-Credentials'', ''Access-Control-Allow-Origin'', ''Access-Control-Expose-Headers'',
           ''Cache-Control'', ''Content-Encoding'', ''Content-Language'', ''Content-Type'', ''Date'', ''ETag'', ''Expires'',
           ''Last-Modified'', ''Vary''] maxCacheReplayHeaderBytes)"

definition pingCacheTTL :: duration where
  "pingCacheTTL = 2 * second"

text \<open>The stream of a response and what \<open>io.ReadAll\<close> of it behind an \<open>io.LimitReader\<close> returns.\<close>

definition body_stream :: "ping_response_body \<Rightarrow> ping_stream" where
  "body_stream b = (case b of StreamBody s \<Rightarrow> s | BytesBody d \<Rightarrow> \<lparr>stream_bytes = d, stream_error = None, stream_close_fails = False\<rparr>
     | NoBody \<Rightarrow> \<lparr>stream_bytes = [], stream_error = None, stream_close_fails = False\<rparr>
     | FailedBody d e \<Rightarrow> \<lparr>stream_bytes = d, stream_error = e, stream_close_fails = False\<rparr>
     | JoinedBody d s \<Rightarrow> s\<lparr>stream_bytes := d @ stream_bytes s\<rparr>)"

definition read_limited :: "nat \<Rightarrow> ping_stream \<Rightarrow> string \<times> string option" where
  "read_limited limit s =
     (if limit \<le> length (stream_bytes s) then (take limit (stream_bytes s), None) else (stream_bytes s, stream_error s))"

definition prepareResponse ::
  "(string \<Rightarrow> time option) \<Rightarrow> string \<Rightarrow> time \<Rightarrow> pingCacheKey \<Rightarrow> ping_response \<Rightarrow> pingCacheEntry option \<times> ping_response" where
  "prepareResponse parse_time rq_method now zero resp =
     (if \<not> pingCacheResponseHeadersSafe resp rq_method then (None, resp)
      else
        let s = body_stream (pr_body resp); (body, failure) = read_limited (pingCacheMaxBodyBytes + 1) s
        in if failure \<noteq> None then (None, resp\<lparr>pr_body := FailedBody body failure\<rparr>)
           else if pingCacheMaxBodyBytes < length body
           then (None, resp\<lparr>pr_body := JoinedBody body (s\<lparr>stream_bytes := drop (length body) (stream_bytes s)\<rparr>)\<rparr>)
           else
             let read = resp\<lparr>pr_body := BytesBody body\<rparr>;
                 out = (if rq_method = ''GET''
                        then read\<lparr>pr_length := int (length body),
                                  pr_header := hdr_set ''Content-Length'' (itoa (length body)) (pr_header read)\<rparr>
                        else read)
             in if rq_method = ''GET'' \<and> 0 \<le> pr_length resp \<and> pr_length resp \<noteq> int (length body) then (None, out)
                else if rq_method \<noteq> ''GET'' \<and> body \<noteq> [] then (None, out)
                else if stream_close_fails s then (None, out)
                else
                  (case cacheResponseFreshness parse_time (pr_header out) now pingCacheTTL of None \<Rightarrow> (None, out)
                   | Some (expires, age) \<Rightarrow>
                       (map_option (\<lambda>h. \<lparr>ping_key = zero, ping_header = h, ping_body = body, ping_length = pr_length out,
                             ping_responseAt = now, ping_initialAge = age, ping_expiresAt = expires\<rparr>)
                          (pingCacheReplayHeaders (pr_header out) (pr_length out)), out)))"

text \<open>Reading the body of a response: one call of \<open>Read\<close> with a buffer of \<open>n\<close> bytes.\<close>

definition pingCacheFailedBody_Read :: "nat \<Rightarrow> string \<times> string option \<Rightarrow> (string \<times> string option) \<times> (string \<times> string option)" where
  "pingCacheFailedBody_Read n b =
     (case b of (prefix, failure) \<Rightarrow>
        if prefix \<noteq> [] then ((take n prefix, None), (drop n prefix, failure))
        else case failure of Some e \<Rightarrow> (([], Some e), ([], None))
          | None \<Rightarrow> (([], Some ''EOF''), ([], None)))"

section \<open>Flights\<close>

definition pingCacheMaxEntries :: nat where
  "pingCacheMaxEntries = 256"

partial_function (option) ping_evict :: "pingCache \<Rightarrow> pingCache option" where
  "ping_evict c =
     (if length (ping_entries c) \<le> pingCacheMaxEntries then Some c
      else ping_evict (case ping_lru c of [] \<Rightarrow> c | _ \<Rightarrow> ping_removeEntryLocked (last (ping_lru c)) c))"

declare ping_evict.simps [code]

definition ping_on_flight :: "ref \<Rightarrow> (pingCacheFlight \<Rightarrow> pingCacheFlight) \<Rightarrow> pingCache \<Rightarrow> pingCache" where
  "ping_on_flight f g c = c\<lparr>ping_flight_at := (ping_flight_at c)(f := g (ping_flight_at c f))\<rparr>"

text \<open>The publication of an entry as the object \<open>x\<close>.\<close>

definition ping_publish :: "pingCacheKey \<Rightarrow> ref \<Rightarrow> pingCacheEntry \<Rightarrow> pingCache \<Rightarrow> pingCache option" where
  "ping_publish key x e c =
     (let c1 = c\<lparr>ping_at := (ping_at c)(x := e\<lparr>ping_key := key\<rparr>)\<rparr>;
          c2 = (case mget (ping_entries c1) key of None \<Rightarrow> c1 | Some old \<Rightarrow> ping_removeEntryLocked old c1)
      in ping_evict (c2\<lparr>ping_lru := x # ping_lru c2, ping_entries := mput key x (ping_entries c2)\<rparr>))"

definition ping_finishFlight ::
  "pingCacheKey \<Rightarrow> ref \<Rightarrow> ref \<Rightarrow> pingCacheEntry option \<Rightarrow> time \<Rightarrow> pingCache \<Rightarrow> pingCache option" where
  "ping_finishFlight key f x entry now c =
     (if mget (ping_inflight c) key \<noteq> Some f then Some c
      else
        map_option (\<lambda>t. ping_on_flight f (\<lambda>fl. fl\<lparr>ping_closings := ping_closings fl + 1\<rparr>)
                          (t\<lparr>ping_inflight := mdel key (ping_inflight t)\<rparr>))
          (case entry of None \<Rightarrow> Some c
           | Some e \<Rightarrow>
               if flight_generation (ping_flight_at c f) = ping_generation c \<and> now < ping_expiresAt e
               then ping_publish key x e c else Some c))"

definition ping_invalidate :: "pingCache \<Rightarrow> pingCache" where
  "ping_invalidate c =
     (let c1 = c\<lparr>ping_generation := ping_generation c + 1\<rparr> in foldl (\<lambda>t x. ping_removeEntryLocked x t) c1 (ping_lru c1))"

text \<open>
  \<open>roundTrip\<close> between its critical sections. The first looks the key up again, joins the flight that is under
  way or starts the flight \<open>f\<close>; after a wait the entry is looked up once more.
\<close>

datatype ping_answer = PingReplay ping_response | PingWait ref | PingLead ref | PingUpstream | PingCancelled

definition ping_begin :: "pingCacheKey \<Rightarrow> string \<Rightarrow> time \<Rightarrow> ref \<Rightarrow> pingCache \<Rightarrow> pingCache \<times> ping_answer" where
  "ping_begin key rq_method now f c =
     (case cachedResponse key rq_method now c of
        (t, Some response) \<Rightarrow> (t, PingReplay response)
      | (t, None) \<Rightarrow>
          (case mget (ping_inflight t) key of
             Some g \<Rightarrow> (ping_on_flight g (\<lambda>fl. fl\<lparr>ping_waiters := ping_waiters fl + 1\<rparr>) t, PingWait g)
           | None \<Rightarrow>
               (ping_on_flight f (\<lambda>_. \<lparr>ping_closings = 0, flight_generation = ping_generation t, ping_waiters = 0\<rparr>)
                  (t\<lparr>ping_inflight := mput key f (ping_inflight t)\<rparr>), PingLead f)))"

definition ping_resume :: "bool \<Rightarrow> bool \<Rightarrow> pingCacheKey \<Rightarrow> string \<Rightarrow> time \<Rightarrow> pingCache \<Rightarrow> pingCache \<times> ping_answer" where
  "ping_resume flight_done cancelled key rq_method now c =
     (if \<not> flight_done then (c, PingCancelled)
      else case cachedResponse key rq_method now c of
        (t, Some response) \<Rightarrow> (t, PingReplay response)
      | (t, None) \<Rightarrow> (t, if cancelled then PingCancelled else PingUpstream))"

text \<open>The end of a leader: the upstream failed, or answered at \<open>responseAt\<close>; the flight ends at \<open>now\<close>.\<close>

definition ping_lead_end ::
  "(string \<Rightarrow> time option) \<Rightarrow> pingCacheKey \<Rightarrow> string \<Rightarrow> ref \<Rightarrow> ref \<Rightarrow> string + ping_response \<Rightarrow> time \<Rightarrow> time \<Rightarrow> pingCacheKey \<Rightarrow> pingCache \<Rightarrow>
   (pingCache \<times> (string + ping_response)) option" where
  "ping_lead_end parse_time key rq_method f x answer received now zero c =
     (case answer of
        Inl err \<Rightarrow> map_option (\<lambda>t. (t, Inl err)) (ping_finishFlight key f x None now c)
      | Inr resp \<Rightarrow>
          (case prepareResponse parse_time rq_method received zero resp of
             (entry, prepared) \<Rightarrow> map_option (\<lambda>t. (t, Inr prepared)) (ping_finishFlight key f x entry now c)))"

end
