(* ===== verification/Ping_Safety.thy ===== *)
theory Ping_Safety
  imports Ping_Cache
begin

text \<open>
  What the ping cache guarantees: its entries and their order stay consistent under every interleaving of the
  critical sections of requests, an answer is served only if a flight that began after the last invalidation published
  it for exactly that key, and the body of a response is what the upstream sent.
\<close>

section \<open>Entries and their order\<close>

definition ping_ok :: "pingCache \<Rightarrow> bool" where
  "ping_ok c \<longleftrightarrow> mwf (ping_entries c) \<and> mwf (ping_inflight c) \<and> distinct (ping_lru c) \<and>
     length (ping_lru c) = length (ping_entries c) \<and>
     (\<forall>k x. mget (ping_entries c) k = Some x \<longleftrightarrow> x \<in> set (ping_lru c) \<and> ping_key (ping_at c x) = k)"

lemma ping_okD:
  assumes "ping_ok c"
  shows "mwf (ping_entries c)" "mwf (ping_inflight c)" "distinct (ping_lru c)" "length (ping_lru c) = length (ping_entries c)"
    "mget (ping_entries c) k = Some x \<longleftrightarrow> x \<in> set (ping_lru c) \<and> ping_key (ping_at c x) = k"
  using assms by (simp_all add: ping_ok_def)

lemma removeEntry_same [simp]:
  "ping_inflight (ping_removeEntryLocked x c) = ping_inflight c" "ping_at (ping_removeEntryLocked x c) = ping_at c"
  "ping_flight_at (ping_removeEntryLocked x c) = ping_flight_at c" "ping_generation (ping_removeEntryLocked x c) = ping_generation c"
  by (simp_all add: ping_removeEntryLocked_def)

lemma length_remove1_Suc: "x \<in> set xs \<Longrightarrow> Suc (length (remove1 x xs)) = length xs"
  by (induction xs) auto

lemma removeEntry_ok:
  assumes "ping_ok c" "x \<in> set (ping_lru c)"
  shows "ping_ok (ping_removeEntryLocked x c)"
    "Suc (length (ping_entries (ping_removeEntryLocked x c))) = length (ping_entries c)"
    "mget (ping_entries (ping_removeEntryLocked x c)) k = Some y \<longleftrightarrow> mget (ping_entries c) k = Some y \<and> y \<noteq> x"
proof -
  have x: "mget (ping_entries c) (ping_key (ping_at c x)) = Some x"
    using assms(2) ping_okD(5)[OF assms(1)] by blast
  then show len: "Suc (length (ping_entries (ping_removeEntryLocked x c))) = length (ping_entries c)"
    using length_mdel_Some[OF ping_okD(1)[OF assms(1)] x] by (simp add: ping_removeEntryLocked_def)
  show iff: "mget (ping_entries (ping_removeEntryLocked x c)) k = Some y \<longleftrightarrow> mget (ping_entries c) k = Some y \<and> y \<noteq> x" for k y
  proof (cases "k = ping_key (ping_at c x)")
    case True
    then show ?thesis
      using x by (simp add: ping_removeEntryLocked_def)
  next
    case False
    then have "mget (ping_entries c) k \<noteq> Some x"
      using ping_okD(5)[OF assms(1), of k x] by simp
    then show ?thesis
      using False by (auto simp: ping_removeEntryLocked_def)
  qed
  have lru: "ping_lru (ping_removeEntryLocked x c) = remove1 x (ping_lru c)"
    "ping_entries (ping_removeEntryLocked x c) = mdel (ping_key (ping_at c x)) (ping_entries c)"
    by (simp_all add: ping_removeEntryLocked_def)
  have wf: "mwf (mdel (ping_key (ping_at c x)) (ping_entries c))"
    using ping_okD(1)[OF assms(1)] by (rule mwf_mdel)
  have len': "length (remove1 x (ping_lru c)) = length (ping_entries (ping_removeEntryLocked x c))"
    using len length_remove1_Suc[OF assms(2)] ping_okD(4)[OF assms(1)] by simp
  have "mget (ping_entries (ping_removeEntryLocked x c)) k = Some y \<longleftrightarrow>
      y \<in> set (remove1 x (ping_lru c)) \<and> ping_key (ping_at c y) = k" for k y
    unfolding iff ping_okD(5)[OF assms(1)] using set_remove1_eq[OF ping_okD(3)[OF assms(1)], of x] by blast
  then show "ping_ok (ping_removeEntryLocked x c)"
    unfolding ping_ok_def removeEntry_same lru using wf len' ping_okD(2,3)[OF assms(1)] by (simp add: lru)
qed

lemma lookup_ok:
  assumes "ping_ok c" "ping_lookupLocked key now c = (t, r)"
  shows "ping_ok t" "ping_inflight t = ping_inflight c" "ping_at t = ping_at c" "ping_flight_at t = ping_flight_at c"
    "ping_generation t = ping_generation c" "length (ping_entries t) \<le> length (ping_entries c)"
    "mget (ping_entries t) k = Some y \<Longrightarrow> mget (ping_entries c) k = Some y"
    "r = Some x \<Longrightarrow> mget (ping_entries t) key = Some x \<and> now < ping_expiresAt (ping_at c x)"
proof -
  have "ping_ok t \<and> ping_inflight t = ping_inflight c \<and> ping_at t = ping_at c \<and> ping_flight_at t = ping_flight_at c \<and>
      ping_generation t = ping_generation c \<and> length (ping_entries t) \<le> length (ping_entries c) \<and>
      (\<forall>k y. mget (ping_entries t) k = Some y \<longrightarrow> mget (ping_entries c) k = Some y) \<and>
      (\<forall>x. r = Some x \<longrightarrow> mget (ping_entries t) key = Some x \<and> now < ping_expiresAt (ping_at c x))"
  proof (cases "mget (ping_entries c) key")
    case None
    then show ?thesis
      using assms by (auto simp: ping_lookupLocked_def)
  next
    case (Some z)
    then have z: "z \<in> set (ping_lru c)"
      using ping_okD(5)[OF assms(1)] by blast
    show ?thesis
    proof (cases "now < ping_expiresAt (ping_at c z)")
      case True
      then have t: "t = c\<lparr>ping_lru := z # remove1 z (ping_lru c)\<rparr>" "r = Some z"
        using assms(2) Some by (simp_all add: ping_lookupLocked_def)
      have "ping_ok t"
        using assms(1) z length_remove1_Suc[OF z] unfolding ping_ok_def t by auto
      then show ?thesis
        using t True Some by simp
    next
      case False
      then have "t = ping_removeEntryLocked z c" "r = None"
        using assms(2) Some by (simp_all add: ping_lookupLocked_def)
      then show ?thesis
        using removeEntry_ok[OF assms(1) z] by simp
    qed
  qed
  then show "ping_ok t" "ping_inflight t = ping_inflight c" "ping_at t = ping_at c" "ping_flight_at t = ping_flight_at c"
    "ping_generation t = ping_generation c" "length (ping_entries t) \<le> length (ping_entries c)"
    "mget (ping_entries t) k = Some y \<Longrightarrow> mget (ping_entries c) k = Some y"
    "r = Some x \<Longrightarrow> mget (ping_entries t) key = Some x \<and> now < ping_expiresAt (ping_at c x)"
    by blast+
qed

text \<open>The eviction drops the oldest entries until there are at most 256.\<close>

lemma evict_returns:
  assumes "ping_ok c"
  shows "\<exists>t. ping_evict c = Some t \<and> ping_ok t \<and> length (ping_entries t) \<le> pingCacheMaxEntries \<and>
    ping_inflight t = ping_inflight c \<and> ping_at t = ping_at c \<and> ping_flight_at t = ping_flight_at c \<and>
    ping_generation t = ping_generation c \<and> (\<forall>k y. mget (ping_entries t) k = Some y \<longrightarrow> mget (ping_entries c) k = Some y)"
  using assms
proof (induction "length (ping_entries c)" arbitrary: c rule: less_induct)
  case less
  show ?case
  proof (cases "length (ping_entries c) \<le> pingCacheMaxEntries")
    case True
    then show ?thesis
      using less.prems by (simp add: ping_evict.simps)
  next
    case False
    then have ne: "ping_lru c \<noteq> []"
      using ping_okD(4)[OF less.prems] by auto
    then have x: "last (ping_lru c) \<in> set (ping_lru c)"
      by simp
    let ?d = "ping_removeEntryLocked (last (ping_lru c)) c"
    have "ping_evict c = ping_evict ?d"
      using False ne by (subst ping_evict.simps) (cases "ping_lru c", auto)
    moreover have "length (ping_entries ?d) < length (ping_entries c)"
      using removeEntry_ok(2)[OF less.prems x] by simp
    from less.hyps[OF this removeEntry_ok(1)[OF less.prems x]]
    obtain t where "ping_evict ?d = Some t" "ping_ok t" "length (ping_entries t) \<le> pingCacheMaxEntries"
      "ping_inflight t = ping_inflight c" "ping_at t = ping_at c" "ping_flight_at t = ping_flight_at c"
      "ping_generation t = ping_generation c" "\<forall>k y. mget (ping_entries t) k = Some y \<longrightarrow> mget (ping_entries ?d) k = Some y"
      by auto
    ultimately show ?thesis
      using removeEntry_ok(3)[OF less.prems x] by auto
  qed
qed

lemma publish_returns:
  assumes "ping_ok c" "x \<notin> set (ping_lru c)"
  shows "\<exists>t. ping_publish key x e c = Some t \<and> ping_ok t \<and> length (ping_entries t) \<le> pingCacheMaxEntries \<and>
    ping_inflight t = ping_inflight c \<and> ping_flight_at t = ping_flight_at c \<and> ping_generation t = ping_generation c \<and>
    ping_at t = (ping_at c)(x := e\<lparr>ping_key := key\<rparr>) \<and>
    (\<forall>k y. mget (ping_entries t) k = Some y \<longrightarrow> k = key \<and> y = x \<or> mget (ping_entries c) k = Some y \<and> y \<noteq> x)"
proof -
  define c1 where "c1 = c\<lparr>ping_at := (ping_at c)(x := e\<lparr>ping_key := key\<rparr>)\<rparr>"
  define c2 where "c2 = (case mget (ping_entries c1) key of None \<Rightarrow> c1 | Some old \<Rightarrow> ping_removeEntryLocked old c1)"
  define c3 where "c3 = c2\<lparr>ping_lru := x # ping_lru c2, ping_entries := mput key x (ping_entries c2)\<rparr>"
  have publish: "ping_publish key x e c = ping_evict c3"
    unfolding ping_publish_def Let_def c3_def c2_def c1_def by (rule refl)
  have ok1: "ping_ok c1"
    using assms unfolding ping_ok_def c1_def by auto
  have same: "ping_inflight c2 = ping_inflight c" "ping_at c2 = (ping_at c)(x := e\<lparr>ping_key := key\<rparr>)"
    "ping_flight_at c2 = ping_flight_at c" "ping_generation c2 = ping_generation c"
    by (simp_all add: c2_def c1_def split: option.splits)
  have ok2: "ping_ok c2 \<and> mget (ping_entries c2) key = None \<and> x \<notin> set (ping_lru c2) \<and>
      (\<forall>k y. mget (ping_entries c2) k = Some y \<longrightarrow> mget (ping_entries c) k = Some y)"
  proof (cases "mget (ping_entries c1) key")
    case None
    then show ?thesis
      using ok1 assms(2) by (simp add: c2_def c1_def)
  next
    case (Some old)
    then have old: "old \<in> set (ping_lru c1)" "ping_key (ping_at c1 old) = key"
      using ping_okD(5)[OF ok1, of key old] by simp_all
    have c2: "c2 = ping_removeEntryLocked old c1"
      using Some by (simp add: c2_def)
    have "mget (ping_entries c2) key = None"
      using old(2) by (simp add: c2 ping_removeEntryLocked_def)
    moreover have "x \<notin> set (ping_lru c2)"
      using assms(2) set_remove1_subset[of old "ping_lru c"] by (auto simp: c2 ping_removeEntryLocked_def c1_def)
    ultimately show ?thesis
      using removeEntry_ok(1,3)[OF ok1 old(1)] by (simp add: c2[symmetric]) (simp add: c2 c1_def)
  qed
  have "ping_ok c3"
  proof -
    have "(mget (mput key x (ping_entries c2)) k = Some y) \<longleftrightarrow> y \<in> set (x # ping_lru c2) \<and> ping_key (ping_at c2 y) = k" for k y
      using ok2 ping_okD(5)[of c2 k y] ping_okD(5)[of c2 key y] by (auto simp: same(2))
    then show ?thesis
      using ok2 ping_okD(1-4)[of c2] unfolding ping_ok_def c3_def by (simp add: length_mput)
  qed
  from evict_returns[OF this] obtain t where t: "ping_evict c3 = Some t" "ping_ok t" "length (ping_entries t) \<le> pingCacheMaxEntries"
    "ping_inflight t = ping_inflight c3" "ping_at t = ping_at c3" "ping_flight_at t = ping_flight_at c3"
    "ping_generation t = ping_generation c3" "\<forall>k y. mget (ping_entries t) k = Some y \<longrightarrow> mget (ping_entries c3) k = Some y"
    by blast
  have "k = key \<and> y = x \<or> mget (ping_entries c) k = Some y \<and> y \<noteq> x" if "mget (ping_entries t) k = Some y" for k y
  proof -
    have "mget (mput key x (ping_entries c2)) k = Some y"
      using t(8) that by (simp add: c3_def)
    moreover have "mget (ping_entries c2) k = Some y \<Longrightarrow> y \<noteq> x"
      using ok2 ping_okD(5)[of c2 k y] by auto
    ultimately show ?thesis
      using ok2 by (auto split: if_splits)
  qed
  then show ?thesis
    using publish t same by (auto simp: c3_def)
qed

text \<open>An invalidation empties the cache.\<close>

lemma remove_all:
  assumes "ping_ok c"
  shows "ping_ok (foldl (\<lambda>t x. ping_removeEntryLocked x t) c (ping_lru c)) \<and>
    ping_entries (foldl (\<lambda>t x. ping_removeEntryLocked x t) c (ping_lru c)) = [] \<and>
    ping_inflight (foldl (\<lambda>t x. ping_removeEntryLocked x t) c (ping_lru c)) = ping_inflight c \<and>
    ping_flight_at (foldl (\<lambda>t x. ping_removeEntryLocked x t) c (ping_lru c)) = ping_flight_at c \<and>
    ping_generation (foldl (\<lambda>t x. ping_removeEntryLocked x t) c (ping_lru c)) = ping_generation c"
  using assms
proof (induction "ping_lru c" arbitrary: c)
  case Nil
  then show ?case
    using ping_okD(4)[OF Nil.prems] by simp
next
  case (Cons x xs)
  let ?d = "ping_removeEntryLocked x c"
  have "x \<in> set (ping_lru c)"
    by (metis Cons.hyps(2) list.set_intros(1))
  from removeEntry_ok(1)[OF Cons.prems this] have "ping_ok ?d" .
  moreover have d: "ping_lru ?d = xs"
    by (simp add: ping_removeEntryLocked_def flip: Cons.hyps(2))
  ultimately show ?case
    using Cons.hyps(1)[of ?d] by (simp flip: Cons.hyps(2))
qed

lemma invalidate_ok:
  assumes "ping_ok c"
  shows "ping_ok (ping_invalidate c)" "ping_entries (ping_invalidate c) = []" "ping_inflight (ping_invalidate c) = ping_inflight c"
    "ping_flight_at (ping_invalidate c) = ping_flight_at c" "ping_generation (ping_invalidate c) = ping_generation c + 1"
proof -
  have "ping_ok (c\<lparr>ping_generation := ping_generation c + 1\<rparr>)"
    using assms by (simp add: ping_ok_def)
  from remove_all[OF this] show "ping_ok (ping_invalidate c)" "ping_entries (ping_invalidate c) = []"
    "ping_inflight (ping_invalidate c) = ping_inflight c"
    "ping_flight_at (ping_invalidate c) = ping_flight_at c" "ping_generation (ping_invalidate c) = ping_generation c + 1"
    by (simp_all add: ping_invalidate_def Let_def)
qed

section \<open>Runs\<close>

text \<open>
  The cache with the leaders that are asking the upstream, and the numbers of the next objects. An event is an
  answer to a request, the end of a leader with what it publishes, or an invalidation.
\<close>

record ping_world =
  ping_state :: pingCache
  ping_leaders :: "(pingCacheKey \<times> ref) list"
  next_ping_entry :: ref
  next_ping_flight :: ref

datatype ping_event =
    PingAnswered pingCacheKey string time ping_answer
  | PingMissed pingCacheKey
  | PingEnded pingCacheKey ref time "pingCacheEntry option"
  | PingInvalidated

inductive ping_step :: "ping_world \<Rightarrow> ping_event \<Rightarrow> ping_world \<Rightarrow> bool" where
  Hit: "cachedResponse k rq_method now (ping_state w) = (c, Some response) \<Longrightarrow>
     ping_step w (PingAnswered k rq_method now (PingReplay response)) (w\<lparr>ping_state := c\<rparr>)"
| Miss: "cachedResponse k rq_method now (ping_state w) = (c, None) \<Longrightarrow> ping_step w (PingMissed k) (w\<lparr>ping_state := c\<rparr>)"
| Begin: "ping_begin k rq_method now (next_ping_flight w) (ping_state w) = (c, a) \<Longrightarrow>
     ping_step w (PingAnswered k rq_method now a)
       (if a = PingLead (next_ping_flight w)
        then w\<lparr>ping_state := c, ping_leaders := (k, next_ping_flight w) # ping_leaders w,
                next_ping_flight := next_ping_flight w + 1\<rparr>
        else w\<lparr>ping_state := c\<rparr>)"
| Resume: "ping_resume flight_done cancelled k rq_method now (ping_state w) = (c, a) \<Longrightarrow>
     ping_step w (PingAnswered k rq_method now a) (w\<lparr>ping_state := c\<rparr>)"
| End: "(k, f) \<in> set (ping_leaders w) \<Longrightarrow> ping_finishFlight k f (next_ping_entry w) entry now (ping_state w) = Some c \<Longrightarrow>
     ping_step w (PingEnded k f now entry)
       (w\<lparr>ping_state := c, ping_leaders := remove1 (k, f) (ping_leaders w), next_ping_entry := next_ping_entry w + 1\<rparr>)"
| Invalidate: "ping_step w PingInvalidated (w\<lparr>ping_state := ping_invalidate (ping_state w)\<rparr>)"

inductive ping_run :: "ping_world \<Rightarrow> ping_event list \<Rightarrow> ping_world \<Rightarrow> bool" for w0 where
  Start: "ping_run w0 [] w0"
| Step: "ping_run w0 evs w \<Longrightarrow> ping_step w ev w' \<Longrightarrow> ping_run w0 (evs @ [ev]) w'"

definition invalidations :: "ping_event list \<Rightarrow> nat" where
  "invalidations evs = length (filter (\<lambda>ev. ev = PingInvalidated) evs)"

text \<open>A flight that led for a key while so many invalidations had happened.\<close>

definition led_at :: "ping_event list \<Rightarrow> pingCacheKey \<Rightarrow> ref \<Rightarrow> nat \<Rightarrow> bool" where
  "led_at evs k f n \<longleftrightarrow> (\<exists>a m t b. evs = a @ [PingAnswered k m t (PingLead f)] @ b \<and> invalidations a = n)"

text \<open>What was published for a key by one flight that led and ended without an invalidation up to now.\<close>

definition ping_published :: "ping_event list \<Rightarrow> pingCacheKey \<Rightarrow> pingCacheEntry \<Rightarrow> bool" where
  "ping_published evs k e \<longleftrightarrow>
     (\<exists>a m t f b t' d. evs = a @ [PingAnswered k m t (PingLead f)] @ b @ [PingEnded k f t' (Some e)] @ d \<and>
        invalidations (b @ d) = 0)"

lemma invalidations_simps [simp]:
  "invalidations [] = 0" "invalidations (xs @ ys) = invalidations xs + invalidations ys"
  "invalidations (ev # evs) = (if ev = PingInvalidated then 1 else 0) + invalidations evs"
  by (simp_all add: invalidations_def)

lemma led_at_snoc: "led_at evs k f n \<Longrightarrow> led_at (evs @ [ev]) k f n"
  unfolding led_at_def by (metis append.assoc)

lemma led_at_new: "led_at (evs @ [PingAnswered k m t (PingLead f)]) k f (invalidations evs)"
  unfolding led_at_def by (metis append_Nil2)

lemma published_snoc: "ping_published evs k e \<Longrightarrow> ev \<noteq> PingInvalidated \<Longrightarrow> ping_published (evs @ [ev]) k e"
  unfolding ping_published_def
proof (elim exE conjE)
  fix a m t f b t' d
  assume "ev \<noteq> PingInvalidated" "evs = a @ [PingAnswered k m t (PingLead f)] @ b @ [PingEnded k f t' (Some e)] @ d"
    "invalidations (b @ d) = 0"
  then have "evs @ [ev] = a @ [PingAnswered k m t (PingLead f)] @ b @ [PingEnded k f t' (Some e)] @ (d @ [ev])"
    "invalidations (b @ (d @ [ev])) = 0"
    by simp_all
  then show "\<exists>a m t f b t' d. evs @ [ev] = a @ [PingAnswered k m t (PingLead f)] @ b @ [PingEnded k f t' (Some e)] @ d \<and>
      invalidations (b @ d) = 0"
    by blast
qed

lemma published_new:
  assumes "led_at evs k f n" "n = invalidations evs"
  shows "ping_published (evs @ [PingEnded k f t' (Some e)]) k e"
proof -
  obtain a m t b where "evs = a @ [PingAnswered k m t (PingLead f)] @ b" "invalidations a = n"
    using assms(1) unfolding led_at_def by blast
  then have "evs @ [PingEnded k f t' (Some e)] = a @ [PingAnswered k m t (PingLead f)] @ b @ [PingEnded k f t' (Some e)] @ []"
    "invalidations (b @ []) = 0"
    using assms(2) by simp_all
  then show ?thesis
    unfolding ping_published_def by blast
qed

section \<open>The invariant\<close>

definition ping_inv :: "ping_event list \<Rightarrow> ping_world \<Rightarrow> bool" where
  "ping_inv evs w \<longleftrightarrow>
     (let c = ping_state w in
      ping_ok c \<and> length (ping_entries c) \<le> pingCacheMaxEntries \<and> ping_generation c = of_nat (invalidations evs) \<and>
      distinct (ping_leaders w) \<and>
      (\<forall>k f. mget (ping_inflight c) k = Some f \<longleftrightarrow> (k, f) \<in> set (ping_leaders w)) \<and>
      (\<forall>k f. (k, f) \<in> set (ping_leaders w) \<longrightarrow> f < next_ping_flight w \<and>
        (\<exists>n. led_at evs k f n \<and> n \<le> invalidations evs \<and> flight_generation (ping_flight_at c f) = of_nat n)) \<and>
      (\<forall>k f. (k, f) \<in> set (ping_leaders w) \<longrightarrow> (\<forall>k'. (k', f) \<in> set (ping_leaders w) \<longrightarrow> k' = k)) \<and>
      (\<forall>f<next_ping_flight w. ping_closings (ping_flight_at c f) = (if \<exists>k. (k, f) \<in> set (ping_leaders w) then 0 else 1)) \<and>
      (\<forall>k x. mget (ping_entries c) k = Some x \<longrightarrow> x < next_ping_entry w \<and>
        (\<exists>e. ping_at c x = e\<lparr>ping_key := k\<rparr> \<and> ping_published evs k e)))"

lemma ping_invD:
  assumes "ping_inv evs w"
  shows "ping_ok (ping_state w)" "length (ping_entries (ping_state w)) \<le> pingCacheMaxEntries"
    "ping_generation (ping_state w) = of_nat (invalidations evs)" "distinct (ping_leaders w)"
    "mget (ping_inflight (ping_state w)) k = Some f \<longleftrightarrow> (k, f) \<in> set (ping_leaders w)"
    "(k, f) \<in> set (ping_leaders w) \<Longrightarrow> f < next_ping_flight w"
    "(k, f) \<in> set (ping_leaders w) \<Longrightarrow>
       \<exists>n. led_at evs k f n \<and> n \<le> invalidations evs \<and> flight_generation (ping_flight_at (ping_state w) f) = of_nat n"
    "(k, f) \<in> set (ping_leaders w) \<Longrightarrow> (k', f) \<in> set (ping_leaders w) \<Longrightarrow> k' = k"
    "f < next_ping_flight w \<Longrightarrow>
       ping_closings (ping_flight_at (ping_state w) f) = (if \<exists>k. (k, f) \<in> set (ping_leaders w) then 0 else 1)"
    "mget (ping_entries (ping_state w)) k = Some x \<Longrightarrow> x < next_ping_entry w"
    "mget (ping_entries (ping_state w)) k = Some x \<Longrightarrow> \<exists>e. ping_at (ping_state w) x = e\<lparr>ping_key := k\<rparr> \<and> ping_published evs k e"
  using assms unfolding ping_inv_def Let_def by (elim conjE; blast)+

lemma ping_invI:
  assumes "ping_ok (ping_state w)" "length (ping_entries (ping_state w)) \<le> pingCacheMaxEntries"
    "ping_generation (ping_state w) = of_nat (invalidations evs)" "distinct (ping_leaders w)"
    "\<And>k f. mget (ping_inflight (ping_state w)) k = Some f \<longleftrightarrow> (k, f) \<in> set (ping_leaders w)"
    "\<And>k f. (k, f) \<in> set (ping_leaders w) \<Longrightarrow> f < next_ping_flight w"
    "\<And>k f. (k, f) \<in> set (ping_leaders w) \<Longrightarrow>
       \<exists>n. led_at evs k f n \<and> n \<le> invalidations evs \<and> flight_generation (ping_flight_at (ping_state w) f) = of_nat n"
    "\<And>k k' f. (k, f) \<in> set (ping_leaders w) \<Longrightarrow> (k', f) \<in> set (ping_leaders w) \<Longrightarrow> k' = k"
    "\<And>f. f < next_ping_flight w \<Longrightarrow>
       ping_closings (ping_flight_at (ping_state w) f) = (if \<exists>k. (k, f) \<in> set (ping_leaders w) then 0 else 1)"
    "\<And>k x. mget (ping_entries (ping_state w)) k = Some x \<Longrightarrow> x < next_ping_entry w"
    "\<And>k x. mget (ping_entries (ping_state w)) k = Some x \<Longrightarrow> \<exists>e. ping_at (ping_state w) x = e\<lparr>ping_key := k\<rparr> \<and> ping_published evs k e"
  shows "ping_inv evs w"
  unfolding ping_inv_def Let_def
  by (intro conjI allI impI; (rule assms; assumption))

lemma inv_snoc:
  assumes "ping_inv evs w" "ev \<noteq> PingInvalidated"
  shows "ping_inv (evs @ [ev]) w"
proof (rule ping_invI)
  note inv = ping_invD[OF assms(1)]
  show "ping_generation (ping_state w) = of_nat (invalidations (evs @ [ev]))"
    using inv(3) assms(2) by simp
  show "\<exists>n. led_at (evs @ [ev]) k f n \<and> n \<le> invalidations (evs @ [ev]) \<and> flight_generation (ping_flight_at (ping_state w) f) = of_nat n"
    if lead: "(k, f) \<in> set (ping_leaders w)" for k f
  proof -
    obtain n where "led_at evs k f n" "n \<le> invalidations evs" "flight_generation (ping_flight_at (ping_state w) f) = of_nat n"
      using inv(7)[OF lead] by blast
    then show ?thesis
      using led_at_snoc[of evs k f n ev] by (intro exI[of _ n]) simp
  qed
  show "\<exists>e. ping_at (ping_state w) x = e\<lparr>ping_key := k\<rparr> \<and> ping_published (evs @ [ev]) k e"
    if "mget (ping_entries (ping_state w)) k = Some x" for k x
    using inv(11)[OF that] published_snoc[OF _ assms(2)] by blast
qed (use ping_invD[OF assms(1)] in \<open>assumption | blast\<close>)+

lemma inv_frame:
  assumes "ping_inv evs w" "ping_ok c" "ping_inflight c = ping_inflight (ping_state w)" "ping_at c = ping_at (ping_state w)"
    "ping_generation c = ping_generation (ping_state w)" "length (ping_entries c) \<le> length (ping_entries (ping_state w))"
    "\<And>f. flight_generation (ping_flight_at c f) = flight_generation (ping_flight_at (ping_state w) f)"
    "\<And>f. ping_closings (ping_flight_at c f) = ping_closings (ping_flight_at (ping_state w) f)"
    "\<And>k y. mget (ping_entries c) k = Some y \<Longrightarrow> mget (ping_entries (ping_state w)) k = Some y"
  shows "ping_inv evs (w\<lparr>ping_state := c\<rparr>)"
proof -
  note inv = ping_invD[OF assms(1)]
  have "length (ping_entries c) \<le> pingCacheMaxEntries"
    using inv(2) assms(6) by (rule order_trans[rotated])
  then show ?thesis
    by (intro ping_invI)
      (simp_all add: assms(2-5,7,8) inv(3-7,9) assms(9)[THEN inv(10)] assms(9)[THEN inv(11)], blast intro: inv(8))
qed

lemma inv_lookup:
  assumes "ping_inv evs w" "ping_lookupLocked k now (ping_state w) = (c, r)"
  shows "ping_inv evs (w\<lparr>ping_state := c\<rparr>)"
  by (rule inv_frame[OF assms(1)])
    (simp_all add: lookup_ok(1-6)[OF ping_invD(1)[OF assms(1)] assms(2)] lookup_ok(7)[OF ping_invD(1)[OF assms(1)] assms(2)])

lemma inv_cached:
  assumes "ping_inv evs w" "cachedResponse k m now (ping_state w) = (c, r)"
  shows "ping_inv evs (w\<lparr>ping_state := c\<rparr>)"
proof -
  obtain r' where "ping_lookupLocked k now (ping_state w) = (c, r')"
    using assms(2) by (auto simp: cachedResponse_def split: prod.splits option.splits)
  then show ?thesis
    by (rule inv_lookup[OF assms(1)])
qed

lemma inv_joined:
  assumes "ping_inv evs w"
  shows "ping_inv evs (w\<lparr>ping_state := ping_on_flight g (\<lambda>fl. fl\<lparr>ping_waiters := n\<rparr>) (ping_state w)\<rparr>)"
  by (rule inv_frame[OF assms]) (use ping_invD(1)[OF assms] in \<open>simp_all add: ping_on_flight_def ping_ok_def\<close>)

lemma inv_led:
  assumes "ping_inv evs w" "mget (ping_inflight (ping_state w)) k = None"
  defines "f \<equiv> next_ping_flight w"
  shows "ping_inv (evs @ [PingAnswered k m t (PingLead f)])
    (w\<lparr>ping_state := ping_on_flight f (\<lambda>_. \<lparr>ping_closings = 0, flight_generation = ping_generation (ping_state w), ping_waiters = 0\<rparr>)
          ((ping_state w)\<lparr>ping_inflight := mput k f (ping_inflight (ping_state w))\<rparr>),
       ping_leaders := (k, f) # ping_leaders w, next_ping_flight := f + 1\<rparr>)"
    (is "ping_inv ?evs ?w")
proof -
  note inv = ping_invD[OF assms(1)]
  have fresh: "(k', f) \<notin> set (ping_leaders w)" "(k, f') \<notin> set (ping_leaders w)" for k' f'
    using inv(6)[of k' f] assms(2) inv(5)[of k f'] by (auto simp: f_def)
  have snoc: "ping_inv ?evs w"
    by (rule inv_snoc[OF assms(1)]) simp
  note inv' = ping_invD[OF snoc]
  have count: "invalidations ?evs = invalidations evs"
    by simp
  have flight: "ping_flight_at (ping_state ?w) g = (if g = f then \<lparr>ping_closings = 0, flight_generation = ping_generation (ping_state w), ping_waiters = 0\<rparr>
      else ping_flight_at (ping_state w) g)" for g
    by (simp add: ping_on_flight_def)
  have led: "\<exists>n. led_at ?evs k' g n \<and> n \<le> invalidations ?evs \<and> flight_generation (ping_flight_at (ping_state ?w) g) = of_nat n"
    if "(k', g) \<in> set (ping_leaders ?w)" for k' g
  proof (cases "g = f")
    case True
    then have "k' = k"
      using that fresh(1) by auto
    then show ?thesis
      using True led_at_new[of evs k m t f] inv(3) count unfolding flight by (intro exI[of _ "invalidations evs"]) simp
  next
    case False
    then show ?thesis
      using that inv'(7)[of k' g] unfolding flight by simp
  qed
  show ?thesis
  proof (rule ping_invI)
    show "ping_ok (ping_state ?w)"
      using inv(1) by (simp add: ping_ok_def ping_on_flight_def)
    show "(mget (ping_inflight (ping_state ?w)) k' = Some g) = ((k', g) \<in> set (ping_leaders ?w))" for k' g
      using inv(5)[of k' g] fresh(2) by (auto simp: ping_on_flight_def)
    show "g < next_ping_flight ?w" if "(k', g) \<in> set (ping_leaders ?w)" for k' g
      using that inv(6)[of k' g] by (auto simp: f_def)
    show "k'' = k'" if "(k', g) \<in> set (ping_leaders ?w)" "(k'', g) \<in> set (ping_leaders ?w)" for k' k'' g
      using that inv(8)[of k' g k''] fresh(1) by auto
    show "ping_closings (ping_flight_at (ping_state ?w) g) = (if \<exists>k. (k, g) \<in> set (ping_leaders ?w) then 0 else 1)"
      if "g < next_ping_flight ?w" for g
      using that inv(9)[of g] unfolding flight by (auto simp: f_def less_Suc_eq)
    show "\<exists>e. ping_at (ping_state ?w) x = e\<lparr>ping_key := k'\<rparr> \<and> ping_published ?evs k' e"
      if "mget (ping_entries (ping_state ?w)) k' = Some x" for k' x
      using that inv'(11)[of k' x] by (simp add: ping_on_flight_def)
  qed (use led inv fresh in \<open>simp_all add: ping_on_flight_def\<close>)
qed

lemma inv_begin:
  assumes "ping_inv evs w" "ping_begin k m now (next_ping_flight w) (ping_state w) = (c, a)"
  shows "ping_inv (evs @ [PingAnswered k m now a])
    (if a = PingLead (next_ping_flight w)
     then w\<lparr>ping_state := c, ping_leaders := (k, next_ping_flight w) # ping_leaders w, next_ping_flight := next_ping_flight w + 1\<rparr>
     else w\<lparr>ping_state := c\<rparr>)"
proof -
  obtain t r where t: "cachedResponse k m now (ping_state w) = (t, r)"
    by fastforce
  have inv: "ping_inv evs (w\<lparr>ping_state := t\<rparr>)"
    by (rule inv_cached[OF assms(1) t])
  show ?thesis
  proof (cases r)
    case (Some response)
    then have "a = PingReplay response" "c = t"
      using assms(2) t by (simp_all add: ping_begin_def)
    then show ?thesis
      using inv_snoc[OF inv] by simp
  next
    case None
    show ?thesis
    proof (cases "mget (ping_inflight t) k")
      case (Some g)
      then have c: "a = PingWait g" "c = ping_on_flight g (\<lambda>fl. fl\<lparr>ping_waiters := ping_waiters fl + 1\<rparr>) t"
        using assms(2) t None by (simp_all add: ping_begin_def)
      have "ping_inv evs (w\<lparr>ping_state := t\<rparr>\<lparr>ping_state := ping_on_flight g (\<lambda>fl. fl\<lparr>ping_waiters := ping_waiters (ping_flight_at t g) + 1\<rparr>) (ping_state (w\<lparr>ping_state := t\<rparr>))\<rparr>)"
        by (rule inv_joined[OF inv])
      then have "ping_inv evs (w\<lparr>ping_state := c\<rparr>)"
        by (simp add: c(2) ping_on_flight_def)
      then show ?thesis
        using c(1) inv_snoc by simp
    next
      case absent: None
      then have "a = PingLead (next_ping_flight w)"
        "c = ping_on_flight (next_ping_flight w) (\<lambda>_. \<lparr>ping_closings = 0, flight_generation = ping_generation t, ping_waiters = 0\<rparr>)
               (t\<lparr>ping_inflight := mput k (next_ping_flight w) (ping_inflight t)\<rparr>)"
        using assms(2) t None by (simp_all add: ping_begin_def)
      then show ?thesis
        using inv_led[OF inv, of k m now] absent by simp
    qed
  qed
qed

lemma inv_invalidate:
  assumes "ping_inv evs w"
  shows "ping_inv (evs @ [PingInvalidated]) (w\<lparr>ping_state := ping_invalidate (ping_state w)\<rparr>)"
proof -
  note inv = ping_invD[OF assms]
  note same = invalidate_ok[OF inv(1)]
  have "\<exists>n. led_at (evs @ [PingInvalidated]) k f n \<and> n \<le> invalidations (evs @ [PingInvalidated]) \<and>
      flight_generation (ping_flight_at (ping_state w) f) = of_nat n" if lead: "(k, f) \<in> set (ping_leaders w)" for k f
  proof -
    obtain n where "led_at evs k f n" "n \<le> invalidations evs" "flight_generation (ping_flight_at (ping_state w) f) = of_nat n"
      using inv(7)[OF lead] by blast
    then show ?thesis
      using led_at_snoc[of evs k f n] by (intro exI[of _ n]) simp
  qed
  then show ?thesis
    by (intro ping_invI) (simp_all add: same inv(3-6,9), blast intro: inv(8))
qed

lemma finish_returns:
  assumes "ping_ok c" "x \<notin> set (ping_lru c)" "mget (ping_inflight c) k = Some f" "length (ping_entries c) \<le> pingCacheMaxEntries"
  obtains t where "ping_finishFlight k f x entry now c = Some t" "ping_ok t" "length (ping_entries t) \<le> pingCacheMaxEntries"
    "ping_inflight t = mdel k (ping_inflight c)" "ping_generation t = ping_generation c"
    "\<And>g. ping_flight_at t g = (if g = f then (ping_flight_at c f)\<lparr>ping_closings := ping_closings (ping_flight_at c f) + 1\<rparr> else ping_flight_at c g)"
    "\<And>k' y. mget (ping_entries t) k' = Some y \<Longrightarrow> mget (ping_entries c) k' = Some y \<and> ping_at t y = ping_at c y \<or>
       k' = k \<and> y = x \<and> (\<exists>e. entry = Some e \<and> ping_at t x = e\<lparr>ping_key := k\<rparr>) \<and>
       flight_generation (ping_flight_at c f) = ping_generation c"
proof -
  define closed where "closed t = ping_on_flight f (\<lambda>fl. fl\<lparr>ping_closings := ping_closings fl + 1\<rparr>)
      (t\<lparr>ping_inflight := mdel k (ping_inflight t)\<rparr>)" for t
  have closed: "ping_ok t \<Longrightarrow> ping_ok (closed t)" "ping_entries (closed t) = ping_entries t" "ping_at (closed t) = ping_at t"
    "ping_inflight (closed t) = mdel k (ping_inflight t)" "ping_generation (closed t) = ping_generation t"
    "ping_flight_at (closed t) g = (if g = f then (ping_flight_at t f)\<lparr>ping_closings := ping_closings (ping_flight_at t f) + 1\<rparr> else ping_flight_at t g)"
    for t g
    by (simp_all add: closed_def ping_on_flight_def ping_ok_def)
  show ?thesis
  proof (cases "\<exists>e. entry = Some e \<and> flight_generation (ping_flight_at c f) = ping_generation c \<and> now < ping_expiresAt e")
    case True
    then obtain e where e: "entry = Some e" "flight_generation (ping_flight_at c f) = ping_generation c" "now < ping_expiresAt e"
      by blast
    from publish_returns[OF assms(1,2), of k e] obtain t where t: "ping_publish k x e c = Some t" "ping_ok t"
      "length (ping_entries t) \<le> pingCacheMaxEntries" "ping_inflight t = ping_inflight c" "ping_flight_at t = ping_flight_at c"
      "ping_generation t = ping_generation c" "ping_at t = (ping_at c)(x := e\<lparr>ping_key := k\<rparr>)"
      "\<forall>k' y. mget (ping_entries t) k' = Some y \<longrightarrow> k' = k \<and> y = x \<or> mget (ping_entries c) k' = Some y \<and> y \<noteq> x"
      by blast
    have finish: "ping_finishFlight k f x entry now c = Some (closed t)"
      using e t(1) assms(3) by (simp add: ping_finishFlight_def closed_def)
    have entries: "mget (ping_entries c) k' = Some y \<and> ping_at (closed t) y = ping_at c y \<or>
       k' = k \<and> y = x \<and> (\<exists>e. entry = Some e \<and> ping_at (closed t) x = e\<lparr>ping_key := k\<rparr>) \<and>
       flight_generation (ping_flight_at c f) = ping_generation c" if "mget (ping_entries (closed t)) k' = Some y" for k' y
    proof -
      have "k' = k \<and> y = x \<or> mget (ping_entries c) k' = Some y \<and> y \<noteq> x"
        using t(8) that by (simp add: closed(2))
      then show ?thesis
        using e(1,2) by (auto simp: closed(3) t(7))
    qed
    show ?thesis
      by (rule that[OF finish]) (use t closed(1) entries in \<open>simp_all add: closed(2-6)\<close>)
  next
    case False
    then have finish: "ping_finishFlight k f x entry now c = Some (closed c)"
      using assms(3) by (auto simp: ping_finishFlight_def closed_def split: option.splits)
    show ?thesis
      by (rule that[OF finish]) (use assms closed(1) in \<open>simp_all add: closed(2-6)\<close>)
  qed
qed

lemma inv_end:
  assumes "ping_inv evs w" "(k, f) \<in> set (ping_leaders w)" "invalidations evs < 2 ^ 64"
    "ping_finishFlight k f (next_ping_entry w) entry now (ping_state w) = Some c"
  shows "ping_inv (evs @ [PingEnded k f now entry])
    (w\<lparr>ping_state := c, ping_leaders := remove1 (k, f) (ping_leaders w), next_ping_entry := next_ping_entry w + 1\<rparr>)"
    (is "ping_inv ?evs ?w")
proof -
  note inv = ping_invD[OF assms(1)]
  have "next_ping_entry w \<notin> set (ping_lru (ping_state w))"
    using ping_okD(5)[OF inv(1)] inv(10) by (metis less_irrefl)
  from finish_returns[OF inv(1) this inv(5)[THEN iffD2, OF assms(2)] inv(2), of entry now]
  have c: "ping_ok c" "length (ping_entries c) \<le> pingCacheMaxEntries"
    "ping_inflight c = mdel k (ping_inflight (ping_state w))" "ping_generation c = ping_generation (ping_state w)"
    "\<And>g. ping_flight_at c g = (if g = f then (ping_flight_at (ping_state w) f)\<lparr>ping_closings := ping_closings (ping_flight_at (ping_state w) f) + 1\<rparr>
        else ping_flight_at (ping_state w) g)"
    "\<And>k' y. mget (ping_entries c) k' = Some y \<Longrightarrow> mget (ping_entries (ping_state w)) k' = Some y \<and> ping_at c y = ping_at (ping_state w) y \<or>
       k' = k \<and> y = next_ping_entry w \<and> (\<exists>e. entry = Some e \<and> ping_at c (next_ping_entry w) = e\<lparr>ping_key := k\<rparr>) \<and>
       flight_generation (ping_flight_at (ping_state w) f) = ping_generation (ping_state w)"
    by (metis assms(4) option.inject)+
  have snoc: "ping_inv ?evs w"
    by (rule inv_snoc[OF assms(1)]) simp
  note inv' = ping_invD[OF snoc]
  have leaders: "(k', g) \<in> set (remove1 (k, f) (ping_leaders w)) \<longleftrightarrow> (k', g) \<in> set (ping_leaders w) \<and> (k', g) \<noteq> (k, f)" for k' g
    using inv(4) by auto
  have rest: "(k', g) \<in> set (ping_leaders w)" "g \<noteq> f" if "(k', g) \<in> set (ping_leaders ?w)" for k' g
    using that leaders inv(8)[OF assms(2), of k'] by auto
  have published: "ping_published ?evs k e"
    if new: "entry = Some e" "flight_generation (ping_flight_at (ping_state w) f) = ping_generation (ping_state w)" for e
  proof -
    obtain n where n: "led_at evs k f n" "n \<le> invalidations evs" "flight_generation (ping_flight_at (ping_state w) f) = of_nat n"
      using inv(7)[OF assms(2)] by blast
    then have "(of_nat n :: 64 word) = of_nat (invalidations evs)"
      using inv(3) new(2) by simp
    then have "n = invalidations evs"
      using n(2) assms(3) by (simp add: word_of_nat_eq_iff take_bit_nat_eq_self)
    then show ?thesis
      using published_new[OF n(1)] new(1) by simp
  qed
  show ?thesis
  proof (rule ping_invI)
    show "(mget (ping_inflight (ping_state ?w)) k' = Some g) = ((k', g) \<in> set (ping_leaders ?w))" for k' g
      using leaders inv(5)[of k' g] inv(5)[of k f] assms(2) by (auto simp: c(3))
    show "k'' = k'" if "(k', g) \<in> set (ping_leaders ?w)" "(k'', g) \<in> set (ping_leaders ?w)" for k' k'' g
      using inv(8) rest(1)[OF that(1)] rest(1)[OF that(2)] by blast
    show "\<exists>n. led_at ?evs k' g n \<and> n \<le> invalidations ?evs \<and> flight_generation (ping_flight_at (ping_state ?w) g) = of_nat n"
      if "(k', g) \<in> set (ping_leaders ?w)" for k' g
      using inv'(7)[OF rest(1)[OF that]] rest(2)[OF that] by (simp add: c(5))
    show "ping_closings (ping_flight_at (ping_state ?w) g) = (if \<exists>k. (k, g) \<in> set (ping_leaders ?w) then 0 else 1)"
      if "g < next_ping_flight ?w" for g
    proof (cases "g = f")
      case True
      then have "\<nexists>k. (k, g) \<in> set (ping_leaders ?w)"
        using rest(2) by blast
      then show ?thesis
        using True inv(9)[OF inv(6)[OF assms(2)]] assms(2) by (auto simp: c(5))
    next
      case False
      then have "(\<exists>k. (k, g) \<in> set (ping_leaders ?w)) \<longleftrightarrow> (\<exists>k. (k, g) \<in> set (ping_leaders w))"
        using leaders by auto
      then show ?thesis
        using False inv(9)[of g] that by (simp add: c(5))
    qed
    show "\<exists>e. ping_at (ping_state ?w) x = e\<lparr>ping_key := k'\<rparr> \<and> ping_published ?evs k' e"
      if "mget (ping_entries (ping_state ?w)) k' = Some x" for k' x
      using c(6)[of k' x] that inv'(11)[of k' x] published by auto
    show "x < next_ping_entry ?w" if "mget (ping_entries (ping_state ?w)) k' = Some x" for k' x
      using c(6)[of k' x] that inv(10)[of k' x] by auto
    show "g < next_ping_flight ?w" if "(k', g) \<in> set (ping_leaders ?w)" for k' g
      using inv(6)[OF rest(1)[OF that]] by simp
    show "ping_generation (ping_state ?w) = of_nat (invalidations ?evs)"
      using c(4) inv(3) by simp
    show "ping_ok (ping_state ?w)" "length (ping_entries (ping_state ?w)) \<le> pingCacheMaxEntries" "distinct (ping_leaders ?w)"
      using c(1,2) inv(4) by simp_all
  qed
qed

lemma inv_step:
  assumes "ping_inv evs w" "ping_step w ev w'" "invalidations evs < 2 ^ 64"
  shows "ping_inv (evs @ [ev]) w'"
  using assms(2)
proof cases
  case (Hit k m now c r)
  then show ?thesis
    using inv_snoc[OF inv_cached[OF assms(1)]] by simp
next
  case (Miss k m now c)
  then show ?thesis
    using inv_snoc[OF inv_cached[OF assms(1)]] by simp
next
  case (Begin k m now c a)
  then show ?thesis
    using inv_begin[OF assms(1)] by simp
next
  case (Resume flight_done cancelled k m now c a)
  have "ping_inv evs (w\<lparr>ping_state := c\<rparr>)"
  proof (cases flight_done)
    case True
    then show ?thesis
      using Resume inv_cached[OF assms(1)] by (auto simp: ping_resume_def split: prod.splits option.splits)
  next
    case False
    then have "c = ping_state w"
      using Resume by (simp add: ping_resume_def)
    then show ?thesis
      using assms(1) by simp
  qed
  then show ?thesis
    using Resume inv_snoc by simp
next
  case (End k f entry now c)
  then show ?thesis
    using inv_end[OF assms(1) _ assms(3)] by simp
next
  case Invalidate
  then show ?thesis
    using inv_invalidate[OF assms(1)] by simp
qed

end
