(* ===== verification/Ping_Properties.thy ===== *)
theory Ping_Properties
  imports Ping_Safety
begin

text \<open>
  The properties of the ping cache: what a request is served, the bounds of the cache with the waking of those who
  wait, and the body of a response that passes through the cache.
\<close>

section \<open>All runs\<close>

definition ping_world_init :: "pingCache \<Rightarrow> ping_world" where
  "ping_world_init c = \<lparr>ping_state = c, ping_leaders = [], next_ping_entry = 0, next_ping_flight = 0\<rparr>"

lemma init_inv:
  assumes "newPingCache en fl random sid primary = Some c"
  shows "ping_inv [] (ping_world_init c)"
proof -
  have "ping_entries c = []" "ping_lru c = []" "ping_inflight c = []" "ping_generation c = 0"
    using assms by (auto simp: newPingCache_def Let_def split: if_splits)
  then show ?thesis
    by (intro ping_invI) (simp_all add: ping_world_init_def ping_ok_def)
qed

lemma run_inv:
  assumes "ping_run w0 evs w" "ping_inv [] w0" "invalidations evs < 2 ^ 64"
  shows "ping_inv evs w"
  using assms(1,3)
proof induction
  case Start
  then show ?case
    using assms(2) by simp
next
  case (Step evs w ev w')
  then show ?case
    using inv_step[of evs w ev w'] by simp
qed

inductive_cases run_snocE: "ping_run w0 (evs @ [ev]) w"

lemma run_snoc: "ping_run w0 (evs @ [ev]) w \<Longrightarrow> \<exists>v. ping_run w0 evs v \<and> ping_step v ev w"
  by (erule run_snocE) auto

section \<open>A run\<close>

text \<open>One request leads and its answer is published; a second one is served from it.\<close>

definition demo_ping_url :: url where
  "demo_ping_url = empty_url\<lparr>scheme := ''http'', host := ''u:1''\<rparr>"

definition demo_ping_key :: pingCacheKey where
  "demo_ping_key = \<lparr>pkey_siteID = 1, pkey_authority = ''http://u:1'', pkey_route = pingCacheRouteSystem, pkey_method = ''GET'',
     pkey_forceQuery = False, representationQueryDigest = [], representationHeadersDigest = [], credentialIdentityDigest = []\<rparr>"

definition demo_ping_entry :: pingCacheEntry where
  "demo_ping_entry = \<lparr>ping_key = demo_ping_key, ping_header = [], ping_body = ''Emby'', ping_length = 4, ping_responseAt = 2,
     ping_initialAge = 0, ping_expiresAt = 9\<rparr>"

definition demo_ping :: pingCache where
  "demo_ping = \<lparr>ping_siteID = 1, ping_authority = ''http://u:1'', ping_credentialKey = ''k'', ping_generation = 0, ping_entries = [],
     ping_lru = [], ping_inflight = [], ping_at = (\<lambda>_. demo_ping_entry),
     ping_flight_at = (\<lambda>_. \<lparr>ping_closings = 0, flight_generation = 0, ping_waiters = 0\<rparr>)\<rparr>"

lemma demo_ping_new: "newPingCache (ping_at demo_ping) (ping_flight_at demo_ping) (Some ''k'') 1 demo_ping_url = Some demo_ping"
proof -
  have "redirectHostKey demo_ping_url = ''http://u:1''"
    by code_simp
  then show ?thesis
    by (simp add: newPingCache_def demo_ping_def)
qed

definition demo_ping_led :: pingCache where
  "demo_ping_led = demo_ping\<lparr>ping_inflight := [(demo_ping_key, 0)]\<rparr>"

definition demo_ping_stored :: pingCache where
  "demo_ping_stored = demo_ping\<lparr>ping_entries := [(demo_ping_key, 0)], ping_lru := [0],
     ping_flight_at := (ping_flight_at demo_ping)(0 := \<lparr>ping_closings = 1, flight_generation = 0, ping_waiters = 0\<rparr>)\<rparr>"

definition demo_ping_events :: "ping_event list" where
  "demo_ping_events = [PingAnswered demo_ping_key ''GET'' 1 (PingLead 0), PingEnded demo_ping_key 0 2 (Some demo_ping_entry)]"

definition demo_ping_world :: ping_world where
  "demo_ping_world = \<lparr>ping_state = demo_ping_stored, ping_leaders = [], next_ping_entry = 1, next_ping_flight = 1\<rparr>"

lemma demo_ping_stored_run: "ping_run (ping_world_init demo_ping) demo_ping_events demo_ping_world"
proof -
  let ?led = "\<lparr>ping_state = demo_ping_led, ping_leaders = [(demo_ping_key, 0)], next_ping_entry = 0, next_ping_flight = 1\<rparr>"
  have b: "ping_begin demo_ping_key ''GET'' 1 (next_ping_flight (ping_world_init demo_ping)) (ping_state (ping_world_init demo_ping)) =
      (demo_ping_led, PingLead 0)"
    by (simp add: ping_begin_def cachedResponse_def ping_lookupLocked_def ping_world_init_def demo_ping_def demo_ping_led_def
        ping_on_flight_def fun_upd_def)
  have "ping_step (ping_world_init demo_ping) (PingAnswered demo_ping_key ''GET'' 1 (PingLead 0)) ?led"
    using ping_step.Begin[OF b] by (simp add: ping_world_init_def)
  from ping_run.Step[OF ping_run.Start this]
  have run: "ping_run (ping_world_init demo_ping) [PingAnswered demo_ping_key ''GET'' 1 (PingLead 0)] ?led"
    by simp
  have "demo_ping_entry\<lparr>ping_key := demo_ping_key\<rparr> = demo_ping_entry"
    by (simp add: demo_ping_entry_def)
  then have e: "ping_finishFlight demo_ping_key 0 (next_ping_entry ?led) (Some demo_ping_entry) 2 (ping_state ?led) = Some demo_ping_stored"
    by (simp add: ping_finishFlight_def demo_ping_led_def demo_ping_def demo_ping_stored_def ping_publish_def ping_evict.simps
        pingCacheMaxEntries_def ping_on_flight_def fun_upd_def)
      (simp add: demo_ping_entry_def cong: if_cong)
  have "ping_step ?led (PingEnded demo_ping_key 0 2 (Some demo_ping_entry)) demo_ping_world"
    using ping_step.End[OF _ e] by (simp add: demo_ping_world_def)
  from ping_run.Step[OF run this] show ?thesis
    by (simp add: demo_ping_events_def)
qed

lemma demo_ping_served: "ping_run (ping_world_init demo_ping)
    (demo_ping_events @ [PingAnswered demo_ping_key ''GET'' 3 (PingReplay (pingCacheResponseFromEntry ''GET'' demo_ping_entry 3))])
    demo_ping_world"
proof -
  have "cachedResponse demo_ping_key ''GET'' 3 (ping_state demo_ping_world) =
      (demo_ping_stored, Some (pingCacheResponseFromEntry ''GET'' demo_ping_entry 3))"
    by (simp add: cachedResponse_def ping_lookupLocked_def demo_ping_world_def demo_ping_stored_def demo_ping_def)
      (simp add: demo_ping_entry_def)
  from ping_step.Hit[OF this] show ?thesis
    using ping_run.Step[OF demo_ping_stored_run] by (simp add: demo_ping_world_def)
qed

lemma demo_ping_invalidations: "invalidations demo_ping_events < 2 ^ 64"
  by (simp add: demo_ping_events_def)

lemma cached_replay:
  assumes "ping_inv evs w" "cachedResponse k m now (ping_state w) = (c, Some response)"
  shows "\<exists>e. ping_published evs k e \<and> now < ping_expiresAt e \<and> response = pingCacheResponseFromEntry m e now"
proof -
  obtain x where x: "ping_lookupLocked k now (ping_state w) = (c, Some x)" "response = pingCacheResponseFromEntry m (ping_at c x) now"
    using assms(2) by (auto simp: cachedResponse_def split: prod.splits option.splits)
  note look = lookup_ok[OF ping_invD(1)[OF assms(1)] x(1)]
  have entry: "mget (ping_entries (ping_state w)) k = Some x" "now < ping_expiresAt (ping_at (ping_state w) x)"
    using look(7,8) by blast+
  obtain e where "ping_at (ping_state w) x = e\<lparr>ping_key := k\<rparr>" "ping_published evs k e"
    using ping_invD(11)[OF assms(1) entry(1)] by blast
  then show ?thesis
    using entry(2) x(2) look(3) by (auto simp: pingCacheResponseFromEntry_def)
qed

text \<open>C22. A ping is answered from the cache only with what one flight published for exactly its key, led and ended
  since the last invalidation, and only before that answer expires. The 64-bit generation must not have wrapped
  around, which takes that many invalidations.\<close>

theorem ping_served_is_current:
  assumes "newPingCache en fl random sid primary = Some c"
    and "ping_run (ping_world_init c) (evs @ [PingAnswered k m now (PingReplay response)]) w"
    and "invalidations evs < 2 ^ 64"
  shows "\<exists>e. ping_published evs k e \<and> now < ping_expiresAt e \<and> response = pingCacheResponseFromEntry m e now"
proof -
  obtain v where v: "ping_run (ping_world_init c) evs v" "ping_step v (PingAnswered k m now (PingReplay response)) w"
    using run_snoc[OF assms(2)] by blast
  have inv: "ping_inv evs v"
    by (rule run_inv[OF v(1) init_inv[OF assms(1)] assms(3)])
  from v(2) have "\<exists>d. cachedResponse k m now (ping_state v) = (d, Some response)"
    by cases (auto simp: ping_begin_def ping_resume_def split: prod.splits option.splits if_splits)
  then show ?thesis
    using cached_replay[OF inv] by blast
qed

theorem ping_served_is_current_witness:
  "\<exists>e. ping_published demo_ping_events demo_ping_key e \<and> 3 < ping_expiresAt e \<and>
    pingCacheResponseFromEntry ''GET'' demo_ping_entry 3 = pingCacheResponseFromEntry ''GET'' e 3"
  by (rule ping_served_is_current[OF demo_ping_new demo_ping_served demo_ping_invalidations])

text \<open>C24. The ping cache never holds more than 256 answers, whatever requests, ends of flights and invalidations
  come in what order; every flight that can be joined has a leader still at work, its channel is closed exactly once, when
  that leader ends, and the end of a leader always returns.\<close>

theorem ping_cache_bounded_and_wakes:
  assumes "newPingCache en fl random sid primary = Some c"
    and "ping_run (ping_world_init c) evs w" and "invalidations evs < 2 ^ 64"
  shows "length (ping_entries (ping_state w)) \<le> 256 \<and> length (ping_lru (ping_state w)) = length (ping_entries (ping_state w)) \<and>
    (\<forall>k f. mget (ping_inflight (ping_state w)) k = Some f \<longleftrightarrow> (k, f) \<in> set (ping_leaders w)) \<and>
    (\<forall>f<next_ping_flight w. ping_closings (ping_flight_at (ping_state w) f) = (if \<exists>k. (k, f) \<in> set (ping_leaders w) then 0 else 1)) \<and>
    (\<forall>(k, f)\<in>set (ping_leaders w). \<forall>entry now. \<exists>d. ping_finishFlight k f (next_ping_entry w) entry now (ping_state w) = Some d)"
proof -
  have inv: "ping_inv evs w"
    by (rule run_inv[OF assms(2) init_inv[OF assms(1)] assms(3)])
  note I = ping_invD[OF inv]
  have "next_ping_entry w \<notin> set (ping_lru (ping_state w))"
    using ping_okD(5)[OF I(1)] I(10) by (metis less_irrefl)
  then have "\<exists>d. ping_finishFlight k f (next_ping_entry w) entry now (ping_state w) = Some d"
    if "(k, f) \<in> set (ping_leaders w)" for k f entry now
    by (rule finish_returns[OF I(1) _ I(5)[THEN iffD2, OF that] I(2), of "next_ping_entry w" entry now]) blast+
  then have returns: "\<forall>(k, f)\<in>set (ping_leaders w). \<forall>entry now. \<exists>d. ping_finishFlight k f (next_ping_entry w) entry now (ping_state w) = Some d"
    by fast
  have size: "length (ping_entries (ping_state w)) \<le> 256"
    using I(2) by (simp add: pingCacheMaxEntries_def)
  have flights: "\<forall>k f. mget (ping_inflight (ping_state w)) k = Some f \<longleftrightarrow> (k, f) \<in> set (ping_leaders w)"
    by (intro allI I(5))
  have closed: "\<forall>f<next_ping_flight w. ping_closings (ping_flight_at (ping_state w) f) = (if \<exists>k. (k, f) \<in> set (ping_leaders w) then 0 else 1)"
    by (intro allI impI I(9))
  show ?thesis
    by (intro conjI size ping_okD(4)[OF I(1)] flights closed returns)
qed

theorem ping_cache_bounded_and_wakes_witness:
  "length (ping_entries (ping_state demo_ping_world)) \<le> 256 \<and>
   ping_closings (ping_flight_at (ping_state demo_ping_world) 0) = 1"
  using ping_cache_bounded_and_wakes[OF demo_ping_new demo_ping_stored_run demo_ping_invalidations]
  by (simp add: demo_ping_world_def)

section \<open>Bodies\<close>

text \<open>A client that reads with a buffer of some bytes until it gets an error.\<close>

function ping_drain :: "nat \<Rightarrow> string \<times> string option \<Rightarrow> string \<times> string option" where
  "ping_drain n b =
     (case pingCacheFailedBody_Read (Suc n) b of
        ((d, Some e), _) \<Rightarrow> (d, Some e)
      | ((d, None), b') \<Rightarrow> (let (r, e) = ping_drain n b' in (d @ r, e)))"
  by pat_completeness auto
termination
  by (relation "measure (\<lambda>(n, b). length (fst b))")
    (auto simp: pingCacheFailedBody_Read_def split: prod.splits if_splits option.splits)

declare ping_drain.simps [simp del]

lemma drain_failed: "ping_drain n (prefix, Some e) = (prefix, Some e)"
proof (induction "length prefix" arbitrary: prefix rule: less_induct)
  case less
  show ?case
  proof (cases prefix)
    case Nil
    then show ?thesis
      by (simp add: ping_drain.simps[of n "([], Some e)"] pingCacheFailedBody_Read_def)
  next
    case (Cons a rest)
    then have "ping_drain n (drop (Suc n) prefix, Some e) = (drop (Suc n) prefix, Some e)"
      using less by simp
    then show ?thesis
      using Cons by (simp add: ping_drain.simps[of n "(a # rest, Some e)"] pingCacheFailedBody_Read_def)
  qed
qed

text \<open>C23. The cache never changes what a client reads: the prepared response has the upstream's status and yields
  the same bytes and then the same error or end as the upstream's body, also when it was too large to keep or failed
  halfway. What is kept is the whole body, at most 64 KiB of it, read without an error from a response with status 200,
  and it expires after it arrived and within two seconds.\<close>

theorem ping_bodies_pass_unchanged:
  assumes "prepareResponse parse_time rq_method now zero resp = (entry, out)"
  shows "pr_status out = pr_status resp \<and>
    stream_bytes (body_stream (pr_body out)) = stream_bytes (body_stream (pr_body resp)) \<and>
    stream_error (body_stream (pr_body out)) = stream_error (body_stream (pr_body resp)) \<and>
    (\<forall>s d e n. pr_body resp = StreamBody s \<and> pr_body out = FailedBody d (Some e) \<longrightarrow> ping_drain n (d, Some e) = (stream_bytes s, stream_error s)) \<and>
    (\<forall>e. entry = Some e \<longrightarrow> pr_status resp = 200 \<and> ping_body e = stream_bytes (body_stream (pr_body resp)) \<and>
       stream_error (body_stream (pr_body resp)) = None \<and> length (ping_body e) \<le> 65536 \<and>
       now < ping_expiresAt e \<and> ping_expiresAt e \<le> now + 2 * second)"
proof -
  define s where "s = body_stream (pr_body resp)"
  define body where "body = fst (read_limited (pingCacheMaxBodyBytes + 1) s)"
  define failure where "failure = snd (read_limited (pingCacheMaxBodyBytes + 1) s)"
  have read: "read_limited (pingCacheMaxBodyBytes + 1) s = (body, failure)"
    by (simp add: body_def failure_def)
  have failed: "body = stream_bytes s \<and> failure = stream_error s" if "failure \<noteq> None \<or> length body \<le> pingCacheMaxBodyBytes"
    using that read by (auto simp: read_limited_def split: if_splits)
  have prefix: "body @ drop (length body) (stream_bytes s) = stream_bytes s"
    using read by (auto simp: read_limited_def split: if_splits)
  note defs = assms[unfolded prepareResponse_def Let_def, folded s_def, unfolded read prod.case]
  show ?thesis
  proof (cases "pingCacheResponseHeadersSafe resp rq_method")
    case False
    then show ?thesis
      using defs by auto
  next
    case safe: True
    show ?thesis
    proof (cases "failure \<noteq> None")
      case True
      then have "entry = None" "out = resp\<lparr>pr_body := FailedBody body failure\<rparr>"
        using defs safe by simp_all
      then show ?thesis
        using failed True by (auto simp: body_stream_def drain_failed s_def split: ping_response_body.splits)
    next
      case ok: False
      show ?thesis
      proof (cases "pingCacheMaxBodyBytes < length body")
        case True
        then have "entry = None" "out = resp\<lparr>pr_body := JoinedBody body (s\<lparr>stream_bytes := drop (length body) (stream_bytes s)\<rparr>)\<rparr>"
          using defs safe ok by simp_all
        then show ?thesis
          using prefix by (simp add: body_stream_def s_def[unfolded body_stream_def])
      next
        case False
        then have whole: "body = stream_bytes s" "stream_error s = None"
          using failed ok by simp_all
        have out: "pr_body out = BytesBody body" "pr_status out = pr_status resp"
          using defs safe ok False by (auto split: if_splits option.splits prod.splits)
        have "pr_status resp = 200"
          using safe by (simp add: pingCacheResponseHeadersSafe_def split: if_splits)
        moreover have "ping_body e = body \<and> now < ping_expiresAt e \<and> ping_expiresAt e \<le> now + 2 * second" if stored: "entry = Some e" for e
        proof -
          obtain expires age where f: "cacheResponseFreshness parse_time (pr_header out) now pingCacheTTL = Some (expires, age)"
              "ping_body e = body" "ping_expiresAt e = expires"
            using defs safe ok False stored by (auto split: if_splits option.splits prod.splits)
          then show ?thesis
            using cacheResponseFreshness_facts[OF f(1)] by (metis pingCacheTTL_def)
        qed
        ultimately show ?thesis
          using out whole False by (auto simp: s_def[symmetric] pingCacheMaxBodyBytes_def) (simp_all add: body_stream_def)
      qed
    qed
  qed
qed

text \<open>An answer that is read to its end, and one whose body fails after two bytes.\<close>

definition demo_ping_response :: "string option \<Rightarrow> ping_response" where
  "demo_ping_response failure = \<lparr>pr_status = 200, pr_header = [], pr_trailer = [], pr_length = -1,
     pr_body = StreamBody \<lparr>stream_bytes = ''Em'', stream_error = failure, stream_close_fails = False\<rparr>\<rparr>"

lemma demo_ping_failed:
  "prepareResponse (\<lambda>_. None) ''GET'' 2 demo_ping_key (demo_ping_response (Some ''reset'')) =
    (None, (demo_ping_response (Some ''reset''))\<lparr>pr_body := FailedBody ''Em'' (Some ''reset'')\<rparr>)"
proof -
  have "pingCacheResponseHeadersSafe (demo_ping_response f) ''GET''" for f
    by (simp add: pingCacheResponseHeadersSafe_def demo_ping_response_def cacheHeaderPresent_def pingCacheVarySafe_def cacheHeaderValues_def
        parseCacheControlDirectives_def cacheDirectivePresent_def cachePragmaNoCache_def)
  then show ?thesis
    by (simp add: prepareResponse_def read_limited_def body_stream_def demo_ping_response_def pingCacheMaxBodyBytes_def)
qed

theorem ping_bodies_pass_unchanged_witness:
  "\<forall>n. ping_drain n (''Em'', Some ''reset'') = (''Em'', Some ''reset'')"
  using ping_bodies_pass_unchanged[OF demo_ping_failed] by (simp add: demo_ping_response_def body_stream_def)

end
