(* ===== verification/Spec2Isabelle.thy ===== *)
theory Spec2Isabelle
  imports Limit_Listener Failover_Transport Metered_IO Dynamic_Capability Dynamic_Runtime Redirect_Resources Progress_Sites Image_Properties Image_Key Ping_Properties
begin

text \<open>
  Meridian (\<open>src/cmd/meridian\<close>) is a reverse proxy for Emby media servers with an administration
  panel. A site is a listener that forwards requests to an upstream with backup lines, meters and limits their
  traffic, rewrites the client's identity, and follows the redirects and the documents of the upstream to
  media hosts that nobody configured, after checking and pinning every such host. Reports of playback progress are
  coalesced, and pictures and the answers to pings are cached on the way. This development
  models the logic of that path in Isabelle/HOL and proves what makes it correct.

  \<^bold>\<open>Conventions.\<close> A Go \<open>int64\<close> is an \<open>int\<close> with its range written out
  (\<open>in_i64\<close>, \<open>sat_add\<close>) where the code relies on it, an address is a 32 or 128 bit word, a
  string is a list of bytes, a time is a number of nanoseconds with Go's zero time as \<open>0\<close>. A Go map is
  an association list whose order stands for the unspecified order of iteration. An error is \<open>None\<close>, an
  \<open>Inl\<close>, a reason code or a constructor of a result type. Mutexes make the operations on shared state
  atomic; the interleavings of goroutines are the step relations, closed under every order of steps. Pointers
  that are compared (an authority entry, a lookup) are numbers into explicit tables.

  \<^bold>\<open>Theories\<close>, in the order of their imports, with the files of \<open>src/cmd/meridian\<close> they model:

  \<^item> \<open>Prelude\<close>: 64-bit integers, time, Go maps, buffered channels used as semaphores and the locale
    \<open>permit_pool\<close> of their contract. \<open>Go_Strings\<close>, \<open>Url\<close>, \<open>Ip_Address\<close>: the
    parts of \<open>strings\<close>, \<open>strconv\<close>, \<open>net/url\<close>, \<open>net\<close> and \<open>net/netip\<close> the code
    calls, with their round trips; \<open>Url\<close> also has the joining of URLs and the authority keys of
    \<open>site_routing.go\<close>.
  \<^item> \<open>Limit_Listener\<close> (\<open>limit_listener.go\<close>): the listener that bounds the accepted connections.
  \<^item> \<open>Failover_State\<close>, \<open>Failover_Transport\<close> (\<open>upstream_failover.go\<close>): which line is
    tried first, the cooldown and the recovery probe, and the round tripper that walks the lines. The state's
    contract is the locale \<open>Failover_Transport\<close> builds on.
  \<^item> \<open>Traffic_Accounting\<close>, \<open>Traffic_Store\<close>, \<open>Traffic_Instance\<close>, \<open>Traffic_Quota\<close>,
    \<open>Metered_IO\<close> (\<open>traffic_*.go\<close>, \<open>request_traffic_meter.go\<close>, \<open>proxy_lifecycle.go\<close>,
    \<open>proxy_io.go\<close>): billing cycles, the minute tables, the meters of requests and their flush, the quota
    with its reservations, and the writers that charge and pace what they send.
  \<^item> \<open>Dynamic_Authority\<close>, \<open>Dynamic_Capability\<close> (\<open>dynamic_authority.go\<close>,
    \<open>dynamic_runtime_state.go\<close>): the registry of discovered hosts with reservations, leases and rate limits,
    and the cache of the capabilities that stand for discovered URLs.
  \<^item> \<open>Ingress\<close> (\<open>site_routing.go\<close>): host, path and port ingress, the mounting and unmounting of
    paths, redirects and cookies of a mounted site, the classification of requests.
  \<^item> \<open>Dynamic_Network\<close>, \<open>Dynamic_Policy\<close> (\<open>dynamic_network.go\<close>, \<open>dynamic_policy.go\<close>,
    \<open>dynamic_compatibility.go\<close>, \<open>compatibility_helpers.go\<close>): which URLs, hosts and addresses a
    discovered target may have, the pinned dialer, the profiles and the stored policy of a site.
  \<^item> \<open>Emby_Authorization\<close>, \<open>Site_Config\<close>, \<open>Client_Headers\<close>, \<open>Upstream_Headers\<close>
    (\<open>proxy_authorization.go\<close>, \<open>site_config.go\<close>, \<open>trusted_proxy.go\<close>, \<open>proxy_headers.go\<close>,
    \<open>upstream_headers.go\<close>): the headers of an upstream request: identity, forwarding headers, cookies and
    the administrator's own headers.
  \<^item> \<open>Dynamic_Runtime\<close> (\<open>dynamic_runtime_state.go\<close>, \<open>dynamic_authority.go\<close>): the policy of
    targets, resolution, learned paths, the budgets of streams and parses, the sealed form of capabilities.
  \<^item> \<open>Dynamic_Issuer\<close> (\<open>dynamic_capability_issuer.go\<close>): how a capability is minted for a discovered
    URL, used again while it lives, and published.
  \<^item> \<open>Url_Reference\<close>, \<open>Redirect_Headers\<close>, \<open>Redirect_Transport\<close>
    (\<open>redirect_transport.go\<close>): the resolution of a \<open>Location\<close>, the allow-lists of the headers that follow a
    redirect, and the round tripper that follows it, one definition per kind of hop and the loop over them.
    \<open>Redirect_Safety\<close> and \<open>Redirect_Resources\<close> hold what it guarantees.
  \<^item> \<open>Progress_Request\<close>, \<open>Progress_Coalescer\<close> (\<open>legacy_progress.go\<close>,
    \<open>legacy_progress_lifecycle.go\<close>): the reports of playback progress that replace one another while they wait, their
    keys, the captured answer, the queue of each key with its timers, the stops that hold it, and the drain of a site.
    \<open>Progress_Queue\<close> is the abstract queue of updates and stops it refines, \<open>Progress_Safety\<close> its
    step relation and invariant, \<open>Progress_Sites\<close> the properties over all sites.
  \<^item> \<open>Image_Lists\<close>, \<open>Image_Cache\<close>, \<open>Image_Response\<close>, \<open>Image_Request\<close>
    (\<open>legacy_image_cache.go\<close>): the objects of the image cache and the two linked lists through them, a locale of
    what linking and unlinking do to an order that is interpreted on both; lookup, reservation, eviction, publication and
    the end of a site; which responses may be stored, the writer that captures them and the serving of a request; the
    key of a request. \<open>Image_Order\<close>, \<open>Image_Eviction\<close>, \<open>Image_Flights\<close>,
    \<open>Image_Safety\<close>, \<open>Image_Runs\<close> and \<open>Image_Sites\<close> relate every operation to one plain
    list of responses in order of use and keep the invariant over all interleavings; \<open>Image_Properties\<close> and
    \<open>Image_Key\<close> close with what clients and the operator rely on.
  \<^item> \<open>Ping_Cache\<close>, \<open>Ping_Safety\<close>, \<open>Ping_Properties\<close>
    (\<open>legacy_ping_cache.go\<close>): the cache of the answers to the ping of a site with its generations, and the body
    of a response that passes through it.

  \<^bold>\<open>What the lemmas show.\<close> Each theory states the invariant of its state and that every operation
  keeps it, the behaviour of each operation on its branches, and closes with the properties and with a concrete
  input for each of them. The properties carry the identifiers C1, C2, \<dots> of the manifest.

  \<^bold>\<open>Bounds and fuel.\<close> Every loop of the code is structural recursion or a function with a measure;
  loops that wait for the clock (the paced writer) take the list of the budget's growth, and the theorem that they
  return says how long it has to be. The eviction loops of the two caches are partial functions, and that they return
  in every reachable state is a property. The constants of the code (limits, cooldowns, lifetimes) are definitions with the
  code's values.

  \<^bold>\<open>Arguments of the model.\<close> The parser of \<open>net/url\<close> beyond the functions above, IDNA and the
  public suffix list, DNS, JSON, SHA-256, AES-GCM with base64, the clock, the interfaces of the host and the
  transports below the program are arguments of the definitions that use them; what a theorem needs of one is a
  hypothesis it names.

  \<^bold>\<open>Not modelled.\<close> SQL text and schema, file and archive handling, TLS and ACME, the Telegram
  client, the HTTP handlers that only decode JSON and call the components above, the shell scripts and the web
  page: input and output whose behaviour is that of SQLite, the operating system or a library. The rewriters of HLS,
  DASH and JSON documents sit between the decoders of the library and the issuer of capabilities, and only the issuer
  is modelled. The start of sites and listeners, the copying of bytes through a WebSocket, the static files of the panel
  and its counter of failed logins are outside the path of a proxied request's decisions.
\<close>

end
